(* ===== verification/Prelude.thy ===== *)
theory Prelude
  imports Main "HOL-Library.Word"
begin

text \<open>
  Shared vocabulary of the development: the machine integer types of the C sources, circular
  index windows over arrays, block writes into a byte store, and the small arithmetic and list
  lemmas that several components use. Nothing here models a particular source file.
\<close>

unbundle bit_operations_syntax

named_theorems ring_simps \<open>facts about circular index windows\<close>
named_theorems blit_simps \<open>facts about block writes\<close>

section \<open>Machine integers\<close>

type_synonym u8 = "8 word"
type_synonym u16 = "16 word"
type_synonym u32 = "32 word"
type_synonym u64 = "64 word"

text \<open>\<open>SIZE_MAX\<close> and \<open>UINT64_MAX\<close> of a 64-bit target.\<close>

abbreviation SIZE_MAX :: nat where
  "SIZE_MAX \<equiv> 2 ^ 64 - 1"

lemma max_word_u64: "unat (- 1 :: u64) = SIZE_MAX"
  by (simp add: unsigned_minus_1_eq_mask mask_eq_exp_minus_1)

section \<open>Circular index windows\<close>

text \<open>The \<open>n\<close> indices that follow \<open>h\<close> in an array of length \<open>L\<close>, wrapping at the end.\<close>

definition ring_idx :: "nat \<Rightarrow> nat \<Rightarrow> nat \<Rightarrow> nat list" where
  "ring_idx L h n = map (\<lambda>i. (h + i) mod L) [0..<n]"

lemma length_ring_idx [simp, ring_simps]: "length (ring_idx L h n) = n"
  by (simp add: ring_idx_def)

lemma ring_idx_0 [simp, ring_simps]: "ring_idx L h 0 = []"
  by (simp add: ring_idx_def)

lemma ring_idx_Suc [ring_simps]:
  "ring_idx L h (Suc n) = ring_idx L h n @ [(h + n) mod L]"
  by (simp add: ring_idx_def)

lemma ring_idx_Cons: "0 < n \<Longrightarrow> ring_idx L h n = (h mod L) # ring_idx L (Suc h mod L) (n - 1)"
proof -
  assume "0 < n"
  then obtain m where n: "n = Suc m" by (cases n) auto
  have "ring_idx L h (Suc m) = map (\<lambda>i. (h + i) mod L) (0 # map Suc [0..<m])"
    by (simp only: ring_idx_def upt_conv_Cons zero_less_Suc map_Suc_upt)
  also have "\<dots> = (h mod L) # map (\<lambda>i. (h + Suc i) mod L) [0..<m]"
    by (simp add: comp_def)
  also have "map (\<lambda>i. (h + Suc i) mod L) [0..<m] = ring_idx L (Suc h mod L) m"
    by (simp add: ring_idx_def mod_add_left_eq)
  finally show ?thesis by (simp add: n)
qed

lemma ring_idx_less: "0 < L \<Longrightarrow> i \<in> set (ring_idx L h n) \<Longrightarrow> i < L"
  by (auto simp: ring_idx_def)

lemma ring_shift_neq:
  fixes h :: nat
  assumes "i < n" and "n < L"
  shows "(h + i) mod L \<noteq> (h + n) mod L"
proof
  assume "(h + i) mod L = (h + n) mod L"
  then have "L dvd (h + n) - (h + i)"
    using assms mod_eq_dvd_iff_nat [of "h + i" "h + n" L] by simp
  with assms show False
    by (auto dest: dvd_imp_le)
qed

lemma ring_idx_next_fresh: "n < L \<Longrightarrow> (h + n) mod L \<notin> set (ring_idx L h n)"
proof
  assume "n < L" and "(h + n) mod L \<in> set (ring_idx L h n)"
  then obtain i where "i < n" and "(h + n) mod L = (h + i) mod L"
    by (auto simp: ring_idx_def)
  with ring_shift_neq [OF _ \<open>n < L\<close>, of i h] show False by simp
qed

lemma map_ring_idx_update:
  assumes "n < L" and "\<And>i. i < L \<Longrightarrow> i \<noteq> (h + n) mod L \<Longrightarrow> f i = g i"
  shows "map f (ring_idx L h n) = map g (ring_idx L h n)"
proof (rule map_cong [OF refl])
  fix i assume "i \<in> set (ring_idx L h n)"
  then have "i \<noteq> (h + n) mod L"
    using ring_idx_next_fresh [OF assms(1), of h] by blast
  moreover have "i < L"
    using \<open>i \<in> set (ring_idx L h n)\<close> assms(1) by (auto intro: ring_idx_less)
  ultimately show "f i = g i" by (intro assms(2))
qed

section \<open>Block writes into a byte store\<close>

text \<open>\<open>memcpy (st + off, bs)\<close> on a store given as a list.\<close>

definition blit :: "nat \<Rightarrow> 'a list \<Rightarrow> 'a list \<Rightarrow> 'a list" where
  "blit off bs st = take off st @ bs @ drop (off + length bs) st"

lemma length_blit [simp, blit_simps]:
  "off + length bs \<le> length st \<Longrightarrow> length (blit off bs st) = length st"
  by (simp add: blit_def)

lemma blit_read_same [blit_simps]:
  "off + length bs \<le> length st \<Longrightarrow> take (length bs) (drop off (blit off bs st)) = bs"
  by (simp add: blit_def)

lemma blit_read_before [blit_simps]:
  assumes "p + n \<le> off" and "off + length bs \<le> length st"
  shows "take n (drop p (blit off bs st)) = take n (drop p st)"
proof (rule nth_equalityI)
  show "length (take n (drop p (blit off bs st))) = length (take n (drop p st))"
    using assms by simp
  fix i assume "i < length (take n (drop p (blit off bs st)))"
  with assms show "take n (drop p (blit off bs st)) ! i = take n (drop p st) ! i"
    by (simp add: blit_def nth_append)
qed

lemma blit_read_after [blit_simps]:
  assumes "off + length bs \<le> p" and "off + length bs \<le> length st"
  shows "take n (drop p (blit off bs st)) = take n (drop p st)"
proof -
  have "drop p (blit off bs st) = drop p st"
    using assms by (simp add: blit_def)
  then show ?thesis by simp
qed

end
