(* ===== verification/Fifo.thy ===== *)
theory Fifo
  imports Prelude
begin

text \<open>
  The interface of a bounded queue as its clients see it. A push may be refused; an accepted
  push stores a value (\<open>stamp\<close>) computed from the input and the current state, because the
  queues of this program stamp what they store with counters of their own. The laws are the
  contract; \<open>fifo_run\<close> executes an arbitrary interleaving of pushes and pops, as the threads
  of the program perform them one critical section at a time.
\<close>

datatype 'i fifo_op = Push 'i | Pop

fun fifo_run :: "('i \<Rightarrow> 'q \<Rightarrow> bool \<times> 'q) \<Rightarrow> ('q \<Rightarrow> bool \<times> 'q) \<Rightarrow> ('q \<Rightarrow> 'i \<Rightarrow> 'a) \<Rightarrow>
    ('q \<Rightarrow> 'a list) \<Rightarrow> 'i fifo_op list \<Rightarrow> 'q \<Rightarrow> 'q \<times> 'a list \<times> 'a list" where
  "fifo_run push pop stamp cont [] q = (q, [], [])"
| "fifo_run push pop stamp cont (Push i # ops) q =
     (let (ok, q') = push i q;
          (r, acc, rem) = fifo_run push pop stamp cont ops q'
      in (r, if ok then stamp q i # acc else acc, rem))"
| "fifo_run push pop stamp cont (Pop # ops) q =
     (let (ok, q') = pop q;
          (r, acc, rem) = fifo_run push pop stamp cont ops q'
      in (r, acc, if ok then hd (cont q) # rem else rem))"

locale fifo =
  fixes inv :: "'q \<Rightarrow> bool"
    and contents :: "'q \<Rightarrow> 'a list"
    and push :: "'i \<Rightarrow> 'q \<Rightarrow> bool \<times> 'q"
    and pop :: "'q \<Rightarrow> bool \<times> 'q"
    and stamp :: "'q \<Rightarrow> 'i \<Rightarrow> 'a"
  assumes push_inv: "inv q \<Longrightarrow> push i q = (b, q') \<Longrightarrow> inv q'"
    and pop_inv: "inv q \<Longrightarrow> pop q = (b, q') \<Longrightarrow> inv q'"
    and push_accepted: "inv q \<Longrightarrow> push i q = (True, q') \<Longrightarrow> contents q' = contents q @ [stamp q i]"
    and push_refused: "inv q \<Longrightarrow> push i q = (False, q') \<Longrightarrow> contents q' = contents q"
    and pop_taken: "inv q \<Longrightarrow> pop q = (True, q') \<Longrightarrow> contents q = hd (contents q) # contents q'"
    and pop_empty: "inv q \<Longrightarrow> pop q = (False, q') \<Longrightarrow> contents q = [] \<and> q' = q"
begin

lemma run_step_push:
  assumes "inv q" and "push i q = (ok, q')"
  shows "inv q' \<and> contents q @ (if ok then [stamp q i] else []) = contents q'"
  using assms by (cases ok) (auto dest: push_inv push_accepted push_refused)

lemma run_step_pop:
  assumes "inv q" and "pop q = (ok, q')"
  shows "inv q' \<and> contents q = (if ok then [hd (contents q)] else []) @ contents q'"
proof (cases ok)
  case True
  then show ?thesis
    using pop_inv [OF assms] pop_taken [of q q'] assms by simp
next
  case False
  then show ?thesis
    using pop_inv [OF assms] pop_empty [of q q'] assms by simp
qed

text \<open>First in, first out: nothing is lost, duplicated or reordered.\<close>

lemma run_order:
  "inv q \<Longrightarrow> fifo_run push pop stamp contents ops q = (r, acc, rem) \<Longrightarrow>
   inv r \<and> contents q @ acc = rem @ contents r"
proof (induction ops arbitrary: q r acc rem)
  case Nil
  then show ?case by simp
next
  case (Cons a ops)
  show ?case
  proof (cases a)
    case (Push i)
    obtain ok q' where p: "push i q = (ok, q')" by (cases "push i q")
    obtain r' acc' rem' where f: "fifo_run push pop stamp contents ops q' = (r', acc', rem')"
      by (cases "fifo_run push pop stamp contents ops q'") auto
    have s: "inv q' \<and> contents q @ (if ok then [stamp q i] else []) = contents q'"
      using run_step_push Cons.prems(1) p by blast
    have "inv r' \<and> contents q' @ acc' = rem' @ contents r'"
      using Cons.IH s f by blast
    moreover have "r = r'" "rem = rem'" "acc = (if ok then [stamp q i] else []) @ acc'"
      using Cons.prems(2) p f by (auto simp: Push)
    ultimately show ?thesis using s by (metis append.assoc)
  next
    case Pop
    obtain ok q' where p: "pop q = (ok, q')" by (cases "pop q")
    obtain r' acc' rem' where f: "fifo_run push pop stamp contents ops q' = (r', acc', rem')"
      by (cases "fifo_run push pop stamp contents ops q'") auto
    have s: "inv q' \<and> contents q = (if ok then [hd (contents q)] else []) @ contents q'"
      using run_step_pop Cons.prems(1) p by blast
    have "inv r' \<and> contents q' @ acc' = rem' @ contents r'"
      using Cons.IH s f by blast
    moreover have "r = r'" "acc = acc'" "rem = (if ok then [hd (contents q)] else []) @ rem'"
      using Cons.prems(2) p f by (auto simp: Pop)
    ultimately show ?thesis using s by (metis append.assoc)
  qed
qed

end

text \<open>A queue with a capacity: it never holds more, and it refuses only when it says so.\<close>

locale bounded_fifo = fifo +
  fixes cap :: "'q \<Rightarrow> nat"
  assumes cap_bound: "inv q \<Longrightarrow> length (contents q) \<le> cap q"
    and push_cap: "push i q = (b, q') \<Longrightarrow> cap q' = cap q"
    and pop_cap: "pop q = (b, q') \<Longrightarrow> cap q' = cap q"
begin

lemma run_cap: "fifo_run push pop stamp contents ops q = (r, acc, rem) \<Longrightarrow> cap r = cap q"
proof (induction ops arbitrary: q r acc rem)
  case (Cons a ops)
  then show ?case
    by (cases a) (auto split: prod.splits dest: push_cap pop_cap)
qed simp

lemma run_bounded:
  assumes "inv q" and "fifo_run push pop stamp contents ops q = (r, acc, rem)"
  shows "length (contents q) + length acc \<le> length rem + cap q"
proof -
  have "inv r" and eq: "contents q @ acc = rem @ contents r"
    using run_order [OF assms] by auto
  then have "length (contents r) \<le> cap q"
    using cap_bound run_cap [OF assms(2)] by metis
  moreover have "length (contents q) + length acc = length rem + length (contents r)"
    using arg_cong [OF eq, of length] by simp
  ultimately show ?thesis by simp
qed

end

end
