(* ===== verification/SampleQueue.thy ===== *)
theory SampleQueue
  imports Fifo
begin

text \<open>
  \<open>sample_queue.c\<close>: the ring of sample blocks between the USB callback (producer) and the DSP
  thread (consumer). The queue is a record with the fields of \<open>struct sample_queue\<close>; a slot's
  \<open>samples\<close> pointer is its offset into \<open>storage\<close>, the one allocation all blocks share. Every
  operation of the C file runs under the queue's mutex, so each is one function on the state.
  A producer's buffer is the memory behind its pointer, \<open>None\<close> for \<open>NULL\<close>. The mutex, the
  condition variable and the allocator are the platform's: what they answer is an argument.
\<close>

section \<open>State\<close>

record sample_queue_slot =
  samples :: nat
  sample_count :: u32
  device_dropped_samples :: u64
  queue_dropped_samples :: u64

record sample_queue =
  slots :: "sample_queue_slot list"
  storage :: "u8 list"
  element_size :: nat
  block_capacity :: u32
  slot_count :: nat
  head :: nat
  tail :: nat
  count :: nat
  pending_device_drops :: u64
  pending_queue_drops :: u64
  stopping :: bool

section \<open>Operations\<close>

definition saturating_add :: "u64 \<Rightarrow> u64 \<Rightarrow> u64" where
  "saturating_add left right = (if - 1 - left < right then - 1 else left + right)"

text \<open>
  What the platform answers to the two allocations and the two \<open>pthread\<close> initialisations of
  \<open>sample_queue_init\<close>. \<open>garbage\<close> is what \<open>malloc\<close> leaves in the storage.
\<close>

record init_env =
  slots_allocated :: bool
  storage_allocated :: bool
  mutex_initialised :: bool
  cond_initialised :: bool
  garbage :: "nat \<Rightarrow> u8"

definition sample_queue_init :: "init_env \<Rightarrow> nat \<Rightarrow> u32 \<Rightarrow> nat \<Rightarrow> sample_queue option" where
  "sample_queue_init env esize bcap n =
     (if esize = 0 \<or> bcap = 0 \<or> n = 0 \<or> esize > SIZE_MAX div unat bcap then None
      else
        let block_bytes = esize * unat bcap
        in if n > SIZE_MAX div block_bytes then None
           else if \<not> slots_allocated env \<or> \<not> storage_allocated env then None
           else if \<not> mutex_initialised env then None
           else if \<not> cond_initialised env then None
           else Some \<lparr>
             slots = map (\<lambda>index. \<lparr> samples = index * block_bytes, sample_count = 0,
                                    device_dropped_samples = 0,
                                    queue_dropped_samples = 0 \<rparr>) [0..<n],
             storage = map (garbage env) [0..<n * block_bytes],
             element_size = esize, block_capacity = bcap, slot_count = n,
             head = 0, tail = 0, count = 0,
             pending_device_drops = 0, pending_queue_drops = 0, stopping = False \<rparr>)"

definition sample_queue_reset :: "sample_queue \<Rightarrow> sample_queue" where
  "sample_queue_reset q = q\<lparr> head := 0, tail := 0, count := 0,
                             pending_device_drops := 0, pending_queue_drops := 0 \<rparr>"

definition sample_queue_stop :: "sample_queue \<Rightarrow> sample_queue" where
  "sample_queue_stop q = q\<lparr> stopping := True \<rparr>"

definition sample_queue_push ::
  "(nat \<Rightarrow> u8) option \<Rightarrow> u32 \<Rightarrow> u64 \<Rightarrow> sample_queue \<Rightarrow> bool \<times> sample_queue" where
  "sample_queue_push buf n device_dropped q =
     (case buf of
        None \<Rightarrow> (False, q)
      | Some mem \<Rightarrow>
          if n = 0 then (False, q)
          else if stopping q then (False, q)
          else if n > block_capacity q \<or> count q = slot_count q then
            (False, q\<lparr> pending_device_drops :=
                         saturating_add (pending_device_drops q) device_dropped,
                       pending_queue_drops :=
                         saturating_add (pending_queue_drops q) (ucast n) \<rparr>)
          else
            let slot = slots q ! head q in
            (True, q\<lparr> storage := blit (samples slot)
                                  (map mem [0..<unat n * element_size q]) (storage q),
                      slots := (slots q)[head q := slot\<lparr>
                        sample_count := n,
                        device_dropped_samples :=
                          saturating_add (pending_device_drops q) device_dropped,
                        queue_dropped_samples := pending_queue_drops q \<rparr>],
                      pending_device_drops := 0,
                      pending_queue_drops := 0,
                      head := (head q + 1) mod slot_count q,
                      count := count q + 1 \<rparr>))"

text \<open>
  \<open>sample_queue_wait\<close> sleeps on the condition while the queue is empty and not stopping. One
  evaluation of its loop under the mutex either goes back to sleep (\<open>None\<close>) or answers.
\<close>

definition sample_queue_wait :: "sample_queue \<Rightarrow> bool option" where
  "sample_queue_wait q =
     (if count q = 0 \<and> \<not> stopping q then None
      else Some (count q \<noteq> 0 \<and> \<not> stopping q))"

definition sample_queue_try_peek :: "sample_queue \<Rightarrow> sample_queue_slot option" where
  "sample_queue_try_peek q =
     (if count q \<noteq> 0 \<and> \<not> stopping q then Some (slots q ! tail q) else None)"

definition sample_queue_release :: "sample_queue \<Rightarrow> bool \<times> sample_queue" where
  "sample_queue_release q =
     (if count q \<noteq> 0
      then (True, q\<lparr> tail := (tail q + 1) mod slot_count q, count := count q - 1 \<rparr>)
      else (False, q))"

section \<open>Invariant and abstraction\<close>

definition block_bytes :: "sample_queue \<Rightarrow> nat" where
  "block_bytes q = element_size q * unat (block_capacity q)"

definition occupied :: "sample_queue \<Rightarrow> nat list" where
  "occupied q = ring_idx (slot_count q) (tail q) (count q)"

definition sq_inv :: "sample_queue \<Rightarrow> bool" where
  "sq_inv q \<longleftrightarrow>
     0 < slot_count q \<and> 0 < element_size q \<and> 0 < block_capacity q \<and>
     slot_count q * block_bytes q \<le> SIZE_MAX \<and>
     length (slots q) = slot_count q \<and>
     length (storage q) = slot_count q * block_bytes q \<and>
     tail q < slot_count q \<and> count q \<le> slot_count q \<and>
     head q = (tail q + count q) mod slot_count q \<and>
     (\<forall>i < slot_count q. samples (slots q ! i) = i * block_bytes q
                       \<and> sample_count (slots q ! i) \<le> block_capacity q)"

text \<open>The bytes behind a slot, and what a consumer reads from it.\<close>

definition slot_bytes :: "sample_queue \<Rightarrow> sample_queue_slot \<Rightarrow> u8 list" where
  "slot_bytes q s = take (unat (sample_count s) * element_size q) (drop (samples s) (storage q))"

type_synonym block = "u8 list \<times> u64 \<times> u64"

definition slot_block :: "sample_queue \<Rightarrow> nat \<Rightarrow> block" where
  "slot_block q i = (slot_bytes q (slots q ! i),
                     device_dropped_samples (slots q ! i), queue_dropped_samples (slots q ! i))"

text \<open>The abstract queue: the blocks in the order the consumer will see them.\<close>

definition blocks :: "sample_queue \<Rightarrow> block list" where
  "blocks q = map (slot_block q) (occupied q)"

text \<open>A push as one input, and the block an accepted push appends.\<close>

type_synonym push_input = "(nat \<Rightarrow> u8) option \<times> u32 \<times> u64"

definition push_block :: "push_input \<Rightarrow> sample_queue \<Rightarrow> bool \<times> sample_queue" where
  "push_block x q = (case x of (buf, n, d) \<Rightarrow> sample_queue_push buf n d q)"

definition stamped :: "sample_queue \<Rightarrow> push_input \<Rightarrow> block" where
  "stamped q x = (case x of (buf, n, d) \<Rightarrow>
     (map (the buf) [0..<unat n * element_size q],
      saturating_add (pending_device_drops q) d, pending_queue_drops q))"

section \<open>Lemmas\<close>

lemma saturating_add_unat:
  "unat (saturating_add a b) = min SIZE_MAX (unat a + unat b)"
proof -
  have le: "a \<le> - 1" by simp
  have m: "unat (- 1 - a) = SIZE_MAX - unat a"
    using unat_sub [OF le] by (simp only: max_word_u64)
  have bound: "unat a < 2 ^ 64" "unat b < 2 ^ 64"
    using unsigned_less [of a] unsigned_less [of b] by simp_all
  show ?thesis
  proof (cases "- 1 - a < b")
    case True
    then have "SIZE_MAX - unat a < unat b"
      by (simp only: word_less_nat_alt m)
    then show ?thesis
      using True by (simp add: saturating_add_def max_word_u64)
  next
    case False
    then have "unat b \<le> SIZE_MAX - unat a"
      by (simp only: not_less word_le_nat_alt m)
    then have "unat a + unat b < 2 ^ 64"
      using bound by simp
    then show ?thesis
      using False by (simp add: saturating_add_def unat_word_ariths)
  qed
qed

lemma saturating_add_commute: "saturating_add a b = saturating_add b a"
  by (metis saturating_add_unat add.commute unsigned_word_eqI)

lemma saturating_add_0 [simp]: "saturating_add 0 b = b"
  by (simp add: saturating_add_def)

lemma occupied_less: "sq_inv q \<Longrightarrow> i \<in> set (occupied q) \<Longrightarrow> i < slot_count q"
  by (auto simp: occupied_def sq_inv_def intro: ring_idx_less)

lemma length_blocks [simp]: "length (blocks q) = count q"
  by (simp add: blocks_def occupied_def)

text \<open>A push writes inside the block of the head slot and nowhere else.\<close>

lemma block_offset:
  assumes "sq_inv q" and "i < slot_count q" and "n \<le> block_capacity q"
  shows "i * block_bytes q + unat n * element_size q \<le> Suc i * block_bytes q"
    and "Suc i * block_bytes q \<le> length (storage q)"
proof -
  have "unat n * element_size q \<le> block_bytes q"
    using assms(3) by (simp add: block_bytes_def word_le_nat_alt mult.commute)
  then show "i * block_bytes q + unat n * element_size q \<le> Suc i * block_bytes q"
    by simp
  show "Suc i * block_bytes q \<le> length (storage q)"
    using assms(1,2) by (simp add: sq_inv_def del: mult_Suc)
qed

lemma push_accepts:
  "fst (sample_queue_push buf n d q) \<longleftrightarrow>
     buf \<noteq> None \<and> n \<noteq> 0 \<and> \<not> stopping q \<and> n \<le> block_capacity q \<and> count q \<noteq> slot_count q"
  by (auto simp: sample_queue_push_def Let_def split: option.splits)

definition pushed :: "(nat \<Rightarrow> u8) \<Rightarrow> u32 \<Rightarrow> u64 \<Rightarrow> sample_queue \<Rightarrow> sample_queue" where
  "pushed mem n d q = snd (sample_queue_push (Some mem) n d q)"

lemma pushed_fields:
  assumes "fst (sample_queue_push (Some mem) n d q)"
  shows "slot_count (pushed mem n d q) = slot_count q"
    and "element_size (pushed mem n d q) = element_size q"
    and "block_capacity (pushed mem n d q) = block_capacity q"
    and "tail (pushed mem n d q) = tail q"
    and "count (pushed mem n d q) = Suc (count q)"
    and "head (pushed mem n d q) = Suc (head q) mod slot_count q"
    and "stopping (pushed mem n d q) = stopping q"
    and "storage (pushed mem n d q) =
           blit (samples (slots q ! head q)) (map mem [0..<unat n * element_size q]) (storage q)"
    and "slots (pushed mem n d q) = (slots q)[head q := (slots q ! head q)\<lparr>
           sample_count := n,
           device_dropped_samples := saturating_add (pending_device_drops q) d,
           queue_dropped_samples := pending_queue_drops q \<rparr>]"
    and "pending_device_drops (pushed mem n d q) = 0"
    and "pending_queue_drops (pushed mem n d q) = 0"
  using assms
  by (auto simp: pushed_def sample_queue_push_def Let_def split: if_splits)

lemma pushed_inv:
  assumes "sq_inv q" and ok: "fst (sample_queue_push (Some mem) n d q)"
  shows "sq_inv (pushed mem n d q)"
proof -
  have n: "n \<le> block_capacity q" and c: "count q < slot_count q"
    using ok assms(1) by (auto simp: push_accepts sq_inv_def)
  have h: "head q < slot_count q"
    using assms(1) by (simp add: sq_inv_def)
  have "samples (slots q ! head q) = head q * block_bytes q"
    using assms(1) h by (simp add: sq_inv_def)
  then have "samples (slots q ! head q) + unat n * element_size q \<le> length (storage q)"
    using block_offset [OF assms(1) h n] by linarith
  moreover have "block_bytes (pushed mem n d q) = block_bytes q"
    by (simp add: block_bytes_def pushed_fields [OF ok])
  moreover have "Suc (head q) mod slot_count q = (tail q + Suc (count q)) mod slot_count q"
    using assms(1) by (simp add: sq_inv_def mod_Suc_eq)
  ultimately show ?thesis
    using assms(1) n c h
    by (simp add: sq_inv_def pushed_fields [OF ok] nth_list_update)
qed

text \<open>Every other block keeps its bytes and its counters.\<close>

lemma pushed_frame:
  assumes inv: "sq_inv q" and ok: "fst (sample_queue_push (Some mem) n d q)"
    and i: "i < slot_count q" "i \<noteq> head q"
  shows "slot_block (pushed mem n d q) i = slot_block q i"
proof -
  let ?bs = "map mem [0..<unat n * element_size q]"
  let ?len = "unat (sample_count (slots q ! i)) * element_size q"
  have n: "n \<le> block_capacity q"
    using ok by (simp add: push_accepts)
  have h: "head q < slot_count q"
    using inv by (simp add: sq_inv_def)
  have off: "samples (slots q ! head q) = head q * block_bytes q"
      "samples (slots q ! i) = i * block_bytes q"
    using inv h i by (simp_all add: sq_inv_def)
  have wr: "head q * block_bytes q + unat n * element_size q \<le> Suc (head q) * block_bytes q"
    and hi: "Suc (head q) * block_bytes q \<le> length (storage q)"
    using block_offset [OF inv h n] by auto
  have rd: "i * block_bytes q + ?len \<le> Suc i * block_bytes q"
    using block_offset(1) [OF inv i(1)] inv i by (simp add: sq_inv_def)
  have "take ?len (drop (i * block_bytes q) (blit (head q * block_bytes q) ?bs (storage q)))
      = take ?len (drop (i * block_bytes q) (storage q))"
  proof (cases "i < head q")
    case True
    then have "Suc i * block_bytes q \<le> head q * block_bytes q"
      by (intro mult_right_mono) auto
    with rd wr hi show ?thesis by (intro blit_read_before) auto
  next
    case False
    with i(2) have "Suc (head q) * block_bytes q \<le> i * block_bytes q"
      by (intro mult_right_mono) auto
    with wr hi show ?thesis by (intro blit_read_after) auto
  qed
  then show ?thesis
    using i by (simp add: slot_block_def slot_bytes_def pushed_fields [OF ok] off)
qed

lemma pushed_head_block:
  assumes inv: "sq_inv q" and ok: "fst (sample_queue_push (Some mem) n d q)"
  shows "slot_block (pushed mem n d q) (head q) = stamped q (Some mem, n, d)"
proof -
  have n: "n \<le> block_capacity q"
    using ok by (simp add: push_accepts)
  have h: "head q < slot_count q" "head q < length (slots q)"
    using inv by (simp_all add: sq_inv_def)
  have "head q * block_bytes q + unat n * element_size q \<le> length (storage q)"
    using block_offset [OF inv h(1) n] by linarith
  then show ?thesis
    using inv h blit_read_same [of "head q * block_bytes q" "map mem [0..<unat n * element_size q]" "storage q"]
    by (simp add: slot_block_def slot_bytes_def pushed_fields [OF ok] stamped_def sq_inv_def)
qed

lemma pushed_blocks:
  assumes inv: "sq_inv q" and ok: "fst (sample_queue_push (Some mem) n d q)"
  shows "blocks (pushed mem n d q) = blocks q @ [stamped q (Some mem, n, d)]"
proof -
  have c: "count q < slot_count q" and h: "head q = (tail q + count q) mod slot_count q"
    using ok inv by (auto simp: push_accepts sq_inv_def)
  have "map (slot_block (pushed mem n d q)) (occupied q) = map (slot_block q) (occupied q)"
    unfolding occupied_def
    by (rule map_ring_idx_update [OF c]) (simp add: pushed_frame [OF inv ok] h)
  then show ?thesis
    using pushed_head_block [OF inv ok]
    by (simp add: blocks_def occupied_def pushed_fields [OF ok] ring_idx_Suc h)
qed

section \<open>The ring is a bounded first-in first-out queue\<close>

lemma push_refuses:
  assumes "sample_queue_push buf n d q = (False, q')"
  shows "sq_inv q' = sq_inv q" and "blocks q' = blocks q" and "slot_count q' = slot_count q"
  using assms
  by (auto simp: sample_queue_push_def Let_def sq_inv_def block_bytes_def blocks_def occupied_def
      slot_block_def [abs_def] slot_bytes_def split: option.splits if_splits)

lemma push_True:
  assumes "sample_queue_push buf n d q = (True, q')"
  obtains mem where "buf = Some mem" and "fst (sample_queue_push (Some mem) n d q)"
    and "q' = pushed mem n d q"
proof (cases buf)
  case None
  with assms show ?thesis by (simp add: sample_queue_push_def)
next
  case (Some mem)
  show ?thesis
    by (rule that [of mem]) (use assms Some in \<open>simp_all add: pushed_def\<close>)
qed

lemma push_block_pair: "push_block (buf, n, d) q = sample_queue_push buf n d q"
  by (simp add: push_block_def)

lemma push_block_True:
  assumes "push_block i q = (True, q')"
  obtains mem n d where "i = (Some mem, n, d)" and "fst (sample_queue_push (Some mem) n d q)"
    and "q' = pushed mem n d q"
  using assms by (cases i) (auto simp: push_block_def elim: push_True)

lemma push_block_False:
  assumes "push_block i q = (False, q')"
  shows "sq_inv q' = sq_inv q" and "blocks q' = blocks q" and "slot_count q' = slot_count q"
  using assms by (cases i; simp add: push_block_def push_refuses)+

lemma release_True:
  assumes "sq_inv q" and "sample_queue_release q = (True, q')"
  shows "sq_inv q'" and "blocks q = slot_block q (tail q) # blocks q'"
    and "slot_count q' = slot_count q" and "count q' = count q - 1"
proof -
  have c: "0 < count q" and q': "q' = q\<lparr> tail := Suc (tail q) mod slot_count q, count := count q - 1 \<rparr>"
    using assms(2) by (auto simp: sample_queue_release_def split: if_splits)
  have "(Suc (tail q) mod slot_count q + (count q - 1)) mod slot_count q
        = (Suc (tail q) + (count q - 1)) mod slot_count q"
    by (rule mod_add_left_eq)
  also have "Suc (tail q) + (count q - 1) = tail q + count q"
    using c by simp
  finally have "(Suc (tail q) mod slot_count q + (count q - 1)) mod slot_count q
        = (tail q + count q) mod slot_count q" .
  then show "sq_inv q'"
    using assms(1) c by (auto simp: sq_inv_def q' block_bytes_def)
  show "slot_count q' = slot_count q" and "count q' = count q - 1"
    by (simp_all add: q')
  have "slot_block q' = slot_block q"
    by (simp add: fun_eq_iff slot_block_def slot_bytes_def q')
  then show "blocks q = slot_block q (tail q) # blocks q'"
    using assms(1) c by (simp add: blocks_def occupied_def ring_idx_Cons q' sq_inv_def)
qed

lemma release_False:
  "sample_queue_release q = (False, q') \<Longrightarrow> blocks q = [] \<and> q' = q"
  by (auto simp: sample_queue_release_def blocks_def occupied_def split: if_splits)

interpretation sq: bounded_fifo sq_inv blocks push_block sample_queue_release stamped slot_count
proof unfold_locales
  fix q i q' b
  assume inv: "sq_inv q" and p: "push_block i q = (b, q')"
  show "sq_inv q'"
  proof (cases b)
    case True
    with p inv show ?thesis by (auto elim!: push_block_True intro: pushed_inv)
  next
    case False
    with p inv show ?thesis by (simp add: push_block_False)
  qed
next
  fix q b q'
  assume inv: "sq_inv q" and p: "sample_queue_release q = (b, q')"
  show "sq_inv q'"
  proof (cases b)
    case True
    with p inv show ?thesis by (auto intro: release_True)
  next
    case False
    with p inv release_False [of q q'] show ?thesis by simp
  qed
next
  fix q i q'
  assume "sq_inv q" and "push_block i q = (True, q')"
  then show "blocks q' = blocks q @ [stamped q i]"
    by (auto elim!: push_block_True intro: pushed_blocks)
next
  fix q i q'
  assume "push_block i q = (False, q')"
  then show "blocks q' = blocks q" by (rule push_block_False)
next
  fix q q'
  assume "sq_inv q" and "sample_queue_release q = (True, q')"
  then show "blocks q = hd (blocks q) # blocks q'"
    by (simp add: release_True(2) [of q q'])
next
  fix q q'
  assume "sample_queue_release q = (False, q')"
  then show "blocks q = [] \<and> q' = q" by (rule release_False)
next
  fix q
  assume "sq_inv q"
  then show "length (blocks q) \<le> slot_count q" by (simp add: sq_inv_def)
next
  fix i q b q'
  assume "push_block i q = (b, q')"
  then show "slot_count q' = slot_count q"
    by (cases b) (auto elim!: push_block_True simp: pushed_fields push_block_False)
next
  fix q b q'
  assume "sample_queue_release q = (b, q')"
  then show "slot_count q' = slot_count q"
    by (auto simp: sample_queue_release_def split: if_splits)
qed

section \<open>Initial states\<close>

lemma init_no_overflow:
  assumes "sample_queue_init env esize bcap n = Some q"
  shows "n * (esize * unat bcap) \<le> SIZE_MAX"
proof -
  have "0 < esize * unat bcap" and "n \<le> SIZE_MAX div (esize * unat bcap)"
    using assms by (auto simp: sample_queue_init_def Let_def unat_gt_0 split: if_splits)
  then have "n * (esize * unat bcap) \<le> SIZE_MAX div (esize * unat bcap) * (esize * unat bcap)"
    by (intro mult_right_mono) auto
  also have "\<dots> \<le> SIZE_MAX" by (rule div_times_less_eq_dividend)
  finally show ?thesis .
qed

lemma init_inv:
  assumes "sample_queue_init env esize bcap n = Some q"
  shows "sq_inv q" and "blocks q = []" and "slot_count q = n"
  using assms init_no_overflow [OF assms]
  by (auto simp: sample_queue_init_def Let_def sq_inv_def block_bytes_def blocks_def occupied_def
      word_gt_0 split: if_splits)

lemma reset_inv: "sq_inv q \<Longrightarrow> sq_inv (sample_queue_reset q) \<and> blocks (sample_queue_reset q) = []"
  by (simp add: sample_queue_reset_def sq_inv_def block_bytes_def blocks_def occupied_def)

lemma stop_inv: "sq_inv q \<Longrightarrow> sq_inv (sample_queue_stop q)"
  by (simp add: sample_queue_stop_def sq_inv_def block_bytes_def)

section \<open>Producer and consumer threads\<close>

text \<open>
  The system of \<open>airspyhf_wsprd.c\<close>: \<open>rx_callback\<close> pushes at any moment; \<open>wsprDsp\<close> peeks, keeps a
  copy of the slot structure while it processes the samples behind its pointer, and then
  releases; \<open>initSampleStorage\<close> resets the queue under \<open>dsp_mutex\<close>, which the consumer holds
  from its peek to its release; the shutdown path stops the queue. \<open>held\<close> records the copied
  structure and the block it denoted when it was peeked.
\<close>

record sq_system =
  queue :: sample_queue
  held :: "(sample_queue_slot \<times> block) option"

definition read_block :: "sample_queue \<Rightarrow> sample_queue_slot \<Rightarrow> block" where
  "read_block q s = (slot_bytes q s, device_dropped_samples s, queue_dropped_samples s)"

inductive sq_step :: "sq_system \<Rightarrow> sq_system \<Rightarrow> bool" where
  rx_callback: "sq_step s (s\<lparr> queue := snd (sample_queue_push buf n d (queue s)) \<rparr>)"
| dsp_peek: "held s = None \<Longrightarrow> sample_queue_try_peek (queue s) = Some slot \<Longrightarrow>
    sq_step s (s\<lparr> held := Some (slot, read_block (queue s) slot) \<rparr>)"
| dsp_release: "held s = Some h \<Longrightarrow>
    sq_step s (s\<lparr> queue := snd (sample_queue_release (queue s)), held := None \<rparr>)"
| reset_storage: "held s = None \<Longrightarrow>
    sq_step s (s\<lparr> queue := sample_queue_reset (queue s) \<rparr>)"
| shutdown: "sq_step s (s\<lparr> queue := sample_queue_stop (queue s) \<rparr>)"

inductive sq_reachable :: "sq_system \<Rightarrow> bool" where
  created: "sample_queue_init env esize bcap n = Some q \<Longrightarrow>
    sq_reachable \<lparr> queue = q, held = None \<rparr>"
| moved: "sq_reachable s \<Longrightarrow> sq_step s t \<Longrightarrow> sq_reachable t"

text \<open>The consumer owns the tail slot for as long as it holds it.\<close>

definition sq_system_inv :: "sq_system \<Rightarrow> bool" where
  "sq_system_inv s \<longleftrightarrow> sq_inv (queue s) \<and>
     (\<forall>slot b. held s = Some (slot, b) \<longrightarrow>
        0 < count (queue s) \<and> slot = slots (queue s) ! tail (queue s)
        \<and> b = slot_block (queue s) (tail (queue s)))"

lemma read_block_slot: "read_block q (slots q ! i) = slot_block q i"
  by (simp add: read_block_def slot_block_def)

lemma push_keeps_tail:
  fixes buf n d q
  defines "q' \<equiv> snd (sample_queue_push buf n d q)"
  assumes "sq_inv q" and "0 < count q"
  shows "0 < count q' \<and> tail q' = tail q \<and> slots q' ! tail q' = slots q ! tail q
         \<and> slot_block q' (tail q') = slot_block q (tail q)"
proof (cases "fst (sample_queue_push buf n d q)")
  case False
  then show ?thesis
    using assms(3)
    by (auto simp: q'_def sample_queue_push_def Let_def slot_block_def slot_bytes_def
        split: option.splits if_splits)
next
  case True
  then obtain mem where ok: "fst (sample_queue_push (Some mem) n d q)" and q': "q' = pushed mem n d q"
    by (metis prod.collapse push_True q'_def)
  have c: "count q < slot_count q"
    using ok assms(2) by (auto simp: push_accepts sq_inv_def)
  have "head q \<noteq> tail q"
    using ring_shift_neq [OF assms(3) c, of "tail q"] assms(2) by (simp add: sq_inv_def)
  then show ?thesis
    using assms(2) pushed_frame [OF assms(2) ok, of "tail q"]
    by (simp add: q' pushed_fields [OF ok] sq_inv_def)
qed

lemma sq_step_inv: "sq_step s t \<Longrightarrow> sq_system_inv s \<Longrightarrow> sq_system_inv t"
proof (induction rule: sq_step.induct)
  case (rx_callback s buf n d)
  have "sq_inv (snd (sample_queue_push buf n d (queue s)))"
    using rx_callback sq.push_inv [of "queue s" "(buf, n, d)"]
    by (simp add: sq_system_inv_def push_block_def prod_eq_iff)
  then show ?case
    using rx_callback push_keeps_tail [of "queue s" buf n d] by (auto simp: sq_system_inv_def)
next
  case (dsp_peek s slot)
  then show ?case
    by (auto simp: sq_system_inv_def sample_queue_try_peek_def read_block_slot split: if_splits)
next
  case (dsp_release s h)
  then show ?case
    using sq.pop_inv [of "queue s"] by (simp add: sq_system_inv_def prod_eq_iff)
next
  case (reset_storage s)
  then show ?case by (simp add: sq_system_inv_def reset_inv)
next
  case (shutdown s)
  have "sq_inv (sample_queue_stop (queue s))"
    using shutdown by (simp add: sq_system_inv_def stop_inv)
  moreover have "slot_block (sample_queue_stop (queue s)) = slot_block (queue s)"
    by (simp add: fun_eq_iff sample_queue_stop_def slot_block_def slot_bytes_def)
  moreover have "tail (sample_queue_stop (queue s)) = tail (queue s)"
      "slots (sample_queue_stop (queue s)) = slots (queue s)"
      "count (sample_queue_stop (queue s)) = count (queue s)"
    by (simp_all add: sample_queue_stop_def)
  ultimately show ?case
    using shutdown by (simp add: sq_system_inv_def)
qed

lemma sq_reachable_inv: "sq_reachable s \<Longrightarrow> sq_system_inv s"
proof (induction rule: sq_reachable.induct)
  case (created env esize bcap n q)
  then show ?case by (simp add: sq_system_inv_def init_inv)
qed (blast intro: sq_step_inv)

section \<open>Overrun accounting\<close>

text \<open>
  Over a run of pushes and releases of a queue that is not stopping: the samples refused for
  want of room, and the samples the device reported as dropped before each push.
\<close>

fun overrun_samples :: "push_input fifo_op list \<Rightarrow> sample_queue \<Rightarrow> nat" where
  "overrun_samples [] q = 0"
| "overrun_samples (Push (buf, n, d) # ops) q =
     (case sample_queue_push buf n d q of (ok, q') \<Rightarrow>
        (if buf \<noteq> None \<and> n \<noteq> 0 \<and> \<not> ok then unat n else 0) + overrun_samples ops q')"
| "overrun_samples (Pop # ops) q = overrun_samples ops (snd (sample_queue_release q))"

fun device_losses :: "push_input fifo_op list \<Rightarrow> nat" where
  "device_losses [] = 0"
| "device_losses (Push (buf, n, d) # ops) =
     (if buf \<noteq> None \<and> n \<noteq> 0 then unat d else 0) + device_losses ops"
| "device_losses (Pop # ops) = device_losses ops"

abbreviation sq_run where
  "sq_run \<equiv> fifo_run push_block sample_queue_release stamped blocks"

abbreviation queue_drops :: "block list \<Rightarrow> nat" where
  "queue_drops bs \<equiv> sum_list (map (\<lambda>b. unat (snd (snd b))) bs)"

abbreviation device_drops :: "block list \<Rightarrow> nat" where
  "device_drops bs \<equiv> sum_list (map (\<lambda>b. unat (fst (snd b))) bs)"

lemma release_pending:
  "pending_queue_drops (snd (sample_queue_release q)) = pending_queue_drops q"
  "pending_device_drops (snd (sample_queue_release q)) = pending_device_drops q"
  "stopping (snd (sample_queue_release q)) = stopping q"
  by (simp_all add: sample_queue_release_def)

lemma saturating_add_exact:
  "unat a + unat b \<le> SIZE_MAX \<Longrightarrow> unat (saturating_add a b) = unat a + unat b"
  by (simp add: saturating_add_unat)

lemma unat_ucast_u32 [simp]: "unat (ucast (n :: u32) :: u64) = unat n"
proof -
  have "unat n < 2 ^ 32" using unsigned_less [of n, where ?'a = nat] by simp
  then show ?thesis by (simp add: unsigned_ucast_eq take_bit_nat_eq_self)
qed

lemma push_queue_pending:
  assumes "sample_queue_push buf n d q = (ok, q')" and "\<not> stopping q"
    and "unat (pending_queue_drops q) + (if buf \<noteq> None \<and> n \<noteq> 0 \<and> \<not> ok then unat n else 0) \<le> SIZE_MAX"
  shows "(if ok then unat (pending_queue_drops q) else 0) + unat (pending_queue_drops q')
           = unat (pending_queue_drops q) + (if buf \<noteq> None \<and> n \<noteq> 0 \<and> \<not> ok then unat n else 0)"
  using assms
  by (auto simp: sample_queue_push_def Let_def saturating_add_exact split: option.splits if_splits)

lemma push_device_pending:
  assumes "sample_queue_push buf n d q = (ok, q')" and "\<not> stopping q"
    and "unat (pending_device_drops q) + (if buf \<noteq> None \<and> n \<noteq> 0 then unat d else 0) \<le> SIZE_MAX"
  shows "(if ok then unat (saturating_add (pending_device_drops q) d) else 0)
           + unat (pending_device_drops q')
           = unat (pending_device_drops q) + (if buf \<noteq> None \<and> n \<noteq> 0 then unat d else 0)"
  using assms
  by (auto simp: sample_queue_push_def Let_def saturating_add_exact split: option.splits if_splits)

lemma push_stopping: "stopping (snd (sample_queue_push buf n d q)) = stopping q"
  by (auto simp: sample_queue_push_def Let_def split: option.splits)

lemma stamped_drops:
  "snd (snd (stamped q (buf, n, d))) = pending_queue_drops q"
  "fst (snd (stamped q (buf, n, d))) = saturating_add (pending_device_drops q) d"
  by (simp_all add: stamped_def)

lemma run_queue_drops:
  "sq_run ops q = (r, acc, rem) \<Longrightarrow> \<not> stopping q \<Longrightarrow>
   unat (pending_queue_drops q) + overrun_samples ops q \<le> SIZE_MAX \<Longrightarrow>
   queue_drops acc + unat (pending_queue_drops r)
     = unat (pending_queue_drops q) + overrun_samples ops q"
proof (induction ops arbitrary: q r acc rem)
  case Nil
  then show ?case by simp
next
  case (Cons a ops)
  show ?case
  proof (cases a)
    case (Push x)
    obtain buf n d where x: "x = (buf, n, d)" by (cases x)
    obtain ok q' where p: "sample_queue_push buf n d q = (ok, q')"
      by (cases "sample_queue_push buf n d q")
    obtain r' acc' rem' where f: "sq_run ops q' = (r', acc', rem')"
      by (cases "sq_run ops q'") auto
    have st: "\<not> stopping q'"
      using push_stopping [of buf n d q] p Cons.prems(2) by simp
    let ?lost = "if buf \<noteq> None \<and> n \<noteq> 0 \<and> \<not> ok then unat n else 0"
    have bound: "unat (pending_queue_drops q) + (?lost + overrun_samples ops q') \<le> SIZE_MAX"
      using Cons.prems(3) p by (simp add: Push x)
    have q': "(if ok then unat (pending_queue_drops q) else 0) + unat (pending_queue_drops q')
        = unat (pending_queue_drops q) + ?lost"
      using bound by (intro push_queue_pending [OF p Cons.prems(2)]) linarith
    have "queue_drops acc' + unat (pending_queue_drops r')
        = unat (pending_queue_drops q') + overrun_samples ops q'"
      using q' bound by (intro Cons.IH [OF f st]) linarith
    moreover have "r = r'" and "queue_drops acc = (if ok then unat (pending_queue_drops q) else 0) + queue_drops acc'"
      using Cons.prems(1) p f by (auto simp: Push x push_block_pair stamped_drops)
    moreover have "overrun_samples (a # ops) q = ?lost + overrun_samples ops q'"
      using p by (simp add: Push x)
    ultimately show ?thesis using q' by simp
  next
    case Pop
    then show ?thesis
      using Cons.prems Cons.IH [of "snd (sample_queue_release q)"]
      by (auto simp: release_pending split: prod.splits)
  qed
qed

lemma run_device_drops:
  "sq_run ops q = (r, acc, rem) \<Longrightarrow> \<not> stopping q \<Longrightarrow>
   unat (pending_device_drops q) + device_losses ops \<le> SIZE_MAX \<Longrightarrow>
   device_drops acc + unat (pending_device_drops r)
     = unat (pending_device_drops q) + device_losses ops"
proof (induction ops arbitrary: q r acc rem)
  case Nil
  then show ?case by simp
next
  case (Cons a ops)
  show ?case
  proof (cases a)
    case (Push x)
    obtain buf n d where x: "x = (buf, n, d)" by (cases x)
    obtain ok q' where p: "sample_queue_push buf n d q = (ok, q')"
      by (cases "sample_queue_push buf n d q")
    obtain r' acc' rem' where f: "sq_run ops q' = (r', acc', rem')"
      by (cases "sq_run ops q'") auto
    have st: "\<not> stopping q'"
      using push_stopping [of buf n d q] p Cons.prems(2) by simp
    let ?lost = "if buf \<noteq> None \<and> n \<noteq> 0 then unat d else 0"
    let ?st = "if ok then unat (saturating_add (pending_device_drops q) d) else 0"
    have bound: "unat (pending_device_drops q) + (?lost + device_losses ops) \<le> SIZE_MAX"
      using Cons.prems(3) by (simp add: Push x)
    have q': "?st + unat (pending_device_drops q') = unat (pending_device_drops q) + ?lost"
      using bound by (intro push_device_pending [OF p Cons.prems(2)]) linarith
    have "device_drops acc' + unat (pending_device_drops r')
        = unat (pending_device_drops q') + device_losses ops"
      using q' bound by (intro Cons.IH [OF f st]) linarith
    moreover have "r = r'" and "device_drops acc = ?st + device_drops acc'"
      using Cons.prems(1) p f by (auto simp: Push x push_block_pair stamped_drops)
    moreover have "device_losses (a # ops) = ?lost + device_losses ops"
      by (simp add: Push x)
    ultimately show ?thesis using q' by simp
  next
    case Pop
    then show ?thesis
      using Cons.prems Cons.IH [of "snd (sample_queue_release q)"]
      by (auto simp: release_pending split: prod.splits)
  qed
qed

section \<open>Properties\<close>

text \<open>C4: Every interleaving of pushes and releases on a queue that \<open>sample_queue_init\<close> created
  delivers exactly the accepted blocks, each with the bytes that were pushed, in the order of
  their acceptance: what the consumer has released followed by what the ring still holds is the
  sequence of accepted blocks, and the ring never holds more than \<open>slot_count\<close> blocks.\<close>

theorem sq_fifo_order:
  assumes "sample_queue_init env esize bcap n = Some q" and "sq_run ops q = (r, acc, rem)"
  shows "acc = rem @ blocks r \<and> length (blocks r) \<le> n"
proof -
  have inv: "sq_inv q" and "blocks q = []" and n: "slot_count q = n"
    using init_inv [OF assms(1)] by auto
  then have "sq_inv r \<and> acc = rem @ blocks r"
    using sq.run_order [OF inv assms(2)] by simp
  moreover have "slot_count r = n"
    using sq.run_cap [OF assms(2)] n by simp
  ultimately show ?thesis
    by (simp add: sq_inv_def)
qed

definition demo_env :: init_env where
  "demo_env = \<lparr> slots_allocated = True, storage_allocated = True, mutex_initialised = True,
                cond_initialised = True, garbage = (\<lambda>_. 0) \<rparr>"

definition demo_queue :: sample_queue where
  "demo_queue = the (sample_queue_init demo_env 1 2 2)"

lemma demo_queue_init: "sample_queue_init demo_env 1 2 2 = Some demo_queue"
  by (simp add: demo_queue_def sample_queue_init_def demo_env_def)

theorem sq_fifo_order_witness:
  "let ops = [Push (Some (\<lambda>_. 7), 1, 3), Push (Some (\<lambda>_. 9), 2, 0), Pop] in
   case sq_run ops demo_queue of (r, acc, rem) \<Rightarrow> acc = rem @ blocks r \<and> length (blocks r) \<le> 2"
  using sq_fifo_order [OF demo_queue_init] by (auto simp only: Let_def split: prod.split)

text \<open>C24: While the consumer holds a peeked slot, no activity of the producer, and no shutdown,
  changes what it reads: in every reachable state of the two threads the copied slot structure
  still denotes the very bytes and counters it denoted when it was peeked.\<close>

theorem sq_consumer_isolated:
  assumes "sq_reachable s" and "held s = Some (slot, b)"
  shows "read_block (queue s) slot = b"
proof -
  have "slot = slots (queue s) ! tail (queue s) \<and> b = slot_block (queue s) (tail (queue s))"
    using sq_reachable_inv [OF assms(1)] assms(2) unfolding sq_system_inv_def by blast
  then show ?thesis by (simp add: read_block_slot)
qed

theorem sq_consumer_isolated_witness:
  "\<exists>s slot b. sq_reachable s \<and> held s = Some (slot, b) \<and> read_block (queue s) slot = b"
proof -
  let ?s0 = "\<lparr> queue = demo_queue, held = None \<rparr>"
  let ?q1 = "snd (sample_queue_push (Some (\<lambda>_. 7)) 1 3 demo_queue)"
  let ?slot = "slots ?q1 ! tail ?q1"
  let ?s2 = "\<lparr> queue = ?q1, held = Some (?slot, read_block ?q1 ?slot) \<rparr>"
  have "sq_reachable ?s0" by (rule sq_reachable.created [OF demo_queue_init])
  then have s1: "sq_reachable \<lparr> queue = ?q1, held = None \<rparr>"
    using sq_step.rx_callback [of ?s0 "Some (\<lambda>_. 7)" 1 3] by (auto intro: sq_reachable.moved)
  have "sample_queue_try_peek ?q1 = Some ?slot"
    by (simp add: demo_queue_def sample_queue_init_def demo_env_def sample_queue_push_def
        sample_queue_try_peek_def)
  then have "sq_step \<lparr> queue = ?q1, held = None \<rparr> ?s2"
    using sq_step.dsp_peek [of "\<lparr> queue = ?q1, held = None \<rparr>" ?slot] by simp
  with s1 have "sq_reachable ?s2" by (rule sq_reachable.moved)
  moreover have "held ?s2 = Some (?slot, read_block ?q1 ?slot)" by simp
  ultimately show ?thesis using sq_consumer_isolated by blast
qed

text \<open>Overruns are accounted for sample by sample: over any run of a queue that is not
  stopping, the queue-drop counters stamped on the accepted blocks, plus what is still pending,
  add up to the samples of the refused blocks; likewise the device drops reported with every
  push; provided the totals fit the 64-bit counters.\<close>

theorem sq_overrun_accounting:
  assumes "sq_run ops q = (r, acc, rem)" and "\<not> stopping q"
    and "unat (pending_queue_drops q) + overrun_samples ops q \<le> SIZE_MAX"
    and "unat (pending_device_drops q) + device_losses ops \<le> SIZE_MAX"
  shows "queue_drops acc + unat (pending_queue_drops r)
           = unat (pending_queue_drops q) + overrun_samples ops q
         \<and> device_drops acc + unat (pending_device_drops r)
           = unat (pending_device_drops q) + device_losses ops"
  using run_queue_drops [OF assms(1-3)] run_device_drops [OF assms(1,2,4)] by blast

theorem sq_overrun_accounting_witness:
  "let ops = [Push (Some (\<lambda>_. 7), 1, 3), Push (Some (\<lambda>_. 9), 3, 5)] in
   case sq_run ops demo_queue of (r, acc, rem) \<Rightarrow>
     queue_drops acc + unat (pending_queue_drops r) = 3
     \<and> device_drops acc + unat (pending_device_drops r) = 8"
proof -
  let ?ops = "[Push (Some (\<lambda>_. 7), 1, 3), Push (Some (\<lambda>_. 9), 3, 5)] :: push_input fifo_op list"
  obtain r acc rem where run: "sq_run ?ops demo_queue = (r, acc, rem)"
    by (cases "sq_run ?ops demo_queue") auto
  have st: "\<not> stopping demo_queue" and
    o: "overrun_samples ?ops demo_queue = 3" and d: "device_losses ?ops = 8" and
    p: "pending_queue_drops demo_queue = 0" "pending_device_drops demo_queue = 0"
    by (simp_all add: demo_queue_def sample_queue_init_def demo_env_def sample_queue_push_def)
  have "queue_drops acc + unat (pending_queue_drops r)
           = unat (pending_queue_drops demo_queue) + overrun_samples ?ops demo_queue
         \<and> device_drops acc + unat (pending_device_drops r)
           = unat (pending_device_drops demo_queue) + device_losses ?ops"
    by (rule sq_overrun_accounting [OF run st]) (simp_all only: o d p, simp_all)
  then have "queue_drops acc + unat (pending_queue_drops r) = 3
      \<and> device_drops acc + unat (pending_device_drops r) = 8"
    unfolding o d p by simp
  then show ?thesis unfolding Let_def run by simp
qed

end
