(* ===== verification/CText.thy ===== *)
theory CText
  imports Prelude
begin

text \<open>
  The parts of \<open>ctype.h\<close>, \<open>string.h\<close> and \<open>strings.h\<close> that the program uses, in the C locale.
  A C string is the list of its characters without the terminating zero byte.
\<close>

abbreviation code :: "char \<Rightarrow> nat" where
  "code c \<equiv> of_char c"

definition in_span :: "nat \<Rightarrow> nat \<Rightarrow> char \<Rightarrow> bool" where
  "in_span lo hi c \<longleftrightarrow> lo \<le> code c \<and> code c \<le> hi"

definition c_isdigit :: "char \<Rightarrow> bool" where "c_isdigit = in_span 48 57"
definition c_isupper :: "char \<Rightarrow> bool" where "c_isupper = in_span 65 90"
definition c_islower :: "char \<Rightarrow> bool" where "c_islower = in_span 97 122"

definition c_isalpha :: "char \<Rightarrow> bool" where
  "c_isalpha c \<longleftrightarrow> c_isupper c \<or> c_islower c"

definition c_isalnum :: "char \<Rightarrow> bool" where
  "c_isalnum c \<longleftrightarrow> c_isalpha c \<or> c_isdigit c"

definition c_isspace :: "char \<Rightarrow> bool" where
  "c_isspace c \<longleftrightarrow> code c = 32 \<or> in_span 9 13 c"

definition c_toupper :: "char \<Rightarrow> char" where
  "c_toupper c = (if c_islower c then char_of (code c - 32) else c)"

definition c_tolower :: "char \<Rightarrow> char" where
  "c_tolower c = (if c_isupper c then char_of (code c + 32) else c)"

definition c_strcasecmp_eq :: "string \<Rightarrow> string \<Rightarrow> bool" where
  "c_strcasecmp_eq s t \<longleftrightarrow> map c_tolower s = map c_tolower t"

text \<open>The string up to a separator, and the rest from the separator on (\<open>strchr\<close>).\<close>

definition up_to :: "char \<Rightarrow> string \<Rightarrow> string" where
  "up_to c s = takeWhile (\<lambda>x. x \<noteq> c) s"

definition from_first :: "char \<Rightarrow> string \<Rightarrow> string" where
  "from_first c s = dropWhile (\<lambda>x. x \<noteq> c) s"

text \<open>A character array holds a string up to its first zero byte.\<close>

abbreviation NUL :: char where
  "NUL \<equiv> CHR 0x00"

definition cstr :: "char list \<Rightarrow> string" where
  "cstr mem = takeWhile (\<lambda>c. c \<noteq> NUL) mem"

lemma cstr_append: "NUL \<notin> set s \<Longrightarrow> cstr (s @ NUL # rest) = s"
  by (auto simp: cstr_def takeWhile_append takeWhile_eq_all_conv)

definition c_strcspn :: "string \<Rightarrow> string \<Rightarrow> nat" where
  "c_strcspn s reject = length (takeWhile (\<lambda>c. c \<notin> set reject) s)"

text \<open>
  \<open>strtok\<close> on the array \<open>buf\<close> from position \<open>pos\<close>: skip separators, take the token, overwrite the
  separator behind it. The answer is the array, the token's position and the position where the
  next call goes on, or nothing if no token is left (\<open>NULL\<close>).
\<close>

definition strtok :: "string \<Rightarrow> char list \<Rightarrow> nat \<Rightarrow> (char list \<times> nat \<times> nat) option" where
  "strtok delims buf pos =
     (let rest = cstr (drop pos buf);
          skip = length (takeWhile (\<lambda>c. c \<in> set delims) rest);
          tok = takeWhile (\<lambda>c. c \<notin> set delims) (drop skip rest);
          start = pos + skip; stop = start + length tok
      in if tok = [] then None
         else if stop < pos + length rest then Some (buf[stop := NUL], start, stop + 1)
         else Some (buf, start, stop))"

text \<open>\<open>atoi\<close> for values that fit.\<close>

definition c_atoi :: "string \<Rightarrow> int" where
  "c_atoi s =
     (let s = dropWhile c_isspace s;
          neg = (s \<noteq> [] \<and> hd s = CHR ''-'');
          s = (if s \<noteq> [] \<and> (hd s = CHR ''-'' \<or> hd s = CHR ''+'') then tl s else s);
          v = foldl (\<lambda>v c. 10 * v + (int (code c) - 48)) 0 (takeWhile c_isdigit s)
      in if neg then - v else v)"

text \<open>\<open>sprintf (buf, "%d", n)\<close>, and with a least width filled with blanks on the left.\<close>

fun dec_digits :: "nat \<Rightarrow> string" where
  "dec_digits n = (if n < 10 then [char_of (48 + n)] else dec_digits (n div 10) @ [char_of (48 + n mod 10)])"

declare dec_digits.simps [simp del]

definition fmt_int :: "int \<Rightarrow> string" where
  "fmt_int n = (if n < 0 then CHR ''-'' # dec_digits (nat (- n)) else dec_digits (nat n))"

definition pad_left :: "nat \<Rightarrow> char \<Rightarrow> string \<Rightarrow> string" where
  "pad_left w c s = replicate (w - length s) c @ s"

definition pad_right :: "nat \<Rightarrow> char \<Rightarrow> string \<Rightarrow> string" where
  "pad_right w c s = s @ replicate (w - length s) c"

lemma from_first_shorter:
  assumes "from_first c s = x # r"
  shows "length r < length s"
proof -
  have "length (from_first c s) \<le> length s"
    by (simp add: from_first_def length_dropWhile_le)
  with assms show ?thesis by simp
qed

lemmas ctype_defs = in_span_def c_isdigit_def c_isupper_def c_islower_def c_isalpha_def
  c_isalnum_def c_isspace_def

lemma code_char_of: "n < 256 \<Longrightarrow> code (char_of n) = n"
  by simp

lemma code_inj: "code c = code d \<longleftrightarrow> c = d"
  by (rule of_char_eq_iff)

lemma code_toupper: "code (c_toupper c) = (if c_islower c then code c - 32 else code c)"
  by (auto simp: c_toupper_def ctype_defs)

lemma code_tolower: "code (c_tolower c) = (if c_isupper c then code c + 32 else code c)"
  by (auto simp: c_tolower_def ctype_defs)

lemma toupper_classes [simp]:
  "c_isalpha (c_toupper c) = c_isalpha c"
  "c_isdigit (c_toupper c) = c_isdigit c"
  "c_isalnum (c_toupper c) = c_isalnum c"
  "\<not> c_islower (c_toupper c)"
  by (auto simp: ctype_defs code_toupper)

lemma toupper_idem [simp]: "c_toupper (c_toupper c) = c_toupper c"
  by (simp add: c_toupper_def [of "c_toupper c"])

lemma toupper_slash [simp]: "c_toupper c = CHR ''/'' \<longleftrightarrow> c = CHR ''/''"
proof -
  have "code (c_toupper c) = 47 \<longleftrightarrow> code c = 47"
    by (auto simp: code_toupper ctype_defs)
  then show ?thesis
    using code_inj [of "c_toupper c" "CHR ''/''"] code_inj [of c "CHR ''/''"] by simp
qed

lemma tolower_classes [simp]:
  "c_isalpha (c_tolower c) = c_isalpha c"
  "c_isdigit (c_tolower c) = c_isdigit c"
  "\<not> c_isupper (c_tolower c)"
  by (auto simp: ctype_defs code_tolower)

lemma tolower_idem [simp]: "c_tolower (c_tolower c) = c_tolower c"
  by (simp add: c_tolower_def [of "c_tolower c"])

section \<open>Tokens and numbers\<close>

lemma takeWhile_until: "list_all P xs \<Longrightarrow> \<not> P y \<Longrightarrow> takeWhile P (xs @ y # ys) = xs"
  by (induction xs) auto

text \<open>A token at the front, closed by a separator or by the end of the string.\<close>

lemma strtok_token:
  assumes "tok \<noteq> []" and "list_all (\<lambda>c. c \<notin> set delims \<and> c \<noteq> NUL) tok" and "d \<in> set delims" and "d \<noteq> NUL"
  shows "strtok delims (pre @ tok @ d # rest) (length pre) =
    Some (pre @ tok @ NUL # rest, length pre, Suc (length pre + length tok))"
proof -
  let ?r = "cstr (d # rest)"
  have r: "cstr (tok @ d # rest) = tok @ ?r"
    using assms(2) by (auto simp: cstr_def list_all_iff takeWhile_append)
  have dr: "?r = d # cstr rest" using assms(4) by (simp add: cstr_def)
  have skip: "takeWhile (\<lambda>c. c \<in> set delims) (tok @ ?r) = []"
    using assms(1,2) by (cases tok) auto
  have tok: "takeWhile (\<lambda>c. c \<notin> set delims) (tok @ ?r) = tok"
    unfolding dr using assms(2,3) by (intro takeWhile_until) (auto simp: list_all_iff)
  have upd: "(pre @ tok @ d # rest)[length pre + length tok := NUL] = pre @ tok @ NUL # rest"
    by (simp add: list_update_append)
  show ?thesis
    using assms(1) skip tok dr upd by (simp add: strtok_def Let_def r)
qed

lemma strtok_last:
  assumes "tok \<noteq> []" and "list_all (\<lambda>c. c \<notin> set delims \<and> c \<noteq> NUL) tok"
  shows "strtok delims (pre @ tok @ NUL # rest) (length pre) =
    Some (pre @ tok @ NUL # rest, length pre, length pre + length tok)"
proof -
  have r: "cstr (tok @ NUL # rest) = tok"
    unfolding cstr_def using assms(2) by (intro takeWhile_until) (auto simp: list_all_iff)
  have skip: "takeWhile (\<lambda>c. c \<in> set delims) tok = []"
    using assms(1,2) by (cases tok) auto
  have tok: "takeWhile (\<lambda>c. c \<notin> set delims) tok = tok"
    using assms(2) by (auto simp: takeWhile_eq_all_conv list_all_iff)
  have "cstr (drop (length pre) (pre @ tok @ NUL # rest)) = tok" using r by simp
  note eq = strtok_def [of delims "pre @ tok @ NUL # rest" "length pre", unfolded Let_def this skip
      list.size drop_0 tok]
  show ?thesis unfolding eq using assms(1) by simp
qed

lemma strcspn_until:
  "list_all (\<lambda>c. c \<notin> set reject) xs \<Longrightarrow> d \<in> set reject \<Longrightarrow> c_strcspn (xs @ d # ys) reject = length xs"
  unfolding c_strcspn_def by (subst takeWhile_until) auto

lemma strcspn_all: "list_all (\<lambda>c. c \<notin> set reject) xs \<Longrightarrow> c_strcspn xs reject = length xs"
  unfolding c_strcspn_def by (subst takeWhile_eq_all_conv [THEN iffD2]) (auto simp: list_all_iff)

lemma digit_code:
  assumes "k < 10"
  shows "c_isdigit (char_of (48 + k))" and "code (char_of (48 + k)) = 48 + k"
  using assms by (simp_all add: ctype_defs)

lemma dec_digits_digits: "list_all c_isdigit (dec_digits n)"
proof (induction n rule: dec_digits.induct)
  case (1 n)
  then show ?case
    using digit_code(1) [of n] digit_code(1) [of "n mod 10"]
    by (subst dec_digits.simps) simp
qed

lemma dec_digits_nonempty: "dec_digits n \<noteq> []"
  by (subst dec_digits.simps) simp

lemma dec_digits_value: "foldl (\<lambda>v c. 10 * v + (int (code c) - 48)) 0 (dec_digits n) = int n"
proof (induction n rule: dec_digits.induct)
  case (1 n)
  show ?case
  proof (cases "n < 10")
    case True
    then show ?thesis using digit_code(2) [of n] by (simp add: dec_digits.simps [of n])
  next
    case False
    have "code (char_of (48 + n mod 10)) = 48 + n mod 10" by (rule digit_code(2)) simp
    then have "foldl (\<lambda>v c. 10 * v + (int (code c) - 48)) 0 (dec_digits n)
        = 10 * int (n div 10) + int (n mod 10)"
      using "1.IH" [OF False] False by (simp only: dec_digits.simps [of n]) simp
    also have "\<dots> = int n" by presburger
    finally show ?thesis .
  qed
qed

text \<open>\<open>atoi\<close> reads back what \<open>%d\<close> printed.\<close>

lemma atoi_fmt_int: "0 \<le> n \<Longrightarrow> c_atoi (fmt_int n) = n"
proof -
  assume n: "0 \<le> n"
  let ?d = "dec_digits (nat n)"
  obtain c cs where d: "?d = c # cs" using dec_digits_nonempty [of "nat n"] by (cases ?d) auto
  have all: "list_all c_isdigit ?d" by (rule dec_digits_digits)
  then have c: "c_isdigit c" by (simp add: d)
  then have "\<not> c_isspace c" "c \<noteq> CHR ''-''" "c \<noteq> CHR ''+''" by (auto simp: ctype_defs)
  moreover have "takeWhile c_isdigit ?d = ?d" using all by (simp add: takeWhile_eq_all_conv list_all_iff)
  ultimately show ?thesis
    using n dec_digits_value [of "nat n"] by (simp add: c_atoi_def fmt_int_def Let_def d)
qed

end
