(* ===== verification/Station.thy ===== *)
theory Station
  imports CText
begin

text \<open>
  \<open>station.c\<close>: the normalisation of the receiver's callsign and grid locator. A call answers
  \<open>Some out\<close> with the output buffer's string when the C function returns true and \<open>None\<close> when it
  returns false (the buffer is then meaningless). \<open>None\<close> as input stands for \<open>NULL\<close>.
\<close>

section \<open>Callsign\<close>

text \<open>
  The loop of \<open>station_normalize_callsign\<close>: \<open>prev\<close> is the previous input character (none at
  index 0), the flags are \<open>has_letter\<close> and \<open>has_digit\<close>, \<open>out\<close> the characters written so far.
\<close>

fun callsign_scan :: "char option \<Rightarrow> bool \<Rightarrow> bool \<Rightarrow> string \<Rightarrow> string \<Rightarrow> (string \<times> bool \<times> bool) option"
where
  "callsign_scan prev has_letter has_digit out [] = Some (out, has_letter, has_digit)"
| "callsign_scan prev has_letter has_digit out (c # cs) =
     (if \<not> (c_isalnum c \<or> c = CHR ''/'') \<or> (c = CHR ''/'' \<and> prev = Some (CHR ''/'')) then None
      else callsign_scan (Some c) (has_letter \<or> c_isalpha c) (has_digit \<or> c_isdigit c)
             (out @ [c_toupper c]) cs)"

definition station_normalize_callsign :: "nat \<Rightarrow> string option \<Rightarrow> string option" where
  "station_normalize_callsign output_size input =
     (case input of
        None \<Rightarrow> None
      | Some s \<Rightarrow>
          if length s < 3 \<or> length s > 12 \<or> output_size \<le> length s
             \<or> s ! 0 = CHR ''/'' \<or> s ! (length s - 1) = CHR ''/'' then None
          else
            (case callsign_scan None False False [] s of
               None \<Rightarrow> None
             | Some (out, has_letter, has_digit) \<Rightarrow>
                 if has_letter \<and> has_digit then Some out else None))"

section \<open>Grid locator\<close>

definition station_normalize_grid :: "nat \<Rightarrow> string option \<Rightarrow> string option" where
  "station_normalize_grid output_size input =
     (case input of
        None \<Rightarrow> None
      | Some s \<Rightarrow>
          if (length s \<noteq> 4 \<and> length s \<noteq> 6) \<or> output_size \<le> length s then None
          else
            let first = c_toupper (s ! 0); second = c_toupper (s ! 1)
            in if \<not> in_span 65 82 first \<or> \<not> in_span 65 82 second
                  \<or> \<not> c_isdigit (s ! 2) \<or> \<not> c_isdigit (s ! 3) then None
               else if length s = 6 then
                 let fifth = c_tolower (s ! 4); sixth = c_tolower (s ! 5)
                 in if \<not> in_span 97 120 fifth \<or> \<not> in_span 97 120 sixth then None
                    else Some [first, second, s ! 2, s ! 3, fifth, sixth]
               else Some [first, second, s ! 2, s ! 3])"

section \<open>Specification\<close>

text \<open>Two slashes in a row.\<close>

fun double_slash :: "string \<Rightarrow> bool" where
  "double_slash (c # d # cs) \<longleftrightarrow> (c = CHR ''/'' \<and> d = CHR ''/'') \<or> double_slash (d # cs)"
| "double_slash cs \<longleftrightarrow> False"

definition callsign_ok :: "string \<Rightarrow> bool" where
  "callsign_ok s \<longleftrightarrow> 3 \<le> length s \<and> length s \<le> 12 \<and>
     (\<forall>c \<in> set s. c_isalnum c \<or> c = CHR ''/'') \<and>
     hd s \<noteq> CHR ''/'' \<and> last s \<noteq> CHR ''/'' \<and> \<not> double_slash s \<and>
     (\<exists>c \<in> set s. c_isalpha c) \<and> (\<exists>c \<in> set s. c_isdigit c)"

lemma callsign_scan_eq:
  "callsign_scan prev l d out s =
     (if (\<forall>c \<in> set s. c_isalnum c \<or> c = CHR ''/'') \<and>
         \<not> double_slash (case prev of None \<Rightarrow> s | Some p \<Rightarrow> p # s)
      then Some (out @ map c_toupper s, l \<or> (\<exists>c \<in> set s. c_isalpha c), d \<or> (\<exists>c \<in> set s. c_isdigit c))
      else None)"
proof (induction s arbitrary: prev l d out)
  case Nil
  then show ?case by (cases prev) auto
next
  case (Cons c cs)
  then show ?case by (cases prev) auto
qed

lemma double_slash_map: "double_slash (map c_toupper s) = double_slash s"
  by (induction s rule: double_slash.induct) auto

lemma normalize_callsign_eq:
  "station_normalize_callsign n (Some s) =
     (if callsign_ok s \<and> length s < n then Some (map c_toupper s) else None)"
proof (cases "s = []")
  case True
  then show ?thesis by (simp add: station_normalize_callsign_def callsign_ok_def)
next
  case False
  then have "s ! 0 = hd s" "s ! (length s - Suc 0) = last s"
    by (simp_all add: hd_conv_nth last_conv_nth)
  then show ?thesis
    by (auto simp: station_normalize_callsign_def callsign_scan_eq callsign_ok_def)
qed

lemma callsign_ok_upper: "callsign_ok s \<Longrightarrow> callsign_ok (map c_toupper s)"
  by (cases "s = []") (auto simp: callsign_ok_def double_slash_map hd_map last_map)

text \<open>\<open>station_normalize_callsign\<close> accepts exactly the well-formed callsigns that fit the
  buffer (3 to 12 letters, digits and single inner slashes, at least one letter and one digit)
  and answers their upper-case form; it accepts its own answer and leaves it unchanged.\<close>

theorem station_callsign_correct:
  "station_normalize_callsign n (Some s) = Some out \<longleftrightarrow>
     callsign_ok s \<and> length s < n \<and> out = map c_toupper s
       \<and> station_normalize_callsign n (Some out) = Some out"
  by (auto simp: normalize_callsign_eq callsign_ok_upper comp_def)

definition grid_ok :: "string \<Rightarrow> bool" where
  "grid_ok s \<longleftrightarrow> (length s = 4 \<or> length s = 6) \<and>
     in_span 65 82 (s ! 0) \<and> in_span 65 82 (s ! 1) \<and> c_isdigit (s ! 2) \<and> c_isdigit (s ! 3) \<and>
     (length s = 6 \<longrightarrow> in_span 97 120 (s ! 4) \<and> in_span 97 120 (s ! 5))"

lemma upper_span: "in_span 65 82 c \<Longrightarrow> c_toupper c = c"
  by (auto simp: c_toupper_def ctype_defs)

lemma lower_span: "in_span 97 120 c \<Longrightarrow> c_tolower c = c"
  by (auto simp: c_tolower_def ctype_defs)

text \<open>A grid that \<open>station_normalize_grid\<close> answers is a canonical Maidenhead locator
  (field letters A to R, two digits, sub-square letters a to x) that fits the buffer, and
  normalising it again changes nothing.\<close>

theorem station_grid_canonical:
  assumes "station_normalize_grid n (Some s) = Some out"
  shows "grid_ok out \<and> length out = length s \<and> length out < n
         \<and> station_normalize_grid n (Some out) = Some out"
  using assms
  by (auto simp: station_normalize_grid_def Let_def grid_ok_def upper_span lower_span
      split: if_splits)

theorem station_grid_canonical_witness:
  "grid_ok ''MK68xm'' \<and> length ''MK68xm'' = length ''mk68XM'' \<and> length ''MK68xm'' < 7
   \<and> station_normalize_grid 7 (Some ''MK68xm'') = Some ''MK68xm''"
  by (rule station_grid_canonical) code_simp

end
