(* ===== verification/Bands.thy ===== *)
theory Bands
  imports CText
begin

text \<open>
  \<open>bands.c\<close>: the band tables, the parser of hop lists and the choice of the band for a UTC time
  slot. A \<open>struct wspr_hop_plan\<close> is its \<open>bands\<close> array together with \<open>count\<close>; the model is the
  list of the first \<open>count\<close> entries. Times are \<open>int64_t\<close> (as \<open>int\<close>), dwells \<open>uint32_t\<close>.
  A function that returns a pointer to a band or \<open>NULL\<close> answers an option.
\<close>

section \<open>Tables\<close>

record band_frequency =
  band_alias :: string
  canonical_name :: string
  frequency_hz :: u32
  database_band :: int

abbreviation band_row :: "string \<Rightarrow> string \<Rightarrow> u32 \<Rightarrow> int \<Rightarrow> band_frequency" where
  "band_row a c f d \<equiv> \<lparr> band_alias = a, canonical_name = c, frequency_hz = f, database_band = d \<rparr>"

definition band_frequencies :: "band_frequency list" where
  "band_frequencies = [
     band_row ''lf''     ''2200m''    136000 (-1),
     band_row ''2200m''  ''2200m''    136000 (-1),
     band_row ''mf''     ''630m''     474200 0,
     band_row ''630m''   ''630m''     474200 0,
     band_row ''160m''   ''160m''    1836600 1,
     band_row ''80m''    ''80m''     3568600 3,
     band_row ''60m''    ''60m''     5287200 5,
     band_row ''40m''    ''40m''     7038600 7,
     band_row ''30m''    ''30m''    10138700 10,
     band_row ''20m''    ''20m''    14095600 14,
     band_row ''17m''    ''17m''    18104600 18,
     band_row ''15m''    ''15m''    21094600 21,
     band_row ''12m''    ''12m''    24924600 24,
     band_row ''10m''    ''10m''    28124600 28,
     band_row ''4m''     ''4m''     70091000 70,
     band_row ''2m''     ''2m''    144489000 144,
     band_row ''1.25m''  ''1.25m'' 222280000 222,
     band_row ''1m25''   ''1.25m'' 222280000 222]"

definition ft8_band_frequencies :: "band_frequency list" where
  "ft8_band_frequencies = [
     band_row ''160m'' ''160m''  1840000 1,
     band_row ''80m''  ''80m''   3573000 3,
     band_row ''60m''  ''60m''   5357000 5,
     band_row ''40m''  ''40m''   7074000 7,
     band_row ''30m''  ''30m''  10136000 10,
     band_row ''20m''  ''20m''  14074000 14,
     band_row ''17m''  ''17m''  18100000 18,
     band_row ''15m''  ''15m''  21074000 21,
     band_row ''12m''  ''12m''  24915000 24,
     band_row ''10m''  ''10m''  28074000 28]"

definition wspr_supported_bands :: string where
  "wspr_supported_bands =
     ''2200m 630m 160m 80m 60m 40m 30m 20m 17m 15m 12m 10m 4m 2m 1.25m''"

definition ft8_supported_bands :: string where
  "ft8_supported_bands = ''160m 80m 60m 40m 30m 20m 17m 15m 12m 10m''"

definition find_band :: "string \<Rightarrow> band_frequency option" where
  "find_band name = find (\<lambda>b. c_strcasecmp_eq name (band_alias b)) band_frequencies"

definition find_ft8_band :: "string \<Rightarrow> band_frequency option" where
  "find_ft8_band name = find (\<lambda>b. c_strcasecmp_eq name (band_alias b)) ft8_band_frequencies"

definition wspr_band_frequency :: "string \<Rightarrow> u32 option" where
  "wspr_band_frequency name = map_option frequency_hz (find_band name)"

definition ft8_band_frequency :: "string \<Rightarrow> u32 option" where
  "ft8_band_frequency name = map_option frequency_hz (find_ft8_band name)"

section \<open>Hop plans\<close>

record wspr_hop_band =
  hop_name :: string
  hop_frequency_hz :: u32
  hop_database_band :: int

type_synonym wspr_hop_plan = "wspr_hop_band list"

definition WSPR_HOP_DWELL_SECONDS :: u32 where "WSPR_HOP_DWELL_SECONDS = 600"
definition WSPR_MAX_HOP_BANDS :: nat where "WSPR_MAX_HOP_BANDS = 16"

text \<open>The white space skipped in front of a field and cut behind it.\<close>

definition trim_field :: "string \<Rightarrow> string" where
  "trim_field s = rev (dropWhile c_isspace (rev (dropWhile c_isspace s)))"

definition hop_band_of :: "band_frequency \<Rightarrow> wspr_hop_band" where
  "hop_band_of b = \<lparr> hop_name = canonical_name b, hop_frequency_hz = frequency_hz b,
                     hop_database_band = database_band b \<rparr>"

text \<open>
  The \<open>while (field != NULL)\<close> loop of \<open>hop_plan_parse\<close>, over the rest of the buffer: every exit
  with \<open>memset\<close> is \<open>(False, [])\<close>, the last statement is the answer at the last field.
\<close>

function parse_fields :: "bool \<Rightarrow> wspr_hop_plan \<Rightarrow> string \<Rightarrow> bool \<times> wspr_hop_plan" where
  "parse_fields ft8 plan field =
     (let name = trim_field (up_to (CHR '','') field);
          rest = from_first (CHR '','') field
      in case (if ft8 then find_ft8_band name else find_band name) of
           None \<Rightarrow> (False, [])
         | Some band \<Rightarrow>
             if length plan \<ge> WSPR_MAX_HOP_BANDS then (False, [])
             else if \<exists>b \<in> set plan. hop_name b = canonical_name band then (False, [])
             else if length (canonical_name band) \<ge> 8 then (False, [])
             else
               let plan' = plan @ [hop_band_of band]
               in case rest of
                    [] \<Rightarrow> (length plan' \<ge> 2, plan')
                  | _ # field' \<Rightarrow>
                      if field' = [] then (False, []) else parse_fields ft8 plan' field')"
  by pat_completeness auto
termination
  by (relation "measure (\<lambda>(ft8, plan, field). length field)") (auto dest: from_first_shorter [OF sym])

declare parse_fields.simps [simp del]

definition hop_plan_parse :: "string option \<Rightarrow> bool \<Rightarrow> bool \<times> wspr_hop_plan" where
  "hop_plan_parse list ft8 =
     (case list of
        None \<Rightarrow> (False, [])
      | Some s \<Rightarrow> if s = [] \<or> length s \<ge> 256 then (False, []) else parse_fields ft8 [] s)"

definition wspr_hop_plan_parse :: "string option \<Rightarrow> bool \<times> wspr_hop_plan" where
  "wspr_hop_plan_parse list = hop_plan_parse list False"

definition ft8_hop_plan_parse :: "string option \<Rightarrow> bool \<times> wspr_hop_plan" where
  "ft8_hop_plan_parse list = hop_plan_parse list True"

section \<open>The band of a time slot\<close>

definition wspr_hop_band_at_dwell :: "wspr_hop_plan \<Rightarrow> int \<Rightarrow> u32 \<Rightarrow> wspr_hop_band option" where
  "wspr_hop_band_at_dwell plan utc_seconds dwell_seconds =
     (if plan = [] \<or> utc_seconds < 0 \<or> dwell_seconds = 0 then None
      else let slot = nat utc_seconds div unat dwell_seconds
           in Some (plan ! (slot mod length plan)))"

definition wspr_hop_band_at :: "wspr_hop_plan \<Rightarrow> int \<Rightarrow> wspr_hop_band option" where
  "wspr_hop_band_at plan utc_seconds =
     wspr_hop_band_at_dwell plan utc_seconds WSPR_HOP_DWELL_SECONDS"

fun plan_contains_database_band :: "wspr_hop_plan \<Rightarrow> int \<Rightarrow> bool" where
  "plan_contains_database_band [] d = False"
| "plan_contains_database_band (b # bs) d =
     (if hop_database_band b = d then True else plan_contains_database_band bs d)"

text \<open>The two loops over the candidates: count the excluded ones, find the \<open>wanted\<close>-th.\<close>

fun count_excluded :: "wspr_hop_plan \<Rightarrow> wspr_hop_plan \<Rightarrow> nat" where
  "count_excluded ranked [] = 0"
| "count_excluded ranked (c # cs) =
     (if \<not> plan_contains_database_band ranked (hop_database_band c)
      then Suc (count_excluded ranked cs) else count_excluded ranked cs)"

fun pick_excluded :: "wspr_hop_plan \<Rightarrow> wspr_hop_plan \<Rightarrow> nat \<Rightarrow> wspr_hop_band option" where
  "pick_excluded ranked [] wanted = None"
| "pick_excluded ranked (c # cs) wanted =
     (if plan_contains_database_band ranked (hop_database_band c)
      then pick_excluded ranked cs wanted
      else if wanted = 0 then Some c
      else pick_excluded ranked cs (wanted - 1))"

text \<open>The answer is the band and the \<open>exploration_slot\<close> flag.\<close>

definition wspr_adaptive_hop_band_at_dwell ::
  "wspr_hop_plan \<Rightarrow> wspr_hop_plan \<Rightarrow> int \<Rightarrow> u32 \<Rightarrow> wspr_hop_band option \<times> bool" where
  "wspr_adaptive_hop_band_at_dwell ranked candidates utc_seconds dwell_seconds =
     (if ranked = [] \<or> candidates = [] \<or> utc_seconds < 0 \<or> dwell_seconds = 0 then (None, False)
      else
        let slot = nat utc_seconds div unat dwell_seconds;
            excluded_count = count_excluded ranked candidates;
            ranked_slot = (if excluded_count = 0 then slot else slot - slot div 6);
            ranked_band = (Some (ranked ! (ranked_slot mod length ranked)), False)
        in if slot mod 6 = 5 \<and> excluded_count \<noteq> 0 then
             (case pick_excluded ranked candidates ((slot div 6) mod excluded_count) of
                Some b \<Rightarrow> (Some b, True)
              | None \<Rightarrow> ranked_band)
           else ranked_band)"

definition wspr_adaptive_hop_band_at ::
  "wspr_hop_plan \<Rightarrow> wspr_hop_plan \<Rightarrow> int \<Rightarrow> wspr_hop_band option \<times> bool" where
  "wspr_adaptive_hop_band_at ranked candidates utc_seconds =
     wspr_adaptive_hop_band_at_dwell ranked candidates utc_seconds WSPR_HOP_DWELL_SECONDS"

section \<open>Parsed plans\<close>

definition band_table :: "bool \<Rightarrow> band_frequency list" where
  "band_table ft8 = (if ft8 then ft8_band_frequencies else band_frequencies)"

definition plan_ok :: "bool \<Rightarrow> wspr_hop_plan \<Rightarrow> bool" where
  "plan_ok ft8 plan \<longleftrightarrow> length plan \<le> WSPR_MAX_HOP_BANDS \<and> distinct (map hop_name plan) \<and>
     set plan \<subseteq> hop_band_of ` set (band_table ft8)"

lemma find_table:
  "(if ft8 then find_ft8_band name else find_band name) = Some b \<Longrightarrow> b \<in> set (band_table ft8)"
  by (auto simp: find_ft8_band_def find_band_def band_table_def find_Some_iff split: if_splits)

lemma parse_fields_inv:
  "parse_fields ft8 plan field = (ok, p) \<Longrightarrow> plan_ok ft8 plan \<Longrightarrow>
   plan_ok ft8 p \<and> (ok \<longleftrightarrow> 2 \<le> length p)"
proof (induction ft8 plan field rule: parse_fields.induct)
  case (1 ft8 plan field)
  let ?name = "trim_field (up_to (CHR '','') field)"
  show ?case
  proof (cases "if ft8 then find_ft8_band ?name else find_band ?name")
    case None
    with "1.prems" show ?thesis
      by (auto simp: parse_fields.simps [of ft8 plan field] plan_ok_def)
  next
    case (Some band)
    let ?plan' = "plan @ [hop_band_of band]"
    have ok': "plan_ok ft8 ?plan'"
      if "length plan < WSPR_MAX_HOP_BANDS" "\<forall>b \<in> set plan. hop_name b \<noteq> canonical_name band"
      using that find_table [OF Some] "1.prems"(2) by (auto simp: plan_ok_def hop_band_of_def)
    have eq: "parse_fields ft8 plan field =
        (if length plan \<ge> WSPR_MAX_HOP_BANDS \<or> (\<exists>b \<in> set plan. hop_name b = canonical_name band)
            \<or> length (canonical_name band) \<ge> 8 then (False, [])
         else case from_first (CHR '','') field of [] \<Rightarrow> (length ?plan' \<ge> 2, ?plan')
              | _ # field' \<Rightarrow> if field' = [] then (False, []) else parse_fields ft8 ?plan' field')"
      unfolding parse_fields.simps [of ft8 plan field] Let_def Some by simp
    have nil: "plan_ok ft8 []" by (simp add: plan_ok_def)
    show ?thesis
      using "1.prems"(1) nil ok' "1.IH" [OF refl refl Some]
      by (auto simp: eq not_le split: list.splits if_splits)
  qed
qed

lemma hop_plan_parse_inv: "hop_plan_parse list ft8 = (ok, p) \<Longrightarrow> plan_ok ft8 p \<and> (ok \<longleftrightarrow> 2 \<le> length p)"
proof -
  have "plan_ok ft8 []" by (simp add: plan_ok_def)
  then show "hop_plan_parse list ft8 = (ok, p) \<Longrightarrow> plan_ok ft8 p \<and> (ok \<longleftrightarrow> 2 \<le> length p)"
    by (auto simp: hop_plan_parse_def split: option.splits if_splits dest: parse_fields_inv)
qed

text \<open>In both tables the canonical name, the database band and the frequency go together.\<close>

definition same_band :: "band_frequency \<Rightarrow> band_frequency \<Rightarrow> bool" where
  "same_band b b' \<longleftrightarrow> (canonical_name b = canonical_name b') = (database_band b = database_band b')
     \<and> (canonical_name b = canonical_name b' \<longrightarrow> frequency_hz b = frequency_hz b')"

lemma table_consistent:
  "list_all (\<lambda>b. list_all (same_band b) (band_table True)) (band_table True)"
  "list_all (\<lambda>b. list_all (same_band b) (band_table False)) (band_table False)"
  by code_simp+

lemma plan_ok_distinct_bands:
  assumes "plan_ok ft8 p"
  shows "distinct (map hop_database_band p)"
proof -
  have eq: "same_band b b'" if "b \<in> set (band_table ft8)" "b' \<in> set (band_table ft8)" for b b'
    using table_consistent that by (cases ft8) (auto simp: list_all_iff)
  have "distinct p" and inj: "inj_on hop_name (set p)"
    using assms by (auto simp: plan_ok_def distinct_map)
  moreover have "inj_on hop_database_band (set p)"
  proof (rule inj_onI)
    fix x y assume xy: "x \<in> set p" "y \<in> set p" "hop_database_band x = hop_database_band y"
    have "x \<in> hop_band_of ` set (band_table ft8)" "y \<in> hop_band_of ` set (band_table ft8)"
      using assms xy by (auto simp: plan_ok_def)
    then obtain b b' where "b \<in> set (band_table ft8)" "x = hop_band_of b"
        "b' \<in> set (band_table ft8)" "y = hop_band_of b'"
      by (elim imageE)
    with xy eq [of b b'] have "hop_name x = hop_name y"
      by (simp add: hop_band_of_def same_band_def)
    with xy inj show "x = y" by (simp add: inj_on_def)
  qed
  ultimately show ?thesis by (simp add: distinct_map)
qed



section \<open>Rotation\<close>

lemma slot_shift:
  assumes "0 \<le> t" and "dwell \<noteq> 0"
  shows "nat (t + int (k * unat dwell)) div unat dwell = nat t div unat dwell + k"
proof -
  have "0 < unat dwell" using assms(2) by (simp add: unat_gt_0)
  moreover have "nat (t + int (k * unat dwell)) = nat t + k * unat dwell"
    using assms(1) by (simp add: nat_add_distrib nat_mult_distrib)
  ultimately show ?thesis by simp
qed

text \<open>From any moment on, \<open>length plan\<close> consecutive dwell slots visit every band of the plan
  exactly once, in the plan's order, starting with the band of the current slot.\<close>

theorem hop_rotation:
  assumes "0 \<le> t" and "dwell \<noteq> 0"
  shows "map (\<lambda>k. wspr_hop_band_at_dwell plan (t + int (k * unat dwell)) dwell) [0..<length plan]
         = map Some (rotate (nat t div unat dwell) plan)"
proof (cases "plan = []")
  case False
  then show ?thesis
    using assms
    by (intro nth_equalityI)
      (simp_all add: wspr_hop_band_at_dwell_def slot_shift nth_rotate del: of_nat_mult)
qed simp

definition demo_plan :: wspr_hop_plan where
  "demo_plan = map hop_band_of [band_row ''20m'' ''20m'' 14095600 14, band_row ''40m'' ''40m'' 7038600 7]"

theorem hop_rotation_witness:
  "map (\<lambda>k. wspr_hop_band_at_dwell demo_plan (1300 + int (k * unat (600 :: u32))) 600)
     [0..<length demo_plan] = map Some (rotate (nat 1300 div unat (600 :: u32)) demo_plan)"
  by (rule hop_rotation) simp_all

section \<open>Adaptive hopping\<close>

text \<open>The candidates whose database band is not among the ranked ones.\<close>

definition excluded :: "wspr_hop_plan \<Rightarrow> wspr_hop_plan \<Rightarrow> wspr_hop_plan" where
  "excluded ranked candidates =
     filter (\<lambda>c. hop_database_band c \<notin> hop_database_band ` set ranked) candidates"

lemma plan_contains_iff: "plan_contains_database_band p d \<longleftrightarrow> d \<in> hop_database_band ` set p"
  by (induction p) auto

lemma count_excluded_eq: "count_excluded ranked cs = length (excluded ranked cs)"
  by (induction cs) (auto simp: excluded_def plan_contains_iff)

lemma pick_excluded_eq:
  "pick_excluded ranked cs w = (if w < length (excluded ranked cs) then Some (excluded ranked cs ! w) else None)"
  by (induction cs arbitrary: w) (auto simp: excluded_def plan_contains_iff nth_Cons split: nat.splits)

text \<open>The number of ranked slots (not every sixth) before slot \<open>s\<close>.\<close>

lemma div6_Suc: "Suc s div 6 = (if s mod 6 = 5 then Suc (s div 6) else s div 6)"
  by (simp add: div_Suc mod_Suc)

lemma ranked_slots_before: "card {u. u < s \<and> u mod 6 \<noteq> 5} = s - s div (6 :: nat)"
proof (induction s)
  case (Suc s)
  have fin: "finite {u. u < s \<and> u mod 6 \<noteq> 5}" by simp
  show ?case
  proof (cases "s mod 6 = 5")
    case True
    then have "{u. u < Suc s \<and> u mod 6 \<noteq> 5} = {u. u < s \<and> u mod 6 \<noteq> 5}"
      by (auto simp: less_Suc_eq)
    then show ?thesis using Suc True by (simp add: div6_Suc)
  next
    case False
    then have "{u. u < Suc s \<and> u mod 6 \<noteq> 5} = insert s {u. u < s \<and> u mod 6 \<noteq> 5}"
      by (auto simp: less_Suc_eq)
    then show ?thesis using Suc False fin by (simp add: div6_Suc Suc_diff_le)
  qed
qed simp

lemma adaptive_eq:
  assumes "ranked \<noteq> []" and "candidates \<noteq> []" and "0 \<le> t" and "dwell \<noteq> 0"
  shows "wspr_adaptive_hop_band_at_dwell ranked candidates t dwell =
    (let s = nat t div unat dwell; ex = excluded ranked candidates in
     if s mod 6 = 5 \<and> ex \<noteq> [] then (Some (ex ! ((s div 6) mod length ex)), True)
     else (Some (ranked ! ((if ex = [] then s else s - s div 6) mod length ranked)), False))"
  using assms
  by (auto simp: wspr_adaptive_hop_band_at_dwell_def Let_def count_excluded_eq pick_excluded_eq)

text \<open>C26: With a non-empty ranking and candidates left out of it, exactly every sixth slot is an
  exploration slot and shows a candidate that is not ranked; every other slot shows the ranked
  band whose index is the number of ranked slots that came before, so the ranked rotation is
  continuous across the exploration slots.\<close>

theorem adaptive_hop_correct:
  assumes "ranked \<noteq> []" and "excluded ranked candidates \<noteq> []" and "0 \<le> t" and "dwell \<noteq> 0"
  defines "s \<equiv> nat t div unat dwell"
  shows "(s mod 6 = 5 \<longrightarrow> (\<exists>b. wspr_adaptive_hop_band_at_dwell ranked candidates t dwell = (Some b, True)
            \<and> b \<in> set candidates \<and> hop_database_band b \<notin> hop_database_band ` set ranked))
       \<and> (s mod 6 \<noteq> 5 \<longrightarrow> wspr_adaptive_hop_band_at_dwell ranked candidates t dwell
            = (Some (ranked ! (card {u. u < s \<and> u mod 6 \<noteq> 5} mod length ranked)), False))"
proof -
  let ?ex = "excluded ranked candidates"
  have c: "candidates \<noteq> []"
    using assms(2) by (auto simp: excluded_def)
  have "?ex ! ((s div 6) mod length ?ex) \<in> set ?ex"
    using assms(2) by simp
  then show ?thesis
    using adaptive_eq [OF assms(1) c assms(3,4)] assms(2)
    by (auto simp: s_def Let_def ranked_slots_before excluded_def)
qed

theorem adaptive_hop_correct_witness:
  "wspr_adaptive_hop_band_at_dwell [hd demo_plan] demo_plan (600 * 7) 600
     = (Some ([hd demo_plan] ! (card {u. u < 7 \<and> u mod 6 \<noteq> (5 :: nat)} mod length [hd demo_plan])), False)"
proof -
  have "excluded [hd demo_plan] demo_plan \<noteq> []" by code_simp
  then show ?thesis
    using adaptive_hop_correct [of "[hd demo_plan]" demo_plan "600 * 7" 600] by simp
qed

text \<open>No candidate starves: from any moment on, within \<open>6 * n\<close> slots, \<open>n\<close> the number of
  candidates outside the ranking, each of these candidates gets an exploration slot.\<close>

theorem adaptive_hop_explores_all:
  assumes "ranked \<noteq> []" and "0 \<le> t" and "dwell \<noteq> 0" and "c \<in> set (excluded ranked candidates)"
  shows "\<exists>k < 6 * length (excluded ranked candidates).
           wspr_adaptive_hop_band_at_dwell ranked candidates (t + int (k * unat dwell)) dwell
             = (Some c, True)"
proof -
  let ?ex = "excluded ranked candidates"
  let ?n = "length ?ex" and ?s = "nat t div unat dwell"
  obtain j where j: "j < ?n" "?ex ! j = c"
    using assms(4) by (auto simp: in_set_conv_nth)
  have cand: "candidates \<noteq> []"
    using assms(4) by (auto simp: excluded_def)
  define hour where "hour = ?s div 6"
  define e where "e = hour + (j + ?n - hour mod ?n) mod ?n"
  have "e mod ?n = (hour mod ?n + (j + ?n - hour mod ?n)) mod ?n"
    by (simp add: e_def mod_simps)
  also have "hour mod ?n + (j + ?n - hour mod ?n) = j + ?n"
    using j(1) mod_less_divisor [of ?n hour] by linarith
  also have "(j + ?n) mod ?n = j"
    using j(1) by simp
  finally have ej: "e mod ?n = j" .
  have e: "hour \<le> e" "e < hour + ?n"
    using j(1) by (auto simp: e_def intro: mod_less_divisor)
  have s: "?s = 6 * hour + ?s mod 6" by (simp add: hour_def)
  have le: "?s \<le> 6 * e + 5" using e(1) s by (simp add: hour_def)
  define k where "k = 6 * e + 5 - ?s"
  have sk: "?s + k = 6 * e + 5" using le by (simp add: k_def)
  have "nat (t + int (k * unat dwell)) div unat dwell = 6 * e + 5"
    using slot_shift [OF assms(2,3)] sk by simp
  moreover have "?ex \<noteq> []" using j(1) by auto
  ultimately have "wspr_adaptive_hop_band_at_dwell ranked candidates (t + int (k * unat dwell)) dwell
      = (Some c, True)"
    using adaptive_eq [OF assms(1) cand _ assms(3), of "t + int (k * unat dwell)"] assms(2) ej j(2)
    by (simp add: Let_def del: of_nat_mult)
  moreover have "k < 6 * ?n"
    using e(2) s sk by simp
  ultimately show ?thesis by blast
qed

theorem adaptive_hop_explores_all_witness:
  "\<exists>k < 6 * length (excluded [hd demo_plan] demo_plan).
     wspr_adaptive_hop_band_at_dwell [hd demo_plan] demo_plan (1300 + int (k * unat (600 :: u32))) 600
       = (Some (last demo_plan), True)"
proof -
  have "excluded [hd demo_plan] demo_plan = [last demo_plan]" by code_simp
  then have "last demo_plan \<in> set (excluded [hd demo_plan] demo_plan)" by simp
  then show ?thesis
    by (intro adaptive_hop_explores_all) simp_all
qed

end
