(* ===== verification/Nhash.thy ===== *)
theory Nhash
  imports Prelude
begin

text \<open>
  \<open>core/nhash.c\<close>: Bob Jenkins' lookup3 hash as WSPR uses it for callsigns, on 32-bit words with
  wrap-around. A key is its list of bytes; \<open>length\<close> is the number of bytes hashed. The C function
  has three bodies, chosen by the alignment of the key's address; all three are modelled, with
  the 32-bit and 16-bit little-endian loads they perform on the key's memory.
\<close>

section \<open>Mixing\<close>

definition rot :: "u32 \<Rightarrow> nat \<Rightarrow> u32" where
  "rot x k = push_bit k x OR drop_bit (32 - k) x"

type_synonym abc = "u32 \<times> u32 \<times> u32"

text \<open>
  Each line of the \<open>mix\<close> macro is the same three assignments on the three variables in a rotated
  role, \<open>x -= z; x ^= rot (z, k); z += y;\<close> with \<open>(x, y, z)\<close> being \<open>(a, b, c)\<close>, then
  \<open>(b, c, a)\<close>, then \<open>(c, a, b)\<close>; \<open>turn\<close> passes to the next role.
\<close>

definition turn :: "abc \<Rightarrow> abc" where
  "turn s = (case s of (x, y, z) \<Rightarrow> (y, z, x))"

definition mix_line :: "nat \<Rightarrow> abc \<Rightarrow> abc" where
  "mix_line k s = (case s of (x, y, z) \<Rightarrow> ((x - z) XOR rot z k, y, z + y))"

definition mix :: "abc \<Rightarrow> abc" where
  "mix s = (let s = turn (mix_line 4 s);
                s = turn (mix_line 6 s);
                s = turn (mix_line 8 s);
                s = turn (mix_line 16 s);
                s = turn (mix_line 19 s);
                s = turn (mix_line 4 s)
            in s)"

text \<open>Each line of \<open>final\<close> is \<open>z ^= y; z -= rot (y, k);\<close> in the same rotating roles.\<close>

definition final_line :: "nat \<Rightarrow> abc \<Rightarrow> abc" where
  "final_line k s = (case s of (x, y, z) \<Rightarrow> (x, y, (z XOR y) - rot y k))"

definition final :: "abc \<Rightarrow> abc" where
  "final s = (let s = turn (final_line 14 s);
                  s = turn (final_line 11 s);
                  s = turn (final_line 25 s);
                  s = turn (final_line 16 s);
                  s = turn (final_line 4 s);
                  s = turn (final_line 14 s);
                  s = final_line 24 s
              in s)"

lemma bij_turn: "bij turn"
  by (rule bij_betw_byWitness [where f' = "\<lambda>s. case s of (y, z, x) \<Rightarrow> (x, y, z)"])
    (auto simp: turn_def)

lemma xor_cancel: "(x XOR y) XOR y = (x :: u32)"
  by (simp add: xor.assoc)

lemma bij_mix_line: "bij (mix_line k)"
  by (rule bij_betw_byWitness
      [where f' = "\<lambda>s. case s of (x, y, z) \<Rightarrow> ((x XOR rot (z - y) k) + (z - y), y, z - y)"])
    (auto simp: mix_line_def xor_cancel)

lemma bij_final_line: "bij (final_line k)"
  by (rule bij_betw_byWitness
      [where f' = "\<lambda>s. case s of (x, y, z) \<Rightarrow> (x, y, (z + rot y k) XOR y)"])
    (auto simp: final_line_def xor_cancel)

lemma bij_mix: "bij mix"
proof -
  have eq: "mix = turn \<circ> mix_line 4 \<circ> turn \<circ> mix_line 19 \<circ> turn \<circ> mix_line 16 \<circ>
      turn \<circ> mix_line 8 \<circ> turn \<circ> mix_line 6 \<circ> turn \<circ> mix_line 4"
    by (simp add: fun_eq_iff mix_def)
  show ?thesis unfolding eq by (intro bij_comp bij_turn bij_mix_line)
qed

lemma bij_final: "bij final"
proof -
  have eq: "final = final_line 24 \<circ> turn \<circ> final_line 14 \<circ> turn \<circ> final_line 4 \<circ> turn \<circ> final_line 16 \<circ>
      turn \<circ> final_line 25 \<circ> turn \<circ> final_line 11 \<circ> turn \<circ> final_line 14"
    by (simp add: fun_eq_iff final_def)
  show ?thesis unfolding eq by (intro bij_comp bij_turn bij_final_line)
qed

section \<open>Loads from the key\<close>

text \<open>\<open>key\<close> is the memory behind the key's address; reads past the key are masked off.\<close>

definition load8 :: "(nat \<Rightarrow> u8) \<Rightarrow> nat \<Rightarrow> u32" where
  "load8 key i = ucast (key i)"

definition load16 :: "(nat \<Rightarrow> u8) \<Rightarrow> nat \<Rightarrow> u32" where
  "load16 key i = load8 key i OR push_bit 8 (load8 key (i + 1))"

definition load32 :: "(nat \<Rightarrow> u8) \<Rightarrow> nat \<Rightarrow> u32" where
  "load32 key i = load16 key i OR push_bit 16 (load16 key (i + 2))"

section \<open>The three bodies\<close>

text \<open>
  The aligned body reads words \<open>k[0], k[1], k[2]\<close> at byte offset \<open>p\<close>; \<open>length\<close> counts the bytes
  left. The \<open>while\<close> loop mixes 12-byte blocks while more than 12 bytes are left; the \<open>switch\<close>
  adds the rest. The answer is \<open>Inl c\<close> for the early \<open>return c\<close> of the empty rest.
\<close>

definition tail32 :: "(nat \<Rightarrow> u8) \<Rightarrow> nat \<Rightarrow> nat \<Rightarrow> abc \<Rightarrow> u32 + abc" where
  "tail32 key p len s = (case s of (a, b, c) \<Rightarrow>
     let k0 = load32 key p; k1 = load32 key (p + 4); k2 = load32 key (p + 8)
     in if len = 12 then Inr (a + k0, b + k1, c + k2)
        else if len = 11 then Inr (a + k0, b + k1, c + (k2 AND 0xffffff))
        else if len = 10 then Inr (a + k0, b + k1, c + (k2 AND 0xffff))
        else if len = 9 then Inr (a + k0, b + k1, c + (k2 AND 0xff))
        else if len = 8 then Inr (a + k0, b + k1, c)
        else if len = 7 then Inr (a + k0, b + (k1 AND 0xffffff), c)
        else if len = 6 then Inr (a + k0, b + (k1 AND 0xffff), c)
        else if len = 5 then Inr (a + k0, b + (k1 AND 0xff), c)
        else if len = 4 then Inr (a + k0, b, c)
        else if len = 3 then Inr (a + (k0 AND 0xffffff), b, c)
        else if len = 2 then Inr (a + (k0 AND 0xffff), b, c)
        else if len = 1 then Inr (a + (k0 AND 0xff), b, c)
        else Inl c)"

fun body32 :: "(nat \<Rightarrow> u8) \<Rightarrow> nat \<Rightarrow> nat \<Rightarrow> abc \<Rightarrow> u32 + abc" where
  "body32 key p len (a, b, c) =
     (if len > 12 then
        body32 key (p + 12) (len - 12)
          (mix (a + load32 key p, b + load32 key (p + 4), c + load32 key (p + 8)))
      else tail32 key p len (a, b, c))"

text \<open>The half-aligned body; the fall-through cases of the \<open>switch\<close> are nested additions.\<close>

definition word16 :: "(nat \<Rightarrow> u8) \<Rightarrow> nat \<Rightarrow> u32" where
  "word16 key i = load16 key i + push_bit 16 (load16 key (i + 2))"

definition tail16 :: "(nat \<Rightarrow> u8) \<Rightarrow> nat \<Rightarrow> nat \<Rightarrow> abc \<Rightarrow> u32 + abc" where
  "tail16 key p len s = (case s of (a, b, c) \<Rightarrow>
     let w0 = word16 key p; w1 = word16 key (p + 4); w2 = word16 key (p + 8)
     in if len = 12 then Inr (a + w0, b + w1, c + w2)
        else if len = 11 then
          Inr (a + w0, b + w1, c + push_bit 16 (load8 key (p + 10)) + load16 key (p + 8))
        else if len = 10 then Inr (a + w0, b + w1, c + load16 key (p + 8))
        else if len = 9 then Inr (a + w0, b + w1, c + load8 key (p + 8))
        else if len = 8 then Inr (a + w0, b + w1, c)
        else if len = 7 then
          Inr (a + w0, b + push_bit 16 (load8 key (p + 6)) + load16 key (p + 4), c)
        else if len = 6 then Inr (a + w0, b + load16 key (p + 4), c)
        else if len = 5 then Inr (a + w0, b + load8 key (p + 4), c)
        else if len = 4 then Inr (a + w0, b, c)
        else if len = 3 then Inr (a + push_bit 16 (load8 key (p + 2)) + load16 key p, b, c)
        else if len = 2 then Inr (a + load16 key p, b, c)
        else if len = 1 then Inr (a + load8 key p, b, c)
        else Inl c)"

fun body16 :: "(nat \<Rightarrow> u8) \<Rightarrow> nat \<Rightarrow> nat \<Rightarrow> abc \<Rightarrow> u32 + abc" where
  "body16 key p len (a, b, c) =
     (if len > 12 then
        body16 key (p + 12) (len - 12)
          (mix (a + word16 key p, b + word16 key (p + 4), c + word16 key (p + 8)))
      else tail16 key p len (a, b, c))"

text \<open>The bytewise body: byte \<open>i\<close> of a 12-byte block is added, shifted to its place.\<close>

definition byte_add :: "(nat \<Rightarrow> u8) \<Rightarrow> nat \<Rightarrow> nat \<Rightarrow> u32 \<Rightarrow> u32" where
  "byte_add key i sh x = x + push_bit sh (load8 key i)"

definition four_bytes :: "(nat \<Rightarrow> u8) \<Rightarrow> nat \<Rightarrow> u32 \<Rightarrow> u32" where
  "four_bytes key i x =
     byte_add key (i + 3) 24 (byte_add key (i + 2) 16 (byte_add key (i + 1) 8 (byte_add key i 0 x)))"

definition tail8 :: "(nat \<Rightarrow> u8) \<Rightarrow> nat \<Rightarrow> nat \<Rightarrow> abc \<Rightarrow> u32 + abc" where
  "tail8 key p len s = (case s of (a, b, c) \<Rightarrow>
     if len = 0 \<or> 12 < len then Inl c
     else
       let c = (if len \<ge> 12 then byte_add key (p + 11) 24 c else c);
           c = (if len \<ge> 11 then byte_add key (p + 10) 16 c else c);
           c = (if len \<ge> 10 then byte_add key (p + 9) 8 c else c);
           c = (if len \<ge> 9 then byte_add key (p + 8) 0 c else c);
           b = (if len \<ge> 8 then byte_add key (p + 7) 24 b else b);
           b = (if len \<ge> 7 then byte_add key (p + 6) 16 b else b);
           b = (if len \<ge> 6 then byte_add key (p + 5) 8 b else b);
           b = (if len \<ge> 5 then byte_add key (p + 4) 0 b else b);
           a = (if len \<ge> 4 then byte_add key (p + 3) 24 a else a);
           a = (if len \<ge> 3 then byte_add key (p + 2) 16 a else a);
           a = (if len \<ge> 2 then byte_add key (p + 1) 8 a else a);
           a = byte_add key p 0 a
       in Inr (a, b, c))"

fun body8 :: "(nat \<Rightarrow> u8) \<Rightarrow> nat \<Rightarrow> nat \<Rightarrow> abc \<Rightarrow> u32 + abc" where
  "body8 key p len (a, b, c) =
     (if len > 12 then
        body8 key (p + 12) (len - 12)
          (mix (four_bytes key p a, four_bytes key (p + 4) b, four_bytes key (p + 8) c))
      else tail8 key p len (a, b, c))"

text \<open>\<open>addr\<close> is the key's address: its two low bits choose the body.\<close>

definition nhash :: "nat \<Rightarrow> (nat \<Rightarrow> u8) \<Rightarrow> nat \<Rightarrow> u32 \<Rightarrow> u32" where
  "nhash addr key len initval =
     (let i = 0xdeadbeef + word_of_nat len + initval;
          s = (if addr mod 4 = 0 then body32 key 0 len (i, i, i)
               else if addr mod 2 = 0 then body16 key 0 len (i, i, i)
               else body8 key 0 len (i, i, i))
      in case s of Inl c \<Rightarrow> c
         | Inr abc \<Rightarrow> (case final abc of (a, b, c) \<Rightarrow> 32767 AND c))"

section \<open>The bodies agree\<close>

lemma bit_load8 [bit_simps]: "bit (load8 key i) n \<longleftrightarrow> n < 8 \<and> bit (key i) n"
  by (auto simp: load8_def bit_simps dest: bit_imp_le_length)

lemma add_eq_or: "x AND y = 0 \<Longrightarrow> x + y = (x OR y :: u32)"
  by (rule disjunctive_add_eq_or)

lemma bytes_disjoint:
  "load8 key i AND push_bit 8 y = 0"
  "(load8 key i OR push_bit 8 (load8 key j)) AND push_bit 16 z = 0"
  "((load8 key i OR push_bit 8 (load8 key j)) OR push_bit 16 (load8 key l)) AND push_bit 24 z = 0"
  by (rule bit_word_eqI; auto simp: bit_simps)+

text \<open>A masked 32-bit load is the sum of the bytes that it keeps.\<close>

lemma load16_sum: "load16 key i = load8 key i + push_bit 8 (load8 key (i + 1))"
  by (simp add: load16_def add_eq_or bytes_disjoint)

lemma load32_mask8: "load32 key i AND 0xff = load8 key i"
proof -
  have "load32 key i AND mask 8 = load8 key i"
    by (rule bit_word_eqI) (auto simp: load32_def load16_def bit_simps)
  then show ?thesis by (simp add: mask_eq_exp_minus_1)
qed

lemma load32_mask16: "load32 key i AND 0xffff = load16 key i"
proof -
  have "load32 key i AND mask 16 = load16 key i"
    by (rule bit_word_eqI) (auto simp: load32_def load16_def bit_simps)
  then show ?thesis by (simp add: mask_eq_exp_minus_1)
qed

lemma load32_mask24: "load32 key i AND 0xffffff = load16 key i + push_bit 16 (load8 key (i + 2))"
proof -
  have "load32 key i AND mask 24 = load16 key i OR push_bit 16 (load8 key (i + 2))"
    by (rule bit_word_eqI) (auto simp: load32_def load16_def bit_simps)
  then show ?thesis
    by (simp add: mask_eq_exp_minus_1 load16_def add_eq_or bytes_disjoint)
qed

lemma load32_sum:
  "load32 key i = load16 key i + push_bit 16 (load8 key (i + 2)) + push_bit 24 (load8 key (i + 3))"
proof -
  have "load32 key i = load8 key i OR push_bit 8 (load8 key (i + 1)) OR
      push_bit 16 (load8 key (i + 2)) OR push_bit 24 (load8 key (i + 3))"
    by (rule bit_word_eqI)
      (auto simp: load32_def load16_def bit_simps numeral_eq_Suc simp flip: Suc_eq_plus1)
  then show ?thesis
    by (simp add: load16_def add_eq_or bytes_disjoint flip: or.assoc)
qed

lemma word16_eq: "word16 key i = load32 key i"
proof -
  have "load16 key i AND push_bit 16 (load16 key (i + 2)) = 0"
    by (rule bit_word_eqI) (auto simp: load16_def bit_simps)
  then show ?thesis by (simp add: word16_def load32_def add_eq_or)
qed

lemma four_bytes_eq: "four_bytes key i x = x + load32 key i"
  by (simp add: four_bytes_def byte_add_def load32_sum load16_sum ac_simps)

lemma le12_cases:
  assumes "(len :: nat) \<le> 12"
  obtains "len = 0" | "len = 1" | "len = 2" | "len = 3" | "len = 4" | "len = 5" | "len = 6"
    | "len = 7" | "len = 8" | "len = 9" | "len = 10" | "len = 11" | "len = 12"
proof -
  have "len = 0 \<or> len = 1 \<or> len = 2 \<or> len = 3 \<or> len = 4 \<or> len = 5 \<or> len = 6 \<or> len = 7
      \<or> len = 8 \<or> len = 9 \<or> len = 10 \<or> len = 11 \<or> len = 12"
    using assms by presburger
  then show thesis using that by blast
qed

lemma tail16_eq: "len \<le> 12 \<Longrightarrow> tail16 key p len s = tail32 key p len s"
  by (cases s; rule le12_cases [of len])
    (simp_all add: tail16_def tail32_def word16_eq load32_mask8 load32_mask16 load32_mask24 ac_simps)

lemma tail8_eq: "len \<le> 12 \<Longrightarrow> tail8 key p len s = tail32 key p len s"
  by (cases s; rule le12_cases [of len])
    (simp_all add: tail8_def tail32_def byte_add_def load32_mask8 load32_mask16 load32_mask24,
      simp_all add: load16_sum load32_sum ac_simps)

declare body32.simps [simp del] body16.simps [simp del] body8.simps [simp del]

lemma body16_eq: "body16 key p len s = body32 key p len s"
  by (induction key p len s rule: body32.induct) (simp add: body16.simps body32.simps word16_eq tail16_eq)

lemma body8_eq: "body8 key p len s = body32 key p len s"
  by (induction key p len s rule: body32.induct) (simp add: body8.simps body32.simps four_bytes_eq tail8_eq)

lemma nhash_addr: "nhash addr key len iv = nhash 0 key len iv"
  by (simp add: nhash_def body16_eq body8_eq Let_def)

section \<open>Properties\<close>

lemma low15: "32767 AND (c :: u32) < 32768"
proof -
  have "32767 AND c \<le> 32767" by (rule word_and_le2)
  then show ?thesis by (simp add: word_le_nat_alt word_less_nat_alt)
qed

lemma tail32_Inl: "tail32 key p len s = Inl x \<Longrightarrow> len \<le> 12 \<Longrightarrow> len = 0"
  by (cases s; rule le12_cases [of len]) (simp_all add: tail32_def)

lemma body32_Inl: "body32 key p len s = Inl x \<Longrightarrow> len = 0"
proof (induction key p len s rule: body32.induct)
  case (1 key p len a b c)
  then show ?case
    by (cases "len > 12") (auto simp: body32.simps dest: tail32_Inl)
qed

lemma nhash_small:
  assumes "0 < len"
  shows "unat (nhash addr key len iv) < 32768"
proof -
  have "nhash addr key len iv = nhash 0 key len iv"
    by (rule nhash_addr)
  also have "\<dots> < 32768"
    using assms low15 body32_Inl by (fastforce simp: nhash_def Let_def split: sum.splits prod.splits)
  finally show ?thesis by (simp add: word_less_nat_alt)
qed

text \<open>The mixing rounds lose nothing: \<open>mix\<close> and \<open>final\<close> are bijections on the 96-bit state, as
  the source's comment on \<open>mix\<close> claims.\<close>

theorem nhash_mixing_reversible: "bij mix \<and> bij final"
  using bij_mix bij_final by blast

text \<open>The three bodies of \<open>nhash\<close> (aligned, half-aligned and bytewise loads) compute the same
  hash, so the address at which a callsign is stored does not matter.\<close>

theorem nhash_alignment_independent: "nhash addr key len iv = nhash addr' key len iv"
  by (metis nhash_addr)

text \<open>The hash of a non-empty key indexes the 32768-entry callsign table; only the empty key
  escapes the final mask.\<close>

theorem nhash_in_table:
  assumes "0 < len"
  shows "unat (nhash addr key len iv) < 32768"
  by (rule nhash_small [OF assms])

theorem nhash_in_table_witness: "unat (nhash 0 (\<lambda>i. of_nat (75 + i)) 5 146) < 32768"
  by (rule nhash_in_table) simp

end
