(* ===== verification/WsprPack.thy ===== *)
theory WsprPack
  imports CText
begin

text \<open>
  The source coding of WSPR messages: the packing functions of \<open>core/wsprsim_utils.c\<close> and the
  unpacking functions of \<open>core/wsprd_utils.c\<close>. A \<open>char\<close> is signed, \<open>long unsigned int\<close> has 64 bits
  and \<open>int\<close> has 32 bits. A \<open>char *\<close> argument is the memory from the pointer on; an access outside
  the memory, which C leaves undefined, is \<open>None\<close>.
\<close>

section \<open>Characters\<close>

definition get_locator_character_code :: "char \<Rightarrow> int" where
  "get_locator_character_code ch =
     (if in_span 48 57 ch then int (code ch) - 48
      else if code ch = 32 then 36
      else if in_span 65 82 ch then int (code ch) - 65
      else - 1)"

definition get_callsign_character_code :: "char \<Rightarrow> int" where
  "get_callsign_character_code ch =
     (if in_span 48 57 ch then int (code ch) - 48
      else if code ch = 32 then 36
      else if in_span 65 90 ch then int (code ch) - 55
      else - 1)"

text \<open>The array \<open>c\<close> of \<open>unpackcall\<close> and \<open>unpackgrid\<close>.\<close>

definition c_table :: string where
  "c_table = ''0123456789ABCDEFGHIJKLMNOPQRSTUVWXYZ ''"

section \<open>Packing\<close>

definition pack_grid4_power :: "int list \<Rightarrow> int \<Rightarrow> u64" where
  "pack_grid4_power grid4 pwr =
     (let m = word_of_int ((179 - 10 * grid4 ! 0 - grid4 ! 2) * 180 + 10 * grid4 ! 1 + grid4 ! 3)
      in m * 128 + word_of_int pwr + 64)"

text \<open>The six characters that \<open>pack_call\<close> lays out; \<open>None\<close> is the write behind the end of \<open>call6\<close>.\<close>

definition call6_layout :: "char list \<Rightarrow> nat \<Rightarrow> string option" where
  "call6_layout callsign call_len =
     (if length callsign \<le> 2 then None
      else if c_isdigit (callsign ! 2) then
        Some (take call_len callsign @ replicate (6 - call_len) (CHR '' ''))
      else if c_isdigit (callsign ! 1) then
        (if 6 < call_len + 1 then None
         else Some (CHR '' '' # take call_len callsign @ replicate (5 - call_len) (CHR '' '')))
      else Some (replicate 6 (CHR '' '')))"

definition packed_codes :: "string \<Rightarrow> u64" where
  "packed_codes call6 =
     (let k = map get_callsign_character_code call6;
          n = word_of_int (k ! 0);
          n = n * 36 + word_of_int (k ! 1);
          n = n * 10 + word_of_int (k ! 2);
          n = n * 27 + word_of_int (k ! 3) - 10;
          n = n * 27 + word_of_int (k ! 4) - 10;
          n = n * 27 + word_of_int (k ! 5) - 10
      in n)"

definition pack_call :: "char list \<Rightarrow> u64 option" where
  "pack_call callsign =
     (let call_len = length (cstr callsign)
      in if call_len > 6 then Some 0
         else map_option packed_codes (call6_layout callsign call_len))"

text \<open>The 50 bits of a message in 11 bytes; \<open>n\<close> is a \<open>long unsigned int\<close>, \<open>m\<close> an \<open>int\<close>.\<close>

definition pack50 :: "u64 \<Rightarrow> int \<Rightarrow> u8 list" where
  "pack50 n m =
     [ucast (0xFF AND drop_bit 20 n), ucast (0xFF AND drop_bit 12 n), ucast (0xFF AND drop_bit 4 n),
      ucast (push_bit 4 (n AND 0x0F) + word_of_int (drop_bit 18 m AND 0x0F)),
      word_of_int (0xFF AND drop_bit 10 m), word_of_int (0xFF AND drop_bit 2 m),
      word_of_int (push_bit 6 (m AND 0x03)), 0, 0, 0, 0]"

section \<open>Unpacking\<close>

definition unpack50 :: "u8 list \<Rightarrow> int \<times> int" where
  "unpack50 dat =
     (let i4 = (\<lambda>k. sint (dat ! k) AND 255);
          n1 = push_bit 20 (i4 0);
          n1 = n1 + push_bit 12 (i4 1);
          n1 = n1 + push_bit 4 (i4 2);
          n1 = n1 + (drop_bit 4 (i4 3) AND 15);
          n2 = push_bit 18 (i4 3 AND 15);
          n2 = n2 + push_bit 10 (i4 4);
          n2 = n2 + push_bit 2 (i4 5);
          n2 = n2 + (drop_bit 6 (i4 6) AND 3)
      in (n1, n2))"

text \<open>
  \<open>unpackcall\<close> for a non-negative \<open>ncall\<close>: the return value and the seven bytes written to \<open>call\<close>.
\<close>

definition unpackcall :: "nat \<Rightarrow> bool \<times> char list" where
  "unpackcall ncall =
     (if ncall < 262177560 then
        let n = ncall; t5 = c_table ! (n mod 27 + 10);
            n = n div 27; t4 = c_table ! (n mod 27 + 10);
            n = n div 27; t3 = c_table ! (n mod 27 + 10);
            n = n div 27; t2 = c_table ! (n mod 10);
            n = n div 10; t1 = c_table ! (n mod 36);
            n = n div 36; t0 = c_table ! n;
            tmp = [t0, t1, t2, t3, t4, t5];
            i = length (takeWhile (\<lambda>x. x = c_table ! 36) (take 5 tmp));
            call = pad_right 6 (CHR '' '') (drop i tmp)
        in (True, map (\<lambda>x. if x = c_table ! 36 then NUL else x) call @ [NUL])
      else (False, ''......'' @ [NUL]))"

text \<open>
  \<open>unpackgrid\<close> for a non-negative \<open>ngrid\<close>. The \<open>double\<close> quotients \<open>60.0*(180.0-dlong)/5.0\<close> and
  \<open>60.0*(dlat+90)/2.5\<close> are integers in the range of \<open>int\<close>, so the conversions are exact.
\<close>

definition unpackgrid :: "nat \<Rightarrow> bool \<times> string" where
  "unpackgrid ngrid =
     (let ngrid = drop_bit 7 ngrid
      in if ngrid < 32400 then
           let dlat = int (ngrid mod 180) - 90;
               dlong = int (ngrid div 180) * 2 - 180 + 2;
               dlong = (if dlong < - 180 then dlong + 360 else dlong);
               dlong = (if dlong > 180 then dlong + 360 else dlong);
               nlong = nat (60 * (180 - dlong) div 5);
               n1 = nlong div 240; n2 = (nlong - 240 * n1) div 24;
               nlat = nat (60 * (dlat + 90) * 2 div 5);
               n3 = nlat div 240; n4 = (nlat - 240 * n3) div 24
           in (True, [c_table ! (10 + n1), c_table ! (10 + n3), c_table ! n2, c_table ! n4])
         else (False, ''XXXX''))"

section \<open>The 50 bits\<close>

lemma int_and_masks:
  fixes y :: int
  shows "y AND 255 = y mod 256" "y AND 15 = y mod 16" "y AND 3 = y mod 4" "255 AND y = y mod 256"
  using take_bit_eq_mask [of 8 y] take_bit_eq_mask [of 4 y] take_bit_eq_mask [of 2 y]
  by (simp_all add: take_bit_eq_mod mask_eq_exp_minus_1 and.commute [of 255])

lemma sint_byte: "sint (w :: u8) AND 255 = uint w"
  using uint_sint [of w] by (simp add: int_and_masks take_bit_eq_mod)

lemma uint_and_masks:
  fixes x :: u64
  shows "uint (255 AND x) = uint x mod 256" "uint (x AND 15) = uint x mod 16"
  by (simp_all only: unsigned_and_eq unsigned_numeral) (simp_all add: int_and_masks)

lemma byte_of_u64: "uint (ucast (0xFF AND x :: u64) :: u8) = uint x mod 256"
  by (simp only: unsigned_ucast_eq uint_and_masks) (simp add: take_bit_eq_mod)

lemma byte_of_int: "uint (word_of_int (0xFF AND y) :: u8) = y mod 256"
  by (simp add: unsigned_of_int take_bit_eq_mod int_and_masks)

lemma byte3: "uint (ucast (push_bit 4 (n AND 0x0F :: u64) + word_of_int (drop_bit 18 m AND 0x0F)) :: u8)
  = 16 * (uint n mod 16) + (m div 2 ^ 18) mod 16"
proof -
  let ?x = "uint n mod 16" and ?y = "(m div 2 ^ 18) mod 16"
  have b: "drop_bit 18 m AND 0x0F = ?y" by (simp add: int_and_masks drop_bit_eq_div)
  have "n AND 0x0F = word_of_int ?x" using uint_and_masks(2) [of n] by (metis word_of_int_uint)
  then have eq: "push_bit 4 (n AND 0x0F) + word_of_int (drop_bit 18 m AND 0x0F) = (word_of_int (16 * ?x + ?y) :: u64)"
    unfolding b by (simp add: push_bit_eq_mult)
  define z where "z = 16 * ?x + ?y"
  have "0 \<le> ?x" "?x < 16" "0 \<le> ?y" "?y < 16" by simp_all
  then have "0 \<le> z" "z < 256" unfolding z_def by linarith+
  then show ?thesis unfolding eq z_def [symmetric]
    by (simp add: unsigned_ucast_eq unsigned_of_int take_bit_eq_mod)
qed

lemma mod_split: "c = a * b \<Longrightarrow> 0 < b \<Longrightarrow> (x :: int) mod c = x mod a + a * (x div a mod b)"
  using zmod_zmult2_eq [of b x a] by simp

lemma join3:
  fixes r :: int
  assumes "r = q + a * A" "q = p + b * B" "p = s + c * C"
  shows "A * a + B * b + C * c + s = r"
  by (simp add: assms algebra_simps)

lemma byte6: "uint (word_of_int (push_bit 6 (m AND 0x03)) :: u8) = 64 * (m mod 4)"
proof -
  have "0 \<le> m mod 4 * 64" "m mod 4 * 64 < 256" by simp_all
  then have "m mod 4 * 64 mod 256 = 64 * (m mod 4)" by simp
  then show ?thesis
    by (simp only: unsigned_of_int int_and_masks push_bit_eq_mult) (simp add: take_bit_eq_mod)
qed

lemma uint_drop_bit_u64: "uint (drop_bit k (n :: u64)) = uint n div 2 ^ k"
  unfolding uint_nat unat_drop_bit_eq by (simp add: drop_bit_eq_div zdiv_int)

lemma unpack50_bytes:
  "unpack50 (b0 # b1 # b2 # b3 # b4 # b5 # b6 # rest) =
     (uint b0 * 2 ^ 20 + uint b1 * 2 ^ 12 + uint b2 * 2 ^ 4 + uint b3 div 16 mod 16,
      (uint b3 mod 16) * 2 ^ 18 + uint b4 * 2 ^ 10 + uint b5 * 2 ^ 2 + uint b6 div 64 mod 4)"
  unfolding unpack50_def Let_def
  unfolding sint_byte
  unfolding int_and_masks
  by (simp add: push_bit_eq_mult drop_bit_eq_div)

lemma unpack50_pack50: "unpack50 (pack50 n m) = (uint n mod 2 ^ 28, m mod 2 ^ 22)"
proof -
  let ?N = "uint n"
  have n1: "(?N div 2 ^ 20 mod 256) * 2 ^ 20 + (?N div 2 ^ 12 mod 256) * 2 ^ 12
      + (?N div 2 ^ 4 mod 256) * 2 ^ 4 + ?N mod 2 ^ 4 = ?N mod 2 ^ 28"
    by (rule join3; rule mod_split; simp)
  have n2: "(m div 2 ^ 18 mod 16) * 2 ^ 18 + (m div 2 ^ 10 mod 256) * 2 ^ 10
      + (m div 2 ^ 2 mod 256) * 2 ^ 2 + m mod 2 ^ 2 = m mod 2 ^ 22"
    by (rule join3; rule mod_split; simp)
  have b: "uint (ucast (0xFF AND drop_bit k n) :: u8) = ?N div 2 ^ k mod 256" for k
    by (simp only: byte_of_u64 uint_drop_bit_u64)
  have hi: "(16 * (?N mod 16) + (m div 2 ^ 18) mod 16) div 16 mod 16 = ?N mod 2 ^ 4"
    and lo: "(16 * (?N mod 16) + (m div 2 ^ 18) mod 16) mod 16 = m div 2 ^ 18 mod 16"
    and last: "64 * (m mod 4) div 64 mod 4 = m mod 2 ^ 2"
    by simp_all
  show ?thesis
    unfolding pack50_def unpack50_bytes b byte_of_int byte3 byte6 hi lo last
    unfolding drop_bit_eq_div n1 n2 ..
qed

section \<open>Grid locators\<close>

definition wspr_grid :: "string \<Rightarrow> bool" where
  "wspr_grid g \<longleftrightarrow> length g = 4 \<and> in_span 65 82 (g ! 0) \<and> in_span 65 82 (g ! 1) \<and>
     c_isdigit (g ! 2) \<and> c_isdigit (g ! 3)"


lemma code_eqI: "int (code c) = int (code d) \<Longrightarrow> c = d"
  using code_inj by simp

lemma c_table_nth: "k < 10 \<Longrightarrow> code (c_table ! k) = 48 + k" "10 \<le> k \<Longrightarrow> k < 36 \<Longrightarrow> code (c_table ! k) = 55 + k"
  "code (c_table ! 36) = 32"
proof -
  have t: "list_all (\<lambda>k. code (c_table ! k) = (if k < 10 then 48 + k else 55 + k)) [0..<36]" by code_simp
  show "k < 10 \<Longrightarrow> code (c_table ! k) = 48 + k" "10 \<le> k \<Longrightarrow> k < 36 \<Longrightarrow> code (c_table ! k) = 55 + k"
    using t by (auto simp: list_all_iff)
  show "code (c_table ! 36) = 32" by code_simp
qed

lemma callsign_code_table:
  "c_isdigit c \<Longrightarrow> \<exists>k < 10. get_callsign_character_code c = int k \<and> c_table ! k = c"
  "c_isupper c \<Longrightarrow> \<exists>k. 10 \<le> k \<and> k < 36 \<and> get_callsign_character_code c = int k \<and> c_table ! k = c"
proof -
  assume "c_isdigit c"
  then have "code c - 48 < 10" "code c = 48 + (code c - 48)" by (auto simp: ctype_defs)
  then show "\<exists>k < 10. get_callsign_character_code c = int k \<and> c_table ! k = c"
    by (intro exI [of _ "code c - 48"]) (auto simp: get_callsign_character_code_def in_span_def intro!: code_eqI simp: c_table_nth)
next
  assume "c_isupper c"
  then have "10 \<le> code c - 55" "code c - 55 < 36" "code c = 55 + (code c - 55)" by (auto simp: ctype_defs)
  then show "\<exists>k. 10 \<le> k \<and> k < 36 \<and> get_callsign_character_code c = int k \<and> c_table ! k = c"
    by (intro exI [of _ "code c - 55"]) (auto simp: get_callsign_character_code_def in_span_def intro!: code_eqI simp: c_table_nth)
qed

lemma locator_code_table:
  "c_isdigit c \<Longrightarrow> \<exists>k < 10. get_locator_character_code c = int k \<and> c_table ! k = c"
  "in_span 65 82 c \<Longrightarrow> \<exists>k < 18. get_locator_character_code c = int k \<and> c_table ! (10 + k) = c"
proof -
  assume "c_isdigit c"
  then have "code c - 48 < 10" "code c = 48 + (code c - 48)" by (auto simp: ctype_defs)
  then show "\<exists>k < 10. get_locator_character_code c = int k \<and> c_table ! k = c"
    by (intro exI [of _ "code c - 48"]) (auto simp: get_locator_character_code_def in_span_def intro!: code_eqI simp: c_table_nth)
next
  assume "in_span 65 82 c"
  then have "code c - 65 < 18" "code c = 65 + (code c - 65)" by (auto simp: ctype_defs)
  then show "\<exists>k < 18. get_locator_character_code c = int k \<and> c_table ! (10 + k) = c"
    by (intro exI [of _ "code c - 65"]) (auto simp: get_locator_character_code_def in_span_def intro!: code_eqI simp: c_table_nth)
qed

lemma unpackgrid_value:
  assumes "a < 18" "b < 18" "c < 10" "d < 10" "r < 128"
  shows "unpackgrid (((179 - 10 * a - c) * 180 + (10 * b + d)) * 128 + r) =
    (True, [c_table ! (10 + a), c_table ! (10 + b), c_table ! c, c_table ! d])"
proof -
  let ?q = "179 - 10 * a - c" and ?l = "10 * b + d"
  have q: "10 * a + c \<le> 179" and l: "?l < 180" using assms by auto
  have "drop_bit 7 ((?q * 180 + ?l) * 128 + r) = ?q * 180 + ?l"
    using assms(5) by (simp add: drop_bit_eq_div)
  moreover have "?q * 180 + ?l < 32400" using q l by simp
  moreover have "(?q * 180 + ?l) div 180 = ?q" "(?q * 180 + ?l) mod 180 = ?l" using l by simp_all
  moreover have "int ?q * 2 - 180 + 2 = 180 - 20 * int a - 2 * int c" using q by (simp add: of_nat_diff)
  moreover have "nat (60 * (180 - (180 - 20 * int a - 2 * int c)) div 5) = 240 * a + 24 * c" by simp
  moreover have "nat (60 * (int ?l - 90 + 90) * 2 div 5) = 240 * b + 24 * d" by simp
  moreover have "(240 * a + 24 * c) div 240 = a" "(240 * b + 24 * d) div 240 = b"
    using assms by (simp_all add: div_mult_self3)
  ultimately show ?thesis
    using assms by (simp add: unpackgrid_def Let_def)
qed

section \<open>Callsigns\<close>

text \<open>The callsigns that have a six-character form with a digit in the third place.\<close>

definition call_char :: "char \<Rightarrow> bool" where
  "call_char c \<longleftrightarrow> c_isdigit c \<or> c_isupper c"

fun wspr_call :: "string \<Rightarrow> bool" where
  "wspr_call (a # b # t) \<longleftrightarrow> call_char a \<and>
     (case t of
        [] \<Rightarrow> c_isdigit b
      | c # u \<Rightarrow> if c_isdigit c then call_char b \<and> list_all c_isupper u \<and> length u \<le> 3
                else c_isdigit b \<and> list_all c_isupper t \<and> length t \<le> 3)"
| "wspr_call s \<longleftrightarrow> False"

definition call6_ok :: "string \<Rightarrow> bool" where
  "call6_ok w \<longleftrightarrow> length w = 6 \<and> (c_isdigit (w ! 0) \<or> c_isupper (w ! 0) \<or> w ! 0 = CHR '' '') \<and>
     (c_isdigit (w ! 1) \<or> c_isupper (w ! 1)) \<and> c_isdigit (w ! 2) \<and>
     (\<forall>i \<in> {3, 4, 5}. c_isupper (w ! i) \<or> w ! i = CHR '' '')"

lemma code_nat_word: "0 \<le> k \<Longrightarrow> (word_of_int k :: u64) = word_of_nat (nat k)"
  by simp

lemma c_table_36: "c_table ! 36 = CHR '' ''" "get_callsign_character_code (CHR '' '') = 36"
  by code_simp+

text \<open>The number of a six-character form, and its digits again.\<close>

definition call6_value :: "nat \<Rightarrow> nat \<Rightarrow> nat \<Rightarrow> nat \<Rightarrow> nat \<Rightarrow> nat \<Rightarrow> nat" where
  "call6_value a b c d e f = ((((a * 36 + b) * 10 + c) * 27 + d) * 27 + e) * 27 + f"

lemma call6_value_less:
  assumes "a < 37" "b < 36" "c < 10" "d < 27" "e < 27" "f < 27"
  shows "call6_value a b c d e f < 262177560"
proof -
  have "a * 36 + b \<le> 1331" using assms by simp
  then have "(a * 36 + b) * 10 + c \<le> 13319" using assms by simp
  then have "((a * 36 + b) * 10 + c) * 27 + d \<le> 359639" using assms by simp
  then have "(((a * 36 + b) * 10 + c) * 27 + d) * 27 + e \<le> 9710279" using assms by simp
  then show ?thesis using assms unfolding call6_value_def by simp
qed

lemma call6_value_digits:
  assumes "b < 36" "c < 10" "d < 27" "e < 27" "f < 27"
  shows "call6_value a b c d e f mod 27 = f"
    "call6_value a b c d e f div 27 mod 27 = e"
    "call6_value a b c d e f div 27 div 27 mod 27 = d"
    "call6_value a b c d e f div 27 div 27 div 27 mod 10 = c"
    "call6_value a b c d e f div 27 div 27 div 27 div 10 mod 36 = b"
    "call6_value a b c d e f div 27 div 27 div 27 div 10 div 36 = a"
proof -
  have q: "(x * 27 + y) div 27 = x" "(x * 27 + y) mod 27 = y" if "y < 27" for x y :: nat using that by simp_all
  have r: "(x * 10 + y) div 10 = x" "(x * 10 + y) mod 10 = y" if "y < 10" for x y :: nat using that by simp_all
  have s: "(x * 36 + y) div 36 = x" "(x * 36 + y) mod 36 = y" if "y < 36" for x y :: nat using that by simp_all
  show "call6_value a b c d e f mod 27 = f"
    "call6_value a b c d e f div 27 mod 27 = e"
    "call6_value a b c d e f div 27 div 27 mod 27 = d"
    "call6_value a b c d e f div 27 div 27 div 27 mod 10 = c"
    "call6_value a b c d e f div 27 div 27 div 27 div 10 mod 36 = b"
    "call6_value a b c d e f div 27 div 27 div 27 div 10 div 36 = a"
    unfolding call6_value_def by (simp_all only: q r s assms)
qed

text \<open>The unpacked form: blanks become the end of the string.\<close>

lemma unpackcall_value:
  assumes "a < 37" "b < 36" "c < 10" "d < 27" "e < 27" "f < 27"
  shows "unpackcall (call6_value a b c d e f) =
    (let tmp = [c_table ! a, c_table ! b, c_table ! c, c_table ! (d + 10), c_table ! (e + 10), c_table ! (f + 10)];
         call = (if a = 36 then tl tmp @ [CHR '' ''] else tmp)
     in (True, map (\<lambda>x. if x = CHR '' '' then NUL else x) call @ [NUL]))"
proof -
  have b: "c_table ! b \<noteq> CHR '' ''"
    using c_table_nth(1,2) [of b] assms(2) by (cases "b < 10") (auto simp: code_inj [symmetric])
  have a: "c_table ! a = CHR '' '' \<longleftrightarrow> a = 36"
    using c_table_nth(1,2) [of a] assms(1) c_table_36(1)
    by (cases "a < 10"; cases "a = 36") (auto simp: code_inj [symmetric])
  show ?thesis
    unfolding unpackcall_def Let_def call6_value_digits [OF assms(2-6)]
    using call6_value_less [OF assms] a b by (simp add: c_table_36 pad_right_def)
qed

lemma pack_codes:
  assumes "10 \<le> d" "10 \<le> e" "10 \<le> f"
  shows "((((word_of_int (int a) * 36 + word_of_int (int b)) * 10 + word_of_int (int c)) * 27 + word_of_int (int d) - 10)
      * 27 + word_of_int (int e) - 10) * 27 + word_of_int (int f) - 10
    = (word_of_nat (call6_value a b c (d - 10) (e - 10) (f - 10)) :: u64)"
  using assms by (simp add: call6_value_def of_nat_diff algebra_simps)

lemma any_code:
  assumes "c_isdigit c \<or> c_isupper c"
  obtains k where "k < 36" "get_callsign_character_code c = int k" "c_table ! k = c"
proof (cases "c_isdigit c")
  case True
  then obtain k where "k < 10" "get_callsign_character_code c = int k" "c_table ! k = c"
    using callsign_code_table(1) by blast
  then show ?thesis using that [of k] by simp
next
  case False
  then show ?thesis using that callsign_code_table(2) assms by blast
qed

lemma tail_code:
  assumes "c_isupper c \<or> c = CHR '' ''"
  obtains k where "10 \<le> k" "k < 37" "get_callsign_character_code c = int k" "c_table ! k = c"
proof (cases "c = CHR '' ''")
  case True
  then show ?thesis using that [of 36] c_table_36 by simp
next
  case False
  then obtain k where "10 \<le> k" "k < 36" "get_callsign_character_code c = int k" "c_table ! k = c"
    using assms callsign_code_table(2) by blast
  then show ?thesis using that [of k] by simp
qed

lemma call6_roundtrip:
  assumes "call6_ok w"
  shows "\<exists>N < 262177560. packed_codes w = word_of_nat N \<and>
    unpackcall N = (True, map (\<lambda>x. if x = CHR '' '' then NUL else x)
      (if w ! 0 = CHR '' '' then tl w @ [CHR '' ''] else w) @ [NUL])"
proof -
  obtain w0 w1 w2 w3 w4 w5 where w: "w = [w0, w1, w2, w3, w4, w5]"
    using assms by (auto simp: call6_ok_def length_Suc_conv numeral_eq_Suc)
  have c: "c_isdigit w0 \<or> c_isupper w0 \<or> w0 = CHR '' ''" "c_isdigit w1 \<or> c_isupper w1" "c_isdigit w2"
    "c_isupper w3 \<or> w3 = CHR '' ''" "c_isupper w4 \<or> w4 = CHR '' ''" "c_isupper w5 \<or> w5 = CHR '' ''"
    using assms by (auto simp: call6_ok_def w)
  obtain a where a: "a < 37" "get_callsign_character_code w0 = int a" "c_table ! a = w0"
  proof (cases "w0 = CHR '' ''")
    case True
    then show ?thesis using that [of 36] c_table_36 by simp
  next
    case False
    then have "c_isdigit w0 \<or> c_isupper w0" using c(1) by blast
    then show ?thesis using any_code [of w0] that by (metis less_SucI eval_nat_numeral(3))
  qed
  obtain b where b: "b < 36" "get_callsign_character_code w1 = int b" "c_table ! b = w1"
    using any_code [OF c(2)] by blast
  obtain k where k: "k < 10" "get_callsign_character_code w2 = int k" "c_table ! k = w2"
    using callsign_code_table(1) [OF c(3)] by blast
  obtain d where d: "10 \<le> d" "d < 37" "get_callsign_character_code w3 = int d" "c_table ! d = w3"
    using tail_code [OF c(4)] by blast
  obtain e where e: "10 \<le> e" "e < 37" "get_callsign_character_code w4 = int e" "c_table ! e = w4"
    using tail_code [OF c(5)] by blast
  obtain f where f: "10 \<le> f" "f < 37" "get_callsign_character_code w5 = int f" "c_table ! f = w5"
    using tail_code [OF c(6)] by blast
  have bnd: "a < 37" "b < 36" "k < 10" "d - 10 < 27" "e - 10 < 27" "f - 10 < 27"
    using a b k d e f by auto
  let ?N = "call6_value a b k (d - 10) (e - 10) (f - 10)"
  have "a = 36 \<longleftrightarrow> w0 = CHR '' ''"
    using a c_table_36 by auto
  then have "unpackcall ?N = (True, map (\<lambda>x. if x = CHR '' '' then NUL else x)
      (if w ! 0 = CHR '' '' then tl w @ [CHR '' ''] else w) @ [NUL])"
    unfolding unpackcall_value [OF bnd] Let_def w using a b k d e f by simp
  moreover have "packed_codes w = word_of_nat ?N"
    using pack_codes [OF d(1) e(1) f(1), of a b k]
    unfolding packed_codes_def w Let_def by (simp add: a b k d e f)
  ultimately show ?thesis using call6_value_less [OF bnd] by blast
qed

text \<open>The six-character form of a callsign.\<close>

definition six :: "string \<Rightarrow> string" where
  "six s = (if 2 < length s \<and> c_isdigit (s ! 2) then pad_right 6 (CHR '' '') s
            else CHR '' '' # pad_right 5 (CHR '' '') s)"

lemma call_char_visible: "call_char c \<Longrightarrow> c \<noteq> CHR '' '' \<and> c \<noteq> NUL"
  by (auto simp: call_char_def ctype_defs)

lemma short_upper:
  assumes "list_all c_isupper u" and "length u \<le> 3"
  shows "\<forall>i < 3. c_isupper ((u @ replicate (3 - length u) (CHR '' '')) ! i) \<or>
                 (u @ replicate (3 - length u) (CHR '' '')) ! i = CHR '' ''"
  using assms by (auto simp: nth_append list_all_length)

lemma wspr_call_cases:
  assumes "wspr_call s"
  obtains (third) a b c u where "s = a # b # c # u" "call_char a" "call_char b" "c_isdigit c"
      "list_all c_isupper u" "length u \<le> 3"
    | (second) a b t where "s = a # b # t" "call_char a" "c_isdigit b" "list_all c_isupper t" "length t \<le> 3"
        "\<not> (2 < length s \<and> c_isdigit (s ! 2))"
  using assms by (cases s rule: wspr_call.cases) (force split: list.splits if_splits)+

lemma wspr_call_visible:
  assumes "wspr_call s" and "c \<in> set s"
  shows "c \<noteq> CHR '' '' \<and> c \<noteq> NUL"
proof -
  have "call_char c"
    using assms(1)
  proof (cases rule: wspr_call_cases)
    case third
    then show ?thesis using assms(2) by (auto simp: call_char_def list_all_iff)
  next
    case second
    then show ?thesis using assms(2) by (auto simp: call_char_def list_all_iff)
  qed
  then show ?thesis by (rule call_char_visible)
qed

lemma wspr_call_length: "wspr_call s \<Longrightarrow> 2 \<le> length s \<and> length s \<le> 6"
  by (erule wspr_call_cases) auto

lemma six_ok:
  assumes "wspr_call s"
  shows "call6_ok (six s)"
    and "(if six s ! 0 = CHR '' '' then tl (six s) @ [CHR '' ''] else six s) = pad_right 6 (CHR '' '') s"
    and "call6_layout (s @ NUL # rest) (length s) = Some (six s)"
proof -
  have digit_nul: "\<not> c_isdigit NUL" by code_simp
  from assms have "call6_ok (six s) \<and>
     (if six s ! 0 = CHR '' '' then tl (six s) @ [CHR '' ''] else six s) = pad_right 6 (CHR '' '') s \<and>
     call6_layout (s @ NUL # rest) (length s) = Some (six s)"
  proof (cases rule: wspr_call_cases)
    case (third a b c u)
    have "six s = a # b # c # u @ replicate (3 - length u) (CHR '' '')"
      using third by (simp add: six_def pad_right_def)
    then show ?thesis
      using third short_upper [OF third(5,6)] call_char_visible [of a]
      by (auto simp: call6_ok_def call_char_def pad_right_def call6_layout_def numeral_eq_Suc)
  next
    case (second a b t)
    have six: "six s = CHR '' '' # a # b # t @ replicate (3 - length t) (CHR '' '')"
      unfolding six_def if_not_P [OF second(6)] by (simp add: second(1) pad_right_def)
    have "call6_layout (s @ NUL # rest) (length s) = Some (six s)"
      using second six digit_nul by (cases t) (auto simp: call6_layout_def)
    then show ?thesis
      using second short_upper [OF second(4,5)] six
      by (auto simp: call6_ok_def call_char_def pad_right_def numeral_eq_Suc Suc_diff_le replicate_append_same)
  qed
  then show "call6_ok (six s)"
    "(if six s ! 0 = CHR '' '' then tl (six s) @ [CHR '' ''] else six s) = pad_right 6 (CHR '' '') s"
    "call6_layout (s @ NUL # rest) (length s) = Some (six s)" by blast+
qed

lemma pack_call_six:
  assumes "wspr_call s"
  shows "pack_call (s @ NUL # rest) = Some (packed_codes (six s))"
proof -
  have "NUL \<notin> set s" using wspr_call_visible [OF assms] by blast
  then show ?thesis
    using wspr_call_length [OF assms] by (simp add: pack_call_def cstr_append six_ok(3) [OF assms])
qed

lemma pack_call_roundtrip:
  assumes "wspr_call s"
  obtains N where "N < 262177560" "unpackcall N = (True, pad_right 7 NUL s)"
    "\<And>rest. pack_call (s @ NUL # rest) = Some (word_of_nat N)"
proof -
  have len: "length s \<le> 6" using wspr_call_length [OF assms] by simp
  obtain N where N: "N < 262177560" "packed_codes (six s) = word_of_nat N"
    "unpackcall N = (True, map (\<lambda>x. if x = CHR '' '' then NUL else x) (pad_right 6 (CHR '' '') s) @ [NUL])"
    using call6_roundtrip [OF six_ok(1) [OF assms]] unfolding six_ok(2) [OF assms] by blast
  have "map (\<lambda>x. if x = CHR '' '' then NUL else x) s = s"
    using wspr_call_visible [OF assms] by (intro map_idI) auto
  then have "map (\<lambda>x. if x = CHR '' '' then NUL else x) (pad_right 6 (CHR '' '') s) @ [NUL] = pad_right 7 NUL s"
    using len by (simp add: pad_right_def replicate_append_same Suc_diff_le numeral_eq_Suc)
  then show ?thesis
    using that N pack_call_six [OF assms] by simp
qed

section \<open>A type 1 message keeps its fields\<close>

text \<open>Conversion of a \<open>long unsigned int\<close> to the 32-bit \<open>int\<close>.\<close>

definition to_int32 :: "u64 \<Rightarrow> int" where
  "to_int32 w = sint (ucast w :: 32 word)"

lemma to_int32_small: "n < 2 ^ 31 \<Longrightarrow> to_int32 (word_of_nat n) = int n"
  unfolding to_int32_def by (simp add: sint_uint signed_take_bit_int_eq_self unsigned_of_nat take_bit_nat_eq_self)

lemma pack_grid4_power_value:
  assumes "wspr_grid g" and "- 64 \<le> p" and "p < 64"
  shows "\<exists>q < 32400. pack_grid4_power (map get_locator_character_code g) p = word_of_nat (q * 128 + nat (p + 64))
    \<and> (\<forall>r < 128. unpackgrid (q * 128 + r) = (True, g))"
proof -
  obtain g0 g1 g2 g3 where g: "g = [g0, g1, g2, g3]"
    using assms(1) by (auto simp: wspr_grid_def length_Suc_conv numeral_eq_Suc)
  have chars: "in_span 65 82 g0" "in_span 65 82 g1" "c_isdigit g2" "c_isdigit g3"
    using assms(1) by (auto simp: wspr_grid_def g)
  obtain a where a: "a < 18" "get_locator_character_code g0 = int a" "c_table ! (10 + a) = g0"
    using locator_code_table(2) [OF chars(1)] by blast
  obtain b where b: "b < 18" "get_locator_character_code g1 = int b" "c_table ! (10 + b) = g1"
    using locator_code_table(2) [OF chars(2)] by blast
  obtain c where c: "c < 10" "get_locator_character_code g2 = int c" "c_table ! c = g2"
    using locator_code_table(1) [OF chars(3)] by blast
  obtain d where d: "d < 10" "get_locator_character_code g3 = int d" "c_table ! d = g3"
    using locator_code_table(1) [OF chars(4)] by blast
  let ?q = "(179 - 10 * a - c) * 180 + (10 * b + d)"
  have ac: "10 * a + c \<le> 179" and bd: "10 * b + d < 180" using a b c d by auto
  then have q: "?q < 32400" by simp
  have "(179 - 10 * int a - int c) * 180 + 10 * int b + int d = int ?q"
    using ac by (simp add: of_nat_diff)
  then have "pack_grid4_power (map get_locator_character_code g) p = word_of_int (int ?q) * 128 + word_of_int p + 64"
    by (simp add: pack_grid4_power_def g a b c d)
  also have "\<dots> = word_of_int (int ?q * 128 + (p + 64))" by simp
  also have "\<dots> = word_of_nat (?q * 128 + nat (p + 64))"
    using assms(2) by (simp add: word_of_int_nat [symmetric])
  finally have "pack_grid4_power (map get_locator_character_code g) p = word_of_nat (?q * 128 + nat (p + 64))" .
  moreover have "\<forall>r < 128. unpackgrid (?q * 128 + r) = (True, g)"
    using unpackgrid_value [OF a(1) b(1) c(1) d(1)] by (simp add: a b c d g)
  ultimately show ?thesis using q by blast
qed

end
