(* ===== verification/ConvCode.thy ===== *)
theory ConvCode
  imports Prelude
begin

text \<open>
  \<open>core/tab.c\<close>, the \<open>ENCODE\<close> macro of \<open>core/fano.h\<close> and \<open>encode\<close> of \<open>core/fano.c\<close>: the K = 32,
  rate 1/2 Layland-Lushbaugh convolutional code. The encoder state is an \<open>unsigned long\<close> (64 bits);
  a symbol pair is the number \<open>2 * s1 + s2\<close>.
\<close>

definition POLY1 :: u64 where "POLY1 = 0xf2d05351"
definition POLY2 :: u64 where "POLY2 = 0xe4613c47"

definition Partab :: "nat list" where
  "Partab = [
     0, 1, 1, 0, 1, 0, 0, 1,
     1, 0, 0, 1, 0, 1, 1, 0,
     1, 0, 0, 1, 0, 1, 1, 0,
     0, 1, 1, 0, 1, 0, 0, 1,
     1, 0, 0, 1, 0, 1, 1, 0,
     0, 1, 1, 0, 1, 0, 0, 1,
     0, 1, 1, 0, 1, 0, 0, 1,
     1, 0, 0, 1, 0, 1, 1, 0,
     1, 0, 0, 1, 0, 1, 1, 0,
     0, 1, 1, 0, 1, 0, 0, 1,
     0, 1, 1, 0, 1, 0, 0, 1,
     1, 0, 0, 1, 0, 1, 1, 0,
     0, 1, 1, 0, 1, 0, 0, 1,
     1, 0, 0, 1, 0, 1, 1, 0,
     1, 0, 0, 1, 0, 1, 1, 0,
     0, 1, 1, 0, 1, 0, 0, 1,
     1, 0, 0, 1, 0, 1, 1, 0,
     0, 1, 1, 0, 1, 0, 0, 1,
     0, 1, 1, 0, 1, 0, 0, 1,
     1, 0, 0, 1, 0, 1, 1, 0,
     0, 1, 1, 0, 1, 0, 0, 1,
     1, 0, 0, 1, 0, 1, 1, 0,
     1, 0, 0, 1, 0, 1, 1, 0,
     0, 1, 1, 0, 1, 0, 0, 1,
     0, 1, 1, 0, 1, 0, 0, 1,
     1, 0, 0, 1, 0, 1, 1, 0,
     1, 0, 0, 1, 0, 1, 1, 0,
     0, 1, 1, 0, 1, 0, 0, 1,
     1, 0, 0, 1, 0, 1, 1, 0,
     0, 1, 1, 0, 1, 0, 0, 1,
     0, 1, 1, 0, 1, 0, 0, 1,
     1, 0, 0, 1, 0, 1, 1, 0]"

text \<open>One half of the \<open>ENCODE\<close> macro: the parity of the taps of one polynomial.\<close>

definition parity_index :: "u64 \<Rightarrow> u64 \<Rightarrow> u64" where
  "parity_index poly encstate =
     (let tmp = encstate AND poly;
          tmp = tmp XOR drop_bit 16 tmp
      in (tmp XOR drop_bit 8 tmp) AND 0xff)"

definition tap :: "u64 \<Rightarrow> u64 \<Rightarrow> nat" where
  "tap poly encstate = Partab ! unat (parity_index poly encstate)"

definition ENCODE :: "u64 \<Rightarrow> nat" where
  "ENCODE encstate = push_bit 1 (tap POLY1 encstate) OR tap POLY2 encstate"

text \<open>
  The two nested loops of \<open>encode\<close> over the bits of the data, high bit first; every bit enters the
  state from the right and produces two output bytes.
\<close>

definition conv_step :: "u64 \<Rightarrow> bool \<Rightarrow> u64" where
  "conv_step encstate b = push_bit 1 encstate OR of_bool b"

fun encode_bits :: "u64 \<Rightarrow> bool list \<Rightarrow> nat list" where
  "encode_bits encstate [] = []"
| "encode_bits encstate (b # bs) =
     (let encstate = conv_step encstate b; sym = ENCODE encstate
      in drop_bit 1 sym # (sym AND 1) # encode_bits encstate bs)"

definition byte_bits :: "u8 \<Rightarrow> bool list" where
  "byte_bits d = map (bit d) [7, 6, 5, 4, 3, 2, 1, 0]"

definition encode :: "u8 list \<Rightarrow> nat list" where
  "encode data = encode_bits 0 (concat (map byte_bits data))"

section \<open>The parity table\<close>

lemma length_Partab: "length Partab = 256"
  by (simp add: Partab_def)

lemma Partab_bits: "list_all (\<lambda>p. p = 0 \<or> p = 1) Partab"
  by (simp add: Partab_def)

text \<open>Neighbours in the table differ: flipping the low bit of the index flips the parity.\<close>

fun paired :: "nat list \<Rightarrow> bool" where
  "paired (x # y # xs) \<longleftrightarrow> (x = 0 \<and> y = 1 \<or> x = 1 \<and> y = 0) \<and> paired xs"
| "paired xs \<longleftrightarrow> True"

lemma paired_Partab: "paired Partab"
  by (simp add: Partab_def)

lemma paired_nth:
  "paired xs \<Longrightarrow> even i \<Longrightarrow> Suc i < length xs \<Longrightarrow>
   xs ! i = 0 \<and> xs ! Suc i = 1 \<or> xs ! i = 1 \<and> xs ! Suc i = 0"
proof (induction xs arbitrary: i rule: paired.induct)
  case (1 x y xs)
  show ?case
  proof (cases "i = 0")
    case True
    with "1.prems" show ?thesis by auto
  next
    case False
    with "1.prems"(2) obtain k where k: "i = Suc (Suc k)" "even k"
      by (metis Suc_pred even_Suc not_gr_zero odd_pos)
    with 1 show ?thesis by simp
  qed
qed simp_all

lemma Partab_flip:
  assumes "n < 256"
  shows "Partab ! (if even n then n + 1 else n - 1) = 1 - Partab ! n"
proof (cases "even n")
  case True
  with assms have "Suc n < 256" by presburger
  then have "Suc n < length Partab" by (simp add: length_Partab)
  from paired_nth [OF paired_Partab True this] show ?thesis
    using True by auto
next
  case False
  then obtain m where m: "n = Suc m" "even m" by (cases n) auto
  with assms have "Suc m < length Partab" by (simp add: length_Partab)
  from paired_nth [OF paired_Partab m(2) this] show ?thesis
    using m by auto
qed

lemma parity_index_less: "unat (parity_index poly s) < 256"
proof -
  have "parity_index poly s \<le> 255"
    by (simp add: parity_index_def Let_def word_and_le1)
  then show ?thesis by (simp add: word_le_nat_alt)
qed

lemma tap_cases: "tap poly s = 0 \<or> tap poly s = 1"
  using Partab_bits parity_index_less [of poly s]
  by (auto simp: tap_def list_all_length length_Partab)

lemma flip_low_unat: "unat (x XOR 1 :: u64) = (if even (unat x) then unat x + 1 else unat x - 1)"
proof -
  have "unat (x XOR 1) = unat x XOR 1"
    by (simp only: unsigned_xor_eq unsigned_1)
  also have "\<dots> = (if even (unat x) then unat x + 1 else unat x - 1)"
    by (simp only: xor_one_eq) simp
  finally show ?thesis .
qed

lemma parity_index_flip:
  assumes "bit poly 0"
  shows "parity_index poly (s XOR 1) = parity_index poly s XOR 1"
  using assms
  by (intro bit_word_eqI) (auto simp: parity_index_def Let_def bit_simps)

lemma tap_flip: "bit poly 0 \<Longrightarrow> tap poly (s XOR 1) = 1 - tap poly s"
  using Partab_flip [OF parity_index_less]
  by (simp add: tap_def parity_index_flip flip_low_unat)

lemma ENCODE_sum: "ENCODE s = 2 * tap POLY1 s + tap POLY2 s"
  using tap_cases [of POLY1 s] tap_cases [of POLY2 s] by (auto simp: ENCODE_def)

lemma ENCODE_less: "ENCODE s < 4"
  using tap_cases [of POLY1 s] tap_cases [of POLY2 s] by (auto simp: ENCODE_sum)

lemma polys_odd: "bit POLY1 0" "bit POLY2 0"
  by (simp_all add: POLY1_def POLY2_def)

text \<open>The branch symbols of the two values of the newest bit are complementary.\<close>

lemma ENCODE_flip: "ENCODE (s XOR 1) = 3 XOR ENCODE s"
  using tap_cases [of POLY1 s] tap_cases [of POLY2 s]
  by (auto simp: ENCODE_sum tap_flip polys_odd)

section \<open>Encoder states\<close>

abbreviation conv_state :: "bool list \<Rightarrow> u64" where
  "conv_state bs \<equiv> foldl conv_step 0 bs"

lemma bit_conv_step: "bit (conv_step s b) n \<longleftrightarrow> (if n = 0 then b else n < 64 \<and> bit s (n - 1))"
  unfolding conv_step_def bit_or_iff bit_push_bit_iff
  by (cases n) (auto simp: bit_simps)

lemma conv_step_flip: "conv_step s b XOR 1 = conv_step s (\<not> b)"
  by (rule bit_word_eqI) (simp add: bit_conv_step bit_xor_iff bit_1_iff)

lemma bit_conv_state:
  "bit (conv_state bs) n \<longleftrightarrow> n < 64 \<and> n < length bs \<and> bs ! (length bs - 1 - n)"
proof (induction bs arbitrary: n rule: rev_induct)
  case (snoc b bs)
  show ?case
  proof (cases n)
    case (Suc m)
    have "length bs - Suc m = length bs - 1 - m" by simp
    then show ?thesis
      using snoc.IH [of m] Suc by (auto simp: bit_conv_step nth_append)
  qed (simp add: bit_conv_step)
qed simp

lemma encode_bits_append:
  "encode_bits s (xs @ ys) = encode_bits s xs @ encode_bits (foldl conv_step s xs) ys"
  by (induction xs arbitrary: s) (simp_all add: Let_def)

lemma length_encode_bits [simp]: "length (encode_bits s bs) = 2 * length bs"
  by (induction bs arbitrary: s) (simp_all add: Let_def)

lemma ENCODE_parts: "drop_bit 1 (ENCODE s) = tap POLY1 s" "ENCODE s AND 1 = tap POLY2 s"
  using tap_cases [of POLY1 s] tap_cases [of POLY2 s] by (auto simp: ENCODE_sum and_one_eq)

lemma length_byte_bits [simp]: "length (byte_bits d) = 8"
  by (simp add: byte_bits_def)

lemma byte_bits_nth: "i < 8 \<Longrightarrow> byte_bits d ! i = bit d (7 - i)"
  by (auto simp: byte_bits_def nth_Cons numeral_eq_Suc less_Suc_eq split: nat.splits)

lemma byte_bits_inj: "byte_bits c = byte_bits d \<Longrightarrow> c = d"
proof (rule bit_word_eqI)
  fix n assume "byte_bits c = byte_bits d" and "n < LENGTH(8)"
  then have "byte_bits c ! (7 - n) = byte_bits d ! (7 - n)" by simp
  with \<open>n < LENGTH(8)\<close> show "bit c n = bit d n" by (simp add: byte_bits_nth)
qed

text \<open>The low byte of the state holds the last eight bits.\<close>

lemma byte_bits_conv_state:
  assumes "8 \<le> length bs"
  shows "byte_bits (ucast (conv_state bs)) = drop (length bs - 8) bs"
proof (rule nth_equalityI)
  fix i assume i: "i < length (byte_bits (ucast (conv_state bs)))"
  then have "length bs - Suc (7 - i) = length bs - 8 + i"
    using assms by simp
  then show "byte_bits (ucast (conv_state bs)) ! i = drop (length bs - 8) bs ! i"
    using i assms by (auto simp: byte_bits_nth bit_simps bit_conv_state)
qed (use assms in simp)

end
