(* ===== verification/Interleave.thy ===== *)
theory Interleave
  imports Prelude
begin

text \<open>
  \<open>interleave\<close> of \<open>core/wsprsim_utils.c\<close> and \<open>deinterleave\<close> of \<open>core/wsprd_utils.c\<close>. Both walk the
  byte counter \<open>i\<close>, which wraps at 256, and use the bit reversal of \<open>i\<close> as the other index, skipping
  the reversals that do not fit the 162 symbols. \<open>junk\<close> is the local array \<open>tmp\<close> before it is written.
\<close>

section \<open>The code\<close>

text \<open>\<open>((i * 0x80200802ULL) & 0x0884422110ULL) * 0x0101010101ULL >> 32\<close>, cut to a byte.\<close>

definition scatter :: "u8 \<Rightarrow> u8" where
  "scatter i = ucast (drop_bit 32
     (((ucast i * 0x80200802 :: u64) AND 0x0884422110) * 0x0101010101))"

partial_function (option) interleave_loop :: "u8 list \<Rightarrow> u8 \<Rightarrow> u8 \<Rightarrow> u8 list \<Rightarrow> u8 list option" where
  "interleave_loop syms p i tmp =
     (if p < 162 then
        let j = scatter i
        in if j < 162 then interleave_loop syms (p + 1) (i + 1) (tmp[unat j := syms ! unat p])
           else interleave_loop syms p (i + 1) tmp
      else Some tmp)"

definition interleave :: "u8 list \<Rightarrow> u8 list \<Rightarrow> u8 list option" where
  "interleave junk syms =
     map_option (\<lambda>tmp. map (\<lambda>i. tmp ! i) [0..<162] @ drop 162 syms) (interleave_loop syms 0 0 junk)"

partial_function (option) deinterleave_loop :: "u8 list \<Rightarrow> u8 \<Rightarrow> u8 \<Rightarrow> u8 list \<Rightarrow> u8 list option" where
  "deinterleave_loop syms p i tmp =
     (if p < 162 then
        let j = scatter i
        in if j < 162 then deinterleave_loop syms (p + 1) (i + 1) (tmp[unat p := syms ! unat j])
           else deinterleave_loop syms p (i + 1) tmp
      else Some tmp)"

definition deinterleave :: "u8 list \<Rightarrow> u8 list \<Rightarrow> u8 list option" where
  "deinterleave junk syms =
     map_option (\<lambda>tmp. map (\<lambda>i. tmp ! i) [0..<162] @ drop 162 syms) (deinterleave_loop syms 0 0 junk)"

section \<open>The permutation\<close>

text \<open>\<open>scatter\<close> reverses the eight bits of its argument, nibble by nibble.\<close>

definition nibble_rev :: "nat list" where
  "nibble_rev = [0, 8, 4, 12, 2, 10, 6, 14, 1, 9, 5, 13, 3, 11, 7, 15]"

definition rev8 :: "nat \<Rightarrow> nat" where
  "rev8 n = 16 * nibble_rev ! (n mod 16) + nibble_rev ! (n div 16)"

lemma upto16: "[0..<16] = [0, 1, 2, 3, 4, 5, 6, 7, 8, 9, 10, 11, 12, 13, 14, 15]"
  by (simp add: upt_rec)

lemma scatter_grid:
  "list_all (\<lambda>(h, th). list_all (\<lambda>(l, tl). scatter (of_nat (16 * h + l)) = of_nat (16 * tl + th))
     (zip [0..<16] nibble_rev)) (zip [0..<16] nibble_rev)"
  unfolding upto16 nibble_rev_def zip_Cons_Cons zip_Nil list.pred_inject prod.case scatter_def
  by (intro conjI TrueI; simp)

lemma nibble_rev_table:
  "length nibble_rev = 16" "list_all (\<lambda>k. nibble_rev ! k < 16 \<and> nibble_rev ! (nibble_rev ! k) = k) [0..<16]"
  by (simp_all add: nibble_rev_def upto16)

lemma nibble_rev_nth:
  assumes "k < 16"
  shows "nibble_rev ! k < 16" and "nibble_rev ! (nibble_rev ! k) = k"
  using nibble_rev_table(2) assms by (simp_all add: list_all_iff)

lemma scatter_rev8:
  assumes "n < 256"
  shows "scatter (of_nat n) = of_nat (rev8 n)"
proof -
  have hl: "n div 16 < 16" "n mod 16 < 16" using assms by auto
  have in_zip: "(k, nibble_rev ! k) \<in> set (zip [0..<16] nibble_rev)" if "k < 16" for k
    unfolding in_set_zip using that by (intro exI [of _ k]) (simp add: nibble_rev_table)
  have "scatter (of_nat (16 * (n div 16) + n mod 16)) =
      of_nat (16 * nibble_rev ! (n mod 16) + nibble_rev ! (n div 16))"
    using scatter_grid in_zip [OF hl(1)] in_zip [OF hl(2)]
    unfolding list_all_iff by fastforce
  then show ?thesis by (simp add: rev8_def)
qed

lemma rev8_less: "n < 256 \<Longrightarrow> rev8 n < 256"
  using nibble_rev_nth(1) [of "n mod 16"] nibble_rev_nth(1) [of "n div 16"]
    less_mult_imp_div_less [of n 16 16]
  by (simp add: rev8_def)

lemma rev8_rev8: "n < 256 \<Longrightarrow> rev8 (rev8 n) = n"
  using nibble_rev_nth [of "n mod 16"] nibble_rev_nth [of "n div 16"]
    less_mult_imp_div_less [of n 16 16]
  by (simp add: rev8_def)

lemma unat_scatter: "n < 256 \<Longrightarrow> unat (scatter (of_nat n)) = rev8 n"
  using rev8_less by (simp add: scatter_rev8 unat_of_nat)

lemma scatter_less: "n < 256 \<Longrightarrow> scatter (of_nat n) < 162 \<longleftrightarrow> rev8 n < 162"
  using unat_scatter by (simp add: word_less_nat_alt)

text \<open>The counter values whose reversal fits, and the positions visited, from \<open>i\<close> on.\<close>

definition visits :: "nat \<Rightarrow> nat list" where
  "visits i = filter (\<lambda>n. rev8 n < 162) [i..<256]"

abbreviation positions :: "nat list" where
  "positions \<equiv> map rev8 (visits 0)"

lemma visits_rec: "i < 256 \<Longrightarrow> visits i = (if rev8 i < 162 then i # visits (Suc i) else visits (Suc i))"
  by (simp add: visits_def upt_conv_Cons)

lemma positions_perm: "distinct positions" "set positions = {..<162}" "length positions = 162"
proof -
  have inj: "inj_on rev8 {..<256}"
    by (rule inj_on_inverseI [of _ rev8]) (simp add: rev8_rev8)
  show d: "distinct positions"
    by (auto simp: visits_def distinct_map intro: inj_on_subset [OF inj])
  show s: "set positions = {..<162}"
  proof
    show "{..<162} \<subseteq> set positions"
    proof
      fix j :: nat assume "j \<in> {..<162}"
      then have "j < 162" and "j < 256" by auto
      then have "rev8 j \<in> set (visits 0)" and "rev8 (rev8 j) = j"
        using rev8_less by (auto simp: visits_def rev8_rev8)
      then show "j \<in> set positions" by force
    qed
  qed (auto simp: visits_def)
  show "length positions = 162"
    using distinct_card [OF d] unfolding s by simp
qed

lemma length_visits [simp]: "length (visits 0) = 162"
  using positions_perm(3) by simp

section \<open>The loops\<close>

text \<open>
  Both loops walk the counter in the same way and differ only in the write. \<open>put p j\<close> is the write
  for the running index \<open>p\<close> and the reversed counter \<open>j\<close>.
\<close>

locale byte_walk =
  fixes loop :: "u8 \<Rightarrow> u8 \<Rightarrow> u8 list \<Rightarrow> u8 list option"
    and put :: "nat \<Rightarrow> nat \<Rightarrow> u8 list \<Rightarrow> u8 list"
  assumes step: "loop p i tmp =
    (if p < 162 then
       let j = scatter i
       in if j < 162 then loop (p + 1) (i + 1) (put (unat p) (unat j) tmp) else loop p (i + 1) tmp
     else Some tmp)"
begin

lemma walk_end: "loop 162 i tmp = Some tmp"
  by (subst step) simp

lemma walk_step:
  assumes "a < 162" and "i < 256"
  shows "loop (of_nat a) (of_nat i) tmp =
    (if rev8 i < 162 then loop (of_nat (Suc a)) (of_nat (Suc i)) (put a (rev8 i) tmp)
     else loop (of_nat a) (of_nat (Suc i)) tmp)"
proof -
  have "(of_nat a :: u8) < 162" using assms by (simp add: word_less_nat_alt unat_of_nat)
  then show ?thesis
    using assms
    by (subst step) (simp add: Let_def scatter_less unat_scatter unat_of_nat add.commute)
qed

lemma walk_result:
  "a + length (visits i) = 162 \<Longrightarrow> i \<le> 256 \<Longrightarrow>
   loop (of_nat a) (of_nat i) tmp =
     Some (foldl (\<lambda>t (p, j). put p j t) tmp (zip [a..<162] (map rev8 (visits i))))"
proof (induction "256 - i" arbitrary: a i tmp)
  case 0
  then have "visits i = []" and "a = 162" by (auto simp: visits_def)
  then show ?case by (simp add: walk_end)
next
  case (Suc m)
  then have i: "i < 256" and m: "m = 256 - Suc i" by auto
  consider (full) "a = 162" "visits i = []" | (hit) "a < 162" "rev8 i < 162" | (miss) "a < 162" "\<not> rev8 i < 162"
    using Suc.prems(1) by (cases "visits i") force+
  then show ?case
  proof cases
    case full
    then show ?thesis by (simp add: walk_end)
  next
    case hit
    then show ?thesis
      using Suc.hyps(1) [OF m, of "Suc a"] Suc.prems i walk_step [OF hit(1) i]
      by (simp add: visits_rec upt_conv_Cons)
  next
    case miss
    then show ?thesis
      using Suc.hyps(1) [OF m, of a] Suc.prems i walk_step [OF miss(1) i] by (simp add: visits_rec)
  qed
qed

lemma walk: "loop 0 0 tmp = Some (foldl (\<lambda>t (p, j). put p j t) tmp (zip [0..<162] positions))"
proof -
  have "length (visits 0) = 162" using positions_perm(3) by simp
  then show ?thesis using walk_result [of 0 0 tmp] by simp
qed

end

interpretation il: byte_walk "interleave_loop syms" "\<lambda>p j t. t[j := syms ! p]" for syms
  by unfold_locales (rule interleave_loop.simps)

interpretation dl: byte_walk "deinterleave_loop syms" "\<lambda>p j t. t[p := syms ! j]" for syms
  by unfold_locales (rule deinterleave_loop.simps)

text \<open>Writing through distinct indices.\<close>

lemma foldl_write_length: "length (foldl (\<lambda>t (p, j). t[f p j := g p j]) t ps) = length t"
  by (induction ps arbitrary: t) auto

lemma foldl_write_other:
  "k \<notin> (\<lambda>(p, j). f p j) ` set ps \<Longrightarrow> foldl (\<lambda>t (p, j). t[f p j := g p j]) t ps ! k = t ! k"
  by (induction ps arbitrary: t) auto

lemma foldl_write_nth:
  "distinct (map (\<lambda>(p, j). f p j) ps) \<Longrightarrow> m < length ps \<Longrightarrow> ps ! m = (p, j) \<Longrightarrow> f p j < length t \<Longrightarrow>
   foldl (\<lambda>t (p, j). t[f p j := g p j]) t ps ! f p j = g p j"
proof (induction ps arbitrary: t m)
  case (Cons q ps)
  obtain p' j' where q: "q = (p', j')" by force
  show ?case
  proof (cases m)
    case 0
    then have "f p j \<notin> (\<lambda>(p, j). f p j) ` set ps" and "q = (p, j)" using Cons.prems by auto
    with Cons.prems foldl_write_other [OF this(1), where g = g] show ?thesis by simp
  next
    case (Suc m')
    with Cons.prems Cons.IH [of m' "t[f p' j' := g p' j']"] show ?thesis by (simp add: q)
  qed
qed simp

lemma positions_nth_less: "p < 162 \<Longrightarrow> positions ! p < 162"
  using positions_perm nth_mem [of p positions] by auto

lemma interleave_result:
  assumes "length junk = 162"
  shows "\<exists>out. interleave junk syms = Some out \<and> length out = 162 + (length syms - 162) \<and>
    (\<forall>p < 162. out ! (positions ! p) = syms ! p) \<and> drop 162 out = drop 162 syms"
proof -
  define tmp where "tmp = foldl (\<lambda>t (p, j). t[j := syms ! p]) junk (zip [0..<162] positions)"
  have ps: "map (\<lambda>(p, j). j) (zip [0..<162] positions) = positions"
    by (rule nth_equalityI) simp_all
  have "tmp ! (positions ! p) = syms ! p" if "p < 162" for p
    unfolding tmp_def
    using foldl_write_nth [of "\<lambda>p j. j" "zip [0..<162] positions" p p "positions ! p" junk "\<lambda>p j. syms ! p"]
      that positions_perm positions_nth_less [OF that] assms ps by simp
  moreover have "interleave junk syms = Some (map (\<lambda>i. tmp ! i) [0..<162] @ drop 162 syms)"
    by (simp add: interleave_def il.walk tmp_def)
  ultimately show ?thesis
    using positions_nth_less by (auto simp: nth_append)
qed

lemma deinterleave_result:
  assumes "length junk = 162"
  shows "deinterleave junk syms = Some (map (\<lambda>p. syms ! (positions ! p)) [0..<162] @ drop 162 syms)"
proof -
  define tmp where "tmp = foldl (\<lambda>t (p, j). t[p := syms ! j]) junk (zip [0..<162] positions)"
  have ps: "map (\<lambda>(p, j). p) (zip [0..<162] positions) = [0..<162]"
    by (rule nth_equalityI) simp_all
  have "tmp ! p = syms ! (positions ! p)" if "p < 162" for p
    unfolding tmp_def
    using foldl_write_nth [of "\<lambda>p j. p" "zip [0..<162] positions" p p "positions ! p" junk "\<lambda>p j. syms ! j"]
      that positions_perm assms ps by simp
  then show ?thesis
    by (simp add: deinterleave_def dl.walk tmp_def)
qed

text \<open>
  C27: on any array of at least 162 symbols, and whatever the local arrays hold, both loops end,
  deinterleaving the interleaved symbols gives them back, symbol \<open>p\<close> having been moved to place
  \<open>positions ! p\<close>, a permutation of the 162 places.
\<close>

theorem deinterleave_interleave:
  assumes "length junk = 162" and "length junk' = 162" and "162 \<le> length syms"
  shows "\<exists>out. interleave junk syms = Some out \<and> (\<forall>p < 162. out ! (positions ! p) = syms ! p)
    \<and> deinterleave junk' out = Some syms"
proof -
  obtain out where out: "interleave junk syms = Some out"
    "\<forall>p < 162. out ! (positions ! p) = syms ! p" "drop 162 out = drop 162 syms"
    using interleave_result [OF assms(1)] by blast
  have "map (\<lambda>p. out ! (positions ! p)) [0..<162] = map (\<lambda>p. syms ! p) [0..<162]"
    using out(2) by (intro map_cong) auto
  also have "\<dots> = take 162 syms"
    using assms(3) by (metis map_nth take_map take_upt add_0)
  finally have "deinterleave junk' out = Some (take 162 syms @ drop 162 syms)"
    unfolding deinterleave_result [OF assms(2)] out(3) by simp
  then show ?thesis using out(1,2) by simp
qed

theorem deinterleave_interleave_witness:
  "\<exists>out. interleave (replicate 162 7) (map of_nat [0..<176]) = Some out
    \<and> deinterleave (replicate 162 9) out = Some (map of_nat [0..<176])"
  using deinterleave_interleave [of "replicate 162 7" "replicate 162 9" "map of_nat [0..<176]"] by auto

end
