(* ===== verification/WsprMessage.thy ===== *)
theory WsprMessage
  imports WsprPack Nhash ConvCode Interleave
begin

text \<open>
  WSPR messages: \<open>unpk_\<close> and \<open>unpackpfx\<close> of \<open>core/wsprd_utils.c\<close>, and the message packer
  \<open>get_wspr_channel_symbols\<close> of \<open>core/wsprsim_utils.c\<close>. Character arrays are lists of their allocated
  length. An access outside an array, a null pointer passed on and a signed overflow are \<open>None\<close>.
\<close>

section \<open>Tables and buffers\<close>

text \<open>The rows of the two tables, indexed by the hash: 13 and 5 bytes each in the code.\<close>

record hash_tables =
  hashtab :: "nat \<Rightarrow> string"
  loctab :: "nat \<Rightarrow> string"

text \<open>\<open>nhash (callsign, strlen (callsign), 146)\<close>.\<close>

definition call_hash :: "string \<Rightarrow> nat" where
  "call_hash s = unat (nhash 0 (\<lambda>i. if i < length s then of_nat (code (s ! i)) else 0) (length s) 146)"

definition HASHTAB_ROWS :: nat where "HASHTAB_ROWS = 32768"

text \<open>\<open>snprintf (buf, 23, ...)\<close> into the array \<open>buf\<close> of at least 23 bytes.\<close>

definition put_report :: "string \<Rightarrow> char list \<Rightarrow> char list" where
  "put_report s buf = blit 0 (take 22 s @ [NUL]) buf"

section \<open>Decoding: \<open>unpackpfx\<close> and \<open>unpk_\<close>\<close>

definition pfx_char :: "nat \<Rightarrow> char" where
  "pfx_char nc = (if nc \<le> 9 then char_of (nc + 48) else if nc \<le> 35 then char_of (nc + 55) else CHR '' '')"

text \<open>\<open>strncpy (call, result, 19)\<close> fills 19 bytes, the terminator is the twentieth.\<close>

definition store_call :: "string \<Rightarrow> char list \<Rightarrow> (bool \<times> char list) option" where
  "store_call result call =
     (if length call < 20 then None else Some (True, blit 0 (pad_right 20 NUL (take 19 result)) call))"

definition unpackpfx :: "nat \<Rightarrow> char list \<Rightarrow> (bool \<times> char list) option" where
  "unpackpfx nprefix call =
     (let tmpcall = take 6 (cstr call)
      in if nprefix < 60000 then
           let n = nprefix; p2 = pfx_char (n mod 37);
               n = n div 37; p1 = pfx_char (n mod 37);
               n = n div 37; p0 = pfx_char (n mod 37);
               prefix_start = rev (takeWhile (\<lambda>c. c \<noteq> CHR '' '') [p2, p1, p0])
           in store_call (prefix_start @ ''/'' @ tmpcall) call
         else
           let nc = nprefix - 60000
           in if nc \<le> 9 then store_call (tmpcall @ ''/'' @ [char_of (nc + 48)]) call
              else if nc \<le> 35 then store_call (tmpcall @ ''/'' @ [char_of (nc + 55)]) call
              else if nc \<le> 125 then
                store_call (tmpcall @ ''/'' @ [char_of ((nc - 26) div 10 + 48), char_of ((nc - 26) mod 10 + 48)]) call
              else Some (False, call))"

text \<open>The outcome of \<open>unpk_\<close>: the return value (1 for do not print) and what it wrote.\<close>

record unpk_out =
  noprint :: bool
  tables :: hash_tables
  call_loc_pow :: "char list"
  callsign :: "char list"

definition cdbm :: "int \<Rightarrow> string" where
  "cdbm ndbm = pad_left 2 (CHR '' '') (fmt_int ndbm)"

definition unpk_type1 :: "int \<Rightarrow> string \<Rightarrow> unpk_out \<Rightarrow> unpk_out option" where
  "unpk_type1 ntype grid s =
     (let call = cstr (callsign s); ihash = call_hash call
      in if HASHTAB_ROWS \<le> ihash then None
         else Some (s\<lparr> call_loc_pow := put_report (call @ '' '' @ grid @ '' '' @ cdbm ntype) (call_loc_pow s),
                       tables := \<lparr> hashtab = (hashtab (tables s))(ihash := call),
                                   loctab = (loctab (tables s))(ihash := grid) \<rparr> \<rparr>))"

definition unpk_type2_end :: "int \<Rightarrow> unpk_out \<Rightarrow> unpk_out option" where
  "unpk_type2_end ndbm s =
     (let call = cstr (callsign s);
          s = s\<lparr> call_loc_pow := put_report (call @ '' '' @ cdbm ndbm) (call_loc_pow s) \<rparr>;
          nu = ndbm mod 10
      in if nu = 0 \<or> nu = 3 \<or> nu = 7 \<or> nu = 10 then
           let ihash = call_hash call
           in if HASHTAB_ROWS \<le> ihash then None
              else Some (s\<lparr> tables := (tables s)\<lparr> hashtab := (hashtab (tables s))(ihash := call) \<rparr> \<rparr>)
         else Some (s\<lparr> noprint := True \<rparr>))"

definition unpk_type2 :: "nat \<Rightarrow> int \<Rightarrow> unpk_out \<Rightarrow> unpk_out option" where
  "unpk_type2 n2 ntype s =
     (let nu = ntype mod 10; nadd = nu;
          nadd = (if nu > 3 then nu - 3 else nadd);
          nadd = (if nu > 7 then nu - 7 else nadd);
          n3 = nat (int n2 div 128 + 32768 * (nadd - 1))
      in case unpackpfx n3 (callsign s) of
           None \<Rightarrow> None
         | Some (False, call) \<Rightarrow> Some (s\<lparr> noprint := True, callsign := call \<rparr>)
         | Some (True, call) \<Rightarrow> unpk_type2_end (ntype - nadd) (s\<lparr> callsign := call \<rparr>))"

definition unpk_type3 :: "nat \<Rightarrow> int \<Rightarrow> unpk_out \<Rightarrow> unpk_out option" where
  "unpk_type3 n2 ntype s =
     (let ndbm = - (ntype + 1);
          grid6 = callsign s ! 5 # pad_right 5 NUL (take 5 (cstr (callsign s))) @ [NUL];
          nu = ndbm mod 10;
          bad = ((nu \<noteq> 0 \<and> nu \<noteq> 3 \<and> nu \<noteq> 7 \<and> nu \<noteq> 10) \<or>
                 \<not> c_isalpha (grid6 ! 0) \<or> \<not> c_isalpha (grid6 ! 1) \<or>
                 \<not> c_isdigit (grid6 ! 2) \<or> \<not> c_isdigit (grid6 ! 3));
          ihash = nat ((int n2 - ntype - 64) div 128);
          row = hashtab (tables s) ihash;
          call = (if row \<noteq> [] then ''<'' @ row @ ''>'' else ''<...>'')
      in if HASHTAB_ROWS \<le> ihash \<or> length (callsign s) < length call + 1 then None
         else Some (s\<lparr> callsign := blit 0 (call @ [NUL]) (callsign s),
                       call_loc_pow := put_report (call @ '' '' @ cstr grid6 @ '' '' @ cdbm ndbm) (call_loc_pow s),
                       noprint := bad \<or> ntype = - 64 \<rparr>))"

definition unpk :: "u8 list \<Rightarrow> hash_tables \<Rightarrow> char list \<Rightarrow> char list \<Rightarrow> unpk_out option" where
  "unpk message tabs clp call =
     (let (n1, n2) = unpack50 message;
          (ok, written) = unpackcall (nat n1);
          s = \<lparr> noprint = True, tables = tabs, call_loc_pow = clp, callsign = blit 0 written call \<rparr>
      in if length call < 13 \<or> length clp < 23 then None
         else if \<not> ok then Some s
         else
           let (ok, grid) = unpackgrid (nat n2);
               ntype = (n2 AND 127) - 64;
               s' = s\<lparr> callsign := (callsign s)[12 := NUL], noprint := False \<rparr>
           in if \<not> ok then Some s
              else if 0 \<le> ntype \<and> ntype \<le> 62 then
                (let nu = ntype mod 10
                 in if nu = 0 \<or> nu = 3 \<or> nu = 7 then unpk_type1 ntype grid s' else unpk_type2 (nat n2) ntype s')
              else if ntype < 0 then unpk_type3 (nat n2) ntype s'
              else Some s')"

section \<open>Encoding\<close>

text \<open>A \<open>char\<close> used as a number.\<close>

definition schar :: "char \<Rightarrow> int" where
  "schar c = (if code c < 128 then int (code c) else int (code c) - 256)"

definition in_int32 :: "int \<Rightarrow> bool" where
  "in_int32 m \<longleftrightarrow> - (2 ^ 31) \<le> m \<and> m < 2 ^ 31"

text \<open>The loop of \<open>pack_prefix\<close> over the characters of the prefix.\<close>

definition prefix_code :: "int \<Rightarrow> int" where
  "prefix_code nc = (if 48 \<le> nc \<and> nc \<le> 57 then nc - 48 else if 65 \<le> nc \<and> nc \<le> 90 then nc - 65 + 10 else 36)"

fun prefix_loop :: "char list \<Rightarrow> int \<Rightarrow> int option" where
  "prefix_loop [] m = Some m"
| "prefix_loop (c # cs) m =
     (let m = 37 * m + prefix_code (schar c) in if in_int32 m then prefix_loop cs m else None)"

text \<open>
  \<open>pack_prefix\<close> on the callsign at position \<open>pos\<close> of the array \<open>buf\<close>: the number of the callsign,
  the number of the prefix or suffix, and \<open>nadd\<close>.
\<close>

definition pack_prefix :: "char list \<Rightarrow> nat \<Rightarrow> (int \<times> int \<times> int) option" where
  "pack_prefix buf pos =
     (let callsign = drop pos buf; i1 = c_strcspn (cstr callsign) ''/'';
          call6 = take i1 callsign @ replicate (7 - i1) NUL
      in if length callsign \<le> i1 + 2 then None
         else if callsign ! (i1 + 2) = NUL then
           (if 6 < i1 then None
            else case pack_call call6 of None \<Rightarrow> None
              | Some n \<Rightarrow>
                let nc = schar (callsign ! (i1 + 1));
                    m = (if 48 \<le> nc \<and> nc \<le> 57 then nc - 48
                         else if 65 \<le> nc \<and> nc \<le> 90 then nc - 65 + 10 else 38)
                in Some (to_int32 n, 60000 - 32768 + m, 1))
         else if length callsign \<le> i1 + 3 then None
         else if callsign ! (i1 + 3) = NUL then
           (if 6 < i1 then None
            else case pack_call call6 of None \<Rightarrow> None
              | Some n \<Rightarrow>
                let m = 10 * (schar (callsign ! (i1 + 1)) - 48) + (schar (callsign ! (i1 + 2)) - 48)
                in Some (to_int32 n, 60000 + 26 + m, 1))
         else
           (case strtok ''/'' buf pos of None \<Rightarrow> None
            | Some (buf, pfx, next) \<Rightarrow>
              (case strtok '' '' buf next of None \<Rightarrow> None
               | Some (buf, call, next) \<Rightarrow>
                 (case pack_call (drop call buf) of None \<Rightarrow> None
                  | Some n \<Rightarrow>
                    let plen = length (cstr (drop pfx buf));
                        m = (if plen = 1 then 37 * 36 + 36 else if plen = 2 then 36 else 0)
                    in (case prefix_loop (take plen (drop pos buf)) m of None \<Rightarrow> None
                        | Some m \<Rightarrow>
                          if m > 32768 then Some (to_int32 n, m - 32768, 1)
                          else Some (to_int32 n, m, 0))))))"

text \<open>Power levels in dBm are clamped and rounded to a multiple of 10 or 3 or 7 more.\<close>

definition nu_table :: "int list" where
  "nu_table = [0, - 1, 1, 0, - 1, 2, 1, 0, - 1, 1]"

definition round_power :: "int \<Rightarrow> int" where
  "round_power p =
     (let p = (if p < 0 then 0 else p); p = (if p > 60 then 60 else p)
      in p + nu_table ! nat (p mod 10))"

text \<open>
  The three message types. Each takes the array \<open>message\<close> and answers \<open>n\<close> and \<open>m\<close>; the inner
  \<open>None\<close> is \<open>return 0\<close>.
\<close>

definition pack_type1 :: "char list \<Rightarrow> (u64 \<times> int) option option" where
  "pack_type1 message =
     (case strtok '' '' message 0 of None \<Rightarrow> None
      | Some (b, call, next) \<Rightarrow>
     (case strtok '' '' b next of None \<Rightarrow> None
      | Some (b, grid, next) \<Rightarrow>
     (case strtok '' '' b next of None \<Rightarrow> None
      | Some (b, powstr, next) \<Rightarrow>
     (case pack_call (drop call b) of None \<Rightarrow> None
      | Some n \<Rightarrow>
        if length b < grid + 4 then None
        else
          let grid4 = map get_locator_character_code (take 4 (drop grid b));
              m = to_int32 (pack_grid4_power grid4 (c_atoi (cstr (drop powstr b))))
          in Some (Some (n, m))))))"

definition pack_type2 :: "char list \<Rightarrow> nat \<Rightarrow> (u64 \<times> int) option option" where
  "pack_type2 message i2 =
     (case strtok '' '' message 0 of None \<Rightarrow> None
      | Some (b, call, next) \<Rightarrow>
        if i2 = 0 \<or> i2 > length (cstr (drop call b)) then Some None
        else
     (case strtok '' '' b next of None \<Rightarrow> None
      | Some (b, powstr, next) \<Rightarrow>
        let pwr = round_power (c_atoi (cstr (drop powstr b)))
        in (case pack_prefix b call of None \<Rightarrow> None
            | Some (n1, ng, nadd) \<Rightarrow>
              let ntype = pwr + 1 + nadd
              in Some (Some (word_of_int n1, 128 * ng + ntype + 64)))))"

definition pack_type3 :: "char list \<Rightarrow> (u64 \<times> int) option option" where
  "pack_type3 message =
     (case strtok ''<> '' message 0 of None \<Rightarrow> None
      | Some (b, call, next) \<Rightarrow>
     (case strtok '' '' b next of None \<Rightarrow> None
      | Some (b, grid, next) \<Rightarrow>
     (case strtok '' '' b next of None \<Rightarrow> None
      | Some (b, powstr, next) \<Rightarrow>
        let pwr = round_power (c_atoi (cstr (drop powstr b)));
            ntype = - (pwr + 1);
            ihash = int (call_hash (cstr (drop call b)));
            m = 128 * ihash + ntype + 64;
            g = cstr (drop grid b); j = length g;
            grid6 = (take (j - 1) (drop 1 g) @ replicate (8 - j) NUL)[5 := g ! 0]
        in if 7 < j then None
           else (case pack_call grid6 of None \<Rightarrow> None
                 | Some n \<Rightarrow> Some (Some (n, m))))))"

text \<open>The copy into \<open>message\<close> and the choice of the type; a message of 23 characters or more
  leaves \<open>message\<close> without a terminator.\<close>

definition pack_message :: "string \<Rightarrow> (u64 \<times> int) option option" where
  "pack_message rawmessage =
     (if 23 \<le> length rawmessage then None
      else
        let message = pad_right 23 NUL rawmessage;
            i1 = c_strcspn rawmessage '' ''; i2 = c_strcspn rawmessage ''/'';
            i3 = c_strcspn rawmessage ''<''; i4 = c_strcspn rawmessage ''>'';
            mlen = length rawmessage
        in if 3 \<le> i1 \<and> i1 < 7 \<and> i2 = mlen \<and> i3 = mlen then pack_type1 message
           else if i3 = 0 \<and> i4 < mlen then pack_type3 message
           else if i2 < mlen then pack_type2 message i2
           else Some None)"

definition pr3 :: "u8 list" where
  "pr3 =
   [1,1,0,0,0,0,0,0,1,0,0,0,1,1,1,0,0,0,1,0,
    0,1,0,1,1,1,1,0,0,0,0,0,0,0,1,0,0,1,0,1,
    0,0,0,0,0,0,1,0,1,1,0,0,1,1,0,1,0,0,0,1,
    1,0,1,0,0,0,0,1,1,0,1,0,1,0,1,0,1,0,0,1,
    0,0,1,0,1,1,0,0,0,1,1,0,1,0,1,0,0,0,1,0,
    0,0,0,0,1,0,0,1,0,0,1,1,1,0,1,1,0,0,1,1,
    0,1,0,0,0,1,1,1,0,0,0,0,0,1,0,1,0,0,1,1,
    0,0,0,0,0,0,0,1,1,0,1,0,1,1,0,0,0,1,1,0,
    0,0]"

text \<open>\<open>clp0\<close> and \<open>call0\<close> are the two heap blocks, \<open>junk\<close> the array \<open>tmp\<close> of \<open>interleave\<close>.\<close>

definition get_wspr_channel_symbols ::
  "char list \<Rightarrow> char list \<Rightarrow> u8 list \<Rightarrow> string \<Rightarrow> hash_tables \<Rightarrow> (u8 list \<times> hash_tables) option option" where
  "get_wspr_channel_symbols clp0 call0 junk rawmessage tabs =
     (case pack_message rawmessage of
        None \<Rightarrow> None
      | Some None \<Rightarrow> Some None
      | Some (Some (n, m)) \<Rightarrow>
          let data = pack50 n m
          in (case unpk data tabs clp0 call0 of
                None \<Rightarrow> None
              | Some out \<Rightarrow>
                  (case interleave junk (map of_nat (encode data)) of
                     None \<Rightarrow> None
                   | Some channelbits \<Rightarrow>
                       Some (Some (map (\<lambda>i. 2 * channelbits ! i + pr3 ! i) [0..<162], tables out)))))"

section \<open>Type 1 messages\<close>

lemma call_hash_small: "s \<noteq> [] \<Longrightarrow> call_hash s < HASHTAB_ROWS"
  using nhash_small [of "length s"] by (simp add: call_hash_def HASHTAB_ROWS_def)

lemma strtok_token':
  assumes "tok \<noteq> []" and "list_all (\<lambda>c. c \<notin> set delims \<and> c \<noteq> NUL) tok" and "d \<in> set delims" and "d \<noteq> NUL"
    and "buf = pre @ tok @ d # rest" and "pos = length pre"
  shows "strtok delims buf pos = Some (pre @ tok @ NUL # rest, length pre, Suc (length pre + length tok))"
  unfolding assms(5,6) by (rule strtok_token [OF assms(1-4)])

lemma strtok_last':
  assumes "tok \<noteq> []" and "list_all (\<lambda>c. c \<notin> set delims \<and> c \<noteq> NUL) tok"
    and "buf = pre @ tok @ NUL # rest" and "pos = length pre"
  shows "strtok delims buf pos = Some (pre @ tok @ NUL # rest, length pre, length pre + length tok)"
  unfolding assms(3,4) by (rule strtok_last [OF assms(1,2)])

text \<open>The three words of a message, as \<open>strtok\<close> cuts them.\<close>

lemma three_tokens:
  assumes "list_all (\<lambda>c. c \<noteq> CHR '' '' \<and> c \<noteq> NUL) (s @ g @ w)" "s \<noteq> []" "g \<noteq> []" "w \<noteq> []"
    and "buf = s @ CHR '' '' # g @ CHR '' '' # w @ NUL # rest"
  obtains b1 b2 b3 where "strtok '' '' buf 0 = Some (b1, 0, Suc (length s))"
    "strtok '' '' b1 (Suc (length s)) = Some (b2, Suc (length s), Suc (length s + Suc (length g)))"
    "strtok '' '' b2 (Suc (length s + Suc (length g))) =
       Some (b3, Suc (length s + Suc (length g)), Suc (length s + Suc (length g)) + length w)"
    "b3 = s @ NUL # g @ NUL # w @ NUL # rest"
proof -
  let ?b1 = "s @ NUL # g @ CHR '' '' # w @ NUL # rest" and ?b2 = "s @ NUL # g @ NUL # w @ NUL # rest"
  have 1: "strtok '' '' buf 0 = Some (?b1, 0, Suc (length s))"
    using strtok_token' [of s "'' ''" "CHR '' ''" buf "[]" "g @ CHR '' '' # w @ NUL # rest" 0] assms by simp
  have 2: "strtok '' '' ?b1 (Suc (length s)) = Some (?b2, Suc (length s), Suc (length s + Suc (length g)))"
    using strtok_token' [of g "'' ''" "CHR '' ''" ?b1 "s @ [NUL]" "w @ NUL # rest" "Suc (length s)"] assms by simp
  have 3: "strtok '' '' ?b2 (Suc (length s + Suc (length g))) =
      Some (?b2, Suc (length s + Suc (length g)), Suc (length s + Suc (length g)) + length w)"
    using strtok_last' [of w "'' ''" ?b2 "s @ NUL # g @ [NUL]" rest "Suc (length s + Suc (length g))"] assms by simp
  show ?thesis using that [OF 1 2 3] by simp
qed

definition good_power :: "int \<Rightarrow> bool" where
  "good_power p \<longleftrightarrow> 0 \<le> p \<and> p \<le> 60 \<and> (p mod 10 = 0 \<or> p mod 10 = 3 \<or> p mod 10 = 7)"

lemma digit_visible: "c_isdigit c \<Longrightarrow> c \<noteq> CHR '' '' \<and> c \<noteq> NUL \<and> c \<noteq> CHR ''/'' \<and> c \<noteq> CHR ''<'' \<and> c \<noteq> CHR ''>''"
  by (auto simp: ctype_defs)

lemma upper_visible: "c_isupper c \<Longrightarrow> c \<noteq> CHR '' '' \<and> c \<noteq> NUL \<and> c \<noteq> CHR ''/'' \<and> c \<noteq> CHR ''<'' \<and> c \<noteq> CHR ''>''"
  by (auto simp: ctype_defs)

text \<open>Characters that no separator matches.\<close>

definition plain :: "string \<Rightarrow> bool" where
  "plain s \<longleftrightarrow> list_all (\<lambda>c. c \<noteq> CHR '' '' \<and> c \<noteq> NUL \<and> c \<noteq> CHR ''/'' \<and> c \<noteq> CHR ''<'' \<and> c \<noteq> CHR ''>'') s"

lemma plain_append [simp]: "plain (s @ t) \<longleftrightarrow> plain s \<and> plain t" "plain []"
  by (auto simp: plain_def)

lemma plain_digits: "list_all c_isdigit s \<Longrightarrow> plain s"
  unfolding plain_def list_all_iff by (blast dest: digit_visible)

lemma plain_upper: "list_all c_isupper s \<Longrightarrow> plain s"
  unfolding plain_def list_all_iff by (blast dest: upper_visible)

lemma plain_call: "wspr_call s \<Longrightarrow> plain s"
proof -
  assume s: "wspr_call s"
  have "call_char c" if "c \<in> set s" for c
    using s that by (cases rule: wspr_call_cases) (auto simp: call_char_def list_all_iff)
  then show "plain s"
    unfolding plain_def list_all_iff call_char_def by (blast dest: digit_visible upper_visible)
qed

lemma plain_grid: "wspr_grid g \<Longrightarrow> plain g"
  unfolding wspr_grid_def
  by (auto simp: length_Suc_conv numeral_eq_Suc plain_def ctype_defs)

lemma fmt_power:
  assumes "good_power p"
  shows "plain (fmt_int p)" "fmt_int p \<noteq> []" "length (fmt_int p) \<le> 2" "c_atoi (fmt_int p) = p"
proof -
  have p: "0 \<le> p" "p \<le> 60" using assms by (auto simp: good_power_def)
  show "plain (fmt_int p)" "fmt_int p \<noteq> []"
    using p dec_digits_digits [of "nat p"] dec_digits_nonempty [of "nat p"] by (auto simp: fmt_int_def intro: plain_digits)
  show "length (fmt_int p) \<le> 2"
    using p by (simp add: fmt_int_def dec_digits.simps [of "nat p"] dec_digits.simps [of "nat p div 10"])
  show "c_atoi (fmt_int p) = p" by (rule atoi_fmt_int [OF p(1)])
qed

lemma unpack50_values:
  assumes "N < 2 ^ 28" and "M < 2 ^ 22"
  shows "unpack50 (pack50 (word_of_nat N) (int M)) = (int N, int M)"
proof -
  have "uint (word_of_nat N :: u64) = int N"
    using assms(1) by (simp add: uint_nat unat_of_nat)
  then show ?thesis using assms by (simp add: unpack50_pack50)
qed

text \<open>The message of type 1 that the packer builds.\<close>

lemma pack_type1_value:
  assumes s: "wspr_call s" and g: "wspr_grid g" and p: "good_power p"
  obtains N q where "N < 262177560" "q < 32400" "unpackcall N = (True, pad_right 7 NUL s)"
    "\<forall>r < 128. unpackgrid (q * 128 + r) = (True, g)"
    "pack_type1 (s @ CHR '' '' # g @ CHR '' '' # fmt_int p @ NUL # rest) =
       Some (Some (word_of_nat N, int (q * 128 + nat (p + 64))))"
proof -
  let ?w = "fmt_int p"
  let ?buf = "s @ CHR '' '' # g @ CHR '' '' # ?w @ NUL # rest"
  have len_g: "length g = 4" using g by (simp add: wspr_grid_def)
  have "plain (s @ g @ ?w)" using plain_call [OF s] plain_grid [OF g] fmt_power(1) [OF p] by simp
  then have vis: "list_all (\<lambda>c. c \<noteq> CHR '' '' \<and> c \<noteq> NUL) (s @ g @ ?w)"
    unfolding plain_def list_all_iff by blast
  have ne: "s \<noteq> []" "g \<noteq> []" "?w \<noteq> []" using wspr_call_length [OF s] len_g fmt_power(2) [OF p] by auto
  obtain b1 b2 b3 where tok: "strtok '' '' ?buf 0 = Some (b1, 0, Suc (length s))"
    "strtok '' '' b1 (Suc (length s)) = Some (b2, Suc (length s), Suc (length s + Suc (length g)))"
    "strtok '' '' b2 (Suc (length s + Suc (length g))) =
       Some (b3, Suc (length s + Suc (length g)), Suc (length s + Suc (length g)) + length ?w)"
    and b3: "b3 = s @ NUL # g @ NUL # ?w @ NUL # rest"
    using three_tokens [OF vis ne refl] by metis
  have d: "drop 0 b3 = s @ NUL # (g @ NUL # ?w @ NUL # rest)" "take 4 (drop (Suc (length s)) b3) = g"
    "drop (Suc (length s + Suc (length g))) b3 = ?w @ NUL # rest" "\<not> length b3 < Suc (length s) + 4"
    using len_g by (simp_all add: b3)
  have nul: "NUL \<notin> set ?w" using fmt_power(1) [OF p] by (auto simp: plain_def list_all_iff)
  have pw: "c_atoi (cstr (?w @ NUL # rest)) = p" using fmt_power(4) [OF p] by (simp add: cstr_append [OF nul])
  obtain N where N: "N < 262177560" "pack_call (s @ NUL # (g @ NUL # ?w @ NUL # rest)) = Some (word_of_nat N)"
    "unpackcall N = (True, pad_right 7 NUL s)"
    using pack_call_roundtrip [OF s] by metis
  have p64: "- 64 \<le> p" "p < 64" using p by (auto simp: good_power_def)
  obtain q where q: "q < 32400"
    "pack_grid4_power (map get_locator_character_code g) p = word_of_nat (q * 128 + nat (p + 64))"
    "\<forall>r < 128. unpackgrid (q * 128 + r) = (True, g)"
    using pack_grid4_power_value [OF g p64] by blast
  have "nat (p + 64) < 128" using p64 by linarith
  then have m: "to_int32 (word_of_nat (q * 128 + nat (p + 64))) = int (q * 128 + nat (p + 64))"
    using q(1) by (intro to_int32_small) simp
  have "pack_type1 ?buf = Some (Some (word_of_nat N, int (q * 128 + nat (p + 64))))"
    unfolding pack_type1_def tok option.case prod.case d N(2) pw Let_def q(2) m
    using len_g by (simp add: b3)
  with that N q show ?thesis by blast
qed

definition type1_text :: "string \<Rightarrow> string \<Rightarrow> string \<Rightarrow> string" where
  "type1_text s g w = s @ CHR '' '' # g @ CHR '' '' # w"

lemma pack_message_type1:
  assumes s: "wspr_call s" "3 \<le> length s" and g: "wspr_grid g" and p: "good_power p"
  shows "pack_message (type1_text s g (fmt_int p)) =
    pack_type1 (s @ CHR '' '' # g @ CHR '' '' # fmt_int p @ NUL # replicate (22 - length (type1_text s g (fmt_int p))) NUL)"
proof -
  let ?raw = "type1_text s g (fmt_int p)"
  have plain: "plain s" "plain g" "plain (fmt_int p)" using plain_call [OF s(1)] plain_grid [OF g] fmt_power(1) [OF p] by auto
  have len: "length s \<le> 6" "length g = 4" "length (fmt_int p) \<le> 2"
    using wspr_call_length [OF s(1)] g fmt_power(3) [OF p] by (auto simp: wspr_grid_def)
  then have l: "length ?raw \<le> 14" by (simp add: type1_text_def)
  have i1: "c_strcspn ?raw '' '' = length s"
    using plain(1) unfolding type1_text_def plain_def by (intro strcspn_until) (auto simp: list_all_iff)
  have i2: "c_strcspn ?raw ''/'' = length ?raw" "c_strcspn ?raw ''<'' = length ?raw"
    using plain unfolding type1_text_def plain_def list_all_iff by (intro strcspn_all; force simp: list_all_iff)+
  have pad: "pad_right 23 NUL ?raw = s @ CHR '' '' # g @ CHR '' '' # fmt_int p @ NUL # replicate (22 - length ?raw) NUL"
    using l by (simp add: pad_right_def type1_text_def Suc_diff_le numeral_eq_Suc)
  show ?thesis
    unfolding pack_message_def Let_def i1 i2 pad using l s(2) len by simp
qed

lemma and_127: "int M AND 127 = int (M mod 128)"
  using take_bit_eq_mask [of 7 "int M"] by (simp add: take_bit_eq_mod mask_eq_exp_minus_1 zmod_int)

lemma cstr_pad: "NUL \<notin> set s \<Longrightarrow> cstr (pad_right n NUL s @ rest) = s" if "length s < n"
proof -
  assume "NUL \<notin> set s"
  moreover have "pad_right n NUL s @ rest = s @ NUL # (replicate (n - length s - 1) NUL @ rest)"
    using that by (cases "n - length s") (auto simp: pad_right_def)
  ultimately show ?thesis by (simp add: cstr_append)
qed

lemma cstr_report:
  assumes "length s \<le> 22" "NUL \<notin> set s"
  shows "cstr (put_report s buf) = s"
  using assms cstr_append [OF assms(2)] by (simp add: put_report_def blit_def)

lemma unpk_type1_message:
  assumes s: "wspr_call s" and g: "wspr_grid g" and p: "good_power p"
    and N: "N < 262177560" "unpackcall N = (True, pad_right 7 NUL s)"
    and q: "q < 32400" "\<forall>r < 128. unpackgrid (q * 128 + r) = (True, g)"
    and mem: "23 \<le> length clp0" "13 \<le> length call0"
  shows "\<exists>out. unpk (pack50 (word_of_nat N) (int (q * 128 + nat (p + 64)))) tabs clp0 call0 = Some out
    \<and> \<not> noprint out \<and> cstr (call_loc_pow out) = type1_text s g (cdbm p) \<and> cstr (callsign out) = s
    \<and> tables out = \<lparr> hashtab = (hashtab tabs)(call_hash s := s), loctab = (loctab tabs)(call_hash s := g) \<rparr>"
proof -
  let ?M = "q * 128 + nat (p + 64)"
  have p': "0 \<le> p" "p \<le> 60" using p by (auto simp: good_power_def)
  have r: "nat (p + 64) < 128" using p' by linarith
  have f: "unpack50 (pack50 (word_of_nat N) (int ?M)) = (int N, int ?M)"
    using N(1) q(1) r by (intro unpack50_values) simp_all
  have nt: "(int ?M AND 127) - 64 = p"
    unfolding and_127 using p' by (simp add: mod_mult_self3)
  have grid: "unpackgrid (nat (int ?M)) = (True, g)" using q(2) r by (simp only: nat_int)
  have nul: "NUL \<notin> set s" using wspr_call_visible [OF s] by blast
  have len: "length s \<le> 6" "2 \<le> length s" using wspr_call_length [OF s] by auto
  let ?mem = "(blit 0 (pad_right 7 NUL s) call0)[12 := NUL]"
  have "length (pad_right 7 NUL s) = 7" using len by (simp add: pad_right_def)
  then have "?mem = pad_right 7 NUL s @ (drop 7 call0)[5 := NUL]"
    using mem(2) by (simp add: blit_def list_update_append)
  then have cs: "cstr ?mem = s" using cstr_pad [of s 7] nul len by simp
  have hash: "call_hash s < HASHTAB_ROWS" using len by (intro call_hash_small) auto
  have clen: "length (cdbm p) \<le> 2" and cnul: "NUL \<notin> set (cdbm p)"
    using fmt_power(1,3) [OF p] by (auto simp: cdbm_def pad_left_def plain_def list_all_iff)
  have gl: "length g = 4" "NUL \<notin> set g" using g plain_grid [OF g] by (auto simp: wspr_grid_def plain_def list_all_iff)
  have report: "cstr (put_report (s @ '' '' @ g @ '' '' @ cdbm p) clp0) = type1_text s g (cdbm p)"
    using len gl clen cnul nul by (subst cstr_report) (auto simp: type1_text_def)
  show ?thesis
    unfolding unpk_def Let_def f prod.case nat_int N(2) grid [unfolded nat_int] nt
    using mem p' p hash report
    by (auto simp: good_power_def unpk_type1_def Let_def cs)
qed


text \<open>
  C12: a type 1 message survives the air interface. For every callsign with a six-character form,
  every four-character locator and every power level of the protocol, packing the text
  and unpacking the 50 bits gives the same callsign, locator and power, does not suppress the report, and
  enters the callsign and the locator in the two tables at the callsign's hash and nowhere else.
\<close>

theorem type1_roundtrip:
  assumes "wspr_call s" and "3 \<le> length s" and "wspr_grid g" and "good_power p"
    and "23 \<le> length clp0" and "13 \<le> length call0"
  shows "\<exists>n m out. pack_message (type1_text s g (fmt_int p)) = Some (Some (n, m))
    \<and> unpk (pack50 n m) tabs clp0 call0 = Some out \<and> \<not> noprint out
    \<and> cstr (call_loc_pow out) = type1_text s g (cdbm p) \<and> cstr (callsign out) = s
    \<and> tables out = \<lparr> hashtab = (hashtab tabs)(call_hash s := s), loctab = (loctab tabs)(call_hash s := g) \<rparr>"
proof -
  obtain N q where Nq: "N < 262177560" "q < 32400" "unpackcall N = (True, pad_right 7 NUL s)"
    "\<forall>r < 128. unpackgrid (q * 128 + r) = (True, g)"
    and pack: "pack_message (type1_text s g (fmt_int p)) =
       Some (Some (word_of_nat N, int (q * 128 + nat (p + 64))))"
    using pack_type1_value [OF assms(1,3,4)] pack_message_type1 [OF assms(1-4)] by metis
  show ?thesis
    using unpk_type1_message [OF assms(1,3,4) Nq(1,3,2,4) assms(5,6)] pack by blast
qed

theorem type1_roundtrip_witness:
  "\<exists>n m out. pack_message ''K1ABC FN42 37'' = Some (Some (n, m))
    \<and> unpk (pack50 n m) \<lparr> hashtab = (\<lambda>_. []), loctab = (\<lambda>_. []) \<rparr> (replicate 23 (CHR ''x'')) (replicate 13 (CHR ''y''))
        = Some out \<and> cstr (call_loc_pow out) = ''K1ABC FN42 37''"
proof -
  have "wspr_call ''K1ABC''" "wspr_grid ''FN42''" "good_power 37" by code_simp+
  moreover have "fmt_int 37 = ''37''" "cdbm 37 = ''37''" by code_simp+
  ultimately show ?thesis
    using type1_roundtrip [of "''K1ABC''" "''FN42''" 37 "replicate 23 (CHR ''x'')" "replicate 13 (CHR ''y'')"
        "\<lparr> hashtab = (\<lambda>_. []), loctab = (\<lambda>_. []) \<rparr>"]
    by (auto simp: type1_text_def)
qed

section \<open>Type 2 messages\<close>

text \<open>What may be added to a callsign: a prefix, a one-character suffix or a two-digit suffix.\<close>

datatype affix = Prefix string | Suffix char | Suffix2 char char

fun affixed :: "affix \<Rightarrow> string \<Rightarrow> string" where
  "affixed (Prefix x) c = x @ CHR ''/'' # c"
| "affixed (Suffix x) c = c @ [CHR ''/'', x]"
| "affixed (Suffix2 x y) c = c @ [CHR ''/'', x, y]"

text \<open>Its number.\<close>

definition char36 :: "char \<Rightarrow> nat" where
  "char36 c = (if c_isdigit c then code c - 48 else code c - 55)"

fun affix_value :: "affix \<Rightarrow> nat" where
  "affix_value (Prefix x) = foldl (\<lambda>m c. 37 * m + char36 c) (if length x = 1 then 37 * 36 + 36 else if length x = 2 then 36 else 0) x"
| "affix_value (Suffix x) = 60000 + char36 x"
| "affix_value (Suffix2 x y) = 60026 + (10 * char36 x + char36 y)"

fun affix_ok :: "affix \<Rightarrow> string \<Rightarrow> bool" where
  "affix_ok (Prefix x) c \<longleftrightarrow> 1 \<le> length x \<and> length x \<le> 3 \<and> list_all call_char x \<and> 3 \<le> length c"
| "affix_ok (Suffix x) c \<longleftrightarrow> call_char x"
| "affix_ok (Suffix2 x y) c \<longleftrightarrow> c_isdigit x \<and> c_isdigit y \<and> x \<noteq> CHR ''0''"

lemma char36_call_char:
  assumes "call_char c"
  shows "char36 c < 36" "prefix_code (schar c) = int (char36 c)" "pfx_char (char36 c) = c"
    "c_isdigit c \<Longrightarrow> char36 c < 10 \<and> schar c = int (char36 c) + 48"
proof -
  have "(48 \<le> code c \<and> code c \<le> 57) \<or> (65 \<le> code c \<and> code c \<le> 90)"
    using assms by (auto simp: call_char_def ctype_defs)
  moreover have "char_of (code c) = c" by simp
  ultimately show "char36 c < 36" "prefix_code (schar c) = int (char36 c)" "pfx_char (char36 c) = c"
    by (auto simp: char36_def prefix_code_def schar_def pfx_char_def c_isdigit_def in_span_def)
  show "c_isdigit c \<Longrightarrow> char36 c < 10 \<and> schar c = int (char36 c) + 48"
    by (auto simp: char36_def schar_def c_isdigit_def in_span_def)
qed

lemma prefix_digits:
  fixes a b c :: nat
  assumes "a < 37" "b < 37" "c < 37"
  shows "((37 * a + b) * 37 + c) mod 37 = c" "((37 * a + b) * 37 + c) div 37 mod 37 = b"
    "((37 * a + b) * 37 + c) div 37 div 37 mod 37 = a" "(37 * a + b) * 37 + c < 50653"
proof -
  have q: "(x * 37 + y) div 37 = x" "(x * 37 + y) mod 37 = y" "(37 * x + y) div 37 = x" "(37 * x + y) mod 37 = y"
    if "y < 37" for x y :: nat using that by simp_all
  show "((37 * a + b) * 37 + c) mod 37 = c" "((37 * a + b) * 37 + c) div 37 mod 37 = b"
    "((37 * a + b) * 37 + c) div 37 div 37 mod 37 = a"
    by (simp_all only: q assms) (use assms in simp)
  have "37 * a + b \<le> 1368" using assms by simp
  then show "(37 * a + b) * 37 + c < 50653" using assms by simp
qed

text \<open>The prefix as three base-37 digits.\<close>

lemma prefix_three:
  assumes "affix_ok (Prefix x) s"
  obtains a b c where "a < 37" "b < 37" "c < 37" "affix_value (Prefix x) = (37 * a + b) * 37 + c"
    "rev (takeWhile (\<lambda>c. c \<noteq> CHR '' '') [pfx_char c, pfx_char b, pfx_char a]) = x"
    "prefix_loop x (if length x = 1 then 37 * 36 + 36 else if length x = 2 then 36 else 0) = Some (int ((37 * a + b) * 37 + c))"
proof -
  have p36: "pfx_char 36 = CHR '' ''" by (simp add: pfx_char_def)
  have vis: "call_char z \<Longrightarrow> z \<noteq> CHR '' ''" for z using call_char_visible by blast
  note cc = char36_call_char(1,2,3)
  consider (1) z where "x = [z]" | (2) y z where "x = [y, z]" | (3) w y z where "x = [w, y, z]"
    using assms by (cases x; cases "tl x"; cases "tl (tl x)") (auto simp: length_Suc_conv)
  then show ?thesis
  proof cases
    case 1
    then have z: "call_char z" using assms by simp
    show ?thesis
      using that [of 36 36 "char36 z"] cc [OF z] p36 vis [OF z] by (simp add: 1 in_int32_def Let_def)
  next
    case 2
    then have z: "call_char y" "call_char z" using assms by simp_all
    show ?thesis
      using that [of 36 "char36 y" "char36 z"] cc [OF z(1)] cc [OF z(2)] p36 vis [OF z(1)] vis [OF z(2)]
      by (simp add: 2 in_int32_def Let_def)
  next
    case 3
    then have z: "call_char w" "call_char y" "call_char z" using assms by simp_all
    show ?thesis
      using that [of "char36 w" "char36 y" "char36 z"] cc [OF z(1)] cc [OF z(2)] cc [OF z(3)]
        vis [OF z(1)] vis [OF z(2)] vis [OF z(3)]
      by (simp add: 3 in_int32_def Let_def)
  qed
qed


lemma c_table_pfx:
  assumes "c_isdigit x" "c_isdigit y" "x \<noteq> CHR ''0''"
  shows "36 \<le> 26 + (10 * char36 x + char36 y)" "10 * char36 x + char36 y \<le> 99"
    "char_of ((10 * char36 x + char36 y) div 10 + 48) = x" "char_of ((10 * char36 x + char36 y) mod 10 + 48) = y"
proof -
  have k: "char36 x < 10" "char36 y < 10" "code x = char36 x + 48" "code y = char36 y + 48"
    using assms(1,2) by (auto simp: char36_def c_isdigit_def in_span_def)
  have "code x \<noteq> 48" using assms(3) code_inj [of x "CHR ''0''"] by auto
  then show "36 \<le> 26 + (10 * char36 x + char36 y)" "10 * char36 x + char36 y \<le> 99"
    using k by simp_all
  have "char_of (char36 x + 48) = x" "char_of (char36 y + 48) = y"
    unfolding k(3,4) [symmetric] by simp_all
  then show "char_of ((10 * char36 x + char36 y) div 10 + 48) = x" "char_of ((10 * char36 x + char36 y) mod 10 + 48) = y"
    using k by simp_all
qed

lemma affixed_length: "affix_ok a c \<Longrightarrow> length c \<le> 6 \<Longrightarrow> length (affixed a c) \<le> 10"
  by (cases a) auto

text \<open>The unpacker adds the affix again.\<close>

lemma unpackpfx_affix:
  assumes ok: "affix_ok a c" and c: "length c \<le> 6" "cstr mem = c" and mem: "20 \<le> length mem"
  shows "unpackpfx (affix_value a) mem = Some (True, blit 0 (pad_right 20 NUL (affixed a c)) mem)"
proof -
  have st: "store_call (affixed a c) mem = Some (True, blit 0 (pad_right 20 NUL (affixed a c)) mem)"
    using affixed_length [OF ok c(1)] mem by (simp add: store_call_def)
  have t: "take 6 (cstr mem) = c" using c by simp
  show ?thesis
  proof (cases a)
    case (Prefix x)
    with ok have "affix_ok (Prefix x) c" by simp
    then obtain p q r where v: "p < 37" "q < 37" "r < 37" "affix_value a = (37 * p + q) * 37 + r"
      "rev (takeWhile (\<lambda>c. c \<noteq> CHR '' '') [pfx_char r, pfx_char q, pfx_char p]) = x"
      unfolding Prefix by (rule prefix_three)
    have "affix_value a < 60000" using prefix_digits(4) [OF v(1-3)] v(4) by simp
    then show ?thesis
      using st unfolding unpackpfx_def Let_def t v(4) prefix_digits(1-3) [OF v(1-3)] v(5) by (simp add: Prefix)
  next
    case (Suffix x)
    then have x: "call_char x" using ok by simp
    have "char_of (char36 x + (if char36 x \<le> 9 then 48 else 55)) = x"
      using char36_call_char(1,3) [OF x] by (auto simp: pfx_char_def split: if_splits)
    then show ?thesis
      using st char36_call_char(1) [OF x] unfolding unpackpfx_def Let_def t by (auto simp: Suffix split: if_splits)
  next
    case (Suffix2 x y)
    then show ?thesis
      using st ok c_table_pfx [of x y] unfolding unpackpfx_def Let_def t by simp
  qed
qed

text \<open>The packer's numbers for a callsign with an affix.\<close>

definition affix_ng :: "affix \<Rightarrow> int" where
  "affix_ng a = (case a of Prefix x \<Rightarrow> (if affix_value a > 32768 then int (affix_value a) - 32768 else int (affix_value a))
     | Suffix x \<Rightarrow> int (affix_value a) - 32768 | Suffix2 x y \<Rightarrow> int (affix_value a))"

definition affix_nadd :: "affix \<Rightarrow> int" where
  "affix_nadd a = (case a of Prefix x \<Rightarrow> (if affix_value a > 32768 then 1 else 0) | _ \<Rightarrow> 1)"

lemma call_char_plain: "call_char c \<Longrightarrow> plain [c]"
  unfolding plain_def call_char_def using digit_visible upper_visible by auto

lemma plain_call_chars: "list_all call_char x \<Longrightarrow> plain x"
  using call_char_plain by (auto simp: plain_def list_all_iff)

lemma pack_prefix_affix:
  assumes ok: "affix_ok a c" and c: "wspr_call c"
    and N: "N < 262177560" "\<And>rest. pack_call (c @ NUL # rest) = Some (word_of_nat N)"
  shows "pack_prefix (affixed a c @ NUL # rest) 0 = Some (int N, affix_ng a, affix_nadd a)"
proof -
  have n: "to_int32 (word_of_nat N) = int N" using N(1) by (intro to_int32_small) simp
  have pc: "plain c" by (rule plain_call [OF c])
  have lc: "2 \<le> length c" "length c \<le> 6" using wspr_call_length [OF c] by auto
  have slash: "c_strcspn (s @ CHR ''/'' # t) ''/'' = length s" if "plain s" for s t
    using that unfolding plain_def by (intro strcspn_until) (auto simp: list_all_iff)
  have nul: "NUL \<notin> set s" if "plain s" for s
    using that by (auto simp: plain_def list_all_iff)
  have call6: "pack_call (c @ replicate (7 - length c) NUL) = Some (word_of_nat N)"
    using N(2) [of "replicate (6 - length c) NUL"] lc(2) by (simp add: Suc_diff_le numeral_eq_Suc)
  show ?thesis
  proof (cases a)
    case (Suffix x)
    then have x: "call_char x" using ok by simp
    have "NUL \<notin> set (c @ [CHR ''/'', x])" using nul [OF pc] call_char_visible [OF x] by auto
    then have cs: "cstr ((c @ [CHR ''/'', x]) @ NUL # rest) = c @ CHR ''/'' # [x]"
      by (rule cstr_append)
    have i1: "c_strcspn (cstr (affixed a c @ NUL # rest)) ''/'' = length c"
      unfolding Suffix affixed.simps cs slash [OF pc] ..
    have "(if 48 \<le> schar x \<and> schar x \<le> 57 then schar x - 48
        else if 65 \<le> schar x \<and> schar x \<le> 90 then schar x - 65 + 10 else 38) = int (char36 x)"
      using char36_call_char(1,2) [OF x] by (auto simp: prefix_code_def split: if_splits)
    then show ?thesis
      unfolding pack_prefix_def Let_def drop_0 i1
      using lc by (auto simp: Suffix nth_append call6 n affix_ng_def affix_nadd_def split: if_splits)
  next
    case (Suffix2 x y)
    then have x: "c_isdigit x" "c_isdigit y" using ok by simp_all
    then have vis: "x \<noteq> NUL" "y \<noteq> NUL" using digit_visible by blast+
    then have "NUL \<notin> set (c @ [CHR ''/'', x, y])" using nul [OF pc] by auto
    then have cs: "cstr ((c @ [CHR ''/'', x, y]) @ NUL # rest) = c @ CHR ''/'' # [x, y]"
      by (rule cstr_append)
    have i1: "c_strcspn (cstr (affixed a c @ NUL # rest)) ''/'' = length c"
      unfolding Suffix2 affixed.simps cs slash [OF pc] ..
    have "call_char x" "call_char y" using x by (simp_all add: call_char_def)
    then have "schar x = int (char36 x) + 48" "schar y = int (char36 y) + 48"
      using char36_call_char(4) x by blast+
    then show ?thesis
      unfolding pack_prefix_def Let_def drop_0 i1
      using lc vis by (simp add: Suffix2 nth_append call6 n affix_ng_def affix_nadd_def)
  next
    case (Prefix x)
    let ?buf = "x @ CHR ''/'' # c @ NUL # rest" and ?b1 = "x @ NUL # c @ NUL # rest"
    have x: "list_all call_char x" "1 \<le> length x" "length x \<le> 3" "3 \<le> length c"
      using ok Prefix by auto
    have px: "plain x" by (rule plain_call_chars [OF x(1)])
    have "NUL \<notin> set (x @ CHR ''/'' # c)" using nul [OF pc] nul [OF px] by auto
    then have cs: "cstr ((x @ CHR ''/'' # c) @ NUL # rest) = x @ CHR ''/'' # c"
      by (rule cstr_append)
    have i1: "c_strcspn (cstr (affixed a c @ NUL # rest)) ''/'' = length x"
      unfolding Prefix affixed.simps cs slash [OF px] ..
    have buf: "affixed a c @ NUL # rest = ?buf" by (simp add: Prefix)
    have "c ! 1 \<in> set c" "c ! 2 \<in> set c" using x(4) by auto
    then have "c ! 1 \<noteq> NUL" "c ! 2 \<noteq> NUL" using nul [OF pc] by auto
    then have after: "?buf ! (length x + 2) \<noteq> NUL" "?buf ! (length x + 3) \<noteq> NUL"
      "length x + 3 < length ?buf"
      using x(4) nth_append_length_plus [of x "CHR ''/'' # c @ NUL # rest" 2]
        nth_append_length_plus [of x "CHR ''/'' # c @ NUL # rest" 3]
      by (simp_all add: nth_append)
    have neg: "(length ?buf \<le> length x + 2) = False" "(?buf ! (length x + 2) = NUL) = False"
      "(length ?buf \<le> length x + 3) = False" "(?buf ! (length x + 3) = NUL) = False"
      using after by auto
    have t1: "strtok ''/'' ?buf 0 = Some (?b1, 0, Suc (length x))"
    proof -
      have "x \<noteq> []" using x(2) by auto
      moreover have "list_all (\<lambda>c. c \<notin> set ''/'' \<and> c \<noteq> NUL) x"
        using px unfolding plain_def list_all_iff by simp
      ultimately show ?thesis
        using strtok_token' [of x "''/''" "CHR ''/''" ?buf "[]" "c @ NUL # rest" 0] by simp
    qed
    have t2: "strtok '' '' ?b1 (Suc (length x)) = Some (?b1, Suc (length x), Suc (length x) + length c)"
    proof -
      have "c \<noteq> []" using lc by auto
      moreover have "list_all (\<lambda>c. c \<notin> set '' '' \<and> c \<noteq> NUL) c"
        using pc unfolding plain_def list_all_iff by simp
      ultimately show ?thesis
        using strtok_last' [of c "'' ''" ?b1 "x @ [NUL]" rest "Suc (length x)"] by simp
    qed
    have d: "drop (Suc (length x)) ?b1 = c @ NUL # rest" "cstr ?b1 = x" "take (length x) ?b1 = x"
      using cstr_append [OF nul [OF px]] by simp_all
    have "affix_ok (Prefix x) c" using ok Prefix by simp
    then obtain p q r where loop: "affix_value (Prefix x) = (37 * p + q) * 37 + r"
      "prefix_loop x (if length x = 1 then 37 * 36 + 36 else if length x = 2 then 36 else 0) = Some (int ((37 * p + q) * 37 + r))"
      by (rule prefix_three)
    show ?thesis
      unfolding buf pack_prefix_def Let_def
      unfolding drop_0 i1 [unfolded buf] neg if_False t1 option.case prod.case t2 d N(2) n loop(2)
      using loop(1) by (simp add: Prefix affix_ng_def affix_nadd_def)
  qed
qed

lemma round_good_power: "good_power p \<Longrightarrow> round_power p = p"
  by (auto simp: good_power_def round_power_def nu_table_def Let_def)

definition type2_text :: "affix \<Rightarrow> string \<Rightarrow> string \<Rightarrow> string" where
  "type2_text a c w = affixed a c @ CHR '' '' # w"

lemma affixed_visible:
  assumes "affix_ok a c" and "wspr_call c"
  shows "list_all (\<lambda>z. z \<noteq> CHR '' '' \<and> z \<noteq> NUL \<and> z \<noteq> CHR ''<'') (affixed a c)"
proof -
  have c: "list_all (\<lambda>z. z \<noteq> CHR '' '' \<and> z \<noteq> NUL \<and> z \<noteq> CHR ''<'') s" if "plain s" for s
    using that unfolding plain_def list_all_iff by blast
  note pc = c [OF plain_call [OF assms(2)]]
  show ?thesis
  proof (cases a)
    case (Prefix x)
    then have "plain x" using assms(1) plain_call_chars by simp
    then show ?thesis using pc c [of x] by (simp add: Prefix)
  next
    case (Suffix x)
    then have "plain [x]" using assms(1) call_char_plain by simp
    then show ?thesis using pc c [of "[x]"] by (simp add: Suffix)
  next
    case (Suffix2 x y)
    then have "plain [x]" "plain [y]" using assms(1) call_char_plain by (simp_all add: call_char_def)
    then show ?thesis using pc c [of "[x]"] c [of "[y]"] by (simp add: Suffix2)
  qed
qed

lemma affixed_slash:
  assumes "affix_ok a c" and "wspr_call c"
  shows "0 < c_strcspn (affixed a c @ t) ''/'' \<and> c_strcspn (affixed a c @ t) ''/'' < length (affixed a c)"
proof -
  have slash: "c_strcspn (s @ CHR ''/'' # t) ''/'' = length s" if "plain s" for s t
    using that unfolding plain_def by (intro strcspn_until) (auto simp: list_all_iff)
  have pc: "plain c" "0 < length c" using plain_call [OF assms(2)] wspr_call_length [OF assms(2)] by auto
  show ?thesis
  proof (cases a)
    case (Prefix x)
    then have "plain x" "0 < length x" using assms(1) plain_call_chars by auto
    then show ?thesis using slash [of x "c @ t"] by (simp add: Prefix)
  next
    case (Suffix x)
    then show ?thesis using slash [OF pc(1), of "x # t"] pc(2) by simp
  next
    case (Suffix2 x y)
    then show ?thesis using slash [OF pc(1), of "x # y # t"] pc(2) by simp
  qed
qed

lemma pack_message_type2:
  assumes ok: "affix_ok a c" and c: "wspr_call c" and p: "good_power p"
    and N: "N < 262177560" "\<And>rest. pack_call (c @ NUL # rest) = Some (word_of_nat N)"
  shows "pack_message (type2_text a c (fmt_int p)) =
    Some (Some (word_of_nat N, 128 * affix_ng a + (p + 1 + affix_nadd a) + 64))"
proof -
  let ?s = "affixed a c" and ?w = "fmt_int p"
  let ?raw = "type2_text a c ?w"
  have len: "length ?s \<le> 10" "length ?w \<le> 2"
    using affixed_length [OF ok] wspr_call_length [OF c] fmt_power(3) [OF p] by auto
  then have l: "length ?raw \<le> 13" by (simp add: type2_text_def)
  let ?rest = "replicate (22 - length ?raw) NUL"
  have pad: "pad_right 23 NUL ?raw = ?s @ CHR '' '' # ?w @ NUL # ?rest"
    using l by (simp add: pad_right_def type2_text_def Suc_diff_le numeral_eq_Suc)
  have vis: "list_all (\<lambda>z. z \<notin> set '' '' \<and> z \<noteq> NUL) ?s" "list_all (\<lambda>z. z \<notin> set ''<'') ?s" "NUL \<notin> set ?s"
    using affixed_visible [OF ok c] unfolding list_all_iff by auto
  have wvis: "list_all (\<lambda>z. z \<notin> set '' '' \<and> z \<noteq> NUL) ?w" "list_all (\<lambda>z. z \<notin> set ''<'') ?w" "NUL \<notin> set ?w"
    using fmt_power(1) [OF p] unfolding plain_def list_all_iff by auto
  define i2 where "i2 = c_strcspn ?raw ''/''"
  have i2: "0 < i2" "i2 < length ?s"
    using affixed_slash [OF ok c] by (auto simp: i2_def type2_text_def)
  then have sl: "i2 \<noteq> length ?raw" "i2 < length ?raw" by (auto simp: type2_text_def)
  have i3: "c_strcspn ?raw ''<'' = length ?raw"
    using vis(2) wvis(2) by (intro strcspn_all) (auto simp: type2_text_def list_all_iff)
  have ne: "?s \<noteq> []" "?w \<noteq> []" using i2(2) fmt_power(2) [OF p] by auto
  let ?b1 = "?s @ NUL # ?w @ NUL # ?rest"
  have t1: "strtok '' '' (?s @ CHR '' '' # ?w @ NUL # ?rest) 0 = Some (?b1, 0, Suc (length ?s))"
    using strtok_token' [OF ne(1) vis(1), of "CHR '' ''" "?s @ CHR '' '' # ?w @ NUL # ?rest" "[]" "?w @ NUL # ?rest" 0] by simp
  have t2: "strtok '' '' ?b1 (Suc (length ?s)) = Some (?b1, Suc (length ?s), Suc (length ?s) + length ?w)"
    using strtok_last' [OF ne(2) wvis(1), of ?b1 "?s @ [NUL]" ?rest "Suc (length ?s)"] by simp
  have d: "cstr (drop 0 ?b1) = ?s" "drop (Suc (length ?s)) ?b1 = ?w @ NUL # ?rest" "cstr (?w @ NUL # ?rest) = ?w"
    using cstr_append [OF vis(3)] cstr_append [OF wvis(3)] by simp_all
  have no: "(i2 = 0 \<or> i2 > length ?s) = False" using i2 by simp
  have "pack_type2 (?s @ CHR '' '' # ?w @ NUL # ?rest) i2 =
      Some (Some (word_of_nat N, 128 * affix_ng a + (p + 1 + affix_nadd a) + 64))"
    unfolding pack_type2_def t1 option.case prod.case d(1) no if_False t2 d(2,3) Let_def
      pack_prefix_affix [OF ok c N]
    by (simp add: fmt_power(4) [OF p] round_good_power [OF p])
  moreover have "?raw \<noteq> []" by (simp add: type2_text_def)
  ultimately show ?thesis
    unfolding pack_message_def Let_def i3 pad i2_def [symmetric] using sl l by simp
qed

lemma affix_value_bounds: "affix_ok a c \<Longrightarrow> affix_value a < 60126"
proof (cases a)
  case (Prefix x)
  assume "affix_ok a c"
  then have "affix_ok (Prefix x) c" by (simp add: Prefix)
  then show ?thesis by (rule prefix_three) (use prefix_digits(4) Prefix in force)
next
  case (Suffix x)
  assume "affix_ok a c"
  then show ?thesis using char36_call_char(1) [of x] Suffix by simp
next
  case (Suffix2 x y)
  assume "affix_ok a c"
  then show ?thesis using c_table_pfx(2) [of x y] Suffix2 by simp
qed

text \<open>The affix numbers that the 22 bits of a type 2 message can carry to a receiver.\<close>

definition carried :: "affix \<Rightarrow> bool" where
  "carried a \<longleftrightarrow> affix_value a < 32400 \<or> 32768 < affix_value a"

lemma affix_split:
  assumes "affix_ok a c" and "carried a"
  shows "affix_ng a mod 32768 < 32400" "affix_ng a mod 32768 + 32768 * affix_nadd a = int (affix_value a)"
    "affix_nadd a = 0 \<or> affix_nadd a = 1"
proof -
  let ?v = "int (affix_value a)"
  have v: "0 \<le> ?v" "?v < 60126" using affix_value_bounds [OF assms(1)] by simp_all
  have hi: "?v mod 32768 = ?v - 32768" if "32768 \<le> ?v"
    using v that mod_pos_pos_trivial [of "?v - 32768" 32768] by simp
  have "affix_ng a mod 32768 = (if ?v < 32768 then ?v else ?v - 32768) \<and>
      affix_nadd a = (if ?v < 32768 then 0 else 1)"
    using v hi assms(2) by (cases a) (auto simp: affix_ng_def affix_nadd_def carried_def)
  then show "affix_ng a mod 32768 < 32400" "affix_ng a mod 32768 + 32768 * affix_nadd a = ?v"
    "affix_nadd a = 0 \<or> affix_nadd a = 1"
    using v assms(2) by (auto simp: carried_def)
qed


lemma unpk_type2_affix:
  assumes ok: "affix_ok a c" "carried a" and c: "wspr_call c" and p: "good_power p"
    and N: "N < 262177560" "unpackcall N = (True, pad_right 7 NUL c)"
    and mem: "23 \<le> length clp0" "13 \<le> length call0"
  obtains mem where "cstr mem = c" "length mem = length call0"
    "unpk (pack50 (word_of_nat N) (128 * affix_ng a + (p + 1 + affix_nadd a) + 64)) tabs clp0 call0 =
      (case unpackpfx (affix_value a) mem of
         None \<Rightarrow> None
       | Some (False, call) \<Rightarrow> Some \<lparr> noprint = True, tables = tabs, call_loc_pow = clp0, callsign = call \<rparr>
       | Some (True, call) \<Rightarrow> unpk_type2_end p \<lparr> noprint = False, tables = tabs, call_loc_pow = clp0, callsign = call \<rparr>)"
proof -
  let ?m = "128 * affix_ng a + (p + 1 + affix_nadd a) + 64" and ?nt = "p + 1 + affix_nadd a"
  define G where "G = nat (affix_ng a mod 32768)"
  define M where "M = G * 128 + nat (?nt + 64)"
  have p': "0 \<le> p" "p \<le> 60" "p mod 10 = 0 \<or> p mod 10 = 3 \<or> p mod 10 = 7" using p by (auto simp: good_power_def)
  note split = affix_split [OF ok]
  have G: "int G = affix_ng a mod 32768" "G < 32400" using split(1) by (simp_all add: G_def)
  have nt: "0 \<le> ?nt" "?nt \<le> 62" "nat (?nt + 64) < 128" using p' split(3) by auto
  have "?m mod 2 ^ 22 = ?m mod 128 + 128 * (?m div 128 mod 32768)"
    by (rule mod_split) simp_all
  moreover have m: "?m = (?nt + 64) + affix_ng a * 128" by simp
  have "?m mod 128 = ?nt + 64" "?m div 128 = affix_ng a"
    unfolding m using nt by simp_all
  ultimately have M: "int M = ?m mod 2 ^ 22"
    using G(1) nt(1) by (simp add: M_def)
  have f: "unpack50 (pack50 (word_of_nat N) ?m) = (int N, int M)"
    using N(1) by (simp add: unpack50_pack50 M uint_nat unat_of_nat)
  have ntype: "(int M AND 127) - 64 = ?nt"
    unfolding and_127 M_def using nt by (simp add: mod_mult_self3)
  obtain g where grid: "unpackgrid (nat (int M)) = (True, g)"
  proof -
    have "drop_bit 7 M = G" using nt(3) by (simp add: M_def drop_bit_eq_div)
    then show ?thesis using that G(2) by (auto simp: unpackgrid_def Let_def)
  qed
  have nul: "NUL \<notin> set c" using wspr_call_visible [OF c] by blast
  have len: "length c \<le> 6" "2 \<le> length c" using wspr_call_length [OF c] by auto
  let ?mem = "(blit 0 (pad_right 7 NUL c) call0)[12 := NUL]"
  have "length (pad_right 7 NUL c) = 7" using len by (simp add: pad_right_def)
  then have "?mem = pad_right 7 NUL c @ (drop 7 call0)[5 := NUL]" and lm: "length ?mem = length call0"
    using mem(2) by (simp_all add: blit_def list_update_append)
  then have cs: "cstr ?mem = c" using cstr_pad [of c 7] nul len by simp
  define k where "k = p mod 10"
  have k: "k = 0 \<or> k = 3 \<or> k = 7" "p mod 10 = k" using p'(3) by (simp_all add: k_def)
  have nu: "?nt mod 10 = k + 1 + affix_nadd a"
  proof -
    have "(p + (1 + affix_nadd a)) mod 10 = (k + (1 + affix_nadd a)) mod 10"
      using k(2) mod_add_left_eq [of p 10 "1 + affix_nadd a"] by simp
    also have "\<dots> = k + (1 + affix_nadd a)"
      using k(1) split(3) by (intro mod_pos_pos_trivial) auto
    finally show ?thesis by (simp add: add.assoc)
  qed
  have not1: "(?nt mod 10 = 0 \<or> ?nt mod 10 = 3 \<or> ?nt mod 10 = 7) = False"
    unfolding nu using k(1) split(3) by auto
  have nadd: "(if ?nt mod 10 > 7 then ?nt mod 10 - 7 else if ?nt mod 10 > 3 then ?nt mod 10 - 3 else ?nt mod 10)
      = 1 + affix_nadd a"
    unfolding nu using k(1) split(3) by auto
  have "int M div 128 = int G" using nt(3) by (simp add: M_def)
  then have n3: "nat (int M div 128 + 32768 * (1 + affix_nadd a - 1)) = affix_value a"
    using split(2) G(1) by simp
  define s' where "s' = \<lparr> noprint = False, tables = tabs, call_loc_pow = clp0, callsign = ?mem \<rparr>"
  have undo: "?nt - (1 + affix_nadd a) = p" by simp
  have "unpk (pack50 (word_of_nat N) ?m) tabs clp0 call0 = unpk_type2 M ?nt s'"
    unfolding unpk_def Let_def f prod.case nat_int N(2) grid [unfolded nat_int] ntype not1 if_False s'_def
    using mem nt by simp
  also have "\<dots> = (case unpackpfx (affix_value a) ?mem of
         None \<Rightarrow> None
       | Some (False, call) \<Rightarrow> Some \<lparr> noprint = True, tables = tabs, call_loc_pow = clp0, callsign = call \<rparr>
       | Some (True, call) \<Rightarrow> unpk_type2_end p \<lparr> noprint = False, tables = tabs, call_loc_pow = clp0, callsign = call \<rparr>)"
    unfolding unpk_type2_def Let_def nadd n3 undo by (simp add: s'_def split: option.split prod.split bool.split)
  finally show ?thesis using that cs lm by blast
qed

lemma unpk_type2_end_affix:
  assumes ok: "affix_ok a c" and c: "wspr_call c" and p: "good_power p" and mem: "20 \<le> length mem"
  defines "new \<equiv> blit 0 (pad_right 20 NUL (affixed a c)) mem"
  shows "\<exists>out. unpk_type2_end p \<lparr> noprint = False, tables = tabs, call_loc_pow = clp0, callsign = new \<rparr> = Some out
    \<and> \<not> noprint out \<and> cstr (call_loc_pow out) = type2_text a c (cdbm p) \<and> cstr (callsign out) = affixed a c
    \<and> tables out = tabs\<lparr> hashtab := (hashtab tabs)(call_hash (affixed a c) := affixed a c) \<rparr>"
proof -
  have len: "length c \<le> 6" using wspr_call_length [OF c] by simp
  have vis: "NUL \<notin> set (affixed a c)" using affixed_visible [OF ok c] by (auto simp: list_all_iff)
  have alen: "length (affixed a c) \<le> 10" "affixed a c \<noteq> []"
    using affixed_length [OF ok len] affixed_slash [OF ok c, of "[]"] by auto
  have out: "cstr new = affixed a c"
    using cstr_pad [of "affixed a c" 20] vis alen by (simp add: blit_def new_def)
  have clen: "length (cdbm p) \<le> 2" and cnul: "NUL \<notin> set (cdbm p)"
    using fmt_power(1,3) [OF p] by (auto simp: cdbm_def pad_left_def plain_def list_all_iff)
  have report: "cstr (put_report (affixed a c @ '' '' @ cdbm p) clp0) = type2_text a c (cdbm p)"
    using alen vis clen cnul by (subst cstr_report) (auto simp: type2_text_def)
  have hash: "call_hash (affixed a c) < HASHTAB_ROWS" using alen(2) by (rule call_hash_small)
  show ?thesis
    using report hash p by (auto simp: unpk_type2_end_def Let_def out good_power_def)
qed

text \<open>
  C28: a type 2 message survives too, if its buffers are large enough and its affix number is carried. For a callsign with a
  prefix of one to three characters, a one-character suffix or a two-digit suffix from 10 on, packing
  and unpacking gives back the compound callsign and the power, and enters the callsign in the
  hash table at its hash.
\<close>

theorem type2_roundtrip:
  assumes "affix_ok a c" and "carried a" and "wspr_call c" and "good_power p"
    and "23 \<le> length clp0" and "20 \<le> length call0"
  shows "\<exists>n m out. pack_message (type2_text a c (fmt_int p)) = Some (Some (n, m))
    \<and> unpk (pack50 n m) tabs clp0 call0 = Some out \<and> \<not> noprint out
    \<and> cstr (call_loc_pow out) = type2_text a c (cdbm p) \<and> cstr (callsign out) = affixed a c
    \<and> tables out = tabs\<lparr> hashtab := (hashtab tabs)(call_hash (affixed a c) := affixed a c) \<rparr>"
proof -
  obtain N where N: "N < 262177560" "unpackcall N = (True, pad_right 7 NUL c)"
    "\<And>rest. pack_call (c @ NUL # rest) = Some (word_of_nat N)"
    using pack_call_roundtrip [OF assms(3)] by blast
  have len: "length c \<le> 6" using wspr_call_length [OF assms(3)] by simp
  have "13 \<le> length call0" using assms(6) by simp
  from unpk_type2_affix [OF assms(1-4) N(1,2) assms(5) this]
  obtain mem where mem: "cstr mem = c" "length mem = length call0"
    "unpk (pack50 (word_of_nat N) (128 * affix_ng a + (p + 1 + affix_nadd a) + 64)) tabs clp0 call0 =
      (case unpackpfx (affix_value a) mem of
         None \<Rightarrow> None
       | Some (False, call) \<Rightarrow> Some \<lparr> noprint = True, tables = tabs, call_loc_pow = clp0, callsign = call \<rparr>
       | Some (True, call) \<Rightarrow> unpk_type2_end p \<lparr> noprint = False, tables = tabs, call_loc_pow = clp0, callsign = call \<rparr>)"
    by blast
  have l: "20 \<le> length mem" using mem(2) assms(6) by simp
  show ?thesis
    using pack_message_type2 [OF assms(1,3,4) N(1,3)] unpackpfx_affix [OF assms(1) len mem(1) l]
      unpk_type2_end_affix [OF assms(1,3,4) l, of tabs clp0] mem(3)
    by auto
qed



theorem type2_roundtrip_witness:
  "\<exists>n m out. pack_message ''PJ4/K1ABC 37'' = Some (Some (n, m))
    \<and> unpk (pack50 n m) \<lparr> hashtab = (\<lambda>_. []), loctab = (\<lambda>_. []) \<rparr> (replicate 23 (CHR ''x'')) (replicate 20 (CHR ''y''))
        = Some out \<and> cstr (call_loc_pow out) = ''PJ4/K1ABC 37''"
proof -
  have "affix_ok (Prefix ''PJ4'') ''K1ABC''" "wspr_call ''K1ABC''" "good_power 37"
    by code_simp+
  moreover have "carried (Prefix ''PJ4'')"
    by (simp add: carried_def char36_def c_isdigit_def in_span_def)
  moreover have "fmt_int 37 = ''37''" "cdbm 37 = ''37''" by code_simp+
  ultimately show ?thesis
    using type2_roundtrip [of "Prefix ''PJ4''" "''K1ABC''" 37 "replicate 23 (CHR ''x'')" "replicate 20 (CHR ''y'')"
        "\<lparr> hashtab = (\<lambda>_. []), loctab = (\<lambda>_. []) \<rparr>"]
    by (auto simp: type2_text_def)
qed


section \<open>Type 3 messages\<close>

lemma strtok_skip:
  assumes "d \<in> set delims" and "d \<noteq> NUL" and "buf = pre @ d # t" and "pos = length pre"
  shows "strtok delims buf pos = strtok delims buf (Suc pos)"
proof -
  have "cstr (drop pos buf) = d # cstr t" "cstr (drop (Suc pos) buf) = cstr t"
    using assms by (simp_all add: cstr_def)
  then show ?thesis using assms(1) by (simp add: strtok_def Let_def)
qed

definition wspr_grid6 :: "string \<Rightarrow> bool" where
  "wspr_grid6 g \<longleftrightarrow> length g = 6 \<and> c_isupper (g ! 0) \<and> c_isupper (g ! 1) \<and> c_isdigit (g ! 2) \<and>
     c_isdigit (g ! 3) \<and> c_isupper (g ! 4) \<and> c_isupper (g ! 5)"

definition type3_text :: "string \<Rightarrow> string \<Rightarrow> string \<Rightarrow> string" where
  "type3_text s g w = CHR ''<'' # s @ CHR ''>'' # CHR '' '' # g @ CHR '' '' # w"

text \<open>A callsign that fits between the brackets.\<close>

definition bracketed :: "string \<Rightarrow> bool" where
  "bracketed s \<longleftrightarrow> s \<noteq> [] \<and> length s \<le> 10 \<and> list_all (\<lambda>c. c \<notin> set ''<> '' \<and> c \<noteq> NUL) s"

lemma grid6_rotated:
  assumes "wspr_grid6 g"
  obtains g0 r where "g = g0 # r" "length r = 5" "wspr_call (r @ [g0])" "plain g"
    "(take 5 (drop 1 g) @ replicate 2 NUL)[5 := g ! 0] = (r @ [g0]) @ NUL # []"
proof -
  obtain g0 g1 g2 g3 g4 g5 where g: "g = [g0, g1, g2, g3, g4, g5]"
    using assms by (auto simp: wspr_grid6_def length_Suc_conv numeral_eq_Suc)
  have c: "c_isupper g0" "c_isupper g1" "c_isdigit g2" "c_isdigit g3" "c_isupper g4" "c_isupper g5"
    using assms by (auto simp: wspr_grid6_def g)
  have "plain [x]" if "x \<in> set g" for x
    using c that by (intro call_char_plain) (auto simp: g call_char_def)
  then have "plain g" by (auto simp: plain_def list_all_iff)
  then show ?thesis
    using that [of g0 "[g1, g2, g3, g4, g5]"] c by (simp add: g call_char_def numeral_2_eq_2)
qed

lemma pack_message_type3:
  assumes s: "bracketed s" and g: "wspr_grid6 g" "g = g0 # r" and p: "good_power p"
    and N: "\<And>rest. pack_call ((r @ [g0]) @ NUL # rest) = Some (word_of_nat N)"
  shows "pack_message (type3_text s g (fmt_int p)) =
    Some (Some (word_of_nat N, 128 * int (call_hash s) - (p + 1) + 64))"
proof -
  let ?w = "fmt_int p"
  let ?raw = "type3_text s g ?w"
  have len: "length s \<le> 10" "length g = 6" "length ?w \<le> 2"
    using s g(1) fmt_power(3) [OF p] by (auto simp: bracketed_def wspr_grid6_def)
  then have l: "length ?raw \<le> 22" by (simp add: type3_text_def)
  let ?rest = "replicate (22 - length ?raw) NUL"
  let ?b0 = "CHR ''<'' # s @ CHR ''>'' # CHR '' '' # g @ CHR '' '' # ?w @ NUL # ?rest"
  let ?b1 = "CHR ''<'' # s @ NUL # CHR '' '' # g @ CHR '' '' # ?w @ NUL # ?rest"
  let ?b2 = "CHR ''<'' # s @ NUL # CHR '' '' # g @ NUL # ?w @ NUL # ?rest"
  have pad: "pad_right 23 NUL ?raw = ?b0"
    using l by (simp add: pad_right_def type3_text_def Suc_diff_le numeral_eq_Suc)
  have i3: "c_strcspn ?raw ''<'' = 0" by (simp add: c_strcspn_def type3_text_def)
  have "c_strcspn ((CHR ''<'' # s) @ CHR ''>'' # CHR '' '' # g @ CHR '' '' # ?w) ''>'' = length (CHR ''<'' # s)"
    using s by (intro strcspn_until) (auto simp: bracketed_def list_all_iff)
  then have i4: "c_strcspn ?raw ''>'' < length ?raw" by (simp add: type3_text_def)
  obtain g0' r' where g': "g = g0' # r'" "plain g"
    "(take 5 (drop 1 g) @ replicate 2 NUL)[5 := g ! 0] = (r' @ [g0']) @ NUL # []"
    using g(1) by (rule grid6_rotated)
  have pg: "g \<noteq> []" "list_all (\<lambda>c. c \<notin> set '' '' \<and> c \<noteq> NUL) g" "NUL \<notin> set g"
    using g' unfolding plain_def list_all_iff by auto
  have pw: "?w \<noteq> []" "list_all (\<lambda>c. c \<notin> set '' '' \<and> c \<noteq> NUL) ?w" "NUL \<notin> set ?w"
    using fmt_power(1,2) [OF p] unfolding plain_def list_all_iff by auto
  have ps: "s \<noteq> []" "list_all (\<lambda>c. c \<notin> set ''<> '' \<and> c \<noteq> NUL) s" "NUL \<notin> set s"
    using s unfolding bracketed_def list_all_iff by auto
  have t1: "strtok ''<> '' ?b0 0 = Some (?b1, 1, Suc (Suc (length s)))"
    using strtok_skip [of "CHR ''<''" "''<> ''" ?b0 "[]" "s @ CHR ''>'' # CHR '' '' # g @ CHR '' '' # ?w @ NUL # ?rest" 0]
      strtok_token' [OF ps(1,2), of "CHR ''>''" ?b0 "[CHR ''<'']" "CHR '' '' # g @ CHR '' '' # ?w @ NUL # ?rest" 1]
    by simp
  have t2: "strtok '' '' ?b1 (Suc (Suc (length s))) = Some (?b2, length s + 3, Suc (length s + 3 + 6))"
    using strtok_skip [of "CHR '' ''" "'' ''" ?b1 "CHR ''<'' # s @ [NUL]" "g @ CHR '' '' # ?w @ NUL # ?rest" "Suc (Suc (length s))"]
      strtok_token' [OF pg(1,2), of "CHR '' ''" ?b1 "CHR ''<'' # s @ [NUL, CHR '' '']" "?w @ NUL # ?rest" "length s + 3"]
      len(2) by (simp add: numeral_3_eq_3)
  have t3: "strtok '' '' ?b2 (Suc (length s + 3 + 6)) =
      Some (?b2, Suc (length s + 3 + 6), Suc (length s + 3 + 6) + length ?w)"
    using strtok_last' [OF pw(1,2), of ?b2 "CHR ''<'' # s @ NUL # CHR '' '' # g @ [NUL]" ?rest "Suc (length s + 3 + 6)"]
      len(2) by simp
  have drop_pre: "drop (length a) (a @ b) = b" for a b :: "char list" by simp
  let ?pre = "CHR ''<'' # s @ NUL # CHR '' '' # g @ [NUL]"
  have "drop (length ?pre) (?pre @ ?w @ NUL # ?rest) = ?w @ NUL # ?rest" by (rule drop_pre)
  moreover have "length ?pre = Suc (length s + 3 + 6)" "?pre @ ?w @ NUL # ?rest = ?b2" using len(2) by simp_all
  ultimately have "drop (Suc (length s + 3 + 6)) ?b2 = ?w @ NUL # ?rest" by metis
  then have d: "cstr (drop 1 ?b2) = s" "cstr (drop (length s + 3) ?b2) = g"
    "cstr (drop (Suc (length s + 3 + 6)) ?b2) = ?w"
    using cstr_append [OF ps(3)] cstr_append [OF pg(3)] cstr_append [OF pw(3)]
    by (simp_all only:) (simp_all add: numeral_3_eq_3)
  have rot: "(take 5 (drop 1 g) @ replicate 2 NUL)[5 := g ! 0] = (r @ [g0]) @ NUL # []"
    using g'(1,3) g(2) by simp
  have six: "length g - 1 = 5" "8 - length g = 2" "(7 < length g) = False" using len(2) by simp_all
  have "pack_type3 ?b0 = Some (Some (word_of_nat N, 128 * int (call_hash s) - (p + 1) + 64))"
    unfolding pack_type3_def t1 option.case prod.case t2 t3 Let_def d fmt_power(4) [OF p] round_good_power [OF p]
      six rot N if_False by simp
  moreover have "?raw \<noteq> []" by (simp add: type3_text_def)
  ultimately show ?thesis
    unfolding pack_message_def Let_def i3 pad using i4 l by auto
qed


text \<open>What a receiver prints for the callsign: the table row, or dots if the row is empty.\<close>

definition shown_call :: "hash_tables \<Rightarrow> string \<Rightarrow> string" where
  "shown_call tabs s = (if hashtab tabs (call_hash s) = [] then ''...'' else hashtab tabs (call_hash s))"

lemma unpk_type3_message:
  assumes h: "h < 32400" and row: "hashtab tabs h = [] \<or> bracketed (hashtab tabs h)"
    and g: "wspr_grid6 g" "g = g0 # r" and p: "good_power p"
    and N: "N < 262177560" "unpackcall N = (True, pad_right 7 NUL (r @ [g0]))"
    and mem: "23 \<le> length clp0" "13 \<le> length call0"
  defines "call \<equiv> (if hashtab tabs h = [] then ''...'' else hashtab tabs h)"
  shows "\<exists>out. unpk (pack50 (word_of_nat N) (128 * int h - (p + 1) + 64)) tabs clp0 call0 = Some out
    \<and> \<not> noprint out \<and> cstr (call_loc_pow out) = type3_text call g (cdbm p)
    \<and> cstr (callsign out) = ''<'' @ call @ ''>'' \<and> tables out = tabs"
proof -
  define M where "M = h * 128 + nat (63 - p)"
  have p': "0 \<le> p" "p \<le> 60" "p mod 10 = 0 \<or> p mod 10 = 3 \<or> p mod 10 = 7" using p by (auto simp: good_power_def)
  have M: "128 * int h - (p + 1) + 64 = int M" using p' by (simp add: M_def)
  have f: "unpack50 (pack50 (word_of_nat N) (int M)) = (int N, int M)"
    using N(1) h p' by (intro unpack50_values) (simp_all add: M_def)
  have nt: "(int M AND 127) - 64 = - (p + 1)"
    unfolding and_127 M_def using p' by (simp add: mod_mult_self3)
  obtain grid where grid: "unpackgrid (nat (int M)) = (True, grid)"
  proof -
    have "nat (63 - p) < 128" using p' by linarith
    then have "drop_bit 7 M = h" by (simp add: M_def drop_bit_eq_div)
    then show ?thesis using that h by (auto simp: unpackgrid_def Let_def)
  qed
  have lr: "length r = 5" using g by (simp add: wspr_grid6_def)
  have pg: "plain g" using g(1) by (rule grid6_rotated)
  then have vis: "NUL \<notin> set g" by (auto simp: plain_def list_all_iff)
  let ?mem = "(blit 0 (pad_right 7 NUL (r @ [g0])) call0)[12 := NUL]"
  have m: "?mem = (r @ [g0]) @ NUL # (drop 7 call0)[5 := NUL]"
    using mem(2) lr by (simp add: blit_def list_update_append pad_right_def)
  have "NUL \<notin> set (r @ [g0])" using vis g(2) by auto
  then have cs: "cstr ?mem = r @ [g0]" unfolding m by (rule cstr_append)
  have lm: "length ?mem = length call0" using mem(2) lr by (simp add: blit_def pad_right_def)
  have m5: "?mem ! 5 = g0" unfolding m using lr by (simp add: nth_append)
  have grid6: "?mem ! 5 # pad_right 5 NUL (take 5 (cstr ?mem)) @ [NUL] = g @ [NUL]"
    unfolding m5 cs using lr g(2) by (simp add: pad_right_def)
  have good: "c_isalpha (g ! 0)" "c_isalpha (g ! 1)" "c_isdigit (g ! 2)" "c_isdigit (g ! 3)" "length g = 6"
    using g(1) by (auto simp: wspr_grid6_def c_isalpha_def)
  have ih: "nat ((int M - - (p + 1) - 64) div 128) = h" using p' by (simp add: M_def)
  have cl: "length call \<le> 10" "NUL \<notin> set call"
    using row by (auto simp: call_def bracketed_def list_all_iff)
  have shown: "(if hashtab tabs h \<noteq> [] then ''<'' @ hashtab tabs h @ ''>'' else ''<...>'') = ''<'' @ call @ ''>''"
    by (simp add: call_def)
  have cg: "cstr (g @ [NUL]) = g" by (rule cstr_append [OF vis])
  define s' where "s' = \<lparr> noprint = False, tables = tabs, call_loc_pow = clp0, callsign = ?mem \<rparr>"
  have undo: "- (- (p + 1) + 1) = p" by simp
  have "unpk_type3 M (- (p + 1)) s' = Some (s'\<lparr>
      callsign := blit 0 ((''<'' @ call @ ''>'') @ [NUL]) ?mem,
      call_loc_pow := put_report ((''<'' @ call @ ''>'') @ '' '' @ g @ '' '' @ cdbm p) clp0 \<rparr>)"
    unfolding unpk_type3_def Let_def undo ih s'_def unpk_out.simps grid6 shown cg
    using p' good h mem(2) cl lm by (auto simp: nth_append HASHTAB_ROWS_def)
  moreover have "unpk (pack50 (word_of_nat N) (int M)) tabs clp0 call0 = unpk_type3 M (- (p + 1)) s'"
    unfolding unpk_def Let_def f prod.case nat_int N(2) grid [unfolded nat_int] nt s'_def
    using mem p' by simp
  moreover have "cstr (put_report ((''<'' @ call @ ''>'') @ '' '' @ g @ '' '' @ cdbm p) clp0) = type3_text call g (cdbm p)"
  proof -
    have "length (cdbm p) \<le> 2" "NUL \<notin> set (cdbm p)"
      using fmt_power(1,3) [OF p] by (auto simp: cdbm_def pad_left_def plain_def list_all_iff)
    then show ?thesis using cl vis good(5) by (subst cstr_report) (auto simp: type3_text_def)
  qed
  moreover have "cstr (blit 0 ((''<'' @ call @ ''>'') @ [NUL]) ?mem) = ''<'' @ call @ ''>''"
    using cstr_append [of "''<'' @ call @ ''>''"] cl(2) by (simp add: blit_def)
  ultimately show ?thesis unfolding M by (auto simp: s'_def)
qed




section \<open>Messages that are lost or mistaken\<close>

text \<open>The locator check comes before the type is looked at, so it also rejects messages that have no locator in these bits.\<close>

lemma unpk_grid_rejects:
  assumes "N < 262177560" "unpackcall N = (True, w)" and "m mod 2 ^ 22 = int M" and "32400 \<le> M div 128"
    and "23 \<le> length clp0" "13 \<le> length call0"
  shows "\<exists>out. unpk (pack50 (word_of_nat N) m) tabs clp0 call0 = Some out \<and> noprint out
    \<and> call_loc_pow out = clp0 \<and> tables out = tabs"
proof -
  have "unpack50 (pack50 (word_of_nat N) m) = (int N, int M)"
    using assms(1,3) by (simp add: unpack50_pack50 uint_nat unat_of_nat)
  moreover have "unpackgrid (nat (int M)) = (False, ''XXXX'')"
    using assms(4) by (simp add: unpackgrid_def Let_def drop_bit_eq_div)
  ultimately show ?thesis using assms(2,5,6) by (simp add: unpk_def Let_def)
qed

text \<open>
  A callsign whose hash is 32400 or more cannot be reported by a type 3 message: the packer
  accepts the text, but the unpacker suppresses what it packed.
\<close>

theorem type3_hash_lost:
  assumes "bracketed s" and "32400 \<le> call_hash s" and "wspr_grid6 g" and "good_power p"
    and "23 \<le> length clp0" and "13 \<le> length call0"
  shows "\<exists>n m out. pack_message (type3_text s g (fmt_int p)) = Some (Some (n, m))
    \<and> unpk (pack50 n m) tabs clp0 call0 = Some out \<and> noprint out \<and> call_loc_pow out = clp0 \<and> tables out = tabs"
proof -
  obtain g0 r where g: "g = g0 # r" "wspr_call (r @ [g0])"
    using assms(3) by (rule grid6_rotated)
  obtain N where N: "N < 262177560" "unpackcall N = (True, pad_right 7 NUL (r @ [g0]))"
    "\<And>rest. pack_call ((r @ [g0]) @ NUL # rest) = Some (word_of_nat N)"
    using pack_call_roundtrip [OF g(2)] by blast
  let ?M = "call_hash s * 128 + nat (63 - p)"
  have p: "0 \<le> p" "p \<le> 60" using assms(4) by (auto simp: good_power_def)
  have "call_hash s < 32768"
    using call_hash_small [of s] assms(1) by (auto simp: bracketed_def HASHTAB_ROWS_def)
  then have "(128 * int (call_hash s) - (p + 1) + 64) mod 2 ^ 22 = int ?M"
    using p by simp
  moreover have "32400 \<le> ?M div 128" using assms(2) by simp
  ultimately show ?thesis
    using unpk_grid_rejects [OF N(1,2) _ _ assms(5,6)]
      pack_message_type3 [OF assms(1,3) g(1) assms(4) N(3)] by blast
qed

text \<open>
  Seven low bits of 127 are no type at all, yet the unpacker asks for the report to be
  printed and leaves in the report whatever was there before.
\<close>

theorem stale_report:
  assumes "N < 262177560" and "G < 32400" and "23 \<le> length clp0" and "13 \<le> length call0"
  shows "\<exists>out. unpk (pack50 (word_of_nat N) (int (G * 128 + 127))) tabs clp0 call0 = Some out
    \<and> \<not> noprint out \<and> call_loc_pow out = clp0 \<and> tables out = tabs"
proof -
  obtain w where w: "unpackcall N = (True, w)" using assms(1) by (simp add: unpackcall_def Let_def)
  have f: "unpack50 (pack50 (word_of_nat N) (int (G * 128 + 127))) = (int N, int (G * 128 + 127))"
    using assms(1,2) by (intro unpack50_values) simp_all
  have "drop_bit 7 (G * 128 + 127) = G" by (simp add: drop_bit_eq_div)
  then obtain grid where grid: "unpackgrid (nat (int (G * 128 + 127))) = (True, grid)"
    using assms(2) unfolding unpackgrid_def Let_def nat_int by simp
  have nt: "(int (G * 128 + 127) AND 127) - 64 = 63"
    unfolding and_127 by (simp add: mod_mult_self3)
  show ?thesis
    unfolding unpk_def Let_def f prod.case nat_int w grid [unfolded nat_int] nt
    using assms(3,4) by simp
qed

text \<open>
  C23: \<open>pack_call\<close> writes behind its six-character array exactly for the callsigns of six characters
  whose second character is a digit and whose third is none.
\<close>

theorem pack_call_overflow:
  assumes "NUL \<notin> set s" and "2 \<le> length s"
  shows "pack_call (s @ NUL # rest) = None \<longleftrightarrow>
    length s = 6 \<and> c_isdigit (s ! 1) \<and> \<not> c_isdigit (s ! 2)"
proof -
  have "cstr (s @ NUL # rest) = s" by (rule cstr_append [OF assms(1)])
  then show ?thesis
    using assms(2) by (auto simp: pack_call_def call6_layout_def Let_def nth_append)
qed

theorem type3_hash_lost_witness:
  "\<exists>n m out. pack_message ''<K1AAP> FN42AX 37'' = Some (Some (n, m))
    \<and> unpk (pack50 n m) \<lparr> hashtab = (\<lambda>_. ''K1AAP''), loctab = (\<lambda>_. []) \<rparr>
        (replicate 23 (CHR ''x'')) (replicate 13 (CHR ''y'')) = Some out \<and> noprint out"
proof -
  have "nhash 0 (\<lambda>i. if i < length ''K1AAP'' then of_nat (code (''K1AAP'' ! i)) else 0) (length ''K1AAP'') 146 = 32589"
    by code_simp
  then have h: "call_hash ''K1AAP'' = 32589" unfolding call_hash_def by simp
  have "bracketed ''K1AAP''" "wspr_grid6 ''FN42AX''" "good_power 37" by code_simp+
  moreover have "fmt_int 37 = ''37''" by code_simp
  ultimately show ?thesis
    using type3_hash_lost [of "''K1AAP''" "''FN42AX''" 37 "replicate 23 (CHR ''x'')" "replicate 13 (CHR ''y'')"
        "\<lparr> hashtab = (\<lambda>_. ''K1AAP''), loctab = (\<lambda>_. []) \<rparr>"]
    by (auto simp: type3_text_def h)
qed

theorem stale_report_witness:
  "\<exists>out. unpk (pack50 (word_of_nat 1000) (int (5 * 128 + 127))) \<lparr> hashtab = (\<lambda>_. []), loctab = (\<lambda>_. []) \<rparr>
      (pad_right 23 NUL ''K1ABC FN42 37'') (replicate 13 NUL) = Some out
    \<and> \<not> noprint out \<and> cstr (call_loc_pow out) = ''K1ABC FN42 37''"
proof -
  have "cstr (pad_right 23 NUL ''K1ABC FN42 37'') = ''K1ABC FN42 37''" by code_simp
  moreover have "length (pad_right 23 NUL ''K1ABC FN42 37'') = 23" by (simp add: pad_right_def)
  ultimately show ?thesis
    using stale_report [of 1000 5 "pad_right 23 NUL ''K1ABC FN42 37''" "replicate 13 NUL"
        "\<lparr> hashtab = (\<lambda>_. []), loctab = (\<lambda>_. []) \<rparr>"] by auto
qed

theorem pack_call_overflow_witness: "pack_call (''G4ABCD'' @ NUL # []) = None"
  using pack_call_overflow [of "''G4ABCD''" "[]"] by (simp add: ctype_defs)

text \<open>
  The same check loses the prefixes whose number lies between 32400 and 32767, that is, all
  of \<open>NOP\<close> to \<open>NYM\<close>. The number 32768 (prefix \<open>NYN\<close>) is not even packed: \<open>pack_prefix\<close> subtracts 32768
  only from greater numbers, and \<open>128 * 32768\<close> falls off the 22 bits.
\<close>

theorem type2_prefix_lost:
  assumes "affix_ok a c" and "32400 \<le> affix_value a" and "affix_value a < 32768"
    and "wspr_call c" and "good_power p" and "23 \<le> length clp0" and "13 \<le> length call0"
  shows "\<exists>n m out. pack_message (type2_text a c (fmt_int p)) = Some (Some (n, m))
    \<and> unpk (pack50 n m) tabs clp0 call0 = Some out \<and> noprint out \<and> call_loc_pow out = clp0 \<and> tables out = tabs"
proof -
  obtain N where N: "N < 262177560" "unpackcall N = (True, pad_right 7 NUL c)"
    "\<And>rest. pack_call (c @ NUL # rest) = Some (word_of_nat N)"
    using pack_call_roundtrip [OF assms(4)] by blast
  have p: "0 \<le> p" "p \<le> 60" using assms(5) by (auto simp: good_power_def)
  have ng: "affix_ng a = int (affix_value a)" "affix_nadd a = 0"
    using assms(3) by (cases a; simp add: affix_ng_def affix_nadd_def)+
  let ?M = "affix_value a * 128 + nat (p + 65)"
  have "(128 * affix_ng a + (p + 1 + affix_nadd a) + 64) mod 2 ^ 22 = int ?M"
    using p assms(3) by (simp add: ng)
  moreover have "nat (p + 65) < 128" using p by linarith
  then have "32400 \<le> ?M div 128" using assms(2) by simp
  ultimately show ?thesis
    using unpk_grid_rejects [OF N(1,2) _ _ assms(6,7)] pack_message_type2 [OF assms(1,4,5) N(1,3)] by blast
qed

end
