(* ===== verification/Fano.thy ===== *)
theory Fano
  imports ConvCode
begin

text \<open>
  \<open>fano\<close> of \<open>core/fano.c\<close>: the sequential decoder. A \<open>struct node\<close> is a record; \<open>nodes\<close> is the
  array of \<open>nbits + 1\<close> nodes that the function allocates, \<open>np\<close> the index of the current node.
  Metrics and thresholds are C integers far from their bounds (every iteration changes the
  threshold by one branch metric or one \<open>delta\<close>), so they are \<open>int\<close>. The loop that tightens the
  threshold does not end for \<open>delta \<le> 0\<close>, so it is a partial function.
\<close>

section \<open>State\<close>

record node =
  encstate :: u64
  gamma :: int
  metrics :: "int list"
  tm :: "int list"
  branch :: nat  \<comment> \<open>the field \<open>i\<close>\<close>

record fano_state =
  nodes :: "node list"
  np :: nat
  thr :: int  \<comment> \<open>the threshold \<open>t\<close>\<close>
  maxnp :: nat

section \<open>Branch metrics\<close>

text \<open>\<open>mettab\<close> is indexed by the sent bit and the received byte.\<close>

type_synonym metric_table = "nat \<Rightarrow> u8 \<Rightarrow> int"

definition branch_metrics :: "metric_table \<Rightarrow> u8 \<Rightarrow> u8 \<Rightarrow> int list" where
  "branch_metrics mettab r0 r1 =
     [mettab 0 r0 + mettab 0 r1, mettab 0 r0 + mettab 1 r1,
      mettab 1 r0 + mettab 0 r1, mettab 1 r0 + mettab 1 r1]"

text \<open>\<open>fresh\<close> is the array that \<open>malloc\<close> returned; the first loop fills in the metrics.\<close>

definition compute_metrics :: "metric_table \<Rightarrow> u8 list \<Rightarrow> nat \<Rightarrow> node list \<Rightarrow> node list" where
  "compute_metrics mettab symbols nbits fresh =
     map (\<lambda>k. if k < nbits
              then (fresh ! k)\<lparr> metrics := branch_metrics mettab (symbols ! (2 * k)) (symbols ! (2 * k + 1)) \<rparr>
              else fresh ! k) [0..<nbits + 1]"

text \<open>Sort the two branches of a node; the better one becomes branch 0 and sets the low bit.\<close>

definition sort_branches :: "node \<Rightarrow> node" where
  "sort_branches nd =
     (let lsym = ENCODE (encstate nd);
          m0 = metrics nd ! lsym;
          m1 = metrics nd ! (3 XOR lsym)
      in if m0 > m1 then nd\<lparr> tm := [m0, m1] \<rparr>
         else nd\<lparr> tm := [m1, m0], encstate := encstate nd + 1 \<rparr>)"

section \<open>One iteration\<close>

partial_function (option) tighten :: "int \<Rightarrow> int \<Rightarrow> int \<Rightarrow> int option" where
  "tighten delta ngamma t =
     (if ngamma \<ge> t + delta then tighten delta ngamma (t + delta) else Some t)"

text \<open>Look forward: the threshold allows the branch. The flag says that the end was reached.\<close>

definition move_forward :: "nat \<Rightarrow> int \<Rightarrow> int \<Rightarrow> fano_state \<Rightarrow> (fano_state \<times> bool) option" where
  "move_forward nbits delta ngamma s =
     (let nd = nodes s ! np s in
      case (if gamma nd < thr s + delta then tighten delta ngamma (thr s) else Some (thr s)) of
        None \<Rightarrow> None
      | Some t \<Rightarrow>
          let nxt = (nodes s ! (np s + 1))\<lparr> gamma := ngamma, encstate := push_bit 1 (encstate nd) \<rparr>;
              k = np s + 1
          in if k = nbits then
               Some (s\<lparr> nodes := (nodes s)[k := nxt], np := k, thr := t \<rparr>, True)
             else
               let nxt = (if nbits - 31 \<le> k
                          then nxt\<lparr> tm := (tm nxt)[0 := metrics nxt ! ENCODE (encstate nxt)] \<rparr>
                          else sort_branches nxt)
               in Some (s\<lparr> nodes := (nodes s)[k := nxt\<lparr> branch := 0 \<rparr>], np := k, thr := t \<rparr>, False))"

text \<open>Look backward: back up to a node with an untried branch, or relax the threshold.\<close>

fun look_back :: "nat \<Rightarrow> int \<Rightarrow> int \<Rightarrow> node list \<Rightarrow> nat \<Rightarrow> node list \<times> nat \<times> int" where
  "look_back nbits delta t nds k =
     (if k = 0 \<or> gamma (nds ! (k - 1)) < t then
        let nd = nds ! k in
        (if branch nd \<noteq> 0
         then nds[k := nd\<lparr> branch := 0, encstate := encstate nd XOR 1 \<rparr>] else nds,
         k, t - delta)
      else
        let k' = k - 1; nd = nds ! k' in
        if k' < nbits - 31 \<and> branch nd \<noteq> 1 then
          (nds[k' := nd\<lparr> branch := branch nd + 1, encstate := encstate nd XOR 1 \<rparr>], k', t)
        else look_back nbits delta t nds k')"

declare look_back.simps [simp del]

definition fano_iter :: "nat \<Rightarrow> int \<Rightarrow> fano_state \<Rightarrow> (fano_state \<times> bool) option" where
  "fano_iter nbits delta s =
     (let s = (if np s > maxnp s then s\<lparr> maxnp := np s \<rparr> else s);
          nd = nodes s ! np s;
          ngamma = gamma nd + tm nd ! branch nd
      in if ngamma \<ge> thr s then move_forward nbits delta ngamma s
         else (case look_back nbits delta (thr s) (nodes s) (np s) of
                 (nds, k, t) \<Rightarrow> Some (s\<lparr> nodes := nds, np := k, thr := t \<rparr>, False)))"

section \<open>The decoder\<close>

text \<open>The \<open>for\<close> loop: \<open>todo\<close> iterations are left, \<open>i\<close> is the loop counter.\<close>

fun fano_loop :: "nat \<Rightarrow> int \<Rightarrow> nat \<Rightarrow> nat \<Rightarrow> fano_state \<Rightarrow> (fano_state \<times> bool \<times> nat) option" where
  "fano_loop nbits delta 0 i s = Some (s, False, i)"
| "fano_loop nbits delta (Suc todo) i s =
     (case fano_iter nbits delta s of
        None \<Rightarrow> None
      | Some (s', True) \<Rightarrow> Some (s', True, i)
      | Some (s', False) \<Rightarrow> fano_loop nbits delta todo (i + 1) s')"

definition fano_start :: "metric_table \<Rightarrow> u8 list \<Rightarrow> nat \<Rightarrow> node list \<Rightarrow> fano_state" where
  "fano_start mettab symbols nbits fresh =
     (let nds = compute_metrics mettab symbols nbits fresh;
          root = sort_branches ((nds ! 0)\<lparr> encstate := 0 \<rparr>)
      in \<lparr> nodes = nds[0 := root\<lparr> branch := 0, gamma := 0 \<rparr>], np = 0, thr = 0, maxnp = 0 \<rparr>)"

record fano_result =
  ret :: int
  res_metric :: u32
  res_cycles :: u32
  res_maxnp :: nat
  res_data :: "u8 list"

text \<open>
  \<open>fresh = None\<close> is a failed \<open>malloc\<close>: the function returns 0 and writes nothing (outer \<open>Some\<close>,
  inner \<open>None\<close>). \<open>maxcycles\<close> is multiplied by \<open>nbits\<close> in 32 bits.
\<close>

definition fano :: "node list option \<Rightarrow> u8 list \<Rightarrow> nat \<Rightarrow> metric_table \<Rightarrow> int \<Rightarrow> nat \<Rightarrow>
    fano_result option option" where
  "fano fresh symbols nbits mettab delta maxcycles =
     (case fresh of
        None \<Rightarrow> Some None
      | Some junk \<Rightarrow>
          let cycles = (maxcycles * nbits) mod 2 ^ 32 in
          case fano_loop nbits delta cycles 1 (fano_start mettab symbols nbits junk) of
            None \<Rightarrow> None
          | Some (s, _, i) \<Rightarrow> Some (Some \<lparr>
              ret = (if i \<ge> cycles then - 1 else 0),
              res_metric = word_of_int (gamma (nodes s ! np s)),
              res_cycles = word_of_nat (i + 1),
              res_maxnp = maxnp s,
              res_data = map (\<lambda>k. ucast (encstate (nodes s ! (7 + 8 * k)))) [0..<drop_bit 3 nbits] \<rparr>))"

section \<open>The threshold loop\<close>

lemma tighten_eq:
  assumes "0 < delta"
  shows "tighten delta g t = Some (if g \<ge> t + delta then t + delta * ((g - t) div delta) else t)"
proof (induction "nat (g - t)" arbitrary: t rule: less_induct)
  case less
  show ?case
  proof (cases "g \<ge> t + delta")
    case True
    have "tighten delta g t = tighten delta g (t + delta)"
      using True by (subst tighten.simps) simp
    also have "\<dots> = Some (if g \<ge> t + delta + delta
        then t + delta + delta * ((g - (t + delta)) div delta) else t + delta)"
      using True assms by (intro less) simp
    also have "(g - (t + delta)) div delta = (g - t) div delta - 1"
      using assms div_add_self2 [of delta "g - t - delta"] by (simp add: algebra_simps)
    also have "(if g \<ge> t + delta + delta then t + delta + delta * ((g - t) div delta - 1) else t + delta)
        = t + delta * ((g - t) div delta)"
    proof (cases "g \<ge> t + delta + delta")
      case False
      then have "(g - t) div delta = 1"
        using True assms by (simp add: int_div_pos_eq [where r = "g - t - delta"])
      with False show ?thesis by simp
    qed (simp add: algebra_simps)
    finally show ?thesis using True by simp
  next
    case False
    then show ?thesis by (subst tighten.simps) simp
  qed
qed

text \<open>After tightening the threshold is at most the metric of the node reached.\<close>

lemma tighten_le:
  assumes "0 < delta" and "t \<le> g" and "tighten delta g t = Some t'"
  shows "t \<le> t' \<and> t' \<le> g"
proof -
  have "delta * ((g - t) div delta) \<le> g - t"
    by (metis assms(1) mult.commute div_times_less_eq_dividend minus_mod_eq_mult_div pos_mod_sign
        diff_le_self le_add_same_cancel2 diff_ge_0_iff_ge add.commute diff_add_cancel)
  moreover have "0 \<le> delta * ((g - t) div delta)"
    using assms by (simp add: pos_imp_zdiv_nonneg_iff)
  ultimately show ?thesis
    using assms tighten_eq [OF assms(1), of g t] by (auto split: if_splits)
qed

section \<open>The path invariant\<close>

text \<open>What the code keeps of one visited node: its current branch carries the metric of the symbol
  pair that its encoder state produces; in the tail only zero branches exist.\<close>

definition node_ok :: "nat \<Rightarrow> nat \<Rightarrow> node \<Rightarrow> bool" where
  "node_ok nbits k nd \<longleftrightarrow>
     tm nd ! branch nd = metrics nd ! ENCODE (encstate nd) \<and>
     (if nbits - 31 \<le> k then branch nd = 0 \<and> \<not> bit (encstate nd) 0
      else (branch nd = 0 \<or> branch nd = 1) \<and>
           tm nd ! (1 - branch nd) = metrics nd ! (3 XOR ENCODE (encstate nd)))"

text \<open>The node array describes a path of \<open>k\<close> branches from the root.\<close>

definition array_ok :: "metric_table \<Rightarrow> u8 list \<Rightarrow> nat \<Rightarrow> node list \<Rightarrow> bool" where
  "array_ok mettab symbols nbits nds \<longleftrightarrow>
     length nds = nbits + 1 \<and> (\<forall>j \<le> nbits. length (tm (nds ! j)) = 2) \<and>
     (\<forall>j < nbits. metrics (nds ! j) = branch_metrics mettab (symbols ! (2 * j)) (symbols ! (2 * j + 1)))"

definition path_ok :: "nat \<Rightarrow> node list \<Rightarrow> nat \<Rightarrow> bool" where
  "path_ok nbits nds k \<longleftrightarrow>
     encstate (nds ! 0) = conv_step 0 (bit (encstate (nds ! 0)) 0) \<and> gamma (nds ! 0) = 0 \<and>
     (\<forall>j < k. node_ok nbits j (nds ! j) \<and>
        encstate (nds ! (j + 1)) = conv_step (encstate (nds ! j)) (bit (encstate (nds ! (j + 1))) 0) \<and>
        gamma (nds ! (j + 1)) = gamma (nds ! j) + tm (nds ! j) ! branch (nds ! j))"

definition fano_inv :: "metric_table \<Rightarrow> u8 list \<Rightarrow> nat \<Rightarrow> fano_state \<Rightarrow> bool" where
  "fano_inv mettab symbols nbits s \<longleftrightarrow>
     array_ok mettab symbols nbits (nodes s) \<and> path_ok nbits (nodes s) (np s) \<and>
     np s < nbits \<and> node_ok nbits (np s) (nodes s ! np s)"

lemma array_okD:
  "array_ok mettab symbols nbits nds \<Longrightarrow> length nds = nbits + 1"
  "array_ok mettab symbols nbits nds \<Longrightarrow> j \<le> nbits \<Longrightarrow> length (tm (nds ! j)) = 2"
  by (simp_all add: array_ok_def)

lemma array_ok_update:
  assumes "array_ok mettab symbols nbits nds" and "length (tm nd) = 2"
    and "metrics nd = metrics (nds ! k)"
  shows "array_ok mettab symbols nbits (nds[k := nd])"
  using assms by (cases "k < length nds") (auto simp: array_ok_def nth_list_update list_update_beyond)

lemma path_ok_prefix: "path_ok nbits nds k \<Longrightarrow> j \<le> k \<Longrightarrow> path_ok nbits nds j"
  by (auto simp: path_ok_def)

text \<open>The current node may flip its low bit and change its branch, or get a successor.\<close>

lemma conv_flip_eq:
  "e = conv_step s (bit e 0) \<Longrightarrow> e XOR 1 = conv_step s (bit (e XOR 1) 0)"
proof -
  assume e: "e = conv_step s (bit e 0)"
  have "bit (e XOR 1) 0 \<longleftrightarrow> \<not> bit e 0" by (simp only: bit_xor_iff bit_1_iff) simp
  moreover have "e XOR 1 = conv_step s (\<not> bit e 0)"
    by (subst e) (rule conv_step_flip)
  ultimately show "e XOR 1 = conv_step s (bit (e XOR 1) 0)" by simp
qed

lemma path_ok_retag:
  assumes "path_ok nbits nds k" and "k < length nds" and "gamma nd = gamma (nds ! k)"
    and "encstate nd = encstate (nds ! k) \<or> encstate nd = encstate (nds ! k) XOR 1"
  shows "path_ok nbits (nds[k := nd]) k"
proof -
  have e: "encstate nd = conv_step s (bit (encstate nd) 0)"
    if "encstate (nds ! k) = conv_step s (bit (encstate (nds ! k)) 0)" for s
    using assms(4) that conv_flip_eq [OF that] by auto
  show ?thesis
    using assms(1-3) e
    by (cases "k = 0") (auto simp: path_ok_def nth_list_update)
qed

lemma path_ok_extend:
  assumes "path_ok nbits nds k" and "Suc k < length nds" and "node_ok nbits k (nds ! k)"
    and "encstate nd = conv_step (encstate (nds ! k)) (bit (encstate nd) 0)"
    and "gamma nd = gamma (nds ! k) + tm (nds ! k) ! branch (nds ! k)"
  shows "path_ok nbits (nds[Suc k := nd]) (Suc k)"
  using assms by (auto simp: path_ok_def nth_list_update less_Suc_eq)

section \<open>Every step keeps the invariant\<close>

lemma xor3_xor3: "ENCODE s = 3 XOR (3 XOR ENCODE s)"
  by (simp add: xor.assoc [symmetric])

lemma node_ok_flip:
  assumes "node_ok nbits k nd" and "k < nbits - 31" and "b = 1 - branch nd"
  shows "node_ok nbits k (nd\<lparr> branch := b, encstate := encstate nd XOR 1 \<rparr>)"
  using assms xor3_xor3 [of "encstate nd"] by (auto simp: node_ok_def ENCODE_flip)

lemma look_back_inv:
  assumes "array_ok mettab symbols nbits nds" and "path_ok nbits nds k" and "k < nbits"
    and "node_ok nbits k (nds ! k)" and "look_back nbits delta t nds k = (nds', k', t')"
  shows "array_ok mettab symbols nbits nds' \<and> path_ok nbits nds' k' \<and> k' < nbits
         \<and> node_ok nbits k' (nds' ! k')"
  using assms
proof (induction nbits delta t nds k rule: look_back.induct)
  case (1 nbits delta t nds k)
  have len: "length nds = nbits + 1" and tm2: "\<And>j. j \<le> nbits \<Longrightarrow> length (tm (nds ! j)) = 2"
    using array_okD [OF "1.prems"(1)] by auto
  consider (relax) "k = 0 \<or> gamma (nds ! (k - 1)) < t"
    | (flip) "\<not> (k = 0 \<or> gamma (nds ! (k - 1)) < t)" "k - 1 < nbits - 31" "branch (nds ! (k - 1)) \<noteq> 1"
    | (further) "\<not> (k = 0 \<or> gamma (nds ! (k - 1)) < t)"
        "\<not> (k - 1 < nbits - 31 \<and> branch (nds ! (k - 1)) \<noteq> 1)"
    by blast
  then show ?case
  proof cases
    case relax
    let ?nd = "(nds ! k)\<lparr> branch := 0, encstate := encstate (nds ! k) XOR 1 \<rparr>"
    have eq: "nds' = (if branch (nds ! k) \<noteq> 0 then nds[k := ?nd] else nds)" "k' = k"
      using "1.prems"(5) relax by (auto simp: look_back.simps [of nbits delta t nds k] Let_def)
    show ?thesis
    proof (cases "branch (nds ! k) = 0")
      case False
      then have "node_ok nbits k ?nd"
        using "1.prems"(4) by (intro node_ok_flip) (auto simp: node_ok_def split: if_splits)
      with False show ?thesis
        using "1.prems"(1-3) len tm2 by (simp add: eq array_ok_update path_ok_retag)
    qed (use "1.prems" eq in simp)
  next
    case flip
    let ?nd = "(nds ! (k - 1))\<lparr> branch := branch (nds ! (k - 1)) + 1,
        encstate := encstate (nds ! (k - 1)) XOR 1 \<rparr>"
    have ok: "node_ok nbits (k - 1) (nds ! (k - 1))" and path: "path_ok nbits nds (k - 1)"
      using "1.prems"(2) flip(1) by (auto simp: path_ok_def)
    have eq: "nds' = nds[k - 1 := ?nd]" "k' = k - 1"
      using "1.prems"(5) flip by (auto simp: look_back.simps [of nbits delta t nds k] Let_def)
    have "node_ok nbits (k - 1) ?nd"
      using ok flip(2,3) by (intro node_ok_flip) (auto simp: node_ok_def)
    then show ?thesis
      using "1.prems"(1,3) path len tm2 by (simp add: eq array_ok_update path_ok_retag)
  next
    case further
    have "node_ok nbits (k - 1) (nds ! (k - 1))" and "path_ok nbits nds (k - 1)"
      using "1.prems"(2) further(1) by (auto simp: path_ok_def)
    moreover have "look_back nbits delta t nds (k - 1) = (nds', k', t')"
      using "1.prems"(5) further
      unfolding look_back.simps [of nbits delta t nds k] Let_def by (simp split: if_splits)
    ultimately show ?thesis
      using "1.IH" [OF further(1) refl refl further(2)] "1.prems"(1,3) by simp
  qed
qed

lemma push_bit_conv: "push_bit 1 e = conv_step e (bit (push_bit 1 e) 0)"
proof -
  have "\<not> bit (push_bit 1 e) 0" by (simp only: bit_push_bit_iff) simp
  then show ?thesis by (simp add: conv_step_def)
qed

lemma even_push: "\<not> bit (push_bit 1 (e :: u64)) 0"
  by (simp only: bit_push_bit_iff) simp

lemma plus1_flip: "\<not> bit (e :: u64) 0 \<Longrightarrow> e + 1 = e XOR 1"
  by (simp add: xor_one_eq bit_0)

text \<open>Sorting the branches of a node whose low bit is clear.\<close>

lemma sort_branches_ok:
  assumes "\<not> bit (encstate nd) 0" and "k < nbits - 31"
  shows "node_ok nbits k ((sort_branches nd)\<lparr> branch := 0 \<rparr>)"
    and "encstate (sort_branches nd) = encstate nd \<or>
         encstate (sort_branches nd) = encstate nd XOR 1"
    and "gamma (sort_branches nd) = gamma nd" and "metrics (sort_branches nd) = metrics nd"
    and "length (tm (sort_branches nd)) = 2"
  using assms xor3_xor3 [of "encstate nd"] plus1_flip [OF assms(1)]
  by (auto simp: node_ok_def sort_branches_def Let_def ENCODE_flip)

lemma branch_update [simp]:
  "encstate (nd\<lparr> branch := b \<rparr>) = encstate nd" "gamma (nd\<lparr> branch := b \<rparr>) = gamma nd"
  "metrics (nd\<lparr> branch := b \<rparr>) = metrics nd" "tm (nd\<lparr> branch := b \<rparr>) = tm nd"
  by simp_all

text \<open>The node a forward move writes, and what holds of it.\<close>

definition successor :: "nat \<Rightarrow> int \<Rightarrow> node \<Rightarrow> node \<Rightarrow> nat \<Rightarrow> node" where
  "successor nbits ngamma nd nxt k =
     (let nxt = nxt\<lparr> gamma := ngamma, encstate := push_bit 1 (encstate nd) \<rparr>
      in if k = nbits then nxt
         else (if nbits - 31 \<le> k then nxt\<lparr> tm := (tm nxt)[0 := metrics nxt ! ENCODE (encstate nxt)] \<rparr>
               else sort_branches nxt)\<lparr> branch := 0 \<rparr>)"

lemma successor_ok:
  fixes nbits ngamma nd nxt k
  defines "nd' \<equiv> successor nbits ngamma nd nxt k"
  assumes "length (tm nxt) = 2"
  shows "encstate nd' = conv_step (encstate nd) (bit (encstate nd') 0)"
    and "gamma nd' = ngamma" and "metrics nd' = metrics nxt" and "length (tm nd') = 2"
    and "k < nbits \<Longrightarrow> node_ok nbits k nd'"
    and "nbits - 31 \<le> k \<Longrightarrow> \<not> bit (encstate nd') 0"
proof -
  let ?e = "push_bit 1 (encstate nd)"
  let ?n0 = "nxt\<lparr> gamma := ngamma, encstate := ?e \<rparr>"
  have low: "\<not> bit (encstate ?n0) 0" using even_push [of "encstate nd"] by simp
  have flip: "?e XOR 1 = conv_step (encstate nd) (bit (?e XOR 1) 0)"
    by (rule conv_flip_eq [OF push_bit_conv])
  have tail: "nd' = ?n0 \<or> nd' = ?n0\<lparr> tm := (tm nxt)[0 := metrics nxt ! ENCODE ?e] \<rparr>\<lparr> branch := 0 \<rparr>"
    if "k = nbits \<or> nbits - 31 \<le> k"
    using that by (auto simp: nd'_def successor_def Let_def)
  have inner: "nd' = (sort_branches ?n0)\<lparr> branch := 0 \<rparr>" if "\<not> (k = nbits \<or> nbits - 31 \<le> k)"
    using that by (auto simp: nd'_def successor_def Let_def)
  note sorted = sort_branches_ok [OF low, of k nbits]
  show "encstate nd' = conv_step (encstate nd) (bit (encstate nd') 0)"
    using tail inner sorted push_bit_conv [of "encstate nd"] flip
    by (cases "k = nbits \<or> nbits - 31 \<le> k") (auto simp: not_le)
  show "gamma nd' = ngamma" "metrics nd' = metrics nxt" "length (tm nd') = 2"
    using tail inner sorted assms(2)
    by (cases "k = nbits \<or> nbits - 31 \<le> k"; auto simp: not_le)+
  show "k < nbits \<Longrightarrow> node_ok nbits k nd'"
    using inner sorted assms(2) low
    by (cases "nbits - 31 \<le> k") (auto simp: node_ok_def not_le nd'_def successor_def Let_def)
  show "nbits - 31 \<le> k \<Longrightarrow> \<not> bit (encstate nd') 0"
    using tail low by auto
qed

lemma move_forward_eq:
  "move_forward nbits delta ngamma s =
     (case (if gamma (nodes s ! np s) < thr s + delta then tighten delta ngamma (thr s) else Some (thr s)) of
        None \<Rightarrow> None
      | Some t \<Rightarrow> Some (s\<lparr> nodes := (nodes s)[Suc (np s) :=
            successor nbits ngamma (nodes s ! np s) (nodes s ! Suc (np s)) (Suc (np s))],
          np := Suc (np s), thr := t \<rparr>, Suc (np s) = nbits))"
  by (auto simp: move_forward_def successor_def Let_def split: option.splits)

definition fano_final :: "metric_table \<Rightarrow> u8 list \<Rightarrow> nat \<Rightarrow> fano_state \<Rightarrow> bool" where
  "fano_final mettab symbols nbits s \<longleftrightarrow>
     array_ok mettab symbols nbits (nodes s) \<and> path_ok nbits (nodes s) nbits \<and> np s = nbits"

lemma move_forward_inv:
  assumes inv: "fano_inv mettab symbols nbits s"
    and ng: "ngamma = gamma (nodes s ! np s) + tm (nodes s ! np s) ! branch (nodes s ! np s)"
    and mv: "move_forward nbits delta ngamma s = Some (s', done)"
  shows "if done then fano_final mettab symbols nbits s' else fano_inv mettab symbols nbits s'"
proof -
  let ?nd = "nodes s ! np s" and ?k = "Suc (np s)"
  let ?nd' = "successor nbits ngamma ?nd (nodes s ! ?k) ?k"
  have arr: "array_ok mettab symbols nbits (nodes s)" and path: "path_ok nbits (nodes s) (np s)"
    and k: "np s < nbits" and ok: "node_ok nbits (np s) ?nd"
    using inv by (auto simp: fano_inv_def)
  have len: "length (nodes s) = nbits + 1" and tm2: "length (tm (nodes s ! ?k)) = 2"
    using array_okD [OF arr] k by auto
  note succ = successor_ok [OF tm2, where nbits = nbits and ngamma = ngamma and nd = ?nd and k = ?k]
  have s': "nodes s' = (nodes s)[?k := ?nd']" "np s' = ?k" "done \<longleftrightarrow> ?k = nbits"
    using mv by (auto simp: move_forward_eq split: option.splits)
  have "array_ok mettab symbols nbits (nodes s')"
    using arr succ by (simp add: s' array_ok_update)
  moreover have "path_ok nbits (nodes s') ?k"
    unfolding s' using path k len ok succ ng by (intro path_ok_extend) auto
  moreover have "node_ok nbits ?k (nodes s' ! ?k)" if "\<not> done"
    using that succ(5) k len by (simp add: s')
  ultimately show ?thesis
    using k by (auto simp: fano_final_def fano_inv_def s')
qed

lemma fano_iter_inv:
  assumes "fano_inv mettab symbols nbits s" and "fano_iter nbits delta s = Some (s', done)"
  shows "if done then fano_final mettab symbols nbits s' else fano_inv mettab symbols nbits s'"
proof -
  define s0 where "s0 = (if np s > maxnp s then s\<lparr> maxnp := np s \<rparr> else s)"
  have inv0: "fano_inv mettab symbols nbits s0"
    using assms(1) by (simp add: s0_def fano_inv_def)
  let ?nd = "nodes s0 ! np s0"
  let ?ng = "gamma ?nd + tm ?nd ! branch ?nd"
  have step: "(if ?ng \<ge> thr s0 then move_forward nbits delta ?ng s0
      else (case look_back nbits delta (thr s0) (nodes s0) (np s0) of
              (nds, k, t) \<Rightarrow> Some (s0\<lparr> nodes := nds, np := k, thr := t \<rparr>, False))) = Some (s', done)"
    using assms(2) unfolding fano_iter_def Let_def s0_def .
  show ?thesis
  proof (cases "?ng \<ge> thr s0")
    case True
    with step have "move_forward nbits delta ?ng s0 = Some (s', done)" by simp
    then show ?thesis by (rule move_forward_inv [OF inv0 refl])
  next
    case False
    obtain nds k t where lb: "look_back nbits delta (thr s0) (nodes s0) (np s0) = (nds, k, t)"
      by (cases "look_back nbits delta (thr s0) (nodes s0) (np s0)") auto
    have "s' = s0\<lparr> nodes := nds, np := k, thr := t \<rparr>" "\<not> done"
      using step False lb by auto
    then show ?thesis
      using look_back_inv [where mettab = mettab and symbols = symbols, OF _ _ _ _ lb] inv0
      by (simp add: fano_inv_def)
  qed
qed

lemma fano_loop_final:
  "fano_loop nbits delta todo i s = Some (s', done, i') \<Longrightarrow> fano_inv mettab symbols nbits s \<Longrightarrow>
   if done then fano_final mettab symbols nbits s' \<and> i' < i + todo
   else fano_inv mettab symbols nbits s' \<and> i' = i + todo"
proof (induction todo arbitrary: i s)
  case (Suc todo)
  obtain s1 d where it: "fano_iter nbits delta s = Some (s1, d)"
    using Suc.prems(1) by (auto split: option.splits)
  note inv1 = fano_iter_inv [OF Suc.prems(2) it]
  show ?case
  proof (cases d)
    case True
    with Suc.prems(1) it inv1 show ?thesis by simp
  next
    case False
    with Suc.prems(1) it inv1 Suc.IH [of "i + 1" s1] show ?thesis by auto
  qed
qed simp

section \<open>The initial state\<close>

text \<open>What \<open>malloc\<close> returns: \<open>nbits + 1\<close> nodes whose \<open>tm\<close> arrays have two cells.\<close>

definition fresh_nodes :: "nat \<Rightarrow> node list \<Rightarrow> bool" where
  "fresh_nodes nbits fresh \<longleftrightarrow> length fresh = nbits + 1 \<and> (\<forall>nd \<in> set fresh. length (tm nd) = 2)"

lemma compute_metrics_ok:
  assumes "fresh_nodes nbits fresh"
  shows "array_ok mettab symbols nbits (compute_metrics mettab symbols nbits fresh)"
proof -
  let ?nds = "compute_metrics mettab symbols nbits fresh"
  have len: "length ?nds = nbits + 1"
    by (simp add: compute_metrics_def)
  have nth: "?nds ! k = (if k < nbits
      then (fresh ! k)\<lparr> metrics := branch_metrics mettab (symbols ! (2 * k)) (symbols ! (2 * k + 1)) \<rparr>
      else fresh ! k)" if "k \<le> nbits" for k
    unfolding compute_metrics_def using that by (subst nth_map) (simp_all del: upt_Suc)
  have "length (tm (fresh ! k)) = 2" if "k \<le> nbits" for k
    using assms that by (simp add: fresh_nodes_def)
  then show ?thesis
    using len nth by (simp add: array_ok_def)
qed

lemma fano_start_inv:
  assumes "fresh_nodes nbits fresh" and "31 < nbits"
  shows "fano_inv mettab symbols nbits (fano_start mettab symbols nbits fresh)"
proof -
  let ?nds = "compute_metrics mettab symbols nbits fresh"
  let ?r0 = "(?nds ! 0)\<lparr> encstate := 0 \<rparr>"
  let ?root = "(sort_branches ?r0)\<lparr> branch := 0, gamma := 0 \<rparr>"
  have arr: "array_ok mettab symbols nbits ?nds"
    by (rule compute_metrics_ok [OF assms(1)])
  have "\<not> bit (encstate ?r0) 0" by simp
  note sorted = sort_branches_ok [OF this, of 0 nbits]
  have r: "node_ok nbits 0 ?root"
    using sorted(1) assms(2) by (simp add: node_ok_def)
  have e: "encstate ?root = conv_step 0 (bit (encstate ?root) 0)"
    using sorted(2) conv_flip_eq [of 0 0] assms(2) by (auto simp: conv_step_def)
  have "array_ok mettab symbols nbits (?nds[0 := ?root])"
    using sorted assms(2) by (intro array_ok_update [OF arr]) auto
  then show ?thesis
    using r e assms(2) array_okD(1) [OF arr]
    by (simp add: fano_inv_def fano_start_def Let_def path_ok_def)
qed

section \<open>Path metrics\<close>

text \<open>The metric of a sequence of sent symbols against the received ones.\<close>

definition path_metric :: "metric_table \<Rightarrow> u8 list \<Rightarrow> nat list \<Rightarrow> int" where
  "path_metric mettab symbols sent = (\<Sum>j < length sent. mettab (sent ! j) (symbols ! j))"

text \<open>The hypotheses of a node array: the low bits of its encoder states.\<close>

definition path_bits :: "node list \<Rightarrow> nat \<Rightarrow> bool list" where
  "path_bits nds n = map (\<lambda>j. bit (encstate (nds ! j)) 0) [0..<n]"

lemma path_bits_Suc: "path_bits nds (Suc n) = path_bits nds n @ [bit (encstate (nds ! n)) 0]"
  by (simp add: path_bits_def)

lemma path_encstate:
  assumes "path_ok nbits nds k"
  shows "j \<le> k \<Longrightarrow> encstate (nds ! j) = conv_state (path_bits nds (Suc j))"
proof (induction j)
  case 0
  have "encstate (nds ! 0) = conv_step 0 (bit (encstate (nds ! 0)) 0)"
    using assms unfolding path_ok_def by blast
  moreover have "path_bits nds (Suc 0) = [bit (encstate (nds ! 0)) 0]"
    by (simp add: path_bits_def)
  ultimately show ?case by (metis foldl_Cons foldl_Nil)
next
  case (Suc j)
  have "encstate (nds ! (j + 1)) = conv_step (encstate (nds ! j)) (bit (encstate (nds ! (j + 1))) 0)"
    using assms Suc.prems unfolding path_ok_def by auto
  moreover have "encstate (nds ! j) = conv_state (path_bits nds (Suc j))"
    using Suc by simp
  ultimately show ?case
    by (metis path_bits_Suc foldl_append foldl_Cons foldl_Nil Suc_eq_plus1)
qed

lemma branch_metrics_nth:
  "branch_metrics mettab r0 r1 ! ENCODE e = mettab (tap POLY1 e) r0 + mettab (tap POLY2 e) r1"
  using tap_cases [of POLY1 e] tap_cases [of POLY2 e]
  by (auto simp: ENCODE_sum branch_metrics_def numeral_eq_Suc)

lemma path_metric_snoc:
  "path_metric mettab symbols (xs @ [a, b]) = path_metric mettab symbols xs
     + mettab a (symbols ! length xs) + mettab b (symbols ! Suc (length xs))"
proof -
  have "(\<Sum>j < length xs. mettab ((xs @ [a, b]) ! j) (symbols ! j)) =
      (\<Sum>j < length xs. mettab (xs ! j) (symbols ! j))"
    by (rule sum.cong) (auto simp: nth_append)
  then show ?thesis by (simp add: path_metric_def nth_append)
qed

lemma path_gamma:
  assumes "array_ok mettab symbols nbits nds" and "path_ok nbits nds k" and "k \<le> nbits"
  shows "j \<le> k \<Longrightarrow> gamma (nds ! j) = path_metric mettab symbols (encode_bits 0 (path_bits nds j))"
proof (induction j)
  case 0
  then show ?case using assms(2) by (simp add: path_ok_def path_metric_def path_bits_def)
next
  case (Suc j)
  let ?e = "encstate (nds ! j)"
  have e: "?e = conv_step (conv_state (path_bits nds j)) (bit ?e 0)"
    using path_encstate [OF assms(2), of j] Suc.prems
    unfolding path_bits_Suc foldl_append foldl_Cons foldl_Nil by linarith
  have m: "metrics (nds ! j) = branch_metrics mettab (symbols ! (2 * j)) (symbols ! (2 * j + 1))"
    using assms(1,3) Suc.prems by (simp add: array_ok_def)
  have "encode_bits (conv_state (path_bits nds j)) [bit ?e 0] = [tap POLY1 ?e, tap POLY2 ?e]"
    unfolding encode_bits.simps Let_def e [symmetric] ENCODE_parts ..
  then have "encode_bits 0 (path_bits nds (Suc j)) =
      encode_bits 0 (path_bits nds j) @ [tap POLY1 ?e, tap POLY2 ?e]"
    unfolding path_bits_Suc encode_bits_append by (rule arg_cong)
  then have "path_metric mettab symbols (encode_bits 0 (path_bits nds (Suc j))) =
      gamma (nds ! j) + metrics (nds ! j) ! ENCODE ?e"
    using Suc by (simp add: path_metric_snoc m branch_metrics_nth path_bits_def)
  moreover have "gamma (nds ! Suc j) = gamma (nds ! j) + metrics (nds ! j) ! ENCODE ?e"
    using assms(2) Suc.prems by (auto simp: path_ok_def node_ok_def)
  ultimately show ?case by simp
qed

lemma path_tail_zero:
  assumes "path_ok nbits nds nbits" and "nbits - 31 \<le> j" and "j < nbits"
  shows "\<not> path_bits nds nbits ! j"
proof -
  have "node_ok nbits j (nds ! j)"
    using assms(1,3) by (simp add: path_ok_def)
  then show ?thesis
    using assms(2,3) by (simp add: path_bits_def node_ok_def)
qed

text \<open>The bytes copied out are the path's bits, eight at a time.\<close>

lemma path_data:
  assumes "path_ok nbits nds nbits"
  shows "8 * n \<le> nbits \<Longrightarrow>
    concat (map (\<lambda>k. byte_bits (ucast (encstate (nds ! (7 + 8 * k))))) [0..<n])
      = take (8 * n) (path_bits nds nbits)"
proof (induction n)
  case (Suc n)
  have "byte_bits (ucast (encstate (nds ! (7 + 8 * n)))) = drop (8 * n) (path_bits nds (8 + 8 * n))"
    using path_encstate [OF assms, of "7 + 8 * n"] Suc.prems
      byte_bits_conv_state [of "path_bits nds (8 + 8 * n)"]
    by (simp add: path_bits_def)
  moreover have "path_bits nds (8 + 8 * n) = take (8 + 8 * n) (path_bits nds nbits)"
    using Suc.prems by (simp add: path_bits_def take_map)
  ultimately have b: "byte_bits (ucast (encstate (nds ! (7 + 8 * n)))) =
      drop (8 * n) (take (8 + 8 * n) (path_bits nds nbits))" by simp
  have "take (8 * Suc n) (path_bits nds nbits) = take (8 * n) (path_bits nds nbits) @
      drop (8 * n) (take (8 + 8 * n) (path_bits nds nbits))"
    by (metis append_take_drop_id le_add2 min.absorb1 mult_Suc_right take_take)
  with b Suc show ?case by simp
qed simp

section \<open>The decoder returns\<close>

lemma move_forward_total: "0 < delta \<Longrightarrow> move_forward nbits delta ngamma s \<noteq> None"
  by (auto simp: move_forward_eq tighten_eq)

lemma fano_iter_total: "0 < delta \<Longrightarrow> fano_iter nbits delta s \<noteq> None"
  using move_forward_total by (auto simp: fano_iter_def Let_def split: prod.splits)

lemma fano_loop_total: "0 < delta \<Longrightarrow> fano_loop nbits delta todo i s \<noteq> None"
proof (induction todo arbitrary: i s)
  case (Suc todo)
  then show ?case
    using fano_iter_total [of delta nbits s] by (auto split: option.splits bool.splits)
qed simp

lemma fano_total:
  assumes "0 < delta"
  shows "fano fresh symbols nbits mettab delta maxcycles \<noteq> None"
proof (cases fresh)
  case (Some junk)
  then show ?thesis
    using fano_loop_total [OF assms, of nbits "(maxcycles * nbits) mod 2 ^ 32" 1
        "fano_start mettab symbols nbits junk"]
    by (auto simp: fano_def Let_def split: option.splits prod.splits)
qed (simp add: fano_def)

section \<open>What a returned path is\<close>

definition zero_tail :: "bool list \<Rightarrow> bool" where
  "zero_tail bits \<longleftrightarrow> 31 \<le> length bits \<and> drop (length bits - 31) bits = replicate 31 False"

lemma fano_final_path:
  assumes "fano_final mettab symbols nbits s" and "31 < nbits"
  defines "bits \<equiv> path_bits (nodes s) nbits"
  shows "length bits = nbits" and "zero_tail bits"
    and "gamma (nodes s ! np s) = path_metric mettab symbols (encode_bits 0 bits)"
    and "concat (map (\<lambda>k. byte_bits (ucast (encstate (nodes s ! (7 + 8 * k))))) [0..<nbits div 8])
           = take (8 * (nbits div 8)) bits"
proof -
  have arr: "array_ok mettab symbols nbits (nodes s)" and path: "path_ok nbits (nodes s) nbits"
    and np: "np s = nbits"
    using assms(1) by (auto simp: fano_final_def)
  show len: "length bits = nbits" by (simp add: bits_def path_bits_def)
  have "drop (length bits - 31) bits = replicate 31 False"
  proof (rule nth_equalityI)
    fix j assume "j < length (drop (length bits - 31) bits)"
    then have "nbits - 31 + j < nbits" and "j < 31" using assms(2) by (auto simp: len)
    then show "drop (length bits - 31) bits ! j = replicate 31 False ! j"
      using path_tail_zero [OF path, of "nbits - 31 + j"] by (simp add: len bits_def [symmetric])
  qed (use assms(2) len in simp)
  then show "zero_tail bits" using assms(2) len by (simp add: zero_tail_def)
  show "gamma (nodes s ! np s) = path_metric mettab symbols (encode_bits 0 bits)"
    using path_gamma [OF arr path order_refl order_refl] by (simp add: np bits_def)
  show "concat (map (\<lambda>k. byte_bits (ucast (encstate (nodes s ! (7 + 8 * k))))) [0..<nbits div 8])
           = take (8 * (nbits div 8)) bits"
    unfolding bits_def by (rule path_data [OF path]) simp
qed

section \<open>A clean reception is decoded without backing up\<close>

text \<open>Every received symbol pair has a nonnegative metric for the pair that was sent, and a strictly
  worse one for its complement.\<close>

definition clean_reception :: "metric_table \<Rightarrow> u8 list \<Rightarrow> nat list \<Rightarrow> bool" where
  "clean_reception mettab symbols sent \<longleftrightarrow>
     list_all (\<lambda>j.
       let r0 = symbols ! (2 * j); r1 = symbols ! (2 * j + 1); a = sent ! (2 * j); b = sent ! (2 * j + 1);
           m = mettab a r0 + mettab b r1
       in 0 \<le> m \<and> mettab (1 - a) r0 + mettab (1 - b) r1 < m) [0..<length sent div 2]"

lemma encode_bits_nth:
  assumes "j < length bs"
  shows "encode_bits 0 bs ! (2 * j) = tap POLY1 (conv_state (take (Suc j) bs))"
    and "encode_bits 0 bs ! (2 * j + 1) = tap POLY2 (conv_state (take (Suc j) bs))"
proof -
  let ?s = "conv_state (take j bs)" and ?e = "conv_state (take (Suc j) bs)"
  have "bs = take j bs @ bs ! j # drop (Suc j) bs"
    using assms by (rule id_take_nth_drop)
  then have split: "encode_bits 0 bs = encode_bits 0 (take j bs) @ encode_bits ?s (bs ! j # drop (Suc j) bs)"
    using encode_bits_append [of 0 "take j bs" "bs ! j # drop (Suc j) bs"] by simp
  have e: "conv_step ?s (bs ! j) = ?e"
    using assms by (simp add: take_Suc_conv_app_nth)
  have "encode_bits ?s (bs ! j # drop (Suc j) bs) =
      tap POLY1 ?e # tap POLY2 ?e # encode_bits ?e (drop (Suc j) bs)"
    unfolding encode_bits.simps Let_def e ENCODE_parts ..
  with split show "encode_bits 0 bs ! (2 * j) = tap POLY1 ?e"
    and "encode_bits 0 bs ! (2 * j + 1) = tap POLY2 ?e"
    using assms by (simp_all add: nth_append)
qed

lemma clean_metrics:
  assumes "clean_reception mettab symbols (encode_bits 0 bits)" and "j < length bits"
  defines "e \<equiv> conv_state (take (Suc j) bits)"
    and "ms \<equiv> branch_metrics mettab (symbols ! (2 * j)) (symbols ! (2 * j + 1))"
  shows "0 \<le> ms ! ENCODE e" and "ms ! ENCODE (e XOR 1) < ms ! ENCODE e"
proof -
  have flip: "tap POLY1 (e XOR 1) = 1 - tap POLY1 e" "tap POLY2 (e XOR 1) = 1 - tap POLY2 e"
    by (simp_all add: tap_flip polys_odd)
  have "j \<in> set [0..<length (encode_bits 0 bits) div 2]" using assms(2) by simp
  note at_j = assms(1)[unfolded clean_reception_def list_all_iff Let_def, rule_format, OF this,
      unfolded encode_bits_nth [OF assms(2)]]
  show "0 \<le> ms ! ENCODE e" "ms ! ENCODE (e XOR 1) < ms ! ENCODE e"
    using at_j unfolding ms_def branch_metrics_nth flip by (simp_all add: e_def)
qed

text \<open>The state after \<open>j\<close> forward moves along the sent bits.\<close>

definition on_course :: "bool list \<Rightarrow> nat \<Rightarrow> fano_state \<Rightarrow> bool" where
  "on_course bits j s \<longleftrightarrow>
     np s = j \<and> thr s \<le> gamma (nodes s ! j) \<and> branch (nodes s ! j) = 0 \<and>
     path_bits (nodes s) (Suc j) = take (Suc j) bits"

text \<open>A node written below the end of the tail gets the sent bit as its low bit.\<close>

lemma successor_bit:
  assumes "clean_reception mettab symbols (encode_bits 0 bits)" and "zero_tail bits"
    and "Suc j < length bits" and "encstate nd = conv_state (take (Suc j) bits)"
    and "metrics nxt = branch_metrics mettab (symbols ! (2 * Suc j)) (symbols ! (2 * Suc j + 1))"
  shows "bit (encstate (successor (length bits) g nd nxt (Suc j))) 0 = bits ! Suc j"
    and "branch (successor (length bits) g nd nxt (Suc j)) = 0"
proof -
  let ?n = "length bits" and ?e = "push_bit 1 (encstate nd)"
  have state: "conv_state (take (Suc (Suc j)) bits) = conv_step (encstate nd) (bits ! Suc j)"
    using assms(3,4) by (simp add: take_Suc_conv_app_nth)
  note clean = clean_metrics [OF assms(1,3)]
  have zero: "?e = conv_step (encstate nd) False" by (simp add: conv_step_def)
  have one: "?e XOR 1 = conv_step (encstate nd) True"
    using conv_step_flip [of "encstate nd" False] by (simp add: zero [symmetric])
  show "branch (successor ?n g nd nxt (Suc j)) = 0"
    using assms(3) by (simp add: successor_def Let_def)
  show "bit (encstate (successor ?n g nd nxt (Suc j))) 0 = bits ! Suc j"
  proof (cases "?n - 31 \<le> Suc j")
    case True
    have "bits ! Suc j = drop (?n - 31) bits ! (Suc j - (?n - 31))"
      using assms(3) True by (simp add: nth_drop)
    also have "\<dots> = False"
      using assms(2,3) True by (simp add: zero_tail_def)
    finally show ?thesis
      using True assms(3) even_push [of "encstate nd"] by (simp add: successor_def Let_def)
  next
    case False
    let ?ms = "metrics nxt"
    have e: "encstate (successor ?n g nd nxt (Suc j)) =
        (if ?ms ! ENCODE ?e > ?ms ! ENCODE (?e XOR 1) then ?e else ?e XOR 1)"
      using False assms(3) plus1_flip [OF even_push [of "encstate nd"]]
      by (simp add: successor_def sort_branches_def Let_def ENCODE_flip)
    have low: "\<not> bit ?e 0" "bit (?e XOR 1) 0"
      using even_push [of "encstate nd"] by (simp_all only: bit_xor_iff bit_1_iff simp_thms)
    have undo: "(?e XOR 1) XOR 1 = ?e" by (simp add: xor.assoc)
    show ?thesis
    proof (cases "bits ! Suc j")
      case True
      then have "?ms ! ENCODE ?e < ?ms ! ENCODE (?e XOR 1)"
        using clean(2) undo by (simp add: state assms(5) one [symmetric])
      then show ?thesis using True low e by simp
    next
      case False
      then have "?ms ! ENCODE (?e XOR 1) < ?ms ! ENCODE ?e"
        using clean(2) by (simp add: state assms(5) zero [symmetric])
      then show ?thesis using False low e by simp
    qed
  qed
qed

text \<open>One iteration on course moves forward.\<close>

lemma on_course_step:
  fixes bits
  defines "n \<equiv> length bits"
  assumes delta: "0 < delta" and tail: "zero_tail bits" "31 < n"
    and clean: "clean_reception mettab symbols (encode_bits 0 bits)"
    and inv: "fano_inv mettab symbols n s" and course: "on_course bits j s" and mx: "maxnp s \<le> j"
  shows "\<exists>s'. fano_iter n delta s = Some (s', Suc j = n) \<and> maxnp s' = j \<and>
    path_bits (nodes s') (Suc j) = take (Suc j) bits \<and> (Suc j < n \<longrightarrow> on_course bits (Suc j) s')"
proof -
  let ?nd = "nodes s ! j" and ?nxt = "nodes s ! Suc j"
  let ?g = "gamma ?nd + tm ?nd ! branch ?nd"
  let ?new = "successor n ?g ?nd ?nxt (Suc j)"
  have arr: "array_ok mettab symbols n (nodes s)" and path: "path_ok n (nodes s) j"
    and j: "j < n" and ok: "node_ok n j ?nd" and np: "np s = j"
    using inv course by (auto simp: fano_inv_def on_course_def)
  have t: "thr s \<le> gamma ?nd" and br: "branch ?nd = 0"
    and bits: "path_bits (nodes s) (Suc j) = take (Suc j) bits"
    using course by (auto simp: on_course_def)
  have len: "length (nodes s) = n + 1" and ms: "metrics ?nd = branch_metrics mettab (symbols ! (2 * j)) (symbols ! (2 * j + 1))"
    using arr j by (auto simp: array_ok_def)
  have e: "encstate ?nd = conv_state (take (Suc j) bits)"
    using path_encstate [OF path order_refl] bits by simp
  have "0 \<le> metrics ?nd ! ENCODE (encstate ?nd)"
    using clean_metrics(1) [OF clean, of j] j by (simp add: ms e n_def)
  then have g: "gamma ?nd \<le> ?g" using ok by (simp add: node_ok_def)
  have "(if gamma ?nd < thr s + delta then tighten delta ?g (thr s) else Some (thr s)) \<noteq> None"
    by (simp add: tighten_eq [OF delta])
  then obtain t' where
    t': "(if gamma ?nd < thr s + delta then tighten delta ?g (thr s) else Some (thr s)) = Some t'"
    by blast
  then have t'g: "t' \<le> ?g"
    using tighten_le [OF delta, of "thr s" ?g t'] t g by (auto split: if_splits)
  define s' where "s' = s\<lparr> maxnp := j, nodes := (nodes s)[Suc j := ?new], np := Suc j, thr := t' \<rparr>"
  have m: "(if np s > maxnp s then s\<lparr> maxnp := np s \<rparr> else s) = s\<lparr> maxnp := j \<rparr>"
    using mx np by (cases s) auto
  let ?s0 = "s\<lparr> maxnp := j \<rparr>"
  have t0: "(if gamma (nodes ?s0 ! np ?s0) < thr ?s0 + delta then tighten delta ?g (thr ?s0)
      else Some (thr ?s0)) = Some t'"
    using t' np by (auto split: if_splits)
  have mv: "move_forward n delta ?g ?s0 = Some (s', Suc j = n)"
    unfolding move_forward_eq t0 by (simp add: s'_def np)
  have "thr s \<le> ?g" using t g by linarith
  then have it: "fano_iter n delta s = Some (s', Suc j = n)"
    unfolding fano_iter_def Let_def m using np mv by simp
  have same: "path_bits (nodes s') (Suc j) = path_bits (nodes s) (Suc j)"
    by (simp add: path_bits_def s'_def)
  moreover have "on_course bits (Suc j) s'" if "Suc j < n"
  proof -
    have mnxt: "metrics ?nxt = branch_metrics mettab (symbols ! (2 * Suc j)) (symbols ! (2 * Suc j + 1))"
      using arr that by (simp add: array_ok_def)
    note sb = successor_bit [OF clean tail(1) that [unfolded n_def] e mnxt, of ?g, folded n_def]
    have "nodes s' ! Suc j = ?new" using j len by (simp add: s'_def)
    moreover have "gamma ?new = ?g"
      using successor_ok(2) array_okD(2) [OF arr, of "Suc j"] that by simp
    ultimately show ?thesis
      using sb t'g same bits that
      by (simp add: on_course_def path_bits_Suc [of _ "Suc j"] take_Suc_conv_app_nth n_def)
        (simp add: s'_def)
  qed
  ultimately show ?thesis using it bits by (auto simp: s'_def)
qed

lemma on_course_loop:
  fixes bits
  defines "n \<equiv> length bits"
  assumes delta: "0 < delta" and tail: "zero_tail bits" "31 < n"
    and clean: "clean_reception mettab symbols (encode_bits 0 bits)"
  shows "fano_inv mettab symbols n s \<Longrightarrow> on_course bits j s \<Longrightarrow> maxnp s \<le> j \<Longrightarrow>
    j < n \<Longrightarrow> n - j \<le> todo \<Longrightarrow>
    \<exists>s'. fano_loop n delta todo (Suc j) s = Some (s', True, n) \<and> maxnp s' = n - 1 \<and>
      path_bits (nodes s') n = bits"
proof (induction todo arbitrary: s j)
  case (Suc todo)
  obtain s1 where s1: "fano_iter n delta s = Some (s1, Suc j = n)" "maxnp s1 = j"
    "path_bits (nodes s1) (Suc j) = take (Suc j) bits" "Suc j < n \<longrightarrow> on_course bits (Suc j) s1"
    using on_course_step [OF delta tail(1) _ clean, folded n_def, OF tail(2) Suc.prems(1-3)] by auto
  show ?case
  proof (cases "Suc j = n")
    case True
    with s1 show ?thesis by (simp add: n_def)
  next
    case False
    then have "fano_inv mettab symbols n s1"
      using fano_iter_inv [OF Suc.prems(1) s1(1)] by simp
    with False s1 Suc.prems(4,5) Suc.IH [of s1 "Suc j"] show ?thesis by simp
  qed
qed simp

lemma on_course_start:
  fixes bits
  defines "n \<equiv> length bits"
  assumes tail: "31 < n" and clean: "clean_reception mettab symbols (encode_bits 0 bits)"
    and fresh: "fresh_nodes n junk"
  shows "on_course bits 0 (fano_start mettab symbols n junk)"
proof -
  let ?nds = "compute_metrics mettab symbols n junk"
  let ?r0 = "(?nds ! 0)\<lparr> encstate := 0 \<rparr>"
  have arr: "array_ok mettab symbols n ?nds" by (rule compute_metrics_ok [OF fresh])
  have ms: "metrics (?nds ! 0) = branch_metrics mettab (symbols ! (2 * 0)) (symbols ! (2 * 0 + 1))"
    and len: "0 < length ?nds"
    using arr tail by (simp_all add: array_ok_def)
  have first: "take (Suc 0) bits = [bits ! 0]" using tail by (cases bits) (auto simp: n_def)
  have st: "conv_state (take (Suc 0) bits) = of_bool (bits ! 0)"
    by (simp add: first conv_step_def)
  note cl = clean_metrics [OF clean, of 0, folded n_def, unfolded st ms [symmetric]]
  have x: "(1 :: u64) XOR 1 = 0" "(0 :: u64) XOR 1 = 1" by simp_all
  have flip0: "3 XOR ENCODE 0 = ENCODE 1" using ENCODE_flip [of 0] by (simp only: x)
  have "bit (encstate (sort_branches ?r0)) 0 = bits ! 0"
  proof (cases "bits ! 0")
    case True
    then have "metrics (?nds ! 0) ! ENCODE 0 < metrics (?nds ! 0) ! ENCODE 1"
      using cl(2) tail x by simp
    with True show ?thesis by (simp add: sort_branches_def Let_def flip0)
  next
    case False
    then have "metrics (?nds ! 0) ! ENCODE 1 < metrics (?nds ! 0) ! ENCODE 0"
      using cl(2) tail x by simp
    with False show ?thesis by (simp add: sort_branches_def Let_def flip0)
  qed
  then show ?thesis
    using len by (simp add: on_course_def fano_start_def Let_def path_bits_def first)
qed

lemma fano_clean:
  fixes bits
  defines "n \<equiv> length bits"
  assumes fresh: "fresh_nodes n junk" and delta: "0 < delta" and tail: "zero_tail bits" "31 < n"
    and clean: "clean_reception mettab symbols (encode_bits 0 bits)"
    and cycles: "n < (maxcycles * n) mod 2 ^ 32"
  shows "\<exists>r. fano (Some junk) symbols n mettab delta maxcycles = Some (Some r) \<and> ret r = 0
    \<and> res_cycles r = word_of_nat (n + 1) \<and> res_maxnp r = n - 1
    \<and> concat (map byte_bits (res_data r)) = take (8 * (n div 8)) bits"
proof -
  let ?s = "fano_start mettab symbols n junk" and ?c = "(maxcycles * n) mod 2 ^ 32"
  have inv: "fano_inv mettab symbols n ?s" by (rule fano_start_inv [OF fresh tail(2)])
  have mx: "maxnp ?s \<le> 0" by (simp add: fano_start_def Let_def)
  have "on_course bits 0 ?s"
    using on_course_start [of bits mettab symbols junk, folded n_def, OF tail(2) clean fresh] .
  then obtain s' where s': "fano_loop n delta ?c (Suc 0) ?s = Some (s', True, n)" "maxnp s' = n - 1"
    "path_bits (nodes s') n = bits"
    using on_course_loop [of delta bits mettab symbols ?s 0 ?c, folded n_def,
        OF delta tail clean inv _ mx] tail cycles by auto
  have "fano_final mettab symbols n s'"
    using fano_loop_final [OF s'(1) inv] by simp
  from fano_final_path(4) [OF this tail(2)] s' show ?thesis
    using cycles by (simp add: fano_def Let_def comp_def drop_bit_eq_div)
qed

section \<open>Properties\<close>


text \<open>A concrete packet: four bytes, received without noise.\<close>

definition clean_metric :: metric_table where
  "clean_metric b r = (if (b = 0) = (r < 128) then 1 else - 4)"

definition clean_symbols :: "u8 list \<Rightarrow> u8 list" where
  "clean_symbols data = map (\<lambda>b. if b = 0 then 0 else 255) (encode data)"

definition blank_node :: node where
  "blank_node = \<lparr> encstate = 7, gamma = 5, metrics = [], tm = [3, 4], branch = 9 \<rparr>"

lemma blank_fresh: "fresh_nodes n (replicate (n + 1) blank_node)"
  by (simp add: fresh_nodes_def blank_node_def)

lemma clean_example:
  "clean_reception clean_metric (clean_symbols [0xA5, 0x80, 0, 0, 0]) (encode [0xA5, 0x80, 0, 0, 0])"
  by code_simp

lemma clean_concrete: "zero_tail (take 40 (concat (map byte_bits [0xA5, 0x80, 0, 0, 0])))"
  by code_simp

lemma data_bits_inj: "concat (map byte_bits xs) = concat (map byte_bits ys) \<Longrightarrow> xs = ys"
proof (induction xs arbitrary: ys)
  case Nil
  then show ?case
    by (cases ys) (simp_all add: byte_bits_def)
next
  case (Cons x xs)
  then obtain y ys' where ys: "ys = y # ys'"
    by (cases ys) (simp_all add: byte_bits_def)
  with Cons.prems have "byte_bits x = byte_bits y" "concat (map byte_bits xs) = concat (map byte_bits ys')"
    by (simp_all add: append_eq_append_conv)
  with Cons.IH ys show ?case by (auto intro: byte_bits_inj)
qed

lemma data_bits_take: "take (8 * k) (concat (map byte_bits xs)) = concat (map byte_bits (take k xs))"
proof (induction xs arbitrary: k)
  case (Cons x xs)
  then show ?case by (cases k) simp_all
qed simp

lemma length_data_bits [simp]: "length (concat (map byte_bits xs)) = 8 * length xs"
  by (induction xs) simp_all

lemma encode_bits_take: "encode_bits s (take k bs) = take (2 * k) (encode_bits s bs)"
proof -
  have "encode_bits s bs = encode_bits s (take k bs) @ encode_bits (foldl conv_step s (take k bs)) (drop k bs)"
    using encode_bits_append [of s "take k bs" "drop k bs"] by simp
  then show ?thesis
    by (cases "k \<le> length bs") simp_all
qed

lemma fano_encode:
  assumes "fresh_nodes nbits junk" and "0 < delta" and "31 < nbits"
    and "nbits \<le> 8 * length data" and "zero_tail (take nbits (concat (map byte_bits data)))"
    and "clean_reception mettab symbols (take (2 * nbits) (encode data))"
    and "nbits < (maxcycles * nbits) mod 2 ^ 32"
  shows "\<exists>r. fano (Some junk) symbols nbits mettab delta maxcycles = Some (Some r)
    \<and> ret r = 0 \<and> res_data r = take (nbits div 8) data
    \<and> res_cycles r = word_of_nat (nbits + 1) \<and> res_maxnp r = nbits - 1"
proof -
  let ?bits = "take nbits (concat (map byte_bits data))"
  have len: "length ?bits = nbits" using assms(4) by simp
  have clean: "clean_reception mettab symbols (encode_bits 0 ?bits)"
    using assms(6) by (simp add: encode_bits_take encode_def)
  obtain r where r: "fano (Some junk) symbols nbits mettab delta maxcycles = Some (Some r)"
    "ret r = 0" "res_cycles r = word_of_nat (nbits + 1)" "res_maxnp r = nbits - 1"
    "concat (map byte_bits (res_data r)) = take (8 * (nbits div 8)) ?bits"
    using fano_clean [of ?bits, unfolded len, OF assms(1,2,5,3) clean assms(7)] by blast
  have "take (8 * (nbits div 8)) ?bits = concat (map byte_bits (take (nbits div 8) data))"
    by (simp add: data_bits_take [symmetric] min_def)
  with r show ?thesis using data_bits_inj by metis
qed

text \<open>
  The decoder inverts the encoder. If \<open>data\<close> is encoded by \<open>encode\<close>, the first \<open>nbits\<close> data bits
  end in the 31 zero bits of the tail, and the received symbols favour at each of the \<open>nbits\<close> symbol
  pairs the pair that was sent, then \<open>fano\<close> with any positive \<open>delta\<close> returns 0 and the data, whatever
  the allocated nodes contain, and it does so in \<open>nbits\<close> forward moves without backing up.
\<close>

theorem fano_encode_roundtrip:
  assumes "fresh_nodes nbits junk" and "0 < delta" and "31 < nbits"
    and "nbits \<le> 8 * length data" and "zero_tail (take nbits (concat (map byte_bits data)))"
    and "clean_reception mettab symbols (take (2 * nbits) (encode data))"
    and "nbits < (maxcycles * nbits) mod 2 ^ 32"
  shows "\<exists>r. fano (Some junk) symbols nbits mettab delta maxcycles = Some (Some r)
    \<and> ret r = 0 \<and> res_data r = take (nbits div 8) data
    \<and> res_cycles r = word_of_nat (nbits + 1) \<and> res_maxnp r = nbits - 1"
  by (rule fano_encode [OF assms])

text \<open>
  The loop that tightens the threshold ends for every positive \<open>delta\<close>, and computes what the
  comment beside it claims: \<open>t += delta * ((ngamma - t) / delta)\<close>.
\<close>

theorem fano_threshold:
  assumes "0 < delta" and "t \<le> ngamma"
  shows "tighten delta ngamma t = Some (t + delta * ((ngamma - t) div delta))"
proof (cases "ngamma \<ge> t + delta")
  case False
  then have "(ngamma - t) div delta = 0"
    using assms by (simp add: div_pos_pos_trivial)
  with False show ?thesis using tighten_eq [OF assms(1)] by simp
qed (use tighten_eq [OF assms(1)] in simp)

section \<open>Witnesses\<close>

theorem fano_threshold_witness: "tighten 60 250 0 = Some 240"
  using fano_threshold [of 60 0 250] by simp

theorem fano_encode_roundtrip_witness:
  "\<exists>r. fano (Some (replicate 41 blank_node)) (clean_symbols [0xA5, 0x80, 0, 0, 0]) 40 clean_metric 60 10000
     = Some (Some r) \<and> ret r = 0 \<and> res_data r = [0xA5, 0x80, 0, 0, 0]
     \<and> res_cycles r = 41 \<and> res_maxnp r = 39"
proof -
  have len: "take (2 * 40) (encode [0xA5, 0x80, 0, 0, 0]) = encode [0xA5, 0x80, 0, 0, 0]"
    by (simp add: encode_def)
  show ?thesis
    using fano_encode_roundtrip [of 40 "replicate 41 blank_node" 60 "[0xA5, 0x80, 0, 0, 0]" clean_metric
        "clean_symbols [0xA5, 0x80, 0, 0, 0]" 10000, unfolded len, OF _ _ _ _ clean_concrete clean_example]
      blank_fresh [of 40]
    by simp
qed


end
