(* ===== verification/WsprLink.thy ===== *)
theory WsprLink
  imports WsprMessage Fano
begin

text \<open>
  The WSPR link from text to text: the transmitter's channel symbols (\<open>get_wspr_channel_symbols\<close>), and
  the receiver's hard part in \<open>core/wsprd.c\<close>: deinterleaving, the Fano decoder with the parameters
  of \<open>main\<close>, and unpacking.
\<close>

definition WSPR_NBITS :: nat where "WSPR_NBITS = 81"
definition WSPR_DELTA :: int where "WSPR_DELTA = 60"
definition WSPR_MAXCYCLES :: nat where "WSPR_MAXCYCLES = 10000"

text \<open>\<open>deinterleave (symbols)\<close> and \<open>fano (...)\<close> on 162 soft symbols.\<close>

definition fano_decode :: "u8 list \<Rightarrow> node list \<Rightarrow> metric_table \<Rightarrow> u8 list \<Rightarrow> fano_result option option" where
  "fano_decode junk fresh mettab symbols =
     (case deinterleave junk symbols of
        None \<Rightarrow> None
      | Some symbols \<Rightarrow> fano (Some fresh) symbols WSPR_NBITS mettab WSPR_DELTA WSPR_MAXCYCLES)"

text \<open>Every soft symbol favours the data bit of the channel symbol sent.\<close>

definition favoured :: "metric_table \<Rightarrow> u8 list \<Rightarrow> u8 list \<Rightarrow> bool" where
  "favoured mettab channel soft \<longleftrightarrow> list_all (\<lambda>i.
     let b = unat (channel ! i) div 2
     in 0 \<le> mettab b (soft ! i) \<and> mettab (1 - b) (soft ! i) < mettab b (soft ! i)) [0..<162]"

section \<open>The packed message ends in the tail of the code\<close>

lemma byte_bits_zero: "byte_bits 0 = replicate 8 False"
  by (simp add: byte_bits_def numeral_eq_Suc)

lemma pack50_tail: "zero_tail (take 81 (concat (map byte_bits (pack50 n m))))"
proof -
  have low: "byte_bits (word_of_int (push_bit 6 (m AND 0x03))) = [bit m 1, bit m 0] @ replicate 6 False"
  proof -
    have "m AND 3 = take_bit 2 m" by (simp add: take_bit_eq_mask mask_eq_exp_minus_1)
    then have "bit (word_of_int (push_bit 6 (m AND 3)) :: u8) k \<longleftrightarrow> k < 8 \<and> 6 \<le> k \<and> k - 6 < 2 \<and> bit m (k - 6)" for k
      by (simp only: bit_word_of_int_iff bit_push_bit_iff bit_take_bit_iff) auto
    then show ?thesis by (simp add: byte_bits_def numeral_eq_Suc)
  qed
  obtain b0 b1 b2 b3 b4 b5 where d: "pack50 n m =
      [b0, b1, b2, b3, b4, b5] @ [word_of_int (push_bit 6 (m AND 0x03))] @ replicate 4 0"
    by (simp add: pack50_def numeral_eq_Suc)
  let ?head = "concat (map byte_bits [b0, b1, b2, b3, b4, b5])"
  have len: "length ?head = 48" by (simp only: length_data_bits) simp
  have "concat (map byte_bits (pack50 n m)) = ?head @ [bit m 1, bit m 0] @ replicate 38 False"
    unfolding d map_append concat_append list.map concat.simps low map_replicate
    by (simp add: byte_bits_zero numeral_eq_Suc)
  then show ?thesis
    using len by (simp add: zero_tail_def)
qed

lemma length_pack50: "length (pack50 n m) = 11"
  by (simp add: pack50_def)


section \<open>From text to text\<close>

lemma unpack50_prefix: "7 \<le> length xs \<Longrightarrow> take 7 xs = take 7 ys \<Longrightarrow> 7 \<le> length ys \<Longrightarrow> unpack50 xs = unpack50 ys"
proof -
  assume a: "7 \<le> length xs" "take 7 xs = take 7 ys" "7 \<le> length ys"
  have "xs ! k = ys ! k" if "k < 7" for k
    using a that nth_take [OF that, of xs] nth_take [OF that, of ys] by simp
  then show ?thesis by (simp add: unpack50_def Let_def)
qed

lemma unpk_prefix:
  "7 \<le> length xs \<Longrightarrow> take 7 xs = take 7 ys \<Longrightarrow> 7 \<le> length ys \<Longrightarrow> unpk xs tabs clp call = unpk ys tabs clp call"
  using unpack50_prefix [of xs ys] by (simp add: unpk_def)

lemma encode_01: "list_all (\<lambda>b. b < 2) (encode_bits s bs)"
proof (induction bs arbitrary: s)
  case (Cons b bs)
  have t: "tap poly e < 2" for poly e using tap_cases [of poly e] by auto
  have "encode_bits s (b # bs) = tap POLY1 (conv_step s b) # tap POLY2 (conv_step s b) # encode_bits (conv_step s b) bs"
    unfolding encode_bits.simps Let_def ENCODE_parts ..
  then show ?case using Cons t by simp
qed simp

lemma pr3_01: "list_all (\<lambda>b. b = 0 \<or> b = 1) pr3" "length pr3 = 162"
  by (simp_all add: pr3_def)

text \<open>The receiver's decoder, on soft symbols that favour the channel symbols of a packed message.\<close>

lemma link_decode:
  assumes junk: "length junk = 162" "length junk' = 162" and fresh: "fresh_nodes 81 fresh"
    and chan: "interleave junk (map of_nat (encode (pack50 n m))) = Some bits"
      "channel = map (\<lambda>i. 2 * bits ! i + pr3 ! i) [0..<162]"
    and soft: "length soft = 162" "favoured mettab channel soft"
  shows "\<exists>r. fano_decode junk' fresh mettab soft = Some (Some r) \<and> ret r = 0 \<and> res_data r = take 10 (pack50 n m)"
proof -
  let ?enc = "encode (pack50 n m)"
  have lenc: "length ?enc = 176" by (simp add: encode_def length_pack50)
  have at: "\<forall>p < 162. bits ! (positions ! p) = of_nat (?enc ! p)"
    using interleave_result [OF junk(1), of "map of_nat ?enc"] chan(1) lenc by auto
  define rx where "rx = map (\<lambda>p. soft ! (positions ! p)) [0..<162] @ drop 162 soft"
  have de: "deinterleave junk' soft = Some rx" unfolding rx_def by (rule deinterleave_result [OF junk(2)])
  have sent: "unat (channel ! (positions ! p)) div 2 = ?enc ! p" if "p < 162" for p
  proof -
    have b: "?enc ! p < 2" using encode_01 lenc that by (simp add: encode_def list_all_length)
    have "pr3 ! (positions ! p) = 0 \<or> pr3 ! (positions ! p) = 1"
      using pr3_01 positions_nth_less [OF that] by (simp add: list_all_length)
    moreover have "?enc ! p = 0 \<or> ?enc ! p = 1" using b by linarith
    ultimately show ?thesis
      using at that positions_nth_less [OF that] by (auto simp: chan(2))
  qed
  have good: "0 \<le> mettab (?enc ! p) (rx ! p) \<and> mettab (1 - ?enc ! p) (rx ! p) < mettab (?enc ! p) (rx ! p)"
    if "p < 162" for p
  proof -
    have "positions ! p \<in> set [0..<162]" using positions_nth_less [OF that] by simp
    note here = soft(2) [unfolded favoured_def list_all_iff Let_def, rule_format, OF this, unfolded sent [OF that]]
    have "rx ! p = soft ! (positions ! p)" using that by (simp add: rx_def nth_append)
    then show ?thesis using here by metis
  qed
  have "clean_reception mettab rx (take (2 * 81) ?enc)"
    unfolding clean_reception_def list_all_iff
  proof
    fix j assume "j \<in> set [0..<length (take (2 * 81) ?enc) div 2]"
    then have j: "2 * j < 162" "2 * j + 1 < 162" using lenc by auto
    show "let r0 = rx ! (2 * j); r1 = rx ! (2 * j + 1); a = take (2 * 81) ?enc ! (2 * j);
        b = take (2 * 81) ?enc ! (2 * j + 1); m = mettab a r0 + mettab b r1
      in 0 \<le> m \<and> mettab (1 - a) r0 + mettab (1 - b) r1 < m"
      using good [OF j(1)] good [OF j(2)] j by (auto simp: Let_def)
  qed
  then show ?thesis
    using fano_encode [OF fresh, of 60 "pack50 n m" mettab rx 10000] pack50_tail [of n m]
    by (auto simp: fano_decode_def de WSPR_NBITS_def WSPR_DELTA_def WSPR_MAXCYCLES_def length_pack50)
qed


lemma link_type1:
  assumes "wspr_call s" and "3 \<le> length s" and "wspr_grid g" and "good_power p"
    and "23 \<le> length clp0" and "13 \<le> length call0" and "23 \<le> length clp" and "13 \<le> length call"
    and "length junk = 162" and "length junk' = 162" and "fresh_nodes 81 fresh"
  shows "\<exists>channel tabs'. get_wspr_channel_symbols clp0 call0 junk (type1_text s g (fmt_int p)) tabs
      = Some (Some (channel, tabs')) \<and> length channel = 162 \<and>
    (\<forall>soft. length soft = 162 \<and> favoured mettab channel soft \<longrightarrow>
      (\<exists>r out. fano_decode junk' fresh mettab soft = Some (Some r) \<and> ret r = 0 \<and>
        unpk (res_data r @ [d10]) rtabs clp call = Some out \<and> \<not> noprint out \<and>
        cstr (call_loc_pow out) = type1_text s g (cdbm p) \<and> cstr (callsign out) = s))"
proof -
  obtain N q where Nq: "N < 262177560" "q < 32400" "unpackcall N = (True, pad_right 7 NUL s)"
    "\<forall>r < 128. unpackgrid (q * 128 + r) = (True, g)"
    and pack: "pack_message (type1_text s g (fmt_int p)) =
       Some (Some (word_of_nat N, int (q * 128 + nat (p + 64))))"
    using pack_type1_value [OF assms(1,3,4)] pack_message_type1 [OF assms(1-4)] by metis
  let ?data = "pack50 (word_of_nat N) (int (q * 128 + nat (p + 64)))"
  note rx = unpk_type1_message [OF assms(1,3,4) Nq(1,3,2,4)]
  obtain out0 where out0: "unpk ?data tabs clp0 call0 = Some out0" using rx [OF assms(5,6)] by blast
  obtain bits where bits: "interleave junk (map of_nat (encode ?data)) = Some bits"
    using interleave_result [OF assms(9)] by blast
  define channel where "channel = map (\<lambda>i. 2 * bits ! i + pr3 ! i) [0..<162]"
  have tx: "get_wspr_channel_symbols clp0 call0 junk (type1_text s g (fmt_int p)) tabs
      = Some (Some (channel, tables out0))"
    using bits out0 by (simp add: get_wspr_channel_symbols_def pack Let_def channel_def)
  have "\<exists>r out. fano_decode junk' fresh mettab soft = Some (Some r) \<and> ret r = 0 \<and>
        unpk (res_data r @ [d10]) rtabs clp call = Some out \<and> \<not> noprint out \<and>
        cstr (call_loc_pow out) = type1_text s g (cdbm p) \<and> cstr (callsign out) = s"
    if soft: "length soft = 162" "favoured mettab channel soft" for soft
  proof -
    obtain r where r: "fano_decode junk' fresh mettab soft = Some (Some r)" "ret r = 0"
      "res_data r = take 10 ?data"
      using link_decode [OF assms(9-11) bits channel_def soft] by blast
    have "unpk (res_data r @ [d10]) rtabs clp call = unpk ?data rtabs clp call"
      by (rule unpk_prefix) (simp_all add: r(3) length_pack50)
    then show ?thesis using r rx [OF assms(7,8), of rtabs] by metis
  qed
  then show ?thesis using tx by (auto simp: channel_def)
qed

text \<open>
  The link works end to end. For every valid type 1 text the transmitter produces 162 channel symbols,
  and for all soft symbols that favour the data bits of these, whatever the decoder's memory
  and scratch arrays contain, deinterleaving, Fano decoding and unpacking at a receiver with
  any tables report the callsign, the locator and the power that were sent.
\<close>

theorem wspr_link:
  assumes "wspr_call s" and "3 \<le> length s" and "wspr_grid g" and "good_power p"
    and "23 \<le> length clp0" and "13 \<le> length call0" and "23 \<le> length clp" and "13 \<le> length call"
    and "length junk = 162" and "length junk' = 162" and "fresh_nodes 81 fresh"
  shows "\<exists>channel tabs'. get_wspr_channel_symbols clp0 call0 junk (type1_text s g (fmt_int p)) tabs
      = Some (Some (channel, tabs')) \<and> length channel = 162 \<and>
    (\<forall>soft. length soft = 162 \<and> favoured mettab channel soft \<longrightarrow>
      (\<exists>r out. fano_decode junk' fresh mettab soft = Some (Some r) \<and> ret r = 0 \<and>
        unpk (res_data r @ [d10]) rtabs clp call = Some out \<and> \<not> noprint out \<and>
        cstr (call_loc_pow out) = type1_text s g (cdbm p) \<and> cstr (callsign out) = s))"
  by (rule link_type1 [OF assms])

theorem wspr_link_witness:
  "\<exists>channel tabs'. get_wspr_channel_symbols (replicate 23 NUL) (replicate 13 NUL) (replicate 162 3) ''K1ABC FN42 37''
      \<lparr> hashtab = (\<lambda>_. []), loctab = (\<lambda>_. []) \<rparr> = Some (Some (channel, tabs')) \<and>
    (\<exists>r out. fano_decode (replicate 162 5) (replicate 82 blank_node) clean_metric
         (map (\<lambda>c. if c < 2 then 0 else 255) channel) = Some (Some r) \<and> ret r = 0 \<and>
       unpk (res_data r @ [0]) \<lparr> hashtab = (\<lambda>_. []), loctab = (\<lambda>_. []) \<rparr> (replicate 23 NUL) (replicate 13 NUL) = Some out
       \<and> cstr (call_loc_pow out) = ''K1ABC FN42 37'')"
proof -
  have "wspr_call ''K1ABC''" "wspr_grid ''FN42''" "good_power 37" by code_simp+
  moreover have "fmt_int 37 = ''37''" "cdbm 37 = ''37''" by code_simp+
  moreover have "fresh_nodes 81 (replicate 82 blank_node)" using blank_fresh [of 81] by simp
  moreover have fav: "favoured clean_metric channel (map (\<lambda>c. if c < 2 then 0 else 255) channel)"
    if "length channel = 162" for channel
    unfolding favoured_def list_all_iff
  proof
    fix i assume "i \<in> set [0..<162 :: nat]"
    then have i: "i < length channel" using that by simp
    have "unat (channel ! i) div 2 = 0 \<longleftrightarrow> channel ! i < 2" by (auto simp: word_less_nat_alt)
    then show "let b = unat (channel ! i) div 2
      in 0 \<le> clean_metric b (map (\<lambda>c. if c < 2 then 0 else 255) channel ! i) \<and>
         clean_metric (1 - b) (map (\<lambda>c. if c < 2 then 0 else 255) channel ! i)
           < clean_metric b (map (\<lambda>c. if c < 2 then 0 else 255) channel ! i)"
      using i by (auto simp: clean_metric_def Let_def)
  qed
  ultimately obtain channel tabs' where ch: "get_wspr_channel_symbols (replicate 23 NUL) (replicate 13 NUL) (replicate 162 3)
      ''K1ABC FN42 37'' \<lparr> hashtab = (\<lambda>_. []), loctab = (\<lambda>_. []) \<rparr> = Some (Some (channel, tabs'))"
    "length channel = 162"
    "\<forall>soft. length soft = 162 \<and> favoured clean_metric channel soft \<longrightarrow>
      (\<exists>r out. fano_decode (replicate 162 5) (replicate 82 blank_node) clean_metric soft = Some (Some r) \<and> ret r = 0 \<and>
        unpk (res_data r @ [0]) \<lparr> hashtab = (\<lambda>_. []), loctab = (\<lambda>_. []) \<rparr> (replicate 23 NUL) (replicate 13 NUL) = Some out \<and>
        \<not> noprint out \<and> cstr (call_loc_pow out) = ''K1ABC FN42 37'' \<and> cstr (callsign out) = ''K1ABC'')"
    using wspr_link [of "''K1ABC''" "''FN42''" 37 "replicate 23 NUL" "replicate 13 NUL" "replicate 23 NUL" "replicate 13 NUL"
        "replicate 162 3" "replicate 162 5" "replicate 82 blank_node"
        "\<lparr> hashtab = (\<lambda>_. []), loctab = (\<lambda>_. []) \<rparr>" clean_metric 0 "\<lparr> hashtab = (\<lambda>_. []), loctab = (\<lambda>_. []) \<rparr>"]
    by (auto simp: type1_text_def)
  show ?thesis
    using ch(1) ch(3) [rule_format, of "map (\<lambda>c. if c < 2 then 0 else 255) channel"] fav [OF ch(2)] ch(2) by auto
qed

end
