(* ===== verification/FtxText.thy ===== *)
theory FtxText
  imports CText
begin

text \<open>
  \<open>ft8_lib/ft8/text.c\<close>: strings, the two-digit numbers and the character tables of FT8 messages.
  A \<open>const char *\<close> argument is the string it points to; a result that points into an argument is
  the rest of the string from there on.
\<close>

section \<open>Blanks\<close>

definition trim_front :: "string \<Rightarrow> string" where
  "trim_front str = dropWhile (\<lambda>c. c = CHR '' '') str"

text \<open>The loop of \<open>trim_back\<close> overwrites blanks from the end on.\<close>

fun trim_back_loop :: "string \<Rightarrow> nat \<Rightarrow> string" where
  "trim_back_loop str 0 = []"
| "trim_back_loop str (Suc idx) =
     (if str ! idx = CHR '' '' then trim_back_loop str idx else take (Suc idx) str)"

definition trim_back :: "string \<Rightarrow> string" where
  "trim_back str = trim_back_loop str (length str)"

definition trim :: "string \<Rightarrow> string" where
  "trim str = trim_back (trim_front str)"

definition trim_copy :: "string \<Rightarrow> string" where
  "trim_copy str = (let str = trim_front str in take (length (trim_back_loop str (length str))) str)"

section \<open>Characters\<close>

definition is_digit :: "char \<Rightarrow> bool" where "is_digit c \<longleftrightarrow> in_span 48 57 c"

definition is_letter :: "char \<Rightarrow> bool" where
  "is_letter c \<longleftrightarrow> in_span 65 90 c \<or> in_span 97 122 c"

definition is_space :: "char \<Rightarrow> bool" where "is_space c \<longleftrightarrow> c = CHR '' ''"

definition to_upper :: "char \<Rightarrow> char" where
  "to_upper c = (if in_span 97 122 c then char_of (code c - 97 + 65) else c)"

definition in_range :: "char \<Rightarrow> char \<Rightarrow> char \<Rightarrow> bool" where
  "in_range c lo hi \<longleftrightarrow> code lo \<le> code c \<and> code c \<le> code hi"

text \<open>\<open>memcmp\<close> over the length of the second string.\<close>

definition starts_with :: "string \<Rightarrow> string \<Rightarrow> bool" where
  "starts_with str pfx \<longleftrightarrow> take (length pfx) str = pfx"

definition ends_with :: "string \<Rightarrow> string \<Rightarrow> bool" where
  "ends_with str suffix \<longleftrightarrow> length suffix \<le> length str \<and> drop (length str - length suffix) str = suffix"

definition equals :: "string \<Rightarrow> string \<Rightarrow> bool" where "equals s t \<longleftrightarrow> s = t"

section \<open>Messages and tokens\<close>

text \<open>\<open>last_out\<close> is 0 before the first character.\<close>

fun fmtmsg_loop :: "char \<Rightarrow> string \<Rightarrow> string" where
  "fmtmsg_loop last_out [] = []"
| "fmtmsg_loop last_out (c # cs) =
     (if c \<noteq> CHR '' '' \<or> last_out \<noteq> CHR '' '' then to_upper c # fmtmsg_loop (to_upper c) cs
      else fmtmsg_loop last_out cs)"

definition fmtmsg :: "string \<Rightarrow> string" where
  "fmtmsg msg_in = fmtmsg_loop NUL msg_in"

definition append_string :: "string \<Rightarrow> string \<Rightarrow> string" where
  "append_string str token = str @ token"

text \<open>The token array of \<open>len\<close> characters, and the rest of the string.\<close>

fun copy_token :: "nat \<Rightarrow> string \<Rightarrow> char list \<times> string" where
  "copy_token len [] = (replicate len NUL, [])"
| "copy_token len (c # cs) =
     (if c \<noteq> CHR '' '' then
        (case copy_token (len - 1) cs of (token, rest) \<Rightarrow> (if 0 < len then c # token else token, rest))
      else (replicate len NUL, trim_front (c # cs)))"

section \<open>Numbers\<close>

text \<open>The digits are read up to position \<open>len\<close>, the end of the string or another character.\<close>

fun dd_loop :: "nat \<Rightarrow> string \<Rightarrow> int \<Rightarrow> int" where
  "dd_loop 0 str result = result"
| "dd_loop (Suc n) [] result = result"
| "dd_loop (Suc n) (c # cs) result =
     (if \<not> is_digit c then result else dd_loop n cs (result * 10 + (int (code c) - 48)))"

definition dd_to_int :: "string \<Rightarrow> nat \<Rightarrow> int" where
  "dd_to_int str len =
     (if str \<noteq> [] \<and> hd str = CHR ''-'' then - dd_loop (len - 1) (tl str) 0
      else if str \<noteq> [] \<and> hd str = CHR ''+'' then dd_loop (len - 1) (tl str) 0
      else dd_loop len str 0)"

fun dd_digits :: "nat \<Rightarrow> nat \<Rightarrow> string" where
  "dd_digits divisor val =
     (if divisor \<ge> 1 then
        let digit = val div divisor
        in char_of (48 + digit) # dd_digits (divisor div 10) (val - digit * divisor)
      else [])"

declare dd_digits.simps [simp del]

definition int_to_dd :: "int \<Rightarrow> nat \<Rightarrow> bool \<Rightarrow> string" where
  "int_to_dd val width full_sign =
     (let sign = (if val < 0 then ''-'' else if full_sign then ''+'' else '''')
      in sign @ dd_digits (10 ^ (width - 1)) (nat \<bar>val\<bar>))"

section \<open>Character tables\<close>

datatype ft8_char_table =
  TABLE_FULL | TABLE_ALPHANUM_SPACE_SLASH | TABLE_ALPHANUM_SPACE | TABLE_LETTERS_SPACE
| TABLE_ALPHANUM | TABLE_NUMERIC

text \<open>For a non-negative index. \<open>c -= k\<close> happens only when \<open>c \<ge> k\<close>.\<close>

definition charn :: "nat \<Rightarrow> ft8_char_table \<Rightarrow> char" where
  "charn c table =
     (if table \<noteq> TABLE_ALPHANUM \<and> table \<noteq> TABLE_NUMERIC \<and> c = 0 then CHR '' ''
      else
        let c = (if table \<noteq> TABLE_ALPHANUM \<and> table \<noteq> TABLE_NUMERIC then c - 1 else c)
        in if table \<noteq> TABLE_LETTERS_SPACE \<and> c < 10 then char_of (48 + c)
           else
             let c = (if table \<noteq> TABLE_LETTERS_SPACE then c - 10 else c)
             in if table \<noteq> TABLE_NUMERIC \<and> c < 26 then char_of (65 + c)
                else
                  let c = (if table \<noteq> TABLE_NUMERIC then c - 26 else c)
                  in if table = TABLE_FULL \<and> c < 5 then ''+-./?'' ! c
                     else if table = TABLE_ALPHANUM_SPACE_SLASH \<and> c = 0 then CHR ''/''
                     else CHR ''_'')"

definition nchar :: "char \<Rightarrow> ft8_char_table \<Rightarrow> int" where
  "nchar c table =
     (let n = 0 in
      if table \<noteq> TABLE_ALPHANUM \<and> table \<noteq> TABLE_NUMERIC \<and> c = CHR '' '' then n
      else
        let n = (if table \<noteq> TABLE_ALPHANUM \<and> table \<noteq> TABLE_NUMERIC then n + 1 else n)
        in if table \<noteq> TABLE_LETTERS_SPACE \<and> in_span 48 57 c then n + (int (code c) - 48)
           else
             let n = (if table \<noteq> TABLE_LETTERS_SPACE then n + 10 else n)
             in if table \<noteq> TABLE_NUMERIC \<and> in_span 65 90 c then n + (int (code c) - 65)
                else
                  let n = (if table \<noteq> TABLE_NUMERIC then n + 26 else n)
                  in if table = TABLE_FULL then
                       (if c = CHR ''+'' then n else if c = CHR ''-'' then n + 1
                        else if c = CHR ''.'' then n + 2 else if c = CHR ''/'' then n + 3
                        else if c = CHR ''?'' then n + 4 else - 1)
                     else if table = TABLE_ALPHANUM_SPACE_SLASH \<and> c = CHR ''/'' then n
                     else - 1)"

text \<open>The tables as the comments beside the enumeration give them.\<close>

fun table_chars :: "ft8_char_table \<Rightarrow> string" where
  "table_chars TABLE_FULL = '' 0123456789ABCDEFGHIJKLMNOPQRSTUVWXYZ+-./?''"
| "table_chars TABLE_ALPHANUM_SPACE_SLASH = '' 0123456789ABCDEFGHIJKLMNOPQRSTUVWXYZ/''"
| "table_chars TABLE_ALPHANUM_SPACE = '' 0123456789ABCDEFGHIJKLMNOPQRSTUVWXYZ''"
| "table_chars TABLE_LETTERS_SPACE = '' ABCDEFGHIJKLMNOPQRSTUVWXYZ''"
| "table_chars TABLE_ALPHANUM = ''0123456789ABCDEFGHIJKLMNOPQRSTUVWXYZ''"
| "table_chars TABLE_NUMERIC = ''0123456789''"

section \<open>The tables\<close>

lemma charn_table:
  "list_all (\<lambda>t. map (\<lambda>c. charn c t) [0..<length (table_chars t)] = table_chars t)
     [TABLE_FULL, TABLE_ALPHANUM_SPACE_SLASH, TABLE_ALPHANUM_SPACE, TABLE_LETTERS_SPACE, TABLE_ALPHANUM, TABLE_NUMERIC]"
  by code_simp

lemma nchar_table:
  "list_all (\<lambda>t. map (\<lambda>c. nchar c t) (table_chars t) = map int [0..<length (table_chars t)])
     [TABLE_FULL, TABLE_ALPHANUM_SPACE_SLASH, TABLE_ALPHANUM_SPACE, TABLE_LETTERS_SPACE, TABLE_ALPHANUM, TABLE_NUMERIC]"
  by code_simp

lemma span_table:
  "list_all (\<lambda>t.
     (t \<noteq> TABLE_LETTERS_SPACE \<longrightarrow> list_all (\<lambda>c. c \<in> set (table_chars t)) (map char_of [48..<Suc 57])) \<and>
     (t \<noteq> TABLE_NUMERIC \<longrightarrow> list_all (\<lambda>c. c \<in> set (table_chars t)) (map char_of [65..<Suc 90])))
     [TABLE_FULL, TABLE_ALPHANUM_SPACE_SLASH, TABLE_ALPHANUM_SPACE, TABLE_LETTERS_SPACE, TABLE_ALPHANUM, TABLE_NUMERIC]"
  by code_simp

lemma all_tables:
  "list_all P [TABLE_FULL, TABLE_ALPHANUM_SPACE_SLASH, TABLE_ALPHANUM_SPACE, TABLE_LETTERS_SPACE, TABLE_ALPHANUM, TABLE_NUMERIC]
   \<longleftrightarrow> (\<forall>t. P t)"
proof
  assume p: "list_all P [TABLE_FULL, TABLE_ALPHANUM_SPACE_SLASH, TABLE_ALPHANUM_SPACE, TABLE_LETTERS_SPACE,
      TABLE_ALPHANUM, TABLE_NUMERIC]"
  have "P t" for t using p by (cases t) simp_all
  then show "\<forall>t. P t" by blast
qed simp

lemma span_mem: "in_span lo hi c \<Longrightarrow> c \<in> set (map char_of [lo..<Suc hi])"
proof -
  assume "in_span lo hi c"
  then have "code c \<in> set [lo..<Suc hi]" by (auto simp: in_span_def)
  moreover have "c = char_of (code c)" by simp
  ultimately show ?thesis by (metis image_eqI list.set_map)
qed

lemma nchar_member: "nchar c t \<noteq> - 1 \<Longrightarrow> c \<in> set (table_chars t)"
proof -
  assume n: "nchar c t \<noteq> - 1"
  have span: "t \<noteq> TABLE_LETTERS_SPACE \<Longrightarrow> in_span 48 57 c \<Longrightarrow> c \<in> set (table_chars t)"
    "t \<noteq> TABLE_NUMERIC \<Longrightarrow> in_span 65 90 c \<Longrightarrow> c \<in> set (table_chars t)"
    using span_table [unfolded all_tables] span_mem [of 48 57 c] span_mem [of 65 90 c]
    unfolding list_all_iff by blast+
  show ?thesis
    using n span by (cases t) (auto simp: nchar_def Let_def split: if_splits)
qed

lemma charn_nth: "c < length (table_chars t) \<Longrightarrow> charn c t = table_chars t ! c"
proof -
  assume "c < length (table_chars t)"
  then have "map (\<lambda>c. charn c t) [0..<length (table_chars t)] ! c = charn c t" by simp
  then show ?thesis using charn_table [unfolded all_tables] by simp
qed

lemma nchar_nth: "c < length (table_chars t) \<Longrightarrow> nchar (table_chars t ! c) t = int c"
proof -
  assume c: "c < length (table_chars t)"
  then have "map (\<lambda>c. nchar c t) (table_chars t) ! c = nchar (table_chars t ! c) t" by simp
  moreover have "map int [0..<length (table_chars t)] ! c = int c" using c by simp
  ultimately show ?thesis using nchar_table [unfolded all_tables] by metis
qed

text \<open>The direction used by the unpackers: a character is its index again.\<close>

lemma charn_nchar: "0 \<le> nchar ch t \<Longrightarrow> nat (nchar ch t) < length (table_chars t) \<and> charn (nat (nchar ch t)) t = ch"
proof -
  assume "0 \<le> nchar ch t"
  then have "ch \<in> set (table_chars t)" by (intro nchar_member) simp
  then obtain c where "c < length (table_chars t)" "table_chars t ! c = ch" by (auto simp: in_set_conv_nth)
  then show ?thesis using nchar_nth [of c t] charn_nth [of c t] by simp
qed

lemma nchar_range: "nchar ch t = - 1 \<or> (0 \<le> nchar ch t \<and> nchar ch t < int (length (table_chars t)))"
proof (cases "nchar ch t = - 1")
  case False
  then have "ch \<in> set (table_chars t)" by (rule nchar_member)
  then obtain c where "c < length (table_chars t)" "table_chars t ! c = ch" by (auto simp: in_set_conv_nth)
  then show ?thesis using nchar_nth [of c t] by simp
qed simp

section \<open>Two-digit numbers\<close>

lemma dd_digits_step: "1 \<le> d \<Longrightarrow> dd_digits d v = char_of (48 + v div d) # dd_digits (d div 10) (v mod d)"
  by (subst dd_digits.simps) (simp add: Let_def minus_div_mult_eq_mod)

lemma dd_digit_char:
  assumes "k < 10"
  shows "is_digit (char_of (48 + k))" "int (code (char_of (48 + k))) - 48 = int k"
  using assms by (simp_all add: is_digit_def in_span_def)

lemma dd_loop_Nil [simp]: "dd_loop n [] r = r"
  by (cases n) simp_all

lemma dd_loop_digits:
  "v < 10 ^ w \<Longrightarrow> 1 \<le> w \<Longrightarrow> w \<le> n \<Longrightarrow>
   dd_loop n (dd_digits (10 ^ (w - 1)) v) acc = acc * 10 ^ w + int v \<and> length (dd_digits (10 ^ (w - 1)) v) = w"
proof (induction w arbitrary: v n acc)
  case (Suc w)
  obtain m where n: "n = Suc m" using Suc.prems(3) by (cases n) auto
  have k: "v div 10 ^ w < 10" using Suc.prems(1) by (simp add: less_mult_imp_div_less mult.commute)
  have step: "dd_digits (10 ^ w) v = char_of (48 + v div 10 ^ w) # dd_digits (10 ^ w div 10) (v mod 10 ^ w)"
    by (rule dd_digits_step) simp
  have "int (v div 10 ^ w * 10 ^ w + v mod 10 ^ w) = int v" by (simp only: div_mult_mod_eq)
  then have eq: "int (v div 10 ^ w) * 10 ^ w + int (v mod 10 ^ w) = int v"
    by (simp only: of_nat_add of_nat_mult of_nat_power of_nat_numeral)
  show ?case
  proof (cases "w = 0")
    case True
    then show ?thesis
      using step n k dd_digit_char [OF k] by (simp add: dd_digits.simps [of 0] dd_digits.simps [of "Suc 0"])
  next
    case False
    then have "(10 :: nat) ^ w div 10 = 10 ^ (w - 1)" by (cases w) simp_all
    then show ?thesis
      using Suc.IH [of "v mod 10 ^ w" m "acc * 10 + int (v div 10 ^ w)"] False Suc.prems(3) n step eq dd_digit_char [OF k]
      by (simp add: algebra_simps)
  qed
qed simp

lemma int_to_dd_length:
  assumes "1 \<le> w" and "nat \<bar>v\<bar> < 10 ^ w"
  shows "length (int_to_dd v w fs) = w + (if v < 0 \<or> fs then 1 else 0)"
  using dd_loop_digits [OF assms(2,1), of w 0] assms(1) by (simp add: int_to_dd_def Let_def)

lemma dd_roundtrip:
  assumes "1 \<le> w" and "nat \<bar>v\<bar> < 10 ^ w" and "length (int_to_dd v w fs) \<le> n"
  shows "dd_to_int (int_to_dd v w fs) n = v"
proof -
  let ?d = "dd_digits (10 ^ (w - 1)) (nat \<bar>v\<bar>)"
  have first: "?d = char_of (48 + nat \<bar>v\<bar> div 10 ^ (w - 1)) # dd_digits (10 ^ (w - 1) div 10) (nat \<bar>v\<bar> mod 10 ^ (w - 1))"
    by (rule dd_digits_step) simp
  have "nat \<bar>v\<bar> div 10 ^ (w - 1) < 10"
    using assms(1,2) by (cases w) (simp_all add: less_mult_imp_div_less mult.commute)
  then have "is_digit (hd ?d)" unfolding first using dd_digit_char(1) by simp
  then have nosign: "hd ?d \<noteq> CHR ''-''" "hd ?d \<noteq> CHR ''+''" by (auto simp: is_digit_def in_span_def)
  have len: "w + (if v < 0 \<or> fs then 1 else 0) \<le> n"
    using assms(3) int_to_dd_length [OF assms(1,2), of fs] by simp
  have r: "dd_loop m ?d 0 = \<bar>v\<bar>" if "w \<le> m" for m
    using dd_loop_digits [OF assms(2,1) that, of 0] by simp
  show ?thesis
    using len r [of n] r [of "n - 1"] nosign by (auto simp: int_to_dd_def dd_to_int_def Let_def split: if_splits)
qed

section \<open>Formatting\<close>

text \<open>Upper case, and no two blanks in a row.\<close>

fun single_spaced :: "string \<Rightarrow> bool" where
  "single_spaced (c # d # cs) \<longleftrightarrow> \<not> (c = CHR '' '' \<and> d = CHR '' '') \<and> single_spaced (d # cs)"
| "single_spaced cs \<longleftrightarrow> True"

lemma to_upper_blank [simp]: "to_upper c = CHR '' '' \<longleftrightarrow> c = CHR '' ''"
proof -
  have "code (to_upper c) = 32 \<longleftrightarrow> code c = 32" by (auto simp: to_upper_def in_span_def)
  then show ?thesis using code_inj [of "to_upper c" "CHR '' ''"] code_inj [of c "CHR '' ''"] by simp
qed

lemma to_upper_idem: "to_upper (to_upper c) = to_upper c" "\<not> in_span 97 122 (to_upper c)"
  by (auto simp: to_upper_def in_span_def)

lemma fmtmsg_loop_ok:
  "single_spaced (fmtmsg_loop l s) \<and> list_all (\<lambda>c. \<not> in_span 97 122 c) (fmtmsg_loop l s) \<and>
   (l = CHR '' '' \<longrightarrow> fmtmsg_loop l s = [] \<or> hd (fmtmsg_loop l s) \<noteq> CHR '' '')"
proof (induction s arbitrary: l)
  case (Cons c cs)
  show ?case
    using Cons [of l] Cons [of "to_upper c"] to_upper_idem(2) [of c]
    by (cases "fmtmsg_loop (to_upper c) cs") auto
qed simp

lemma fmtmsg_loop_fixed:
  "single_spaced s \<Longrightarrow> list_all (\<lambda>c. \<not> in_span 97 122 c) s \<Longrightarrow> (l = CHR '' '' \<longrightarrow> s = [] \<or> hd s \<noteq> CHR '' '') \<Longrightarrow>
   fmtmsg_loop l s = s"
proof (induction s arbitrary: l)
  case (Cons c cs)
  have up: "to_upper c = c" using Cons.prems(2) by (simp add: to_upper_def)
  have "single_spaced cs" "c = CHR '' '' \<longrightarrow> cs = [] \<or> hd cs \<noteq> CHR '' ''"
    using Cons.prems(1) by (cases cs; simp)+
  then show ?case using Cons.IH [of c] Cons.prems up by auto
qed simp

lemma fmtmsg_words: "filter (\<lambda>c. c \<noteq> CHR '' '') (fmtmsg s) = map to_upper (filter (\<lambda>c. c \<noteq> CHR '' '') s)"
proof -
  have "filter (\<lambda>c. c \<noteq> CHR '' '') (fmtmsg_loop l s) = map to_upper (filter (\<lambda>c. c \<noteq> CHR '' '') s)" for l
    by (induction s arbitrary: l) auto
  then show ?thesis by (simp add: fmtmsg_def)
qed

section \<open>Properties\<close>

text \<open>
  \<open>charn\<close> and \<open>nchar\<close> implement the six character tables of the header's comments and are
  inverse to each other: index \<open>c\<close> of a table is its character number \<open>c\<close>, that character has index
  \<open>c\<close>, and exactly the characters outside the table have index -1.
\<close>

theorem char_tables:
  "(\<forall>c < length (table_chars t). charn c t = table_chars t ! c \<and> nchar (charn c t) t = int c) \<and>
   (nchar ch t = - 1 \<longleftrightarrow> ch \<notin> set (table_chars t)) \<and>
   (nchar ch t \<noteq> - 1 \<longrightarrow> charn (nat (nchar ch t)) t = ch)"
proof (intro conjI allI impI)
  fix c assume c: "c < length (table_chars t)"
  then show "charn c t = table_chars t ! c" by (rule charn_nth)
  then show "nchar (charn c t) t = int c" using nchar_nth [OF c] by simp
next
  show "nchar ch t = - 1 \<longleftrightarrow> ch \<notin> set (table_chars t)"
    using nchar_member [of ch t] nchar_nth [of _ t] by (auto simp: in_set_conv_nth)
next
  assume "nchar ch t \<noteq> - 1"
  then have "0 \<le> nchar ch t" using nchar_range [of ch t] by blast
  then show "charn (nat (nchar ch t)) t = ch" using charn_nchar by blast
qed

text \<open>
  A number printed by \<open>int_to_dd\<close> is read back by \<open>dd_to_int\<close>, for every width that holds
  the number and either sign style.
\<close>

theorem dd_int_roundtrip:
  assumes "1 \<le> width" and "nat \<bar>v\<bar> < 10 ^ width"
  shows "length (int_to_dd v width full_sign) = width + (if v < 0 \<or> full_sign then 1 else 0) \<and>
    (\<forall>n \<ge> length (int_to_dd v width full_sign). dd_to_int (int_to_dd v width full_sign) n = v)"
  using int_to_dd_length [OF assms] dd_roundtrip [OF assms] by blast

text \<open>
  C27: \<open>fmtmsg\<close> normalises a message: the result has no lower-case letter and no two blanks in a row,
  keeps the other characters in order, and is left alone by a second pass.
\<close>

theorem fmtmsg_normal:
  "single_spaced (fmtmsg s) \<and> list_all (\<lambda>c. \<not> in_span 97 122 c) (fmtmsg s) \<and>
   filter (\<lambda>c. c \<noteq> CHR '' '') (fmtmsg s) = map to_upper (filter (\<lambda>c. c \<noteq> CHR '' '') s) \<and>
   fmtmsg (fmtmsg s) = fmtmsg s"
proof -
  have "single_spaced (fmtmsg s)" "list_all (\<lambda>c. \<not> in_span 97 122 c) (fmtmsg s)"
    using fmtmsg_loop_ok [of NUL s] by (simp_all add: fmtmsg_def)
  moreover from this have "fmtmsg (fmtmsg s) = fmtmsg s"
    unfolding fmtmsg_def [of "fmtmsg s"] by (intro fmtmsg_loop_fixed) simp_all
  ultimately show ?thesis using fmtmsg_words by blast
qed

theorem char_tables_witness: "charn 13 TABLE_FULL = CHR ''C'' \<and> nchar (CHR ''C'') TABLE_FULL = 13"
proof -
  have "(13 :: nat) < length (table_chars TABLE_FULL)" "table_chars TABLE_FULL ! 13 = CHR ''C''" by code_simp+
  then show ?thesis
    using char_tables [of TABLE_FULL "CHR ''C''"] by (metis int_ops(3))
qed

theorem dd_int_roundtrip_witness: "dd_to_int (int_to_dd (- 7) 2 True) 3 = - 7 \<and> length (int_to_dd (- 7) 2 True) = 3"
  using dd_int_roundtrip [of 2 "- 7" True] by simp

end
