(* ===== verification/FtxCrc.thy ===== *)
theory FtxCrc
  imports Prelude
begin

text \<open>
  \<open>ft8_lib/ft8/crc.c\<close>: the 14-bit checksum of FT8 and FT4 in its two implementations (a shift register
  over packed bytes, and polynomial division over an array of bits), and the 24-bit checksum of FST4
  and FST4W. Byte arrays are lists of \<open>u8\<close>, arrays of single bits are lists of \<open>bool\<close>.
\<close>

section \<open>The packed shift register\<close>

definition FTX_CRC_POLYNOMIAL :: u16 where "FTX_CRC_POLYNOMIAL = 0x2757"

text \<open>One iteration of the loop over \<open>idx_bit\<close>. \<open>TOPBIT\<close> is bit 13.\<close>

definition crc_step :: "u8 list \<Rightarrow> nat \<Rightarrow> u16 \<Rightarrow> u16" where
  "crc_step message idx_bit remainder =
     (let remainder = (if idx_bit mod 8 = 0
            then remainder XOR push_bit 6 (ucast (message ! (idx_bit div 8))) else remainder)
      in if bit remainder 13 then push_bit 1 remainder XOR FTX_CRC_POLYNOMIAL else push_bit 1 remainder)"

definition ftx_compute_crc :: "u8 list \<Rightarrow> nat \<Rightarrow> u16" where
  "ftx_compute_crc message num_bits =
     fold (crc_step message) [0..<num_bits] 0 AND 0x3FFF"

definition ftx_extract_crc :: "u8 list \<Rightarrow> u16" where
  "ftx_extract_crc a91 =
     push_bit 11 (ucast (a91 ! 9) AND 0x07) OR push_bit 3 (ucast (a91 ! 10)) OR drop_bit 5 (ucast (a91 ! 11))"

text \<open>\<open>a91\<close> is the array as it was; twelve bytes of it are written.\<close>

definition ftx_add_crc :: "u8 list \<Rightarrow> u8 list \<Rightarrow> u8 list" where
  "ftx_add_crc payload a91 =
     (let a91 = take 10 payload @ drop 10 a91;
          a91 = a91[9 := a91 ! 9 AND 0xF8];
          a91 = a91[10 := 0];
          checksum = ftx_compute_crc a91 (96 - 14);
          a91 = a91[9 := a91 ! 9 OR ucast (drop_bit 11 checksum)];
          a91 = a91[10 := ucast (drop_bit 3 checksum)]
      in a91[11 := ucast (push_bit 5 checksum)])"

definition ftx_check_crc_packed :: "u8 list \<Rightarrow> bool" where
  "ftx_check_crc_packed a91_packed =
     (let crc_stored = ftx_extract_crc a91_packed;
          tmp = take 9 a91_packed @ [a91_packed ! 9 AND 0xF8, 0, 0]
      in crc_stored = ftx_compute_crc tmp 82)"

section \<open>Division over an array of bits\<close>

definition crc_div :: "bool list" where
  "crc_div = map (\<lambda>d. d = 1) [1, 1, 0, 0, 1, 1, 1, 0, 1, 0, 1, 0, 1, 1, (1 :: nat)]"

definition div_step :: "nat \<Rightarrow> bool list \<Rightarrow> bool list" where
  "div_step i msg =
     (if msg ! i then fold (\<lambda>j msg. msg[i + j := (msg ! (i + j) \<noteq> crc_div ! j)]) [0..<14 + 1] msg else msg)"

definition ftx_crc :: "bool list \<Rightarrow> nat \<Rightarrow> bool list" where
  "ftx_crc msg1 msglen =
     (let msg = map (\<lambda>i. if i < 77 then msg1 ! i else False) [0..<msglen + 14];
          msg = fold div_step [0..<msglen] msg
      in map (\<lambda>i. msg ! (msglen + i)) [0..<14])"

definition ftx_check_crc :: "bool list \<Rightarrow> bool" where
  "ftx_check_crc a91 = list_all (\<lambda>i. ftx_crc a91 82 ! i = a91 ! (91 - 14 + i)) [0..<14]"

section \<open>The 24-bit checksum\<close>

definition fst4_poly :: "bool list" where
  "fst4_poly = map (\<lambda>d. d = 1) [1,0,0,0,0,0,0,0,0,0,0,0,0,0,1,1,0,0,1,0,1,1,0,1,(1 :: nat)]"

definition GET_BIT :: "u8 list \<Rightarrow> nat \<Rightarrow> bool" where
  "GET_BIT arr i = bit (arr ! (i div 8)) (7 - i mod 8)"

definition fst4_crc_step :: "u8 list \<Rightarrow> nat \<Rightarrow> nat \<Rightarrow> bool list \<Rightarrow> bool list" where
  "fst4_crc_step message num_bits i r =
     (let r = r[24 := (i + 24 < num_bits \<and> GET_BIT message (i + 24))];
          feedback = r ! 0;
          r = (if feedback then map (\<lambda>j. r ! j \<noteq> fst4_poly ! j) [0..<25] else r);
          tmp = r ! 0
      in map (\<lambda>j. r ! (j + 1)) [0..<24] @ [tmp])"

text \<open>\<open>r\<close> holds 25 bits, \<open>num_bits\<close> is at least 25 in every call.\<close>

definition fst4_compute_crc :: "u8 list \<Rightarrow> nat \<Rightarrow> u32" where
  "fst4_compute_crc message num_bits =
     (let r = map (GET_BIT message) [0..<25];
          r = fold (fst4_crc_step message num_bits) [0..<num_bits - 24] r
      in fold (\<lambda>i crc. push_bit 1 crc OR of_bool (r ! i)) [0..<24] 0)"

definition fst4_extract_crc :: "u8 list \<Rightarrow> u32" where
  "fst4_extract_crc a101 =
     push_bit 21 (ucast (a101 ! 9 AND 0x07)) OR push_bit 13 (ucast (a101 ! 10)) OR
     push_bit 5 (ucast (a101 ! 11)) OR drop_bit 3 (ucast (a101 ! 12))"

definition fst4_add_crc :: "u8 list \<Rightarrow> u8 list" where
  "fst4_add_crc payload =
     (let a101 = take 9 payload @ [payload ! 9 AND 0xF8, 0, 0, 0];
          checksum = fst4_compute_crc a101 (77 + 24)
      in take 9 payload @ [payload ! 9 AND 0xF8 OR ucast (drop_bit 21 checksum),
           ucast (drop_bit 13 checksum), ucast (drop_bit 5 checksum), ucast (push_bit 3 checksum)])"

definition fst4_check_crc :: "u8 list \<Rightarrow> bool" where
  "fst4_check_crc a101 =
     (let crc_stored = fst4_extract_crc a101;
          tmp = take 9 a101 @ [a101 ! 9 AND 0xF8, 0, 0, 0]
      in crc_stored = fst4_compute_crc tmp (77 + 24))"

definition fst4w_extract_crc :: "u8 list \<Rightarrow> u32" where
  "fst4w_extract_crc a74 =
     push_bit 18 (ucast (a74 ! 6 AND 0x3F)) OR push_bit 10 (ucast (a74 ! 7)) OR
     push_bit 2 (ucast (a74 ! 8)) OR drop_bit 6 (ucast (a74 ! 9))"

definition fst4w_add_crc :: "u8 list \<Rightarrow> u8 list" where
  "fst4w_add_crc payload =
     (let a74 = take 6 payload @ [payload ! 6 AND 0xC0, 0, 0, 0];
          checksum = fst4_compute_crc a74 (50 + 24)
      in take 6 payload @ [payload ! 6 AND 0xC0 OR ucast (drop_bit 18 checksum),
           ucast (drop_bit 10 checksum), ucast (drop_bit 2 checksum), ucast (push_bit 6 checksum)])"

definition fst4w_check_crc :: "u8 list \<Rightarrow> bool" where
  "fst4w_check_crc a74 =
     (let crc_stored = fst4w_extract_crc a74;
          tmp = take 6 a74 @ [a74 ! 6 AND 0xC0, 0, 0, 0]
      in crc_stored = fst4_compute_crc tmp (50 + 24))"

section \<open>Reference: the remainder of a polynomial\<close>

text \<open>
  A polynomial over the two-element field of degree below \<open>w\<close> is the function of its coefficients.
  \<open>rem_shift\<close> multiplies by \<open>x\<close>, adds \<open>b\<close> and reduces by the generator \<open>x ^ w + P\<close>; \<open>poly_rem\<close> is the
  remainder of the polynomial with the given coefficients, highest first.
\<close>

definition rem_shift :: "nat \<Rightarrow> (nat \<Rightarrow> bool) \<Rightarrow> bool \<Rightarrow> (nat \<Rightarrow> bool) \<Rightarrow> nat \<Rightarrow> bool" where
  "rem_shift w P b T = (\<lambda>n. n < w \<and> ((if n = 0 then b else T (n - 1)) \<noteq> (T (w - 1) \<and> P n)))"

definition poly_rem :: "nat \<Rightarrow> (nat \<Rightarrow> bool) \<Rightarrow> bool list \<Rightarrow> nat \<Rightarrow> bool" where
  "poly_rem w P bits = fold (rem_shift w P) bits (\<lambda>_. False)"

text \<open>The checksum of a message: the remainder of the message times \<open>x ^ w\<close>.\<close>

definition crc_rem :: "nat \<Rightarrow> (nat \<Rightarrow> bool) \<Rightarrow> bool list \<Rightarrow> nat \<Rightarrow> bool" where
  "crc_rem w P bits = poly_rem w P (bits @ replicate w False)"

definition P14 :: "nat \<Rightarrow> bool" where "P14 n = bit FTX_CRC_POLYNOMIAL n"
definition P24 :: "nat \<Rightarrow> bool" where "P24 n = bit (0x65B :: u32) n"

definition fxor :: "(nat \<Rightarrow> bool) \<Rightarrow> (nat \<Rightarrow> bool) \<Rightarrow> nat \<Rightarrow> bool" where
  "fxor f g = (\<lambda>n. f n \<noteq> g n)"

named_theorems crc_simps \<open>algebra of coefficient functions\<close>

lemma fxor_simps [simp]: "fxor f (\<lambda>_. False) = f" "fxor (\<lambda>_. False) f = f" "fxor f f = (\<lambda>_. False)"
  "fxor f (fxor f g) = g"
  by (auto simp: fxor_def)

lemma fxor_ac: "fxor (fxor f g) h = fxor f (fxor g h)" "fxor f g = fxor g f" "fxor f (fxor g h) = fxor g (fxor f h)"
  by (auto simp: fxor_def)

lemma rem_shift_xor: "rem_shift w P (b \<noteq> c) (fxor f g) = fxor (rem_shift w P b f) (rem_shift w P c g)"
  by (auto simp: rem_shift_def fxor_def)

lemma rem_shift_below: "n \<ge> w \<Longrightarrow> \<not> rem_shift w P b T n"
  by (simp add: rem_shift_def)

lemma fold_rem_below: "n \<ge> w \<Longrightarrow> \<not> T n \<Longrightarrow> \<not> fold (rem_shift w P) bits T n"
  by (induction bits arbitrary: T) (auto simp: rem_shift_below)

lemma fold_rem_xor:
  "length xs = length ys \<Longrightarrow>
   fold (rem_shift w P) (map2 (\<noteq>) xs ys) (fxor f g) =
     fxor (fold (rem_shift w P) xs f) (fold (rem_shift w P) ys g)"
proof (induction xs ys arbitrary: f g rule: list_induct2)
  case (Cons x xs y ys)
  have "fold (rem_shift w P) (map2 (\<noteq>) (x # xs) (y # ys)) (fxor f g) =
      fold (rem_shift w P) (map2 (\<noteq>) xs ys) (fxor (rem_shift w P x f) (rem_shift w P y g))"
    by (simp only: list.map zip_Cons_Cons fold_simps prod.case rem_shift_xor)
  then show ?case unfolding Cons.IH by simp
qed simp

lemma poly_rem_xor:
  "length xs = length ys \<Longrightarrow> poly_rem w P (map2 (\<noteq>) xs ys) = fxor (poly_rem w P xs) (poly_rem w P ys)"
  using fold_rem_xor [of xs ys w P "\<lambda>_. False" "\<lambda>_. False"] by (simp add: poly_rem_def)

lemma poly_rem_snoc: "poly_rem w P (bits @ [b]) = rem_shift w P b (poly_rem w P bits)"
  by (simp add: poly_rem_def)

text \<open>Up to \<open>w\<close> coefficients are their own remainder.\<close>

lemma poly_rem_short:
  "length bits \<le> w \<Longrightarrow> poly_rem w P bits = (\<lambda>n. n < length bits \<and> bits ! (length bits - 1 - n))"
proof (induction bits rule: rev_induct)
  case (snoc b bits)
  then have IH: "poly_rem w P bits = (\<lambda>n. n < length bits \<and> bits ! (length bits - 1 - n))" by simp
  show ?case
  proof
    fix n
    have "length bits - Suc (n - 1) = length bits - n" if "0 < n" using that by simp
    then show "poly_rem w P (bits @ [b]) n = (n < length (bits @ [b]) \<and> (bits @ [b]) ! (length (bits @ [b]) - 1 - n))"
      using snoc.prems by (auto simp: poly_rem_snoc IH rem_shift_def nth_append)
  qed
qed (simp add: poly_rem_def)

lemma poly_rem_zeros: "poly_rem w P (replicate k False) = (\<lambda>_. False)"
proof (induction k)
  case (Suc k)
  have "replicate (Suc k) False = replicate k False @ [False]" by (simp add: replicate_append_same)
  then show ?case
    using Suc by (simp only: poly_rem_snoc) (simp add: rem_shift_def)
qed (simp add: poly_rem_def)

lemma poly_rem_lead: "poly_rem w P (replicate k False @ xs) = poly_rem w P xs"
  using poly_rem_zeros [of w P k] by (simp add: poly_rem_def)

text \<open>One more message bit, in terms of the checksum register so far.\<close>

lemma crc_rem_snoc:
  assumes "0 < w"
  shows "crc_rem w P (bits @ [b]) = fxor (rem_shift w P False (crc_rem w P bits)) (\<lambda>n. n < w \<and> b \<and> P n)"
proof -
  let ?A = "(bits @ replicate w False) @ [False]" and ?B = "replicate (length bits) False @ b # replicate w False"
  obtain v where w: "w = Suc v" using assms by (cases w) auto
  have split: "(bits @ [b]) @ replicate w False = map2 (\<noteq>) ?A ?B"
    by (rule nth_equalityI) (auto simp: nth_append nth_Cons split: nat.splits)
  have A: "poly_rem w P ?A = rem_shift w P False (crc_rem w P bits)"
    unfolding crc_rem_def by (rule poly_rem_snoc)
  have "b # replicate w False = (b # replicate v False) @ [False]"
    by (simp add: w replicate_append_same)
  then have "poly_rem w P ?B = rem_shift w P False (poly_rem w P (b # replicate v False))"
    by (simp only: poly_rem_lead poly_rem_snoc)
  also have "poly_rem w P (b # replicate v False) = (\<lambda>n. n = v \<and> b)"
  proof
    fix n
    show "poly_rem w P (b # replicate v False) n = (n = v \<and> b)"
      by (cases "n = v"; cases "v - n") (auto simp: poly_rem_short w)
  qed
  also have "rem_shift w P False (\<lambda>n. n = v \<and> b) = (\<lambda>n. n < w \<and> b \<and> P n)"
  proof
    fix n
    have "n < w \<Longrightarrow> n \<noteq> 0 \<Longrightarrow> n - 1 \<noteq> v" using w by simp
    then show "rem_shift w P False (\<lambda>n. n = v \<and> b) n = (n < w \<and> b \<and> P n)"
      by (cases "n < w"; cases "n = 0") (auto simp: rem_shift_def w)
  qed
  finally have B: "poly_rem w P ?B = (\<lambda>n. n < w \<and> b \<and> P n)" .
  show ?thesis
    unfolding crc_rem_def [of w P "bits @ [b]"] split A [symmetric] B [symmetric] by (rule poly_rem_xor) simp
qed

section \<open>The packed register computes the remainder\<close>

definition reg :: "u16 \<Rightarrow> nat \<Rightarrow> bool" where
  "reg x = (\<lambda>n. n < 14 \<and> bit x n)"

text \<open>The bits of the current byte that the register already holds but has not yet shifted.\<close>

definition pending :: "u8 list \<Rightarrow> nat \<Rightarrow> nat \<Rightarrow> bool" where
  "pending message k = (\<lambda>n. n < 14 \<and> k mod 8 \<noteq> 0 \<and> 6 + k mod 8 \<le> n \<and> bit (message ! (k div 8)) (n - 6 - k mod 8))"

lemma reg_shift:
  "reg (if bit x 13 then push_bit 1 x XOR FTX_CRC_POLYNOMIAL else push_bit 1 x) = rem_shift 14 P14 False (reg x)"
proof
  fix n
  have "bit (push_bit 1 x) n \<longleftrightarrow> n < 16 \<and> 0 < n \<and> bit x (n - 1)"
    by (simp only: bit_push_bit_iff) auto
  then show "reg (if bit x 13 then push_bit 1 x XOR FTX_CRC_POLYNOMIAL else push_bit 1 x) n =
      rem_shift 14 P14 False (reg x) n"
    by (auto simp only: reg_def rem_shift_def P14_def bit_xor_iff split: if_splits) auto
qed

lemma reg_load: "reg (x XOR push_bit 6 (ucast (b :: u8))) = fxor (reg x) (\<lambda>n. n < 14 \<and> 6 \<le> n \<and> bit b (n - 6))"
  by (auto simp: reg_def fxor_def bit_xor_iff bit_push_bit_iff bit_ucast_iff dest: bit_imp_le_length)

lemma reg_step:
  "reg (crc_step message k x) = rem_shift 14 P14 False
     (fxor (reg x) (\<lambda>n. n < 14 \<and> k mod 8 = 0 \<and> 6 \<le> n \<and> bit (message ! (k div 8)) (n - 6)))"
proof (cases "k mod 8 = 0")
  case True
  then show ?thesis unfolding crc_step_def Let_def if_P [OF True] reg_shift reg_load by simp
next
  case False
  then show ?thesis unfolding crc_step_def Let_def if_not_P [OF False] reg_shift by simp
qed

text \<open>Loading and shifting the pending bits feeds the next message bit.\<close>

lemma pending_step:
  "rem_shift 14 P14 False (fxor (pending message k) (\<lambda>n. n < 14 \<and> k mod 8 = 0 \<and> 6 \<le> n \<and> bit (message ! (k div 8)) (n - 6)))
   = fxor (pending message (Suc k)) (\<lambda>n. n < 14 \<and> GET_BIT message k \<and> P14 n)"
proof -
  let ?b = "message ! (k div 8)" and ?r = "k mod 8"
  have all: "fxor (pending message k) (\<lambda>n. n < 14 \<and> ?r = 0 \<and> 6 \<le> n \<and> bit ?b (n - 6)) =
      (\<lambda>n. n < 14 \<and> 6 + ?r \<le> n \<and> bit ?b (n - 6 - ?r))"
    by (cases "?r = 0") (auto simp: fxor_def pending_def fun_eq_iff)
  have r: "?r < 8" by simp
  have next_pending: "pending message (Suc k) = (\<lambda>n. n < 14 \<and> 7 + ?r \<le> n \<and> bit ?b (n - 7 - ?r))"
  proof (cases "?r = 7")
    case True
    then have "Suc k mod 8 = 0" by (simp add: mod_Suc)
    then show ?thesis by (auto simp: pending_def True)
  next
    case False
    with r have "Suc k mod 8 = Suc ?r" "Suc k div 8 = k div 8" by (auto simp: mod_Suc div_Suc)
    then show ?thesis by (auto simp: pending_def)
  qed
  have top: "13 - 6 - ?r = 7 - ?r" by simp
  show ?thesis
    unfolding all next_pending
    using r by (auto simp: rem_shift_def fxor_def GET_BIT_def fun_eq_iff top)
qed

lemma packed_register:
  "reg (fold (crc_step message) [0..<k] 0) =
     fxor (crc_rem 14 P14 (map (GET_BIT message) [0..<k])) (pending message k)"
proof (induction k)
  case 0
  have "reg 0 = (\<lambda>_. False)" "pending message 0 = (\<lambda>_. False)" by (auto simp: reg_def pending_def)
  then show ?case by (simp add: crc_rem_def poly_rem_zeros)
next
  case (Suc k)
  let ?R = "crc_rem 14 P14 (map (GET_BIT message) [0..<k])"
  let ?load = "\<lambda>n. n < 14 \<and> k mod 8 = 0 \<and> 6 \<le> n \<and> bit (message ! (k div 8)) (n - 6)"
  have "reg (fold (crc_step message) [0..<Suc k] 0) =
      rem_shift 14 P14 False (fxor (fxor ?R (pending message k)) ?load)"
    by (simp add: reg_step Suc)
  also have "\<dots> = rem_shift 14 P14 (False \<noteq> False) (fxor ?R (fxor (pending message k) ?load))"
    by (simp add: fxor_ac)
  also have "\<dots> = fxor (rem_shift 14 P14 False ?R) (fxor (pending message (Suc k)) (\<lambda>n. n < 14 \<and> GET_BIT message k \<and> P14 n))"
    unfolding rem_shift_xor pending_step ..
  also have "\<dots> = fxor (crc_rem 14 P14 (map (GET_BIT message) [0..<Suc k])) (pending message (Suc k))"
    using crc_rem_snoc [of 14 P14 "map (GET_BIT message) [0..<k]" "GET_BIT message k"]
    by (simp add: fxor_ac)
  finally show ?case .
qed


lemma ftx_compute_crc_rem:
  assumes "pending message k = (\<lambda>_. False)" "n < 14"
  shows "bit (ftx_compute_crc message k) n = crc_rem 14 P14 (map (GET_BIT message) [0..<k]) n"
proof -
  have "(0x3FFF :: u16) = mask 14" by (simp add: mask_eq_exp_minus_1)
  then have "bit (ftx_compute_crc message k) n = reg (fold (crc_step message) [0..<k] 0) n"
    using assms(2) unfolding ftx_compute_crc_def reg_def by (simp only: bit_and_iff bit_mask_iff) simp
  then show ?thesis by (simp add: packed_register assms)
qed

section \<open>Division over the array computes the remainder\<close>

lemma less_15: "j < 15 \<longleftrightarrow> j \<in> {0, 1, 2, 3, 4, 5, 6, 7, 8, 9, 10, 11, 12, 13, (14 :: nat)}"
  unfolding insert_iff empty_iff by presburger

lemma crc_div_nth: "j < 15 \<Longrightarrow> crc_div ! j = (j = 0 \<or> P14 (14 - j))"
  unfolding less_15 by (elim insertE emptyE) (simp_all add: crc_div_def P14_def FTX_CRC_POLYNOMIAL_def)

lemma xor_row_length: "length (fold (\<lambda>j msg. msg[i + j := (msg ! (i + j) \<noteq> d ! j)]) [0..<m] msg) = length msg"
  by (induction m) auto

lemma xor_row_nth:
  assumes "i + m \<le> length msg" "j < length msg"
  shows "fold (\<lambda>j msg. msg[i + j := (msg ! (i + j) \<noteq> d ! j)]) [0..<m] msg ! j =
     (msg ! j \<noteq> (i \<le> j \<and> j < i + m \<and> d ! (j - i)))"
  using assms(1)
proof (induction m)
  case (Suc m)
  let ?F = "fold (\<lambda>j msg. msg[i + j := (msg ! (i + j) \<noteq> d ! j)]) [0..<m] msg"
  have "fold (\<lambda>j msg. msg[i + j := (msg ! (i + j) \<noteq> d ! j)]) [0..<Suc m] msg ! j =
      ?F[i + m := (?F ! (i + m) \<noteq> d ! m)] ! j" by (simp only: upt_Suc_append fold_append o_def fold_simps le0)
  also have "\<dots> = (if j = i + m then ?F ! j \<noteq> d ! (j - i) else ?F ! j)"
    using assms(2) Suc.prems xor_row_length [of i d m msg] by (simp only: nth_list_update) auto
  finally show ?case using Suc by (cases "j = i + m") auto
qed simp

lemma div_step_length [simp]: "length (div_step i msg) = length msg"
  using xor_row_length [of i crc_div "14 + 1" msg] by (simp only: div_step_def split: if_split) simp

lemma div_step_nth:
  assumes "i + 15 \<le> length msg" "j < length msg"
  shows "div_step i msg ! j = (msg ! j \<noteq> (msg ! i \<and> i \<le> j \<and> j < i + 15 \<and> crc_div ! (j - i)))"
  using xor_row_nth [OF assms] by (simp add: div_step_def)

lemma array_division:
  assumes "i + 14 \<le> length bits"
  shows "length (fold div_step [0..<i] bits) = length bits \<and>
    (\<forall>j<length bits. i + 14 \<le> j \<longrightarrow> fold div_step [0..<i] bits ! j = bits ! j) \<and>
    (\<forall>j<14. fold div_step [0..<i] bits ! (i + j) = poly_rem 14 P14 (take (i + 14) bits) (13 - j))"
  using assms
proof (induction i)
  case 0
  then have "14 - Suc (13 - j) = j" "13 - j < 14" if "j < 14" for j using that by auto
  then show ?case using 0 by (simp add: poly_rem_short)
next
  case (Suc i)
  let ?D = "fold div_step [0..<i] bits" and ?T = "poly_rem 14 P14 (take (i + 14) bits)"
  have len: "length ?D = length bits"
    and rest: "\<And>j. j < length bits \<Longrightarrow> i + 14 \<le> j \<Longrightarrow> ?D ! j = bits ! j"
    and rem: "\<And>j. j < 14 \<Longrightarrow> ?D ! (i + j) = ?T (13 - j)"
    using Suc by auto
  have top: "?D ! i = ?T 13" using rem [of 0] by simp
  have i15: "i + 15 \<le> length ?D" using Suc.prems len by simp
  have take: "take (Suc i + 14) bits = take (i + 14) bits @ [bits ! (i + 14)]"
    using Suc.prems take_Suc_conv_app_nth [of "i + 14" bits] by simp
  have new: "div_step i ?D ! (Suc i + j) = poly_rem 14 P14 (take (Suc i + 14) bits) (13 - j)" if j: "j < 14" for j
  proof -
    have "div_step i ?D ! (Suc i + j) = (?D ! (i + Suc j) \<noteq> (?T 13 \<and> crc_div ! Suc j))"
      using j i15 by (subst div_step_nth) (simp_all add: top)
    also have "crc_div ! Suc j = P14 (13 - j)" using j by (simp add: crc_div_nth)
    also have "?D ! (i + Suc j) = (if 13 - j = 0 then bits ! (i + 14) else ?T (13 - j - 1))"
      using j rem [of "Suc j"] rest [of "i + 14"] Suc.prems by (cases "j = 13") auto
    moreover have "13 - j < 14" by simp
    ultimately show ?thesis
      unfolding take poly_rem_snoc rem_shift_def by simp
  qed
  show ?case
    using len new rest i15 by (auto simp: div_step_nth)
qed

lemma ftx_crc_rem:
  assumes "j < 14" "77 \<le> msglen"
  shows "ftx_crc msg1 msglen ! j =
    crc_rem 14 P14 (map ((!) msg1) [0..<77] @ replicate (msglen - 77) False) (13 - j)"
proof -
  let ?M = "map (\<lambda>i. if i < 77 then msg1 ! i else False) [0..<msglen + 14]"
  have M: "?M = (map ((!) msg1) [0..<77] @ replicate (msglen - 77) False) @ replicate 14 False"
    using assms(2) by (intro nth_equalityI) (simp_all add: nth_append del: upt_Suc)
  have "\<forall>j<14. fold div_step [0..<msglen] ?M ! (msglen + j) = poly_rem 14 P14 (take (msglen + 14) ?M) (13 - j)"
    using array_division [of msglen ?M] by simp
  moreover have "take (msglen + 14) ?M = ?M" by simp
  ultimately show ?thesis using assms(1) by (simp only: ftx_crc_def crc_rem_def Let_def M) simp
qed

text \<open>The message the checksum is taken of: 77 payload bits and five zeros.\<close>

definition zero_extended :: "bool list \<Rightarrow> bool list" where
  "zero_extended a = take 77 a @ replicate 5 False"

lemma ftx_check_crc_rem:
  assumes "length a91 = 91"
  shows "ftx_check_crc a91 \<longleftrightarrow> (\<forall>j<14. crc_rem 14 P14 (zero_extended a91) (13 - j) = a91 ! (77 + j))"
proof -
  have "map ((!) a91) [0..<77] = take 77 a91" using assms by (intro nth_equalityI) (auto simp del: upt_Suc)
  then show ?thesis
    by (simp add: ftx_check_crc_def list_all_iff ftx_crc_rem zero_extended_def Ball_def del: upt_Suc)
qed


section \<open>The payload as a bit string\<close>

abbreviation bits_of :: "u8 list \<Rightarrow> nat \<Rightarrow> bool list" where
  "bits_of p n \<equiv> map (GET_BIT p) [0..<n]"

text \<open>The payload of \<open>8 * q + 8 - r\<close> bits with the rest of its last byte and \<open>z\<close> more bytes cleared.\<close>

definition masked :: "u8 list \<Rightarrow> nat \<Rightarrow> nat \<Rightarrow> nat \<Rightarrow> u8 list" where
  "masked p q r z = take q p @ (p ! q AND NOT (mask r)) # replicate z 0"

lemma byte_masks: "(0xF8 :: u8) = NOT (mask 3)" "(0xC0 :: u8) = NOT (mask 6)" "(7 :: u8) = mask 3" "(0x3F :: u8) = mask 6"
  by (simp_all add: mask_eq_exp_minus_1)

lemma GET_BIT_masked:
  assumes "q < length p" "r \<le> 8" "i < 8 * (q + 1 + z)"
  shows "GET_BIT (masked p q r z) i \<longleftrightarrow> i < 8 * q + 8 - r \<and> GET_BIT p i"
proof -
  have i: "i = 8 * (i div 8) + i mod 8" "i mod 8 < 8" by simp_all
  consider "i div 8 < q" | "i div 8 = q" | "q < i div 8" by linarith
  then show ?thesis
  proof cases
    case 1
    then have "i < 8 * q + 8 - r" using i assms(2) by linarith
    then show ?thesis using assms 1 by (simp add: GET_BIT_def masked_def nth_append)
  next
    case 2
    then have "i < 8 * q + 8 - r \<longleftrightarrow> r \<le> 7 - i mod 8" using i assms(2) by linarith
    then show ?thesis using assms 2
      by (auto simp: GET_BIT_def masked_def nth_append bit_and_iff bit_not_iff bit_mask_iff)
  next
    case 3
    then obtain d where d: "i div 8 = Suc (q + d)" using less_iff_Suc_add by blast
    have "d < z" "\<not> i < 8 * q + 8 - r" using assms(3) i unfolding d by simp_all
    then show ?thesis using assms(1)
      by (simp add: GET_BIT_def masked_def nth_append d)
  qed
qed

lemma bits_of_masked:
  assumes "q < length p" "r \<le> 8" "8 * q + 8 - r + z \<le> 8 * (q + 1 + k)"
  shows "bits_of (masked p q r k) (8 * q + 8 - r + z) = bits_of p (8 * q + 8 - r) @ replicate z False"
  using assms by (intro nth_equalityI) (auto simp: nth_append GET_BIT_masked)

lemma masked_cong:
  assumes "q < length p" "q < length p'" "r \<le> 8" "\<And>i. i < 8 * q + 8 - r \<Longrightarrow> GET_BIT p i = GET_BIT p' i"
  shows "masked p q r z = masked p' q r z"
proof -
  have byte: "bit (p ! j) n = bit (p' ! j) n" if "8 * j + 7 - n < 8 * q + 8 - r" "n < 8" for j n
  proof -
    have "7 - n < 8" by simp
    then have "(8 * j + (7 - n)) div 8 = j" "(8 * j + (7 - n)) mod 8 = 7 - n"
      by (simp_all only: div_mult_self4 mod_mult_self4 mod_less div_less)
    then show ?thesis using assms(4) [of "8 * j + (7 - n)"] that by (simp add: GET_BIT_def)
  qed
  have "take q p = take q p'"
    using assms(1,2,3) by (intro nth_equalityI bit_eqI) (auto intro!: byte)
  moreover have "p ! q AND NOT (mask r) = p' ! q AND NOT (mask r)"
    using assms(3) by (intro bit_eqI) (auto simp: bit_and_iff bit_not_iff bit_mask_iff intro!: byte byte [THEN iffD1] byte [THEN iffD2])
  ultimately show ?thesis by (simp add: masked_def)
qed

lemma less_14: "j < 14 \<longleftrightarrow> j \<in> {0, 1, 2, 3, 4, 5, 6, 7, 8, 9, 10, 11, 12, (13 :: nat)}"
  unfolding insert_iff empty_iff by presburger

lemma u8_bit: "8 \<le> n \<Longrightarrow> \<not> bit (x :: u8) n"
  by (auto dest: bit_imp_le_length)

lemma extract_crc_bit: "j < 14 \<Longrightarrow> bit (ftx_extract_crc p) (13 - j) = GET_BIT p (77 + j)"
  unfolding less_14
  by (elim insertE emptyE) (simp_all add: ftx_extract_crc_def GET_BIT_def bit_simps byte_masks u8_bit)


lemma all_rev: "(\<forall>n<Suc m. Q n) \<longleftrightarrow> (\<forall>j<Suc m. Q (m - j))"
proof
  assume *: "\<forall>j<Suc m. Q (m - j)"
  show "\<forall>n<Suc m. Q n"
  proof (intro allI impI)
    fix n assume "n < Suc m"
    then show "Q n" using * [rule_format, of "m - n"] by simp
  qed
qed simp

lemma ftx_crc_bits_high: "14 \<le> n \<Longrightarrow> \<not> bit (ftx_extract_crc p) n" "14 \<le> n \<Longrightarrow> \<not> bit (ftx_compute_crc m k) n"
proof -
  have "(0x3FFF :: u16) = mask 14" by (simp add: mask_eq_exp_minus_1)
  then show "14 \<le> n \<Longrightarrow> \<not> bit (ftx_compute_crc m k) n"
    unfolding ftx_compute_crc_def by (simp only: bit_and_iff bit_mask_iff) simp
  have "\<not> bit (ftx_extract_crc p) 14" "\<not> bit (ftx_extract_crc p) 15"
    by (simp_all add: ftx_extract_crc_def bit_simps u8_bit)
  moreover have "n = 14 \<or> n = 15" if "14 \<le> n" "n < 16" using that by linarith
  ultimately show "14 \<le> n \<Longrightarrow> \<not> bit (ftx_extract_crc p) n"
    using bit_imp_le_length [of "ftx_extract_crc p" n] by (cases "n < 16") auto
qed

lemma pending_masked: "9 < length p \<Longrightarrow> pending (masked p 9 3 2) 82 = (\<lambda>_. False)"
  by (auto simp: pending_def masked_def nth_append fun_eq_iff)

lemma ftx_compute_crc_masked:
  assumes "9 < length p" "j < 14"
  shows "bit (ftx_compute_crc (masked p 9 3 2) 82) j = crc_rem 14 P14 (bits_of p 77 @ replicate 5 False) j"
  using assms bits_of_masked [of 9 p 3 5 2] by (simp add: ftx_compute_crc_rem pending_masked)

lemma check_packed_rem:
  assumes "12 \<le> length p"
  shows "ftx_check_crc_packed p \<longleftrightarrow>
    (\<forall>j<14. GET_BIT p (77 + j) = crc_rem 14 P14 (bits_of p 77 @ replicate 5 False) (13 - j))"
proof -
  have tmp: "take 9 p @ [p ! 9 AND 0xF8, 0, 0] = masked p 9 3 2"
    by (simp add: masked_def byte_masks numeral_2_eq_2)
  have "ftx_check_crc_packed p \<longleftrightarrow> ftx_extract_crc p = ftx_compute_crc (masked p 9 3 2) 82"
    by (simp add: ftx_check_crc_packed_def tmp)
  also have "\<dots> \<longleftrightarrow> (\<forall>n<14. bit (ftx_extract_crc p) n = bit (ftx_compute_crc (masked p 9 3 2) 82) n)"
    by (auto simp: bit_eq_iff) (metis ftx_crc_bits_high not_le)+
  also have "\<dots> \<longleftrightarrow> (\<forall>j<14. bit (ftx_extract_crc p) (13 - j) = bit (ftx_compute_crc (masked p 9 3 2) 82) (13 - j))"
    using all_rev [of 13] by simp
  finally show ?thesis using assms by (simp add: extract_crc_bit ftx_compute_crc_masked)
qed

text \<open>
  The two implementations agree: the check of the packed frame and the check of its bits one
  by one (shift register against polynomial division) accept the same frames.
\<close>

theorem ftx_check_crc_agree:
  assumes "12 \<le> length p"
  shows "ftx_check_crc_packed p = ftx_check_crc (bits_of p 91)"
proof -
  have "zero_extended (bits_of p 91) = bits_of p 77 @ replicate 5 False"
    by (simp add: zero_extended_def take_map del: upt_Suc)
  then show ?thesis
    using check_packed_rem [OF assms] by (auto simp: ftx_check_crc_rem simp del: upt_Suc)
qed

lemma ftx_check_crc_agree_witness:
  "ftx_check_crc_packed (replicate 12 7) = ftx_check_crc (bits_of (replicate 12 7) 91)"
  by (rule ftx_check_crc_agree) simp


section \<open>The 24-bit register computes the remainder\<close>

lemma less_24: "k < 24 \<longleftrightarrow> k \<in> {0, 1, 2, 3, 4, 5, 6, 7, 8, 9, 10, 11, 12, 13, 14, 15, 16, 17, 18, 19, 20, 21, 22, (23 :: nat)}"
  unfolding insert_iff empty_iff by presburger

lemma fst4_poly_nth: "k < 24 \<Longrightarrow> fst4_poly ! Suc k = P24 (23 - k)" "fst4_poly ! 0"
  subgoal unfolding less_24 by (elim insertE emptyE) (simp_all add: fst4_poly_def P24_def)
  subgoal by (simp add: fst4_poly_def)
  done

lemma fst4_step_nth:
  assumes "length r = 25" "k < 24" "i + 24 < num_bits"
  shows "fst4_crc_step message num_bits i r ! k =
    ((if k = 23 then GET_BIT message (i + 24) else r ! Suc k) \<noteq> (r ! 0 \<and> P24 (23 - k)))"
  using assms fst4_poly_nth(1) [OF assms(2)]
  by (cases "k = 23") (simp_all add: fst4_crc_step_def Let_def nth_append fst4_poly_nth(2) nth_list_update del: upt_Suc)

lemma fst4_step_length: "length (fst4_crc_step message num_bits i r) = 25"
  by (simp add: fst4_crc_step_def Let_def del: upt_Suc)

lemma fst4_register:
  assumes "25 \<le> num_bits" "i \<le> num_bits - 24"
  shows "length (fold (fst4_crc_step message num_bits) [0..<i] (bits_of message 25)) = 25 \<and>
    (\<forall>k<24. fold (fst4_crc_step message num_bits) [0..<i] (bits_of message 25) ! k =
       poly_rem 24 P24 (bits_of message (i + 24)) (23 - k))"
  using assms(2)
proof (induction i)
  case 0
  have "24 - Suc (23 - k) = k" "23 - k < 24" if "k < 24" for k using that by auto
  then show ?case by (simp add: poly_rem_short del: upt_Suc)
next
  case (Suc i)
  let ?r = "fold (fst4_crc_step message num_bits) [0..<i] (bits_of message 25)"
  let ?T = "poly_rem 24 P24 (bits_of message (i + 24))"
  have len: "length ?r = 25" and r: "\<And>k. k < 24 \<Longrightarrow> ?r ! k = ?T (23 - k)" using Suc by simp_all
  have i: "i + 24 < num_bits" using Suc.prems assms(1) by linarith
  have take: "bits_of message (Suc i + 24) = bits_of message (i + 24) @ [GET_BIT message (i + 24)]"
    unfolding add_Suc by (subst upt_Suc_append) simp_all
  have "fst4_crc_step message num_bits i ?r ! k = poly_rem 24 P24 (bits_of message (Suc i + 24)) (23 - k)"
    if k: "k < 24" for k
  proof -
    have "(if k = 23 then GET_BIT message (i + 24) else ?r ! Suc k) =
        (if 23 - k = 0 then GET_BIT message (i + 24) else ?T (23 - k - 1))"
      using k r [of "Suc k"] by (cases "k = 23") auto
    moreover have "?r ! 0 = ?T 23" "23 - k < 24" using r [of 0] by simp_all
    ultimately show ?thesis
      unfolding take poly_rem_snoc fst4_step_nth [OF len k i] rem_shift_def by simp
  qed
  then show ?case by (simp add: fst4_step_length del: upt_Suc) (simp add: fst4_step_length)
qed

lemma collect_bits:
  "m \<le> 32 \<Longrightarrow> bit (fold (\<lambda>i crc. push_bit 1 crc OR of_bool (r ! i)) [0..<m] (0 :: u32)) n \<longleftrightarrow> n < m \<and> r ! (m - 1 - n)"
proof (induction m arbitrary: n)
  case (Suc m)
  let ?c = "fold (\<lambda>i crc. push_bit 1 crc OR of_bool (r ! i)) [0..<m] (0 :: u32)"
  have "bit (push_bit 1 ?c) n \<longleftrightarrow> 0 < n \<and> n < 32 \<and> bit ?c (n - 1)" by (simp only: bit_push_bit_iff) auto
  then have "bit (push_bit 1 ?c OR of_bool (r ! m)) n \<longleftrightarrow> n < Suc m \<and> r ! (Suc m - 1 - n)"
    using Suc by (cases n) (auto simp only: bit_or_iff bit_of_bool_iff, auto)
  then show ?case by (simp del: push_bit_of_1)
qed simp

lemma fst4_compute_crc_bit:
  assumes "25 \<le> num_bits"
  shows "bit (fst4_compute_crc message num_bits) n \<longleftrightarrow> n < 24 \<and> poly_rem 24 P24 (bits_of message num_bits) n"
proof -
  have "num_bits - 24 + 24 = num_bits" using assms by simp
  then show ?thesis
    using fst4_register [OF assms, of "num_bits - 24" message] collect_bits [of 24 _ n]
    by (auto simp add: fst4_compute_crc_def Let_def simp del: upt_Suc)
qed

lemma fst4_masked_bit:
  assumes "q < length p" "r < 8" "24 \<le> r + 8 * k"
  shows "bit (fst4_compute_crc (masked p q r k) (8 * q + 8 - r + 24)) n \<longleftrightarrow>
    n < 24 \<and> crc_rem 24 P24 (bits_of p (8 * q + 8 - r)) n"
proof -
  have "25 \<le> 8 * q + 8 - r + 24" using assms(2) by linarith
  moreover have "8 * q + 8 - r + 24 \<le> 8 * (q + 1 + k)" using assms(2,3) by auto
  moreover note bits_of_masked [of q p r 24 k]
  ultimately show ?thesis
    using assms by (simp only: fst4_compute_crc_bit crc_rem_def)
qed


section \<open>Frames with a checksum\<close>

text \<open>
  The contract of the three frame formats: \<open>n\<close> payload bits are followed by \<open>w\<close> checksum bits, the
  remainder of the payload extended by \<open>z\<close> zeros; \<open>add\<close> appends it, \<open>check\<close> compares it.
\<close>

definition crc_field :: "nat \<Rightarrow> nat \<Rightarrow> (nat \<Rightarrow> bool) \<Rightarrow> nat \<Rightarrow> u8 list \<Rightarrow> nat \<Rightarrow> bool" where
  "crc_field w z P n p j = crc_rem w P (bits_of p n @ replicate z False) (w - 1 - j)"

text \<open>Two frames differ by a burst: in at least one bit, and only inside the window of \<open>w\<close> bits from \<open>i\<close>.\<close>

definition burst :: "nat \<Rightarrow> nat \<Rightarrow> u8 list \<Rightarrow> u8 list \<Rightarrow> bool" where
  "burst i w a b \<longleftrightarrow> (\<exists>k < i + w. i \<le> k \<and> GET_BIT a k \<noteq> GET_BIT b k) \<and>
     (\<forall>m < 101. \<not> (i \<le> m \<and> m < i + w) \<longrightarrow> GET_BIT a m = GET_BIT b m)"

locale checksum_frame =
  fixes n w z :: nat
    and P :: "nat \<Rightarrow> bool"
    and add :: "u8 list \<Rightarrow> u8 list"
    and check :: "u8 list \<Rightarrow> bool"
    and payload_bytes frame_bytes :: nat
  assumes generator: "0 < w" "P 0" and frame_size: "n + w \<le> 101"
    and check_iff: "frame_bytes \<le> length a \<Longrightarrow> check a \<longleftrightarrow> (\<forall>j<w. GET_BIT a (n + j) = crc_field w z P n a j)"
    and add_length: "payload_bytes \<le> length p \<Longrightarrow> length (add p) = frame_bytes"
    and add_payload: "payload_bytes \<le> length p \<Longrightarrow> i < n \<Longrightarrow> GET_BIT (add p) i = GET_BIT p i"
    and add_crc: "payload_bytes \<le> length p \<Longrightarrow> j < w \<Longrightarrow> GET_BIT (add p) (n + j) = crc_field w z P n p j"
begin

lemma crc_field_cong: "(\<And>i. i < n \<Longrightarrow> GET_BIT a i = GET_BIT b i) \<Longrightarrow> crc_field w z P n a j = crc_field w z P n b j"
  unfolding crc_field_def by (rule arg_cong [where f = "\<lambda>xs. crc_rem w P (xs @ replicate z False) (w - 1 - j)"]) simp

lemma check_add: "payload_bytes \<le> length p \<Longrightarrow> check (add p)"
  using crc_field_cong [of "add p" p] by (simp add: check_iff add_length add_payload add_crc)

lemma shift_inj:
  assumes "rem_shift w P False T = (\<lambda>_. False)" "\<And>k. w \<le> k \<Longrightarrow> \<not> T k"
  shows "T k = False"
proof -
  have shifted: "\<not> rem_shift w P False T i" for i using assms(1) by simp
  have top: "\<not> T (w - 1)" using shifted [of 0] generator by (simp add: rem_shift_def)
  show ?thesis
  proof (cases "Suc k < w")
    case True
    then show ?thesis using shifted [of "Suc k"] top by (simp add: rem_shift_def)
  next
    case False
    then show ?thesis using top assms(2) [of k] by (cases "k = w - 1") auto
  qed
qed

lemma shifts_inj:
  assumes "fold (rem_shift w P) (replicate m False) T = (\<lambda>_. False)" "\<And>k. w \<le> k \<Longrightarrow> \<not> T k"
  shows "T = (\<lambda>_. False)"
  using assms
proof (induction m arbitrary: T)
  case (Suc m)
  have "rem_shift w P False T = (\<lambda>_. False)" using Suc by (simp add: rem_shift_below)
  then show ?case using shift_inj [of T] Suc.prems(2) by blast
qed simp

text \<open>A polynomial \<open>x ^ k * e\<close> with \<open>e\<close> of degree below \<open>w\<close> has remainder 0 only if \<open>e\<close> is 0.\<close>

lemma burst_remainder:
  assumes "crc_rem w P (replicate i False @ e @ replicate m False) = (\<lambda>_. False)" "length e \<le> w"
  shows "e = replicate (length e) False"
proof -
  have "fold (rem_shift w P) (replicate (m + w) False) (poly_rem w P e) = (\<lambda>_. False)"
    using assms(1) poly_rem_lead [of w P i "e @ replicate (m + w) False"]
    by (simp add: crc_rem_def poly_rem_def replicate_add)
  then have "poly_rem w P e = (\<lambda>_. False)"
    by (rule shifts_inj) (simp add: poly_rem_def fold_rem_below)
  then have zero: "\<not> (k < length e \<and> e ! (length e - 1 - k))" for k
    unfolding poly_rem_short [OF assms(2)] by metis
  have "e ! k = False" if "k < length e" for k
    using zero [of "length e - 1 - k"] that by simp
  then show ?thesis by (intro nth_equalityI) auto
qed

lemma burst_changes_crc:
  assumes same: "\<And>k. k < n \<Longrightarrow> \<not> (i \<le> k \<and> k < i + w) \<Longrightarrow> GET_BIT a k = GET_BIT b k"
    and "i + w \<le> n" "i \<le> k" "k < i + w" "GET_BIT a k \<noteq> GET_BIT b k"
  shows "\<exists>j<w. crc_field w z P n a j \<noteq> crc_field w z P n b j"
proof (rule ccontr)
  assume "\<not> ?thesis"
  then have eq: "crc_field w z P n a j = crc_field w z P n b j" if "j < w" for j using that by blast
  let ?A = "bits_of a n @ replicate z False" and ?B = "bits_of b n @ replicate z False"
  let ?e = "map (\<lambda>k. GET_BIT a (i + k) \<noteq> GET_BIT b (i + k)) [0..<w]"
  have "crc_rem w P ?A m = crc_rem w P ?B m" for m
  proof (cases "m < w")
    case True
    then show ?thesis using eq [of "w - 1 - m"] by (simp add: crc_field_def)
  next
    case False
    then have "\<not> crc_rem w P xs m" for xs unfolding crc_rem_def poly_rem_def by (intro fold_rem_below) auto
    then show ?thesis by simp
  qed
  then have zero: "fxor (crc_rem w P ?A) (crc_rem w P ?B) = (\<lambda>_. False)" by (simp add: fxor_def)
  have diff: "map2 (\<noteq>) (?A @ replicate w False) (?B @ replicate w False) =
      (replicate i False @ ?e @ replicate (n - i - w + z) False) @ replicate w False"
    using assms(2) by (intro nth_equalityI) (auto simp: nth_append same simp del: upt_Suc)
  have "crc_rem w P (replicate i False @ ?e @ replicate (n - i - w + z) False) = (\<lambda>_. False)"
    unfolding zero [symmetric] unfolding crc_rem_def diff [symmetric] by (rule poly_rem_xor) simp
  then have "?e = replicate (length ?e) False" by (rule burst_remainder) simp
  then have "?e ! (k - i) = False" using assms(3,4) by (simp del: upt_Suc nth_map) 
  then show False using assms(3-5) by simp
qed

lemma burst_detected:
  assumes "frame_bytes \<le> length a" "frame_bytes \<le> length b" "burst i w a b \<and> i + w \<le> n \<and> check a"
  shows "\<not> check b"
proof -
  from assms(3) obtain k where k: "i \<le> k" "k < i + w" "GET_BIT a k \<noteq> GET_BIT b k" and check: "check a" "i + w \<le> n"
    and same: "\<And>k. k < n + w \<Longrightarrow> \<not> (i \<le> k \<and> k < i + w) \<Longrightarrow> GET_BIT a k = GET_BIT b k"
    unfolding burst_def using frame_size by auto
  obtain j where j: "j < w" "crc_field w z P n a j \<noteq> crc_field w z P n b j"
    using burst_changes_crc [of i a b k] k check same by auto
  have "GET_BIT a (n + j) = GET_BIT b (n + j)" using same [of "n + j"] j check by simp
  then show ?thesis using j assms(1,2) check check_iff by metis
qed

end


section \<open>The three frame formats\<close>

lemma GET_BIT_stored_payload:
  assumes "q < length p" "r \<le> 8" "i < 8 * q + 8 - r" "\<And>n. bit x n \<Longrightarrow> n < r"
  shows "GET_BIT (take q p @ (p ! q AND NOT (mask r) OR x) # rest) i = GET_BIT p i"
proof (cases "i div 8 < q")
  case True
  then show ?thesis using assms(1) by (simp add: GET_BIT_def nth_append)
next
  case False
  have i: "i = 8 * (i div 8) + i mod 8" "i mod 8 < 8" by simp_all
  then have "i div 8 = q" "r \<le> 7 - i mod 8" using False assms(2,3) by linarith+
  moreover from this have "\<not> bit x (7 - i mod 8)" using assms(4) by (meson not_le)
  moreover have "7 - i mod 8 < 8" by simp
  ultimately show ?thesis using assms(1)
    by (simp add: GET_BIT_def nth_append bit_or_iff bit_and_iff bit_not_iff bit_mask_iff)
qed

lemma ftx_compute_crc_cong:
  assumes "\<And>i. i < k \<Longrightarrow> m ! (i div 8) = m' ! (i div 8)"
  shows "ftx_compute_crc m k = ftx_compute_crc m' k"
proof -
  have "fold (crc_step m) [0..<k] 0 = fold (crc_step m') [0..<k] 0"
    using assms by (intro fold_cong refl) (simp add: crc_step_def fun_eq_iff)
  then show ?thesis by (simp add: ftx_compute_crc_def)
qed

lemma ftx_add_crc_bytes:
  assumes "10 \<le> length p" "12 \<le> length a"
  shows "ftx_add_crc p a = (let cs = ftx_compute_crc (masked p 9 3 2) 82 in
     take 9 p @ (p ! 9 AND NOT (mask 3) OR ucast (drop_bit 11 cs)) # [ucast (drop_bit 3 cs), ucast (push_bit 5 cs)] @ drop 12 a)"
proof -
  have p: "take 10 p = take 9 p @ [p ! 9]" using assms(1) take_Suc_conv_app_nth [of 9 p] by simp
  have l: "length (take 9 p) = 9" using assms(1) by simp
  have a: "drop 10 a = a ! 10 # a ! 11 # drop 12 a"
    using assms(2) Cons_nth_drop_Suc [of 10 a] Cons_nth_drop_Suc [of 11 a] by simp
  obtain t where t: "take 9 p = t" "length t = 9" using l by blast
  let ?m = "t @ [p ! 9 AND NOT (mask 3), 0, a ! 11] @ drop 12 a"
  have cs: "ftx_compute_crc ?m 82 = ftx_compute_crc (masked p 9 3 2) 82"
  proof (rule ftx_compute_crc_cong)
    fix i :: nat assume "i < 82"
    then have "i div 8 < 11" by simp
    then have "i div 8 < 9 \<or> i div 8 = 9 \<or> i div 8 = 10" by linarith
    then show "?m ! (i div 8) = masked p 9 3 2 ! (i div 8)"
      by (elim disjE) (simp_all add: masked_def t nth_append numeral_2_eq_2)
  qed
  show ?thesis
    unfolding ftx_add_crc_def p a t(1) byte_masks Let_def
    using cs by (simp add: nth_append list_update_append t(2))
qed

lemma ftx_stored_crc:
  assumes "\<And>n. 14 \<le> n \<Longrightarrow> \<not> bit cs n" "length t = 9" "j < 14"
  shows "GET_BIT (t @ (b AND NOT (mask 3) OR ucast (drop_bit 11 (cs :: u16))) # ucast (drop_bit 3 cs) # ucast (push_bit 5 cs) # rest) (77 + j)
    = bit cs (13 - j)"
  using assms(3) unfolding less_14
  by (elim insertE emptyE) (simp_all add: GET_BIT_def nth_append assms(1,2) bit_simps)

lemma ftx_add_check_bit:
  assumes "10 \<le> length p" "12 \<le> length a"
  shows "i < 77 \<Longrightarrow> GET_BIT (ftx_add_crc p a) i = GET_BIT p i"
    and "j < 14 \<Longrightarrow> GET_BIT (ftx_add_crc p a) (77 + j) = crc_field 14 5 P14 77 p j"
    and "length (ftx_add_crc p a) = length a"
proof -
  let ?cs = "ftx_compute_crc (masked p 9 3 2) 82"
  have high: "14 \<le> n \<Longrightarrow> \<not> bit ?cs n" for n by (rule ftx_crc_bits_high)
  have "n < 3" if "bit (ucast (drop_bit 11 ?cs) :: u8) n" for n
    using that high [of "n + 11"] by (cases "n < 3") (auto simp: bit_simps add.commute)
  then show "i < 77 \<Longrightarrow> GET_BIT (ftx_add_crc p a) i = GET_BIT p i"
    using GET_BIT_stored_payload [of 9 p 3 i] assms by (simp add: ftx_add_crc_bytes Let_def)
  show "j < 14 \<Longrightarrow> GET_BIT (ftx_add_crc p a) (77 + j) = crc_field 14 5 P14 77 p j"
    using ftx_stored_crc [OF high, of "take 9 p" j "p ! 9" "drop 12 a"] ftx_compute_crc_masked [of p "13 - j"] assms
    by (simp add: ftx_add_crc_bytes Let_def crc_field_def)
  show "length (ftx_add_crc p a) = length a" using assms by (simp add: ftx_add_crc_bytes Let_def)
qed

interpretation ft8_frame: checksum_frame 77 14 5 P14 "\<lambda>p. ftx_add_crc p (replicate 12 0)" ftx_check_crc_packed 10 12
  by unfold_locales
    (simp_all add: check_packed_rem ftx_add_check_bit crc_field_def, simp add: P14_def FTX_CRC_POLYNOMIAL_def)


lemma fst4_masked: "take 9 p @ [p ! 9 AND 0xF8, 0, 0, 0] = masked p 9 3 3"
  by (simp add: masked_def byte_masks numeral_3_eq_3)

lemma fst4_checksum: "9 < length p \<Longrightarrow> bit (fst4_compute_crc (masked p 9 3 3) 101) m \<longleftrightarrow> m < 24 \<and> crc_rem 24 P24 (bits_of p 77) m"
  using fst4_masked_bit [of 9 p 3 3 m] by simp

lemma fst4_extract_bit: "j < 24 \<Longrightarrow> bit (fst4_extract_crc p) (23 - j) = GET_BIT p (77 + j)"
  unfolding less_24
  by (elim insertE emptyE) (simp_all add: fst4_extract_crc_def GET_BIT_def bit_simps byte_masks u8_bit)

lemma fst4_extract_high: "24 \<le> m \<Longrightarrow> \<not> bit (fst4_extract_crc p) m"
proof -
  have "\<not> bit (fst4_extract_crc p) k" if "k \<in> {24, 25, 26, 27, 28, 29, 30, 31}" for k
    using that by (elim insertE emptyE) (simp_all add: fst4_extract_crc_def bit_simps byte_masks u8_bit)
  moreover have "m \<in> {24, 25, 26, 27, 28, 29, 30, 31}" if "24 \<le> m" "m < 32"
    using that unfolding insert_iff empty_iff by linarith
  ultimately show "24 \<le> m \<Longrightarrow> ?thesis"
    using bit_imp_le_length [of "fst4_extract_crc p" m] by (cases "m < 32") auto
qed

lemma fst4_check_rem:
  assumes "9 < length p"
  shows "fst4_check_crc p \<longleftrightarrow> (\<forall>j<24. GET_BIT p (77 + j) = crc_field 24 0 P24 77 p j)"
proof -
  have "fst4_check_crc p \<longleftrightarrow> fst4_extract_crc p = fst4_compute_crc (masked p 9 3 3) 101"
    by (simp add: fst4_check_crc_def fst4_masked)
  also have "\<dots> \<longleftrightarrow> (\<forall>m<24. bit (fst4_extract_crc p) m = crc_rem 24 P24 (bits_of p 77) m)"
    using fst4_checksum [OF assms] by (auto simp: bit_eq_iff simp del: upt_Suc) (metis fst4_extract_high not_le)+
  also have "\<dots> \<longleftrightarrow> (\<forall>j<24. bit (fst4_extract_crc p) (23 - j) = crc_rem 24 P24 (bits_of p 77) (23 - j))"
    using all_rev [of 23] by simp
  finally show ?thesis by (simp add: fst4_extract_bit crc_field_def)
qed

lemma fst4_stored:
  assumes "\<And>n. 24 \<le> n \<Longrightarrow> \<not> bit cs n" "length t = 9" "j < 24"
  shows "GET_BIT (t @ [b AND NOT (mask 3) OR ucast (drop_bit 21 (cs :: u32)), ucast (drop_bit 13 cs), ucast (drop_bit 5 cs),
      ucast (push_bit 3 cs)]) (77 + j) = bit cs (23 - j)"
  using assms(3) unfolding less_24
  by (elim insertE emptyE) (simp_all add: GET_BIT_def nth_append assms(1,2) bit_simps)

lemma fst4_add_bit:
  assumes "9 < length p"
  shows "i < 77 \<Longrightarrow> GET_BIT (fst4_add_crc p) i = GET_BIT p i"
    and "j < 24 \<Longrightarrow> GET_BIT (fst4_add_crc p) (77 + j) = crc_field 24 0 P24 77 p j"
    and "length (fst4_add_crc p) = 13"
proof -
  let ?cs = "fst4_compute_crc (masked p 9 3 3) 101"
  have high: "24 \<le> m \<Longrightarrow> \<not> bit ?cs m" for m using fst4_checksum [OF assms] by simp
  have add: "fst4_add_crc p = take 9 p @ [p ! 9 AND NOT (mask 3) OR ucast (drop_bit 21 ?cs), ucast (drop_bit 13 ?cs),
      ucast (drop_bit 5 ?cs), ucast (push_bit 3 ?cs)]"
    unfolding fst4_add_crc_def Let_def fst4_masked by (simp add: byte_masks)
  have low: "m < 3" if "bit (ucast (drop_bit 21 ?cs) :: u8) m" for m
    using that high [of "m + 21"] by (cases "m < 3") (auto simp: bit_simps add.commute)
  show "i < 77 \<Longrightarrow> GET_BIT (fst4_add_crc p) i = GET_BIT p i"
    unfolding add using GET_BIT_stored_payload [OF assms, of 3 i] low by simp
  show "j < 24 \<Longrightarrow> GET_BIT (fst4_add_crc p) (77 + j) = crc_field 24 0 P24 77 p j"
    unfolding add using fst4_stored [OF high, of "take 9 p" j "p ! 9"] fst4_checksum [OF assms, of "23 - j"] assms diff_le_self [of 23 j]
    by (simp add: crc_field_def)
  show "length (fst4_add_crc p) = 13" unfolding add using assms by simp
qed

interpretation fst4_frame: checksum_frame 77 24 0 P24 fst4_add_crc fst4_check_crc 10 13
  by unfold_locales (simp_all add: fst4_check_rem fst4_add_bit, simp add: P24_def)

lemma fst4w_masked: "take 6 p @ [p ! 6 AND 0xC0, 0, 0, 0] = masked p 6 6 3"
  by (simp add: masked_def byte_masks numeral_3_eq_3)

lemma fst4w_checksum: "6 < length p \<Longrightarrow> bit (fst4_compute_crc (masked p 6 6 3) 74) m \<longleftrightarrow> m < 24 \<and> crc_rem 24 P24 (bits_of p 50) m"
  using fst4_masked_bit [of 6 p 6 3 m] by simp

lemma fst4w_extract_bit: "j < 24 \<Longrightarrow> bit (fst4w_extract_crc p) (23 - j) = GET_BIT p (50 + j)"
  unfolding less_24
  by (elim insertE emptyE) (simp_all add: fst4w_extract_crc_def GET_BIT_def bit_simps byte_masks u8_bit)

lemma fst4w_extract_high: "24 \<le> m \<Longrightarrow> \<not> bit (fst4w_extract_crc p) m"
proof -
  have "\<not> bit (fst4w_extract_crc p) k" if "k \<in> {24, 25, 26, 27, 28, 29, 30, 31}" for k
    using that by (elim insertE emptyE) (simp_all add: fst4w_extract_crc_def bit_simps byte_masks u8_bit)
  moreover have "m \<in> {24, 25, 26, 27, 28, 29, 30, 31}" if "24 \<le> m" "m < 32"
    using that unfolding insert_iff empty_iff by linarith
  ultimately show "24 \<le> m \<Longrightarrow> ?thesis"
    using bit_imp_le_length [of "fst4w_extract_crc p" m] by (cases "m < 32") auto
qed

lemma fst4w_check_rem:
  assumes "6 < length p"
  shows "fst4w_check_crc p \<longleftrightarrow> (\<forall>j<24. GET_BIT p (50 + j) = crc_field 24 0 P24 50 p j)"
proof -
  have "fst4w_check_crc p \<longleftrightarrow> fst4w_extract_crc p = fst4_compute_crc (masked p 6 6 3) 74"
    by (simp add: fst4w_check_crc_def fst4w_masked)
  also have "\<dots> \<longleftrightarrow> (\<forall>m<24. bit (fst4w_extract_crc p) m = crc_rem 24 P24 (bits_of p 50) m)"
    using fst4w_checksum [OF assms] by (auto simp: bit_eq_iff simp del: upt_Suc) (metis fst4w_extract_high not_le)+
  also have "\<dots> \<longleftrightarrow> (\<forall>j<24. bit (fst4w_extract_crc p) (23 - j) = crc_rem 24 P24 (bits_of p 50) (23 - j))"
    using all_rev [of 23] by simp
  finally show ?thesis by (simp add: fst4w_extract_bit crc_field_def)
qed

lemma fst4w_stored:
  assumes "\<And>n. 24 \<le> n \<Longrightarrow> \<not> bit cs n" "length t = 6" "j < 24"
  shows "GET_BIT (t @ [b AND NOT (mask 6) OR ucast (drop_bit 18 (cs :: u32)), ucast (drop_bit 10 cs), ucast (drop_bit 2 cs),
      ucast (push_bit 6 cs)]) (50 + j) = bit cs (23 - j)"
  using assms(3) unfolding less_24
  by (elim insertE emptyE) (simp_all add: GET_BIT_def nth_append assms(1,2) bit_simps)

lemma fst4w_add_bit:
  assumes "6 < length p"
  shows "i < 50 \<Longrightarrow> GET_BIT (fst4w_add_crc p) i = GET_BIT p i"
    and "j < 24 \<Longrightarrow> GET_BIT (fst4w_add_crc p) (50 + j) = crc_field 24 0 P24 50 p j"
    and "length (fst4w_add_crc p) = 10"
proof -
  let ?cs = "fst4_compute_crc (masked p 6 6 3) 74"
  have high: "24 \<le> m \<Longrightarrow> \<not> bit ?cs m" for m using fst4w_checksum [OF assms] by simp
  have add: "fst4w_add_crc p = take 6 p @ [p ! 6 AND NOT (mask 6) OR ucast (drop_bit 18 ?cs), ucast (drop_bit 10 ?cs),
      ucast (drop_bit 2 ?cs), ucast (push_bit 6 ?cs)]"
    unfolding fst4w_add_crc_def Let_def fst4w_masked by (simp add: byte_masks)
  have low: "m < 6" if "bit (ucast (drop_bit 18 ?cs) :: u8) m" for m
    using that high [of "m + 18"] by (cases "m < 6") (auto simp: bit_simps add.commute)
  show "i < 50 \<Longrightarrow> GET_BIT (fst4w_add_crc p) i = GET_BIT p i"
    unfolding add using GET_BIT_stored_payload [OF assms, of 6 i] low by simp
  show "j < 24 \<Longrightarrow> GET_BIT (fst4w_add_crc p) (50 + j) = crc_field 24 0 P24 50 p j"
    unfolding add using fst4w_stored [OF high, of "take 6 p" j "p ! 6"] fst4w_checksum [OF assms, of "23 - j"] assms diff_le_self [of 23 j]
    by (simp add: crc_field_def)
  show "length (fst4w_add_crc p) = 10" unfolding add using assms by simp
qed

interpretation fst4w_frame: checksum_frame 50 24 0 P24 fst4w_add_crc fst4w_check_crc 7 10
  by unfold_locales (simp_all add: fst4w_check_rem fst4w_add_bit, simp add: P24_def)


text \<open>
  C11: adding a checksum and checking it. For FT8/FT4 (77 + 14 bits), FST4 (77 + 24) and FST4W
  (50 + 24), the frame made from any payload passes its check and carries the payload bits unchanged;
  bytes of the FT8 array behind the twelfth are not touched.
\<close>

theorem crc_frames_roundtrip:
  assumes "10 \<le> length p" and "12 \<le> length a"
  shows "ftx_check_crc_packed (ftx_add_crc p a) \<and> fst4_check_crc (fst4_add_crc p) \<and> fst4w_check_crc (fst4w_add_crc p) \<and>
    bits_of (ftx_add_crc p a) 77 = bits_of p 77 \<and> drop 12 (ftx_add_crc p a) = drop 12 a \<and>
    bits_of (fst4_add_crc p) 77 = bits_of p 77 \<and> bits_of (fst4w_add_crc p) 50 = bits_of p 50"
proof (intro conjI)
  show bits: "bits_of (ftx_add_crc p a) 77 = bits_of p 77"
    using assms by (simp add: ftx_add_check_bit del: upt_Suc)
  then show "ftx_check_crc_packed (ftx_add_crc p a)"
    using assms by (simp add: check_packed_rem ftx_add_check_bit crc_field_def del: upt_Suc map_eq_conv)
  show "fst4_check_crc (fst4_add_crc p)" "fst4w_check_crc (fst4w_add_crc p)"
    using fst4_frame.check_add [of p] fst4w_frame.check_add [of p] assms by simp_all
  show "bits_of (fst4_add_crc p) 77 = bits_of p 77"
    "bits_of (fst4w_add_crc p) 50 = bits_of p 50"
    using assms by (simp_all add: fst4_add_bit fst4w_add_bit del: upt_Suc)
  show "drop 12 (ftx_add_crc p a) = drop 12 a" using assms by (simp add: ftx_add_crc_bytes Let_def)
qed

lemma crc_frames_roundtrip_witness:
  "fst4_check_crc (fst4_add_crc [1, 2, 3, 4, 5, 6, 7, 8, 9, 0x5A]) \<and>
   ftx_check_crc_packed (ftx_add_crc [1, 2, 3, 4, 5, 6, 7, 8, 9, 0x5A] (replicate 12 0xFF))"
proof -
  have "10 \<le> length [1, 2, 3, 4, 5, 6, 7, 8, 9, 0x5A :: u8]" "12 \<le> length (replicate 12 (0xFF :: u8))" by simp_all
  from crc_frames_roundtrip [OF this] show ?thesis by blast
qed

text \<open>
  C31: every burst of errors within 14 payload bits of an FT8 frame, and within 24 payload bits of
  an FST4 or FST4W frame, is detected: if a frame passes its check, a frame that differs from it by
  such a burst fails.
\<close>

theorem crc_burst_detected:
  assumes "13 \<le> length a" and "13 \<le> length b"
  shows "(burst i 14 a b \<and> i + 14 \<le> 77 \<and> ftx_check_crc_packed a \<longrightarrow> \<not> ftx_check_crc_packed b) \<and>
    (burst i 24 a b \<and> i + 24 \<le> 77 \<and> fst4_check_crc a \<longrightarrow> \<not> fst4_check_crc b) \<and>
    (burst i 24 a b \<and> i + 24 \<le> 50 \<and> fst4w_check_crc a \<longrightarrow> \<not> fst4w_check_crc b)"
proof (intro conjI impI)
  show "burst i 14 a b \<and> i + 14 \<le> 77 \<and> ftx_check_crc_packed a \<Longrightarrow> \<not> ftx_check_crc_packed b"
    by (rule ft8_frame.burst_detected [of a b i]) (use assms in simp_all)
  show "burst i 24 a b \<and> i + 24 \<le> 77 \<and> fst4_check_crc a \<Longrightarrow> \<not> fst4_check_crc b"
    by (rule fst4_frame.burst_detected [of a b i]) (use assms in simp_all)
  show "burst i 24 a b \<and> i + 24 \<le> 50 \<and> fst4w_check_crc a \<Longrightarrow> \<not> fst4w_check_crc b"
    by (rule fst4w_frame.burst_detected [of a b i]) (use assms in simp_all)
qed

lemma crc_burst_detected_witness:
  "\<not> ftx_check_crc_packed (0x01 # replicate 12 0) \<and> \<not> fst4_check_crc (0x01 # replicate 12 0) \<and>
   \<not> fst4w_check_crc (0x01 # replicate 12 0)"
proof -
  let ?a = "replicate 13 0 :: u8 list" and ?b = "0x01 # replicate 12 0 :: u8 list"
  have a: "\<not> GET_BIT ?a m" if "m < 104" for m
  proof -
    have "m div 8 < 13" using that by simp
    then show ?thesis by (simp only: GET_BIT_def nth_replicate) simp
  qed
  have b: "GET_BIT ?b m \<longleftrightarrow> m = 7" if "m < 104" for m
  proof (cases "m div 8")
    case 0
    then have "m mod 8 = m" "m < 8" by simp_all
    then show ?thesis by (auto simp: GET_BIT_def 0 bit_1_iff)
  next
    case (Suc d)
    then have "d < 12" "m \<noteq> 7" using that by auto
    then show ?thesis by (simp only: GET_BIT_def Suc nth_Cons_Suc nth_replicate) simp
  qed
  have zero: "bits_of ?a n = replicate n False" if "n \<le> 104" for n
    using that a by (intro nth_equalityI) auto
  have "burst 7 14 ?a ?b" "burst 7 24 ?a ?b" 
    unfolding burst_def using a b by (auto intro!: exI [of _ 7])
  moreover have "ftx_check_crc_packed ?a" "fst4_check_crc ?a" "fst4w_check_crc ?a"
    by (simp_all only: check_packed_rem fst4_check_rem fst4w_check_rem length_replicate crc_field_def zero)
      (simp_all add: a crc_rem_def poly_rem_zeros flip: replicate_add)
  ultimately show ?thesis using crc_burst_detected [of ?a ?b 7] by simp
qed

end
