(* ===== verification/LinearCode.thy ===== *)
theory LinearCode
  imports FtxCrc
begin

text \<open>
  Binary linear codes given the way the decoders have them: a generator matrix packed into bytes, the
  list of positions of every parity check, and for every position the list of its checks. The locale
  \<open>linear_code\<close> states what the tables must satisfy; in it, passing all parity checks is proved to be
  the same as being the encoding of one's own information bits.
\<close>

section \<open>Parities\<close>

definition parity :: "bool list \<Rightarrow> bool" where
  "parity bs = foldr (\<noteq>) bs False"

lemma parity_simps [simp]: "parity [] = False" "parity (b # bs) = (b \<noteq> parity bs)"
  by (simp_all add: parity_def)

lemma parity_append [simp]: "parity (xs @ ys) = (parity xs \<noteq> parity ys)"
  by (induction xs) auto

lemma parity_map_xor: "parity (map (\<lambda>x. f x \<noteq> g x) xs) = (parity (map f xs) \<noteq> parity (map g xs))"
  by (induction xs) auto

lemma parity_map_and: "parity (map (\<lambda>x. b \<and> f x) xs) = (b \<and> parity (map f xs))"
  by (induction xs) auto

lemma parity_map_False [simp]: "parity (map (\<lambda>_. False) xs) = False"
  by (induction xs) auto

lemma parity_swap:
  "parity (map (\<lambda>x. parity (map (f x) ys)) xs) = parity (map (\<lambda>y. parity (map (\<lambda>x. f x y) xs)) ys)"
proof (induction xs)
  case (Cons x xs)
  then show ?case by (simp only: list.map parity_simps parity_map_xor)
qed simp

lemma parity_single:
  "distinct xs \<Longrightarrow> parity (map (\<lambda>x. x = a \<and> f x) xs) = (a \<in> set xs \<and> f a)"
proof (induction xs)
  case (Cons x xs)
  then show ?case by (cases "x = a") auto
qed simp

lemma parity_filter: "parity (map f (filter Q xs)) = parity (map (\<lambda>x. Q x \<and> f x) xs)"
  by (induction xs) auto

lemma parity_set_cong:
  assumes "distinct xs" "distinct ys" "set xs = set ys"
  shows "parity (map f xs) = parity (map f ys)"
proof -
  have odd: "parity (map f zs) = odd (\<Sum>z\<in>set zs. of_bool (f z) :: nat)" if "distinct zs" for zs
    using that by (induction zs) (auto simp del: sum_of_bool_eq)
  show ?thesis using assms by (simp only: odd)
qed

section \<open>Rows of bytes and masks\<close>

definition xor_rows :: "nat \<Rightarrow> u8 list list \<Rightarrow> u8 list" where
  "xor_rows B rs = foldr (map2 (XOR)) rs (replicate B 0)"

lemma xor_rows_simps [simp]: "xor_rows B [] = replicate B 0" "xor_rows B (x # xs) = map2 (XOR) x (xor_rows B xs)"
  by (simp_all add: xor_rows_def)

lemma GET_BIT_xor: "length x = length y \<Longrightarrow> j < 8 * length x \<Longrightarrow> GET_BIT (map2 (XOR) x y) j = (GET_BIT x j \<noteq> GET_BIT y j)"
  by (simp add: GET_BIT_def bit_xor_iff less_mult_imp_div_less mult.commute)

lemma xor_rows_length: "\<forall>r \<in> set rs. length r = B \<Longrightarrow> length (xor_rows B rs) = B"
  by (induction rs) auto

lemma GET_BIT_xor_rows:
  assumes "\<forall>r \<in> set rs. length r = B" "j < 8 * B"
  shows "GET_BIT (xor_rows B rs) j = parity (map (\<lambda>r. GET_BIT r j) rs)"
  using assms(1)
proof (induction rs)
  case Nil
  have "j div 8 < B" using assms(2) by (simp add: less_mult_imp_div_less mult.commute)
  then show ?case by (simp add: GET_BIT_def)
next
  case (Cons r rs)
  then show ?case using assms(2) by (simp add: GET_BIT_xor xor_rows_length)
qed

text \<open>The row with the single bit \<open>j\<close>.\<close>

definition unit_row :: "nat \<Rightarrow> nat \<Rightarrow> u8 list" where
  "unit_row B j = (replicate B 0)[j div 8 := push_bit (7 - j mod 8) 1]"

lemma unit_row_length [simp]: "length (unit_row B j) = B"
  by (simp add: unit_row_def)

lemma GET_BIT_unit_row: "j < 8 * B \<Longrightarrow> k < 8 * B \<Longrightarrow> GET_BIT (unit_row B j) k \<longleftrightarrow> k = j"
proof -
  assume "j < 8 * B" "k < 8 * B"
  then have d: "j div 8 < B" "k div 8 < B" by (simp_all add: less_mult_imp_div_less mult.commute)
  have eq: "k = j \<longleftrightarrow> k div 8 = j div 8 \<and> k mod 8 = j mod 8" by (metis mult_div_mod_eq)
  have "7 - k mod 8 = 7 - j mod 8 \<longleftrightarrow> k mod 8 = j mod 8"
    using mod_less_divisor [of 8 k] mod_less_divisor [of 8 j] by linarith
  then show ?thesis
    unfolding eq using d by (auto simp: GET_BIT_def unit_row_def nth_list_update bit_exp_iff)
qed

definition xor_all :: "int list \<Rightarrow> int" where
  "xor_all xs = foldr (XOR) xs 0"

lemma xor_all_simps [simp]: "xor_all [] = 0" "xor_all (x # xs) = x XOR xor_all xs"
  by (simp_all add: xor_all_def)

lemma bit_xor_all: "bit (xor_all xs) k = parity (map (\<lambda>x. bit x k) xs)"
  by (induction xs) (auto simp: bit_xor_iff)

section \<open>Tables as equations\<close>

text \<open>
  The conditions on the tables are decided by rewriting. To look a row up in one step, a table is
  turned into the equations of its rows: \<open>table_is C xs\<close> unfolds to \<open>C ! 0 = \<dots> \<and> C ! 1 = \<dots>\<close> when \<open>xs\<close> is
  a literal list and \<open>C\<close> a constant.
\<close>

primrec indexed :: "(num \<Rightarrow> 'a) \<Rightarrow> num \<Rightarrow> 'a list \<Rightarrow> bool" where
  "indexed f k [] = True"
| "indexed f k (x # xs) = (f k = x \<and> indexed f (Num.inc k) xs)"
lemma indexed_drop: "indexed (\<lambda>k. xs ! numeral k) k (drop (numeral k) xs)"
proof (induction "length xs - numeral k" arbitrary: k)
  case 0
  then show ?case by simp
next
  case (Suc n)
  then have "numeral k < length xs" by linarith
  from Cons_nth_drop_Suc [OF this] have "drop (numeral k) xs = xs ! numeral k # drop (Suc (numeral k)) xs" by (rule sym)
  moreover have "Suc (numeral k) = numeral (Num.inc k)" by (simp add: numeral_inc)
  moreover have "indexed (\<lambda>k. xs ! numeral k) (Num.inc k) (drop (numeral (Num.inc k)) xs)"
  proof (rule Suc.hyps(1))
    show "n = length xs - numeral (Num.inc k)" using Suc.hyps(2) unfolding numeral_inc by linarith
  qed
  ultimately show ?case by (simp only: indexed.simps)
qed

definition table_is :: "'a list \<Rightarrow> 'a list \<Rightarrow> bool" where
  "table_is C xs = (C ! 0 = hd xs \<and> indexed (\<lambda>k. C ! numeral k) num.One (tl xs))"

lemma table_isI: "xs \<noteq> [] \<Longrightarrow> C = xs \<Longrightarrow> table_is C xs"
  using indexed_drop [of xs num.One] by (simp add: table_is_def hd_conv_nth drop_Suc)


text \<open>A condition on all rows with their numbers.\<close>

primrec rows_all :: "(nat \<Rightarrow> 'a \<Rightarrow> bool) \<Rightarrow> nat \<Rightarrow> 'a list \<Rightarrow> bool" where
  "rows_all P i [] = True"
| "rows_all P i (x # xs) = (P i x \<and> rows_all P (i + 1) xs)"

lemma rows_allD: "rows_all P i xs \<Longrightarrow> k < length xs \<Longrightarrow> P (i + k) (xs ! k)"
proof (induction xs arbitrary: i k)
  case (Cons x xs)
  then show ?case by (cases k) force+
qed simp

section \<open>The code\<close>

text \<open>
  \<open>c\<close> is a codeword: its parity bits, behind the \<open>K\<close> information bits, are the products of the
  generator's rows with the information bits.
\<close>

definition is_codeword :: "nat \<Rightarrow> u8 list list \<Rightarrow> (nat \<Rightarrow> bool) \<Rightarrow> bool" where
  "is_codeword K gen c \<longleftrightarrow>
     (\<forall>i < length gen. c (K + i) = parity (map (\<lambda>j. GET_BIT (gen ! i) j \<and> c j) [0..<K]))"

text \<open>All parity checks hold.\<close>

definition all_checks :: "nat list list \<Rightarrow> (nat \<Rightarrow> bool) \<Rightarrow> bool" where
  "all_checks checks c \<longleftrightarrow> (\<forall>r \<in> set checks. \<not> parity (map c r))"

text \<open>The mask that gives a position of a codeword as a parity of information bits.\<close>

definition position_row :: "nat \<Rightarrow> nat \<Rightarrow> u8 list list \<Rightarrow> nat \<Rightarrow> u8 list" where
  "position_row K B gen n = (if n < K then unit_row B n else gen ! (n - K))"

text \<open>The two index tables describe the same incidence relation.\<close>

definition incident :: "nat list list \<Rightarrow> nat list list \<Rightarrow> bool" where
  "incident checks mn \<longleftrightarrow>
     (\<forall>m < length checks. distinct (checks ! m) \<and> (\<forall>n \<in> set (checks ! m). n < length mn \<and> m \<in> set (mn ! n))) \<and>
     (\<forall>n < length mn. distinct (mn ! n) \<and> (\<forall>m \<in> set (mn ! n). m < length checks \<and> n \<in> set (checks ! m)))"

lemma incidentI:
  assumes "rows_all (\<lambda>m r. distinct r \<and> list_all (\<lambda>n. n < N \<and> m \<in> set (mn ! n)) r) 0 checks"
    and "rows_all (\<lambda>n r. distinct r \<and> list_all (\<lambda>m. m < M \<and> n \<in> set (checks ! m)) r) 0 mn"
    and "length mn = N" "length checks = M"
  shows "incident checks mn"
proof -
  have "distinct (checks ! m) \<and> (\<forall>n \<in> set (checks ! m). n < length mn \<and> m \<in> set (mn ! n))" if "m < length checks" for m
    using rows_allD [OF assms(1) that] unfolding list_all_iff assms(3) add_0 .
  moreover have "distinct (mn ! n) \<and> (\<forall>m \<in> set (mn ! n). m < length checks \<and> n \<in> set (checks ! m))" if "n < length mn" for n
    using rows_allD [OF assms(2) that] unfolding list_all_iff assms(4) add_0 .
  ultimately show ?thesis unfolding incident_def by blast
qed

locale linear_code =
  fixes K B :: nat and gen :: "u8 list list" and checks mn :: "nat list list" and cert :: "int list"
  assumes row_length: "row \<in> set gen \<Longrightarrow> length row = B"
    and width: "K \<le> 8 * B"
    and sizes: "length checks = length gen" "length mn = K + length gen"
    and incidence: "incident checks mn"
    and rows_vanish: "r \<in> set checks \<Longrightarrow> xor_rows B (map (position_row K B gen) r) = replicate B 0"
    and certificate: "i < length gen \<Longrightarrow> xor_all (map ((!) cert) (mn ! (K + i))) = 2 ^ i"
begin

lemma position_row_length: "n < K + length gen \<Longrightarrow> length (position_row K B gen n) = B"
  using row_length by (simp add: position_row_def)

lemma position_row_bit:
  assumes "is_codeword K gen c" "n < K + length gen"
  shows "c n = parity (map (\<lambda>j. GET_BIT (position_row K B gen n) j \<and> c j) [0..<K])"
proof (cases "n < K")
  case True
  have "map (\<lambda>j. GET_BIT (position_row K B gen n) j \<and> c j) [0..<K] = map (\<lambda>j. j = n \<and> c j) [0..<K]"
    using True width by (intro map_cong) (auto simp: position_row_def GET_BIT_unit_row)
  then show ?thesis using True parity_single [of "[0..<K]" n c] by (simp only:) simp
next
  case False
  then obtain i where i: "n = K + i" "i < length gen" using assms(2) by (metis add_diff_inverse_nat nat_add_left_cancel_less)
  then have "position_row K B gen n = gen ! i" by (simp add: position_row_def)
  then show ?thesis using assms(1) i unfolding is_codeword_def by (simp only:)
qed

lemma check_row:
  assumes "m < length checks"
  shows "distinct (checks ! m)" "n \<in> set (checks ! m) \<longleftrightarrow> n < length mn \<and> m \<in> set (mn ! n)"
proof -
  from incidence have *: "\<forall>m < length checks. distinct (checks ! m) \<and> (\<forall>n \<in> set (checks ! m). n < length mn \<and> m \<in> set (mn ! n))"
    "\<forall>n < length mn. distinct (mn ! n) \<and> (\<forall>m \<in> set (mn ! n). m < length checks \<and> n \<in> set (checks ! m))"
    unfolding incident_def by (rule conjunct1, rule conjunct2)
  show "distinct (checks ! m)" using *(1) assms by blast
  show "n \<in> set (checks ! m) \<longleftrightarrow> n < length mn \<and> m \<in> set (mn ! n)" using * assms by blast
qed

lemma position_row:
  assumes "n < length mn"
  shows "distinct (mn ! n)" "m \<in> set (mn ! n) \<Longrightarrow> m < length checks"
proof -
  from incidence have *: "\<forall>n < length mn. distinct (mn ! n) \<and> (\<forall>m \<in> set (mn ! n). m < length checks \<and> n \<in> set (checks ! m))"
    unfolding incident_def by (rule conjunct2)
  show "distinct (mn ! n)" "m \<in> set (mn ! n) \<Longrightarrow> m < length checks" using * assms by blast+
qed

lemma check_positions: "r \<in> set checks \<Longrightarrow> n \<in> set r \<Longrightarrow> n < K + length gen"
  using check_row(2) [of _ n] sizes by (metis in_set_conv_nth)

text \<open>Codewords pass.\<close>

lemma codeword_passes:
  assumes "is_codeword K gen c"
  shows "all_checks checks c"
  unfolding all_checks_def
proof
  fix r assume r: "r \<in> set checks"
  let ?b = "\<lambda>n. GET_BIT (position_row K B gen n)"
  have sum: "parity (map (\<lambda>n. ?b n j) r) = False" if "j < K" for j
  proof -
    have "parity (map (\<lambda>n. ?b n j) r) = GET_BIT (xor_rows B (map (position_row K B gen) r)) j"
      using that width check_positions [OF r] position_row_length
      by (subst GET_BIT_xor_rows) (auto simp: o_def)
    also have "\<dots> = False"
      using rows_vanish [OF r] that width by (simp add: GET_BIT_def less_mult_imp_div_less mult.commute)
    finally show ?thesis .
  qed
  have "map c r = map (\<lambda>n. parity (map (\<lambda>j. ?b n j \<and> c j) [0..<K])) r"
    using position_row_bit [OF assms] check_positions [OF r] by simp
  then have "parity (map c r) = parity (map (\<lambda>n. parity (map (\<lambda>j. ?b n j \<and> c j) [0..<K])) r)"
    by (rule arg_cong)
  also have "\<dots> = parity (map (\<lambda>j. parity (map (\<lambda>n. ?b n j \<and> c j) r)) [0..<K])"
    by (rule parity_swap)
  also have "\<dots> = parity (map (\<lambda>j. c j \<and> parity (map (\<lambda>n. ?b n j) r)) [0..<K])"
    unfolding parity_map_and [symmetric] by (intro arg_cong [where f = parity] map_cong refl) auto
  also have "\<dots> = parity (map (\<lambda>_. False) [0..<K])"
    by (intro arg_cong [where f = parity] map_cong refl) (simp add: sum)
  finally show "\<not> parity (map c r)" by simp
qed

text \<open>A word without information bits that passes is zero.\<close>

lemma passing_zero:
  assumes "all_checks checks c" "\<And>j. j < K \<Longrightarrow> \<not> c j" "i < length gen"
  shows "\<not> c (K + i)"
proof -
  let ?N = "[0..<length mn]" and ?M = "[0..<length checks]"
  let ?on = "\<lambda>m n. m \<in> set (mn ! n)"
  have check: "parity (map (\<lambda>n. ?on m n \<and> c n) ?N) = False" if "m < length checks" for m
  proof -
    have "parity (map c (filter (?on m) ?N)) = parity (map c (checks ! m))"
      by (rule parity_set_cong) (use check_row [OF that] in auto)
    also have "\<dots> = False" using assms(1) that by (auto simp: all_checks_def)
    finally show ?thesis by (simp add: parity_filter)
  qed
  have cert: "parity (map (\<lambda>m. ?on m n \<and> bit (cert ! m) i) ?M) = (n = K + i)" if n: "K \<le> n" "n < length mn" for n
  proof -
    have "parity (map (\<lambda>m. bit (cert ! m) i) (filter (\<lambda>m. ?on m n) ?M)) = parity (map (\<lambda>m. bit (cert ! m) i) (mn ! n))"
      by (rule parity_set_cong) (use position_row [OF n(2)] in auto)
    also have "\<dots> = bit (xor_all (map ((!) cert) (mn ! (K + (n - K))))) i"
      using n by (simp add: bit_xor_all o_def)
    also have "\<dots> = (n = K + i)" using certificate [of "n - K"] n sizes by (auto simp: bit_exp_iff)
    finally show ?thesis by (simp add: parity_filter)
  qed
  have "False = parity (map (\<lambda>m. bit (cert ! m) i \<and> parity (map (\<lambda>n. ?on m n \<and> c n) ?N)) ?M)"
  proof -
    have "map (\<lambda>m. bit (cert ! m) i \<and> parity (map (\<lambda>n. ?on m n \<and> c n) ?N)) ?M = map (\<lambda>_. False) ?M"
      by (rule map_cong [OF refl]) (use check in simp)
    then show ?thesis by (simp only: parity_map_False)
  qed
  also have "\<dots> = parity (map (\<lambda>n. parity (map (\<lambda>m. bit (cert ! m) i \<and> ?on m n \<and> c n) ?M)) ?N)"
    by (simp only: parity_map_and [symmetric]) (rule parity_swap)
  also have "\<dots> = parity (map (\<lambda>n. c n \<and> parity (map (\<lambda>m. ?on m n \<and> bit (cert ! m) i) ?M)) ?N)"
    unfolding parity_map_and [symmetric] by (intro arg_cong [where f = parity] map_cong refl) auto
  also have "\<dots> = parity (map (\<lambda>n. n = K + i \<and> c n) ?N)"
  proof -
    have "(c n \<and> parity (map (\<lambda>m. ?on m n \<and> bit (cert ! m) i) ?M)) = (n = K + i \<and> c n)" if "n < length mn" for n
      using assms(2) [of n] cert [of n] that by (cases "n < K") auto
    then show ?thesis by (intro arg_cong [where f = parity] map_cong) auto
  qed
  also have "\<dots> = c (K + i)" using parity_single [of ?N "K + i" c] sizes assms(3) by simp
  finally show ?thesis by simp
qed

lemma codeword_iff_passes: "is_codeword K gen c \<longleftrightarrow> all_checks checks c"
proof
  assume pass: "all_checks checks c"
  define c' where "c' n = (if n < K then c n else parity (map (\<lambda>j. GET_BIT (gen ! (n - K)) j \<and> c j) [0..<K]))" for n
  have info: "map (\<lambda>j. g j \<and> c' j) [0..<K] = map (\<lambda>j. g j \<and> c j) [0..<K]" for g by (simp add: c'_def)
  have "is_codeword K gen c'" unfolding is_codeword_def info by (simp add: c'_def)
  then have "all_checks checks c'" by (rule codeword_passes)
  with pass have "all_checks checks (\<lambda>n. c n \<noteq> c' n)"
    unfolding all_checks_def parity_map_xor by simp
  then have "c (K + i) = c' (K + i)" if "i < length gen" for i
    using passing_zero [of "\<lambda>n. c n \<noteq> c' n" i] that by (simp add: c'_def)
  then show "is_codeword K gen c" by (simp add: is_codeword_def c'_def)
qed (rule codeword_passes)

end

end
