(* ===== verification/FtxCode.thy ===== *)
theory FtxCode
  imports FtxTables LinearCode
begin

text \<open>
  The tables of the (174,91) code of FT8 and FT4 meet the conditions of \<open>linear_code\<close>: the generator rows
  cancel in every parity check, the two index tables agree, and the parity part is invertible. Indices
  are counted from 0, as the loops use them after their \<open>- 1\<close>.
\<close>

unbundle bit_operations_syntax

section \<open>The (174,91) code\<close>

definition ftx_gen :: "u8 list list" where "ftx_gen = kFTX_LDPC_generator"

text \<open>The positions of the parity checks, without the padding of the table.\<close>

definition ftx_checks :: "nat list list" where
  "ftx_checks = map2 (\<lambda>k r. map (\<lambda>n. n - 1) (take k r)) kFTX_LDPC_Num_rows kFTX_LDPC_Nm"

definition ftx_mn :: "nat list list" where "ftx_mn = map (map (\<lambda>n. n - 1)) kFTX_LDPC_Mn"

text \<open>The inverse of the parity part, by columns: it turns check results back into parity bits.\<close>

definition ftx_cert :: "int list" where
 "ftx_cert = [
  0x63228F3B5311E94620D79,
  0x99649C1FDD80754F38B3,
  0x3268189FBC9339A2DF36A,
  0x402E613C5D496906A750A,
  0x230CEE070E58804087863,
  0x3ED85DCEA9B58B0B3F12C,
  0x58CEB4D04026D0F866D26,
  0x199648AD8227B8AB0C74C,
  0x1A2EE9DE33F73D3E18ED9,
  0x6F2B729766265B9FC419C,
  0x5DFA6171772462791AA42,
  0xE2DB3132366559F86527,
  0x1E1D9240DC10880211AA9,
  0x17F607BBF93D8CBA5D38B,
  0x569D963358AD67720F04,
  0x42E05D0E73D1EDC6763FF,
  0x6EA9399B2983EB40D73BD,
  0x40A4E2CD92FDBF4ACAFC9,
  0x6D8573A9AF0F69B56518D,
  0x24578C6832D3B621AE104,
  0x2083A10EA5490225640B3,
  0x492AAF096721B85AB853A,
  0x68A0A87A30116B36D8C79,
  0x76F5CF7C9BF134DCFF114,
  0x5BA86361091236A7499C5,
  0x75E19C72FAC802138DF91,
  0x32D66C122ECA8CD055CFD,
  0x6F481A52D67EE8DC6E04B,
  0x45EC9993876EB97DE282E,
  0x36747878F47158CAD630A,
  0x1221F410C6A2EEEB7820E,
  0x61D0C0F0A8E00EDC93C8A,
  0x129F809D54FBDB99F2D9D,
  0x7CE5524740A0D36F92FA1,
  0x5D9949B4C77CD13AB2B95,
  0x65E1515B95FBBCCCFC36E,
  0x57373D49BB31305CA9F93,
  0x7BCCE301C96256AC859B6,
  0x3C3DDE75E00CD993023EB,
  0x6D2D07AC170B6B10DE49E,
  0x47B7A06AF48BEC04AA44C,
  0xAD5503FC439526D32791,
  0x1282CC686E338EFFF1CFF,
  0x28C19E3F9065D36D3CCB0,
  0x582D92DA49BB00283FFC7,
  0x76842659C02E04541912,
  0x5BF10BD15B7E317FF3287,
  0x2C961257A2B6654C92DB4,
  0x52B1BFE491FE3BCBDA98D,
  0x58C00D16C73AD6EC021D5,
  0x52674210A6A6362300A34,
  0x24F6B4109A42F63527FF5,
  0x3669348DCEB93DACD5268,
  0x2BCBC9CE193155295F060,
  0x6328C5B058B343AA1D7,
  0x5487B5E159B0637287E7,
  0x1864EFDB55C769A6E8E1C,
  0x129FDED8CCB752CD7DC8F,
  0x58B2122F62BF644E32DA5,
  0x2FF3FEA5C60A516354FD6,
  0x4A0C66CA8E19EEC347DC9,
  0x5316ACE2862A820CC6077,
  0x4562F05530B2BE69983DD,
  0x75E15032EA04033303C91,
  0x2049EC8F7A31D749A7160,
  0x15D74047C8E0DD9ADFC6C,
  0x112BA36B6FBFDA686BEDA,
  0x1F0210784CD98FF7EDBFD,
  0x4FCBBB5C7337EAF80A0F8,
  0x2A9AA7C6F3808714740D2,
  0x4D46D2A70A466B900113E,
  0x904CE35BA68D15C1F030,
  0x1463D83D7A24DC5F4393D,
  0x436B61B429203E0F87C19,
  0x391E7420E8C6DE24F51EC,
  0x482D92B23644BFD7C0038,
  0x186A521DD2DB6FB2AC2EF,
  0x76BD3A3AEC01E334C86D0,
  0x4789846D465B3BB152CFB,
  0x51B6DC5AD8D7B5122DD95,
  0x100001687FFFBFFFFFFFF,
  0x35005AFA2091DDE79EA78,
  0x7BAFCBC47938E5EF2F861]"

definition ftx_inverse :: "int list" where "ftx_inverse = ftx_cert"

lemma ftx_gen_table: "table_is ftx_gen (kFTX_LDPC_generator)"
  unfolding ftx_gen_def by (rule table_isI) (simp_all add: kFTX_LDPC_generator_def)

lemmas ftx_gen_nth = ftx_gen_table [simplified kFTX_LDPC_generator_def, simplified table_is_def, simplified]

lemma ftx_checks_table: "table_is ftx_checks (map2 (\<lambda>k r. map (\<lambda>n. n - 1) (take k r)) kFTX_LDPC_Num_rows kFTX_LDPC_Nm)"
  unfolding ftx_checks_def by (rule table_isI) (simp_all add: kFTX_LDPC_Num_rows_def kFTX_LDPC_Nm_def)

lemmas ftx_checks_nth = ftx_checks_table [simplified kFTX_LDPC_Num_rows_def kFTX_LDPC_Nm_def, simplified table_is_def, simplified]

lemma ftx_mn_table: "table_is ftx_mn (map (map (\<lambda>n. n - 1)) kFTX_LDPC_Mn)"
  unfolding ftx_mn_def by (rule table_isI) (simp_all add: kFTX_LDPC_Mn_def kFTX_LDPC_Mn_1_def kFTX_LDPC_Mn_2_def)

lemmas ftx_mn_nth = ftx_mn_table [simplified kFTX_LDPC_Mn_def kFTX_LDPC_Mn_1_def kFTX_LDPC_Mn_2_def, simplified table_is_def, simplified]

lemma ftx_inverse_table: "table_is ftx_inverse ftx_cert"
  unfolding ftx_inverse_def by (rule table_isI) (simp_all add: ftx_cert_def)

lemmas ftx_inverse_nth = ftx_inverse_table [simplified ftx_cert_def, simplified table_is_def, simplified]

lemma ftx_lengths: "length ftx_gen = 83" "length ftx_checks = 83" "length ftx_mn = 174"
  by (simp_all add: ftx_gen_def ftx_checks_def ftx_mn_def kFTX_LDPC_generator_def kFTX_LDPC_Num_rows_def kFTX_LDPC_Nm_def kFTX_LDPC_Mn_def kFTX_LDPC_Mn_1_def kFTX_LDPC_Mn_2_def)

lemma ftx_row_length: "list_all (\<lambda>row. length row = 12) ftx_gen"
  by (simp add: ftx_gen_def kFTX_LDPC_generator_def)

lemma ftx_zero_row: "replicate 12 (0 :: u8) = [0, 0, 0, 0, 0, 0, 0, 0, 0, 0, 0, 0]"
  by (simp add: numeral_eq_Suc)

lemma ftx_rows_vanish: "list_all (\<lambda>r. xor_rows 12 (map (position_row 91 12 ftx_gen) r) = replicate 12 0)
  (map2 (\<lambda>k r. map (\<lambda>n. n - 1) (take k r)) kFTX_LDPC_Num_rows kFTX_LDPC_Nm)"
  by (simp add: kFTX_LDPC_Num_rows_def kFTX_LDPC_Nm_def position_row_def unit_row_def ftx_gen_nth ftx_zero_row)

lemma ftx_incident1: "rows_all (\<lambda>m r. distinct r \<and> list_all (\<lambda>n. n < 174 \<and> m \<in> set (ftx_mn ! n)) r) 0 (map2 (\<lambda>k r. map (\<lambda>n. n - 1) (take k r)) kFTX_LDPC_Num_rows kFTX_LDPC_Nm)"
  by (simp add: kFTX_LDPC_Num_rows_def kFTX_LDPC_Nm_def ftx_mn_nth)

lemma ftx_incident2: "rows_all (\<lambda>n r. distinct r \<and> list_all (\<lambda>m. m < 83 \<and> n \<in> set (ftx_checks ! m)) r) 0 (map (map (\<lambda>n. n - 1)) kFTX_LDPC_Mn)"
  by (simp add: kFTX_LDPC_Mn_def kFTX_LDPC_Mn_1_def kFTX_LDPC_Mn_2_def ftx_checks_nth)

lemma ftx_certificate: "rows_all (\<lambda>i r. xor_all (map ((!) ftx_inverse) r) = 2 ^ i) 0 (drop 91 (map (map (\<lambda>n. n - 1)) kFTX_LDPC_Mn))"
  by (simp add: kFTX_LDPC_Mn_def kFTX_LDPC_Mn_1_def kFTX_LDPC_Mn_2_def ftx_inverse_nth)

interpretation ftx_code: linear_code 91 12 ftx_gen ftx_checks ftx_mn ftx_inverse
proof
  show "row \<in> set ftx_gen \<Longrightarrow> length row = 12" for row
    using ftx_row_length by (simp add: list_all_iff)
  show "(91 :: nat) \<le> 8 * 12" "length ftx_checks = length ftx_gen" "length ftx_mn = 91 + length ftx_gen"
    by (simp_all add: ftx_lengths)
  show "incident ftx_checks ftx_mn"
    by (rule incidentI [OF ftx_incident1 [folded ftx_checks_def] ftx_incident2 [folded ftx_mn_def]])
      (simp_all add: ftx_lengths)
  show "r \<in> set ftx_checks \<Longrightarrow> xor_rows 12 (map (position_row 91 12 ftx_gen) r) = replicate 12 0" for r
    using ftx_rows_vanish [folded ftx_checks_def] by (simp only: list_all_iff)
  show "i < length ftx_gen \<Longrightarrow> xor_all (map ((!) ftx_inverse) (ftx_mn ! (91 + i))) = 2 ^ i" for i
    using rows_allD [OF ftx_certificate [folded ftx_mn_def], of i] by (simp add: ftx_lengths)
qed

end
