(* ===== verification/Fst4Tables.thy ===== *)
theory Fst4Tables
  imports Prelude
begin

text \<open>
  The matrices of \<open>ft8_lib/ft8/fst4_constants.c\<close>: the (240,101) code of FST4 and the (240,74) code of
  FST4W, rows and columns counted from 0.
\<close>

section \<open>The (240,101) code\<close>

definition kFST4_LDPC_generator :: "u8 list list" where
 "kFST4_LDPC_generator = [
  [0xE2, 0x8D, 0xF1, 0x33, 0xEF, 0xBC, 0x55, 0x4B, 0xCD, 0x30, 0xEB, 0x18, 0x28],
  [0xB1, 0xAD, 0xF9, 0x77, 0x87, 0xF8, 0x1B, 0x4A, 0xC0, 0x2E, 0x0C, 0xAF, 0xF8],
  [0xE7, 0x0C, 0x43, 0xAD, 0xCE, 0x50, 0x36, 0xF8, 0x47, 0xAF, 0x36, 0x75, 0x60],
  [0xC2, 0x66, 0x63, 0xF7, 0xF7, 0xAC, 0xAF, 0xDF, 0x5A, 0xBA, 0xCB, 0x6F, 0x30],
  [0xEB, 0xA9, 0x32, 0x04, 0xDD, 0xFA, 0x3B, 0xCF, 0x99, 0x4A, 0xEA, 0x89, 0x98],
  [0x12, 0x6B, 0x51, 0xE3, 0x3C, 0x6A, 0x74, 0x0A, 0xFA, 0x0D, 0x5C, 0xE9, 0x90],
  [0xB4, 0x1A, 0x15, 0x69, 0xE6, 0xFE, 0xDE, 0x1F, 0x2F, 0x53, 0x95, 0xCB, 0x68],
  [0x1D, 0x3A, 0xF0, 0xBB, 0x43, 0xFD, 0xDB, 0xC6, 0x70, 0xA2, 0x91, 0xCC, 0x70],
  [0xE0, 0xAE, 0xBD, 0x99, 0x21, 0xE2, 0xC9, 0xE1, 0xD4, 0x53, 0xFF, 0xCC, 0xB0],
  [0x89, 0x7D, 0x13, 0x70, 0xF0, 0xDF, 0x94, 0xB8, 0xB2, 0x7A, 0x5E, 0x4F, 0xB8],
  [0x5E, 0x97, 0x53, 0x93, 0x38, 0x00, 0x3B, 0x13, 0xFA, 0x81, 0x98, 0xAD, 0x38],
  [0x72, 0x76, 0xB8, 0x7D, 0xA4, 0xA4, 0xD7, 0x77, 0xE2, 0x75, 0x2F, 0xDD, 0x48],
  [0x98, 0x98, 0x88, 0xBD, 0x3A, 0x85, 0x83, 0x5E, 0x2B, 0xC6, 0xA5, 0x60, 0xF8],
  [0x7E, 0xC4, 0xF4, 0xA5, 0x61, 0x99, 0xAB, 0x0A, 0x8D, 0x6E, 0x10, 0x24, 0x78],
  [0x20, 0x70, 0x07, 0x66, 0x50, 0x90, 0x25, 0x87, 0x82, 0xD1, 0xB3, 0x8A, 0x98],
  [0x1E, 0xA1, 0xF6, 0x1C, 0xD7, 0xF0, 0xB7, 0xEE, 0xD7, 0xDD, 0x34, 0x6A, 0xB8],
  [0x08, 0xF1, 0x50, 0xB2, 0x7C, 0x7F, 0x18, 0xA0, 0x27, 0x78, 0x3D, 0xE0, 0xE8],
  [0xD4, 0x23, 0x24, 0xA4, 0xE2, 0x1B, 0x62, 0xD5, 0x48, 0xD7, 0x86, 0x58, 0x58],
  [0x2E, 0x02, 0x96, 0x56, 0x26, 0x9D, 0x4F, 0xE4, 0x6E, 0x16, 0x7D, 0x21, 0xD0],
  [0x7D, 0x84, 0xAC, 0xB7, 0x73, 0x7B, 0x0C, 0xA6, 0xB6, 0xF2, 0xEF, 0x5E, 0xB0],
  [0x66, 0x74, 0xCA, 0x04, 0x52, 0x8A, 0xD4, 0x78, 0x2B, 0xF5, 0xE1, 0x52, 0x48],
  [0x11, 0x8C, 0xE9, 0x82, 0x5F, 0x56, 0x3A, 0xE4, 0x96, 0x3A, 0xF7, 0xA0, 0xB0],
  [0xFB, 0x06, 0x24, 0x8C, 0xC9, 0x85, 0xE3, 0x14, 0xB1, 0xB3, 0x6C, 0xCD, 0x38],
  [0x1C, 0x47, 0x8B, 0x7A, 0x5A, 0xEC, 0x7E, 0x1C, 0xFC, 0x9C, 0x24, 0xEB, 0x70],
  [0x18, 0x5A, 0x0F, 0x06, 0xA8, 0x4F, 0x7F, 0x4F, 0x48, 0x4C, 0x45, 0x50, 0x20],
  [0x98, 0xB8, 0x40, 0xA3, 0xA7, 0x06, 0x88, 0xCD, 0x58, 0x58, 0x8E, 0x3E, 0x30],
  [0xCF, 0xB7, 0x71, 0x9D, 0xE8, 0x3A, 0x3B, 0xAF, 0x58, 0x2E, 0x5B, 0x2A, 0xA0],
  [0x9D, 0x8C, 0xC6, 0xB5, 0xA0, 0x1F, 0xDB, 0xFA, 0x30, 0x7A, 0x76, 0x90, 0x48],
  [0xED, 0x77, 0x6A, 0x72, 0x8C, 0xA1, 0x62, 0xD6, 0xFC, 0xC8, 0x99, 0x67, 0x60],
  [0x8D, 0x2B, 0x06, 0x81, 0x28, 0xDF, 0xB2, 0xF8, 0xD2, 0x2C, 0x79, 0xDB, 0x50],
  [0xBD, 0x2B, 0xA5, 0x00, 0x07, 0x78, 0x9F, 0xFB, 0x73, 0x24, 0xAA, 0x91, 0x90],
  [0xFD, 0x95, 0x00, 0x8F, 0xE8, 0x88, 0x12, 0x02, 0x5E, 0x78, 0x06, 0x56, 0x10],
  [0x30, 0x27, 0x84, 0x9B, 0xE8, 0xE9, 0x9F, 0x9E, 0xF6, 0x8E, 0xAC, 0x10, 0x20],
  [0x88, 0x57, 0x4E, 0x1E, 0xA3, 0x9D, 0x87, 0x41, 0x4B, 0x15, 0xE8, 0x03, 0xA8],
  [0x89, 0x36, 0x5B, 0x33, 0x0E, 0x76, 0xE6, 0xDD, 0xE7, 0x40, 0xDC, 0xED, 0x08],
  [0xC8, 0x3F, 0x37, 0xB9, 0x13, 0xED, 0x0F, 0x6B, 0x80, 0x2A, 0xAF, 0x21, 0xD8],
  [0xBD, 0xCA, 0x7C, 0x19, 0x59, 0xCA, 0xA7, 0x48, 0x8B, 0x7E, 0xB1, 0x30, 0x30],
  [0x79, 0x4E, 0x0B, 0x48, 0x88, 0xE1, 0xEF, 0x42, 0x99, 0x22, 0x87, 0xDD, 0x98],
  [0x52, 0x6A, 0xC8, 0x7F, 0xBA, 0xA7, 0x90, 0xC6, 0xCD, 0x58, 0x86, 0x4E, 0x08],
  [0x94, 0x05, 0x18, 0xBA, 0x1A, 0x51, 0xC1, 0xDA, 0x55, 0xBC, 0x8B, 0x2D, 0x70],
  [0x59, 0xC5, 0xE5, 0x1E, 0xBF, 0xBD, 0x02, 0xAB, 0x30, 0xFF, 0x82, 0x23, 0x78],
  [0xC8, 0x1F, 0xFF, 0x87, 0x86, 0x6E, 0x04, 0xF8, 0xF3, 0x94, 0x8C, 0x7F, 0x10],
  [0x79, 0x13, 0x51, 0x3F, 0x3E, 0x2A, 0x3C, 0x0F, 0x76, 0xB6, 0x9F, 0x6D, 0x68],
  [0xE4, 0x3C, 0xC0, 0x4D, 0xA1, 0x89, 0xC4, 0x48, 0x03, 0xC4, 0xF7, 0x40, 0xA0],
  [0xFD, 0xCA, 0x7C, 0x19, 0x59, 0xCA, 0x85, 0x48, 0x8B, 0x7E, 0xB1, 0x30, 0x30],
  [0x95, 0xB0, 0x7F, 0xCE, 0x9B, 0x7B, 0x1B, 0xF4, 0xF0, 0x57, 0xCA, 0x61, 0xB8],
  [0xD7, 0xDB, 0x48, 0xA8, 0x66, 0x91, 0xA0, 0xC0, 0xC9, 0x30, 0x5A, 0xAC, 0x90],
  [0x0D, 0x50, 0xBF, 0x79, 0xA5, 0x94, 0x64, 0x59, 0x7C, 0x43, 0xBA, 0x80, 0x58],
  [0x4A, 0x9C, 0x34, 0xB2, 0x3F, 0xD5, 0xEA, 0xFF, 0x8C, 0x9D, 0xC2, 0x15, 0xE0],
  [0x3D, 0x53, 0x05, 0xA6, 0xF0, 0x42, 0x79, 0x38, 0xEE, 0xB9, 0xD1, 0xC1, 0x18],
  [0x55, 0xD8, 0xB6, 0xB5, 0x80, 0x39, 0xF7, 0xA3, 0xA2, 0xD5, 0x92, 0xA9, 0x00],
  [0x78, 0x4F, 0x34, 0x9E, 0xCB, 0x74, 0xC4, 0xAB, 0xBD, 0xBB, 0x07, 0x3B, 0x90],
  [0x59, 0x73, 0xBB, 0xB2, 0x20, 0x5F, 0x9D, 0x6A, 0x5C, 0x9A, 0x55, 0xC2, 0x38],
  [0x5D, 0x2E, 0xE6, 0x10, 0x06, 0xFE, 0xC9, 0x4F, 0x69, 0xF6, 0xB0, 0xF4, 0x60],
  [0x9E, 0x1F, 0x52, 0xEF, 0x1E, 0x65, 0x89, 0x99, 0x0D, 0xD0, 0xCE, 0x0C, 0xC8],
  [0x85, 0xB7, 0xB4, 0x8F, 0x4B, 0x45, 0x77, 0x5C, 0x9F, 0x8A, 0x36, 0xCC, 0x90],
  [0xAE, 0x1D, 0x6A, 0x01, 0x71, 0x16, 0x8F, 0x6D, 0x70, 0x80, 0x4B, 0x79, 0xF8],
  [0xA4, 0x67, 0xAA, 0x9A, 0xA6, 0xCD, 0xC7, 0x09, 0x46, 0x77, 0xC7, 0x30, 0xD8],
  [0xDC, 0xF2, 0xF5, 0x6C, 0x9A, 0xE2, 0x0F, 0xB5, 0x7E, 0x89, 0xB9, 0x16, 0xD0],
  [0x3A, 0xE9, 0x8D, 0x26, 0xAE, 0x96, 0xEA, 0x71, 0x4C, 0x1A, 0x51, 0x46, 0xD0],
  [0x10, 0x3C, 0x89, 0x58, 0x14, 0x46, 0x80, 0x5B, 0x8C, 0x71, 0xB2, 0xE6, 0x38],
  [0x67, 0x83, 0xF3, 0xDF, 0xEC, 0x83, 0x5D, 0xD4, 0xE9, 0x21, 0x31, 0xCC, 0x20],
  [0x52, 0xF8, 0x84, 0x28, 0xC5, 0x0F, 0x12, 0xC5, 0x58, 0x76, 0xF7, 0xD8, 0xA8],
  [0x51, 0xFC, 0xB0, 0xE5, 0x6A, 0x22, 0xFA, 0x3B, 0x71, 0x40, 0xAE, 0xAA, 0x80],
  [0x07, 0xC5, 0x48, 0x71, 0x15, 0x56, 0x03, 0xE6, 0x53, 0x25, 0xF6, 0x6C, 0xD8],
  [0xA8, 0xDD, 0x4F, 0xAC, 0x47, 0xA1, 0x13, 0xEE, 0x57, 0x06, 0xEE, 0xF1, 0x80],
  [0xF6, 0xCD, 0xC6, 0xF4, 0xCC, 0x1F, 0xA7, 0xE4, 0xDB, 0x15, 0xBF, 0x86, 0xF8],
  [0x2E, 0x1C, 0x6A, 0x01, 0x71, 0x16, 0x8F, 0x6D, 0x70, 0xC0, 0x4A, 0x79, 0xF8],
  [0x2A, 0x90, 0xAB, 0x82, 0xBE, 0xF6, 0x42, 0x4D, 0xB9, 0x81, 0x75, 0x2D, 0xC8],
  [0x84, 0x5A, 0x1D, 0xB5, 0x9C, 0x19, 0x32, 0x49, 0xD9, 0x37, 0xE8, 0x89, 0xD0],
  [0xA9, 0x29, 0xD3, 0x79, 0xF1, 0x76, 0x9C, 0xB4, 0xBA, 0xA4, 0xE4, 0x1E, 0x90],
  [0x0C, 0x2A, 0x58, 0x29, 0x54, 0x8D, 0x82, 0x22, 0x3D, 0x6F, 0x56, 0x6D, 0x48],
  [0x42, 0x00, 0x87, 0xBC, 0x5C, 0x4E, 0x2F, 0x5B, 0xC1, 0x39, 0xAD, 0x02, 0x20],
  [0x6D, 0xF8, 0xD8, 0x80, 0xAE, 0x72, 0x09, 0xFE, 0x52, 0xC6, 0x9E, 0xDE, 0x00],
  [0xDF, 0xBD, 0xCE, 0xF2, 0x9A, 0x98, 0x5F, 0xD4, 0x0D, 0x05, 0x2D, 0x1A, 0x88],
  [0x85, 0x67, 0xFC, 0x33, 0x23, 0x42, 0xB1, 0xED, 0x84, 0x08, 0xF5, 0xFA, 0x00],
  [0xC9, 0x08, 0xFE, 0xB4, 0xE1, 0x86, 0x6A, 0x24, 0xCA, 0x0C, 0x70, 0x2A, 0x08],
  [0x64, 0x5F, 0x5E, 0xE5, 0x9F, 0x9F, 0x64, 0xFD, 0x43, 0xA5, 0xF2, 0xEC, 0x30],
  [0xBE, 0xE5, 0x69, 0x91, 0xE8, 0x77, 0xBA, 0xF3, 0xE9, 0xCF, 0x11, 0xB7, 0x70],
  [0x64, 0x9E, 0xA2, 0xE4, 0x19, 0x4C, 0xA5, 0x1B, 0xE2, 0x8A, 0xBF, 0x34, 0x30],
  [0x90, 0xE7, 0x39, 0x4C, 0x55, 0x1B, 0xD5, 0x8D, 0x00, 0x68, 0x6D, 0x54, 0x20],
  [0x4E, 0x3C, 0xF7, 0x31, 0xF8, 0xF8, 0x9E, 0x84, 0x14, 0x21, 0x4A, 0xFA, 0xF0],
  [0xDC, 0xBF, 0x16, 0xAA, 0x81, 0x80, 0xA7, 0x71, 0x25, 0x71, 0xE9, 0x4F, 0x98],
  [0x9B, 0x45, 0x6C, 0x01, 0x59, 0x99, 0xC5, 0x2B, 0x7F, 0xBD, 0x1A, 0xB3, 0x90],
  [0x39, 0x7A, 0xB7, 0x69, 0x24, 0x65, 0x9C, 0x4B, 0x8B, 0x3B, 0xE4, 0xAC, 0x58],
  [0x4F, 0x50, 0x38, 0xC4, 0xF9, 0xDA, 0x4B, 0x02, 0xBD, 0xFA, 0x17, 0x82, 0x78],
  [0x48, 0x92, 0xFA, 0xDA, 0x97, 0x8C, 0x98, 0xDD, 0x4F, 0xD3, 0x63, 0xC4, 0x50],
  [0x6C, 0x8A, 0xF6, 0x4B, 0x42, 0x6B, 0xC4, 0x74, 0x43, 0x1C, 0x11, 0x0C, 0x98],
  [0x84, 0xA5, 0x53, 0xBE, 0x5E, 0xF0, 0xE5, 0x73, 0x90, 0xA5, 0xAF, 0x05, 0xB0],
  [0xBE, 0xD4, 0xA9, 0x34, 0x7C, 0x9A, 0x20, 0x64, 0xF6, 0xD6, 0x3A, 0xC0, 0xF8],
  [0xD9, 0x73, 0xBB, 0xB2, 0x60, 0x5F, 0x9D, 0x6A, 0x5C, 0x9A, 0x57, 0xC2, 0x38],
  [0x1E, 0x3B, 0xEE, 0x9A, 0x99, 0xFE, 0x10, 0xD3, 0x86, 0x4E, 0xE6, 0x69, 0xD8],
  [0xA5, 0x90, 0x77, 0x1F, 0xF1, 0x85, 0xD8, 0x07, 0xCB, 0x32, 0xF4, 0x60, 0x00],
  [0x9A, 0x49, 0x8F, 0xC4, 0xB5, 0x49, 0xD8, 0x1C, 0x62, 0x5F, 0x80, 0xFC, 0x90],
  [0x28, 0xB3, 0xE7, 0x28, 0x78, 0xAA, 0xDE, 0xE7, 0xE0, 0xE2, 0x61, 0x79, 0x50],
  [0x96, 0xCE, 0x02, 0x5D, 0x62, 0x1A, 0x91, 0x39, 0x6A, 0xA8, 0xF3, 0xEC, 0x20],
  [0x4F, 0x5A, 0x77, 0xBE, 0xCF, 0x83, 0x8A, 0x59, 0x0D, 0x6D, 0x40, 0x6E, 0xA8],
  [0x52, 0xD3, 0x85, 0x6D, 0xFB, 0x9F, 0xE7, 0x80, 0x12, 0xF1, 0x0E, 0x25, 0xC0],
  [0xB4, 0x53, 0x23, 0xC2, 0xB2, 0x8B, 0x47, 0x52, 0xCA, 0x06, 0x75, 0xD2, 0xE0],
  [0x3B, 0xAE, 0x5A, 0x84, 0x52, 0xA7, 0x85, 0xBE, 0xB3, 0x58, 0x51, 0xAD, 0x18],
  [0x65, 0x09, 0x88, 0x32, 0xD2, 0x0D, 0x91, 0x5E, 0x75, 0xBE, 0xA3, 0x36, 0xE8],
  [0x5E, 0xB6, 0xF3, 0xC3, 0x31, 0x09, 0x8E, 0x8C, 0x0F, 0xBF, 0xA3, 0xAE, 0xE0],
  [0xEF, 0x19, 0xD9, 0x74, 0xA2, 0x55, 0x40, 0xC8, 0x99, 0x8F, 0xBF, 0x1D, 0xF0],
  [0x40, 0x3E, 0xA5, 0x8F, 0xEF, 0xF0, 0x8C, 0xF9, 0x2D, 0x5C, 0xAC, 0xC7, 0x80],
  [0x6B, 0xA9, 0x32, 0x04, 0xDD, 0xFA, 0x7B, 0xCB, 0x99, 0x4A, 0xEA, 0x89, 0x98],
  [0x65, 0x39, 0x09, 0x16, 0x6A, 0xA7, 0xBE, 0xAD, 0x4B, 0xD9, 0xC9, 0x00, 0x20],
  [0x08, 0x9C, 0xB2, 0x0E, 0x63, 0x9B, 0xC5, 0xA4, 0x4D, 0xA6, 0x6F, 0x17, 0xC0],
  [0x10, 0xF8, 0x03, 0x94, 0x99, 0x61, 0x35, 0x9E, 0x99, 0x4F, 0x5A, 0xDE, 0x88],
  [0x15, 0xB7, 0xEC, 0x1E, 0x61, 0x06, 0xCD, 0x55, 0xEF, 0x7D, 0x99, 0x65, 0x90],
  [0xC9, 0x9E, 0x99, 0xDE, 0x9D, 0x85, 0xD2, 0xB9, 0x99, 0xA1, 0x7A, 0x95, 0xD8],
  [0xCA, 0x3E, 0x16, 0x1B, 0x97, 0x14, 0x8B, 0xAC, 0x6D, 0xD2, 0x8A, 0x61, 0x78],
  [0xE1, 0xAB, 0x19, 0x9C, 0x99, 0x2C, 0xB4, 0xC2, 0x2A, 0xEE, 0x11, 0x53, 0x58],
  [0xEA, 0x8A, 0x4D, 0x0E, 0x96, 0xD3, 0xD9, 0xF8, 0x27, 0x89, 0x9B, 0x6D, 0x88],
  [0x8A, 0xF4, 0x99, 0x2D, 0x60, 0x22, 0x3F, 0x02, 0x15, 0x69, 0xA8, 0xAB, 0x60],
  [0x50, 0x87, 0x77, 0x1A, 0xBC, 0xEB, 0x87, 0xA6, 0xD8, 0x72, 0x29, 0x1F, 0xE8],
  [0xD0, 0x45, 0xE0, 0x81, 0x2E, 0x21, 0x7B, 0xB7, 0xBB, 0xDA, 0xC9, 0x2F, 0x30],
  [0xCC, 0xCC, 0xD7, 0x8A, 0xE5, 0xFA, 0x6E, 0x19, 0x1F, 0x21, 0xC0, 0x69, 0x08],
  [0x54, 0x54, 0x5F, 0x37, 0xDF, 0x6F, 0xED, 0x47, 0x34, 0xEF, 0x65, 0x09, 0xB0],
  [0xB0, 0x78, 0x03, 0x27, 0xD8, 0x99, 0xCB, 0xC0, 0x3D, 0x95, 0xA8, 0x1A, 0x48],
  [0xA4, 0x22, 0x9C, 0x31, 0xF2, 0xB8, 0x5E, 0x44, 0xA3, 0x22, 0x27, 0x3D, 0x50],
  [0xD1, 0x82, 0xAB, 0x00, 0x1C, 0x20, 0x85, 0xEA, 0x7B, 0xE2, 0x6A, 0x20, 0xD0],
  [0x1A, 0x82, 0xC3, 0x0B, 0x4F, 0xBA, 0x7D, 0xFA, 0xAF, 0xB8, 0xD2, 0x87, 0xA8],
  [0xD9, 0x74, 0xFB, 0xA5, 0x98, 0xE7, 0xFB, 0x06, 0x30, 0xC1, 0x58, 0x7D, 0xB0],
  [0xB5, 0xC0, 0x78, 0xA8, 0xCB, 0xAB, 0x3E, 0x73, 0x72, 0x86, 0x59, 0xEA, 0x20],
  [0x62, 0x6B, 0xBF, 0x9E, 0xED, 0x1A, 0x87, 0x15, 0xC3, 0xA7, 0xD3, 0x8F, 0x60],
  [0xC1, 0xEF, 0xE9, 0xAA, 0x67, 0x13, 0x08, 0x65, 0xFD, 0xA9, 0x3D, 0x8B, 0xE8],
  [0xD3, 0x97, 0x96, 0xDB, 0xCE, 0x15, 0x5D, 0xF6, 0x30, 0x6E, 0x7B, 0x77, 0xC0],
  [0xC7, 0xE7, 0xC1, 0xF0, 0x32, 0xD7, 0x20, 0x9B, 0x45, 0x49, 0xE8, 0x4A, 0xA8],
  [0xD5, 0x79, 0x9B, 0x30, 0xA1, 0x60, 0x5B, 0xAF, 0x6B, 0x9C, 0xD0, 0x49, 0x60],
  [0x0B, 0xAF, 0x2D, 0x21, 0x05, 0x1A, 0x92, 0x6D, 0xFD, 0x87, 0x04, 0x6D, 0x70],
  [0xDA, 0x8B, 0xF7, 0xD1, 0xE3, 0x05, 0xC4, 0x99, 0xB5, 0x73, 0xC0, 0x2C, 0xC8],
  [0x0C, 0xCA, 0xA7, 0xFF, 0xFB, 0x9A, 0xE3, 0xE4, 0x2D, 0xD0, 0x68, 0x83, 0x28],
  [0xB9, 0x51, 0xB6, 0x2E, 0x18, 0xF5, 0x29, 0x0A, 0xC1, 0x3C, 0x19, 0x51, 0x30],
  [0x79, 0xB0, 0x06, 0xF0, 0x01, 0x96, 0x1F, 0xB2, 0x33, 0xBE, 0x80, 0xD0, 0xE8],
  [0x56, 0x63, 0x7B, 0x6D, 0xED, 0xFD, 0x6E, 0x05, 0x0F, 0x06, 0x40, 0x4A, 0x48],
  [0xE0, 0xC4, 0xBF, 0x71, 0xA1, 0x55, 0x97, 0x52, 0x3B, 0xBD, 0x57, 0xBD, 0xE0],
  [0x13, 0x12, 0x23, 0x1F, 0xFA, 0x04, 0x42, 0x6A, 0x34, 0xA8, 0xFA, 0xB0, 0x38],
  [0xDB, 0x5F, 0x6F, 0x04, 0x55, 0xD2, 0x4B, 0x83, 0x58, 0xD1, 0xCB, 0xC3, 0xD8],
  [0xD5, 0x59, 0xE3, 0x1B, 0x34, 0xD2, 0x1F, 0x48, 0xE1, 0xF5, 0x01, 0xAF, 0x30]]"

definition kFST4_LDPC_Mn_1 :: "nat list list" where
 "kFST4_LDPC_Mn_1 = [
  [56, 99, 133],
  [55, 98, 135],
  [0, 11, 14],
  [1, 22, 71],
  [2, 132, 136],
  [3, 92, 124],
  [4, 67, 138],
  [5, 37, 54],
  [6, 39, 77],
  [7, 29, 83],
  [8, 16, 121],
  [9, 33, 94],
  [10, 35, 137],
  [12, 89, 131],
  [13, 49, 116],
  [15, 56, 82],
  [17, 21, 120],
  [18, 59, 88],
  [19, 97, 106],
  [20, 36, 60],
  [23, 25, 74],
  [24, 87, 114],
  [26, 48, 126],
  [27, 73, 118],
  [28, 110, 113],
  [30, 90, 128],
  [31, 95, 103],
  [29, 32, 129],
  [34, 64, 134],
  [40, 41, 86],
  [43, 107, 130],
  [44, 93, 100],
  [44, 45, 96],
  [46, 101, 133],
  [47, 63, 103],
  [18, 50, 115],
  [19, 51, 66],
  [52, 103, 112],
  [11, 53, 102],
  [57, 65, 87],
  [61, 79, 123],
  [62, 69, 70],
  [72, 113, 122],
  [75, 84, 127],
  [76, 105, 108],
  [45, 78, 125],
  [60, 80, 109],
  [81, 91, 119],
  [85, 104, 111],
  [65, 99, 117],
  [22, 50, 135],
  [0, 39, 52],
  [1, 72, 80],
  [2, 62, 129],
  [3, 67, 135],
  [4, 59, 77],
  [5, 71, 130],
  [6, 114, 123],
  [7, 88, 119],
  [8, 14, 43],
  [9, 21, 92],
  [10, 48, 99],
  [12, 54, 79],
  [13, 75, 94],
  [15, 53, 110],
  [16, 40, 109],
  [17, 68, 138],
  [20, 23, 115],
  [24, 38, 70],
  [25, 68, 89],
  [26, 100, 132],
  [27, 63, 125],
  [28, 93, 102],
  [30, 55, 56],
  [31, 90, 101],
  [32, 34, 128],
  [33, 46, 127],
  [35, 85, 116],
  [36, 73, 74],
  [37, 78, 105],
  [41, 81, 122],
  [42, 76, 98],
  [47, 69, 91],
  [49, 108, 117],
  [51, 111, 118],
  [57, 61, 107],
  [58, 83, 133],
  [56, 64, 121],
  [66, 96, 112],
  [82, 126, 134],
  [84, 120, 124],
  [86, 131, 136],
  [95, 97, 104],
  [72, 106, 137],
  [0, 82, 88],
  [1, 40, 69],
  [2, 34, 130],
  [3, 110, 127],
  [4, 28, 98],
  [5, 24, 30],
  [6, 18, 95],
  [0, 38, 109],
  [1, 6, 116],
  [2, 48, 108],
  [3, 80, 95],
  [4, 99, 107],
  [5, 50, 123],
  [1, 19, 131],
  [7, 79, 136],
  [8, 55, 66],
  [9, 62, 101],
  [10, 15, 100],
  [11, 114, 121],
  [12, 31, 127],
  [13, 14, 129],
  [13, 69, 98],
  [10, 50, 68],
  [16, 88, 104],
  [17, 82, 98],
  [18, 43, 78]]"

definition kFST4_LDPC_Mn_2 :: "nat list list" where
 "kFST4_LDPC_Mn_2 = [
  [19, 105, 132],
  [9, 20, 122],
  [21, 22, 60],
  [15, 21, 59],
  [23, 37, 113],
  [24, 36, 41],
  [25, 42, 51],
  [26, 67, 70],
  [27, 64, 138],
  [28, 61, 68],
  [29, 91, 125],
  [30, 77, 122],
  [12, 43, 77],
  [32, 39, 119],
  [6, 33, 118],
  [3, 34, 76],
  [11, 35, 51],
  [24, 97, 135],
  [4, 23, 132],
  [0, 79, 90],
  [32, 95, 96],
  [33, 40, 90],
  [31, 36, 116],
  [25, 71, 124],
  [18, 64, 74],
  [44, 130, 135],
  [45, 54, 69],
  [46, 47, 49],
  [5, 47, 93],
  [2, 73, 78],
  [38, 49, 125],
  [22, 117, 126],
  [20, 35, 112],
  [52, 76, 133],
  [29, 53, 54],
  [16, 45, 134],
  [8, 91, 101],
  [56, 84, 86],
  [57, 124, 137],
  [58, 75, 92],
  [59, 65, 106],
  [46, 131, 137],
  [28, 84, 130],
  [42, 72, 107],
  [63, 74, 128],
  [27, 37, 52],
  [60, 105, 121],
  [55, 70, 113],
  [26, 56, 119],
  [61, 66, 129],
  [53, 103, 117],
  [7, 67, 114],
  [71, 85, 110],
  [72, 73, 93],
  [48, 104, 112],
  [41, 85, 120],
  [39, 58, 108],
  [34, 87, 94],
  [30, 106, 111],
  [57, 63, 86],
  [67, 78, 103],
  [0, 4, 120],
  [14, 81, 92],
  [17, 87, 115],
  [81, 83, 118],
  [6, 70, 102],
  [3, 79, 93],
  [62, 80, 83],
  [65, 75, 136],
  [82, 123, 128],
  [89, 111, 115],
  [88, 110, 133],
  [5, 20, 119],
  [2, 15, 24],
  [11, 27, 130],
  [44, 94, 109],
  [16, 92, 123],
  [96, 120, 126],
  [97, 102, 134],
  [7, 98, 137],
  [40, 100, 138],
  [12, 23, 104],
  [13, 52, 106],
  [9, 63, 97],
  [10, 34, 77],
  [89, 99, 102],
  [8, 71, 100],
  [17, 73, 91],
  [14, 72, 86],
  [1, 87, 112],
  [19, 54, 84],
  [18, 66, 109],
  [25, 26, 94],
  [21, 49, 113],
  [28, 48, 80],
  [31, 51, 82],
  [29, 36, 76],
  [38, 127, 134],
  [22, 127, 129],
  [35, 75, 125],
  [32, 131, 138],
  [33, 88, 117],
  [37, 57, 126],
  [30, 53, 124],
  [39, 69, 74],
  [40, 108, 115],
  [42, 59, 62],
  [43, 83, 85],
  [41, 46, 61],
  [44, 81, 89],
  [42, 45, 90],
  [47, 111, 121],
  [50, 101, 132],
  [58, 60, 107],
  [64, 116, 136],
  [55, 65, 95],
  [58, 68, 103],
  [38, 68, 118],
  [96, 114, 122],
  [105, 110, 128]]"

definition kFST4_LDPC_Mn :: "nat list list" where "kFST4_LDPC_Mn = kFST4_LDPC_Mn_1 @ kFST4_LDPC_Mn_2"

definition kFST4_LDPC_Nm :: "nat list list" where
 "kFST4_LDPC_Nm = [
  [2, 51, 94, 101, 139, 181],
  [3, 52, 95, 102, 107, 209],
  [4, 53, 96, 103, 149, 193],
  [5, 54, 97, 104, 135, 186],
  [6, 55, 98, 105, 138, 181],
  [7, 56, 99, 106, 148, 192],
  [8, 57, 100, 102, 134, 185],
  [9, 58, 108, 171, 199, 0],
  [10, 59, 109, 156, 206, 0],
  [11, 60, 110, 121, 203, 0],
  [12, 61, 111, 116, 204, 0],
  [2, 38, 112, 136, 194, 0],
  [13, 62, 113, 132, 201, 0],
  [14, 63, 114, 115, 202, 0],
  [2, 59, 114, 182, 208, 0],
  [15, 64, 111, 123, 193, 0],
  [10, 65, 117, 155, 196, 0],
  [16, 66, 118, 183, 207, 0],
  [17, 35, 100, 119, 144, 211],
  [18, 36, 107, 120, 210, 0],
  [19, 67, 121, 152, 192, 0],
  [16, 60, 122, 123, 213, 0],
  [3, 50, 122, 151, 218, 0],
  [20, 67, 124, 138, 201, 0],
  [21, 68, 99, 125, 137, 193],
  [20, 69, 126, 143, 212, 0],
  [22, 70, 127, 168, 212, 0],
  [23, 71, 128, 165, 194, 0],
  [24, 72, 98, 129, 162, 214],
  [9, 27, 130, 154, 216, 0],
  [25, 73, 99, 131, 178, 223],
  [26, 74, 113, 142, 215, 0],
  [27, 75, 133, 140, 220, 0],
  [11, 76, 134, 141, 221, 0],
  [28, 75, 96, 135, 177, 204],
  [12, 77, 136, 152, 219, 0],
  [19, 78, 125, 142, 216, 0],
  [7, 79, 124, 165, 222, 0],
  [68, 101, 150, 217, 237, 0],
  [8, 51, 133, 176, 224, 0],
  [29, 65, 95, 141, 200, 225],
  [29, 80, 125, 175, 228, 0],
  [81, 126, 163, 226, 230, 0],
  [30, 59, 119, 132, 227, 0],
  [31, 32, 145, 195, 229, 0],
  [32, 45, 146, 155, 230, 0],
  [33, 76, 147, 161, 228, 0],
  [34, 82, 147, 148, 231, 0],
  [22, 61, 103, 174, 214, 0],
  [14, 83, 147, 150, 213, 0],
  [35, 50, 106, 116, 232, 0],
  [36, 84, 126, 136, 215, 0],
  [37, 51, 153, 165, 202, 0],
  [38, 64, 154, 170, 223, 0],
  [7, 62, 146, 154, 210, 0],
  [1, 73, 109, 167, 235, 0],
  [0, 15, 73, 87, 157, 168],
  [39, 85, 158, 179, 222, 0],
  [86, 159, 176, 233, 236, 0],
  [17, 55, 123, 160, 226, 0],
  [19, 46, 122, 166, 233, 0],
  [40, 85, 129, 169, 228, 0],
  [41, 53, 110, 187, 226, 0],
  [34, 71, 164, 179, 203, 0],
  [28, 87, 128, 144, 234, 0],
  [39, 49, 160, 188, 235, 0],
  [36, 88, 109, 169, 211, 0],
  [6, 54, 127, 171, 180, 0],
  [66, 69, 116, 129, 236, 237],
  [41, 82, 95, 115, 146, 224],
  [41, 68, 127, 167, 185, 0],
  [3, 56, 143, 172, 206, 0],
  [42, 52, 93, 163, 173, 208],
  [23, 78, 149, 173, 207, 0],
  [20, 78, 144, 164, 224, 0],
  [43, 63, 159, 188, 219, 0],
  [44, 81, 135, 153, 216, 0],
  [8, 55, 131, 132, 204, 0],
  [45, 79, 119, 149, 180, 0],
  [40, 62, 108, 139, 186, 0],
  [46, 52, 104, 187, 214, 0],
  [47, 80, 182, 184, 229, 0],
  [15, 89, 94, 118, 189, 215],
  [9, 86, 184, 187, 227, 0],
  [43, 90, 157, 162, 210, 0],
  [48, 77, 172, 175, 227, 0],
  [29, 91, 157, 179, 208, 0],
  [21, 39, 177, 183, 209, 0],
  [17, 58, 94, 117, 191, 221],
  [13, 69, 190, 205, 229, 0],
  [25, 74, 139, 141, 230, 0],
  [47, 82, 130, 156, 207, 0],
  [5, 60, 159, 182, 196, 0],
  [31, 72, 148, 173, 186, 0],
  [11, 63, 177, 195, 212, 0],
  [26, 92, 100, 104, 140, 235],
  [32, 88, 140, 197, 238, 0],
  [18, 92, 137, 198, 203, 0],
  [1, 81, 98, 115, 118, 199],
  [0, 49, 61, 105, 205, 0],
  [31, 70, 111, 200, 206, 0],
  [33, 74, 110, 156, 232, 0],
  [38, 72, 185, 198, 205, 0],
  [26, 34, 37, 170, 180, 236],
  [48, 92, 117, 174, 201, 0],
  [44, 79, 120, 166, 239, 0],
  [18, 93, 160, 178, 202, 0],
  [30, 85, 105, 163, 233, 0],
  [44, 83, 103, 176, 225, 0],
  [46, 65, 101, 195, 211, 0],
  [24, 64, 97, 172, 191, 239],
  [48, 84, 178, 190, 231, 0],
  [37, 88, 152, 174, 209, 0],
  [24, 42, 124, 167, 213, 0],
  [21, 57, 112, 171, 238, 0],
  [35, 67, 183, 190, 225, 0],
  [14, 77, 102, 142, 234, 0],
  [49, 83, 151, 170, 221, 0],
  [23, 84, 134, 184, 237, 0],
  [47, 58, 133, 168, 192, 0],
  [16, 90, 175, 181, 197, 0],
  [10, 87, 112, 166, 231, 0],
  [42, 80, 121, 131, 238, 0],
  [40, 57, 106, 189, 196, 0],
  [5, 90, 143, 158, 223, 0],
  [45, 71, 130, 150, 219, 0],
  [22, 89, 151, 197, 222, 0],
  [43, 76, 97, 113, 217, 218],
  [25, 75, 164, 189, 239, 0],
  [27, 53, 114, 169, 218, 0],
  [30, 56, 96, 145, 162, 194],
  [13, 91, 107, 161, 220, 0],
  [4, 70, 120, 138, 232, 0],
  [0, 33, 86, 153, 191, 0],
  [28, 89, 155, 198, 217, 0],
  [1, 50, 54, 137, 145, 0],
  [4, 91, 108, 188, 234, 0],
  [12, 93, 158, 161, 199, 0],
  [6, 66, 128, 200, 220, 0]]"

definition kFST4_LDPC_num_rows :: "nat list" where
 "kFST4_LDPC_num_rows = [
  6, 6, 6, 6, 6, 6, 6, 5, 5, 5, 5, 5, 5, 5, 5, 5, 5, 5, 6, 5, 5, 5, 5, 5,
  6, 5, 5, 5, 6, 5, 6, 5, 5, 5, 6, 5, 5, 5, 5, 5, 6, 5, 5, 5, 5, 5, 5, 5,
  5, 5, 5, 5, 5, 5, 5, 5, 6, 5, 5, 5, 5, 5, 5, 5, 5, 5, 5, 5, 6, 6, 5, 5,
  6, 5, 5, 5, 5, 5, 5, 5, 5, 5, 6, 5, 5, 5, 5, 5, 6, 5, 5, 5, 5, 5, 5, 6,
  5, 5, 6, 5, 5, 5, 5, 6, 5, 5, 5, 5, 5, 5, 6, 5, 5, 5, 5, 5, 5, 5, 5, 5,
  5, 5, 5, 5, 5, 5, 5, 6, 5, 5, 6, 5, 5, 5, 5, 5, 5, 5, 5]"

section \<open>The (240,74) code\<close>

definition kFST4W_LDPC_generator_1 :: "u8 list list" where
 "kFST4W_LDPC_generator_1 = [
  [0xDE, 0x8B, 0x32, 0x01, 0xE3, 0xC5, 0x9F, 0x55, 0xA1, 0x40],
  [0x2E, 0x06, 0xD3, 0x52, 0xEB, 0xC5, 0xB7, 0x4C, 0x4F, 0xC0],
  [0x2E, 0x16, 0xD6, 0xCF, 0x5A, 0x72, 0x5C, 0x32, 0x44, 0xC0],
  [0x84, 0xF5, 0x58, 0x7E, 0xDC, 0xA6, 0xD7, 0x77, 0xDE, 0x40],
  [0xE1, 0x52, 0xB1, 0xE2, 0xB5, 0x96, 0x50, 0x93, 0xEC, 0xC0],
  [0x24, 0x4B, 0x48, 0x28, 0xA2, 0xCC, 0xF2, 0xB5, 0xF5, 0x80],
  [0x5F, 0xBB, 0xAA, 0xDE, 0x81, 0x0E, 0x12, 0x3C, 0x73, 0x00],
  [0x6B, 0x7E, 0x92, 0xA9, 0x9A, 0x91, 0x8D, 0xF3, 0xD4, 0x40],
  [0xBB, 0xCE, 0xC6, 0xA6, 0x3A, 0xB7, 0x57, 0xA7, 0x27, 0x80],
  [0xF5, 0xF3, 0xF0, 0xB8, 0x9A, 0x21, 0xCE, 0xCC, 0xDB, 0x00],
  [0xA2, 0x48, 0xC5, 0xF1, 0xEC, 0x2B, 0xC8, 0x16, 0x29, 0x00],
  [0xC8, 0x4B, 0xBA, 0xD8, 0x39, 0xA5, 0xFE, 0x76, 0xD0, 0xC0],
  [0xAD, 0x72, 0x41, 0x29, 0xBB, 0xF4, 0xC7, 0xF4, 0x57, 0x00],
  [0x91, 0xAD, 0xB5, 0x6E, 0x76, 0x23, 0xA2, 0x57, 0x5C, 0xC0],
  [0xCB, 0xE9, 0x95, 0xBD, 0xF1, 0x56, 0xDF, 0x2C, 0x9E, 0x40],
  [0x92, 0xFF, 0x6E, 0xA4, 0x92, 0xC0, 0x8C, 0x15, 0x0E, 0x00],
  [0xC4, 0xDD, 0xBE, 0x5A, 0x02, 0xF6, 0xA9, 0x33, 0x38, 0x40],
  [0xD2, 0xE9, 0xBE, 0xFC, 0x13, 0x1D, 0xC4, 0x83, 0x85, 0x80],
  [0x68, 0x56, 0x75, 0x43, 0xD1, 0xEE, 0xBC, 0xB0, 0x80, 0xC0],
  [0x21, 0xFA, 0x61, 0xD5, 0x59, 0xF9, 0xBA, 0xF6, 0xAB, 0xC0],
  [0x91, 0x1C, 0x4F, 0xBB, 0xAF, 0xC7, 0x2E, 0x3D, 0xB2, 0x80],
  [0x7C, 0x0B, 0x53, 0x4A, 0xF4, 0xB7, 0xD5, 0x83, 0xD5, 0x00],
  [0x12, 0xCE, 0x37, 0x1B, 0x90, 0xEE, 0x9D, 0xFE, 0x72, 0xC0],
  [0x15, 0xA6, 0x04, 0x14, 0x88, 0x72, 0xE2, 0x51, 0xEC, 0x40],
  [0x3A, 0x3C, 0x9F, 0x3E, 0xB0, 0xE0, 0xF9, 0x6E, 0xDC, 0x00],
  [0x70, 0x59, 0x19, 0xFF, 0xB6, 0x36, 0xF9, 0x6B, 0x39, 0x00],
  [0x43, 0xDA, 0xAA, 0xA8, 0x16, 0x3D, 0x6B, 0xC2, 0xBD, 0x40],
  [0x96, 0xE1, 0x1E, 0xA7, 0x98, 0xB7, 0x4B, 0x10, 0xE9, 0x80],
  [0x81, 0x11, 0x50, 0x60, 0x9C, 0x9D, 0xEE, 0x82, 0x30, 0xC0],
  [0xBE, 0x71, 0x3F, 0x85, 0xAB, 0x34, 0x38, 0x0F, 0x4B, 0x00],
  [0x5A, 0x02, 0xC4, 0xAB, 0xAA, 0xCC, 0xB8, 0xF2, 0x4C, 0x40],
  [0x67, 0xBD, 0xEB, 0xB8, 0x86, 0x3D, 0x04, 0x76, 0x8C, 0xC0],
  [0x5A, 0x44, 0x9C, 0xD9, 0x0C, 0x3D, 0xBD, 0xFE, 0x84, 0x40],
  [0x9C, 0x7A, 0x54, 0xD1, 0xC4, 0xEF, 0x74, 0x18, 0xB8, 0x40],
  [0xCD, 0x82, 0xFE, 0xFA, 0xAF, 0x9C, 0xD2, 0x8C, 0xD8, 0xC0],
  [0xCA, 0x47, 0xE8, 0x47, 0xFA, 0xBB, 0x00, 0x54, 0xA3, 0x80],
  [0xF0, 0xB3, 0x0C, 0xEF, 0x6A, 0xAB, 0x9E, 0x37, 0xF9, 0x80],
  [0xD9, 0x48, 0xD9, 0x12, 0xFB, 0xCC, 0x17, 0x08, 0x71, 0x00],
  [0xCC, 0xE1, 0xA7, 0xB3, 0x55, 0x05, 0x3D, 0x98, 0x27, 0x00],
  [0x4C, 0xF2, 0x27, 0xC2, 0x25, 0xA9, 0x06, 0x3D, 0xD4, 0x80],
  [0x2D, 0xB9, 0x26, 0x12, 0xE9, 0xBA, 0x14, 0x18, 0xE2, 0x40],
  [0x3D, 0x21, 0x5C, 0x04, 0xC7, 0x62, 0xC3, 0xD6, 0xA2, 0x80],
  [0x77, 0xDE, 0x65, 0x50, 0x0B, 0x56, 0x24, 0xCE, 0xB0, 0xC0],
  [0xFD, 0x1A, 0x1D, 0xF9, 0x9D, 0xED, 0x2F, 0xB9, 0xD8, 0x80],
  [0x2A, 0x19, 0x39, 0x2C, 0x71, 0x43, 0x84, 0x10, 0xFB, 0x80],
  [0xA9, 0xB4, 0x86, 0xA9, 0xD2, 0x6E, 0xD5, 0x79, 0x75, 0x40],
  [0xB6, 0x98, 0xD2, 0x44, 0xAC, 0x78, 0xD9, 0x7A, 0x49, 0x80],
  [0x3D, 0x79, 0x75, 0xB7, 0x4D, 0x72, 0x7A, 0x5E, 0x70, 0x40],
  [0x38, 0x09, 0x42, 0x25, 0xA2, 0xBC, 0xE0, 0xE1, 0x94, 0x00],
  [0x3D, 0x3E, 0x58, 0xFA, 0xE4, 0x0F, 0xAC, 0x34, 0x2B, 0x00],
  [0x77, 0x32, 0xE8, 0x39, 0xA0, 0x66, 0xE3, 0x37, 0x71, 0x40],
  [0x69, 0x35, 0x6C, 0x08, 0x2B, 0x77, 0x53, 0xA4, 0x7B, 0x00],
  [0x3E, 0x86, 0x8A, 0x55, 0xDC, 0x40, 0x3A, 0x80, 0x2A, 0xC0],
  [0xA0, 0x15, 0x7A, 0x14, 0xA6, 0xBF, 0x7F, 0xDB, 0xBC, 0xC0],
  [0x1A, 0xB6, 0x28, 0xE1, 0x1A, 0x7A, 0xB4, 0xA7, 0xC4, 0x40],
  [0x9D, 0xA3, 0xA2, 0x24, 0x7D, 0x74, 0x49, 0x05, 0x2F, 0x40],
  [0x19, 0x9A, 0x8A, 0x7B, 0x11, 0x48, 0x16, 0xB9, 0x7F, 0x40],
  [0xB1, 0xC5, 0xCD, 0xE2, 0x54, 0x20, 0x61, 0x70, 0x4C, 0xC0],
  [0x43, 0x2F, 0xA8, 0xD3, 0xA1, 0x53, 0xEA, 0xFB, 0xDC, 0x80],
  [0xC4, 0xEC, 0xE7, 0xE4, 0x00, 0xD8, 0xA8, 0x9C, 0x44, 0x80],
  [0x31, 0x6E, 0xCF, 0x74, 0xE4, 0xB9, 0x83, 0xF0, 0x07, 0xC0],
  [0x6A, 0x14, 0xFA, 0x8E, 0x71, 0x3B, 0xB5, 0xE8, 0xAD, 0xC0],
  [0xDA, 0x4B, 0x95, 0x7D, 0xED, 0x83, 0x74, 0xE3, 0x64, 0x00],
  [0x0A, 0x80, 0x4D, 0xBA, 0x7C, 0x7E, 0x45, 0x33, 0x30, 0x00],
  [0x52, 0xC3, 0x42, 0xED, 0x03, 0x3F, 0x86, 0x58, 0x0E, 0x00],
  [0x16, 0x67, 0xDA, 0x8D, 0x6F, 0xCF, 0x42, 0x72, 0x47, 0x00],
  [0xDA, 0x2F, 0x70, 0x38, 0xD5, 0x50, 0xFA, 0x88, 0xD8, 0xC0],
  [0x68, 0x5B, 0xCB, 0xAB, 0x1D, 0x9D, 0xD2, 0xC2, 0xA4, 0x40],
  [0x4C, 0x93, 0x00, 0x8B, 0x31, 0x56, 0xB3, 0x63, 0x6B, 0xC0],
  [0x72, 0x69, 0x98, 0xD6, 0x32, 0x7A, 0xC7, 0x97, 0xC3, 0xC0],
  [0x44, 0xEC, 0xE7, 0xE4, 0x00, 0xD8, 0xA8, 0xDC, 0x44, 0x80],
  [0x01, 0xF9, 0xAD, 0xD0, 0x0D, 0xFE, 0x82, 0x3A, 0x94, 0x80],
  [0xDB, 0xB9, 0x5F, 0x5C, 0xE9, 0xE3, 0x71, 0xAD, 0x72, 0x00],
  [0xFC, 0x74, 0x6E, 0xE5, 0xC7, 0x68, 0x27, 0xA8, 0x72, 0x80],
  [0xB2, 0x54, 0x08, 0x02, 0x95, 0x06, 0x46, 0x7F, 0x4B, 0x40],
  [0x9B, 0x5C, 0x92, 0x19, 0xE2, 0x11, 0x26, 0xB7, 0xCF, 0x80],
  [0x39, 0xAE, 0x9F, 0x48, 0xBA, 0x9D, 0x1A, 0x24, 0xF0, 0x40],
  [0x7D, 0xE2, 0x69, 0x96, 0x23, 0xEB, 0x50, 0x7F, 0x93, 0x80],
  [0xB9, 0xC6, 0xE9, 0x03, 0xEE, 0x91, 0xDD, 0x32, 0x93, 0x40],
  [0x39, 0x75, 0x10, 0xD2, 0xC6, 0xCB, 0x5E, 0x81, 0xDE, 0x80],
  [0x20, 0x15, 0x7A, 0x14, 0xAE, 0xBF, 0x7F, 0xDB, 0xBE, 0xC0],
  [0x06, 0x7F, 0x76, 0xEA, 0x58, 0x17, 0xA4, 0x65, 0x98, 0x00],
  [0x92, 0x48, 0xF3, 0xCE, 0xA0, 0x86, 0x9F, 0xEB, 0x99, 0x40]]"

definition kFST4W_LDPC_generator_2 :: "u8 list list" where
 "kFST4W_LDPC_generator_2 = [
  [0x23, 0xCD, 0xE2, 0x67, 0x80, 0x04, 0xEB, 0xE5, 0xF8, 0x00],
  [0x5B, 0x81, 0xFE, 0x68, 0x48, 0xF5, 0x8E, 0x3C, 0xFA, 0x80],
  [0xA9, 0x09, 0x9A, 0xCE, 0x96, 0xBF, 0xF0, 0x92, 0x90, 0x40],
  [0x4A, 0xFA, 0x4B, 0x08, 0x02, 0xB3, 0x32, 0x15, 0x43, 0x80],
  [0xF4, 0xF7, 0x40, 0x39, 0x6B, 0x03, 0x03, 0x60, 0x85, 0x80],
  [0xFC, 0x61, 0x3F, 0x77, 0xA3, 0x5E, 0xE1, 0x16, 0x3B, 0x80],
  [0x1A, 0x4D, 0xC2, 0x7D, 0x7E, 0x8C, 0xC8, 0x35, 0xFF, 0x40],
  [0xE9, 0xB0, 0x56, 0xF1, 0x53, 0xB3, 0x9D, 0xEF, 0x7E, 0xC0],
  [0xB6, 0x2E, 0xB7, 0x77, 0xA2, 0xF9, 0x53, 0xC7, 0xEF, 0xC0],
  [0x38, 0x8A, 0xE4, 0xDE, 0x51, 0x4B, 0x62, 0xD2, 0x38, 0xC0],
  [0x89, 0x15, 0x29, 0xAF, 0x40, 0xE8, 0x53, 0x17, 0x16, 0x00],
  [0x47, 0x4F, 0x1A, 0xFE, 0xB7, 0x24, 0xDB, 0xD2, 0xBA, 0x80],
  [0x11, 0xD7, 0x08, 0x80, 0xFD, 0x88, 0xFD, 0xD3, 0x07, 0xC0],
  [0x29, 0xF2, 0x6A, 0x3A, 0xCB, 0x76, 0xE6, 0xA5, 0x17, 0xC0],
  [0xDF, 0x3E, 0x90, 0x2F, 0xF9, 0xCA, 0xDC, 0xF7, 0x76, 0xC0],
  [0xE3, 0xC4, 0x2D, 0xA8, 0x44, 0x59, 0x65, 0xC0, 0x9F, 0x00],
  [0xCE, 0x27, 0x7A, 0x6A, 0xEC, 0xCC, 0x31, 0x6D, 0xC5, 0x80],
  [0x4D, 0x78, 0x41, 0xFB, 0x71, 0x54, 0x3A, 0xBD, 0x9B, 0x80],
  [0xE6, 0x32, 0x30, 0xD2, 0xD4, 0x65, 0xFB, 0x44, 0x75, 0x00],
  [0xB6, 0xE1, 0x1F, 0xA7, 0x98, 0xB7, 0x4B, 0x14, 0xE9, 0x80],
  [0x05, 0xF1, 0x89, 0xD3, 0x7C, 0x56, 0x16, 0x54, 0x7B, 0x40],
  [0xEB, 0xDB, 0x51, 0xA8, 0x1D, 0x1E, 0x88, 0x3B, 0xAA, 0x80],
  [0xBF, 0x5B, 0xC7, 0x36, 0x66, 0x3B, 0xCD, 0x53, 0xAE, 0x00],
  [0x2F, 0x8D, 0x1C, 0xC0, 0x93, 0x61, 0x42, 0xC0, 0x8F, 0xC0],
  [0x43, 0x6B, 0x22, 0xFC, 0x36, 0xD9, 0x17, 0xB6, 0x92, 0x80],
  [0x04, 0x4B, 0x48, 0x28, 0x22, 0xCC, 0xF2, 0xB5, 0xF5, 0x80],
  [0x37, 0xB2, 0xE8, 0x39, 0xA0, 0x66, 0xE3, 0xB7, 0x71, 0x40],
  [0x2A, 0x9B, 0x4B, 0x76, 0x5C, 0x58, 0x1F, 0x0C, 0x51, 0xC0],
  [0x10, 0xA7, 0xD4, 0x4C, 0xEC, 0xF8, 0xE6, 0x62, 0x8D, 0xC0],
  [0xAD, 0x95, 0xF0, 0x2D, 0xF6, 0xD5, 0x50, 0x2D, 0xD4, 0xC0],
  [0xBB, 0xD3, 0x4F, 0x8A, 0xFD, 0x63, 0xDE, 0xAF, 0x56, 0x40],
  [0xCA, 0xBD, 0xDF, 0xEB, 0x01, 0xFC, 0xE6, 0x32, 0x78, 0x80],
  [0x66, 0xB5, 0x7B, 0xAB, 0xEE, 0xDD, 0x61, 0x24, 0x11, 0x40],
  [0x78, 0x13, 0xE0, 0x45, 0x4F, 0xBD, 0x46, 0x2B, 0xE8, 0xC0],
  [0xB6, 0x10, 0x5E, 0xD6, 0xF0, 0x1E, 0xA6, 0x21, 0xD0, 0x40],
  [0x9F, 0x68, 0xBB, 0xCE, 0xC6, 0x79, 0xD1, 0xC0, 0x88, 0xC0],
  [0x67, 0x3D, 0xA9, 0x6E, 0x41, 0x4F, 0xC7, 0xA0, 0xF4, 0x00],
  [0x55, 0x68, 0xAD, 0xB9, 0x35, 0xE1, 0x10, 0x84, 0xAB, 0xC0],
  [0xF6, 0xDD, 0x30, 0x8D, 0xE5, 0xE5, 0xC4, 0xF6, 0xFB, 0x00],
  [0x3B, 0x49, 0xE8, 0x0D, 0x40, 0xAE, 0x59, 0x6C, 0x7B, 0x40],
  [0xA3, 0xCD, 0xE2, 0x47, 0x80, 0x04, 0xEB, 0xE5, 0xF8, 0x00],
  [0xDD, 0x8E, 0x4F, 0x30, 0x9E, 0x91, 0x9D, 0x5E, 0xD9, 0x40],
  [0x5A, 0x40, 0x20, 0xD3, 0x87, 0x75, 0x7D, 0x7B, 0xC2, 0x80],
  [0x64, 0xF9, 0xE0, 0x2A, 0xE3, 0x23, 0x62, 0xA2, 0x55, 0xC0],
  [0x63, 0x0D, 0x59, 0x42, 0xD3, 0x92, 0x33, 0x4B, 0x0D, 0xC0],
  [0x0B, 0xD7, 0xE9, 0xF4, 0x22, 0x9B, 0x2D, 0xEE, 0x21, 0x00],
  [0xBC, 0xA5, 0x49, 0xA9, 0x46, 0x7D, 0x3A, 0x25, 0x50, 0xC0],
  [0x2F, 0xEF, 0x7B, 0x1F, 0x57, 0x8C, 0x5E, 0x28, 0xD0, 0x40],
  [0xF3, 0x5E, 0x0F, 0xDD, 0xA1, 0xBE, 0x4B, 0x3B, 0x35, 0xC0],
  [0x69, 0xED, 0x57, 0x5E, 0x7C, 0xC5, 0x37, 0xD2, 0x39, 0x40],
  [0x7D, 0xFD, 0xCF, 0xBF, 0xD5, 0xEF, 0x30, 0x93, 0x68, 0x00],
  [0xB3, 0xB2, 0x92, 0x1A, 0xF9, 0x7F, 0x25, 0x1D, 0x32, 0x80],
  [0x56, 0x22, 0xD0, 0xFE, 0x90, 0x36, 0x35, 0x22, 0x36, 0x40],
  [0xFC, 0xD4, 0xFC, 0x7F, 0xA0, 0x4A, 0x69, 0xD2, 0xAC, 0x40],
  [0x11, 0x19, 0xEA, 0x45, 0x15, 0x02, 0xED, 0x9A, 0xB3, 0x40],
  [0x97, 0x0E, 0xE7, 0x77, 0xEC, 0x96, 0x9A, 0x41, 0x75, 0x40],
  [0x68, 0x8D, 0x14, 0xF8, 0xAF, 0xEC, 0x76, 0x78, 0x3D, 0xC0],
  [0x4D, 0x0B, 0x8A, 0x10, 0x28, 0x57, 0x84, 0x07, 0x42, 0x00],
  [0xD3, 0xD2, 0x13, 0x8D, 0x9F, 0xA2, 0x68, 0xDA, 0x3E, 0x80],
  [0xDF, 0x1B, 0xDB, 0xFF, 0x89, 0x8E, 0x00, 0x63, 0x94, 0xC0],
  [0x8A, 0xC4, 0x78, 0xA9, 0x16, 0xBB, 0x0B, 0x77, 0x68, 0x40],
  [0x93, 0x88, 0x19, 0x97, 0x42, 0x8E, 0x2C, 0x17, 0xA9, 0x40],
  [0x4A, 0xA5, 0x10, 0xE7, 0x46, 0x24, 0x5E, 0x90, 0xC0, 0x80],
  [0xE0, 0x0C, 0xB8, 0x54, 0x3F, 0x85, 0xA5, 0xD5, 0x8B, 0x80],
  [0x91, 0x00, 0xD8, 0xEB, 0x74, 0x03, 0x10, 0x73, 0x04, 0x40],
  [0x38, 0x71, 0x0E, 0x42, 0x35, 0xBD, 0x1E, 0x40, 0x03, 0xC0],
  [0x6A, 0xEF, 0x31, 0x1C, 0xAC, 0x4C, 0x4D, 0xCC, 0xFD, 0x40],
  [0x58, 0x43, 0x0F, 0x57, 0x7F, 0x51, 0xC3, 0x6B, 0x3E, 0x00],
  [0x12, 0x08, 0x2F, 0xA5, 0xD4, 0x26, 0x8A, 0x95, 0xB4, 0xC0],
  [0x7A, 0x74, 0x35, 0xA0, 0xAC, 0xA0, 0x71, 0xE6, 0x4D, 0x00],
  [0xCD, 0x82, 0x50, 0xEB, 0xAD, 0xC9, 0x5D, 0xE1, 0x5B, 0x00],
  [0xDE, 0xBA, 0xD4, 0x0C, 0x85, 0x2E, 0x99, 0xD6, 0x4D, 0xC0],
  [0x4E, 0x6C, 0xAA, 0x5E, 0x7C, 0x86, 0xEF, 0xEF, 0x74, 0x80],
  [0xA5, 0xD4, 0xCB, 0xB9, 0x7E, 0x72, 0x6E, 0x3C, 0x58, 0x00],
  [0x7E, 0x3A, 0x0A, 0x2C, 0x73, 0xEF, 0x85, 0x53, 0x64, 0x00],
  [0xB6, 0x0B, 0xFC, 0x2F, 0xD2, 0xBD, 0x8F, 0x53, 0x0D, 0xC0],
  [0x32, 0xDB, 0xEF, 0x09, 0x7A, 0x5F, 0x84, 0xB0, 0x31, 0x80],
  [0x4C, 0xC7, 0xC1, 0xCF, 0x43, 0x43, 0x00, 0xBE, 0x38, 0x00],
  [0x89, 0x68, 0x40, 0x94, 0x5B, 0xE8, 0xEA, 0xBF, 0x7F, 0x00],
  [0x36, 0xC9, 0xB1, 0x0E, 0xC6, 0x94, 0x81, 0x9A, 0x0A, 0x00],
  [0x34, 0x9F, 0x46, 0xA7, 0x99, 0xEF, 0x95, 0xA4, 0x7C, 0x80],
  [0x9B, 0xDC, 0xD4, 0xCE, 0x25, 0x63, 0xE5, 0x60, 0xB7, 0x40],
  [0xB1, 0x9F, 0xCD, 0x71, 0x11, 0xA3, 0x35, 0xC5, 0x2E, 0xC0]]"

definition kFST4W_LDPC_generator :: "u8 list list" where "kFST4W_LDPC_generator = kFST4W_LDPC_generator_1 @ kFST4W_LDPC_generator_2"

definition kFST4W_LDPC_Mn_1 :: "nat list list" where
 "kFST4W_LDPC_Mn_1 = [
  [83, 100, 143],
  [9, 13, 137],
  [86, 147, 165],
  [0, 49, 66],
  [1, 52, 73],
  [2, 82, 112],
  [3, 89, 120],
  [4, 62, 127],
  [5, 123, 137],
  [7, 21, 107],
  [10, 27, 158],
  [11, 17, 141],
  [12, 23, 144],
  [14, 130, 148],
  [15, 43, 92],
  [16, 40, 46],
  [18, 36, 128],
  [19, 32, 93],
  [20, 99, 153],
  [22, 70, 140],
  [24, 88, 94],
  [25, 104, 152],
  [26, 35, 57],
  [28, 58, 165],
  [29, 51, 125],
  [30, 60, 76],
  [31, 83, 110],
  [33, 96, 154],
  [37, 97, 126],
  [38, 75, 142],
  [39, 54, 91],
  [41, 146, 157],
  [42, 81, 147],
  [44, 48, 108],
  [45, 69, 85],
  [47, 77, 138],
  [50, 100, 103],
  [53, 62, 95],
  [55, 80, 124],
  [56, 116, 163],
  [59, 74, 106],
  [38, 61, 131],
  [63, 109, 117],
  [23, 64, 145],
  [65, 79, 133],
  [67, 90, 113],
  [68, 122, 161],
  [71, 87, 151],
  [78, 98, 129],
  [84, 111, 123],
  [98, 102, 156],
  [105, 114, 132],
  [115, 119, 139],
  [118, 160, 164],
  [63, 121, 136],
  [33, 88, 134],
  [135, 137, 162],
  [92, 143, 158],
  [34, 129, 149],
  [61, 150, 163],
  [103, 152, 159],
  [0, 105, 165],
  [1, 131, 151],
  [2, 10, 104],
  [3, 17, 159],
  [4, 52, 90],
  [5, 108, 140],
  [6, 110, 112],
  [7, 53, 135],
  [8, 60, 91],
  [9, 39, 100],
  [11, 29, 145],
  [12, 36, 81],
  [13, 28, 94],
  [0, 46, 130],
  [1, 7, 138],
  [2, 57, 129],
  [3, 95, 114],
  [4, 118, 128],
  [5, 59, 147],
  [6, 94, 162],
  [1, 34, 55],
  [8, 66, 78],
  [9, 74, 121],
  [10, 16, 120],
  [11, 136, 144],
  [12, 35, 151],
  [13, 14, 154],
  [14, 133, 142],
  [15, 105, 124],
  [10, 105, 156],
  [17, 98, 117],
  [18, 49, 93],
  [19, 125, 157],
  [20, 40, 134],
  [21, 23, 70],
  [22, 41, 135],
  [21, 108, 160],
  [24, 38, 45],
  [25, 44, 54],
  [26, 76, 81],
  [27, 72, 165],
  [28, 68, 75],
  [29, 107, 149],
  [30, 90, 145],
  [13, 31, 146],
  [32, 34, 106],
  [33, 102, 110],
  [7, 93, 121],
  [12, 69, 150],
  [31, 36, 141],
  [2, 37, 86],
  [24, 50, 91],
  [39, 56, 71],
  [20, 107, 152],
  [22, 25, 141],
  [42, 43, 47],
  [29, 42, 61],
  [6, 44, 153],
  [15, 45, 148]]"

definition kFST4W_LDPC_Mn_2 :: "nat list list" where
 "kFST4W_LDPC_Mn_2 = [
  [0, 52, 74],
  [32, 43, 159],
  [48, 85, 156],
  [18, 79, 158],
  [50, 115, 137],
  [51, 91, 97],
  [5, 11, 46],
  [53, 82, 100],
  [23, 54, 101],
  [55, 62, 119],
  [16, 56, 81],
  [37, 153, 161],
  [58, 73, 150],
  [52, 143, 163],
  [60, 84, 116],
  [61, 65, 89],
  [47, 112, 144],
  [63, 64, 127],
  [26, 28, 64],
  [57, 62, 133],
  [8, 73, 82],
  [67, 108, 112],
  [40, 60, 68],
  [35, 59, 154],
  [41, 63, 143],
  [39, 89, 129],
  [27, 109, 134],
  [19, 58, 111],
  [69, 109, 123],
  [53, 75, 104],
  [3, 76, 110],
  [77, 103, 142],
  [65, 66, 90],
  [79, 80, 87],
  [49, 100, 131],
  [70, 96, 119],
  [71, 130, 157],
  [83, 132, 140],
  [4, 84, 98],
  [48, 88, 132],
  [86, 131, 139],
  [33, 87, 103],
  [88, 104, 146],
  [5, 75, 101],
  [17, 30, 162],
  [51, 95, 139],
  [92, 101, 164],
  [78, 103, 164],
  [80, 99, 125],
  [94, 120, 151],
  [96, 122, 152],
  [36, 97, 113],
  [7, 90, 154],
  [99, 113, 159],
  [1, 25, 27],
  [92, 115, 149],
  [67, 102, 165],
  [77, 116, 124],
  [85, 106, 126],
  [3, 58, 135],
  [8, 36, 96],
  [6, 29, 74],
  [79, 147, 152],
  [72, 137, 163],
  [9, 38, 102],
  [38, 145, 155],
  [47, 128, 135],
  [4, 16, 50],
  [111, 148, 160],
  [10, 23, 125],
  [0, 69, 77],
  [13, 112, 117],
  [9, 118, 140],
  [12, 32, 104],
  [18, 56, 88],
  [11, 24, 55],
  [15, 17, 53],
  [83, 123, 161],
  [19, 40, 133],
  [14, 44, 81],
  [114, 117, 122],
  [127, 138, 148],
  [126, 155, 158],
  [20, 140, 151],
  [22, 129, 155],
  [2, 159, 163],
  [21, 89, 109],
  [34, 60, 108],
  [30, 86, 157],
  [41, 59, 105],
  [136, 139, 156],
  [26, 113, 123],
  [31, 61, 124],
  [33, 37, 127],
  [39, 122, 138],
  [28, 65, 85],
  [35, 51, 160],
  [42, 62, 132],
  [45, 72, 107],
  [43, 134, 145],
  [46, 114, 126],
  [48, 73, 115],
  [57, 101, 121],
  [54, 84, 131],
  [49, 64, 149],
  [66, 144, 161],
  [52, 70, 76],
  [68, 87, 141],
  [67, 71, 92],
  [8, 63, 94],
  [91, 93, 110],
  [80, 82, 118],
  [97, 142, 162],
  [72, 78, 95],
  [34, 128, 130],
  [98, 99, 150],
  [6, 111, 158],
  [116, 136, 155],
  [119, 146, 153],
  [106, 120, 164]]"

definition kFST4W_LDPC_Mn :: "nat list list" where "kFST4W_LDPC_Mn = kFST4W_LDPC_Mn_1 @ kFST4W_LDPC_Mn_2"

definition kFST4W_LDPC_Nm_1 :: "nat list list" where
 "kFST4W_LDPC_Nm_1 = [
  [3, 61, 74, 120, 190],
  [4, 62, 75, 81, 174],
  [5, 63, 76, 111, 205],
  [6, 64, 77, 150, 179],
  [7, 65, 78, 158, 187],
  [8, 66, 79, 126, 163],
  [67, 80, 118, 181, 236],
  [9, 68, 75, 108, 172],
  [69, 82, 140, 180, 229],
  [1, 70, 83, 184, 192],
  [10, 63, 84, 90, 189],
  [11, 71, 85, 126, 195],
  [12, 72, 86, 109, 193],
  [1, 73, 87, 105, 191],
  [13, 87, 88, 199, 0],
  [14, 89, 119, 196, 0],
  [15, 84, 130, 187, 0],
  [11, 64, 91, 164, 196],
  [16, 92, 123, 194, 0],
  [17, 93, 147, 198, 0],
  [18, 94, 114, 203, 0],
  [9, 95, 97, 206, 0],
  [19, 96, 115, 204, 0],
  [12, 43, 95, 128, 189],
  [20, 98, 112, 195, 0],
  [21, 99, 115, 174, 0],
  [22, 100, 138, 211, 0],
  [10, 101, 146, 174, 0],
  [23, 73, 102, 138, 215],
  [24, 71, 103, 117, 181],
  [25, 104, 164, 208, 0],
  [26, 105, 110, 212, 0],
  [17, 106, 121, 193, 0],
  [27, 55, 107, 161, 213],
  [58, 81, 106, 207, 234],
  [22, 86, 143, 216, 0],
  [16, 72, 110, 171, 180],
  [28, 111, 131, 213, 0],
  [29, 41, 98, 184, 185],
  [30, 70, 113, 145, 214],
  [15, 94, 142, 198, 0],
  [31, 96, 144, 209, 0],
  [32, 116, 117, 217, 0],
  [14, 116, 121, 219, 0],
  [33, 99, 118, 199, 0],
  [34, 98, 119, 218, 0],
  [15, 74, 126, 220, 0],
  [35, 116, 136, 186, 0],
  [33, 122, 159, 221, 0],
  [3, 92, 154, 224, 0],
  [36, 112, 124, 187, 0],
  [24, 125, 165, 216, 0],
  [4, 65, 120, 133, 226],
  [37, 68, 127, 149, 196],
  [30, 99, 128, 223, 0],
  [38, 81, 129, 195, 0],
  [39, 113, 130, 194, 0],
  [22, 76, 139, 222, 0],
  [23, 132, 147, 179, 0],
  [40, 79, 143, 209, 0],
  [25, 69, 134, 142, 207],
  [41, 59, 117, 135, 212],
  [7, 37, 129, 139, 217],
  [42, 54, 137, 144, 229],
  [43, 137, 138, 224, 0],
  [44, 135, 152, 215, 0],
  [3, 82, 152, 225, 0],
  [45, 141, 176, 228, 0],
  [46, 102, 142, 227, 0],
  [34, 109, 148, 190, 0],
  [19, 95, 155, 226, 0],
  [47, 113, 156, 228, 0],
  [101, 183, 218, 233, 0],
  [4, 132, 140, 221, 0],
  [40, 83, 120, 181, 0],
  [29, 102, 149, 163, 0],
  [25, 100, 150, 226, 0],
  [35, 151, 177, 190, 0],
  [48, 82, 167, 233, 0],
  [44, 123, 153, 182, 0],
  [38, 153, 168, 231, 0],
  [32, 72, 100, 130, 199],
  [5, 127, 140, 231, 0]]"

definition kFST4W_LDPC_Nm_2 :: "nat list list" where
 "kFST4W_LDPC_Nm_2 = [
  [0, 26, 157, 197, 0],
  [49, 134, 158, 223, 0],
  [34, 122, 178, 215, 0],
  [2, 111, 160, 208, 0],
  [47, 153, 161, 227, 0],
  [20, 55, 159, 162, 194],
  [6, 135, 145, 206, 0],
  [45, 65, 104, 152, 172],
  [30, 69, 112, 125, 230],
  [14, 57, 166, 175, 228],
  [17, 92, 108, 230, 0],
  [20, 73, 80, 169, 229],
  [37, 77, 165, 233, 0],
  [27, 155, 170, 180, 0],
  [28, 125, 171, 232, 0],
  [48, 50, 91, 158, 235],
  [18, 168, 173, 235, 0],
  [0, 36, 70, 127, 154],
  [128, 163, 166, 222, 0],
  [50, 107, 176, 184, 0],
  [36, 60, 151, 161, 167],
  [21, 63, 149, 162, 193],
  [51, 61, 89, 90, 209],
  [40, 106, 178, 239, 0],
  [9, 103, 114, 218, 0],
  [33, 66, 97, 141, 207],
  [42, 146, 148, 206, 0],
  [26, 67, 107, 150, 230],
  [49, 147, 188, 236, 0],
  [5, 67, 136, 141, 191],
  [45, 171, 173, 211, 0],
  [51, 77, 200, 220, 0],
  [52, 124, 175, 221, 0],
  [39, 134, 177, 237, 0],
  [42, 91, 191, 200, 0],
  [53, 78, 192, 231, 0],
  [52, 129, 155, 238, 0],
  [6, 84, 169, 239, 0],
  [54, 83, 108, 222, 0],
  [46, 170, 200, 214, 0],
  [8, 49, 148, 197, 211],
  [38, 89, 177, 212, 0],
  [24, 93, 168, 189, 0],
  [28, 178, 202, 220, 0],
  [7, 137, 201, 213, 0],
  [16, 78, 186, 234, 0],
  [48, 58, 76, 145, 204],
  [13, 74, 156, 234, 0],
  [41, 62, 154, 160, 223],
  [51, 157, 159, 217, 0],
  [44, 88, 139, 198, 0],
  [55, 94, 146, 219, 0],
  [56, 68, 96, 179, 186],
  [54, 85, 210, 237, 0],
  [1, 8, 56, 124, 183],
  [35, 75, 201, 214, 0],
  [52, 160, 165, 210, 0],
  [19, 66, 157, 192, 203],
  [11, 110, 115, 227, 0],
  [29, 88, 151, 232, 0],
  [0, 57, 133, 144, 0],
  [12, 85, 136, 225, 0],
  [43, 71, 104, 185, 219],
  [31, 105, 162, 238, 0],
  [2, 32, 79, 182, 0],
  [13, 119, 188, 201, 0],
  [58, 103, 175, 224, 0],
  [59, 109, 132, 235, 0],
  [47, 62, 86, 169, 203],
  [21, 60, 114, 170, 182],
  [18, 118, 131, 238, 0],
  [27, 87, 143, 172, 0],
  [185, 202, 204, 237, 0],
  [50, 90, 122, 210, 0],
  [31, 93, 156, 208, 0],
  [10, 57, 123, 202, 236],
  [60, 64, 121, 173, 205],
  [53, 97, 188, 216, 0],
  [46, 131, 197, 225, 0],
  [56, 80, 164, 232, 0],
  [39, 59, 133, 183, 205],
  [53, 166, 167, 239, 0],
  [2, 23, 61, 101, 176]]"

definition kFST4W_LDPC_Nm :: "nat list list" where "kFST4W_LDPC_Nm = kFST4W_LDPC_Nm_1 @ kFST4W_LDPC_Nm_2"

definition kFST4W_LDPC_num_rows :: "nat list" where
 "kFST4W_LDPC_num_rows = [
  5, 5, 5, 5, 5, 5, 5, 5, 5, 5, 5, 5, 5, 5, 4, 4, 4, 5, 4, 4, 4, 4, 4, 5,
  4, 4, 4, 4, 5, 5, 4, 4, 4, 5, 5, 4, 5, 4, 5, 5, 4, 4, 4, 4, 4, 4, 4, 4,
  4, 4, 4, 4, 5, 5, 4, 4, 4, 4, 4, 4, 5, 5, 5, 5, 4, 4, 4, 4, 4, 4, 4, 4,
  4, 4, 4, 4, 4, 4, 4, 4, 4, 5, 4, 4, 4, 4, 4, 4, 5, 4, 5, 5, 5, 4, 5, 4,
  4, 4, 5, 4, 5, 4, 4, 5, 5, 5, 4, 4, 5, 4, 5, 4, 5, 4, 4, 4, 4, 4, 4, 4,
  4, 4, 4, 5, 4, 4, 4, 4, 4, 5, 4, 5, 4, 4, 4, 5, 4, 5, 4, 4, 5, 4, 4, 4,
  4, 5, 4, 4, 4, 4, 4, 5, 5, 4, 4, 4, 4, 4, 5, 5, 4, 4, 4, 5, 4, 5]"

end
