(* ===== verification/Fst4Code.thy ===== *)
theory Fst4Code
  imports Fst4Tables LinearCode
begin

text \<open>
  The tables of the (240,101) code of FST4 meet the conditions of \<open>linear_code\<close>.
\<close>

unbundle bit_operations_syntax

section \<open>The (240,101) code\<close>

definition fst4_gen :: "u8 list list" where "fst4_gen = kFST4_LDPC_generator"

text \<open>The positions of the parity checks, without the padding of the table.\<close>

definition fst4_checks :: "nat list list" where
  "fst4_checks = map2 take kFST4_LDPC_num_rows kFST4_LDPC_Nm"

definition fst4_mn :: "nat list list" where "fst4_mn = kFST4_LDPC_Mn"

text \<open>The inverse of the parity part, by columns: it turns check results back into parity bits.\<close>

definition fst4_cert :: "int list" where
 "fst4_cert = [
  0x9AC8C98041CC614BA9773F3CF019A5022D,
  0x6FB4A6615EBC02998D19ECBC5029A7A55FF,
  0x67B83954D5C189305C8A7C4DD9016BB9553,
  0x7BA71084E93E43ED645D25FDD18A3F807E6,
  0x4451EE810FB461318069E7A628040F13403,
  0x1FA182563280BFAE8099700E460CEB4337B,
  0x12123BE065ACBFC38149E07CF45F2950105,
  0x5E11B9938B0EEE8F352A4D7234178B0BB6D,
  0x986DF5FACF99709E4ED5A4C7C8615DE90F,
  0x2B9ADBD526D9606E58E637DFB59145A2BE1,
  0x73252F0A094A16493B666ED0582BC920BCE,
  0x692246EC6BFC8FA47AFEB4C19166B82B9A0,
  0x78903A73CE91F6D6922203A117D60A03E64,
  0x6E8B8ADCF276EEB6274C6FDF55BCD4F945E,
  0x6B8F466C5A2560BEE58B77939D7A27BD2DA,
  0x69D92003F3F9006E7C3B0C0B830D8044074,
  0xDA6F006B45F73F31EB8B1130D7040E8F10,
  0x52EBA11ED8BCE4B4245E09972DD9F4D1DBC,
  0x53F2EAED2F2DAFD87B3DEC740657F125422,
  0x6687EE49A60580E89F9BF0FD1D2DA0AD783,
  0x5BAE18889771345F19502C7C4C6EDFB21FA,
  0x56C9BAA49C32AEA8EBEF768A7EC8EA59211,
  0xB9A80F6AA1C62636EE413CCA89545B4FA8,
  0x7D9E59EE3DBD189C8C817240145536D939C,
  0xE6119572639895E20B170465A0CEBFD527,
  0x6E1BB4BD5CF3F12D9F1DE98DAAFC20E18,
  0x2D2201FFEA51C2016FC59F5C04097373649,
  0x47252032D1903512BDA1B88E4C9DED2EFF2,
  0x288A1690796FEEF3FA358FA329350A87CFF,
  0x13FED469AE2D6F6C8A25AD88A46771E4465,
  0x60E0C18E003FC91EA6F9F9E7278E2E511E6,
  0x760E7435CCDE1ABD3E0108217785BCF0748,
  0x4C271296A36715419EB1961D31504A7BD6A,
  0x75C287B19FA1B6F47911E814DCDBBBE4D70,
  0x63F12DD9B0DD8B66DC298C94865E7C61033,
  0x7AA789722E1D8C510A3ACE6113BA8B25C67,
  0xBA8E9B4F7CEA7E7325104E1F3F332053B0,
  0xC95CC5862152882C6700870FCA0D2ECCC3,
  0x3AD9B16C70E1587F5DBFD949097CA6C707F,
  0x828884806961EB00778CA6F3B227E8AFEB,
  0x5FE85DB7A1ED8117CB6EE887A77204170EC,
  0x5C9F0E3D1F72EB912E074A7A9FFC9F8697,
  0x13EBD42AF8BDF0045D5B67490FF6EF2EBDF,
  0x684438A07F066BF9756DE1E5C9ABBF42599,
  0x1E3927B723F4AF9BA572280F4FDEB3C4A02,
  0x39E10E2CC6F1C7E7EF2467DA645F50DD643,
  0x6042EB4E227491024D322A25A113F70C662,
  0x4780C44CE1EE0FB4EC2C269B372EF160B2C,
  0x2407F2674B4056442DC9937C5C57684D065,
  0x27C22F02C39A9EB6A11E0CBA963D066CD4E,
  0x3E2C223783A647019E81BFF179F3FD5B7C4,
  0x1385CF9E45E103F570C47AA0825C330E5C7,
  0x4BB0EC6AB3851D907BC1B0FEB03D3FC2331,
  0x73F44A6CCB29BBC128D6DC994D848ECB94B,
  0x600A9E056504D4ADA2F37311E9E3FF2FD2E,
  0x69010842F729A6BA78F81C82BCACD86CE7E,
  0x692D9B214FA0C9F0F68CC32E0E6B47824C8,
  0x7A65688411DB61ACD19E331A861D509ECF3,
  0x4B97437B9817C1C4F63B255EBE747D7EAD9,
  0x3F109AA76FCBAEC697D47A81FDC56E1D265,
  0x5D533A52362ECCCB850B6546D65DADEDDB9,
  0x65831BADF383BFBB5FD25E8208EC3EF40F5,
  0x2CF94E8D97765EC2CA8F1DC8F23381339BA,
  0x15C583EB9D7AFC1D1A7A63D87CB8489E296,
  0x231728C8A4EA222319232D230C9205D0A4,
  0x1A2BFC112C385DE0CB5925A01844852650A,
  0x6087D71D5BD031B39C1546CEC02ACDB2671,
  0x35289C0B42D054A55D8CF9EE5050072A768,
  0x4D090D3D8AEC5148A5E7D12121D83473C0A,
  0x59EB9029A3F5134A4DD714C98DBCAFF2B6D,
  0x180A9DF4A88196A4324966B254593459121,
  0x137AD056764A812EA3B03897A7A05CBA6B5,
  0x42FAD035684FD0B2E6F275167DF3FBDCBF,
  0x5C0EEB1985EA4D1152DA71CC16FD259E4E8,
  0x51C39861A5630DFA4AAFDEA6B69ED178486,
  0x67BC131C9D664A98F69B1BB28CFB2B8E156,
  0x18563D5D59E3C88BB874A969579443E17D5,
  0x10D402D3B1979D2FE74FE244DE75B541BFD,
  0x3BB6D24D502BC4210E500D91CFFC4E271BB,
  0x2386569E3A50F1F708E87360A0A825A3FB1,
  0xC8DE4D7322FB8B7D7FC1CDF756262CAC9A,
  0x47A4160B5F54EBC2E52B097FAFF5714D955,
  0x658BBBEB893F19484EC57281F5D98FFE28F,
  0x2074AA5AA559E2751D7301178751E3F9520,
  0x68D704EC30154453D6883ECF4CE5F82AAD,
  0x483492FADA5F898C681EE0F24EFA5CBB0B9,
  0x6FA0EB6F8CA19DB5CBE450C2FAA51800E65,
  0x4EBD379AE7D0BA979E730E210FFDF332862,
  0x8A8939B46739DB9001BC0F20EF37C222E8,
  0x598D31BC7CA0445940592170E02BC289357,
  0x2A2ADA063E4C37E3B27F00936BA9BFF3D9C,
  0xEE54A071D56A9A57684785B3B24D14F954,
  0x2C2B506705718B5C00A07EEC328F56F0B8F,
  0x5821461AD36EB01A6CB5569D71221A23857,
  0x2D4C1A43570D31F0425A82B589A38F53851,
  0x772AF453DB11FB5AB3A13922A4E85D4AB74,
  0x3B0DE6C57876EE1B2D10AF3F9DB8173161E,
  0x3E5F583EBFA39C73429C5407C9290D3C977,
  0x37601AF55183FDFC6A9B7B16D8007B0FF33,
  0x539597A8A18D6C3EF359A7BE402DDF80373,
  0x1AFC0F09FAB31627475D62DBDB264964FBA,
  0x7639558B1AF3EAC92692A1747A2C49105B,
  0xA18A614CD2D2867B30086CEA0061D09024,
  0xE9E4E4612FB908C53DCF47F9FAC490D6D3,
  0x50E639DF22CEE4A1EA371E103833CDADF8,
  0x5F485926940CF9459373651B237C99E701C,
  0x253B66B643F3F3265C8DDF21E581EB3B76F,
  0x17C47929AE390D0F733040186829D093760,
  0x43BFCB339E81DF747143EF31855603F4532,
  0x33753DF474FD9E6BE728AABAC67D3C97253,
  0x5B4E42ACAC1508A2C3AED865E95A000160C,
  0x45DBA73843CC3A3AFA7426C6C20FC56A689,
  0x210991FAB96CB80E136AE29D5FD45497D9D,
  0x710B95B65FA8301E4AF17A30E8F5EC35F5F,
  0x6B392598C9DEBA2A6CA6B49C64478C21C05,
  0x1C5696843F6C5E63BA2D07B6222407E35DE,
  0x7DA69D813B10BD5A0C500CC0A4768EF54F8,
  0x7D6A042AD9D22B4D790A28E6D228C7C6F98,
  0x67D0BC51FA0D0937F858086828A492B4C75,
  0x440F9ADEA5F10BF199C95C720A6234F1281,
  0x4DFD62190BA8A7353AFE9455E705954362E,
  0x21B6374A222358E1658005DF521340ADA5,
  0x7034C35DB1A8543141B61BA3F9FF9B10A1B,
  0x218DA061B126F8AF1E18CFFF3FFF161849F,
  0x1314CBE2CB1672DF8E2F257E6A0AA09A8AD,
  0x1D1B9E6EB37BC6C9FCA1D5D39F41A0ABD31,
  0x76F084DC73CE492E17EE3B6A7ABD8272030,
  0xE9E4E46024FEC6BAC230B806053B6F292C,
  0x44061B8A3819F1E750DDBD7ECA2699E6610,
  0x504CCB0A8538E08C2C7184CC8C6F346684,
  0x2E0766DEBA6EBAB6C75F0C4FDDFB5505652,
  0x9334828F8B9827112821C414D04070823C,
  0x39CFB76F320979AD0CE895E63E5139CA79F,
  0x53E6D137EA66D51BC3B51897E7A97C234E4,
  0x3447FE2A72AEB414F19CD2C9692F1035953,
  0x303E4169999A152D622D24419225E6C1C50,
  0x7D97EF0DB15E1F783DC23E1294BFAEA845C,
  0x6971A366DACD13735FB13664EC17F00445E,
  0x451452BE5BDE97308C338A5C7C544D73F56]"

definition fst4_inverse :: "int list" where "fst4_inverse = fst4_cert"

lemma fst4_gen_table: "table_is fst4_gen (kFST4_LDPC_generator)"
  unfolding fst4_gen_def by (rule table_isI) (simp_all add: kFST4_LDPC_generator_def)

lemmas fst4_gen_nth = fst4_gen_table [simplified kFST4_LDPC_generator_def, simplified table_is_def, simplified]

lemma fst4_checks_table: "table_is fst4_checks (map2 take kFST4_LDPC_num_rows kFST4_LDPC_Nm)"
  unfolding fst4_checks_def by (rule table_isI) (simp_all add: kFST4_LDPC_num_rows_def kFST4_LDPC_Nm_def)

lemmas fst4_checks_nth = fst4_checks_table [simplified kFST4_LDPC_num_rows_def kFST4_LDPC_Nm_def, simplified table_is_def, simplified]

lemma fst4_mn_table: "table_is fst4_mn (kFST4_LDPC_Mn)"
  unfolding fst4_mn_def by (rule table_isI) (simp_all add: kFST4_LDPC_Mn_def kFST4_LDPC_Mn_1_def kFST4_LDPC_Mn_2_def)

lemmas fst4_mn_nth = fst4_mn_table [simplified kFST4_LDPC_Mn_def kFST4_LDPC_Mn_1_def kFST4_LDPC_Mn_2_def, simplified table_is_def, simplified]

lemma fst4_inverse_table: "table_is fst4_inverse fst4_cert"
  unfolding fst4_inverse_def by (rule table_isI) (simp_all add: fst4_cert_def)

lemmas fst4_inverse_nth = fst4_inverse_table [simplified fst4_cert_def, simplified table_is_def, simplified]

lemma fst4_lengths: "length fst4_gen = 139" "length fst4_checks = 139" "length fst4_mn = 240"
  by (simp_all add: fst4_gen_def fst4_checks_def fst4_mn_def kFST4_LDPC_generator_def kFST4_LDPC_num_rows_def kFST4_LDPC_Nm_def kFST4_LDPC_Mn_def kFST4_LDPC_Mn_1_def kFST4_LDPC_Mn_2_def)

lemma fst4_row_length: "list_all (\<lambda>row. length row = 13) fst4_gen"
  by (simp add: fst4_gen_def kFST4_LDPC_generator_def)

lemma fst4_zero_row: "replicate 13 (0 :: u8) = [0, 0, 0, 0, 0, 0, 0, 0, 0, 0, 0, 0, 0]"
  by (simp add: numeral_eq_Suc)

lemma fst4_rows_vanish: "list_all (\<lambda>r. xor_rows 13 (map (position_row 101 13 fst4_gen) r) = replicate 13 0)
  (map2 take kFST4_LDPC_num_rows kFST4_LDPC_Nm)"
  by (simp add: kFST4_LDPC_num_rows_def kFST4_LDPC_Nm_def position_row_def unit_row_def fst4_gen_nth fst4_zero_row)

lemma fst4_incident1: "rows_all (\<lambda>m r. distinct r \<and> list_all (\<lambda>n. n < 240 \<and> m \<in> set (fst4_mn ! n)) r) 0 (map2 take kFST4_LDPC_num_rows kFST4_LDPC_Nm)"
  by (simp add: kFST4_LDPC_num_rows_def kFST4_LDPC_Nm_def fst4_mn_nth)

lemma fst4_incident2: "rows_all (\<lambda>n r. distinct r \<and> list_all (\<lambda>m. m < 139 \<and> n \<in> set (fst4_checks ! m)) r) 0 (kFST4_LDPC_Mn)"
  by (simp add: kFST4_LDPC_Mn_def kFST4_LDPC_Mn_1_def kFST4_LDPC_Mn_2_def fst4_checks_nth)

lemma fst4_certificate: "rows_all (\<lambda>i r. xor_all (map ((!) fst4_inverse) r) = 2 ^ i) 0 (drop 101 (kFST4_LDPC_Mn))"
  by (simp add: kFST4_LDPC_Mn_def kFST4_LDPC_Mn_1_def kFST4_LDPC_Mn_2_def fst4_inverse_nth)

interpretation fst4_code: linear_code 101 13 fst4_gen fst4_checks fst4_mn fst4_inverse
proof
  show "row \<in> set fst4_gen \<Longrightarrow> length row = 13" for row
    using fst4_row_length by (simp add: list_all_iff)
  show "(101 :: nat) \<le> 8 * 13" "length fst4_checks = length fst4_gen" "length fst4_mn = 101 + length fst4_gen"
    by (simp_all add: fst4_lengths)
  show "incident fst4_checks fst4_mn"
    by (rule incidentI [OF fst4_incident1 [folded fst4_checks_def] fst4_incident2 [folded fst4_mn_def]])
      (simp_all add: fst4_lengths)
  show "r \<in> set fst4_checks \<Longrightarrow> xor_rows 13 (map (position_row 101 13 fst4_gen) r) = replicate 13 0" for r
    using fst4_rows_vanish [folded fst4_checks_def] by (simp only: list_all_iff)
  show "i < length fst4_gen \<Longrightarrow> xor_all (map ((!) fst4_inverse) (fst4_mn ! (101 + i))) = 2 ^ i" for i
    using rows_allD [OF fst4_certificate [folded fst4_mn_def], of i] by (simp add: fst4_lengths)
qed

end
