(* ===== verification/Fst4wCode.thy ===== *)
theory Fst4wCode
  imports Fst4Tables LinearCode
begin

text \<open>
  The tables of the (240,74) code of FST4W meet the conditions of \<open>linear_code\<close>.
\<close>

unbundle bit_operations_syntax

section \<open>The (240,74) code\<close>

definition fst4w_gen :: "u8 list list" where "fst4w_gen = kFST4W_LDPC_generator"

text \<open>The positions of the parity checks, without the padding of the table.\<close>

definition fst4w_checks :: "nat list list" where
  "fst4w_checks = map2 take kFST4W_LDPC_num_rows kFST4W_LDPC_Nm"

definition fst4w_mn :: "nat list list" where "fst4w_mn = kFST4W_LDPC_Mn"

text \<open>The inverse of the parity part, by columns: it turns check results back into parity bits.\<close>

definition fst4w_cert :: "int list" where
 "fst4w_cert = [
  0x2D39165A87A151AEE9DB450F684874A3F3AFACAA0C,
  0x2EBA83552B18BB41916DAA47D66C81C346C1E216D6,
  0x2B905F96044E785122DED9E0B77269173E5311F9F3,
  0x3B8FB03E01D0B731BCA0914F6E0FF68F84B4F418A9,
  0x33F1399154E41CB6CEA1E28BFFD854954F5DDBD879,
  0xA89A5DB0A63D3A3683C217D9FF775580779B652D6,
  0x33F20B92C4171896BD1C71D59035F89811A74CE533,
  0x50AB98FA2507256E3B9A10F0F923A1A44BB550D39,
  0x31FBD81A03405F83E69414871ED38360D2CDBFE38A,
  0x13A70447524E2C5DC9BF38ABB65781ECB10D386C75,
  0x1D4C25ADECEBDC49CFF7DEC5720B124B111BB35596,
  0x53DCC6F0303F3CAB84F14471C9351DC42D6BE18C8,
  0x324004FD7EDF9CFD74D3CFA63E662C87D478278AE5,
  0x3E3E526BBF10CAE376E0D15EA291EC90BC9ED10180,
  0x8927AD920659AF68E4272C8F0AD8CCB2A22F783AE,
  0x199BB5FCDDD587929488F43B402AD387C4D1337DA4,
  0x10D4002BF45F59EAB3807B41EDDE2543DAE03EFDD8,
  0x147B87D0478F930E4B4BC96789E1F0FB425EAC1058,
  0x9232CE6D0B312A55C48E2347DF984A4134B88C81B,
  0x2CDC9A7F730E3205632B3C6B81D4100D6EE88394C7,
  0x28FB54EB629A83A1A852C978530A7CB60443E995DA,
  0x20DCA106C853060C1397151F6C4F30FD698696F189,
  0x1F3400FDA224DBEA7F85F7B2E3B82FD7386CACC446,
  0x19BA8C916EBB243111055F9F23D43596C914B631FC,
  0x1A490F81703CDDF500CE9EBEE21F4D27F382D0343D,
  0x36C75B218FEA044D3F25E91DEEEBE00FAA53A35E0A,
  0x73F2ADE3A734126D83E62E605B09644FE5E92534B,
  0x187DD874A4F2BF0CBE48435A388761CCEC924148DC,
  0x190C984A89A523573681125DD83E5BEDCB37B33E27,
  0x14A397F00C09C0B56F738C572C44CE56CB3BA802AF,
  0x30FFFFAC2BF819C835AC5EE55F484BBB23844FA213,
  0x74F4438CAD4FC198EB6904859190201BD24ACE731,
  0x26F6B312FCD28BD68254872ECBDAB2F36B12368739,
  0xBF38A11861E0C46617FB85FBC70186D1CE9E17293,
  0x31CE40BB5825957E29EC20BE28E09D38F7958C3AA3,
  0x28AE5295CE0B8B0ECBDB8C75E72F58576FFE056193,
  0x2EBC1FE4E71A23BECE168EE7544ACDDB3F1BA37D7D,
  0x334593799EE8A3E4AAAB3A343831157C8B30D0AB4D,
  0x10D499C73CD73CD22D46E3A6FF8A2848A2F1658BAA,
  0x2E43C1F758E400CED6E922AE48EA83B62DFCCE33C8,
  0x32A01BC5CAF1E65CAB10F5FAD1FCB854C7F5155DAF,
  0x3889EEF7AAB5E9A797A0746D30C68CE9ECB7AF4299,
  0x2CFCF2E060C38982D194B3AA90A2AB3DA73BBB991E,
  0x190223BFBEB65E7629F560FE8010D5183275D0C571,
  0x3CA2F7A8F36170686F5AE2236EBF5DC95DD92D5D00,
  0xA9D96464CEBE1272D887D181D95656F5172B5BF97,
  0xFB469B409602069D073353A8364348445AF084A1E,
  0x35FED15FDE75D7F4F861D35410B27E21954E6B5C6F,
  0x386E7A5BA68558684DD5C22D65180CF3E57BA50004,
  0x38DF0D4CE8B39485A4218612784D099C3861054CCB,
  0x232539BAA0BB475C7D2199CA120671D695BDE525A1,
  0xB46B524257A5EC045752BAF8635AB23C4DAB7A911,
  0xA688A384FBF89853BB4B88DD439422D2933484D90,
  0xDE0322C9A5E149CDFC33D5CC9CB237C868F9F6DFC,
  0xA65AC897C8B7425507F0B3E8054BDC6F7888E030A,
  0x1F74C3EE733D2E3FB8818AF9FE8C1CFBB1546E2CF5,
  0x24E48D5A277BB3745298EBAA73CDF441AD1BE42376,
  0x2729A83D8860A4625AAA9188A9A67F72550DE4BB1F,
  0x1C325E340941857E54851290BD7155B1506FB79E76,
  0x1E027A27517EDB1B33792FE39513380CF94223C3BD,
  0x32FA064C5B0746BCB4D5927B25B55EB135372803A8,
  0x385F65106CCA4937BEE73FFDBCE665636C00139BB1,
  0x39552987318F703B92915819FB8ED72BFC10727277,
  0x2685ABF4AB20CDD3256BF2D0584FC0B8A2B010B4B2,
  0x1E33B294B3D66271EEBF70BBDC8ECDA93569216D6C,
  0x1AA5534CB80095CA107A553B6AF8F0B02AA228EA91,
  0x2903C2718525B7890F6157E23756AAF1F8A55B4586,
  0x23DCBA9AD1EC78A512D49FB1E448A764680725339C,
  0x5A1D8991F6A0E01FC56781E449E6E5F2C23D5E07,
  0x198F217D240D7C0091B8BF079DA761630C841E1612,
  0x39662D97A6E8223D02924A804F9B056BA09200C075,
  0xAA74CAD7F9FB3BA8471C9043B2777F700E72A10BE,
  0x38D2FF6E1B87D766086507E695126F0C9761399C9F,
  0x37FD7BB453936583B1EE62311EB4185580938E0281,
  0x27519C62C81ED82BD26FFD82BC7136CEDA9CE4E79C,
  0x195685C3185383B7294475DC3C77BD0839E58E6020,
  0x330FA7AFE957ABB83926F20D9BA2474689A1488DE5,
  0x34B63727A3AC3DAE7863FA08F5EF15C0FF2BB2BC1E,
  0x18F81A6B8665E80AE9F54365298529912A68E4A70C,
  0xE3FE33F6EEBBD48D6FABD18D1693B803C6BF02799,
  0x2794A56AD2D3C20F899FC4B6387312BF5C96C2E3D2,
  0x34308D71D324EA9EE11890EB9E12D10277FBDADEAE,
  0x606A3AE50D33A00577A76B604679B35525E31E10B,
  0x27BCD96481026DEB545F6918E16F7470E4EE0285C5,
  0x395C10475EB5CE3C7CE7C7C635B52C131B3825C336,
  0x3A9CB2631A5B69D26FB4766B2C6AB5DE1959BD4B6,
  0x18D5CCEF9AA6DBB58875E3D48F437C6B9563C152BE,
  0x29AB4655BC387F475F65792EE91A293F60FD32C44B,
  0x2DC7A1BCF7C9A1D10ED0099E0E3470E5BE506CEB6D,
  0x22FA365CD4CADCFDAE9D6AC6D63E95D346A23B7120,
  0x33A6913D3D2522431F1B02995DAE5A41D20773AF17,
  0x396C363BD0879AA97DEF0774F0193CF1263F35119C,
  0x297FF637AE73CB1F96A556B5DF6FD09368E00F2322,
  0x31FC21AA38008620F869642605B48D382B2A8984D0,
  0x177673EEA8609250C3FFE657469C43D8707DAF5738,
  0x20AAE5059DE23F6CE1904483BC97469DBD09DD3B93,
  0x1F47C7FEE45A7C3928829A604A994EBBEDD61C9EF7,
  0x322A831FF5FDC469389A2CDB762C9FD2E2E582B88D,
  0xAAD29D60A51D28AB246354DCA6D78865465FE1B4F,
  0x23620C5650833277572D45EC69AC35628499C787B8,
  0xBE69182CA8D2E9C88B94BEACDAC9849D4D1AE8CF7,
  0x13DF201812305014417A54A1A380C8503E9C3832F6,
  0x3739D806E9910CFE4F9DB0D49DDA9A413FC5DE7DF,
  0x2258CC443A2673013E1A4171556A31527C14D3B6D8,
  0x14B6B7EF820D972BF6874888F5BC9E74BF6A110DDC,
  0x268B94D07BCB32BCA4D95B8EA5D5B4E515F58C8124,
  0x1738F3A9A4F71EA8ABB8A790E33A2FCB9D87BABD9A,
  0x324F6828576C364125ED7AFE88870A63C6138C2308,
  0x33446F72322D3C29D39B2C50D55C389C2A2A4390B,
  0x226975A0C99DAF1BD0A7FD9BA71A52E2F24AD80A9,
  0x8801791E8871C8985866352F5ADB1C90D15BC954C,
  0x30EEC44B7A4FB77B37AE2EF93CA545BC3E87340AB1,
  0x20E8FC6DF2CEAB678FED2D74E11D64EDAAA5810A97,
  0x1C969CFB12E7E7D7F48CA23C22665209DDFE21C5F0,
  0x1B25553B9C32885D5D30D5CCD298B01239BD292332,
  0xF9309EFF5163DEBFC3BA01C7BAC14A665E82B0285,
  0xBA6160B05B28880C83255BD101072A22E0F0DC09E,
  0x1ED6AE064DDE4184F90DFC2A438C887D163B500B17,
  0x21B206C48200F80FDEE5B2003C14898A0EC8F302D9,
  0x2621EA6942B25E042A10D2E005024BD04D441C5E82,
  0xD98258618B485A37C77A5849FD53708CBFB8DAC4E,
  0x34F698259A50F4761BD0C5290A26B7226B91DC89E9,
  0x5F3FB3DD1ACC9D9A43D29E69114386F2F86792825,
  0x1BA9B6272894A6F12CB2C0DA27D6C44D23A0B396BB,
  0x3F10212CA61EB52E3051AFB5E5FF6762D124BF7C80,
  0x4F6A93C8250F078DEF2815A51DF27DDD80F05646A,
  0x1491388F9552A8348D43E0F651FC84967C1221692C,
  0x38B6196018F6AFA2CBD4826B84410D1197D931D9DE,
  0x12433F55D6E4E4B91044508BC3CCDD1F419528DAB0,
  0xCB9F7AB8C2EDC33787448681ED416656B5EF542E8,
  0x228D7FEE8EC171C739A87035EB2C4027B600A4E013,
  0x33399CCE223EBA192C98CCF8B5E191D5ECB0ABC03C,
  0x15A9DBE7514CF9B94305EBB36B2C7C165B2BC9EB69,
  0x1E7C81BAB9EFD459C83BC9915028A859A91D96C968,
  0x1A5B4F2EA86B65FD03423C8282F6C4E2C3B6ECC875,
  0x27BDEE0A0891324DE82583DFD37EA33ED4DB4386DF,
  0x102BE15D2FB88F59CFC3EA67ED7C4B107D3D544630,
  0x2CB6305555AD7AB7811A39D669AA6170F055CE2724,
  0x2BB03ADA8948C91772D40B48D9FEBBD9027AB71BED,
  0x2BEC5021B89861ACA4ED6F2C3AA2EDBE79D36A9282,
  0x32150283D04E9452175A8AAB8A430866BFC5CB6EAC,
  0x29F35BDC2DCEDFA740A01EAF0D53CFDA923F0F9A4C,
  0x16EEFB63998A4EAF4679BB59A0852492833F610AC6,
  0x1E0C450301952474B2CB86BD28894C514E07BFF62B,
  0x15162D322CBB7C93778CFE20F1EF1ACC3FEBEA56F8,
  0x3596E9116DD3B8B2AB75C7C02E611FAF1C33C0D04,
  0x3971165375C436FAF8564116FB88EE91013A7DE6B1,
  0x148BDFFC5B1D08B85B450E9E0AE44D54FE3B95914B,
  0x130623BA913E66B5B90089235DBFB6C895A386C233,
  0x26ECFFD85B65F6F44A9EF6A9A4C3C4350D082421A7,
  0x2BCF25805AD2E0FDE56B70A1A3C14DE4D0FC399CF7,
  0x1AEE5668B0D417F3BF0843D3D94974D0BB8622FB76,
  0x1AB43CC335F6B5E08DBFB386DB8D76D4C25065B6D2,
  0xF50FC3A377668FED24693F6FE8AA5414C7E61B833,
  0x36AC28B29F755015F8A2A396523C605B96BC26A22E,
  0x138DF7562A0A07D907F1BFDAFD6C39B253325986AE,
  0x3BC7B17D9720EEF56B2E854BD7DEA6AE04EE3ED4B2,
  0x282A3343F15EC27DBDD9BD31D00B37D0B6E78EF0AD,
  0x71CCFD9BE58AFED8AB25F2CAC90BD242F2078EF82,
  0x3FF490AD4264D5A0ABA1E7D04BCA676B5967E64248,
  0x23E8E7F1EB71D5CE8EAEA7DA611AF374AB24B2C882,
  0x3C156F43A99ECB1A78EDA9C2C6B9B03DC74EB1137E,
  0x2484787C6C778AC67EE39782D6A9BB4061DAE3B24B,
  0x1464CF3B4E2AADF1897F3E30FCB80E7C6734F7BBBB,
  0x3AA0D62FBC439B0BD7CF02147CEF18C3567C3711D4,
  0x20AF271ABF75686AB62D44BCAD950EC07BFB78D443]"

definition fst4w_inverse :: "int list" where "fst4w_inverse = fst4w_cert"

lemma fst4w_gen_table: "table_is fst4w_gen (kFST4W_LDPC_generator)"
  unfolding fst4w_gen_def by (rule table_isI) (simp_all add: kFST4W_LDPC_generator_def kFST4W_LDPC_generator_1_def kFST4W_LDPC_generator_2_def)

lemmas fst4w_gen_nth = fst4w_gen_table [simplified kFST4W_LDPC_generator_def kFST4W_LDPC_generator_1_def kFST4W_LDPC_generator_2_def, simplified table_is_def, simplified]

lemma fst4w_checks_table: "table_is fst4w_checks (map2 take kFST4W_LDPC_num_rows kFST4W_LDPC_Nm)"
  unfolding fst4w_checks_def by (rule table_isI) (simp_all add: kFST4W_LDPC_num_rows_def kFST4W_LDPC_Nm_def kFST4W_LDPC_Nm_1_def kFST4W_LDPC_Nm_2_def)

lemmas fst4w_checks_nth = fst4w_checks_table [simplified kFST4W_LDPC_num_rows_def kFST4W_LDPC_Nm_def kFST4W_LDPC_Nm_1_def kFST4W_LDPC_Nm_2_def, simplified table_is_def, simplified]

lemma fst4w_mn_table: "table_is fst4w_mn (kFST4W_LDPC_Mn)"
  unfolding fst4w_mn_def by (rule table_isI) (simp_all add: kFST4W_LDPC_Mn_def kFST4W_LDPC_Mn_1_def kFST4W_LDPC_Mn_2_def)

lemmas fst4w_mn_nth = fst4w_mn_table [simplified kFST4W_LDPC_Mn_def kFST4W_LDPC_Mn_1_def kFST4W_LDPC_Mn_2_def, simplified table_is_def, simplified]

lemma fst4w_inverse_table: "table_is fst4w_inverse fst4w_cert"
  unfolding fst4w_inverse_def by (rule table_isI) (simp_all add: fst4w_cert_def)

lemmas fst4w_inverse_nth = fst4w_inverse_table [simplified fst4w_cert_def, simplified table_is_def, simplified]

lemma fst4w_lengths: "length fst4w_gen = 166" "length fst4w_checks = 166" "length fst4w_mn = 240"
  by (simp_all add: fst4w_gen_def fst4w_checks_def fst4w_mn_def kFST4W_LDPC_generator_def kFST4W_LDPC_generator_1_def kFST4W_LDPC_generator_2_def kFST4W_LDPC_num_rows_def kFST4W_LDPC_Nm_def kFST4W_LDPC_Nm_1_def kFST4W_LDPC_Nm_2_def kFST4W_LDPC_Mn_def kFST4W_LDPC_Mn_1_def kFST4W_LDPC_Mn_2_def)

lemma fst4w_row_length: "list_all (\<lambda>row. length row = 10) fst4w_gen"
  by (simp add: fst4w_gen_def kFST4W_LDPC_generator_def kFST4W_LDPC_generator_1_def kFST4W_LDPC_generator_2_def)

lemma fst4w_zero_row: "replicate 10 (0 :: u8) = [0, 0, 0, 0, 0, 0, 0, 0, 0, 0]"
  by (simp add: numeral_eq_Suc)

lemma fst4w_rows_vanish: "list_all (\<lambda>r. xor_rows 10 (map (position_row 74 10 fst4w_gen) r) = replicate 10 0)
  (map2 take kFST4W_LDPC_num_rows kFST4W_LDPC_Nm)"
  by (simp add: kFST4W_LDPC_num_rows_def kFST4W_LDPC_Nm_def kFST4W_LDPC_Nm_1_def kFST4W_LDPC_Nm_2_def position_row_def unit_row_def fst4w_gen_nth fst4w_zero_row)

lemma fst4w_incident1: "rows_all (\<lambda>m r. distinct r \<and> list_all (\<lambda>n. n < 240 \<and> m \<in> set (fst4w_mn ! n)) r) 0 (map2 take kFST4W_LDPC_num_rows kFST4W_LDPC_Nm)"
  by (simp add: kFST4W_LDPC_num_rows_def kFST4W_LDPC_Nm_def kFST4W_LDPC_Nm_1_def kFST4W_LDPC_Nm_2_def fst4w_mn_nth)

lemma fst4w_incident2: "rows_all (\<lambda>n r. distinct r \<and> list_all (\<lambda>m. m < 166 \<and> n \<in> set (fst4w_checks ! m)) r) 0 (kFST4W_LDPC_Mn)"
  by (simp add: kFST4W_LDPC_Mn_def kFST4W_LDPC_Mn_1_def kFST4W_LDPC_Mn_2_def fst4w_checks_nth)

lemma fst4w_certificate: "rows_all (\<lambda>i r. xor_all (map ((!) fst4w_inverse) r) = 2 ^ i) 0 (drop 74 (kFST4W_LDPC_Mn))"
  by (simp add: kFST4W_LDPC_Mn_def kFST4W_LDPC_Mn_1_def kFST4W_LDPC_Mn_2_def fst4w_inverse_nth)

interpretation fst4w_code: linear_code 74 10 fst4w_gen fst4w_checks fst4w_mn fst4w_inverse
proof
  show "row \<in> set fst4w_gen \<Longrightarrow> length row = 10" for row
    using fst4w_row_length by (simp add: list_all_iff)
  show "(74 :: nat) \<le> 8 * 10" "length fst4w_checks = length fst4w_gen" "length fst4w_mn = 74 + length fst4w_gen"
    by (simp_all add: fst4w_lengths)
  show "incident fst4w_checks fst4w_mn"
    by (rule incidentI [OF fst4w_incident1 [folded fst4w_checks_def] fst4w_incident2 [folded fst4w_mn_def]])
      (simp_all add: fst4w_lengths)
  show "r \<in> set fst4w_checks \<Longrightarrow> xor_rows 10 (map (position_row 74 10 fst4w_gen) r) = replicate 10 0" for r
    using fst4w_rows_vanish [folded fst4w_checks_def] by (simp only: list_all_iff)
  show "i < length fst4w_gen \<Longrightarrow> xor_all (map ((!) fst4w_inverse) (fst4w_mn ! (74 + i))) = 2 ^ i" for i
    using rows_allD [OF fst4w_certificate [folded fst4w_mn_def], of i] by (simp add: fst4w_lengths)
qed

end
