(* ===== verification/FtxEncode.thy ===== *)
theory FtxEncode
  imports FtxCode Fst4Code Fst4wCode
begin

text \<open>
  The encoders of \<open>ft8_lib/ft8/encode.c\<close>, \<open>ldpc.c\<close> and \<open>fst4_ldpc.c\<close>: payload to checksum, parity bits
  and channel tones for FT8, FT4, FST4 and FST4W. Local arrays that C leaves uninitialised and output
  arrays are arguments.
\<close>

unbundle bit_operations_syntax

section \<open>Parity bits, packed\<close>

definition parity8 :: "u8 \<Rightarrow> u8" where
  "parity8 x =
     (let x = x XOR drop_bit 4 x;
          x = x XOR drop_bit 2 x;
          x = x XOR drop_bit 1 x
      in x mod 2)"

text \<open>The loop over \<open>j\<close> for one row.\<close>

definition row_sum174 :: "u8 list \<Rightarrow> nat \<Rightarrow> u8" where
  "row_sum174 message i =
     fold (\<lambda>j nsum. nsum XOR parity8 (message ! j AND kFTX_LDPC_generator ! i ! j)) [0..<12] 0"

definition next_bit :: "u8 \<times> nat \<Rightarrow> u8 \<times> nat" where
  "next_bit = (\<lambda>(col_mask, col_idx).
     let col_mask = drop_bit 1 col_mask in if col_mask = 0 then (0x80, col_idx + 1) else (col_mask, col_idx))"

definition encode174 :: "u8 list \<Rightarrow> u8 list" where
  "encode174 message =
     fst (fold (\<lambda>i (codeword, col_mask, col_idx).
       (if row_sum174 message i mod 2 \<noteq> 0 then codeword[col_idx := codeword ! col_idx OR col_mask] else codeword,
        next_bit (col_mask, col_idx)))
      [0..<83] (map (\<lambda>j. if j < 12 then message ! j else 0) [0..<22], drop_bit (91 mod 8) 0x80, 12 - 1))"

text \<open>The generic encoder of \<open>fst4_ldpc.c\<close>; \<open>generator\<close> is the table's rows.\<close>

definition parity8_and :: "u8 \<Rightarrow> u8" where
  "parity8_and x =
     (let x = x XOR drop_bit 4 x;
          x = x XOR drop_bit 2 x;
          x = x XOR drop_bit 1 x
      in x AND 1)"

definition row_sum :: "u8 list \<Rightarrow> nat \<Rightarrow> u8 list \<Rightarrow> u8" where
  "row_sum message k_bytes gen_row =
     fold (\<lambda>j nsum. nsum XOR parity8_and (message ! j AND gen_row ! j)) [0..<k_bytes] 0"

definition encode240 :: "u8 list \<Rightarrow> u8 list list \<Rightarrow> nat \<Rightarrow> nat \<Rightarrow> nat \<Rightarrow> u8 list" where
  "encode240 message generator k k_bytes m =
     fst (fold (\<lambda>i (codeword, col_mask, col_idx).
       (if row_sum message k_bytes (generator ! i) AND 1 \<noteq> 0
          then codeword[col_idx := codeword ! col_idx OR col_mask] else codeword,
        next_bit (col_mask, col_idx)))
      [0..<m] (map (\<lambda>j. if j < k_bytes then message ! j else 0) [0..<(k + m + 7) div 8], drop_bit (k mod 8) 0x80, k_bytes - 1))"

definition fst4_ldpc_encode :: "u8 list \<Rightarrow> u8 list" where
  "fst4_ldpc_encode message = encode240 message kFST4_LDPC_generator 101 13 139"

definition fst4w_ldpc_encode :: "u8 list \<Rightarrow> u8 list" where
  "fst4w_ldpc_encode message = encode240 message kFST4W_LDPC_generator 74 10 166"

section \<open>Parity bits, one per array element\<close>

definition ldpc_encode :: "bool list \<Rightarrow> bool list \<Rightarrow> bool list" where
  "ldpc_encode plain codeword =
     (let codeword = fold (\<lambda>i codeword. codeword[i := plain ! i]) [0..<91] codeword
      in fold (\<lambda>i codeword.
           snd (fold (\<lambda>j (total, codeword).
             let total = total + (of_bool (gen_sys ! i ! j \<and> plain ! j) :: int)
             in (total, codeword[i + 91 := total mod 2 = 1])) [0..<91] (0, codeword)))
         [0..<83] codeword)"

definition check_row :: "bool list \<Rightarrow> nat \<Rightarrow> bool" where
  "check_row codeword m =
     fold (\<lambda>i x. x \<noteq> codeword ! (kFTX_LDPC_Nm ! m ! i - 1)) [0..<kFTX_LDPC_Num_rows ! m] False"

definition ldpc_check :: "bool list \<Rightarrow> nat" where
  "ldpc_check codeword =
     fold (\<lambda>m errors. if check_row codeword m then errors + 1 else errors) [0..<83] 0"

section \<open>Tones\<close>

text \<open>Reading a bit of the codeword and advancing the mask.\<close>

definition take_bit_at :: "u8 list \<Rightarrow> u8 \<times> nat \<Rightarrow> bool" where
  "take_bit_at codeword = (\<lambda>(mask, i_byte). codeword ! i_byte AND mask \<noteq> 0)"

definition take3 :: "u8 list \<Rightarrow> u8 \<times> nat \<Rightarrow> nat \<times> (u8 \<times> nat)" where
  "take3 codeword p =
     (let bits3 = (if take_bit_at codeword p then 4 else 0); p = next_bit p;
          bits3 = (if take_bit_at codeword p then bits3 + 2 else bits3); p = next_bit p;
          bits3 = (if take_bit_at codeword p then bits3 + 1 else bits3); p = next_bit p
      in (bits3, p))"

definition take2 :: "u8 list \<Rightarrow> u8 \<times> nat \<Rightarrow> nat \<times> (u8 \<times> nat)" where
  "take2 codeword p =
     (let bits2 = (if take_bit_at codeword p then 2 else 0); p = next_bit p;
          bits2 = (if take_bit_at codeword p then bits2 + 1 else bits2); p = next_bit p
      in (bits2, p))"

definition ft8_tone :: "u8 list \<Rightarrow> nat \<Rightarrow> nat list \<times> (u8 \<times> nat) \<Rightarrow> nat list \<times> (u8 \<times> nat)" where
  "ft8_tone codeword i_tone = (\<lambda>(tones, p).
     if i_tone < 7 then (tones[i_tone := kFT8_Costas_pattern ! i_tone], p)
     else if i_tone \<ge> 36 \<and> i_tone < 43 then (tones[i_tone := kFT8_Costas_pattern ! (i_tone - 36)], p)
     else if i_tone \<ge> 72 \<and> i_tone < 79 then (tones[i_tone := kFT8_Costas_pattern ! (i_tone - 72)], p)
     else (let (bits3, p) = take3 codeword p in (tones[i_tone := kFT8_Gray_map ! bits3], p)))"

definition ft8_encode :: "u8 list \<Rightarrow> u8 list \<Rightarrow> nat list \<Rightarrow> nat list" where
  "ft8_encode payload a91 tones =
     (let a91 = ftx_add_crc payload a91;
          codeword = encode174 a91
      in fst (fold (ft8_tone codeword) [0..<79] (tones, 0x80, 0)))"

definition scramble :: "u8 list \<Rightarrow> u8 list" where
  "scramble payload = map (\<lambda>i. payload ! i XOR kFT4_XOR_sequence ! i) [0..<10]"

definition ft4_tone :: "u8 list \<Rightarrow> nat \<Rightarrow> nat list \<times> (u8 \<times> nat) \<Rightarrow> nat list \<times> (u8 \<times> nat)" where
  "ft4_tone codeword i_tone = (\<lambda>(tones, p).
     if i_tone = 0 \<or> i_tone = 104 then (tones[i_tone := 0], p)
     else if i_tone \<ge> 1 \<and> i_tone < 5 then (tones[i_tone := kFT4_Costas_pattern ! 0 ! (i_tone - 1)], p)
     else if i_tone \<ge> 34 \<and> i_tone < 38 then (tones[i_tone := kFT4_Costas_pattern ! 1 ! (i_tone - 34)], p)
     else if i_tone \<ge> 67 \<and> i_tone < 71 then (tones[i_tone := kFT4_Costas_pattern ! 2 ! (i_tone - 67)], p)
     else if i_tone \<ge> 100 \<and> i_tone < 104 then (tones[i_tone := kFT4_Costas_pattern ! 3 ! (i_tone - 100)], p)
     else (let (bits2, p) = take2 codeword p in (tones[i_tone := kFT4_Gray_map ! bits2], p)))"

definition ft4_encode :: "u8 list \<Rightarrow> u8 list \<Rightarrow> nat list \<Rightarrow> nat list" where
  "ft4_encode payload a91 tones =
     (let a91 = ftx_add_crc (scramble payload) a91;
          codeword = encode174 a91
      in fst (fold (ft4_tone codeword) [0..<105] (tones, 0x80, 0)))"

definition sync_pos :: "nat list" where "sync_pos = [0, 38, 76, 114, 152]"

definition sync_words :: "nat list list" where
  "sync_words = [kFST4_Sync_word1, kFST4_Sync_word2, kFST4_Sync_word1, kFST4_Sync_word2, kFST4_Sync_word1]"

definition fst4_tone :: "u8 list \<Rightarrow> nat \<Rightarrow> nat list \<times> (u8 \<times> nat) \<Rightarrow> nat list \<times> (u8 \<times> nat)" where
  "fst4_tone codeword i_tone = (\<lambda>(tones, p).
     if list_ex (\<lambda>s. i_tone \<ge> sync_pos ! s \<and> i_tone < sync_pos ! s + 8) [0..<5] then (tones, p)
     else (let (bits2, p) = take2 codeword p in (tones[i_tone := kFT4_Gray_map ! bits2], p)))"

definition fst4_assemble_frame :: "u8 list \<Rightarrow> nat list \<Rightarrow> nat list" where
  "fst4_assemble_frame codeword tones =
     (let tones = fold (\<lambda>s tones. fold (\<lambda>i tones. tones[sync_pos ! s + i := sync_words ! s ! i]) [0..<8] tones) [0..<5] tones
      in fst (fold (fst4_tone codeword) [0..<160] (tones, 0x80, 0)))"

definition fst4_encode :: "u8 list \<Rightarrow> nat list \<Rightarrow> nat list" where
  "fst4_encode payload tones = fst4_assemble_frame (fst4_ldpc_encode (fst4_add_crc (scramble payload))) tones"

definition fst4w_encode :: "u8 list \<Rightarrow> nat list \<Rightarrow> nat list" where
  "fst4w_encode payload tones = fst4_assemble_frame (fst4w_ldpc_encode (fst4w_add_crc payload)) tones"


section \<open>Parity bits\<close>

lemma parity8_and_eq: "parity8_and x = parity8 x"
  by (simp add: parity8_and_def parity8_def Let_def and_one_eq)

lemma upt_8: "[0..<8] = [0, 1, 2, 3, 4, 5, 6, (7 :: nat)]"
  by (simp add: upt_rec)

lemma neq_ac: "((a \<noteq> b) \<noteq> c) = (a \<noteq> (b \<noteq> c))" "(a \<noteq> b) = (b \<noteq> a)" "(a \<noteq> (b \<noteq> c)) = (b \<noteq> (a \<noteq> c))"
  "(a \<noteq> False) = a" "(False \<noteq> a) = a" for a b c :: bool
  by auto

lemma parity8_eq: "parity8 x = of_bool (parity (map (bit x) [0..<8]))"
proof -
  have "y mod 2 = of_bool (bit y 0)" for y :: u8 by (simp add: bit_0 mod_2_eq_odd)
  then have "parity8 x = of_bool (bit (let x = x XOR drop_bit 4 x; x = x XOR drop_bit 2 x in x XOR drop_bit 1 x) 0)"
    unfolding parity8_def Let_def by blast
  also have "bit (let x = x XOR drop_bit 4 x; x = x XOR drop_bit 2 x in x XOR drop_bit 1 x) 0 = parity (map (bit x) [0..<8])"
    by (simp only: Let_def bit_xor_iff bit_drop_bit_eq upt_8 list.map parity_simps o_apply)
      (simp only: neq_ac arith_simps rel_simps add_0 add_0_right numeral_plus_one one_plus_numeral one_add_one)
  finally show ?thesis .
qed

lemma row_sum_eq:
  "row_sum message k_bytes row = of_bool (parity (map (\<lambda>n. GET_BIT row n \<and> GET_BIT message n) [0..<8 * k_bytes]))"
proof (induction k_bytes)
  case (Suc k)
  let ?f = "\<lambda>n. GET_BIT row n \<and> GET_BIT message n"
  have "[0..<8 * Suc k] = [0..<8 * k] @ map (\<lambda>t. 8 * k + t) [0..<8]"
    using upt_add_eq_append [of 0 "8 * k" 8] map_add_upt [of "8 * k" 8] by (simp add: add.commute)
  then have "parity (map ?f [0..<8 * Suc k]) = (parity (map ?f [0..<8 * k]) \<noteq> parity (map (\<lambda>t. ?f (8 * k + t)) [0..<8]))"
    by (simp add: o_def)
  also have "parity (map (\<lambda>t. ?f (8 * k + t)) [0..<8]) = parity (map (bit (message ! k AND row ! k)) [0..<8])"
  proof -
    have "map (\<lambda>t. ?f (8 * k + t)) [0..<8] = map (bit (message ! k AND row ! k)) (map (\<lambda>t. 7 - t) [0..<8])"
      by (auto simp: upt_8 GET_BIT_def bit_and_iff)
    also have "parity \<dots> = parity (map (bit (message ! k AND row ! k)) [0..<8])"
      by (rule parity_set_cong) (auto simp: upt_8)
    finally show ?thesis .
  qed
  finally show ?case
    using Suc by (auto simp: row_sum_def parity8_and_eq parity8_eq)
qed (simp add: row_sum_def)

lemma next_bit_at: "next_bit (drop_bit (q mod 8) 0x80, q div 8) = (drop_bit (Suc q mod 8) 0x80, Suc q div 8)"
proof -
  have "q mod 8 \<in> {0, 1, 2, 3, 4, 5, 6, 7}" by auto
  then show ?thesis
    by (auto simp: next_bit_def mod_Suc div_Suc)
qed

lemma bit_at: "drop_bit r (0x80 :: u8) = push_bit (7 - r) 1" if "r < 8"
proof -
  have "r \<in> {0, 1, 2, 3, 4, 5, 6, 7}" using that by auto
  then show ?thesis by auto
qed


lemma encode174_generic: "encode174 message = encode240 message kFTX_LDPC_generator 91 12 83"
proof -
  have "row_sum174 message i mod 2 \<noteq> 0 \<longleftrightarrow> row_sum message 12 (kFTX_LDPC_generator ! i) AND 1 \<noteq> 0" for i
    by (simp add: row_sum174_def row_sum_def parity8_and_eq and_one_eq)
  then show ?thesis by (simp add: encode174_def encode240_def)
qed

lemma GET_BIT_set:
  assumes "q div 8 < length cw"
  shows "GET_BIT (cw[q div 8 := cw ! (q div 8) OR drop_bit (q mod 8) 0x80]) n \<longleftrightarrow> GET_BIT cw n \<or> n = q"
proof -
  have eq: "n = q \<longleftrightarrow> n div 8 = q div 8 \<and> n mod 8 = q mod 8" by (metis mult_div_mod_eq)
  have "7 - n mod 8 = 7 - q mod 8 \<longleftrightarrow> n mod 8 = q mod 8"
    using mod_less_divisor [of 8 n] mod_less_divisor [of 8 q] by linarith
  then show ?thesis
    unfolding eq using assms
    by (auto simp: GET_BIT_def nth_list_update bit_at bit_or_iff bit_exp_iff)
qed

text \<open>The \<open>i\<close>-th parity bit, over all bits of the message bytes.\<close>

definition par :: "u8 list \<Rightarrow> u8 list list \<Rightarrow> nat \<Rightarrow> nat \<Rightarrow> bool" where
  "par message generator k_bytes i = parity (map (\<lambda>n. GET_BIT (generator ! i) n \<and> GET_BIT message n) [0..<8 * k_bytes])"

lemma encode240_invariant:
  fixes message generator k k_bytes m
  defines "step \<equiv> \<lambda>i (codeword, col_mask, col_idx).
       (if row_sum message k_bytes (generator ! i) AND 1 \<noteq> 0
          then codeword[col_idx := codeword ! col_idx OR col_mask] else codeword,
        next_bit (col_mask, col_idx))"
  assumes "k_bytes = k div 8 + 1" "k + i \<le> 8 * n_bytes"
  shows "\<exists>cw. fold step [0..<i] (map (\<lambda>j. if j < k_bytes then message ! j else 0) [0..<n_bytes], drop_bit (k mod 8) 0x80, k_bytes - 1)
      = (cw, drop_bit ((k + i) mod 8) 0x80, (k + i) div 8) \<and> length cw = n_bytes \<and>
    (\<forall>n < 8 * n_bytes. GET_BIT cw n \<longleftrightarrow> n < 8 * k_bytes \<and> GET_BIT message n \<or> k \<le> n \<and> n < k + i \<and> par message generator k_bytes (n - k))"
  using assms(3)
proof (induction i)
  case 0
  have "GET_BIT (map (\<lambda>j. if j < k_bytes then message ! j else 0) [0..<n_bytes]) n \<longleftrightarrow> n < 8 * k_bytes \<and> GET_BIT message n"
    if "n < 8 * n_bytes" for n
  proof -
    have "n div 8 < n_bytes" "n div 8 < k_bytes \<longleftrightarrow> n < 8 * k_bytes" using that by auto
    then show ?thesis by (auto simp: GET_BIT_def)
  qed
  then show ?case using assms(2) by auto
next
  case (Suc i)
  then obtain cw where cw: "fold step [0..<i] (map (\<lambda>j. if j < k_bytes then message ! j else 0) [0..<n_bytes], drop_bit (k mod 8) 0x80, k_bytes - 1)
      = (cw, drop_bit ((k + i) mod 8) 0x80, (k + i) div 8)" "length cw = n_bytes"
    and bits: "\<And>n. n < 8 * n_bytes \<Longrightarrow> GET_BIT cw n \<longleftrightarrow> n < 8 * k_bytes \<and> GET_BIT message n \<or> k \<le> n \<and> n < k + i \<and> par message generator k_bytes (n - k)"
    by auto
  have idx: "(k + i) div 8 < length cw" using Suc.prems cw(2) by (simp add: less_mult_imp_div_less mult.commute)
  have sum: "row_sum message k_bytes (generator ! i) AND 1 \<noteq> 0 \<longleftrightarrow> par message generator k_bytes i"
    by (simp add: row_sum_eq par_def)
  let ?cw = "if par message generator k_bytes i then cw[(k + i) div 8 := cw ! ((k + i) div 8) OR drop_bit ((k + i) mod 8) 0x80] else cw"
  have "fold step [0..<Suc i] (map (\<lambda>j. if j < k_bytes then message ! j else 0) [0..<n_bytes], drop_bit (k mod 8) 0x80, k_bytes - 1)
      = step i (cw, drop_bit ((k + i) mod 8) 0x80, (k + i) div 8)"
    using cw(1) by simp
  also have "\<dots> = (?cw, drop_bit ((k + Suc i) mod 8) 0x80, (k + Suc i) div 8)"
    unfolding step_def prod.case sum next_bit_at by simp
  finally have "fold step [0..<Suc i] (map (\<lambda>j. if j < k_bytes then message ! j else 0) [0..<n_bytes], drop_bit (k mod 8) 0x80, k_bytes - 1)
      = (?cw, drop_bit ((k + Suc i) mod 8) 0x80, (k + Suc i) div 8)" .
  moreover have "GET_BIT ?cw n \<longleftrightarrow> n < 8 * k_bytes \<and> GET_BIT message n \<or> k \<le> n \<and> n < k + Suc i \<and> par message generator k_bytes (n - k)"
    if "n < 8 * n_bytes" for n
    using bits [OF that] GET_BIT_set [OF idx, of n] by (cases "n = k + i") auto
  ultimately show ?case using cw(2) by auto
qed

lemma encode240_bits:
  assumes "k_bytes = k div 8 + 1" "\<And>j. k \<le> j \<Longrightarrow> j < 8 * k_bytes \<Longrightarrow> \<not> GET_BIT message j" "n < 8 * ((k + m + 7) div 8)"
  shows "GET_BIT (encode240 message generator k k_bytes m) n \<longleftrightarrow>
      (if n < k then GET_BIT message n
       else n < k + m \<and> parity (map (\<lambda>j. GET_BIT (generator ! (n - k)) j \<and> GET_BIT message j) [0..<k]))"
    and "length (encode240 message generator k k_bytes m) = (k + m + 7) div 8"
proof -
  have k: "k < 8 * k_bytes" using assms(1) by simp
  have "par message generator k_bytes i = parity (map (\<lambda>j. GET_BIT (generator ! i) j \<and> GET_BIT message j) [0..<k])" for i
  proof -
    have "[0..<8 * k_bytes] = [0..<k] @ [k..<8 * k_bytes]" using k upt_add_eq_append [of 0 k "8 * k_bytes - k"] by simp
    moreover have "map (\<lambda>n. GET_BIT (generator ! i) n \<and> GET_BIT message n) [k..<8 * k_bytes] = map (\<lambda>_. False) [k..<8 * k_bytes]"
      using assms(2) by auto
    ultimately show ?thesis
      unfolding par_def by (simp only: map_append parity_append parity_map_False) simp
  qed
  moreover have "k + m \<le> 8 * ((k + m + 7) div 8)" by simp
  from encode240_invariant [OF assms(1) this, of message generator]
  obtain cw where "encode240 message generator k k_bytes m = cw" "length cw = (k + m + 7) div 8"
    "\<forall>n < 8 * ((k + m + 7) div 8). GET_BIT cw n \<longleftrightarrow> n < 8 * k_bytes \<and> GET_BIT message n \<or> k \<le> n \<and> n < k + m \<and> par message generator k_bytes (n - k)"
    unfolding encode240_def by auto
  ultimately show "GET_BIT (encode240 message generator k k_bytes m) n \<longleftrightarrow>
      (if n < k then GET_BIT message n
       else n < k + m \<and> parity (map (\<lambda>j. GET_BIT (generator ! (n - k)) j \<and> GET_BIT message j) [0..<k]))"
    "length (encode240 message generator k k_bytes m) = (k + m + 7) div 8"
    using assms(2,3) k by auto
qed


section \<open>The two encoders of the (174,91) code\<close>

definition byte_bits8 :: "u8 \<Rightarrow> bool list" where
  "byte_bits8 b = [bit b 7, bit b 6, bit b 5, bit b 4, bit b 3, bit b 2, bit b 1, bit b 0]"

lemma bits_of_bytes: "bits_of bs (8 * length bs) = concat (map byte_bits8 bs)"
proof (induction bs rule: rev_induct)
  case (snoc b bs)
  have "[0..<8 * length (bs @ [b])] = [0..<8 * length bs] @ map (\<lambda>t. 8 * length bs + t) [0..<8]"
    using upt_add_eq_append [of 0 "8 * length bs" 8] map_add_upt [of "8 * length bs" 8] by (simp add: add.commute)
  moreover have "map (GET_BIT (bs @ [b])) [0..<8 * length bs] = bits_of bs (8 * length bs)"
    by (auto simp: GET_BIT_def nth_append)
  moreover have "map (GET_BIT (bs @ [b])) (map (\<lambda>t. 8 * length bs + t) [0..<8]) = byte_bits8 b"
  proof -
    have "GET_BIT (bs @ [b]) (8 * length bs + t) = bit b (7 - t)" if "t < 8" for t
      using that by (simp add: GET_BIT_def)
    then have "map (GET_BIT (bs @ [b])) (map (\<lambda>t. 8 * length bs + t) [0..<8]) = map (\<lambda>t. bit b (7 - t)) [0..<8]"
      by simp
    then show ?thesis by (simp add: upt_8 byte_bits8_def)
  qed
  ultimately show ?case using snoc by (simp only: map_append concat_append) simp
qed simp

lemma gen_sys_rows: "gen_sys = map (\<lambda>r. take 91 (concat (map byte_bits8 r))) kFTX_LDPC_generator"
  by (simp add: gen_sys_def kFTX_LDPC_generator_def byte_bits8_def)


lemma gen_sys_nth:
  assumes "i < 83" "j < 91"
  shows "gen_sys ! i ! j = GET_BIT (ftx_gen ! i) j"
proof -
  have i: "i < length kFTX_LDPC_generator" using assms(1) ftx_lengths(1) by (simp add: ftx_gen_def)
  have "length (kFTX_LDPC_generator ! i) = 12"
    using ftx_row_length i by (simp add: list_all_iff ftx_gen_def)
  then have "concat (map byte_bits8 (kFTX_LDPC_generator ! i)) = bits_of (kFTX_LDPC_generator ! i) 96"
    using bits_of_bytes [of "kFTX_LDPC_generator ! i"] by simp
  then show ?thesis using assms(2) i by (simp add: gen_sys_rows ftx_gen_def)
qed

lemma copy_loop: "n \<le> length cw \<Longrightarrow> n \<le> length xs \<Longrightarrow> fold (\<lambda>i cw. cw[i := xs ! i]) [0..<n] cw = take n xs @ drop n cw"
proof (induction n)
  case (Suc n)
  then have "drop n cw = cw ! n # drop (Suc n) cw" by (simp add: Cons_nth_drop_Suc)
  then show ?case using Suc by (simp add: take_Suc_conv_app_nth list_update_append)
qed simp

lemma sum_loop:
  assumes "0 < n"
  shows "fold (\<lambda>j (total, cw). let total = total + (of_bool (f j) :: int) in (total, cw[q := total mod 2 = 1])) [0..<n] (0, cw)
    = (\<Sum>j<n. of_bool (f j), cw[q := parity (map f [0..<n])])"
  using assms
proof (induction n)
  case (Suc n)
  have "parity (map f [0..<n]) = odd (\<Sum>j<n. of_bool (f j) :: int)" for n
    by (induction n) (auto simp del: sum_of_bool_eq)
  then have odd: "parity (map f [0..<n]) = ((\<Sum>j<n. of_bool (f j) :: int) mod 2 = 1)" for n
    by (simp only: odd_iff_mod_2_eq_one)
  show ?case
  proof (cases n)
    case 0
    then show ?thesis by simp
  next
    case (Suc m)
    then show ?thesis using Suc.IH odd [of "Suc n"] by (simp add: Let_def del: sum_of_bool_eq)
  qed
qed simp

lemma ldpc_encode_eq:
  assumes "length plain = 91" "length cw = 174"
  shows "ldpc_encode plain cw = plain @ map (\<lambda>i. parity (map (\<lambda>j. GET_BIT (ftx_gen ! i) j \<and> plain ! j) [0..<91])) [0..<83]"
proof -
  let ?p = "\<lambda>i. parity (map (\<lambda>j. gen_sys ! i ! j \<and> plain ! j) [0..<91])"
  have step: "snd (fold (\<lambda>j (total, codeword). let total = total + (of_bool (gen_sys ! i ! j \<and> plain ! j) :: int)
      in (total, codeword[i + 91 := total mod 2 = 1])) [0..<91] (0, c)) = c[i + 91 := ?p i]" for i c
    by (subst sum_loop) simp_all
  have loop: "n \<le> 83 \<Longrightarrow> fold (\<lambda>i c. c[i + 91 := ?p i]) [0..<n] (plain @ drop 91 cw) = plain @ map ?p [0..<n] @ drop (91 + n) cw" for n
  proof (induction n)
    case (Suc n)
    then have "drop (91 + n) cw = cw ! (91 + n) # drop (91 + Suc n) cw"
      using Cons_nth_drop_Suc [of "91 + n" cw] assms(2) by simp
    then show ?case using Suc assms(1) by (simp add: list_update_append)
  qed simp
  have "ldpc_encode plain cw = fold (\<lambda>i c. c[i + 91 := ?p i]) [0..<83] (plain @ drop 91 cw)"
    unfolding ldpc_encode_def Let_def [of "fold _ _ _"] step using assms by (simp add: copy_loop)
  also have "\<dots> = plain @ map ?p [0..<83]" using loop [of 83] assms by simp
  also have "map ?p [0..<83] = map (\<lambda>i. parity (map (\<lambda>j. GET_BIT (ftx_gen ! i) j \<and> plain ! j) [0..<91])) [0..<83]"
    by (intro map_cong refl arg_cong [where f = parity]) (simp add: gen_sys_nth)
  finally show ?thesis .
qed

text \<open>
  C15: the encoder over packed bytes and the encoder over an array of bits produce the same codeword,
  from two different tables (\<open>kFTX_LDPC_generator\<close> and \<open>gen_sys\<close>), for every message of 91 bits whose last
  byte is filled with zeros.
\<close>

theorem ldpc_encoders_agree:
  assumes "length message = 12" and "message ! 11 AND 0x1F = 0" and "length cw = 174"
  shows "ldpc_encode (bits_of message 91) cw = bits_of (encode174 message) 174"
proof (rule nth_equalityI)
  have pad: "\<not> GET_BIT message j" if "91 \<le> j" "j < 8 * 12" for j
  proof -
    have "(0x1F :: u8) = mask 5" by (simp add: mask_eq_exp_minus_1)
    then have zero: "message ! 11 AND mask 5 = 0" using assms(2) by simp
    have "\<not> bit (message ! 11) n" if "n < 5" for n
    proof -
      have "\<not> bit (message ! 11 AND mask 5) n" unfolding zero by simp
      then show ?thesis using that by (simp add: bit_and_iff bit_mask_iff)
    qed
    moreover have "j div 8 = 11" using that by (simp add: div_nat_eqI)
    moreover from this have "7 - j mod 8 < 5" using that mult_div_mod_eq [of 8 j] by linarith
    ultimately show ?thesis by (simp add: GET_BIT_def)
  qed
  show "length (ldpc_encode (bits_of message 91) cw) = length (bits_of (encode174 message) 174)"
    using assms(3) by (simp add: ldpc_encode_eq)
  fix n assume "n < length (ldpc_encode (bits_of message 91) cw)"
  then have n: "n < 174" using assms(3) by (simp add: ldpc_encode_eq)
  then show "ldpc_encode (bits_of message 91) cw ! n = bits_of (encode174 message) 174 ! n"
    using encode240_bits(1) [of 12 91 message n 83 kFTX_LDPC_generator] pad assms(3)
    by (auto simp: ldpc_encode_eq encode174_generic nth_append ftx_gen_def intro!: arg_cong [where f = parity])
qed

lemma ldpc_encoders_agree_witness:
  "ldpc_encode (bits_of [1, 2, 3, 4, 5, 6, 7, 8, 9, 10, 11, 0x60] 91) (replicate 174 False) =
   bits_of (encode174 [1, 2, 3, 4, 5, 6, 7, 8, 9, 10, 11, 0x60]) 174"
  by (rule ldpc_encoders_agree) simp_all

section \<open>The parity check\<close>

lemma fold_parity: "fold (\<lambda>i x. x \<noteq> f i) xs a = (a \<noteq> parity (map f xs))"
  by (induction xs arbitrary: a) auto

lemma ftx_table_shape: "length kFTX_LDPC_Num_rows = 83" "length kFTX_LDPC_Nm = 83"
  "list_all (\<lambda>(k, r). k \<le> length r) (zip kFTX_LDPC_Num_rows kFTX_LDPC_Nm)"
  by (simp_all add: kFTX_LDPC_Num_rows_def kFTX_LDPC_Nm_def)

lemma check_row_eq:
  assumes "m < 83"
  shows "check_row cw m = parity (map ((!) cw) (ftx_checks ! m))"
proof -
  let ?k = "kFTX_LDPC_Num_rows ! m" and ?r = "kFTX_LDPC_Nm ! m"
  have "?k \<le> length ?r"
    using ftx_table_shape assms by (auto simp: list_all_length)
  then have "map (\<lambda>i. cw ! (?r ! i - 1)) [0..<?k] = map ((!) cw) (map (\<lambda>n. n - 1) (take ?k ?r))"
    by (intro nth_equalityI) auto
  moreover have "ftx_checks ! m = map (\<lambda>n. n - 1) (take ?k ?r)"
    using ftx_table_shape assms by (simp add: ftx_checks_def)
  ultimately show ?thesis unfolding check_row_def fold_parity by (simp only:) simp
qed

lemma fold_count: "fold (\<lambda>m errors. if Q m then errors + 1 else errors) xs n = n + length (filter Q xs)"
  by (induction xs arbitrary: n) auto

lemma ldpc_check_eq: "ldpc_check cw = length (filter (check_row cw) [0..<83])"
  by (simp add: ldpc_check_def fold_count)

lemma ldpc_check_zero: "ldpc_check cw = 0 \<longleftrightarrow> all_checks ftx_checks ((!) cw)"
proof -
  have "ldpc_check cw = 0 \<longleftrightarrow> (\<forall>m < 83. \<not> parity (map ((!) cw) (ftx_checks ! m)))"
    by (auto simp: ldpc_check_eq filter_empty_conv check_row_eq)
  also have "\<dots> \<longleftrightarrow> all_checks ftx_checks ((!) cw)"
    by (simp only: all_checks_def all_set_conv_all_nth ftx_lengths)
  finally show ?thesis .
qed

lemma is_codeword_ldpc_encode:
  assumes "length c = 174" "length cw = 174"
  shows "is_codeword 91 ftx_gen ((!) c) \<longleftrightarrow> c = ldpc_encode (take 91 c) cw"
proof -
  let ?p = "\<lambda>i. parity (map (\<lambda>j. GET_BIT (ftx_gen ! i) j \<and> c ! j) [0..<91])"
  have "map (\<lambda>j. GET_BIT (ftx_gen ! i) j \<and> take 91 c ! j) [0..<91] = map (\<lambda>j. GET_BIT (ftx_gen ! i) j \<and> c ! j) [0..<91]" for i
    by simp
  then have enc: "ldpc_encode (take 91 c) cw = take 91 c @ map ?p [0..<83]"
    using assms by (simp only: ldpc_encode_eq length_take)
  have "c = take 91 c @ map ?p [0..<83] \<longleftrightarrow> drop 91 c = map ?p [0..<83]"
    by (subst (1) append_take_drop_id [of 91 c, symmetric]) (simp only: same_append_eq)
  also have "\<dots> \<longleftrightarrow> (\<forall>i < 83. c ! (91 + i) = ?p i)"
    using assms(1) by (auto simp: list_eq_iff_nth_eq)
  finally show ?thesis unfolding enc is_codeword_def ftx_lengths by simp
qed

text \<open>
  \<open>ldpc_check\<close> counts the unsatisfied parity checks, at most 83 of them, and the count is 0 for
  exactly the codewords: a word of 174 bits passes if and only if it is the encoding of its first 91
  bits.
\<close>

theorem ldpc_check_exact:
  assumes "length c = 174" and "length cw = 174"
  shows "ldpc_check c \<le> 83 \<and> (ldpc_check c = 0 \<longleftrightarrow> c = ldpc_encode (take 91 c) cw)"
proof
  show "ldpc_check c \<le> 83" using length_filter_le [of "check_row c" "[0..<83]"] by (simp add: ldpc_check_eq)
  show "ldpc_check c = 0 \<longleftrightarrow> c = ldpc_encode (take 91 c) cw"
    using ftx_code.codeword_iff_passes is_codeword_ldpc_encode [OF assms] by (simp add: ldpc_check_zero)
qed

lemma ldpc_check_exact_witness:
  "ldpc_check (replicate 174 False) = 0 \<longleftrightarrow>
   replicate 174 False = ldpc_encode (take 91 (replicate 174 False)) (replicate 174 True)"
  using ldpc_check_exact [of "replicate 174 False" "replicate 174 True"] by simp

end
