(* ===== verification/FtxTones.thy ===== *)
theory FtxTones
  imports FtxEncode
begin

text \<open>
  From codewords to tones and back: what the tone loops of \<open>encode.c\<close> put on the channel, and that the
  payload can be read off it.
\<close>

unbundle bit_operations_syntax

section \<open>Reading the codeword\<close>

definition pos :: "nat \<Rightarrow> u8 \<times> nat" where
  "pos q = (drop_bit (q mod 8) 0x80, q div 8)"

lemma pos_0: "pos 0 = (0x80, 0)"
  by (simp add: pos_def)

lemma next_pos: "next_bit (pos q) = pos (Suc q)"
  unfolding pos_def by (rule next_bit_at)

lemma take_bit_at_pos: "take_bit_at cw (pos q) = GET_BIT cw q"
proof -
  have "x AND push_bit k 1 \<noteq> 0 \<longleftrightarrow> bit x k" if "k < 8" for x :: u8 and k
  proof
    assume b: "bit x k"
    then have "bit (x AND push_bit k 1) k" using that by (simp add: bit_and_iff bit_exp_iff)
    then show "x AND push_bit k 1 \<noteq> 0" by auto
  next
    assume nz: "x AND push_bit k 1 \<noteq> 0"
    show "bit x k"
    proof (rule ccontr)
      assume "\<not> bit x k"
      then have "x AND push_bit k 1 = 0" by (intro bit_eqI) (auto simp: bit_and_iff bit_exp_iff)
      with nz show False by simp
    qed
  qed
  then show ?thesis by (simp add: take_bit_at_def pos_def bit_at GET_BIT_def)
qed

definition field :: "nat \<Rightarrow> u8 list \<Rightarrow> nat \<Rightarrow> nat" where
  "field nb cw q = fold (\<lambda>j v. 2 * v + of_bool (GET_BIT cw (q + j))) [0..<nb] 0"

lemma field_2_3:
  "field 2 cw q = 2 * of_bool (GET_BIT cw q) + of_bool (GET_BIT cw (Suc q))"
  "field 3 cw q = 4 * of_bool (GET_BIT cw q) + 2 * of_bool (GET_BIT cw (Suc q)) + of_bool (GET_BIT cw (Suc (Suc q)))"
  by (simp_all add: field_def upt_rec)

lemma take2_pos: "take2 cw (pos q) = (field 2 cw q, pos (q + 2))"
  by (simp add: take2_def next_pos take_bit_at_pos field_2_3 Let_def)

lemma take3_pos: "take3 cw (pos q) = (field 3 cw q, pos (q + 3))"
proof -
  have e: "Suc (Suc (Suc q)) = q + 3" by simp
  show ?thesis unfolding take3_def next_pos take_bit_at_pos field_2_3 Let_def e by simp
qed

section \<open>The receiver's side\<close>

text \<open>
  A receiver that knows the positions of the synchronisation tones looks every other tone up in the
  Gray map and strings the bits together.
\<close>

definition gray_index :: "nat list \<Rightarrow> nat \<Rightarrow> nat" where
  "gray_index gray t = length (takeWhile (\<lambda>x. x \<noteq> t) gray)"

definition bits_msb :: "nat \<Rightarrow> nat \<Rightarrow> bool list" where
  "bits_msb nb v = map (\<lambda>j. bit v (nb - 1 - j)) [0..<nb]"

definition demodulate :: "nat \<Rightarrow> nat list \<Rightarrow> (nat \<Rightarrow> nat option) \<Rightarrow> nat \<Rightarrow> nat list \<Rightarrow> bool list" where
  "demodulate nb gray sync n tones =
     concat (map (\<lambda>i. bits_msb nb (gray_index gray (tones ! i))) (filter (\<lambda>i. sync i = None) [0..<n]))"

lemma bits_msb_field:
  "bits_msb 2 (field 2 cw q) = map (GET_BIT cw) [q..<q + 2]" "field 2 cw q < 2 ^ 2"
  "bits_msb 3 (field 3 cw q) = map (GET_BIT cw) [q..<q + 3]" "field 3 cw q < 2 ^ 3"
proof -
  have m: "bits_msb 2 v = [bit v 1, bit v 0]" "bits_msb 3 v = [bit v 2, bit v 1, bit v 0]" for v
    by (simp_all add: bits_msb_def upt_rec numeral_2_eq_2)
  have u: "[q..<q + 2] = [q, Suc q]" "[q..<q + 3] = [q, Suc q, Suc (Suc q)]"
    by (simp_all add: upt_conv_Cons)
  have two: "[bit (2 * of_bool a + of_bool b :: nat) 1, bit (2 * of_bool a + of_bool b :: nat) 0] = [a, b]"
    "2 * of_bool a + of_bool b < (4 :: nat)" for a b
    by (cases a; cases b; simp add: bit_iff_odd)+
  have three: "[bit (4 * of_bool a + 2 * of_bool b + of_bool c :: nat) 2, bit (4 * of_bool a + 2 * of_bool b + of_bool c :: nat) 1,
      bit (4 * of_bool a + 2 * of_bool b + of_bool c :: nat) 0] = [a, b, c]"
    "4 * of_bool a + 2 * of_bool b + of_bool c < (8 :: nat)" for a b c
    by (cases a; cases b; cases c; simp add: bit_iff_odd)+
  show "bits_msb 2 (field 2 cw q) = map (GET_BIT cw) [q..<q + 2]" "field 2 cw q < 2 ^ 2"
    using two unfolding m u field_2_3 by simp_all
  show "bits_msb 3 (field 3 cw q) = map (GET_BIT cw) [q..<q + 3]" "field 3 cw q < 2 ^ 3"
    using three unfolding m u field_2_3 by simp_all
qed

lemma gray_index_nth: "distinct gray \<Longrightarrow> k < length gray \<Longrightarrow> gray_index gray (gray ! k) = k"
proof -
  assume *: "distinct gray" "k < length gray"
  then have "takeWhile (\<lambda>x. x \<noteq> gray ! k) gray = take k gray"
    by (intro takeWhile_eq_take_P_nth) (auto simp: nth_eq_iff_index_eq)
  then show ?thesis using * by (simp add: gray_index_def)
qed

text \<open>The frames as the comments of the encoders describe them.\<close>

definition ft8_sync :: "nat \<Rightarrow> nat option" where
  "ft8_sync i = (if i mod 36 < 7 then Some (kFT8_Costas_pattern ! (i mod 36)) else None)"

definition ft4_sync :: "nat \<Rightarrow> nat option" where
  "ft4_sync i = (if i = 0 \<or> i = 104 then Some 0
     else if (i - 1) mod 33 < 4 then Some (kFT4_Costas_pattern ! ((i - 1) div 33) ! ((i - 1) mod 33)) else None)"

definition fst4_sync :: "nat \<Rightarrow> nat option" where
  "fst4_sync i = (if i mod 38 < 8
     then Some ((if even (i div 38) then kFST4_Sync_word1 else kFST4_Sync_word2) ! (i mod 38)) else None)"

locale tone_writer =
  fixes step :: "u8 list \<Rightarrow> nat \<Rightarrow> nat list \<times> (u8 \<times> nat) \<Rightarrow> nat list \<times> (u8 \<times> nat)"
    and n nb :: nat
    and sync :: "nat \<Rightarrow> nat option"
    and gray :: "nat list"
    and synced :: bool
  assumes sync_step: "i < n \<Longrightarrow> sync i = Some t \<Longrightarrow> (synced \<Longrightarrow> ts ! i = t) \<Longrightarrow> step cw i (ts, p) = (ts[i := t], p)"
    and data_step: "i < n \<Longrightarrow> sync i = None \<Longrightarrow> step cw i (ts, pos q) = (ts[i := gray ! field nb cw q], pos (q + nb))"
    and width: "nb = 2 \<or> nb = 3"
    and gray: "distinct gray" "length gray = 2 ^ nb"
begin

definition count :: "nat \<Rightarrow> nat" where
  "count i = length (filter (\<lambda>j. sync j = None) [0..<i])"

lemma frame:
  assumes "n \<le> length ts" "synced \<Longrightarrow> \<forall>i < n. \<forall>t. sync i = Some t \<longrightarrow> ts ! i = t" "m \<le> n"
  shows "\<exists>ts'. fold (step cw) [0..<m] (ts, pos 0) = (ts', pos (nb * count m)) \<and> length ts' = length ts \<and>
    (\<forall>i < m. ts' ! i = (case sync i of Some t \<Rightarrow> t | None \<Rightarrow> gray ! field nb cw (nb * count i))) \<and>
    (\<forall>i < n. m \<le> i \<longrightarrow> ts' ! i = ts ! i)"
  using assms(3)
proof (induction m)
  case 0
  then show ?case using assms(1) by (simp add: count_def)
next
  case (Suc m)
  then obtain ts' where IH: "fold (step cw) [0..<m] (ts, pos 0) = (ts', pos (nb * count m))" "length ts' = length ts"
    "\<forall>i < m. ts' ! i = (case sync i of Some t \<Rightarrow> t | None \<Rightarrow> gray ! field nb cw (nb * count i))"
    "\<forall>i < n. m \<le> i \<longrightarrow> ts' ! i = ts ! i"
    by auto
  show ?case
  proof (cases "sync m")
    case None
    then have "step cw m (ts', pos (nb * count m)) = (ts'[m := gray ! field nb cw (nb * count m)], pos (nb * count (Suc m)))"
      using data_step [of m cw ts' "nb * count m"] Suc.prems by (simp add: count_def add.commute)
    then show ?thesis using IH None Suc.prems assms(1) by (auto simp: nth_list_update less_Suc_eq)
  next
    case (Some t)
    have "ts' ! m = t" if synced using IH(4) assms(2) [OF that] Some Suc.prems by auto
    then have "step cw m (ts', pos (nb * count m)) = (ts'[m := t], pos (nb * count (Suc m)))"
      using sync_step [of m t ts' cw] Some Suc.prems by (simp add: count_def)
    then show ?thesis using IH Some Suc.prems assms(1) by (auto simp: nth_list_update less_Suc_eq)
  qed
qed

lemma field_bits: "bits_msb nb (field nb cw q) = map (GET_BIT cw) [q..<q + nb]" "field nb cw q < length gray"
  using width gray(2) bits_msb_field by auto

lemma data_in_gray:
  assumes "\<forall>i < n. ts ! i = (case sync i of Some t \<Rightarrow> t | None \<Rightarrow> gray ! field nb cw (nb * count i))" "i < n" "sync i = None"
  shows "ts ! i \<in> set gray"
  using assms field_bits(2) by simp

text \<open>What is sent is received.\<close>

lemma demodulate_sent:
  assumes "m \<le> n" "\<forall>i < m. ts' ! i = (case sync i of Some t \<Rightarrow> t | None \<Rightarrow> gray ! field nb cw (nb * count i))"
  shows "demodulate nb gray sync m ts' = map (GET_BIT cw) [0..<nb * count m]"
  using assms
proof (induction m)
  case 0
  then show ?case by (simp add: demodulate_def count_def)
next
  case (Suc m)
  then have IH: "demodulate nb gray sync m ts' = map (GET_BIT cw) [0..<nb * count m]" by simp
  show ?case
  proof (cases "sync m")
    case None
    have tone: "ts' ! m = gray ! field nb cw (nb * count m)" using Suc.prems None by auto
    have split: "[0..<nb * count (Suc m)] = [0..<nb * count m] @ [nb * count m..<nb * count m + nb]"
      using None upt_add_eq_append [of 0 "nb * count m" nb] by (simp add: count_def add.commute)
    show ?thesis
      unfolding split using IH None field_bits [of cw "nb * count m"]
      by (simp add: demodulate_def tone gray_index_nth gray(1))
  next
    case (Some t)
    then show ?thesis using IH by (simp add: demodulate_def count_def)
  qed
qed

end


lemma div_mod_range: "d * k \<le> i \<Longrightarrow> i < d * k + k \<Longrightarrow> i mod k = i - d * k \<and> i div k = d" for i k d :: nat
proof -
  assume *: "d * k \<le> i" "i < d * k + k"
  then have "i div k = d" by (intro div_nat_eqI) (auto simp: mult.commute)
  moreover from this have "i mod k = i - d * k" by (metis minus_div_mult_eq_mod)
  ultimately show ?thesis by blast
qed

lemma ft8_ranges:
  assumes "i < (79 :: nat)"
  obtains "i < 36" "i mod 36 = i" | "36 \<le> i" "i < 72" "i mod 36 = i - 36" | "72 \<le> i" "i mod 36 = i - 72"
proof -
  consider "i < 36" | "36 \<le> i" "i < 72" | "72 \<le> i" by linarith
  then show thesis
    using that div_mod_range [of 0 36 i] div_mod_range [of 1 36 i] div_mod_range [of 2 36 i] assms by cases auto
qed

interpretation ft8: tone_writer ft8_tone 79 3 ft8_sync kFT8_Gray_map False
proof
  fix i ts cw
  assume i: "i < (79 :: nat)"
  show "ft8_tone cw i (ts, p) = (ts[i := t], p)" if "ft8_sync i = Some t" for t p
    using i by (cases rule: ft8_ranges) (use i that in \<open>auto simp: ft8_sync_def ft8_tone_def split: if_splits\<close>)
  show "ft8_tone cw i (ts, pos q) = (ts[i := kFT8_Gray_map ! field 3 cw q], pos (q + 3))" if "ft8_sync i = None" for q
    using i by (cases rule: ft8_ranges) (use i that in \<open>auto simp: ft8_sync_def ft8_tone_def take3_pos split: if_splits\<close>)
qed (simp_all add: kFT8_Gray_map_def)

lemma ft4_ranges:
  assumes "0 < i" "i < (104 :: nat)"
  obtains d where "d < 4" "33 * d + 1 \<le> i" "i \<le> 33 * d + 33" "(i - 1) mod 33 = i - 1 - 33 * d" "(i - 1) div 33 = d"
proof -
  define j d where "j = i - 1" and "d = j div 33"
  have "j = 33 * d + j mod 33" "j mod 33 < 33" "i = Suc j" using assms(1) by (simp_all add: j_def d_def)
  then have "d < 4" "33 * d + 1 \<le> i" "i \<le> 33 * d + 33" "j mod 33 = j - 33 * d" using assms(2) by linarith+
  then show thesis using that by (simp add: j_def d_def)
qed

interpretation ft4: tone_writer ft4_tone 105 2 ft4_sync kFT4_Gray_map False
proof
  fix i ts cw
  assume i: "i < (105 :: nat)"
  have edge: "ft4_tone cw i (ts, p) = (ts[i := 0], p)" "ft4_sync i = Some 0" if "i = 0 \<or> i = 104" for p
    using that by (auto simp: ft4_tone_def ft4_sync_def)
  show "ft4_tone cw i (ts, p) = (ts[i := t], p)" if t: "ft4_sync i = Some t" for t p
  proof (cases "i = 0 \<or> i = 104")
    case False
    then obtain d where d: "d < 4" "33 * d + 1 \<le> i" "i \<le> 33 * d + 33" "(i - 1) mod 33 = i - 1 - 33 * d" "(i - 1) div 33 = d"
      using ft4_ranges [of i] i by auto
    have "d = 0 \<or> d = 1 \<or> d = 2 \<or> d = 3" using d(1) by linarith
    then show ?thesis using d t False by (elim disjE) (auto simp: ft4_tone_def ft4_sync_def split: if_splits)
  qed (use edge t in auto)
  show "ft4_tone cw i (ts, pos q) = (ts[i := kFT4_Gray_map ! field 2 cw q], pos (q + 2))" if t: "ft4_sync i = None" for q
  proof (cases "i = 0 \<or> i = 104")
    case False
    then obtain d where d: "d < 4" "33 * d + 1 \<le> i" "i \<le> 33 * d + 33" "(i - 1) mod 33 = i - 1 - 33 * d" "(i - 1) div 33 = d"
      using ft4_ranges [of i] i by auto
    have "d = 0 \<or> d = 1 \<or> d = 2 \<or> d = 3" using d(1) by linarith
    then show ?thesis using d t False by (elim disjE) (auto simp: ft4_tone_def ft4_sync_def take2_pos split: if_splits)
  qed (use edge t in auto)
qed (simp_all add: kFT4_Gray_map_def)


lemma fst4_ranges:
  assumes "i < (160 :: nat)"
  obtains d where "d < 5" "38 * d \<le> i" "i < 38 * d + 38" "i mod 38 = i - 38 * d" "i div 38 = d"
proof -
  define d where "d = i div 38"
  have "i = 38 * d + i mod 38" "i mod 38 < 38" by (simp_all add: d_def)
  then have "d < 5" "38 * d \<le> i" "i < 38 * d + 38" "i mod 38 = i - 38 * d" using assms by linarith+
  then show thesis using that [of d] by (simp add: d_def [symmetric])
qed

lemma fst4_in_sync:
  assumes "i < 160"
  shows "list_ex (\<lambda>s. i \<ge> sync_pos ! s \<and> i < sync_pos ! s + 8) [0..<5] \<longleftrightarrow> i mod 38 < 8"
proof -
  obtain d where d: "d < 5" "38 * d \<le> i" "i < 38 * d + 38" "i mod 38 = i - 38 * d" using assms by (rule fst4_ranges)
  have "d = 0 \<or> d = 1 \<or> d = 2 \<or> d = 3 \<or> d = 4" using d(1) by linarith
  moreover have "[0..<5] = [0, 1, 2, 3, (4 :: nat)]" by (simp add: upt_rec)
  ultimately show ?thesis using d by (elim disjE) (auto simp: sync_pos_def)
qed

interpretation fst4: tone_writer fst4_tone 160 2 fst4_sync kFT4_Gray_map True
proof
  fix i ts cw
  assume i: "i < (160 :: nat)"
  show "fst4_tone cw i (ts, p) = (ts[i := t], p)" if "fst4_sync i = Some t" "True \<Longrightarrow> ts ! i = t" for t p
    using that i by (auto simp: fst4_tone_def fst4_in_sync fst4_sync_def split: if_splits)
  show "fst4_tone cw i (ts, pos q) = (ts[i := kFT4_Gray_map ! field 2 cw q], pos (q + 2))" if "fst4_sync i = None" for q
    using that i by (auto simp: fst4_tone_def fst4_in_sync fst4_sync_def take2_pos split: if_splits)
qed (simp_all add: kFT4_Gray_map_def)

text \<open>The first loop of \<open>fst4_assemble_frame\<close> places the synchronisation words.\<close>

lemma place_word:
  "k \<le> length w \<Longrightarrow> p + k \<le> length ts \<Longrightarrow>
   length (fold (\<lambda>i ts. ts[p + i := w ! i]) [0..<k] ts) = length ts \<and>
   (\<forall>j < length ts. fold (\<lambda>i ts. ts[p + i := w ! i]) [0..<k] ts ! j = (if p \<le> j \<and> j < p + k then w ! (j - p) else ts ! j))"
  by (induction k) (auto simp: nth_list_update)

lemma place_words:
  assumes "length ts = 160" "m \<le> 5"
  shows "length (fold (\<lambda>s ts. fold (\<lambda>i ts. ts[sync_pos ! s + i := sync_words ! s ! i]) [0..<8] ts) [0..<m] ts) = 160 \<and>
    (\<forall>j < 160. j mod 38 < 8 \<longrightarrow> j div 38 < m \<longrightarrow>
      fold (\<lambda>s ts. fold (\<lambda>i ts. ts[sync_pos ! s + i := sync_words ! s ! i]) [0..<8] ts) [0..<m] ts ! j = sync_words ! (j div 38) ! (j mod 38))"
  using assms(2)
proof (induction m)
  case (Suc m)
  let ?ts = "fold (\<lambda>s ts. fold (\<lambda>i ts. ts[sync_pos ! s + i := sync_words ! s ! i]) [0..<8] ts) [0..<m] ts"
  have m: "m = 0 \<or> m = 1 \<or> m = 2 \<or> m = 3 \<or> m = 4" using Suc.prems by linarith
  then have p: "sync_pos ! m = 38 * m" "8 \<le> length (sync_words ! m)"
    by (auto simp: sync_pos_def sync_words_def kFST4_Sync_word1_def kFST4_Sync_word2_def)
  have len: "length ?ts = 160" using Suc by simp
  note word = place_word [of 8 "sync_words ! m" "sync_pos ! m" ?ts]
  have "38 * m + 8 \<le> 160" using Suc.prems by simp
  then have word: "length (fold (\<lambda>i ts. ts[sync_pos ! m + i := sync_words ! m ! i]) [0..<8] ?ts) = 160"
    "j < 160 \<Longrightarrow> fold (\<lambda>i ts. ts[sync_pos ! m + i := sync_words ! m ! i]) [0..<8] ?ts ! j =
       (if 38 * m \<le> j \<and> j < 38 * m + 8 then sync_words ! m ! (j - 38 * m) else ?ts ! j)" for j
    using word p len by auto
  show ?case
  proof (intro conjI allI impI)
    show "length (fold (\<lambda>s ts. fold (\<lambda>i ts. ts[sync_pos ! s + i := sync_words ! s ! i]) [0..<8] ts) [0..<Suc m] ts) = 160"
      using word(1) by simp
    fix j :: nat assume j: "j < 160" "j mod 38 < 8" "j div 38 < Suc m"
    obtain d where d: "38 * d \<le> j" "j < 38 * d + 38" "j mod 38 = j - 38 * d" "j div 38 = d" using j(1) by (rule fst4_ranges)
    have "?ts ! j = sync_words ! (j div 38) ! (j mod 38)" if "d < m" using Suc j d that by simp
    moreover have "\<not> (38 * m \<le> j \<and> j < 38 * m + 8)" if "d < m" using d that by linarith
    moreover have "38 * m \<le> j \<and> j < 38 * m + 8" if "d = m" using d that j(2) by linarith
    ultimately show "fold (\<lambda>s ts. fold (\<lambda>i ts. ts[sync_pos ! s + i := sync_words ! s ! i]) [0..<8] ts) [0..<Suc m] ts ! j
        = sync_words ! (j div 38) ! (j mod 38)"
      using word(2) [OF j(1)] d j(3) by (cases "d = m") auto
  qed
qed (use assms in simp)


section \<open>What the channel carries\<close>

lemma counts: "ft8.count 79 = 58" "ft4.count 105 = 87" "fst4.count 160 = 120"
proof -
  have "ft8_sync j = None \<longleftrightarrow> \<not> j mod 36 < 7" "fst4_sync j = None \<longleftrightarrow> \<not> j mod 38 < 8"
    "ft4_sync j = None \<longleftrightarrow> \<not> (j = 0 \<or> j = 104 \<or> (j - 1) mod 33 < 4)" for j
    by (simp_all add: ft8_sync_def fst4_sync_def ft4_sync_def)
  then show "ft8.count 79 = 58" "ft4.count 105 = 87" "fst4.count 160 = 120"
    unfolding ft8.count_def ft4.count_def fst4.count_def by (simp_all only:) code_simp+
qed

lemma ft8_frame_sent:
  assumes "79 \<le> length tones" and sent_def: "sent = ft8_encode p a tones"
  shows "length sent = length tones" "i < 79 \<Longrightarrow> ft8_sync i = Some t \<Longrightarrow> sent ! i = t"
    "demodulate 3 kFT8_Gray_map ft8_sync 79 sent = bits_of (encode174 (ftx_add_crc p a)) 174"
    "i < 79 \<Longrightarrow> ft8_sync i = None \<Longrightarrow> sent ! i \<in> set kFT8_Gray_map"
proof -
  let ?cw = "encode174 (ftx_add_crc p a)"
  obtain ts where ts: "fold (ft8_tone ?cw) [0..<79] (tones, pos 0) = (ts, pos (3 * ft8.count 79))" "length ts = length tones"
    "\<forall>i<79. ts ! i = (case ft8_sync i of Some t \<Rightarrow> t | None \<Rightarrow> kFT8_Gray_map ! field 3 ?cw (3 * ft8.count i))"
    using ft8.frame [of tones 79 ?cw] assms(1) by auto
  then have sent: "sent = ts" by (simp add: sent_def ft8_encode_def pos_0)
  show "length sent = length tones" "i < 79 \<Longrightarrow> ft8_sync i = Some t \<Longrightarrow> sent ! i = t" using ts sent by auto
  show "i < 79 \<Longrightarrow> ft8_sync i = None \<Longrightarrow> sent ! i \<in> set kFT8_Gray_map"
    unfolding sent by (rule ft8.data_in_gray [OF ts(3)])
  show "demodulate 3 kFT8_Gray_map ft8_sync 79 sent = bits_of ?cw 174"
    unfolding sent using ft8.demodulate_sent [OF le_refl ts(3)] by (simp add: counts)
qed

lemma ft4_frame_sent:
  assumes "105 \<le> length tones" and sent_def: "sent = ft4_encode p a tones"
  shows "length sent = length tones" "i < 105 \<Longrightarrow> ft4_sync i = Some t \<Longrightarrow> sent ! i = t"
    "demodulate 2 kFT4_Gray_map ft4_sync 105 sent = bits_of (encode174 (ftx_add_crc (scramble p) a)) 174"
    "i < 105 \<Longrightarrow> ft4_sync i = None \<Longrightarrow> sent ! i \<in> set kFT4_Gray_map"
proof -
  let ?cw = "encode174 (ftx_add_crc (scramble p) a)"
  obtain ts where ts: "fold (ft4_tone ?cw) [0..<105] (tones, pos 0) = (ts, pos (2 * ft4.count 105))" "length ts = length tones"
    "\<forall>i<105. ts ! i = (case ft4_sync i of Some t \<Rightarrow> t | None \<Rightarrow> kFT4_Gray_map ! field 2 ?cw (2 * ft4.count i))"
    using ft4.frame [of tones 105 ?cw] assms(1) by auto
  then have sent: "sent = ts" by (simp add: sent_def ft4_encode_def pos_0)
  show "length sent = length tones" "i < 105 \<Longrightarrow> ft4_sync i = Some t \<Longrightarrow> sent ! i = t" using ts sent by auto
  show "i < 105 \<Longrightarrow> ft4_sync i = None \<Longrightarrow> sent ! i \<in> set kFT4_Gray_map"
    unfolding sent by (rule ft4.data_in_gray [OF ts(3)])
  show "demodulate 2 kFT4_Gray_map ft4_sync 105 sent = bits_of ?cw 174"
    unfolding sent using ft4.demodulate_sent [OF le_refl ts(3)] by (simp add: counts)
qed

lemma sync_word_at: "d < 5 \<Longrightarrow> sync_words ! d = (if even d then kFST4_Sync_word1 else kFST4_Sync_word2)"
proof -
  assume "d < 5"
  then have "d = 0 \<or> d = 1 \<or> d = 2 \<or> d = 3 \<or> d = 4" by linarith
  then show ?thesis by (elim disjE) (simp_all add: sync_words_def)
qed

lemma fst4_frame_sent:
  assumes "length tones = 160" and sent_def: "sent = fst4_assemble_frame cw tones"
  shows "length sent = 160" "i < 160 \<Longrightarrow> fst4_sync i = Some t \<Longrightarrow> sent ! i = t"
    "demodulate 2 kFT4_Gray_map fst4_sync 160 sent = bits_of cw 240"
    "i < 160 \<Longrightarrow> fst4_sync i = None \<Longrightarrow> sent ! i \<in> set kFT4_Gray_map"
proof -
  let ?ts = "fold (\<lambda>s ts. fold (\<lambda>i ts. ts[sync_pos ! s + i := sync_words ! s ! i]) [0..<8] ts) [0..<5] tones"
  have placed: "\<forall>i<160. \<forall>t. fst4_sync i = Some t \<longrightarrow> ?ts ! i = t" "length ?ts = 160"
  proof (intro allI impI)
    fix i t :: nat assume i: "i < 160" "fst4_sync i = Some t"
    then have "i mod 38 < 8" "i div 38 < 5" by (auto simp: fst4_sync_def split: if_splits)
    then show "?ts ! i = t"
      using place_words [OF assms(1), of 5] i sync_word_at [of "i div 38"] by (simp add: fst4_sync_def)
  qed (use place_words [OF assms(1), of 5] in simp)
  obtain ts where ts: "fold (fst4_tone cw) [0..<160] (?ts, pos 0) = (ts, pos (2 * fst4.count 160))" "length ts = 160"
    "\<forall>i<160. ts ! i = (case fst4_sync i of Some t \<Rightarrow> t | None \<Rightarrow> kFT4_Gray_map ! field 2 cw (2 * fst4.count i))"
    using fst4.frame [of ?ts 160 cw] placed by auto
  then have sent: "sent = ts" by (simp add: sent_def fst4_assemble_frame_def pos_0)
  show "length sent = 160" "i < 160 \<Longrightarrow> fst4_sync i = Some t \<Longrightarrow> sent ! i = t" using ts sent by auto
  show "i < 160 \<Longrightarrow> fst4_sync i = None \<Longrightarrow> sent ! i \<in> set kFT4_Gray_map"
    unfolding sent by (rule fst4.data_in_gray [OF ts(3)])
  show "demodulate 2 kFT4_Gray_map fst4_sync 160 sent = bits_of cw 240"
    unfolding sent using fst4.demodulate_sent [OF le_refl ts(3)] by (simp add: counts)
qed


lemma bits_of_scramble: "10 \<le> length p \<Longrightarrow> n \<le> 80 \<Longrightarrow> bits_of (scramble p) n = map2 (\<noteq>) (bits_of p n) (bits_of kFT4_XOR_sequence n)"
proof (rule nth_equalityI)
  fix i assume "10 \<le> length p" "n \<le> 80" "i < length (bits_of (scramble p) n)"
  then have "i < n" "i div 8 < 10" by auto
  then show "bits_of (scramble p) n ! i = map2 (\<noteq>) (bits_of p n) (bits_of kFT4_XOR_sequence n) ! i"
    by (simp add: scramble_def GET_BIT_def bit_xor_iff)
qed simp

lemma scramble_length: "length (scramble p) = 10"
  by (simp add: scramble_def)

lemma xor_again: "length xs = length ys \<Longrightarrow> map2 (\<noteq>) (map2 (\<noteq>) xs ys) ys = xs" for xs ys :: "bool list"
  by (intro nth_equalityI) auto

lemma unscramble:
  assumes "10 \<le> length p" "n \<le> 80"
  shows "map2 (\<noteq>) (bits_of (scramble p) n) (bits_of kFT4_XOR_sequence n) = bits_of p n"
  unfolding bits_of_scramble [OF assms] by (rule xor_again) simp

lemma pad_bits:
  assumes "length t = q" "r < 8" "\<And>i. i < r \<Longrightarrow> \<not> bit y i" "8 * q + 8 - r \<le> j" "j < 8 * q + 8"
  shows "\<not> GET_BIT (t @ y # rest) j"
proof -
  have "j div 8 = q" using assms(2,4,5) by (intro div_nat_eqI) auto
  moreover from this have "7 - j mod 8 < r" using assms(2,4,5) mult_div_mod_eq [of 8 j] by linarith
  ultimately show ?thesis using assms(1,3) by (simp add: GET_BIT_def nth_append)
qed

lemma ftx_sent_word:
  assumes "10 \<le> length p" "12 \<le> length a"
  defines "c \<equiv> bits_of (encode174 (ftx_add_crc p a)) 174"
  shows "ldpc_check c = 0" "ftx_check_crc (take 91 c)" "take 77 c = bits_of p 77"
proof -
  let ?m = "ftx_add_crc p a" and ?cs = "ftx_compute_crc (masked p 9 3 2) 82"
  let ?t = "take 9 p @ [p ! 9 AND NOT (mask 3) OR ucast (drop_bit 11 ?cs), ucast (drop_bit 3 ?cs)]"
  have m: "?m = ?t @ ucast (push_bit 5 ?cs) # drop 12 a" using assms by (simp add: ftx_add_crc_bytes Let_def)
  have pad: "\<not> GET_BIT ?m j" if "91 \<le> j" "j < 8 * 12" for j
    unfolding m using assms that by (intro pad_bits [of _ 11 5]) (auto simp: bit_ucast_iff bit_push_bit_iff)
  have bits: "c ! n = (if n < 91 then GET_BIT ?m n else parity (map (\<lambda>j. GET_BIT (ftx_gen ! (n - 91)) j \<and> GET_BIT ?m j) [0..<91]))"
    if "n < 174" for n
    using encode240_bits(1) [of 12 91 ?m n 83 kFTX_LDPC_generator] pad that
    by (simp add: c_def encode174_generic ftx_gen_def)
  have len: "length c = 174" by (simp add: c_def)
  have payload: "map (\<lambda>j. g j \<and> c ! j) [0..<91] = map (\<lambda>j. g j \<and> GET_BIT ?m j) [0..<91]" for g by (simp add: bits)
  have "is_codeword 91 ftx_gen ((!) c)"
    unfolding is_codeword_def ftx_lengths payload by (simp add: bits)
  then show "ldpc_check c = 0" by (simp add: ldpc_check_zero ftx_code.codeword_passes)
  have info: "take 91 c = bits_of ?m 91" using len by (intro nth_equalityI) (simp_all add: bits)
  have "zero_extended (bits_of ?m 91) = bits_of p 77 @ replicate 5 False"
    using assms by (simp add: zero_extended_def take_map ftx_add_check_bit del: upt_Suc)
  then show "ftx_check_crc (take 91 c)"
    unfolding info using ftx_add_check_bit(2) [OF assms(1,2)]
    by (simp add: ftx_check_crc_rem crc_field_def del: upt_Suc)
  have "take 77 c = take 77 (take 91 c)" by simp
  then show "take 77 c = bits_of p 77"
    unfolding info using assms by (simp add: take_map ftx_add_check_bit del: upt_Suc)
qed

text \<open>
  What FT8 and FT4 put on the channel. For every payload of ten bytes and whatever the buffers
  hold, the synchronisation tones stand where the frame layout wants them, and a receiver that inverts
  the Gray map on the other tones reads 174 bits that satisfy all parity checks, carry a valid checksum
  and start with the 77 payload bits (in FT4 after removing the scrambling sequence).
\<close>

theorem ftx_channel:
  assumes "10 \<le> length p" and "12 \<le> length a" and "length t8 = 79" and "length t4 = 105"
    and "s8 = ft8_encode p a t8" and "b8 = demodulate 3 kFT8_Gray_map ft8_sync 79 s8"
    and "s4 = ft4_encode p a t4" and "b4 = demodulate 2 kFT4_Gray_map ft4_sync 105 s4"
  shows "length s8 = 79 \<and> (\<forall>i < 79. \<forall>t. ft8_sync i = Some t \<longrightarrow> s8 ! i = t) \<and>
      length b8 = 174 \<and> ldpc_check b8 = 0 \<and> ftx_check_crc (take 91 b8) \<and> take 77 b8 = bits_of p 77 \<and>
      length s4 = 105 \<and> (\<forall>i < 105. \<forall>t. ft4_sync i = Some t \<longrightarrow> s4 ! i = t) \<and>
      length b4 = 174 \<and> ldpc_check b4 = 0 \<and> ftx_check_crc (take 91 b4) \<and>
      map2 (\<noteq>) (take 77 b4) (bits_of kFT4_XOR_sequence 77) = bits_of p 77"
proof -
  have b8: "b8 = bits_of (encode174 (ftx_add_crc p a)) 174" and b4: "b4 = bits_of (encode174 (ftx_add_crc (scramble p) a)) 174"
    using ft8_frame_sent(3) [of t8] ft4_frame_sent(3) [of t4] assms(3-8) by auto
  have "length s8 = 79" "\<forall>i < 79. \<forall>t. ft8_sync i = Some t \<longrightarrow> s8 ! i = t"
    "length s4 = 105" "\<forall>i < 105. \<forall>t. ft4_sync i = Some t \<longrightarrow> s4 ! i = t"
    using ft8_frame_sent(1,2) [of t8 s8 p a] ft4_frame_sent(1,2) [of t4 s4 p a] assms(3,4,5,7) by auto
  moreover have "length b8 = 174" "length b4 = 174" by (simp_all add: b8 b4)
  moreover have "10 \<le> length (scramble p)" by (simp add: scramble_length)
  note ftx_sent_word [OF assms(1,2), folded b8] ftx_sent_word [OF this assms(2), folded b4]
  moreover have "map2 (\<noteq>) (bits_of (scramble p) 77) (bits_of kFT4_XOR_sequence 77) = bits_of p 77"
    by (rule unscramble) (use assms(1) in simp_all)
  ultimately show ?thesis by simp
qed

lemma ftx_channel_witness:
  "take 77 (demodulate 3 kFT8_Gray_map ft8_sync 79
     (ft8_encode [1, 2, 3, 4, 5, 6, 7, 8, 9, 0x5A] (replicate 12 0xFF) (replicate 79 9)))
   = bits_of [1, 2, 3, 4, 5, 6, 7, 8, 9, 0x5A] 77"
proof -
  have "10 \<le> length [1, 2, 3, 4, 5, 6, 7, 8, 9, 0x5A :: u8]" "12 \<le> length (replicate 12 (0xFF :: u8))"
    "length (replicate 79 (9 :: nat)) = 79" "length (replicate 105 (9 :: nat)) = 105" by simp_all
  from ftx_channel [OF this refl refl refl refl] show ?thesis by blast
qed

end
