(* ===== verification/FtxDecode.thy ===== *)
theory FtxDecode
  imports FtxTones
begin

text \<open>
  The decoders of \<open>ft8_lib/ft8/ldpc.c\<close> and \<open>fst4_ldpc.c\<close> (belief propagation) and the last part of
  \<open>decode.c\<close>, from soft bits to a message payload. Floating-point numbers are a type \<open>'f\<close> with the
  operations the code uses, a parameter of every definition: nothing about their rounding is assumed.
  Arrays of floats are functions from indices, those that C leaves uninitialised are arguments.
\<close>

unbundle bit_operations_syntax

section \<open>Floating-point operations\<close>

text \<open>
  \<open>f_lit n d\<close> is the literal \<open>n / d\<close> (and \<open>f_lit n 1\<close> the conversion of an integer), \<open>f_gt\<close> and \<open>f_ge\<close> are the
  comparisons, \<open>f_abs\<close> and \<open>f_sqrt\<close> the library's \<open>fabs\<close> and \<open>sqrtf\<close>, \<open>f_u8\<close> is the conversion to \<open>uint8_t\<close>.
\<close>

record 'f float_ops =
  f_lit :: "int \<Rightarrow> int \<Rightarrow> 'f"
  f_add :: "'f \<Rightarrow> 'f \<Rightarrow> 'f"
  f_sub :: "'f \<Rightarrow> 'f \<Rightarrow> 'f"
  f_mul :: "'f \<Rightarrow> 'f \<Rightarrow> 'f"
  f_div :: "'f \<Rightarrow> 'f \<Rightarrow> 'f"
  f_neg :: "'f \<Rightarrow> 'f"
  f_gt :: "'f \<Rightarrow> 'f \<Rightarrow> bool"
  f_ge :: "'f \<Rightarrow> 'f \<Rightarrow> bool"
  f_abs :: "'f \<Rightarrow> 'f"
  f_sqrt :: "'f \<Rightarrow> 'f"
  f_u8 :: "'f \<Rightarrow> u8"

definition fast_tanh :: "'f float_ops \<Rightarrow> 'f \<Rightarrow> 'f" where
  "fast_tanh ops x =
     (if f_gt ops (f_neg ops (f_lit ops 497 100)) x then f_neg ops (f_lit ops 1 1)
      else if f_gt ops x (f_lit ops 497 100) then f_lit ops 1 1
      else (let x2 = f_mul ops x x;
                a = f_mul ops x (f_add ops (f_lit ops 945 1) (f_mul ops x2 (f_add ops (f_lit ops 105 1) x2)));
                b = f_add ops (f_lit ops 945 1) (f_mul ops x2 (f_add ops (f_lit ops 420 1) (f_mul ops x2 (f_lit ops 15 1))))
            in f_div ops a b))"

definition fast_atanh :: "'f float_ops \<Rightarrow> 'f \<Rightarrow> 'f" where
  "fast_atanh ops x =
     (let x2 = f_mul ops x x;
          a = f_mul ops x (f_add ops (f_lit ops 945 1) (f_mul ops x2
                (f_add ops (f_neg ops (f_lit ops 735 1)) (f_mul ops x2 (f_lit ops 64 1)))));
          b = f_add ops (f_lit ops 945 1) (f_mul ops x2
                (f_add ops (f_neg ops (f_lit ops 1050 1)) (f_mul ops x2 (f_lit ops 225 1))))
      in f_div ops a b)"

text \<open>The portable version; the one for NEON is left out.\<close>

definition fast_tanh4 :: "'f float_ops \<Rightarrow> 'f list \<Rightarrow> 'f list" where
  "fast_tanh4 ops xs = [fast_tanh ops (xs ! 0), fast_tanh ops (xs ! 1), fast_tanh ops (xs ! 2), fast_tanh ops (xs ! 3)]"

section \<open>Belief propagation\<close>

text \<open>
  \<open>bp_decode\<close> and \<open>bp_decode_240\<close> have the same body over different tables: \<open>bp_nm m i\<close> is the position of
  the \<open>i\<close>-th bit of check \<open>m\<close>, \<open>bp_mn n j\<close> the \<open>j\<close>-th check of position \<open>n\<close>, both counted from 0, and
  \<open>bp_rows m\<close> the number of bits of check \<open>m\<close>.
\<close>

record bp_tables =
  bp_n :: nat
  bp_m :: nat
  bp_rows :: "nat \<Rightarrow> nat"
  bp_nm :: "nat \<Rightarrow> nat \<Rightarrow> nat"
  bp_mn :: "nat \<Rightarrow> nat \<Rightarrow> nat"

type_synonym 'f table2 = "nat \<Rightarrow> nat \<Rightarrow> 'f"

definition set2 :: "nat \<Rightarrow> nat \<Rightarrow> 'f \<Rightarrow> 'f table2 \<Rightarrow> 'f table2" where
  "set2 i j x t = t(i := (t i)(j := x))"

definition nm_midx :: "bp_tables \<Rightarrow> nat table2 \<Rightarrow> nat table2" where
  "nm_midx T junk m n_idx =
     (case find (\<lambda>mi. bp_mn T (bp_nm T m n_idx) mi = m) [0..<3] of Some mi \<Rightarrow> mi | None \<Rightarrow> junk m n_idx)"

definition edges :: "bp_tables \<Rightarrow> (nat \<times> nat) list" where
  "edges T = concat (map (\<lambda>m. map (Pair m) [0..<bp_rows T m]) [0..<bp_m T])"

text \<open>Bits to checks: the arguments of \<open>tanh\<close> are collected four at a time.\<close>

definition flush4 :: "'f float_ops \<Rightarrow> ((nat \<times> nat) \<times> 'f) list \<Rightarrow> 'f table2 \<Rightarrow> 'f table2" where
  "flush4 ops batch toc =
     (let tanh_out = fast_tanh4 ops (map snd batch)
      in fold (\<lambda>k toc. set2 (fst (fst (batch ! k))) (snd (fst (batch ! k))) (tanh_out ! k) toc) [0..<4] toc)"

definition bit_step :: "'f float_ops \<Rightarrow> bp_tables \<Rightarrow> nat table2 \<Rightarrow> (nat \<Rightarrow> 'f) \<Rightarrow> 'f table2 \<Rightarrow> nat \<times> nat \<Rightarrow>
    'f table2 \<times> ((nat \<times> nat) \<times> 'f) list \<Rightarrow> 'f table2 \<times> ((nat \<times> nat) \<times> 'f) list" where
  "bit_step ops T midx tov_sum tov = (\<lambda>(m, n_idx) (toc, batch).
     let n = bp_nm T m n_idx;
         Tnm = f_sub ops (tov_sum n) (tov n (midx m n_idx));
         batch = batch @ [((m, n_idx), f_div ops (f_neg ops Tnm) (f_lit ops 2 1))]
     in if length batch = 4 then (flush4 ops batch toc, []) else (toc, batch))"

definition bits_to_checks :: "'f float_ops \<Rightarrow> bp_tables \<Rightarrow> nat table2 \<Rightarrow> (nat \<Rightarrow> 'f) \<Rightarrow> 'f table2 \<Rightarrow> 'f table2 \<Rightarrow> 'f table2" where
  "bits_to_checks ops T midx tov_sum tov toc =
     (let (toc, batch) = fold (bit_step ops T midx tov_sum tov) (edges T) (toc, [])
      in fold (\<lambda>((m, n_idx), x) toc. set2 m n_idx (fast_tanh ops x) toc) batch toc)"

text \<open>Checks to bits: products of all messages but one, by prefix and suffix products.\<close>

primrec fwd :: "'f float_ops \<Rightarrow> (nat \<Rightarrow> 'f) \<Rightarrow> nat \<Rightarrow> 'f" where
  "fwd ops t 0 = f_lit ops 1 1"
| "fwd ops t (Suc i) = f_mul ops (fwd ops t i) (t i)"

text \<open>\<open>bwd_from ops t nrw k\<close> is \<open>bwd[nrw - k]\<close>.\<close>

primrec bwd_from :: "'f float_ops \<Rightarrow> (nat \<Rightarrow> 'f) \<Rightarrow> nat \<Rightarrow> nat \<Rightarrow> 'f" where
  "bwd_from ops t nrw 0 = f_lit ops 1 1"
| "bwd_from ops t nrw (Suc k) = f_mul ops (bwd_from ops t nrw k) (t (nrw - Suc k))"

definition check_step :: "'f float_ops \<Rightarrow> bp_tables \<Rightarrow> nat table2 \<Rightarrow> 'f table2 \<Rightarrow> nat \<times> nat \<Rightarrow> 'f table2 \<Rightarrow> 'f table2" where
  "check_step ops T midx toc = (\<lambda>(m, n_idx) tov.
     let nrw = bp_rows T m;
         Tmn = f_mul ops (fwd ops (toc m) n_idx) (bwd_from ops (toc m) nrw (nrw - (n_idx + 1)))
     in set2 (bp_nm T m n_idx) (midx m n_idx) (f_mul ops (f_lit ops (- 2) 1) (fast_atanh ops Tmn)) tov)"

definition checks_to_bits :: "'f float_ops \<Rightarrow> bp_tables \<Rightarrow> nat table2 \<Rightarrow> 'f table2 \<Rightarrow> 'f table2 \<Rightarrow> 'f table2" where
  "checks_to_bits ops T midx toc tov = fold (check_step ops T midx toc) (edges T) tov"

definition new_sum :: "'f float_ops \<Rightarrow> (nat \<Rightarrow> 'f) \<Rightarrow> 'f table2 \<Rightarrow> nat \<Rightarrow> 'f" where
  "new_sum ops codeword tov n = f_add ops (f_add ops (f_add ops (codeword n) (tov n 0)) (tov n 1)) (tov n 2)"

definition hard_decision :: "'f float_ops \<Rightarrow> nat \<Rightarrow> (nat \<Rightarrow> 'f) \<Rightarrow> bool list" where
  "hard_decision ops n x = map (\<lambda>i. f_gt ops (x i) (f_lit ops 0 1)) [0..<n]"

text \<open>
  The loop over \<open>iter\<close>; the first number argument counts the iterations left. \<open>parity_errors\<close> counts the
  unsatisfied checks. The result is \<open>plain\<close> and \<open>*ok\<close>.
\<close>

primrec bp_loop :: "'f float_ops \<Rightarrow> bp_tables \<Rightarrow> nat table2 \<Rightarrow> (bool list \<Rightarrow> nat) \<Rightarrow> (nat \<Rightarrow> 'f) \<Rightarrow> nat \<Rightarrow>
    (nat \<Rightarrow> 'f) \<Rightarrow> 'f table2 \<Rightarrow> 'f table2 \<Rightarrow> bool list \<Rightarrow> nat \<Rightarrow> bool list \<times> nat" where
  "bp_loop ops T midx parity_errors codeword 0 tov_sum tov toc plain min_errors = (plain, min_errors)"
| "bp_loop ops T midx parity_errors codeword (Suc k) tov_sum tov toc plain min_errors =
     (let plain = hard_decision ops (bp_n T) tov_sum @ drop (bp_n T) plain
      in if \<not> list_ex (\<lambda>b. b) (take (bp_n T) plain) then (plain, bp_m T)
         else (let errors = parity_errors plain
               in if errors < min_errors \<and> errors = 0 then (plain, errors)
                  else (let min_errors = (if errors < min_errors then errors else min_errors);
                            toc = bits_to_checks ops T midx tov_sum tov toc;
                            tov = checks_to_bits ops T midx toc tov
                        in bp_loop ops T midx parity_errors codeword k (new_sum ops codeword tov) tov toc plain min_errors)))"

definition bp_run :: "'f float_ops \<Rightarrow> bp_tables \<Rightarrow> (bool list \<Rightarrow> nat) \<Rightarrow> nat table2 \<Rightarrow> 'f table2 \<Rightarrow> 'f table2 \<Rightarrow>
    (nat \<Rightarrow> 'f) \<Rightarrow> int \<Rightarrow> bool list \<Rightarrow> bool list \<times> nat" where
  "bp_run ops T parity_errors junk_midx junk_tov junk_toc codeword max_iters plain =
     bp_loop ops T (nm_midx T junk_midx) parity_errors codeword (nat max_iters) codeword
       (\<lambda>n i. if n < bp_n T \<and> i < 3 then f_lit ops 0 1 else junk_tov n i) junk_toc plain (bp_m T)"

text \<open>The (174,91) code; its tables count from 1.\<close>

definition ftx_tables :: bp_tables where
  "ftx_tables = \<lparr>bp_n = 174, bp_m = 83, bp_rows = (\<lambda>m. kFTX_LDPC_Num_rows ! m),
     bp_nm = (\<lambda>m i. kFTX_LDPC_Nm ! m ! i - 1), bp_mn = (\<lambda>n j. kFTX_LDPC_Mn ! n ! j - 1)\<rparr>"

definition bp_decode :: "'f float_ops \<Rightarrow> nat table2 \<Rightarrow> 'f table2 \<Rightarrow> 'f table2 \<Rightarrow> (nat \<Rightarrow> 'f) \<Rightarrow> int \<Rightarrow> bool list \<Rightarrow> bool list \<times> nat" where
  "bp_decode ops = bp_run ops ftx_tables ldpc_check"

text \<open>The codes of FST4 and FST4W; the parity check is part of the loop there.\<close>

definition parity_errors_240 :: "bp_tables \<Rightarrow> bool list \<Rightarrow> nat" where
  "parity_errors_240 T plain =
     fold (\<lambda>j errors. if fold (\<lambda>i x. x \<noteq> plain ! bp_nm T j i) [0..<bp_rows T j] False then errors + 1 else errors)
       [0..<bp_m T] 0"

definition bp_decode_240 :: "'f float_ops \<Rightarrow> bp_tables \<Rightarrow> nat table2 \<Rightarrow> 'f table2 \<Rightarrow> 'f table2 \<Rightarrow> (nat \<Rightarrow> 'f) \<Rightarrow> int \<Rightarrow> bool list \<Rightarrow> bool list \<times> nat" where
  "bp_decode_240 ops T = bp_run ops T (parity_errors_240 T)"

definition fst4_tables :: bp_tables where
  "fst4_tables = \<lparr>bp_n = 240, bp_m = 139, bp_rows = (\<lambda>m. kFST4_LDPC_num_rows ! m),
     bp_nm = (\<lambda>m i. kFST4_LDPC_Nm ! m ! i), bp_mn = (\<lambda>n j. kFST4_LDPC_Mn ! n ! j)\<rparr>"

definition fst4w_tables :: bp_tables where
  "fst4w_tables = \<lparr>bp_n = 240, bp_m = 166, bp_rows = (\<lambda>m. kFST4W_LDPC_num_rows ! m),
     bp_nm = (\<lambda>m i. kFST4W_LDPC_Nm ! m ! i), bp_mn = (\<lambda>n j. kFST4W_LDPC_Mn ! n ! j)\<rparr>"

definition fst4_ldpc_decode :: "'f float_ops \<Rightarrow> nat table2 \<Rightarrow> 'f table2 \<Rightarrow> 'f table2 \<Rightarrow> (nat \<Rightarrow> 'f) \<Rightarrow> int \<Rightarrow> bool list \<Rightarrow> bool list \<times> nat" where
  "fst4_ldpc_decode ops = bp_decode_240 ops fst4_tables"

definition fst4w_ldpc_decode :: "'f float_ops \<Rightarrow> nat table2 \<Rightarrow> 'f table2 \<Rightarrow> 'f table2 \<Rightarrow> (nat \<Rightarrow> 'f) \<Rightarrow> int \<Rightarrow> bool list \<Rightarrow> bool list \<times> nat" where
  "fst4w_ldpc_decode ops = bp_decode_240 ops fst4w_tables"

section \<open>What the decoders return\<close>

text \<open>
  The batches of four compute the same table as one message at a time.
\<close>

definition tanh_arg :: "'f float_ops \<Rightarrow> bp_tables \<Rightarrow> nat table2 \<Rightarrow> (nat \<Rightarrow> 'f) \<Rightarrow> 'f table2 \<Rightarrow> nat \<times> nat \<Rightarrow> 'f" where
  "tanh_arg ops T midx tov_sum tov = (\<lambda>(m, i).
     f_div ops (f_neg ops (f_sub ops (tov_sum (bp_nm T m i)) (tov (bp_nm T m i) (midx m i)))) (f_lit ops 2 1))"

definition put_tanh :: "'f float_ops \<Rightarrow> (nat \<times> nat) \<times> 'f \<Rightarrow> 'f table2 \<Rightarrow> 'f table2" where
  "put_tanh ops = (\<lambda>((m, i), x) toc. set2 m i (fast_tanh ops x) toc)"

lemma flush4_eq: "length batch = 4 \<Longrightarrow> flush4 ops batch toc = fold (put_tanh ops) batch toc"
proof -
  assume "length batch = 4"
  then obtain a b c d where "batch = [a, b, c, d]"
    by (auto simp: length_Suc_conv eval_nat_numeral)
  moreover have "[0..<4] = [0, 1, 2, (3 :: nat)]" by (simp add: upt_rec)
  ultimately show ?thesis
    by (simp add: flush4_def fast_tanh4_def put_tanh_def split_beta numeral_2_eq_2 numeral_3_eq_3)
qed

lemma bits_to_checks_eq:
  "bits_to_checks ops T midx tov_sum tov toc =
     fold (\<lambda>e. put_tanh ops (e, tanh_arg ops T midx tov_sum tov e)) (edges T) toc"
proof -
  let ?arg = "tanh_arg ops T midx tov_sum tov"
  have step: "fold (put_tanh ops) (snd (bit_step ops T midx tov_sum tov e (toc, batch))) (fst (bit_step ops T midx tov_sum tov e (toc, batch)))
      = put_tanh ops (e, ?arg e) (fold (put_tanh ops) batch toc)" for e toc batch
    by (cases e) (simp add: bit_step_def Let_def flush4_eq tanh_arg_def)
  have "fold (put_tanh ops) (snd (fold (bit_step ops T midx tov_sum tov) es (toc, batch))) (fst (fold (bit_step ops T midx tov_sum tov) es (toc, batch)))
      = fold (\<lambda>e. put_tanh ops (e, ?arg e)) es (fold (put_tanh ops) batch toc)" for es toc batch
  proof (induction es arbitrary: toc batch)
    case (Cons e es)
    show ?case
      using Cons [of "fst (bit_step ops T midx tov_sum tov e (toc, batch))" "snd (bit_step ops T midx tov_sum tov e (toc, batch))"]
      by (simp add: step)
  qed simp
  from this [of "edges T" toc "[]"] show ?thesis
    by (simp add: bits_to_checks_def split_beta put_tanh_def)
qed

text \<open>
  The contract of a code's tables: positions and back references are in range, and the parity check
  counts at most \<open>bp_m\<close> errors, none exactly for codewords.
\<close>

locale bp_code =
  fixes T :: bp_tables and parity_errors :: "bool list \<Rightarrow> nat" and K :: nat and gen :: "u8 list list"
  assumes nonempty: "0 < bp_m T" and size: "bp_n T = K + length gen"
    and position: "m < bp_m T \<Longrightarrow> i < bp_rows T m \<Longrightarrow> bp_nm T m i < bp_n T"
    and back_reference: "m < bp_m T \<Longrightarrow> i < bp_rows T m \<Longrightarrow> \<exists>mi < 3. bp_mn T (bp_nm T m i) mi = m"
    and errors_bound: "parity_errors p \<le> bp_m T"
    and errors_zero: "bp_n T \<le> length p \<Longrightarrow> parity_errors p = 0 \<longleftrightarrow> is_codeword K gen ((!) p)"
begin

lemma edge_iff: "(m, i) \<in> set (edges T) \<longleftrightarrow> m < bp_m T \<and> i < bp_rows T m"
  by (fastforce simp: edges_def)

lemma midx_found: "(m, i) \<in> set (edges T) \<Longrightarrow> nm_midx T junk m i < 3 \<and> nm_midx T junk m i = nm_midx T junk' m i"
proof -
  assume "(m, i) \<in> set (edges T)"
  then obtain mi where "mi < 3" "bp_mn T (bp_nm T m i) mi = m" using back_reference by (auto simp: edge_iff)
  then have "find (\<lambda>mi. bp_mn T (bp_nm T m i) mi = m) [0..<3] \<noteq> None" by (auto simp: find_None_iff)
  then obtain k where k: "find (\<lambda>mi. bp_mn T (bp_nm T m i) mi = m) [0..<3] = Some k" by auto
  then have "k < 3" by (auto simp: find_Some_iff)
  with k show ?thesis by (simp add: nm_midx_def)
qed

text \<open>Tables that agree where they are initialised give the same results.\<close>

definition same_toc :: "'f table2 \<Rightarrow> 'f table2 \<Rightarrow> bool" where
  "same_toc f g \<longleftrightarrow> (\<forall>(m, i) \<in> set (edges T). f m i = g m i)"

definition same_tov :: "'f table2 \<Rightarrow> 'f table2 \<Rightarrow> bool" where
  "same_tov f g \<longleftrightarrow> (\<forall>n < bp_n T. \<forall>i < 3. f n i = g n i)"

lemma toc_written:
  assumes "\<And>e. e \<in> set es \<Longrightarrow> x e = y e" "(m, i) \<in> set es"
  shows "fold (\<lambda>e. put_tanh ops (e, x e)) es f m i = fold (\<lambda>e. put_tanh ops (e, y e)) es g m i"
  using assms
proof (induction es rule: rev_induct)
  case (snoc e es)
  then show ?case by (cases "(m, i) \<in> set es"; cases e) (auto simp: put_tanh_def set2_def)
qed simp

lemma same_bits_to_checks:
  assumes "same_tov tov tov'" "midx = nm_midx T junk" "midx' = nm_midx T junk'" "\<forall>n < bp_n T. s n = s' n"
  shows "same_toc (bits_to_checks ops T midx s tov toc) (bits_to_checks ops T midx' s' tov' toc')"
proof -
  have "tanh_arg ops T midx s tov (m, i) = tanh_arg ops T midx' s' tov' (m, i)" if "(m, i) \<in> set (edges T)" for m i
    using that position [of m i] midx_found [OF that, of junk junk'] assms
    by (auto simp: tanh_arg_def same_tov_def edge_iff)
  then show ?thesis
    unfolding same_toc_def bits_to_checks_eq by (auto intro!: toc_written)
qed

lemma same_fwd: "(\<And>j. j < k \<Longrightarrow> t j = t' j) \<Longrightarrow> fwd ops t k = fwd ops t' k"
  by (induction k) auto

lemma same_bwd: "(\<And>j. j < nrw \<Longrightarrow> t j = t' j) \<Longrightarrow> k \<le> nrw \<Longrightarrow> bwd_from ops t nrw k = bwd_from ops t' nrw k"
  by (induction k) auto

lemma same_checks_to_bits:
  assumes "same_toc toc toc'" "same_tov tov tov'" "midx = nm_midx T junk" "midx' = nm_midx T junk'"
  shows "same_tov (checks_to_bits ops T midx toc tov) (checks_to_bits ops T midx' toc' tov')"
proof -
  have step: "same_tov (check_step ops T midx toc (m, i) f) (check_step ops T midx' toc' (m, i) g)"
    if "(m, i) \<in> set (edges T)" "same_tov f g" for m i f g
  proof -
    have row: "toc m j = toc' m j" if "j < bp_rows T m" for j
      using that \<open>(m, i) \<in> set (edges T)\<close> assms(1) by (auto simp: same_toc_def edge_iff)
    have i: "i < bp_rows T m" using that(1) by (simp add: edge_iff)
    have "fwd ops (toc m) i = fwd ops (toc' m) i" using i row by (intro same_fwd) auto
    moreover have "bwd_from ops (toc m) (bp_rows T m) (bp_rows T m - (i + 1)) = bwd_from ops (toc' m) (bp_rows T m) (bp_rows T m - (i + 1))"
      using row by (intro same_bwd) auto
    ultimately show ?thesis
      using that(2) midx_found [OF that(1), of junk junk'] assms(3,4)
      by (auto simp: check_step_def same_tov_def set2_def Let_def)
  qed
  have "same_tov (fold (check_step ops T midx toc) es f) (fold (check_step ops T midx' toc') es g)"
    if "set es \<subseteq> set (edges T)" "same_tov f g" for es f g
    using that by (induction es arbitrary: f g) (auto simp: step)
  then show ?thesis using assms(2) by (simp add: checks_to_bits_def)
qed

lemma same_loop:
  assumes "same_tov tov tov'" "\<forall>n < bp_n T. s n = s' n"
  shows "bp_loop ops T (nm_midx T junk) errs cw k s tov toc plain me = bp_loop ops T (nm_midx T junk') errs cw k s' tov' toc' plain me"
  using assms
proof (induction k arbitrary: s s' tov tov' toc toc' plain me)
  case (Suc k)
  have hard: "hard_decision ops (bp_n T) s = hard_decision ops (bp_n T) s'" using Suc.prems(2) by (simp add: hard_decision_def)
  let ?toc = "bits_to_checks ops T (nm_midx T junk) s tov toc" and ?toc' = "bits_to_checks ops T (nm_midx T junk') s' tov' toc'"
  have "same_toc ?toc ?toc'" using Suc.prems by (intro same_bits_to_checks) auto
  then have tov: "same_tov (checks_to_bits ops T (nm_midx T junk) ?toc tov) (checks_to_bits ops T (nm_midx T junk') ?toc' tov')"
    using Suc.prems by (intro same_checks_to_bits) auto
  then have "\<forall>n < bp_n T. new_sum ops cw (checks_to_bits ops T (nm_midx T junk) ?toc tov) n =
      new_sum ops cw (checks_to_bits ops T (nm_midx T junk') ?toc' tov') n"
    by (simp add: new_sum_def same_tov_def)
  from Suc.IH [OF tov this] show ?case by (simp add: hard Let_def)
qed simp

lemma run_initialised: "bp_run ops T errs j1 j2 j3 cw iters plain = bp_run ops T errs j1' j2' j3' cw iters plain"
  unfolding bp_run_def by (rule same_loop) (simp_all add: same_tov_def)

text \<open>A result without errors is the word whose checks were counted.\<close>

lemma loop_sound:
  assumes "bp_loop ops T midx errs codeword k tov_sum tov toc plain min_errors = (res, ok)" "0 < min_errors" "min_errors \<le> bp_m T"
  shows "ok \<le> bp_m T \<and> (ok = 0 \<longrightarrow> errs res = 0 \<and> bp_n T \<le> length res \<and> list_ex (\<lambda>b. b) (take (bp_n T) res))"
  using assms(1-3)
proof (induction k arbitrary: tov_sum tov toc plain min_errors)
  case (Suc k)
  let ?p = "hard_decision ops (bp_n T) tov_sum @ drop (bp_n T) plain"
  consider "\<not> list_ex (\<lambda>b. b) (take (bp_n T) ?p)" | "list_ex (\<lambda>b. b) (take (bp_n T) ?p)" "errs ?p < min_errors \<and> errs ?p = 0"
    | "list_ex (\<lambda>b. b) (take (bp_n T) ?p)" "\<not> (errs ?p < min_errors \<and> errs ?p = 0)" by blast
  then show ?case
  proof cases
    case 1
    then show ?thesis using Suc.prems nonempty by (simp add: Let_def)
  next
    case 2
    then show ?thesis using Suc.prems by (auto simp: Let_def hard_decision_def)
  next
    case 3
    let ?min = "if errs ?p < min_errors then errs ?p else min_errors"
    have "0 < ?min" "?min \<le> bp_m T" using 3 Suc.prems by auto
    moreover have "\<not> \<not> list_ex (\<lambda>b. b) (take (bp_n T) ?p)" using 3 by blast
    from Suc.prems(1) [unfolded bp_loop.simps Let_def if_not_P [OF this] if_not_P [OF 3(2)]]
    have "\<exists>s t c. bp_loop ops T midx errs codeword k s t c ?p ?min = (res, ok)" by blast
    ultimately show ?thesis using Suc.IH by blast
  qed
qed simp


lemma run_sound:
  assumes "bp_run ops T parity_errors j1 j2 j3 cw iters plain = (res, ok)"
  shows "ok \<le> bp_m T \<and> (ok = 0 \<longrightarrow> is_codeword K gen ((!) res) \<and> bp_n T \<le> length res \<and> list_ex (\<lambda>b. b) (take (bp_n T) res))"
  using loop_sound [OF assms [unfolded bp_run_def] nonempty] errors_zero by auto

text \<open>A reception whose signs are those of a codeword other than 0 is returned at once.\<close>

lemma run_clean:
  assumes "length c = bp_n T" "is_codeword K gen ((!) c)" "list_ex (\<lambda>b. b) c" "0 < iters"
    and "\<And>n. n < bp_n T \<Longrightarrow> f_gt ops (cw n) (f_lit ops 0 1) = c ! n"
  shows "bp_run ops T parity_errors j1 j2 j3 cw iters plain = (c @ drop (bp_n T) plain, 0)"
proof -
  obtain k where k: "nat iters = Suc k" using assms(4) by (metis gr0_conv_Suc zero_less_nat_eq)
  have "hard_decision ops (bp_n T) cw = c" using assms(1,5) by (auto simp: hard_decision_def intro: nth_equalityI)
  moreover have "is_codeword K gen ((!) (c @ drop (bp_n T) plain))"
  proof -
    have *: "map (\<lambda>j. g j \<and> (c @ drop (bp_n T) plain) ! j) [0..<K] = map (\<lambda>j. g j \<and> c ! j) [0..<K]" for g
      using assms(1) size by (intro map_cong) (auto simp: nth_append)
    show ?thesis using assms(1,2) size unfolding is_codeword_def * by (simp add: nth_append)
  qed
  ultimately show ?thesis
    using errors_zero [of "c @ drop (bp_n T) plain"] assms(1,3) nonempty by (simp add: bp_run_def k Let_def)
qed

lemma loop_length:
  "bp_n T \<le> length plain \<Longrightarrow> length (fst (bp_loop ops T midx errs cw k s tov toc plain me)) = length plain"
proof (induction k arbitrary: s tov toc plain me)
  case (Suc k)
  have "length (hard_decision ops (bp_n T) s @ drop (bp_n T) plain) = length plain"
    using Suc.prems by (simp add: hard_decision_def)
  then show ?case using Suc by (simp add: Let_def)
qed simp

lemma run_length: "bp_n T \<le> length plain \<Longrightarrow> length (fst (bp_run ops T errs j1 j2 j3 cw iters plain)) = length plain"
  unfolding bp_run_def by (rule loop_length)

end


lemma take_map_nth: "k \<le> length r \<Longrightarrow> take k r = map ((!) r) [0..<k]"
  by (intro nth_equalityI) auto

text \<open>Tables whose rows are those of a \<open>linear_code\<close>.\<close>

lemma bp_codeI:
  assumes code: "linear_code K B gen checks mn cert"
    and nonempty: "0 < bp_m T" and sizes: "bp_m T = length gen" "bp_n T = K + length gen"
    and rows: "\<And>m. m < bp_m T \<Longrightarrow> checks ! m = map (bp_nm T m) [0..<bp_rows T m]"
    and refs: "\<And>n. n < bp_n T \<Longrightarrow> mn ! n = map (bp_mn T n) [0..<3]"
    and errs: "\<And>p. parity_errors p = length (filter (\<lambda>m. parity (map ((!) p) (checks ! m))) [0..<bp_m T])"
  shows "bp_code T parity_errors K gen"
proof
  note lens = linear_code.sizes [OF code]
  show "0 < bp_m T" "bp_n T = K + length gen" by (rule nonempty, rule sizes)
  fix m i assume m: "m < bp_m T" "i < bp_rows T m"
  then have on: "bp_nm T m i \<in> set (checks ! m)" using rows by simp
  have "m < length checks" using m sizes lens by simp
  note row = linear_code.check_row(2) [OF code this, of "bp_nm T m i", THEN iffD1, OF on]
  then show n: "bp_nm T m i < bp_n T" using sizes lens by simp
  show "\<exists>mi < 3. bp_mn T (bp_nm T m i) mi = m" using row refs [OF n] by auto
next
  fix p :: "bool list"
  show "parity_errors p \<le> bp_m T"
    unfolding errs using length_filter_le [of _ "[0..<bp_m T]"] by simp
next
  fix p :: "bool list" assume "bp_n T \<le> length p"
  have "parity_errors p = 0 \<longleftrightarrow> (\<forall>m < length checks. \<not> parity (map ((!) p) (checks ! m)))"
    unfolding errs using sizes linear_code.sizes(1) [OF code] by (auto simp: filter_empty_conv)
  also have "\<dots> \<longleftrightarrow> all_checks checks ((!) p)" by (simp only: all_checks_def all_set_conv_all_nth)
  finally show "parity_errors p = 0 \<longleftrightarrow> is_codeword K gen ((!) p)"
    using linear_code.codeword_iff_passes [OF code] by blast
qed

lemma ftx_nm_shape: "list_all2 (\<lambda>k r. k \<le> length r) kFTX_LDPC_Num_rows kFTX_LDPC_Nm" "list_all (\<lambda>r. length r = 3) kFTX_LDPC_Mn"
  by (simp_all add: kFTX_LDPC_Num_rows_def kFTX_LDPC_Nm_def kFTX_LDPC_Mn_def kFTX_LDPC_Mn_1_def kFTX_LDPC_Mn_2_def)

lemma fst4_nm_shape: "list_all2 (\<lambda>k r. k \<le> length r) kFST4_LDPC_num_rows kFST4_LDPC_Nm" "list_all (\<lambda>r. length r = 3) kFST4_LDPC_Mn"
  by (simp_all add: kFST4_LDPC_num_rows_def kFST4_LDPC_Nm_def kFST4_LDPC_Mn_def kFST4_LDPC_Mn_1_def kFST4_LDPC_Mn_2_def)

lemma fst4w_nm_shape: "list_all2 (\<lambda>k r. k \<le> length r) kFST4W_LDPC_num_rows kFST4W_LDPC_Nm" "list_all (\<lambda>r. length r = 3) kFST4W_LDPC_Mn"
  by (simp_all add: kFST4W_LDPC_num_rows_def kFST4W_LDPC_Nm_def kFST4W_LDPC_Nm_1_def kFST4W_LDPC_Nm_2_def
      kFST4W_LDPC_Mn_def kFST4W_LDPC_Mn_1_def kFST4W_LDPC_Mn_2_def)

lemma three_entries: "length r = 3 \<Longrightarrow> map f r = map (\<lambda>j. f (r ! j)) [0..<3]"
  by (intro nth_equalityI) auto

lemma taken_rows:
  assumes "list_all2 (\<lambda>k r. k \<le> length r) ks nm" "m < length ks"
  shows "map2 (\<lambda>k r. map f (take k r)) ks nm ! m = map (\<lambda>i. f (nm ! m ! i)) [0..<ks ! m]"
  using assms by (auto simp: list_all2_conv_all_nth take_map_nth)

lemma taken_rows_id:
  assumes "list_all2 (\<lambda>k r. k \<le> length r) ks nm" "m < length ks"
  shows "map2 take ks nm ! m = map ((!) (nm ! m)) [0..<ks ! m]"
  using assms by (auto simp: list_all2_conv_all_nth take_map_nth)

lemma all_lengths: "list_all P xs \<Longrightarrow> n < length xs \<Longrightarrow> P (xs ! n)"
  by (simp add: list_all_length)

lemma parity_errors_240_eq:
  "parity_errors_240 T p = length (filter (\<lambda>m. parity (map (\<lambda>i. p ! bp_nm T m i) [0..<bp_rows T m])) [0..<bp_m T])"
  unfolding parity_errors_240_def fold_parity fold_count by simp

interpretation bp_ftx: bp_code ftx_tables ldpc_check 91 ftx_gen
proof (rule bp_codeI [OF ftx_code.linear_code_axioms])
  show "0 < bp_m ftx_tables" "bp_m ftx_tables = length ftx_gen" "bp_n ftx_tables = 91 + length ftx_gen"
    using ftx_lengths by (simp_all add: ftx_tables_def)
  show rows: "ftx_checks ! m = map (bp_nm ftx_tables m) [0..<bp_rows ftx_tables m]" if "m < bp_m ftx_tables" for m
    using that taken_rows [OF ftx_nm_shape(1), of m "\<lambda>n. n - 1"] ftx_table_shape by (simp add: ftx_checks_def ftx_tables_def)
  show "ftx_mn ! n = map (bp_mn ftx_tables n) [0..<3]" if "n < bp_n ftx_tables" for n
    using that ftx_lengths three_entries [OF all_lengths [OF ftx_nm_shape(2), of n], of "\<lambda>n. n - 1"]
    by (simp add: ftx_mn_def ftx_tables_def)
  show "ldpc_check p = length (filter (\<lambda>m. parity (map ((!) p) (ftx_checks ! m))) [0..<bp_m ftx_tables])" for p
    by (auto simp: ldpc_check_eq ftx_tables_def check_row_eq intro!: arg_cong [where f = length] filter_cong)
qed

interpretation bp_fst4: bp_code fst4_tables "parity_errors_240 fst4_tables" 101 fst4_gen
proof (rule bp_codeI [OF fst4_code.linear_code_axioms])
  show "0 < bp_m fst4_tables" "bp_m fst4_tables = length fst4_gen" "bp_n fst4_tables = 101 + length fst4_gen"
    using fst4_lengths by (simp_all add: fst4_tables_def)
  show rows: "fst4_checks ! m = map (bp_nm fst4_tables m) [0..<bp_rows fst4_tables m]" if "m < bp_m fst4_tables" for m
    using that taken_rows_id [OF fst4_nm_shape(1), of m] fst4_lengths by (simp add: fst4_checks_def fst4_tables_def)
  show "fst4_mn ! n = map (bp_mn fst4_tables n) [0..<3]" if "n < bp_n fst4_tables" for n
    using that fst4_lengths three_entries [OF all_lengths [OF fst4_nm_shape(2), of n], of "\<lambda>m. m"]
    by (simp add: fst4_mn_def fst4_tables_def)
  show "parity_errors_240 fst4_tables p = length (filter (\<lambda>m. parity (map ((!) p) (fst4_checks ! m))) [0..<bp_m fst4_tables])" for p
    unfolding parity_errors_240_eq using rows by (auto simp: o_def intro!: arg_cong [where f = length] filter_cong)
qed

interpretation bp_fst4w: bp_code fst4w_tables "parity_errors_240 fst4w_tables" 74 fst4w_gen
proof (rule bp_codeI [OF fst4w_code.linear_code_axioms])
  show "0 < bp_m fst4w_tables" "bp_m fst4w_tables = length fst4w_gen" "bp_n fst4w_tables = 74 + length fst4w_gen"
    using fst4w_lengths by (simp_all add: fst4w_tables_def)
  show rows: "fst4w_checks ! m = map (bp_nm fst4w_tables m) [0..<bp_rows fst4w_tables m]" if "m < bp_m fst4w_tables" for m
    using that taken_rows_id [OF fst4w_nm_shape(1), of m] fst4w_lengths by (simp add: fst4w_checks_def fst4w_tables_def)
  show "fst4w_mn ! n = map (bp_mn fst4w_tables n) [0..<3]" if "n < bp_n fst4w_tables" for n
    using that fst4w_lengths three_entries [OF all_lengths [OF fst4w_nm_shape(2), of n], of "\<lambda>m. m"]
    by (simp add: fst4w_mn_def fst4w_tables_def)
  show "parity_errors_240 fst4w_tables p = length (filter (\<lambda>m. parity (map ((!) p) (fst4w_checks ! m))) [0..<bp_m fst4w_tables])" for p
    unfolding parity_errors_240_eq using rows by (auto simp: o_def intro!: arg_cong [where f = length] filter_cong)
qed

end
