(* ===== verification/FtxWaterfall.thy ===== *)
theory FtxWaterfall
  imports FtxDecode "HOL-Library.Signed_Division" "HOL-Library.Monad_Syntax"
begin

text \<open>
  The waterfall of magnitudes and what the decoders read from it: \<open>ft8_lib/ft8/decode.h\<close>,
  \<open>decode_internal.h\<close>, \<open>ft8_decode.c\<close>, \<open>ft4_decode.c\<close>, \<open>fst4_decode.c\<close> and \<open>ftx_substract\<close> of \<open>decode.c\<close>,
  for the build without \<open>WATERFALL_USE_PHASE\<close>. The pointer arithmetic is kept: a position is an
  offset from \<open>mag\<close>, and reading or writing outside of the array is \<open>None\<close>.
\<close>

unbundle bit_operations_syntax

section \<open>Waterfall and candidates\<close>

record waterfall =
  max_blocks :: int
  num_blocks :: int
  num_bins :: int
  time_osr :: int
  freq_osr :: int
  mag :: "u8 list"
  block_stride :: int

record candidate =
  score :: int
  time_offset :: int
  freq_offset :: int
  time_sub :: int
  freq_sub :: int

definition get_cand_mag :: "waterfall \<Rightarrow> candidate \<Rightarrow> int" where
  "get_cand_mag w candidate =
     (let offset = time_offset candidate;
          offset = offset * time_osr w + time_sub candidate;
          offset = offset * freq_osr w + freq_sub candidate;
          offset = offset * num_bins w + freq_offset candidate
      in offset)"

definition elem :: "waterfall \<Rightarrow> int \<Rightarrow> u8 option" where
  "elem w i = (if 0 \<le> i \<and> i < int (length (mag w)) then Some (mag w ! nat i) else None)"

definition WF_ELEM_MAG_INT :: "waterfall \<Rightarrow> int \<Rightarrow> int option" where
  "WF_ELEM_MAG_INT w i = map_option uint (elem w i)"

definition mag_float :: "'f float_ops \<Rightarrow> u8 \<Rightarrow> 'f" where
  "mag_float ops x = f_sub ops (f_mul ops (f_lit ops (uint x) 1) (f_lit ops 1 2)) (f_lit ops 120 1)"

definition WF_ELEM_MAG :: "'f float_ops \<Rightarrow> waterfall \<Rightarrow> int \<Rightarrow> 'f option" where
  "WF_ELEM_MAG ops w i = map_option (mag_float ops) (elem w i)"

definition max2 :: "'f float_ops \<Rightarrow> 'f \<Rightarrow> 'f \<Rightarrow> 'f" where
  "max2 ops a b = (if f_ge ops a b then a else b)"

definition max4 :: "'f float_ops \<Rightarrow> 'f \<Rightarrow> 'f \<Rightarrow> 'f \<Rightarrow> 'f \<Rightarrow> 'f" where
  "max4 ops a b c d = max2 ops (max2 ops a b) (max2 ops c d)"

text \<open>
  The loops over symbols skip those before the recording (\<open>continue\<close>) and stop at the first one behind
  it (\<open>break\<close>); \<open>for_each\<close> is a plain loop.
\<close>

primrec in_time :: "waterfall \<Rightarrow> int \<Rightarrow> ('k \<Rightarrow> int) \<Rightarrow> ('k \<Rightarrow> 'a \<Rightarrow> 'a option) \<Rightarrow> 'k list \<Rightarrow> 'a \<Rightarrow> 'a option" where
  "in_time w t block body [] a = Some a"
| "in_time w t block body (k # ks) a =
     (let block_abs = t + block k
      in if block_abs < 0 then in_time w t block body ks a
         else if block_abs \<ge> num_blocks w then Some a
         else do { a \<leftarrow> body k a; in_time w t block body ks a })"

primrec for_each :: "('k \<Rightarrow> 'a \<Rightarrow> 'a option) \<Rightarrow> 'k list \<Rightarrow> 'a \<Rightarrow> 'a option" where
  "for_each body [] a = Some a"
| "for_each body (k # ks) a = do { a \<leftarrow> body k a; for_each body ks a }"

section \<open>Synchronisation scores\<close>

text \<open>\<open>score += mag[i] - mag[j]; ++num_average\<close>, under a condition.\<close>

definition compare_bins :: "waterfall \<Rightarrow> bool \<Rightarrow> int \<Rightarrow> int \<Rightarrow> int \<times> int \<Rightarrow> (int \<times> int) option" where
  "compare_bins w cond i j = (\<lambda>(total, num_average).
     if cond then do { a \<leftarrow> WF_ELEM_MAG_INT w i; b \<leftarrow> WF_ELEM_MAG_INT w j; Some (total + (a - b), num_average + 1) }
     else Some (total, num_average))"

definition average :: "int \<times> int \<Rightarrow> int" where
  "average = (\<lambda>(total, num_average). if num_average > 0 then total sdiv num_average else total)"

definition ft8_block :: "nat \<Rightarrow> nat \<Rightarrow> int" where
  "ft8_block m k = 36 * int m + int k"

definition ft8_sync_symbol :: "waterfall \<Rightarrow> candidate \<Rightarrow> int \<Rightarrow> nat \<Rightarrow> nat \<Rightarrow> int \<times> int \<Rightarrow> (int \<times> int) option" where
  "ft8_sync_symbol w candidate mag_cand m k acc =
     (let block = ft8_block m k;
          block_abs = time_offset candidate + block;
          p8 = mag_cand + block * block_stride w;
          sm = int (kFT8_Costas_pattern ! k)
      in do {
        acc \<leftarrow> compare_bins w (sm > 0) (p8 + sm) (p8 + (sm - 1)) acc;
        acc \<leftarrow> compare_bins w (sm < 7) (p8 + sm) (p8 + (sm + 1)) acc;
        acc \<leftarrow> compare_bins w (k > 0 \<and> block_abs > 0) (p8 + sm) (p8 + (sm - block_stride w)) acc;
        compare_bins w (k + 1 < 7 \<and> block_abs + 1 < num_blocks w) (p8 + sm) (p8 + (sm + block_stride w)) acc
      })"

definition ft8_sync_score :: "waterfall \<Rightarrow> candidate \<Rightarrow> int option" where
  "ft8_sync_score w candidate =
     map_option average (for_each (\<lambda>m. in_time w (time_offset candidate) (ft8_block m)
       (ft8_sync_symbol w candidate (get_cand_mag w candidate) m) [0..<7]) [0..<3] (0, 0))"

definition ft4_block :: "nat \<Rightarrow> nat \<Rightarrow> int" where
  "ft4_block m k = 1 + 33 * int m + int k"

definition ft4_sync_symbol :: "waterfall \<Rightarrow> candidate \<Rightarrow> int \<Rightarrow> nat \<Rightarrow> nat \<Rightarrow> int \<times> int \<Rightarrow> (int \<times> int) option" where
  "ft4_sync_symbol w candidate mag_cand m k acc =
     (let block = ft4_block m k;
          block_abs = time_offset candidate + block;
          p4 = mag_cand + block * block_stride w;
          sm = int (kFT4_Costas_pattern ! m ! k)
      in do {
        acc \<leftarrow> compare_bins w (sm > 0) (p4 + sm) (p4 + (sm - 1)) acc;
        acc \<leftarrow> compare_bins w (sm < 3) (p4 + sm) (p4 + (sm + 1)) acc;
        acc \<leftarrow> compare_bins w (k > 0 \<and> block_abs > 0) (p4 + sm) (p4 + (sm - block_stride w)) acc;
        compare_bins w (k + 1 < 4 \<and> block_abs + 1 < num_blocks w) (p4 + sm) (p4 + (sm + block_stride w)) acc
      })"

definition ft4_sync_score :: "waterfall \<Rightarrow> candidate \<Rightarrow> int option" where
  "ft4_sync_score w candidate =
     map_option average (for_each (\<lambda>m. in_time w (time_offset candidate) (ft4_block m)
       (ft4_sync_symbol w candidate (get_cand_mag w candidate) m) [0..<4]) [0..<4] (0, 0))"

definition fst4_block :: "nat \<Rightarrow> nat \<Rightarrow> int" where
  "fst4_block m k = int (sync_pos ! m) + int k"

definition fst4_sync_symbol :: "waterfall \<Rightarrow> int \<Rightarrow> nat \<Rightarrow> nat \<Rightarrow> int \<times> int \<Rightarrow> (int \<times> int) option" where
  "fst4_sync_symbol w mag_cand m k = (\<lambda>(total, num_average).
     let p4 = mag_cand + fst4_block m k * block_stride w;
         sm = int (sync_words ! m ! k)
     in do {
       x \<leftarrow> WF_ELEM_MAG_INT w (p4 + sm);
       a \<leftarrow> WF_ELEM_MAG_INT w p4;
       b \<leftarrow> WF_ELEM_MAG_INT w (p4 + 1);
       c \<leftarrow> WF_ELEM_MAG_INT w (p4 + 2);
       d \<leftarrow> WF_ELEM_MAG_INT w (p4 + 3);
       Some (total + (4 * x - a - b - c - d), num_average + 4)
     })"

definition fst4_sync_score :: "waterfall \<Rightarrow> candidate \<Rightarrow> int option" where
  "fst4_sync_score w candidate =
     map_option average (for_each (\<lambda>m. in_time w (time_offset candidate) (fst4_block m)
       (fst4_sync_symbol w (get_cand_mag w candidate) m) [0..<8]) [0..<5] (0, 0))"

section \<open>Likelihoods\<close>

text \<open>The magnitudes of the tones in Gray order, and the result written to \<open>logl[at], logl[at + 1], ...\<close>\<close>

definition gray_mags :: "'f float_ops \<Rightarrow> waterfall \<Rightarrow> int \<Rightarrow> nat list \<Rightarrow> 'f list option" where
  "gray_mags ops w p gray =
     for_each (\<lambda>g s2. do { x \<leftarrow> WF_ELEM_MAG ops w (p + int g); Some (s2 @ [x]) }) gray []"

definition ft8_extract_symbol :: "'f float_ops \<Rightarrow> waterfall \<Rightarrow> int \<Rightarrow> nat \<Rightarrow> 'f list \<Rightarrow> 'f list option" where
  "ft8_extract_symbol ops w p at logl =
     do {
       s2 \<leftarrow> gray_mags ops w p kFT8_Gray_map;
       Some (logl[at := f_sub ops (max4 ops (s2 ! 4) (s2 ! 5) (s2 ! 6) (s2 ! 7)) (max4 ops (s2 ! 0) (s2 ! 1) (s2 ! 2) (s2 ! 3)),
                  at + 1 := f_sub ops (max4 ops (s2 ! 2) (s2 ! 3) (s2 ! 6) (s2 ! 7)) (max4 ops (s2 ! 0) (s2 ! 1) (s2 ! 4) (s2 ! 5)),
                  at + 2 := f_sub ops (max4 ops (s2 ! 1) (s2 ! 3) (s2 ! 5) (s2 ! 7)) (max4 ops (s2 ! 0) (s2 ! 2) (s2 ! 4) (s2 ! 6))])
     }"

definition ft4_extract_symbol :: "'f float_ops \<Rightarrow> waterfall \<Rightarrow> int \<Rightarrow> nat \<Rightarrow> 'f list \<Rightarrow> 'f list option" where
  "ft4_extract_symbol ops w p at logl =
     do {
       s2 \<leftarrow> gray_mags ops w p kFT4_Gray_map;
       Some (logl[at := f_sub ops (max2 ops (s2 ! 2) (s2 ! 3)) (max2 ops (s2 ! 0) (s2 ! 1)),
                  at + 1 := f_sub ops (max2 ops (s2 ! 1) (s2 ! 3)) (max2 ops (s2 ! 0) (s2 ! 2))])
     }"

definition ft8_extract_likelihood :: "'f float_ops \<Rightarrow> waterfall \<Rightarrow> candidate \<Rightarrow> 'f list \<Rightarrow> 'f list option" where
  "ft8_extract_likelihood ops w cand log174 =
     for_each (\<lambda>k log174.
       let sym_idx = k + (if k < 29 then 7 else 14);
           bit_idx = 3 * k;
           block = time_offset cand + int sym_idx
       in if block < 0 \<or> block \<ge> num_blocks w
          then Some (log174[bit_idx := f_lit ops 0 1, bit_idx + 1 := f_lit ops 0 1, bit_idx + 2 := f_lit ops 0 1])
          else ft8_extract_symbol ops w (get_cand_mag w cand + int sym_idx * block_stride w) bit_idx log174)
       [0..<58] log174"

definition ft4_extract_likelihood :: "'f float_ops \<Rightarrow> waterfall \<Rightarrow> candidate \<Rightarrow> 'f list \<Rightarrow> 'f list option" where
  "ft4_extract_likelihood ops w cand log174 =
     for_each (\<lambda>k log174.
       let sym_idx = k + (if k < 29 then 5 else if k < 58 then 9 else 13);
           bit_idx = 2 * k;
           block = time_offset cand + int sym_idx
       in if block < 0 \<or> block \<ge> num_blocks w
          then Some (log174[bit_idx := f_lit ops 0 1, bit_idx + 1 := f_lit ops 0 1])
          else ft4_extract_symbol ops w (get_cand_mag w cand + int sym_idx * block_stride w) bit_idx log174)
       [0..<87] log174"

definition data_start :: "nat list" where "data_start = [8, 46, 84, 122]"

definition fst4_extract_likelihood :: "'f float_ops \<Rightarrow> waterfall \<Rightarrow> candidate \<Rightarrow> 'f list \<Rightarrow> 'f list option" where
  "fst4_extract_likelihood ops w cand log240 =
     map_option snd (for_each (\<lambda>d. for_each (\<lambda>k (bit_idx, log240).
       let sym_idx = data_start ! d + k;
           block = time_offset cand + int sym_idx
       in if block < 0 \<or> block \<ge> num_blocks w
          then Some (bit_idx + 2, log240[bit_idx := f_lit ops 0 1, bit_idx + 1 := f_lit ops 0 1])
          else do {
            log240 \<leftarrow> ft4_extract_symbol ops w (get_cand_mag w cand + int sym_idx * block_stride w) bit_idx log240;
            Some (bit_idx + 2, log240)
          }) [0..<30]) [0..<4] (0, log240))"

section \<open>Subtracting a decoded signal\<close>

definition noise_floor :: "'f float_ops \<Rightarrow> waterfall \<Rightarrow> nat \<Rightarrow> int \<Rightarrow> nat \<Rightarrow> 'f option" where
  "noise_floor ops w n_items p tone =
     for_each (\<lambda>s noise_val.
       if s = tone then Some noise_val
       else do { x \<leftarrow> WF_ELEM_MAG ops w (p + int s); Some (if f_gt ops noise_val x then x else noise_val) })
       [0..<n_items] (f_lit ops 100000 1)"

definition measure_symbol :: "'f float_ops \<Rightarrow> waterfall \<Rightarrow> nat \<Rightarrow> int \<Rightarrow> nat list \<Rightarrow> nat \<Rightarrow> 'f \<times> 'f \<times> int \<Rightarrow> ('f \<times> 'f \<times> int) option" where
  "measure_symbol ops w n_items mag_cand tones i = (\<lambda>(noise, signal, num_average).
     do {
       noise_val \<leftarrow> noise_floor ops w n_items (mag_cand + int i * block_stride w) (tones ! i);
       x \<leftarrow> WF_ELEM_MAG ops w (mag_cand + int i * block_stride w + int (tones ! i));
       Some (f_add ops noise noise_val, f_add ops signal x, num_average + 1)
     })"

definition SUB_WF_ELEM_MAG :: "'f float_ops \<Rightarrow> int \<Rightarrow> 'f \<Rightarrow> waterfall \<Rightarrow> waterfall option" where
  "SUB_WF_ELEM_MAG ops i y w =
     do {
       x \<leftarrow> elem w i;
       Some (w\<lparr>mag := (mag w)[nat i :=
         f_u8 ops (f_sub ops (f_lit ops (uint x) 1) (f_add ops (f_mul ops y (f_lit ops 2 1)) (f_lit ops 240 1)))]\<rparr>)
     }"

definition substract_at :: "'f float_ops \<Rightarrow> nat \<Rightarrow> candidate \<Rightarrow> nat list \<Rightarrow> nat \<Rightarrow> nat \<Rightarrow> 'f \<times> waterfall \<Rightarrow> ('f \<times> waterfall) option" where
  "substract_at ops n_items cand tones n_tones freq_sub' = (\<lambda>(snr_all, w).
     let mag_cand = get_cand_mag w (cand\<lparr>freq_sub := int freq_sub'\<rparr>)
     in do {
       (noise, signal, num_average) \<leftarrow> in_time w (time_offset cand) int (measure_symbol ops w n_items mag_cand tones)
         [0..<n_tones] (f_lit ops 0 1, f_lit ops 0 1, 0);
       let snr = f_sub ops (f_div ops signal (f_lit ops num_average 1)) (f_div ops noise (f_lit ops num_average 1));
       w \<leftarrow> in_time w (time_offset cand) int
         (\<lambda>i w. SUB_WF_ELEM_MAG ops (mag_cand + int i * block_stride w + int (tones ! i)) snr w) [0..<n_tones] w;
       Some (f_add ops snr_all snr, w)
     })"

definition ftx_substract :: "'f float_ops \<Rightarrow> nat \<Rightarrow> waterfall \<Rightarrow> candidate \<Rightarrow> nat list \<Rightarrow> nat \<Rightarrow> ('f \<times> waterfall) option" where
  "ftx_substract ops n_items w cand tones n_tones =
     do {
       (snr_all, w) \<leftarrow> for_each (substract_at ops n_items cand tones n_tones) [0..<nat (freq_osr w)] (f_lit ops 0 1, w);
       Some (f_div ops snr_all (f_lit ops (freq_osr w) 1), w)
     }"

section \<open>Every access is inside the array\<close>

text \<open>
  The layout \<open>mag[blocks][time_osr][freq_osr][num_bins]\<close> of the header, and the candidates that
  \<open>ftx_find_candidates\<close> enumerates.
\<close>

definition waterfall_ok :: "waterfall \<Rightarrow> bool" where
  "waterfall_ok w \<longleftrightarrow> 0 \<le> num_blocks w \<and> num_blocks w \<le> max_blocks w \<and> 0 < time_osr w \<and> 0 < freq_osr w \<and> 0 \<le> num_bins w \<and>
     block_stride w = time_osr w * freq_osr w * num_bins w \<and> int (length (mag w)) = max_blocks w * block_stride w"

definition candidate_ok :: "nat \<Rightarrow> waterfall \<Rightarrow> candidate \<Rightarrow> bool" where
  "candidate_ok num_tones w c \<longleftrightarrow> 0 \<le> time_sub c \<and> time_sub c < time_osr w \<and> 0 \<le> freq_sub c \<and> freq_sub c < freq_osr w \<and>
     0 \<le> freq_offset c \<and> freq_offset c + int num_tones - 1 < num_bins w"

lemma mixed_radix:
  fixes a b :: int
  assumes "0 \<le> a" "a < m" "0 \<le> b" "b < n"
  shows "0 \<le> a * n + b" "a * n + b < m * n"
proof -
  have "a * n + b < a * n + n" using assms by simp
  also have "\<dots> = (a + 1) * n" by (simp add: algebra_simps)
  also have "\<dots> \<le> m * n" using assms by (intro mult_right_mono) auto
  finally show "a * n + b < m * n" .
  show "0 \<le> a * n + b" using assms by simp
qed

text \<open>The bin \<open>s\<close> of a symbol of the candidate.\<close>

definition bin_of :: "waterfall \<Rightarrow> candidate \<Rightarrow> int \<Rightarrow> int \<Rightarrow> int" where
  "bin_of w c block s = get_cand_mag w c + block * block_stride w + s"

lemma bin_of_shift: "get_cand_mag w c + block * block_stride w + (s + e * block_stride w) = bin_of w c (block + e) s"
  by (simp add: bin_of_def algebra_simps)

lemma bin_in_range:
  assumes "waterfall_ok w" "candidate_ok n w c" "0 \<le> s" "s < int n"
    and "0 \<le> time_offset c + block" "time_offset c + block < num_blocks w"
  shows "0 \<le> bin_of w c block s \<and> bin_of w c block s < int (length (mag w))"
proof -
  let ?t = "time_offset c + block"
  have 1: "0 \<le> ?t * time_osr w + time_sub c" "?t * time_osr w + time_sub c < max_blocks w * time_osr w"
    using assms by (auto intro!: mixed_radix simp: waterfall_ok_def candidate_ok_def)
  have 2: "0 \<le> (?t * time_osr w + time_sub c) * freq_osr w + freq_sub c"
    "(?t * time_osr w + time_sub c) * freq_osr w + freq_sub c < max_blocks w * time_osr w * freq_osr w"
    using assms(2) by (auto intro!: mixed_radix 1 simp: candidate_ok_def)
  have 3: "0 \<le> ((?t * time_osr w + time_sub c) * freq_osr w + freq_sub c) * num_bins w + (freq_offset c + s)"
    "((?t * time_osr w + time_sub c) * freq_osr w + freq_sub c) * num_bins w + (freq_offset c + s)
      < max_blocks w * time_osr w * freq_osr w * num_bins w"
    using assms(2-4) by (auto intro!: mixed_radix 2 simp: candidate_ok_def)
  have "bin_of w c block s = ((?t * time_osr w + time_sub c) * freq_osr w + freq_sub c) * num_bins w + (freq_offset c + s)"
    using assms(1) by (simp add: bin_of_def get_cand_mag_def waterfall_ok_def algebra_simps)
  moreover have "int (length (mag w)) = max_blocks w * time_osr w * freq_osr w * num_bins w"
    using assms(1) by (simp add: waterfall_ok_def)
  ultimately show ?thesis using 3 by simp
qed

lemma in_time_total:
  assumes "\<And>k a. k \<in> set ks \<Longrightarrow> P a \<Longrightarrow> 0 \<le> t + block k \<Longrightarrow> t + block k < num_blocks w \<Longrightarrow> \<exists>a'. body k a = Some a' \<and> P a'" "P a"
  shows "\<exists>a'. in_time w t block body ks a = Some a' \<and> P a'"
  using assms
proof (induction ks arbitrary: a)
  case (Cons k ks)
  have tail: "\<exists>a'. in_time w t block body ks a = Some a' \<and> P a'" if "P a" for a
    using that Cons.prems(1) by (intro Cons.IH) auto
  consider "t + block k < 0" | "num_blocks w \<le> t + block k" | "0 \<le> t + block k" "t + block k < num_blocks w" by linarith
  then show ?case
  proof cases
    case 3
    then obtain a' where "body k a = Some a'" "P a'" using Cons.prems by fastforce
    then show ?thesis using 3 tail by simp
  qed (use Cons.prems(2) tail in \<open>auto simp: Let_def\<close>)
qed simp

lemma for_each_total:
  assumes "\<And>k a. k \<in> set ks \<Longrightarrow> P a \<Longrightarrow> \<exists>a'. body k a = Some a' \<and> P a'" "P a"
  shows "\<exists>a'. for_each body ks a = Some a' \<and> P a'"
  using assms
proof (induction ks arbitrary: a)
  case (Cons k ks)
  then obtain a' where "body k a = Some a'" "P a'" by fastforce
  then show ?case using Cons by auto
qed simp

definition in_array :: "waterfall \<Rightarrow> int \<Rightarrow> bool" where
  "in_array w i \<longleftrightarrow> 0 \<le> i \<and> i < int (length (mag w))"

lemma read_int: "in_array w i \<Longrightarrow> \<exists>x. WF_ELEM_MAG_INT w i = Some x \<and> 0 \<le> x \<and> x \<le> 255"
  using uint_lt2p [of "mag w ! nat i"] by (simp add: WF_ELEM_MAG_INT_def elem_def in_array_def)

lemma read_float: "in_array w i \<Longrightarrow> \<exists>x. WF_ELEM_MAG ops w i = Some x"
  by (simp add: WF_ELEM_MAG_def elem_def in_array_def)

text \<open>Sums of differences of bytes.\<close>

definition sum_ok :: "int \<times> int \<Rightarrow> bool" where
  "sum_ok = (\<lambda>(total, n). 0 \<le> n \<and> \<bar>total\<bar> \<le> 255 * n)"

lemma compare_bins_total:
  assumes "cond \<Longrightarrow> in_array w i \<and> in_array w j" "sum_ok acc"
  shows "\<exists>acc'. compare_bins w cond i j acc = Some acc' \<and> sum_ok acc'"
proof (cases cond)
  case True
  then obtain a b where "WF_ELEM_MAG_INT w i = Some a" "0 \<le> a" "a \<le> 255" "WF_ELEM_MAG_INT w j = Some b" "0 \<le> b" "b \<le> 255"
    using assms(1) read_int by meson
  then show ?thesis using assms(2) True by (cases acc) (auto simp: compare_bins_def sum_ok_def)
qed (use assms(2) in \<open>cases acc; simp add: compare_bins_def\<close>)

lemma average_bound: "sum_ok acc \<Longrightarrow> \<bar>average acc\<bar> \<le> 255"
proof -
  assume "sum_ok acc"
  then obtain s n where acc: "acc = (s, n)" "0 \<le> n" "\<bar>s\<bar> \<le> 255 * n" by (cases acc) (auto simp: sum_ok_def)
  show ?thesis
  proof (cases "0 < n")
    case True
    have "\<bar>s sdiv n\<bar> = \<bar>s\<bar> div n" using True by (auto simp: signed_divide_int_def abs_mult sgn_if pos_imp_zdiv_nonneg_iff)
    also have "\<dots> \<le> 255" using acc True zdiv_mono1 [of "\<bar>s\<bar>" "255 * n" n] by simp
    finally show ?thesis using acc True by (simp add: average_def)
  qed (use acc in \<open>simp add: average_def\<close>)
qed

lemma compare_bins_then:
  assumes "cond \<Longrightarrow> in_array w i" "cond \<Longrightarrow> in_array w j" "sum_ok acc"
    and "\<And>acc'. sum_ok acc' \<Longrightarrow> \<exists>y. f acc' = Some y \<and> sum_ok y"
  shows "\<exists>y. compare_bins w cond i j acc \<bind> f = Some y \<and> sum_ok y"
  using compare_bins_total [of cond w i j acc] assms by auto

lemma costas_tones: "k < 7 \<Longrightarrow> kFT8_Costas_pattern ! k < 7" "m < 4 \<Longrightarrow> k < 4 \<Longrightarrow> kFT4_Costas_pattern ! m ! k < 4"
  "m < 5 \<Longrightarrow> k < 8 \<Longrightarrow> sync_words ! m ! k < 4"
proof -
  show "k < 7 \<Longrightarrow> kFT8_Costas_pattern ! k < 7"
    by (auto simp: kFT8_Costas_pattern_def nth_Cons' less_Suc_eq)
  have "\<forall>r \<in> set kFT4_Costas_pattern. length r = 4 \<and> (\<forall>x \<in> set r. x < 4)" "length kFT4_Costas_pattern = 4"
    by (simp_all add: kFT4_Costas_pattern_def)
  then show "m < 4 \<Longrightarrow> k < 4 \<Longrightarrow> kFT4_Costas_pattern ! m ! k < 4" by (metis nth_mem)
  have "\<forall>r \<in> set sync_words. length r = 8 \<and> (\<forall>x \<in> set r. x < 4)" "length sync_words = 5"
    by (simp_all add: sync_words_def kFST4_Sync_word1_def kFST4_Sync_word2_def)
  then show "m < 5 \<Longrightarrow> k < 8 \<Longrightarrow> sync_words ! m ! k < 4" by (metis nth_mem)
qed

lemma near_bins:
  assumes "waterfall_ok w" "candidate_ok n w c" "0 \<le> sm" "sm < int n"
    and "0 \<le> time_offset c + b" "time_offset c + b < num_blocks w" "p = get_cand_mag w c + b * block_stride w"
  shows "in_array w (p + sm)" "0 < sm \<Longrightarrow> in_array w (p + (sm - 1))" "sm < int n - 1 \<Longrightarrow> in_array w (p + (sm + 1))"
    "0 < time_offset c + b \<Longrightarrow> in_array w (p + (sm - block_stride w))"
    "time_offset c + b + 1 < num_blocks w \<Longrightarrow> in_array w (p + (sm + block_stride w))"
  using bin_in_range [OF assms(1,2), of sm b] bin_in_range [OF assms(1,2), of "sm - 1" b] bin_in_range [OF assms(1,2), of "sm + 1" b]
    bin_in_range [OF assms(1,2), of sm "b - 1"] bin_in_range [OF assms(1,2), of sm "b + 1"] assms(3-7)
  by (auto simp: in_array_def bin_of_def algebra_simps)

lemma ft8_symbol_total:
  assumes "waterfall_ok w" "candidate_ok 8 w c" "k < 7" "sum_ok acc"
    "0 \<le> time_offset c + ft8_block m k" "time_offset c + ft8_block m k < num_blocks w"
  shows "\<exists>acc'. ft8_sync_symbol w c (get_cand_mag w c) m k acc = Some acc' \<and> sum_ok acc'"
  unfolding ft8_sync_symbol_def Let_def
  by (intro compare_bins_then compare_bins_total conjI)
    (use costas_tones(1) [OF assms(3)] near_bins [OF assms(1,2) _ _ assms(5,6) refl, of "int (kFT8_Costas_pattern ! k)"] assms(4) in auto)

lemma ft4_symbol_total:
  assumes "waterfall_ok w" "candidate_ok 4 w c" "m < 4" "k < 4" "sum_ok acc"
    "0 \<le> time_offset c + ft4_block m k" "time_offset c + ft4_block m k < num_blocks w"
  shows "\<exists>acc'. ft4_sync_symbol w c (get_cand_mag w c) m k acc = Some acc' \<and> sum_ok acc'"
  unfolding ft4_sync_symbol_def Let_def
  by (intro compare_bins_then compare_bins_total conjI)
    (use costas_tones(2) [OF assms(3,4)] near_bins [OF assms(1,2) _ _ assms(6,7) refl, of "int (kFT4_Costas_pattern ! m ! k)"] assms(5) in auto)

lemma fst4_symbol_total:
  assumes "waterfall_ok w" "candidate_ok 4 w c" "m < 5" "k < 8" "sum_ok acc"
    "0 \<le> time_offset c + fst4_block m k" "time_offset c + fst4_block m k < num_blocks w"
  shows "\<exists>acc'. fst4_sync_symbol w (get_cand_mag w c) m k acc = Some acc' \<and> sum_ok acc'"
proof -
  let ?p = "get_cand_mag w c + fst4_block m k * block_stride w"
  have on: "\<exists>x. WF_ELEM_MAG_INT w (?p + s) = Some x \<and> 0 \<le> x \<and> x \<le> 255" if "0 \<le> s" "s < 4" for s
    using that near_bins(1) [OF assms(1,2) _ _ assms(6,7) refl, of s] by (intro read_int) simp
  obtain x a b d e where "WF_ELEM_MAG_INT w (?p + int (sync_words ! m ! k)) = Some x" "0 \<le> x" "x \<le> 255"
    "WF_ELEM_MAG_INT w ?p = Some a" "0 \<le> a" "a \<le> 255" "WF_ELEM_MAG_INT w (?p + 1) = Some b" "0 \<le> b" "b \<le> 255"
    "WF_ELEM_MAG_INT w (?p + 2) = Some d" "0 \<le> d" "d \<le> 255" "WF_ELEM_MAG_INT w (?p + 3) = Some e" "0 \<le> e" "e \<le> 255"
    using on [of "int (sync_words ! m ! k)"] on [of 0] on [of 1] on [of 2] on [of 3] costas_tones(3) [OF assms(3,4)] by auto
  then show ?thesis using assms(5) by (cases acc) (auto simp: fst4_sync_symbol_def sum_ok_def)
qed

lemma ft8_sync_score_total:
  assumes "waterfall_ok w" "candidate_ok 8 w c"
  shows "\<exists>s. ft8_sync_score w c = Some s \<and> \<bar>s\<bar> \<le> 255"
proof -
  have "\<exists>acc. for_each (\<lambda>m. in_time w (time_offset c) (ft8_block m)
      (ft8_sync_symbol w c (get_cand_mag w c) m) [0..<7]) [0..<3] (0, 0) = Some acc \<and> sum_ok acc"
    using ft8_symbol_total [OF assms] by (intro for_each_total in_time_total) (auto simp: sum_ok_def)
  then show ?thesis using average_bound by (auto simp: ft8_sync_score_def)
qed

lemma ft4_sync_score_total:
  assumes "waterfall_ok w" "candidate_ok 4 w c"
  shows "\<exists>s. ft4_sync_score w c = Some s \<and> \<bar>s\<bar> \<le> 255"
proof -
  have "\<exists>acc. for_each (\<lambda>m. in_time w (time_offset c) (ft4_block m)
      (ft4_sync_symbol w c (get_cand_mag w c) m) [0..<4]) [0..<4] (0, 0) = Some acc \<and> sum_ok acc"
    using ft4_symbol_total [OF assms] by (intro for_each_total in_time_total) (auto simp: sum_ok_def)
  then show ?thesis using average_bound by (auto simp: ft4_sync_score_def)
qed

lemma fst4_sync_score_total:
  assumes "waterfall_ok w" "candidate_ok 4 w c"
  shows "\<exists>s. fst4_sync_score w c = Some s \<and> \<bar>s\<bar> \<le> 255"
proof -
  have "\<exists>acc. for_each (\<lambda>m. in_time w (time_offset c) (fst4_block m)
      (fst4_sync_symbol w (get_cand_mag w c) m) [0..<8]) [0..<5] (0, 0) = Some acc \<and> sum_ok acc"
    using fst4_symbol_total [OF assms] by (intro for_each_total in_time_total) (auto simp: sum_ok_def)
  then show ?thesis using average_bound by (auto simp: fst4_sync_score_def)
qed

section \<open>The likelihoods, slot by slot\<close>

text \<open>What one symbol contributes, from the magnitudes in Gray order.\<close>

definition ft8_llr :: "'f float_ops \<Rightarrow> 'f list \<Rightarrow> 'f list" where
  "ft8_llr ops s2 =
     [f_sub ops (max4 ops (s2 ! 4) (s2 ! 5) (s2 ! 6) (s2 ! 7)) (max4 ops (s2 ! 0) (s2 ! 1) (s2 ! 2) (s2 ! 3)),
      f_sub ops (max4 ops (s2 ! 2) (s2 ! 3) (s2 ! 6) (s2 ! 7)) (max4 ops (s2 ! 0) (s2 ! 1) (s2 ! 4) (s2 ! 5)),
      f_sub ops (max4 ops (s2 ! 1) (s2 ! 3) (s2 ! 5) (s2 ! 7)) (max4 ops (s2 ! 0) (s2 ! 2) (s2 ! 4) (s2 ! 6))]"

definition ft4_llr :: "'f float_ops \<Rightarrow> 'f list \<Rightarrow> 'f list" where
  "ft4_llr ops s2 =
     [f_sub ops (max2 ops (s2 ! 2) (s2 ! 3)) (max2 ops (s2 ! 0) (s2 ! 1)),
      f_sub ops (max2 ops (s2 ! 1) (s2 ! 3)) (max2 ops (s2 ! 0) (s2 ! 2))]"

definition bin_mags :: "'f float_ops \<Rightarrow> waterfall \<Rightarrow> int \<Rightarrow> nat list \<Rightarrow> 'f list" where
  "bin_mags ops w p gray = map (\<lambda>g. mag_float ops (mag w ! nat (p + int g))) gray"

definition symbol_llr :: "'f float_ops \<Rightarrow> ('f list \<Rightarrow> 'f list) \<Rightarrow> nat \<Rightarrow> nat list \<Rightarrow> waterfall \<Rightarrow> candidate \<Rightarrow> nat \<Rightarrow> 'f list" where
  "symbol_llr ops llr nb gray w c i =
     (if 0 \<le> time_offset c + int i \<and> time_offset c + int i < num_blocks w
      then llr (bin_mags ops w (get_cand_mag w c + int i * block_stride w) gray) else replicate nb (f_lit ops 0 1))"

definition slot :: "nat \<Rightarrow> 'f list \<Rightarrow> 'f list \<Rightarrow> 'f list" where
  "slot at xs l = take at l @ xs @ drop (at + length xs) l"

lemma length_slot: "at + length xs \<le> length l \<Longrightarrow> length (slot at xs l) = length l"
  by (simp add: slot_def)

lemma slot_updates:
  "at + 2 \<le> length l \<Longrightarrow> l[at := a, at + 1 := b] = slot at [a, b] l"
  "at + 3 \<le> length l \<Longrightarrow> l[at := a, at + 1 := b, at + 2 := c] = slot at [a, b, c] l"
proof -
  assume "at + 2 \<le> length l"
  then obtain x y r where d: "drop at l = x # y # r" "at \<le> length l"
    by (cases "drop at l"; cases "tl (drop at l)") (auto simp: drop_Cons' dest: arg_cong [where f = length])
  then have "(take at l @ x # y # r)[at := a, at + 1 := b] = slot at [a, b] (take at l @ x # y # r)"
    by (simp add: slot_def list_update_append)
  then show "l[at := a, at + 1 := b] = slot at [a, b] l" by (simp only: d(1) [symmetric] append_take_drop_id)
next
  assume "at + 3 \<le> length l"
  then obtain x y z r where d: "drop at l = x # y # z # r" "at \<le> length l"
    by (cases "drop at l"; cases "tl (drop at l)"; cases "tl (tl (drop at l))") (auto dest: arg_cong [where f = length])
  then have "(take at l @ x # y # z # r)[at := a, at + 1 := b, at + 2 := c] = slot at [a, b, c] (take at l @ x # y # z # r)"
    by (simp add: slot_def list_update_append numeral_3_eq_3)
  then show "l[at := a, at + 1 := b, at + 2 := c] = slot at [a, b, c] l" by (simp only: d(1) [symmetric] append_take_drop_id)
qed

lemma slots_consecutive: "at + length xs + length ys \<le> length l \<Longrightarrow> slot (at + length xs) ys (slot at xs l) = slot at (xs @ ys) l"
  by (simp add: slot_def ac_simps)

lemma gray_mags_eq:
  assumes "\<And>g. g \<in> set gray \<Longrightarrow> in_array w (p + int g)"
  shows "gray_mags ops w p gray = Some (bin_mags ops w p gray)"
proof -
  have "for_each (\<lambda>g s2. do { x \<leftarrow> WF_ELEM_MAG ops w (p + int g); Some (s2 @ [x]) }) gs s2
      = Some (s2 @ bin_mags ops w p gs)" if "set gs \<subseteq> set gray" for gs s2
    using that assms by (induction gs arbitrary: s2) (auto simp: WF_ELEM_MAG_def elem_def in_array_def bin_mags_def)
  then show ?thesis by (simp add: gray_mags_def)
qed

lemma gray_small: "g \<in> set kFT8_Gray_map \<Longrightarrow> g < 8" "g \<in> set kFT4_Gray_map \<Longrightarrow> g < 4"
  by (auto simp: kFT8_Gray_map_def kFT4_Gray_map_def)

lemma extract_symbol_eq:
  assumes "waterfall_ok w" "0 \<le> time_offset c + int i" "time_offset c + int i < num_blocks w"
  defines "p \<equiv> get_cand_mag w c + int i * block_stride w"
  shows "candidate_ok 8 w c \<Longrightarrow> at + 3 \<le> length l \<Longrightarrow>
      ft8_extract_symbol ops w p at l = Some (slot at (symbol_llr ops (ft8_llr ops) 3 kFT8_Gray_map w c i) l)"
    "candidate_ok 4 w c \<Longrightarrow> at + 2 \<le> length l \<Longrightarrow>
      ft4_extract_symbol ops w p at l = Some (slot at (symbol_llr ops (ft4_llr ops) 2 kFT4_Gray_map w c i) l)"
proof -
  have read: "in_array w (p + int g)" if "candidate_ok n w c" "g < n" for g n
    using near_bins(1) [OF assms(1) that(1) _ _ assms(2,3) refl, of "int g"] that(2) by (simp add: p_def)
  {
    assume c: "candidate_ok 8 w c" and len: "at + 3 \<le> length l"
    have "gray_mags ops w p kFT8_Gray_map = Some (bin_mags ops w p kFT8_Gray_map)"
      by (rule gray_mags_eq) (use read [OF c] gray_small in auto)
    then show "ft8_extract_symbol ops w p at l = Some (slot at (symbol_llr ops (ft8_llr ops) 3 kFT8_Gray_map w c i) l)"
      using assms(2,3) unfolding ft8_extract_symbol_def slot_updates(2) [OF len]
      by (simp add: symbol_llr_def ft8_llr_def p_def)
  next
    assume c: "candidate_ok 4 w c" and len: "at + 2 \<le> length l"
    have "gray_mags ops w p kFT4_Gray_map = Some (bin_mags ops w p kFT4_Gray_map)"
      by (rule gray_mags_eq) (use read [OF c] gray_small in auto)
    then show "ft4_extract_symbol ops w p at l = Some (slot at (symbol_llr ops (ft4_llr ops) 2 kFT4_Gray_map w c i) l)"
      using assms(2,3) unfolding ft4_extract_symbol_def slot_updates(1) [OF len]
      by (simp add: symbol_llr_def ft4_llr_def p_def)
  }
qed

lemma symbol_llr_length:
  "length (symbol_llr ops (ft8_llr ops) 3 gray w c i) = 3" "length (symbol_llr ops (ft4_llr ops) 2 gray w c i) = 2"
  by (simp_all add: symbol_llr_def ft8_llr_def ft4_llr_def)

text \<open>Loops that fill one slot after the other.\<close>

lemma concat_length: "(\<And>x. x \<in> set xs \<Longrightarrow> length (f x) = n) \<Longrightarrow> length (concat (map f xs)) = n * length xs"
  by (induction xs) auto

lemma fill_slots:
  assumes step: "\<And>k l. k < K \<Longrightarrow> length l = L \<Longrightarrow> body k l = Some (slot (nb * k) (out k) l)"
    and out: "\<And>k. k < K \<Longrightarrow> length (out k) = nb" and len: "length l = L" "nb * K \<le> L"
  shows "for_each body [0..<K] l = Some (slot 0 (concat (map out [0..<K])) l)"
proof -
  have app: "for_each body (xs @ ys) a = for_each body xs a \<bind> for_each body ys" for xs ys a
    by (induction xs arbitrary: a) (auto simp: bind_assoc)
  have "for_each body [0..<m] l = Some (slot 0 (concat (map out [0..<m])) l) \<and> length (concat (map out [0..<m])) = nb * m" if "m \<le> K" for m
    using that
  proof (induction m)
    case (Suc m)
    let ?xs = "concat (map out [0..<m])"
    have IH: "for_each body [0..<m] l = Some (slot 0 ?xs l)" and n: "length ?xs = nb * m" using Suc by simp_all
    have room: "nb * m + nb \<le> L" using Suc.prems len(2) by (metis Suc_le_eq add.commute le_trans mult_Suc_right mult_le_mono2)
    then have "length (slot 0 ?xs l) = L" using n len by (simp add: length_slot)
    then have "body m (slot 0 ?xs l) = Some (slot 0 (?xs @ out m) l)"
      using step [of m] Suc.prems slots_consecutive [of 0 ?xs "out m" l] out [of m] n room len by simp
    then show ?case using IH n out [of m] Suc.prems by (simp add: app del: map_concat)
  qed (simp add: slot_def)
  then show ?thesis by blast
qed

lemma fill_slots_at:
  assumes step: "\<And>x at l. x \<in> set xs \<Longrightarrow> at + nb \<le> length l \<Longrightarrow> body x (at, l) = Some (at + nb, slot at (out x) l)"
    and out: "\<And>x. x \<in> set xs \<Longrightarrow> length (out x) = nb" and len: "at + nb * length xs \<le> length l"
  shows "for_each body xs (at, l) = Some (at + nb * length xs, slot at (concat (map out xs)) l)"
  using assms
proof (induction xs arbitrary: at l)
  case (Cons x xs)
  have n: "length (concat (map out xs)) = nb * length xs" by (rule concat_length) (use Cons.prems(2) in simp)
  have "for_each body xs (at + nb, slot at (out x) l) = Some (at + nb + nb * length xs, slot (at + nb) (concat (map out xs)) (slot at (out x) l))"
    using Cons.prems by (intro Cons.IH) (auto simp: length_slot)
  moreover have "slot (at + nb) (concat (map out xs)) (slot at (out x) l) = slot at (out x @ concat (map out xs)) l"
    using slots_consecutive [of at "out x" "concat (map out xs)" l] Cons.prems n by simp
  ultimately show ?case using Cons.prems by (simp add: ac_simps)
qed (simp add: slot_def)

lemma concat_map_nested: "concat (map f (concat xss)) = concat (map (\<lambda>xs. concat (map f xs)) xss)"
  by (induction xss) simp_all

text \<open>The positions of the data symbols, as the loops compute them, are those without a synchronisation tone.\<close>

definition ft8_data :: "nat list" where "ft8_data = map (\<lambda>k. k + (if k < 29 then 7 else 14)) [0..<58]"
definition ft4_data :: "nat list" where "ft4_data = map (\<lambda>k. k + (if k < 29 then 5 else if k < 58 then 9 else 13)) [0..<87]"
definition fst4_data :: "nat list" where "fst4_data = concat (map (\<lambda>d. map (\<lambda>k. data_start ! d + k) [0..<30]) [0..<4])"

lemma data_positions:
  "filter (\<lambda>i. ft8_sync i = None) [0..<79] = ft8_data" "filter (\<lambda>i. ft4_sync i = None) [0..<105] = ft4_data"
  "filter (\<lambda>i. fst4_sync i = None) [0..<160] = fst4_data"
proof -
  have "ft8_sync j = None \<longleftrightarrow> \<not> j mod 36 < 7" "fst4_sync j = None \<longleftrightarrow> \<not> j mod 38 < 8"
    "ft4_sync j = None \<longleftrightarrow> \<not> (j = 0 \<or> j = 104 \<or> (j - 1) mod 33 < 4)" for j
    by (simp_all add: ft8_sync_def fst4_sync_def ft4_sync_def)
  then show "filter (\<lambda>i. ft8_sync i = None) [0..<79] = ft8_data" "filter (\<lambda>i. ft4_sync i = None) [0..<105] = ft4_data"
    "filter (\<lambda>i. fst4_sync i = None) [0..<160] = fst4_data"
    by (simp_all only:) code_simp+
qed

lemma out_of_time: "\<not> (0 \<le> time_offset c + int i \<and> time_offset c + int i < num_blocks w) \<Longrightarrow>
    symbol_llr ops llr nb gray w c i = replicate nb (f_lit ops 0 1)"
  unfolding symbol_llr_def by (rule if_not_P)

lemma ft8_likelihood:
  assumes "waterfall_ok w" "candidate_ok 8 w c" "174 \<le> length l"
  shows "ft8_extract_likelihood ops w c l =
    Some (slot 0 (concat (map (symbol_llr ops (ft8_llr ops) 3 kFT8_Gray_map w c) ft8_data)) l)"
proof -
  let ?at = "\<lambda>k. k + (if k < 29 then 7 else 14) :: nat" and ?llr = "symbol_llr ops (ft8_llr ops) 3 kFT8_Gray_map w c"
  have "ft8_extract_likelihood ops w c l = Some (slot 0 (concat (map (\<lambda>k. ?llr (?at k)) [0..<58])) l)"
    unfolding ft8_extract_likelihood_def
  proof (rule fill_slots [where nb = 3 and L = "length l"])
    fix k :: nat and l' :: "'a list" assume k: "k < 58" "length l' = length l"
    then have room: "3 * k + 3 \<le> length l'" using assms(3) by linarith
    show "(let sym_idx = ?at k; bit_idx = 3 * k; block = time_offset c + int sym_idx
       in if block < 0 \<or> block \<ge> num_blocks w
          then Some (l'[bit_idx := f_lit ops 0 1, bit_idx + 1 := f_lit ops 0 1, bit_idx + 2 := f_lit ops 0 1])
          else ft8_extract_symbol ops w (get_cand_mag w c + int sym_idx * block_stride w) bit_idx l')
      = Some (slot (3 * k) (?llr (?at k)) l')"
    proof (cases "time_offset c + int (?at k) < 0 \<or> num_blocks w \<le> time_offset c + int (?at k)")
      case True
      then have "?llr (?at k) = replicate 3 (f_lit ops 0 1)" by (intro out_of_time) linarith
      then show ?thesis unfolding Let_def if_P [OF True] slot_updates(2) [OF room] by (simp add: numeral_3_eq_3)
    next
      case False
      then have "0 \<le> time_offset c + int (?at k)" "time_offset c + int (?at k) < num_blocks w" by linarith+
      then show ?thesis
        unfolding Let_def if_not_P [OF False] by (rule extract_symbol_eq(1) [OF assms(1) _ _ assms(2) room])
    qed
  qed (use assms(3) in \<open>auto simp: symbol_llr_length\<close>)
  then show ?thesis by (simp only: ft8_data_def map_map o_def)
qed

lemma ft4_likelihood:
  assumes "waterfall_ok w" "candidate_ok 4 w c" "174 \<le> length l"
  shows "ft4_extract_likelihood ops w c l =
    Some (slot 0 (concat (map (symbol_llr ops (ft4_llr ops) 2 kFT4_Gray_map w c) ft4_data)) l)"
proof -
  let ?at = "\<lambda>k. k + (if k < 29 then 5 else if k < 58 then 9 else 13) :: nat" and ?llr = "symbol_llr ops (ft4_llr ops) 2 kFT4_Gray_map w c"
  have "ft4_extract_likelihood ops w c l = Some (slot 0 (concat (map (\<lambda>k. ?llr (?at k)) [0..<87])) l)"
    unfolding ft4_extract_likelihood_def
  proof (rule fill_slots [where nb = 2 and L = "length l"])
    fix k :: nat and l' :: "'a list" assume k: "k < 87" "length l' = length l"
    then have room: "2 * k + 2 \<le> length l'" using assms(3) by linarith
    show "(let sym_idx = ?at k; bit_idx = 2 * k; block = time_offset c + int sym_idx
       in if block < 0 \<or> block \<ge> num_blocks w
          then Some (l'[bit_idx := f_lit ops 0 1, bit_idx + 1 := f_lit ops 0 1])
          else ft4_extract_symbol ops w (get_cand_mag w c + int sym_idx * block_stride w) bit_idx l')
      = Some (slot (2 * k) (?llr (?at k)) l')"
    proof (cases "time_offset c + int (?at k) < 0 \<or> num_blocks w \<le> time_offset c + int (?at k)")
      case True
      then have "?llr (?at k) = replicate 2 (f_lit ops 0 1)" by (intro out_of_time) linarith
      then show ?thesis unfolding Let_def if_P [OF True] slot_updates(1) [OF room] by (simp add: numeral_2_eq_2)
    next
      case False
      then have "0 \<le> time_offset c + int (?at k)" "time_offset c + int (?at k) < num_blocks w" by linarith+
      then show ?thesis
        unfolding Let_def if_not_P [OF False] by (rule extract_symbol_eq(2) [OF assms(1) _ _ assms(2) room])
    qed
  qed (use assms(3) in \<open>auto simp: symbol_llr_length\<close>)
  then show ?thesis by (simp only: ft4_data_def map_map o_def)
qed

lemma fst4_likelihood:
  assumes "waterfall_ok w" "candidate_ok 4 w c" "240 \<le> length l"
  shows "fst4_extract_likelihood ops w c l =
    Some (slot 0 (concat (map (symbol_llr ops (ft4_llr ops) 2 kFT4_Gray_map w c) fst4_data)) l)"
proof -
  let ?llr = "symbol_llr ops (ft4_llr ops) 2 kFT4_Gray_map w c"
  let ?body = "\<lambda>d k (bit_idx, log240).
       let sym_idx = data_start ! d + k; block = time_offset c + int sym_idx
       in if block < 0 \<or> block \<ge> num_blocks w
          then Some (bit_idx + 2, log240[bit_idx := f_lit ops 0 1, bit_idx + 1 := f_lit ops 0 1])
          else do {
            log240 \<leftarrow> ft4_extract_symbol ops w (get_cand_mag w c + int sym_idx * block_stride w) bit_idx log240;
            Some (bit_idx + 2, log240)
          }"
  let ?row = "\<lambda>d. concat (map (\<lambda>k. ?llr (data_start ! d + k)) [0..<30])"
  have one: "?body d k (at, l') = Some (at + 2, slot at (?llr (data_start ! d + k)) l')" if room: "at + 2 \<le> length l'" for d k at l'
  proof (cases "time_offset c + int (data_start ! d + k) < 0 \<or> num_blocks w \<le> time_offset c + int (data_start ! d + k)")
    case True
    then have "?llr (data_start ! d + k) = replicate 2 (f_lit ops 0 1)" by (intro out_of_time) linarith
    then show ?thesis unfolding Let_def prod.case if_P [OF True] slot_updates(1) [OF room] by (simp add: numeral_2_eq_2)
  next
    case False
    then have "0 \<le> time_offset c + int (data_start ! d + k)" "time_offset c + int (data_start ! d + k) < num_blocks w" by linarith+
    note extract_symbol_eq(2) [OF assms(1) this assms(2) room]
    then show ?thesis unfolding Let_def prod.case if_not_P [OF False] by simp
  qed
  have row: "for_each (?body d) [0..<30] (at, l') = Some (at + 60, slot at (?row d) l')" if "at + 60 \<le> length l'" for d at l'
    using fill_slots_at [of "[0..<30]" 2 "?body d" "\<lambda>k. ?llr (data_start ! d + k)" at l'] one that by (simp add: symbol_llr_length)
  have len: "length (?row d) = 60" for d
    by (simp add: length_concat o_def symbol_llr_length sum_list_triv)
  have "for_each (\<lambda>d. for_each (?body d) [0..<30]) [0..<4] (0, l) = Some (0 + 60 * length [0..<4], slot 0 (concat (map ?row [0..<4])) l)"
    by (rule fill_slots_at) (use row len assms(3) in auto)
  then show ?thesis
    by (simp only: fst4_extract_likelihood_def fst4_data_def concat_map_nested map_map o_def option.map snd_conv)
qed

section \<open>Subtraction stays inside the array\<close>

definition same_frame :: "waterfall \<Rightarrow> waterfall \<Rightarrow> bool" where
  "same_frame w w' \<longleftrightarrow> (\<exists>m. w' = w\<lparr>mag := m\<rparr> \<and> length m = length (mag w))"

lemma same_frame_simps:
  assumes "same_frame w w'"
  shows "waterfall_ok w' = waterfall_ok w" "candidate_ok n w' = candidate_ok n w" "get_cand_mag w' = get_cand_mag w"
    "in_array w' = in_array w" "num_blocks w' = num_blocks w" "block_stride w' = block_stride w" "freq_osr w' = freq_osr w"
  using assms by (auto simp: same_frame_def waterfall_ok_def candidate_ok_def get_cand_mag_def in_array_def fun_eq_iff)

lemma same_frame_refl: "same_frame w w"
  unfolding same_frame_def by (intro exI [of _ "mag w"]) simp

lemma SUB_total: "same_frame w w' \<Longrightarrow> in_array w i \<Longrightarrow> \<exists>w''. SUB_WF_ELEM_MAG ops i y w' = Some w'' \<and> same_frame w w''"
  by (auto simp: same_frame_def SUB_WF_ELEM_MAG_def elem_def in_array_def)

lemma noise_floor_total:
  assumes "\<And>s. s < n \<Longrightarrow> in_array w (p + int s)"
  shows "\<exists>x. noise_floor ops w n p tone = Some x"
proof -
  have "\<exists>x. noise_floor ops w n p tone = Some x \<and> True"
    unfolding noise_floor_def
  proof (rule for_each_total)
    fix s :: nat and a assume "s \<in> set [0..<n]" "True"
    then obtain x where "WF_ELEM_MAG ops w (p + int s) = Some x" using assms read_float [of w "p + int s" ops] by auto
    then show "\<exists>a'. (if s = tone then Some a else do { x \<leftarrow> WF_ELEM_MAG ops w (p + int s); Some (if f_gt ops a x then x else a) }) = Some a' \<and> True"
      by simp
  qed simp
  then show ?thesis by simp
qed

lemma substract_at_total:
  assumes "waterfall_ok w" "candidate_ok nt w c" "\<And>i. i < n \<Longrightarrow> tones ! i < nt" "int fs < freq_osr w" "same_frame w w'"
  shows "\<exists>a. substract_at ops nt c tones n fs (snr, w') = Some a \<and> same_frame w (snd a)"
proof -
  let ?c = "c\<lparr>freq_sub := int fs\<rparr>"
  let ?p = "get_cand_mag w ?c"
  note frame = same_frame_simps [OF assms(5)]
  have c: "candidate_ok nt w ?c" using assms(2,4) by (simp add: candidate_ok_def)
  have at: "in_array w (?p + int i * block_stride w + int s)"
    if "s < nt" "0 \<le> time_offset c + int i" "time_offset c + int i < num_blocks w" for i s
    using near_bins(1) [OF assms(1) c, of "int s" "int i" "?p + int i * block_stride w"] that by simp
  have "\<exists>a. in_time w' (time_offset c) int (measure_symbol ops w' nt ?p tones) [0..<n] (f_lit ops 0 1, f_lit ops 0 1, 0) = Some a \<and> True"
  proof (rule in_time_total)
    fix i :: nat and acc :: "'a \<times> 'a \<times> int"
    assume i: "i \<in> set [0..<n]" "0 \<le> time_offset c + int i" "time_offset c + int i < num_blocks w'"
    obtain x where "noise_floor ops w' nt (?p + int i * block_stride w') (tones ! i) = Some x"
      using noise_floor_total [of nt w' "?p + int i * block_stride w'" ops "tones ! i"] at i frame by auto
    moreover obtain y where "WF_ELEM_MAG ops w' (?p + int i * block_stride w' + int (tones ! i)) = Some y"
      using read_float [of w' "?p + int i * block_stride w' + int (tones ! i)" ops] at [of "tones ! i" i] assms(3) i frame by auto
    ultimately show "\<exists>a'. measure_symbol ops w' nt ?p tones i acc = Some a' \<and> True"
      by (cases acc) (simp add: measure_symbol_def)
  qed simp
  then obtain noise signal k where m: "in_time w' (time_offset c) int (measure_symbol ops w' nt ?p tones) [0..<n]
      (f_lit ops 0 1, f_lit ops 0 1, 0) = Some (noise, signal, k)" by auto
  let ?snr = "f_sub ops (f_div ops signal (f_lit ops k 1)) (f_div ops noise (f_lit ops k 1))"
  have "\<exists>v. in_time w' (time_offset c) int
     (\<lambda>i v. SUB_WF_ELEM_MAG ops (?p + int i * block_stride v + int (tones ! i)) ?snr v) [0..<n] w' = Some v \<and> same_frame w v"
  proof (rule in_time_total [where P = "same_frame w"])
    fix i v assume v: "i \<in> set [0..<n]" "same_frame w v" "0 \<le> time_offset c + int i" "time_offset c + int i < num_blocks w'"
    then show "\<exists>a'. SUB_WF_ELEM_MAG ops (?p + int i * block_stride v + int (tones ! i)) ?snr v = Some a' \<and> same_frame w a'"
      using at [of "tones ! i" i] assms(3) frame same_frame_simps [OF v(2)] by (intro SUB_total) auto
  qed (rule assms(5))
  then show ?thesis using m frame by (auto simp: substract_at_def Let_def)
qed

lemma substract_total:
  assumes "waterfall_ok w" "candidate_ok nt w c" "\<And>i. i < n \<Longrightarrow> tones ! i < nt"
  shows "\<exists>snr w'. ftx_substract ops nt w c tones n = Some (snr, w') \<and> same_frame w w'"
proof -
  have "\<exists>a. for_each (substract_at ops nt c tones n) [0..<nat (freq_osr w)] (f_lit ops 0 1, w) = Some a \<and> same_frame w (snd a)"
  proof (rule for_each_total)
    fix fs :: nat and a :: "'a \<times> waterfall"
    assume "fs \<in> set [0..<nat (freq_osr w)]" "same_frame w (snd a)"
    then show "\<exists>a'. substract_at ops nt c tones n fs a = Some a' \<and> same_frame w (snd a')"
      using substract_at_total [OF assms, where fs = fs and w' = "snd a" and snr = "fst a"] by auto
  qed (simp add: same_frame_refl)
  then show ?thesis by (auto simp: ftx_substract_def)
qed

end
