(* ===== verification/FtxOsd.thy ===== *)
theory FtxOsd
  imports FtxWaterfall "HOL-Library.Multiset"
begin

text \<open>
  The ordered statistics decoder of \<open>ft8_lib/ft8/osd.c\<close>. Arrays of bits are lists of truth values, and a
  matrix is the list of its rows. \<open>qsort\<close> is the library's \<open>qsort_r\<close>, of which only is used that it permutes
  the array; the order of elements that compare as equal is not fixed.
\<close>

unbundle bit_operations_syntax

section \<open>Gauss-Jordan elimination\<close>

text \<open>Bring a row with a one in column \<open>row\<close> into place, exchanging the entries of \<open>which\<close> too.\<close>

definition gj_pivot :: "nat \<Rightarrow> bool list list \<times> nat list \<Rightarrow> bool list list \<times> nat list" where
  "gj_pivot row = (\<lambda>(m, which).
     if m ! row ! row then (m, which)
     else case find (\<lambda>row1. m ! row1 ! row) [row + 1..<174] of
         None \<Rightarrow> (m, which)
       | Some row1 \<Rightarrow> (m[row := m ! row1, row1 := m ! row], which[row := which ! row1, row1 := which ! row]))"

definition gj_eliminate :: "nat \<Rightarrow> nat \<Rightarrow> bool list list \<Rightarrow> bool list list" where
  "gj_eliminate row row1 m =
     (if row1 = row \<or> \<not> m ! row1 ! row then m
      else m[row1 := map (\<lambda>col. m ! row1 ! col \<noteq> m ! row ! col) [0..<2 * 91]])"

definition gj_row :: "nat \<Rightarrow> bool list list \<times> nat list \<Rightarrow> (bool list list \<times> nat list) option" where
  "gj_row row s =
     (let (m, which) = gj_pivot row s
      in if \<not> m ! row ! row then None
         else (let m = m[row := (m ! row)[91 + row := \<not> m ! row ! (91 + row)]]
               in Some (fold (gj_eliminate row) [0..<174] m, which)))"

definition gauss_jordan :: "bool list list \<Rightarrow> nat list \<Rightarrow> (bool list list \<times> nat list) option" where
  "gauss_jordan m which = for_each gj_row [0..<91] (m, which)"

section \<open>Scoring\<close>

definition osd_score :: "'f float_ops \<Rightarrow> bool list \<Rightarrow> bool list \<Rightarrow> (nat \<Rightarrow> 'f) \<Rightarrow> 'f" where
  "osd_score ops xcode xplain ll174 =
     (let xcode = ldpc_encode xplain xcode
      in fold (\<lambda>i score. if xcode ! i then f_sub ops score (ll174 i) else f_add ops score (ll174 i)) [0..<174] (f_lit ops 0 1))"

definition osd_check :: "bool list \<Rightarrow> bool" where
  "osd_check plain = (if list_ex (\<lambda>i. plain ! i) [0..<91] then ftx_check_crc plain else False)"

definition matmul :: "bool list list \<Rightarrow> bool list \<Rightarrow> bool list" where
  "matmul a b = map (\<lambda>i. fold (\<lambda>j sum. sum \<noteq> (a ! i ! j \<and> b ! j)) [0..<91] False) [0..<91]"

definition osd_cmp :: "'f float_ops \<Rightarrow> (nat \<Rightarrow> 'f) \<Rightarrow> nat \<Rightarrow> nat \<Rightarrow> int" where
  "osd_cmp ops codeword aa bb =
     (let fabs_a = f_abs ops (codeword aa); fabs_b = f_abs ops (codeword bb)
      in if f_gt ops fabs_a fabs_b then - 1 else if f_gt ops fabs_b fabs_a then 1 else 0)"

definition gen_row :: "nat \<Rightarrow> bool list" where
  "gen_row ii = (if ii < 91 then map (\<lambda>j. j = ii) [0..<91] else map (\<lambda>j. gen_sys ! (ii - 91) ! j) [0..<91]) @ replicate 91 False"

section \<open>The decoder\<close>

record 'f osd_best =
  got_a_best :: bool
  best_plain :: "bool list"
  best_score :: 'f
  best_depth :: int

definition osd_flip :: "'f float_ops \<Rightarrow> bool list \<Rightarrow> (nat \<Rightarrow> 'f) \<Rightarrow> bool list list \<Rightarrow> bool list \<Rightarrow> nat \<Rightarrow> 'f osd_best \<Rightarrow> 'f osd_best" where
  "osd_flip ops xcode codeword gen1_inv y1 ii best =
     (let i = 91 - 1 - ii;
          xplain = matmul gen1_inv (y1[i := \<not> y1 ! i]);
          xscore = osd_score ops xcode xplain codeword;
          ch = osd_check xplain
      in if f_gt ops (f_lit ops (- 100) 1) xscore \<and> ch \<and> (\<not> got_a_best best \<or> f_gt ops (best_score best) xscore)
         then \<lparr>got_a_best = True, best_plain = xplain, best_score = xscore, best_depth = int ii\<rparr>
         else best)"

text \<open>
  The result is \<open>out\<close>, \<open>*out_depth\<close> and the return value; \<open>junk\<close> and \<open>xcode\<close> are the uninitialised \<open>best_plain\<close>
  and the array of \<open>osd_score\<close>. At most 91 bits can be flipped (the only call asks for 6): a greater \<open>depth\<close>
  would index in front of \<open>y1\<close>.
\<close>

definition osd_decode :: "'f float_ops \<Rightarrow> ((nat \<Rightarrow> nat \<Rightarrow> int) \<Rightarrow> nat list \<Rightarrow> nat list) \<Rightarrow> bool list \<Rightarrow> bool list \<Rightarrow>
    (nat \<Rightarrow> 'f) \<Rightarrow> nat \<Rightarrow> bool list \<Rightarrow> int \<Rightarrow> bool list \<times> int \<times> bool" where
  "osd_decode ops qsort junk xcode codeword depth out out_depth =
     (let which = qsort (osd_cmp ops codeword) [0..<174];
          b = map gen_row which
      in case gauss_jordan b which of
          None \<Rightarrow> (out, out_depth, False)
        | Some (b, which) \<Rightarrow>
            let gen1_inv = map (\<lambda>i. map (\<lambda>j. b ! i ! (91 + j)) [0..<91]) [0..<91];
                y1 = map (\<lambda>i. f_gt ops (codeword (which ! i)) (f_lit ops 0 1)) [0..<91];
                xplain = matmul gen1_inv y1;
                xscore = osd_score ops xcode xplain codeword;
                ch = osd_check xplain
            in if f_gt ops (f_lit ops (- 100) 1) xscore \<and> ch
               then (xplain @ drop 91 out, 0, True)
               else let best = fold (osd_flip ops xcode codeword gen1_inv y1) [0..<depth]
                          \<lparr>got_a_best = False, best_plain = junk, best_score = f_lit ops 0 1, best_depth = - 1\<rparr>
                    in if got_a_best best then (best_plain best @ drop 91 out, best_depth best, True)
                       else (out, out_depth, False))"

section \<open>Elimination inverts the selected rows\<close>

text \<open>The bit at position \<open>n\<close> of the codeword of \<open>x\<close>.\<close>

definition code_bit :: "bool list \<Rightarrow> nat \<Rightarrow> bool" where
  "code_bit x n = ldpc_encode x (replicate 174 False) ! n"

definition dot :: "bool list \<Rightarrow> bool list \<Rightarrow> bool" where
  "dot r x = parity (map (\<lambda>j. r ! j \<and> x ! j) [0..<91])"

definition right_sum :: "bool list \<Rightarrow> (nat \<Rightarrow> bool) \<Rightarrow> bool" where
  "right_sum r y = parity (map (\<lambda>j. r ! (91 + j) \<and> y j) [0..<91])"

lemma code_bit_row:
  assumes "length x = 91" "n < 174"
  shows "code_bit x n = dot (gen_row n) x"
proof (cases "n < 91")
  case True
  have *: "map (\<lambda>j. gen_row n ! j \<and> x ! j) [0..<91] = map (\<lambda>j. j = n \<and> x ! j) [0..<91]"
    using True by (intro map_cong) (auto simp: gen_row_def nth_append)
  have "dot (gen_row n) x = x ! n"
    unfolding dot_def * using True parity_single [of "[0..<91]" n "(!) x"] by simp
  then show ?thesis using True assms by (simp add: code_bit_def ldpc_encode_eq nth_append)
next
  case False
  then have n: "n - 91 < 83" using assms by simp
  have *: "map (\<lambda>j. gen_row n ! j \<and> x ! j) [0..<91] = map (\<lambda>j. GET_BIT (ftx_gen ! (n - 91)) j \<and> x ! j) [0..<91]"
    using False n by (intro map_cong) (auto simp: gen_row_def nth_append gen_sys_nth)
  show ?thesis unfolding dot_def * using False n assms by (simp add: code_bit_def ldpc_encode_eq nth_append)
qed

text \<open>
  After \<open>r\<close> rounds: the columns before \<open>r\<close> are those of the identity, the right half has used only the
  columns before \<open>r\<close>, and each row of the left half is the combination of codeword positions that the right
  half records (plus its own position, as long as the row waits for its turn).
\<close>

definition gj_inv :: "nat \<Rightarrow> bool list list \<Rightarrow> nat list \<Rightarrow> bool" where
  "gj_inv r m which \<longleftrightarrow> length m = 174 \<and> (\<forall>i < 174. length (m ! i) = 182) \<and> distinct which \<and> set which = {0..<174} \<and>
     (\<forall>i < 174. \<forall>j. r \<le> j \<and> j < 91 \<longrightarrow> \<not> m ! i ! (91 + j)) \<and>
     (\<forall>i < 174. \<forall>c < r. m ! i ! c = (i = c)) \<and>
     (\<forall>i < 174. \<forall>x. length x = 91 \<longrightarrow>
        dot (m ! i) x = ((r \<le> i \<and> code_bit x (which ! i)) \<noteq> right_sum (m ! i) (\<lambda>j. code_bit x (which ! j))))"

lemma gj_inv_start:
  assumes "distinct which" "set which = {0..<174}"
  shows "gj_inv 0 (map gen_row which) which"
proof -
  have len: "length which = 174" using assms distinct_card [of which] by simp
  have at: "which ! i < 174" if "i < 174" for i using assms(2) len that nth_mem [of i which] by auto
  have zero: "gen_row n ! (91 + j) = False" if "j < 91" for n j using that by (simp add: gen_row_def nth_append)
  have *: "map (\<lambda>j. gen_row n ! (91 + j) \<and> y j) [0..<91] = map (\<lambda>_. False) [0..<91]" for n y
    using zero by (intro map_cong) auto
  have "right_sum (gen_row n) y = False" for n y
    unfolding right_sum_def * by (rule parity_map_False)
  moreover have "length (gen_row n) = 182" for n by (simp add: gen_row_def)
  ultimately show ?thesis
    using assms len zero at code_bit_row by (auto simp: gj_inv_def)
qed

lemma right_sum_cong: "(\<And>j. j < 91 \<Longrightarrow> r ! (91 + j) \<Longrightarrow> y j = y' j) \<Longrightarrow> right_sum r y = right_sum r y'"
  unfolding right_sum_def by (intro arg_cong [where f = parity] map_cong refl) auto

lemma gj_inv_swap:
  assumes inv: "gj_inv r m which" and rows: "r \<le> a" "a < 174" "r \<le> b" "b < 174" and r: "r < 91"
  shows "gj_inv r (m[a := m ! b, b := m ! a]) (which[a := which ! b, b := which ! a])"
proof -
  let ?m = "m[a := m ! b, b := m ! a]" and ?w = "which[a := which ! b, b := which ! a]"
  define p where "p i = (if i = b then a else if i = a then b else i)" for i
  note inv = inv [unfolded gj_inv_def]
  have len: "length m = 174" "length which = 174" using inv distinct_card [of which] by auto
  have at: "?m ! i = m ! p i" "?w ! i = which ! p i" "p i < 174" "r \<le> p i \<longleftrightarrow> r \<le> i" if "i < 174" for i
    using that rows len by (auto simp: p_def nth_list_update)
  have low: "?w ! j = which ! j" if "j < r" for j using that rows by simp
  have "dot (?m ! i) x = ((r \<le> i \<and> code_bit x (?w ! i)) \<noteq> right_sum (?m ! i) (\<lambda>j. code_bit x (?w ! j)))"
    if "i < 174" "length x = 91" for i x
  proof -
    have "right_sum (m ! p i) (\<lambda>j. code_bit x (?w ! j)) = right_sum (m ! p i) (\<lambda>j. code_bit x (which ! j))"
    proof (rule right_sum_cong)
      fix j :: nat assume "j < 91" "m ! p i ! (91 + j)"
      then have "j < r" using inv at(3) [OF that(1)] by (meson not_le)
      then show "code_bit x (?w ! j) = code_bit x (which ! j)" by (simp only: low)
    qed
    then show ?thesis using inv at [OF that(1)] that(2) by simp
  qed
  moreover have "\<forall>i < 174. \<forall>c < r. ?m ! i ! c = (i = c)"
    using at inv rows by (auto simp: p_def)
  moreover have "distinct ?w" "set ?w = {0..<174}"
    using inv len rows by auto
  ultimately show ?thesis
    unfolding gj_inv_def using at inv len by simp
qed

lemma gj_inv_pivot:
  assumes "gj_inv r m which" "r < 91" "gj_pivot r (m, which) = (m', which')"
  shows "gj_inv r m' which'"
proof (cases "m ! r ! r \<or> find (\<lambda>row1. m ! row1 ! r) [r + 1..<174] = None")
  case True
  then show ?thesis using assms by (cases "m ! r ! r") (auto simp: gj_pivot_def)
next
  case False
  then obtain b where b: "find (\<lambda>row1. m ! row1 ! r) [r + 1..<174] = Some b" by auto
  then have "b \<in> set [r + 1..<174]" unfolding find_Some_iff by (metis nth_mem)
  then show ?thesis
    using gj_inv_swap [OF assms(1), of r b] assms False b by (auto simp: gj_pivot_def)
qed

text \<open>Adding row \<open>a\<close> to row \<open>b\<close>.\<close>

definition add_rows :: "bool list \<Rightarrow> bool list \<Rightarrow> bool list" where
  "add_rows s t = map (\<lambda>col. s ! col \<noteq> t ! col) [0..<2 * 91]"

lemma add_rows_nth: "c < 182 \<Longrightarrow> add_rows s t ! c = (s ! c \<noteq> t ! c)"
  by (simp add: add_rows_def)

lemma dot_add: "dot (add_rows s t) x = (dot s x \<noteq> dot t x)"
proof -
  have "map (\<lambda>j. add_rows s t ! j \<and> x ! j) [0..<91] = map (\<lambda>j. (s ! j \<and> x ! j) \<noteq> (t ! j \<and> x ! j)) [0..<91]"
    by (rule map_cong [OF refl]) (auto simp: add_rows_nth)
  then show ?thesis unfolding dot_def parity_map_xor [symmetric] by (rule arg_cong)
qed

lemma right_sum_add: "right_sum (add_rows s t) y = (right_sum s y \<noteq> right_sum t y)"
proof -
  have "map (\<lambda>j. add_rows s t ! (91 + j) \<and> y j) [0..<91] = map (\<lambda>j. (s ! (91 + j) \<and> y j) \<noteq> (t ! (91 + j) \<and> y j)) [0..<91]"
    by (rule map_cong [OF refl]) (auto simp: add_rows_nth)
  then show ?thesis unfolding right_sum_def parity_map_xor [symmetric] by (rule arg_cong)
qed

text \<open>All rows but the pivot row are cleared in one pass.\<close>

lemma eliminate_all:
  assumes "length m = 174" "r < 174" "n \<le> 174"
  shows "fold (gj_eliminate r) [0..<n] m =
    map (\<lambda>i. if i < n \<and> i \<noteq> r \<and> m ! i ! r then add_rows (m ! i) (m ! r) else m ! i) [0..<174]"
  using assms(3)
proof (induction n)
  case 0
  then show ?case using map_nth [of m] assms(1) by simp
next
  case (Suc n)
  let ?f = "\<lambda>n. map (\<lambda>i. if i < n \<and> i \<noteq> r \<and> m ! i ! r then add_rows (m ! i) (m ! r) else m ! i) [0..<174]"
  have "gj_eliminate r n (?f n) = ?f (Suc n)"
    using Suc.prems assms(2)
    by (intro nth_equalityI) (auto simp: gj_eliminate_def nth_list_update less_Suc_eq add_rows_def)
  then show ?case using Suc by simp
qed

lemma gj_inv_row:
  assumes inv: "gj_inv r m which" and r: "r < 91" and step: "gj_row r (m, which) = Some (m', which')"
  shows "gj_inv (Suc r) m' which'"
proof -
  obtain m1 where piv: "gj_pivot r (m, which) = (m1, which')" "m1 ! r ! r"
    and m': "m' = fold (gj_eliminate r) [0..<174] (m1[r := (m1 ! r)[91 + r := \<not> m1 ! r ! (91 + r)]])"
    using step by (auto simp: gj_row_def Let_def split: prod.splits if_splits)
  note inv = gj_inv_pivot [OF inv r piv(1), unfolded gj_inv_def]
  let ?row = "(m1 ! r)[91 + r := True]"
  have len: "length m1 = 174" "length ?row = 182" "\<And>i. i < 174 \<Longrightarrow> length (m1 ! i) = 182" using inv r by auto
  have off: "\<not> m1 ! r ! (91 + r)" using inv r by auto
  define m2 where "m2 = m1[r := ?row]"
  have m2: "length m2 = 174" "m2 ! r = ?row" "\<And>i. i \<noteq> r \<Longrightarrow> m2 ! i = m1 ! i" using len r by (simp_all add: m2_def)
  have m': "m' ! i = (if i \<noteq> r \<and> m1 ! i ! r then add_rows (m1 ! i) ?row else if i = r then ?row else m1 ! i)" "length m' = 174" if "i < 174" for i
    using m' eliminate_all [OF m2(1), of r 174] m2 r that off by (auto simp: m2_def [symmetric])
  have row_left: "?row ! c = m1 ! r ! c" if "c < 91" for c using that by simp
  have row_dot: "dot ?row x = right_sum ?row (\<lambda>j. code_bit x (which' ! j))" if "length x = 91" for x
  proof -
    let ?y = "\<lambda>j. code_bit x (which' ! j)"
    have "map (\<lambda>j. ?row ! (91 + j) \<and> ?y j) [0..<91] = map (\<lambda>j. (m1 ! r ! (91 + j) \<and> ?y j) \<noteq> (j = r \<and> ?y j)) [0..<91]"
      using off len(3) [of r] r by (intro map_cong refl) (auto simp: nth_list_update)
    then have "right_sum ?row ?y = (right_sum (m1 ! r) ?y \<noteq> ?y r)"
      unfolding right_sum_def using parity_single [of "[0..<91]" r ?y] r by (simp only: parity_map_xor) simp
    moreover have "dot ?row x = dot (m1 ! r) x" unfolding dot_def by (intro arg_cong [where f = parity] map_cong refl) auto
    moreover have "dot (m1 ! r) x = (?y r \<noteq> right_sum (m1 ! r) ?y)" using inv r that by auto
    ultimately show ?thesis by auto
  qed
  have other_dot: "dot (m1 ! i) x = ((Suc r \<le> i \<and> code_bit x (which' ! i)) \<noteq> right_sum (m1 ! i) (\<lambda>j. code_bit x (which' ! j)))"
    if "i < 174" "i \<noteq> r" "length x = 91" for i x
  proof -
    have "r \<le> i \<longleftrightarrow> Suc r \<le> i" using that(2) by auto
    then show ?thesis using inv that by simp
  qed
  have "dot (m' ! i) x = ((Suc r \<le> i \<and> code_bit x (which' ! i)) \<noteq> right_sum (m' ! i) (\<lambda>j. code_bit x (which' ! j)))"
    if "i < 174" "length x = 91" for i x
    using m'(1) [OF that(1)] row_dot [OF that(2)] other_dot [OF that(1) _ that(2)]
    by (cases "i = r"; cases "m1 ! i ! r") (auto simp: dot_add right_sum_add)
  moreover have "\<forall>i < 174. \<forall>c < Suc r. m' ! i ! c = (i = c)"
  proof (intro allI impI)
    fix i c assume ic: "i < (174 :: nat)" "c < Suc r"
    have low: "m1 ! k ! c = (k = c)" if "k < 174" "c < r" for k using inv that by auto
    show "m' ! i ! c = (i = c)"
    proof (cases "c = r")
      case True
      then show ?thesis using m'(1) [OF ic(1)] piv(2) r by (auto simp: add_rows_nth)
    next
      case False
      then have "c < r" "r < 174" using ic(2) r by auto
      then show ?thesis using m'(1) [OF ic(1)] low [OF ic(1)] low [of r] r by (auto simp: add_rows_nth)
    qed
  qed
  moreover have "\<forall>i < 174. \<forall>j. Suc r \<le> j \<and> j < 91 \<longrightarrow> \<not> m' ! i ! (91 + j)"
  proof (intro allI impI)
    fix i j assume ij: "i < (174 :: nat)" "Suc r \<le> j \<and> j < 91"
    have "\<not> m1 ! k ! (91 + j)" if "k < 174" for k using inv that ij(2) by auto
    from this [OF ij(1)] this [of r] show "\<not> m' ! i ! (91 + j)"
      using m'(1) [OF ij(1)] ij(2) r by (auto simp: add_rows_nth)
  qed
  moreover have "length (m' ! i) = 182" if "i < 174" for i
    using m'(1) [OF that] len(3) [OF that] len(2) by (auto simp: add_rows_def)
  ultimately show ?thesis
    unfolding gj_inv_def using m'(2) [of 0] inv by simp
qed

lemma gauss_jordan_inv:
  assumes "distinct which" "set which = {0..<174}" "gauss_jordan (map gen_row which) which = Some (b, which')"
  shows "gj_inv 91 b which'"
proof -
  have app: "for_each gj_row (xs @ ys) a = for_each gj_row xs a \<bind> for_each gj_row ys" for xs ys a
    by (induction xs arbitrary: a) (auto simp: bind_assoc)
  have "for_each gj_row [0..<r] (map gen_row which, which) = Some (m, w) \<Longrightarrow> gj_inv r m w" if "r \<le> 91" for r m w
    using that
  proof (induction r arbitrary: m w)
    case (Suc r)
    then obtain m0 w0 where "for_each gj_row [0..<r] (map gen_row which, which) = Some (m0, w0)" "gj_row r (m0, w0) = Some (m, w)"
      by (auto simp: app split: bind_splits)
    then show ?case using Suc gj_inv_row [of r m0 w0 m w] by simp
  qed (use gj_inv_start [OF assms(1,2)] in simp)
  from this [of 91] assms(3) show ?thesis by (simp add: gauss_jordan_def)
qed

lemma fold_dot: "fold (\<lambda>j sum. sum \<noteq> (f j \<and> g j)) js a = (a \<noteq> parity (map (\<lambda>j. f j \<and> g j) js))"
  by (induction js arbitrary: a) auto

lemma matmul_nth: "i < 91 \<Longrightarrow> matmul a b ! i = parity (map (\<lambda>j. a ! i ! j \<and> b ! j) [0..<91])"
  unfolding matmul_def fold_dot by simp

text \<open>
  The right half inverts the map from a word to its code bits in the first 91 positions of \<open>which\<close>; as that
  map is on a finite set, it is a bijection, and the product with any bits is the word with these code bits.
\<close>

lemma gauss_jordan_solves:
  assumes perm: "distinct which" "set which = {0..<174}" and gj: "gauss_jordan (map gen_row which) which = Some (b, which')"
    and ginv_def: "ginv = map (\<lambda>i. map (\<lambda>j. b ! i ! (91 + j)) [0..<91]) [0..<91]" and y: "length y = 91"
  shows "length (matmul ginv y) = 91" "j < 91 \<Longrightarrow> code_bit (matmul ginv y) (which' ! j) = y ! j"
    "distinct which'" "set which' = {0..<174}"
proof -
  note gjinv = gauss_jordan_inv [OF perm gj, unfolded gj_inv_def]
  show "distinct which'" "set which' = {0..<174}" using gjinv by auto
  define f where "f x = map (\<lambda>j. code_bit x (which' ! j)) [0..<91]" for x
  let ?A = "{x :: bool list. length x = 91}"
  have len: "length (matmul ginv z) = 91" for z by (simp add: matmul_def)
  have left: "matmul ginv (f x) = x" if "length x = 91" for x
  proof (rule nth_equalityI)
    fix i assume "i < length (matmul ginv (f x))"
    then have i: "i < 91" by (simp add: len)
    have "matmul ginv (f x) ! i = right_sum (b ! i) (\<lambda>j. code_bit x (which' ! j))"
      unfolding matmul_nth [OF i] right_sum_def using i
      by (intro arg_cong [where f = parity] map_cong refl) (simp add: ginv_def f_def)
    also have "\<dots> = dot (b ! i) x" using gjinv i that by auto
    also have "\<dots> = parity (map (\<lambda>j. j = i \<and> x ! j) [0..<91])"
      unfolding dot_def using gjinv i by (intro arg_cong [where f = parity] map_cong refl) auto
    also have "\<dots> = x ! i" using parity_single [of "[0..<91]" i "(!) x"] i by simp
    finally show "matmul ginv (f x) ! i = x ! i" .
  qed (use that len in simp)
  have "finite ?A" using finite_lists_length_eq [of "UNIV :: bool set" 91] by simp
  moreover have "f ` ?A \<subseteq> ?A" by (auto simp: f_def)
  moreover have "inj_on f ?A" by (rule inj_on_inverseI [of _ "matmul ginv"]) (simp add: left)
  ultimately have "f ` ?A = ?A" by (rule endo_inj_surj)
  then obtain x where x: "length x = 91" "y = f x" using y by blast
  show "length (matmul ginv y) = 91" by (rule len)
  show "j < 91 \<Longrightarrow> code_bit (matmul ginv y) (which' ! j) = y ! j"
    using left [OF x(1)] x(2) by (simp add: f_def)
qed

section \<open>What the decoder returns\<close>

lemma osd_check_iff: "osd_check p \<longleftrightarrow> list_ex (\<lambda>i. p ! i) [0..<91] \<and> ftx_check_crc p"
  by (simp add: osd_check_def)

text \<open>A candidate answer: 91 bits with a valid checksum, computed from the hard decisions with flipped bits.\<close>

definition osd_answer :: "bool list list \<Rightarrow> bool list \<Rightarrow> nat \<Rightarrow> bool list \<Rightarrow> int \<Rightarrow> bool" where
  "osd_answer gen1_inv y1 depth p d \<longleftrightarrow> osd_check p \<and>
     (\<exists>ii < depth. d = int ii \<and> p = matmul gen1_inv (y1[90 - ii := \<not> y1 ! (90 - ii)]))"

lemma osd_flip_answer:
  assumes "ii < depth" "got_a_best best \<longrightarrow> osd_answer g y1 depth (best_plain best) (best_depth best)"
    and "b' = osd_flip ops xcode cw g y1 ii best"
  shows "got_a_best b' \<longrightarrow> osd_answer g y1 depth (best_plain b') (best_depth b')"
  using assms by (auto simp: osd_flip_def osd_answer_def Let_def)

lemma osd_flips:
  assumes "best = fold (osd_flip ops xcode cw g y1) [0..<depth]
      \<lparr>got_a_best = False, best_plain = junk, best_score = f_lit ops 0 1, best_depth = - 1\<rparr>" "got_a_best best"
  shows "osd_answer g y1 depth (best_plain best) (best_depth best)"
proof -
  have "got_a_best (fold (osd_flip ops xcode cw g y1) xs b) \<longrightarrow>
      osd_answer g y1 depth (best_plain (fold (osd_flip ops xcode cw g y1) xs b)) (best_depth (fold (osd_flip ops xcode cw g y1) xs b))"
    if "set xs \<subseteq> {0..<depth}" "got_a_best b \<longrightarrow> osd_answer g y1 depth (best_plain b) (best_depth b)" for xs b
    using that
  proof (induction xs arbitrary: b)
    case (Cons x xs)
    have "got_a_best (osd_flip ops xcode cw g y1 x b) \<longrightarrow>
        osd_answer g y1 depth (best_plain (osd_flip ops xcode cw g y1 x b)) (best_depth (osd_flip ops xcode cw g y1 x b))"
      by (rule osd_flip_answer [OF _ Cons.prems(2) refl]) (use Cons.prems(1) in simp)
    then show ?case unfolding fold_simps by (rule Cons.IH [rotated]) (use Cons.prems(1) in simp)
  qed simp
  from this [of "[0..<depth]" "\<lparr>got_a_best = False, best_plain = junk, best_score = f_lit ops 0 1, best_depth = - 1\<rparr>"]
  show ?thesis using assms by simp
qed

lemma osd_length:
  assumes "osd_decode ops qsort junk xcode codeword depth out out_depth = (res, d, True)" "91 \<le> length out"
  shows "length res = length out"
proof -
  have best: "length (best_plain (fold (osd_flip ops xcode codeword g y1) xs b)) = 91"
    if "got_a_best (fold (osd_flip ops xcode codeword g y1) xs b)" "got_a_best b \<longrightarrow> length (best_plain b) = 91" for g y1 xs and b :: "'a osd_best"
    using that by (induction xs arbitrary: b) (auto simp: osd_flip_def Let_def matmul_def split: if_splits)
  show ?thesis
    using assms best by (auto simp: osd_decode_def Let_def matmul_def split: option.splits if_splits prod.splits)
qed

text \<open>
  The positions the decoder trusts: what is left of the sorted array after the exchanges of the elimination.
\<close>

definition osd_basis :: "'f float_ops \<Rightarrow> ((nat \<Rightarrow> nat \<Rightarrow> int) \<Rightarrow> nat list \<Rightarrow> nat list) \<Rightarrow> (nat \<Rightarrow> 'f) \<Rightarrow> nat list" where
  "osd_basis ops qsort codeword =
     (let which = qsort (osd_cmp ops codeword) [0..<174]
      in case gauss_jordan (map gen_row which) which of None \<Rightarrow> [] | Some (b, which) \<Rightarrow> take 91 which)"

text \<open>
  C10: ordered statistics. Whatever the arithmetic and however the library sorts, when \<open>osd_decode\<close> reports
  success, the 91 bits it wrote are not all zero and have a valid checksum, and their codeword agrees with
  the hard decisions in each of the 91 distinct positions that elimination selected, except for one
  position when \<open>*out_depth\<close> names a flipped bit (the elimination really solves the linear system); when it
  fails, it leaves the output alone.
\<close>

theorem osd_decode_sound:
  assumes sort: "\<And>cmp xs. mset (qsort cmp xs) = mset xs" and depth: "depth \<le> 91" and out: "91 \<le> length out"
    and result: "osd_decode ops qsort junk xcode codeword depth out out_depth = (res, d, ok)"
    and basis: "ws = osd_basis ops qsort codeword"
  shows "(ok \<longrightarrow> length res = length out \<and> drop 91 res = drop 91 out \<and> osd_check (take 91 res) \<and>
      length ws = 91 \<and> distinct ws \<and> set ws \<subseteq> {0..<174} \<and>
      (\<exists>flips \<subseteq> {0..<91}. card flips \<le> 1 \<and> (flips = {} \<or> (0 \<le> d \<and> flips = {90 - nat d})) \<and>
        (\<forall>j < 91. ldpc_encode (take 91 res) (replicate 174 False) ! (ws ! j) =
          (f_gt ops (codeword (ws ! j)) (f_lit ops 0 1) \<noteq> (j \<in> flips))))) \<and>
    (\<not> ok \<longrightarrow> res = out \<and> d = out_depth)"
proof (cases "gauss_jordan (map gen_row (qsort (osd_cmp ops codeword) [0..<174])) (qsort (osd_cmp ops codeword) [0..<174])")
  case None
  then show ?thesis using result by (simp add: osd_decode_def Let_def)
next
  case (Some bw)
  obtain b which where bw: "bw = (b, which)" by (cases bw)
  let ?w = "qsort (osd_cmp ops codeword) [0..<174]"
  have perm: "distinct ?w" "set ?w = {0..<174}"
    using sort [of "osd_cmp ops codeword" "[0..<174]"] by (metis distinct_upt mset_eq_imp_distinct_iff, metis set_upt mset_eq_setD)
  define g where "g = map (\<lambda>i. map (\<lambda>j. b ! i ! (91 + j)) [0..<91]) [0..<91]"
  define y1 where "y1 = map (\<lambda>i. f_gt ops (codeword (which ! i)) (f_lit ops 0 1)) [0..<91]"
  note solves = gauss_jordan_solves [OF perm Some [unfolded bw] g_def]
  have which: "distinct which" "set which = {0..<174}" "length which = 174"
    using solves(3,4) [of y1] distinct_card [of which] by (auto simp: y1_def)
  have ws: "ws = take 91 which" using basis Some bw by (simp add: osd_basis_def Let_def)
  have ws_ok: "length ws = 91" "distinct ws" "set ws \<subseteq> {0..<174}"
    using which set_take_subset [of 91 which] by (auto simp: ws)
  have code: "ldpc_encode (matmul g y) (replicate 174 False) ! (ws ! j) = y ! j" if "length y = 91" "j < 91" for y j
    using solves(2) [OF that] that by (simp add: code_bit_def ws)
  have len: "length (matmul g y) = 91" for y by (simp add: matmul_def)
  have y1: "length y1 = 91" "\<And>j. j < 91 \<Longrightarrow> y1 ! j = f_gt ops (codeword (ws ! j)) (f_lit ops 0 1)"
    by (simp_all add: y1_def ws)
  let ?first = "f_gt ops (f_lit ops (- 100) 1) (osd_score ops xcode (matmul g y1) codeword) \<and> osd_check (matmul g y1)"
  let ?best = "fold (osd_flip ops xcode codeword g y1) [0..<depth]
      \<lparr>got_a_best = False, best_plain = junk, best_score = f_lit ops 0 1, best_depth = - 1\<rparr>"
  have res: "(res, d, ok) = (if ?first then (matmul g y1 @ drop 91 out, 0, True)
      else if got_a_best ?best then (best_plain ?best @ drop 91 out, best_depth ?best, True) else (out, out_depth, False))"
    using result [symmetric] unfolding osd_decode_def Let_def Some bw option.case prod.case g_def [symmetric] y1_def [symmetric] .
  consider "?first" | "\<not> ?first" "got_a_best ?best" | "\<not> ?first" "\<not> got_a_best ?best" by blast
  then show ?thesis
  proof cases
    case 1
    then have "res = matmul g y1 @ drop 91 out" "d = 0" "ok" "osd_check (matmul g y1)" using res by auto
    then show ?thesis
      using ws_ok out len code [OF y1(1)] y1(2) by (auto intro!: exI [of _ "{}"])
  next
    case 2
    from osd_flips [OF refl 2(2)] obtain ii where ii: "ii < depth" "best_depth ?best = int ii"
      "best_plain ?best = matmul g (y1[90 - ii := \<not> y1 ! (90 - ii)])" "osd_check (best_plain ?best)"
      by (auto simp: osd_answer_def)
    let ?y = "y1[90 - ii := \<not> y1 ! (90 - ii)]"
    have r: "res = matmul g ?y @ drop 91 out" "d = int ii" "ok" "osd_check (matmul g ?y)" using res 2 ii by auto
    have "ldpc_encode (matmul g ?y) (replicate 174 False) ! (ws ! j) =
        (f_gt ops (codeword (ws ! j)) (f_lit ops 0 1) \<noteq> (j \<in> {90 - nat d}))" if "j < 91" for j
      using code [of ?y j] y1 that r(2) by (auto simp: nth_list_update)
    moreover have "take 91 res = matmul g ?y" "length res = length out" "drop 91 res = drop 91 out"
      using r(1) len out by simp_all
    ultimately show ?thesis
      using ws_ok r by (intro conjI impI exI [of _ "{90 - nat d}"]) auto
  next
    case 3
    then have "res = out" "d = out_depth" "\<not> ok" using res by auto
    then show ?thesis by blast
  qed
qed

text \<open>A concrete arithmetic: fixed point with one fractional bit; its square root is always 1.\<close>

definition fixed_ops :: "int float_ops" where
  "fixed_ops = \<lparr>f_lit = (\<lambda>n d. 2 * n div d), f_add = (+), f_sub = (-), f_mul = (\<lambda>x y. x * y div 2), f_div = (\<lambda>x y. 2 * x div y),
     f_neg = uminus, f_gt = (>), f_ge = (\<ge>), f_abs = abs, f_sqrt = (\<lambda>_. 2), f_u8 = of_int\<rparr>"

lemma osd_decode_sound_witness:
  "case osd_decode fixed_ops (\<lambda>cmp xs. rev xs) [] [] (\<lambda>n. if n mod 3 = 0 then 7 else - 5) 6 (replicate 240 False) (- 1)
   of (res, d, ok) \<Rightarrow> (ok \<longrightarrow> osd_check (take 91 res)) \<and> (\<not> ok \<longrightarrow> res = replicate 240 False \<and> d = - 1)"
proof -
  obtain res d ok where r: "osd_decode fixed_ops (\<lambda>cmp xs. rev xs) [] [] (\<lambda>n. if n mod 3 = 0 then 7 else - 5) 6 (replicate 240 False) (- 1)
      = (res, d, ok)" by (metis prod_cases3)
  have "(6 :: nat) \<le> 91" "91 \<le> length (replicate 240 False)" "\<And>cmp xs. mset ((\<lambda>cmp xs. rev xs) cmp xs) = mset xs" by simp_all
  from osd_decode_sound [OF this(3) this(1,2) r refl] show ?thesis unfolding r by simp
qed

end
