(* ===== verification/FtxReceive.thy ===== *)
theory FtxReceive
  imports FtxOsd
begin

text \<open>
  From a candidate to a message: the protocol descriptors, the normalisation of the likelihoods, the
  packing of bits and \<open>ftx_decode_candidate\<close> of \<open>ft8_lib/ft8/decode.c\<close>.
\<close>

unbundle bit_operations_syntax

section \<open>Protocols\<close>

datatype ftx_protocol = FTX_PROTOCOL_FT4 | FTX_PROTOCOL_FT8 | FTX_PROTOCOL_FST4 | FTX_PROTOCOL_FST4W

text \<open>
  What local arrays contain before they are written is an argument: the back references and messages of the
  belief propagation, \<open>best_plain\<close> and \<open>xcode\<close> of the ordered statistics, and the arrays of
  \<open>ftx_decode_candidate\<close> and of the encoders.
\<close>

record 'f scratch =
  s_midx :: "nat table2"
  s_tov :: "'f table2"
  s_toc :: "'f table2"
  s_best :: "bool list"
  s_xcode :: "bool list"
  s_llr :: "'f list"
  s_plain :: "bool list"
  s_packed :: "u8 list"
  s_a91 :: "u8 list"
  s_tones :: "nat list"

record 'f protocol_desc =
  d_protocol :: ftx_protocol
  d_num_tones :: nat
  d_num_symbols :: nat
  d_ldpc_n :: nat
  d_ldpc_k :: nat
  d_ldpc_k_bytes :: nat
  d_max_ldpc_iterations :: int
  d_use_rect_window :: bool
  d_xor_payload :: bool
  d_sync_score :: "waterfall \<Rightarrow> candidate \<Rightarrow> int option"
  d_extract_likelihood :: "waterfall \<Rightarrow> candidate \<Rightarrow> 'f list \<Rightarrow> 'f list option"
  d_ldpc_decode :: "(nat \<Rightarrow> 'f) \<Rightarrow> int \<Rightarrow> bool list \<Rightarrow> bool list \<times> nat"
  d_osd_decode :: "((nat \<Rightarrow> 'f) \<Rightarrow> nat \<Rightarrow> bool list \<Rightarrow> int \<Rightarrow> bool list \<times> int \<times> bool) option"
  d_check_crc :: "u8 list \<Rightarrow> bool"
  d_extract_crc :: "u8 list \<Rightarrow> u32"
  d_encode :: "u8 list \<Rightarrow> nat list \<Rightarrow> nat list"

definition ftx_extract_crc_u32 :: "u8 list \<Rightarrow> u32" where
  "ftx_extract_crc_u32 packed = ucast (ftx_extract_crc packed)"

type_synonym sorter = "(nat \<Rightarrow> nat \<Rightarrow> int) \<Rightarrow> nat list \<Rightarrow> nat list"

definition kFT8_desc :: "'f float_ops \<Rightarrow> sorter \<Rightarrow> 'f scratch \<Rightarrow> 'f protocol_desc" where
  "kFT8_desc ops qsort s =
     \<lparr>d_protocol = FTX_PROTOCOL_FT8, d_num_tones = 8, d_num_symbols = 79, d_ldpc_n = 174, d_ldpc_k = 91, d_ldpc_k_bytes = 12,
      d_max_ldpc_iterations = 25, d_use_rect_window = False, d_xor_payload = False,
      d_sync_score = ft8_sync_score, d_extract_likelihood = ft8_extract_likelihood ops,
      d_ldpc_decode = bp_decode ops (s_midx s) (s_tov s) (s_toc s),
      d_osd_decode = Some (osd_decode ops qsort (s_best s) (s_xcode s)),
      d_check_crc = ftx_check_crc_packed, d_extract_crc = ftx_extract_crc_u32, d_encode = (\<lambda>p. ft8_encode p (s_a91 s))\<rparr>"

definition kFT4_desc :: "'f float_ops \<Rightarrow> sorter \<Rightarrow> 'f scratch \<Rightarrow> 'f protocol_desc" where
  "kFT4_desc ops qsort s =
     \<lparr>d_protocol = FTX_PROTOCOL_FT4, d_num_tones = 4, d_num_symbols = 105, d_ldpc_n = 174, d_ldpc_k = 91, d_ldpc_k_bytes = 12,
      d_max_ldpc_iterations = 25, d_use_rect_window = False, d_xor_payload = True,
      d_sync_score = ft4_sync_score, d_extract_likelihood = ft4_extract_likelihood ops,
      d_ldpc_decode = bp_decode ops (s_midx s) (s_tov s) (s_toc s),
      d_osd_decode = Some (osd_decode ops qsort (s_best s) (s_xcode s)),
      d_check_crc = ftx_check_crc_packed, d_extract_crc = ftx_extract_crc_u32, d_encode = (\<lambda>p. ft4_encode p (s_a91 s))\<rparr>"

definition kFST4_desc :: "'f float_ops \<Rightarrow> 'f scratch \<Rightarrow> 'f protocol_desc" where
  "kFST4_desc ops s =
     \<lparr>d_protocol = FTX_PROTOCOL_FST4, d_num_tones = 4, d_num_symbols = 160, d_ldpc_n = 240, d_ldpc_k = 101, d_ldpc_k_bytes = 13,
      d_max_ldpc_iterations = 100, d_use_rect_window = True, d_xor_payload = True,
      d_sync_score = fst4_sync_score, d_extract_likelihood = fst4_extract_likelihood ops,
      d_ldpc_decode = fst4_ldpc_decode ops (s_midx s) (s_tov s) (s_toc s),
      d_osd_decode = None,
      d_check_crc = fst4_check_crc, d_extract_crc = fst4_extract_crc, d_encode = fst4_encode\<rparr>"

definition kFST4W_desc :: "'f float_ops \<Rightarrow> 'f scratch \<Rightarrow> 'f protocol_desc" where
  "kFST4W_desc ops s =
     \<lparr>d_protocol = FTX_PROTOCOL_FST4W, d_num_tones = 4, d_num_symbols = 160, d_ldpc_n = 240, d_ldpc_k = 74, d_ldpc_k_bytes = 10,
      d_max_ldpc_iterations = 100, d_use_rect_window = True, d_xor_payload = False,
      d_sync_score = fst4_sync_score, d_extract_likelihood = fst4_extract_likelihood ops,
      d_ldpc_decode = fst4w_ldpc_decode ops (s_midx s) (s_tov s) (s_toc s),
      d_osd_decode = None,
      d_check_crc = fst4w_check_crc, d_extract_crc = fst4w_extract_crc, d_encode = fst4w_encode\<rparr>"

definition ftx_protocol_get_desc :: "'f float_ops \<Rightarrow> sorter \<Rightarrow> 'f scratch \<Rightarrow> ftx_protocol \<Rightarrow> 'f protocol_desc" where
  "ftx_protocol_get_desc ops qsort s protocol =
     (case protocol of FTX_PROTOCOL_FT4 \<Rightarrow> kFT4_desc ops qsort s | FTX_PROTOCOL_FST4 \<Rightarrow> kFST4_desc ops s
      | FTX_PROTOCOL_FST4W \<Rightarrow> kFST4W_desc ops s | FTX_PROTOCOL_FT8 \<Rightarrow> kFT8_desc ops qsort s)"

section \<open>Decoding a candidate\<close>

definition norm_factor :: "'f float_ops \<Rightarrow> 'f list \<Rightarrow> nat \<Rightarrow> 'f" where
  "norm_factor ops logl n =
     (let (sum, sum2) = fold (\<lambda>i (sum, sum2). (f_add ops sum (logl ! i), f_add ops sum2 (f_mul ops (logl ! i) (logl ! i))))
            [0..<n] (f_lit ops 0 1, f_lit ops 0 1);
          inv_n = f_div ops (f_lit ops 1 1) (f_lit ops (int n) 1);
          variance = f_mul ops (f_sub ops sum2 (f_mul ops (f_mul ops sum sum) inv_n)) inv_n
      in f_sqrt ops (f_div ops (f_lit ops 24 1) variance))"

definition ftx_normalize_logl :: "'f float_ops \<Rightarrow> 'f list \<Rightarrow> nat \<Rightarrow> 'f list" where
  "ftx_normalize_logl ops logl n =
     fold (\<lambda>i l. l[i := f_mul ops (l ! i) (norm_factor ops logl n)]) [0..<n] logl"

definition pack_bits :: "bool list \<Rightarrow> nat \<Rightarrow> u8 list \<Rightarrow> u8 list" where
  "pack_bits bit_array num_bits packed =
     (let num_bytes = (num_bits + 7) div 8;
          packed = fold (\<lambda>i packed. packed[i := 0]) [0..<num_bytes] packed
      in fst (fold (\<lambda>i (packed, mask, byte_idx).
           (if bit_array ! i then packed[byte_idx := packed ! byte_idx OR mask] else packed, next_bit (mask, byte_idx)))
         [0..<num_bits] (packed, 0x80, 0)))"

record 'f message =
  payload :: "u8 list"
  hash :: u16
  snr :: 'f

record decode_status =
  ldpc_errors :: nat
  crc_valid :: bool

definition kMaxLDPCErrors :: nat where "kMaxLDPCErrors = 32"

text \<open>Step 4 of the function: the fallback; the second component says whether to go on.\<close>

definition osd_fallback :: "'f protocol_desc \<Rightarrow> (nat \<Rightarrow> 'f) \<Rightarrow> nat \<Rightarrow> bool list \<Rightarrow> bool list \<times> bool" where
  "osd_fallback desc log_llr errors plain_bits =
     (if errors > 0 then
        (case d_osd_decode desc of
           Some osd \<Rightarrow> if errors \<le> kMaxLDPCErrors then (let (out, got_depth, ok) = osd log_llr 6 plain_bits (- 1) in (out, ok))
                       else (plain_bits, False)
         | None \<Rightarrow> (plain_bits, False))
      else (plain_bits, True))"

text \<open>Step 8.\<close>

definition extract_payload :: "'f protocol_desc \<Rightarrow> u8 list \<Rightarrow> u8 list" where
  "extract_payload desc packed =
     (if d_xor_payload desc then map (\<lambda>i. packed ! i XOR kFT4_XOR_sequence ! i) [0..<10]
      else if d_ldpc_k_bytes desc < 10
      then map (\<lambda>i. packed ! i) [0..<d_ldpc_k_bytes desc] @ map (\<lambda>i. 0) [d_ldpc_k_bytes desc..<10]
      else map (\<lambda>i. packed ! i) [0..<10])"

definition ftx_decode_candidate :: "'f float_ops \<Rightarrow> 'f protocol_desc \<Rightarrow> 'f scratch \<Rightarrow> waterfall \<Rightarrow> candidate \<Rightarrow> int \<Rightarrow>
    'f message \<Rightarrow> decode_status \<Rightarrow> (bool \<times> 'f message \<times> decode_status \<times> waterfall) option" where
  "ftx_decode_candidate ops desc s w cand max_iterations message status =
     do {
       log_llr \<leftarrow> d_extract_likelihood desc w cand (s_llr s);
       let log_llr = ftx_normalize_logl ops log_llr (d_ldpc_n desc);
       let (plain_bits, errors) = d_ldpc_decode desc (\<lambda>i. log_llr ! i) max_iterations (s_plain s);
       let status = status\<lparr>ldpc_errors := errors\<rparr>;
       let (plain_bits, decoded) = osd_fallback desc (\<lambda>i. log_llr ! i) errors plain_bits;
       if \<not> decoded then Some (False, message, status, w)
       else do {
         let packed = pack_bits plain_bits (d_ldpc_k desc) (s_packed s);
         let status = status\<lparr>crc_valid := d_check_crc desc packed\<rparr>;
         if \<not> crc_valid status then Some (False, message, status, w)
         else do {
           let message = message\<lparr>hash := ucast (d_extract_crc desc packed), payload := extract_payload desc packed\<rparr>;
           let tones = d_encode desc (payload message) (s_tones s);
           (snr, w) \<leftarrow> ftx_substract ops (d_num_tones desc) w cand tones (d_num_symbols desc);
           Some (True, message\<lparr>snr := snr\<rparr>, status, w)
         }
       }
     }"

section \<open>Packing and normalising\<close>

lemma clear_loop: "n \<le> length xs \<Longrightarrow> fold (\<lambda>i xs. xs[i := 0]) [0..<n] xs = replicate n 0 @ drop n xs"
proof (induction n)
  case (Suc n)
  then have "drop n xs = xs ! n # drop (Suc n) xs" by (simp add: Cons_nth_drop_Suc)
  then show ?case using Suc by (simp add: list_update_append replicate_append_same)
qed simp

lemma pack_bits_loop:
  assumes "n \<le> 8 * length packed"
  shows "\<exists>p. fold (\<lambda>i (packed, mask, byte_idx).
           (if bs ! i then packed[byte_idx := packed ! byte_idx OR mask] else packed, next_bit (mask, byte_idx)))
         [0..<n] (packed, 0x80, 0) = (p, drop_bit (n mod 8) 0x80, n div 8) \<and> length p = length packed \<and>
       (\<forall>j < 8 * length packed. GET_BIT p j \<longleftrightarrow> GET_BIT packed j \<or> j < n \<and> bs ! j)"
  using assms
proof (induction n)
  case (Suc n)
  then obtain p where p: "fold (\<lambda>i (packed, mask, byte_idx).
           (if bs ! i then packed[byte_idx := packed ! byte_idx OR mask] else packed, next_bit (mask, byte_idx)))
         [0..<n] (packed, 0x80, 0) = (p, drop_bit (n mod 8) 0x80, n div 8)" "length p = length packed"
    and bits: "\<And>j. j < 8 * length packed \<Longrightarrow> GET_BIT p j \<longleftrightarrow> GET_BIT packed j \<or> j < n \<and> bs ! j"
    by auto
  have idx: "n div 8 < length p" using Suc.prems p(2) by (simp add: less_mult_imp_div_less mult.commute)
  let ?p = "if bs ! n then p[n div 8 := p ! (n div 8) OR drop_bit (n mod 8) 0x80] else p"
  have "fold (\<lambda>i (packed, mask, byte_idx).
           (if bs ! i then packed[byte_idx := packed ! byte_idx OR mask] else packed, next_bit (mask, byte_idx)))
         [0..<Suc n] (packed, 0x80, 0) = (?p, drop_bit (Suc n mod 8) 0x80, Suc n div 8)"
    using p(1) next_bit_at [of n] by simp
  moreover have "GET_BIT ?p j \<longleftrightarrow> GET_BIT packed j \<or> j < Suc n \<and> bs ! j" if "j < 8 * length packed" for j
    using bits [OF that] GET_BIT_set [OF idx, of j] by (cases "j = n") (auto simp: less_Suc_eq)
  ultimately show ?case using p(2) by auto
qed simp

lemma pack_bits_bits:
  assumes "(num + 7) div 8 \<le> length packed"
  shows "length (pack_bits bs num packed) = length packed"
    "j < 8 * ((num + 7) div 8) \<Longrightarrow> GET_BIT (pack_bits bs num packed) j \<longleftrightarrow> j < num \<and> bs ! j"
proof -
  let ?k = "(num + 7) div 8"
  let ?z = "replicate ?k 0 @ drop ?k packed"
  have z: "length ?z = length packed" "num \<le> 8 * length ?z" using assms by auto
  obtain p where p: "fold (\<lambda>i (packed, mask, byte_idx).
           (if bs ! i then packed[byte_idx := packed ! byte_idx OR mask] else packed, next_bit (mask, byte_idx)))
         [0..<num] (?z, 0x80, 0) = (p, drop_bit (num mod 8) 0x80, num div 8)" "length p = length ?z"
    "\<forall>j < 8 * length ?z. GET_BIT p j \<longleftrightarrow> GET_BIT ?z j \<or> j < num \<and> bs ! j"
    using pack_bits_loop [OF z(2)] by blast
  have pack: "pack_bits bs num packed = p" using p(1) by (simp add: pack_bits_def clear_loop [OF assms])
  show "length (pack_bits bs num packed) = length packed" using pack p(2) z(1) by simp
  assume j: "j < 8 * ?k"
  then have "j div 8 < ?k" by (simp add: less_mult_imp_div_less mult.commute)
  then have "\<not> GET_BIT ?z j" by (simp add: GET_BIT_def nth_append)
  moreover have "j < 8 * length ?z" using j assms z(1) by simp
  ultimately show "GET_BIT (pack_bits bs num packed) j \<longleftrightarrow> j < num \<and> bs ! j" using p(3) pack by simp
qed

lemma bits_of_pack:
  assumes "(num + 7) div 8 \<le> length packed" "num \<le> length bs"
  shows "bits_of (pack_bits bs num packed) num = take num bs"
proof -
  have "j < 8 * ((num + 7) div 8)" if "j < num" for j using that by simp
  then show ?thesis using assms by (intro nth_equalityI) (auto simp: pack_bits_bits)
qed

lemma scale_loop: "n \<le> length xs \<Longrightarrow> fold (\<lambda>i l. l[i := f_mul ops (l ! i) c]) [0..<n] xs = map (\<lambda>x. f_mul ops x c) (take n xs) @ drop n xs"
proof (induction n)
  case (Suc n)
  then have "drop n xs = xs ! n # drop (Suc n) xs" "take (Suc n) xs = take n xs @ [xs ! n]"
    by (simp_all add: Cons_nth_drop_Suc take_Suc_conv_app_nth)
  then show ?case using Suc by (simp add: list_update_append nth_append)
qed simp

lemma normalize_nth:
  assumes "n \<le> length l" "i < n"
  shows "ftx_normalize_logl ops l n ! i = f_mul ops (l ! i) (norm_factor ops l n)"
  using assms by (simp add: ftx_normalize_logl_def scale_loop nth_append)

section \<open>Frames\<close>

text \<open>
  A checksum and a linear code together: the word that is sent, and the payload that determines it again.
\<close>

locale coded_frame = checksum_frame n w z P add check payload_bytes frame_bytes
  for n w z P add check payload_bytes frame_bytes +
  fixes K kb :: nat and gen :: "u8 list list"
  assumes info: "K = n + w" "kb = K div 8 + 1" "kb \<le> frame_bytes"
    and pad: "payload_bytes \<le> length p \<Longrightarrow> K \<le> j \<Longrightarrow> j < 8 * kb \<Longrightarrow> \<not> GET_BIT (add p) j"
begin

definition word :: "u8 list \<Rightarrow> bool list" where
  "word p = bits_of (encode240 (add p) gen K kb (length gen)) (K + length gen)"

lemma word_nth:
  assumes "payload_bytes \<le> length p" "i < K + length gen"
  shows "word p ! i = (if i < K then GET_BIT (add p) i
    else parity (map (\<lambda>j. GET_BIT (gen ! (i - K)) j \<and> GET_BIT (add p) j) [0..<K]))"
  using encode240_bits(1) [OF info(2) pad [OF assms(1)], of i "length gen" gen] assms(2) by (simp add: word_def)

lemma word_info: "payload_bytes \<le> length p \<Longrightarrow> take K (word p) = bits_of (add p) K"
  by (intro nth_equalityI) (simp_all add: word_nth, simp_all add: word_def)

lemma word_codeword: "payload_bytes \<le> length p \<Longrightarrow> is_codeword K gen ((!) (word p))"
proof -
  assume p: "payload_bytes \<le> length p"
  have *: "map (\<lambda>j. g j \<and> word p ! j) [0..<K] = map (\<lambda>j. g j \<and> GET_BIT (add p) j) [0..<K]" for g
    by (simp add: word_nth [OF p])
  show ?thesis unfolding is_codeword_def * using word_nth [OF p, of "K + _"] by simp
qed

lemma word_payload: "payload_bytes \<le> length p \<Longrightarrow> take n (word p) = bits_of p n"
proof -
  assume p: "payload_bytes \<le> length p"
  have "take n (word p) = take n (take K (word p))" using info by (simp add: min_def)
  also have "\<dots> = bits_of p n" unfolding word_info [OF p] using info add_payload [OF p] by (simp add: take_map)
  finally show ?thesis .
qed

text \<open>A frame that is received as it was sent.\<close>

lemma check_received:
  assumes "frame_bytes \<le> length f" "payload_bytes \<le> length p" "bits_of f K = bits_of (add p) K"
  shows "check f" "bits_of f n = bits_of p n"
proof -
  have same: "GET_BIT f i = GET_BIT (add p) i" if "i < K" for i using assms(3) that by (simp add: map_eq_conv)
  have n: "i < K" if "i < n" for i using that info by simp
  have "GET_BIT f (n + j) = crc_field w z P n f j" if "j < w" for j
  proof -
    have "GET_BIT f (n + j) = crc_field w z P n p j" using same [of "n + j"] add_crc [OF assms(2) that] that info by simp
    also have "\<dots> = crc_field w z P n f j" by (rule crc_field_cong) (use same n add_payload [OF assms(2)] in simp)
    finally show ?thesis .
  qed
  then show "check f" using check_iff [OF assms(1)] by blast
  show "bits_of f n = bits_of p n" using same n add_payload [OF assms(2)] by simp
qed

text \<open>A codeword whose information bits pass the check is the word of its payload.\<close>

lemma add_again:
  assumes "frame_bytes \<le> length f" "check f" "payload_bytes \<le> length p" "bits_of p n = bits_of f n"
  shows "bits_of (add p) K = bits_of f K"
proof (rule nth_equalityI)
  fix i assume "i < length (bits_of (add p) K)"
  then have i: "i < n + w" by (simp add: info)
  have payload: "GET_BIT p j = GET_BIT f j" if "j < n" for j using assms(4) that by (simp add: map_eq_conv)
  show "bits_of (add p) K ! i = bits_of f K ! i"
  proof (cases "i < n")
    case True
    then show ?thesis using i payload add_payload [OF assms(3)] by (simp add: info)
  next
    case False
    then obtain j where j: "i = n + j" "j < w" using i by (metis add_less_cancel_left le_Suc_ex not_less)
    have "GET_BIT (add p) i = crc_field w z P n p j" using add_crc [OF assms(3) j(2)] j(1) by simp
    also have "\<dots> = crc_field w z P n f j" by (rule crc_field_cong) (rule payload)
    also have "\<dots> = GET_BIT f i" using check_iff [OF assms(1)] assms(2) j by simp
    finally show ?thesis using i by (simp add: info)
  qed
qed simp

lemma word_again:
  assumes "frame_bytes \<le> length f" "check f" "payload_bytes \<le> length p" "bits_of p n = bits_of f n"
    and "is_codeword K gen ((!) c)" "length c = K + length gen" "take K c = bits_of f K"
  shows "word p = c"
proof (rule nth_equalityI)
  fix i assume "i < length (word p)"
  then have i: "i < K + length gen" by (simp add: word_def)
  have eq: "c ! j = GET_BIT (add p) j" if "j < K" for j
  proof -
    have "c ! j = take K c ! j" using that by simp
    also have "\<dots> = bits_of (add p) K ! j" by (simp only: assms(7) add_again [OF assms(1-4)])
    finally show ?thesis using that by simp
  qed
  then have *: "map (\<lambda>j. g j \<and> c ! j) [0..<K] = map (\<lambda>j. g j \<and> GET_BIT (add p) j) [0..<K]" for g by simp
  show "word p ! i = c ! i"
  proof (cases "i < K")
    case False
    then obtain k where "i = K + k" "k < length gen" using i by (metis add_less_cancel_left le_Suc_ex not_less)
    moreover from this have "c ! i = parity (map (\<lambda>j. GET_BIT (gen ! k) j \<and> c ! j) [0..<K])"
      using assms(5) unfolding is_codeword_def by blast
    ultimately show ?thesis using word_nth [OF assms(3) i] unfolding * by simp
  qed (use word_nth [OF assms(3) i] eq in simp)
qed (use assms(6) in \<open>simp add: word_def\<close>)

end

lemma ftx_add_pad:
  assumes "10 \<le> length p" "12 \<le> length a" "91 \<le> j" "j < 96"
  shows "\<not> GET_BIT (ftx_add_crc p a) j"
proof -
  let ?cs = "ftx_compute_crc (masked p 9 3 2) 82"
  let ?t = "take 9 p @ [p ! 9 AND NOT (mask 3) OR ucast (drop_bit 11 ?cs), ucast (drop_bit 3 ?cs)]"
  have m: "ftx_add_crc p a = ?t @ ucast (push_bit 5 ?cs) # drop 12 a"
    using assms by (simp add: ftx_add_crc_bytes Let_def)
  show ?thesis
    unfolding m using assms by (intro pad_bits [of _ 11 5]) (auto simp: bit_ucast_iff bit_push_bit_iff)
qed

lemma fst4_add_pad:
  assumes "10 \<le> length p" "101 \<le> j" "j < 104"
  shows "\<not> GET_BIT (fst4_add_crc p) j"
proof -
  let ?cs = "fst4_compute_crc (masked p 9 3 3) 101"
  have "fst4_add_crc p = (take 9 p @ [p ! 9 AND NOT (mask 3) OR ucast (drop_bit 21 ?cs), ucast (drop_bit 13 ?cs),
      ucast (drop_bit 5 ?cs)]) @ [ucast (push_bit 3 ?cs)]"
    unfolding fst4_add_crc_def Let_def fst4_masked by (simp add: byte_masks)
  then show ?thesis
    using assms by (simp only:) (intro pad_bits [of _ 12 3], auto simp: bit_ucast_iff bit_push_bit_iff)
qed

lemma fst4w_add_pad:
  assumes "7 \<le> length p" "74 \<le> j" "j < 80"
  shows "\<not> GET_BIT (fst4w_add_crc p) j"
proof -
  let ?cs = "fst4_compute_crc (masked p 6 6 3) 74"
  have "fst4w_add_crc p = (take 6 p @ [p ! 6 AND NOT (mask 6) OR ucast (drop_bit 18 ?cs), ucast (drop_bit 10 ?cs),
      ucast (drop_bit 2 ?cs)]) @ [ucast (push_bit 6 ?cs)]"
    unfolding fst4w_add_crc_def Let_def fst4w_masked by (simp add: byte_masks)
  then show ?thesis
    using assms by (simp only:) (intro pad_bits [of _ 9 6], auto simp: bit_ucast_iff bit_push_bit_iff)
qed

interpretation ft8_code: coded_frame 77 14 5 P14 "\<lambda>p. ftx_add_crc p (replicate 12 0)" ftx_check_crc_packed 10 12 91 12 ftx_gen
  by unfold_locales (simp_all add: ftx_add_pad)

interpretation fst4_code_frame: coded_frame 77 24 0 P24 fst4_add_crc fst4_check_crc 10 13 101 13 fst4_gen
  by unfold_locales (simp_all add: fst4_add_pad)

interpretation fst4w_code_frame: coded_frame 50 24 0 P24 fst4w_add_crc fst4w_check_crc 7 10 74 10 fst4w_gen
  by unfold_locales (simp_all add: fst4w_add_pad)

text \<open>The scratch array of the FT8 encoder does not matter.\<close>

lemma ft8_word_any:
  assumes "10 \<le> length p" "12 \<le> length a"
  shows "bits_of (encode174 (ftx_add_crc p a)) 174 = ft8_code.word p"
proof (rule nth_equalityI)
  let ?z = "replicate 12 (0 :: u8)"
  have same: "GET_BIT (ftx_add_crc p a) j = GET_BIT (ftx_add_crc p ?z) j" if "j < 96" for j
  proof -
    have "j div 8 < 12" using that by auto
    then show ?thesis using assms by (auto simp: GET_BIT_def ftx_add_crc_bytes Let_def nth_append nth_Cons')
  qed
  fix i assume "i < length (bits_of (encode174 (ftx_add_crc p a)) 174)"
  then have i: "i < 174" by simp
  have "GET_BIT (encode174 (ftx_add_crc p a)) i \<longleftrightarrow> (if i < 91 then GET_BIT (ftx_add_crc p a) i
      else i < 91 + 83 \<and> parity (map (\<lambda>j. GET_BIT (kFTX_LDPC_generator ! (i - 91)) j \<and> GET_BIT (ftx_add_crc p a) j) [0..<91]))"
    unfolding encode174_generic by (rule encode240_bits(1)) (use ftx_add_pad [OF assms] i in simp_all)
  moreover have *: "map (\<lambda>j. g j \<and> GET_BIT (ftx_add_crc p a) j) [0..<91] = map (\<lambda>j. g j \<and> GET_BIT (ftx_add_crc p ?z) j) [0..<91]" for g
    by (intro map_cong) (auto simp: same)
  ultimately show "bits_of (encode174 (ftx_add_crc p a)) 174 ! i = ft8_code.word p ! i"
    using ft8_code.word_nth [OF assms(1), of i] i same [of i] ftx_lengths(1) unfolding * by (simp add: ftx_gen_def)
qed (simp add: ft8_code.word_def ftx_lengths)

section \<open>What is sent\<close>

text \<open>The frame layouts, codes and payload sizes of the protocols.\<close>

definition p_sync :: "ftx_protocol \<Rightarrow> nat \<Rightarrow> nat option" where
  "p_sync proto = (case proto of FTX_PROTOCOL_FT8 \<Rightarrow> ft8_sync | FTX_PROTOCOL_FT4 \<Rightarrow> ft4_sync | _ \<Rightarrow> fst4_sync)"

definition p_gray :: "ftx_protocol \<Rightarrow> nat list" where
  "p_gray proto = (case proto of FTX_PROTOCOL_FT8 \<Rightarrow> kFT8_Gray_map | _ \<Rightarrow> kFT4_Gray_map)"

definition p_bits :: "ftx_protocol \<Rightarrow> nat" where
  "p_bits proto = (case proto of FTX_PROTOCOL_FT8 \<Rightarrow> 3 | _ \<Rightarrow> 2)"

definition p_symbols :: "ftx_protocol \<Rightarrow> nat" where
  "p_symbols proto = (case proto of FTX_PROTOCOL_FT8 \<Rightarrow> 79 | FTX_PROTOCOL_FT4 \<Rightarrow> 105 | _ \<Rightarrow> 160)"

definition p_code :: "ftx_protocol \<Rightarrow> u8 list list" where
  "p_code proto = (case proto of FTX_PROTOCOL_FST4 \<Rightarrow> fst4_gen | FTX_PROTOCOL_FST4W \<Rightarrow> fst4w_gen | _ \<Rightarrow> ftx_gen)"

definition p_payload_bits :: "ftx_protocol \<Rightarrow> nat" where
  "p_payload_bits proto = (case proto of FTX_PROTOCOL_FST4W \<Rightarrow> 50 | _ \<Rightarrow> 77)"

text \<open>A receiver's view of the tones, and the word that the encoders put into them.\<close>

definition channel_bits :: "ftx_protocol \<Rightarrow> nat list \<Rightarrow> bool list" where
  "channel_bits proto tones = demodulate (p_bits proto) (p_gray proto) (p_sync proto) (p_symbols proto) tones"

definition sent_word :: "ftx_protocol \<Rightarrow> u8 list \<Rightarrow> bool list" where
  "sent_word proto p =
     (case proto of FTX_PROTOCOL_FT8 \<Rightarrow> ft8_code.word p | FTX_PROTOCOL_FT4 \<Rightarrow> ft8_code.word (scramble p)
      | FTX_PROTOCOL_FST4 \<Rightarrow> fst4_code_frame.word (scramble p) | FTX_PROTOCOL_FST4W \<Rightarrow> fst4w_code_frame.word p)"

text \<open>The sizes of the local arrays.\<close>

definition scratch_ok :: "'f scratch \<Rightarrow> bool" where
  "scratch_ok s \<longleftrightarrow> length (s_llr s) = 240 \<and> length (s_plain s) = 240 \<and> length (s_packed s) = 13 \<and> length (s_a91 s) = 12 \<and>
     length (s_tones s) = 160"

lemmas desc_defs = ftx_protocol_get_desc_def kFT8_desc_def kFT4_desc_def kFST4_desc_def kFST4W_desc_def
lemmas p_defs = p_sync_def p_gray_def p_bits_def p_symbols_def p_code_def p_payload_bits_def

lemma desc_numbers [simp]:
  "d_num_symbols (ftx_protocol_get_desc ops qsort s proto) = p_symbols proto"
  "d_num_tones (ftx_protocol_get_desc ops qsort s proto) = 2 ^ p_bits proto"
  "d_ldpc_n (ftx_protocol_get_desc ops qsort s proto) = d_ldpc_k (ftx_protocol_get_desc ops qsort s proto) + length (p_code proto)"
  by (cases proto; simp add: desc_defs p_defs ftx_lengths fst4_lengths fst4w_lengths)+

lemma sync_small: "p_sync proto i = Some t \<Longrightarrow> i < p_symbols proto \<Longrightarrow> t < 2 ^ p_bits proto"
proof -
  assume t: "p_sync proto i = Some t" and i: "i < p_symbols proto"
  have ft4: "(i - 1) div 33 < 4" if "i < 105" "i \<noteq> 104" using that by (simp add: less_mult_imp_div_less)
  have fst4: "i div 38 < 5" if "i < 160" using that by (simp add: less_mult_imp_div_less)
  have words: "\<forall>x \<in> set kFST4_Sync_word1. x < 4" "\<forall>x \<in> set kFST4_Sync_word2. x < 4" "length kFST4_Sync_word1 = 8" "length kFST4_Sync_word2 = 8"
    by (simp_all add: kFST4_Sync_word1_def kFST4_Sync_word2_def)
  show ?thesis
    using t i costas_tones(1) [of "i mod 36"] costas_tones(2) [OF ft4, of "(i - 1) mod 33"] words
    by (cases proto) (force simp: p_defs ft8_sync_def ft4_sync_def fst4_sync_def split: if_splits)+
qed

lemma tones_small:
  assumes "\<And>i t. i < p_symbols proto \<Longrightarrow> p_sync proto i = Some t \<Longrightarrow> ts ! i = t"
    and "\<And>i. i < p_symbols proto \<Longrightarrow> p_sync proto i = None \<Longrightarrow> ts ! i \<in> set (p_gray proto)" and "i < p_symbols proto"
  shows "ts ! i < 2 ^ p_bits proto"
proof (cases "p_sync proto i")
  case None
  then have "ts ! i \<in> set (p_gray proto)" using assms by blast
  then show ?thesis using gray_small by (cases proto) (auto simp: p_defs)
next
  case (Some t)
  then show ?thesis using assms sync_small by metis
qed

lemma encode_tones:
  fixes p :: "u8 list" and ops :: "'f float_ops" and qsort :: sorter and s :: "'f scratch" and proto :: ftx_protocol
  assumes "scratch_ok s" "10 \<le> length p"
  defines "ts \<equiv> d_encode (ftx_protocol_get_desc ops qsort s proto) p (s_tones s)"
  shows "channel_bits proto ts = sent_word proto p"
    and "i < p_symbols proto \<Longrightarrow> p_sync proto i = Some t \<Longrightarrow> ts ! i = t"
    and "i < p_symbols proto \<Longrightarrow> p_sync proto i = None \<Longrightarrow> ts ! i \<in> set (p_gray proto)"
proof -
  have len: "79 \<le> length (s_tones s)" "105 \<le> length (s_tones s)" "length (s_tones s) = 160" "12 \<le> length (s_a91 s)"
    using assms(1) by (simp_all add: scratch_ok_def)
  have sc: "10 \<le> length (scramble p)" by (simp add: scramble_length)
  have fst4: "bits_of (fst4_ldpc_encode (fst4_add_crc q)) 240 = fst4_code_frame.word q" for q
    by (simp add: fst4_code_frame.word_def fst4_ldpc_encode_def fst4_gen_def [symmetric] fst4_lengths)
  have fst4w: "bits_of (fst4w_ldpc_encode (fst4w_add_crc q)) 240 = fst4w_code_frame.word q" for q
    by (simp add: fst4w_code_frame.word_def fst4w_ldpc_encode_def fst4w_gen_def [symmetric] fst4w_lengths)
  note ft8 = ft8_frame_sent [OF len(1) refl, where p = p and a = "s_a91 s"] and ft4 = ft4_frame_sent [OF len(2) refl, where p = p and a = "s_a91 s"]
    and fst4f = fst4_frame_sent [OF len(3) refl]
  show "channel_bits proto ts = sent_word proto p"
    using ft8(3) ft4(3) fst4f(3) ft8_word_any [OF assms(2) len(4)] ft8_word_any [OF sc len(4)] fst4 fst4w
    by (cases proto) (simp_all add: ts_def desc_defs channel_bits_def p_defs sent_word_def fst4_encode_def fst4w_encode_def)
  show "i < p_symbols proto \<Longrightarrow> p_sync proto i = Some t \<Longrightarrow> ts ! i = t"
    using ft8(2) ft4(2) fst4f(2)
    by (cases proto) (simp_all add: ts_def desc_defs p_defs fst4_encode_def fst4w_encode_def)
  show "i < p_symbols proto \<Longrightarrow> p_sync proto i = None \<Longrightarrow> ts ! i \<in> set (p_gray proto)"
    using ft8(4) ft4(4) fst4f(4)
    by (cases proto) (simp_all add: ts_def desc_defs p_defs fst4_encode_def fst4w_encode_def)
qed

lemma encode_small:
  assumes "scratch_ok s" "10 \<le> length p" "i < p_symbols proto"
  shows "d_encode (ftx_protocol_get_desc ops qsort s proto) p (s_tones s) ! i < 2 ^ p_bits proto"
proof (rule tones_small)
  show "i < p_symbols proto" by (rule assms(3))
qed (rule encode_tones(2) [OF assms(1,2)] encode_tones(3) [OF assms(1,2)]; assumption)+

section \<open>Soundness of the belief propagation\<close>

lemma list_ex_True: "list_ex (\<lambda>b. b) xs \<longleftrightarrow> True \<in> set xs"
  by (induction xs) auto

context bp_code begin

lemma run_answer:
  assumes "bp_run ops T parity_errors j1 j2 j3 cw iters plain = (res, e)" "bp_n T \<le> length plain"
  shows "bp_run ops T parity_errors j1' j2' j3' cw iters plain = (res, e) \<and> length res = length plain \<and> e \<le> bp_m T \<and>
    (e = 0 \<longrightarrow> is_codeword K gen ((!) res) \<and> True \<in> set (take (bp_n T) res))"
  using run_sound [OF assms(1)] run_length [OF assms(2), of ops parity_errors j1 j2 j3 cw iters]
    run_initialised [of ops parity_errors j1' j2' j3' cw iters plain j1 j2 j3] assms
  by (auto simp: list_ex_True)

end

lemmas bp_defs = bp_decode_def fst4_ldpc_decode_def fst4w_ldpc_decode_def bp_decode_240_def

lemma bp_sizes: "bp_n ftx_tables = 174" "bp_m ftx_tables = 83" "bp_n fst4_tables = 240" "bp_m fst4_tables = 139"
  "bp_n fst4w_tables = 240" "bp_m fst4w_tables = 166"
  by (simp_all add: ftx_tables_def fst4_tables_def fst4w_tables_def)

lemma ldpc_answer:
  assumes "240 \<le> length plain"
    and "d_ldpc_decode (ftx_protocol_get_desc ops qsort s proto) cw iters plain = (res, errors)"
    and "d = ftx_protocol_get_desc ops qsort s' proto"
  shows "d_ldpc_decode d cw iters plain = (res, errors) \<and> length res = length plain \<and> errors \<le> d_ldpc_n d - d_ldpc_k d \<and>
    (errors = 0 \<longrightarrow> is_codeword (d_ldpc_k d) (p_code proto) ((!) res) \<and> True \<in> set (take (d_ldpc_n d) res))"
proof -
  have size: "bp_n ftx_tables \<le> length plain" "bp_n fst4_tables \<le> length plain" "bp_n fst4w_tables \<le> length plain"
    using assms(1) by (simp_all add: bp_sizes)
  show ?thesis
    using assms(2,3) bp_ftx.run_answer [OF _ size(1)] bp_fst4.run_answer [OF _ size(2)] bp_fst4w.run_answer [OF _ size(3)]
    by (cases proto) (simp_all add: desc_defs p_defs bp_defs bp_sizes)
qed

text \<open>
  Belief propagation. For every protocol, arithmetic, input and iteration limit, the decoder's answer
  does not depend on what its uninitialised tables contain, it reports at most as many errors as there are
  checks, and when it reports none, the hard decisions it returns are a codeword of the protocol's code
  other than the zero word.
\<close>

theorem ldpc_decoders_sound:
  assumes "240 \<le> length plain"
    and "d_ldpc_decode (ftx_protocol_get_desc ops qsort s proto) cw iters plain = (res, errors)"
    and "d = ftx_protocol_get_desc ops qsort s' proto"
  shows "d_ldpc_decode d cw iters plain = (res, errors) \<and> length res = length plain \<and> errors \<le> d_ldpc_n d - d_ldpc_k d \<and>
    (errors = 0 \<longrightarrow> is_codeword (d_ldpc_k d) (p_code proto) ((!) res) \<and> True \<in> set (take (d_ldpc_n d) res))"
  by (rule ldpc_answer [OF assms])

lemma ldpc_decoders_sound_witness:
  "snd (d_ldpc_decode (kFT8_desc fixed_ops (\<lambda>cmp xs. xs) \<lparr>s_midx = \<lambda>_ _. 0, s_tov = \<lambda>_ _. 0, s_toc = \<lambda>_ _. 0, s_best = [], s_xcode = [],
     s_llr = [], s_plain = [], s_packed = [], s_a91 = [], s_tones = []\<rparr>) (\<lambda>n. if n mod 2 = 0 then 3 else - 3) 25 (replicate 240 False)) \<le> 83"
proof -
  let ?s = "\<lparr>s_midx = \<lambda>_ _. 0, s_tov = \<lambda>_ _. 0, s_toc = \<lambda>_ _. 0, s_best = [], s_xcode = [],
     s_llr = [], s_plain = [], s_packed = [], s_a91 = [], s_tones = []\<rparr> :: int scratch"
  let ?d = "ftx_protocol_get_desc fixed_ops (\<lambda>cmp xs. xs) ?s FTX_PROTOCOL_FT8"
  obtain res e where r: "d_ldpc_decode ?d (\<lambda>n. if n mod 2 = 0 then 3 else - 3) 25 (replicate 240 False) = (res, e)"
    by (metis surj_pair)
  have "240 \<le> length (replicate 240 False)" by simp
  from ldpc_decoders_sound [OF this r refl] have "e \<le> d_ldpc_n ?d - d_ldpc_k ?d" by blast
  moreover have "?d = kFT8_desc fixed_ops (\<lambda>cmp xs. xs) ?s" by (simp add: ftx_protocol_get_desc_def)
  ultimately show ?thesis using r by (simp add: kFT8_desc_def)
qed

section \<open>The decoder stays inside its arrays\<close>

lemma extract_payload_length: "length (extract_payload (ftx_protocol_get_desc ops qsort s proto) packed) = 10"
  by (cases proto) (simp_all add: desc_defs extract_payload_def)

lemma likelihood_total:
  assumes "waterfall_ok w" "candidate_ok (2 ^ p_bits proto) w c" "240 \<le> length l"
  shows "\<exists>l'. d_extract_likelihood (ftx_protocol_get_desc ops qsort s proto) w c l = Some l'"
  using assms ft8_likelihood [where ops = ops] ft4_likelihood [where ops = ops] fst4_likelihood [where ops = ops]
  by (cases proto) (simp_all add: desc_defs p_defs)

lemma decode_total:
  assumes w: "waterfall_ok w" and c: "candidate_ok (d_num_tones d) w c" and s: "scratch_ok s"
    and d: "d = ftx_protocol_get_desc ops qsort s proto"
  shows "\<exists>ok m' st' w'. ftx_decode_candidate ops d s w c max_iterations m st = Some (ok, m', st', w') \<and> same_frame w w'"
proof -
  have c': "candidate_ok (2 ^ p_bits proto) w c" using c d by simp
  have "240 \<le> length (s_llr s)" using s by (simp add: scratch_ok_def)
  from likelihood_total [OF w c' this, of ops qsort s] obtain l where l: "d_extract_likelihood d w c (s_llr s) = Some l" by (auto simp: d)
  let ?l = "\<lambda>i. ftx_normalize_logl ops l (d_ldpc_n d) ! i"
  obtain plain e where p: "d_ldpc_decode d ?l max_iterations (s_plain s) = (plain, e)" by force
  obtain plain' go where g: "osd_fallback d ?l e plain = (plain', go)" by force
  let ?packed = "pack_bits plain' (d_ldpc_k d) (s_packed s)"
  let ?p = "extract_payload d ?packed"
  have "10 \<le> length ?p" by (simp add: d extract_payload_length)
  note enc = encode_small [OF s this, where ops = ops and qsort = qsort and proto = proto]
  have small: "d_encode d ?p (s_tones s) ! i < d_num_tones d" if "i < d_num_symbols d" for i
    using enc [of i] that unfolding d desc_numbers by blast
  obtain snr w' where "ftx_substract ops (d_num_tones d) w c (d_encode d ?p (s_tones s)) (d_num_symbols d) = Some (snr, w')" "same_frame w w'"
    using substract_total [OF w c small, where ops = ops] by metis
  then show ?thesis
    using l p g same_frame_refl [of w] unfolding ftx_decode_candidate_def Let_def
    by (simp only: bind.bind_lunit prod.case decode_status.simps) (auto split: if_splits)
qed

text \<open>
  No access outside of the waterfall. For a waterfall laid out as the header says and a candidate of the
  kind that the search enumerates, also one that begins before or ends behind the recording, the score
  function of every protocol answers with a number of at most 255 in absolute value (it fits the 16-bit field
  of the candidate) and decoding the candidate ends with an answer; what decoding changes is the magnitudes,
  never the size of the waterfall.
\<close>

theorem candidate_access_safe:
  assumes w: "waterfall_ok w" and c: "candidate_ok (d_num_tones d) w c" and s: "scratch_ok s"
    and d: "d = ftx_protocol_get_desc ops qsort s proto"
  shows "(\<exists>score. d_sync_score d w c = Some score \<and> \<bar>score\<bar> \<le> 255) \<and>
    (\<exists>ok m' st' w'. ftx_decode_candidate ops d s w c max_iterations m st = Some (ok, m', st', w') \<and> same_frame w w')"
proof
  have "candidate_ok (2 ^ p_bits proto) w c" using c d by simp
  then show "\<exists>score. d_sync_score d w c = Some score \<and> \<bar>score\<bar> \<le> 255"
    using ft8_sync_score_total [OF w] ft4_sync_score_total [OF w] fst4_sync_score_total [OF w]
    by (cases proto) (simp_all add: d desc_defs p_defs)
qed (rule decode_total [OF assms])

section \<open>What is accepted is what is subtracted\<close>

text \<open>The word of the payload that is extracted from a packed frame with a valid checksum.\<close>

lemma bits_of_take: "n \<le> 80 \<Longrightarrow> bits_of (map ((!) f) [0..<10]) n = bits_of f n"
proof -
  assume "n \<le> 80"
  then have "i div 8 < 10" if "i < n" for i using that by (simp add: less_mult_imp_div_less)
  then show ?thesis by (auto simp: GET_BIT_def)
qed

lemma scramble_twice: "scramble (map (\<lambda>i. f ! i XOR kFT4_XOR_sequence ! i) [0..<10]) = map ((!) f) [0..<10]"
  by (intro nth_equalityI) (simp_all add: scramble_def xor.assoc)

lemma sent_word_again:
  fixes ops :: "'f float_ops"
  assumes "length f = 13" "d = ftx_protocol_get_desc ops qsort s proto" "d_check_crc d f"
    and "is_codeword (d_ldpc_k d) (p_code proto) ((!) c)" "length c = d_ldpc_n d" "take (d_ldpc_k d) c = bits_of f (d_ldpc_k d)"
  shows "sent_word proto (extract_payload d f) = c"
proof -
  let ?q = "map ((!) f) [0..<10]"
  have len: "12 \<le> length f" "13 \<le> length f" "10 \<le> length f" "10 \<le> length ?q" "7 \<le> length ?q" using assms(1) by simp_all
  have bits: "bits_of ?q 77 = bits_of f 77" "bits_of ?q 50 = bits_of f 50" by (rule bits_of_take; simp)+
  show ?thesis
    using ft8_code.word_again [OF len(1) _ len(4) bits(1), of c] fst4_code_frame.word_again [OF len(2) _ len(4) bits(1), of c]
      fst4w_code_frame.word_again [OF len(3) _ len(5) bits(2), of c] assms(2-6)
    by (cases proto) (simp_all add: desc_defs p_defs sent_word_def extract_payload_def scramble_twice ftx_lengths fst4_lengths fst4w_lengths)
qed

lemma ldpc_lengths:
  fixes ops :: "'f float_ops"
  assumes "d = ftx_protocol_get_desc ops qsort s proto"
  shows "d_ldpc_n d \<le> 240" "d_ldpc_k d \<le> 101" "(d_ldpc_k d + 7) div 8 \<le> 13" "d_ldpc_k d \<le> d_ldpc_n d"
  using assms by (cases proto; simp add: desc_defs)+

lemma sent_word_length: "length (sent_word proto p) = d_ldpc_n (ftx_protocol_get_desc ops qsort s proto)"
  by (cases proto) (simp_all add: sent_word_def desc_defs ft8_code.word_def fst4_code_frame.word_def fst4w_code_frame.word_def
    ftx_lengths fst4_lengths fst4w_lengths)

lemma sent_word_codeword:
  "10 \<le> length p \<Longrightarrow> is_codeword (d_ldpc_k (ftx_protocol_get_desc ops qsort s proto)) (p_code proto) ((!) (sent_word proto p))"
  using ft8_code.word_codeword fst4_code_frame.word_codeword fst4w_code_frame.word_codeword
  by (cases proto) (simp_all add: sent_word_def desc_defs p_defs scramble_length)

text \<open>A successful call, step by step.\<close>

lemma decode_True:
  assumes "ftx_decode_candidate ops d s w c iters m st = Some (True, m', st', w')"
    and "d_extract_likelihood d w c (s_llr s) = Some l"
    and "llr = ftx_normalize_logl ops l (d_ldpc_n d)"
    and "d_ldpc_decode d ((!) llr) iters (s_plain s) = (plain, errors)"
  obtains plain' where "osd_fallback d ((!) llr) errors plain = (plain', True)"
    "d_check_crc d (pack_bits plain' (d_ldpc_k d) (s_packed s))"
    "payload m' = extract_payload d (pack_bits plain' (d_ldpc_k d) (s_packed s))"
    "crc_valid st'" "ldpc_errors st' = errors"
proof -
  obtain plain' go where g: "osd_fallback d ((!) llr) errors plain = (plain', go)" by force
  have "\<exists>snr. go \<and> d_check_crc d (pack_bits plain' (d_ldpc_k d) (s_packed s)) \<and>
      m' = m\<lparr>hash := ucast (d_extract_crc d (pack_bits plain' (d_ldpc_k d) (s_packed s))),
        payload := extract_payload d (pack_bits plain' (d_ldpc_k d) (s_packed s)), snr := snr\<rparr> \<and>
      st' = st\<lparr>ldpc_errors := errors, crc_valid := True\<rparr>"
    using assms(1) unfolding ftx_decode_candidate_def Let_def assms(2) bind.bind_lunit assms(3) [symmetric] assms(4) prod.case g
    by (auto split: if_splits bind_splits)
  then show ?thesis using that g by auto
qed


section \<open>Clean reception\<close>

text \<open>
  What the theorem below needs from the arithmetic: magnitudes compare like the bytes they stand for, and
  scaling by the factor \<open>k\<close> keeps the sign of a difference of two magnitudes. (The magnitudes are multiples of
  0.5 between -120 and 7.5, so IEEE arithmetic computes their differences exactly.)
\<close>

definition exact_order :: "'f float_ops \<Rightarrow> 'f \<Rightarrow> bool" where
  "exact_order ops k \<longleftrightarrow> (\<forall>a b. f_ge ops (mag_float ops a) (mag_float ops b) \<longleftrightarrow> b \<le> a) \<and>
     (\<forall>a b. f_gt ops (f_mul ops (f_sub ops (mag_float ops a) (mag_float ops b)) k) (f_lit ops 0 1) \<longleftrightarrow> b < a)"

text \<open>The waterfall shows the tones at the candidate: the tone's bin is louder than the others of its symbol.\<close>

definition shows_tones :: "waterfall \<Rightarrow> candidate \<Rightarrow> nat \<Rightarrow> nat \<Rightarrow> nat list \<Rightarrow> u8 \<Rightarrow> u8 \<Rightarrow> bool" where
  "shows_tones w c num_symbols num_tones tones loud quiet \<longleftrightarrow>
     0 \<le> time_offset c \<and> time_offset c + int num_symbols \<le> num_blocks w \<and>
     (\<forall>i < num_symbols. \<forall>t < num_tones. mag w ! nat (get_cand_mag w c + int i * block_stride w + int t) =
       (if t = tones ! i then loud else quiet))"

definition decide :: "'f float_ops \<Rightarrow> 'f \<Rightarrow> 'f \<Rightarrow> bool" where
  "decide ops k x = f_gt ops (f_mul ops x k) (f_lit ops 0 1)"

lemma max_mags:
  assumes "exact_order ops k"
  shows "max2 ops (mag_float ops a) (mag_float ops b) = mag_float ops (max a b)"
    "max4 ops (mag_float ops a) (mag_float ops b) (mag_float ops e) (mag_float ops f) = mag_float ops (max (max a b) (max e f))"
    "decide ops k (f_sub ops (mag_float ops a) (mag_float ops b)) \<longleftrightarrow> b < a"
proof -
  have two: "max2 ops (mag_float ops x) (mag_float ops y) = mag_float ops (max x y)" for x y
    using assms by (cases "y \<le> x") (auto simp: exact_order_def max2_def max_def)
  then show "max2 ops (mag_float ops a) (mag_float ops b) = mag_float ops (max a b)" .
  show "max4 ops (mag_float ops a) (mag_float ops b) (mag_float ops e) (mag_float ops f) = mag_float ops (max (max a b) (max e f))"
    by (simp only: max4_def two)
  show "decide ops k (f_sub ops (mag_float ops a) (mag_float ops b)) \<longleftrightarrow> b < a"
    using assms by (simp add: exact_order_def decide_def)
qed

lemma decide_symbol:
  assumes "exact_order ops k" "quiet < loud"
  shows "t \<in> set kFT8_Gray_map \<Longrightarrow> map (decide ops k) (ft8_llr ops (map (\<lambda>g. mag_float ops (if g = t then loud else quiet)) kFT8_Gray_map))
      = bits_msb 3 (gray_index kFT8_Gray_map t)"
    and "t \<in> set kFT4_Gray_map \<Longrightarrow> map (decide ops k) (ft4_llr ops (map (\<lambda>g. mag_float ops (if g = t then loud else quiet)) kFT4_Gray_map))
      = bits_msb 2 (gray_index kFT4_Gray_map t)"
proof -
  have le: "max loud quiet = loud" "max quiet loud = loud" "quiet < loud" "\<not> loud < quiet" using assms(2) by (auto simp: max_def)
  have m: "bits_msb 2 v = [bit v 1, bit v 0]" "bits_msb 3 v = [bit v 2, bit v 1, bit v 0]" for v
    by (simp_all add: bits_msb_def upt_rec numeral_2_eq_2)
  assume "t \<in> set kFT8_Gray_map"
  then have "t = 0 \<or> t = 1 \<or> t = 3 \<or> t = 2 \<or> t = 5 \<or> t = 6 \<or> t = 4 \<or> t = 7" by (simp add: kFT8_Gray_map_def)
  then show "map (decide ops k) (ft8_llr ops (map (\<lambda>g. mag_float ops (if g = t then loud else quiet)) kFT8_Gray_map))
      = bits_msb 3 (gray_index kFT8_Gray_map t)"
    unfolding m kFT8_Gray_map_def
    by (elim disjE) (simp_all add: ft8_llr_def max_mags [OF assms(1)] gray_index_def bit_iff_odd le)
next
  have le: "max loud quiet = loud" "max quiet loud = loud" "quiet < loud" "\<not> loud < quiet" using assms(2) by (auto simp: max_def)
  have m: "bits_msb 2 v = [bit v 1, bit v 0]" "bits_msb 3 v = [bit v 2, bit v 1, bit v 0]" for v
    by (simp_all add: bits_msb_def upt_rec numeral_2_eq_2)
  assume "t \<in> set kFT4_Gray_map"
  then have "t = 0 \<or> t = 1 \<or> t = 3 \<or> t = 2" by (simp add: kFT4_Gray_map_def)
  then show "map (decide ops k) (ft4_llr ops (map (\<lambda>g. mag_float ops (if g = t then loud else quiet)) kFT4_Gray_map))
      = bits_msb 2 (gray_index kFT4_Gray_map t)"
    unfolding m kFT4_Gray_map_def
    by (elim disjE) (simp_all add: ft4_llr_def max_mags [OF assms(1)] gray_index_def bit_iff_odd le)
qed

definition p_llr :: "'f float_ops \<Rightarrow> ftx_protocol \<Rightarrow> 'f list \<Rightarrow> 'f list" where
  "p_llr ops proto = (case proto of FTX_PROTOCOL_FT8 \<Rightarrow> ft8_llr ops | _ \<Rightarrow> ft4_llr ops)"

definition p_data :: "ftx_protocol \<Rightarrow> nat list" where
  "p_data proto = (case proto of FTX_PROTOCOL_FT8 \<Rightarrow> ft8_data | FTX_PROTOCOL_FT4 \<Rightarrow> ft4_data | _ \<Rightarrow> fst4_data)"

lemma p_data: "filter (\<lambda>i. p_sync proto i = None) [0..<p_symbols proto] = p_data proto"
  using data_positions by (cases proto) (simp_all add: p_defs p_data_def)

lemma p_likelihood:
  fixes ops :: "'f float_ops"
  assumes "waterfall_ok w" "candidate_ok (2 ^ p_bits proto) w c" "240 \<le> length l"
  shows "d_extract_likelihood (ftx_protocol_get_desc ops qsort s proto) w c l =
    Some (slot 0 (concat (map (symbol_llr ops (p_llr ops proto) (p_bits proto) (p_gray proto) w c) (p_data proto))) l)"
  using assms ft8_likelihood [where ops = ops] ft4_likelihood [where ops = ops] fst4_likelihood [where ops = ops]
  by (cases proto) (simp_all add: desc_defs p_defs p_llr_def p_data_def)

lemma decide_data:
  assumes "exact_order ops k" "quiet < loud" "shows_tones w c (p_symbols proto) (2 ^ p_bits proto) tones loud quiet"
    and "i \<in> set (p_data proto)" "tones ! i \<in> set (p_gray proto)"
  shows "map (decide ops k) (symbol_llr ops (p_llr ops proto) (p_bits proto) (p_gray proto) w c i) =
    bits_msb (p_bits proto) (gray_index (p_gray proto) (tones ! i))"
proof -
  have i: "i < p_symbols proto" using assms(4) by (auto simp: p_data [symmetric])
  have "g < 2 ^ p_bits proto" if "g \<in> set (p_gray proto)" for g
    using that gray_small by (cases proto) (auto simp: p_defs)
  then have "bin_mags ops w (get_cand_mag w c + int i * block_stride w) (p_gray proto) =
      map (\<lambda>g. mag_float ops (if g = tones ! i then loud else quiet)) (p_gray proto)"
    using assms(3) i unfolding bin_mags_def shows_tones_def by (intro map_cong refl) auto
  moreover have "0 \<le> time_offset c + int i \<and> time_offset c + int i < num_blocks w"
    using assms(3) i by (auto simp: shows_tones_def)
  ultimately show ?thesis
    using decide_symbol [OF assms(1,2)] assms(5) by (cases proto) (simp_all add: symbol_llr_def p_defs p_llr_def)
qed

lemma received_payload:
  fixes ops :: "'f float_ops"
  assumes "length f = 13" "10 \<le> length p" "d = ftx_protocol_get_desc ops qsort s proto"
    and "bits_of f (d_ldpc_k d) = take (d_ldpc_k d) (sent_word proto p)"
  shows "d_check_crc d f" "bits_of (extract_payload d f) (p_payload_bits proto) = bits_of p (p_payload_bits proto)"
proof -
  have len: "12 \<le> length f" "13 \<le> length f" "10 \<le> length f" "10 \<le> length (scramble p)" "7 \<le> length p"
    using assms(1,2) by (simp_all add: scramble_length)
  have x: "extract_payload d f = scramble f" if "d_xor_payload d" using that by (simp add: extract_payload_def scramble_def)
  have unscr: "bits_of (scramble f) 77 = bits_of p 77" if "bits_of f 77 = bits_of (scramble p) 77"
    using bits_of_scramble [OF len(3), of 77] unscramble [OF assms(2), of 77] that by simp
  have bits: "bits_of (map ((!) f) [0..<10]) 77 = bits_of f 77" "bits_of (map ((!) f) [0..<10]) 50 = bits_of f 50" by (rule bits_of_take; simp)+
  note ft8 = ft8_code.check_received [OF len(1) assms(2)] and ft4 = ft8_code.check_received [OF len(1) len(4)]
    and fst4 = fst4_code_frame.check_received [OF len(2) len(4)] and fst4w = fst4w_code_frame.check_received [OF len(3) len(5)]
  note words = ft8_code.word_info [OF assms(2)] ft8_code.word_info [OF len(4)] fst4_code_frame.word_info [OF len(4)]
    fst4w_code_frame.word_info [OF len(5)]
  show "d_check_crc d f"
    using assms(3,4) ft8(1) ft4(1) fst4(1) fst4w(1) words by (cases proto) (simp_all add: desc_defs sent_word_def)
  show "bits_of (extract_payload d f) (p_payload_bits proto) = bits_of p (p_payload_bits proto)"
  proof (cases "d_xor_payload d")
    case True
    then have "bits_of f 77 = bits_of (scramble p) 77" "p_payload_bits proto = 77"
      using assms(3,4) ft4(2) fst4(2) words by (cases proto; simp add: desc_defs sent_word_def p_defs)+
    then show ?thesis unfolding x [OF True] using unscr by simp
  next
    case False
    then have "extract_payload d f = map ((!) f) [0..<10]" using assms(3) by (cases proto) (simp_all add: desc_defs extract_payload_def)
    then show ?thesis
      using False assms(3,4) ft8(2) fst4w(2) words bits by (cases proto) (simp_all add: desc_defs sent_word_def p_defs)
  qed
qed

text \<open>
  C2: from the transmitter's payload to the receiver's. If the waterfall shows, at the candidate, the tones
  that a protocol's encoder makes from a payload of ten bytes (each louder than the rest of its symbol), and
  the word that is sent is not the zero word, then decoding the candidate succeeds in the first iteration and
  yields a message with the payload's bits: 77 of them, or 50 in FST4W.
\<close>

theorem clean_reception:
  fixes ops :: "'f float_ops"
  assumes w: "waterfall_ok w" and c: "candidate_ok (d_num_tones d) w c" and s: "scratch_ok s"
    and d: "d = ftx_protocol_get_desc ops qsort s proto" and p: "10 \<le> length p"
    and tones: "tones = d_encode d p (s_tones s)" and shown: "shows_tones w c (d_num_symbols d) (d_num_tones d) tones loud quiet"
    and loud: "quiet < loud" and nonzero: "True \<in> set (channel_bits proto tones)" and iters: "0 < max_iterations"
    and l: "d_extract_likelihood d w c (s_llr s) = Some l" and order: "exact_order ops (norm_factor ops l (d_ldpc_n d))"
  shows "\<exists>m' st' w'. ftx_decode_candidate ops d s w c max_iterations m st = Some (True, m', st', w') \<and>
    ldpc_errors st' = 0 \<and> crc_valid st' \<and> bits_of (payload m') (p_payload_bits proto) = bits_of p (p_payload_bits proto)"
proof -
  let ?k = "norm_factor ops l (d_ldpc_n d)" and ?c = "sent_word proto p"
  let ?sym = "symbol_llr ops (p_llr ops proto) (p_bits proto) (p_gray proto) w c"
  let ?llr = "ftx_normalize_logl ops l (d_ldpc_n d)"
  have c': "candidate_ok (2 ^ p_bits proto) w c" using c d by simp
  have size: "240 \<le> length (s_llr s)" "240 \<le> length (s_plain s)" "length (s_packed s) = 13" using s by (simp_all add: scratch_ok_def)
  note enc = encode_tones [OF s p, where ops = ops and qsort = qsort and proto = proto, folded d, folded tones]
  have data: "i < p_symbols proto" "p_sync proto i = None" if "i \<in> set (p_data proto)" for i
    using that by (auto simp: p_data [symmetric])
  have word: "length ?c = d_ldpc_n d" "is_codeword (d_ldpc_k d) (p_code proto) ((!) ?c)"
    unfolding d by (rule sent_word_length, rule sent_word_codeword [OF p])
  have bits: "concat (map (\<lambda>i. map (decide ops ?k) (?sym i)) (p_data proto)) = ?c"
  proof -
    have "concat (map (\<lambda>i. map (decide ops ?k) (?sym i)) (p_data proto)) = channel_bits proto tones"
      unfolding channel_bits_def demodulate_def p_data
      using decide_data [OF order loud shown [unfolded d desc_numbers]] enc(3) [OF data]
      by (intro arg_cong [where f = concat] map_cong refl) auto
    then show ?thesis using enc(1) by simp
  qed
  have l_eq: "l = slot 0 (concat (map ?sym (p_data proto))) (s_llr s)"
    using p_likelihood [OF w c' size(1), of ops qsort s] l unfolding d by simp
  have hard: "f_gt ops (?llr ! n) (f_lit ops 0 1) = ?c ! n" if "n < d_ldpc_n d" for n
  proof -
    let ?ls = "concat (map ?sym (p_data proto))"
    have map: "map (decide ops ?k) ?ls = ?c" using bits by (simp add: map_concat o_def)
    then have "length ?ls = d_ldpc_n d" using word(1) by (metis length_map)
    then have n: "n < length ?ls" "d_ldpc_n d \<le> length l" "l ! n = ?ls ! n"
      using that size(1) ldpc_lengths(1) [OF d] l_eq by (simp_all add: slot_def nth_append)
    then have "f_gt ops (?llr ! n) (f_lit ops 0 1) = decide ops ?k (?ls ! n)"
      using normalize_nth [OF n(2) that, of ops] by (simp add: decide_def)
    also have "\<dots> = ?c ! n" using map n(1) by (metis nth_map)
    finally show ?thesis .
  qed
  have some: "list_ex (\<lambda>b. b) ?c" using nonzero enc(1) by (simp add: list_ex_True)
  have bp: "d_ldpc_decode d ((!) ?llr) max_iterations (s_plain s) = (?c @ drop (d_ldpc_n d) (s_plain s), 0)"
    using bp_ftx.run_clean [OF _ _ some iters, where cw = "(!) ?llr" and ops = ops] bp_fst4.run_clean [OF _ _ some iters, where cw = "(!) ?llr" and ops = ops]
      bp_fst4w.run_clean [OF _ _ some iters, where cw = "(!) ?llr" and ops = ops] word hard
    by (cases proto) (simp_all add: d desc_defs p_defs bp_defs bp_sizes)
  obtain ok m' st' w' where run: "ftx_decode_candidate ops d s w c max_iterations m st = Some (ok, m', st', w')"
    using decode_total [OF w c s d] by blast
  let ?plain = "?c @ drop (d_ldpc_n d) (s_plain s)" and ?f = "pack_bits (?c @ drop (d_ldpc_n d) (s_plain s)) (d_ldpc_k d) (s_packed s)"
  note len = ldpc_lengths [OF d]
  have f: "length ?f = 13" using pack_bits_bits(1) len(3) size(3) by simp
  have frame: "bits_of ?f (d_ldpc_k d) = take (d_ldpc_k d) ?c"
    using bits_of_pack [of "d_ldpc_k d" "s_packed s" ?plain] len size word(1) by simp
  note received = received_payload [OF f p d frame]
  have "osd_fallback d ((!) ?llr) 0 ?plain = (?plain, True)" by (simp add: osd_fallback_def)
  then have "ok \<and> st' = st\<lparr>ldpc_errors := 0, crc_valid := True\<rparr> \<and> payload m' = extract_payload d ?f"
    using run received(1) unfolding ftx_decode_candidate_def Let_def l bind.bind_lunit bp prod.case
    by (auto split: if_splits bind_splits)
  then show ?thesis using run received(2) by auto
qed

section \<open>A concrete reception\<close>

text \<open>An FT8 transmission in a waterfall of 79 symbols and 8 bins.\<close>

definition demo_scratch :: "int scratch" where
  "demo_scratch = \<lparr>s_midx = \<lambda>_ _. 9, s_tov = \<lambda>_ _. 7, s_toc = \<lambda>_ _. 5, s_best = [], s_xcode = replicate 174 True,
     s_llr = replicate 240 3, s_plain = replicate 240 True, s_packed = replicate 13 0xFF, s_a91 = replicate 12 0xAA, s_tones = replicate 160 9\<rparr>"

definition demo_desc :: "int protocol_desc" where
  "demo_desc = ftx_protocol_get_desc fixed_ops (\<lambda>cmp xs. xs) demo_scratch FTX_PROTOCOL_FT8"

definition demo_payload :: "u8 list" where
  "demo_payload = [0x1C, 0x3F, 0x8A, 0x6A, 0xE2, 0x07, 0xA1, 0xE3, 0x94, 0xD1]"

definition demo_tones :: "nat list" where
  "demo_tones = d_encode demo_desc demo_payload (s_tones demo_scratch)"

definition demo_waterfall :: waterfall where
  "demo_waterfall = \<lparr>max_blocks = 79, num_blocks = 79, num_bins = 8, time_osr = 1, freq_osr = 1,
     mag = concat (map (\<lambda>i. map (\<lambda>t. if t = demo_tones ! i then 200 else 50) [0..<8]) [0..<79]), block_stride = 8\<rparr>"

definition demo_candidate :: candidate where
  "demo_candidate = \<lparr>score = 0, time_offset = 0, freq_offset = 0, time_sub = 0, freq_sub = 0\<rparr>"

lemma nth_grid: "i < n \<Longrightarrow> t < m \<Longrightarrow> concat (map (\<lambda>i. map (f i) [0..<m]) [0..<n]) ! (i * m + t) = f i t"
proof (induction n)
  case (Suc n)
  have len: "length (concat (map (\<lambda>i. map (f i) [0..<m]) [0..<n])) = n * m" by (induction n) simp_all
  show ?case
  proof (cases "i = n")
    case False
    then have "i < n" using Suc.prems by simp
    then have "i * m + t < n * m" using Suc.prems(2) mult_le_mono1 [of "Suc i" n m] by simp
    then show ?thesis using Suc \<open>i < n\<close> len by (simp add: nth_append)
  qed (use Suc.prems len in \<open>simp add: nth_append\<close>)
qed simp

lemma demo_ok: "waterfall_ok demo_waterfall" "candidate_ok (d_num_tones demo_desc) demo_waterfall demo_candidate" "scratch_ok demo_scratch"
  "10 \<le> length demo_payload"
  "shows_tones demo_waterfall demo_candidate (d_num_symbols demo_desc) (d_num_tones demo_desc) demo_tones 200 50"
proof -
  have len: "length (mag demo_waterfall) = 632"
    by (simp add: demo_waterfall_def length_concat o_def sum_list_triv)
  then show "waterfall_ok demo_waterfall" by (simp add: waterfall_ok_def) (simp add: demo_waterfall_def)
  show "candidate_ok (d_num_tones demo_desc) demo_waterfall demo_candidate" "scratch_ok demo_scratch" "10 \<le> length demo_payload"
    by (simp_all add: candidate_ok_def demo_desc_def demo_waterfall_def demo_candidate_def p_defs scratch_ok_def demo_scratch_def demo_payload_def)
  have "mag demo_waterfall ! (i * 8 + t) = (if t = demo_tones ! i then 200 else 50)" if "i < 79" "t < 8" for i t
    using nth_grid [OF that, of "\<lambda>i t. if t = demo_tones ! i then 200 else 50"] by (simp only: demo_waterfall_def waterfall.simps)
  moreover have "nat (get_cand_mag demo_waterfall demo_candidate + int i * block_stride demo_waterfall + int t) = i * 8 + t" for i t
    by (simp add: get_cand_mag_def demo_candidate_def demo_waterfall_def nat_add_distrib nat_mult_distrib)
  ultimately show "shows_tones demo_waterfall demo_candidate (d_num_symbols demo_desc) (d_num_tones demo_desc) demo_tones 200 50"
    by (simp add: shows_tones_def demo_desc_def p_defs) (simp add: demo_candidate_def demo_waterfall_def)
qed

lemma demo_order: "exact_order fixed_ops (norm_factor fixed_ops l n)"
proof -
  have k: "norm_factor fixed_ops l n = 2" by (simp add: norm_factor_def Let_def split_beta fixed_ops_def)
  have m: "mag_float fixed_ops a = uint a - 240" for a by (simp add: mag_float_def fixed_ops_def)
  show ?thesis unfolding k exact_order_def m by (simp add: fixed_ops_def word_le_def word_less_def)
qed

lemma demo_nonzero: "True \<in> set (channel_bits FTX_PROTOCOL_FT8 demo_tones)"
proof -
  have "channel_bits FTX_PROTOCOL_FT8 demo_tones = sent_word FTX_PROTOCOL_FT8 demo_payload"
    unfolding demo_tones_def demo_desc_def by (rule encode_tones(1) [OF demo_ok(3,4)])
  then have *: "take 77 (channel_bits FTX_PROTOCOL_FT8 demo_tones) = bits_of demo_payload 77"
    using ft8_code.word_payload [OF demo_ok(4)] by (simp add: sent_word_def)
  have "GET_BIT demo_payload 3" by (simp add: demo_payload_def GET_BIT_def bit_iff_odd)
  moreover have "GET_BIT demo_payload 3 \<in> set (bits_of demo_payload 77)"
    by (simp only: list.set_map set_upt) (rule imageI, simp)
  ultimately have "True \<in> set (bits_of demo_payload 77)" by simp
  then show ?thesis using * in_set_takeD by metis
qed

lemma candidate_access_safe_witness:
  "\<exists>ok m' st' w'. ftx_decode_candidate fixed_ops demo_desc demo_scratch demo_waterfall demo_candidate 25
     \<lparr>payload = replicate 10 0, hash = 0, snr = 0\<rparr> \<lparr>ldpc_errors = 0, crc_valid = False\<rparr> = Some (ok, m', st', w') \<and>
     same_frame demo_waterfall w'"
  using candidate_access_safe [OF demo_ok(1-3) demo_desc_def] by blast

lemma clean_reception_witness:
  "\<exists>m' st' w'. ftx_decode_candidate fixed_ops demo_desc demo_scratch demo_waterfall demo_candidate 25
     \<lparr>payload = replicate 10 0, hash = 0, snr = 0\<rparr> \<lparr>ldpc_errors = 0, crc_valid = False\<rparr> = Some (True, m', st', w') \<and>
     ldpc_errors st' = 0 \<and> bits_of (payload m') 77 = bits_of demo_payload 77"
proof -
  have "240 \<le> length (s_llr demo_scratch)" by (simp add: demo_scratch_def)
  from likelihood_total [OF demo_ok(1) demo_ok(2) [unfolded demo_desc_def desc_numbers] this, of fixed_ops "\<lambda>cmp xs. xs" demo_scratch]
  obtain l where l: "d_extract_likelihood demo_desc demo_waterfall demo_candidate (s_llr demo_scratch) = Some l"
    by (auto simp: demo_desc_def)
  have "(50 :: u8) < 200" "(0 :: int) < 25" by simp_all
  from clean_reception [OF demo_ok(1-3) demo_desc_def demo_ok(4) demo_tones_def demo_ok(5) this(1) demo_nonzero this(2) l demo_order]
  show ?thesis by (simp add: p_payload_bits_def) blast
qed


end
