(* ===== verification/CandidateHeap.thy ===== *)
theory CandidateHeap
  imports FtxWaterfall "HOL-Library.Multiset"
begin

text \<open>
  The candidate list of the search, kept as a binary min-heap in an array: \<open>heapify_down\<close> and \<open>heapify_up\<close> of
  \<open>ft8_lib/ft8/decode.c\<close>, the replacement of the worst candidate and the final sorting loop of
  \<open>ftx_find_candidates\<close>.
\<close>

section \<open>The operations\<close>

definition smaller :: "candidate list \<Rightarrow> nat \<Rightarrow> nat \<Rightarrow> nat \<Rightarrow> nat" where
  "smaller heap heap_size child smallest =
     (if child < heap_size \<and> score (heap ! child) < score (heap ! smallest) then child else smallest)"

definition smallest_child :: "candidate list \<Rightarrow> nat \<Rightarrow> nat \<Rightarrow> nat" where
  "smallest_child heap heap_size current =
     (let left = 2 * current + 1; right = left + 1; smallest = current
      in smaller heap heap_size right (smaller heap heap_size left smallest))"

definition exchange :: "candidate list \<Rightarrow> nat \<Rightarrow> nat \<Rightarrow> candidate list" where
  "exchange heap a b = (let tmp = heap ! a in heap[a := heap ! b, b := tmp])"

function sift_down :: "nat \<Rightarrow> candidate list \<Rightarrow> nat \<Rightarrow> candidate list" where
  "sift_down heap_size heap current =
     (let smallest = smallest_child heap heap_size current
      in if smallest = current then heap else sift_down heap_size (exchange heap smallest current) smallest)"
  by auto
termination
  by (relation "measure (\<lambda>(n, h, c). n - c)") (auto simp: smallest_child_def smaller_def Let_def split: if_splits)

definition heapify_down :: "candidate list \<Rightarrow> nat \<Rightarrow> candidate list" where
  "heapify_down heap heap_size = sift_down heap_size heap 0"

definition parent :: "nat \<Rightarrow> nat" where "parent i = (i - 1) div 2"

lemma parent_less: "0 < i \<Longrightarrow> parent i < i"
  unfolding parent_def by (cases i) (auto simp: div_le_dividend le_imp_less_Suc)

function sift_up :: "candidate list \<Rightarrow> nat \<Rightarrow> candidate list" where
  "sift_up heap current =
     (if current > 0 then
        (if \<not> score (heap ! current) < score (heap ! parent current) then heap
         else sift_up (exchange heap (parent current) current) (parent current))
      else heap)"
  by auto
termination by (relation "measure snd") (auto simp: parent_less)

definition heapify_up :: "candidate list \<Rightarrow> nat \<Rightarrow> candidate list" where
  "heapify_up heap heap_size = sift_up heap (heap_size - 1)"

declare sift_down.simps [simp del] sift_up.simps [simp del]

text \<open>
  What happens to one candidate with a sufficient score. Reading \<open>heap[0]\<close> of an array without elements,
  or \<open>heap[-1]\<close>, is \<open>None\<close>.
\<close>

definition remove_worst :: "int \<Rightarrow> candidate \<Rightarrow> candidate list \<times> nat \<Rightarrow> (candidate list \<times> nat) option" where
  "remove_worst num_candidates cand = (\<lambda>(heap, heap_size).
     if int heap_size = num_candidates then
       (if heap = [] then None
        else if score cand > score (heap ! 0) then
          (if heap_size = 0 then None
           else let heap_size = heap_size - 1;
                    heap = heap[0 := heap ! heap_size]
                in Some (heapify_down heap heap_size, heap_size))
        else Some (heap, heap_size))
     else Some (heap, heap_size))"

definition add_candidate :: "int \<Rightarrow> candidate \<Rightarrow> candidate list \<times> nat \<Rightarrow> candidate list \<times> nat" where
  "add_candidate num_candidates cand = (\<lambda>(heap, heap_size).
     if int heap_size < num_candidates then
       (let heap = heap[heap_size := cand];
            heap_size = heap_size + 1
        in (heapify_up heap heap_size, heap_size))
     else (heap, heap_size))"

fun sort_loop :: "candidate list \<Rightarrow> nat \<Rightarrow> candidate list" where
  "sort_loop heap len_unsorted =
     (if len_unsorted > 1 then
        (let heap = exchange heap (len_unsorted - 1) 0;
             len_unsorted = len_unsorted - 1
         in sort_loop (heapify_down heap len_unsorted) len_unsorted)
      else heap)"

declare sort_loop.simps [simp del]

section \<open>The heap order\<close>

text \<open>
  The order, the order with a hole below \<open>c\<close> (for moving down) and with a hole above \<open>c\<close> (for moving up).
\<close>

definition heap_ok :: "candidate list \<Rightarrow> nat \<Rightarrow> bool" where
  "heap_ok h n \<longleftrightarrow> (\<forall>i<n. 0 < i \<longrightarrow> score (h ! parent i) \<le> score (h ! i))"

definition hole_below :: "candidate list \<Rightarrow> nat \<Rightarrow> nat \<Rightarrow> bool" where
  "hole_below h n c \<longleftrightarrow> (\<forall>i<n. 0 < i \<longrightarrow>
     (if parent i = c then 0 < c \<longrightarrow> score (h ! parent c) \<le> score (h ! i) else score (h ! parent i) \<le> score (h ! i)))"

definition hole_above :: "candidate list \<Rightarrow> nat \<Rightarrow> nat \<Rightarrow> bool" where
  "hole_above h n c \<longleftrightarrow> (\<forall>i<n. 0 < i \<longrightarrow>
     (i \<noteq> c \<longrightarrow> score (h ! parent i) \<le> score (h ! i)) \<and>
     (parent i = c \<longrightarrow> 0 < c \<longrightarrow> score (h ! parent c) \<le> score (h ! i)))"

lemma parent_child: "0 < i \<Longrightarrow> parent i = c \<longleftrightarrow> i = 2 * c + 1 \<or> i = 2 * c + 2"
  unfolding parent_def by presburger

lemma parent_of_child [simp]: "parent (Suc (2 * c)) = c" "parent (Suc (Suc (2 * c))) = c"
  by (simp_all add: parent_def)

lemma exchange_nth: "a < length h \<Longrightarrow> b < length h \<Longrightarrow> i < length h \<Longrightarrow>
    exchange h a b ! i = (if i = b then h ! a else if i = a then h ! b else h ! i)"
  by (simp add: exchange_def Let_def nth_list_update)

lemma length_exchange [simp]: "length (exchange h a b) = length h"
  by (simp add: exchange_def Let_def)

lemma take_exchange: "a < n \<Longrightarrow> b < n \<Longrightarrow> n \<le> length h \<Longrightarrow> take n (exchange h a b) = exchange (take n h) a b"
  by (simp add: exchange_def Let_def take_update_swap)

lemma exchange_frame:
  assumes "a < n" "b < n" "n \<le> length h"
  shows "mset (take n (exchange h a b)) = mset (take n h)" "drop n (exchange h a b) = drop n h"
proof -
  have "mset (exchange (take n h) a b) = mset (take n h)"
    using mset_swap [of b "take n h" a] assms by (simp add: exchange_def Let_def)
  then show "mset (take n (exchange h a b)) = mset (take n h)" using take_exchange [OF assms] by simp
  show "drop n (exchange h a b) = drop n h" using assms by (simp add: exchange_def Let_def)
qed

text \<open>The same elements in the first \<open>n\<close> places and nothing else changed.\<close>

definition permuted :: "nat \<Rightarrow> candidate list \<Rightarrow> candidate list \<Rightarrow> bool" where
  "permuted n h h' \<longleftrightarrow> mset (take n h') = mset (take n h) \<and> drop n h' = drop n h \<and> length h' = length h"

lemma permuted_refl [simp]: "permuted n h h"
  by (simp add: permuted_def)

lemma permuted_trans: "permuted n h h' \<Longrightarrow> permuted n h' h'' \<Longrightarrow> permuted n h h''"
  by (simp add: permuted_def)

lemma permuted_exchange: "a < n \<Longrightarrow> b < n \<Longrightarrow> n \<le> length h \<Longrightarrow> permuted n h (exchange h a b)"
  using exchange_frame by (simp add: permuted_def)

lemma permuted_more: "permuted m h h' \<Longrightarrow> m \<le> n \<Longrightarrow> permuted n h h'"
proof -
  assume p: "permuted m h h'" and "m \<le> n"
  then have "take n xs = take m xs @ take (n - m) (drop m xs)" for xs :: "candidate list"
    by (metis le_add_diff_inverse take_add)
  moreover have "drop n xs = drop (n - m) (drop m xs)" for xs :: "candidate list" using \<open>m \<le> n\<close> by simp
  ultimately show ?thesis using p unfolding permuted_def by (metis mset_append)
qed

lemma smallest_child_cases:
  assumes "s = smallest_child h n c"
  shows "s = c \<or> (s < n \<and> (s = 2 * c + 1 \<or> s = 2 * c + 2) \<and> score (h ! s) < score (h ! c))"
    and "2 * c + 1 < n \<Longrightarrow> score (h ! s) \<le> score (h ! (2 * c + 1))"
    and "2 * c + 2 < n \<Longrightarrow> score (h ! s) \<le> score (h ! (2 * c + 2))"
    and "score (h ! s) \<le> score (h ! c)"
  using assms by (auto simp: smallest_child_def smaller_def Let_def split: if_splits)

lemma smallest_child_least:
  assumes "s = smallest_child h n c" "i < n" "0 < i" "parent i = c"
  shows "score (h ! s) \<le> score (h ! i)"
proof -
  have "i = 2 * c + 1 \<or> i = 2 * c + 2" using parent_child [OF assms(3)] assms(4) by blast
  then show ?thesis using smallest_child_cases(2,3) [OF assms(1)] assms(2) by blast
qed

lemma hole_filled:
  assumes "hole_below h n c" "smallest_child h n c = c"
  shows "heap_ok h n"
  using assms smallest_child_least [OF assms(2) [symmetric]] unfolding heap_ok_def hole_below_def by metis

lemma hole_moves_down:
  assumes h: "hole_below h n c" "c < n" "n \<le> length h" and s: "s = smallest_child h n c" "s \<noteq> c"
  shows "hole_below (exchange h s c) n s"
proof -
  have sc: "s < n" "0 < s" "parent s = c" "score (h ! s) < score (h ! c)" "c < s"
    using smallest_child_cases(1) [OF s(1)] s(2) by auto
  have nth: "exchange h s c ! i = (if i = c then h ! s else if i = s then h ! c else h ! i)" if "i < n" for i
    using exchange_nth [of s h c i] sc(1) h(2,3) that by simp
  have "if parent i = s then 0 < s \<longrightarrow> score (exchange h s c ! parent s) \<le> score (exchange h s c ! i)
        else score (exchange h s c ! parent i) \<le> score (exchange h s c ! i)" if i: "i < n" "0 < i" for i
  proof -
    have pi: "parent i < i" "parent i < n" using parent_less [OF i(2)] i(1) by linarith+
    consider (below) "parent i = s" | (beside) "parent i = c" | (above) "i = c" | (else) "parent i \<noteq> s" "parent i \<noteq> c" "i \<noteq> c"
      by blast
    then show ?thesis
    proof cases
      case below
      then have "score (h ! s) \<le> score (h ! i)" "i \<noteq> s" "i \<noteq> c"
        using h(1) i sc pi unfolding hole_below_def by (metis less_not_refl, linarith, linarith)
      then show ?thesis using below sc nth i by simp
    next
      case beside
      then show ?thesis using smallest_child_least [OF s(1) i beside] sc nth i h(2) pi by auto
    next
      case above
      have "score (h ! parent c) \<le> score (h ! s)"
        using h(1) sc above i unfolding hole_below_def by metis
      then show ?thesis using above nth i sc pi h(2) by auto
    next
      case else
      then have "score (h ! parent i) \<le> score (h ! i)" "i \<noteq> s" using h(1) i sc unfolding hole_below_def by metis+
      then show ?thesis using else nth i pi by auto
    qed
  qed
  then show ?thesis unfolding hole_below_def by blast
qed

lemma sift_down_ok:
  "hole_below h n c \<Longrightarrow> c < n \<Longrightarrow> n \<le> length h \<Longrightarrow>
    heap_ok (sift_down n h c) n \<and> permuted n h (sift_down n h c)"
proof (induction n h c rule: sift_down.induct)
  case (1 n h c)
  let ?s = "smallest_child h n c"
  show ?case
  proof (cases "?s = c")
    case True
    then show ?thesis using hole_filled [OF 1(2) True] sift_down.simps [of n h c] by simp
  next
    case False
    then have "?s < n" using smallest_child_cases(1) [OF refl, of h n c] by auto
    moreover have "permuted n h (exchange h ?s c)" using permuted_exchange 1(3,4) \<open>?s < n\<close> by blast
    ultimately show ?thesis
      using 1(1) [OF refl False hole_moves_down [OF 1(2-4) refl False]] 1(4) False sift_down.simps [of n h c]
        permuted_trans by (metis (full_types) length_exchange)
  qed
qed

lemma heapify_down_ok:
  assumes "hole_below h n 0" "n \<le> length h"
  shows "heap_ok (heapify_down h n) n" "permuted n h (heapify_down h n)"
proof -
  have "heap_ok (heapify_down h n) n \<and> permuted n h (heapify_down h n)"
  proof (cases "n = 0")
    case True
    have "smallest_child h 0 0 = 0" by (simp add: smallest_child_def smaller_def)
    then show ?thesis using True by (simp add: heapify_down_def sift_down.simps [of 0] heap_ok_def)
  qed (use sift_down_ok [OF assms(1) _ assms(2)] in \<open>simp add: heapify_down_def\<close>)
  then show "heap_ok (heapify_down h n) n" "permuted n h (heapify_down h n)" by simp_all
qed

lemma hole_moves_up:
  assumes h: "hole_above h n c" "c < n" "n \<le> length h" "0 < c" and lt: "score (h ! c) < score (h ! parent c)"
  shows "hole_above (exchange h (parent c) c) n (parent c)"
proof -
  let ?p = "parent c"
  have p: "?p < c" "?p < n" using parent_less [OF h(4)] h(2) by linarith+
  have nth: "exchange h ?p c ! i = (if i = c then h ! ?p else if i = ?p then h ! c else h ! i)" if "i < n" for i
    using exchange_nth [of ?p h c i] p h(2,3) that by simp
  have up: "i \<noteq> c \<Longrightarrow> score (h ! parent i) \<le> score (h ! i)" and
    around: "parent i = c \<Longrightarrow> score (h ! ?p) \<le> score (h ! i)" if "i < n" "0 < i" for i
    using h(1,4) that unfolding hole_above_def by blast+
  have "(i \<noteq> ?p \<longrightarrow> score (exchange h ?p c ! parent i) \<le> score (exchange h ?p c ! i)) \<and>
     (parent i = ?p \<longrightarrow> 0 < ?p \<longrightarrow> score (exchange h ?p c ! parent ?p) \<le> score (exchange h ?p c ! i))"
    if i: "i < n" "0 < i" for i
  proof (intro conjI impI)
    have pi: "parent i < i" "parent i < n" using parent_less [OF i(2)] i(1) by linarith+
    assume "i \<noteq> ?p"
    consider "i = c" | "parent i = c" "i \<noteq> c" | "parent i = ?p" "i \<noteq> c" | "parent i \<noteq> c" "parent i \<noteq> ?p" "i \<noteq> c" by blast
    then show "score (exchange h ?p c ! parent i) \<le> score (exchange h ?p c ! i)"
    proof cases
      case 1
      then show ?thesis using nth [OF i(1)] nth [OF p(2)] lt p by simp
    next
      case 2
      then show ?thesis using nth [OF i(1)] nth [OF h(2)] around [OF i] \<open>i \<noteq> ?p\<close> by simp
    next
      case 3
      then show ?thesis using nth [OF i(1)] nth [OF p(2)] up [OF i] lt \<open>i \<noteq> ?p\<close> p by auto
    next
      case 4
      then show ?thesis using nth [OF i(1)] nth [OF pi(2)] up [OF i] \<open>i \<noteq> ?p\<close> by simp
    qed
  next
    have pi: "parent i < i" "parent i < n" using parent_less [OF i(2)] i(1) by linarith+
    assume a: "parent i = ?p" "0 < ?p"
    have pp: "parent ?p < ?p" using parent_less [OF a(2)] .
    have 1: "exchange h ?p c ! parent ?p = h ! parent ?p" using nth [of "parent ?p"] pp p by simp
    have 2: "score (h ! parent ?p) \<le> score (h ! ?p)" using up [OF p(2) a(2)] p by simp
    show "score (exchange h ?p c ! parent ?p) \<le> score (exchange h ?p c ! i)"
    proof (cases "i = c")
      case False
      then have "score (h ! ?p) \<le> score (h ! i)" using up [OF i] a by simp
      moreover have "i \<noteq> ?p" using pi a by auto
      ultimately show ?thesis using 1 2 nth [OF i(1)] False by simp
    qed (use 1 2 nth [OF i(1)] in simp)
  qed
  then show ?thesis unfolding hole_above_def by blast
qed

lemma sift_up_ok:
  "hole_above h n c \<Longrightarrow> c < n \<Longrightarrow> n \<le> length h \<Longrightarrow> heap_ok (sift_up h c) n \<and> permuted n h (sift_up h c)"
proof (induction h c rule: sift_up.induct)
  case (1 h c)
  show ?case
  proof (cases "0 < c \<and> score (h ! c) < score (h ! parent c)")
    case True
    then have "parent c < n" using parent_less [of c] 1(3) by linarith
    moreover have "permuted n h (exchange h (parent c) c)" using permuted_exchange 1(3,4) \<open>parent c < n\<close> by blast
    ultimately show ?thesis
      using 1(1) [OF _ _ hole_moves_up [OF 1(2-4)]] 1(4) True sift_up.simps [of h c] permuted_trans
      by auto
  next
    case False
    then have "sift_up h c = h" by (auto simp: sift_up.simps [of h c])
    moreover have "heap_ok h n" using 1(2) False unfolding heap_ok_def hole_above_def by force
    ultimately show ?thesis by simp
  qed
qed

text \<open>The root is the least.\<close>

lemma root_least: "heap_ok h n \<Longrightarrow> i < n \<Longrightarrow> score (h ! 0) \<le> score (h ! i)"
proof (induction i rule: less_induct)
  case (less i)
  show ?case
  proof (cases "i = 0")
    case False
    then have "parent i < i" using parent_less by simp
    then have "score (h ! 0) \<le> score (h ! parent i)" using less by simp
    also have "\<dots> \<le> score (h ! i)" using less.prems False by (simp add: heap_ok_def)
    finally show ?thesis .
  qed simp
qed

lemma root_changed: "heap_ok h n \<Longrightarrow> n \<le> length h \<Longrightarrow> hole_below (h[0 := x]) n 0"
proof -
  assume h: "heap_ok h n" "n \<le> length h"
  have "score (h[0 := x] ! parent i) \<le> score (h[0 := x] ! i)" if "i < n" "0 < i" "parent i \<noteq> 0" for i
    using h that unfolding heap_ok_def by (metis nth_list_update_neq less_not_refl)
  then show ?thesis unfolding hole_below_def by auto
qed

lemma heap_ok_less: "heap_ok h n \<Longrightarrow> m \<le> n \<Longrightarrow> heap_ok h m"
  by (simp add: heap_ok_def)

lemma hole_below_less: "hole_below h n c \<Longrightarrow> m \<le> n \<Longrightarrow> hole_below h m c"
  by (simp add: hole_below_def)

lemma appended: "heap_ok h n \<Longrightarrow> n < length h \<Longrightarrow> hole_above (h[n := x]) (n + 1) n"
proof -
  assume h: "heap_ok h n" "n < length h"
  have "score (h[n := x] ! parent i) \<le> score (h[n := x] ! i)" if "i < n" "0 < i" for i
  proof -
    have "parent i < i" using parent_less [OF that(2)] .
    then show ?thesis using h(1) that by (simp add: heap_ok_def)
  qed
  moreover have "parent i \<noteq> n" if "i < n + 1" "0 < i" for i using parent_less [OF that(2)] that(1) by linarith
  ultimately show ?thesis unfolding hole_above_def by (metis less_add_one Suc_eq_plus1 less_antisym)
qed

section \<open>Keeping the best\<close>

text \<open>
  \<open>best_of num xs h n\<close>: of the candidates \<open>xs\<close> met so far the first \<open>n\<close> places of \<open>h\<close> hold as many as fit, and
  none that was dropped is better than one that is kept.
\<close>

definition best_of :: "nat \<Rightarrow> candidate multiset \<Rightarrow> candidate multiset \<Rightarrow> bool" where
  "best_of num xs kept \<longleftrightarrow> (\<exists>dropped. xs = kept + dropped \<and> size kept = min num (size xs) \<and>
     (\<forall>d \<in># dropped. \<forall>k \<in># kept. score d \<le> score k))"

lemma best_of_room:
  assumes "best_of num xs kept" "size kept < num"
  shows "best_of num (add_mset c xs) (add_mset c kept)"
proof -
  obtain dropped where d: "xs = kept + dropped" "size kept = min num (size xs)" using assms(1) unfolding best_of_def by blast
  then have "size xs = size kept" using assms(2) by linarith
  moreover have "size xs = size kept + size dropped" using d(1) by simp
  ultimately have "size dropped = 0" by linarith
  then have "dropped = {#}" by simp
  then show ?thesis using d assms(2) unfolding best_of_def by (intro exI [of _ "{#}"]) auto
qed

lemma best_of_worse:
  assumes "best_of num xs kept" "size kept = num" "\<forall>k \<in># kept. score c \<le> score k"
  shows "best_of num (add_mset c xs) kept"
proof -
  obtain dropped where d: "xs = kept + dropped" "\<forall>d \<in># dropped. \<forall>k \<in># kept. score d \<le> score k"
    using assms(1) unfolding best_of_def by blast
  then show ?thesis using assms(2,3) unfolding best_of_def by (intro exI [of _ "add_mset c dropped"]) auto
qed

lemma best_of_replace:
  assumes "best_of num xs (add_mset m kept)" "Suc (size kept) = num" "\<forall>k \<in># kept. score m \<le> score k" "score m \<le> score c"
  shows "best_of num (add_mset c xs) (add_mset c kept)"
proof -
  obtain dropped where d: "xs = add_mset m kept + dropped" "\<forall>d \<in># dropped. \<forall>k \<in># add_mset m kept. score d \<le> score k"
    using assms(1) unfolding best_of_def by blast
  have "score x \<le> score c" if "x \<in># dropped" for x using d(2) that assms(4) by force
  then show ?thesis using d assms(2-4) unfolding best_of_def by (intro exI [of _ "add_mset m dropped"]) auto
qed

lemma mset_take_Suc: "n < length h \<Longrightarrow> mset (take (Suc n) h) = add_mset (h ! n) (mset (take n h))"
  by (simp add: take_Suc_conv_app_nth)

lemma mset_take_root: "0 < n \<Longrightarrow> n \<le> length h \<Longrightarrow> mset (take n h) = add_mset (h ! 0) (mset (take (n - 1) (h[0 := h ! (n - 1)])))"
proof -
  assume n: "0 < n" "n \<le> length h"
  have "mset (take (n - 1) (h[0 := h ! (n - 1)])) = add_mset (h ! (n - 1)) (mset (take (n - 1) h)) - {#h ! 0#}"
  proof (cases "n - 1 = 0")
    case False
    then have "0 < length (take (n - 1) h)" "h ! 0 \<in># mset (take (n - 1) h)"
      using n by (cases h, auto simp: take_Cons')+
    then show ?thesis using n False by (simp add: take_update_swap mset_update)
  qed simp
  moreover have "mset (take n h) = add_mset (h ! (n - 1)) (mset (take (n - 1) h))"
    using mset_take_Suc [of "n - 1" h] n by simp
  moreover have "h ! 0 \<in># mset (take n h)" using n by (cases h) (auto simp: take_Cons')
  ultimately show ?thesis by simp
qed

lemma kept_le_root:
  assumes "heap_ok h n" "n \<le> length h" "k \<in># mset (take n h)"
  shows "score (h ! 0) \<le> score k"
  using assms root_least by (auto simp: in_set_conv_nth)

text \<open>The invariant of the search and its two operations.\<close>

definition search_ok :: "nat \<Rightarrow> candidate list \<Rightarrow> candidate multiset \<Rightarrow> candidate list \<times> nat \<Rightarrow> bool" where
  "search_ok num heap0 xs = (\<lambda>(h, n). heap_ok h n \<and> n \<le> num \<and> length h = length heap0 \<and> drop num h = drop num heap0 \<and>
     best_of num xs (mset (take n h)))"

definition offer :: "int \<Rightarrow> candidate \<Rightarrow> candidate list \<times> nat \<Rightarrow> (candidate list \<times> nat) option" where
  "offer num_candidates cand st = map_option (add_candidate num_candidates cand) (remove_worst num_candidates cand st)"

lemma permuted_parts:
  assumes "permuted n h h'" "n \<le> num"
  shows "length h' = length h" "drop num h' = drop num h" "mset (take n h') = mset (take n h)"
  using permuted_more [OF assms] assms(1) by (simp_all add: permuted_def)

lemma add_ok:
  assumes h: "heap_ok h n" "n < num" "num \<le> length h"
  shows "\<exists>h'. add_candidate (int num) c (h, n) = (h', Suc n) \<and> heap_ok h' (Suc n) \<and>
    mset (take (Suc n) h') = add_mset c (mset (take n h)) \<and> length h' = length h \<and> drop num h' = drop num h"
proof -
  have len: "n < length h" using h by simp
  let ?h = "h[n := c]"
  have up: "heap_ok (sift_up ?h n) (Suc n)" "permuted (Suc n) ?h (sift_up ?h n)"
    using sift_up_ok [OF appended [OF h(1) len, of c]] len by simp_all
  have "mset (take (Suc n) ?h) = add_mset c (mset (take n h))" using mset_take_Suc [of n ?h] len by simp
  then show ?thesis
    using permuted_parts [OF up(2), of num] h up by (simp add: add_candidate_def heapify_up_def Let_def)
qed

lemma offer_ok:
  assumes st: "search_ok num heap0 xs (h, n)" and num: "0 < num" "num \<le> length heap0"
  shows "\<exists>st'. offer (int num) c (h, n) = Some st' \<and> search_ok num heap0 (add_mset c xs) st'"
proof -
  have inv: "heap_ok h n" "n \<le> num" "length h = length heap0" "drop num h = drop num heap0" "best_of num xs (mset (take n h))"
    using st by (simp_all add: search_ok_def)
  have ne: "h \<noteq> []" using inv(3) num by auto
  consider (room) "n < num" | (keep) "n = num" "score c \<le> score (h ! 0)" | (swap) "n = num" "score (h ! 0) < score c"
    using inv(2) by linarith
  then show ?thesis
  proof cases
    case room
    then obtain h' where "add_candidate (int num) c (h, n) = (h', Suc n)" "heap_ok h' (Suc n)"
      "mset (take (Suc n) h') = add_mset c (mset (take n h))" "length h' = length h" "drop num h' = drop num h"
      using add_ok [OF inv(1) room, of c] num inv(3) by auto
    moreover have "best_of num (add_mset c xs) (add_mset c (mset (take n h)))"
      using best_of_room [OF inv(5)] room inv(3) num by simp
    ultimately show ?thesis using room inv by (auto simp: offer_def remove_worst_def search_ok_def)
  next
    case keep
    have "best_of num (add_mset c xs) (mset (take n h))"
    proof (rule best_of_worse [OF inv(5)])
      show "size (mset (take n h)) = num" using keep inv(3) num by simp
      show "\<forall>k \<in># mset (take n h). score c \<le> score k"
      proof
        fix k assume "k \<in># mset (take n h)"
        then have "score (h ! 0) \<le> score k" by (rule kept_le_root [OF inv(1), rotated]) (use keep inv(3) num in simp)
        then show "score c \<le> score k" using keep(2) by simp
      qed
    qed
    then show ?thesis using keep inv ne by (auto simp: offer_def remove_worst_def add_candidate_def search_ok_def)
  next
    case swap
    let ?h = "h[0 := h ! (n - 1)]" and ?m = "n - 1"
    have n: "n \<le> length h" "0 < n" "Suc ?m = n" using swap num inv(3) by auto
    have "hole_below ?h n 0" by (rule root_changed [OF inv(1) n(1)])
    then have hole: "hole_below ?h ?m 0" by (rule hole_below_less) simp
    have down: "heap_ok (heapify_down ?h ?m) ?m" "permuted ?m ?h (heapify_down ?h ?m)"
      using heapify_down_ok [OF hole] n by simp_all
    let ?d = "heapify_down ?h ?m"
    have parts: "length ?d = length h" "drop num ?d = drop num h" "mset (take ?m ?d) = mset (take ?m ?h)"
      using permuted_parts [OF down(2), of num] swap num by simp_all
    have "num \<le> length ?d" "?m < num" using parts(1) num inv(3) n(3) swap by linarith+
    then obtain h' where h': "add_candidate (int num) c (?d, ?m) = (h', n)" "heap_ok h' n"
      "mset (take n h') = add_mset c (mset (take ?m ?d))" "length h' = length ?d" "drop num h' = drop num ?d"
      using add_ok [OF down(1), of num c] n(3) by auto
    have kept: "mset (take n h) = add_mset (h ! 0) (mset (take ?m ?d))" using mset_take_root [OF n(2,1)] parts(3) by simp
    have "best_of num (add_mset c xs) (add_mset c (mset (take ?m ?d)))"
    proof (rule best_of_replace [OF inv(5) [unfolded kept]])
      show "\<forall>k \<in># mset (take ?m ?d). score (h ! 0) \<le> score k"
        using kept_le_root [OF inv(1) n(1)] unfolding kept by simp
      show "Suc (size (mset (take ?m ?d))) = num" using parts(1) n swap by simp
    qed (use swap in simp)
    then have "search_ok num heap0 (add_mset c xs) (h', n)" using h' parts inv by (simp add: search_ok_def)
    moreover have "offer (int num) c (h, n) = Some (h', n)"
      using swap ne n h'(1) by (simp add: offer_def remove_worst_def Let_def)
    ultimately show ?thesis by blast
  qed
qed

section \<open>Sorting\<close>

definition sorted_from :: "candidate list \<Rightarrow> nat \<Rightarrow> nat \<Rightarrow> bool" where
  "sorted_from h m n \<longleftrightarrow> (\<forall>i j. i < j \<longrightarrow> m \<le> j \<longrightarrow> j < n \<longrightarrow> score (h ! j) \<le> score (h ! i))"

lemma permuted_later: "permuted m h h' \<Longrightarrow> m \<le> j \<Longrightarrow> j < length h \<Longrightarrow> h' ! j = h ! j"
proof -
  assume p: "permuted m h h'" and j: "m \<le> j" "j < length h"
  then have "drop m h' ! (j - m) = drop m h ! (j - m)" by (simp add: permuted_def)
  moreover have "length h' = length h" using p by (simp add: permuted_def)
  ultimately show ?thesis using j by (simp add: nth_drop)
qed

lemma permuted_earlier: "permuted m h h' \<Longrightarrow> i < m \<Longrightarrow> m \<le> length h \<Longrightarrow> \<exists>i' < m. h' ! i = h ! i'"
proof -
  assume p: "permuted m h h'" and i: "i < m" "m \<le> length h"
  then have "h' ! i \<in> set (take m h')" by (auto simp: in_set_conv_nth permuted_def)
  also have "set (take m h') = set (take m h)" using p by (metis permuted_def set_mset_mset)
  finally show ?thesis using i by (auto simp: in_set_conv_nth)
qed

lemma sorted_permuted:
  assumes "sorted_from h m n" "permuted m h h'" "n \<le> length h" "m \<le> length h"
  shows "sorted_from h' m n"
proof -
  have "score (h' ! j) \<le> score (h' ! i)" if "i < j" "m \<le> j" "j < n" for i j
  proof -
    have "h' ! j = h ! j" using permuted_later [OF assms(2)] that assms(3) by simp
    moreover have "\<exists>i' < j. h' ! i = h ! i'"
      using permuted_earlier [OF assms(2) _ assms(4), of i] permuted_later [OF assms(2), of i] that assms(3)
      by (metis linorder_not_less order_less_le_trans order_less_trans)
    ultimately show ?thesis using assms(1) that unfolding sorted_from_def by auto
  qed
  then show ?thesis by (auto simp: sorted_from_def)
qed

lemma sort_loop_ok:
  "heap_ok h m \<Longrightarrow> sorted_from h m n \<Longrightarrow> m \<le> n \<Longrightarrow> n \<le> length h \<Longrightarrow>
    sorted_from (sort_loop h m) 0 n \<and> permuted m h (sort_loop h m)"
proof (induction h m rule: sort_loop.induct)
  case (1 h m)
  show ?case
  proof (cases "1 < m")
    case True
    let ?h = "exchange h (m - 1) 0"
    have nth: "?h ! i = (if i = 0 then h ! (m - 1) else if i = m - 1 then h ! 0 else h ! i)" if "i < n" for i
    proof -
      have "m - 1 < length h" "0 < length h" "i < length h" using True 1(4,5) that by linarith+
      then show ?thesis by (rule exchange_nth)
    qed
    have pe: "permuted m h ?h" using permuted_exchange [of "m - 1" m 0 h] True 1(4,5) by simp
    have le: "i < m \<Longrightarrow> score (h ! 0) \<le> score (h ! i)" for i by (rule root_least [OF 1(2)])
    have "score (?h ! parent i) \<le> score (?h ! i)" if i: "i < m - 1" "0 < i" "parent i \<noteq> 0" for i
    proof -
      have "parent i < m - 1" "i < n" "parent i < n" using parent_less [OF i(2)] i(1) 1(4) by linarith+
      then show ?thesis using nth [of i] nth [of "parent i"] i 1(2) by (simp add: heap_ok_def)
    qed
    then have hole: "hole_below ?h (m - 1) 0" by (auto simp: hole_below_def)
    have sorted: "sorted_from ?h (m - 1) n"
    proof -
      have "score (?h ! j) \<le> score (?h ! i)" if ij: "i < j" "m - 1 \<le> j" "j < n" for i j
      proof (cases "j = m - 1")
        case True
        then show ?thesis using nth ij le \<open>1 < m\<close> by auto
      next
        case False
        then have j: "m \<le> j" using ij by linarith
        have "\<exists>i' < j. ?h ! i = h ! i'" using nth [of i] ij j \<open>1 < m\<close>
          by (intro exI [of _ "if i = 0 then m - 1 else if i = m - 1 then 0 else i"]) auto
        then show ?thesis using 1(3) ij j permuted_later [OF pe j] 1(5) unfolding sorted_from_def by auto
      qed
      then show ?thesis by (auto simp: sorted_from_def)
    qed
    have down: "heap_ok (heapify_down ?h (m - 1)) (m - 1)" "permuted (m - 1) ?h (heapify_down ?h (m - 1))"
      using heapify_down_ok [OF hole] 1(4,5) by simp_all
    let ?d = "heapify_down ?h (m - 1)"
    have len: "length ?d = length h" using down(2) by (simp add: permuted_def)
    have "sorted_from ?d (m - 1) n" using sorted_permuted [OF sorted down(2)] 1(4,5) by simp
    then have rec: "sorted_from (sort_loop ?d (m - 1)) 0 n" "permuted (m - 1) ?d (sort_loop ?d (m - 1))"
      using 1(1) [OF True refl refl down(1)] 1(4,5) len by simp_all
    have "permuted m h (sort_loop ?d (m - 1))"
      using permuted_trans [OF pe permuted_more [OF permuted_trans [OF down(2) rec(2)]]] by simp
    then show ?thesis using rec(1) True sort_loop.simps [of h m] by (simp add: Let_def)
  next
    case False
    then have "sort_loop h m = h" by (simp add: sort_loop.simps [of h m])
    moreover have "sorted_from h 0 n" using 1(3) False by (auto simp: sorted_from_def)
    ultimately show ?thesis by simp
  qed
qed

end
