(* ===== verification/FtxSearch.thy ===== *)
theory FtxSearch
  imports FtxReceive CandidateHeap
begin

text \<open>
  The search for candidates: \<open>ftx_find_candidates\<close> of \<open>ft8_lib/ft8/decode.c\<close>. The counters of its loops have
  the widths of the fields of a candidate (8 bits without sign, 16 bits with sign), so that a loop whose
  bound its counter cannot reach does not end: \<open>None\<close>.
\<close>

section \<open>The loops\<close>

partial_function (option) count_up ::
  "('w::len word \<Rightarrow> int) \<Rightarrow> int \<Rightarrow> ('w word \<Rightarrow> 'a \<Rightarrow> 'a option) \<Rightarrow> 'w word \<Rightarrow> 'a \<Rightarrow> 'a option" where
  "count_up val bound body i a =
     (if val i < bound then do { a \<leftarrow> body i a; count_up val bound body (i + 1) a } else Some a)"

text \<open>
  One candidate. The field \<open>score\<close> is the one of the candidate before when \<open>sync_score\<close> is called, which does
  not read it.
\<close>

definition consider_candidate :: "'f protocol_desc \<Rightarrow> waterfall \<Rightarrow> int \<Rightarrow> int \<Rightarrow> candidate \<Rightarrow> candidate list \<times> nat \<Rightarrow>
    (candidate list \<times> nat) option" where
  "consider_candidate desc w num_candidates min_score candidate st =
     do {
       s \<leftarrow> d_sync_score desc w candidate;
       let candidate = candidate\<lparr>score := signed_take_bit 15 s\<rparr>;
       if score candidate < min_score then Some st
       else do {
         st \<leftarrow> remove_worst num_candidates candidate st;
         Some (add_candidate num_candidates candidate st)
       }
     }"

definition ftx_find_candidates :: "'f protocol_desc \<Rightarrow> waterfall \<Rightarrow> int \<Rightarrow> candidate list \<Rightarrow> int \<Rightarrow> (nat \<times> candidate list) option" where
  "ftx_find_candidates desc w num_candidates heap min_score =
     do {
       (heap, heap_size) \<leftarrow>
         count_up uint (time_osr w) (\<lambda>ts :: u8.
           count_up uint (freq_osr w) (\<lambda>fs :: u8.
             for_each (\<lambda>t.
               count_up (\<lambda>f. sint f + int (d_num_tones desc) - 1) (num_bins w) (\<lambda>f :: 16 word.
                 consider_candidate desc w num_candidates min_score
                   \<lparr>score = 0, time_offset = t, freq_offset = sint f, time_sub = uint ts, freq_sub = uint fs\<rparr>) 0)
               [- 10..19]) 0) 0 (heap, 0);
       Some (heap_size, sort_loop heap heap_size)
     }"

section \<open>What the loops enumerate\<close>

lemma count_up_for_each:
  assumes "k \<le> n" and val: "\<And>i. i \<le> n \<Longrightarrow> val (of_nat i) < bound \<longleftrightarrow> i < n"
  shows "count_up val bound body (of_nat k) a = for_each (\<lambda>i. body (of_nat i)) [k..<n] a"
  using assms(1)
proof (induction k arbitrary: a rule: inc_induct)
  case base
  then show ?case using val [of n] by (subst count_up.simps) simp
next
  case (step k)
  have "count_up val bound body (of_nat k) a = body (of_nat k) a \<bind> count_up val bound body (of_nat (Suc k))"
    using val [of k] step.hyps by (subst count_up.simps) (simp add: ac_simps)
  then show ?case using step by (cases "body (of_nat k) a") (simp_all add: upt_conv_Cons)
qed

lemma for_each_append: "for_each body (xs @ ys) a = for_each body xs a \<bind> for_each body ys"
  by (induction xs arbitrary: a) (simp_all add: bind_assoc)

lemma for_each_concat: "for_each (\<lambda>x. for_each f (g x)) xs a = for_each f (concat (map g xs)) a"
  by (induction xs arbitrary: a) (simp_all add: for_each_append)

lemma for_each_map: "for_each f (map g xs) a = for_each (\<lambda>x. f (g x)) xs a"
  by (induction xs arbitrary: a) simp_all

lemma for_each_cong: "(\<And>x a. x \<in> set xs \<Longrightarrow> f x a = g x a) \<Longrightarrow> for_each f xs a = for_each g xs a"
  by (induction xs arbitrary: a) (auto intro!: Option.bind_cong)

text \<open>All the places where a signal may begin.\<close>

definition grid :: "nat \<Rightarrow> waterfall \<Rightarrow> candidate list" where
  "grid num_tones w =
     concat (map (\<lambda>ts. concat (map (\<lambda>fs. concat (map (\<lambda>t.
       map (\<lambda>f. \<lparr>score = 0, time_offset = t, freq_offset = int f, time_sub = int ts, freq_sub = int fs\<rparr>)
         [0..<nat (num_bins w - int num_tones + 1)])
       [- 10..19])) [0..<nat (freq_osr w)])) [0..<nat (time_osr w)])"

definition countable :: "nat \<Rightarrow> waterfall \<Rightarrow> bool" where
  "countable num_tones w \<longleftrightarrow> time_osr w \<le> 255 \<and> freq_osr w \<le> 255 \<and> num_bins w \<le> 32766 + int num_tones"

lemma uint_small: "i < 256 \<Longrightarrow> uint (of_nat i :: u8) = int i"
  by (simp add: unsigned_of_nat take_bit_nat_eq_self uint_nat)

lemma sint_small: "i < 32768 \<Longrightarrow> sint (of_nat i :: 16 word) = int i"
  by (simp add: signed_of_nat signed_take_bit_int_eq_self)

lemma grid_ok: "c \<in> set (grid num_tones w) \<Longrightarrow> candidate_ok num_tones w c"
  by (auto simp: grid_def candidate_ok_def)

lemma count_byte: "bound \<le> 255 \<Longrightarrow> count_up uint bound body (0 :: u8) a = for_each (\<lambda>i. body (of_nat i)) [0..<nat bound] a"
  using count_up_for_each [of 0 "nat bound" "uint :: u8 \<Rightarrow> int" bound body a] uint_small by force

lemma find_as_loop:
  assumes "countable (d_num_tones desc) w"
  shows "ftx_find_candidates desc w num heap min_score =
    do { (heap, n) \<leftarrow> for_each (consider_candidate desc w num min_score) (grid (d_num_tones desc) w) (heap, 0);
         Some (n, sort_loop heap n) }"
proof -
  let ?c = "consider_candidate desc w num min_score" and ?nt = "int (d_num_tones desc)"
  have f: "count_up (\<lambda>f. sint f + ?nt - 1) (num_bins w) (\<lambda>f :: 16 word. ?c \<lparr>score = 0, time_offset = t, freq_offset = sint f, time_sub = ts, freq_sub = fs\<rparr>) 0
    = for_each (\<lambda>f. ?c \<lparr>score = 0, time_offset = t, freq_offset = int f, time_sub = ts, freq_sub = fs\<rparr>)
        [0..<nat (num_bins w - ?nt + 1)]" for t ts fs
  proof
    fix a :: "candidate list \<times> nat"
    let ?n = "nat (num_bins w - ?nt + 1)"
    have "?n \<le> 32767" using assms by (simp add: countable_def nat_le_iff)
    then have s: "sint (of_nat i :: 16 word) = int i" if "i \<le> ?n" for i using sint_small [of i] that by simp
    then have "sint (of_nat i :: 16 word) + ?nt - 1 < num_bins w \<longleftrightarrow> i < ?n" if "i \<le> ?n" for i using that by auto
    then have cnt: "count_up (\<lambda>f. sint f + ?nt - 1) (num_bins w) body (0 :: 16 word) a = for_each (\<lambda>i. body (of_nat i)) [0..<?n] a" for body
      using count_up_for_each [of 0 ?n "\<lambda>f :: 16 word. sint f + ?nt - 1" "num_bins w" body a] by simp
    show "count_up (\<lambda>f. sint f + ?nt - 1) (num_bins w) (\<lambda>f :: 16 word. ?c \<lparr>score = 0, time_offset = t, freq_offset = sint f, time_sub = ts, freq_sub = fs\<rparr>) 0 a
      = for_each (\<lambda>f. ?c \<lparr>score = 0, time_offset = t, freq_offset = int f, time_sub = ts, freq_sub = fs\<rparr>) [0..<?n] a"
      by (rule trans [OF cnt for_each_cong]) (simp add: s)
  qed
  have fs: "count_up uint (freq_osr w) (\<lambda>fs :: u8. for_each (\<lambda>t. for_each (\<lambda>f. ?c \<lparr>score = 0, time_offset = t, freq_offset = int f, time_sub = ts, freq_sub = uint fs\<rparr>)
        [0..<nat (num_bins w - ?nt + 1)]) [- 10..19]) 0 =
      for_each (\<lambda>fs. for_each (\<lambda>t. for_each (\<lambda>f. ?c \<lparr>score = 0, time_offset = t, freq_offset = int f, time_sub = ts, freq_sub = int fs\<rparr>)
        [0..<nat (num_bins w - ?nt + 1)]) [- 10..19]) [0..<nat (freq_osr w)]" for ts
    using assms by (intro ext) (auto simp: count_byte countable_def uint_small intro!: for_each_cong)
  have ts: "count_up uint (time_osr w) (\<lambda>ts :: u8. for_each (\<lambda>fs. for_each (\<lambda>t. for_each (\<lambda>f. ?c \<lparr>score = 0, time_offset = t, freq_offset = int f, time_sub = uint ts, freq_sub = int fs\<rparr>)
        [0..<nat (num_bins w - ?nt + 1)]) [- 10..19]) [0..<nat (freq_osr w)]) 0 =
      for_each ?c (grid (d_num_tones desc) w)"
    using assms by (intro ext)
      (auto simp: count_byte countable_def uint_small grid_def for_each_concat [symmetric] for_each_map
        simp del: upto_rec_numeral intro!: for_each_cong)
  show ?thesis unfolding ftx_find_candidates_def f fs ts by simp
qed

section \<open>The best candidates are found\<close>

text \<open>The places whose score is high enough.\<close>

definition scored :: "'f protocol_desc \<Rightarrow> waterfall \<Rightarrow> candidate \<Rightarrow> candidate" where
  "scored desc w c = c\<lparr>score := the (d_sync_score desc w c)\<rparr>"

definition hits :: "'f protocol_desc \<Rightarrow> waterfall \<Rightarrow> int \<Rightarrow> candidate list" where
  "hits desc w min_score = filter (\<lambda>c. min_score \<le> score c) (map (scored desc w) (grid (d_num_tones desc) w))"

text \<open>A score function that answers within 16 bits for every candidate of a waterfall.\<close>

locale scoring =
  fixes desc :: "'f protocol_desc"
  assumes scores: "waterfall_ok w \<Longrightarrow> candidate_ok (d_num_tones desc) w c \<Longrightarrow>
    \<exists>s. d_sync_score desc w c = Some s \<and> \<bar>s\<bar> < 2 ^ 15"
begin

lemma consider_eq:
  assumes "waterfall_ok w" "c \<in> set (grid (d_num_tones desc) w)"
  shows "consider_candidate desc w num min_score c st =
    (if score (scored desc w c) < min_score then Some st else offer num (scored desc w c) st)"
proof -
  obtain s where s: "d_sync_score desc w c = Some s" "\<bar>s\<bar> < 2 ^ 15" using scores [OF assms(1) grid_ok [OF assms(2)]] by blast
  then have "signed_take_bit 15 s = s" by (intro signed_take_bit_int_eq_self) auto
  then show ?thesis using s(1)
    by (simp add: consider_candidate_def scored_def offer_def map_conv_bind_option comp_def Let_def)
qed

lemma search_invariant:
  assumes "0 < num" "num \<le> length heap0" "waterfall_ok w" "set cs \<subseteq> set (grid (d_num_tones desc) w)" "search_ok num heap0 xs st"
  shows "\<exists>st'. for_each (consider_candidate desc w (int num) min_score) cs st = Some st' \<and>
    search_ok num heap0 (xs + mset (filter (\<lambda>c. min_score \<le> score c) (map (scored desc w) cs))) st'"
  using assms(4,5)
proof (induction cs arbitrary: xs st)
  case (Cons c cs)
  note eq = consider_eq [OF assms(3), of c "int num" min_score st]
  show ?case
  proof (cases "min_score \<le> score (scored desc w c)")
    case True
    obtain st' where st': "offer (int num) (scored desc w c) st = Some st'" "search_ok num heap0 (add_mset (scored desc w c) xs) st'"
      using offer_ok [OF _ assms(1,2), of xs "fst st" "snd st"] Cons.prems(2) unfolding prod.collapse by blast
    then show ?thesis using Cons.IH [of "add_mset (scored desc w c) xs" st'] Cons.prems(1) True eq by auto
  next
    case False
    then show ?thesis using Cons.IH [OF _ Cons.prems(2)] Cons.prems(1) eq by auto
  qed
qed simp

lemma find_best:
  assumes "countable (d_num_tones desc) w" "0 < num" "num \<le> length heap" "waterfall_ok w"
  shows "\<exists>n heap'. ftx_find_candidates desc w (int num) heap min_score = Some (n, heap') \<and>
    best_of num (mset (hits desc w min_score)) (mset (take n heap')) \<and> sorted_from heap' 0 n \<and>
    n \<le> num \<and> length heap' = length heap \<and> drop num heap' = drop num heap"
proof -
  have "search_ok num heap {#} (heap, 0)" by (simp add: search_ok_def heap_ok_def best_of_def)
  from search_invariant [OF assms(2-4) order_refl this, of min_score] obtain h n where
    loop: "for_each (consider_candidate desc w (int num) min_score) (grid (d_num_tones desc) w) (heap, 0) = Some (h, n)"
    and ok: "search_ok num heap (mset (hits desc w min_score)) (h, n)"
    by (auto simp: hits_def)
  have inv: "heap_ok h n" "n \<le> num" "length h = length heap" "drop num h = drop num heap" using ok by (simp_all add: search_ok_def)
  have "n \<le> length h" using inv assms(3) by simp
  moreover have "sorted_from h n n" by (simp add: sorted_from_def)
  ultimately have sorted: "sorted_from (sort_loop h n) 0 n" "permuted n h (sort_loop h n)"
    using sort_loop_ok [OF inv(1)] by simp_all
  have "ftx_find_candidates desc w (int num) heap min_score = Some (n, sort_loop h n)"
    using find_as_loop [OF assms(1)] loop by simp
  then show ?thesis using sorted(1) permuted_parts [OF sorted(2) inv(2)] inv ok by (simp add: search_ok_def)
qed

lemma hits_of_grid: "c \<in> set (hits desc w min_score) \<Longrightarrow> candidate_ok (d_num_tones desc) w c \<and> min_score \<le> score c"
  using grid_ok by (fastforce simp: hits_def scored_def candidate_ok_def)

end

lemma protocol_scores:
  assumes "waterfall_ok w" "candidate_ok (d_num_tones (ftx_protocol_get_desc ops qsort s proto)) w c"
  shows "\<exists>x. d_sync_score (ftx_protocol_get_desc ops qsort s proto) w c = Some x \<and> \<bar>x\<bar> < 2 ^ 15"
proof -
  have "candidate_ok (2 ^ p_bits proto) w c" using assms(2) by simp
  then have "\<exists>x. d_sync_score (ftx_protocol_get_desc ops qsort s proto) w c = Some x \<and> \<bar>x\<bar> \<le> 255"
    using ft8_sync_score_total [OF assms(1)] ft4_sync_score_total [OF assms(1)] fst4_sync_score_total [OF assms(1)]
    by (cases proto) (simp_all add: desc_defs p_defs)
  then show ?thesis by auto
qed

interpretation protocol: scoring "ftx_protocol_get_desc ops qsort s proto" for ops qsort s proto
  by unfold_locales (rule protocol_scores)

section \<open>Properties\<close>

text \<open>
  C22: the search finds the best candidates. For a waterfall laid out as the header says, whose dimensions the
  counters can reach, and room for \<open>num > 0\<close> candidates, the search of every protocol ends; what it returns
  are \<open>num\<close> candidates, or all if there are fewer, of the places on the grid whose score is at least
  \<open>min_score\<close>, none of those left out has a better score than one that is returned, they are sorted
  by descending score, and the array is not written behind its \<open>num\<close> elements.
\<close>

theorem find_candidates_best:
  assumes "waterfall_ok w" and desc: "desc = ftx_protocol_get_desc ops qsort s proto"
    and "countable (d_num_tones desc) w" and "0 < num" and "num \<le> length heap"
  shows "\<exists>n heap'. ftx_find_candidates desc w (int num) heap min_score = Some (n, heap') \<and>
    best_of num (mset (hits desc w min_score)) (mset (take n heap')) \<and>
    sorted_wrt (\<lambda>a b. score b \<le> score a) (take n heap') \<and> drop num heap' = drop num heap"
proof -
  obtain n heap' where *: "ftx_find_candidates desc w (int num) heap min_score = Some (n, heap')"
    "best_of num (mset (hits desc w min_score)) (mset (take n heap'))" "sorted_from heap' 0 n" "drop num heap' = drop num heap"
    using protocol.find_best [OF assms(3-5,1) [unfolded desc], of min_score] unfolding desc by blast
  then have "sorted_wrt (\<lambda>a b. score b \<le> score a) (take n heap')"
    by (simp add: sorted_wrt_iff_nth_less sorted_from_def)
  then show ?thesis using * by blast
qed

lemma same_frame_trans: "same_frame w w' \<Longrightarrow> same_frame w' w'' \<Longrightarrow> same_frame w w''"
  by (auto simp: same_frame_def)

lemma best_of_subset: "best_of num (mset xs) (mset ys) \<Longrightarrow> set ys \<subseteq> set xs"
  unfolding best_of_def by (metis Un_upper1 set_mset_mset set_mset_union)

text \<open>
  Searching and decoding compose. Every candidate the search returns is decoded without an access outside
  of the waterfall: whatever the waterfall contains after the candidates before it were subtracted, decoding ends
  with an answer.
\<close>

theorem search_then_decode:
  assumes "waterfall_ok w" and desc: "desc = ftx_protocol_get_desc ops qsort s proto"
    and "countable (d_num_tones desc) w" and "0 < num" and "num \<le> length heap" and "scratch_ok s"
    and "ftx_find_candidates desc w (int num) heap min_score = Some (n, heap')" and "i < n"
    and "same_frame w w1"
  shows "min_score \<le> score (heap' ! i) \<and> (\<exists>ok m' st' w2. ftx_decode_candidate ops desc s w1 (heap' ! i) max_iterations m st =
    Some (ok, m', st', w2) \<and> same_frame w w2)"
proof -
  have best: "best_of num (mset (hits desc w min_score)) (mset (take n heap'))" and n: "n \<le> length heap'"
    using protocol.find_best [OF assms(3-5,1) [unfolded desc], of min_score] assms(5,7) unfolding desc by auto
  then have "heap' ! i \<in> set (hits desc w min_score)"
    using best_of_subset [OF best] assms(8) n nth_mem [of i "take n heap'"] by auto
  then have c: "candidate_ok (d_num_tones desc) w (heap' ! i)" "min_score \<le> score (heap' ! i)"
    using protocol.hits_of_grid unfolding desc by blast+
  have "waterfall_ok w1" "candidate_ok (d_num_tones desc) w1 (heap' ! i)"
    using assms(1) c(1) same_frame_simps [OF assms(9)] by simp_all
  from decode_total [OF this assms(6) desc, of max_iterations m st]
  obtain ok m' st' w2 where "ftx_decode_candidate ops desc s w1 (heap' ! i) max_iterations m st = Some (ok, m', st', w2)"
    "same_frame w1 w2" by blast
  then show ?thesis using c(2) same_frame_trans [OF assms(9)] by simp
qed

text \<open>The recording of one clean transmission of FT8: all thirty places of its grid pass the least score.\<close>

lemma demo_search: "countable (d_num_tones demo_desc) demo_waterfall" "length (hits demo_desc demo_waterfall (- 32768)) = 30"
proof -
  have t: "d_num_tones demo_desc = 8" by (simp add: demo_desc_def p_defs)
  then show "countable (d_num_tones demo_desc) demo_waterfall" by (simp add: countable_def demo_waterfall_def)
  have "- 32768 \<le> score (scored demo_desc demo_waterfall c)" if "c \<in> set (grid 8 demo_waterfall)" for c
    using protocol_scores [OF demo_ok(1), of fixed_ops "\<lambda>cmp xs. xs" demo_scratch FTX_PROTOCOL_FT8 c] grid_ok [OF that] t
    by (auto simp: scored_def demo_desc_def)
  then have "hits demo_desc demo_waterfall (- 32768) = map (scored demo_desc demo_waterfall) (grid 8 demo_waterfall)"
    unfolding hits_def t by (intro filter_True) auto
  then show "length (hits demo_desc demo_waterfall (- 32768)) = 30"
    by (simp add: grid_def demo_waterfall_def length_concat o_def)
qed

lemma find_candidates_best_witness:
  "\<exists>n heap'. ftx_find_candidates demo_desc demo_waterfall 5 (replicate 6 demo_candidate) (- 32768) = Some (n, heap') \<and>
     n = 5 \<and> sorted_wrt (\<lambda>a b. score b \<le> score a) (take n heap') \<and> drop 5 heap' = [demo_candidate]"
proof -
  obtain n heap' where *: "ftx_find_candidates demo_desc demo_waterfall 5 (replicate 6 demo_candidate) (- 32768) = Some (n, heap')"
    "best_of 5 (mset (hits demo_desc demo_waterfall (- 32768))) (mset (take n heap'))"
    "sorted_wrt (\<lambda>a b. score b \<le> score a) (take n heap')" "drop 5 heap' = [demo_candidate]"
    using find_candidates_best [OF demo_ok(1) demo_desc_def demo_search(1), of 5 "replicate 6 demo_candidate" "- 32768"] by auto
  have "length (take n heap') = 5" using *(2) demo_search(2) by (auto simp: best_of_def)
  moreover have "length heap' = 6" using arg_cong [OF *(4), of length] by simp
  ultimately have "n = 5" by (simp add: min_def split: if_splits)
  then show ?thesis using * by blast
qed

lemma search_then_decode_witness:
  "\<exists>n heap' ok m' st' w2. ftx_find_candidates demo_desc demo_waterfall 5 (replicate 6 demo_candidate) (- 32768) = Some (n, heap') \<and>
     - 32768 \<le> score (heap' ! 4) \<and>
     ftx_decode_candidate fixed_ops demo_desc demo_scratch demo_waterfall (heap' ! 4) 25
       \<lparr>payload = replicate 10 0, hash = 0, snr = 0\<rparr> \<lparr>ldpc_errors = 0, crc_valid = False\<rparr> = Some (ok, m', st', w2)"
proof -
  obtain n heap' where *: "ftx_find_candidates demo_desc demo_waterfall (int 5) (replicate 6 demo_candidate) (- 32768) = Some (n, heap')"
    "best_of 5 (mset (hits demo_desc demo_waterfall (- 32768))) (mset (take n heap'))"
    using protocol.find_best [of fixed_ops "\<lambda>cmp xs. xs" demo_scratch FTX_PROTOCOL_FT8 demo_waterfall 5 "replicate 6 demo_candidate" "- 32768"]
      demo_ok(1) demo_search(1) by (auto simp: demo_desc_def)
  have "length (take n heap') = 5" using *(2) demo_search(2) by (auto simp: best_of_def)
  then have "4 < n" by simp
  from search_then_decode [OF demo_ok(1) demo_desc_def demo_search(1) _ _ demo_ok(3) *(1) this same_frame_refl]
  show ?thesis using *(1) by fastforce
qed

end
