(* ===== verification/FtxCall.thy ===== *)
theory FtxCall
  imports FtxText
begin

text \<open>
  Callsigns, locators and reports in FT8 messages: the static functions of \<open>ft8_lib/ft8/message.c\<close>. Numbers
  that cannot wrap are \<open>nat\<close> or \<open>int\<close>; the hash is computed in 64 bits as the code does. The table of
  callsigns belongs to the caller, who passes two functions; its state is threaded through.
\<close>

unbundle bit_operations_syntax

section \<open>The interface to the table of callsigns\<close>

datatype hash_type = HASH_22_BITS | HASH_12_BITS | HASH_10_BITS

text \<open>Each function may be missing, and so may the interface. A lookup writes a string when it finds one.\<close>

record 's hash_interface =
  lookup_hash :: "(hash_type \<Rightarrow> u32 \<Rightarrow> 's \<Rightarrow> string option) option"
  save_hash :: "(string \<Rightarrow> u32 \<Rightarrow> 's \<Rightarrow> 's) option"

type_synonym 's hash_if = "'s hash_interface option"

definition MAX22 :: nat where "MAX22 = 4194304"
definition NTOKENS :: nat where "NTOKENS = 2063592"
definition MAXGRID4 :: nat where "MAXGRID4 = 32400"

definition add_brackets :: "string \<Rightarrow> string" where
  "add_brackets original = ''<'' @ original @ ''>''"

text \<open>The two loops of \<open>save_callsign\<close>: at most eleven characters, then as many blanks as are missing.\<close>

fun hash_chars :: "string \<Rightarrow> nat \<Rightarrow> u64 \<Rightarrow> (nat \<times> u64) option" where
  "hash_chars [] i n58 = Some (i, n58)"
| "hash_chars (c # cs) i n58 =
     (if i < 11 then
        (let j = nchar c TABLE_ALPHANUM_SPACE_SLASH
         in if j < 0 then None else hash_chars cs (i + 1) (38 * n58 + word_of_int j))
      else Some (i, n58))"

definition hash22 :: "u64 \<Rightarrow> u32" where
  "hash22 n58 = ucast (drop_bit (64 - 22) (47055833459 * n58) AND 0x3FFFFF)"

text \<open>The 22-bit hash, from which the caller takes the upper 12 or 10 bits, and the state of the table.\<close>

definition save_callsign :: "'s hash_if \<Rightarrow> string \<Rightarrow> 's \<Rightarrow> (u32 \<times> 's) option" where
  "save_callsign hash_if callsign st =
     (case hash_chars callsign 0 0 of
        None \<Rightarrow> None
      | Some (i, n58) \<Rightarrow>
          let n58 = fold (\<lambda>_ n58. 38 * n58) [i..<11] n58;
              n22 = hash22 n58
          in Some (n22, case hash_if of
               Some h \<Rightarrow> (case save_hash h of Some save \<Rightarrow> save callsign n22 st | None \<Rightarrow> st)
             | None \<Rightarrow> st))"

definition lookup_callsign :: "'s hash_if \<Rightarrow> hash_type \<Rightarrow> u32 \<Rightarrow> 's \<Rightarrow> string" where
  "lookup_callsign hash_if hash_type hash st =
     (let found = (case hash_if of
            Some h \<Rightarrow> (case lookup_hash h of Some lookup \<Rightarrow> lookup hash_type hash st | None \<Rightarrow> None)
          | None \<Rightarrow> None)
      in case found of None \<Rightarrow> ''<...>'' | Some c11 \<Rightarrow> add_brackets c11)"

section \<open>Standard callsigns\<close>

text \<open>A character of a string, or the zero behind it; no index here goes further.\<close>

definition char_at :: "string \<Rightarrow> nat \<Rightarrow> char" where
  "char_at s i = (if i < length s then s ! i else NUL)"

definition put :: "char list \<Rightarrow> nat \<Rightarrow> string \<Rightarrow> char list" where
  "put c6 off s = take off c6 @ s @ drop (off + length s) c6"

definition basecall_layout :: "string \<Rightarrow> nat \<Rightarrow> char list" where
  "basecall_layout callsign len =
     (let c6 = replicate 6 (CHR '' '') in
      if starts_with callsign ''3DA0'' \<and> len > 4 \<and> len \<le> 7
      then put (put c6 0 ''3D0'') 3 (take (len - 4) (drop 4 callsign))
      else if starts_with callsign ''3X'' \<and> is_letter (char_at callsign 2) \<and> len \<le> 7
      then put (put c6 0 ''Q'') 1 (take (len - 2) (drop 2 callsign))
      else if is_digit (char_at callsign 2) \<and> len \<le> 6 then put c6 0 (take len callsign)
      else if is_digit (char_at callsign 1) \<and> len \<le> 5 then put c6 1 (take len callsign)
      else c6)"

definition pack_basecall :: "string \<Rightarrow> nat \<Rightarrow> int" where
  "pack_basecall callsign len =
     (if len > 2 then
        (let c6 = basecall_layout callsign len;
             i0 = nchar (c6 ! 0) TABLE_ALPHANUM_SPACE;
             i1 = nchar (c6 ! 1) TABLE_ALPHANUM;
             i2 = nchar (c6 ! 2) TABLE_NUMERIC;
             i3 = nchar (c6 ! 3) TABLE_LETTERS_SPACE;
             i4 = nchar (c6 ! 4) TABLE_LETTERS_SPACE;
             i5 = nchar (c6 ! 5) TABLE_LETTERS_SPACE
         in if i0 \<ge> 0 \<and> i1 \<ge> 0 \<and> i2 \<ge> 0 \<and> i3 \<ge> 0 \<and> i4 \<ge> 0 \<and> i5 \<ge> 0 then
              (let n = i0; n = n * 36 + i1; n = n * 10 + i2; n = n * 27 + i3; n = n * 27 + i4 in n * 27 + i5)
            else - 1)
      else - 1)"

text \<open>The answer is the number, or -1, with the suffix flag and the state of the table.\<close>

definition pack28 :: "string \<Rightarrow> 's hash_if \<Rightarrow> 's \<Rightarrow> int \<times> u8 \<times> 's" where
  "pack28 callsign hash_if st =
     (let ip = 0; len = length callsign in
      if equals callsign ''DE'' then (0, ip, st)
      else if equals callsign ''QRZ'' then (1, ip, st)
      else if equals callsign ''CQ'' then (2, ip, st)
      else if starts_with callsign ''CQ_'' \<and> len < 8 then (- 1, ip, st)
      else
        let (ip, length_base) = (if ends_with callsign ''/P'' \<or> ends_with callsign ''/R'' then (1, len - 2) else (ip, len));
            n28 = pack_basecall callsign length_base
        in if n28 \<ge> 0 then
             (case save_callsign hash_if callsign st of
                None \<Rightarrow> (- 1, ip, st)
              | Some (_, st) \<Rightarrow> (int NTOKENS + int MAX22 + n28, ip, st))
           else if len \<ge> 3 \<and> len \<le> 11 then
             (case save_callsign hash_if callsign st of
                None \<Rightarrow> (- 1, ip, st)
              | Some (n22, st) \<Rightarrow> (int NTOKENS + uint n22, 0, st))
           else (- 1, ip, st))"

text \<open>Four letters or blanks, the last one first.\<close>

fun letters4 :: "nat \<Rightarrow> nat \<Rightarrow> string \<Rightarrow> string" where
  "letters4 n 0 aaaa = aaaa"
| "letters4 n (Suc i) aaaa = letters4 (n div 27) i (charn (n mod 27) TABLE_LETTERS_SPACE # aaaa)"

definition basecall_chars :: "nat \<Rightarrow> string" where
  "basecall_chars n =
     (let c5 = charn (n mod 27) TABLE_LETTERS_SPACE; n = n div 27;
          c4 = charn (n mod 27) TABLE_LETTERS_SPACE; n = n div 27;
          c3 = charn (n mod 27) TABLE_LETTERS_SPACE; n = n div 27;
          c2 = charn (n mod 10) TABLE_NUMERIC; n = n div 10;
          c1 = charn (n mod 36) TABLE_ALPHANUM; n = n div 36;
          c0 = charn (n mod 37) TABLE_ALPHANUM_SPACE
      in [c0, c1, c2, c3, c4, c5])"

definition basecall_text :: "string \<Rightarrow> string" where
  "basecall_text callsign =
     (if starts_with callsign ''3D0'' \<and> \<not> is_space (callsign ! 3) then ''3DA0'' @ trim_copy (drop 3 callsign)
      else if callsign ! 0 = CHR ''Q'' \<and> is_letter (callsign ! 1) then ''3X'' @ trim_copy (drop 1 callsign)
      else trim_copy callsign)"

text \<open>The answer is the return value, the string that \<open>result\<close> holds (it was empty) and the state of the table.\<close>

definition unpack28 :: "nat \<Rightarrow> nat \<Rightarrow> nat \<Rightarrow> 's hash_if \<Rightarrow> 's \<Rightarrow> int \<times> string \<times> 's" where
  "unpack28 n28 ip i3 hash_if st =
     (if n28 < NTOKENS then
        (if n28 \<le> 2 then (0, if n28 = 0 then ''DE'' else if n28 = 1 then ''QRZ'' else ''CQ'', st)
         else if n28 \<le> 1002 then (0, ''CQ '' @ int_to_dd (int n28 - 3) 3 False, st)
         else if n28 \<le> 532443 then (0, ''CQ '' @ trim_front (letters4 (n28 - 1003) 4 []), st)
         else (- 1, [], st))
      else
        let n28 = n28 - NTOKENS
        in if n28 < MAX22 then (0, lookup_callsign hash_if HASH_22_BITS (word_of_nat n28) st, st)
           else
             let result = basecall_text (basecall_chars (n28 - MAX22))
             in if length result < 3 then (- 1, result, st)
                else if ip \<noteq> 0 \<and> i3 \<noteq> 1 \<and> i3 \<noteq> 2 then (- 2, result, st)
                else
                  let result = (if ip \<noteq> 0 then if i3 = 1 then result @ ''/R'' else result @ ''/P'' else result)
                  in (0, result, case save_callsign hash_if result st of Some (_, st) \<Rightarrow> st | None \<Rightarrow> st))"

section \<open>Other callsigns\<close>

fun pack58_loop :: "string \<Rightarrow> nat \<Rightarrow> nat \<Rightarrow> string \<Rightarrow> (nat \<times> string) option" where
  "pack58_loop [] len result c11 = Some (result, c11)"
| "pack58_loop (c # cs) len result c11 =
     (if c \<noteq> CHR ''<'' \<and> len < 11 then
        (let j = nchar c TABLE_ALPHANUM_SPACE_SLASH
         in if j < 0 then None else pack58_loop cs (len + 1) (result * 38 + nat j) (c11 @ [c]))
      else Some (result, c11))"

definition pack58 :: "'s hash_if \<Rightarrow> string \<Rightarrow> 's \<Rightarrow> (nat \<times> 's) option" where
  "pack58 hash_if callsign st =
     (let src = (if callsign \<noteq> [] \<and> hd callsign = CHR ''<'' then tl callsign else callsign)
      in case pack58_loop src 0 0 [] of
           None \<Rightarrow> None
         | Some (result, c11) \<Rightarrow> map_option (\<lambda>(_, st). (result, st)) (save_callsign hash_if c11 st))"

fun unpack58_loop :: "nat \<Rightarrow> nat \<Rightarrow> string \<Rightarrow> string" where
  "unpack58_loop n58 0 c11 = c11"
| "unpack58_loop n58 (Suc i) c11 = unpack58_loop (n58 div 38) i (charn (n58 mod 38) TABLE_ALPHANUM_SPACE_SLASH # c11)"

definition unpack58 :: "nat \<Rightarrow> 's hash_if \<Rightarrow> 's \<Rightarrow> bool \<times> string \<times> 's" where
  "unpack58 n58 hash_if st =
     (let callsign = trim_copy (unpack58_loop n58 11 [])
      in if length callsign \<ge> 3
         then (case save_callsign hash_if callsign st of Some (_, st) \<Rightarrow> (True, callsign, st) | None \<Rightarrow> (False, callsign, st))
         else (False, callsign, st))"

section \<open>Locators and reports\<close>

definition packgrid :: "string \<Rightarrow> u16" where
  "packgrid grid4 =
     (if grid4 = [] then word_of_nat (MAXGRID4 + 1)
      else if equals grid4 ''RRR'' then word_of_nat (MAXGRID4 + 2)
      else if equals grid4 ''RR73'' then word_of_nat (MAXGRID4 + 3)
      else if equals grid4 ''73'' then word_of_nat (MAXGRID4 + 4)
      else if in_range (char_at grid4 0) (CHR ''A'') (CHR ''R'') \<and> in_range (char_at grid4 1) (CHR ''A'') (CHR ''R'')
          \<and> is_digit (char_at grid4 2) \<and> is_digit (char_at grid4 3) then
        (let igrid4 = code (char_at grid4 0) - 65;
             igrid4 = igrid4 * 18 + (code (char_at grid4 1) - 65);
             igrid4 = igrid4 * 10 + (code (char_at grid4 2) - 48)
         in word_of_nat (igrid4 * 10 + (code (char_at grid4 3) - 48)))
      else if char_at grid4 0 = CHR ''R'' then
        (let irpt = word_of_int (35 + dd_to_int (tl grid4) 3) :: u16
         in (word_of_nat MAXGRID4 + irpt) OR 0x8000)
      else
        (let irpt = word_of_int (35 + dd_to_int grid4 3) :: u16
         in word_of_nat MAXGRID4 + irpt))"

definition unpackgrid :: "nat \<Rightarrow> nat \<Rightarrow> string" where
  "unpackgrid igrid4 ir =
     (if igrid4 \<le> MAXGRID4 then
        (let n = igrid4;
             c3 = char_of (48 + n mod 10); n = n div 10;
             c2 = char_of (48 + n mod 10); n = n div 10;
             c1 = char_of (65 + n mod 18); n = n div 18;
             c0 = char_of (65 + n mod 18)
         in (if ir > 0 then ''R '' else '''') @ [c0, c1, c2, c3])
      else
        let irpt = int igrid4 - int MAXGRID4
        in if irpt = 1 then '''' else if irpt = 2 then ''RRR'' else if irpt = 3 then ''RR73'' else if irpt = 4 then ''73''
           else (if ir > 0 then ''R'' else '''') @ int_to_dd (irpt - 35) 2 True)"

section \<open>Blanks\<close>

lemma trim_back_pad: "s \<noteq> [] \<Longrightarrow> last s \<noteq> CHR '' '' \<Longrightarrow> trim_back_loop (s @ replicate b (CHR '' '')) (length s + b) = s"
proof (induction b)
  case 0
  then show ?case by (cases "length s") (auto simp: last_conv_nth)
next
  case (Suc b)
  have "trim_back_loop (s @ replicate (Suc b) (CHR '' '')) m = trim_back_loop (s @ replicate b (CHR '' '')) m" if "m \<le> length s + b" for m
    using that by (induction m) (auto simp: nth_append nth_replicate take_append min_def replicate_append_same [symmetric] simp del: replicate_append_same)
  then show ?case using Suc by (simp add: nth_append del: replicate_Suc)
qed

lemma trim_copy_pad:
  assumes "s \<noteq> []" "CHR '' '' \<notin> set s"
  shows "trim_copy (replicate a (CHR '' '') @ s @ replicate b (CHR '' '')) = s"
proof -
  have "hd s \<noteq> CHR '' ''" "last s \<noteq> CHR '' ''" using assms hd_in_set last_in_set by metis+
  moreover have "trim_front (replicate a (CHR '' '') @ s @ t) = s @ t" for t
    using calculation(1) assms(1) by (induction a) (cases s, auto simp: trim_front_def)+
  ultimately show ?thesis using trim_back_pad [OF assms(1), of b] by (simp add: trim_copy_def Let_def)
qed

lemmas trim_copy_simps = trim_copy_pad [of _ 0, simplified] trim_copy_pad [of _ "Suc 0", simplified]

section \<open>Standard callsigns come back\<close>

text \<open>The strings \<open>3D0...\<close> and \<open>Q\<close> with a letter stand for other prefixes on the air.\<close>

definition plain_base :: "string \<Rightarrow> bool" where
  "plain_base s \<longleftrightarrow> CHR '' '' \<notin> set s \<and> \<not> starts_with s ''3D0'' \<and> \<not> (char_at s 0 = CHR ''Q'' \<and> is_letter (char_at s 1))"

lemma basecall_digits:
  fixes k0 k1 k2 k3 k4 k5 :: nat
  assumes "k0 < 37" "k1 < 36" "k2 < 10" "k3 < 27" "k4 < 27" "k5 < 27"
  shows "basecall_chars (((((k0 * 36 + k1) * 10 + k2) * 27 + k3) * 27 + k4) * 27 + k5) =
    [charn k0 TABLE_ALPHANUM_SPACE, charn k1 TABLE_ALPHANUM, charn k2 TABLE_NUMERIC,
     charn k3 TABLE_LETTERS_SPACE, charn k4 TABLE_LETTERS_SPACE, charn k5 TABLE_LETTERS_SPACE]"
proof -
  have step: "(a * b + c) mod b = c" "(a * b + c) div b = a" if "c < b" for a b c :: nat using that by simp_all
  show ?thesis unfolding basecall_chars_def Let_def by (simp only: step assms mod_less)
qed

lemma length_6: "length c = 6 \<Longrightarrow> [c ! 0, c ! 1, c ! 2, c ! 3, c ! 4, c ! 5] = c"
  by (rule nth_equalityI) (auto simp: less_Suc_eq nth_Cons' numeral_eq_Suc)

lemma basecall_bound:
  fixes i0 i1 i2 i3 i4 i5 :: int
  shows "i0 \<le> 36 \<Longrightarrow> i1 \<le> 35 \<Longrightarrow> i2 \<le> 9 \<Longrightarrow> i3 \<le> 26 \<Longrightarrow> i4 \<le> 26 \<Longrightarrow> i5 \<le> 26 \<Longrightarrow>
    ((((i0 * 36 + i1) * 10 + i2) * 27 + i3) * 27 + i4) * 27 + i5 < 262177560"
  by simp

lemma put_after: "length p = k \<Longrightarrow> put (p @ replicate n b) k xs = p @ xs @ replicate (n - length xs) b"
  by (simp add: put_def)

lemma starts_with_take:
  assumes "starts_with s p" "length p \<le> n"
  shows "take n s = p @ take (n - length p) (drop (length p) s)"
proof -
  have "take (length p + (n - length p)) s = take (length p) s @ take (n - length p) (drop (length p) s)" by (rule take_add)
  then show ?thesis using assms by (simp add: starts_with_def)
qed

lemma pack_basecall_chars:
  assumes "pack_basecall s len = n" "0 \<le> n" "length (basecall_layout s len) = 6"
  shows "basecall_chars (nat n) = basecall_layout s len" "2 < len" "n < 262177560"
proof -
  let ?c = "basecall_layout s len"
  let ?i0 = "nchar (?c ! 0) TABLE_ALPHANUM_SPACE" and ?i1 = "nchar (?c ! 1) TABLE_ALPHANUM" and ?i2 = "nchar (?c ! 2) TABLE_NUMERIC"
  let ?l = "\<lambda>k. nchar (?c ! k) TABLE_LETTERS_SPACE"
  have ge: "2 < len" "0 \<le> ?i0" "0 \<le> ?i1" "0 \<le> ?i2" "0 \<le> ?l 3" "0 \<le> ?l 4" "0 \<le> ?l 5"
    and n: "n = ((((?i0 * 36 + ?i1) * 10 + ?i2) * 27 + ?l 3) * 27 + ?l 4) * 27 + ?l 5"
    using assms(1,2) by (auto simp: pack_basecall_def Let_def split: if_splits)
  have lt: "nat ?i0 < 37" "nat ?i1 < 36" "nat ?i2 < 10" "nat (?l 3) < 27" "nat (?l 4) < 27" "nat (?l 5) < 27"
    using charn_nchar ge by fastforce+
  have "nat n = ((((nat ?i0 * 36 + nat ?i1) * 10 + nat ?i2) * 27 + nat (?l 3)) * 27 + nat (?l 4)) * 27 + nat (?l 5)"
    unfolding n using ge by (simp add: nat_add_distrib nat_mult_distrib)
  then show "basecall_chars (nat n) = ?c"
    using basecall_digits [OF lt] length_6 [OF assms(3)] charn_nchar ge by simp
  show "2 < len" by (rule ge(1))
  have "?i0 \<le> 36" "?i1 \<le> 35" "?i2 \<le> 9" "?l 3 \<le> 26" "?l 4 \<le> 26" "?l 5 \<le> 26" using lt by linarith+
  from basecall_bound [OF this] show "n < 262177560" unfolding n .
qed

lemma basecall_layout_cases:
  assumes "2 < len" "len \<le> length s" "0 \<le> pack_basecall s len"
  obtains (swaziland) "starts_with s ''3DA0''" "4 < len" "len \<le> 7"
      "basecall_layout s len = ''3D0'' @ take (len - 4) (drop 4 s) @ replicate (7 - len) (CHR '' '')"
    | (guinea) "starts_with s ''3X''" "is_letter (s ! 2)" "len \<le> 7"
      "basecall_layout s len = ''Q'' @ take (len - 2) (drop 2 s) @ replicate (7 - len) (CHR '' '')"
    | (two) "\<not> starts_with s ''3X'' \<or> \<not> is_letter (s ! 2)" "len \<le> 6" "basecall_layout s len = take len s @ replicate (6 - len) (CHR '' '')"
    | (one) "len \<le> 5" "basecall_layout s len = '' '' @ take len s @ replicate (5 - len) (CHR '' '')"
proof -
  have put: "put (replicate 6 (CHR '' '')) 0 xs = xs @ replicate (6 - length xs) (CHR '' '')"
    "put (replicate 6 (CHR '' '')) 1 xs = '' '' @ xs @ replicate (5 - length xs) (CHR '' '')"
    "put (''Q'' @ replicate 5 (CHR '' '')) 1 xs = ''Q'' @ xs @ replicate (5 - length xs) (CHR '' '')"
    "put (''3D0'' @ replicate 3 (CHR '' '')) 3 xs = ''3D0'' @ xs @ replicate (3 - length xs) (CHR '' '')" for xs
    using put_after [of "[]" 0 6 "CHR '' ''"] put_after [of "'' ''" 1 5 "CHR '' ''"] put_after [of "''Q''" 1 5 "CHR '' ''"]
      put_after [of "''3D0''" 3 3 "CHR '' ''"] by (simp_all add: numeral_eq_Suc)
  have put2: "put (replicate 6 (CHR '' '')) 0 ''3D0'' = ''3D0'' @ replicate 3 (CHR '' '')"
    "put (replicate 6 (CHR '' '')) 0 ''Q'' = ''Q'' @ replicate 5 (CHR '' '')" by (simp_all add: put)
  have blank: "nchar (CHR '' '') TABLE_ALPHANUM = - 1" by code_simp
  have at: "char_at s k = s ! k" if "k \<le> 2" for k using that assms(1,2) by (simp add: char_at_def)
  have "basecall_layout s len \<noteq> replicate 6 (CHR '' '')"
    using assms(1,3) blank by (auto simp: pack_basecall_def Let_def)
  then consider "starts_with s ''3DA0'' \<and> len > 4 \<and> len \<le> 7"
    | "\<not> (starts_with s ''3DA0'' \<and> len > 4 \<and> len \<le> 7)" "starts_with s ''3X'' \<and> is_letter (s ! 2) \<and> len \<le> 7"
    | "\<not> (starts_with s ''3DA0'' \<and> len > 4 \<and> len \<le> 7)" "\<not> (starts_with s ''3X'' \<and> is_letter (s ! 2) \<and> len \<le> 7)"
      "is_digit (s ! 2) \<and> len \<le> 6"
    | "\<not> (starts_with s ''3DA0'' \<and> len > 4 \<and> len \<le> 7)" "\<not> (starts_with s ''3X'' \<and> is_letter (s ! 2) \<and> len \<le> 7)"
      "\<not> (is_digit (s ! 2) \<and> len \<le> 6)" "is_digit (s ! 1) \<and> len \<le> 5"
    by (auto simp: basecall_layout_def at Let_def split: if_splits)
  then show thesis
  proof cases
    case 1
    then show thesis using assms(2) by (intro swaziland) (simp_all add: basecall_layout_def Let_def put2 put(4) [unfolded append_Cons append_Nil])
  next
    case 2
    then show thesis using assms(1,2) by (intro guinea) (auto simp: basecall_layout_def Let_def put2 put(3) [unfolded append_Cons append_Nil One_nat_def] at)
  next
    case 3
    then show thesis using assms(2) by (intro two) (auto simp: basecall_layout_def Let_def put at)
  next
    case 4
    then show thesis using assms(2) by (intro one) (auto simp: basecall_layout_def Let_def put(2) [unfolded append_Cons append_Nil One_nat_def] at)
  qed
qed

lemma basecall_roundtrip:
  assumes pack: "0 \<le> pack_basecall s len" and len: "len \<le> length s" and plain: "plain_base (take len s)"
  shows "basecall_text (basecall_chars (nat (pack_basecall s len))) = take len s"
    and "2 < len" and "pack_basecall s len < 262177560"
proof -
  show gt: "2 < len" using pack by (simp add: pack_basecall_def split: if_splits)
  have blanks: "CHR '' '' \<notin> set (take m (drop k s))" if "k + m \<le> len" for k m
  proof -
    have "take m (drop k s) = drop k (take (k + m) s)" by (simp add: drop_take)
    then have "set (take m (drop k s)) \<subseteq> set (take (k + m) s)" by (metis set_drop_subset)
    also have "\<dots> \<subseteq> set (take len s)" using that by (metis set_take_subset_set_take)
    finally show ?thesis using plain by (auto simp: plain_base_def)
  qed
  have starts: "s = p @ drop (length p) s" if "starts_with s p" for p
    using that append_take_drop_id [of "length p" s] by (simp add: starts_with_def)
  have "length (basecall_layout s len) = 6 \<and> basecall_text (basecall_layout s len) = take len s"
    using gt len pack
  proof (cases rule: basecall_layout_cases)
    case swaziland
    let ?r = "take (len - 4) (drop 4 s)"
    have r: "?r \<noteq> []" "CHR '' '' \<notin> set ?r" using swaziland(2) len blanks [of 4 "len - 4"] by auto
    then have "hd ?r \<noteq> CHR '' ''" using hd_in_set by metis
    moreover have "take len s = ''3DA0'' @ ?r"
      using starts_with_take [OF swaziland(1), of len] swaziland(2) by (simp add: numeral_eq_Suc)
    moreover have "length ?r = len - 4" "trim_copy (?r @ replicate (7 - len) (CHR '' '')) = ?r"
      using len trim_copy_simps(1) [OF r] by simp_all
    ultimately show ?thesis using swaziland(2-4) r(1)
      by (cases ?r) (simp_all add: basecall_text_def starts_with_def is_space_def)
  next
    case guinea
    let ?r = "take (len - 2) (drop 2 s)"
    have r: "?r \<noteq> []" "CHR '' '' \<notin> set ?r" "hd ?r = s ! 2" using gt len blanks [of 2 "len - 2"] by (auto simp: hd_drop_conv_nth)
    note r(3) moreover have "take len s = ''3X'' @ ?r" using starts_with_take [OF guinea(1), of len] gt by (simp add: numeral_eq_Suc)
    moreover have "length ?r = len - 2" "trim_copy (?r @ replicate (7 - len) (CHR '' '')) = ?r"
      using len trim_copy_simps(1) [OF r(1,2)] by simp_all
    ultimately show ?thesis using guinea(2-4) gt
      by (cases ?r) (simp_all add: basecall_text_def starts_with_def)
  next
    case two
    let ?r = "take len s"
    obtain a b c r where abc: "?r = a # b # c # r" using gt len by (cases s; cases "tl s"; cases "tl (tl s)") (auto simp: take_Cons')
    have "\<not> starts_with (?r @ t) ''3D0''" for t using plain abc by (auto simp: plain_base_def starts_with_def)
    moreover have "\<not> (a = CHR ''Q'' \<and> is_letter b)" using plain abc by (auto simp: plain_base_def char_at_def)
    moreover have "trim_copy (?r @ replicate (6 - len) (CHR '' '')) = ?r" using trim_copy_simps(1) [of ?r] plain abc by (simp add: plain_base_def)
    moreover have "length (a # b # c # r) = len" unfolding abc [symmetric] using len by simp
    ultimately show ?thesis using two abc by (simp add: basecall_text_def)
  next
    case one
    let ?r = "take len s"
    have "?r \<noteq> []" using gt len by auto
    then have "trim_copy ('' '' @ ?r @ replicate (5 - len) (CHR '' '')) = ?r"
      using trim_copy_simps(2) [of ?r] plain by (simp add: plain_base_def)
    then show ?thesis using one len by (simp add: basecall_text_def starts_with_def)
  qed
  then show "basecall_text (basecall_chars (nat (pack_basecall s len))) = take len s" "pack_basecall s len < 262177560"
    using pack_basecall_chars [OF refl pack] by simp_all
qed

text \<open>The characters of a callsign that the hash accepts.\<close>

definition call_chars :: "string \<Rightarrow> bool" where
  "call_chars s \<longleftrightarrow> list_all (\<lambda>c. 0 \<le> nchar c TABLE_ALPHANUM_SPACE_SLASH) s"

lemma hash_chars_total: "call_chars s \<Longrightarrow> \<exists>r. hash_chars s i n = Some r"
  by (induction s arbitrary: i n) (auto simp: call_chars_def Let_def)

lemma save_total: "call_chars s \<Longrightarrow> \<exists>n22 st'. save_callsign hash_if s st = Some (n22, st')"
  using hash_chars_total [of s 0 0] by (force simp: save_callsign_def Let_def)

lemma save_hash_fixed: "save_callsign hash_if s st = Some (n22, st') \<Longrightarrow> save_callsign hash_if' s st2 = Some (n22', st2') \<Longrightarrow> n22' = n22"
  by (auto simp: save_callsign_def Let_def split: option.splits)

text \<open>The 22 bits of the hash.\<close>

lemma save_bound: "save_callsign hash_if s st = Some (n22, st') \<Longrightarrow> unat n22 < MAX22"
proof -
  assume "save_callsign hash_if s st = Some (n22, st')"
  then obtain x where "n22 = hash22 x" by (auto simp: save_callsign_def Let_def split: option.splits)
  moreover have "take_bit 22 (hash22 x) = hash22 x" for x
  proof (rule bit_word_eqI)
    fix n
    have m: "(0x3FFFFF :: u64) = mask 22" by (simp add: mask_eq_exp_minus_1)
    show "bit (take_bit 22 (hash22 x)) n \<longleftrightarrow> bit (hash22 x) n"
      unfolding hash22_def m by (auto simp: bit_simps)
  qed
  ultimately have "take_bit 22 n22 = n22" by simp
  then have "take_bit 22 (unat n22) = unat n22" by (metis unsigned_take_bit_eq)
  moreover have "take_bit 22 (unat n22) < 2 ^ 22" by (rule take_bit_nat_less_exp)
  ultimately show ?thesis by (simp add: MAX22_def)
qed

section \<open>Packing and unpacking a callsign\<close>

text \<open>The base of a callsign, without a suffix.\<close>

definition has_suffix :: "string \<Rightarrow> bool" where
  "has_suffix s \<longleftrightarrow> ends_with s ''/P'' \<or> ends_with s ''/R''"

definition base_of :: "string \<Rightarrow> string" where
  "base_of s = (if has_suffix s then take (length s - 2) s else s)"

text \<open>A standard callsign: a base that packs, perhaps with a suffix, and not one of the tokens.\<close>

definition std_call :: "string \<Rightarrow> bool" where
  "std_call s \<longleftrightarrow> 0 \<le> pack_basecall s (length (base_of s)) \<and> plain_base (base_of s) \<and> call_chars s \<and>
     \<not> starts_with s ''CQ_'' \<and> s \<notin> {''DE'', ''QRZ'', ''CQ''}"

lemma length_base: "length (base_of s) = (if has_suffix s then length s - 2 else length s)" "base_of s = take (length (base_of s)) s"
  by (simp_all add: base_of_def)

lemma pack28_std:
  assumes "std_call s"
  shows "\<exists>n22 st'. save_callsign hash_if s st = Some (n22, st') \<and>
    pack28 s hash_if st = (int (NTOKENS + MAX22) + pack_basecall s (length (base_of s)), if has_suffix s then 1 else 0, st')"
proof -
  obtain n22 st' where save: "save_callsign hash_if s st = Some (n22, st')"
    using save_total [of s hash_if st] assms by (auto simp: std_call_def)
  have tokens: "\<not> equals s ''DE''" "\<not> equals s ''QRZ''" "\<not> equals s ''CQ''" "\<not> (starts_with s ''CQ_'' \<and> length s < 8)"
    and n: "0 \<le> pack_basecall s (length (base_of s))"
    using assms by (simp_all add: std_call_def equals_def)
  have "pack28 s hash_if st = (int (NTOKENS + MAX22) + pack_basecall s (length (base_of s)), if has_suffix s then 1 else 0, st')"
    unfolding pack28_def Let_def if_not_P [OF tokens(1)] if_not_P [OF tokens(2)] if_not_P [OF tokens(3)] if_not_P [OF tokens(4)]
      has_suffix_def [symmetric]
    using save n length_base(1) [of s] by (cases "has_suffix s") simp_all
  then show ?thesis using save by blast
qed

lemma suffix_split:
  assumes "has_suffix s"
  shows "s = base_of s @ (if ends_with s ''/P'' then ''/P'' else ''/R'')"
proof -
  have "drop (length s - 2) s = (if ends_with s ''/P'' then ''/P'' else ''/R'')"
    using assms by (auto simp: has_suffix_def ends_with_def numeral_2_eq_2)
  then show ?thesis using append_take_drop_id [of "length s - 2" s] assms unfolding base_of_def if_P [OF assms] by simp
qed

text \<open>What the receiver makes of it: the type of the message says which suffix is meant.\<close>

lemma unpack28_std:
  assumes std: "std_call s" and i3: "has_suffix s \<Longrightarrow> i3 = (if ends_with s ''/P'' then 2 else 1)"
  shows "\<exists>st'. unpack28 (nat (int (NTOKENS + MAX22) + pack_basecall s (length (base_of s)))) (if has_suffix s then 1 else 0) i3 hash_if st
    = (0, s, st')"
    and "int (NTOKENS + MAX22) + pack_basecall s (length (base_of s)) < 2 ^ 28"
proof -
  let ?n = "pack_basecall s (length (base_of s))"
  have ge: "0 \<le> ?n" "plain_base (base_of s)" using std by (simp_all add: std_call_def)
  have le: "length (base_of s) \<le> length s" by (simp add: base_of_def)
  note base = basecall_roundtrip [OF ge(1) le, folded length_base(2), OF ge(2)]
  show "int (NTOKENS + MAX22) + ?n < 2 ^ 28" using base(3) by (simp add: NTOKENS_def MAX22_def)
  have nat: "nat (int (NTOKENS + MAX22) + ?n) = NTOKENS + MAX22 + nat ?n" using ge(1) by simp
  have "\<not> length (base_of s) < 3" using base(2) by simp
  moreover have "(if has_suffix s then if i3 = 1 then base_of s @ ''/R'' else base_of s @ ''/P'' else base_of s) = s"
    using suffix_split [of s] i3 by (cases "has_suffix s") (auto simp: base_of_def split: if_splits)
  ultimately show "\<exists>st'. unpack28 (nat (int (NTOKENS + MAX22) + ?n)) (if has_suffix s then 1 else 0) i3 hash_if st = (0, s, st')"
    unfolding nat unpack28_def Let_def using i3 base(1) by auto
qed

section \<open>Locators and reports come back\<close>

definition grid_text :: "string \<Rightarrow> bool" where
  "grid_text e \<longleftrightarrow> length e = 4 \<and> list_all (in_span 65 82) (take 2 e) \<and> list_all (in_span 48 57) (drop 2 e)"

text \<open>The third fields that a message can carry: nothing, a confirmation, a locator or a report.\<close>

definition good_extra :: "string \<Rightarrow> bool" where
  "good_extra e \<longleftrightarrow> e \<in> {[], ''RRR'', ''RR73'', ''73''} \<or> grid_text e \<or>
     (\<exists>v \<in> {- 30..99}. e = int_to_dd v 2 True \<or> e = CHR ''R'' # int_to_dd v 2 True)"

definition grid_field :: "string \<Rightarrow> nat \<times> nat" where
  "grid_field e = (unat (packgrid e) mod 2 ^ 15, unat (packgrid e) div 2 ^ 15)"

lemma grid_field_word: "packgrid e = word_of_nat k \<Longrightarrow> k < 2 ^ 16 \<Longrightarrow> grid_field e = (k mod 2 ^ 15, k div 2 ^ 15)"
  by (simp add: grid_field_def unsigned_of_nat take_bit_nat_eq_self)

lemma token_roundtrip: "e \<in> {[], ''RRR'', ''RR73'', ''73''} \<Longrightarrow> (case grid_field e of (g, ir) \<Rightarrow> unpackgrid g ir) = e"
proof -
  have p: "packgrid [] = word_of_nat 32401" "packgrid ''RRR'' = word_of_nat 32402" "packgrid ''RR73'' = word_of_nat 32403"
    "packgrid ''73'' = word_of_nat 32404"
    by (simp_all add: packgrid_def equals_def MAXGRID4_def del: of_nat_numeral)
  have "grid_field [] = (32401, 0)" "grid_field ''RRR'' = (32402, 0)" "grid_field ''RR73'' = (32403, 0)" "grid_field ''73'' = (32404, 0)"
    using p [THEN grid_field_word] by simp_all
  moreover have "unpackgrid 32401 0 = []" "unpackgrid 32402 0 = ''RRR''" "unpackgrid 32403 0 = ''RR73''" "unpackgrid 32404 0 = ''73''"
    by (simp_all add: unpackgrid_def MAXGRID4_def)
  moreover assume "e \<in> {[], ''RRR'', ''RR73'', ''73''}"
  ultimately show ?thesis by auto
qed

lemma report_shape:
  assumes "- 30 \<le> v" "v \<le> 99"
  obtains sg x y where "int_to_dd v 2 True = [sg, x, y]" "sg = CHR ''-'' \<or> sg = CHR ''+''"
proof -
  have "length (int_to_dd v 2 True) = 3" using int_to_dd_length [of 2 v True] assms by simp
  then obtain sg x y where s: "int_to_dd v 2 True = [sg, x, y]" by (auto simp: numeral_eq_Suc length_Suc_conv)
  moreover have "sg = CHR ''-'' \<or> sg = CHR ''+''" using s by (auto simp: int_to_dd_def Let_def split: if_splits)
  ultimately show ?thesis by (rule that)
qed

lemma report_word:
  assumes "- 30 \<le> v" "v \<le> 99"
  shows "word_of_nat MAXGRID4 + (word_of_int (35 + v) :: u16) = word_of_nat (nat (32435 + v))"
proof -
  have "(word_of_nat (nat (32435 + v)) :: u16) = word_of_int (32435 + v)" using assms by (simp add: word_of_int_nat [symmetric])
  also have "32435 + v = 32400 + (35 + v)" by simp
  also have "(word_of_int (32400 + (35 + v)) :: u16) = word_of_int 32400 + word_of_int (35 + v)" by (rule of_int_add)
  finally show ?thesis by (simp add: MAXGRID4_def)
qed

lemma report_flag:
  assumes "k < 2 ^ 15"
  shows "(word_of_nat k OR 0x8000 :: u16) = word_of_nat (k + 2 ^ 15)"
proof -
  define b where "b = push_bit 15 (1 :: u16)"
  have "\<not> bit (word_of_nat k :: u16) n \<or> \<not> bit b n" for n
  proof -
    have "\<not> bit k 15" using assms by (simp add: bit_nat_def)
    moreover have "n = 15" if "bit b n" using that by (simp only: b_def bit_push_bit_iff bit_1_iff) auto
    ultimately show ?thesis by (auto simp: bit_simps)
  qed
  then have "word_of_nat k + b = word_of_nat k OR b" by (rule disjunctive_add)
  moreover have "b = 0x8000" by (simp add: b_def push_bit_eq_mult)
  ultimately show ?thesis by simp
qed

lemma report_roundtrip:
  assumes v: "- 30 \<le> v" "v \<le> 99" and e: "e = int_to_dd v 2 True \<or> e = CHR ''R'' # int_to_dd v 2 True"
  shows "(case grid_field e of (g, ir) \<Rightarrow> unpackgrid g ir) = e"
proof -
  obtain sg x y where s: "int_to_dd v 2 True = [sg, x, y]" and sg: "sg = CHR ''-'' \<or> sg = CHR ''+''"
    using report_shape [OF v] .
  have dd: "dd_to_int [sg, x, y] 3 = v" using dd_roundtrip [of 2 v True 3] v unfolding s by simp
  define k where "k = nat (32435 + v)"
  have k: "MAXGRID4 < k" "k < 2 ^ 15" "int k - int MAXGRID4 = 35 + v" using v by (simp_all add: k_def MAXGRID4_def)
  have unpack: "unpackgrid k ir = (if ir > 0 then ''R'' else '''') @ [sg, x, y]" for ir
    using k(1,3) v s by (simp add: unpackgrid_def)
  show ?thesis
  proof (cases "e = [sg, x, y]")
    case True
    have "packgrid e = word_of_nat k"
      using sg report_word [OF v] dd unfolding True packgrid_def k_def by (auto simp: equals_def char_at_def in_range_def)
    then have "grid_field e = (k, 0)" using grid_field_word [of e k] k(2) by simp
    then show ?thesis using unpack [of 0] True by simp
  next
    case False
    then have R: "e = CHR ''R'' # [sg, x, y]" using e s by simp
    have "packgrid e = word_of_nat k OR 0x8000"
      using sg report_word [OF v] dd unfolding R packgrid_def k_def by (auto simp: equals_def char_at_def in_range_def)
    then have "packgrid e = word_of_nat (k + 2 ^ 15)" using report_flag [OF k(2)] by simp
    then have "grid_field e = (k, 1)" using grid_field_word [of e "k + 2 ^ 15"] k(2) by simp
    then show ?thesis using unpack [of 1] R by simp
  qed
qed

lemma grid_digits:
  fixes a b c d :: nat
  assumes "a < 18" "b < 18" "c < 10" "d < 10"
  shows "unpackgrid (((a * 18 + b) * 10 + c) * 10 + d) 0 = [char_of (65 + a), char_of (65 + b), char_of (48 + c), char_of (48 + d)]"
    and "((a * 18 + b) * 10 + c) * 10 + d < MAXGRID4"
proof -
  show lt: "((a * 18 + b) * 10 + c) * 10 + d < MAXGRID4" using assms by (simp add: MAXGRID4_def)
  have step: "(x * k + y) mod k = y" "(x * k + y) div k = x" if "y < k" for x k y :: nat using that by simp_all
  show "unpackgrid (((a * 18 + b) * 10 + c) * 10 + d) 0 = [char_of (65 + a), char_of (65 + b), char_of (48 + c), char_of (48 + d)]"
    unfolding unpackgrid_def Let_def if_P [OF less_imp_le [OF lt]] by (simp only: step assms mod_less less_irrefl if_False append_Nil)
qed

lemma grid_roundtrip: "good_extra e \<Longrightarrow> (case grid_field e of (g, ir) \<Rightarrow> unpackgrid g ir) = e"
proof -
  assume "good_extra e"
  then consider (token) "e \<in> {[], ''RRR'', ''RR73'', ''73''}"
    | (report) v where "- 30 \<le> v" "v \<le> 99" "e = int_to_dd v 2 True \<or> e = CHR ''R'' # int_to_dd v 2 True"
    | (grid) "grid_text e" "e \<notin> {[], ''RRR'', ''RR73'', ''73''}"
    unfolding good_extra_def by auto
  then show ?thesis
  proof cases
    case token
    then show ?thesis by (rule token_roundtrip)
  next
    case report
    then show ?thesis by (rule report_roundtrip)
  next
    case grid
    then obtain a b c d where e: "e = [a, b, c, d]" by (auto simp: grid_text_def numeral_eq_Suc length_Suc_conv)
    then have span: "in_span 65 82 a" "in_span 65 82 b" "in_span 48 57 c" "in_span 48 57 d"
      using grid(1) by (simp_all add: grid_text_def numeral_eq_Suc)
    define k where "k = (((code a - 65) * 18 + (code b - 65)) * 10 + (code c - 48)) * 10 + (code d - 48)"
    have lt: "code a - 65 < 18" "code b - 65 < 18" "code c - 48 < 10" "code d - 48 < 10" using span by (auto simp: in_span_def)
    have "packgrid e = word_of_nat k"
      using grid(2) span unfolding e packgrid_def Let_def k_def by (auto simp: equals_def char_at_def in_range_def is_digit_def in_span_def)
    moreover have "k < 2 ^ 15" using grid_digits(2) [OF lt] by (simp add: k_def MAXGRID4_def)
    ultimately have "grid_field e = (k, 0)" using grid_field_word [of e k] by simp
    moreover have "unpackgrid k 0 = e" unfolding k_def grid_digits(1) [OF lt] e using span by (auto simp: in_span_def)
    ultimately show ?thesis by simp
  qed
qed

section \<open>Other callsigns come back\<close>

definition value58 :: "string \<Rightarrow> nat" where
  "value58 s = foldl (\<lambda>r c. r * 38 + nat (nchar c TABLE_ALPHANUM_SPACE_SLASH)) 0 s"

lemma pack58_loop_value:
  "call_chars s \<Longrightarrow> CHR ''<'' \<notin> set s \<Longrightarrow> len + length s \<le> 11 \<Longrightarrow>
    pack58_loop s len result c11 = Some (foldl (\<lambda>r c. r * 38 + nat (nchar c TABLE_ALPHANUM_SPACE_SLASH)) result s, c11 @ s)"
  by (induction s arbitrary: len result c11) (auto simp: call_chars_def Let_def)

lemma nchar58: "0 \<le> nchar c TABLE_ALPHANUM_SPACE_SLASH \<Longrightarrow> nat (nchar c TABLE_ALPHANUM_SPACE_SLASH) < 38 \<and>
    charn (nat (nchar c TABLE_ALPHANUM_SPACE_SLASH)) TABLE_ALPHANUM_SPACE_SLASH = c"
  using charn_nchar [of c TABLE_ALPHANUM_SPACE_SLASH] by simp

lemma unpack58_value: "call_chars s \<Longrightarrow> unpack58_loop (value58 s) (length s + k) t = unpack58_loop 0 k (s @ t)"
proof (induction s arbitrary: t rule: rev_induct)
  case (snoc c s)
  let ?d = "nat (nchar c TABLE_ALPHANUM_SPACE_SLASH)"
  have "value58 (s @ [c]) = value58 s * 38 + ?d" by (simp add: value58_def)
  moreover have "?d < 38" "charn ?d TABLE_ALPHANUM_SPACE_SLASH = c" using nchar58 [of c] snoc.prems by (simp_all add: call_chars_def)
  ultimately show ?case using snoc by (simp add: call_chars_def)
qed (simp add: value58_def)

lemma unpack58_zero: "unpack58_loop 0 k t = replicate k (CHR '' '') @ t"
proof (induction k arbitrary: t)
  case (Suc k)
  have "charn 0 TABLE_ALPHANUM_SPACE_SLASH = CHR '' ''" by code_simp
  then show ?case using Suc by (simp add: replicate_app_Cons_same)
qed simp

lemma value58_bound: "call_chars s \<Longrightarrow> value58 s < 38 ^ length s"
proof (induction s rule: rev_induct)
  case (snoc c s)
  let ?d = "nat (nchar c TABLE_ALPHANUM_SPACE_SLASH)"
  have "value58 s + 1 \<le> 38 ^ length s" "?d < 38" using snoc nchar58 [of c] by (simp_all add: call_chars_def)
  then have "value58 s * 38 + ?d < 38 ^ length s * 38" by linarith
  then show ?case by (simp add: value58_def mult.commute)
qed (simp add: value58_def)

lemma call_chars_plain: "call_chars s \<Longrightarrow> CHR ''<'' \<notin> set s"
proof -
  assume s: "call_chars s"
  have "nchar (CHR ''<'') TABLE_ALPHANUM_SPACE_SLASH = - 1" by code_simp
  then show ?thesis using s by (auto simp: call_chars_def list_all_iff)
qed

lemma pack58_unpack58:
  assumes s: "call_chars s" "length s \<le> 11" "3 \<le> length s" "CHR '' '' \<notin> set s"
  shows "\<exists>n22 st1'. save_callsign hash_if s st1 = Some (n22, st1') \<and> pack58 hash_if s st1 = Some (value58 s, st1')"
    and "value58 s < 2 ^ 58" and "\<exists>st2'. unpack58 (value58 s) hash_if st2 = (True, s, st2')"
proof -
  have "38 ^ length s \<le> (38 :: nat) ^ 11" by (rule power_increasing [OF s(2)]) simp
  then show "value58 s < 2 ^ 58" using value58_bound [OF s(1)] by simp
  have "s \<noteq> []" using s(3) by auto
  then have "hd s \<noteq> CHR ''<''" using call_chars_plain [OF s(1)] hd_in_set [of s] by metis
  moreover have "pack58_loop s 0 0 [] = Some (value58 s, s)"
    using pack58_loop_value [OF s(1) call_chars_plain [OF s(1)], of 0 0 "[]"] s(2) by (simp add: value58_def)
  ultimately show "\<exists>n22 st1'. save_callsign hash_if s st1 = Some (n22, st1') \<and> pack58 hash_if s st1 = Some (value58 s, st1')"
    using save_total [OF s(1), of hash_if st1] by (auto simp: pack58_def)
  have "s \<noteq> []" using s(3) by auto
  then have "trim_copy (unpack58_loop (value58 s) 11 []) = s"
    using unpack58_value [OF s(1), of "11 - length s" "[]"] unpack58_zero [of "11 - length s" s]
      trim_copy_pad [of s "11 - length s" 0] s(2,4) by simp
  then show "\<exists>st2'. unpack58 (value58 s) hash_if st2 = (True, s, st2')"
    using save_total [OF s(1), of hash_if st2] s(3) by (auto simp: unpack58_def)
qed

end
