(* ===== verification/FtxMessage.thy ===== *)
theory FtxMessage
  imports FtxCall "HOL-Library.Monad_Syntax"
begin

text \<open>
  The messages of FT8 and FT4 and those of FST4W: the exported functions of \<open>ft8_lib/ft8/message.c\<close> over the
  fields of theory \<open>FtxCall\<close>. A message is its array of payload bytes.
\<close>

unbundle bit_operations_syntax

section \<open>Types\<close>

datatype message_type = FREE_TEXT | DXPEDITION | EU_VHF | ARRL_FD | TELEMETRY | CONTESTING | STANDARD | ARRL_RTTY
  | NONSTD_CALL | WWROF | UNKNOWN

datatype message_rc = RC_OK | RC_ERROR_CALLSIGN1 | RC_ERROR_CALLSIGN2 | RC_ERROR_SUFFIX | RC_ERROR_GRID | RC_ERROR_TYPE

definition ftx_message_get_i3 :: "u8 list \<Rightarrow> u8" where
  "ftx_message_get_i3 payload = drop_bit 3 (payload ! 9) AND 0x07"

definition ftx_message_get_n3 :: "u8 list \<Rightarrow> u8" where
  "ftx_message_get_n3 payload = (push_bit 2 (payload ! 8) AND 0x04) OR (drop_bit 6 (payload ! 9) AND 0x03)"

definition ftx_message_get_type :: "u8 list \<Rightarrow> message_type" where
  "ftx_message_get_type payload =
     (let i3 = ftx_message_get_i3 payload in
      if i3 = 0 then
        (let n3 = ftx_message_get_n3 payload in
         if n3 = 0 then FREE_TEXT else if n3 = 1 then DXPEDITION else if n3 = 2 then EU_VHF
         else if n3 = 3 \<or> n3 = 4 then ARRL_FD else if n3 = 5 then TELEMETRY else UNKNOWN)
      else if i3 = 1 \<or> i3 = 2 then STANDARD
      else if i3 = 3 then ARRL_RTTY
      else if i3 = 4 then NONSTD_CALL
      else if i3 = 5 then WWROF else UNKNOWN)"

section \<open>Standard messages\<close>

definition std_bytes :: "u32 \<Rightarrow> u32 \<Rightarrow> u16 \<Rightarrow> u8 \<Rightarrow> u8 list" where
  "std_bytes n29a n29b igrid4 i3 =
     [ucast (drop_bit 21 n29a), ucast (drop_bit 13 n29a), ucast (drop_bit 5 n29a),
      ucast (push_bit 3 n29a) OR ucast (drop_bit 26 n29b),
      ucast (drop_bit 18 n29b), ucast (drop_bit 10 n29b), ucast (drop_bit 2 n29b),
      ucast (push_bit 6 n29b) OR ucast (drop_bit 10 igrid4),
      ucast (drop_bit 2 igrid4),
      ucast (push_bit 6 igrid4) OR push_bit 3 i3]"

definition ftx_message_encode_std :: "'s hash_if \<Rightarrow> string \<Rightarrow> string \<Rightarrow> string \<Rightarrow> u8 list \<Rightarrow> 's \<Rightarrow> message_rc \<times> u8 list \<times> 's" where
  "ftx_message_encode_std hash_if call_to call_de extra payload st =
     (let (n28a, ipa, st) = pack28 call_to hash_if st;
          (n28b, ipb, st) = pack28 call_de hash_if st
      in if n28a < 0 then (RC_ERROR_CALLSIGN1, payload, st)
         else if n28b < 0 then (RC_ERROR_CALLSIGN2, payload, st)
         else
           let any_p = (ends_with call_to ''/P'' \<or> ends_with call_de ''/P'');
               i3 = (if any_p then 2 else 1)
           in if any_p \<and> (ends_with call_to ''/R'' \<or> ends_with call_de ''/R'') then (RC_ERROR_SUFFIX, payload, st)
              else
                let igrid4 = packgrid extra;
                    n29a = push_bit 1 (word_of_int n28a) OR ucast ipa;
                    n29b = push_bit 1 (word_of_int n28b) OR ucast ipb;
                    (n29a, i3) =
                      (if ends_with call_to ''/R'' then (n29a OR 1, i3)
                       else if ends_with call_to ''/P'' then (n29a OR 1, 2) else (n29a, i3))
                in (RC_OK, std_bytes n29a n29b igrid4 i3 @ drop 10 payload, st))"

definition std_fields :: "u8 list \<Rightarrow> u32 \<times> u32 \<times> u8 \<times> u16" where
  "std_fields p =
     (push_bit 21 (ucast (p ! 0)) OR push_bit 13 (ucast (p ! 1)) OR push_bit 5 (ucast (p ! 2)) OR ucast (drop_bit 3 (p ! 3)),
      push_bit 26 (ucast (p ! 3 AND 0x07)) OR push_bit 18 (ucast (p ! 4)) OR push_bit 10 (ucast (p ! 5)) OR push_bit 2 (ucast (p ! 6))
        OR ucast (drop_bit 6 (p ! 7)),
      drop_bit 5 (p ! 7 AND 0x20),
      push_bit 10 (ucast (p ! 7 AND 0x1F)) OR push_bit 2 (ucast (p ! 8)) OR ucast (drop_bit 6 (p ! 9)))"

text \<open>The return value, the three strings and the state of the table.\<close>

definition ftx_message_decode_std :: "u8 list \<Rightarrow> 's hash_if \<Rightarrow> 's \<Rightarrow> message_rc \<times> string \<times> string \<times> string \<times> 's" where
  "ftx_message_decode_std payload hash_if st =
     (let (n29a, n29b, ir, igrid4) = std_fields payload;
          i3 = drop_bit 3 (payload ! 9) AND 0x07;
          (rc, call_to, st) = unpack28 (unat (drop_bit 1 n29a)) (unat (n29a AND 1)) (unat i3) hash_if st
      in if rc < 0 then (RC_ERROR_CALLSIGN1, call_to, [], [], st)
         else
           let (rc, call_de, st) = unpack28 (unat (drop_bit 1 n29b)) (unat (n29b AND 1)) (unat i3) hash_if st
           in if rc < 0 then (RC_ERROR_CALLSIGN2, call_to, call_de, [], st)
              else (RC_OK, call_to, call_de, unpackgrid (unat igrid4) (unat ir), st))"

section \<open>Messages with a nonstandard callsign\<close>

definition nonstd_bytes :: "u16 \<Rightarrow> u64 \<Rightarrow> u8 \<Rightarrow> u8 \<Rightarrow> u8 \<Rightarrow> u8 \<Rightarrow> u8 list" where
  "nonstd_bytes n12 n58 iflip nrpt icq i3 =
     [ucast (drop_bit 4 n12), ucast (push_bit 4 n12) OR ucast (drop_bit 54 n58),
      ucast (drop_bit 46 n58), ucast (drop_bit 38 n58), ucast (drop_bit 30 n58), ucast (drop_bit 22 n58),
      ucast (drop_bit 14 n58), ucast (drop_bit 6 n58),
      ucast (push_bit 2 n58) OR push_bit 1 iflip OR drop_bit 1 nrpt,
      push_bit 7 nrpt OR push_bit 6 icq OR push_bit 3 i3]"

text \<open>
  \<open>call_de\<close> is the array, of which the string is the part in front of the zero: the code looks for the closing
  bracket at the length of the other callsign, and \<open>None\<close> is a read behind the array.
\<close>

definition ftx_message_encode_nonstd :: "'s hash_if \<Rightarrow> string \<Rightarrow> char list \<Rightarrow> string \<Rightarrow> u8 list \<Rightarrow> 's \<Rightarrow>
    (message_rc \<times> u8 list \<times> 's) option" where
  "ftx_message_encode_nonstd hash_if call_to call_de_mem extra payload st =
     (let call_de = cstr call_de_mem;
          icq = equals call_to ''CQ'';
          len_call_to = length call_to;
          len_call_de = length call_de
      in if \<not> icq \<and> len_call_to < 3 then Some (RC_ERROR_CALLSIGN1, payload, st)
         else if len_call_de < 3 then Some (RC_ERROR_CALLSIGN2, payload, st)
         else do {
           (rc, iflip, n12, call58, st) \<leftarrow>
             (if icq then Some (RC_OK, False, 0, call_de, st)
              else do {
                closing \<leftarrow> (if call_de_mem ! 0 = CHR ''<'' then
                    (if len_call_to - 1 < length call_de_mem then Some (call_de_mem ! (len_call_to - 1) = CHR ''>'') else None)
                  else Some False);
                let iflip = closing;
                let call12 = (if \<not> iflip then call_to else call_de);
                let call58 = (if \<not> iflip then call_de else call_to);
                (case save_callsign hash_if call12 st of
                   None \<Rightarrow> Some (RC_ERROR_CALLSIGN1, iflip, 0, call58, st)
                 | Some (n22, st) \<Rightarrow> Some (RC_OK, iflip, ucast (drop_bit 10 n22), call58, st))
              });
           if rc \<noteq> RC_OK then Some (rc, payload, st)
           else (case pack58 hash_if call58 st of
               None \<Rightarrow> Some (RC_ERROR_CALLSIGN2, payload, st)
             | Some (n58, st) \<Rightarrow>
                 let nrpt = (if icq then 0 else if equals extra ''RRR'' then 1 else if equals extra ''RR73'' then 2
                             else if equals extra ''73'' then 3 else 0)
                 in Some (RC_OK, nonstd_bytes n12 (word_of_nat n58) (if iflip then 1 else 0) nrpt (if icq then 1 else 0) 4
                      @ drop 10 payload, st))
         })"

definition nonstd_fields :: "u8 list \<Rightarrow> u16 \<times> u64 \<times> u16 \<times> u16 \<times> u16" where
  "nonstd_fields p =
     (push_bit 4 (ucast (p ! 0)) OR ucast (drop_bit 4 (p ! 1)),
      push_bit 54 (ucast (p ! 1 AND 0x0F)) OR push_bit 46 (ucast (p ! 2)) OR push_bit 38 (ucast (p ! 3)) OR push_bit 30 (ucast (p ! 4))
        OR push_bit 22 (ucast (p ! 5)) OR push_bit 14 (ucast (p ! 6)) OR push_bit 6 (ucast (p ! 7)) OR ucast (drop_bit 2 (p ! 8)),
      ucast (drop_bit 1 (p ! 8) AND 0x01),
      push_bit 1 (ucast (p ! 8 AND 0x01)) OR ucast (drop_bit 7 (p ! 9)),
      ucast (drop_bit 6 (p ! 9) AND 0x01))"

definition ftx_message_decode_nonstd :: "u8 list \<Rightarrow> 's hash_if \<Rightarrow> 's \<Rightarrow> message_rc \<times> string \<times> string \<times> string \<times> 's" where
  "ftx_message_decode_nonstd payload hash_if st =
     (let (n12, n58, iflip, nrpt, icq) = nonstd_fields payload;
          (_, call_decoded, st) = unpack58 (unat n58) hash_if st;
          call_3 = lookup_callsign hash_if HASH_12_BITS (ucast n12) st;
          call_1 = (if iflip \<noteq> 0 then call_decoded else call_3);
          call_2 = (if iflip \<noteq> 0 then call_3 else call_decoded);
          (call_to, extra) =
            (if icq = 0 then (call_1, if nrpt = 1 then ''RRR'' else if nrpt = 2 then ''RR73'' else if nrpt = 3 then ''73'' else [])
             else (''CQ'', []))
      in (RC_OK, call_to, call_2, extra, st))"

section \<open>Free text and telemetry\<close>

text \<open>The payload shifted right by one bit, over nine bytes.\<close>

fun shift_bytes :: "u8 \<Rightarrow> u8 list \<Rightarrow> u8 list" where
  "shift_bytes carry [] = []"
| "shift_bytes carry (b # bs) = (push_bit 7 carry OR drop_bit 1 b) # shift_bytes (b AND 0x01) bs"

definition ftx_message_decode_telemetry :: "u8 list \<Rightarrow> u8 list" where
  "ftx_message_decode_telemetry payload = shift_bytes 0 (take 9 payload)"

text \<open>The long division by 42: the quotient's bytes and the remainder.\<close>

fun div42 :: "nat \<Rightarrow> u8 list \<Rightarrow> u8 list \<times> nat" where
  "div42 r [] = ([], r)"
| "div42 r (b # bs) =
     (let r = 256 * r + unat b;
          (bs', r') = div42 (r mod 42) bs
      in (word_of_nat (r div 42) # bs', r'))"

fun free_loop :: "nat \<Rightarrow> u8 list \<Rightarrow> string \<Rightarrow> string" where
  "free_loop 0 b71 c14 = c14"
| "free_loop (Suc idx) b71 c14 = (let (b71, r) = div42 0 b71 in free_loop idx b71 (charn r TABLE_FULL # c14))"

definition ftx_message_decode_free :: "u8 list \<Rightarrow> string" where
  "ftx_message_decode_free payload = trim (free_loop 13 (ftx_message_decode_telemetry payload) [])"

definition hex_char :: "u8 \<Rightarrow> char" where
  "hex_char nibble = (if nibble > 9 then char_of (unat nibble - 10 + 65) else char_of (unat nibble + 48))"

definition ftx_message_decode_telemetry_hex :: "u8 list \<Rightarrow> string" where
  "ftx_message_decode_telemetry_hex payload =
     concat (map (\<lambda>b. [hex_char (drop_bit 4 b), hex_char (b AND 0x0F)]) (ftx_message_decode_telemetry payload))"

section \<open>Encoding and decoding a message\<close>

definition ftx_message_encode :: "'s hash_if \<Rightarrow> string \<Rightarrow> u8 list \<Rightarrow> 's \<Rightarrow> (message_rc \<times> u8 list \<times> 's) option" where
  "ftx_message_encode hash_if message_text payload st =
     (let (call_to, parse_position) = copy_token 12 message_text;
          (call_de, parse_position) = copy_token 12 parse_position;
          (extra, parse_position) = copy_token 20 parse_position
      in if call_to ! 11 \<noteq> NUL then Some (RC_ERROR_CALLSIGN1, payload, st)
         else if call_de ! 11 \<noteq> NUL then Some (RC_ERROR_CALLSIGN2, payload, st)
         else if extra ! 19 \<noteq> NUL then Some (RC_ERROR_GRID, payload, st)
         else
           let (rc, payload, st) = ftx_message_encode_std hash_if (cstr call_to) (cstr call_de) (cstr extra) payload st
           in if rc = RC_OK then Some (rc, payload, st)
              else ftx_message_encode_nonstd hash_if (cstr call_to) call_de (cstr extra) payload st)"

definition ftx_message_decode :: "u8 list \<Rightarrow> 's hash_if \<Rightarrow> 's \<Rightarrow> message_rc \<times> string \<times> 's" where
  "ftx_message_decode payload hash_if st =
     (let join = (\<lambda>(rc, field1, field2, field3, st). (rc, field1 @ '' '' @ field2 @ '' '' @ field3, st))
      in case ftx_message_get_type payload of
           STANDARD \<Rightarrow> join (ftx_message_decode_std payload hash_if st)
         | NONSTD_CALL \<Rightarrow> join (ftx_message_decode_nonstd payload hash_if st)
         | FREE_TEXT \<Rightarrow> (RC_OK, ftx_message_decode_free payload, st)
         | TELEMETRY \<Rightarrow> (RC_OK, ftx_message_decode_telemetry_hex payload, st)
         | _ \<Rightarrow> (RC_ERROR_TYPE, [], st))"

section \<open>Messages of FST4W\<close>

definition extract_bits :: "u8 list \<Rightarrow> nat \<Rightarrow> nat \<Rightarrow> u32" where
  "extract_bits data start nbits =
     fold (\<lambda>i result. push_bit 1 result OR (ucast (drop_bit (7 - i mod 8) (data ! (i div 8))) AND 1)) [start..<start + nbits] 0"

text \<open>
  \<open>(int)(idbm * 10.0f / 3.0f + 0.5f)\<close>: the fractions are 1/2, 5/6 and 1/6, so that no rounding of a value
  below 128 changes the integer.
\<close>

definition idbm_dbm :: "nat \<Rightarrow> nat" where
  "idbm_dbm idbm = (20 * idbm + 3) div 6"

definition a2 :: "char list" where
  "a2 = ''0123456789ABCDEFGHIJKLMNOPQRSTUVWXYZ'' @ [NUL]"

definition a2_at :: "nat \<Rightarrow> char option" where
  "a2_at i = (if i < length a2 then Some (a2 ! i) else None)"

text \<open>The loop over \<open>i = 2, 1, 0\<close>, in front of whose step \<open>i\<close> is \<open>Suc i\<close>.\<close>

fun prefix_loop :: "nat \<Rightarrow> nat \<Rightarrow> char list \<Rightarrow> char list" where
  "prefix_loop n 0 pfx = pfx"
| "prefix_loop n (Suc i) pfx =
     (let pfx = pfx[i := a2 ! (n mod 36)]; n = n div 36
      in if n = 0 then (if i > 0 then drop i pfx @ drop (4 - i) pfx else pfx)
         else prefix_loop n i pfx)"

definition suffix_text :: "nat \<Rightarrow> string option" where
  "suffix_text ns =
     (if ns \<le> 35 then do { a \<leftarrow> a2_at ns; Some (cstr [a, NUL]) }
      else if ns \<le> 1295 then do { a \<leftarrow> a2_at (ns div 36); b \<leftarrow> a2_at (ns mod 36); Some (cstr [a, b, NUL]) }
      else do { a \<leftarrow> a2_at (ns div 360); b \<leftarrow> a2_at ((ns div 10) mod 36); c \<leftarrow> a2_at (ns mod 10); Some (cstr [a, b, c, NUL]) })"

definition grid4_text :: "nat \<Rightarrow> string" where
  "grid4_text igrid4 =
     (let g3 = char_of (48 + igrid4 mod 10); igrid4 = igrid4 div 10;
          g2 = char_of (48 + igrid4 mod 10); igrid4 = igrid4 div 10;
          g1 = char_of (65 + igrid4 mod 18); igrid4 = igrid4 div 18;
          g0 = char_of (65 + igrid4 mod 18)
      in [g0, g1, g2, g3])"

definition grid6_text :: "nat \<Rightarrow> string" where
  "grid6_text igrid6 =
     (let g5 = char_of (97 + igrid6 mod 24); igrid6 = igrid6 div 24;
          g4 = char_of (97 + igrid6 mod 24); igrid6 = igrid6 div 24
      in grid4_text igrid6 @ [g4, g5])"

definition FTX_MAX_MESSAGE_LENGTH :: nat where "FTX_MAX_MESSAGE_LENGTH = 35"

text \<open>What \<open>snprintf\<close> leaves; \<open>None\<close> is a read behind the table \<open>a2\<close>.\<close>

definition fst4w_message_decode :: "u8 list \<Rightarrow> 's hash_if \<Rightarrow> string \<Rightarrow> 's \<Rightarrow> (message_rc \<times> string \<times> 's) option" where
  "fst4w_message_decode p hash_if message st =
     (let printed = take (FTX_MAX_MESSAGE_LENGTH - 1);
          j2a = drop_bit 1 (p ! 6) AND 1;
          j2b = p ! 6 AND 1
      in if j2b = 0 \<and> j2a = 0 then
           (let n28 = unat (extract_bits p 0 28);
                igrid4 = unat (extract_bits p 28 15);
                dbm = idbm_dbm (unat (extract_bits p 43 5));
                (rc, callsign, st) = unpack28 n28 0 0 hash_if st
            in if rc < 0 then Some (RC_ERROR_CALLSIGN1, message, st)
               else Some (RC_OK, printed (callsign @ '' '' @ grid4_text igrid4 @ '' '' @ fmt_int (int dbm)), st))
         else if j2b = 0 \<and> j2a = 1 then
           (let n22 = unat (extract_bits p 0 22);
                igrid6 = unat (extract_bits p 22 25);
                (rc, callsign, st) = unpack28 (n22 + NTOKENS) 0 0 hash_if st
            in if rc < 0 then Some (RC_ERROR_CALLSIGN1, message, st)
               else Some (RC_OK, printed (callsign @ '' '' @ grid6_text igrid6), st))
         else
           (let n28 = unat (extract_bits p 0 28);
                npfx = unat (extract_bits p 28 16);
                dbm = idbm_dbm (unat (extract_bits p 44 5));
                (rc, callsign, st) = unpack28 n28 0 0 hash_if st
            in if rc < 0 then Some (RC_ERROR_CALLSIGN1, message, st)
               else if npfx < 46656 then
                 Some (RC_OK, printed (cstr (prefix_loop npfx 3 (replicate 4 NUL)) @ ''/'' @ callsign @ '' '' @ fmt_int (int dbm)), st)
               else do {
                 pfx \<leftarrow> suffix_text (npfx - 46656);
                 Some (RC_OK, printed (callsign @ ''/'' @ pfx @ '' '' @ fmt_int (int dbm)), st)
               }))"

section \<open>The bits of a payload\<close>

lemma masks: "(0x07 :: u8) = mask 3" "(0x1F :: u8) = mask 5" "(0x0F :: u8) = mask 4" "(0x01 :: u8) = mask 1"
  by (simp_all add: mask_eq_exp_minus_1)

lemma bit_20: "bit (0x20 :: u8) n \<longleftrightarrow> n = 5"
proof -
  have "bit (push_bit 5 (1 :: u8)) n \<longleftrightarrow> n = 5" by (simp only: bit_push_bit_iff bit_1_iff) (auto simp: bit_simps)
  moreover have "push_bit 5 (1 :: u8) = 0x20" by (simp add: push_bit_eq_mult)
  ultimately show ?thesis by simp
qed

lemma small_bits: "unat (w :: 'a::len word) < 2 ^ k \<Longrightarrow> bit w n \<Longrightarrow> n < k"
  by (metis bit_take_bit_iff take_bit_nat_eq_self unsigned_take_bit_eq word_unat_eq_iff)

lemma eq_bits:
  fixes x y :: "'a::len word"
  assumes "LENGTH('a) = k" "[0..<k] = ks" "list_all (\<lambda>n. bit x n \<longleftrightarrow> bit y n) ks"
  shows "x = y"
  using assms by (intro bit_word_eqI) (auto simp: list_all_iff)

lemma bit_out: "LENGTH('a) \<le> n \<Longrightarrow> \<not> bit (w :: 'a::len word) n"
  using bit_imp_le_length [of w n] by auto

lemma bit_twice: "bit (x * 2 :: 'a::len word) n \<longleftrightarrow> 0 < n \<and> n < LENGTH('a) \<and> bit x (n - 1)"
proof -
  have "x * 2 = push_bit 1 x" by (simp add: push_bit_eq_mult)
  then show ?thesis by (simp only: bit_push_bit_iff) (auto simp: bit_simps)
qed

lemmas bit_calc = bit_simps bit_out bit_twice numeral_2_eq_2 [symmetric]

lemma upto8: "[0..<8] = [0, 1, 2, 3, 4, 5, 6, 7]" by code_simp
lemma upto_16: "[0..<16] = [0, 1, 2, 3, 4, 5, 6, 7, 8, 9, 10, 11, 12, 13, 14, 15]" by code_simp
lemma upto32: "[0..<32] = [0, 1, 2, 3, 4, 5, 6, 7, 8, 9, 10, 11, 12, 13, 14, 15, 16, 17, 18, 19, 20, 21, 22, 23, 24, 25, 26, 27, 28, 29, 30, 31]"
  by code_simp

lemma std_bytes_fields:
  assumes a: "unat n29a < 2 ^ 29" and b: "unat n29b < 2 ^ 29" and i3: "unat i3 < 2 ^ 3"
  shows "std_fields (std_bytes n29a n29b g i3 @ rest) = (n29a, n29b, ucast (drop_bit 15 g), take_bit 15 g)"
proof -
  note A = small_bits [OF a] and B = small_bits [OF b]
  have nn: "\<not> bit n29a 29" "\<not> bit n29a 30" "\<not> bit n29a 31" "\<not> bit n29b 29" "\<not> bit n29b 30" "\<not> bit n29b 31"
    "\<not> bit n29b 32" "\<not> bit n29b 33" "\<not> bit i3 3" "\<not> bit i3 4"
    using A [of 29] A [of 30] A [of 31] B [of 29] B [of 30] B [of 31] B [of 32] B [of 33] small_bits [OF i3, of 3] small_bits [OF i3, of 4] by auto
  have "push_bit 21 (ucast (ucast (drop_bit 21 n29a) :: u8)) OR push_bit 13 (ucast (ucast (drop_bit 13 n29a) :: u8))
    OR push_bit 5 (ucast (ucast (drop_bit 5 n29a) :: u8)) OR ucast (drop_bit 3 (ucast (push_bit 3 n29a) OR ucast (drop_bit 26 n29b) :: u8)) = n29a"
    by (rule eq_bits [OF _ upto32]) (use nn in \<open>simp_all add: bit_calc\<close>)
  moreover have "push_bit 26 (ucast ((ucast (push_bit 3 n29a) OR ucast (drop_bit 26 n29b)) AND 0x07 :: u8)) OR push_bit 18 (ucast (ucast (drop_bit 18 n29b) :: u8))
    OR push_bit 10 (ucast (ucast (drop_bit 10 n29b) :: u8)) OR push_bit 2 (ucast (ucast (drop_bit 2 n29b) :: u8))
    OR ucast (drop_bit 6 (ucast (push_bit 6 n29b) OR ucast (drop_bit 10 g) :: u8)) = n29b"
    unfolding masks by (rule eq_bits [OF _ upto32]) (use nn in \<open>simp_all add: bit_calc\<close>)
  moreover have "drop_bit 5 ((ucast (push_bit 6 n29b) OR ucast (drop_bit 10 g)) AND 0x20 :: u8) = ucast (drop_bit 15 g)"
    by (rule eq_bits [OF _ upto8]) (simp_all add: bit_calc bit_20)
  moreover have "push_bit 10 (ucast ((ucast (push_bit 6 n29b) OR ucast (drop_bit 10 g)) AND 0x1F :: u8)) OR push_bit 2 (ucast (ucast (drop_bit 2 g) :: u8))
    OR ucast (drop_bit 6 (ucast (push_bit 6 g) OR push_bit 3 i3 :: u8)) = take_bit 15 g"
    unfolding masks by (rule eq_bits [OF _ upto_16]) (use nn in \<open>simp_all add: bit_calc\<close>)
  ultimately show ?thesis by (simp add: std_fields_def std_bytes_def nth_Cons')
qed

lemma i3_field:
  assumes "unat i3 < 2 ^ 3"
  shows "drop_bit 3 ((std_bytes n29a n29b g i3 @ rest) ! 9) AND 0x07 = i3"
proof -
  have "\<not> bit i3 3" "\<not> bit i3 4" "\<not> bit i3 5" "\<not> bit i3 6" "\<not> bit i3 7"
    using small_bits [OF assms, of 3] small_bits [OF assms, of 4] small_bits [OF assms, of 5] small_bits [OF assms, of 6]
      small_bits [OF assms, of 7] by auto
  then have "drop_bit 3 (ucast (push_bit 6 g) OR push_bit 3 i3) AND 0x07 = i3" for g :: u16
    unfolding masks by (intro eq_bits [OF _ upto8]) (simp_all add: bit_calc)
  then show ?thesis by (simp add: std_bytes_def nth_Cons')
qed

lemma upto64: "[0..<64] = [0, 1, 2, 3, 4, 5, 6, 7, 8, 9, 10, 11, 12, 13, 14, 15, 16, 17, 18, 19, 20, 21, 22, 23, 24, 25, 26, 27, 28, 29, 30, 31,
   32, 33, 34, 35, 36, 37, 38, 39, 40, 41, 42, 43, 44, 45, 46, 47, 48, 49, 50, 51, 52, 53, 54, 55, 56, 57, 58, 59, 60, 61, 62, 63]"
  by code_simp

definition flag :: "bool \<Rightarrow> 'a::len word" where "flag b = (if b then 1 else 0)"

lemma bit_flag [simp]: "bit (flag b :: 'a::len word) n \<longleftrightarrow> b \<and> n = 0"
  by (auto simp: flag_def bit_1_iff)

lemma nonstd_bytes_fields:
  assumes n12: "unat n12 < 2 ^ 12" and n58: "unat n58 < 2 ^ 58" and nrpt: "unat nrpt < 2 ^ 2"
  shows "nonstd_fields (nonstd_bytes n12 n58 (flag iflip) nrpt (flag icq) 4 @ rest) = (n12, n58, flag iflip, ucast nrpt, flag icq)"
    and "drop_bit 3 ((nonstd_bytes n12 n58 (flag iflip) nrpt (flag icq) 4 @ rest) ! 9) AND 0x07 = 4"
proof -
  have a: "\<not> bit n12 12" "\<not> bit n12 13" "\<not> bit n12 14" "\<not> bit n12 15"
    using small_bits [OF n12, of 12] small_bits [OF n12, of 13] small_bits [OF n12, of 14] small_bits [OF n12, of 15] by auto
  have b: "\<not> bit n58 58" "\<not> bit n58 59" "\<not> bit n58 60" "\<not> bit n58 61" "\<not> bit n58 62" "\<not> bit n58 63"
    using small_bits [OF n58, of 58] small_bits [OF n58, of 59] small_bits [OF n58, of 60] small_bits [OF n58, of 61]
      small_bits [OF n58, of 62] small_bits [OF n58, of 63] by auto
  have c: "\<not> bit nrpt 2" "\<not> bit nrpt 3" "\<not> bit nrpt 4" "\<not> bit nrpt 5" "\<not> bit nrpt 6" "\<not> bit nrpt 7"
    using small_bits [OF nrpt, of 2] small_bits [OF nrpt, of 3] small_bits [OF nrpt, of 4] small_bits [OF nrpt, of 5]
      small_bits [OF nrpt, of 6] small_bits [OF nrpt, of 7] by auto
  have four: "bit (4 :: u8) n \<longleftrightarrow> n = 2" for n
  proof -
    have "bit (push_bit 2 (1 :: u8)) n \<longleftrightarrow> n = 2" by (simp only: bit_push_bit_iff bit_1_iff) (auto simp: bit_simps)
    moreover have "push_bit 2 (1 :: u8) = 4" by (simp add: push_bit_eq_mult)
    ultimately show ?thesis by simp
  qed
  let ?b8 = "ucast (push_bit 2 n58) OR push_bit 1 (flag iflip) OR drop_bit 1 nrpt :: u8"
  let ?b9 = "push_bit 7 nrpt OR push_bit 6 (flag icq) OR push_bit 3 4 :: u8"
  let ?b1 = "ucast (push_bit 4 n12) OR ucast (drop_bit 54 n58) :: u8"
  have "push_bit 4 (ucast (ucast (drop_bit 4 n12) :: u8)) OR ucast (drop_bit 4 ?b1) = n12"
    by (rule eq_bits [OF _ upto_16]) (use a b in \<open>simp_all add: bit_calc\<close>)
  moreover have "push_bit 54 (ucast (?b1 AND 0x0F)) OR push_bit 46 (ucast (ucast (drop_bit 46 n58) :: u8)) OR push_bit 38 (ucast (ucast (drop_bit 38 n58) :: u8))
      OR push_bit 30 (ucast (ucast (drop_bit 30 n58) :: u8)) OR push_bit 22 (ucast (ucast (drop_bit 22 n58) :: u8))
      OR push_bit 14 (ucast (ucast (drop_bit 14 n58) :: u8)) OR push_bit 6 (ucast (ucast (drop_bit 6 n58) :: u8))
      OR ucast (drop_bit 2 ?b8) = n58"
    unfolding masks by (rule eq_bits [OF _ upto64]) (use b c in \<open>simp_all add: bit_calc\<close>)
  moreover have "(ucast (drop_bit 1 ?b8 AND 0x01) :: u16) = flag iflip"
    unfolding masks by (rule eq_bits [OF _ upto_16]) (use c in \<open>simp_all add: bit_calc\<close>)
  moreover have "push_bit 1 (ucast (?b8 AND 0x01)) OR ucast (drop_bit 7 ?b9) = (ucast nrpt :: u16)"
    unfolding masks by (rule eq_bits [OF _ upto_16]) (use c in \<open>simp_all add: bit_calc four\<close>)
  moreover have "(ucast (drop_bit 6 ?b9 AND 0x01) :: u16) = flag icq"
    unfolding masks by (rule eq_bits [OF _ upto_16]) (use c in \<open>simp_all add: bit_calc four\<close>)
  ultimately show "nonstd_fields (nonstd_bytes n12 n58 (flag iflip) nrpt (flag icq) 4 @ rest) = (n12, n58, flag iflip, ucast nrpt, flag icq)"
    by (simp add: nonstd_fields_def nonstd_bytes_def nth_Cons')
  have "drop_bit 3 ?b9 AND 0x07 = 4"
    unfolding masks by (rule eq_bits [OF _ upto8]) (use c in \<open>simp_all add: bit_calc four\<close>)
  then show "drop_bit 3 ((nonstd_bytes n12 n58 (flag iflip) nrpt (flag icq) 4 @ rest) ! 9) AND 0x07 = 4"
    by (simp add: nonstd_bytes_def nth_Cons')
qed

section \<open>Fields of a standard message\<close>

text \<open>What the first two fields of a standard message can be without loss: a token or a standard callsign.\<close>

definition field_call :: "string \<Rightarrow> bool" where
  "field_call s \<longleftrightarrow> s \<in> {''DE'', ''QRZ'', ''CQ''} \<or> std_call s"

lemma token_facts: "s \<in> {''DE'', ''QRZ'', ''CQ''} \<Longrightarrow> \<not> has_suffix s \<and> call_chars s \<and> length s \<le> 3"
proof -
  assume "s \<in> {''DE'', ''QRZ'', ''CQ''}"
  then have "s \<in> set [''DE'', ''QRZ'', ''CQ'']" by simp
  moreover have "list_all (\<lambda>s. \<not> has_suffix s \<and> call_chars s \<and> length s \<le> 3) [''DE'', ''QRZ'', ''CQ'']" by code_simp
  ultimately show ?thesis unfolding list_all_iff by blast
qed

lemma std_call_length: "std_call s \<Longrightarrow> length s \<le> 9"
proof -
  assume std: "std_call s"
  let ?len = "length (base_of s)"
  have n: "0 \<le> pack_basecall s ?len" "?len \<le> length s" using std by (simp_all add: std_call_def base_of_def)
  then have "2 < ?len" by (simp add: pack_basecall_def split: if_splits)
  then have "?len \<le> 7" using n(2,1) by (cases rule: basecall_layout_cases) simp_all
  then show ?thesis using length_base(1) [of s] by (simp split: if_splits)
qed

lemma field_call_facts: "field_call s \<Longrightarrow> call_chars s \<and> length s \<le> 9 \<and> NUL \<notin> set s \<and> CHR '' '' \<notin> set s"
proof -
  assume s: "field_call s"
  have chars: "call_chars s" using s token_facts by (auto simp: field_call_def std_call_def)
  moreover have "length s \<le> 9" using s token_facts [of s] std_call_length [of s] by (auto simp: field_call_def)
  moreover have "nchar NUL TABLE_ALPHANUM_SPACE_SLASH = - 1" by code_simp
  then have "NUL \<notin> set s" using chars by (auto simp: call_chars_def list_all_iff)
  moreover have "CHR '' '' \<notin> set s"
  proof (cases "std_call s")
    case True
    then have base: "CHR '' '' \<notin> set (base_of s)" by (simp add: std_call_def plain_base_def)
    obtain suf where "s = base_of s @ suf" "CHR '' '' \<notin> set suf"
      using suffix_split [of s] by (cases "has_suffix s") (auto simp: base_of_def split: if_splits)
    then have "set s = set (base_of s) \<union> set suf" by (metis set_append)
    then show ?thesis using base \<open>CHR '' '' \<notin> set suf\<close> by blast
  next
    case False
    then show ?thesis using s by (auto simp: field_call_def)
  qed
  ultimately show ?thesis by blast
qed

text \<open>The number of a field, and what unpacking it gives, with whatever table.\<close>

definition field_value :: "string \<Rightarrow> nat" where
  "field_value s = (if s = ''DE'' then 0 else if s = ''QRZ'' then 1 else if s = ''CQ'' then 2
     else nat (int (NTOKENS + MAX22) + pack_basecall s (length (base_of s))))"

lemma field_value_std: "std_call s \<Longrightarrow> int (field_value s) = int (NTOKENS + MAX22) + pack_basecall s (length (base_of s))"
  by (simp add: field_value_def std_call_def)

lemma pack28_field:
  assumes "field_call s"
  shows "\<exists>st'. pack28 s hash_if st = (int (field_value s), if has_suffix s then 1 else 0, st')" and "field_value s < 2 ^ 28"
proof -
  have "(\<exists>st'. pack28 s hash_if st = (int (field_value s), if has_suffix s then 1 else 0, st')) \<and> field_value s < 2 ^ 28"
  proof (cases "std_call s")
    case True
    have "int (NTOKENS + MAX22) + pack_basecall s (length (base_of s)) < 2 ^ 28" by (rule unpack28_std(2) [OF True]) simp
    then show ?thesis using pack28_std [OF True, of hash_if st] unfolding field_value_std [OF True, symmetric] by auto
  next
    case False
    then have tok: "s \<in> {''DE'', ''QRZ'', ''CQ''}" using assms by (simp add: field_call_def)
    then have "\<not> has_suffix s" using token_facts by blast
    then show ?thesis using tok by (auto simp: pack28_def equals_def Let_def field_value_def)
  qed
  then show "\<exists>st'. pack28 s hash_if st = (int (field_value s), if has_suffix s then 1 else 0, st')" "field_value s < 2 ^ 28" by simp_all
qed

lemma unpack28_field:
  assumes "field_call s" and i3: "has_suffix s \<Longrightarrow> i3 = (if ends_with s ''/P'' then 2 else 1)"
  shows "\<exists>st'. unpack28 (field_value s) (if has_suffix s then 1 else 0) i3 hash_if st = (0, s, st')"
proof (cases "std_call s")
  case True
  have "field_value s = nat (int (NTOKENS + MAX22) + pack_basecall s (length (base_of s)))"
    using field_value_std [OF True] by simp
  then show ?thesis by (simp only:) (rule unpack28_std(1) [OF True i3])
next
  case False
  then have "s \<in> {''DE'', ''QRZ'', ''CQ''}" using assms by (simp add: field_call_def)
  then show ?thesis by (auto simp: unpack28_def NTOKENS_def field_value_def)
qed

lemma n29_word:
  fixes n :: nat
  assumes "n < 2 ^ 28"
  shows "push_bit 1 (word_of_int (int n)) OR ucast (if b then 1 else 0 :: u8) = (word_of_nat (2 * n + (if b then 1 else 0)) :: u32)"
    and "(if b then push_bit 1 (word_of_int (int n)) OR ucast (if b then 1 else 0 :: u8) OR 1 else push_bit 1 (word_of_int (int n)) OR ucast (if b then 1 else 0 :: u8)) =
      (word_of_nat (2 * n + (if b then 1 else 0)) :: u32)"
    and "unat (word_of_nat (2 * n + (if b then 1 else 0)) :: u32) = 2 * n + (if b then 1 else 0)"
proof -
  have e: "push_bit 1 (word_of_int (int n)) = (word_of_nat (2 * n) :: u32)" by (simp add: push_bit_eq_mult)
  have even: "even (word_of_nat (2 * n) :: u32)" by simp
  show 1: "push_bit 1 (word_of_int (int n)) OR ucast (if b then 1 else 0 :: u8) = (word_of_nat (2 * n + (if b then 1 else 0)) :: u32)"
    unfolding e using even by (cases b) (simp_all add: or_one_eq)
  show "(if b then push_bit 1 (word_of_int (int n)) OR ucast (if b then 1 else 0 :: u8) OR 1 else push_bit 1 (word_of_int (int n)) OR ucast (if b then 1 else 0 :: u8)) =
      (word_of_nat (2 * n + (if b then 1 else 0)) :: u32)"
    using 1 by (cases b) (simp_all add: or.assoc)
  show "unat (word_of_nat (2 * n + (if b then 1 else 0)) :: u32) = 2 * n + (if b then 1 else 0)"
  proof -
    have "unat (word_of_nat m :: u32) = m" if "m < 2 ^ 32" for m using that by (simp add: unsigned_of_nat take_bit_nat_eq_self)
    then show ?thesis using assms by (cases b) (simp_all del: of_nat_mult of_nat_Suc of_nat_add of_nat_1)
  qed
qed

definition suffixes_agree :: "string \<Rightarrow> string \<Rightarrow> bool" where
  "suffixes_agree a b \<longleftrightarrow> \<not> ((ends_with a ''/P'' \<or> ends_with b ''/P'') \<and> (ends_with a ''/R'' \<or> ends_with b ''/R''))"

lemma word_parts: "unat (drop_bit 1 w) = unat w div 2" "unat (w AND 1) = unat (w :: u32) mod 2"
proof -
  show "unat (drop_bit 1 w) = unat w div 2" unfolding unat_drop_bit_eq by (simp add: drop_bit_eq_div)
  show "unat (w AND 1) = unat w mod 2" by (simp add: and_one_eq unat_mod)
qed

lemma n29_parts:
  fixes n :: nat
  assumes "n < 2 ^ 28" and w: "w = (word_of_nat (2 * n + (if b then 1 else 0)) :: u32)"
  shows "unat (drop_bit 1 w) = n" "unat (w AND 1) = (if b then 1 else 0)" "unat w < 2 ^ 29"
    and "b \<Longrightarrow> w OR 1 = w"
proof -
  have u: "unat w = 2 * n + (if b then 1 else 0)" unfolding w by (rule n29_word(3) [OF assms(1)])
  show "unat (drop_bit 1 w) = n" "unat (w AND 1) = (if b then 1 else 0)" "unat w < 2 ^ 29"
    unfolding word_parts u using assms(1) by (cases b; simp)+
  assume b
  then have "unat (w AND 1) = unat (1 :: u32)" using u unfolding word_parts by simp
  then have "w AND 1 = 1" by (simp only: word_unat_eq_iff)
  then have "odd w" by (simp add: and_one_eq odd_iff_mod_2_eq_one)
  then show "w OR 1 = w" by (simp add: or_one_eq)
qed

lemma grid_field_parts: "unat (take_bit 15 g) = unat g mod 2 ^ 15" "unat (ucast (drop_bit 15 g) :: u8) = unat (g :: u16) div 2 ^ 15"
proof -
  show "unat (take_bit 15 g) = unat g mod 2 ^ 15" unfolding unsigned_take_bit_eq by (rule take_bit_eq_mod)
  have "unat g < 2 ^ 16" using unsigned_less [of g] by simp
  then have "unat g div 2 ^ 15 < 2 ^ 8" by (simp add: less_mult_imp_div_less)
  then show "unat (ucast (drop_bit 15 g) :: u8) = unat g div 2 ^ 15"
    unfolding unsigned_ucast_eq unat_drop_bit_eq by (simp add: drop_bit_eq_div take_bit_nat_eq_self)
qed

text \<open>The two words of the message.\<close>

definition n29 :: "string \<Rightarrow> u32" where
  "n29 s = word_of_nat (2 * field_value s + (if has_suffix s then 1 else 0))"

definition suffix_i3 :: "string \<Rightarrow> string \<Rightarrow> u8" where
  "suffix_i3 a b = (if ends_with a ''/P'' \<or> ends_with b ''/P'' then 2 else 1)"

lemmas n29_facts = n29_parts [OF pack28_field(2) n29_def]

lemma encode_std_fields:
  assumes a: "field_call a" and b: "field_call b" and ab: "suffixes_agree a b"
  shows "\<exists>st'. ftx_message_encode_std hash_if a b e payload st =
    (RC_OK, std_bytes (n29 a) (n29 b) (packgrid e) (suffix_i3 a b) @ drop 10 payload, st')"
proof -
  obtain st1 where A: "pack28 a hash_if st = (int (field_value a), if has_suffix a then 1 else 0, st1)"
    using pack28_field(1) [OF a, where hash_if = hash_if and st = st] by (rule exE)
  obtain st' where B: "pack28 b hash_if st1 = (int (field_value b), if has_suffix b then 1 else 0, st')"
    using pack28_field(1) [OF b, where hash_if = hash_if and st = st1] by (rule exE)
  have n: "push_bit 1 (word_of_int (int (field_value s))) OR ucast (if has_suffix s then 1 else 0 :: u8) = n29 s" if "field_call s" for s
    using n29_word(1) [OF pack28_field(2) [OF that], of "has_suffix s"] by (simp only: n29_def)
  have one: "has_suffix a \<Longrightarrow> n29 a OR 1 = n29 a" by (rule n29_facts(4) [OF a])
  have "ftx_message_encode_std hash_if a b e payload st =
    (RC_OK, std_bytes (n29 a) (n29 b) (packgrid e) (suffix_i3 a b) @ drop 10 payload, st')"
    using ab one unfolding ftx_message_encode_std_def A B Let_def prod.case n [OF a] n [OF b] suffix_i3_def
    by (auto simp: suffixes_agree_def has_suffix_def)
  then show ?thesis by blast
qed

lemma decode_std_fields:
  assumes a: "field_call a" and b: "field_call b" and ab: "suffixes_agree a b" and e: "good_extra e"
    and p: "p = std_bytes (n29 a) (n29 b) (packgrid e) (suffix_i3 a b) @ rest"
  shows "\<exists>st'. ftx_message_decode_std p hash_if st = (RC_OK, a, b, e, st')" and "ftx_message_get_type p = STANDARD"
proof -
  have u3: "unat (suffix_i3 a b) < 2 ^ 3" by (simp add: suffix_i3_def)
  have i3: "drop_bit 3 (p ! 9) AND 0x07 = suffix_i3 a b" unfolding p by (rule i3_field [OF u3])
  then show "ftx_message_get_type p = STANDARD"
    by (simp add: ftx_message_get_type_def ftx_message_get_i3_def suffix_i3_def)
  let ?g = "packgrid e"
  have f: "std_fields p = (n29 a, n29 b, ucast (drop_bit 15 ?g), take_bit 15 ?g)"
    unfolding p by (rule std_bytes_fields [OF n29_facts(3) [OF a] n29_facts(3) [OF b] u3])
  have ua: "unat (suffix_i3 a b) = (if ends_with a ''/P'' then 2 else 1)" if "has_suffix a"
    using that ab by (auto simp: suffix_i3_def suffixes_agree_def has_suffix_def)
  have ub: "unat (suffix_i3 a b) = (if ends_with b ''/P'' then 2 else 1)" if "has_suffix b"
    using that ab by (auto simp: suffix_i3_def suffixes_agree_def has_suffix_def)
  obtain st1 where A: "unpack28 (field_value a) (if has_suffix a then 1 else 0) (unat (suffix_i3 a b)) hash_if st = (0, a, st1)"
    using unpack28_field [OF a ua, where hash_if = hash_if and st = st] by (rule exE)
  obtain st' where B: "unpack28 (field_value b) (if has_suffix b then 1 else 0) (unat (suffix_i3 a b)) hash_if st1 = (0, b, st')"
    using unpack28_field [OF b ub, where hash_if = hash_if and st = st1] by (rule exE)
  have G: "unpackgrid (unat (take_bit 15 ?g)) (unat (ucast (drop_bit 15 ?g) :: u8)) = e"
    using grid_roundtrip [OF e] unfolding grid_field_def grid_field_parts by simp
  have "ftx_message_decode_std p hash_if st = (RC_OK, a, b, e, st')"
    unfolding ftx_message_decode_std_def f i3 Let_def prod.case n29_facts(1,2) [OF a] n29_facts(1,2) [OF b] A B G by simp
  then show "\<exists>st'. ftx_message_decode_std p hash_if st = (RC_OK, a, b, e, st')" by blast
qed

section \<open>Tokens\<close>

lemma copy_token_word:
  "CHR '' '' \<notin> set t \<Longrightarrow> length t \<le> len \<Longrightarrow>
    copy_token len (t @ CHR '' '' # r) = (t @ replicate (len - length t) NUL, trim_front r)"
  by (induction t arbitrary: len) (auto simp: trim_front_def)

lemma copy_token_last: "CHR '' '' \<notin> set t \<Longrightarrow> length t \<le> len \<Longrightarrow> copy_token len t = (t @ replicate (len - length t) NUL, [])"
  by (induction t arbitrary: len) auto

lemma cstr_padded: "NUL \<notin> set t \<Longrightarrow> cstr (t @ replicate k NUL) = t"
  by (induction t) (auto simp: cstr_def)

text \<open>A word of a message that fits its array.\<close>

definition is_word :: "nat \<Rightarrow> string \<Rightarrow> bool" where
  "is_word len t \<longleftrightarrow> CHR '' '' \<notin> set t \<and> NUL \<notin> set t \<and> length t < len"

lemma word_front: "is_word len t \<Longrightarrow> t \<noteq> [] \<Longrightarrow> trim_front (t @ r) = t @ r"
  by (cases t) (auto simp: is_word_def trim_front_def)

lemma word_array:
  assumes "is_word len t"
  shows "(t @ replicate (len - length t) NUL) ! (len - 1) = NUL" "cstr (t @ replicate (len - length t) NUL) = t"
proof -
  have "len - 1 - length t < len - length t" using assms unfolding is_word_def by linarith
  moreover have "\<not> len - 1 < length t" using assms unfolding is_word_def by linarith
  ultimately show "(t @ replicate (len - length t) NUL) ! (len - 1) = NUL" by (simp add: nth_append)
  show "cstr (t @ replicate (len - length t) NUL) = t" using assms by (simp add: is_word_def cstr_padded)
qed

lemma encode_words:
  assumes a: "is_word 12 a" and b: "is_word 12 b" "b \<noteq> []" and e: "is_word 20 e"
  shows "ftx_message_encode hash_if (a @ '' '' @ b @ '' '' @ e) payload st =
    (let (rc, payload, st) = ftx_message_encode_std hash_if a b e payload st
     in if rc = RC_OK then Some (rc, payload, st)
        else ftx_message_encode_nonstd hash_if a (b @ replicate (12 - length b) NUL) e payload st)"
proof -
  have 1: "copy_token 12 (a @ '' '' @ b @ '' '' @ e) = (a @ replicate (12 - length a) NUL, b @ '' '' @ e)"
    using copy_token_word [of a 12 "b @ '' '' @ e"] a word_front [OF b] by (simp add: is_word_def)
  have 2: "copy_token 12 (b @ '' '' @ e) = (b @ replicate (12 - length b) NUL, e)"
    using copy_token_word [of b 12 e] b(1) word_front [OF e, of "[]"] by (cases "e = []") (simp_all add: is_word_def trim_front_def)
  have 3: "copy_token 20 e = (e @ replicate (20 - length e) NUL, [])"
    using copy_token_last [of e 20] e by (simp add: is_word_def)
  have n: "(a @ replicate (12 - length a) NUL) ! 11 = NUL" "(b @ replicate (12 - length b) NUL) ! 11 = NUL"
    "(e @ replicate (20 - length e) NUL) ! 19 = NUL"
    using word_array(1) [OF a] word_array(1) [OF b(1)] word_array(1) [OF e] by simp_all
  show ?thesis
    unfolding ftx_message_encode_def Let_def 1 2 3 prod.case n word_array(2) [OF a] word_array(2) [OF b(1)] word_array(2) [OF e] by simp
qed

lemma good_extra_word: "good_extra e \<Longrightarrow> is_word 20 e"
proof -
  assume "good_extra e"
  then consider "e \<in> {[], ''RRR'', ''RR73'', ''73''}" | "grid_text e"
    | v where "- 30 \<le> v" "v \<le> 99" "e = int_to_dd v 2 True \<or> e = CHR ''R'' # int_to_dd v 2 True"
    by (auto simp: good_extra_def)
  then show ?thesis
  proof cases
    case 2
    then have "length e = 4" "\<forall>c \<in> set e. in_span 65 82 c \<or> in_span 48 57 c"
      using append_take_drop_id [of 2 e] set_append [of "take 2 e" "drop 2 e"] by (auto simp: grid_text_def list_all_iff)
    moreover have "\<not> in_span 65 82 (CHR '' '')" "\<not> in_span 48 57 (CHR '' '')" "\<not> in_span 65 82 NUL" "\<not> in_span 48 57 NUL"
      by (simp_all add: in_span_def)
    ultimately show ?thesis by (auto simp: is_word_def)
  next
    case 3
    let ?m = "nat \<bar>v\<bar>"
    have "dd_digits 10 ?m = [char_of (48 + ?m div 10), char_of (48 + ?m mod 10)]"
      using dd_digits_step [of 10 ?m] dd_digits_step [of 1 "?m mod 10"] by (simp add: dd_digits.simps [of 0])
    then have s: "int_to_dd v 2 True = [if v < 0 then CHR ''-'' else CHR ''+'', char_of (48 + ?m div 10), char_of (48 + ?m mod 10)]"
      by (simp add: int_to_dd_def)
    have "?m div 10 < 10" "?m mod 10 < 10" using 3(1,2) by (simp_all add: less_mult_imp_div_less)
    then have "is_digit (char_of (48 + ?m div 10))" "is_digit (char_of (48 + ?m mod 10))" using dd_digit_char(1) by blast+
    then have c: "CHR '' '' \<notin> set (int_to_dd v 2 True) \<and> NUL \<notin> set (int_to_dd v 2 True)"
    proof -
      have "x \<noteq> CHR '' '' \<and> x \<noteq> NUL" if "is_digit x" for x using that by (auto simp: is_digit_def in_span_def)
      note * = this [OF \<open>is_digit (char_of (48 + ?m div 10))\<close>] this [OF \<open>is_digit (char_of (48 + ?m mod 10))\<close>]
      then show ?thesis unfolding s list.set by (auto simp del: char_of_nat)
    qed
    have "length (int_to_dd v 2 True) = 3" using int_to_dd_length [of 2 v True] 3(1,2) by simp
    then show ?thesis using 3 c by (auto simp: is_word_def)
  qed (auto simp: is_word_def)
qed


section \<open>What the hash functions do not accept\<close>

lemma bracket_fails: "nchar (CHR ''<'') t = - 1" if "t \<in> {TABLE_ALPHANUM_SPACE_SLASH, TABLE_ALPHANUM_SPACE}"
proof -
  have "list_all (\<lambda>t. nchar (CHR ''<'') t = - 1) [TABLE_ALPHANUM_SPACE_SLASH, TABLE_ALPHANUM_SPACE]" by code_simp
  then show ?thesis using that unfolding list_all_iff by auto
qed

lemma save_bracket: "hd s = CHR ''<'' \<Longrightarrow> s \<noteq> [] \<Longrightarrow> save_callsign hash_if s st = None"
  using bracket_fails [of TABLE_ALPHANUM_SPACE_SLASH] by (cases s) (auto simp: save_callsign_def)

lemma pack_bracket: "hd s = CHR ''<'' \<Longrightarrow> s \<noteq> [] \<Longrightarrow> fst (pack28 s hash_if st) = - 1"
  using save_bracket [of s hash_if st]
  by (cases s) (auto simp: pack28_def equals_def starts_with_def Let_def)

section \<open>A store of callsigns\<close>

definition hash_shift :: "hash_type \<Rightarrow> nat" where
  "hash_shift t = (case t of HASH_22_BITS \<Rightarrow> 0 | HASH_12_BITS \<Rightarrow> 10 | HASH_10_BITS \<Rightarrow> 12)"

definition storable :: "string \<Rightarrow> u32 \<Rightarrow> bool" where
  "storable c n \<longleftrightarrow> c \<noteq> [] \<and> length c \<le> 11 \<and> unat n < 2 ^ 22"

text \<open>
  What the message functions rely on: the store behaves like a set of callsigns with their 22-bit hashes. A lookup
  by a shorter hash may answer with any callsign whose hash begins with it, and answers if there is one.
\<close>

locale callsign_store =
  fixes lookup :: "hash_type \<Rightarrow> u32 \<Rightarrow> 's \<Rightarrow> string option" and save :: "string \<Rightarrow> u32 \<Rightarrow> 's \<Rightarrow> 's"
    and entries :: "'s \<Rightarrow> (string \<times> u32) set" and ok :: "'s \<Rightarrow> bool"
  assumes save_ok: "ok s \<Longrightarrow> storable c n \<Longrightarrow> ok (save c n s)"
    and save_keeps: "ok s \<Longrightarrow> storable c n \<Longrightarrow> entries s \<subseteq> entries (save c n s)"
    and save_adds: "ok s \<Longrightarrow> storable c n \<Longrightarrow> entries (save c n s) \<subseteq> insert (c, n) (entries s)"
    and lookup_sound: "ok s \<Longrightarrow> lookup t h s = Some c \<Longrightarrow> \<exists>n. (c, n) \<in> entries s \<and> drop_bit (hash_shift t) n = h"
    and lookup_complete: "ok s \<Longrightarrow> (c, n) \<in> entries s \<Longrightarrow> \<exists>c'. lookup t (drop_bit (hash_shift t) n) s = Some c'"
begin

definition store_if :: "'s hash_if" where
  "store_if = Some \<lparr>lookup_hash = Some lookup, save_hash = Some save\<rparr>"

text \<open>A hash that only one known callsign has is resolved to that callsign.\<close>

lemma lookup_unique:
  assumes "ok s" "(c, n) \<in> entries s" "\<And>c' n'. (c', n') \<in> entries s \<Longrightarrow> drop_bit (hash_shift t) n' = drop_bit (hash_shift t) n \<Longrightarrow> c' = c"
  shows "lookup_callsign store_if t (drop_bit (hash_shift t) n) s = add_brackets c"
proof -
  obtain c' where c': "lookup t (drop_bit (hash_shift t) n) s = Some c'" using lookup_complete [OF assms(1,2)] by blast
  then have "c' = c" using lookup_sound [OF assms(1) c'] assms(3) by blast
  then show ?thesis using c' by (simp add: lookup_callsign_def store_if_def)
qed

end

text \<open>With room for one more, what is saved is there.\<close>

locale bounded_store = callsign_store lookup save entries ok
  for lookup :: "hash_type \<Rightarrow> u32 \<Rightarrow> 's \<Rightarrow> string option" and save entries and ok :: "'s \<Rightarrow> bool" +
  fixes room :: "'s \<Rightarrow> bool"
  assumes save_present: "ok s \<Longrightarrow> room s \<Longrightarrow> storable c n \<Longrightarrow> (c, n) \<in> entries (save c n s)"

section \<open>Messages with a nonstandard callsign come back\<close>

text \<open>The hash of a callsign, whoever computes it.\<close>

definition call_hash22 :: "string \<Rightarrow> u32" where
  "call_hash22 s = fst (the (save_callsign (None :: unit hash_if) s ()))"

lemma save_callsign_hash:
  assumes "call_chars s"
  shows "save_callsign hash_if s st = Some (call_hash22 s, case hash_if of
    Some h \<Rightarrow> (case save_hash h of Some save \<Rightarrow> save s (call_hash22 s) st | None \<Rightarrow> st) | None \<Rightarrow> st)"
  using hash_chars_total [OF assms, of 0 0] by (auto simp: save_callsign_def call_hash22_def Let_def split: option.splits)

definition nonstd_call :: "string \<Rightarrow> bool" where
  "nonstd_call s \<longleftrightarrow> call_chars s \<and> 3 \<le> length s \<and> length s \<le> 11 \<and> CHR '' '' \<notin> set s"

lemma nonstd_storable: "nonstd_call s \<Longrightarrow> storable s (call_hash22 s)"
  using save_bound [OF save_callsign_hash [of s "None :: unit hash_if" "()"]]
  by (auto simp: nonstd_call_def storable_def MAX22_def)

definition nonstd_extra :: "string \<Rightarrow> u8" where
  "nonstd_extra e = (if e = ''RRR'' then 1 else if e = ''RR73'' then 2 else if e = ''73'' then 3 else 0)"

lemma encode_nonstd_bytes:
  assumes a: "a = ''CQ'' \<or> nonstd_call a" and b: "nonstd_call b" and mem: "cstr b_mem = b"
  shows "\<exists>st'. ftx_message_encode_nonstd hash_if a b_mem e payload st =
    Some (RC_OK, nonstd_bytes (if a = ''CQ'' then 0 else ucast (drop_bit 10 (call_hash22 a))) (word_of_nat (value58 b)) (flag False)
      (if a = ''CQ'' then 0 else nonstd_extra e) (flag (a = ''CQ'')) 4 @ drop 10 payload, st')"
proof -
  have b': "call_chars b" "length b \<le> 11" "3 \<le> length b" "CHR '' '' \<notin> set b" using b by (simp_all add: nonstd_call_def)
  then have "b \<noteq> []" by auto
  then have ne: "b_mem \<noteq> []" "b_mem ! 0 = hd b" using mem by (cases b_mem; auto simp: cstr_def split: if_splits)+
  have hd: "hd b \<noteq> CHR ''<''" using call_chars_plain [OF b'(1)] \<open>b \<noteq> []\<close> hd_in_set [of b] by metis
  show ?thesis
  proof (cases "a = ''CQ''")
    case True
    obtain st' where "pack58 hash_if b st = Some (value58 b, st')"
      using pack58_unpack58(1) [OF b', of hash_if st] by blast
    then show ?thesis using True b'(3) mem
      by (simp add: ftx_message_encode_nonstd_def equals_def Let_def flag_def)
  next
    case False
    then have a': "call_chars a" "3 \<le> length a" using a by (auto simp: nonstd_call_def)
    obtain n22 st1 where s: "save_callsign hash_if a st = Some (call_hash22 a, st1)"
      using save_callsign_hash [OF a'(1), of hash_if st] by blast
    obtain st' where "pack58 hash_if b st1 = Some (value58 b, st')"
      using pack58_unpack58(1) [OF b', of hash_if st1] by blast
    then show ?thesis using False b'(3) a'(2) mem s ne hd
      by (simp add: ftx_message_encode_nonstd_def equals_def Let_def flag_def nonstd_extra_def)
  qed
qed

lemma decode_nonstd_fields:
  assumes b: "nonstd_call b" and n12: "unat n12 < 2 ^ 12"
    and p: "p = nonstd_bytes n12 (word_of_nat (value58 b)) (flag False) nrpt (flag cq) 4 @ rest" and nrpt: "unat nrpt < 2 ^ 2"
  shows "ftx_message_get_type p = NONSTD_CALL"
    and "\<exists>st2. unpack58 (value58 b) hash_if st = (True, b, st2) \<and>
    ftx_message_decode_nonstd p hash_if st =
      (RC_OK, if cq then ''CQ'' else lookup_callsign hash_if HASH_12_BITS (ucast n12) st2, b,
       if cq then [] else if nrpt = 1 then ''RRR'' else if nrpt = 2 then ''RR73'' else if nrpt = 3 then ''73'' else [], st2)"
proof -
  have b': "call_chars b" "length b \<le> 11" "3 \<le> length b" "CHR '' '' \<notin> set b" using b by (simp_all add: nonstd_call_def)
  have v: "value58 b < 2 ^ 58" by (rule pack58_unpack58(2) [OF b'])
  have u: "unat (word_of_nat (value58 b) :: u64) = value58 b" using v by (simp add: unsigned_of_nat take_bit_nat_eq_self)
  have "unat (word_of_nat (value58 b) :: u64) < 2 ^ 58" unfolding u by (rule v)
  note fields = nonstd_bytes_fields [OF n12 this nrpt, of False cq rest, folded p]
  show "ftx_message_get_type p = NONSTD_CALL"
    using fields(2) by (simp add: ftx_message_get_type_def ftx_message_get_i3_def)
  obtain st2 where U: "unpack58 (value58 b) hash_if st = (True, b, st2)"
    using pack58_unpack58(3) [OF b', where hash_if = hash_if and ?st2.0 = st] by (rule exE)
  have n: "(ucast nrpt :: u16) = 1 \<longleftrightarrow> nrpt = 1" "(ucast nrpt :: u16) = 2 \<longleftrightarrow> nrpt = 2" "(ucast nrpt :: u16) = 3 \<longleftrightarrow> nrpt = 3"
    by (simp_all add: word_unat_eq_iff unsigned_ucast_eq take_bit_nat_eq_self order_less_trans [OF nrpt])
  have fl: "flag False = (0 :: u16)" "(flag cq = (0 :: u16)) = (\<not> cq)" by (simp_all add: flag_def)
  show "\<exists>st2. unpack58 (value58 b) hash_if st = (True, b, st2) \<and>
    ftx_message_decode_nonstd p hash_if st =
      (RC_OK, if cq then ''CQ'' else lookup_callsign hash_if HASH_12_BITS (ucast n12) st2, b,
       if cq then [] else if nrpt = 1 then ''RRR'' else if nrpt = 2 then ''RR73'' else if nrpt = 3 then ''73'' else [], st2)"
    using U unfolding ftx_message_decode_nonstd_def fields(1) Let_def prod.case u fl n by auto
qed

context callsign_store
begin

lemma nonstd_decode:
  assumes st: "ok st2" and a: "nonstd_call a" "a \<noteq> ''CQ''" and b: "nonstd_call b" and mem: "cstr b_mem = b"
    and e: "e \<in> {[], ''RRR'', ''RR73'', ''73''}" and known: "(a, call_hash22 a) \<in> entries st2"
    and unique: "\<And>c n. (c, n) \<in> insert (b, call_hash22 b) (entries st2) \<Longrightarrow> drop_bit 10 n = drop_bit 10 (call_hash22 a) \<Longrightarrow> c = a"
  shows "\<exists>p st1. ftx_message_encode_nonstd hash_if a b_mem e payload st = Some (RC_OK, p, st1) \<and>
    (\<exists>st2'. ftx_message_decode p store_if st2 = (RC_OK, add_brackets a @ '' '' @ b @ '' '' @ e, st2') \<and> ok st2' \<and> entries st2 \<subseteq> entries st2')"
proof -
  define n12 where "n12 = (ucast (drop_bit 10 (call_hash22 a)) :: u16)"
  have h: "unat (call_hash22 a) < 2 ^ 22" using nonstd_storable [OF a(1)] by (simp add: storable_def)
  have "unat (drop_bit 10 (call_hash22 a)) = unat (call_hash22 a) div 2 ^ 10" unfolding unat_drop_bit_eq by (simp add: drop_bit_eq_div)
  then have d: "unat (drop_bit 10 (call_hash22 a)) < 2 ^ 12" using h by (simp add: less_mult_imp_div_less)
  then have n12: "unat n12 = unat (drop_bit 10 (call_hash22 a))" unfolding n12_def unsigned_ucast_eq by (simp add: take_bit_nat_eq_self)
  then have widen: "(ucast n12 :: u32) = drop_bit 10 (call_hash22 a)"
    using d unfolding word_unat_eq_iff unsigned_ucast_eq n12 by (simp add: take_bit_nat_eq_self)
  have n12_lt: "unat n12 < 2 ^ 12" using d unfolding n12 .
  have nrpt: "unat (nonstd_extra e) < 2 ^ 2" by (simp add: nonstd_extra_def)
  obtain st1 where enc: "ftx_message_encode_nonstd hash_if a b_mem e payload st =
      Some (RC_OK, nonstd_bytes n12 (word_of_nat (value58 b)) (flag False) (nonstd_extra e) (flag False) 4 @ drop 10 payload, st1)"
    using encode_nonstd_bytes [OF disjI2 [OF a(1)] b mem, of hash_if e payload st] a(2) by (auto simp: n12_def)
  let ?p = "nonstd_bytes n12 (word_of_nat (value58 b)) (flag False) (nonstd_extra e) (flag False) 4 @ drop 10 payload"
  note type = decode_nonstd_fields(1) [where cq = False and rest = "drop 10 payload", OF b n12_lt refl nrpt]
  note dec = decode_nonstd_fields(2) [where hash_if = store_if and st = st2 and cq = False and rest = "drop 10 payload", OF b n12_lt refl nrpt]
  obtain st2' where U: "unpack58 (value58 b) store_if st2 = (True, b, st2')"
    and D: "ftx_message_decode_nonstd ?p store_if st2 = (RC_OK, lookup_callsign store_if HASH_12_BITS (ucast n12) st2', b,
       if nonstd_extra e = 1 then ''RRR'' else if nonstd_extra e = 2 then ''RR73'' else if nonstd_extra e = 3 then ''73'' else [], st2')"
    using dec by auto
  have saved: "st2' = save b (call_hash22 b) st2"
    using U b save_callsign_hash [of b store_if st2]
    by (auto simp: unpack58_def Let_def nonstd_call_def store_if_def split: if_splits option.splits)
  have st2': "ok st2'" "entries st2 \<subseteq> entries st2'" "entries st2' \<subseteq> insert (b, call_hash22 b) (entries st2)"
    unfolding saved using st save_ok save_keeps save_adds nonstd_storable [OF b] by blast+
  have "lookup_callsign store_if HASH_12_BITS (drop_bit (hash_shift HASH_12_BITS) (call_hash22 a)) st2' = add_brackets a"
    using known st2' unique by (intro lookup_unique) (auto simp: hash_shift_def)
  then have L: "lookup_callsign store_if HASH_12_BITS (ucast n12) st2' = add_brackets a" by (simp only: hash_shift_def hash_type.case widen)
  have E: "(if nonstd_extra e = 1 then ''RRR'' else if nonstd_extra e = 2 then ''RR73'' else if nonstd_extra e = 3 then ''73'' else []) = e"
    using e by (auto simp: nonstd_extra_def)
  have "ftx_message_decode ?p store_if st2 = (RC_OK, add_brackets a @ '' '' @ b @ '' '' @ e, st2')"
    unfolding ftx_message_decode_def type D L E by simp
  then show ?thesis using enc st2' by blast
qed

end

section \<open>Nonstandard callsigns in standard messages\<close>

text \<open>A callsign that only fits as a hash.\<close>

definition hashed_call :: "string \<Rightarrow> bool" where
  "hashed_call s \<longleftrightarrow> nonstd_call s \<and> pack_basecall s (length s) < 0 \<and> \<not> has_suffix s \<and> s \<noteq> ''QRZ''"

lemma pack28_hashed:
  assumes b: "hashed_call b"
  shows "\<exists>st'. pack28 b hash_if st = (int (NTOKENS + unat (call_hash22 b)), 0, st')"
proof -
  have c: "call_chars b" "3 \<le> length b" "length b \<le> 11" using b by (simp_all add: hashed_call_def nonstd_call_def)
  have cq: "\<not> starts_with b ''CQ_''"
  proof
    assume "starts_with b ''CQ_''"
    then have "CHR ''_'' \<in> set b" using in_set_takeD [of "CHR ''_''" 3 b] by (auto simp: starts_with_def numeral_3_eq_3)
    moreover have "nchar (CHR ''_'') TABLE_ALPHANUM_SPACE_SLASH = - 1" by code_simp
    ultimately show False using c(1) by (auto simp: call_chars_def list_all_iff)
  qed
  obtain st' where s: "save_callsign hash_if b st = Some (call_hash22 b, st')" using save_callsign_hash [OF c(1), of hash_if st] by blast
  have "b \<noteq> ''DE''" "b \<noteq> ''CQ''" using c(2) by auto
  then have "pack28 b hash_if st = (int (NTOKENS + unat (call_hash22 b)), 0, st')"
    using b c cq s by (auto simp: pack28_def equals_def Let_def hashed_call_def has_suffix_def)
  then show ?thesis by blast
qed

lemma unpack28_hashed:
  assumes "hashed_call b"
  shows "unpack28 (NTOKENS + unat (call_hash22 b)) 0 i3 None st = (0, ''<...>'', st)" "NTOKENS + unat (call_hash22 b) < 2 ^ 28"
  using nonstd_storable [of b] assms
  by (auto simp: hashed_call_def storable_def unpack28_def Let_def MAX22_def NTOKENS_def lookup_callsign_def)

lemma hashed_message:
  assumes b: "hashed_call b" and e: "good_extra e"
  shows "\<exists>p st1. ftx_message_encode_std hash_if ''CQ'' b e payload st = (RC_OK, p, st1) \<and> ftx_message_get_type p = STANDARD \<and>
    ftx_message_decode p None st2 = (RC_OK, ''CQ <...> '' @ e, st2)"
proof -
  have cq: "field_call ''CQ''" by (simp add: field_call_def)
  have ns: "\<not> has_suffix ''CQ''" "\<not> has_suffix b" using b token_facts [of "''CQ''"] by (simp_all add: hashed_call_def)
  let ?m = "NTOKENS + unat (call_hash22 b)"
  define w where "w = (word_of_nat (2 * ?m) :: u32)"
  note m = unpack28_hashed [OF b]
  have w: "unat (drop_bit 1 w) = ?m" "unat (w AND 1) = 0" "unat w < 2 ^ 29"
  proof -
    have "w = word_of_nat (2 * ?m + (if False then 1 else 0))" by (simp only: w_def if_False add_0_right)
    from n29_parts(1-3) [OF m(2) this]
    show "unat (drop_bit 1 w) = ?m" "unat (w AND 1) = 0" "unat w < 2 ^ 29" by (simp_all only: if_False)
  qed
  obtain st1 where B: "pack28 b hash_if st = (int ?m, 0, st1)" using pack28_hashed [OF b, where hash_if = hash_if and st = st] by (rule exE)
  have A: "pack28 ''CQ'' hash_if st = (2, 0, st)" by (simp add: pack28_def equals_def)
  have nb: "push_bit 1 (word_of_int (int ?m)) OR ucast (0 :: u8) = w"
    using n29_word(1) [OF m(2), of False] by (simp only: if_False w_def add_0_right)
  have nend: "\<not> ends_with ''CQ'' ''/P''" "\<not> ends_with ''CQ'' ''/R''" "\<not> ends_with b ''/P''" "\<not> ends_with b ''/R''"
    using ns by (simp_all add: has_suffix_def)
  have nn: "\<not> int NTOKENS + uint (call_hash22 b) < 0" by (simp add: not_less)
  define p where "p = std_bytes 4 w (packgrid e) 1 @ drop 10 payload"
  have enc: "ftx_message_encode_std hash_if ''CQ'' b e payload st = (RC_OK, p, st1)"
    unfolding ftx_message_encode_std_def A B Let_def prod.case nb p_def using nend nn by (simp add: push_bit_eq_mult)
  have u3: "unat (1 :: u8) < 2 ^ 3" "unat (4 :: u32) < 2 ^ 29" by simp_all
  have i3: "drop_bit 3 (p ! 9) AND 0x07 = 1" unfolding p_def by (rule i3_field [OF u3(1)])
  then have type: "ftx_message_get_type p = STANDARD" by (simp add: ftx_message_get_type_def ftx_message_get_i3_def)
  let ?g = "packgrid e"
  have f: "std_fields p = (4, w, ucast (drop_bit 15 ?g), take_bit 15 ?g)"
    unfolding p_def by (rule std_bytes_fields [OF u3(2) w(3) u3(1)])
  have G: "unpackgrid (unat (take_bit 15 ?g)) (unat (ucast (drop_bit 15 ?g) :: u8)) = e"
    using grid_roundtrip [OF e] unfolding grid_field_def grid_field_parts by simp
  have four: "unat (drop_bit 1 (4 :: u32)) = 2" "unat ((4 :: u32) AND 1) = 0" unfolding word_parts by simp_all
  have two: "unpack28 2 0 i None st2 = (0, ''CQ'', st2)" for i by (simp add: unpack28_def NTOKENS_def)
  have "ftx_message_decode_std p None st2 = (RC_OK, ''CQ'', ''<...>'', e, st2)"
    unfolding ftx_message_decode_std_def f i3 Let_def prod.case w four two m(1) G by simp
  then have "ftx_message_decode p None st2 = (RC_OK, ''CQ <...> '' @ e, st2)" unfolding ftx_message_decode_def type by simp
  then show ?thesis using enc type by blast
qed

section \<open>Free text\<close>

definition bytes_value :: "u8 list \<Rightarrow> nat" where
  "bytes_value bs = foldl (\<lambda>v b. 256 * v + unat b) 0 bs"

lemma bytes_value_Cons: "foldl (\<lambda>v b. 256 * v + unat b) v bs = v * 256 ^ length bs + bytes_value bs"
proof (induction bs arbitrary: v)
  case (Cons b bs)
  have "foldl (\<lambda>v b. 256 * v + unat b) v (b # bs) = (256 * v + unat b) * 256 ^ length bs + bytes_value bs" using Cons by simp
  moreover have "bytes_value (b # bs) = unat b * 256 ^ length bs + bytes_value bs" using Cons [of "unat b"] by (simp add: bytes_value_def)
  ultimately show ?case by (simp add: algebra_simps)
qed (simp add: bytes_value_def)

lemma bytes_value_step: "bytes_value (b # bs) = unat b * 256 ^ length bs + bytes_value bs"
  using bytes_value_Cons [of "unat b" bs] by (simp add: bytes_value_def)

lemma div42_value:
  "r < 42 \<Longrightarrow> div42 r bs = (q, r') \<Longrightarrow> length q = length bs \<and> r' < 42 \<and> r * 256 ^ length bs + bytes_value bs = 42 * bytes_value q + r'"
proof (induction bs arbitrary: r q r')
  case (Cons b bs)
  let ?x = "256 * r + unat b"
  obtain q0 r0 where d: "div42 (?x mod 42) bs = (q0, r0)" by force
  then have q: "q = word_of_nat (?x div 42) # q0" "r' = r0" using Cons.prems by (simp_all add: Let_def)
  have ih: "length q0 = length bs" "r0 < 42" "?x mod 42 * 256 ^ length bs + bytes_value bs = 42 * bytes_value q0 + r0"
    using Cons.IH [OF _ d] by simp_all
  have "unat b < 256" using unsigned_less [of b] by simp
  then have "?x div 42 < 256" using Cons.prems(1) by (simp add: less_mult_imp_div_less)
  then have u: "unat (word_of_nat (?x div 42) :: u8) = ?x div 42" by (simp add: unsigned_of_nat take_bit_nat_eq_self)
  let ?k = "256 ^ length bs :: nat"
  have "r * 256 ^ length (b # bs) + bytes_value (b # bs) = ?x * ?k + bytes_value bs"
    by (simp add: bytes_value_step algebra_simps)
  also have "?x * ?k = 42 * (?x div 42) * ?k + ?x mod 42 * ?k" by (metis add_mult_distrib mult_div_mod_eq)
  finally show ?case using ih q u by (simp add: bytes_value_step algebra_simps)
qed (simp add: bytes_value_def)

definition value42 :: "string \<Rightarrow> nat" where
  "value42 s = foldl (\<lambda>v c. 42 * v + nat (nchar c TABLE_FULL)) 0 s"

lemma digit_unique: "42 * a + r = 42 * b + d \<Longrightarrow> r < 42 \<Longrightarrow> d < 42 \<Longrightarrow> a = b \<and> r = d" for a b r d :: nat
proof -
  assume eq: "42 * a + r = 42 * b + d" and rd: "r < 42" "d < 42"
  have "(42 * x + y) div 42 = x" "(42 * x + y) mod 42 = y" if "y < 42" for x y :: nat using that by simp_all
  from this [OF rd(1), of a] this [OF rd(2), of b] show "a = b \<and> r = d" unfolding eq by simp
qed

lemma free_loop_value:
  "list_all (\<lambda>c. 0 \<le> nchar c TABLE_FULL) s \<Longrightarrow> bytes_value bs = value42 s \<Longrightarrow> free_loop (length s) bs t = s @ t"
proof (induction s arbitrary: bs t rule: rev_induct)
  case (snoc c s)
  let ?d = "nat (nchar c TABLE_FULL)"
  have d: "?d < 42" "charn ?d TABLE_FULL = c" using charn_nchar [of c TABLE_FULL] snoc.prems(1) by simp_all
  obtain q r where q: "div42 0 bs = (q, r)" by force
  then have "r < 42" "42 * bytes_value q + r = 42 * value42 s + ?d"
    using div42_value [OF _ q] snoc.prems(2) by (simp_all add: value42_def)
  then have "bytes_value q = value42 s" "r = ?d" using digit_unique d(1) by blast+
  then show ?case using snoc q d(2) by simp
qed simp

section \<open>Brackets\<close>

lemma bracketed_std:
  assumes "(\<exists>x. a = ''<'' @ x @ ''>'') \<or> (\<exists>y. b = ''<'' @ y @ ''>'' \<and> CHR ''<'' \<notin> set y)"
  shows "\<exists>rc st'. ftx_message_encode_std hash_if a b e payload st = (rc, payload, st') \<and> rc \<noteq> RC_OK"
proof -
  obtain n28a ipa st1 where A: "pack28 a hash_if st = (n28a, ipa, st1)" by (cases "pack28 a hash_if st") auto
  obtain n28b ipb st' where B: "pack28 b hash_if st1 = (n28b, ipb, st')" by (cases "pack28 b hash_if st1") auto
  have "n28a = - 1 \<or> n28b = - 1"
    using assms pack_bracket [of a hash_if st] pack_bracket [of b hash_if st1] A B by auto
  then show ?thesis by (auto simp: ftx_message_encode_std_def A B)
qed

lemma pack58_bracket_loop:
  assumes "CHR ''<'' \<notin> set y" "len + length y < 11"
  shows "pack58_loop (y @ ''>'') len r c11 = None"
  using assms
proof (induction y arbitrary: len r c11)
  case Nil
  have "nchar (CHR ''>'') TABLE_ALPHANUM_SPACE_SLASH = - 1" by code_simp
  then show ?case using Nil by simp
next
  case (Cons c y)
  then show ?case by (auto simp: Let_def)
qed

lemma bracketed_nonstd:
  assumes a: "is_word 12 a" and b: "is_word 12 b"
    and ab: "(\<exists>x. a = ''<'' @ x @ ''>'') \<or> (\<exists>y. b = ''<'' @ y @ ''>'' \<and> CHR ''<'' \<notin> set y)"
  shows "\<exists>rc st'. ftx_message_encode_nonstd hash_if a (b @ replicate (12 - length b) NUL) e payload st = Some (rc, payload, st') \<and> rc \<noteq> RC_OK"
proof -
  let ?mem = "b @ replicate (12 - length b) NUL"
  have mem: "cstr ?mem = b" "length ?mem = 12" using word_array(2) [OF b] b by (simp_all add: is_word_def)
  have len: "length a - 1 < 12" using a unfolding is_word_def by linarith
  have A: "save_callsign hash_if a st = None" "a \<noteq> ''CQ''" if "\<exists>x. a = ''<'' @ x @ ''>''" for st
    using that save_bracket [of a hash_if st] by auto
  have B: "save_callsign hash_if b st = None" "pack58 hash_if b st = None" if "\<exists>y. b = ''<'' @ y @ ''>'' \<and> CHR ''<'' \<notin> set y" for st
    using that save_bracket [of b hash_if st] b pack58_bracket_loop [of _ 0 0 "[]"] by (auto simp: pack58_def is_word_def)
  have first: "?mem ! 0 = CHR ''<'' \<Longrightarrow> 3 \<le> length b \<Longrightarrow> hd b = CHR ''<'' \<and> b \<noteq> []" by (cases b) auto
  have C: "save_callsign hash_if b st = None" if "?mem ! 0 = CHR ''<''" "3 \<le> length b" for st
    using save_bracket [of b hash_if st] first [OF that] by blast
  note unf = ftx_message_encode_nonstd_def mem(1) Let_def equals_def
  consider (short) "a \<noteq> ''CQ'' \<and> length a < 3 \<or> length b < 3" | (cq) "a = ''CQ''" "3 \<le> length b" | (call) "a \<noteq> ''CQ''" "3 \<le> length a" "3 \<le> length b"
    by linarith
  then show ?thesis
  proof cases
    case short
    then show ?thesis by (auto simp: unf)
  next
    case cq
    from ab have "pack58 hash_if b st = None"
    proof
      assume "\<exists>x. a = ''<'' @ x @ ''>''"
      then show ?thesis using cq(1) by simp
    qed (rule B(2))
    then show ?thesis using cq unfolding unf by simp
  next
    case call
    define flip where "flip = (?mem ! 0 = CHR ''<'' \<and> ?mem ! (length a - 1) = CHR ''>'')"
    have closing: "(if ?mem ! 0 = CHR ''<'' then if length a - 1 < length ?mem then Some (?mem ! (length a - 1) = CHR ''>'') else None else Some False) = Some flip"
      using len mem(2) by (simp add: flip_def)
    have "save_callsign hash_if (if \<not> flip then a else b) st = None \<or>
      (\<forall>st'. pack58 hash_if (if \<not> flip then b else a) st' = None)"
      using ab A(1) B C call(3) by (cases flip) (auto simp: flip_def)
    then show ?thesis using call unfolding unf closing
      by (cases "save_callsign hash_if (if \<not> flip then a else b) st") auto
  qed
qed

section \<open>The suffix of a message of FST4W\<close>

lemma a2_at: "a2_at i = None \<longleftrightarrow> 37 \<le> i"
proof -
  have "length a2 = 37" by code_simp
  then show ?thesis by (auto simp: a2_at_def)
qed

lemma suffix_text_None: "suffix_text ns = None \<longleftrightarrow> 13320 \<le> ns"
proof -
  have some: "\<exists>c. a2_at i = Some c" if "i < 37" for i using that a2_at [of i] by auto
  consider "ns \<le> 35" | "35 < ns" "ns \<le> 1295" | "1295 < ns" by linarith
  then show ?thesis
  proof cases
    case 1
    then show ?thesis using some [of ns] by (auto simp: suffix_text_def)
  next
    case 2
    then have "ns div 36 < 37" "ns mod 36 < 37" by (simp_all add: less_mult_imp_div_less order_less_trans [OF mod_less_divisor])
    then show ?thesis using 2 some [of "ns div 36"] some [of "ns mod 36"] by (auto simp: suffix_text_def)
  next
    case 3
    have "(ns div 10) mod 36 < 37" "ns mod 10 < 37" by (simp_all add: order_less_trans [OF mod_less_divisor])
    then obtain c d where "a2_at ((ns div 10) mod 36) = Some c" "a2_at (ns mod 10) = Some d" using some by blast
    moreover have "a2_at (ns div 360) = None \<longleftrightarrow> 13320 \<le> ns" unfolding a2_at by (simp add: less_eq_div_iff_mult_less_eq)
    ultimately show ?thesis using 3 by (cases "a2_at (ns div 360)") (auto simp: suffix_text_def)
  qed
qed

section \<open>Properties\<close>

text \<open>
  C13: standard messages survive coding. For two fields that are tokens or standard callsigns (with \<open>/P\<close> or \<open>/R\<close>,
  also the prefixes \<open>3DA0\<close> and \<open>3X\<close> that are coded specially) and a third field that is empty, a
  confirmation, a locator or a report from -30 to +99, encoding the text reports success, and decoding the
  payload, with whatever table of callsigns, gives the text back.
\<close>

theorem std_message_roundtrip:
  assumes "field_call a" and "field_call b" and "suffixes_agree a b" and "good_extra e" and "length payload = 10"
  shows "\<exists>p st1. ftx_message_encode hash_if (a @ '' '' @ b @ '' '' @ e) payload st = Some (RC_OK, p, st1) \<and> length p = 10 \<and>
    (\<exists>st2'. ftx_message_decode p hash_if2 st2 = (RC_OK, a @ '' '' @ b @ '' '' @ e, st2'))"
proof -
  have words: "is_word 12 a" "is_word 12 b" "is_word 20 e"
    using field_call_facts [OF assms(1)] field_call_facts [OF assms(2)] good_extra_word [OF assms(4)] by (simp_all add: is_word_def)
  have "pack_basecall [] (length (base_of [])) = - 1" by code_simp
  then have ne: "b \<noteq> []" using assms(2) by (auto simp: field_call_def std_call_def)
  let ?p = "std_bytes (n29 a) (n29 b) (packgrid e) (suffix_i3 a b) @ drop 10 payload"
  obtain st1 where enc: "ftx_message_encode_std hash_if a b e payload st = (RC_OK, ?p, st1)"
    using encode_std_fields [OF assms(1-3), where hash_if = hash_if and st = st and e = e and payload = payload] by (rule exE)
  obtain st2' where "ftx_message_decode_std ?p hash_if2 st2 = (RC_OK, a, b, e, st2')"
    using decode_std_fields(1) [OF assms(1-4) refl, where hash_if = hash_if2 and st = st2 and rest = "drop 10 payload"] by (rule exE)
  then have "ftx_message_decode ?p hash_if2 st2 = (RC_OK, a @ '' '' @ b @ '' '' @ e, st2')"
    using decode_std_fields(2) [OF assms(1-4) refl, where rest = "drop 10 payload"] by (simp add: ftx_message_decode_def)
  moreover have "ftx_message_encode hash_if (a @ '' '' @ b @ '' '' @ e) payload st = Some (RC_OK, ?p, st1)"
    using encode_words [OF words(1,2) ne words(3), of hash_if payload st] enc by simp
  moreover have "length ?p = 10" using assms(5) by (simp add: std_bytes_def)
  ultimately show ?thesis by blast
qed

theorem std_message_roundtrip_witness:
  "\<exists>p st1 st2'. ftx_message_encode (None :: unit hash_if) ''3DA0XYZ/P 3XA0ABC R-07'' (replicate 10 0) () = Some (RC_OK, p, st1) \<and>
     ftx_message_decode p (None :: unit hash_if) () = (RC_OK, ''3DA0XYZ/P 3XA0ABC R-07'', st2')"
proof -
  have "field_call ''3DA0XYZ/P''" "field_call ''3XA0ABC''" "suffixes_agree ''3DA0XYZ/P'' ''3XA0ABC''" by code_simp+
  moreover have "int_to_dd (- 7) 2 True = ''-07''" by code_simp
  then have "good_extra ''R-07''" unfolding good_extra_def by (intro disjI2 bexI [of _ "- 7"]) simp_all
  ultimately show ?thesis
    using std_message_roundtrip [of "''3DA0XYZ/P''" "''3XA0ABC''" "''R-07''" "replicate 10 0" "None :: unit hash_if" "()" "None :: unit hash_if" "()"]
    by auto
qed

text \<open>
  Callsigns in angular brackets cannot be encoded, although the documentation of the messages gives
  them as examples and decoding writes them: if the first or the second word is bracketed, encoding fails and
  leaves the payload alone.
\<close>

theorem brackets_rejected:
  assumes "is_word 12 a" and "is_word 12 b" and "b \<noteq> []" and "is_word 20 e"
    and "(\<exists>x. a = ''<'' @ x @ ''>'') \<or> (\<exists>y. b = ''<'' @ y @ ''>'' \<and> CHR ''<'' \<notin> set y)"
  shows "\<exists>rc st'. ftx_message_encode hash_if (a @ '' '' @ b @ '' '' @ e) payload st = Some (rc, payload, st') \<and> rc \<noteq> RC_OK"
proof -
  let ?mem = "b @ replicate (12 - length b) NUL"
  have std: "\<exists>rc st'. ftx_message_encode_std hash_if a b e payload st = (rc, payload, st') \<and> rc \<noteq> RC_OK" for st
    using assms(5) by (rule bracketed_std)
  have "\<exists>rc st'. ftx_message_encode_nonstd hash_if a ?mem e payload st = Some (rc, payload, st') \<and> rc \<noteq> RC_OK" for st
    using assms(1,2,5) by (rule bracketed_nonstd)
  then show ?thesis using std [of st] encode_words [OF assms(1-4), of hash_if payload st] by fastforce
qed

theorem brackets_rejected_witness:
  "\<exists>rc st'. ftx_message_encode (None :: unit hash_if) ''<WA9XYZ> PJ4/KA1ABC RR73'' (replicate 10 0) () = Some (rc, replicate 10 0, st') \<and> rc \<noteq> RC_OK"
  using brackets_rejected [of "''<WA9XYZ>''" "''PJ4/KA1ABC''" "''RR73''" "None :: unit hash_if" "replicate 10 0" "()"]
  by (auto simp: is_word_def)



text \<open>
  Free text is the number of 71 bits written in base 42: a payload whose bits are the value of thirteen
  characters of the table is decoded to these characters, without the blanks around them.
\<close>

theorem free_text_base42:
  assumes "length s = 13" and "list_all (\<lambda>c. c \<in> set (table_chars TABLE_FULL)) s"
    and "bytes_value (ftx_message_decode_telemetry payload) = value42 s"
  shows "ftx_message_decode_free payload = trim s"
proof -
  have "list_all (\<lambda>c. 0 \<le> nchar c TABLE_FULL) s"
    unfolding list_all_iff
  proof
    fix c assume "c \<in> set s"
    then have "c \<in> set (table_chars TABLE_FULL)" using assms(2) by (simp only: list_all_iff)
    then obtain k where "k < length (table_chars TABLE_FULL)" "table_chars TABLE_FULL ! k = c" by (meson in_set_conv_nth)
    then show "0 \<le> nchar c TABLE_FULL" using nchar_nth by fastforce
  qed
  then have "free_loop (length s) (ftx_message_decode_telemetry payload) [] = s @ []" using assms(3) by (rule free_loop_value)
  then show ?thesis by (simp add: ftx_message_decode_free_def assms(1))
qed

theorem free_text_base42_witness:
  "ftx_message_decode_free [0, 0, 0, 0, 0, 0, 0, 10, 52, 0] = ''U3''"
proof -
  have "list_all (\<lambda>c. c \<in> set (table_chars TABLE_FULL)) (replicate 11 (CHR '' '') @ ''U3'')" by code_simp
  moreover have "nchar (CHR '' '') TABLE_FULL = 0" "nchar (CHR ''U'') TABLE_FULL = 31" "nchar (CHR ''3'') TABLE_FULL = 4" by code_simp+
  then have "foldl (\<lambda>v c. 42 * v + nat (nchar c TABLE_FULL)) 0 (replicate k (CHR '' '')) = 0" for k by (induction k) simp_all
  then have "value42 (replicate 11 (CHR '' '') @ ''U3'') = 1306"
    using \<open>nchar (CHR ''U'') TABLE_FULL = 31\<close> \<open>nchar (CHR ''3'') TABLE_FULL = 4\<close> by (simp add: value42_def)
  moreover have "ftx_message_decode_telemetry [0, 0, 0, 0, 0, 0, 0, 10, 52, 0] = [0, 0, 0, 0, 0, 0, 0, 5, 26]" by code_simp
  then have "bytes_value (ftx_message_decode_telemetry [0, 0, 0, 0, 0, 0, 0, 10, 52, 0]) = 1306" by (simp add: bytes_value_def)
  moreover have "trim (replicate 11 (CHR '' '') @ ''U3'') = ''U3''" by code_simp
  ultimately show ?thesis using free_text_base42 [of "replicate 11 (CHR '' '') @ ''U3''" "[0, 0, 0, 0, 0, 0, 0, 10, 52, 0]"] by simp
qed

text \<open>
  C33: the decoder of FST4W reads behind its table of characters for exactly the messages of type 2 with a
  readable callsign whose suffix number is at least 13320, that is for 5560 of the 65536 values of the field.
\<close>

theorem fst4w_overread:
  "fst4w_message_decode p hash_if message st = None \<longleftrightarrow>
     p ! 6 AND 1 \<noteq> 0 \<and> 0 \<le> fst (unpack28 (unat (extract_bits p 0 28)) 0 0 hash_if st) \<and>
     46656 + 13320 \<le> unat (extract_bits p 28 16)"
proof -
  have bit: "x AND 1 = 0 \<or> x AND 1 = 1" for x :: u8 by (auto simp: and_one_eq)
  have split: "(case x of (rc, c, st') \<Rightarrow> if rc < 0 then Some (f st') else g c st') = None \<longleftrightarrow>
    0 \<le> fst x \<and> g (fst (snd x)) (snd (snd x)) = None" for x :: "int \<times> string \<times> 'a" and f and g :: "string \<Rightarrow> 'a \<Rightarrow> (message_rc \<times> string \<times> 'a) option"
    by (cases x) auto
  show ?thesis
  proof (cases "p ! 6 AND 1 = 0")
    case True
    then show ?thesis using bit [of "drop_bit 1 (p ! 6)"] by (auto simp: fst4w_message_decode_def split: prod.splits)
  next
    case False
    have "fst4w_message_decode p hash_if message st = None \<longleftrightarrow>
      0 \<le> fst (unpack28 (unat (extract_bits p 0 28)) 0 0 hash_if st) \<and> \<not> unat (extract_bits p 28 16) < 46656 \<and>
      suffix_text (unat (extract_bits p 28 16) - 46656) = None"
      using False unfolding fst4w_message_decode_def Let_def by (auto split: prod.splits option.splits bind_splits)
    then show ?thesis using False by (auto simp: suffix_text_None)
  qed
qed

end
