(* ===== verification/CallsignTable.thy ===== *)
theory CallsignTable
  imports FtxMessage
begin

text \<open>
  The table of callsigns behind the hash interface: \<open>callsign_table_reset\<close>, \<open>callsign_table_age\<close>,
  \<open>save_callsign\<close> and \<open>lookup_callsign\<close> of \<open>ft8_decoder.c\<close>, a hash table with open addressing whose entries carry
  their age above the 22 bits of the hash.
\<close>

unbundle bit_operations_syntax

section \<open>The table\<close>

record callsign_entry =
  ce_callsign :: string
  ce_hash :: u32

type_synonym callsign_table = "callsign_entry list"

definition FT8_CALLSIGN_TABLE_SIZE :: nat where "FT8_CALLSIGN_TABLE_SIZE = 256"

definition empty_entry :: callsign_entry where "empty_entry = \<lparr>ce_callsign = [], ce_hash = 0\<rparr>"

definition callsign_table_reset :: callsign_table where
  "callsign_table_reset = replicate FT8_CALLSIGN_TABLE_SIZE empty_entry"

definition age_entry :: "callsign_entry \<Rightarrow> callsign_entry" where
  "age_entry entry =
     (if ce_callsign entry = [] then entry
      else let age = ucast (drop_bit 24 (ce_hash entry)) :: u8
           in if age > 10 then empty_entry
              else entry\<lparr>ce_hash := push_bit 24 (ucast (age + 1)) OR (ce_hash entry AND 0x3FFFFF)\<rparr>)"

definition callsign_table_age :: "callsign_table \<Rightarrow> callsign_table" where
  "callsign_table_age tbl = map age_entry tbl"

text \<open>The loop over the probes, with the number of probes left.\<close>

fun save_probe :: "string \<Rightarrow> u32 \<Rightarrow> nat \<Rightarrow> nat \<Rightarrow> callsign_table \<Rightarrow> callsign_table" where
  "save_probe callsign hash 0 index tbl = tbl"
| "save_probe callsign hash (Suc probes) index tbl =
     (let entry = tbl ! index in
      if ce_callsign entry = [] then tbl[index := \<lparr>ce_callsign = take 11 callsign, ce_hash = hash AND 0x3FFFFF\<rparr>]
      else if ce_hash entry AND 0x3FFFFF = hash AND 0x3FFFFF \<and> ce_callsign entry = callsign
      then tbl[index := entry\<lparr>ce_hash := ce_hash entry AND 0x3FFFFF\<rparr>]
      else save_probe callsign hash probes ((index + 1) mod FT8_CALLSIGN_TABLE_SIZE) tbl)"

definition table_save :: "string \<Rightarrow> u32 \<Rightarrow> callsign_table \<Rightarrow> callsign_table" where
  "table_save callsign hash tbl =
     (let index = unat (drop_bit 12 hash AND 0x3FF) * 23 mod FT8_CALLSIGN_TABLE_SIZE
      in save_probe callsign hash FT8_CALLSIGN_TABLE_SIZE index tbl)"

text \<open>The string written is the entry's, which has at most eleven characters.\<close>

fun lookup_probe :: "nat \<Rightarrow> u32 \<Rightarrow> nat \<Rightarrow> nat \<Rightarrow> callsign_table \<Rightarrow> string option" where
  "lookup_probe shift hash 0 index tbl = None"
| "lookup_probe shift hash (Suc probes) index tbl =
     (let entry = tbl ! index in
      if ce_callsign entry = [] then None
      else if drop_bit shift (ce_hash entry AND 0x3FFFFF) = hash then Some (take 11 (ce_callsign entry))
      else lookup_probe shift hash probes ((index + 1) mod FT8_CALLSIGN_TABLE_SIZE) tbl)"

definition table_lookup :: "hash_type \<Rightarrow> u32 \<Rightarrow> callsign_table \<Rightarrow> string option" where
  "table_lookup hash_type hash tbl =
     (let shift = (if hash_type = HASH_10_BITS then 12 else if hash_type = HASH_12_BITS then 10 else 0);
          index = unat (drop_bit (12 - shift) hash AND 0x3FF) * 23 mod FT8_CALLSIGN_TABLE_SIZE
      in lookup_probe shift hash FT8_CALLSIGN_TABLE_SIZE index tbl)"

section \<open>What the table stands for\<close>

definition hash_of :: "callsign_entry \<Rightarrow> u32" where
  "hash_of entry = ce_hash entry AND 0x3FFFFF"

definition used :: "callsign_table \<Rightarrow> nat \<Rightarrow> bool" where
  "used tbl i \<longleftrightarrow> ce_callsign (tbl ! (i mod 256)) \<noteq> []"

definition home :: "u32 \<Rightarrow> nat" where
  "home hash = unat (drop_bit 12 hash AND 0x3FF) * 23 mod 256"

definition table_entries :: "callsign_table \<Rightarrow> (string \<times> u32) set" where
  "table_entries tbl = {(ce_callsign (tbl ! i), hash_of (tbl ! i)) |i. i < 256 \<and> ce_callsign (tbl ! i) \<noteq> []}"

text \<open>Every entry can be reached from its home without meeting a free place, and fits its array.\<close>

definition table_ok :: "callsign_table \<Rightarrow> bool" where
  "table_ok tbl \<longleftrightarrow> length tbl = 256 \<and> (\<forall>i < 256. ce_callsign (tbl ! i) \<noteq> [] \<longrightarrow>
     length (ce_callsign (tbl ! i)) \<le> 11 \<and>
     (\<exists>d < 256. i = (home (hash_of (tbl ! i)) + d) mod 256 \<and> (\<forall>j < d. used tbl (home (hash_of (tbl ! i)) + j))))"

definition has_room :: "callsign_table \<Rightarrow> bool" where
  "has_room tbl \<longleftrightarrow> (\<exists>i < 256. ce_callsign (tbl ! i) = [])"

section \<open>Probing\<close>

definition same_call :: "string \<Rightarrow> u32 \<Rightarrow> callsign_entry \<Rightarrow> bool" where
  "same_call c n entry \<longleftrightarrow> hash_of entry = n AND 0x3FFFFF \<and> ce_callsign entry = c"

lemma save_probe_cases:
  assumes "length tbl = 256"
  shows "(\<forall>j < k. used tbl (h + j) \<and> \<not> same_call c n (tbl ! ((h + j) mod 256))) \<and> save_probe c n k (h mod 256) tbl = tbl \<or>
    (\<exists>j < k. (\<forall>j' < j. used tbl (h + j')) \<and>
      (\<not> used tbl (h + j) \<and> save_probe c n k (h mod 256) tbl = tbl[(h + j) mod 256 := \<lparr>ce_callsign = take 11 c, ce_hash = n AND 0x3FFFFF\<rparr>] \<or>
       used tbl (h + j) \<and> same_call c n (tbl ! ((h + j) mod 256)) \<and>
         save_probe c n k (h mod 256) tbl = tbl[(h + j) mod 256 := (tbl ! ((h + j) mod 256))\<lparr>ce_hash := hash_of (tbl ! ((h + j) mod 256))\<rparr>]))"
proof (induction k arbitrary: h)
  case (Suc k)
  let ?e = "tbl ! (h mod 256)"
  have next_index: "(h mod 256 + 1) mod FT8_CALLSIGN_TABLE_SIZE = Suc h mod 256" by (simp add: FT8_CALLSIGN_TABLE_SIZE_def mod_Suc_eq)
  consider (free) "ce_callsign ?e = []" | (same) "ce_callsign ?e \<noteq> []" "same_call c n ?e" | (other) "ce_callsign ?e \<noteq> []" "\<not> same_call c n ?e" by blast
  then show ?case
  proof cases
    case free
    then show ?thesis by (intro disjI2 exI [of _ 0]) (simp add: used_def)
  next
    case same
    then show ?thesis by (intro disjI2 exI [of _ 0]) (simp add: used_def same_call_def hash_of_def)
  next
    case other
    have step: "save_probe c n (Suc k) (h mod 256) tbl = save_probe c n k (Suc h mod 256) tbl"
      using other next_index by (auto simp: same_call_def hash_of_def Let_def)
    have u: "used tbl h" using other by (simp add: used_def)
    have all: "(\<forall>j < Suc k. P (h + j)) \<longleftrightarrow> P h \<and> (\<forall>j < k. P (Suc h + j))" for P and k by (auto simp: less_Suc_eq_0_disj)
    from Suc.IH [of "Suc h"] show ?thesis
    proof (elim disjE exE conjE)
      assume a: "\<forall>j < k. used tbl (Suc h + j) \<and> \<not> same_call c n (tbl ! ((Suc h + j) mod 256))" "save_probe c n k (Suc h mod 256) tbl = tbl"
      have "\<forall>j < Suc k. used tbl (h + j) \<and> \<not> same_call c n (tbl ! ((h + j) mod 256))"
        using all [of k "\<lambda>i. used tbl i \<and> \<not> same_call c n (tbl ! (i mod 256))"] a(1) u other(2) by blast
      then show ?thesis using step a(2) by simp
    next
      fix j assume j: "j < k" "\<forall>j' < j. used tbl (Suc h + j')" "\<not> used tbl (Suc h + j)"
        "save_probe c n k (Suc h mod 256) tbl = tbl[(Suc h + j) mod 256 := \<lparr>ce_callsign = take 11 c, ce_hash = n AND 0x3FFFFF\<rparr>]"
      have "\<forall>j' < Suc j. used tbl (h + j')" using all [of j "used tbl"] j(2) u by blast
      then show ?thesis using j step by (intro disjI2 exI [of _ "Suc j"]) simp
    next
      fix j assume j: "j < k" "\<forall>j' < j. used tbl (Suc h + j')" "used tbl (Suc h + j)" "same_call c n (tbl ! ((Suc h + j) mod 256))"
        "save_probe c n k (Suc h mod 256) tbl = tbl[(Suc h + j) mod 256 := (tbl ! ((Suc h + j) mod 256))\<lparr>ce_hash := hash_of (tbl ! ((Suc h + j) mod 256))\<rparr>]"
      have "\<forall>j' < Suc j. used tbl (h + j')" using all [of j "used tbl"] j(2) u by blast
      then show ?thesis using j step by (intro disjI2 exI [of _ "Suc j"]) simp
    qed
  qed
qed simp

lemma lookup_probe_sound:
  assumes "length tbl = 256"
  shows "i < 256 \<Longrightarrow> lookup_probe s h k i tbl = Some c \<Longrightarrow>
    \<exists>j < 256. ce_callsign (tbl ! j) \<noteq> [] \<and> drop_bit s (hash_of (tbl ! j)) = h \<and> c = take 11 (ce_callsign (tbl ! j))"
proof (induction k arbitrary: i)
  case (Suc k)
  show ?case
  proof (cases "drop_bit s (hash_of (tbl ! i)) = h")
    case True
    then show ?thesis using Suc.prems by (intro exI [of _ i]) (auto simp: hash_of_def Let_def split: if_splits)
  next
    case False
    then have "lookup_probe s h k (Suc i mod 256) tbl = Some c"
      using Suc.prems(2) by (simp add: hash_of_def Let_def FT8_CALLSIGN_TABLE_SIZE_def split: if_splits)
    then show ?thesis by (rule Suc.IH [rotated]) simp
  qed
qed simp

lemma lookup_probe_found:
  assumes "length tbl = 256"
  shows "d < k \<Longrightarrow> \<forall>j < d. used tbl (h + j) \<Longrightarrow> used tbl (h + d) \<Longrightarrow> drop_bit s (hash_of (tbl ! ((h + d) mod 256))) = x \<Longrightarrow>
    \<exists>c. lookup_probe s x k (h mod 256) tbl = Some c"
proof (induction k arbitrary: h d)
  case (Suc k)
  have next_index: "(h mod 256 + 1) mod FT8_CALLSIGN_TABLE_SIZE = Suc h mod 256" by (simp add: FT8_CALLSIGN_TABLE_SIZE_def mod_Suc_eq)
  show ?case
  proof (cases d)
    case 0
    then show ?thesis using Suc.prems by (auto simp: used_def hash_of_def Let_def)
  next
    case (Suc d')
    then have u: "used tbl h" "\<forall>j < d'. used tbl (Suc h + j)" using Suc.prems(2) by fastforce+
    have "\<exists>c. lookup_probe s x k (Suc h mod 256) tbl = Some c"
      using Suc.IH [of d' "Suc h"] Suc.prems Suc u(2) by simp
    then show ?thesis using u(1) next_index by (auto simp: used_def Let_def)
  qed
qed simp

section \<open>The table is a store of callsigns\<close>

lemma hash_of_idem [simp]: "hash_of (e\<lparr>ce_hash := hash_of e\<rparr>) = hash_of e"
  by (simp add: hash_of_def and.assoc)

lemma storable_hash: "storable c n \<Longrightarrow> n AND 0x3FFFFF = n"
proof -
  assume "storable c n"
  then have n: "unat n < 2 ^ 22" by (simp add: storable_def)
  have "(0x3FFFFF :: u32) = mask 22" by (simp add: mask_eq_exp_minus_1)
  then have "n AND 0x3FFFFF = take_bit 22 n" by (simp add: take_bit_eq_mask)
  also have "\<dots> = n" unfolding word_unat_eq_iff unsigned_take_bit_eq using n by (rule take_bit_nat_eq_self)
  finally show ?thesis .
qed

lemma home_mod [simp]: "home n mod 256 = home n"
  by (simp add: home_def)

text \<open>The three things that saving can do.\<close>

lemma table_save_cases:
  assumes ok: "table_ok tbl" and c: "storable c n"
  obtains (full) "\<forall>j < 256. used tbl (home n + j)" "table_save c n tbl = tbl"
  | (free) j where "j < 256" "\<forall>j' < j. used tbl (home n + j')" "\<not> used tbl (home n + j)"
      "table_save c n tbl = tbl[(home n + j) mod 256 := \<lparr>ce_callsign = c, ce_hash = n\<rparr>]"
  | (same) p where "p < 256" "ce_callsign (tbl ! p) = c" "hash_of (tbl ! p) = n"
      "table_save c n tbl = tbl[p := (tbl ! p)\<lparr>ce_hash := hash_of (tbl ! p)\<rparr>]"
proof -
  have len: "length tbl = 256" using ok by (simp add: table_ok_def)
  have eq: "table_save c n tbl = save_probe c n 256 (home n mod 256) tbl"
    by (simp add: table_save_def home_def FT8_CALLSIGN_TABLE_SIZE_def)
  have c': "take 11 c = c" "n AND 0x3FFFFF = n" using c storable_hash [OF c] by (simp_all add: storable_def)
  from save_probe_cases [OF len, of 256 "home n" c n] show thesis unfolding eq [symmetric] c'
  proof (elim disjE exE conjE)
    assume "\<forall>j < 256. used tbl (home n + j) \<and> \<not> same_call c n (tbl ! ((home n + j) mod 256))" "table_save c n tbl = tbl"
    then show thesis by (intro full) auto
  next
    fix j assume "j < 256" "\<forall>j' < j. used tbl (home n + j')" "\<not> used tbl (home n + j)"
      "table_save c n tbl = tbl[(home n + j) mod 256 := \<lparr>ce_callsign = c, ce_hash = n\<rparr>]"
    then show thesis by (rule free)
  next
    fix j assume "same_call c n (tbl ! ((home n + j) mod 256))"
      "table_save c n tbl = tbl[(home n + j) mod 256 := (tbl ! ((home n + j) mod 256))\<lparr>ce_hash := hash_of (tbl ! ((home n + j) mod 256))\<rparr>]"
    then show thesis using c'(2) by (intro same [of "(home n + j) mod 256"]) (simp_all add: same_call_def)
  qed
qed

lemma entries_update_same:
  assumes "length tbl = 256" "p < 256"
  shows "table_entries (tbl[p := (tbl ! p)\<lparr>ce_hash := hash_of (tbl ! p)\<rparr>]) = table_entries tbl"
    and "used (tbl[p := (tbl ! p)\<lparr>ce_hash := hash_of (tbl ! p)\<rparr>]) = used tbl"
proof -
  let ?t = "tbl[p := (tbl ! p)\<lparr>ce_hash := hash_of (tbl ! p)\<rparr>]"
  have s: "ce_callsign (?t ! i) = ce_callsign (tbl ! i)" "hash_of (?t ! i) = hash_of (tbl ! i)" if "i < 256" for i
    using that assms by (cases "i = p"; simp)+
  show "table_entries ?t = table_entries tbl" unfolding table_entries_def using s by (intro Collect_cong ex_cong1) (metis (no_types))
  show "used ?t = used tbl" using s by (intro ext) (simp add: used_def)
qed

lemma ring_reach: "\<forall>j < 256. used tbl (h + j) \<Longrightarrow> i < 256 \<Longrightarrow> used tbl i"
proof -
  assume u: "\<forall>j < 256. used tbl (h + j)" and i: "i < 256"
  define k where "k = h mod 256"
  have k: "k < 256" by (simp add: k_def)
  let ?j = "(i + (256 - k)) mod 256"
  have "(h + ?j) mod 256 = (k + (i + (256 - k))) mod 256" by (simp only: k_def mod_add_left_eq mod_add_right_eq)
  also have "k + (i + (256 - k)) = i + 256" using k by simp
  finally have "(h + ?j) mod 256 = i mod 256" by simp
  moreover have "used tbl (h + ?j)" using u by simp
  ultimately show "used tbl i" by (simp add: used_def)
qed

lemma table_save_laws:
  assumes ok: "table_ok tbl" and c: "storable c n"
  shows "table_ok (table_save c n tbl)" "table_entries tbl \<subseteq> table_entries (table_save c n tbl)"
    "table_entries (table_save c n tbl) \<subseteq> insert (c, n) (table_entries tbl)"
    "has_room tbl \<Longrightarrow> (c, n) \<in> table_entries (table_save c n tbl)"
proof -
  have len: "length tbl = 256" using ok by (simp add: table_ok_def)
  have entry: "length (ce_callsign (tbl ! i)) \<le> 11" "\<exists>d < 256. i = (home (hash_of (tbl ! i)) + d) mod 256 \<and>
      (\<forall>j < d. used tbl (home (hash_of (tbl ! i)) + j))" if "i < 256" "ce_callsign (tbl ! i) \<noteq> []" for i
    using ok that by (simp_all add: table_ok_def)
  have c': "c \<noteq> []" "length c \<le> 11" using c by (simp_all add: storable_def)
  have "table_ok (table_save c n tbl) \<and> table_entries tbl \<subseteq> table_entries (table_save c n tbl) \<and>
    table_entries (table_save c n tbl) \<subseteq> insert (c, n) (table_entries tbl) \<and>
    (has_room tbl \<longrightarrow> (c, n) \<in> table_entries (table_save c n tbl))"
    using ok c
  proof (cases rule: table_save_cases)
    case full
    then have "\<not> has_room tbl" using ring_reach [OF full(1)] by (auto simp: has_room_def used_def)
    then show ?thesis using full ok by auto
  next
    case (free j)
    let ?p = "(home n + j) mod 256" and ?e = "\<lparr>ce_callsign = c, ce_hash = n\<rparr>"
    let ?t = "tbl[?p := ?e]"
    have p: "?p < 256" "ce_callsign (tbl ! ?p) = []" using free(3) by (simp_all add: used_def)
    have nth: "?t ! i = (if i = ?p then ?e else tbl ! i)" if "i < 256" for i using that len by simp
    have e: "hash_of ?e = n" using storable_hash [OF c] by (simp add: hash_of_def)
    have used: "used tbl i \<Longrightarrow> used ?t i" for i using nth [of "i mod 256"] c'(1) by (auto simp: used_def)
    have "table_ok ?t"
      unfolding table_ok_def
    proof (intro conjI allI impI)
      fix i :: nat assume i: "i < 256" "ce_callsign (?t ! i) \<noteq> []"
      show "length (ce_callsign (?t ! i)) \<le> 11" using i nth [OF i(1)] c'(2) entry(1) [OF i(1)] by (auto split: if_splits)
      show "\<exists>d < 256. i = (home (hash_of (?t ! i)) + d) mod 256 \<and> (\<forall>j < d. used ?t (home (hash_of (?t ! i)) + j))"
      proof (cases "i = ?p")
        case True
        then show ?thesis using nth [OF i(1)] e free(1,2) used by (intro exI [of _ j]) simp
      next
        case False
        then show ?thesis using nth [OF i(1)] entry(2) [OF i(1)] i(2) used by auto
      qed
    qed (simp add: len)
    moreover have "table_entries ?t = insert (c, n) (table_entries tbl)"
    proof (intro subset_antisym subsetI)
      fix x assume "x \<in> table_entries ?t"
      then obtain i where i: "i < 256" "x = (ce_callsign (?t ! i), hash_of (?t ! i))" "ce_callsign (?t ! i) \<noteq> []"
        by (auto simp: table_entries_def)
      then show "x \<in> insert (c, n) (table_entries tbl)" using nth [OF i(1)] e by (cases "i = ?p") (auto simp: table_entries_def)
    next
      fix x assume "x \<in> insert (c, n) (table_entries tbl)"
      then show "x \<in> table_entries ?t"
      proof
        assume "x = (c, n)"
        then show ?thesis using nth [OF p(1)] e c'(1) p(1) unfolding table_entries_def by (intro CollectI exI [of _ ?p]) simp
      next
        assume "x \<in> table_entries tbl"
        then obtain i where i: "i < 256" "x = (ce_callsign (tbl ! i), hash_of (tbl ! i))" "ce_callsign (tbl ! i) \<noteq> []"
          by (auto simp: table_entries_def)
        then have "i \<noteq> ?p" using p(2) by auto
        then show ?thesis using i nth [OF i(1)] unfolding table_entries_def by (intro CollectI exI [of _ i]) simp
      qed
    qed
    ultimately show ?thesis unfolding free(4) by auto
  next
    case (same p)
    let ?t = "tbl[p := (tbl ! p)\<lparr>ce_hash := hash_of (tbl ! p)\<rparr>]"
    note upd = entries_update_same [OF len same(1)]
    have s: "ce_callsign (?t ! i) = ce_callsign (tbl ! i)" "hash_of (?t ! i) = hash_of (tbl ! i)" if "i < 256" for i
      using that len by (cases "i = p"; simp)+
    have "table_ok ?t" using ok s unfolding table_ok_def upd(2) by simp
    moreover have "(c, n) \<in> table_entries tbl" using same(1-3) c'(1) unfolding table_entries_def by blast
    ultimately show ?thesis unfolding same(4) upd(1) by blast
  qed
  then show "table_ok (table_save c n tbl)" "table_entries tbl \<subseteq> table_entries (table_save c n tbl)"
    "table_entries (table_save c n tbl) \<subseteq> insert (c, n) (table_entries tbl)"
    "has_room tbl \<Longrightarrow> (c, n) \<in> table_entries (table_save c n tbl)" by blast+
qed

text \<open>The home of an entry is found from the shorter hashes too.\<close>

lemma lookup_home: "unat (drop_bit (12 - hash_shift t) (drop_bit (hash_shift t) n) AND 0x3FF) * 23 mod 256 = home n"
proof -
  have "12 - hash_shift t + hash_shift t = 12" by (cases t) (simp_all add: hash_shift_def)
  then show ?thesis unfolding home_def drop_bit_drop_bit by simp
qed

lemma table_lookup_eq:
  "table_lookup t x tbl = lookup_probe (hash_shift t) x 256 (unat (drop_bit (12 - hash_shift t) x AND 0x3FF) * 23 mod 256) tbl"
  by (cases t) (simp_all add: table_lookup_def hash_shift_def FT8_CALLSIGN_TABLE_SIZE_def)

lemma table_lookup_laws:
  assumes ok: "table_ok tbl"
  shows "table_lookup t x tbl = Some c \<Longrightarrow> \<exists>n. (c, n) \<in> table_entries tbl \<and> drop_bit (hash_shift t) n = x"
    and "(c, n) \<in> table_entries tbl \<Longrightarrow> \<exists>c'. table_lookup t (drop_bit (hash_shift t) n) tbl = Some c'"
proof -
  have len: "length tbl = 256" using ok by (simp add: table_ok_def)
  assume "table_lookup t x tbl = Some c"
  then obtain j where j: "j < 256" "ce_callsign (tbl ! j) \<noteq> []" "drop_bit (hash_shift t) (hash_of (tbl ! j)) = x" "c = take 11 (ce_callsign (tbl ! j))"
    unfolding table_lookup_eq by (elim lookup_probe_sound [OF len mod_less_divisor [OF zero_less_numeral], THEN exE] conjE)
  then have "length (ce_callsign (tbl ! j)) \<le> 11" using ok by (simp add: table_ok_def)
  then show "\<exists>n. (c, n) \<in> table_entries tbl \<and> drop_bit (hash_shift t) n = x" using j by (auto simp: table_entries_def)
next
  have len: "length tbl = 256" using ok by (simp add: table_ok_def)
  assume "(c, n) \<in> table_entries tbl"
  then obtain i where i: "i < 256" "ce_callsign (tbl ! i) \<noteq> []" "hash_of (tbl ! i) = n" by (auto simp: table_entries_def)
  then obtain d where d: "d < 256" "i = (home n + d) mod 256" "\<forall>j < d. used tbl (home n + j)" using ok by (auto simp: table_ok_def)
  have "used tbl (home n + d)" using i d(2) by (simp add: used_def)
  from lookup_probe_found [OF len d(1,3) this refl, of "hash_shift t"] i(3) d(2)
  show "\<exists>c'. table_lookup t (drop_bit (hash_shift t) n) tbl = Some c'" unfolding table_lookup_eq lookup_home by simp
qed

section \<open>Two messages make a callsign known\<close>

context bounded_store
begin

text \<open>A call to everyone spells the callsign out, and the receiver keeps it.\<close>

lemma nonstd_cq:
  assumes st: "ok st2" "room st2" and a: "nonstd_call a" and mem: "cstr a_mem = a"
  shows "\<exists>p st1. ftx_message_encode_nonstd hash_if ''CQ'' a_mem e payload st = Some (RC_OK, p, st1) \<and>
    (\<exists>st2'. ftx_message_decode p store_if st2 = (RC_OK, ''CQ '' @ a @ '' '', st2') \<and> ok st2' \<and>
      (a, call_hash22 a) \<in> entries st2' \<and> entries st2' \<subseteq> insert (a, call_hash22 a) (entries st2))"
proof -
  have zero: "unat (0 :: u16) < 2 ^ 12" "unat (0 :: u8) < 2 ^ 2" by simp_all
  let ?p = "nonstd_bytes 0 (word_of_nat (value58 a)) (flag False) 0 (flag True) 4 @ drop 10 payload"
  obtain st1 where enc: "ftx_message_encode_nonstd hash_if ''CQ'' a_mem e payload st = Some (RC_OK, ?p, st1)"
    using encode_nonstd_bytes [OF disjI1 [OF refl] a mem, of hash_if e payload st] by auto
  note type = decode_nonstd_fields(1) [where cq = True and rest = "drop 10 payload", OF a zero(1) refl zero(2)]
  obtain st2' where U: "unpack58 (value58 a) store_if st2 = (True, a, st2')"
    and D: "ftx_message_decode_nonstd ?p store_if st2 = (RC_OK, ''CQ'', a, [], st2')"
    using decode_nonstd_fields(2) [where hash_if = store_if and st = st2 and cq = True and rest = "drop 10 payload", OF a zero(1) refl zero(2)]
    by auto
  have saved: "st2' = save a (call_hash22 a) st2"
    using U a save_callsign_hash [of a store_if st2]
    by (auto simp: unpack58_def Let_def nonstd_call_def store_if_def split: if_splits option.splits)
  have "ok st2'" "(a, call_hash22 a) \<in> entries st2'" "entries st2' \<subseteq> insert (a, call_hash22 a) (entries st2)"
    unfolding saved using st save_ok save_present save_adds nonstd_storable [OF a] by blast+
  moreover have "ftx_message_decode ?p store_if st2 = (RC_OK, ''CQ '' @ a @ '' '', st2')"
    unfolding ftx_message_decode_def type D by simp
  ultimately show ?thesis using enc by blast
qed

lemma conversation:
  assumes st: "ok st2" "room st2" and a: "nonstd_call a" "a \<noteq> ''CQ''" "cstr a_mem = a" and b: "nonstd_call b" "cstr b_mem = b"
    and e: "e \<in> {[], ''RRR'', ''RR73'', ''73''}"
    and unique: "\<And>c n. (c, n) \<in> {(a, call_hash22 a), (b, call_hash22 b)} \<union> entries st2 \<Longrightarrow>
      drop_bit 10 n = drop_bit 10 (call_hash22 a) \<Longrightarrow> c = a"
  shows "\<exists>p q sta stb. ftx_message_encode_nonstd hash_if_a ''CQ'' a_mem e_a payload_a st_a = Some (RC_OK, p, sta) \<and>
    ftx_message_encode_nonstd hash_if_b a b_mem e payload_b st_b = Some (RC_OK, q, stb) \<and>
    (\<exists>st3 st4. ftx_message_decode p store_if st2 = (RC_OK, ''CQ '' @ a @ '' '', st3) \<and>
      ftx_message_decode q store_if st3 = (RC_OK, add_brackets a @ '' '' @ b @ '' '' @ e, st4))"
proof -
  obtain p sta st3 where p: "ftx_message_encode_nonstd hash_if_a ''CQ'' a_mem e_a payload_a st_a = Some (RC_OK, p, sta)"
      "ftx_message_decode p store_if st2 = (RC_OK, ''CQ '' @ a @ '' '', st3)"
    and st3: "ok st3" "(a, call_hash22 a) \<in> entries st3" "entries st3 \<subseteq> insert (a, call_hash22 a) (entries st2)"
    using nonstd_cq [OF st a(1,3), of hash_if_a e_a payload_a st_a] by auto
  have "c = a" if "(c, n) \<in> insert (b, call_hash22 b) (entries st3)" "drop_bit 10 n = drop_bit 10 (call_hash22 a)" for c n
    using that unique [of c n] st3(3) by blast
  then obtain q stb st4 where "ftx_message_encode_nonstd hash_if_b a b_mem e payload_b st_b = Some (RC_OK, q, stb)"
      "ftx_message_decode q store_if st3 = (RC_OK, add_brackets a @ '' '' @ b @ '' '' @ e, st4)"
    using nonstd_decode [OF st3(1) a(1,2) b e st3(2), of hash_if_b payload_b st_b] by auto
  then show ?thesis using p by blast
qed

end

interpretation tbl: bounded_store table_lookup table_save table_entries table_ok has_room
  by unfold_locales (use table_save_laws table_lookup_laws in auto)

definition callsign_interface :: "callsign_table hash_if" where
  "callsign_interface = Some \<lparr>lookup_hash = Some table_lookup, save_hash = Some table_save\<rparr>"

lemma callsign_interface_eq: "tbl.store_if = callsign_interface"
  by (simp add: tbl.store_if_def callsign_interface_def)

lemma reset_laws: "table_ok callsign_table_reset" "has_room callsign_table_reset" "table_entries callsign_table_reset = {}"
proof -
  have nth: "callsign_table_reset ! i = empty_entry" if "i < 256" for i
    using that by (simp add: callsign_table_reset_def FT8_CALLSIGN_TABLE_SIZE_def)
  then have "callsign_table_reset ! 0 = empty_entry" by simp
  then show "has_room callsign_table_reset" unfolding has_room_def by (intro exI [of _ 0]) (simp add: empty_entry_def)
  show "table_ok callsign_table_reset" "table_entries callsign_table_reset = {}"
    using nth by (auto simp: table_ok_def table_entries_def empty_entry_def callsign_table_reset_def FT8_CALLSIGN_TABLE_SIZE_def)
qed

section \<open>Aging\<close>

definition entry_age :: "callsign_entry \<Rightarrow> nat" where
  "entry_age entry = unat (ucast (drop_bit 24 (ce_hash entry)) :: u8)"

lemma age_bits:
  fixes a :: u8 and n :: u32
  shows "(push_bit 24 (ucast a) OR (n AND 0x3FFFFF)) AND 0x3FFFFF = n AND 0x3FFFFF"
    and "ucast (drop_bit 24 (push_bit 24 (ucast a) OR (n AND 0x3FFFFF))) = a"
proof -
  have m: "(0x3FFFFF :: u32) = mask 22" by (simp add: mask_eq_exp_minus_1)
  show "(push_bit 24 (ucast a) OR (n AND 0x3FFFFF)) AND 0x3FFFFF = n AND 0x3FFFFF"
    unfolding m by (rule bit_word_eqI) (auto simp: bit_simps)
  show "ucast (drop_bit 24 (push_bit 24 (ucast a) OR (n AND 0x3FFFFF))) = a"
    unfolding m by (rule bit_word_eqI) (auto simp: bit_simps)
qed

lemma age_entry_young:
  assumes "entry_age e \<le> 10"
  shows "ce_callsign (age_entry e) = ce_callsign e" "hash_of (age_entry e) = hash_of e"
proof -
  have young: "\<not> ucast (drop_bit 24 (ce_hash e)) > (10 :: u8)" using assms by (simp add: entry_age_def word_less_nat_alt)
  show "ce_callsign (age_entry e) = ce_callsign e" using young by (simp add: age_entry_def Let_def)
  show "hash_of (age_entry e) = hash_of e" using young by (simp add: age_entry_def Let_def hash_of_def age_bits(1))
qed

lemma age_entry_old:
  assumes "entry_age e > 10"
  shows "ce_callsign (age_entry e) = []"
proof -
  have "ucast (drop_bit 24 (ce_hash e)) > (10 :: u8)" using assms by (simp add: entry_age_def word_less_nat_alt)
  then show ?thesis by (simp add: age_entry_def Let_def empty_entry_def)
qed

text \<open>As long as nothing expires, aging changes nothing that the interface shows.\<close>

lemma age_keeps:
  assumes ok: "table_ok tbl" and young: "\<And>i. i < 256 \<Longrightarrow> ce_callsign (tbl ! i) \<noteq> [] \<Longrightarrow> entry_age (tbl ! i) \<le> 10"
  shows "table_ok (callsign_table_age tbl)" "table_entries (callsign_table_age tbl) = table_entries tbl"
proof -
  let ?t = "callsign_table_age tbl"
  have len: "length tbl = 256" using ok by (simp add: table_ok_def)
  have s: "ce_callsign (?t ! i) = ce_callsign (tbl ! i)" "hash_of (?t ! i) = hash_of (tbl ! i)" if "i < 256" for i
    using young [OF that] that len age_entry_young [of "tbl ! i"]
    by (cases "ce_callsign (tbl ! i) = []"; simp add: callsign_table_age_def age_entry_def)+
  have u: "used ?t = used tbl" using s by (intro ext) (simp add: used_def)
  show "table_ok ?t" using ok s unfolding table_ok_def u by (simp add: callsign_table_age_def)
  show "table_entries ?t = table_entries tbl" unfolding table_entries_def using s by (intro Collect_cong ex_cong1) (metis (no_types))
qed

lemma lookup_at_free: "ce_callsign (tbl ! home n) = [] \<Longrightarrow> table_lookup HASH_22_BITS n tbl = None"
proof -
  assume free: "ce_callsign (tbl ! home n) = []"
  have "lookup_probe s h k i tbl = None" if "ce_callsign (tbl ! i) = []" for s h k i using that by (cases k) simp_all
  then show "table_lookup HASH_22_BITS n tbl = None" using free by (simp add: table_lookup_eq hash_shift_def home_def)
qed

text \<open>
  Two callsigns with the same home, the first heard once and the second in every frame: \<open>S j\<close> is the table after
  the callsigns of frame \<open>j\<close> are saved.
\<close>

definition two_calls :: "string \<Rightarrow> u32 \<Rightarrow> string \<Rightarrow> u32 \<Rightarrow> nat \<Rightarrow> callsign_table" where
  "two_calls c1 n1 c2 n2 j = callsign_table_reset
     [home n1 := \<lparr>ce_callsign = c1, ce_hash = push_bit 24 (ucast (word_of_nat j :: u8)) OR n1\<rparr>,
      Suc (home n1) mod 256 := \<lparr>ce_callsign = c2, ce_hash = n2\<rparr>]"

lemma age_known:
  assumes "c \<noteq> []" "n AND 0x3FFFFF = n" "j \<le> 10"
  shows "age_entry \<lparr>ce_callsign = c, ce_hash = push_bit 24 (ucast (word_of_nat j :: u8)) OR n\<rparr> =
    \<lparr>ce_callsign = c, ce_hash = push_bit 24 (ucast (word_of_nat (Suc j) :: u8)) OR n\<rparr>"
proof -
  have "\<not> (word_of_nat j :: u8) > 10" using assms(3) by (simp add: word_less_nat_alt unsigned_of_nat take_bit_nat_eq_self)
  then show ?thesis using assms(1,2) age_bits [of "word_of_nat j" n] by (simp add: age_entry_def Let_def add.commute)
qed

lemma age_two_calls:
  assumes "c1 \<noteq> []" "c2 \<noteq> []"
  shows "callsign_table_age (two_calls c1 n1 c2 n2 j) = callsign_table_reset
     [home n1 := age_entry \<lparr>ce_callsign = c1, ce_hash = push_bit 24 (ucast (word_of_nat j :: u8)) OR n1\<rparr>,
      Suc (home n1) mod 256 := age_entry \<lparr>ce_callsign = c2, ce_hash = n2\<rparr>]"
proof -
  have "map age_entry callsign_table_reset = callsign_table_reset"
    by (simp add: callsign_table_reset_def age_entry_def empty_entry_def)
  then show ?thesis by (simp add: callsign_table_age_def two_calls_def map_update)
qed

lemma entry_in: "i < 256 \<Longrightarrow> ce_callsign (tbl ! i) \<noteq> [] \<Longrightarrow> (ce_callsign (tbl ! i), hash_of (tbl ! i)) \<in> table_entries tbl"
  unfolding table_entries_def by blast

lemma reset_length [simp]: "length callsign_table_reset = 256"
  by (simp add: callsign_table_reset_def FT8_CALLSIGN_TABLE_SIZE_def)

lemma home_lt [simp]: "home n < 256"
  by (simp add: home_def)

lemma home_next: "Suc (home n) mod 256 \<noteq> home n" "Suc (home n) mod 256 < 256"
proof -
  have "Suc k mod m \<noteq> k" if "k < m" "1 < m" for k m :: nat using that by (cases "Suc k = m") auto
  from this [OF home_lt] show "Suc (home n) mod 256 \<noteq> home n" by simp
qed (rule mod_less_divisor, simp)

lemma save_probe_step:
  assumes "ce_callsign (tbl ! h) \<noteq> []" "ce_callsign (tbl ! h) \<noteq> c"
  shows "save_probe c n (Suc k) h tbl = save_probe c n k (Suc h mod 256) tbl"
  using assms by (simp add: Let_def FT8_CALLSIGN_TABLE_SIZE_def)

lemma table_save_home: "table_save c n tbl = save_probe c n (Suc (Suc 254)) (home n) tbl"
proof -
  have "FT8_CALLSIGN_TABLE_SIZE = Suc (Suc 254)" by (simp add: FT8_CALLSIGN_TABLE_SIZE_def)
  moreover have "table_save c n tbl = save_probe c n FT8_CALLSIGN_TABLE_SIZE (home n) tbl"
    unfolding table_save_def home_def FT8_CALLSIGN_TABLE_SIZE_def Let_def by (rule refl)
  ultimately show ?thesis by (simp only:)
qed

lemma save_second:
  assumes tbl: "length tbl = 256" "ce_callsign (tbl ! home n2) \<noteq> []" "ce_callsign (tbl ! home n2) \<noteq> c2"
    and n2: "storable c2 n2"
    and second: "tbl ! (Suc (home n2) mod 256) = empty_entry \<or>
      (\<exists>a :: u8. tbl ! (Suc (home n2) mod 256) = \<lparr>ce_callsign = c2, ce_hash = push_bit 24 (ucast a) OR n2\<rparr>)"
  shows "table_save c2 n2 tbl = tbl[Suc (home n2) mod 256 := \<lparr>ce_callsign = c2, ce_hash = n2\<rparr>]"
proof -
  have c2: "c2 \<noteq> []" "take 11 c2 = c2" "n2 AND 0x3FFFFF = n2" using n2 storable_hash [OF n2] by (auto simp: storable_def)
  have "table_save c2 n2 tbl = save_probe c2 n2 (Suc (Suc 254)) (home n2) tbl" by (rule table_save_home)
  also have "\<dots> = save_probe c2 n2 (Suc 254) (Suc (home n2) mod 256) tbl" by (rule save_probe_step [OF tbl(2,3)])
  also have "\<dots> = tbl[Suc (home n2) mod 256 := \<lparr>ce_callsign = c2, ce_hash = n2\<rparr>]"
    using second
  proof (elim disjE exE)
    assume "tbl ! (Suc (home n2) mod 256) = empty_entry"
    then show ?thesis using c2 unfolding save_probe.simps by (simp add: Let_def empty_entry_def)
  next
    fix a :: u8 assume "tbl ! (Suc (home n2) mod 256) = \<lparr>ce_callsign = c2, ce_hash = push_bit 24 (ucast a) OR n2\<rparr>"
    then show ?thesis using c2 age_bits(1) [of a n2] unfolding save_probe.simps by (simp add: Let_def)
  qed
  finally show ?thesis .
qed

lemma two_calls_frames:
  assumes c1: "storable c1 n1" and c2: "storable c2 n2" and ne: "c1 \<noteq> c2" and h: "home n1 = home n2"
  shows "j \<le> 11 \<Longrightarrow> ((\<lambda>s. callsign_table_age (table_save c2 n2 s)) ^^ Suc j) (table_save c1 n1 callsign_table_reset) =
    callsign_table_age (two_calls c1 n1 c2 n2 j)"
proof (induction j)
  case 0
  have n: "c1 \<noteq> []" "take 11 c1 = c1" "n1 AND 0x3FFFFF = n1" using c1 storable_hash [OF c1] by (auto simp: storable_def)
  have free: "callsign_table_reset ! i = empty_entry" if "i < 256" for i
    using that by (simp add: callsign_table_reset_def FT8_CALLSIGN_TABLE_SIZE_def)
  have "table_save c1 n1 callsign_table_reset = save_probe c1 n1 (Suc (Suc 254)) (home n1) callsign_table_reset" by (rule table_save_home)
  also have "\<dots> = callsign_table_reset[home n1 := \<lparr>ce_callsign = c1, ce_hash = n1\<rparr>]"
    using free [OF home_lt] n unfolding save_probe.simps by (simp add: Let_def empty_entry_def)
  finally have first: "table_save c1 n1 callsign_table_reset = callsign_table_reset[home n1 := \<lparr>ce_callsign = c1, ce_hash = n1\<rparr>]" .
  have "table_save c2 n2 (callsign_table_reset[home n1 := \<lparr>ce_callsign = c1, ce_hash = n1\<rparr>]) = two_calls c1 n1 c2 n2 0"
    unfolding two_calls_def h
    by (subst save_second) (use n ne c2 home_next [of n2] free [OF home_next(2)] in \<open>simp_all add: h\<close>)
  then show ?case by (simp add: first)
next
  case (Suc j)
  let ?t = "callsign_table_age (two_calls c1 n1 c2 n2 j)"
  have c: "c1 \<noteq> []" "c2 \<noteq> []" "n1 AND 0x3FFFFF = n1" "n2 AND 0x3FFFFF = n2"
    using c1 c2 storable_hash [OF c1] storable_hash [OF c2] by (auto simp: storable_def)
  have aged: "age_entry \<lparr>ce_callsign = c2, ce_hash = n2\<rparr> = \<lparr>ce_callsign = c2, ce_hash = push_bit 24 (ucast (1 :: u8)) OR n2\<rparr>"
    using age_known [OF c(2,4), of 0] by simp
  have t: "?t = callsign_table_reset[home n2 := \<lparr>ce_callsign = c1, ce_hash = push_bit 24 (ucast (word_of_nat (Suc j) :: u8)) OR n1\<rparr>,
      Suc (home n2) mod 256 := \<lparr>ce_callsign = c2, ce_hash = push_bit 24 (ucast (1 :: u8)) OR n2\<rparr>]"
    unfolding age_two_calls [OF c(1,2)] aged h using age_known [OF c(1,3), of j] Suc.prems by simp
  let ?e1 = "\<lparr>ce_callsign = c1, ce_hash = push_bit 24 (ucast (word_of_nat (Suc j) :: u8)) OR n1\<rparr>"
  let ?e2 = "\<lparr>ce_callsign = c2, ce_hash = push_bit 24 (ucast (1 :: u8)) OR n2\<rparr>"
  have nth: "?t ! home n2 = ?e1" "?t ! (Suc (home n2) mod 256) = ?e2" "length ?t = 256"
    unfolding t using home_next [of n2] by simp_all
  have "table_save c2 n2 ?t = ?t[Suc (home n2) mod 256 := \<lparr>ce_callsign = c2, ce_hash = n2\<rparr>]"
    by (rule save_second [OF nth(3) _ _ c2]) (use nth(1) c(1) ne in simp, use nth(1) c(1) ne in simp, use nth(2) in blast)
  also have "\<dots> = two_calls c1 n1 c2 n2 (Suc j)"
    by (subst t) (simp only: two_calls_def h list_update_overwrite)
  finally have save: "table_save c2 n2 ?t = two_calls c1 n1 c2 n2 (Suc j)" .
  then show ?case using Suc by simp
qed


lemma hashes_differ: "nonstd_call ''PJ4/K1ABC''" "nonstd_call ''YW18FIFA''"
    "drop_bit 10 (call_hash22 ''YW18FIFA'') \<noteq> drop_bit 10 (call_hash22 ''PJ4/K1ABC'')"
  by code_simp+


text \<open>
  Aging hides callsigns. Two callsigns share a home, the first is heard once and the second in every frame. After
  twelve frames the first has expired and its place is free; the second is still in the table, heard in the frame just
  ended, and the lookup of its hash finds nothing, because probing stops at the free place.
\<close>

theorem aging_hides_entries:
  assumes "storable c1 n1" and "storable c2 n2" and "c1 \<noteq> c2" and "home n1 = home n2"
  shows "\<exists>tbl. tbl = ((\<lambda>s. callsign_table_age (table_save c2 n2 s)) ^^ 12) (table_save c1 n1 callsign_table_reset) \<and>
    (c2, n2) \<in> table_entries tbl \<and> table_lookup HASH_22_BITS n2 tbl = None"
proof -
  let ?tbl = "((\<lambda>s. callsign_table_age (table_save c2 n2 s)) ^^ 12) (table_save c1 n1 callsign_table_reset)"
  have c: "c1 \<noteq> []" "c2 \<noteq> []" "n1 AND 0x3FFFFF = n1" "n2 AND 0x3FFFFF = n2"
    using assms(1,2) storable_hash [OF assms(1)] storable_hash [OF assms(2)] by (auto simp: storable_def)
  let ?e1 = "\<lparr>ce_callsign = c1, ce_hash = push_bit 24 (ucast (word_of_nat 11 :: u8)) OR n1\<rparr>"
  have eq: "?tbl = callsign_table_reset[home n1 := age_entry ?e1, Suc (home n1) mod 256 := age_entry \<lparr>ce_callsign = c2, ce_hash = n2\<rparr>]"
    using two_calls_frames [OF assms, of 11] age_two_calls [OF c(1,2), of n1 n2 11] by simp
  have "entry_age ?e1 = 11" using age_bits(2) [of 11 n1] c(3) by (simp add: entry_age_def)
  then have "ce_callsign (?tbl ! home n2) = []" using age_entry_old [of ?e1] home_next [of n1] unfolding eq assms(4) [symmetric] by simp
  then have "table_lookup HASH_22_BITS n2 ?tbl = None" by (rule lookup_at_free)
  moreover have "age_entry \<lparr>ce_callsign = c2, ce_hash = n2\<rparr> = \<lparr>ce_callsign = c2, ce_hash = push_bit 24 (ucast (1 :: u8)) OR n2\<rparr>"
    using age_known [OF c(2,4), of 0] by simp
  then have "ce_callsign (?tbl ! (Suc (home n1) mod 256)) = c2" "hash_of (?tbl ! (Suc (home n1) mod 256)) = n2"
    using home_next [of n1] age_bits(1) [of 1 n2] c(4) unfolding eq by (simp_all add: hash_of_def)
  then have "(c2, n2) \<in> table_entries ?tbl" using entry_in [of "Suc (home n1) mod 256" ?tbl] home_next(2) [of n1] c(2) by simp
  ultimately show ?thesis by blast
qed

theorem aging_hides_entries_witness:
  "\<exists>tbl. tbl = ((\<lambda>s. callsign_table_age (table_save ''PJ4/KA1ABC'' 1 s)) ^^ 12) (table_save ''YW18FIFA'' 0 callsign_table_reset) \<and>
    (''PJ4/KA1ABC'', 1) \<in> table_entries tbl \<and> table_lookup HASH_22_BITS 1 tbl = None"
  by (rule aging_hides_entries [of "''YW18FIFA''" 0 "''PJ4/KA1ABC''" 1]) (simp_all add: storable_def home_def)

end
