(* ===== verification/Host.thy ===== *)
theory Host
  imports CText
begin

text \<open>
  What several parts of the program use of the standard library besides strings: \<open>strtoul\<close> of \<open>stdlib.h\<close> and the formats \<open>%llu\<close> and \<open>%d\<close> of \<open>sscanf\<close> on a
  target with 64-bit \<open>unsigned long\<close>.
\<close>

abbreviation ULONG_MAX :: nat where
  "ULONG_MAX \<equiv> 2 ^ 64 - 1"

definition digits_value :: "string \<Rightarrow> nat" where
  "digits_value s = foldl (\<lambda>v c. 10 * v + (code c - 48)) 0 s"

text \<open>
  \<open>strtoul (s, &end, 10)\<close>: the value, whether \<open>errno\<close> becomes \<open>ERANGE\<close>, and the string at \<open>end\<close>. A number
  behind a minus sign is negated in the unsigned type.
\<close>

definition c_strtoul :: "string \<Rightarrow> nat \<times> bool \<times> string" where
  "c_strtoul s =
     (let t = dropWhile c_isspace s;
          neg = (t \<noteq> [] \<and> hd t = CHR ''-'');
          u = (if t \<noteq> [] \<and> (hd t = CHR ''-'' \<or> hd t = CHR ''+'') then tl t else t);
          ds = takeWhile c_isdigit u;
          v = digits_value ds
      in if ds = [] then (0, False, s)
         else if v > ULONG_MAX then (ULONG_MAX, True, dropWhile c_isdigit u)
         else (if neg \<and> v \<noteq> 0 then ULONG_MAX + 1 - v else v, False, dropWhile c_isdigit u))"

text \<open>A number as \<open>sscanf\<close> reads it with \<open>%llu\<close>, or \<open>%d\<close> (through \<open>strtol\<close>, the low half of it): the value and the rest.\<close>

definition scan_llu :: "string \<Rightarrow> (nat \<times> string) option" where
  "scan_llu s = (case c_strtoul s of (v, overflow, rest) \<Rightarrow> if length rest = length s then None else Some (v, rest))"

definition scan_d :: "string \<Rightarrow> (int \<times> string) option" where
  "scan_d s =
     (let t = dropWhile c_isspace s;
          neg = (t \<noteq> [] \<and> hd t = CHR ''-'');
          u = (if t \<noteq> [] \<and> (hd t = CHR ''-'' \<or> hd t = CHR ''+'') then tl t else t);
          ds = takeWhile c_isdigit u;
          v = (if neg then max (- (2 ^ 63)) (- int (digits_value ds)) else min (2 ^ 63 - 1) (int (digits_value ds)))
      in if ds = [] then None else Some (sint (word_of_int v :: 32 word), dropWhile c_isdigit u))"

end
