(* ===== verification/Reporter.thy ===== *)
theory Reporter
  imports Fifo Host
begin

text \<open>
  \<open>reporter.c\<close>: the queue of spots for WSPRnet and the thread that uploads them. A spot is formatted as a URL,
  waits in a ring of 4096 items and is removed when the server has accepted or rejected it; a failed upload
  is repeated later. Floating-point numbers are of a type of their own, and printing them is a parameter. The transport
  answers as it likes; its answers are part of the steps.
\<close>

section \<open>Formatting a spot\<close>

definition hexadecimal :: string where
  "hexadecimal = ''0123456789ABCDEF''"

fun url_encode_loop :: "nat \<Rightarrow> string \<Rightarrow> string \<Rightarrow> string option" where
  "url_encode_loop capacity [] dest = (if length dest \<ge> capacity then None else Some dest)"
| "url_encode_loop capacity (c # source) dest =
     (if c_isalnum c \<or> c = CHR ''-'' \<or> c = CHR ''_'' \<or> c = CHR ''.'' \<or> c = CHR ''~'' then
        (if length dest + 1 \<ge> capacity then None else url_encode_loop capacity source (dest @ [c]))
      else if length dest + 3 \<ge> capacity then None
      else url_encode_loop capacity source
             (dest @ [CHR ''%'', hexadecimal ! (code c div 16), hexadecimal ! (code c mod 16)]))"

definition url_encode :: "nat \<Rightarrow> string \<Rightarrow> string option" where
  "url_encode capacity source = url_encode_loop capacity source []"

record 'f wspr_report =
  receiver_call :: string
  receiver_grid :: string
  date :: string
  time :: string
  transmitter_call :: string
  transmitter_grid :: string
  power_dbm :: string
  receiver_frequency_mhz :: 'f
  transmitter_frequency_mhz :: 'f
  snr :: 'f
  dt :: 'f
  drift :: 'f

text \<open>\<open>fmt n x\<close> is what \<open>printf\<close> prints for \<open>x\<close> with \<open>n\<close> digits behind the point.\<close>

definition wspr_report_format_url ::
  "(nat \<Rightarrow> 'f \<Rightarrow> string) \<Rightarrow> nat \<Rightarrow> string option \<Rightarrow> string option \<Rightarrow> 'f wspr_report option \<Rightarrow> string option" where
  "wspr_report_format_url fmt url_size endpoint version report =
     (case (endpoint, version, report) of
        (Some endpoint, Some version, Some r) \<Rightarrow>
          (case (url_encode 37 (receiver_call r), url_encode 19 (receiver_grid r), url_encode 37 (transmitter_call r),
                 url_encode 19 (transmitter_grid r), url_encode 7 (power_dbm r)) of
             (Some rcall, Some rgrid, Some tcall, Some tgrid, Some pwr) \<Rightarrow>
               (let url = endpoint @ ''?function=wspr&rcall='' @ rcall @ ''&rgrid='' @ rgrid @
                          ''&rqrg='' @ fmt 6 (receiver_frequency_mhz r) @
                          ''&date='' @ date r @ ''&time='' @ time r @ ''&sig='' @ fmt 0 (snr r) @
                          ''&dt='' @ fmt 1 (dt r) @ ''&drift='' @ fmt 0 (drift r) @
                          ''&tqrg='' @ fmt 6 (transmitter_frequency_mhz r) @ ''&tcall='' @ tcall @
                          ''&tgrid='' @ tgrid @ ''&dbm='' @ pwr @ ''&version='' @ version @ ''&mode=2''
                in if length url \<ge> url_size then None else Some url)
           | _ \<Rightarrow> None)
      | _ \<Rightarrow> None)"

section \<open>The transport's answers\<close>

datatype upload_result = UPLOAD_OK | UPLOAD_RETRY | UPLOAD_REJECTED

text \<open>The answer for the code of \<open>curl_easy_perform\<close> (is it \<open>CURLE_OK\<close>) and the HTTP status.\<close>

definition upload_status :: "bool \<Rightarrow> int \<Rightarrow> upload_result" where
  "upload_status performed http_status =
     (if \<not> performed then UPLOAD_RETRY
      else if http_status \<ge> 200 \<and> http_status < 300 then UPLOAD_OK
      else if http_status \<ge> 400 \<and> http_status < 500 \<and>
          http_status \<noteq> 408 \<and> http_status \<noteq> 425 \<and> http_status \<noteq> 429 then UPLOAD_REJECTED
      else UPLOAD_RETRY)"

definition MAX_RETRY_DELAY_SECONDS :: nat where "MAX_RETRY_DELAY_SECONDS = 900"

text \<open>The loop with the number of attempts that \<open>index\<close> has not reached.\<close>

fun delay_loop :: "nat \<Rightarrow> nat \<Rightarrow> nat" where
  "delay_loop 0 delay = delay"
| "delay_loop (Suc left) delay =
     (if delay < MAX_RETRY_DELAY_SECONDS then
        (let delay = delay * 2
         in delay_loop left (if delay > MAX_RETRY_DELAY_SECONDS then MAX_RETRY_DELAY_SECONDS else delay))
      else delay)"

text \<open>\<open>configured\<close> is the environment variable, if it is set.\<close>

definition base_delay :: "string option \<Rightarrow> nat" where
  "base_delay configured =
     (let configured_delay = (case configured of None \<Rightarrow> 0 | Some s \<Rightarrow> fst (c_strtoul s))
      in if configured_delay \<ge> 1 \<and> configured_delay \<le> 60 then configured_delay else 5)"

definition retry_delay :: "string option \<Rightarrow> u32 \<Rightarrow> nat" where
  "retry_delay configured attempts = delay_loop (unat attempts - 1) (base_delay configured)"

section \<open>The queue\<close>

record queue_item =
  url :: string
  sequence :: u64
  attempts :: u32
  retry_at :: int

record wspr_reporter =
  queue :: "queue_item list"
  head :: nat
  count :: nat
  capacity :: nat
  next_sequence :: u64
  stopping :: bool
  started :: bool
  endpoint :: string
  version :: string

definition WSPR_REPORT_URL_SIZE :: nat where "WSPR_REPORT_URL_SIZE = 768"
definition WSPR_REPORT_QUEUE_CAPACITY :: nat where "WSPR_REPORT_QUEUE_CAPACITY = 4096"

definition no_item :: queue_item where
  "no_item = \<lparr>url = [], sequence = 0, attempts = 0, retry_at = 0\<rparr>"

definition DEFAULT_WSPRNET_ENDPOINT :: string where
  "DEFAULT_WSPRNET_ENDPOINT = ''https://wsprnet.org/post''"

text \<open>
  \<open>platform_ok\<close>: the allocation, the initialisation of curl, of the mutex and the condition and the creation of the thread
  succeed.
\<close>

definition wspr_reporter_start :: "bool \<Rightarrow> string option \<Rightarrow> string \<Rightarrow> wspr_reporter option" where
  "wspr_reporter_start platform_ok configured ver =
     (let ep = (case configured of None \<Rightarrow> DEFAULT_WSPRNET_ENDPOINT | Some e \<Rightarrow> if e = [] then DEFAULT_WSPRNET_ENDPOINT else e)
      in if \<not> platform_ok \<or> length ep \<ge> 256 \<or> length ver \<ge> 32 then None
         else Some \<lparr>queue = replicate WSPR_REPORT_QUEUE_CAPACITY no_item, head = 0, count = 0,
           capacity = WSPR_REPORT_QUEUE_CAPACITY, next_sequence = 0, stopping = False, started = True,
           endpoint = ep, version = ver\<rparr>)"

definition wspr_reporter_enqueue ::
  "(nat \<Rightarrow> 'f \<Rightarrow> string) \<Rightarrow> 'f wspr_report option \<Rightarrow> wspr_reporter \<Rightarrow> bool \<times> wspr_reporter" where
  "wspr_reporter_enqueue fmt report r =
     (if report = None \<or> \<not> started r then (False, r)
      else case wspr_report_format_url fmt WSPR_REPORT_URL_SIZE (Some (endpoint r)) (Some (version r)) report of
        None \<Rightarrow> (False, r)
      | Some text \<Rightarrow>
          if count r = capacity r \<or> stopping r then (False, r)
          else
            let seq = next_sequence r + 1;
                item = \<lparr>url = text, sequence = seq, attempts = 0, retry_at = 0\<rparr>;
                tail = (head r + count r) mod capacity r
            in (True, r\<lparr>next_sequence := seq, queue := (queue r)[tail := item], count := count r + 1\<rparr>))"

definition wspr_reporter_pending :: "wspr_reporter \<Rightarrow> nat" where
  "wspr_reporter_pending r = (if started r then count r else 0)"

definition remove_head :: "wspr_reporter \<Rightarrow> wspr_reporter" where
  "remove_head r = r\<lparr>head := (head r + 1) mod capacity r, count := count r - 1\<rparr>"

section \<open>The uploading thread\<close>

text \<open>What the thread does next at the top of its loop, with the mutex held.\<close>

datatype upload_action = Leave | Sleep | Sleep_until int | Send queue_item

definition uploader_top :: "int \<Rightarrow> wspr_reporter \<Rightarrow> upload_action" where
  "uploader_top now r =
     (if stopping r then Leave
      else if count r = 0 then Sleep
      else if retry_at (queue r ! head r) > now then Sleep_until (retry_at (queue r ! head r))
      else Send (queue r ! head r))"

text \<open>What it does with the answer for the item it sent, with the mutex held again.\<close>

definition uploader_answer :: "string option \<Rightarrow> queue_item \<Rightarrow> upload_result \<Rightarrow> int \<Rightarrow> wspr_reporter \<Rightarrow> wspr_reporter" where
  "uploader_answer configured item result now r =
     (if count r = 0 \<or> sequence (queue r ! head r) \<noteq> sequence item then r
      else case result of
        UPLOAD_OK \<Rightarrow> remove_head r
      | UPLOAD_REJECTED \<Rightarrow> remove_head r
      | UPLOAD_RETRY \<Rightarrow>
          let it = queue r ! head r;
              n = attempts it + 1
          in r\<lparr>queue := (queue r)[head r := it\<lparr>attempts := n, retry_at := now + int (retry_delay configured n)\<rparr>]\<rparr>)"

definition wspr_reporter_stop :: "wspr_reporter \<Rightarrow> wspr_reporter" where
  "wspr_reporter_stop r = (if started r then r\<lparr>stopping := True\<rparr> else r)"

text \<open>
  The threads take turns at the mutex: one thread calls \<open>wspr_reporter_enqueue\<close> and \<open>wspr_reporter_stop\<close>, the other
  is at the top of its loop, waits for the transport, or has left.
\<close>

datatype uploader = Top | Waiting queue_item | Left

datatype 'f reporter_event =
    Enqueue "'f wspr_report" bool
  | Stop
  | Upload queue_item
  | Answer queue_item upload_result int
  | Exit

inductive reporter_step :: "(nat \<Rightarrow> 'f \<Rightarrow> string) \<Rightarrow> string option \<Rightarrow> wspr_reporter \<times> uploader \<Rightarrow> 'f reporter_event \<Rightarrow>
    wspr_reporter \<times> uploader \<Rightarrow> bool" for fmt configured where
  enqueue: "wspr_reporter_enqueue fmt (Some report) r = (ok, r') \<Longrightarrow>
    reporter_step fmt configured (r, u) (Enqueue report ok) (r', u)"
| stop: "reporter_step fmt configured (r, u) Stop (wspr_reporter_stop r, u)"
| upload: "uploader_top now r = Send item \<Longrightarrow> reporter_step fmt configured (r, Top) (Upload item) (r, Waiting item)"
| answer: "reporter_step fmt configured (r, Waiting item) (Answer item result now) (uploader_answer configured item result now r, Top)"
| exit: "uploader_top now r = Leave \<Longrightarrow> reporter_step fmt configured (r, Top) Exit (r, Left)"

inductive reporter_run :: "(nat \<Rightarrow> 'f \<Rightarrow> string) \<Rightarrow> string option \<Rightarrow> wspr_reporter \<times> uploader \<Rightarrow> 'f reporter_event list \<Rightarrow>
    wspr_reporter \<times> uploader \<Rightarrow> bool" for fmt configured where
  none: "reporter_run fmt configured s [] s"
| more: "reporter_run fmt configured s es s' \<Longrightarrow> reporter_step fmt configured s' e s'' \<Longrightarrow> reporter_run fmt configured s (es @ [e]) s''"

section \<open>The queue is a bounded first-in first-out queue\<close>

definition rep_inv :: "wspr_reporter \<Rightarrow> bool" where
  "rep_inv r \<longleftrightarrow> 0 < capacity r \<and> length (queue r) = capacity r \<and> head r < capacity r \<and> count r \<le> capacity r"

definition spot_at :: "wspr_reporter \<Rightarrow> nat \<Rightarrow> string \<times> u64" where
  "spot_at r i = (url (queue r ! i), sequence (queue r ! i))"

definition spots :: "wspr_reporter \<Rightarrow> (string \<times> u64) list" where
  "spots r = map (spot_at r) (ring_idx (capacity r) (head r) (count r))"

definition enqueue_report :: "(nat \<Rightarrow> 'f \<Rightarrow> string) \<Rightarrow> 'f wspr_report \<Rightarrow> wspr_reporter \<Rightarrow> bool \<times> wspr_reporter" where
  "enqueue_report fmt report = wspr_reporter_enqueue fmt (Some report)"

definition take_head :: "wspr_reporter \<Rightarrow> bool \<times> wspr_reporter" where
  "take_head r = (if count r = 0 then (False, r) else (True, remove_head r))"

definition spot_url :: "(nat \<Rightarrow> 'f \<Rightarrow> string) \<Rightarrow> wspr_reporter \<Rightarrow> 'f wspr_report \<Rightarrow> string" where
  "spot_url fmt r report = the (wspr_report_format_url fmt WSPR_REPORT_URL_SIZE (Some (endpoint r)) (Some (version r)) (Some report))"

definition stamped_spot :: "(nat \<Rightarrow> 'f \<Rightarrow> string) \<Rightarrow> wspr_reporter \<Rightarrow> 'f wspr_report \<Rightarrow> string \<times> u64" where
  "stamped_spot fmt r report = (spot_url fmt r report, next_sequence r + 1)"

lemma enqueue_False: "enqueue_report fmt report r = (False, r') \<Longrightarrow> r' = r"
  by (auto simp: enqueue_report_def wspr_reporter_enqueue_def Let_def split: if_splits option.splits)

lemma enqueue_True:
  assumes "enqueue_report fmt report r = (True, r')"
  shows "r' = r\<lparr>next_sequence := next_sequence r + 1,
      queue := (queue r)[(head r + count r) mod capacity r :=
        \<lparr>url = spot_url fmt r report, sequence = next_sequence r + 1, attempts = 0, retry_at = 0\<rparr>], count := count r + 1\<rparr>"
    and "started r" "\<not> stopping r" "count r \<noteq> capacity r"
  using assms by (auto simp: enqueue_report_def wspr_reporter_enqueue_def spot_url_def Let_def split: if_splits option.splits)

lemma enqueue_spots:
  assumes inv: "rep_inv r" and e: "enqueue_report fmt report r = (True, r')"
  shows "rep_inv r'" "spots r' = spots r @ [stamped_spot fmt r report]"
    "\<And>i. i < count r \<Longrightarrow> queue r' ! ((head r + i) mod capacity r) = queue r ! ((head r + i) mod capacity r)"
proof -
  note eq = enqueue_True [OF e]
  have c: "count r < capacity r" using inv eq(4) by (simp add: rep_inv_def)
  show "rep_inv r'" using inv c by (simp add: rep_inv_def eq(1))
  have "(head r + count r) mod capacity r < length (queue r)" using inv by (simp add: rep_inv_def)
  then have last: "spot_at r' ((head r + count r) mod capacity r) = stamped_spot fmt r report"
    by (simp add: eq(1) spot_at_def stamped_spot_def)
  have other: "spot_at r' i = spot_at r i" if "i \<noteq> (head r + count r) mod capacity r" for i
    using that by (simp add: eq(1) spot_at_def)
  have "map (spot_at r') (ring_idx (capacity r) (head r) (count r)) = map (spot_at r) (ring_idx (capacity r) (head r) (count r))"
    by (rule map_ring_idx_update [OF c]) (rule other)
  then show "spots r' = spots r @ [stamped_spot fmt r report]"
    using last by (simp add: spots_def eq(1) ring_idx_Suc)
  show "queue r' ! ((head r + i) mod capacity r) = queue r ! ((head r + i) mod capacity r)" if "i < count r" for i
    using ring_shift_neq [OF that c, of "head r"] by (simp add: eq(1))
qed

lemma take_head_spots:
  assumes inv: "rep_inv r" and "count r \<noteq> 0"
  shows "rep_inv (remove_head r)" "spots r = spot_at r (head r) # spots (remove_head r)"
proof -
  show "rep_inv (remove_head r)" using inv by (auto simp: rep_inv_def remove_head_def)
  have "spot_at (remove_head r) = spot_at r" by (simp add: fun_eq_iff spot_at_def remove_head_def)
  then show "spots r = spot_at r (head r) # spots (remove_head r)"
    using assms by (simp add: spots_def ring_idx_Cons remove_head_def rep_inv_def)
qed

interpretation rep: bounded_fifo rep_inv spots "enqueue_report fmt" take_head "stamped_spot fmt" capacity
  for fmt :: "nat \<Rightarrow> 'f \<Rightarrow> string"
proof unfold_locales
  fix r r' :: wspr_reporter and b and report :: "'f wspr_report"
  show "rep_inv r'" if "rep_inv r" "enqueue_report fmt report r = (b, r')"
    using that by (cases b) (auto dest: enqueue_False intro: enqueue_spots(1))
  show "spots r' = spots r @ [stamped_spot fmt r report]" if "rep_inv r" "enqueue_report fmt report r = (True, r')"
    using that by (rule enqueue_spots(2))
  show "spots r' = spots r" if "rep_inv r" "enqueue_report fmt report r = (False, r')"
    using that by (auto dest: enqueue_False)
  show "capacity r' = capacity r" if "enqueue_report fmt report r = (b, r')"
    using that by (cases b) (auto dest: enqueue_False enqueue_True(1))
  show "rep_inv r'" if "rep_inv r" "take_head r = (b, r')"
    using that by (auto simp: take_head_def intro: take_head_spots split: if_splits)
  show "spots r = hd (spots r) # spots r'" if "rep_inv r" "take_head r = (True, r')"
    using that take_head_spots [of r] by (auto simp: take_head_def split: if_splits)
  show "spots r = [] \<and> r' = r" if "rep_inv r" "take_head r = (False, r')"
    using that by (auto simp: take_head_def spots_def split: if_splits)
  show "capacity r' = capacity r" if "take_head r = (b, r')"
    using that by (auto simp: take_head_def remove_head_def split: if_splits)
  show "length (spots r) \<le> capacity r" if "rep_inv r" using that by (simp add: spots_def rep_inv_def)
qed

section \<open>What a run delivers\<close>

fun accepted :: "(nat \<Rightarrow> 'f \<Rightarrow> string) \<Rightarrow> wspr_reporter \<Rightarrow> 'f reporter_event list \<Rightarrow> string list" where
  "accepted fmt r [] = []"
| "accepted fmt r (e # es) = (case e of Enqueue report True \<Rightarrow> spot_url fmt r report # accepted fmt r es | _ \<Rightarrow> accepted fmt r es)"

fun settled :: "'f reporter_event list \<Rightarrow> string list" where
  "settled [] = []"
| "settled (e # es) = (case e of Answer item result now \<Rightarrow>
     (if result = UPLOAD_RETRY then settled es else url item # settled es) | _ \<Rightarrow> settled es)"

lemma accepted_append: "accepted fmt r (es @ es') = accepted fmt r es @ accepted fmt r es'"
  by (induction es) (auto split: reporter_event.splits bool.splits)

lemma settled_append: "settled (es @ es') = settled es @ settled es'"
  by (induction es) (auto split: reporter_event.splits)

text \<open>The item the transport works on is still the one at the head.\<close>

definition in_flight :: "wspr_reporter \<Rightarrow> uploader \<Rightarrow> bool" where
  "in_flight r u \<longleftrightarrow> (case u of Waiting item \<Rightarrow> count r \<noteq> 0 \<and> spot_at r (head r) = (url item, sequence item) | _ \<Rightarrow> True)"

lemma answer_spots:
  assumes inv: "rep_inv r" and f: "in_flight r (Waiting item)"
  shows "rep_inv (uploader_answer configured item result now r)"
    "map fst (spots r) = (if result = UPLOAD_RETRY then [] else [url item]) @ map fst (spots (uploader_answer configured item result now r))"
    "endpoint (uploader_answer configured item result now r) = endpoint r"
    "version (uploader_answer configured item result now r) = version r"
    "capacity (uploader_answer configured item result now r) = capacity r"
proof -
  have c: "count r \<noteq> 0" and hd: "spot_at r (head r) = (url item, sequence item)" using f by (simp_all add: in_flight_def)
  then have seq: "sequence (queue r ! head r) = sequence item" by (simp add: spot_at_def)
  note th = take_head_spots [OF inv c]
  have h: "head r < length (queue r)" using inv by (simp add: rep_inv_def)
  show "rep_inv (uploader_answer configured item result now r)"
    using inv th(1) by (auto simp: uploader_answer_def Let_def rep_inv_def split: upload_result.splits)
  show "endpoint (uploader_answer configured item result now r) = endpoint r"
    "version (uploader_answer configured item result now r) = version r"
    "capacity (uploader_answer configured item result now r) = capacity r"
    by (auto simp: uploader_answer_def Let_def remove_head_def split: upload_result.splits)
  show "map fst (spots r) = (if result = UPLOAD_RETRY then [] else [url item]) @ map fst (spots (uploader_answer configured item result now r))"
  proof (cases "result = UPLOAD_RETRY")
    case True
    have "spot_at (uploader_answer configured item UPLOAD_RETRY now r) i = spot_at r i" if "i < length (queue r)" for i
      using that h by (cases "i = head r") (simp_all add: uploader_answer_def Let_def spot_at_def)
    moreover have "\<forall>i \<in> set (ring_idx (capacity r) (head r) (count r)). i < length (queue r)"
      using inv by (auto simp: rep_inv_def dest: ring_idx_less)
    moreover have "capacity (uploader_answer configured item UPLOAD_RETRY now r) = capacity r"
      "head (uploader_answer configured item UPLOAD_RETRY now r) = head r" "count (uploader_answer configured item UPLOAD_RETRY now r) = count r"
      by (simp_all add: uploader_answer_def Let_def)
    ultimately show ?thesis using True by (simp add: spots_def)
  next
    case False
    then have "uploader_answer configured item result now r = remove_head r"
      using c seq by (cases result) (simp_all add: uploader_answer_def)
    then show ?thesis using False th(2) hd by simp
  qed
qed

lemma run_invariant:
  assumes "reporter_run fmt configured (r0, Top) es s" and "rep_inv r0" and "count r0 = 0"
  shows "rep_inv (fst s) \<and> in_flight (fst s) (snd s) \<and> endpoint (fst s) = endpoint r0 \<and> version (fst s) = version r0 \<and> capacity (fst s) = capacity r0 \<and>
    accepted fmt r0 es = settled es @ map fst (spots (fst s))"
  using assms
proof (induction "(r0, Top)" es s rule: reporter_run.induct)
  case none
  then show ?case by (simp add: in_flight_def spots_def)
next
  case (more es s' e s'')
  obtain r u where s': "s' = (r, u)" by (cases s')
  have IH: "rep_inv r" "in_flight r u" "endpoint r = endpoint r0" "version r = version r0" "capacity r = capacity r0"
    "accepted fmt r0 es = settled es @ map fst (spots r)"
    using more.hyps(2) more.prems by (simp_all add: s')
  from more.hyps(3) show ?case
    unfolding s'
  proof (cases rule: reporter_step.cases)
    case (enqueue report ok r')
    then have e: "enqueue_report fmt report r = (ok, r')" by (simp add: enqueue_report_def)
    show ?thesis
    proof (cases ok)
      case True
      then have e': "enqueue_report fmt report r = (True, r')" using e by simp
      note sp = enqueue_spots [OF IH(1) e'] and fields = enqueue_True(1) [OF e']
      have "in_flight r' u"
        using IH(2) sp(3) [of 0] IH(1) by (auto simp: in_flight_def spot_at_def fields rep_inv_def split: uploader.splits)
      moreover have "spot_url fmt r0 report = spot_url fmt r report" by (simp add: spot_url_def IH(3,4))
      moreover have "endpoint r' = endpoint r" "version r' = version r" "capacity r' = capacity r" by (simp_all add: fields)
      ultimately show ?thesis using enqueue True sp(1,2) IH by (simp add: stamped_spot_def accepted_append settled_append)
    next
      case False
      then show ?thesis using e enqueue IH by (auto dest: enqueue_False simp: accepted_append settled_append)
    qed
  next
    case stop
    have "spots (wspr_reporter_stop r) = spots r" by (simp add: wspr_reporter_stop_def spots_def spot_at_def [abs_def])
    then show ?thesis
      using stop IH by (auto simp: wspr_reporter_stop_def rep_inv_def in_flight_def spot_at_def accepted_append settled_append split: uploader.splits)
  next
    case (upload now item)
    then have "in_flight r (Waiting item)"
      by (auto simp: in_flight_def uploader_top_def spot_at_def split: if_splits)
    then show ?thesis using upload IH by (simp add: accepted_append settled_append)
  next
    case (answer item result now)
    then show ?thesis
      using answer_spots [where item = item and configured = configured and result = result and now = now, OF IH(1)] IH
      by (cases "result = UPLOAD_RETRY") (simp_all add: in_flight_def [of _ Top] accepted_append settled_append)
  next
    case exit
    then show ?thesis using IH by (simp add: in_flight_def accepted_append settled_append)
  qed
qed

lemma start_inv:
  assumes "wspr_reporter_start ok configured ver = Some r"
  shows "rep_inv r" "count r = 0" "started r" "\<not> stopping r" "length (endpoint r) < 256" "length (version r) < 32" "capacity r = 4096"
  using assms
  by (auto simp: wspr_reporter_start_def rep_inv_def WSPR_REPORT_QUEUE_CAPACITY_def DEFAULT_WSPRNET_ENDPOINT_def Let_def split: if_splits option.splits)

lemma run_upload:
  assumes "reporter_run fmt configured (r0, Top) es s"
  shows "es = xs @ Upload item # ys \<Longrightarrow> \<exists>r. reporter_run fmt configured (r0, Top) xs (r, Top) \<and> count r \<noteq> 0 \<and> item = queue r ! head r"
  using assms
proof (induction "(r0, Top)" es s arbitrary: ys rule: reporter_run.induct)
  case (more es s' e s'')
  show ?case
  proof (cases ys rule: rev_cases)
    case Nil
    then have "es = xs" "e = Upload item" using more.prems by simp_all
    then obtain r now where "s' = (r, Top)" "uploader_top now r = Send item" using more.hyps(3) by (auto elim: reporter_step.cases)
    then show ?thesis using more.hyps(1) \<open>es = xs\<close> by (auto simp: uploader_top_def split: if_splits)
  next
    case (snoc ys' y)
    then show ?thesis using more.prems more.hyps(2) [of ys'] by simp
  qed
qed simp

section \<open>Printing and reading percent codes\<close>

definition hex_value :: "char \<Rightarrow> nat" where
  "hex_value c = (if c_isdigit c then code c - 48 else code c - 55)"

fun url_decode :: "string \<Rightarrow> string" where
  "url_decode [] = []"
| "url_decode (c # s) =
     (if c = CHR ''%'' then
        (case s of a # b # s' \<Rightarrow> char_of (16 * hex_value a + hex_value b) # url_decode (drop 2 s) | _ \<Rightarrow> [])
      else c # url_decode s)"

definition url_char :: "char \<Rightarrow> bool" where
  "url_char c \<longleftrightarrow> c_isalnum c \<or> c \<in> set ''-_.~%''"

lemma hex_digits: "n < 16 \<Longrightarrow> hex_value (hexadecimal ! n) = n" "n < 16 \<Longrightarrow> url_char (hexadecimal ! n)"
proof -
  have "list_all (\<lambda>n. hex_value (hexadecimal ! n) = n \<and> url_char (hexadecimal ! n)) [0..<16]" by code_simp
  then show "n < 16 \<Longrightarrow> hex_value (hexadecimal ! n) = n" "n < 16 \<Longrightarrow> url_char (hexadecimal ! n)" by (simp_all add: list_all_iff)
qed

fun encoded :: "string \<Rightarrow> string" where
  "encoded [] = []"
| "encoded (c # s) =
     (if c_isalnum c \<or> c = CHR ''-'' \<or> c = CHR ''_'' \<or> c = CHR ''.'' \<or> c = CHR ''~'' then [c]
      else [CHR ''%'', hexadecimal ! (code c div 16), hexadecimal ! (code c mod 16)]) @ encoded s"

lemma url_encode_loop_eq:
  "url_encode_loop n s dest = (if length dest + length (encoded s) < n then Some (dest @ encoded s) else None)"
  by (induction s arbitrary: dest) auto

lemma url_encode_eq: "url_encode n s = (if length (encoded s) < n then Some (encoded s) else None)"
  by (simp add: url_encode_def url_encode_loop_eq)

lemma encoded_length: "length (encoded s) \<le> 3 * length s"
  by (induction s) auto

lemma percent_not_alnum: "\<not> c_isalnum (CHR ''%'')" by code_simp

lemma percent_url: "url_char (CHR ''%'')" by (simp add: url_char_def)

lemma code_less: "code c < (256 :: nat)"
  by (cases c) (simp add: of_char_Char horner_sum_simps)

lemma encoded_decoded: "url_decode (encoded s) = s" "list_all url_char (encoded s)"
proof (induction s)
  case (Cons c s)
  have c: "code c div 16 < 16" "code c mod 16 < 16" using code_less [of c] by (simp_all add: less_mult_imp_div_less)
  define a b where "a = hexadecimal ! (code c div 16)" and "b = hexadecimal ! (code c mod 16)"
  have ab: "url_char a" "url_char b" using hex_digits(2) [OF c(1)] hex_digits(2) [OF c(2)] by (simp_all only: a_def b_def)
  have "16 * hex_value a + hex_value b = code c" using hex_digits(1) [OF c(1)] hex_digits(1) [OF c(2)] by (simp add: a_def b_def)
  then have v: "char_of (16 * hex_value a + hex_value b) = c" by simp
  define plain where "plain \<longleftrightarrow> c_isalnum c \<or> c = CHR ''-'' \<or> c = CHR ''_'' \<or> c = CHR ''.'' \<or> c = CHR ''~''"
  have eq: "encoded (c # s) = (if plain then [c] else [CHR ''%'', a, b]) @ encoded s" by (simp add: plain_def a_def b_def)
  have p: "url_char c" "c \<noteq> CHR ''%''" if plain using that percent_not_alnum by (auto simp: plain_def url_char_def)
  show "url_decode (encoded (c # s)) = c # s" using Cons(1) p(2) v unfolding eq by (cases plain) simp_all
  show "list_all url_char (encoded (c # s))" using Cons(2) p(1) ab unfolding eq by (cases plain) (simp_all add: percent_url)
qed simp_all

section \<open>Delays\<close>

lemma delay_loop_eq: "0 < d \<Longrightarrow> d \<le> 900 \<Longrightarrow> delay_loop n d = min 900 (d * 2 ^ n)"
proof (induction n arbitrary: d)
  case (Suc n)
  show ?case
  proof (cases "d < 900")
    case True
    show ?thesis
    proof (cases "d * 2 > 900")
      case True
      have "d * 2 * 1 \<le> d * 2 * 2 ^ n" by (rule mult_le_mono2) simp
      then have "d * 2 ^ Suc n > 900" using True by (simp only: power_Suc mult.assoc)
      moreover have "delay_loop n 900 = 900" by (cases n) (simp_all add: MAX_RETRY_DELAY_SECONDS_def)
      ultimately show ?thesis using True \<open>d < 900\<close> by (simp add: MAX_RETRY_DELAY_SECONDS_def min_absorb1 del: power_Suc)
    next
      case False
      then show ?thesis using Suc.IH [of "d * 2"] Suc.prems True by (simp add: MAX_RETRY_DELAY_SECONDS_def mult.assoc)
    qed
  next
    case False
    then have "d = 900" using Suc.prems by simp
    moreover have "900 * 1 \<le> (900 :: nat) * 2 ^ Suc n" by (rule mult_le_mono2) simp
    ultimately show ?thesis by (simp add: MAX_RETRY_DELAY_SECONDS_def)
  qed
qed simp

lemma base_delay_range: "0 < base_delay configured" "base_delay configured \<le> 60"
  by (auto simp: base_delay_def Let_def)

lemma retry_delay_eq: "retry_delay configured n = min 900 (base_delay configured * 2 ^ (unat n - 1))"
  using base_delay_range [of configured] by (simp add: retry_delay_def delay_loop_eq)

lemma spot_fits:
  assumes "length e < 256" and "length v < 32" and "length (receiver_call report) \<le> 12" and "length (receiver_grid report) \<le> 6"
    and "length (transmitter_call report) \<le> 12" and "length (transmitter_grid report) \<le> 6" and "length (power_dbm report) \<le> 2"
    and "length (date report) \<le> 6" and "length (time report) \<le> 4" and "\<And>n x. length (fmt n x) \<le> 50"
  shows "\<exists>u rcall rgrid tcall tgrid pwr. wspr_report_format_url fmt WSPR_REPORT_URL_SIZE (Some e) (Some v) (Some report) = Some u \<and> length u < 768 \<and>
    u = e @ ''?function=wspr&rcall='' @ rcall @ ''&rgrid='' @ rgrid @ ''&rqrg='' @ fmt 6 (receiver_frequency_mhz report) @
      ''&date='' @ date report @ ''&time='' @ time report @ ''&sig='' @ fmt 0 (snr report) @ ''&dt='' @ fmt 1 (dt report) @
      ''&drift='' @ fmt 0 (drift report) @ ''&tqrg='' @ fmt 6 (transmitter_frequency_mhz report) @ ''&tcall='' @ tcall @
      ''&tgrid='' @ tgrid @ ''&dbm='' @ pwr @ ''&version='' @ v @ ''&mode=2'' \<and>
    list_all (list_all url_char) [rcall, rgrid, tcall, tgrid, pwr] \<and>
    map url_decode [rcall, rgrid, tcall, tgrid, pwr] =
      [receiver_call report, receiver_grid report, transmitter_call report, transmitter_grid report, power_dbm report]"
proof -
  have enc: "url_encode (3 * n + 1) s = Some (encoded s)" "length (encoded s) \<le> 3 * n" if "length s \<le> n" for s n
    using that encoded_length [of s] by (simp_all add: url_encode_eq)
  note fields = enc [OF assms(3)] enc [OF assms(4)] enc [OF assms(5)] enc [OF assms(6)] enc [OF assms(7)]
  note printed = assms(10) [of 6 "receiver_frequency_mhz report"] assms(10) [of 6 "transmitter_frequency_mhz report"]
    assms(10) [of 0 "snr report"] assms(10) [of 1 "dt report"] assms(10) [of 0 "drift report"]
  define rcall rgrid tcall tgrid pwr where "rcall = encoded (receiver_call report)" and "rgrid = encoded (receiver_grid report)"
    and "tcall = encoded (transmitter_call report)" and "tgrid = encoded (transmitter_grid report)" and "pwr = encoded (power_dbm report)"
  note defs = this
  note fields = fields [folded defs]
  define u where "u = e @ ''?function=wspr&rcall='' @ rcall @ ''&rgrid='' @ rgrid @ ''&rqrg='' @ fmt 6 (receiver_frequency_mhz report) @
      ''&date='' @ date report @ ''&time='' @ time report @ ''&sig='' @ fmt 0 (snr report) @ ''&dt='' @ fmt 1 (dt report) @
      ''&drift='' @ fmt 0 (drift report) @ ''&tqrg='' @ fmt 6 (transmitter_frequency_mhz report) @ ''&tcall='' @ tcall @
      ''&tgrid='' @ tgrid @ ''&dbm='' @ pwr @ ''&version='' @ v @ ''&mode=2''"
  have len: "length u < 768" using fields printed assms(1,2,8,9) by (simp add: u_def)
  have url: "wspr_report_format_url fmt WSPR_REPORT_URL_SIZE (Some e) (Some v) (Some report) = Some u"
    using fields(1,3,5,7,9) len by (simp add: wspr_report_format_url_def WSPR_REPORT_URL_SIZE_def Let_def u_def)
  have chars: "list_all (list_all url_char) [rcall, rgrid, tcall, tgrid, pwr]" by (simp add: defs encoded_decoded(2))
  have dec: "map url_decode [rcall, rgrid, tcall, tgrid, pwr] =
      [receiver_call report, receiver_grid report, transmitter_call report, transmitter_grid report, power_dbm report]"
    by (simp add: defs encoded_decoded(1))
  show ?thesis
    by (rule exI [of _ u], rule exI [of _ rcall], rule exI [of _ rgrid], rule exI [of _ tcall], rule exI [of _ tgrid], rule exI [of _ pwr])
      (rule conjI [OF url conjI [OF len conjI [OF u_def conjI [OF chars dec]]]])
qed

section \<open>Properties\<close>


definition demo_report :: "unit wspr_report" where
  "demo_report = \<lparr>receiver_call = ''K1ABC'', receiver_grid = ''FN42AA'', date = ''260101'', time = ''0002'', transmitter_call = ''DL1XYZ/P'',
     transmitter_grid = ''JO62'', power_dbm = ''23'', receiver_frequency_mhz = (), transmitter_frequency_mhz = (), snr = (), dt = (), drift = ()\<rparr>"

lemma demo_run:
  fixes fmt :: "nat \<Rightarrow> unit \<Rightarrow> string"
  assumes "wspr_reporter_enqueue fmt (Some demo_report) r = (True, r')" "uploader_top 0 r' = Send item"
  shows "reporter_run fmt None (r, Top) [Enqueue demo_report True, Upload item, Answer item UPLOAD_OK 0] (uploader_answer None item UPLOAD_OK 0 r', Top)"
proof -
  have "reporter_run fmt None (r, Top) ([] @ [Enqueue demo_report True]) (r', Top)"
    by (rule reporter_run.more [OF reporter_run.none]) (rule reporter_step.enqueue [OF assms(1)])
  then have "reporter_run fmt None (r, Top) (([] @ [Enqueue demo_report True]) @ [Upload item]) (r', Waiting item)"
    by (rule reporter_run.more) (rule reporter_step.upload [OF assms(2)])
  then have "reporter_run fmt None (r, Top) ((([] @ [Enqueue demo_report True]) @ [Upload item]) @ [Answer item UPLOAD_OK 0])
      (uploader_answer None item UPLOAD_OK 0 r', Top)"
    by (rule reporter_run.more) (rule reporter_step.answer)
  then show ?thesis by simp
qed


text \<open>
  C34: every failed upload is repeated: the item stays at the head of the queue, and before it is sent again the thread
  waits at least the base delay, doubled with each attempt up to 900 seconds, and at most 900 seconds.
\<close>

theorem retry_waits:
  assumes "rep_inv r" and "uploader_top now r = Send item" and "attempts item + 1 \<noteq> 0"
  shows "let r' = uploader_answer configured item UPLOAD_RETRY answered r;
      delay = min 900 (base_delay configured * 2 ^ unat (attempts item))
    in spots r' = spots r \<and> (\<forall>now'. uploader_top now' r' =
      (if stopping r then Leave else if now' < answered + int delay then Sleep_until (answered + int delay)
       else Send (item\<lparr>attempts := attempts item + 1, retry_at := answered + int delay\<rparr>)))"
proof -
  let ?r = "uploader_answer configured item UPLOAD_RETRY answered r"
  have item: "item = queue r ! head r" "count r \<noteq> 0" using assms(2) by (auto simp: uploader_top_def split: if_splits)
  have h: "head r < length (queue r)" using assms(1) by (simp add: rep_inv_def)
  have n: "unat (attempts item + 1) - 1 = unat (attempts item)" using assms(3) unatSuc [of "attempts item"] by (simp add: add.commute)
  define delay where "delay = min 900 (base_delay configured * 2 ^ unat (attempts item))"
  have delay: "retry_delay configured (attempts item + 1) = delay" unfolding retry_delay_eq n delay_def by (rule refl)
  have eq: "?r = r\<lparr>queue := (queue r)[head r := item\<lparr>attempts := attempts item + 1, retry_at := answered + int delay\<rparr>]\<rparr>"
    using item(2) delay unfolding uploader_answer_def item(1) [symmetric] by (simp add: Let_def)
  have "spot_at ?r i = spot_at r i" for i unfolding eq using h item(1) by (cases "i = head r") (simp_all add: spot_at_def)
  then have "spots ?r = spots r" by (simp add: spots_def eq)
  moreover have "uploader_top now' ?r = (if stopping r then Leave else if now' < answered + int delay then Sleep_until (answered + int delay)
       else Send (item\<lparr>attempts := attempts item + 1, retry_at := answered + int delay\<rparr>))" for now'
    using h item(2) by (simp add: uploader_top_def eq)
  ultimately show ?thesis by (simp add: delay_def Let_def)
qed

theorem retry_waits_witness:
  "\<exists>r item. rep_inv r \<and> uploader_top 7 r = Send item \<and>
    (let r' = uploader_answer (Some ''10'') item UPLOAD_RETRY 9 r;
      delay = min 900 (base_delay (Some ''10'') * 2 ^ unat (attempts item))
    in spots r' = spots r \<and> (\<forall>now'. uploader_top now' r' =
      (if stopping r then Leave else if now' < 9 + int delay then Sleep_until (9 + int delay)
       else Send (item\<lparr>attempts := attempts item + 1, retry_at := 9 + int delay\<rparr>))))"
proof -
  let ?item = "\<lparr>url = ''x'', sequence = 1, attempts = 3, retry_at = 0\<rparr>"
  let ?r = "\<lparr>queue = [?item], head = 0, count = 1, capacity = 1, next_sequence = 1, stopping = False, started = True, endpoint = [], version = []\<rparr>"
  have inv: "rep_inv ?r" and top: "uploader_top 7 ?r = Send ?item" by (simp_all add: rep_inv_def uploader_top_def)
  have "attempts ?item + 1 \<noteq> 0" by simp
  from retry_waits [OF inv top this, of "Some ''10''" 9] inv top show ?thesis by (intro exI conjI)
qed

text \<open>
  With the field sizes of the code no spot is lost because its URL is too long: if each of the five numbers prints in at most
  50 characters, formatting succeeds, in less than 768 characters, and what stands for the callsigns, the locators and the
  power consists of characters that URLs may contain and is read back as the original.
\<close>

theorem spot_url_fits:
  assumes "length e < 256" and "length v < 32" and "length (receiver_call report) \<le> 12" and "length (receiver_grid report) \<le> 6"
    and "length (transmitter_call report) \<le> 12" and "length (transmitter_grid report) \<le> 6" and "length (power_dbm report) \<le> 2"
    and "length (date report) \<le> 6" and "length (time report) \<le> 4" and "\<And>n x. length (fmt n x) \<le> 50"
  shows "\<exists>u rcall rgrid tcall tgrid pwr. wspr_report_format_url fmt WSPR_REPORT_URL_SIZE (Some e) (Some v) (Some report) = Some u \<and> length u < 768 \<and>
    u = e @ ''?function=wspr&rcall='' @ rcall @ ''&rgrid='' @ rgrid @ ''&rqrg='' @ fmt 6 (receiver_frequency_mhz report) @
      ''&date='' @ date report @ ''&time='' @ time report @ ''&sig='' @ fmt 0 (snr report) @ ''&dt='' @ fmt 1 (dt report) @
      ''&drift='' @ fmt 0 (drift report) @ ''&tqrg='' @ fmt 6 (transmitter_frequency_mhz report) @ ''&tcall='' @ tcall @
      ''&tgrid='' @ tgrid @ ''&dbm='' @ pwr @ ''&version='' @ v @ ''&mode=2'' \<and>
    list_all (list_all url_char) [rcall, rgrid, tcall, tgrid, pwr] \<and>
    map url_decode [rcall, rgrid, tcall, tgrid, pwr] =
      [receiver_call report, receiver_grid report, transmitter_call report, transmitter_grid report, power_dbm report]"
  using assms by (rule spot_fits)

theorem spot_url_fits_witness:
  "\<exists>u rcall rgrid tcall tgrid pwr. wspr_report_format_url (\<lambda>_ _. ''14.097100'') WSPR_REPORT_URL_SIZE (Some DEFAULT_WSPRNET_ENDPOINT)
      (Some ''0.8'') (Some demo_report) = Some u \<and> length u < 768 \<and>
    u = DEFAULT_WSPRNET_ENDPOINT @ ''?function=wspr&rcall='' @ rcall @ ''&rgrid='' @ rgrid @ ''&rqrg='' @ ''14.097100'' @
      ''&date='' @ date demo_report @ ''&time='' @ time demo_report @ ''&sig='' @ ''14.097100'' @ ''&dt='' @ ''14.097100'' @
      ''&drift='' @ ''14.097100'' @ ''&tqrg='' @ ''14.097100'' @ ''&tcall='' @ tcall @
      ''&tgrid='' @ tgrid @ ''&dbm='' @ pwr @ ''&version='' @ ''0.8'' @ ''&mode=2'' \<and>
    list_all (list_all url_char) [rcall, rgrid, tcall, tgrid, pwr] \<and>
    map url_decode [rcall, rgrid, tcall, tgrid, pwr] =
      [receiver_call demo_report, receiver_grid demo_report, transmitter_call demo_report, transmitter_grid demo_report, power_dbm demo_report]"
  by (rule spot_url_fits) (simp_all add: demo_report_def DEFAULT_WSPRNET_ENDPOINT_def)

end
