(* ===== verification/PskReporter.thy ===== *)
theory PskReporter
  imports CText
begin

text \<open>
  \<open>psk_reporter.c\<close>: the packets for PSK Reporter (IPFIX), the queue of spots and the thread that sends them. The queue is the
  list of the first \<open>count\<close> elements of its array; a callsign is a C string. Times are seconds.
\<close>

unbundle bit_operations_syntax

section \<open>Packets\<close>

record psk_report =
  sender_call :: string
  frequency_hz :: u32
  snr :: u8
  flow_start :: int

definition receiver_template :: "u8 list" where
  "receiver_template =
     [0x00, 0x03, 0x00, 0x24, 0x99, 0x92, 0x00, 0x03, 0x00, 0x01,
      0x80, 0x02, 0xff, 0xff, 0x00, 0x00, 0x76, 0x8f,
      0x80, 0x04, 0xff, 0xff, 0x00, 0x00, 0x76, 0x8f,
      0x80, 0x08, 0xff, 0xff, 0x00, 0x00, 0x76, 0x8f,
      0x00, 0x00]"

definition sender_template :: "u8 list" where
  "sender_template =
     [0x00, 0x02, 0x00, 0x34, 0x99, 0x93, 0x00, 0x06,
      0x80, 0x01, 0xff, 0xff, 0x00, 0x00, 0x76, 0x8f,
      0x80, 0x05, 0x00, 0x04, 0x00, 0x00, 0x76, 0x8f,
      0x80, 0x06, 0x00, 0x01, 0x00, 0x00, 0x76, 0x8f,
      0x80, 0x0a, 0xff, 0xff, 0x00, 0x00, 0x76, 0x8f,
      0x80, 0x0b, 0x00, 0x01, 0x00, 0x00, 0x76, 0x8f,
      0x00, 0x96, 0x00, 0x04]"

definition align_four :: "nat \<Rightarrow> nat" where
  "align_four value = (value + 3) div 4 * 4"

definition put_u16 :: "u16 \<Rightarrow> u8 list" where
  "put_u16 value = [ucast (drop_bit 8 value), ucast value]"

definition put_u32 :: "u32 \<Rightarrow> u8 list" where
  "put_u32 value = [ucast (drop_bit 24 value), ucast (drop_bit 16 value), ucast (drop_bit 8 value), ucast value]"

definition valid_text_length :: "string \<Rightarrow> nat \<Rightarrow> bool" where
  "valid_text_length text limit \<longleftrightarrow> text \<noteq> [] \<and> length text \<le> limit"

definition bytes_of :: "string \<Rightarrow> u8 list" where
  "bytes_of text = map (\<lambda>c. word_of_nat (code c)) text"

definition put_string :: "string \<Rightarrow> u8 list" where
  "put_string text = word_of_nat (length text) # bytes_of text"

text \<open>Writing bytes at a position of the packet, which moves on behind them.\<close>

definition emit :: "u8 list \<Rightarrow> u8 list \<times> nat \<Rightarrow> u8 list \<times> nat" where
  "emit bytes = (\<lambda>(packet, position). (blit position bytes packet, position + length bytes))"

definition report_ok :: "psk_report \<Rightarrow> bool" where
  "report_ok r \<longleftrightarrow> valid_text_length (sender_call r) 12 \<and> frequency_hz r \<noteq> 0 \<and> flow_start r \<ge> 0"

definition emit_report :: "psk_report \<Rightarrow> u8 list \<times> nat \<Rightarrow> u8 list \<times> nat" where
  "emit_report r st =
     (let st = emit (put_string (sender_call r)) st;
          st = emit (put_u32 (frequency_hz r)) st;
          st = emit [snr r] st;
          st = emit (put_string ''FT8'') st;
          st = emit [1] st
      in emit (put_u32 (word_of_int (flow_start r))) st)"

definition receiver_size :: "string \<Rightarrow> string \<Rightarrow> string \<Rightarrow> nat" where
  "receiver_size call grid software = align_four (4 + 1 + length call + 1 + length grid + 1 + length software)"

definition sender_size :: "psk_report list \<Rightarrow> nat" where
  "sender_size reports = align_four (fold (\<lambda>r n. n + (1 + length (sender_call r) + 4 + 1 + 1 + 3 + 1 + 4)) reports 4)"

definition psk_reporter_build_packet ::
  "nat \<Rightarrow> string \<Rightarrow> string \<Rightarrow> string \<Rightarrow> psk_report list \<Rightarrow> u32 \<Rightarrow> u32 \<Rightarrow> int \<Rightarrow> bool \<Rightarrow> u8 list option" where
  "psk_reporter_build_packet capacity receiver_call receiver_grid software reports sequence observation_id export_time include_templates =
     (if reports = [] \<or> \<not> valid_text_length receiver_call 12 \<or> \<not> valid_text_length receiver_grid 6 \<or>
          \<not> valid_text_length software 63 \<or> export_time < 0 then None
      else if \<not> list_all report_ok reports then None
      else
        let rsize = receiver_size receiver_call receiver_grid software;
            ssize = sender_size reports;
            total_size = 16 + rsize + ssize +
              (if include_templates then length receiver_template + length sender_template else 0)
        in if total_size > capacity \<or> total_size > 65535 then None
           else
             let st = (replicate total_size 0, 0);
                 st = emit [0x00, 0x0a] st;
                 st = emit (put_u16 (word_of_nat total_size)) st;
                 st = emit (put_u32 (word_of_int export_time)) st;
                 st = emit (put_u32 sequence) st;
                 st = emit (put_u32 observation_id) st;
                 st = (if include_templates then emit sender_template (emit receiver_template st) else st);
                 st = emit [0x99, 0x92] st;
                 st = emit (put_u16 (word_of_nat rsize)) st;
                 st = emit (put_string receiver_call) st;
                 st = emit (put_string receiver_grid) st;
                 st = emit (put_string software) st;
                 st = (fst st, total_size - ssize);
                 st = emit [0x99, 0x93] st;
                 st = emit (put_u16 (word_of_nat ssize)) st
             in Some (fst (fold emit_report reports st)))"

section \<open>Reading a packet\<close>

text \<open>
  A reader of IPFIX messages (RFC 7011) that knows nothing of the program: it learns the layout of the records from the
  templates in the packet, or remembers it from an earlier one. A field of length 65535 is preceded by its length.
\<close>

type_synonym layout = "nat list"

definition rd :: "nat \<Rightarrow> u8 list \<Rightarrow> (nat \<times> u8 list) option" where
  "rd n bs = (if length bs < n then None else Some (foldl (\<lambda>v b. 256 * v + unat b) 0 (take n bs), drop n bs))"

fun read_layout :: "nat \<Rightarrow> u8 list \<Rightarrow> layout option" where
  "read_layout 0 bs = Some []"
| "read_layout (Suc n) bs =
     (case rd 2 bs of None \<Rightarrow> None | Some (ident, bs) \<Rightarrow>
       (case rd 2 bs of None \<Rightarrow> None | Some (len, bs) \<Rightarrow>
         (case (if ident \<ge> 32768 then map_option snd (rd 4 bs) else Some bs) of None \<Rightarrow> None | Some bs \<Rightarrow>
           map_option (Cons len) (read_layout n bs))))"

fun read_record :: "layout \<Rightarrow> u8 list \<Rightarrow> (u8 list list \<times> u8 list) option" where
  "read_record [] bs = Some ([], bs)"
| "read_record (len # lens) bs =
     (case (if len = 65535 then rd 1 bs else Some (len, bs)) of None \<Rightarrow> None | Some (n, bs) \<Rightarrow>
       if length bs < n then None
       else map_option (\<lambda>(vals, rest). (take n bs # vals, rest)) (read_record lens (drop n bs)))"

definition shortest :: "layout \<Rightarrow> nat" where
  "shortest lens = sum_list (map (\<lambda>len. if len = 65535 then 1 else len) lens)"

text \<open>What is shorter than any record is padding.\<close>

fun read_records :: "nat \<Rightarrow> layout \<Rightarrow> u8 list \<Rightarrow> u8 list list list option" where
  "read_records 0 lens bs = (if length bs < shortest lens then Some [] else None)"
| "read_records (Suc n) lens bs =
     (if length bs < shortest lens then Some []
      else case read_record lens bs of None \<Rightarrow> None
           | Some (vals, rest) \<Rightarrow> map_option (Cons vals) (read_records n lens rest))"

text \<open>The layouts known, with the flag of an options template, of whose data sets the first record counts.\<close>

type_synonym layouts = "nat \<rightharpoonup> bool \<times> layout"

definition read_set :: "layouts \<Rightarrow> nat \<Rightarrow> u8 list \<Rightarrow> (layouts \<times> (nat \<times> u8 list list list) list) option" where
  "read_set known ident body =
     (if ident = 2 \<or> ident = 3 then
        (case rd 2 body of None \<Rightarrow> None | Some (tid, bs) \<Rightarrow>
          (case rd 2 bs of None \<Rightarrow> None | Some (n, bs) \<Rightarrow>
            (case read_layout n (if ident = 3 then drop 2 bs else bs) of None \<Rightarrow> None
             | Some lens \<Rightarrow> Some (known(tid \<mapsto> (ident = 3, lens)), []))))
      else (case known ident of None \<Rightarrow> None
        | Some (options, lens) \<Rightarrow>
            map_option (\<lambda>recs. (known, [(ident, recs)]))
              (if options then map_option (\<lambda>(vals, _). [vals]) (read_record lens body)
               else read_records (length body) lens body)))"

fun read_sets :: "nat \<Rightarrow> layouts \<Rightarrow> u8 list \<Rightarrow> (layouts \<times> (nat \<times> u8 list list list) list) option" where
  "read_sets 0 known bs = (if bs = [] then Some (known, []) else None)"
| "read_sets (Suc k) known bs =
     (if bs = [] then Some (known, [])
      else case rd 2 bs of None \<Rightarrow> None | Some (ident, bs') \<Rightarrow>
        (case rd 2 bs' of None \<Rightarrow> None | Some (len, bs'') \<Rightarrow>
          if len < 4 \<or> length bs'' < len - 4 then None
          else case read_set known ident (take (len - 4) bs'') of None \<Rightarrow> None
            | Some (known, data) \<Rightarrow> map_option (\<lambda>(known, data'). (known, data @ data')) (read_sets k known (drop (len - 4) bs''))))"

record ipfix_message =
  export_time :: nat
  sequence_number :: nat
  domain :: nat
  data_sets :: "(nat \<times> u8 list list list) list"

definition read_message :: "layouts \<Rightarrow> u8 list \<Rightarrow> (layouts \<times> ipfix_message) option" where
  "read_message known p =
     (case rd 2 p of Some (ver, bs) \<Rightarrow>
       (case rd 2 bs of Some (len, bs) \<Rightarrow>
         (case rd 4 bs of Some (t, bs) \<Rightarrow>
           (case rd 4 bs of Some (seq, bs) \<Rightarrow>
             (case rd 4 bs of Some (obs, bs) \<Rightarrow>
               if ver \<noteq> 10 \<or> len \<noteq> length p then None
               else map_option (\<lambda>(known, data). (known, \<lparr>export_time = t, sequence_number = seq, domain = obs, data_sets = data\<rparr>))
                      (read_sets (length bs) known bs)
             | None \<Rightarrow> None) | None \<Rightarrow> None) | None \<Rightarrow> None) | None \<Rightarrow> None) | None \<Rightarrow> None)"

section \<open>Numbers\<close>

lemma unat_drop: "unat (drop_bit n w) = unat w div 2 ^ n" for w :: "'a::len word"
  unfolding unat_drop_bit_eq by (rule drop_bit_eq_div)

lemma unat_ucast8: "unat (ucast w :: u8) = unat w mod 256" for w :: "'a::len word"
  unfolding unsigned_ucast_eq by (simp add: take_bit_eq_mod)

lemma two_bytes: "x < 65536 \<Longrightarrow> 256 * (x div 256 mod 256) + x mod 256 = (x :: nat)"
proof -
  assume "x < 65536"
  then have "x div 256 < 256" by (simp add: less_mult_imp_div_less)
  then show ?thesis using div_mult_mod_eq [of x 256] by (simp add: mult.commute)
qed

lemma four_bytes: "x < 4294967296 \<Longrightarrow> 256 * (256 * (256 * (x div 16777216) + x div 65536 mod 256) + x div 256 mod 256) + x mod 256 = (x :: nat)"
proof -
  assume x: "x < 4294967296"
  define y where "y = x div 65536"
  have y: "y < 65536" unfolding y_def using x by (simp add: less_mult_imp_div_less)
  have "x div 16777216 = y div 256 mod 256"
    using y by (simp add: y_def less_mult_imp_div_less flip: div_mult2_eq)
  moreover have "x div 65536 = y" unfolding y_def by (simp_all flip: div_mult2_eq)
  moreover have "256 * (x div 256 mod 256) + x mod 256 = x mod 65536"
    using mod_mult2_eq [of x 256 256] by simp
  ultimately have "256 * (256 * (256 * (x div 16777216) + x div 65536 mod 256) + x div 256 mod 256) + x mod 256
      = 65536 * (256 * (y div 256 mod 256) + y mod 256) + x mod 65536" by (simp add: algebra_simps)
  also have "\<dots> = x" using two_bytes [OF y] div_mult_mod_eq [of x 65536] by (simp add: y_def mult.commute)
  finally show "256 * (256 * (256 * (x div 16777216) + x div 65536 mod 256) + x div 256 mod 256) + x mod 256 = x" .
qed

lemma rd_u16: "rd 2 (put_u16 w @ bs) = Some (unat w, bs)"
proof -
  have "unat w < 65536" using unsigned_less [of w] by simp
  from two_bytes [OF this] show ?thesis by (simp add: rd_def put_u16_def unat_drop unat_ucast8)
qed

lemma rd_u32: "rd 4 (put_u32 w @ bs) = Some (unat w, bs)"
proof -
  have w: "unat w < 4294967296" using unsigned_less [of w] by simp
  then have "unat w div 16777216 < 256" by (simp add: less_mult_imp_div_less)
  with four_bytes [OF w] show ?thesis by (simp add: rd_def put_u32_def unat_drop unat_ucast8)
qed

lemma rd_byte: "n < 256 \<Longrightarrow> rd 1 (word_of_nat n # bs) = Some (n, bs)"
  by (simp add: rd_def unsigned_of_nat take_bit_nat_eq_self)

lemma put_lengths [simp]: "length (put_u16 a) = 2" "length (put_u32 b) = 4" "length (put_string t) = Suc (length t)"
  by (simp_all add: put_u16_def put_u32_def put_string_def bytes_of_def)

section \<open>What a packet consists of\<close>

definition fresh :: "u8 list \<Rightarrow> nat \<Rightarrow> u8 list \<times> nat" where
  "fresh pre k = (pre @ replicate k 0, length pre)"

lemma emit_fresh: "length bs \<le> k \<Longrightarrow> emit bs (fresh pre k) = fresh (pre @ bs) (k - length bs)"
  by (simp add: emit_def fresh_def blit_def)

lemma emits_fresh: "fold emit bss (fresh pre (length (concat bss) + k)) = fresh (pre @ concat bss) k"
  by (induction bss arbitrary: pre) (simp_all add: emit_fresh)

lemma skip_fresh: "n \<le> k \<Longrightarrow> (fst (fresh pre k), length pre + n) = fresh (pre @ replicate n 0) (k - n)"
  by (simp add: fresh_def flip: replicate_add)

definition report_bytes :: "psk_report \<Rightarrow> u8 list" where
  "report_bytes r = put_string (sender_call r) @ put_u32 (frequency_hz r) @ [snr r] @ put_string ''FT8'' @ [1]
     @ put_u32 (word_of_int (flow_start r))"

lemma length_report_bytes: "length (report_bytes r) = 1 + length (sender_call r) + 4 + 1 + 1 + 3 + 1 + 4"
  by (simp add: report_bytes_def)

lemma emit_report_fresh:
  "length (report_bytes r) \<le> k \<Longrightarrow> emit_report r (fresh pre k) = fresh (pre @ report_bytes r) (k - length (report_bytes r))"
  by (simp add: emit_report_def Let_def emit_fresh report_bytes_def)

lemma emit_reports_fresh:
  "length (concat (map report_bytes rs)) \<le> k \<Longrightarrow>
    fold emit_report rs (fresh pre k) = fresh (pre @ concat (map report_bytes rs)) (k - length (concat (map report_bytes rs)))"
  by (induction rs arbitrary: pre k) (simp_all add: emit_report_fresh)

lemma sender_size_eq: "sender_size rs = align_four (4 + length (concat (map report_bytes rs)))"
proof -
  have "fold (\<lambda>r n. n + (1 + length (sender_call r) + 4 + 1 + 1 + 3 + 1 + 4)) rs n = n + length (concat (map report_bytes rs))" for n
    by (induction rs arbitrary: n) (simp_all add: length_report_bytes)
  then show ?thesis by (simp only: sender_size_def)
qed

definition pad4 :: "nat \<Rightarrow> nat" where "pad4 n = align_four n - n"

lemma align_four_facts: "align_four n = n + pad4 n" "pad4 n < 4" "align_four n mod 4 = 0"
proof -
  have "n \<le> (n + 3) div 4 * 4" "(n + 3) div 4 * 4 < n + 4" using div_mult_mod_eq [of "n + 3" 4] mod_less_divisor [of 4 "n + 3"] by linarith+
  then show "align_four n = n + pad4 n" "pad4 n < 4" by (simp_all add: pad4_def align_four_def)
  show "align_four n mod 4 = 0" by (simp add: align_four_def)
qed

definition receiver_set :: "string \<Rightarrow> string \<Rightarrow> string \<Rightarrow> u8 list" where
  "receiver_set call grid software =
     put_u16 0x9992 @ put_u16 (word_of_nat (receiver_size call grid software)) @
     (put_string call @ put_string grid @ put_string software) @ replicate (pad4 (7 + length call + length grid + length software)) 0"

definition sender_set :: "psk_report list \<Rightarrow> u8 list" where
  "sender_set rs = put_u16 0x9993 @ put_u16 (word_of_nat (sender_size rs)) @ concat (map report_bytes rs) @
     replicate (pad4 (4 + length (concat (map report_bytes rs)))) 0"

lemma receiver_size_eq: "receiver_size call grid software = align_four (7 + length call + length grid + length software)"
  by (simp add: receiver_size_def add.assoc)

lemma length_receiver_set: "length (receiver_set call grid software) = receiver_size call grid software"
  unfolding receiver_size_eq align_four_facts(1) by (simp add: receiver_set_def)

lemma length_sender_set: "length (sender_set rs) = sender_size rs"
  unfolding sender_size_eq align_four_facts(1) by (simp add: sender_set_def)

definition packet_ok :: "string \<Rightarrow> string \<Rightarrow> string \<Rightarrow> psk_report list \<Rightarrow> int \<Rightarrow> bool" where
  "packet_ok call grid software reports t \<longleftrightarrow> reports \<noteq> [] \<and> valid_text_length call 12 \<and> valid_text_length grid 6 \<and>
     valid_text_length software 63 \<and> 0 \<le> t \<and> list_all report_ok reports"

definition packet_size :: "string \<Rightarrow> string \<Rightarrow> string \<Rightarrow> psk_report list \<Rightarrow> bool \<Rightarrow> nat" where
  "packet_size call grid software reports templates = 16 + receiver_size call grid software + sender_size reports + (if templates then 88 else 0)"

lemma template_lengths: "length receiver_template = 36" "length sender_template = 52"
  by (simp_all add: receiver_template_def sender_template_def)

lemma build_packet_eq:
  "psk_reporter_build_packet capacity call grid software reports seq obs t templates =
    (if packet_ok call grid software reports t \<and> packet_size call grid software reports templates \<le> capacity \<and>
        packet_size call grid software reports templates \<le> 65535
     then Some (put_u16 10 @ put_u16 (word_of_nat (packet_size call grid software reports templates)) @ put_u32 (word_of_int t) @ put_u32 seq @ put_u32 obs @
       (if templates then receiver_template @ sender_template else []) @ receiver_set call grid software @ sender_set reports)
     else None)"
proof (cases "packet_ok call grid software reports t \<and> packet_size call grid software reports templates \<le> capacity \<and>
    packet_size call grid software reports templates \<le> 65535")
  case False
  then show ?thesis
    by (auto simp: psk_reporter_build_packet_def packet_ok_def packet_size_def template_lengths Let_def not_le)
next
  case True
  define total where "total = packet_size call grid software reports templates"
  have total': "16 + receiver_size call grid software + sender_size reports + (if templates then length receiver_template + length sender_template else 0) = total"
    by (simp add: total_def packet_size_def template_lengths)
  define rtext where "rtext = put_string call @ put_string grid @ put_string software"
  have rtext: "length rtext = 3 + length call + length grid + length software" by (simp add: rtext_def)
  define rpad where "rpad = pad4 (7 + length call + length grid + length software)"
  have rsize: "receiver_size call grid software = 4 + length rtext + rpad"
    unfolding receiver_size_eq align_four_facts(1) rpad_def rtext by simp
  define sbytes where "sbytes = concat (map report_bytes reports)"
  have ssize: "sender_size reports = 4 + length sbytes + pad4 (4 + length sbytes)"
    unfolding sender_size_eq align_four_facts(1) sbytes_def by simp
  define head where "head = put_u16 10 @ put_u16 (word_of_nat total) @ put_u32 (word_of_int t) @ put_u32 seq @ put_u32 obs"
  have hl: "length head = 16" by (simp add: head_def)
  define tmpl where "tmpl = (if templates then receiver_template @ sender_template else [])"
  have total: "total = 16 + length tmpl + receiver_size call grid software + sender_size reports"
    by (simp add: total_def packet_size_def tmpl_def template_lengths)
  have num: "[0x00, 0x0a] = put_u16 10" "[0x99, 0x92] = put_u16 0x9992" "[0x99, 0x93] = put_u16 0x9993" by code_simp+
  let ?parts = "[put_u16 10, put_u16 (word_of_nat total), put_u32 (word_of_int t), put_u32 seq, put_u32 obs] @
    (if templates then [receiver_template, sender_template] else []) @
    [put_u16 0x9992, put_u16 (word_of_nat (receiver_size call grid software)), put_string call, put_string grid, put_string software]"
  let ?pre = "head @ tmpl @ put_u16 0x9992 @ put_u16 (word_of_nat (receiver_size call grid software)) @ rtext"
  have parts: "concat ?parts = ?pre" by (simp add: head_def tmpl_def rtext_def)
  have "length ?pre + (rpad + sender_size reports) = total"
    unfolding total rsize by (simp add: head_def)
  then have start: "(replicate total 0, 0) = fresh [] (length (concat ?parts) + (rpad + sender_size reports))"
    unfolding parts by (simp add: fresh_def)
  have first: "fold emit ?parts (replicate total 0, 0) = fresh ?pre (rpad + sender_size reports)"
    unfolding start by (rule trans [OF emits_fresh]) (simp only: parts append_Nil)
  have "(fst (fresh q (rpad + sender_size reports)), total - sender_size reports) = fresh (q @ replicate rpad 0) (sender_size reports)"
    if "length q + rpad = total - sender_size reports" for q
    using skip_fresh [of rpad "rpad + sender_size reports" q] that by simp
  moreover have "length ?pre + rpad = total - sender_size reports" by (simp add: total rsize hl)
  ultimately have second: "(fst (fresh ?pre (rpad + sender_size reports)), total - sender_size reports) = fresh (?pre @ replicate rpad 0) (sender_size reports)"
    by blast
  let ?pad = "pad4 (4 + length sbytes)"
  have third: "fst (fold emit_report reports (fold emit [put_u16 0x9993, put_u16 (word_of_nat (sender_size reports))] (fresh q (sender_size reports))))
      = q @ sender_set reports" for q
  proof -
    have e: "sender_size reports = length (concat [put_u16 0x9993, put_u16 (word_of_nat (sender_size reports))]) + (length sbytes + ?pad)"
      by (simp add: ssize)
    have "fold emit [put_u16 0x9993, put_u16 (word_of_nat (sender_size reports))] (fresh q (sender_size reports)) =
        fresh (q @ put_u16 0x9993 @ put_u16 (word_of_nat (sender_size reports))) (length sbytes + ?pad)"
      by (subst (2) e, subst emits_fresh) simp
    then show ?thesis by (simp only:) (subst emit_reports_fresh, simp_all add: sbytes_def sender_set_def fresh_def)
  qed
  have "psk_reporter_build_packet capacity call grid software reports seq obs t templates =
      Some (fst (fold emit_report reports (fold emit [put_u16 0x9993, put_u16 (word_of_nat (sender_size reports))]
        (fst (fold emit ?parts (replicate total 0, 0)), total - sender_size reports))))"
    using True unfolding psk_reporter_build_packet_def num Let_def total' by (cases templates) (simp_all add: packet_ok_def total_def)
  also have "\<dots> = Some (?pre @ replicate rpad 0 @ sender_set reports)"
    unfolding first second third by simp
  finally show ?thesis
    using True by (simp add: head_def tmpl_def rtext_def receiver_set_def rpad_def total_def)
qed

section \<open>The reader recovers what was sent\<close>

lemma rd_string: "length t < 256 \<Longrightarrow> rd 1 (put_string t @ bs) = Some (length t, bytes_of t @ bs)"
  using rd_byte [of "length t"] by (simp add: put_string_def)

lemma length_bytes_of [simp]: "length (bytes_of t) = length t"
  by (simp add: bytes_of_def)

definition sender_layout :: layout where "sender_layout = [65535, 4, 1, 65535, 1, 4]"
definition receiver_layout :: layout where "receiver_layout = [65535, 65535, 65535]"

definition report_fields :: "psk_report \<Rightarrow> u8 list list" where
  "report_fields r = [bytes_of (sender_call r), put_u32 (frequency_hz r), [snr r], bytes_of ''FT8'', [1], put_u32 (word_of_int (flow_start r))]"

lemma read_var: "length t < 256 \<Longrightarrow> read_record (65535 # lens) (put_string t @ bs) =
    map_option (\<lambda>(vals, rest). (bytes_of t # vals, rest)) (read_record lens bs)"
  by (simp add: rd_string del: One_nat_def)

lemma read_fixed: "length v = n \<Longrightarrow> n \<noteq> 65535 \<Longrightarrow> read_record (n # lens) (v @ bs) =
    map_option (\<lambda>(vals, rest). (v # vals, rest)) (read_record lens bs)"
  by (simp add: split_def)

lemma read_report: "report_ok r \<Longrightarrow> read_record sender_layout (report_bytes r @ bs) = Some (report_fields r, bs)"
proof -
  assume "report_ok r"
  then have "length (sender_call r) < 256" by (simp add: report_ok_def valid_text_length_def)
  then show ?thesis
    unfolding sender_layout_def report_bytes_def append_assoc
    by (simp only: read_var read_fixed put_lengths list.size) (simp add: report_fields_def)
qed

lemma read_reports:
  assumes "list_all report_ok rs" and "length rs \<le> n" and "length pad < 4"
  shows "read_records n sender_layout (concat (map report_bytes rs) @ pad) = Some (map report_fields rs)"
  using assms
proof (induction rs arbitrary: n)
  case Nil
  then show ?case by (cases n) (simp_all add: shortest_def sender_layout_def)
next
  case (Cons r rs)
  then obtain n' where n: "n = Suc n'" by (cases n) auto
  have "\<not> length (concat (map report_bytes (r # rs)) @ pad) < shortest sender_layout"
    by (simp add: length_report_bytes shortest_def sender_layout_def)
  moreover have "read_record sender_layout (report_bytes r @ (concat (map report_bytes rs) @ pad)) = Some (report_fields r, concat (map report_bytes rs) @ pad)"
    using Cons.prems by (intro read_report) simp
  ultimately show ?case using Cons.IH [of n'] Cons.prems by (simp add: n del: read_record.simps)
qed

lemma read_receiver:
  assumes "length call < 256" "length grid < 256" "length software < 256"
  shows "read_record receiver_layout ((put_string call @ put_string grid @ put_string software) @ pad) =
    Some ([bytes_of call, bytes_of grid, bytes_of software], pad)"
  using assms unfolding receiver_layout_def append_assoc by (simp only: read_var) simp

definition knows_layouts :: "layouts \<Rightarrow> bool" where
  "knows_layouts known \<longleftrightarrow> known 0x9992 = Some (True, receiver_layout) \<and> known 0x9993 = Some (False, sender_layout)"

lemma read_templates:
  "read_set known 3 (drop 4 receiver_template) = Some (known(0x9992 \<mapsto> (True, receiver_layout)), [])"
  "read_set known 2 (drop 4 sender_template) = Some (known(0x9993 \<mapsto> (False, sender_layout)), [])"
proof -
  have a: "rd 2 (drop 4 receiver_template) = Some (0x9992, drop 6 receiver_template)" "rd 2 (drop 6 receiver_template) = Some (3, drop 8 receiver_template)"
    "read_layout (Suc (Suc (Suc 0))) (drop 2 (drop 8 receiver_template)) = Some receiver_layout"
    by (simp_all add: rd_def receiver_template_def receiver_layout_def)
  show "read_set known 3 (drop 4 receiver_template) = Some (known(0x9992 \<mapsto> (True, receiver_layout)), [])"
    unfolding read_set_def a option.case prod.case using a(3) by (simp add: numeral_3_eq_3)
  have six: "6 = Suc (Suc (Suc (Suc (Suc (Suc 0)))))" by simp
  have b: "rd 2 (drop 4 sender_template) = Some (0x9993, drop 6 sender_template)" "rd 2 (drop 6 sender_template) = Some (6, drop 8 sender_template)"
    "read_layout (Suc (Suc (Suc (Suc (Suc (Suc 0)))))) (drop 8 sender_template) = Some sender_layout"
    by (simp_all add: rd_def sender_template_def sender_layout_def)
  show "read_set known 2 (drop 4 sender_template) = Some (known(0x9993 \<mapsto> (False, sender_layout)), [])"
    unfolding read_set_def b option.case prod.case using b(3) by (simp add: six)
qed

lemma read_sets_step:
  assumes "length body + 4 < 65536" and "n = length body + 4"
  shows "read_sets (Suc k) known (put_u16 ident @ put_u16 (word_of_nat n) @ body @ rest) =
    (case read_set known (unat ident) body of None \<Rightarrow> None
     | Some (known, data) \<Rightarrow> map_option (\<lambda>(known, data'). (known, data @ data')) (read_sets k known rest))"
proof -
  have n': "n < 65536" using assms by simp
  then have n: "unat (word_of_nat n :: u16) = n" by (simp add: unsigned_of_nat take_bit_nat_eq_self)
  have ne: "put_u16 ident @ put_u16 (word_of_nat n) @ body @ rest \<noteq> []" by (simp add: put_u16_def)
  have "\<not> (n < 4 \<or> length (body @ rest) < n - 4)" "take (n - 4) (body @ rest) = body" "drop (n - 4) (body @ rest) = rest"
    by (simp_all add: assms(2))
  then show ?thesis by (subst read_sets.simps(2), subst if_not_P [OF ne]) (simp only: rd_u16 option.case prod.case n if_False)
qed

lemma read_packet:
  assumes p: "psk_reporter_build_packet capacity call grid software reports seq obs t templates = Some p"
    and known: "templates \<or> knows_layouts known"
  shows "length p = packet_size call grid software reports templates \<and> length p \<le> capacity \<and>
    (\<exists>known'. knows_layouts known' \<and> read_message known p =
      Some (known', \<lparr>export_time = unat (word_of_int t :: u32), sequence_number = unat seq, domain = unat obs,
        data_sets = [(0x9992, [[bytes_of call, bytes_of grid, bytes_of software]]), (0x9993, map report_fields reports)]\<rparr>))"
proof -
  define tmpl where "tmpl = (if templates then receiver_template @ sender_template else [])"
  define total where "total = packet_size call grid software reports templates"
  have ok: "packet_ok call grid software reports t" and size: "total \<le> capacity" "total \<le> 65535"
    and p_eq: "p = put_u16 10 @ put_u16 (word_of_nat total) @ put_u32 (word_of_int t) @ put_u32 seq @ put_u32 obs @ tmpl @
      receiver_set call grid software @ sender_set reports"
    using p unfolding build_packet_eq by (auto simp: total_def tmpl_def split: if_splits)
  have tl: "length tmpl = (if templates then 88 else 0)" by (simp add: tmpl_def template_lengths)
  have total: "total = 16 + length tmpl + receiver_size call grid software + sender_size reports"
    unfolding tl by (simp add: total_def packet_size_def)
  have len: "length p = total" by (simp add: p_eq total length_receiver_set length_sender_set)
  have short: "length call < 256" "length grid < 256" "length software < 256" and reps: "list_all report_ok reports"
    using ok by (auto simp: packet_ok_def valid_text_length_def)
  define body where "body = (put_string call @ put_string grid @ put_string software) @ replicate (pad4 (7 + length call + length grid + length software)) 0"
  define sbytes where "sbytes = concat (map report_bytes reports)"
  define sbody where "sbody = sbytes @ replicate (pad4 (4 + length sbytes)) 0"
  have rset: "receiver_set call grid software = put_u16 0x9992 @ put_u16 (word_of_nat (receiver_size call grid software)) @ body"
    by (simp add: receiver_set_def body_def)
  have sset: "sender_set reports = put_u16 0x9993 @ put_u16 (word_of_nat (sender_size reports)) @ sbody"
    by (simp add: sender_set_def sbody_def sbytes_def)
  have bl: "receiver_size call grid software = length body + 4" "sender_size reports = length sbody + 4"
    using length_receiver_set [of call grid software] length_sender_set [of reports] by (simp_all add: rset sset)
  have small: "length body + 4 < 65536" "length sbody + 4 < 65536" using size(2) total bl by simp_all
  have data: "read_sets (Suc (Suc (Suc k))) kn (receiver_set call grid software @ sender_set reports) =
      Some (kn, [(0x9992, [[bytes_of call, bytes_of grid, bytes_of software]]), (0x9993, map report_fields reports)])"
    if "knows_layouts kn" for k kn
  proof -
    have r: "read_set kn 0x9992 body = Some (kn, [(0x9992, [[bytes_of call, bytes_of grid, bytes_of software]])])"
      using that read_receiver [OF short] by (simp add: read_set_def knows_layouts_def body_def)
    have "length reports \<le> length sbytes"
      unfolding sbytes_def by (induction reports) (simp_all add: length_report_bytes)
    then have "length reports \<le> length sbody" by (simp add: sbody_def)
    then have "read_records (length sbody) sender_layout sbody = Some (map report_fields reports)"
      using read_reports [OF reps, of "length sbody" "replicate (pad4 (4 + length sbytes)) 0"] align_four_facts(2) [of "4 + length sbytes"]
      by (simp add: sbody_def sbytes_def)
    then have s: "read_set kn 0x9993 sbody = Some (kn, [(0x9993, map report_fields reports)])"
      using that by (simp add: read_set_def knows_layouts_def)
    have "read_sets (Suc (Suc k)) kn (sender_set reports @ []) = Some (kn, [(0x9993, map report_fields reports)])"
      unfolding sset append_assoc by (subst read_sets_step [OF small(2) bl(2)]) (simp add: s)
    then show ?thesis
      unfolding rset append_assoc by (subst read_sets_step [OF small(1) bl(1)]) (simp add: r)
  qed
  define kn where "kn = (if templates then known(0x9992 \<mapsto> (True, receiver_layout), 0x9993 \<mapsto> (False, sender_layout)) else known)"
  have kn: "knows_layouts kn" using known by (auto simp: kn_def knows_layouts_def)
  have sets: "read_sets (Suc (Suc (Suc (Suc (Suc k))))) known (tmpl @ receiver_set call grid software @ sender_set reports) =
      Some (kn, [(0x9992, [[bytes_of call, bytes_of grid, bytes_of software]]), (0x9993, map report_fields reports)])" for k
  proof (cases templates)
    case False
    then show ?thesis using data [of kn "Suc (Suc k)"] kn by (simp add: tmpl_def kn_def del: read_sets.simps)
  next
    case True
    have knT: "kn = known(0x9992 \<mapsto> (True, receiver_layout), 0x9993 \<mapsto> (False, sender_layout))" using True by (simp add: kn_def)
    let ?rest = "receiver_set call grid software @ sender_set reports"
    have t: "receiver_template = put_u16 3 @ put_u16 (word_of_nat 36) @ drop 4 receiver_template"
      "sender_template = put_u16 2 @ put_u16 (word_of_nat 52) @ drop 4 sender_template"
      by code_simp+
    have tl: "length (drop 4 receiver_template) + 4 < 65536" "36 = length (drop 4 receiver_template) + 4"
      "length (drop 4 sender_template) + 4 < 65536" "52 = length (drop 4 sender_template) + 4"
      by (simp_all add: template_lengths)
    have "read_sets (Suc (Suc (Suc (Suc k)))) (known(0x9992 \<mapsto> (True, receiver_layout))) (sender_template @ ?rest) =
        Some (kn, [(0x9992, [[bytes_of call, bytes_of grid, bytes_of software]]), (0x9993, map report_fields reports)])"
      by (subst t(2), unfold append_assoc, subst read_sets_step [OF tl(3,4)])
        (simp add: read_templates knT [symmetric] data [OF kn] del: read_sets.simps)
    then show ?thesis
      unfolding tmpl_def if_P [OF True] append_assoc
      by (subst t(1), unfold append_assoc, subst read_sets_step [OF tl(1,2)]) (simp add: read_templates del: read_sets.simps)
  qed
  have n: "unat (word_of_nat total :: u16) = length p" using size(2) by (simp add: len unsigned_of_nat take_bit_nat_eq_self)
  have len2: "length p = 16 + (length tmpl + (length (receiver_set call grid software) + length (sender_set reports)))" by (simp add: p_eq)
  have "read_sets (length (tmpl @ receiver_set call grid software @ sender_set reports)) known (tmpl @ receiver_set call grid software @ sender_set reports) =
      Some (kn, [(0x9992, [[bytes_of call, bytes_of grid, bytes_of software]]), (0x9993, map report_fields reports)])"
    using sets [of "length body + length sbody + length tmpl + 3"]
    by (simp add: length_receiver_set length_sender_set bl ac_simps del: read_sets.simps)
  then have "read_message known p = Some (kn, \<lparr>export_time = unat (word_of_int t :: u32), sequence_number = unat seq, domain = unat obs,
        data_sets = [(0x9992, [[bytes_of call, bytes_of grid, bytes_of software]]), (0x9993, map report_fields reports)]\<rparr>)"
    using n len2 unfolding read_message_def by (subst (1 2) p_eq) (simp add: rd_u16 rd_u32 del: read_sets.simps)
  then show ?thesis using len size kn by (auto simp: total_def)
qed

section \<open>The queue\<close>

record recent_sender =
  callsign :: string
  sent_at :: int

record psk_reporter =
  queue :: "psk_report list"
  sequence :: u32
  observation_id :: u32
  packet_count :: u32
  templates_last_sent :: int
  next_flush :: int
  stopping :: bool
  started :: bool
  receiver_call :: string
  receiver_grid :: string
  software :: string
  recent :: "recent_sender list"

definition PSK_REPORT_QUEUE_CAPACITY :: nat where "PSK_REPORT_QUEUE_CAPACITY = 512"
definition PSK_REPORT_PACKET_CAPACITY :: nat where "PSK_REPORT_PACKET_CAPACITY = 1400"
definition PSK_REPORT_FLUSH_SECONDS :: int where "PSK_REPORT_FLUSH_SECONDS = 300"
definition PSK_REPORT_RETRY_SECONDS :: int where "PSK_REPORT_RETRY_SECONDS = 60"
definition PSK_REPORT_TEMPLATE_SECONDS :: int where "PSK_REPORT_TEMPLATE_SECONDS = 3600"
definition PSK_REPORT_IMMEDIATE_COUNT :: nat where "PSK_REPORT_IMMEDIATE_COUNT = 40"

text \<open>\<open>now\<close> and \<open>pid\<close> are what \<open>time\<close> and \<open>getpid\<close> answer.\<close>

definition session_identifier :: "int \<Rightarrow> u32 \<Rightarrow> u32" where
  "session_identifier now pid =
     (let v = word_of_int now XOR pid XOR 0x9e3779b9;
          v = v XOR push_bit 13 v;
          v = v XOR drop_bit 17 v;
          v = v XOR push_bit 5 v
      in if v = 0 then 1 else v)"

definition flush_time :: "int \<Rightarrow> psk_reporter \<Rightarrow> int" where
  "flush_time now r = now + PSK_REPORT_FLUSH_SECONDS + int (unat (observation_id r) mod 31)"

text \<open>
  \<open>platform_ok\<close>: the allocation, the initialisations and the creation of the thread succeed. The host and the port are
  what the environment says, if it says something.
\<close>

definition psk_reporter_start :: "bool \<Rightarrow> string option \<Rightarrow> string option \<Rightarrow> int \<Rightarrow> u32 \<Rightarrow> string \<Rightarrow> string \<Rightarrow> string \<Rightarrow> psk_reporter option" where
  "psk_reporter_start platform_ok host_variable port_variable now pid call grid soft =
     (let hostname = (case host_variable of Some h \<Rightarrow> if h = [] then ''report.pskreporter.info'' else h | None \<Rightarrow> ''report.pskreporter.info'');
          port = (case port_variable of Some p \<Rightarrow> if p = [] then ''4739'' else p | None \<Rightarrow> ''4739'')
      in if \<not> valid_text_length call 12 \<or> \<not> valid_text_length grid 6 \<or> \<not> valid_text_length soft 63 then None
         else if \<not> platform_ok \<or> length hostname \<ge> 256 \<or> length port \<ge> 8 then None
         else
           let obs = session_identifier now pid
           in Some \<lparr>queue = [], sequence = 0, observation_id = obs, packet_count = 0, templates_last_sent = 0,
                next_flush = now + PSK_REPORT_FLUSH_SECONDS + int (unat obs mod 31), stopping = False, started = True,
                receiver_call = call, receiver_grid = grid, software = soft,
                recent = replicate 256 \<lparr>callsign = [], sent_at = 0\<rparr>\<rparr>)"

fun improve :: "psk_report \<Rightarrow> psk_report list \<Rightarrow> psk_report list option" where
  "improve report [] = None"
| "improve report (q # qs) =
     (if sender_call q = sender_call report then Some ((if sint (snr report) > sint (snr q) then report else q) # qs)
      else map_option (Cons q) (improve report qs))"

definition psk_reporter_enqueue :: "int \<Rightarrow> psk_report option \<Rightarrow> psk_reporter \<Rightarrow> bool \<times> psk_reporter" where
  "psk_reporter_enqueue now report r =
     (case report of None \<Rightarrow> (False, r) | Some rep \<Rightarrow>
        if \<not> started r \<or> \<not> report_ok rep then (False, r)
        else if list_ex (\<lambda>e. callsign e = sender_call rep \<and> now - sent_at e < PSK_REPORT_FLUSH_SECONDS) (recent r) then (True, r)
        else case improve rep (queue r) of
          Some q \<Rightarrow> (True, r\<lparr>queue := q\<rparr>)
        | None \<Rightarrow>
            if length (queue r) \<ge> PSK_REPORT_QUEUE_CAPACITY \<or> stopping r then (False, r)
            else (True, r\<lparr>queue := queue r @ [rep]\<rparr>))"

definition psk_reporter_pending :: "psk_reporter \<Rightarrow> nat" where
  "psk_reporter_pending r = (if started r then length (queue r) else 0)"

text \<open>The place for a callsign: its own, the first free one, or the oldest; \<open>i\<close> is the place of the first element.\<close>

fun recent_slot :: "string \<Rightarrow> recent_sender list \<Rightarrow> nat \<Rightarrow> int \<Rightarrow> nat \<Rightarrow> nat" where
  "recent_slot call [] i oldest slot = slot"
| "recent_slot call (e # es) i oldest slot =
     (if callsign e = call \<or> callsign e = [] then i
      else if sent_at e < oldest then recent_slot call es (i + 1) (sent_at e) i
      else recent_slot call es (i + 1) oldest slot)"

definition mark_recent :: "psk_report list \<Rightarrow> int \<Rightarrow> recent_sender list \<Rightarrow> recent_sender list" where
  "mark_recent reports now rec =
     fold (\<lambda>rep rec. let slot = recent_slot (sender_call rep) rec 0 (sent_at (rec ! 0)) 0
                      in rec[slot := \<lparr>callsign = sender_call rep, sent_at = now\<rparr>]) reports rec"

section \<open>The sending thread\<close>

text \<open>The loop over the number of reports, and the packet it ends with.\<close>

fun packet_reports :: "psk_reporter \<Rightarrow> bool \<Rightarrow> int \<Rightarrow> nat \<Rightarrow> nat \<times> u8 list option" where
  "packet_reports r templates now 0 = (0, None)"
| "packet_reports r templates now (Suc n) =
     (case psk_reporter_build_packet PSK_REPORT_PACKET_CAPACITY (receiver_call r) (receiver_grid r) (software r) (take (Suc n) (queue r))
             (sequence r) (observation_id r) now templates of
        Some packet \<Rightarrow> (Suc n, Some packet)
      | None \<Rightarrow> packet_reports r templates now n)"

definition packet_report_count :: "psk_reporter \<Rightarrow> bool \<Rightarrow> int \<Rightarrow> nat \<times> u8 list option" where
  "packet_report_count r templates now = packet_reports r templates now (min (length (queue r)) PSK_REPORT_IMMEDIATE_COUNT)"

definition templates_due :: "int \<Rightarrow> psk_reporter \<Rightarrow> bool" where
  "templates_due now r \<longleftrightarrow> packet_count r < 3 \<or> now - templates_last_sent r \<ge> PSK_REPORT_TEMPLATE_SECONDS"

text \<open>
  One pass of the loop up to the call of the transport, with the mutex held, at a time when the thread does not go back to sleep:
  it has nothing to send, drops a report, or has built a packet of \<open>n\<close> reports.
\<close>

datatype send_action = Sleeping | Skip psk_reporter | Packet nat bool "u8 list"

definition thread_pass :: "int \<Rightarrow> psk_reporter \<Rightarrow> send_action" where
  "thread_pass now r =
     (if \<not> stopping r \<and> length (queue r) < PSK_REPORT_IMMEDIATE_COUNT \<and> now < next_flush r then Sleeping
      else if stopping r \<or> queue r = [] then Skip (if queue r = [] then r\<lparr>next_flush := flush_time now r\<rparr> else r)
      else case packet_report_count r (templates_due now r) now of
        (n, Some packet) \<Rightarrow> Packet n (templates_due now r) packet
      | (_, None) \<Rightarrow> Skip (r\<lparr>queue := tl (queue r)\<rparr>))"

text \<open>What follows when the transport has answered, at time \<open>now\<close>.\<close>

definition packet_answer :: "bool \<Rightarrow> nat \<Rightarrow> bool \<Rightarrow> int \<Rightarrow> psk_reporter \<Rightarrow> psk_reporter" where
  "packet_answer sent n templates now r =
     (if \<not> sent then r\<lparr>packet_count := 0, templates_last_sent := 0, next_flush := now + PSK_REPORT_RETRY_SECONDS\<rparr>
      else r\<lparr>recent := mark_recent (take n (queue r)) now (recent r),
             sequence := sequence r + word_of_nat n,
             packet_count := packet_count r + 1,
             templates_last_sent := (if templates then now else templates_last_sent r),
             queue := drop n (queue r),
             next_flush := flush_time now r\<rparr>)"

definition psk_reporter_stop :: "psk_reporter \<Rightarrow> psk_reporter" where
  "psk_reporter_stop r = (if started r then r\<lparr>stopping := True\<rparr> else r)"

text \<open>
  The threads take turns at the mutex; while a packet is on its way, reports can be added. The event of an enqueued report says
  what was answered and whether the report took a place of its own.
\<close>

datatype sender = Top | Sending nat bool "u8 list" | Left

datatype psk_event =
    Enqueue int psk_report bool bool
  | Stop
  | Pass int
  | Transmit int "u8 list"
  | Sent bool int
  | Exit

inductive psk_step :: "psk_reporter \<times> sender \<Rightarrow> psk_event \<Rightarrow> psk_reporter \<times> sender \<Rightarrow> bool" where
  enqueue: "psk_reporter_enqueue now (Some report) r = (ok, r') \<Longrightarrow> psk_step (r, u) (Enqueue now report ok (length (queue r) < length (queue r'))) (r', u)"
| stop: "psk_step (r, u) Stop (psk_reporter_stop r, u)"
| pass: "thread_pass now r = Skip r' \<Longrightarrow> psk_step (r, Top) (Pass now) (r', Top)"
| transmit: "thread_pass now r = Packet n templates packet \<Longrightarrow> psk_step (r, Top) (Transmit now packet) (r, Sending n templates packet)"
| sent: "psk_step (r, Sending n templates packet) (Sent ok now) (packet_answer ok n templates now r, Top)"
| exit: "stopping r \<Longrightarrow> psk_step (r, Top) Exit (r, Left)"

inductive psk_run :: "psk_reporter \<times> sender \<Rightarrow> psk_event list \<Rightarrow> psk_reporter \<times> sender \<Rightarrow> bool" where
  none: "psk_run s [] s"
| more: "psk_run s es s' \<Longrightarrow> psk_step s' e s'' \<Longrightarrow> psk_run s (es @ [e]) s''"


section \<open>Every packet carries as many reports as it may\<close>

lemma report_bytes_length: "report_ok r \<Longrightarrow> length (report_bytes r) \<le> 27"
  by (simp add: length_report_bytes report_ok_def valid_text_length_def)

lemma reports_length: "list_all report_ok rs \<Longrightarrow> length (concat (map report_bytes rs)) \<le> 27 * length rs"
  by (induction rs) (use report_bytes_length in \<open>fastforce+\<close>)

lemma packet_fits:
  assumes "valid_text_length call 12" "valid_text_length grid 6" "valid_text_length soft 63" "list_all report_ok rs" "length rs \<le> 40"
  shows "packet_size call grid soft rs templates \<le> 1400"
proof -
  have "length (concat (map report_bytes rs)) \<le> 1080" using reports_length [OF assms(4)] assms(5) by simp
  then have "sender_size rs \<le> 1087" using align_four_facts(1,2) [of "4 + length (concat (map report_bytes rs))"] by (simp add: sender_size_eq)
  moreover have "receiver_size call grid soft \<le> 91"
    using assms(1-3) align_four_facts(1,2) [of "7 + length call + length grid + length soft"] by (simp add: receiver_size_eq valid_text_length_def)
  ultimately show ?thesis by (simp add: packet_size_def)
qed

definition psk_inv :: "psk_reporter \<Rightarrow> bool" where
  "psk_inv r \<longleftrightarrow> valid_text_length (receiver_call r) 12 \<and> valid_text_length (receiver_grid r) 6 \<and> valid_text_length (software r) 63 \<and>
     list_all report_ok (queue r) \<and> distinct (map sender_call (queue r)) \<and> length (queue r) \<le> 512 \<and> length (recent r) = 256"

lemma packet_report_count_eq:
  assumes "psk_inv r" "0 \<le> now" "queue r \<noteq> []"
  shows "\<exists>packet. packet_report_count r templates now = (min (length (queue r)) 40, Some packet) \<and>
    psk_reporter_build_packet 1400 (receiver_call r) (receiver_grid r) (software r) (take 40 (queue r)) (sequence r) (observation_id r) now templates = Some packet"
proof -
  obtain n where n: "min (length (queue r)) 40 = Suc n" using assms(3) by (cases "min (length (queue r)) 40") (auto simp: min_def split: if_splits)
  have t: "take (Suc n) (queue r) = take 40 (queue r)" using n by (metis min.commute take_all_iff min_def order_refl take_take take_all)
  have ok: "packet_ok (receiver_call r) (receiver_grid r) (software r) (take 40 (queue r)) now"
    using assms by (auto simp: packet_ok_def psk_inv_def list_all_iff dest: in_set_takeD)
  have "packet_size (receiver_call r) (receiver_grid r) (software r) (take 40 (queue r)) templates \<le> 1400"
    using assms(1) ok by (intro packet_fits) (auto simp: psk_inv_def packet_ok_def)
  then have "\<exists>packet. psk_reporter_build_packet 1400 (receiver_call r) (receiver_grid r) (software r) (take 40 (queue r)) (sequence r) (observation_id r) now templates = Some packet"
    unfolding build_packet_eq using ok by auto
  then show ?thesis
    by (auto simp: packet_report_count_def PSK_REPORT_IMMEDIATE_COUNT_def PSK_REPORT_PACKET_CAPACITY_def n t)
qed

section \<open>Runs\<close>

lemma improve_None: "improve rep q = None \<longleftrightarrow> sender_call rep \<notin> sender_call ` set q"
  by (induction q) auto

lemma improve_Some:
  assumes "improve rep q = Some q'"
  shows "map sender_call q' = map sender_call q" "report_ok rep \<Longrightarrow> list_all report_ok q \<Longrightarrow> list_all report_ok q'"
  using assms by (induction q arbitrary: q') (auto split: if_splits)

lemma recent_slot_less: "slot < n \<Longrightarrow> i + length es \<le> n \<Longrightarrow> recent_slot call es i oldest slot < n"
  by (induction es arbitrary: i oldest slot) auto

lemma mark_recent_length: "length (mark_recent reports now rec) = length rec"
  unfolding mark_recent_def by (induction reports arbitrary: rec) (simp_all add: Let_def)

lemma enqueue_cases:
  assumes "psk_reporter_enqueue now (Some rep) r = (ok, r')"
  shows "r' = r \<or> (\<exists>q. ok \<and> report_ok rep \<and> improve rep (queue r) = Some q \<and> r' = r\<lparr>queue := q\<rparr>) \<or>
    ok \<and> report_ok rep \<and> sender_call rep \<notin> sender_call ` set (queue r) \<and> length (queue r) < 512 \<and> r' = r\<lparr>queue := queue r @ [rep]\<rparr>"
proof (cases "improve rep (queue r)")
  case None
  then have "sender_call rep \<notin> sender_call ` set (queue r)" by (simp add: improve_None)
  then show ?thesis using assms None unfolding psk_reporter_enqueue_def by (simp add: PSK_REPORT_QUEUE_CAPACITY_def split: if_splits)
next
  case (Some q)
  then show ?thesis using assms unfolding psk_reporter_enqueue_def by (simp split: if_splits)
qed

lemma enqueue_inv: "psk_inv r \<Longrightarrow> psk_reporter_enqueue now (Some rep) r = (ok, r') \<Longrightarrow> psk_inv r'"
proof -
  assume inv: "psk_inv r" and e: "psk_reporter_enqueue now (Some rep) r = (ok, r')"
  from enqueue_cases [OF e] show "psk_inv r'"
  proof (elim disjE exE conjE)
    fix q assume q: "report_ok rep" "improve rep (queue r) = Some q" "r' = r\<lparr>queue := q\<rparr>"
    have "length q = length (queue r)" using improve_Some(1) [OF q(2)] by (metis length_map)
    then show ?thesis using inv improve_Some [OF q(2)] q(1,3) by (simp add: psk_inv_def)
  next
    assume "report_ok rep" "sender_call rep \<notin> sender_call ` set (queue r)" "length (queue r) < 512" "r' = r\<lparr>queue := queue r @ [rep]\<rparr>"
    then show ?thesis using inv by (auto simp: psk_inv_def)
  qed (use inv in simp)
qed

text \<open>The packets that the transport confirmed, given the one on its way, and the callsigns that a packet reports.\<close>

fun confirmed :: "u8 list list \<Rightarrow> psk_event list \<Rightarrow> u8 list list" where
  "confirmed pending [] = []"
| "confirmed pending (e # es) = (case e of
     Transmit now packet \<Rightarrow> confirmed [packet] es
   | Sent ok now \<Rightarrow> (if ok then pending else []) @ confirmed [] es
   | _ \<Rightarrow> confirmed pending es)"

fun in_transit :: "u8 list list \<Rightarrow> psk_event list \<Rightarrow> u8 list list" where
  "in_transit pending [] = pending"
| "in_transit pending (e # es) = (case e of Transmit now packet \<Rightarrow> in_transit [packet] es | Sent ok now \<Rightarrow> in_transit [] es | _ \<Rightarrow> in_transit pending es)"

definition both_layouts :: layouts where
  "both_layouts = [0x9992 \<mapsto> (True, receiver_layout), 0x9993 \<mapsto> (False, sender_layout)]"

definition reported :: "u8 list \<Rightarrow> u8 list list" where
  "reported packet = (case read_message both_layouts packet of
     Some (_, msg) \<Rightarrow> map hd (snd (data_sets msg ! 1)) | None \<Rightarrow> [])"

fun joined :: "psk_event list \<Rightarrow> u8 list list" where
  "joined [] = []"
| "joined (e # es) = (case e of Enqueue now rep ok True \<Rightarrow> bytes_of (sender_call rep) # joined es | _ \<Rightarrow> joined es)"

fun event_time :: "psk_event \<Rightarrow> int" where
  "event_time (Enqueue now rep ok grown) = now"
| "event_time (Pass now) = now"
| "event_time (Transmit now packet) = now"
| "event_time (Sent ok now) = now"
| "event_time _ = 0"

lemma confirmed_append: "confirmed pending (es @ es') = confirmed pending es @ confirmed (in_transit pending es) es'"
  by (induction es arbitrary: pending) (auto split: psk_event.splits)

lemma in_transit_append: "in_transit pending (es @ es') = in_transit (in_transit pending es) es'"
  by (induction es arbitrary: pending) (auto split: psk_event.splits)

lemma joined_append: "joined (es @ es') = joined es @ joined es'"
  by (induction es) (auto split: psk_event.splits bool.splits)

definition queue_calls :: "psk_reporter \<Rightarrow> u8 list list" where
  "queue_calls r = map (\<lambda>rep. bytes_of (sender_call rep)) (queue r)"

lemma both_known: "knows_layouts both_layouts"
  by (simp add: knows_layouts_def both_layouts_def)

lemma packet_reported:
  assumes "psk_reporter_build_packet capacity call grid soft reports seq obs t templates = Some p"
  shows "reported p = map (\<lambda>rep. bytes_of (sender_call rep)) reports"
  using read_packet [OF assms disjI2 [OF both_known]] by (auto simp: reported_def report_fields_def)

text \<open>While a packet is on its way, its callsigns remain the first of the queue.\<close>

definition on_its_way :: "psk_reporter \<Rightarrow> sender \<Rightarrow> u8 list list \<Rightarrow> bool" where
  "on_its_way r u pending \<longleftrightarrow> (case u of
     Sending n templates packet \<Rightarrow> pending = [packet] \<and> n \<le> length (queue r) \<and> reported packet = take n (queue_calls r)
   | _ \<Rightarrow> pending = [])"

lemma enqueue_calls:
  assumes "psk_reporter_enqueue now (Some rep) r = (ok, r')"
  shows "queue_calls r' = queue_calls r @ (if length (queue r) < length (queue r') then [bytes_of (sender_call rep)] else [])"
    "length (queue r) \<le> length (queue r')" "sequence r' = sequence r"
proof -
  from enqueue_cases [OF assms] have "queue_calls r' = queue_calls r @ (if length (queue r) < length (queue r') then [bytes_of (sender_call rep)] else []) \<and>
    length (queue r) \<le> length (queue r') \<and> sequence r' = sequence r"
  proof (elim disjE exE conjE)
    fix q assume q: "improve rep (queue r) = Some q" "r' = r\<lparr>queue := q\<rparr>"
    have "length q = length (queue r)" using improve_Some(1) [OF q(1)] by (metis length_map)
    moreover have "map (\<lambda>rep. bytes_of (sender_call rep)) q = map (\<lambda>rep. bytes_of (sender_call rep)) (queue r)"
      using arg_cong [OF improve_Some(1) [OF q(1)], of "map bytes_of"] by (simp add: comp_def)
    ultimately show ?thesis using q(2) by (simp add: queue_calls_def)
  qed (simp_all add: queue_calls_def)
  then show "queue_calls r' = queue_calls r @ (if length (queue r) < length (queue r') then [bytes_of (sender_call rep)] else [])"
    "length (queue r) \<le> length (queue r')" "sequence r' = sequence r" by blast+
qed

lemma thread_pass_cases:
  assumes "psk_inv r" "0 \<le> now"
  shows "thread_pass now r = Skip r' \<Longrightarrow> queue r' = queue r \<and> sequence r' = sequence r \<and> psk_inv r'"
    and "thread_pass now r = Packet n templates packet \<Longrightarrow> n = min (length (queue r)) 40 \<and> 0 < n \<and> templates = templates_due now r \<and>
      psk_reporter_build_packet 1400 (receiver_call r) (receiver_grid r) (software r) (take 40 (queue r)) (sequence r) (observation_id r) now templates = Some packet"
proof -
  show "queue r' = queue r \<and> sequence r' = sequence r \<and> psk_inv r'" if "thread_pass now r = Skip r'"
    using that packet_report_count_eq [OF assms, of "templates_due now r"] assms(1)
    by (auto simp: thread_pass_def psk_inv_def split: if_splits)
  show "n = min (length (queue r)) 40 \<and> 0 < n \<and> templates = templates_due now r \<and>
      psk_reporter_build_packet 1400 (receiver_call r) (receiver_grid r) (software r) (take 40 (queue r)) (sequence r) (observation_id r) now templates = Some packet"
    if "thread_pass now r = Packet n templates packet"
    using that packet_report_count_eq [OF assms, of "templates_due now r"] by (auto simp: thread_pass_def split: if_splits)
qed

lemma answer_inv: "psk_inv r \<Longrightarrow> psk_inv (packet_answer ok n templates now r)"
  by (auto simp: packet_answer_def psk_inv_def mark_recent_length list_all_iff drop_map [symmetric] dest: in_set_dropD intro: distinct_drop)

lemma psk_run_invariant:
  assumes "psk_run (r0, Top) es s" "psk_inv r0" "queue r0 = []" "sequence r0 = 0"
  shows "list_all (\<lambda>e. 0 \<le> event_time e) es \<Longrightarrow> psk_inv (fst s) \<and> on_its_way (fst s) (snd s) (in_transit [] es) \<and>
    joined es = concat (map reported (confirmed [] es)) @ queue_calls (fst s) \<and>
    sequence (fst s) = word_of_nat (length (concat (map reported (confirmed [] es))))"
  using assms
proof (induction "(r0, Top)" es s rule: psk_run.induct)
  case none
  then show ?case by (simp add: on_its_way_def queue_calls_def)
next
  case (more es s' e s'')
  obtain r u where s': "s' = (r, u)" by (cases s')
  have IH: "psk_inv r" "on_its_way r u (in_transit [] es)" "joined es = concat (map reported (confirmed [] es)) @ queue_calls r"
    "sequence r = word_of_nat (length (concat (map reported (confirmed [] es))))" and time: "0 \<le> event_time e"
    using more.hyps(2) more.prems by (simp_all add: s')
  note app = confirmed_append in_transit_append joined_append
  from more.hyps(3) show ?case
    unfolding s'
  proof (cases rule: psk_step.cases)
    case (enqueue now report ok r')
    note calls = enqueue_calls [OF enqueue(3)]
    have "on_its_way r' u (in_transit [] es)"
      using IH(2) calls by (auto simp: on_its_way_def queue_calls_def split: sender.splits)
    then show ?thesis using enqueue IH enqueue_inv [OF IH(1) enqueue(3)] calls by (auto simp: app)
  next
    case stop
    then show ?thesis using IH by (auto simp: app psk_reporter_stop_def psk_inv_def on_its_way_def queue_calls_def split: sender.splits)
  next
    case (pass now r')
    then show ?thesis using IH time thread_pass_cases(1) [OF IH(1) _ pass(4)] by (simp add: app on_its_way_def queue_calls_def)
  next
    case (transmit now n templates packet)
    then have t: "0 \<le> now" using time by simp
    note pass = thread_pass_cases(2) [OF IH(1) t transmit(4)]
    then have p: "n = min (length (queue r)) 40" and
      b: "psk_reporter_build_packet 1400 (receiver_call r) (receiver_grid r) (software r) (take 40 (queue r)) (sequence r) (observation_id r) now templates = Some packet"
      by blast+
    have "reported packet = take n (queue_calls r)"
      using packet_reported [OF b] by (simp add: queue_calls_def p take_map min_def)
    then show ?thesis using transmit(1-3) IH p by (simp add: app on_its_way_def)
  next
    case (sent n templates packet ok now)
    have tr: "in_transit [] es = [packet]" "n \<le> length (queue r)" "reported packet = take n (queue_calls r)"
      using IH(2) sent(1) by (simp_all add: on_its_way_def)
    have "queue_calls (packet_answer ok n templates now r) = (if ok then drop n (queue_calls r) else queue_calls r)"
      "sequence (packet_answer ok n templates now r) = (if ok then sequence r + word_of_nat n else sequence r)"
      by (simp_all add: packet_answer_def queue_calls_def drop_map)
    then show ?thesis
      using sent IH tr answer_inv [OF IH(1)] by (simp add: app on_its_way_def queue_calls_def)
  next
    case exit
    then show ?thesis using IH by (simp add: app on_its_way_def)
  qed
qed

lemma psk_start_inv:
  assumes "psk_reporter_start ok host port now pid call grid soft = Some r"
  shows "psk_inv r" "queue r = []" "sequence r = 0"
  using assms by (auto simp: psk_reporter_start_def psk_inv_def Let_def split: if_splits)

lemma run_transmit:
  assumes "psk_run (r0, Top) es s"
  shows "es = xs @ Transmit now packet # ys \<Longrightarrow>
    \<exists>r n templates. psk_run (r0, Top) xs (r, Top) \<and> thread_pass now r = Packet n templates packet"
  using assms
proof (induction "(r0, Top)" es s arbitrary: ys rule: psk_run.induct)
  case (more es s' e s'')
  show ?case
  proof (cases ys rule: rev_cases)
    case Nil
    then have "es = xs" "e = Transmit now packet" using more.prems by simp_all
    from more.hyps(3) [unfolded this(2)] obtain r n templates where "s' = (r, Top)" "thread_pass now r = Packet n templates packet"
      by cases auto
    then show ?thesis using more.hyps(1) \<open>es = xs\<close> by blast
  next
    case (snoc ys' y)
    then show ?thesis using more.prems more.hyps(2) [of ys'] by simp
  qed
qed simp

section \<open>Callsigns just sent\<close>

definition free_places :: "recent_sender list \<Rightarrow> nat" where
  "free_places rec = length (filter (\<lambda>e. callsign e = []) rec)"

lemma recent_slot_found:
  "\<exists>e \<in> set es. callsign e = c \<or> callsign e = [] \<Longrightarrow>
    \<exists>k < length es. recent_slot c es i oldest slot = i + k \<and> (callsign (es ! k) = c \<or> callsign (es ! k) = [])"
proof (induction es arbitrary: i oldest slot)
  case (Cons e es)
  show ?case
  proof (cases "callsign e = c \<or> callsign e = []")
    case True
    then show ?thesis by (intro exI [of _ 0]) simp
  next
    case False
    then have "\<exists>e \<in> set es. callsign e = c \<or> callsign e = []" using Cons.prems by auto
    note IH = Cons.IH [OF this]
    obtain j ol sl where "recent_slot c (e # es) i oldest slot = recent_slot c es (i + 1) ol sl" using False by (cases "sent_at e < oldest") simp_all
    then show ?thesis using IH [of "i + 1" ol sl] by (metis Suc_less_eq add.assoc add.commute length_Cons nth_Cons_Suc plus_1_eq_Suc)
  qed
qed simp

lemma free_places_split: "free_places (xs @ e # ys) = free_places xs + (if callsign e = [] then 1 else 0) + free_places ys"
  by (simp add: free_places_def)

lemma free_places_update: "k < length rec \<Longrightarrow> free_places rec \<le> Suc (free_places (rec[k := e]))"
proof -
  assume k: "k < length rec"
  have "free_places rec = free_places (take k rec @ rec ! k # drop (Suc k) rec)" using id_take_nth_drop [OF k] by (rule arg_cong)
  then show ?thesis unfolding upd_conv_take_nth_drop [OF k] free_places_split by simp
qed

lemma mark_one:
  assumes "0 < free_places rec"
  shows "\<exists>k < length rec. mark_recent [rep] now rec = rec[k := \<lparr>callsign = sender_call rep, sent_at = now\<rparr>] \<and>
    (callsign (rec ! k) = sender_call rep \<or> callsign (rec ! k) = [])"
proof -
  have "\<exists>e \<in> set rec. callsign e = sender_call rep \<or> callsign e = []"
    using assms(1) by (auto simp: free_places_def filter_empty_conv)
  from recent_slot_found [OF this, of 0 "sent_at (rec ! 0)" 0] obtain k where "k < length rec"
    "recent_slot (sender_call rep) rec 0 (sent_at (rec ! 0)) 0 = k" "callsign (rec ! k) = sender_call rep \<or> callsign (rec ! k) = []"
    by auto
  then show ?thesis by (intro exI [of _ k]) (simp add: mark_recent_def)
qed

lemma mark_recent_Cons: "mark_recent (x # xs) now rec = mark_recent xs now (mark_recent [x] now rec)"
  by (simp add: mark_recent_def)

lemma mark_recent_marks:
  assumes "length xs \<le> free_places rec" and "list_all report_ok xs"
  shows "(\<forall>e \<in> set rec. callsign e \<noteq> [] \<and> callsign e \<notin> sender_call ` set xs \<longrightarrow> e \<in> set (mark_recent xs now rec)) \<and>
    (\<forall>rep \<in> set xs. \<exists>e \<in> set (mark_recent xs now rec). callsign e = sender_call rep \<and> sent_at e = now)"
  using assms
proof (induction xs arbitrary: rec)
  case Nil
  then show ?case by (simp add: mark_recent_def)
next
  case (Cons x xs)
  let ?e = "\<lparr>callsign = sender_call x, sent_at = now\<rparr>"
  obtain k where k: "k < length rec" "mark_recent [x] now rec = rec[k := ?e]" "callsign (rec ! k) = sender_call x \<or> callsign (rec ! k) = []"
    using mark_one [of rec x now] Cons.prems(1) by auto
  have "length xs \<le> free_places (rec[k := ?e])" using free_places_update [OF k(1), of ?e] Cons.prems(1) by simp
  then have IH: "\<forall>e \<in> set (rec[k := ?e]). callsign e \<noteq> [] \<and> callsign e \<notin> sender_call ` set xs \<longrightarrow> e \<in> set (mark_recent (x # xs) now rec)"
    "\<forall>rep \<in> set xs. \<exists>e \<in> set (mark_recent (x # xs) now rec). callsign e = sender_call rep \<and> sent_at e = now"
    using Cons.IH [of "rec[k := ?e]"] Cons.prems(2) unfolding mark_recent_Cons [of x xs] k(2) by simp_all
  have new: "?e \<in> set (rec[k := ?e])" using k(1) by (rule set_update_memI)
  have old: "e \<in> set (rec[k := ?e])" if e: "e \<in> set rec" "callsign e \<noteq> []" "callsign e \<noteq> sender_call x" for e
  proof -
    obtain i where "i < length rec" "rec ! i = e" using e(1) by (auto simp: in_set_conv_nth)
    moreover have "i \<noteq> k" using calculation(2) e(2,3) k(3) by auto
    ultimately show ?thesis using nth_mem [of i "rec[k := ?e]"] by simp
  qed
  have x: "sender_call x \<noteq> []" using Cons.prems(2) by (simp add: report_ok_def valid_text_length_def)
  have "\<exists>e \<in> set (mark_recent (x # xs) now rec). callsign e = sender_call x \<and> sent_at e = now"
  proof (cases "sender_call x \<in> sender_call ` set xs")
    case True
    then obtain y where y: "y \<in> set xs" "sender_call x = sender_call y" by (rule imageE)
    show ?thesis unfolding y(2) using IH(2) y(1) by (rule bspec)
  next
    case False
    have "?e \<in> set (mark_recent (x # xs) now rec)" using IH(1) new x False by simp
    then show ?thesis by (rule bexI [rotated]) simp
  qed
  moreover have "e \<in> set (mark_recent (x # xs) now rec)" if "e \<in> set rec" "callsign e \<noteq> []" "callsign e \<notin> sender_call ` set (x # xs)" for e
    using IH(1) old [of e] that by simp
  ultimately show ?case using IH(2) by simp
qed

section \<open>Properties\<close>

text \<open>
  C18: a reader of IPFIX messages who knows nothing but the templates (from this packet or an earlier one) recovers exactly what was
  sent: time, sequence number, session, the receiver and every report with callsign, frequency, signal-to-noise ratio, mode and
  time, and the packet has the length it declares and fits its buffer.
\<close>

theorem psk_packet_roundtrip:
  assumes "psk_reporter_build_packet capacity call grid soft reports seq obs t templates = Some p" and "templates \<or> knows_layouts known"
  shows "length p = packet_size call grid soft reports templates \<and> length p \<le> capacity \<and>
    (\<exists>known'. knows_layouts known' \<and> read_message known p =
      Some (known', \<lparr>export_time = unat (word_of_int t :: u32), sequence_number = unat seq, domain = unat obs,
        data_sets = [(0x9992, [[bytes_of call, bytes_of grid, bytes_of soft]]), (0x9993, map report_fields reports)]\<rparr>))"
  using assms by (rule read_packet)

definition demo_psk :: psk_report where
  "demo_psk = \<lparr>sender_call = ''PJ4/K1ABC'', frequency_hz = 14074500, snr = - 12, flow_start = 1767225600\<rparr>"

theorem psk_packet_roundtrip_witness:
  "\<exists>p known'. psk_reporter_build_packet 1400 ''DL1XYZ'' ''JO62'' ''demo'' [demo_psk] 7 8 1767225615 True = Some p \<and>
    length p = packet_size ''DL1XYZ'' ''JO62'' ''demo'' [demo_psk] True \<and> knows_layouts known' \<and> read_message Map.empty p =
      Some (known', \<lparr>export_time = unat (word_of_int 1767225615 :: u32), sequence_number = unat (7 :: u32), domain = unat (8 :: u32),
        data_sets = [(0x9992, [[bytes_of ''DL1XYZ'', bytes_of ''JO62'', bytes_of ''demo'']]), (0x9993, map report_fields [demo_psk])]\<rparr>)"
proof -
  have ok: "packet_ok ''DL1XYZ'' ''JO62'' ''demo'' [demo_psk] 1767225615"
    by (simp add: packet_ok_def valid_text_length_def report_ok_def demo_psk_def)
  then have "packet_size ''DL1XYZ'' ''JO62'' ''demo'' [demo_psk] True \<le> 1400" by (intro packet_fits) (auto simp: packet_ok_def)
  then obtain p where p: "psk_reporter_build_packet 1400 ''DL1XYZ'' ''JO62'' ''demo'' [demo_psk] 7 8 1767225615 True = Some p"
    unfolding build_packet_eq using ok by simp
  show ?thesis using p psk_packet_roundtrip [OF p disjI1 [OF TrueI], of Map.empty] by blast
qed

text \<open>
  C7: in every run of the two threads, whatever the transport answers and whenever it does, every callsign that took a place in
  the queue is reported in exactly one confirmed packet, in the order of the queue, or still waits; no callsign waits twice; the
  sequence number of each packet is the number of reports confirmed before it; and a packet carries the first 40 reports, or all.
\<close>

theorem psk_delivers_once:
  assumes "psk_reporter_start ok host port now pid call grid soft = Some r0" and "psk_run (r0, Top) es (r, u)"
    and "list_all (\<lambda>e. 0 \<le> event_time e) es"
  shows "joined es = concat (map reported (confirmed [] es)) @ queue_calls r \<and> distinct (map sender_call (queue r)) \<and> length (queue r) \<le> 512 \<and>
    (\<forall>xs t packet ys. es = xs @ Transmit t packet # ys \<longrightarrow> (\<exists>r' templates. psk_run (r0, Top) xs (r', Top) \<and>
      psk_reporter_build_packet 1400 (receiver_call r') (receiver_grid r') (software r') (take 40 (queue r'))
        (word_of_nat (length (concat (map reported (confirmed [] xs))))) (observation_id r') t templates = Some packet))"
proof (intro conjI allI impI)
  note start = psk_start_inv [OF assms(1)]
  note inv = psk_run_invariant [OF assms(2) start assms(3)]
  show "joined es = concat (map reported (confirmed [] es)) @ queue_calls r" using inv by simp
  show "distinct (map sender_call (queue r))" "length (queue r) \<le> 512" using inv by (simp_all add: psk_inv_def)
  fix xs t packet ys assume es: "es = xs @ Transmit t packet # ys"
  then obtain r' n templates where r': "psk_run (r0, Top) xs (r', Top)" "thread_pass t r' = Packet n templates packet"
    using run_transmit [OF assms(2)] by blast
  have times: "list_all (\<lambda>e. 0 \<le> event_time e) xs" "0 \<le> t" using assms(3) es by simp_all
  note inv' = psk_run_invariant [OF r'(1) start times(1)]
  then have i: "psk_inv r'" and q: "sequence r' = word_of_nat (length (concat (map reported (confirmed [] xs))))" by simp_all
  from thread_pass_cases(2) [OF i times(2) r'(2)]
  show "\<exists>r' templates. psk_run (r0, Top) xs (r', Top) \<and>
      psk_reporter_build_packet 1400 (receiver_call r') (receiver_grid r') (software r') (take 40 (queue r'))
        (word_of_nat (length (concat (map reported (confirmed [] xs))))) (observation_id r') t templates = Some packet"
    using r'(1) unfolding q by blast
qed

theorem psk_delivers_once_witness:
  "\<exists>r0 r es. psk_run (r0, Top) es (r, Top) \<and> es \<noteq> [] \<and>
    joined es = concat (map reported (confirmed [] es)) @ queue_calls r \<and> distinct (map sender_call (queue r)) \<and> length (queue r) \<le> 512"
proof -
  obtain r0 where r0: "psk_reporter_start True None None 0 1 ''DL1XYZ'' ''JO62'' ''demo'' = Some r0"
    by (simp add: psk_reporter_start_def valid_text_length_def Let_def)
  have "psk_reporter_enqueue 1 (Some demo_psk) r0 = (True, r0\<lparr>queue := [demo_psk]\<rparr>)"
    using r0 by (auto simp: psk_reporter_start_def psk_reporter_enqueue_def report_ok_def demo_psk_def valid_text_length_def Let_def
        PSK_REPORT_QUEUE_CAPACITY_def list_ex_iff split: if_splits)
  from psk_run.more [OF psk_run.none psk_step.enqueue [OF this], of Top]
  have run: "psk_run (r0, Top) [Enqueue 1 demo_psk True (length (queue r0) < 1)] (r0\<lparr>queue := [demo_psk]\<rparr>, Top)" by simp
  from psk_delivers_once [OF r0 run] run show ?thesis by fastforce
qed

text \<open>
  A callsign reported in a packet that was sent is not queued again within five minutes: as long as the table of recent
  senders has room for the callsigns of the packet, a later report of one of them is acknowledged and changes nothing.
\<close>

theorem psk_no_repeat:
  assumes "psk_inv r" and "started r" and "n \<le> free_places (recent r)" and "i < n" and "i < length (queue r)"
    and "report_ok rep" and "sender_call rep = sender_call (queue r ! i)" and "t \<le> t'" and "t' < t + 300"
  shows "let r' = packet_answer True n templates t r in psk_reporter_enqueue t' (Some rep) r' = (True, r')"
proof -
  let ?r = "packet_answer True n templates t r"
  have "length (take n (queue r)) \<le> free_places (recent r)" "list_all report_ok (take n (queue r))"
    using assms(1,3) by (auto simp: psk_inv_def list_all_iff dest: in_set_takeD)
  moreover have "queue r ! i \<in> set (take n (queue r))" using assms(4,5) by (auto simp: in_set_conv_nth)
  ultimately obtain e where "e \<in> set (recent ?r)" "callsign e = sender_call rep" "sent_at e = t"
    using mark_recent_marks [of "take n (queue r)" "recent r" t] assms(7) by (auto simp: packet_answer_def)
  then have "list_ex (\<lambda>e. callsign e = sender_call rep \<and> t' - sent_at e < PSK_REPORT_FLUSH_SECONDS) (recent ?r)"
    using assms(9) by (auto simp: list_ex_iff PSK_REPORT_FLUSH_SECONDS_def)
  moreover have "started ?r" using assms(2) by (simp add: packet_answer_def)
  ultimately show ?thesis using assms(6) by (simp add: psk_reporter_enqueue_def Let_def)
qed

theorem psk_no_repeat_witness:
  "\<exists>r. queue r = [demo_psk] \<and> (let r' = packet_answer True 1 True 100 r in psk_reporter_enqueue 399 (Some demo_psk) r' = (True, r'))"
proof -
  obtain r0 where r0: "psk_reporter_start True None None 0 1 ''DL1XYZ'' ''JO62'' ''demo'' = Some r0"
    by (simp add: psk_reporter_start_def valid_text_length_def Let_def)
  let ?r = "r0\<lparr>queue := [demo_psk]\<rparr>"
  have ok: "report_ok demo_psk" by (simp add: report_ok_def demo_psk_def valid_text_length_def)
  have "psk_inv ?r" "started ?r" "1 \<le> free_places (recent ?r)"
    using psk_start_inv [OF r0] r0 ok by (auto simp: psk_inv_def psk_reporter_start_def Let_def free_places_def split: if_splits)
  from psk_no_repeat [OF this, of 0 demo_psk 100 399 True] ok show ?thesis by (intro exI [of _ ?r]) simp
qed

end
