(* ===== verification/Dsp.thy ===== *)
theory Dsp
  imports Prelude
begin

text \<open>
  \<open>decimator.c\<close> and \<open>ft8_resampler.c\<close>: the filters between the radio and the decoders. The operations on \<open>float\<close> and
  \<open>double\<close> are arguments; the order in which the code applies them is kept.
\<close>

section \<open>Arithmetic\<close>

record ('f, 'd) dsp_ops =
  d_of_f :: "'f \<Rightarrow> 'd"
  f_of_d :: "'d \<Rightarrow> 'f"
  f_frac :: "int \<Rightarrow> int \<Rightarrow> 'f"
  f_times :: "'f \<Rightarrow> 'f \<Rightarrow> 'f"
  d_frac :: "int \<Rightarrow> int \<Rightarrow> 'd"
  d_add :: "'d \<Rightarrow> 'd \<Rightarrow> 'd"
  d_sub :: "'d \<Rightarrow> 'd \<Rightarrow> 'd"
  d_mul :: "'d \<Rightarrow> 'd \<Rightarrow> 'd"
  d_div :: "'d \<Rightarrow> 'd \<Rightarrow> 'd"
  d_less :: "'d \<Rightarrow> 'd \<Rightarrow> bool"
  d_equal :: "'d \<Rightarrow> 'd \<Rightarrow> bool"
  d_fmax :: "'d \<Rightarrow> 'd \<Rightarrow> 'd"
  d_sqrt :: "'d \<Rightarrow> 'd"
  d_hypot :: "'d \<Rightarrow> 'd \<Rightarrow> 'd"
  d_sin :: "'d \<Rightarrow> 'd"
  d_cos :: "'d \<Rightarrow> 'd"

text \<open>A number of type \<open>uint32_t\<close> as a \<open>double\<close>.\<close>

definition d_of_u32 :: "('f, 'd) dsp_ops \<Rightarrow> u32 \<Rightarrow> 'd" where
  "d_of_u32 ops n = d_frac ops (uint n) 1"

section \<open>The decimator\<close>

definition WSPR_OUTPUT_RATE :: u32 where "WSPR_OUTPUT_RATE = 375"
definition WSPR_FIR_TAPS :: nat where "WSPR_FIR_TAPS = 33"

text \<open>The coefficients, in units of 1e-10.\<close>

definition compensation_fir :: "('f, 'd) dsp_ops \<Rightarrow> 'f list" where
  "compensation_fir ops = map (\<lambda>n. f_frac ops n 10000000000) [
    - 27772683, - 5058826, 49745750, - 34059318,
    - 77557814, 139375423, 39896935, - 299394142,
    162250643, 405130860, - 580746013, - 272104968,
    1183705475, - 306029022, - 2011241667, 1615898423,
    5000000000,
    1615898423, - 2011241667, - 306029022, 1183705475,
    - 272104968, - 580746013, 405130860, 162250643,
    - 299394142, 39896935, 139375423, - 77557814,
    - 34059318, 49745750, - 5058826, - 27772683]"

record ('f, 'd) wspr_decimator =
  factor :: u32
  phase :: u32
  i_integrator_1 :: 'd
  i_integrator_2 :: 'd
  q_integrator_1 :: 'd
  q_integrator_2 :: 'd
  i_comb_1_z1 :: 'd
  i_comb_1_z2 :: 'd
  i_comb_2_z1 :: 'd
  i_comb_2_z2 :: 'd
  q_comb_1_z1 :: 'd
  q_comb_1_z2 :: 'd
  q_comb_2_z1 :: 'd
  q_comb_2_z2 :: 'd
  i_fir :: "'f list"
  q_fir :: "'f list"

text \<open>\<open>memset\<close> with zero.\<close>

definition decimator_zero :: "('f, 'd) dsp_ops \<Rightarrow> ('f, 'd) wspr_decimator" where
  "decimator_zero ops = \<lparr>factor = 0, phase = 0,
     i_integrator_1 = d_frac ops 0 1, i_integrator_2 = d_frac ops 0 1, q_integrator_1 = d_frac ops 0 1, q_integrator_2 = d_frac ops 0 1,
     i_comb_1_z1 = d_frac ops 0 1, i_comb_1_z2 = d_frac ops 0 1, i_comb_2_z1 = d_frac ops 0 1, i_comb_2_z2 = d_frac ops 0 1,
     q_comb_1_z1 = d_frac ops 0 1, q_comb_1_z2 = d_frac ops 0 1, q_comb_2_z1 = d_frac ops 0 1, q_comb_2_z2 = d_frac ops 0 1,
     i_fir = replicate WSPR_FIR_TAPS (f_frac ops 0 1), q_fir = replicate WSPR_FIR_TAPS (f_frac ops 0 1)\<rparr>"

definition wspr_decimator_init :: "('f, 'd) dsp_ops \<Rightarrow> u32 \<Rightarrow> ('f, 'd) wspr_decimator option" where
  "wspr_decimator_init ops input_rate =
     (if input_rate = 0 \<or> input_rate mod WSPR_OUTPUT_RATE \<noteq> 0 then None
      else Some ((decimator_zero ops)\<lparr>factor := input_rate div WSPR_OUTPUT_RATE\<rparr>))"

definition wspr_decimator_reset :: "('f, 'd) dsp_ops \<Rightarrow> ('f, 'd) wspr_decimator \<Rightarrow> ('f, 'd) wspr_decimator" where
  "wspr_decimator_reset ops st = (decimator_zero ops)\<lparr>factor := factor st\<rparr>"

text \<open>The loops that move the samples of a filter, and that add its products up.\<close>

definition shift_fir :: "'f list \<Rightarrow> 'f \<Rightarrow> 'f list" where
  "shift_fir fir new = (fold (\<lambda>index fir. fir[index := fir ! (index + 1)]) [0..<WSPR_FIR_TAPS - 1] fir)[WSPR_FIR_TAPS - 1 := new]"

definition fir_sum :: "('f, 'd) dsp_ops \<Rightarrow> 'f list \<Rightarrow> 'd" where
  "fir_sum ops fir = fold (\<lambda>index sum. d_add ops sum (d_of_f ops (f_times ops (fir ! index) (compensation_fir ops ! index)))) [0..<WSPR_FIR_TAPS] (d_frac ops 0 1)"

definition wspr_decimator_process :: "('f, 'd) dsp_ops \<Rightarrow> ('f, 'd) wspr_decimator \<Rightarrow> 'f \<Rightarrow> 'f \<Rightarrow> ('f, 'd) wspr_decimator \<times> ('f \<times> 'f) option" where
  "wspr_decimator_process ops st input_i input_q =
     (if factor st = 0 then (st, None)
      else
        let st = st\<lparr>i_integrator_1 := d_add ops (i_integrator_1 st) (d_of_f ops input_i), q_integrator_1 := d_add ops (q_integrator_1 st) (d_of_f ops input_q)\<rparr>;
            st = st\<lparr>i_integrator_2 := d_add ops (i_integrator_2 st) (i_integrator_1 st), q_integrator_2 := d_add ops (q_integrator_2 st) (q_integrator_1 st)\<rparr>;
            st = st\<lparr>phase := phase st + 1\<rparr>
        in if phase st < factor st then (st, None)
           else
             let st = st\<lparr>phase := 0\<rparr>;
                 i_comb_1 = d_sub ops (i_integrator_2 st) (i_comb_1_z2 st);
                 q_comb_1 = d_sub ops (q_integrator_2 st) (q_comb_1_z2 st);
                 st = st\<lparr>i_comb_1_z2 := i_comb_1_z1 st, q_comb_1_z2 := q_comb_1_z1 st\<rparr>;
                 st = st\<lparr>i_comb_1_z1 := i_integrator_2 st, q_comb_1_z1 := q_integrator_2 st\<rparr>;
                 i_comb_2 = d_sub ops i_comb_1 (i_comb_2_z2 st);
                 q_comb_2 = d_sub ops q_comb_1 (q_comb_2_z2 st);
                 st = st\<lparr>i_comb_2_z2 := i_comb_2_z1 st, q_comb_2_z2 := q_comb_2_z1 st\<rparr>;
                 st = st\<lparr>i_comb_2_z1 := i_comb_1, q_comb_2_z1 := q_comb_1\<rparr>;
                 st = st\<lparr>i_fir := shift_fir (i_fir st) (f_of_d ops i_comb_2), q_fir := shift_fir (q_fir st) (f_of_d ops q_comb_2)\<rparr>;
                 scale = d_mul ops (d_mul ops (d_frac ops 4 1) (d_of_u32 ops (factor st))) (d_of_u32 ops (factor st))
             in (st, Some (f_of_d ops (d_div ops (fir_sum ops (i_fir st)) scale), f_of_d ops (d_div ops (fir_sum ops (q_fir st)) scale))))"

section \<open>The resampler\<close>

definition FT8_AUDIO_RATE :: u32 where "FT8_AUDIO_RATE = 12000"
definition FT8_RESAMPLER_TAPS :: u32 where "FT8_RESAMPLER_TAPS = 513"

fun bessel_loop :: "('f, 'd) dsp_ops \<Rightarrow> 'd \<Rightarrow> nat list \<Rightarrow> 'd \<Rightarrow> 'd \<Rightarrow> 'd" where
  "bessel_loop ops quarter_square [] acc term = acc"
| "bessel_loop ops quarter_square (order # orders) acc term =
     (let term = d_mul ops term (d_div ops quarter_square (d_mul ops (d_frac ops (int order) 1) (d_frac ops (int order) 1)));
          acc = d_add ops acc term
      in if d_less ops term (d_mul ops acc (d_frac ops 1 (10 ^ 15))) then acc else bessel_loop ops quarter_square orders acc term)"

definition bessel_i0 :: "('f, 'd) dsp_ops \<Rightarrow> 'd \<Rightarrow> 'd" where
  "bessel_i0 ops value = bessel_loop ops (d_div ops (d_mul ops value value) (d_frac ops 4 1)) [1..<32] (d_frac ops 1 1) (d_frac ops 1 1)"

definition M_PI :: "('f, 'd) dsp_ops \<Rightarrow> 'd" where
  "M_PI ops = d_frac ops 314159265358979323846 (10 ^ 20)"

definition filter_coefficient :: "('f, 'd) dsp_ops \<Rightarrow> u32 \<Rightarrow> nat \<Rightarrow> 'f" where
  "filter_coefficient ops input_rate index =
     (let center = d_div ops (d_of_u32 ops (FT8_RESAMPLER_TAPS - 1)) (d_frac ops 2 1);
          normalized_cutoff = d_div ops (d_frac ops 4000 1) (d_of_u32 ops input_rate);
          window_scale = bessel_i0 ops (d_frac ops 86 10);
          offset = d_sub ops (d_frac ops (int index) 1) center;
          position = d_div ops offset center;
          window = d_div ops (bessel_i0 ops (d_mul ops (d_frac ops 86 10)
             (d_sqrt ops (d_fmax ops (d_frac ops 0 1) (d_sub ops (d_frac ops 1 1) (d_mul ops position position)))))) window_scale;
          ideal = (if d_equal ops offset (d_frac ops 0 1) then d_mul ops (d_frac ops 2 1) normalized_cutoff
                   else d_div ops (d_sin ops (d_mul ops (d_mul ops (d_mul ops (d_frac ops 2 1) (M_PI ops)) normalized_cutoff) offset)) (d_mul ops (M_PI ops) offset))
      in f_of_d ops (d_mul ops ideal window))"

definition design_filter :: "('f, 'd) dsp_ops \<Rightarrow> u32 \<Rightarrow> 'f list" where
  "design_filter ops input_rate =
     (let coefficients = map (filter_coefficient ops input_rate) [0..<unat FT8_RESAMPLER_TAPS];
          coefficient_sum = fold (\<lambda>c sum. d_add ops sum (d_of_f ops c)) coefficients (d_frac ops 0 1)
      in map (\<lambda>c. f_of_d ops (d_div ops (d_of_f ops c) coefficient_sum)) coefficients)"

record ('f, 'd) ft8_resampler =
  rs_factor :: u32
  rs_phase :: u32
  write_index :: u32
  oscillator_samples :: u32
  oscillator_cos :: 'd
  oscillator_sin :: 'd
  oscillator_step_cos :: 'd
  oscillator_step_sin :: 'd
  coefficients :: "'f list"
  history :: "'f list"

definition ft8_resampler_init :: "('f, 'd) dsp_ops \<Rightarrow> u32 \<Rightarrow> ('f, 'd) ft8_resampler option" where
  "ft8_resampler_init ops input_rate =
     (if input_rate < FT8_AUDIO_RATE \<or> input_rate mod FT8_AUDIO_RATE \<noteq> 0 then None
      else
        let step = d_div ops (d_mul ops (d_mul ops (d_frac ops 2 1) (M_PI ops)) (d_frac ops 1500 1)) (d_of_u32 ops input_rate)
        in Some \<lparr>rs_factor = input_rate div FT8_AUDIO_RATE, rs_phase = 0, write_index = 0, oscillator_samples = 0,
             oscillator_cos = d_frac ops 1 1, oscillator_sin = d_frac ops 0 1, oscillator_step_cos = d_cos ops step, oscillator_step_sin = d_sin ops step,
             coefficients = design_filter ops input_rate, history = replicate (unat FT8_RESAMPLER_TAPS) (f_frac ops 0 1)\<rparr>)"

definition ft8_resampler_reset :: "('f, 'd) dsp_ops \<Rightarrow> ('f, 'd) ft8_resampler \<Rightarrow> ('f, 'd) ft8_resampler" where
  "ft8_resampler_reset ops st = \<lparr>rs_factor = rs_factor st, rs_phase = 0, write_index = 0, oscillator_samples = 0,
     oscillator_cos = d_frac ops 1 1, oscillator_sin = d_frac ops 0 1, oscillator_step_cos = oscillator_step_cos st, oscillator_step_sin = oscillator_step_sin st,
     coefficients = coefficients st, history = replicate (unat FT8_RESAMPLER_TAPS) (f_frac ops 0 1)\<rparr>"

definition turn_oscillator :: "('f, 'd) dsp_ops \<Rightarrow> ('f, 'd) ft8_resampler \<Rightarrow> ('f, 'd) ft8_resampler" where
  "turn_oscillator ops st =
     (let next_cos = d_sub ops (d_mul ops (oscillator_cos st) (oscillator_step_cos st)) (d_mul ops (oscillator_sin st) (oscillator_step_sin st));
          next_sin = d_add ops (d_mul ops (oscillator_sin st) (oscillator_step_cos st)) (d_mul ops (oscillator_cos st) (oscillator_step_sin st));
          st = st\<lparr>oscillator_cos := next_cos, oscillator_sin := next_sin, oscillator_samples := oscillator_samples st + 1\<rparr>
      in if oscillator_samples st = 4096
         then let magnitude = d_hypot ops (oscillator_cos st) (oscillator_sin st)
              in st\<lparr>oscillator_cos := d_div ops (oscillator_cos st) magnitude, oscillator_sin := d_div ops (oscillator_sin st) magnitude, oscillator_samples := 0\<rparr>
         else st)"

definition history_sum :: "('f, 'd) dsp_ops \<Rightarrow> ('f, 'd) ft8_resampler \<Rightarrow> 'd" where
  "history_sum ops st = fold (\<lambda>index sum.
     let history_index = (write_index st + word_of_nat index) mod FT8_RESAMPLER_TAPS
     in d_add ops sum (d_of_f ops (f_times ops (coefficients st ! index) (history st ! unat history_index)))) [0..<unat FT8_RESAMPLER_TAPS] (d_frac ops 0 1)"

definition ft8_resampler_process :: "('f, 'd) dsp_ops \<Rightarrow> ('f, 'd) ft8_resampler \<Rightarrow> 'f \<Rightarrow> 'f \<Rightarrow> ('f, 'd) ft8_resampler \<times> 'f option" where
  "ft8_resampler_process ops st input_i input_q =
     (if rs_factor st = 0 then (st, None)
      else
        let st = st\<lparr>history := (history st)[unat (write_index st) :=
              f_of_d ops (d_sub ops (d_mul ops (d_of_f ops input_i) (oscillator_cos st)) (d_mul ops (d_of_f ops input_q) (oscillator_sin st)))]\<rparr>;
            st = st\<lparr>write_index := (write_index st + 1) mod FT8_RESAMPLER_TAPS\<rparr>;
            st = turn_oscillator ops st;
            st = st\<lparr>rs_phase := rs_phase st + 1\<rparr>
        in if rs_phase st < rs_factor st then (st, None)
           else let st = st\<lparr>rs_phase := 0\<rparr> in (st, Some (f_of_d ops (history_sum ops st))))"

section \<open>Streams\<close>

text \<open>One sample after the other, and the outputs that were ready.\<close>

fun outputs :: "('s \<Rightarrow> 'x \<Rightarrow> 's \<times> 'y option) \<Rightarrow> 's \<Rightarrow> 'x list \<Rightarrow> 's \<times> 'y list" where
  "outputs process st [] = (st, [])"
| "outputs process st (x # xs) =
     (let (st, ready) = process st x; (st, ys) = outputs process st xs in (st, (case ready of None \<Rightarrow> [] | Some y \<Rightarrow> [y]) @ ys))"

definition decimate :: "('f, 'd) dsp_ops \<Rightarrow> ('f, 'd) wspr_decimator \<Rightarrow> ('f \<times> 'f) list \<Rightarrow> ('f, 'd) wspr_decimator \<times> ('f \<times> 'f) list" where
  "decimate ops = outputs (\<lambda>st (i, q). wspr_decimator_process ops st i q)"

definition resample :: "('f, 'd) dsp_ops \<Rightarrow> ('f, 'd) ft8_resampler \<Rightarrow> ('f \<times> 'f) list \<Rightarrow> ('f, 'd) ft8_resampler \<times> 'f list" where
  "resample ops = outputs (\<lambda>st (i, q). ft8_resampler_process ops st i q)"

lemma outputs_snoc:
  "outputs process st (xs @ [x]) =
     (let (st', ys) = outputs process st xs; (st'', ready) = process st' x in (st'', ys @ (case ready of None \<Rightarrow> [] | Some y \<Rightarrow> [y])))"
  by (induction xs arbitrary: st) (auto split: prod.splits)

text \<open>The samples that came before there were any.\<close>

definition stream :: "'x \<Rightarrow> (nat \<Rightarrow> 'x) \<Rightarrow> int \<Rightarrow> 'x" where
  "stream z f j = (if j < 0 then z else f (nat j))"

text \<open>A phase that counts to a factor: what the next value is, and how many rounds are complete.\<close>

lemma phase_step:
  fixes phase factor :: u32
  assumes "unat phase = n mod unat factor" and "factor \<noteq> 0"
  shows "phase + 1 < factor \<Longrightarrow> unat (phase + 1) = Suc n mod unat factor \<and> Suc n div unat factor = n div unat factor \<and> Suc n mod unat factor \<noteq> 0"
    and "\<not> phase + 1 < factor \<Longrightarrow> Suc n mod unat factor = 0 \<and> Suc n div unat factor = Suc (n div unat factor) \<and> Suc n = Suc (n div unat factor) * unat factor"
proof -
  have f: "0 < unat factor" using assms(2) by (simp add: unat_gt_0)
  have l0: "unat phase < unat factor" using assms(1) f by simp
  moreover have b: "unat factor < 2 ^ LENGTH(32)" by (rule unsigned_less)
  ultimately have p: "unat (phase + 1) = unat phase + 1" by (simp add: unat_word_ariths)
  have n: "n = n div unat factor * unat factor + unat phase" using assms(1) by simp
  show "unat (phase + 1) = Suc n mod unat factor \<and> Suc n div unat factor = n div unat factor \<and> Suc n mod unat factor \<noteq> 0" if "phase + 1 < factor"
  proof -
    have l: "unat phase + 1 < unat factor" using that p by (simp add: word_less_nat_alt)
    have "Suc n = (unat phase + 1) + n div unat factor * unat factor" using n by simp
    then have "Suc n mod unat factor = (unat phase + 1) mod unat factor" "Suc n div unat factor = n div unat factor + (unat phase + 1) div unat factor"
      using f by (metis mod_mult_self1, metis add.commute div_mult_self1 less_numeral_extra(3))
    then show ?thesis using l p by simp
  qed
  show "Suc n mod unat factor = 0 \<and> Suc n div unat factor = Suc (n div unat factor) \<and> Suc n = Suc (n div unat factor) * unat factor"
    if "\<not> phase + 1 < factor"
  proof -
    have "unat phase + 1 = unat factor" using that p l0 by (simp add: word_less_nat_alt)
    then have e: "Suc n = Suc (n div unat factor) * unat factor" using n by simp
    then show ?thesis using f by (metis mod_mult_self2_is_0 nonzero_mult_div_cancel_right less_numeral_extra(3))
  qed
qed

section \<open>The resampler is a filter\<close>

text \<open>The oscillator and the mixed sample at a place of the stream.\<close>

definition oscillator :: "('f, 'd) dsp_ops \<Rightarrow> ('f, 'd) ft8_resampler \<Rightarrow> nat \<Rightarrow> ('f, 'd) ft8_resampler" where
  "oscillator ops st n = (turn_oscillator ops ^^ n) st"

definition mixed :: "('f, 'd) dsp_ops \<Rightarrow> ('f, 'd) ft8_resampler \<Rightarrow> ('f \<times> 'f) list \<Rightarrow> nat \<Rightarrow> 'f" where
  "mixed ops st xs n =
     f_of_d ops (d_sub ops (d_mul ops (d_of_f ops (fst (xs ! n))) (oscillator_cos (oscillator ops st n)))
                           (d_mul ops (d_of_f ops (snd (xs ! n))) (oscillator_sin (oscillator ops st n))))"

text \<open>The filter: the last 513 samples, the oldest first, with zeros before the start.\<close>

definition filtered :: "('f, 'd) dsp_ops \<Rightarrow> 'f list \<Rightarrow> (int \<Rightarrow> 'f) \<Rightarrow> nat \<Rightarrow> 'f" where
  "filtered ops coefs h n =
     f_of_d ops (fold (\<lambda>index acc. d_add ops acc (d_of_f ops (f_times ops (coefs ! index) (h (int n - 513 + int index))))) [0..<513] (d_frac ops 0 1))"

lemma turn_oscillator_frame:
  "turn_oscillator ops (st\<lparr>rs_phase := p\<rparr>) = (turn_oscillator ops st)\<lparr>rs_phase := p\<rparr>"
  "turn_oscillator ops (st\<lparr>history := h\<rparr>) = (turn_oscillator ops st)\<lparr>history := h\<rparr>"
  "turn_oscillator ops (st\<lparr>write_index := w\<rparr>) = (turn_oscillator ops st)\<lparr>write_index := w\<rparr>"
  "rs_factor (turn_oscillator ops st) = rs_factor st" "rs_phase (turn_oscillator ops st) = rs_phase st"
  "history (turn_oscillator ops st) = history st" "write_index (turn_oscillator ops st) = write_index st"
  "coefficients (turn_oscillator ops st) = coefficients st"
  by (simp_all add: turn_oscillator_def Let_def)

text \<open>What holds after the first \<open>n\<close> samples.\<close>

definition resampled :: "('f, 'd) dsp_ops \<Rightarrow> ('f, 'd) ft8_resampler \<Rightarrow> (int \<Rightarrow> 'f) \<Rightarrow> nat \<Rightarrow> ('f, 'd) ft8_resampler \<Rightarrow> bool" where
  "resampled ops st0 h n st \<longleftrightarrow>
     (\<exists>p w hist. st = (oscillator ops st0 n)\<lparr>history := hist, write_index := w, rs_phase := p\<rparr> \<and>
       unat p = n mod unat (rs_factor st0) \<and> unat w = n mod 513 \<and> length hist = 513 \<and>
       (\<forall>i < 513. hist ! ((n + i) mod 513) = h (int n - 513 + int i)))"

lemma ring_store:
  assumes "length hist = 513" and "\<forall>i < 513. hist ! ((n + i) mod 513) = h (int n - 513 + int i)" and "v = h (int n)"
  shows "\<forall>i < 513. (hist[n mod 513 := v]) ! ((Suc n + i) mod 513) = h (int (Suc n) - 513 + int i)"
proof (intro allI impI)
  fix i :: nat
  assume i: "i < 513"
  show "(hist[n mod 513 := v]) ! ((Suc n + i) mod 513) = h (int (Suc n) - 513 + int i)"
  proof (cases "i = 512")
    case True
    have "(Suc n + i) mod 513 = n mod 513" using True by (simp add: mod_add_self2 [of n 513, simplified])
    then show ?thesis using True assms(1,3) by simp
  next
    case False
    then have "Suc i < 513" using i by simp
    then have "hist ! ((n + Suc i) mod 513) = h (int n - 513 + int (Suc i))" using assms(2) by blast
    moreover have "(n + Suc i) mod 513 \<noteq> n mod 513"
    proof
      assume "(n + Suc i) mod 513 = n mod 513"
      then have "513 dvd Suc i" using mod_eq_dvd_iff_nat [of n "n + Suc i" 513] by simp
      then show False using \<open>Suc i < 513\<close> by (simp add: nat_dvd_not_less)
    qed
    ultimately show ?thesis by (simp add: algebra_simps)
  qed
qed

lemma ring_index: "unat w = n mod 513 \<Longrightarrow> i < 513 \<Longrightarrow> unat ((w + word_of_nat i) mod FT8_RESAMPLER_TAPS) = (n + i) mod 513"
proof -
  assume w: "unat w = n mod 513" and i: "i < 513"
  have "unat w < 513" using w by simp
  moreover have u: "unat (word_of_nat i :: u32) = i" using i by (simp add: unat_of_nat)
  ultimately have "unat (w + word_of_nat i) = unat w + i" using i by (simp add: unat_word_ariths u)
  then show ?thesis using w by (simp add: unat_mod FT8_RESAMPLER_TAPS_def mod_add_left_eq)
qed

lemma ring_next: "unat w = n mod 513 \<Longrightarrow> unat ((w + 1) mod FT8_RESAMPLER_TAPS) = Suc n mod 513"
  using ring_index [of w n 1] by simp

lemma resampler_step:
  assumes "resampled ops st0 (stream z (mixed ops st0 xs)) n st" and "rs_factor st0 \<noteq> 0" and "xs ! n = (i, q)"
  shows "\<exists>st'. ft8_resampler_process ops st i q =
      (st', if Suc n mod unat (rs_factor st0) = 0 then Some (filtered ops (coefficients st0) (stream z (mixed ops st0 xs)) (Suc n)) else None) \<and>
    resampled ops st0 (stream z (mixed ops st0 xs)) (Suc n) st'"
proof -
  let ?h = "stream z (mixed ops st0 xs)" and ?F = "unat (rs_factor st0)"
  obtain p w hist where st: "st = (oscillator ops st0 n)\<lparr>history := hist, write_index := w, rs_phase := p\<rparr>"
    and p: "unat p = n mod ?F" and w: "unat w = n mod 513" and hist: "length hist = 513" "\<forall>i < 513. hist ! ((n + i) mod 513) = ?h (int n - 513 + int i)"
    using assms(1) by (auto simp: resampled_def)
  let ?hist = "hist[n mod 513 := mixed ops st0 xs n]" and ?w = "(w + 1) mod FT8_RESAMPLER_TAPS"
  have h: "length ?hist = 513" "\<forall>i < 513. ?hist ! ((Suc n + i) mod 513) = ?h (int (Suc n) - 513 + int i)"
    using hist(1) ring_store [OF hist, of "mixed ops st0 xs n"] by (simp_all add: stream_def)
  have w': "unat ?w = Suc n mod 513" by (rule ring_next [OF w])
  have fr: "rs_factor (oscillator ops st0 n) = rs_factor st0" "coefficients (oscillator ops st0 n) = coefficients st0"
    by (induction n) (simp_all add: oscillator_def turn_oscillator_frame)
  have o: "turn_oscillator ops (oscillator ops st0 n) = oscillator ops st0 (Suc n)" by (simp add: oscillator_def)
  have fr': "rs_factor (oscillator ops st0 (Suc n)) = rs_factor st0" "coefficients (oscillator ops st0 (Suc n)) = coefficients st0"
    using fr by (simp_all add: o [symmetric] turn_oscillator_frame)
  have sum: "f_of_d ops (history_sum ops ((oscillator ops st0 (Suc n))\<lparr>history := ?hist, write_index := ?w, rs_phase := a\<rparr>)) =
      filtered ops (coefficients st0) ?h (Suc n)" for a
    unfolding history_sum_def filtered_def
    by (rule arg_cong [where f = "f_of_d ops"], rule fold_cong) (use h(2) ring_index [OF w'] fr' in \<open>auto simp: Let_def FT8_RESAMPLER_TAPS_def\<close>)
  have step: "ft8_resampler_process ops st i q =
     (if p + 1 < rs_factor st0 then ((oscillator ops st0 (Suc n))\<lparr>history := ?hist, write_index := ?w, rs_phase := p + 1\<rparr>, None)
      else let st = (oscillator ops st0 (Suc n))\<lparr>history := ?hist, write_index := ?w, rs_phase := 0\<rparr> in (st, Some (f_of_d ops (history_sum ops st))))"
    using assms(2,3) fr by (simp add: ft8_resampler_process_def st Let_def turn_oscillator_frame o fr' w mixed_def)
  show ?thesis
  proof (cases "p + 1 < rs_factor st0")
    case True
    have "unat (p + 1) = Suc n mod ?F" "Suc n mod ?F \<noteq> 0" using phase_step(1) [OF p assms(2) True] by simp_all
    then show ?thesis using True step h w' unfolding resampled_def by (intro exI conjI) auto
  next
    case False
    from phase_step(2) [OF p assms(2) False] have m: "Suc n mod ?F = 0" by blast
    show ?thesis using step False sum h w' m unfolding resampled_def Let_def by (intro exI conjI) auto
  qed
qed

text \<open>Outputs are ready at the multiples of the factor.\<close>

definition every :: "nat \<Rightarrow> nat \<Rightarrow> (nat \<Rightarrow> 'y) \<Rightarrow> 'y list" where
  "every k n f = map (\<lambda>j. f (Suc j * k)) [0..<n div k]"

lemma every_Suc: "0 < k \<Longrightarrow> every k (Suc n) f = every k n f @ (if Suc n mod k = 0 then [f (Suc n)] else [])"
proof (cases "Suc n mod k = 0")
  case True
  then have "Suc n div k = Suc (n div k)" by (simp add: div_Suc)
  moreover have "Suc n div k * k = Suc n" using True by (simp add: mod_0_imp_dvd)
  ultimately show ?thesis using True by (simp add: every_def)
qed (simp add: every_def div_Suc)

lemma run_stream:
  assumes "P 0 st0" and "0 < k"
    and "\<And>n st. P n st \<Longrightarrow> n < length xs \<Longrightarrow> \<exists>st'. process st (xs ! n) = (st', if Suc n mod k = 0 then Some (f (Suc n)) else None) \<and> P (Suc n) st'"
  shows "\<exists>st. outputs process st0 xs = (st, every k (length xs) f) \<and> P (length xs) st"
proof -
  have "\<exists>st. outputs process st0 (take n xs) = (st, every k n f) \<and> P n st" if "n \<le> length xs" for n
    using that
  proof (induction n)
    case 0
    then show ?case using assms(1) by (simp add: every_def)
  next
    case (Suc n)
    then obtain st where st: "outputs process st0 (take n xs) = (st, every k n f)" "P n st" by auto
    obtain st' where st': "process st (xs ! n) = (st', if Suc n mod k = 0 then Some (f (Suc n)) else None)" "P (Suc n) st'"
      using assms(3) [OF st(2)] Suc.prems by auto
    have "take (Suc n) xs = take n xs @ [xs ! n]" using Suc.prems by (simp add: take_Suc_conv_app_nth)
    then show ?case using st st' assms(2) by (auto simp: outputs_snoc every_Suc)
  qed
  from this [of "length xs"] show ?thesis by simp
qed

lemma resample_filtered:
  assumes "ft8_resampler_init ops input_rate = Some st0" and "rs_factor st0 = F"
  shows "\<exists>st. resample ops st0 xs =
    (st, every (unat F) (length xs) (filtered ops (coefficients st0) (stream (f_frac ops 0 1) (mixed ops st0 xs)))) \<and>
    resampled ops st0 (stream (f_frac ops 0 1) (mixed ops st0 xs)) (length xs) st"
  unfolding resample_def
proof (rule run_stream)
  have i: "FT8_AUDIO_RATE \<le> input_rate" "F = input_rate div FT8_AUDIO_RATE" "history st0 = replicate 513 (f_frac ops 0 1)"
    "write_index st0 = 0" "rs_phase st0 = 0"
    using assms by (auto simp: ft8_resampler_init_def Let_def FT8_RESAMPLER_TAPS_def split: if_splits)
  then have "unat F = unat input_rate div 12000" "12000 \<le> unat input_rate"
    by (simp_all add: unat_div FT8_AUDIO_RATE_def word_le_nat_alt)
  then show "0 < unat F" by simp
  then have nz: "rs_factor st0 \<noteq> 0" using assms(2) by (auto simp: unat_eq_zero)
  show "resampled ops st0 (stream (f_frac ops 0 1) (mixed ops st0 xs)) 0 st0"
    unfolding resampled_def
    by (intro exI [of _ 0] exI [of _ "replicate 513 (f_frac ops 0 1)"]) (use i in \<open>simp add: oscillator_def stream_def\<close>)
  show "\<exists>st'. (case xs ! n of (i, q) \<Rightarrow> ft8_resampler_process ops st i q) =
      (st', if Suc n mod unat F = 0 then Some (filtered ops (coefficients st0) (stream (f_frac ops 0 1) (mixed ops st0 xs)) (Suc n)) else None) \<and>
      resampled ops st0 (stream (f_frac ops 0 1) (mixed ops st0 xs)) (Suc n) st'"
    if "resampled ops st0 (stream (f_frac ops 0 1) (mixed ops st0 xs)) n st" for n st
    using resampler_step [OF that nz] assms(2) by (cases "xs ! n") simp
qed

section \<open>The decimator is a filter\<close>

lemma fir_shift_loop:
  "n + 1 \<le> length fir \<Longrightarrow> fold (\<lambda>index fir. fir[index := fir ! (index + 1)]) [0..<n] fir = take n (tl fir) @ drop n fir"
proof (induction n)
  case (Suc n)
  then have "take (Suc n) (tl fir) = take n (tl fir) @ [fir ! (n + 1)]" by (simp add: take_Suc_conv_app_nth nth_tl)
  moreover have "drop n fir = fir ! n # drop (Suc n) fir" using Suc.prems by (simp add: Cons_nth_drop_Suc)
  ultimately show ?case using Suc by (simp add: list_update_append nth_append)
qed simp

lemma shift_fir_eq: "length fir = 33 \<Longrightarrow> shift_fir fir new = tl fir @ [new]"
proof -
  assume l: "length fir = 33"
  have "drop 32 fir = [fir ! 32]" using l by (simp add: Cons_nth_drop_Suc [symmetric])
  moreover have "take 32 (tl fir) = tl fir" using l by simp
  ultimately have "fold (\<lambda>index fir. fir[index := fir ! (index + 1)]) [0..<32] fir = tl fir @ [fir ! 32]"
    using fir_shift_loop [of 32 fir] l by simp
  then show ?thesis using l by (simp add: shift_fir_def WSPR_FIR_TAPS_def list_update_append)
qed

text \<open>Sums of everything before a place, once and twice.\<close>

definition before1 :: "(int \<Rightarrow> 'd :: ab_group_add) \<Rightarrow> int \<Rightarrow> 'd" where
  "before1 x n = (\<Sum>j \<in> {0..<n}. x j)"

definition before2 :: "(int \<Rightarrow> 'd :: ab_group_add) \<Rightarrow> int \<Rightarrow> 'd" where
  "before2 x n = (\<Sum>j \<in> {1..n}. before1 x j)"

text \<open>The moving sum of \<open>w\<close> samples, taken twice.\<close>

definition box2 :: "(int \<Rightarrow> 'd :: ab_group_add) \<Rightarrow> nat \<Rightarrow> int \<Rightarrow> 'd" where
  "box2 x w n = (\<Sum>a < w. \<Sum>b < w. x (n - 1 - int a - int b))"

lemma before1_step: "\<forall>j < 0. x j = 0 \<Longrightarrow> before1 x (n + 1) = before1 x n + x n"
proof (cases "0 \<le> n")
  case True
  then have "{0..<n + 1} = insert n {0..<n}" by auto
  then show ?thesis by (simp add: before1_def add.commute)
qed (simp add: before1_def)

lemma before2_step: "before2 x (n + 1) = before2 x n + before1 x (n + 1)"
proof (cases "0 \<le> n")
  case True
  then have "{1..n + 1} = insert (n + 1) {1..n}" by auto
  then show ?thesis by (simp add: before2_def add.commute)
qed (simp add: before2_def before1_def)

lemma telescope: "(\<And>n :: int. T (n + 1) = T n + g n) \<Longrightarrow> T n - T (n - int w) = (\<Sum>b < w. g (n - 1 - int b) :: 'd :: ab_group_add)"
proof (induction w)
  case (Suc w)
  have "T (n - int w) = T (n - 1 - int w) + g (n - 1 - int w)" using Suc.prems [of "n - 1 - int w"] by (simp add: algebra_simps)
  moreover have "n - int (Suc w) = n - 1 - int w" by simp
  ultimately show ?case using Suc by (simp add: algebra_simps)
qed simp

lemma box2_combs:
  assumes "\<forall>j < 0. x j = 0"
  shows "(before2 x n - before2 x (n - int w)) - (before2 x (n - int w) - before2 x (n - int w - int w)) = box2 x w n"
proof -
  have t: "before2 x m - before2 x (m - int w) = (\<Sum>a < w. before1 x (m - int a))" for m
    using telescope [of "before2 x" "\<lambda>n. before1 x (n + 1)" m w, OF before2_step] by (simp add: algebra_simps)
  have "before1 x (n - int a) - before1 x (n - int w - int a) = (\<Sum>b < w. x (n - 1 - int a - int b))" for a
    using telescope [of "before1 x" x "n - int a" w, OF before1_step [OF assms]] by (simp add: algebra_simps)
  then show ?thesis unfolding t box2_def by (simp add: sum_subtractf [symmetric])
qed

text \<open>What holds of one of the channels after \<open>n\<close> samples, \<open>m\<close> rounds of \<open>k\<close> of them complete.\<close>

definition fir_tap :: "('f, 'd :: ab_group_add) dsp_ops \<Rightarrow> nat \<Rightarrow> (int \<Rightarrow> 'd) \<Rightarrow> int \<Rightarrow> 'f" where
  "fir_tap ops k x m = (if m \<le> 0 then f_frac ops 0 1 else f_of_d ops (box2 x (2 * k) (m * int k)))"

definition comb :: "nat \<Rightarrow> (int \<Rightarrow> 'd :: ab_group_add) \<Rightarrow> int \<Rightarrow> 'd" where
  "comb k x m = before2 x (m * int k) - before2 x ((m - 2) * int k)"

definition channel :: "('f, 'd :: ab_group_add) dsp_ops \<Rightarrow> nat \<Rightarrow> (int \<Rightarrow> 'd) \<Rightarrow> nat \<Rightarrow> 'd \<Rightarrow> 'd \<Rightarrow> 'd \<Rightarrow> 'd \<Rightarrow> 'd \<Rightarrow> 'd \<Rightarrow> 'f list \<Rightarrow> bool" where
  "channel ops k x n s1 s2 c1z1 c1z2 c2z1 c2z2 fir \<longleftrightarrow>
     (let m = int (n div k)
      in s1 = before1 x (int n) \<and> s2 = before2 x (int n) \<and> c1z1 = before2 x (m * int k) \<and> c1z2 = before2 x ((m - 1) * int k) \<and>
         c2z1 = comb k x m \<and> c2z2 = comb k x (m - 1) \<and> fir = map (\<lambda>i. fir_tap ops k x (m - 32 + int i)) [0..<33])"

lemma channel_start: "channel ops k x 0 0 0 0 0 0 0 (replicate 33 (f_frac ops 0 1))"
proof -
  have z: "n \<le> 0 \<Longrightarrow> before1 x n = 0" "n \<le> 0 \<Longrightarrow> before2 x n = 0" for n by (simp_all add: before1_def before2_def)
  have "replicate 33 (f_frac ops 0 1) = map (\<lambda>i. fir_tap ops k x (0 - 32 + int i)) [0..<33]"
    by (intro nth_equalityI) (auto simp: fir_tap_def)
  moreover have "comb k x 0 = 0" "comb k x (- 1) = 0" by (simp_all add: comb_def z mult_nonneg_nonneg mult_nonpos_nonneg)
  ultimately show ?thesis by (simp add: channel_def z mult_nonpos_nonneg)
qed

lemma channel_wait:
  assumes "channel ops k x n s1 s2 c1z1 c1z2 c2z1 c2z2 fir" and "\<forall>j < 0. x j = 0" and "Suc n div k = n div k"
  shows "channel ops k x (Suc n) (s1 + x (int n)) (s2 + (s1 + x (int n))) c1z1 c1z2 c2z1 c2z2 fir"
  using assms before1_step [OF assms(2), of "int n"] before2_step [of x "int n"]
  by (simp add: channel_def Let_def add.commute)

lemma channel_ready:
  assumes "channel ops k x n s1 s2 c1z1 c1z2 c2z1 c2z2 fir" and "\<forall>j < 0. x j = 0"
    and "Suc n div k = Suc (n div k)" and "Suc n = Suc (n div k) * k"
  shows "channel ops k x (Suc n) (s1 + x (int n)) (s2 + (s1 + x (int n))) (s2 + (s1 + x (int n))) c1z1
     (s2 + (s1 + x (int n)) - c1z2) c2z1 (tl fir @ [f_of_d ops (s2 + (s1 + x (int n)) - c1z2 - c2z2)])"
proof -
  let ?m = "int (n div k)"
  note c = assms(1) [unfolded channel_def Let_def]
  have s: "s1 + x (int n) = before1 x (int (Suc n))" "s2 + (s1 + x (int n)) = before2 x (int (Suc n))"
    using c before1_step [OF assms(2), of "int n"] before2_step [of x "int n"] by (simp_all add: add.commute)
  have n: "int (Suc n) = (?m + 1) * int k" by (subst assms(4)) (simp add: algebra_simps)
  have c1: "before2 x (int (Suc n)) - c1z2 = comb k x (?m + 1)" using c n by (simp add: comb_def)
  have e: "(?m + 1) * int k - int (2 * k) = (?m - 1) * int k" "(?m - 1) * int k - int (2 * k) = (?m - 3) * int k" by (simp_all add: algebra_simps)
  have "comb k x (?m + 1) = before2 x ((?m + 1) * int k) - before2 x ((?m - 1) * int k)"
    "comb k x (?m - 1) = before2 x ((?m - 1) * int k) - before2 x ((?m - 3) * int k)" by (simp_all add: comb_def)
  moreover have "c2z2 = comb k x (?m - 1)" using c by blast
  ultimately have "comb k x (?m + 1) - c2z2 = box2 x (2 * k) ((?m + 1) * int k)"
    using box2_combs [OF assms(2), of "(?m + 1) * int k" "2 * k", unfolded e] by (simp only:)
  then have t: "f_of_d ops (comb k x (?m + 1) - c2z2) = fir_tap ops k x (?m + 1)" by (simp add: fir_tap_def)
  have f: "tl fir @ [fir_tap ops k x (?m + 1)] = map (\<lambda>i. fir_tap ops k x (?m + 1 - 32 + int i)) [0..<33]"
  proof (rule nth_equalityI)
    show "(tl fir @ [fir_tap ops k x (?m + 1)]) ! i = map (\<lambda>i. fir_tap ops k x (?m + 1 - 32 + int i)) [0..<33] ! i"
      if "i < length (tl fir @ [fir_tap ops k x (?m + 1)])" for i
      using that c by (cases "i = 32") (auto simp: nth_append nth_tl algebra_simps)
  qed (use c in simp)
  have m: "int (Suc n div k) = ?m + 1" using assms(3) by simp
  have z: "c1z1 = before2 x ((?m + 1 - 1) * int k)" "c2z1 = comb k x (?m + 1 - 1)" using c by simp_all
  show ?thesis unfolding channel_def Let_def m
    by (intro conjI s(1) s(2) z) (simp_all only: s(2) n [symmetric] c1 t f)
qed

text \<open>Exact arithmetic: sums and differences are those of a group.\<close>

definition exact :: "('f, 'd :: ab_group_add) dsp_ops \<Rightarrow> bool" where
  "exact ops \<longleftrightarrow> (\<forall>a b. d_add ops a b = a + b) \<and> (\<forall>a b. d_sub ops a b = a - b) \<and> d_frac ops 0 1 = 0"

text \<open>A channel of the input, and the output at a sample that completes a round: the filter over the moving sums.\<close>

definition channel_in :: "('f, 'd :: ab_group_add) dsp_ops \<Rightarrow> ('f \<times> 'f \<Rightarrow> 'f) \<Rightarrow> ('f \<times> 'f) list \<Rightarrow> int \<Rightarrow> 'd" where
  "channel_in ops part xs = stream 0 (\<lambda>n. d_of_f ops (part (xs ! n)))"

definition channel_out :: "('f, 'd :: ab_group_add) dsp_ops \<Rightarrow> u32 \<Rightarrow> (int \<Rightarrow> 'd) \<Rightarrow> nat \<Rightarrow> 'f" where
  "channel_out ops k x n =
     f_of_d ops (d_div ops (fir_sum ops (map (\<lambda>i. fir_tap ops (unat k) x (int (n div unat k) - 32 + int i)) [0..<33]))
       (d_mul ops (d_mul ops (d_frac ops 4 1) (d_of_u32 ops k)) (d_of_u32 ops k)))"

definition decimated :: "('f, 'd :: ab_group_add) dsp_ops \<Rightarrow> u32 \<Rightarrow> ('f \<times> 'f) list \<Rightarrow> nat \<Rightarrow> ('f, 'd) wspr_decimator \<Rightarrow> bool" where
  "decimated ops k xs n st \<longleftrightarrow> factor st = k \<and> unat (phase st) = n mod unat k \<and>
     channel ops (unat k) (channel_in ops fst xs) n (i_integrator_1 st) (i_integrator_2 st) (i_comb_1_z1 st) (i_comb_1_z2 st) (i_comb_2_z1 st) (i_comb_2_z2 st) (i_fir st) \<and>
     channel ops (unat k) (channel_in ops snd xs) n (q_integrator_1 st) (q_integrator_2 st) (q_comb_1_z1 st) (q_comb_1_z2 st) (q_comb_2_z1 st) (q_comb_2_z2 st) (q_fir st)"

lemma channel_in_before: "\<forall>j < 0. channel_in ops part xs j = 0"
  by (simp add: channel_in_def stream_def)

lemma channel_fir: "channel ops k x n s1 s2 c1z1 c1z2 c2z1 c2z2 fir \<Longrightarrow>
    length fir = 33 \<and> fir = map (\<lambda>i. fir_tap ops k x (int (n div k) - 32 + int i)) [0..<33]"
  by (simp add: channel_def Let_def)

lemma decimator_step:
  assumes "exact ops" and "decimated ops k xs n st" and "k \<noteq> 0" and "n < length xs"
  shows "\<exists>st'. (case xs ! n of (i, q) \<Rightarrow> wspr_decimator_process ops st i q) =
      (st', if Suc n mod unat k = 0 then Some (channel_out ops k (channel_in ops fst xs) (Suc n), channel_out ops k (channel_in ops snd xs) (Suc n)) else None) \<and>
    decimated ops k xs (Suc n) st'"
proof -
  let ?x = "channel_in ops fst xs" and ?y = "channel_in ops snd xs"
  note b = channel_in_before [of ops _ xs]
  have f: "factor st = k" and p: "unat (phase st) = n mod unat k" and
    ci: "channel ops (unat k) ?x n (i_integrator_1 st) (i_integrator_2 st) (i_comb_1_z1 st) (i_comb_1_z2 st) (i_comb_2_z1 st) (i_comb_2_z2 st) (i_fir st)" and
    cq: "channel ops (unat k) ?y n (q_integrator_1 st) (q_integrator_2 st) (q_comb_1_z1 st) (q_comb_1_z2 st) (q_comb_2_z1 st) (q_comb_2_z2 st) (q_fir st)"
    using assms(2) by (auto simp: decimated_def)
  have e: "d_add ops a b = a + b" "d_sub ops a b = a - b" for a b using assms(1) by (simp_all add: exact_def)
  have x: "d_of_f ops (fst (xs ! n)) = ?x (int n)" "d_of_f ops (snd (xs ! n)) = ?y (int n)" by (simp_all add: channel_in_def stream_def)
  show ?thesis
  proof (cases "phase st + 1 < k")
    case True
    note ps = phase_step(1) [OF p assms(3) True]
    have n: "Suc n div unat k = n div unat k" using ps by blast
    show ?thesis using True f assms(3) ps channel_wait [OF ci b n] channel_wait [OF cq b n]
      by (simp add: case_prod_beta wspr_decimator_process_def Let_def e x decimated_def)
  next
    case False
    have ps: "Suc n mod unat k = 0" "Suc n div unat k = Suc (n div unat k)" "Suc n = Suc (n div unat k) * unat k"
      using phase_step(2) [OF p assms(3) False] by blast+
    note ri = channel_ready [OF ci b ps(2,3)] and rq = channel_ready [OF cq b ps(2,3)]
    note fi = channel_fir [OF ri] and fq = channel_fir [OF rq]
    have l: "length (i_fir st) = 33" "length (q_fir st) = 33" using channel_fir [OF ci] channel_fir [OF cq] by blast+
    obtain st' where st': "wspr_decimator_process ops st (fst (xs ! n)) (snd (xs ! n)) =
        (st', Some (f_of_d ops (d_div ops (fir_sum ops (i_fir st')) (d_mul ops (d_mul ops (d_frac ops 4 1) (d_of_u32 ops k)) (d_of_u32 ops k))),
          f_of_d ops (d_div ops (fir_sum ops (q_fir st')) (d_mul ops (d_mul ops (d_frac ops 4 1) (d_of_u32 ops k)) (d_of_u32 ops k)))))"
      and d: "decimated ops k xs (Suc n) st'"
      using False f assms(3) ps ri rq
      by (simp add: wspr_decimator_process_def Let_def e x decimated_def shift_fir_eq l)
    have "i_fir st' = map (\<lambda>i. fir_tap ops (unat k) ?x (int (Suc n div unat k) - 32 + int i)) [0..<33]"
      "q_fir st' = map (\<lambda>i. fir_tap ops (unat k) ?y (int (Suc n div unat k) - 32 + int i)) [0..<33]"
      using d channel_fir unfolding decimated_def by blast+
    then show ?thesis using st' d ps(1) by (simp add: case_prod_beta channel_out_def)
  qed
qed

lemma decimate_filtered:
  assumes "exact ops" and "wspr_decimator_init ops input_rate = Some st0" and "factor st0 = k"
  shows "\<exists>st. decimate ops st0 xs =
    (st, every (unat k) (length xs) (\<lambda>n. (channel_out ops k (channel_in ops fst xs) n, channel_out ops k (channel_in ops snd xs) n))) \<and>
    decimated ops k xs (length xs) st"
  unfolding decimate_def
proof (rule run_stream)
  have i: "input_rate \<noteq> 0" "input_rate mod 375 = 0" "k = input_rate div 375" "st0 = (decimator_zero ops)\<lparr>factor := k\<rparr>"
    using assms(2,3) by (auto simp: wspr_decimator_init_def WSPR_OUTPUT_RATE_def split: if_splits)
  have "unat input_rate mod 375 = 0" using unat_mod [of input_rate 375] by (simp add: i(2))
  moreover have "unat k = unat input_rate div 375" by (simp add: i(3) unat_div)
  moreover have "unat input_rate \<noteq> 0" using i(1) by (simp add: unat_eq_zero)
  ultimately show "0 < unat k" by auto
  then have nz: "k \<noteq> 0" by (auto simp: unat_eq_zero)
  have z: "d_frac ops 0 1 = 0" using assms(1) by (simp add: exact_def)
  show "decimated ops k xs 0 st0"
    unfolding decimated_def i(4) decimator_zero_def WSPR_FIR_TAPS_def z by (simp add: channel_start)
  show "\<exists>st'. (case xs ! n of (i, q) \<Rightarrow> wspr_decimator_process ops st i q) =
      (st', if Suc n mod unat k = 0 then Some (channel_out ops k (channel_in ops fst xs) (Suc n), channel_out ops k (channel_in ops snd xs) (Suc n)) else None) \<and>
      decimated ops k xs (Suc n) st'"
    if "decimated ops k xs n st" "n < length xs" for n st
    by (rule decimator_step [OF assms(1) that(1) nz that(2)])
qed

text \<open>
  On any input the resampler gives one sample of audio for each whole group of \<open>factor\<close> inputs, and each is the filter over
  the last 513 samples mixed with the oscillator (zeros before the start), summed from the oldest one; resetting it makes it new.
\<close>

theorem resampler_filters:
  assumes "ft8_resampler_init ops input_rate = Some st0"
  shows "case resample ops st0 xs of (st, ys) \<Rightarrow>
     ys = every (unat (rs_factor st0)) (length xs) (filtered ops (coefficients st0) (stream (f_frac ops 0 1) (mixed ops st0 xs))) \<and>
     length ys = length xs div unat (rs_factor st0) \<and> ft8_resampler_reset ops st = st0"
proof -
  obtain st where st: "resample ops st0 xs = (st, every (unat (rs_factor st0)) (length xs) (filtered ops (coefficients st0) (stream (f_frac ops 0 1) (mixed ops st0 xs))))"
    "resampled ops st0 (stream (f_frac ops 0 1) (mixed ops st0 xs)) (length xs) st" using resample_filtered [OF assms refl, of xs] by blast
  have o: "rs_factor (oscillator ops st0 n) = rs_factor st0" "coefficients (oscillator ops st0 n) = coefficients st0"
    "oscillator_step_cos (oscillator ops st0 n) = oscillator_step_cos st0" "oscillator_step_sin (oscillator ops st0 n) = oscillator_step_sin st0" for n
    by (induction n) (simp_all add: oscillator_def turn_oscillator_def Let_def)
  have "ft8_resampler_reset ops st0 = st0" using assms by (auto simp: ft8_resampler_init_def ft8_resampler_reset_def Let_def split: if_splits)
  moreover have "ft8_resampler_reset ops st = ft8_resampler_reset ops st0" using st(2) o by (auto simp: resampled_def ft8_resampler_reset_def)
  ultimately show ?thesis by (simp add: st(1) every_def)
qed

text \<open>
  C23: With exact arithmetic the decimator of two integrators and two combs is a filter over the moving sums of twice the factor,
  taken twice: one output for each whole group of \<open>factor\<close> inputs, the compensation filter over the last 33 such sums divided by
  four times the square of the factor, in each channel; resetting it makes it new.
\<close>

theorem decimator_filters:
  assumes "exact ops" and "wspr_decimator_init ops input_rate = Some st0"
  shows "case decimate ops st0 xs of (st, ys) \<Rightarrow>
     ys = every (unat (factor st0)) (length xs)
       (\<lambda>n. (channel_out ops (factor st0) (channel_in ops fst xs) n, channel_out ops (factor st0) (channel_in ops snd xs) n)) \<and>
     length ys = length xs div unat (factor st0) \<and> wspr_decimator_reset ops st = st0"
proof -
  obtain st where st: "decimate ops st0 xs = (st, every (unat (factor st0)) (length xs)
       (\<lambda>n. (channel_out ops (factor st0) (channel_in ops fst xs) n, channel_out ops (factor st0) (channel_in ops snd xs) n)))"
    "decimated ops (factor st0) xs (length xs) st" using decimate_filtered [OF assms refl, of xs] by blast
  have "wspr_decimator_reset ops st0 = st0" using assms(2) by (auto simp: wspr_decimator_init_def wspr_decimator_reset_def split: if_splits)
  moreover have "factor st = factor st0" using st(2) by (simp add: decimated_def)
  ultimately have "wspr_decimator_reset ops st = st0" by (simp add: wspr_decimator_reset_def)
  then show ?thesis by (simp add: st(1) every_def)
qed

text \<open>A constant input: the moving sums count to four times the square of the factor, by which the outputs are divided.\<close>

lemma box2_constant: "box2 (\<lambda>_. 1 :: int) (2 * k) n = 4 * int k * int k"
  by (simp add: box2_def algebra_simps)

section \<open>An example\<close>

definition whole_ops :: "(int, int) dsp_ops" where
  "whole_ops = \<lparr>d_of_f = id, f_of_d = id, f_frac = (\<lambda>n d. n), f_times = (*), d_frac = (\<lambda>n d. n div d), d_add = (+), d_sub = (-), d_mul = (*),
     d_div = (div), d_less = (<), d_equal = (=), d_fmax = max, d_sqrt = id, d_hypot = (\<lambda>a b. 1), d_sin = id, d_cos = (\<lambda>x. 1)\<rparr>"

theorem resampler_filters_witness:
  "\<exists>st0. ft8_resampler_init whole_ops 24000 = Some st0 \<and> length (snd (resample whole_ops st0 (replicate 5 (3, 4)))) = 2"
proof -
  obtain st0 where i: "ft8_resampler_init whole_ops 24000 = Some st0" "rs_factor st0 = 2"
    by (simp add: ft8_resampler_init_def Let_def FT8_AUDIO_RATE_def)
  have "length (snd (resample whole_ops st0 xs)) = length xs div unat (rs_factor st0)" for xs
    using resampler_filters [OF i(1), of xs] unfolding case_prod_beta by (elim conjE)
  from this [of "replicate 5 (3, 4)"]
  have "length (snd (resample whole_ops st0 (replicate 5 (3, 4)))) = 5 div unat (rs_factor st0)" by simp
  moreover have "5 div unat (rs_factor st0) = 2" by (simp add: i(2))
  ultimately show ?thesis using i(1) by (intro exI [of _ st0] conjI) (simp_all only:)
qed

theorem decimator_filters_witness:
  "\<exists>st0. wspr_decimator_init whole_ops 750 = Some st0 \<and>
     (let (st, ys) = decimate whole_ops st0 [(1, 2), (3, 4), (5, 6), (7, 8), (9, 10)] in length ys = 2 \<and> wspr_decimator_reset whole_ops st = st0)"
proof -
  obtain st0 where i: "wspr_decimator_init whole_ops 750 = Some st0" "factor st0 = 2"
    by (simp add: wspr_decimator_init_def WSPR_OUTPUT_RATE_def)
  have "exact whole_ops" by (simp add: exact_def whole_ops_def)
  from decimator_filters [OF this i(1), of "[(1, 2), (3, 4), (5, 6), (7, 8), (9, 10)]"] show ?thesis
    using i by (intro exI [of _ st0]) (auto simp: Let_def split: prod.splits)
qed

end
