(* ===== verification/Monitor.thy ===== *)
theory Monitor
  imports FtxSearch "HOL-Library.Signed_Division"
begin

text \<open>
  The spectrogram: \<open>ft8_lib/common/monitor.c\<close>, without the variant \<open>WATERFALL_USE_PHASE\<close>, which the program does not define.
  Floating point operations, the Fourier transform among them, are arguments; what \<open>malloc\<close> returns is an argument.
\<close>

section \<open>Set-up\<close>

record 'f sound_ops =
  f_int :: "'f \<Rightarrow> int"
  f_sinf :: "'f \<Rightarrow> 'f"
  f_log10f :: "'f \<Rightarrow> 'f"
  f_kiss_fftr :: "'f list \<Rightarrow> ('f \<times> 'f) list"

record 'f monitor_config =
  f_min :: 'f
  f_max :: 'f
  sample_rate :: int
  cfg_time_osr :: int
  cfg_freq_osr :: int
  cfg_protocol :: ftx_protocol
  tr_period :: 'f

record 'f monitor =
  symbol_period :: 'f
  min_bin :: int
  max_bin :: int
  block_size :: int
  subblock_size :: int
  nfft :: int
  fft_norm :: 'f
  window :: "'f list"
  last_frame :: "'f list"
  wf :: waterfall
  max_mag :: 'f

definition kFST4_NSPS :: "int list" where "kFST4_NSPS = [720, 1680, 3888, 8200, 21504, 66560, 134400]"
definition kFST4_TR_periods :: "int list" where "kFST4_TR_periods = [15, 30, 60, 120, 300, 900, 1800]"

text \<open>The first matching entry of the table, or 3888 when there is none.\<close>

fun find_nsps :: "int \<Rightarrow> int list \<Rightarrow> int list \<Rightarrow> int" where
  "find_nsps tr (p # ps) (n # ns) = (if p = tr then n else find_nsps tr ps ns)"
| "find_nsps tr _ _ = 0"

definition fst4_nsps :: "int \<Rightarrow> int" where
  "fst4_nsps tr = (let nsps = find_nsps tr kFST4_TR_periods kFST4_NSPS in if nsps = 0 then 3888 else nsps)"

definition slot_and_symbol :: "'f float_ops \<Rightarrow> 'f sound_ops \<Rightarrow> 'f monitor_config \<Rightarrow> 'f \<times> 'f" where
  "slot_and_symbol ops snd_ops cfg =
     (if cfg_protocol cfg = FTX_PROTOCOL_FST4 \<or> cfg_protocol cfg = FTX_PROTOCOL_FST4W then
        (tr_period cfg, f_div ops (f_lit ops (fst4_nsps (f_int snd_ops (tr_period cfg))) 1) (f_lit ops 12000 1))
      else if cfg_protocol cfg = FTX_PROTOCOL_FT4 then (f_lit ops 75 10, f_lit ops 48 1000)
      else (f_lit ops 15 1, f_lit ops 160 1000))"

text \<open>The constant of the argument is \<open>(float) M_PI\<close>.\<close>

definition hann_i :: "'f float_ops \<Rightarrow> 'f sound_ops \<Rightarrow> int \<Rightarrow> int \<Rightarrow> 'f" where
  "hann_i ops snd_ops i n =
     (let x = f_sinf snd_ops (f_div ops (f_mul ops (f_lit ops 3141592653589793 (10 ^ 15)) (f_lit ops i 1)) (f_lit ops n 1)) in f_mul ops x x)"

definition window_value :: "'f float_ops \<Rightarrow> 'f sound_ops \<Rightarrow> bool \<Rightarrow> 'f \<Rightarrow> int \<Rightarrow> int \<Rightarrow> int \<Rightarrow> 'f" where
  "window_value ops snd_ops use_rect_window norm n window_len i =
     (let data_offset = n - window_len in
      if i \<ge> data_offset then
        (if use_rect_window then norm else f_mul ops norm (hann_i ops snd_ops (i - data_offset) window_len))
      else f_lit ops 0 1)"

definition waterfall_init :: "u8 list \<Rightarrow> int \<Rightarrow> int \<Rightarrow> int \<Rightarrow> int \<Rightarrow> waterfall" where
  "waterfall_init malloc blocks bins t_osr f_osr =
     \<lparr>max_blocks = blocks, num_blocks = 0, num_bins = bins, time_osr = t_osr, freq_osr = f_osr,
      mag = take (nat (blocks * t_osr * f_osr * bins)) malloc, block_stride = t_osr * f_osr * bins\<rparr>"

definition monitor_init :: "'f float_ops \<Rightarrow> 'f sound_ops \<Rightarrow> u8 list \<Rightarrow> 'f monitor_config \<Rightarrow> 'f monitor" where
  "monitor_init ops snd_ops malloc cfg =
     (let (slot_time, symbol_period) = slot_and_symbol ops snd_ops cfg;
          block_size = f_int snd_ops (f_mul ops (f_lit ops (sample_rate cfg) 1) symbol_period);
          subblock_size = block_size sdiv cfg_time_osr cfg;
          nfft = block_size * cfg_freq_osr cfg;
          norm = f_div ops (f_lit ops 2 1) (f_lit ops nfft 1);
          use_rect_window = (cfg_protocol cfg = FTX_PROTOCOL_FST4 \<or> cfg_protocol cfg = FTX_PROTOCOL_FST4W);
          window_len = (if use_rect_window then block_size else nfft);
          max_blocks = f_int snd_ops (f_div ops slot_time symbol_period);
          min_bin = f_int snd_ops (f_mul ops (f_min cfg) symbol_period);
          max_bin = f_int snd_ops (f_mul ops (f_max cfg) symbol_period) + 1
      in \<lparr>symbol_period = symbol_period, min_bin = min_bin, max_bin = max_bin, block_size = block_size, subblock_size = subblock_size,
          nfft = nfft, fft_norm = norm, window = map (window_value ops snd_ops use_rect_window norm nfft window_len) [0..nfft - 1],
          last_frame = replicate (nat nfft) (f_lit ops 0 1),
          wf = waterfall_init malloc max_blocks (max_bin - min_bin) (cfg_time_osr cfg) (cfg_freq_osr cfg),
          max_mag = f_lit ops (- 120) 1\<rparr>)"

definition monitor_reset :: "'f float_ops \<Rightarrow> 'f monitor \<Rightarrow> 'f monitor" where
  "monitor_reset ops me = me\<lparr>wf := (wf me)\<lparr>num_blocks := 0\<rparr>, max_mag := f_lit ops (- 120) 1\<rparr>"

section \<open>Processing a block\<close>

text \<open>An access outside of an array is \<open>None\<close>.\<close>

definition load :: "'a list \<Rightarrow> int \<Rightarrow> 'a option" where
  "load xs i = (if 0 \<le> i \<and> i < int (length xs) then Some (xs ! nat i) else None)"

definition store :: "int \<Rightarrow> 'a \<Rightarrow> 'a list \<Rightarrow> 'a list option" where
  "store i x xs = (if 0 \<le> i \<and> i < int (length xs) then Some (xs[nat i := x]) else None)"

definition shift_frame :: "int \<Rightarrow> int \<Rightarrow> 'f list \<Rightarrow> int \<times> 'f list \<Rightarrow> (int \<times> 'f list) option" where
  "shift_frame n subblock frame = (\<lambda>(frame_pos, sound).
     do {
       sound \<leftarrow> for_each (\<lambda>pos l. do { x \<leftarrow> load l (pos + subblock); store pos x l }) [0..n - subblock - 1] sound;
       for_each (\<lambda>pos (frame_pos, l). do { x \<leftarrow> load frame frame_pos; l \<leftarrow> store pos x l; Some (frame_pos + 1, l) })
         [n - subblock..n - 1] (frame_pos, sound)
     })"

definition decibels :: "'f float_ops \<Rightarrow> 'f sound_ops \<Rightarrow> 'f \<times> 'f \<Rightarrow> 'f" where
  "decibels ops snd_ops = (\<lambda>(r, i).
     let mag2 = f_add ops (f_mul ops i i) (f_mul ops r r)
     in f_mul ops (f_lit ops 10 1) (f_log10f snd_ops (f_add ops (f_lit ops 1 (10 ^ 12)) mag2)))"

definition scaled :: "'f float_ops \<Rightarrow> 'f sound_ops \<Rightarrow> 'f \<Rightarrow> u8" where
  "scaled ops snd_ops db =
     (let s = f_int snd_ops (f_add ops (f_mul ops (f_lit ops 2 1) db) (f_lit ops 240 1))
      in if s < 0 then 0 else if s > 255 then 255 else word_of_int s)"

text \<open>One bin: the place in the waterfall, the magnitudes and the maximum so far.\<close>

definition store_bin :: "'f float_ops \<Rightarrow> 'f sound_ops \<Rightarrow> int \<Rightarrow> ('f \<times> 'f) list \<Rightarrow> int \<Rightarrow> int \<Rightarrow> int \<times> u8 list \<times> 'f \<Rightarrow> (int \<times> u8 list \<times> 'f) option" where
  "store_bin ops snd_ops f_osr freqdata fsub bin = (\<lambda>(offset, m, mx).
     do {
       x \<leftarrow> load freqdata (bin * f_osr + fsub);
       let db = decibels ops snd_ops x;
       m \<leftarrow> store offset (scaled ops snd_ops db) m;
       Some (offset + 1, m, if f_gt ops db mx then db else mx)
     })"

definition window_product :: "'f float_ops \<Rightarrow> int \<Rightarrow> 'f list \<Rightarrow> 'f list \<Rightarrow> 'f list option" where
  "window_product ops n win sound =
     for_each (\<lambda>pos timedata. do { x \<leftarrow> load win pos; y \<leftarrow> load sound pos; Some (timedata @ [f_mul ops x y]) }) [0..n - 1] []"

definition time_step :: "'f float_ops \<Rightarrow> 'f sound_ops \<Rightarrow> 'f monitor \<Rightarrow> 'f list \<Rightarrow> int \<Rightarrow> (int \<times> 'f list) \<times> int \<times> u8 list \<times> 'f \<Rightarrow>
    ((int \<times> 'f list) \<times> int \<times> u8 list \<times> 'f) option" where
  "time_step ops snd_ops me frame t_sub = (\<lambda>(sound, spectrum).
     do {
       sound \<leftarrow> shift_frame (nfft me) (subblock_size me) frame sound;
       timedata \<leftarrow> window_product ops (nfft me) (window me) (snd sound);
       let freqdata = f_kiss_fftr snd_ops timedata;
       spectrum \<leftarrow> for_each (\<lambda>fsub. for_each (store_bin ops snd_ops (freq_osr (wf me)) freqdata fsub) [min_bin me..max_bin me - 1])
         [0..freq_osr (wf me) - 1] spectrum;
       Some (sound, spectrum)
     })"

definition monitor_process :: "'f float_ops \<Rightarrow> 'f sound_ops \<Rightarrow> 'f list \<Rightarrow> 'f monitor \<Rightarrow> 'f monitor option" where
  "monitor_process ops snd_ops frame me =
     (if num_blocks (wf me) \<ge> max_blocks (wf me) then Some me
      else do {
        ((frame_pos, last), offset, m, mx) \<leftarrow> for_each (time_step ops snd_ops me frame) [0..time_osr (wf me) - 1]
          ((0, last_frame me), num_blocks (wf me) * block_stride (wf me), mag (wf me), max_mag me);
        Some (me\<lparr>last_frame := last, wf := (wf me)\<lparr>mag := m, num_blocks := num_blocks (wf me) + 1\<rparr>, max_mag := mx\<rparr>)
      })"

section \<open>Loops over arrays\<close>

lemma ints_from: "[a..a + int n - 1] = map (\<lambda>i. a + int i) [0..<n]"
proof (induction n)
  case (Suc n)
  have "[a..a + int (Suc n) - 1] = [a..a + int n - 1] @ [a + int n]"
    by (subst upto_rec2) auto
  then show ?case using Suc by simp
qed simp

lemma store_Some: "i < length xs \<Longrightarrow> store (int i) x xs = Some (xs[i := x])"
  by (simp add: store_def)

lemma load_Some: "i < length xs \<Longrightarrow> load xs (int i) = Some (xs ! i)"
  by (simp add: load_def)

lemma shift_loop:
  assumes "s \<le> n" and "length l = n"
  shows "for_each (\<lambda>pos l. do { x \<leftarrow> load l (pos + int s); store pos x l }) [0..int n - int s - 1] l = Some (drop s l @ drop (n - s) l)"
proof -
  have "for_each (\<lambda>i l. do { x \<leftarrow> load l (int i + int s); store (int i) x l }) [0..<k] l = Some (take k (drop s l) @ drop k l)"
    if "k \<le> n - s" for k
    using that
  proof (induction k)
    case (Suc k)
    let ?l = "take k (drop s l) @ drop k l"
    have len: "length ?l = n" using Suc.prems assms by simp
    have "?l ! (k + s) = drop s l ! k" using Suc.prems assms by (simp add: nth_append add.commute)
    then have ld: "load ?l (int k + int s) = Some (drop s l ! k)"
      using load_Some [of "k + s" ?l] len Suc.prems assms by simp
    have st: "store (int k) x ?l = Some (take k (drop s l) @ x # drop (Suc k) l)" for x
    proof -
      have "k < length ?l" using len Suc.prems by simp
      moreover have "drop k l = l ! k # drop (Suc k) l" using Suc.prems assms by (simp add: Cons_nth_drop_Suc)
      ultimately show ?thesis using Suc.prems assms by (simp add: store_Some list_update_append)
    qed
    have "take (Suc k) (drop s l) = take k (drop s l) @ [drop s l ! k]" using Suc.prems assms by (simp add: take_Suc_conv_app_nth)
    then show ?case using Suc ld st by (simp add: for_each_append)
  qed simp
  from this [of "n - s"] show ?thesis
    using assms ints_from [of 0 "n - s"] by (simp add: for_each_map of_nat_diff)
qed

lemma fill_loop:
  assumes "s \<le> n" and "length l = n" and "fp + s \<le> length frame"
  shows "for_each (\<lambda>pos (frame_pos, l). do { x \<leftarrow> load frame frame_pos; l \<leftarrow> store pos x l; Some (frame_pos + 1, l) })
      [int n - int s..int n - 1] (int fp, l) = Some (int (fp + s), take (n - s) l @ take s (drop fp frame))"
proof -
  have "for_each (\<lambda>i (frame_pos, l). do { x \<leftarrow> load frame frame_pos; l \<leftarrow> store (int (n - s) + int i) x l; Some (frame_pos + 1, l) }) [0..<k] (int fp, l)
      = Some (int (fp + k), take (n - s) l @ take k (drop fp frame) @ drop (n - s + k) l)" if "k \<le> s" for k
    using that
  proof (induction k)
    case (Suc k)
    let ?l = "take (n - s) l @ take k (drop fp frame) @ drop (n - s + k) l"
    have "drop (n - s + k) l = l ! (n - s + k) # drop (n - s + Suc k) l" using Suc.prems assms by (simp add: Cons_nth_drop_Suc)
    then have upd: "?l[n - s + k := x] = take (n - s) l @ take k (drop fp frame) @ x # drop (n - s + Suc k) l" for x
      using Suc.prems assms by (auto simp: list_update_append min_def)
    have idx: "int (n - s) + int k = int (n - s + k)" by simp
    have st: "store (int (n - s) + int k) x ?l = Some (take (n - s) l @ take k (drop fp frame) @ x # drop (n - s + Suc k) l)" for x
      using Suc.prems assms store_Some [of "n - s + k" ?l x] unfolding upd idx by simp
    have ld: "load frame (int (fp + k)) = Some (drop fp frame ! k)" using load_Some [of "fp + k" frame] Suc.prems assms by simp
    have "take (Suc k) (drop fp frame) = take k (drop fp frame) @ [drop fp frame ! k]" using Suc.prems assms by (simp add: take_Suc_conv_app_nth)
    then show ?case using Suc ld st by (simp add: for_each_append)
  qed simp
  from this [of s] show ?thesis
    using assms ints_from [of "int (n - s)" s] by (simp add: for_each_map of_nat_diff)
qed

lemma shift_frame_eq:
  assumes "s \<le> n" and "length l = n" and "fp + s \<le> length frame"
  shows "shift_frame (int n) (int s) frame (int fp, l) = Some (int (fp + s), drop s l @ take s (drop fp frame))"
proof -
  have "take (n - s) (drop s l @ drop (n - s) l) = drop s l" using assms by simp
  then show ?thesis
    using shift_loop [OF assms(1,2)] fill_loop [OF assms(1) _ assms(3), of "drop s l @ drop (n - s) l"] assms by (simp add: shift_frame_def)
qed

lemma window_product_eq:
  assumes "length win = n" and "length l = n"
  shows "window_product ops (int n) win l = Some (map2 (f_mul ops) win l)"
proof -
  have "for_each (\<lambda>i timedata. do { x \<leftarrow> load win (int i); y \<leftarrow> load l (int i); Some (timedata @ [f_mul ops x y]) }) [0..<k] []
      = Some (map2 (f_mul ops) (take k win) (take k l))" if "k \<le> n" for k
    using that
  proof (induction k)
    case (Suc k)
    then have "take (Suc k) win = take k win @ [win ! k]" "take (Suc k) l = take k l @ [l ! k]" "k < length win" "k < length l"
      using assms by (simp_all add: take_Suc_conv_app_nth)
    then show ?case using Suc assms by (simp add: for_each_append load_Some)
  qed simp
  from this [of n] show ?thesis using assms ints_from [of 0 n] by (simp add: window_product_def for_each_map)
qed

text \<open>Storing a list of bins, given by their sub-bin and number.\<close>

lemma blit_Suc: "off < length m \<Longrightarrow> blit (Suc off) vs (m[off := v]) = blit off (v # vs) m"
  by (simp add: blit_def take_Suc_conv_app_nth upd_conv_take_nth_drop add.commute)

lemma store_bins:
  assumes "\<forall>(fs, bin) \<in> set xs. 0 \<le> bin * f_osr + fs \<and> bin * f_osr + fs < int (length freqdata)" and "off + length xs \<le> length m"
  shows "\<exists>mx'. for_each (\<lambda>(fs, bin). store_bin ops snd_ops f_osr freqdata fs bin) xs (int off, m, mx) =
    Some (int (off + length xs), blit off (map (\<lambda>(fs, bin). scaled ops snd_ops (decibels ops snd_ops (freqdata ! nat (bin * f_osr + fs)))) xs) m, mx')"
  using assms
proof (induction xs arbitrary: off m mx)
  case Nil
  then show ?case by (simp add: blit_def)
next
  case (Cons x xs)
  obtain fs bin where x: "x = (fs, bin)" by force
  let ?v = "scaled ops snd_ops (decibels ops snd_ops (freqdata ! nat (bin * f_osr + fs)))"
  have off: "off < length m" using Cons.prems by simp
  obtain mx1 where st: "store_bin ops snd_ops f_osr freqdata fs bin (int off, m, mx) = Some (int (Suc off), m[off := ?v], mx1)"
    using Cons.prems x off by (simp add: store_bin_def load_def store_Some Let_def)
  obtain mx' where "for_each (\<lambda>(fs, bin). store_bin ops snd_ops f_osr freqdata fs bin) xs (int (Suc off), m[off := ?v], mx1) =
    Some (int (Suc off + length xs), blit (Suc off) (map (\<lambda>(fs, bin). scaled ops snd_ops (decibels ops snd_ops (freqdata ! nat (bin * f_osr + fs)))) xs) (m[off := ?v]), mx')"
    using Cons.IH [of "Suc off" "m[off := ?v]" mx1] Cons.prems by auto
  then show ?case using st by (simp add: x blit_Suc [OF off])
qed

section \<open>The spectrogram\<close>

text \<open>The window moves over the sound by \<open>hop\<close> samples; each place fills a column of the waterfall.\<close>

definition monitor_ok :: "'f monitor \<Rightarrow> bool" where
  "monitor_ok me \<longleftrightarrow> waterfall_ok (wf me) \<and> num_bins (wf me) = max_bin me - min_bin me \<and> 0 \<le> min_bin me \<and> 0 \<le> subblock_size me \<and>
     subblock_size me \<le> nfft me \<and> length (window me) = nat (nfft me) \<and> length (last_frame me) = nat (nfft me) \<and>
     max_bin me * freq_osr (wf me) \<le> nfft me div 2 + 1"

definition fft_ok :: "'f sound_ops \<Rightarrow> bool" where
  "fft_ok snd_ops \<longleftrightarrow> (\<forall>xs. length (f_kiss_fftr snd_ops xs) = length xs div 2 + 1)"

definition hop :: "'f monitor \<Rightarrow> nat" where "hop me = nat (subblock_size me)"

definition steps :: "'f monitor \<Rightarrow> nat" where "steps me = nat (time_osr (wf me))"

definition bins :: "'f monitor \<Rightarrow> (int \<times> int) list" where
  "bins me = concat (map (\<lambda>fs. map (Pair fs) [min_bin me..max_bin me - 1]) [0..freq_osr (wf me) - 1])"

definition column :: "'f float_ops \<Rightarrow> 'f sound_ops \<Rightarrow> 'f monitor \<Rightarrow> 'f list \<Rightarrow> u8 list" where
  "column ops snd_ops me sound =
     (let freqdata = f_kiss_fftr snd_ops (map2 (f_mul ops) (window me) sound)
      in map (\<lambda>(fs, bin). scaled ops snd_ops (decibels ops snd_ops (freqdata ! nat (bin * freq_osr (wf me) + fs)))) (bins me))"

definition view :: "'f monitor \<Rightarrow> 'f list \<Rightarrow> nat \<Rightarrow> 'f list" where
  "view me audio j = take (nat (nfft me)) (drop (j * hop me) audio)"

lemma length_concat_const: "\<forall>x \<in> set xs. length (f x) = k \<Longrightarrow> length (concat (map f xs)) = length xs * k"
  by (induction xs) auto

lemma blit_blit: "off + length vs \<le> length m \<Longrightarrow> blit (off + length vs) ws (blit off vs m) = blit off (vs @ ws) m"
  by (simp add: blit_def add.commute add.left_commute)

lemma bins_length:
  assumes "monitor_ok me"
  shows "int (length (bins me)) = freq_osr (wf me) * num_bins (wf me)" "length (column ops snd_ops me l) = length (bins me)"
proof -
  have "length (bins me) = nat (freq_osr (wf me)) * nat (max_bin me - min_bin me)"
    unfolding bins_def by (subst length_concat_const) auto
  then show "int (length (bins me)) = freq_osr (wf me) * num_bins (wf me)"
    using assms by (simp add: monitor_ok_def waterfall_ok_def)
  show "length (column ops snd_ops me l) = length (bins me)" by (simp add: column_def Let_def)
qed

lemma time_step_eq:
  assumes ok: "monitor_ok me" and fft: "fft_ok snd_ops" and l: "length l = nat (nfft me)" and fp: "fp + hop me \<le> length frame"
    and off: "off + length (bins me) \<le> length m"
  defines "l' \<equiv> drop (hop me) l @ take (hop me) (drop fp frame)"
  shows "\<exists>mx'. time_step ops snd_ops me frame t ((int fp, l), (int off, m, mx)) =
    Some ((int (fp + hop me), l'), (int (off + length (bins me)), blit off (column ops snd_ops me l') m, mx'))"
proof -
  have n: "int (nat (nfft me)) = nfft me" "int (hop me) = subblock_size me" "hop me \<le> nat (nfft me)"
    using ok by (simp_all add: monitor_ok_def hop_def nat_mono)
  have sh: "shift_frame (nfft me) (subblock_size me) frame (int fp, l) = Some (int (fp + hop me), l')"
    using shift_frame_eq [OF n(3) l fp] unfolding n l'_def .
  have l': "length l' = nat (nfft me)" using l fp n(3) by (simp add: l'_def)
  have wp: "window_product ops (nfft me) (window me) l' = Some (map2 (f_mul ops) (window me) l')"
    using window_product_eq [OF _ l', of "window me" ops] ok unfolding n by (simp add: monitor_ok_def)
  let ?fd = "f_kiss_fftr snd_ops (map2 (f_mul ops) (window me) l')"
  have "length (map2 (f_mul ops) (window me) l') = nat (nfft me)" using l' ok by (simp add: monitor_ok_def)
  then have "length ?fd = nat (nfft me) div 2 + 1" using fft by (simp add: fft_ok_def)
  then have "int (length ?fd) = int (nat (nfft me)) div 2 + 1" by (simp only: of_nat_add of_nat_div of_nat_1 of_nat_numeral)
  then have "int (length ?fd) = nfft me div 2 + 1" unfolding n(1) .
  then have len: "max_bin me * freq_osr (wf me) \<le> int (length ?fd)" using ok by (simp add: monitor_ok_def)
  have "0 \<le> bin * freq_osr (wf me) + fs \<and> bin * freq_osr (wf me) + fs < int (length ?fd)" if "(fs, bin) \<in> set (bins me)" for fs bin
  proof -
    have b: "0 \<le> fs" "fs < freq_osr (wf me)" "0 \<le> bin" "bin < max_bin me" using that ok by (auto simp: bins_def monitor_ok_def)
    from mixed_radix [OF b(3,4) b(1,2)] len show ?thesis by simp
  qed
  then have ran: "\<forall>(fs, bin) \<in> set (bins me). 0 \<le> bin * freq_osr (wf me) + fs \<and> bin * freq_osr (wf me) + fs < int (length ?fd)" by blast
  have nested: "for_each (\<lambda>fs. for_each (store_bin ops snd_ops (freq_osr (wf me)) ?fd fs) [min_bin me..max_bin me - 1]) [0..freq_osr (wf me) - 1] st =
      for_each (\<lambda>(fs, bin). store_bin ops snd_ops (freq_osr (wf me)) ?fd fs bin) (bins me) st" for st
    unfolding bins_def for_each_concat [symmetric] for_each_map by simp
  obtain mx' where "for_each (\<lambda>(fs, bin). store_bin ops snd_ops (freq_osr (wf me)) ?fd fs bin) (bins me) (int off, m, mx) =
    Some (int (off + length (bins me)), blit off (column ops snd_ops me l') m, mx')"
    using store_bins [OF ran off, of ops snd_ops mx] by (auto simp: column_def)
  then show ?thesis
    unfolding nested [symmetric] by (simp add: time_step_def sh wp)
qed

lemma slide:
  assumes "length l = n" and "h \<le> n" and "fp + h \<le> length frame"
  shows "drop h (take n (drop fp (l @ frame))) @ take h (drop fp frame) = take n (drop (h + fp) (l @ frame))"
proof -
  let ?a = "drop (h + fp) (l @ frame)"
  have e: "n - h + (h + fp) = length l + fp" using assms by simp
  have "drop (n - h) ?a = drop fp frame" unfolding drop_drop e by simp
  then have "take n ?a = take (n - h) ?a @ take h (drop fp frame)" using take_add [of "n - h" h ?a] assms(2) by simp
  then show ?thesis by (simp only: drop_take drop_drop)
qed

lemma view_next:
  assumes "length l = nat (nfft me)" and "hop me \<le> nat (nfft me)" and "k * hop me + hop me \<le> length frame"
  shows "drop (hop me) (view me (l @ frame) k) @ take (hop me) (drop (k * hop me) frame) = view me (l @ frame) (Suc k)"
  unfolding view_def mult_Suc using assms by (rule slide)

lemma process_eq:
  assumes ok: "monitor_ok me" and fft: "fft_ok snd_ops" and room: "num_blocks (wf me) < max_blocks (wf me)"
    and frame: "steps me * hop me \<le> length frame"
  shows "\<exists>mx. monitor_process ops snd_ops frame me =
    Some (me\<lparr>last_frame := view me (last_frame me @ frame) (steps me),
      wf := (wf me)\<lparr>mag := blit (nat (num_blocks (wf me) * block_stride (wf me)))
          (concat (map (\<lambda>j. column ops snd_ops me (view me (last_frame me @ frame) (Suc j))) [0..<steps me])) (mag (wf me)),
        num_blocks := num_blocks (wf me) + 1\<rparr>, max_mag := mx\<rparr>)"
proof -
  let ?w = "wf me" and ?a = "last_frame me @ frame"
  let ?off = "nat (num_blocks ?w * block_stride ?w)"
  let ?cols = "\<lambda>k. concat (map (\<lambda>j. column ops snd_ops me (view me ?a (Suc j))) [0..<k])"
  have l: "length (last_frame me) = nat (nfft me)" and h: "hop me \<le> nat (nfft me)" using ok by (simp_all add: monitor_ok_def hop_def nat_mono)
  have w: "waterfall_ok ?w" using ok by (simp add: monitor_ok_def)
  then have pos: "0 \<le> num_blocks ?w" "0 \<le> time_osr ?w" "0 \<le> freq_osr ?w * num_bins ?w" "0 \<le> block_stride ?w" by (simp_all add: waterfall_ok_def)
  have nb: "int (length (bins me)) = freq_osr ?w * num_bins ?w" using bins_length(1) [OF ok] .
  have "int (steps me * length (bins me)) = block_stride ?w" using pos nb w by (simp add: steps_def waterfall_ok_def)
  moreover have "num_blocks ?w * block_stride ?w + block_stride ?w \<le> max_blocks ?w * block_stride ?w"
    using mult_right_mono [of "num_blocks ?w + 1" "max_blocks ?w" "block_stride ?w"] room pos by (simp add: algebra_simps)
  ultimately have "int (?off + steps me * length (bins me)) \<le> int (length (mag ?w))" using w pos by (simp add: waterfall_ok_def)
  then have fits: "?off + steps me * length (bins me) \<le> length (mag ?w)" by (simp only: of_nat_le_iff)
  have cols: "length (?cols k) = k * length (bins me)" for k
    by (subst length_concat_const [where k = "length (bins me)"]) (simp_all add: bins_length(2) [OF ok])
  have "\<exists>mx. for_each (\<lambda>i. time_step ops snd_ops me frame (int i)) [0..<k] ((0, last_frame me), int ?off, mag ?w, max_mag me) =
      Some ((int (k * hop me), view me ?a k), (int (?off + k * length (bins me)), blit ?off (?cols k) (mag ?w), mx))" if "k \<le> steps me" for k
    using that
  proof (induction k)
    case 0
    then show ?case using l by (simp add: view_def blit_def)
  next
    case (Suc k)
    then obtain mx where IH: "for_each (\<lambda>i. time_step ops snd_ops me frame (int i)) [0..<k] ((0, last_frame me), int ?off, mag ?w, max_mag me) =
      Some ((int (k * hop me), view me ?a k), (int (?off + k * length (bins me)), blit ?off (?cols k) (mag ?w), mx))" by auto
    have "Suc k * hop me \<le> steps me * hop me" "Suc k * length (bins me) \<le> steps me * length (bins me)"
      using Suc.prems by (rule mult_le_mono1)+
    then have sz: "k * hop me + hop me \<le> length frame" "?off + k * length (bins me) + length (bins me) \<le> length (mag ?w)" using frame fits by simp_all
    have m: "length (blit ?off (?cols k) (mag ?w)) = length (mag ?w)" using sz cols by (subst length_blit) simp_all
    have v: "length (view me ?a k) = nat (nfft me)" using l sz by (simp add: view_def)
    have bb: "blit (?off + k * length (bins me)) x (blit ?off (?cols k) (mag ?w)) = blit ?off (?cols k @ x) (mag ?w)" for x
      using blit_blit [of ?off "?cols k" "mag ?w" x] cols sz by simp
    from time_step_eq [OF ok fft v sz(1) sz(2) [folded m], of ops "int k" mx] obtain mx' where
      "time_step ops snd_ops me frame (int k) ((int (k * hop me), view me ?a k), (int (?off + k * length (bins me)), blit ?off (?cols k) (mag ?w), mx)) =
       Some ((int (k * hop me + hop me), view me ?a (Suc k)),
         (int (?off + k * length (bins me) + length (bins me)), blit ?off (?cols k @ column ops snd_ops me (view me ?a (Suc k))) (mag ?w), mx'))"
      unfolding view_next [OF l h sz(1)] bb by blast
    then show ?case using IH by (intro exI [of _ mx']) (simp add: for_each_append add.commute add.left_commute)
  qed
  from this [of "steps me"] show ?thesis
    using room ints_from [of 0 "steps me"] pos by (auto simp: monitor_process_def for_each_map steps_def)
qed

section \<open>A period\<close>

definition monitor_run :: "'f float_ops \<Rightarrow> 'f sound_ops \<Rightarrow> 'f list list \<Rightarrow> 'f monitor \<Rightarrow> 'f monitor option" where
  "monitor_run ops snd_ops frames me = for_each (monitor_process ops snd_ops) frames me"

definition kept :: "'f monitor \<Rightarrow> 'f list list \<Rightarrow> 'f list list" where
  "kept me frames = take (nat (max_blocks (wf me) - num_blocks (wf me))) frames"

definition heard :: "'f monitor \<Rightarrow> 'f list list \<Rightarrow> 'f list" where
  "heard me frames = last_frame me @ concat (kept me frames)"

definition columns :: "'f float_ops \<Rightarrow> 'f sound_ops \<Rightarrow> 'f monitor \<Rightarrow> 'f list \<Rightarrow> nat \<Rightarrow> u8 list" where
  "columns ops snd_ops me audio n = concat (map (\<lambda>j. column ops snd_ops me (view me audio (Suc j))) [0..<n])"

definition after :: "'f float_ops \<Rightarrow> 'f sound_ops \<Rightarrow> 'f list list \<Rightarrow> 'f monitor \<Rightarrow> 'f \<Rightarrow> 'f monitor" where
  "after ops snd_ops frames me mx =
     (let k = length (kept me frames); audio = heard me frames
      in me\<lparr>last_frame := view me audio (k * steps me),
            wf := (wf me)\<lparr>mag := blit (nat (num_blocks (wf me) * block_stride (wf me))) (columns ops snd_ops me audio (k * steps me)) (mag (wf me)),
              num_blocks := num_blocks (wf me) + int k\<rparr>, max_mag := mx\<rparr>)"

lemma view_of_view:
  assumes "length audio = n + p" and "n = nat (nfft me)" and "p = k * hop me"
  shows "view me (view me audio k @ frame) j = view me (audio @ frame) (k + j)"
proof -
  have "take n (drop p audio) @ frame = drop p (audio @ frame)" using assms(1) by simp
  then show ?thesis unfolding view_def assms(2) [symmetric] assms(3) [symmetric] by (simp only: drop_drop assms(3) distrib_right add.commute)
qed

lemma view_longer: "j * hop me + nat (nfft me) \<le> length audio \<Longrightarrow> view me (audio @ frame) j = view me audio j"
  by (simp add: view_def)

lemma columns_longer:
  assumes "length audio = nat (nfft me) + n * hop me"
  shows "columns ops snd_ops me (audio @ frame) n = columns ops snd_ops me audio n"
proof -
  have "view me (audio @ frame) (Suc j) = view me audio (Suc j)" if "j < n" for j
    using assms mult_le_mono1 [of "Suc j" n "hop me"] that by (intro view_longer) simp
  then show ?thesis unfolding columns_def by (intro arg_cong [where f = concat] map_cong) simp_all
qed

lemma columns_more: "columns ops snd_ops me audio (n + m) =
    columns ops snd_ops me audio n @ concat (map (\<lambda>j. column ops snd_ops me (view me audio (n + Suc j))) [0..<m])"
  unfolding columns_def upt_add_eq_append [OF le0] by (simp add: map_add_upt [symmetric] o_def add.commute del: map_add_upt)

lemma same_constants:
  assumes "me' = me\<lparr>last_frame := l, wf := (wf me)\<lparr>mag := m, num_blocks := nb\<rparr>, max_mag := mx\<rparr>"
  shows "hop me' = hop me" "steps me' = steps me" "bins me' = bins me" "view me' = view me" "column ops snd_ops me' = column ops snd_ops me"
  using assms by (auto simp: hop_def steps_def bins_def view_def column_def fun_eq_iff)

lemma columns_length: "monitor_ok me \<Longrightarrow> length (columns ops snd_ops me audio n) = n * length (bins me)"
  unfolding columns_def by (subst length_concat_const [where k = "length (bins me)"]) (simp_all add: bins_length(2))

lemma columns_fit:
  assumes ok: "monitor_ok me" and k: "num_blocks (wf me) + int k \<le> max_blocks (wf me)"
  shows "nat (num_blocks (wf me) * block_stride (wf me)) + k * steps me * length (bins me) \<le> length (mag (wf me))"
    "int (steps me * length (bins me)) = block_stride (wf me)"
proof -
  let ?w = "wf me"
  have w: "waterfall_ok ?w" using ok by (simp add: monitor_ok_def)
  then have pos: "0 \<le> num_blocks ?w" "0 \<le> time_osr ?w" "0 \<le> freq_osr ?w * num_bins ?w" "0 \<le> block_stride ?w" by (simp_all add: waterfall_ok_def)
  show stride: "int (steps me * length (bins me)) = block_stride ?w"
    using pos bins_length(1) [OF ok] w by (simp add: steps_def waterfall_ok_def)
  have "(num_blocks ?w + int k) * block_stride ?w \<le> max_blocks ?w * block_stride ?w" using k pos(4) by (rule mult_right_mono)
  then have "int (nat (num_blocks ?w * block_stride ?w) + k * (steps me * length (bins me))) \<le> int (length (mag ?w))"
    unfolding of_nat_add of_nat_mult [of k] stride using w pos by (simp add: waterfall_ok_def algebra_simps)
  then show "nat (num_blocks ?w * block_stride ?w) + k * steps me * length (bins me) \<le> length (mag ?w)"
    by (simp only: of_nat_le_iff mult.assoc)
qed

lemma kept_fits: "monitor_ok me \<Longrightarrow> num_blocks (wf me) + int (length (kept me frames)) \<le> max_blocks (wf me)"
  by (auto simp: kept_def monitor_ok_def waterfall_ok_def)

lemma heard_length:
  assumes "monitor_ok me" and "\<forall>f \<in> set frames. length f = steps me * hop me"
  shows "length (heard me frames) = nat (nfft me) + length (kept me frames) * steps me * hop me"
proof -
  have "\<forall>f \<in> set (kept me frames). length f = steps me * hop me" using assms(2) unfolding kept_def by (blast dest: in_set_takeD)
  then show ?thesis
    using assms(1) length_concat_const [of "kept me frames" "\<lambda>x. x"] by (simp add: heard_def monitor_ok_def mult.assoc)
qed

lemma after_ok:
  assumes ok: "monitor_ok me" and frames: "\<forall>f \<in> set frames. length f = steps me * hop me"
  shows "monitor_ok (after ops snd_ops frames me mx)"
proof -
  let ?k = "length (kept me frames)"
  note k = kept_fits [OF ok, of frames]
  have "length (view me (heard me frames) (?k * steps me)) = nat (nfft me)" by (simp add: view_def heard_length [OF assms])
  moreover have "length (blit (nat (num_blocks (wf me) * block_stride (wf me))) (columns ops snd_ops me (heard me frames) (?k * steps me)) (mag (wf me))) = length (mag (wf me))"
    using columns_fit(1) [OF ok k] by (subst length_blit) (simp_all add: columns_length [OF ok])
  ultimately show ?thesis using ok k by (simp add: after_def Let_def monitor_ok_def waterfall_ok_def)
qed

lemma run_eq:
  assumes ok: "monitor_ok me" and fft: "fft_ok snd_ops" and "\<forall>f \<in> set frames. length f = steps me * hop me"
  shows "\<exists>mx. monitor_run ops snd_ops frames me = Some (after ops snd_ops frames me mx) \<and> monitor_ok (after ops snd_ops frames me mx)"
  using assms(3)
proof (induction frames rule: rev_induct)
  case Nil
  have "after ops snd_ops [] me (max_mag me) = me"
    using ok by (simp add: after_def kept_def heard_def view_def columns_def blit_def monitor_ok_def Let_def)
  then show ?case using ok by (intro exI [of _ "max_mag me"]) (simp add: monitor_run_def)
next
  case (snoc f frames)
  then obtain mx where IH: "monitor_run ops snd_ops frames me = Some (after ops snd_ops frames me mx)" "monitor_ok (after ops snd_ops frames me mx)" by auto
  let ?me = "after ops snd_ops frames me mx" and ?k = "length (kept me frames)" and ?a = "heard me frames"
  let ?U = "steps me * hop me" and ?off = "nat (num_blocks (wf me) * block_stride (wf me))"
  have me: "?me = me\<lparr>last_frame := view me ?a (?k * steps me), wf := (wf me)\<lparr>mag := blit ?off (columns ops snd_ops me ?a (?k * steps me)) (mag (wf me)),
      num_blocks := num_blocks (wf me) + int ?k\<rparr>, max_mag := mx\<rparr>" by (simp add: after_def Let_def)
  have nb: "num_blocks (wf ?me) = num_blocks (wf me) + int ?k" "max_blocks (wf ?me) = max_blocks (wf me)" "block_stride (wf ?me) = block_stride (wf me)"
    unfolding me by simp_all
  have run: "monitor_run ops snd_ops (frames @ [f]) me = monitor_process ops snd_ops f ?me"
    using IH(1) by (simp add: monitor_run_def for_each_append)
  show ?case
  proof (cases "num_blocks (wf ?me) < max_blocks (wf ?me)")
    case False
    then have "kept me (frames @ [f]) = kept me frames" unfolding nb by (auto simp: kept_def)
    then have "after ops snd_ops (frames @ [f]) me mx = ?me" by (simp add: after_def heard_def)
    moreover have "monitor_process ops snd_ops f ?me = Some ?me" using False by (simp add: monitor_process_def)
    ultimately show ?thesis using run IH(2) by metis
  next
    case True
    then have k: "kept me frames = frames" "kept me (frames @ [f]) = frames @ [f]" unfolding nb by (auto simp: kept_def)
    have len: "length ?a = nat (nfft me) + ?k * steps me * hop me" using snoc.prems by (intro heard_length [OF ok]) simp
    note same = same_constants [OF me]
    have fr: "steps ?me * hop ?me \<le> length f" using snoc.prems unfolding same by simp
    obtain mx' where p: "monitor_process ops snd_ops f ?me = Some (?me\<lparr>last_frame := view ?me (last_frame ?me @ f) (steps ?me),
      wf := (wf ?me)\<lparr>mag := blit (nat (num_blocks (wf ?me) * block_stride (wf ?me)))
          (concat (map (\<lambda>j. column ops snd_ops ?me (view ?me (last_frame ?me @ f) (Suc j))) [0..<steps ?me])) (mag (wf ?me)),
        num_blocks := num_blocks (wf ?me) + 1\<rparr>, max_mag := mx'\<rparr>)"
      using process_eq [OF IH(2) fft True fr, of ops] by blast
    have a: "heard me (frames @ [f]) = ?a @ f" by (simp add: heard_def k)
    have v: "view me (last_frame ?me @ f) j = view me (?a @ f) (?k * steps me + j)" for j
      using view_of_view [OF len refl, of "?k * steps me" f j] by (simp add: me mult.assoc)
    have le: "num_blocks (wf me) + int ?k \<le> max_blocks (wf me)" using True unfolding nb by simp
    have off: "nat (num_blocks (wf ?me) * block_stride (wf ?me)) = ?off + ?k * steps me * length (bins me)"
    proof -
      have "0 \<le> num_blocks (wf me) * block_stride (wf me)" using ok by (simp add: monitor_ok_def waterfall_ok_def)
      then have "int (?off + ?k * (steps me * length (bins me))) = num_blocks (wf ?me) * block_stride (wf ?me)"
        unfolding of_nat_add of_nat_mult [of ?k] columns_fit(2) [OF ok le] nb by (simp add: algebra_simps)
      then show ?thesis by (simp only: nat_int mult.assoc flip: \<open>int (?off + ?k * (steps me * length (bins me))) = _\<close>)
    qed
    have m: "blit (?off + ?k * steps me * length (bins me)) x (mag (wf ?me)) = blit ?off (columns ops snd_ops me ?a (?k * steps me) @ x) (mag (wf me))" for x
      using blit_blit [of ?off "columns ops snd_ops me ?a (?k * steps me)" "mag (wf me)" x] columns_fit(1) [OF ok le]
      by (simp add: me columns_length [OF ok])
    have cols: "columns ops snd_ops me ?a (?k * steps me) @
        concat (map (\<lambda>j. column ops snd_ops me (view me (?a @ f) (?k * steps me + Suc j))) [0..<steps me])
      = columns ops snd_ops me (?a @ f) (length (kept me (frames @ [f])) * steps me)"
      using columns_more [of ops snd_ops me "?a @ f" "?k * steps me" "steps me"] columns_longer [OF len, of ops snd_ops f] by (simp add: k add.commute)
    have "monitor_process ops snd_ops f ?me = Some (after ops snd_ops (frames @ [f]) me mx')"
      unfolding p same v off m cols unfolding after_def Let_def a k(2) me by (simp add: k add.commute)
    then show ?thesis using run after_ok [OF ok snoc.prems] by metis
  qed
qed

text \<open>Where the conversions of \<open>monitor_init\<close> give sensible dimensions, the monitor is well formed.\<close>

lemma init_ok:
  assumes me: "me = monitor_init ops snd_ops malloc cfg" and "0 < cfg_time_osr cfg" and "0 < cfg_freq_osr cfg" and "0 \<le> block_size me"
    and "0 \<le> min_bin me" and "min_bin me \<le> max_bin me" and "max_bin me * cfg_freq_osr cfg \<le> nfft me div 2 + 1" and "0 \<le> max_blocks (wf me)"
    and "max_blocks (wf me) * block_stride (wf me) \<le> int (length malloc)"
  shows "monitor_ok me" "num_blocks (wf me) = 0" "nfft me = block_size me * cfg_freq_osr cfg" "hop me = nat (block_size me div cfg_time_osr cfg)"
    "last_frame me = replicate (nat (nfft me)) (f_lit ops 0 1)"
proof -
  obtain slot sym where ss: "slot_and_symbol ops snd_ops cfg = (slot, sym)" by force
  let ?b = "block_size me"
  have f: "subblock_size me = ?b sdiv cfg_time_osr cfg" "nfft me = ?b * cfg_freq_osr cfg" "num_bins (wf me) = max_bin me - min_bin me"
    "time_osr (wf me) = cfg_time_osr cfg" "freq_osr (wf me) = cfg_freq_osr cfg" "block_stride (wf me) = cfg_time_osr cfg * cfg_freq_osr cfg * num_bins (wf me)"
    "mag (wf me) = take (nat (max_blocks (wf me) * block_stride (wf me))) malloc" "length (window me) = nat (nfft me)"
    "last_frame me = replicate (nat (nfft me)) (f_lit ops 0 1)" "num_blocks (wf me) = 0"
    unfolding me by (simp_all add: monitor_init_def ss Let_def waterfall_init_def mult.assoc)
  have sd: "?b sdiv cfg_time_osr cfg = ?b div cfg_time_osr cfg" using assms by (simp add: signed_divide_int_def sgn_if)
  have "?b div cfg_time_osr cfg \<le> ?b div 1" using assms by (intro zdiv_mono2) simp_all
  moreover have "?b * 1 \<le> ?b * cfg_freq_osr cfg" using assms(2-9) by (intro mult_left_mono) simp_all
  ultimately have "subblock_size me \<le> nfft me" "0 \<le> subblock_size me" using assms(2-9) unfolding f sd by (simp_all add: pos_imp_zdiv_nonneg_iff)
  moreover have "0 \<le> block_stride (wf me)" using assms(2-9) unfolding f(6,3) by simp
  moreover have "int (length (mag (wf me))) = max_blocks (wf me) * block_stride (wf me)"
    using calculation(3) assms(8,9) by (auto simp: f(7) min_def le_nat_iff)
  moreover have "length (last_frame me) = nat (nfft me)" by (simp add: f(9))
  ultimately show "monitor_ok me" using assms(2-8) f(3-6,8,10) by (simp add: monitor_ok_def waterfall_ok_def)
  show "num_blocks (wf me) = 0" "nfft me = block_size me * cfg_freq_osr cfg" "last_frame me = replicate (nat (nfft me)) (f_lit ops 0 1)" by (fact f)+
  show "hop me = nat (block_size me div cfg_time_osr cfg)" by (simp add: hop_def f(1) sd)
qed

lemma reset_ok: "monitor_ok me \<Longrightarrow> monitor_ok (monitor_reset ops me) \<and> num_blocks (wf (monitor_reset ops me)) = 0"
  by (simp add: monitor_reset_def monitor_ok_def waterfall_ok_def)

text \<open>
  C21: the waterfall is the spectrogram of the sound. Processing blocks after a reset never leaves an array; as many blocks as the
  waterfall has room for are used and the others change nothing; the window has then moved over everything heard (the previous
  contents of the window first: a reset does not clear them) in hops of a subblock; and the waterfall holds, place after place,
  the clamped decibels of the transform of what the window showed there.
\<close>

theorem monitor_spectrogram:
  assumes "monitor_ok me0" and "me = monitor_reset ops me0" and "fft_ok snd_ops" and "\<forall>f \<in> set frames. length f = steps me * hop me"
  shows "\<exists>me'. monitor_run ops snd_ops frames me = Some me' \<and> monitor_ok me' \<and>
    (let k = min (length frames) (nat (max_blocks (wf me))); audio = last_frame me0 @ concat (take k frames)
     in num_blocks (wf me') = int k \<and>
        last_frame me' = take (nat (nfft me)) (drop (k * steps me * hop me) audio) \<and>
        mag (wf me') = columns ops snd_ops me audio (k * steps me) @ drop (k * nat (block_stride (wf me))) (mag (wf me0)))"
proof -
  have ok: "monitor_ok me" and n0: "num_blocks (wf me) = 0" using reset_ok [OF assms(1)] assms(2) by simp_all
  obtain mx where run: "monitor_run ops snd_ops frames me = Some (after ops snd_ops frames me mx)" "monitor_ok (after ops snd_ops frames me mx)"
    using run_eq [OF ok assms(3,4)] by blast
  let ?k = "length (kept me frames)"
  have k: "?k = min (length frames) (nat (max_blocks (wf me)))" "take ?k frames = kept me frames" by (simp_all add: kept_def n0 min_def)
  have audio: "heard me frames = last_frame me0 @ concat (take ?k frames)" unfolding k(2) by (simp add: heard_def assms(2) monitor_reset_def)
  have st: "steps me * length (bins me) = nat (block_stride (wf me))"
  proof -
    have "num_blocks (wf me) + int 0 \<le> max_blocks (wf me)" using ok by (simp add: monitor_ok_def waterfall_ok_def)
    from columns_fit(2) [OF ok this] show ?thesis by (metis nat_int)
  qed
  have len: "length (columns ops snd_ops me (heard me frames) (?k * steps me)) = ?k * nat (block_stride (wf me))"
    using st by (simp add: columns_length [OF ok] mult.assoc)
  show ?thesis
    using run unfolding k(1) [symmetric] audio [symmetric] Let_def
    by (intro exI [of _ "after ops snd_ops frames me mx"])
      (simp add: after_def Let_def n0 view_def blit_def len, simp add: assms(2) monitor_reset_def)
qed

definition milli_ops :: "int float_ops" where
  "milli_ops = \<lparr>f_lit = (\<lambda>n d. 1000 * n div d), f_add = (+), f_sub = (-), f_mul = (\<lambda>x y. x * y div 1000), f_div = (\<lambda>x y. 1000 * x div y),
     f_neg = uminus, f_gt = (>), f_ge = (\<ge>), f_abs = abs, f_sqrt = (\<lambda>_. 2), f_u8 = of_int\<rparr>"

definition milli_sound :: "int sound_ops" where
  "milli_sound = \<lparr>f_int = (\<lambda>x. x div 1000), f_sinf = (\<lambda>x. x), f_log10f = (\<lambda>x. x div 10),
     f_kiss_fftr = (\<lambda>xs. map (\<lambda>i. (xs ! i, 0)) [0..<length xs div 2 + 1])\<rparr>"

definition milli_cfg :: "int monitor_config" where
  "milli_cfg = \<lparr>f_min = 0, f_max = 10000, sample_rate = 25, cfg_time_osr = 2, cfg_freq_osr = 1, cfg_protocol = FTX_PROTOCOL_FT8, tr_period = 0\<rparr>"

definition milli_monitor :: "int monitor" where
  "milli_monitor = monitor_init milli_ops milli_sound (replicate 400 7) milli_cfg"

lemma milli_ok: "monitor_ok milli_monitor" "fft_ok milli_sound" "steps milli_monitor = 2" "hop milli_monitor = 2"
    "nfft milli_monitor = 4" "max_blocks (wf milli_monitor) = 93" "block_stride (wf milli_monitor) = 4"
proof -
  have d: "block_size milli_monitor = 4" "min_bin milli_monitor = 0" "max_bin milli_monitor = 2" "nfft milli_monitor = 4"
    "max_blocks (wf milli_monitor) = 93" "block_stride (wf milli_monitor) = 4" "time_osr (wf milli_monitor) = 2"
    by (simp_all add: milli_monitor_def monitor_init_def Let_def slot_and_symbol_def milli_cfg_def milli_ops_def milli_sound_def waterfall_init_def)
  have c: "cfg_time_osr milli_cfg = 2" "cfg_freq_osr milli_cfg = 1" by (simp_all add: milli_cfg_def)
  note i = init_ok [OF milli_monitor_def, unfolded d c, simplified]
  show "monitor_ok milli_monitor" "hop milli_monitor = 2" by (rule i(1)) (simp add: i(4))
  show "fft_ok milli_sound" by (simp add: fft_ok_def milli_sound_def)
  show "steps milli_monitor = 2" "nfft milli_monitor = 4" "max_blocks (wf milli_monitor) = 93" "block_stride (wf milli_monitor) = 4"
    by (simp_all add: steps_def d)
qed

theorem monitor_spectrogram_witness:
  "\<exists>me'. monitor_run milli_ops milli_sound [[1, 2, 3, 4], [5, 6, 7, 8]] (monitor_reset milli_ops milli_monitor) = Some me' \<and>
    num_blocks (wf me') = 2 \<and> last_frame me' = [5, 6, 7, 8]"
proof -
  have r: "steps (monitor_reset milli_ops milli_monitor) = 2" "hop (monitor_reset milli_ops milli_monitor) = 2"
    "max_blocks (wf (monitor_reset milli_ops milli_monitor)) = 93" "nfft (monitor_reset milli_ops milli_monitor) = 4"
    using milli_ok by (simp_all add: monitor_reset_def steps_def hop_def)
  have l: "length (last_frame milli_monitor) = 4" using milli_ok(1,5) by (simp add: monitor_ok_def)
  show ?thesis
    using monitor_spectrogram [OF milli_ok(1) refl milli_ok(2), of "[[1, 2, 3, 4], [5, 6, 7, 8]]" milli_ops] l by (auto simp: r Let_def)
qed

end
