(* ===== verification/Ft8Decoder.thy ===== *)
theory Ft8Decoder
  imports Monitor CallsignTable
begin

text \<open>
  \<open>ft8_decoder.c\<close>: what is reported of a decoded message, the table that recognises duplicates, and \<open>ft8_decode_frame\<close>,
  which searches and decodes a period of sound in three passes. Strings inside of a result are its arrays, with whatever an
  earlier period left behind the terminator.
\<close>

section \<open>Callsigns and locators of a report\<close>

record 'f ft8_decode_result =
  res_snr :: 'f
  res_dt :: 'f
  audio_frequency_hz :: 'f
  transmitter_call :: "char list"
  transmitter_grid :: "char list"
  res_message :: string

text \<open>The loop over the characters: whether it came to the end, what was seen, and the array.\<close>

fun callsign_loop :: "nat \<Rightarrow> string \<Rightarrow> bool \<Rightarrow> bool \<Rightarrow> char list \<Rightarrow> bool \<times> bool \<times> bool \<times> char list" where
  "callsign_loop index [] has_letter has_digit destination = (True, has_letter, has_digit, destination)"
| "callsign_loop index (c # cs) has_letter has_digit destination =
     (if \<not> (c_isalnum c \<or> c = CHR ''/'') then (False, has_letter, has_digit, destination)
      else callsign_loop (index + 1) cs (has_letter \<or> c_isalpha c) (has_digit \<or> c_isdigit c) (destination[index := c_toupper c]))"

definition normalize_report_callsign :: "char list \<Rightarrow> string \<Rightarrow> bool \<times> char list" where
  "normalize_report_callsign destination source =
     (let len = length source;
          body = (if len \<ge> 2 \<and> source ! 0 = CHR ''<'' \<and> source ! (len - 1) = CHR ''>'' then take (len - 2) (drop 1 source) else source)
      in if length body < 3 \<or> length body > 12 then (False, destination)
         else
           let (ok, has_letter, has_digit, destination) = callsign_loop 0 body False False destination
           in if \<not> ok then (False, destination)
              else if \<not> has_letter \<or> \<not> has_digit then (False, destination[0 := NUL])
              else (True, destination[length body := NUL]))"

definition grid_char_valid :: "nat \<Rightarrow> char \<Rightarrow> bool" where
  "grid_char_valid index c =
     (if index < 2 then 65 \<le> code c \<and> code c \<le> 82 else if index < 4 then c_isdigit c else 65 \<le> code c \<and> code c \<le> 88)"

fun grid_loop :: "nat \<Rightarrow> string \<Rightarrow> char list \<Rightarrow> bool \<times> char list" where
  "grid_loop index [] destination = (True, destination)"
| "grid_loop index (c # cs) destination =
     (if \<not> grid_char_valid index c then (False, destination)
      else grid_loop (index + 1) cs (destination[index := if index \<ge> 4 then c_tolower c else c]))"

definition normalize_report_grid :: "char list \<Rightarrow> string \<Rightarrow> bool \<times> char list" where
  "normalize_report_grid destination source =
     (if length source \<noteq> 4 \<and> length source \<noteq> 6 then (False, destination)
      else
        let (ok, destination) = grid_loop 0 source destination
        in if ok then (True, destination[length source := NUL]) else (False, destination))"

definition decode_report_fields :: "u8 list \<Rightarrow> callsign_table \<Rightarrow> 'f ft8_decode_result \<Rightarrow> 'f ft8_decode_result \<times> callsign_table" where
  "decode_report_fields p tbl result =
     (let type = ftx_message_get_type p;
          result = result\<lparr>transmitter_call := (transmitter_call result)[0 := NUL], transmitter_grid := (transmitter_grid result)[0 := NUL]\<rparr>
      in if type = STANDARD \<or> type = NONSTD_CALL then
           let (status, call_to, call_de, extra, tbl) =
                 (if type = STANDARD then ftx_message_decode_std p callsign_interface tbl
                  else ftx_message_decode_nonstd p callsign_interface tbl);
               (ok, call) = (if status = RC_OK then normalize_report_callsign (transmitter_call result) call_de else (False, transmitter_call result))
           in if \<not> ok then (result\<lparr>transmitter_call := call[0 := NUL]\<rparr>, tbl)
              else (result\<lparr>transmitter_call := call, transmitter_grid := snd (normalize_report_grid (transmitter_grid result) extra)\<rparr>, tbl)
         else (result, tbl))"

section \<open>Duplicates\<close>

definition FT8_MAX_RESULTS :: nat where "FT8_MAX_RESULTS = 50"

type_synonym 'f decoded_table = "'f message option list"

fun already_probe :: "nat \<Rightarrow> nat \<Rightarrow> 'f decoded_table \<Rightarrow> 'f message \<Rightarrow> bool" where
  "already_probe 0 index decoded message = True"
| "already_probe (Suc probes) index decoded message =
     (case decoded ! index of None \<Rightarrow> False
      | Some m \<Rightarrow> if hash m = hash message \<and> payload m = payload message then True
                  else already_probe probes ((index + 1) mod FT8_MAX_RESULTS) decoded message)"

definition already_decoded :: "'f decoded_table \<Rightarrow> 'f message \<Rightarrow> bool" where
  "already_decoded decoded message = already_probe FT8_MAX_RESULTS (unat (hash message) mod FT8_MAX_RESULTS) decoded message"

fun retain_probe :: "nat \<Rightarrow> nat \<Rightarrow> 'f decoded_table \<Rightarrow> 'f message \<Rightarrow> bool \<times> 'f decoded_table" where
  "retain_probe 0 index decoded message = (False, decoded)"
| "retain_probe (Suc probes) index decoded message =
     (case decoded ! index of None \<Rightarrow> (True, decoded[index := Some message])
      | Some m \<Rightarrow> retain_probe probes ((index + 1) mod FT8_MAX_RESULTS) decoded message)"

definition retain_message :: "'f decoded_table \<Rightarrow> 'f message \<Rightarrow> bool \<times> 'f decoded_table" where
  "retain_message decoded message = retain_probe FT8_MAX_RESULTS (unat (hash message) mod FT8_MAX_RESULTS) decoded message"

section \<open>Decoding a period\<close>

definition FT8_MIN_SCORE :: int where "FT8_MIN_SCORE = 5"
definition FT8_MAX_CANDIDATES :: nat where "FT8_MAX_CANDIDATES = 256"

text \<open>
  Besides the monitor and the table of callsigns, the state of the loops: the waterfall, from which signals are
  subtracted, the buckets of this pass, the duplicates, and the results with their number.
\<close>

record 'f frame_state =
  waterfall_now :: waterfall
  frequency_decoded :: "bool list"
  decoded :: "'f decoded_table"
  results :: "'f ft8_decode_result list"
  result_number :: nat
  callsigns :: callsign_table

definition candidate_frequency :: "'f float_ops \<Rightarrow> 'f monitor \<Rightarrow> candidate \<Rightarrow> 'f" where
  "candidate_frequency ops mon c =
     f_div ops (f_add ops (f_lit ops (min_bin mon + freq_offset c) 1) (f_div ops (f_lit ops (freq_sub c) 1) (f_lit ops (freq_osr (wf mon)) 1)))
       (symbol_period mon)"

definition candidate_time :: "'f float_ops \<Rightarrow> 'f monitor \<Rightarrow> candidate \<Rightarrow> 'f" where
  "candidate_time ops mon c =
     f_mul ops (f_add ops (f_lit ops (time_offset c) 1) (f_div ops (f_lit ops (time_sub c) 1) (f_lit ops (time_osr (wf mon)) 1)))
       (symbol_period mon)"

text \<open>
  One candidate. The local variables \<open>message\<close> and \<open>status\<close> are not initialised: their contents are arguments.
\<close>

definition try_candidate :: "'f float_ops \<Rightarrow> 'f sound_ops \<Rightarrow> 'f protocol_desc \<Rightarrow> 'f scratch \<Rightarrow> 'f message \<Rightarrow> decode_status \<Rightarrow> 'f monitor \<Rightarrow>
    candidate \<Rightarrow> 'f frame_state \<Rightarrow> 'f frame_state option" where
  "try_candidate ops snd_ops desc s m0 st0 mon candidate st =
     (let frequency_hz = candidate_frequency ops mon candidate;
          time_seconds = candidate_time ops mon candidate;
          bucket = f_int snd_ops frequency_hz sdiv 4
      in if bucket < 0 \<or> bucket \<ge> 1024 \<or> frequency_decoded st ! nat bucket then Some st
         else do {
           (ok, message, status, w) \<leftarrow> ftx_decode_candidate ops desc s (waterfall_now st) candidate (d_max_ldpc_iterations desc) m0 st0;
           let st = st\<lparr>waterfall_now := w\<rparr>;
           if \<not> ok then Some st
           else
             let st = st\<lparr>frequency_decoded := (frequency_decoded st)[nat bucket := True]\<rparr>
             in if already_decoded (decoded st) message then Some st
                else
                  let (rc, text, tbl) = ftx_message_decode (payload message) callsign_interface (callsigns st);
                      st = st\<lparr>callsigns := tbl\<rparr>
                  in if rc \<noteq> RC_OK then Some st
                     else
                       let (kept, dec) = retain_message (decoded st) message;
                           st = st\<lparr>decoded := dec\<rparr>
                       in if \<not> kept then Some st
                          else
                            let r = (results st ! result_number st)
                                  \<lparr>res_snr := f_sub ops (f_div ops (snr message) (f_lit ops 2 1)) (f_lit ops 22 1),
                                   res_dt := time_seconds, audio_frequency_hz := frequency_hz\<rparr>;
                                (r, tbl) = decode_report_fields (payload message) (callsigns st) r;
                                r = r\<lparr>res_message := take (FTX_MAX_MESSAGE_LENGTH - 1) text\<rparr>
                            in Some (st\<lparr>callsigns := tbl, results := (results st)[result_number st := r], result_number := result_number st + 1\<rparr>)
         })"

definition decode_pass :: "'f float_ops \<Rightarrow> 'f sound_ops \<Rightarrow> 'f protocol_desc \<Rightarrow> 'f scratch \<Rightarrow> 'f message \<Rightarrow> decode_status \<Rightarrow> 'f monitor \<Rightarrow>
    nat \<Rightarrow> nat \<Rightarrow> 'f frame_state \<times> candidate list \<Rightarrow> ('f frame_state \<times> candidate list) option" where
  "decode_pass ops snd_ops desc s m0 st0 mon capacity pass = (\<lambda>(st, candidates).
     if \<not> result_number st < capacity then Some (st, candidates)
     else do {
       (candidate_count, candidates) \<leftarrow>
         ftx_find_candidates desc (waterfall_now st) (int (FT8_MAX_CANDIDATES div (pass + 1))) candidates FT8_MIN_SCORE;
       st \<leftarrow> for_each (\<lambda>index st. if result_number st < capacity then try_candidate ops snd_ops desc s m0 st0 mon (candidates ! index) st else Some st)
         [0..<candidate_count] (st\<lparr>frequency_decoded := replicate 1024 False\<rparr>);
       Some (st, candidates)
     })"

fun sample_frames :: "'f list \<Rightarrow> 'f list list" where
  "sample_frames samples = (if length samples < 1920 then [] else take 1920 samples # sample_frames (drop 1920 samples))"

declare sample_frames.simps [simp del]

record 'f ft8_decoder =
  fd_monitor :: "'f monitor"
  initialized :: bool

definition ft8_configuration :: "'f float_ops \<Rightarrow> 'f monitor_config" where
  "ft8_configuration ops = \<lparr>f_min = f_lit ops 200 1, f_max = f_lit ops 3000 1, sample_rate = 12000, cfg_time_osr = 4, cfg_freq_osr = 2,
     cfg_protocol = FTX_PROTOCOL_FT8, tr_period = f_lit ops 0 1\<rparr>"

text \<open>Whether the allocations succeed is an argument.\<close>

definition ft8_decoder_init :: "'f float_ops \<Rightarrow> 'f sound_ops \<Rightarrow> bool \<Rightarrow> u8 list \<Rightarrow> ('f ft8_decoder \<times> callsign_table) option" where
  "ft8_decoder_init ops snd_ops allocated malloc =
     (if allocated
      then Some (\<lparr>fd_monitor = monitor_init ops snd_ops malloc (ft8_configuration ops), initialized = True\<rparr>, callsign_table_reset)
      else None)"

text \<open>A frame that is refused is \<open>None\<close> in the first component; otherwise it holds the results and their number.\<close>

definition ft8_decode_frame :: "'f float_ops \<Rightarrow> 'f sound_ops \<Rightarrow> 'f protocol_desc \<Rightarrow> 'f scratch \<Rightarrow> 'f message \<Rightarrow> decode_status \<Rightarrow> candidate list \<Rightarrow>
    'f ft8_decoder \<Rightarrow> callsign_table \<Rightarrow> 'f list \<Rightarrow> 'f ft8_decode_result list \<Rightarrow> nat \<Rightarrow>
    (('f ft8_decode_result list \<times> nat) option \<times> 'f ft8_decoder \<times> callsign_table) option" where
  "ft8_decode_frame ops snd_ops desc s m0 st0 candidates decoder tbl samples res result_capacity =
     (if \<not> initialized decoder \<or> result_capacity = 0 then Some (None, decoder, tbl)
      else do {
        mon \<leftarrow> monitor_run ops snd_ops (sample_frames samples) (monitor_reset ops (fd_monitor decoder));
        (st, candidates) \<leftarrow> for_each (decode_pass ops snd_ops desc s m0 st0 mon result_capacity) [0..<3]
          (\<lparr>waterfall_now = wf mon, frequency_decoded = [], decoded = replicate FT8_MAX_RESULTS None, results = res, result_number = 0, callsigns = tbl\<rparr>,
           candidates);
        Some (Some (results st, result_number st), decoder\<lparr>fd_monitor := mon\<lparr>wf := waterfall_now st\<rparr>\<rparr>, callsign_table_age (callsigns st))
      })"

section \<open>No duplicates\<close>

definition key :: "'f message \<Rightarrow> u16 \<times> u8 list" where "key m = (hash m, payload m)"

definition first_slot :: "'f message \<Rightarrow> nat" where "first_slot m = unat (hash m) mod 50"

definition keys :: "'f decoded_table \<Rightarrow> (u16 \<times> u8 list) set" where "keys dec = {key m |m. Some m \<in> set dec}"

definition dedup_ok :: "'f decoded_table \<Rightarrow> bool" where
  "dedup_ok dec \<longleftrightarrow> length dec = 50 \<and> (\<forall>i < 50. \<forall>m. dec ! i = Some m \<longrightarrow>
     (\<exists>d. i = (first_slot m + d) mod 50 \<and> (\<forall>j < d. dec ! ((first_slot m + j) mod 50) \<noteq> None)))"

lemma already_probe_False:
  "\<not> already_probe k (h mod 50) dec m \<Longrightarrow>
    \<exists>j < k. dec ! ((h + j) mod 50) = None \<and> (\<forall>j' < j. \<exists>x. dec ! ((h + j') mod 50) = Some x \<and> key x \<noteq> key m)"
proof (induction k arbitrary: h)
  case (Suc k)
  show ?case
  proof (cases "dec ! (h mod 50)")
    case None
    then show ?thesis by (intro exI [of _ 0]) simp
  next
    case (Some x)
    then have x: "key x \<noteq> key m" using Suc.prems by (auto simp: key_def)
    have "\<not> already_probe k (Suc h mod 50) dec m"
      using Suc.prems Some x by (simp add: key_def FT8_MAX_RESULTS_def mod_Suc_eq split: if_splits)
    from Suc.IH [OF this] obtain j where j: "j < k" "dec ! ((Suc h + j) mod 50) = None"
      "\<forall>j' < j. \<exists>x. dec ! ((Suc h + j') mod 50) = Some x \<and> key x \<noteq> key m" by blast
    have "\<forall>j' < Suc j. \<exists>x. dec ! ((h + j') mod 50) = Some x \<and> key x \<noteq> key m"
      using j(3) Some x by (auto simp: less_Suc_eq_0_disj)
    then show ?thesis using j by (intro exI [of _ "Suc j"]) simp
  qed
qed simp

lemma retain_at:
  "j < k \<Longrightarrow> dec ! ((h + j) mod 50) = None \<Longrightarrow> \<forall>j' < j. dec ! ((h + j') mod 50) \<noteq> None \<Longrightarrow>
    retain_probe k (h mod 50) dec m = (True, dec[(h + j) mod 50 := Some m])"
proof (induction k arbitrary: h j)
  case (Suc k)
  show ?case
  proof (cases j)
    case 0
    then show ?thesis using Suc.prems by simp
  next
    case (Suc i)
    then obtain x where x: "dec ! (h mod 50) = Some x" using Suc.prems(3) by (metis add_0_right zero_less_Suc not_None_eq)
    have "\<forall>j' < i. dec ! ((Suc h + j') mod 50) \<noteq> None" using Suc.prems(3) Suc by (auto simp: less_Suc_eq_0_disj)
    then show ?thesis using Suc.IH [of i "Suc h"] Suc.prems(1,2) Suc x by (simp add: FT8_MAX_RESULTS_def mod_Suc_eq)
  qed
qed simp

text \<open>A message that is not recognised is new, and there is room for it.\<close>

lemma new_message:
  assumes ok: "dedup_ok dec" and new: "\<not> already_decoded dec m"
  shows "key m \<notin> keys dec \<and> (\<exists>dec'. retain_message dec m = (True, dec') \<and> dedup_ok dec' \<and> keys dec' = insert (key m) (keys dec))"
proof -
  let ?h = "first_slot m"
  have h: "?h mod 50 = unat (hash m) mod FT8_MAX_RESULTS" by (simp add: first_slot_def FT8_MAX_RESULTS_def)
  have len: "length dec = 50" using ok by (simp add: dedup_ok_def)
  from new obtain j where j: "j < 50" "dec ! ((?h + j) mod 50) = None" "\<forall>j' < j. \<exists>x. dec ! ((?h + j') mod 50) = Some x \<and> key x \<noteq> key m"
    using already_probe_False [of FT8_MAX_RESULTS ?h dec m] by (auto simp: already_decoded_def h FT8_MAX_RESULTS_def)
  have fresh: "key m \<notin> keys dec"
  proof
    assume "key m \<in> keys dec"
    then obtain x i where x: "key x = key m" "i < 50" "dec ! i = Some x" by (auto simp: keys_def in_set_conv_nth len)
    then have "first_slot x = ?h" by (simp add: key_def first_slot_def)
    with ok x obtain d where d: "i = (?h + d) mod 50" "\<forall>j' < d. dec ! ((?h + j') mod 50) \<noteq> None" unfolding dedup_ok_def by metis
    consider "d < j" | "d = j" | "j < d" by linarith
    then show False using j d x by cases auto
  qed
  let ?p = "(?h + j) mod 50"
  let ?dec = "dec[?p := Some m]"
  have p: "?p < length dec" by (simp add: len)
  have ret: "retain_message dec m = (True, ?dec)"
    using retain_at [OF j(1,2), of m] j(3) unfolding retain_message_def h [symmetric] by (auto simp: FT8_MAX_RESULTS_def)
  have grow: "?dec ! i \<noteq> None" if "dec ! i \<noteq> None" for i using that p by (cases "i = ?p") auto
  have "\<exists>d. i = (first_slot x + d) mod 50 \<and> (\<forall>j < d. ?dec ! ((first_slot x + j) mod 50) \<noteq> None)"
    if i: "i < 50" "?dec ! i = Some x" for i x
  proof (cases "i = ?p")
    case True
    then have "x = m" using i p by simp
    then show ?thesis using True j(3) grow by (intro exI [of _ j]) auto
  next
    case False
    then have "dec ! i = Some x" using i by simp
    then show ?thesis using ok i(1) grow unfolding dedup_ok_def by meson
  qed
  then have ok': "dedup_ok ?dec" using len unfolding dedup_ok_def by simp
  have "Some x \<in> set ?dec \<longleftrightarrow> x = m \<or> Some x \<in> set dec" for x
  proof
    assume "Some x \<in> set ?dec"
    then show "x = m \<or> Some x \<in> set dec" using set_update_subset_insert [of dec ?p "Some m"] by auto
  next
    assume "x = m \<or> Some x \<in> set dec"
    then show "Some x \<in> set ?dec"
    proof
      assume "Some x \<in> set dec"
      then obtain i where "i < length dec" "dec ! i = Some x" by (auto simp: in_set_conv_nth)
      then show ?thesis using j(2) nth_mem [of i ?dec] by (cases "i = ?p") auto
    qed (use p in \<open>simp add: set_update_memI\<close>)
  qed
  then have "keys ?dec = insert (key m) (keys dec)" by (auto simp: keys_def)
  then show ?thesis using fresh ret ok' by blast
qed

lemma keys_few: "dedup_ok dec \<Longrightarrow> card (keys dec) \<le> 50"
proof -
  assume ok: "dedup_ok dec"
  have "keys dec \<subseteq> (\<lambda>x. key (the x)) ` set dec" by (force simp: keys_def)
  then have "card (keys dec) \<le> card (set dec)" by (meson List.finite_set card_image_le card_mono finite_imageI order_trans)
  then show ?thesis using ok card_length [of dec] by (simp add: dedup_ok_def)
qed

section \<open>The hash depends on the payload only\<close>

definition payload_hash :: "u8 list \<Rightarrow> u16" where
  "payload_hash p = ftx_compute_crc (take 9 p @ [p ! 9 AND 0xF8, 0, 0]) 82"

lemma decoded_hash:
  assumes s: "scratch_ok s" and d: "d = ftx_protocol_get_desc ops qsort s FTX_PROTOCOL_FT8"
    and run: "ftx_decode_candidate ops d s w c iters m st = Some (True, m', st', w')"
  shows "hash m' = payload_hash (payload m')"
proof -
  have "\<exists>f. length f = 13 \<and> ftx_check_crc_packed f \<and> hash m' = ftx_extract_crc f \<and> payload m' = map ((!) f) [0..<10]"
  proof -
    obtain l where l: "d_extract_likelihood d w c (s_llr s) = Some l"
      using run unfolding ftx_decode_candidate_def by (cases "d_extract_likelihood d w c (s_llr s)") auto
    define llr where "llr = ftx_normalize_logl ops l (d_ldpc_n d)"
    obtain plain errors where bp: "d_ldpc_decode d ((!) llr) iters (s_plain s) = (plain, errors)" by force
    obtain plain' go where g: "osd_fallback d ((!) llr) errors plain = (plain', go)" by force
    let ?f = "pack_bits plain' (d_ldpc_k d) (s_packed s)"
    have "d_check_crc d ?f \<and> hash m' = ucast (d_extract_crc d ?f) \<and> payload m' = extract_payload d ?f"
      using run unfolding ftx_decode_candidate_def Let_def l bind.bind_lunit llr_def [symmetric] bp prod.case g
      by (auto split: if_splits bind_splits)
    moreover have "length ?f = 13" using s by (subst pack_bits_bits(1)) (simp_all add: scratch_ok_def d desc_defs)
    moreover have "ucast (ftx_extract_crc_u32 ?f) = ftx_extract_crc ?f"
      unfolding ftx_extract_crc_u32_def by (rule bit_word_eqI) (simp add: bit_ucast_iff)
    ultimately show ?thesis by (intro exI [of _ ?f]) (auto simp: d desc_defs extract_payload_def)
  qed
  then obtain f where f: "length f = 13" "ftx_check_crc_packed f" "hash m' = ftx_extract_crc f" "payload m' = map ((!) f) [0..<10]" by blast
  have "take 9 (payload m') = take 9 f" using f(1) unfolding f(4) by (intro nth_equalityI) auto
  moreover have "payload m' ! 9 = f ! 9" unfolding f(4) by simp
  ultimately show ?thesis using f(2,3) by (simp add: payload_hash_def ftx_check_crc_packed_def Let_def)
qed

section \<open>Results\<close>

text \<open>What a frame may rely on: a monitor after its blocks, with the dimensions the search can count.\<close>

definition frame_inv :: "waterfall \<Rightarrow> 'f ft8_decode_result list \<Rightarrow> nat \<Rightarrow> 'f frame_state \<Rightarrow> bool" where
  "frame_inv w0 res capacity st \<longleftrightarrow> same_frame w0 (waterfall_now st) \<and> result_number st \<le> capacity \<and>
     length (results st) = length res \<and> drop (result_number st) (results st) = drop (result_number st) res \<and> dedup_ok (decoded st) \<and>
     (\<exists>ms :: 'f message list. length ms = result_number st \<and> distinct (map payload ms) \<and> keys (decoded st) = key ` set ms \<and>
       (\<forall>m \<in> set ms. hash m = payload_hash (payload m)) \<and>
       (\<forall>i < result_number st. \<exists>t t' text. ftx_message_decode (payload (ms ! i)) callsign_interface t = (RC_OK, text, t') \<and>
         res_message (results st ! i) = take 34 text))"

lemma frame_inv_update:
  "frame_inv w0 res capacity (st\<lparr>frequency_decoded := f\<rparr>) = frame_inv w0 res capacity st"
  "frame_inv w0 res capacity (st\<lparr>callsigns := t\<rparr>) = frame_inv w0 res capacity st"
  "same_frame w0 w \<Longrightarrow> frame_inv w0 res capacity st \<Longrightarrow> frame_inv w0 res capacity (st\<lparr>waterfall_now := w\<rparr>)"
  for st :: "'f frame_state"
  by (simp_all add: frame_inv_def)

lemma new_result:
  fixes st :: "'f frame_state"
  assumes inv: "frame_inv w0 res capacity st" and room: "result_number st < capacity" "capacity \<le> length res"
    and new: "\<not> already_decoded (decoded st) m" and hash: "hash m = payload_hash (payload m)"
    and said: "ftx_message_decode (payload m) callsign_interface t = (RC_OK, text, t')" "res_message r = take 34 text"
  shows "frame_inv w0 res capacity (st\<lparr>decoded := snd (retain_message (decoded st) m), callsigns := t'',
    results := (results st)[result_number st := r], result_number := result_number st + 1\<rparr>)"
proof -
  let ?n = "result_number st" and ?rs = "(results st)[result_number st := r]"
  obtain ms :: "'f message list" where ms: "length ms = ?n" "distinct (map payload ms)" "keys (decoded st) = key ` set ms" "\<forall>m \<in> set ms. hash m = payload_hash (payload m)"
    "\<forall>i < ?n. \<exists>t t' text. ftx_message_decode (payload (ms ! i)) callsign_interface t = (RC_OK, text, t') \<and> res_message (results st ! i) = take 34 text"
    using inv unfolding frame_inv_def by blast
  have d: "dedup_ok (decoded st)" and len: "length (results st) = length res" and rest: "drop ?n (results st) = drop ?n res"
    using inv by (simp_all add: frame_inv_def)
  obtain dec' where dec': "key m \<notin> keys (decoded st)" "retain_message (decoded st) m = (True, dec')" "dedup_ok dec'" "keys dec' = insert (key m) (keys (decoded st))"
    using new_message [OF d new] by blast
  have "payload m \<notin> set (map payload ms)"
  proof
    assume "payload m \<in> set (map payload ms)"
    then obtain x where "x \<in> set ms" "payload x = payload m" by auto
    then have "key m = key x" using ms(4) hash by (simp add: key_def)
    then show False using dec'(1) ms(3) \<open>x \<in> set ms\<close> by blast
  qed
  then have "distinct (map payload (ms @ [m]))" using ms(2) by simp
  moreover have "keys dec' = key ` set (ms @ [m])" using dec'(4) ms(3) by simp
  moreover have "drop (?n + 1) ?rs = drop (?n + 1) res"
    using arg_cong [OF rest, of "drop 1"] by (simp add: add.commute)
  moreover have "\<exists>t t' text. ftx_message_decode (payload ((ms @ [m]) ! i)) callsign_interface t = (RC_OK, text, t') \<and> res_message (?rs ! i) = take 34 text"
    if i: "i < ?n + 1" for i
  proof (cases "i = ?n")
    case True
    then have "(ms @ [m]) ! i = m" "?rs ! i = r" using ms(1) room len by (simp_all add: nth_append)
    then show ?thesis using said by auto
  next
    case False
    then show ?thesis using i ms(1,5) by (simp add: nth_append)
  qed
  moreover have "\<forall>x \<in> set (ms @ [m]). hash x = payload_hash (payload x)" using ms(4) hash by auto
  ultimately show ?thesis
    using inv room len dec' ms(1) unfolding frame_inv_def by (intro conjI exI [of _ "ms @ [m]"]) simp_all
qed

lemma try_candidate_ok:
  assumes d: "d = ftx_protocol_get_desc ops qsort s FTX_PROTOCOL_FT8" and s: "scratch_ok s" and w0: "waterfall_ok w0" "candidate_ok (d_num_tones d) w0 c"
    and inv: "frame_inv w0 res capacity st" and room: "result_number st < capacity" "capacity \<le> length res"
  shows "\<exists>st'. try_candidate ops snd_ops d s m0 st0 mon c st = Some st' \<and> frame_inv w0 res capacity st'"
proof -
  let ?w = "waterfall_now st"
  have sf: "same_frame w0 ?w" using inv by (simp add: frame_inv_def)
  have "waterfall_ok ?w" "candidate_ok (d_num_tones d) ?w c" using w0 same_frame_simps [OF sf] by simp_all
  from decode_total [OF this s d, of "d_max_ldpc_iterations d" m0 st0] obtain ok m st1 w where
    run: "ftx_decode_candidate ops d s ?w c (d_max_ldpc_iterations d) m0 st0 = Some (ok, m, st1, w)" "same_frame ?w w" by blast
  have sf': "same_frame w0 w" using sf run(2) by (rule same_frame_trans)
  let ?st = "st\<lparr>waterfall_now := w, frequency_decoded := (frequency_decoded st)[nat (f_int snd_ops (candidate_frequency ops mon c) sdiv 4) := True]\<rparr>"
  have inv1: "frame_inv w0 res capacity (st\<lparr>waterfall_now := w\<rparr>)" using sf' inv by (rule frame_inv_update(3))
  then have inv2: "frame_inv w0 res capacity ?st" by (simp add: frame_inv_def)
  obtain rc said tbl where dec: "ftx_message_decode (payload m) callsign_interface (callsigns st) = (rc, said, tbl)" by (metis prod_cases3)
  have inv3: "frame_inv w0 res capacity (?st\<lparr>callsigns := tbl\<rparr>)" using inv2 by (simp only: frame_inv_update(2))
  show ?thesis
  proof (cases "ok \<and> \<not> already_decoded (decoded st) m \<and> rc = RC_OK")
    case False
    then show ?thesis
      using run(1) inv inv1 inv2 inv3 dec by (auto simp: try_candidate_def Let_def)
  next
    case True
    have hash: "hash m = payload_hash (payload m)" using decoded_hash [OF s d run(1) [unfolded conjunct1 [OF True, THEN eqTrueI]]] .
    have kept: "fst (retain_message (decoded st) m)"
      using new_message [of "decoded st" m] True inv by (auto simp: frame_inv_def)
    obtain r t'' where r: "try_candidate ops snd_ops d s m0 st0 mon c st = Some st \<or>
      try_candidate ops snd_ops d s m0 st0 mon c st = Some (?st\<lparr>decoded := snd (retain_message (decoded st) m), callsigns := t'',
        results := (results ?st)[result_number ?st := r], result_number := result_number ?st + 1\<rparr>)" "res_message r = take 34 said"
    proof -
      obtain dec' where ret: "retain_message (decoded st) m = (True, dec')" using kept by (cases "retain_message (decoded st) m") auto
      let ?r0 = "(results st ! result_number st) \<lparr>res_snr := f_sub ops (f_div ops (snr m) (f_lit ops 2 1)) (f_lit ops 22 1),
        res_dt := candidate_time ops mon c, audio_frequency_hz := candidate_frequency ops mon c\<rparr>"
      obtain r t'' where f: "decode_report_fields (payload m) tbl ?r0 = (r, t'')" by force
      show ?thesis
        by (rule that [of "r\<lparr>res_message := take 34 said\<rparr>" t''])
          (use run(1) dec ret True f in \<open>auto simp: try_candidate_def Let_def FTX_MAX_MESSAGE_LENGTH_def\<close>)
    qed
    from r(1) show ?thesis
    proof (elim disjE)
      assume "try_candidate ops snd_ops d s m0 st0 mon c st = Some st"
      then show ?thesis using inv by blast
    next
      assume *: "try_candidate ops snd_ops d s m0 st0 mon c st = Some (?st\<lparr>decoded := snd (retain_message (decoded st) m), callsigns := t'',
        results := (results ?st)[result_number ?st := r], result_number := result_number ?st + 1\<rparr>)"
      have "frame_inv w0 res capacity (?st\<lparr>decoded := snd (retain_message (decoded ?st) m), callsigns := t'',
        results := (results ?st)[result_number ?st := r], result_number := result_number ?st + 1\<rparr>)"
        by (rule new_result [OF inv2 _ room(2) _ hash _ r(2), where t = "callsigns st" and t' = tbl]) (use room True dec in simp_all)
      then show ?thesis using * by simp
    qed
  qed
qed

section \<open>A period\<close>

lemma candidates_loop:
  assumes d: "d = ftx_protocol_get_desc ops qsort s FTX_PROTOCOL_FT8" and s: "scratch_ok s" and w0: "waterfall_ok w0" and room: "capacity \<le> length res"
  shows "\<forall>i \<in> set is. candidate_ok (d_num_tones d) w0 (cands ! i) \<Longrightarrow> frame_inv w0 res capacity st \<Longrightarrow>
    \<exists>st'. for_each (\<lambda>index st. if result_number st < capacity then try_candidate ops snd_ops d s m0 st0 mon (cands ! index) st else Some st) is st = Some st' \<and>
      frame_inv w0 res capacity st'"
proof (induction "is" arbitrary: st)
  case (Cons i "is")
  show ?case
  proof (cases "result_number st < capacity")
    case True
    then obtain st' where "try_candidate ops snd_ops d s m0 st0 mon (cands ! i) st = Some st'" "frame_inv w0 res capacity st'"
      using try_candidate_ok [OF d s w0 _ Cons.prems(2) True room, of "cands ! i" snd_ops m0 st0 mon] Cons.prems(1) by auto
    then show ?thesis using Cons.IH [of st'] Cons.prems(1) True by simp
  qed (use Cons in simp)
qed simp

lemma decode_pass_ok:
  assumes d: "d = ftx_protocol_get_desc ops qsort s FTX_PROTOCOL_FT8" and s: "scratch_ok s" and w0: "waterfall_ok w0" "countable (d_num_tones d) w0"
    and room: "capacity \<le> length res" and c: "length cands = 256" and inv: "frame_inv w0 res capacity st" and pass: "pass < 3"
  shows "\<exists>st' cands'. decode_pass ops snd_ops d s m0 st0 mon capacity pass (st, cands) = Some (st', cands') \<and> frame_inv w0 res capacity st' \<and> length cands' = 256"
proof (cases "result_number st < capacity")
  case True
  let ?w = "waterfall_now st" and ?num = "FT8_MAX_CANDIDATES div (pass + 1)"
  have sf: "same_frame w0 ?w" using inv by (simp add: frame_inv_def)
  then have w: "waterfall_ok ?w" "countable (d_num_tones d) ?w" using w0 same_frame_simps [OF sf] by (auto simp: countable_def same_frame_def)
  have "pass = 0 \<or> pass = 1 \<or> pass = 2" using pass by linarith
  then have num: "0 < ?num" "?num \<le> length cands" using c by (auto simp: FT8_MAX_CANDIDATES_def simp flip: numeral_2_eq_2 numeral_3_eq_3)
  obtain n cands' where f: "ftx_find_candidates d ?w (int ?num) cands FT8_MIN_SCORE = Some (n, cands')"
    "best_of ?num (mset (hits d ?w FT8_MIN_SCORE)) (mset (take n cands'))" "n \<le> ?num" "length cands' = length cands"
    using protocol.find_best [OF w(2) [unfolded d] num w(1), of FT8_MIN_SCORE] unfolding d by blast
  have ok: "candidate_ok (d_num_tones d) w0 (cands' ! i)" if i: "i < n" for i
  proof -
    have "cands' ! i \<in> set (take n cands')" using i f(3,4) num(2) by (auto simp: in_set_conv_nth)
    then have "cands' ! i \<in> set (hits d ?w FT8_MIN_SCORE)" using best_of_subset [OF f(2)] by blast
    then have "candidate_ok (d_num_tones d) ?w (cands' ! i)" using protocol.hits_of_grid unfolding d by blast
    then show ?thesis using same_frame_simps [OF sf] by simp
  qed
  have "frame_inv w0 res capacity (st\<lparr>frequency_decoded := replicate 1024 False\<rparr>)" using inv by (simp add: frame_inv_def)
  from candidates_loop [OF d s w0(1) room _ this, of "[0..<n]" cands' snd_ops m0 st0 mon] ok obtain st' where
    "for_each (\<lambda>index st. if result_number st < capacity then try_candidate ops snd_ops d s m0 st0 mon (cands' ! index) st else Some st)
      [0..<n] (st\<lparr>frequency_decoded := replicate 1024 False\<rparr>) = Some st'" "frame_inv w0 res capacity st'" by auto
  then show ?thesis using f(1,4) c True by (simp add: decode_pass_def)
qed (use inv c in \<open>simp add: decode_pass_def\<close>)

lemma sample_frames_length: "f \<in> set (sample_frames samples) \<Longrightarrow> length f = 1920"
proof (induction samples rule: sample_frames.induct)
  case (1 samples)
  then show ?case by (subst (asm) (2) sample_frames.simps) (auto split: if_splits)
qed

lemma empty_table: "dedup_ok (replicate 50 None)" "keys (replicate 50 None) = {}"
  by (simp_all add: dedup_ok_def keys_def)

definition decoder_ok :: "'f ft8_decoder \<Rightarrow> bool" where
  "decoder_ok dec \<longleftrightarrow> initialized dec \<and> monitor_ok (fd_monitor dec) \<and> countable 8 (wf (fd_monitor dec)) \<and>
     steps (fd_monitor dec) * hop (fd_monitor dec) = 1920"

lemma frame_ok:
  assumes dec: "decoder_ok decoder" and fft: "fft_ok snd_ops" and d: "d = ftx_protocol_get_desc ops qsort s FTX_PROTOCOL_FT8" and s: "scratch_ok s"
    and c: "length cands = 256" and cap: "0 < capacity" "capacity \<le> length res"
  shows "\<exists>st w0 decoder' tbl'. ft8_decode_frame ops snd_ops d s m0 st0 cands decoder tbl samples res capacity =
      Some (Some (results st, result_number st), decoder', tbl') \<and> frame_inv w0 res capacity st \<and> decoder_ok decoder'"
proof -
  let ?me = "monitor_reset ops (fd_monitor decoder)" and ?fs = "sample_frames samples"
  have ok: "monitor_ok ?me" "countable 8 (wf ?me)" "steps ?me * hop ?me = 1920"
    using dec reset_ok by (auto simp: decoder_ok_def monitor_reset_def countable_def steps_def hop_def)
  have lens: "\<forall>f \<in> set ?fs. length f = steps ?me * hop ?me" using sample_frames_length unfolding ok(3) by blast
  obtain mx where run: "monitor_run ops snd_ops ?fs ?me = Some (after ops snd_ops ?fs ?me mx)" "monitor_ok (after ops snd_ops ?fs ?me mx)"
    using run_eq [OF ok(1) fft lens] by blast
  define mon where "mon = after ops snd_ops ?fs ?me mx"
  have mon: "monitor_ok mon" "countable 8 (wf mon)" "steps mon * hop mon = 1920"
    using run(2) ok(2,3) by (auto simp: mon_def after_def Let_def countable_def steps_def hop_def)
  then have w0: "waterfall_ok (wf mon)" "countable (d_num_tones d) (wf mon)" by (simp_all add: monitor_ok_def d desc_defs)
  let ?st = "\<lparr>waterfall_now = wf mon, frequency_decoded = [], decoded = replicate FT8_MAX_RESULTS None, results = res, result_number = 0, callsigns = tbl\<rparr>"
  have inv: "frame_inv (wf mon) res capacity ?st"
    unfolding frame_inv_def by (intro conjI exI [of _ "[]"]) (simp_all add: same_frame_refl FT8_MAX_RESULTS_def empty_table)
  have "\<exists>st' cands'. for_each (decode_pass ops snd_ops d s m0 st0 mon capacity) [0..<k] (?st, cands) = Some (st', cands') \<and>
      frame_inv (wf mon) res capacity st' \<and> length cands' = 256" if "k \<le> 3" for k
    using that
  proof (induction k)
    case (Suc k)
    then obtain st' cands' where IH: "for_each (decode_pass ops snd_ops d s m0 st0 mon capacity) [0..<k] (?st, cands) = Some (st', cands')"
      "frame_inv (wf mon) res capacity st'" "length cands' = 256" by auto
    from decode_pass_ok [OF d s w0 cap(2) IH(3,2), of k snd_ops m0 st0 mon] Suc.prems IH(1) show ?case
      by (auto simp: for_each_append)
  qed (use inv c in simp)
  from this [of 3] obtain st cands' where st: "for_each (decode_pass ops snd_ops d s m0 st0 mon capacity) [0..<3] (?st, cands) = Some (st, cands')"
    "frame_inv (wf mon) res capacity st" by blast
  let ?dec = "decoder\<lparr>fd_monitor := mon\<lparr>wf := waterfall_now st\<rparr>\<rparr>"
  have sf: "same_frame (wf mon) (waterfall_now st)" using st(2) by (simp add: frame_inv_def)
  then have "decoder_ok ?dec"
    using dec mon same_frame_simps [OF sf] by (auto simp: decoder_ok_def monitor_ok_def same_frame_def countable_def steps_def hop_def)
  moreover have "ft8_decode_frame ops snd_ops d s m0 st0 cands decoder tbl samples res capacity =
      Some (Some (results st, result_number st), ?dec, callsign_table_age (callsigns st))"
    using dec cap(1) run(1) st(1) by (simp add: ft8_decode_frame_def decoder_ok_def mon_def)
  ultimately show ?thesis using st(2) by blast
qed

section \<open>What the fields of a report contain\<close>

definition reportable_body :: "string \<Rightarrow> string" where
  "reportable_body call = (if 2 \<le> length call \<and> hd call = CHR ''<'' \<and> last call = CHR ''>'' then butlast (tl call) else call)"

definition reportable :: "string \<Rightarrow> bool" where
  "reportable call \<longleftrightarrow> (let b = reportable_body call in 3 \<le> length b \<and> length b \<le> 12 \<and> list_all (\<lambda>c. c_isalnum c \<or> c = CHR ''/'') b \<and>
     list_ex c_isalpha b \<and> list_ex c_isdigit b)"

text \<open>The leading characters of a text that are valid in a locator.\<close>

fun grid_chars :: "nat \<Rightarrow> string \<Rightarrow> string" where
  "grid_chars index [] = []"
| "grid_chars index (c # cs) = (if grid_char_valid index c then (if index \<ge> 4 then c_tolower c else c) # grid_chars (index + 1) cs else [])"

lemma callsign_loop_eq:
  "list_all (\<lambda>c. c_isalnum c \<or> c = CHR ''/'') cs \<Longrightarrow> i + length cs \<le> length dest \<Longrightarrow>
    callsign_loop i cs l d dest = (True, l \<or> list_ex c_isalpha cs, d \<or> list_ex c_isdigit cs, blit i (map c_toupper cs) dest)"
proof (induction cs arbitrary: i l d dest)
  case Nil
  then show ?case by (simp add: blit_def)
next
  case (Cons c cs)
  then have "i < length dest" by simp
  then show ?case using Cons by (simp add: blit_Suc)
qed

lemma callsign_loop_False: "\<not> list_all (\<lambda>c. c_isalnum c \<or> c = CHR ''/'') cs \<Longrightarrow> \<not> fst (callsign_loop i cs l d dest)"
  by (induction cs arbitrary: i l d dest) auto

lemma grid_chars_length: "length (grid_chars i cs) \<le> length cs"
  by (induction cs arbitrary: i) (auto simp: le_SucI)

lemma grid_loop_eq:
  "i + length cs \<le> length dest \<Longrightarrow> grid_loop i cs dest = (length (grid_chars i cs) = length cs, blit i (grid_chars i cs) dest)"
proof (induction cs arbitrary: i dest)
  case Nil
  then show ?case by (simp add: blit_def)
next
  case (Cons c cs)
  then have i: "i < length dest" by simp
  show ?case
  proof (cases "grid_char_valid i c")
    case True
    then show ?thesis using Cons by (simp add: blit_Suc [OF i])
  qed (simp add: blit_def)
qed

lemma c_toupper_NUL: "c_isalnum c \<or> c = CHR ''/'' \<Longrightarrow> c_toupper c \<noteq> NUL"
proof
  assume c: "c_isalnum c \<or> c = CHR ''/''" and "c_toupper c = NUL"
  then have "\<not> c_isalnum (c_toupper c)" "c_toupper c \<noteq> CHR ''/''" by (simp_all add: ctype_defs)
  then show False using c by simp
qed

lemma grid_chars_NUL: "NUL \<notin> set (grid_chars i cs)"
proof (induction cs arbitrary: i)
  case (Cons c cs)
  have "c \<noteq> NUL \<and> c_tolower c \<noteq> NUL" if "grid_char_valid i c"
  proof -
    have "c_isdigit c \<or> c_isupper c" using that by (auto simp: grid_char_valid_def ctype_defs split: if_splits)
    moreover have "c_isalnum (c_tolower c) = c_isalnum c" by (simp only: c_isalnum_def tolower_classes)
    moreover have "\<not> c_isalnum NUL" by (simp add: ctype_defs)
    ultimately show ?thesis by (metis c_isalnum_def c_isalpha_def)
  qed
  then show ?case using Cons by auto
qed simp

lemma body_eq:
  "(if length s \<ge> 2 \<and> s ! 0 = CHR ''<'' \<and> s ! (length s - 1) = CHR ''>'' then take (length s - 2) (drop 1 s) else s) = reportable_body s"
proof (cases "length s \<ge> 2")
  case True
  then have "s \<noteq> []" by auto
  moreover have "take (length s - 2) (drop 1 s) = butlast (tl s)" by (simp add: butlast_conv_take drop_Suc numeral_2_eq_2)
  ultimately show ?thesis using True by (simp add: reportable_body_def hd_conv_nth last_conv_nth)
qed (simp add: reportable_body_def)

lemma blit_end: "length xs < length dest \<Longrightarrow> (blit 0 xs dest)[length xs := c] = xs @ c # drop (Suc (length xs)) dest"
proof -
  assume l: "length xs < length dest"
  have d: "drop (length xs) dest = dest ! length xs # drop (Suc (length xs)) dest" using l by (simp add: Cons_nth_drop_Suc)
  show ?thesis by (simp add: blit_def list_update_append d)
qed

lemma report_callsign:
  assumes "length dest = 13"
  shows "fst (normalize_report_callsign dest call) = reportable call"
    and "reportable call \<Longrightarrow> cstr (snd (normalize_report_callsign dest call)) = map c_toupper (reportable_body call)"
    and "length (snd (normalize_report_callsign dest call)) = 13"
proof -
  let ?b = "reportable_body call"
  let ?ok = "list_all (\<lambda>c. c_isalnum c \<or> c = CHR ''/'') ?b"
  have *: "normalize_report_callsign dest call =
      (if length ?b < 3 \<or> length ?b > 12 then (False, dest)
       else let (ok, l, d, dest) = callsign_loop 0 ?b False False dest
            in if \<not> ok then (False, dest) else if \<not> l \<or> \<not> d then (False, dest[0 := NUL]) else (True, dest[length ?b := NUL]))"
    unfolding normalize_report_callsign_def Let_def body_eq ..
  have len: "length (snd (snd (snd (callsign_loop i cs l d dest)))) = length dest" for i cs l d and dest
    by (induction cs arbitrary: i l d dest) auto
  show "fst (normalize_report_callsign dest call) = reportable call"
  proof (cases "3 \<le> length ?b \<and> length ?b \<le> 12 \<and> ?ok")
    case True
    then have n: "\<not> (length ?b < 3 \<or> length ?b > 12)" and ok: ?ok by simp_all
    have "callsign_loop 0 ?b False False dest = (True, list_ex c_isalpha ?b, list_ex c_isdigit ?b, blit 0 (map c_toupper ?b) dest)"
      using callsign_loop_eq [OF ok, of 0 dest False False] n assms by simp
    then show ?thesis using n ok unfolding * by (simp add: reportable_def Let_def)
  next
    case False
    obtain ok l d x where loop: "callsign_loop 0 ?b False False dest = (ok, l, d, x)" by (metis prod_cases4)
    have "\<not> reportable call" using False by (auto simp: reportable_def Let_def)
    moreover have "\<not> ok \<or> length ?b < 3 \<or> length ?b > 12" using callsign_loop_False [of ?b 0 False False dest] False loop by auto
    ultimately show ?thesis unfolding * loop by auto
  qed
  show "length (snd (normalize_report_callsign dest call)) = 13"
  proof -
    obtain ok l d x where loop: "callsign_loop 0 ?b False False dest = (ok, l, d, x)" by (metis prod_cases4)
    then have "length x = 13" using assms len [of 0 ?b False False dest] by simp
    then show ?thesis using assms unfolding * loop by simp
  qed
  assume r: "reportable call"
  then have b: "3 \<le> length ?b" "length ?b \<le> 12" ?ok "list_ex c_isalpha ?b" "list_ex c_isdigit ?b" by (simp_all add: reportable_def Let_def)
  have nul: "NUL \<notin> set (map c_toupper ?b)"
  proof
    assume "NUL \<in> set (map c_toupper ?b)"
    then obtain c where "c \<in> set ?b" "c_toupper c = NUL" by auto
    then show False using b(3) c_toupper_NUL [of c] by (simp add: list_all_iff)
  qed
  have "snd (normalize_report_callsign dest call) = (blit 0 (map c_toupper ?b) dest)[length ?b := NUL]"
    using callsign_loop_eq [of ?b 0 dest False False] b assms unfolding * by (simp add: Let_def)
  also have "\<dots> = map c_toupper ?b @ NUL # drop (Suc (length ?b)) dest"
    using b assms blit_end [of "map c_toupper ?b" dest] by simp
  finally show "cstr (snd (normalize_report_callsign dest call)) = map c_toupper ?b"
    by (simp only: cstr_append [OF nul])
qed

definition reported_grid :: "string \<Rightarrow> char list \<Rightarrow> string" where
  "reported_grid extra old =
     (let g = grid_chars 0 extra
      in if (length extra \<noteq> 4 \<and> length extra \<noteq> 6) \<or> g = [] then [] else if length g = length extra then g else g @ cstr (drop (length g) old))"

lemma report_grid:
  assumes "length old = 7"
  shows "cstr (snd (normalize_report_grid (old[0 := NUL]) extra)) = reported_grid extra old"
proof -
  let ?g = "grid_chars 0 extra" and ?d = "old[0 := NUL]"
  obtain c d where old: "old = c # d" using assms by (cases old) auto
  have l: "length ?g \<le> length extra" by (rule grid_chars_length)
  show ?thesis
  proof (cases "length extra \<noteq> 4 \<and> length extra \<noteq> 6")
    case True
    then show ?thesis by (simp add: normalize_report_grid_def reported_grid_def old cstr_def)
  next
    case False
    then have n: "0 < length extra" "length extra < 7" by auto
    have loop: "grid_loop 0 extra ?d = (length ?g = length extra, blit 0 ?g ?d)" using n assms by (intro grid_loop_eq) simp
    show ?thesis
    proof (cases "length ?g = length extra")
      case True
      have "(blit 0 ?g ?d)[length extra := NUL] = ?g @ NUL # drop (Suc (length extra)) ?d"
        using blit_end [of ?g ?d NUL] True n assms by simp
      then have "cstr (snd (normalize_report_grid ?d extra)) = ?g"
        using n(1) False loop True cstr_append [OF grid_chars_NUL] by (auto simp: normalize_report_grid_def Let_def)
      then show ?thesis using False True n by (auto simp: reported_grid_def Let_def)
    next
      case part: False
      have s: "snd (normalize_report_grid ?d extra) = ?g @ drop (length ?g) ?d"
        using False loop part by (auto simp: normalize_report_grid_def Let_def blit_def)
      show ?thesis
      proof (cases "?g = []")
        case True
        then show ?thesis unfolding s by (simp add: reported_grid_def cstr_def old)
      next
        case ne: False
        then have "drop (length ?g) ?d = drop (length ?g) old" by (cases ?g) (simp_all add: old)
        moreover have "cstr (?g @ x) = ?g @ cstr x" for x
          unfolding cstr_def by (rule takeWhile_append2) (use grid_chars_NUL [of 0 extra] in blast)
        ultimately have "cstr (snd (normalize_report_grid ?d extra)) = ?g @ cstr (drop (length ?g) old)" by (simp only: s)
        then show ?thesis using False part ne by (simp only: reported_grid_def Let_def if_False simp_thms)
      qed
    qed
  qed
qed

section \<open>Properties\<close>

text \<open>
  C14: \<open>ft8_decode_frame\<close> answers for any sound: nothing is read or written outside of the arrays, the results are at most
  the capacity and at most 50, they stand at the front of the array with the rest unchanged, each is the text of a message that
  was decoded, no two of them have the same payload, and the decoder can take the next period.
\<close>

theorem ft8_frame_results:
  fixes ops :: "'f float_ops"
  assumes "decoder_ok decoder" and "fft_ok snd_ops" and "d = ftx_protocol_get_desc ops qsort s FTX_PROTOCOL_FT8" and "scratch_ok s"
    and "length candidates = 256" and "0 < capacity" and "capacity \<le> length res"
  shows "\<exists>res' n decoder' tbl'. ft8_decode_frame ops snd_ops d s m0 st0 candidates decoder tbl samples res capacity =
      Some (Some (res', n), decoder', tbl') \<and> n \<le> capacity \<and> n \<le> 50 \<and> length res' = length res \<and> drop n res' = drop n res \<and>
    (\<exists>ms :: 'f message list. length ms = n \<and> distinct (map payload ms) \<and>
      (\<forall>i < n. \<exists>t t' said. ftx_message_decode (payload (ms ! i)) callsign_interface t = (RC_OK, said, t') \<and> res_message (res' ! i) = take 34 said)) \<and>
    decoder_ok decoder'"
proof -
  obtain st w0 decoder' tbl' where st: "ft8_decode_frame ops snd_ops d s m0 st0 candidates decoder tbl samples res capacity =
      Some (Some (results st, result_number st), decoder', tbl')" "frame_inv w0 res capacity st" "decoder_ok decoder'"
    using frame_ok [OF assms] by blast
  then obtain ms :: "'f message list" where ms: "length ms = result_number st" "distinct (map payload ms)" "keys (decoded st) = key ` set ms"
    "\<forall>i < result_number st. \<exists>t t' said. ftx_message_decode (payload (ms ! i)) callsign_interface t = (RC_OK, said, t') \<and>
         res_message (results st ! i) = take 34 said" unfolding frame_inv_def by (elim conjE exE) (rule that, assumption+)
  have "inj_on key (set ms)" using ms(2) by (auto simp: inj_on_def key_def distinct_map)
  then have "card (keys (decoded st)) = length ms" using ms(2,3) by (simp add: card_image distinct_card distinct_map)
  moreover have "card (keys (decoded st)) \<le> 50" using st(2) keys_few [of "decoded st"] by (simp add: frame_inv_def)
  ultimately have "result_number st \<le> 50" using ms(1) by simp
  moreover have "result_number st \<le> capacity \<and> length (results st) = length res \<and> drop (result_number st) (results st) = drop (result_number st) res"
    using st(2) by (simp add: frame_inv_def)
  ultimately show ?thesis using st(1,3) ms by blast
qed

lemma init_fields:
  assumes "slot_and_symbol ops snd_ops cfg = (slot_time, period)" and "me = monitor_init ops snd_ops malloc cfg"
  shows "block_size me = f_int snd_ops (f_mul ops (f_lit ops (sample_rate cfg) 1) period)" "nfft me = block_size me * cfg_freq_osr cfg"
    "min_bin me = f_int snd_ops (f_mul ops (f_min cfg) period)" "max_bin me = f_int snd_ops (f_mul ops (f_max cfg) period) + 1"
    "max_blocks (wf me) = f_int snd_ops (f_div ops slot_time period)" "time_osr (wf me) = cfg_time_osr cfg" "freq_osr (wf me) = cfg_freq_osr cfg"
    "num_bins (wf me) = max_bin me - min_bin me" "block_stride (wf me) = cfg_time_osr cfg * cfg_freq_osr cfg * num_bins (wf me)"
  unfolding assms(2) by (simp_all add: monitor_init_def assms(1) Let_def waterfall_init_def)

lemma milli_decoder:
  assumes "length malloc = 334056"
  obtains decoder where "ft8_decoder_init milli_ops milli_sound True malloc = Some (decoder, callsign_table_reset)" "decoder_ok decoder"
proof -
  define mon where "mon = monitor_init milli_ops milli_sound malloc (ft8_configuration milli_ops)"
  have ss: "slot_and_symbol milli_ops milli_sound (ft8_configuration milli_ops) = (15000, 160)"
    by (simp add: slot_and_symbol_def ft8_configuration_def milli_ops_def)
  note f = init_fields [OF ss mon_def]
  have d: "block_size mon = 1920" "min_bin mon = 32" "max_bin mon = 481" "max_blocks (wf mon) = 93" "time_osr (wf mon) = 4" "freq_osr (wf mon) = 2"
    unfolding f by (simp_all add: ft8_configuration_def milli_ops_def milli_sound_def)
  then have e: "nfft mon = 3840" "num_bins (wf mon) = 449" "block_stride (wf mon) = 3592"
    using f(2,8,9) by (simp_all add: ft8_configuration_def)
  have c: "cfg_time_osr (ft8_configuration milli_ops) = 4" "cfg_freq_osr (ft8_configuration milli_ops) = 2" by (simp_all add: ft8_configuration_def)
  note i = init_ok [OF mon_def, unfolded d e c assms, simplified]
  have "decoder_ok \<lparr>fd_monitor = mon, initialized = True\<rparr>"
    using i(1,4) by (simp add: decoder_ok_def countable_def steps_def d e)
  then show thesis using that by (simp add: ft8_decoder_init_def mon_def)
qed

theorem ft8_frame_results_witness:
  "\<exists>decoder res' n decoder' tbl'. ft8_decode_frame milli_ops milli_sound (ftx_protocol_get_desc milli_ops (\<lambda>cmp xs. xs) demo_scratch FTX_PROTOCOL_FT8)
      demo_scratch \<lparr>payload = replicate 10 0, hash = 0, snr = 0\<rparr> \<lparr>ldpc_errors = 0, crc_valid = False\<rparr> (replicate 256 demo_candidate) decoder
      callsign_table_reset [3, 1, 4, 1, 5] (replicate 50 \<lparr>res_snr = 0, res_dt = 0, audio_frequency_hz = 0, transmitter_call = [], transmitter_grid = [], res_message = []\<rparr>) 50 =
    Some (Some (res', n), decoder', tbl') \<and> n \<le> 50"
proof -
  obtain decoder :: "int ft8_decoder" where dec: "decoder_ok decoder" by (rule milli_decoder [OF length_replicate [of _ 0]]) (rule that, assumption)
  have fft: "fft_ok milli_sound" by (rule milli_ok(2))
  let ?r = "\<lparr>res_snr = 0, res_dt = 0, audio_frequency_hz = 0, transmitter_call = [], transmitter_grid = [], res_message = []\<rparr> :: int ft8_decode_result"
  have l: "50 \<le> length (replicate 50 ?r)" by simp
  from ft8_frame_results [OF dec fft refl demo_ok(3) length_replicate [of _ demo_candidate] zero_less_numeral l, where ops = milli_ops and qsort = "\<lambda>cmp xs. xs" and
      ?m0.0 = "\<lparr>payload = replicate 10 0, hash = 0, snr = 0\<rparr>" and ?st0.0 = "\<lparr>ldpc_errors = 0, crc_valid = False\<rparr>" and
 tbl = callsign_table_reset and samples = "[3, 1, 4, 1, 5]"]
  show ?thesis by (elim exE conjE) (intro exI conjI, assumption+)
qed

text \<open>
  The fields of a standard message that are reported. A sender that can be reported (three to twelve letters, digits and
  slashes, with a letter and a digit, in angular brackets or not) is reported in upper case, and otherwise nothing is; the
  locator is that of the message, nothing without one, and where only the first characters of the third field are those of a
  locator, these and behind them what an earlier result left in the array.
\<close>

theorem report_fields_exact:
  assumes "ftx_message_get_type p = STANDARD" and "ftx_message_decode_std p callsign_interface tbl = (RC_OK, call_to, call_de, extra, tbl')"
    and "length (transmitter_call r) = 13" and "length (transmitter_grid r) = 7"
  shows "let r' = fst (decode_report_fields p tbl r) in
    (reportable call_de \<longrightarrow> cstr (transmitter_call r') = map c_toupper (reportable_body call_de) \<and>
      cstr (transmitter_grid r') = reported_grid extra (transmitter_grid r)) \<and>
    (\<not> reportable call_de \<longrightarrow> cstr (transmitter_call r') = [] \<and> cstr (transmitter_grid r') = [])"
proof -
  let ?c = "(transmitter_call r)[0 := NUL]"
  obtain ok call where n: "normalize_report_callsign ?c call_de = (ok, call)" by force
  have len: "length ?c = 13" using assms(3) by simp
  have nil: "cstr (x[0 := NUL]) = []" for x by (cases x) (simp_all add: cstr_def)
  show ?thesis
    using report_callsign(1,2) [OF len, of call_de] report_grid [OF assms(4), of extra] assms(1,2) n
    by (auto simp: decode_report_fields_def Let_def nil)
qed

text \<open>The report of one station, R-12, becomes the locator RO62 of no one, and the confirmation RR73 is taken for a locator.\<close>

theorem report_fields_exact_witness:
  "\<exists>p. let r = \<lparr>res_snr = 0, res_dt = 0, audio_frequency_hz = 0, transmitter_call = replicate 13 NUL, transmitter_grid = ''JO62'' @ replicate 3 NUL,
        res_message = []\<rparr> :: int ft8_decode_result; r' = fst (decode_report_fields p callsign_table_reset r)
     in cstr (transmitter_call r') = ''W9XYZ'' \<and> cstr (transmitter_grid r') = ''RO62'' \<and> reported_grid ''RR73'' (transmitter_grid r) = ''RR73''"
proof -
  let ?r = "\<lparr>res_snr = 0, res_dt = 0, audio_frequency_hz = 0, transmitter_call = replicate 13 NUL, transmitter_grid = ''JO62'' @ replicate 3 NUL,
        res_message = []\<rparr> :: int ft8_decode_result"
  have f: "field_call ''K1ABC''" "field_call ''W9XYZ''" "suffixes_agree ''K1ABC'' ''W9XYZ''" by code_simp+
  have "int_to_dd (- 12) 2 True = ''-12''" by code_simp
  then have e: "good_extra ''R-12''" unfolding good_extra_def by (intro disjI2 bexI [of _ "- 12"]) simp_all
  let ?p = "std_bytes (n29 ''K1ABC'') (n29 ''W9XYZ'') (packgrid ''R-12'') (suffix_i3 ''K1ABC'' ''W9XYZ'') @ []"
  obtain tbl' where "ftx_message_decode_std ?p callsign_interface callsign_table_reset = (RC_OK, ''K1ABC'', ''W9XYZ'', ''R-12'', tbl')"
    using decode_std_fields(1) [OF f e refl, where rest = "[]" and hash_if = callsign_interface and st = callsign_table_reset] by (rule exE)
  moreover have "reportable ''W9XYZ''" "map c_toupper (reportable_body ''W9XYZ'') = ''W9XYZ''"
    "reported_grid ''R-12'' (''JO62'' @ replicate 3 NUL) = ''RO62''" "reported_grid ''RR73'' (''JO62'' @ replicate 3 NUL) = ''RR73''" by code_simp+
  ultimately show ?thesis
    using report_fields_exact [OF decode_std_fields(2) [OF f e refl, of "[]"], of callsign_table_reset "''K1ABC''" "''W9XYZ''" "''R-12''" tbl' ?r]
    by (intro exI [of _ ?p]) (simp add: Let_def)
qed

end
