(* ===== verification/Jt9Decoder.thy ===== *)
theory Jt9Decoder
  imports Ft8Decoder Station "HOL-Library.Sublist"
begin

text \<open>
  \<open>jt9_decoder.c\<close>: the second decoder, a program that is run on a file. Its output lines, the wait for it, the file of
  samples it reads and the merging of its results with those of the first decoder. The file system, the clock, the process and
  the reading of a floating point number are arguments.
\<close>

section \<open>Paths and files\<close>

definition join_path :: "string option \<Rightarrow> string option \<Rightarrow> string option" where
  "join_path directory name =
     (case directory of None \<Rightarrow> None | Some d \<Rightarrow> (case name of None \<Rightarrow> None | Some n \<Rightarrow> Some (d @ ''/'' @ n)))"

text \<open>What \<open>write\<close> does each time it is called: it is interrupted, fails, or takes a number of bytes.\<close>

datatype write_answer = Interrupted | Failed | Taken nat

text \<open>The bytes that arrived, and the answer; \<open>None\<close> when the answers of the system are used up.\<close>

fun write_all :: "write_answer list \<Rightarrow> 'b list \<Rightarrow> ('b list \<times> bool) option" where
  "write_all answers [] = Some ([], True)"
| "write_all [] (b # bs) = None"
| "write_all (a # answers) (b # bs) =
     (case a of Interrupted \<Rightarrow> write_all answers (b # bs)
      | Failed \<Rightarrow> Some ([], False)
      | Taken n \<Rightarrow> if n = 0 then Some ([], False)
                   else map_option (\<lambda>(out, ok). (take n (b # bs) @ out, ok)) (write_all answers (drop n (b # bs))))"

definition store_u16le :: "u16 \<Rightarrow> u8 list" where
  "store_u16le value = [ucast value, ucast (drop_bit 8 value)]"

definition store_u32le :: "u32 \<Rightarrow> u8 list" where
  "store_u32le value = [ucast value, ucast (drop_bit 8 value), ucast (drop_bit 16 value), ucast (drop_bit 24 value)]"

definition JT9_WAVE_SAMPLES :: nat where "JT9_WAVE_SAMPLES = 180000"

definition ascii :: "string \<Rightarrow> u8 list" where "ascii s = map (\<lambda>c. word_of_nat (code c)) s"

definition wave_header :: "u8 list" where
  "wave_header =
     (let header = replicate 44 0;
          header = blit 0 (ascii ''RIFF'') header;
          header = blit 4 (store_u32le (36 + word_of_nat JT9_WAVE_SAMPLES * 2)) header;
          header = blit 8 (ascii ''WAVEfmt '') header;
          header = blit 16 (store_u32le 16) header;
          header = blit 20 (store_u16le 1) header;
          header = blit 22 (store_u16le 1) header;
          header = blit 24 (store_u32le 12000) header;
          header = blit 28 (store_u32le 24000) header;
          header = blit 32 (store_u16le 2) header;
          header = blit 34 (store_u16le 16) header;
          header = blit 36 (ascii ''data'') header
      in blit 40 (store_u32le (word_of_nat JT9_WAVE_SAMPLES * 2)) header)"

record 'f wave_ops =
  f_isfinite :: "'f \<Rightarrow> bool"
  f_fmaxf :: "'f \<Rightarrow> 'f \<Rightarrow> 'f"
  f_fminf :: "'f \<Rightarrow> 'f \<Rightarrow> 'f"
  f_lrintf :: "'f \<Rightarrow> int"

definition wave_scale :: "'f float_ops \<Rightarrow> 'f wave_ops \<Rightarrow> 'f list \<Rightarrow> 'f" where
  "wave_scale ops w samples =
     (let peak = fold (\<lambda>x peak. if f_isfinite w x then f_fmaxf w peak (f_abs ops x) else peak) samples (f_lit ops 1 (10 ^ 12))
      in f_div ops (f_lit ops 29490 1) peak)"

definition wave_sample :: "'f float_ops \<Rightarrow> 'f wave_ops \<Rightarrow> 'f \<Rightarrow> 'f list \<Rightarrow> nat \<Rightarrow> 16 word" where
  "wave_sample ops w scale samples source_index =
     (let value = (if source_index < length samples \<and> f_isfinite w (samples ! source_index)
                   then f_mul ops (samples ! source_index) scale else f_lit ops 0 1);
          value = f_fmaxf w (f_lit ops (- 32767) 1) (f_fminf w (f_lit ops 32767 1) value)
      in word_of_int (f_lrintf w value))"

text \<open>The chunks of 2048 samples; the array of samples is stored in the order of the machine, the low byte first.\<close>

fun wave_chunks :: "nat \<Rightarrow> (nat \<Rightarrow> 16 word) \<Rightarrow> nat \<Rightarrow> u8 list list" where
  "wave_chunks 0 pcm position = []"
| "wave_chunks (Suc fuel) pcm position =
     (if position < JT9_WAVE_SAMPLES
      then let chunk = min (JT9_WAVE_SAMPLES - position) 2048
           in concat (map (\<lambda>index. store_u16le (pcm (position + index))) [0..<chunk]) # wave_chunks fuel pcm (position + chunk)
      else [])"

text \<open>The buffers that \<open>write_wave\<close> hands to \<open>write_all\<close>, when each is written.\<close>

definition write_wave :: "'f float_ops \<Rightarrow> 'f wave_ops \<Rightarrow> 'f list \<Rightarrow> u8 list list" where
  "write_wave ops w samples = wave_header # wave_chunks JT9_WAVE_SAMPLES (wave_sample ops w (wave_scale ops w samples) samples) 0"

section \<open>Lines of output\<close>

text \<open>
  The functions of \<open>station.c\<close> again, with the array they write: a string that is refused half way leaves in the array what
  was written by then.
\<close>

fun callsign_scan_into :: "nat \<Rightarrow> char option \<Rightarrow> bool \<Rightarrow> bool \<Rightarrow> char list \<Rightarrow> string \<Rightarrow> char list \<times> bool" where
  "callsign_scan_into index prev has_letter has_digit output [] = (output[index := NUL], has_letter \<and> has_digit)"
| "callsign_scan_into index prev has_letter has_digit output (c # cs) =
     (if \<not> (c_isalnum c \<or> c = CHR ''/'') \<or> (c = CHR ''/'' \<and> prev = Some (CHR ''/'')) then (output, False)
      else callsign_scan_into (index + 1) (Some c) (has_letter \<or> c_isalpha c) (has_digit \<or> c_isdigit c) (output[index := c_toupper c]) cs)"

definition normalize_callsign_into :: "char list \<Rightarrow> nat \<Rightarrow> string \<Rightarrow> char list \<times> bool" where
  "normalize_callsign_into output output_size s =
     (if length s < 3 \<or> length s > 12 \<or> output_size \<le> length s \<or> s ! 0 = CHR ''/'' \<or> s ! (length s - 1) = CHR ''/''
      then (output, False) else callsign_scan_into 0 None False False output s)"

definition normalize_grid_into :: "char list \<Rightarrow> nat \<Rightarrow> string \<Rightarrow> char list \<times> bool" where
  "normalize_grid_into output output_size s =
     (if (length s \<noteq> 4 \<and> length s \<noteq> 6) \<or> output_size \<le> length s then (output, False)
      else
        let first = c_toupper (s ! 0); second = c_toupper (s ! 1)
        in if \<not> in_span 65 82 first \<or> \<not> in_span 65 82 second \<or> \<not> c_isdigit (s ! 2) \<or> \<not> c_isdigit (s ! 3) then (output, False)
           else
             let output = blit 0 [first, second, s ! 2, s ! 3] output
             in if length s = 6 then
                  let fifth = c_tolower (s ! 4); sixth = c_tolower (s ! 5)
                  in if \<not> in_span 97 120 fifth \<or> \<not> in_span 97 120 sixth then (output, False)
                     else (blit 4 [fifth, sixth, NUL] output, True)
                else (output[4 := NUL], True))"

definition normalize_jt9_callsign :: "char list \<Rightarrow> string \<Rightarrow> char list \<times> bool" where
  "normalize_jt9_callsign destination source =
     (let len = length source;
          source = (if len \<ge> 2 \<and> source ! 0 = CHR ''<'' \<and> source ! (len - 1) = CHR ''>'' \<and> len - 2 < 13
                    then take (len - 2) (drop 1 source) else source)
      in normalize_callsign_into destination 13 source)"

text \<open>\<open>strtok_r\<close> with a blank as delimiter.\<close>

function blank_tokens :: "string \<Rightarrow> string list" where
  "blank_tokens s =
     (let t = dropWhile (\<lambda>c. c = CHR '' '') s
      in if t = [] then [] else takeWhile (\<lambda>c. c \<noteq> CHR '' '') t # blank_tokens (dropWhile (\<lambda>c. c \<noteq> CHR '' '') t))"
  by auto
termination
proof (relation "measure length")
  fix s t :: string
  assume t: "t = dropWhile (\<lambda>c. c = CHR '' '') s" "t \<noteq> []"
  then obtain c cs where c: "t = c # cs" "c \<noteq> CHR '' ''" by (metis (full_types) hd_dropWhile list.collapse)
  have "length (dropWhile (\<lambda>c. c \<noteq> CHR '' '') cs) \<le> length cs" "length t \<le> length s" unfolding t(1) by (rule length_dropWhile_le)+
  then show "(dropWhile (\<lambda>c. c \<noteq> CHR '' '') t, s) \<in> measure length" using c by simp
qed simp

declare blank_tokens.simps [simp del]

text \<open>The search for the sender of a call to everyone: the tokens from \<open>index\<close> on.\<close>

fun find_sender :: "char list \<Rightarrow> nat \<Rightarrow> string list \<Rightarrow> char list \<times> nat option" where
  "find_sender destination index [] = (destination, None)"
| "find_sender destination index (t # ts) =
     (case normalize_jt9_callsign destination t of
        (destination, True) \<Rightarrow> (destination, Some index)
      | (destination, False) \<Rightarrow> find_sender destination (index + 1) ts)"

definition decode_report_fields :: "'f ft8_decode_result \<Rightarrow> 'f ft8_decode_result" where
  "decode_report_fields result =
     (let tokens = take 8 (blank_tokens (res_message result));
          call = (transmitter_call result)[0 := NUL];
          locator = (transmitter_grid result)[0 := NUL]
      in if length tokens < 2 then result\<lparr>transmitter_call := call, transmitter_grid := locator\<rparr>
         else
           let (call, sender_index) =
                 (if tokens ! 0 = ''CQ'' then find_sender call 1 (drop 1 tokens)
                  else case normalize_jt9_callsign call (tokens ! 1) of
                         (call, True) \<Rightarrow> (call, Some 1) | (call, False) \<Rightarrow> (call, None));
               locator = (case sender_index of None \<Rightarrow> locator
                 | Some i \<Rightarrow> if i + 1 < length tokens then fst (normalize_grid_into locator 7 (tokens ! (i + 1))) else locator)
           in result\<lparr>transmitter_call := call, transmitter_grid := locator\<rparr>)"

text \<open>
  \<open>sscanf\<close> with the format of the program: all five conversions, and what is left of the line; \<open>strtof\<close> is an argument, which
  answers the number and the text behind it.
\<close>

definition scan_line :: "(string \<Rightarrow> ('f \<times> string) option) \<Rightarrow> string \<Rightarrow> (string \<times> 'f \<times> 'f \<times> 'f \<times> string \<times> string) option" where
  "scan_line scan_float line =
     (let utc = takeWhile c_isdigit (take 6 line);
          rest = drop (length utc) line
      in if utc = [] then None
         else case scan_float (dropWhile c_isspace rest) of None \<Rightarrow> None | Some (level, rest) \<Rightarrow>
           (case scan_float (dropWhile c_isspace rest) of None \<Rightarrow> None | Some (dt, rest) \<Rightarrow>
             (case scan_float (dropWhile c_isspace rest) of None \<Rightarrow> None | Some (freq, rest) \<Rightarrow>
               (let rest = dropWhile c_isspace rest;
                    marker = takeWhile (\<lambda>c. \<not> c_isspace c) (take 7 rest)
                in if marker = [] then None
                   else Some (utc, level, dt, freq, marker, dropWhile c_isspace (drop (length marker) rest))))))"

definition trim_end :: "string \<Rightarrow> string" where
  "trim_end s = rev (dropWhile c_isspace (rev s))"

definition zero_result :: "'f float_ops \<Rightarrow> 'f ft8_decode_result" where
  "zero_result ops = \<lparr>res_snr = f_lit ops 0 1, res_dt = f_lit ops 0 1, audio_frequency_hz = f_lit ops 0 1, transmitter_call = replicate 13 NUL,
     transmitter_grid = replicate 7 NUL, res_message = []\<rparr>"

definition jt9_parse_decode_line :: "'f float_ops \<Rightarrow> (string \<Rightarrow> ('f \<times> string) option) \<Rightarrow> string \<Rightarrow> 'f ft8_decode_result option" where
  "jt9_parse_decode_line ops scan_float line =
     (case scan_line scan_float line of None \<Rightarrow> None
      | Some (utc, level, dt, freq, marker, rest) \<Rightarrow>
          if length utc \<noteq> 6 \<or> marker \<noteq> ''~'' \<or> f_gt ops (f_lit ops (- 60) 1) level \<or> f_gt ops level (f_lit ops 60 1) \<or>
             f_gt ops (f_lit ops (- 5) 1) dt \<or> f_gt ops dt (f_lit ops 5 1) \<or> f_gt ops (f_lit ops 100 1) freq \<or> f_gt ops freq (f_lit ops 5000 1)
          then None
          else
            let message = trim_end (take (FTX_MAX_MESSAGE_LENGTH - 1) rest)
            in if message = [] then None
               else Some (decode_report_fields ((zero_result ops)\<lparr>res_snr := level, res_dt := dt, audio_frequency_hz := freq, res_message := message\<rparr>)))"

section \<open>Waiting for the program\<close>

datatype child = Running | Exited nat | Signalled nat | Ended | Wait_failed string

text \<open>
  What \<open>waitpid\<close> reports and the second the clock shows then, pass by pass (an interrupted call counts as \<open>Running\<close>). The
  answer is the status, the error and whether the program was killed; \<open>None\<close> while it waits.
\<close>

fun wait_for_child :: "int \<Rightarrow> int \<Rightarrow> (child \<times> int) list \<Rightarrow> (int \<times> string \<times> bool) option" where
  "wait_for_child started_at timeout_seconds [] = None"
| "wait_for_child started_at timeout_seconds ((report, now) # reports) =
     (case report of
        Exited status \<Rightarrow> if status = 0 then Some (0, [], False) else Some (- 1, ''exited with status '' @ fmt_int (int status), False)
      | Signalled sig \<Rightarrow> Some (- 1, ''terminated by signal '' @ fmt_int (int sig), False)
      | Ended \<Rightarrow> Some (- 1, ''ended unexpectedly'', False)
      | Wait_failed e \<Rightarrow> Some (- 1, ''waitpid failed: '' @ e, False)
      | Running \<Rightarrow>
          if now - started_at \<ge> timeout_seconds
          then Some (- 1, ''timed out after '' @ fmt_int timeout_seconds @ '' seconds'', True)
          else wait_for_child started_at timeout_seconds reports)"

definition failure_diagnostic :: "string \<Rightarrow> bool" where
  "failure_diagnostic line \<longleftrightarrow> sublist ''error'' line \<or> sublist ''Error'' line \<or> sublist ''failed'' line \<or> sublist ''Permission denied'' line"

section \<open>Results\<close>

fun read_lines :: "'f float_ops \<Rightarrow> (string \<Rightarrow> ('f \<times> string) option) \<Rightarrow> nat \<Rightarrow> string list \<Rightarrow> 'f ft8_decode_result list \<Rightarrow> 'f ft8_decode_result list" where
  "read_lines ops scan_float result_capacity [] acc = acc"
| "read_lines ops scan_float result_capacity (line # lines) acc =
     (if length acc < result_capacity
      then read_lines ops scan_float result_capacity lines
        (case jt9_parse_decode_line ops scan_float line of Some r \<Rightarrow> acc @ [r] | None \<Rightarrow> acc)
      else acc)"

text \<open>
  Whether the job is active, what the wait answered and the lines of the file (\<open>None\<close> when it cannot be opened); the answer is
  the status, the results and the error text, which keeps 191 characters.
\<close>

definition jt9_decoder_finish :: "'f float_ops \<Rightarrow> (string \<Rightarrow> ('f \<times> string) option) \<Rightarrow> bool \<Rightarrow> nat \<Rightarrow> int \<times> string \<times> bool \<Rightarrow> string list option \<Rightarrow>
    string \<Rightarrow> int \<times> 'f ft8_decode_result list \<times> string" where
  "jt9_decoder_finish ops scan_float active result_capacity waited output last_error =
     (if \<not> active \<or> result_capacity = 0 then (- 1, [], last_error)
      else
        let (child_status, err, killed) = waited;
            last_error = take 191 err
        in case output of None \<Rightarrow> (- 1, [], last_error)
           | Some lines \<Rightarrow>
               if child_status \<noteq> 0
               then (- 1, [], case find failure_diagnostic lines of
                      Some line \<Rightarrow> take 191 (take (c_strcspn line [CHR 0x0D, CHR 0x0A]) line) | None \<Rightarrow> last_error)
               else (0, read_lines ops scan_float result_capacity lines [], last_error))"

section \<open>Merging\<close>

definition same_signal :: "'f float_ops \<Rightarrow> 'f ft8_decode_result \<Rightarrow> 'f ft8_decode_result \<Rightarrow> bool" where
  "same_signal ops a b \<longleftrightarrow> res_message a = res_message b \<and> f_ge ops (f_lit ops 10 1) (f_abs ops (f_sub ops (audio_frequency_hz a) (audio_frequency_hz b)))"

text \<open>A string written into an array, with its terminator.\<close>

definition write_string :: "string \<Rightarrow> char list \<Rightarrow> char list" where
  "write_string s mem = blit 0 (s @ [NUL]) mem"

definition take_sender :: "'f ft8_decode_result \<Rightarrow> 'f ft8_decode_result \<Rightarrow> 'f ft8_decode_result" where
  "take_sender p a =
     (if cstr (transmitter_call p) = [] \<and> cstr (transmitter_call a) \<noteq> []
      then p\<lparr>transmitter_call := write_string (take 12 (cstr (transmitter_call a))) (transmitter_call p),
             transmitter_grid := write_string (take 6 (cstr (transmitter_grid a))) (transmitter_grid p)\<rparr>
      else p)"

text \<open>The loop over the existing results: the array, and whether the result is a duplicate.\<close>

fun merge_existing :: "'f float_ops \<Rightarrow> 'f ft8_decode_result \<Rightarrow> nat list \<Rightarrow> 'f ft8_decode_result list \<Rightarrow> 'f ft8_decode_result list \<times> bool" where
  "merge_existing ops a [] primary = (primary, False)"
| "merge_existing ops a (existing # is) primary =
     (if same_signal ops (primary ! existing) a then (primary[existing := take_sender (primary ! existing) a], True)
      else merge_existing ops a is primary)"

definition merge_one :: "'f float_ops \<Rightarrow> nat \<Rightarrow> 'f ft8_decode_result \<Rightarrow> 'f ft8_decode_result list \<times> nat \<Rightarrow> 'f ft8_decode_result list \<times> nat" where
  "merge_one ops capacity a = (\<lambda>(primary, primary_count).
     if \<not> primary_count < capacity then (primary, primary_count)
     else let (primary, duplicate) = merge_existing ops a [0..<primary_count] primary
          in if duplicate then (primary, primary_count) else (primary[primary_count := a], primary_count + 1))"

definition jt9_merge_results :: "'f float_ops \<Rightarrow> 'f ft8_decode_result list \<Rightarrow> nat \<Rightarrow> nat \<Rightarrow> 'f ft8_decode_result list \<Rightarrow> 'f ft8_decode_result list \<times> nat" where
  "jt9_merge_results ops primary primary_count capacity additional =
     (if primary_count > capacity then (primary, primary_count) else fold (merge_one ops capacity) additional (primary, primary_count))"

section \<open>The fields of a report\<close>

abbreviation call_chars :: "char option \<Rightarrow> string \<Rightarrow> bool" where
  "call_chars prev s \<equiv> (\<forall>c \<in> set s. c_isalnum c \<or> c = CHR ''/'') \<and> \<not> double_slash (case prev of None \<Rightarrow> s | Some p \<Rightarrow> p # s)"

lemma scan_into_good:
  assumes "index + length s < length dest" and "call_chars prev s"
  shows "callsign_scan_into index prev l d dest s =
     (take index dest @ map c_toupper s @ NUL # drop (index + length s + 1) dest,
      (l \<or> (\<exists>c \<in> set s. c_isalpha c)) \<and> (d \<or> (\<exists>c \<in> set s. c_isdigit c)))"
  using assms
proof (induction s arbitrary: index prev l d dest)
  case Nil
  then show ?case by (simp add: upd_conv_take_nth_drop)
next
  case (Cons c cs)
  have "call_chars (Some c) cs" "\<not> (c = CHR ''/'' \<and> prev = Some (CHR ''/''))" using Cons.prems(2) by (cases prev; auto)+
  moreover have "take (index + 1) (dest[index := c_toupper c]) = take index dest @ [c_toupper c]"
    using Cons.prems(1) by (simp add: take_Suc_conv_app_nth)
  ultimately show ?case using Cons.prems Cons.IH [where index = "index + 1" and dest = "dest[index := c_toupper c]"] by auto
qed

lemma scan_into_answer:
  "snd (callsign_scan_into index prev l d dest s) = (case callsign_scan prev l d out s of None \<Rightarrow> False | Some (out, l, d) \<Rightarrow> l \<and> d)"
  by (induction s arbitrary: index prev l d dest out) auto

lemma scan_into_length: "length (fst (callsign_scan_into index prev l d dest s)) = length dest"
  by (induction s arbitrary: index prev l d dest) auto

text \<open>The form with the array answers as \<open>station_normalize_callsign\<close> does, and then leaves its answer in the array.\<close>

lemma normalize_callsign_into_ok:
  assumes "length dest = 13"
  shows "snd (normalize_callsign_into dest 13 s) = callsign_ok s" and "length (fst (normalize_callsign_into dest 13 s)) = 13"
    and "callsign_ok s \<Longrightarrow> cstr (fst (normalize_callsign_into dest 13 s)) = map c_toupper s"
proof -
  show "length (fst (normalize_callsign_into dest 13 s)) = 13" using assms by (simp add: normalize_callsign_into_def scan_into_length)
  have "snd (normalize_callsign_into dest 13 s) = (station_normalize_callsign 13 (Some s) \<noteq> None)"
    by (simp add: normalize_callsign_into_def station_normalize_callsign_def scan_into_answer [where out = "[]"] split: option.split)
  then show "snd (normalize_callsign_into dest 13 s) = callsign_ok s" by (auto simp: normalize_callsign_eq callsign_ok_def)
  assume ok: "callsign_ok s"
  then have len: "3 \<le> length s" "length s \<le> 12" and c: "call_chars None s" by (simp_all add: callsign_ok_def)
  have "s ! 0 \<noteq> CHR ''/''" "s ! (length s - 1) \<noteq> CHR ''/''"
    using ok len hd_conv_nth [of s] last_conv_nth [of s] by (cases "s = []"; simp add: callsign_ok_def)+
  then have "normalize_callsign_into dest 13 s = callsign_scan_into 0 None False False dest s"
    using len by (simp add: normalize_callsign_into_def)
  moreover have "fst (callsign_scan_into 0 None False False dest s) = map c_toupper s @ NUL # drop (length s + 1) dest"
    by (subst scan_into_good [OF _ c]) (use len assms in simp_all)
  moreover have "NUL \<notin> set (map c_toupper s)" using c c_toupper_NUL by fastforce
  ultimately show "cstr (fst (normalize_callsign_into dest 13 s)) = map c_toupper s" by (metis cstr_append)
qed

text \<open>A word without a digit is refused, and stays in the array.\<close>

lemma normalize_callsign_into_word:
  assumes "length dest = 13" and "3 \<le> length s" and "length s \<le> 12" and "\<forall>c \<in> set s. c_isalpha c"
  shows "\<not> snd (normalize_callsign_into dest 13 s)" and "cstr (fst (normalize_callsign_into dest 13 s)) = map c_toupper s"
proof -
  have a: "c \<in> set s \<Longrightarrow> c_isalnum c \<and> c \<noteq> CHR ''/'' \<and> \<not> c_isdigit c" for c using assms(4) by (auto simp: ctype_defs)
  show "\<not> snd (normalize_callsign_into dest 13 s)" using a assms(1) by (auto simp: normalize_callsign_into_ok(1) callsign_ok_def)
  have "double_slash s \<Longrightarrow> CHR ''/'' \<in> set s" by (induction s rule: double_slash.induct) auto
  then have c: "call_chars None s" using a by auto
  have "s ! 0 \<noteq> CHR ''/''" "s ! (length s - 1) \<noteq> CHR ''/''"
    using a [OF nth_mem, of 0] a [OF nth_mem, of "length s - 1"] assms(2) by (cases "s = []"; simp)+
  then have "normalize_callsign_into dest 13 s = callsign_scan_into 0 None False False dest s"
    using assms by (simp add: normalize_callsign_into_def)
  moreover have "fst (callsign_scan_into 0 None False False dest s) = map c_toupper s @ NUL # drop (length s + 1) dest"
    by (subst scan_into_good [OF _ c]) (use assms in simp_all)
  moreover have "NUL \<notin> set (map c_toupper s)" using c c_toupper_NUL by fastforce
  ultimately show "cstr (fst (normalize_callsign_into dest 13 s)) = map c_toupper s" by (metis cstr_append)
qed

lemma normalize_grid_into_ok:
  assumes "length locator = 7" and "station_normalize_grid 7 (Some g) = Some l"
  shows "cstr (fst (normalize_grid_into locator 7 g)) = l"
proof -
  have g: "grid_ok l" "length l = length g" using station_grid_canonical [OF assms(2)] by blast+
  have nul: "NUL \<notin> set l"
  proof
    assume "NUL \<in> set l"
    then obtain i where i: "i < length l" "l ! i = NUL" by (auto simp: in_set_conv_nth)
    have "i = 0 \<or> i = 1 \<or> i = 2 \<or> i = 3 \<or> i = 4 \<or> i = 5" using i(1) g(1) by (auto simp: grid_ok_def)
    then show False using g(1) i by (auto simp: grid_ok_def ctype_defs)
  qed
  obtain a b c d e f h where loc: "locator = [a, b, c, d, e, f, h]" using assms(1) by (auto simp: length_Suc_conv eval_nat_numeral)
  have "\<exists>rest. fst (normalize_grid_into locator 7 g) = l @ NUL # rest"
    using assms(2) unfolding loc station_normalize_grid_def normalize_grid_into_def Let_def
    by (auto simp: blit_def split: if_splits)
  then show ?thesis using nul cstr_append by metis
qed

section \<open>Tokens\<close>

lemma blank_tokens_nil [simp]: "blank_tokens [] = []"
  by (subst blank_tokens.simps) simp

lemma blank_tokens_blank [simp]: "blank_tokens (CHR '' '' # s) = blank_tokens s"
  by (subst (1 2) blank_tokens.simps) simp

text \<open>A word: one character or more, no blank.\<close>

definition word_ok :: "string \<Rightarrow> bool" where
  "word_ok w \<longleftrightarrow> w \<noteq> [] \<and> CHR '' '' \<notin> set w"

lemma word_ok_space: "w \<noteq> [] \<Longrightarrow> \<forall>c \<in> set w. \<not> c_isspace c \<Longrightarrow> word_ok w"
proof -
  assume "w \<noteq> []" "\<forall>c \<in> set w. \<not> c_isspace c"
  moreover have "c_isspace (CHR '' '')" by (simp add: ctype_defs)
  ultimately show ?thesis by (auto simp: word_ok_def)
qed

text \<open>Words with one blank between them.\<close>

fun unwords :: "string list \<Rightarrow> string" where
  "unwords [] = []" | "unwords [w] = w" | "unwords (w # ws) = w @ CHR '' '' # unwords ws"

lemma blank_tokens_word: "word_ok w \<Longrightarrow> rest = [] \<or> hd rest = CHR '' '' \<Longrightarrow> blank_tokens (w @ rest) = w # blank_tokens rest"
proof -
  assume w: "word_ok w" and r: "rest = [] \<or> hd rest = CHR '' ''"
  obtain c cs where c: "w = c # cs" "c \<noteq> CHR '' ''" using w by (cases w) (auto simp: word_ok_def)
  have n: "\<forall>x \<in> set w. x \<noteq> CHR '' ''" using w by (auto simp: word_ok_def)
  have "takeWhile (\<lambda>c. c \<noteq> CHR '' '') rest = []" "dropWhile (\<lambda>c. c \<noteq> CHR '' '') rest = rest" using r by (cases rest; simp)+
  then have "takeWhile (\<lambda>c. c \<noteq> CHR '' '') (w @ rest) = w" "dropWhile (\<lambda>c. c \<noteq> CHR '' '') (w @ rest) = rest"
    using n by (simp_all add: takeWhile_append2 dropWhile_append2)
  moreover have "dropWhile (\<lambda>c. c = CHR '' '') (w @ rest) = w @ rest" using c by simp
  ultimately show ?thesis using c by (subst blank_tokens.simps) (simp add: Let_def)
qed

lemma blank_tokens_unwords: "\<forall>w \<in> set ws. word_ok w \<Longrightarrow> blank_tokens (unwords ws) = ws"
proof (induction ws rule: unwords.induct)
  case 1
  then show ?case by simp
next
  case (2 w)
  then show ?case using blank_tokens_word [of w "[]"] by simp
next
  case (3 w v ws)
  then show ?case using blank_tokens_word [of w "CHR '' '' # unwords (v # ws)"] by simp
qed

section \<open>A line and its report\<close>

text \<open>What is left of a word when the brackets of a call that came as a hash are taken off.\<close>

definition unbracket :: "string \<Rightarrow> string" where
  "unbracket w = (if length w \<ge> 2 \<and> w ! 0 = CHR ''<'' \<and> w ! (length w - 1) = CHR ''>'' \<and> length w - 2 < 13
                  then take (length w - 2) (drop 1 w) else w)"

lemma normalize_jt9_callsign_eq: "normalize_jt9_callsign dest w = normalize_callsign_into dest 13 (unbracket w)"
  by (simp add: normalize_jt9_callsign_def unbracket_def Let_def)

lemma find_sender_first:
  assumes "length dest = 13" and "\<forall>u \<in> set us. \<not> callsign_ok (unbracket u)" and "callsign_ok (unbracket v)"
  shows "\<exists>call. find_sender dest index (us @ v # vs) = (call, Some (index + length us)) \<and> cstr call = map c_toupper (unbracket v)"
  using assms
proof (induction us arbitrary: dest index)
  case Nil
  then show ?case using normalize_callsign_into_ok [of dest "unbracket v"]
    by (cases "normalize_callsign_into dest 13 (unbracket v)") (auto simp: normalize_jt9_callsign_eq)
next
  case (Cons u us)
  obtain d where d: "normalize_jt9_callsign dest u = (d, False)" "length d = 13"
    using normalize_callsign_into_ok [of dest "unbracket u"] Cons.prems
    by (cases "normalize_callsign_into dest 13 (unbracket u)") (auto simp: normalize_jt9_callsign_eq)
  show ?case using Cons.IH [of d "index + 1"] Cons.prems d by simp
qed

lemma decode_report_fields_sender:
  assumes "length (transmitter_call r) = 13" and "length (transmitter_grid r) = 7"
    and "blank_tokens (res_message r) = w # us @ v # vs" and "length (us @ v # vs) < 8"
    and "us = [] \<or> w = ''CQ''" and "\<forall>u \<in> set us. \<not> callsign_ok (unbracket u)" and "callsign_ok (unbracket v)"
  shows "cstr (transmitter_call (decode_report_fields r)) = map c_toupper (unbracket v)"
    and "vs = g # gs \<Longrightarrow> station_normalize_grid 7 (Some g) = Some l \<Longrightarrow> cstr (transmitter_grid (decode_report_fields r)) = l"
    and "vs = [] \<Longrightarrow> cstr (transmitter_grid (decode_report_fields r)) = []"
proof -
  let ?d = "(transmitter_call r)[0 := NUL]" and ?l = "(transmitter_grid r)[0 := NUL]"
  have len: "length ?d = 13" "length ?l = 7" using assms by simp_all
  have t: "take 8 (blank_tokens (res_message r)) = w # us @ v # vs" using assms(3,4) by simp
  have "\<exists>call. (if (w # us @ v # vs) ! 0 = ''CQ'' then find_sender ?d 1 (drop 1 (w # us @ v # vs))
      else case normalize_jt9_callsign ?d ((w # us @ v # vs) ! 1) of (call, True) \<Rightarrow> (call, Some 1) | (call, False) \<Rightarrow> (call, None))
    = (call, Some (1 + length us)) \<and> cstr call = map c_toupper (unbracket v)"
  proof (cases "w = ''CQ''")
    case True
    then show ?thesis using find_sender_first [OF len(1) assms(6,7), of 1 vs] by simp
  next
    case False
    then show ?thesis using assms(5,7) normalize_callsign_into_ok [OF len(1), of "unbracket v"]
      by (cases "normalize_callsign_into ?d 13 (unbracket v)") (auto simp: normalize_jt9_callsign_eq)
  qed
  then obtain call where call: "(if (w # us @ v # vs) ! 0 = ''CQ'' then find_sender ?d 1 (drop 1 (w # us @ v # vs))
      else case normalize_jt9_callsign ?d ((w # us @ v # vs) ! 1) of (call, True) \<Rightarrow> (call, Some 1) | (call, False) \<Rightarrow> (call, None))
    = (call, Some (1 + length us))" "cstr call = map c_toupper (unbracket v)" by blast
  have e: "decode_report_fields r = r\<lparr>transmitter_call := call,
      transmitter_grid := (case vs of [] \<Rightarrow> ?l | g # gs \<Rightarrow> fst (normalize_grid_into ?l 7 g))\<rparr>"
    unfolding decode_report_fields_def Let_def t call(1) by (cases vs) (simp_all add: nth_append)
  show "cstr (transmitter_call (decode_report_fields r)) = map c_toupper (unbracket v)" using call(2) by (simp add: e)
  show "vs = g # gs \<Longrightarrow> station_normalize_grid 7 (Some g) = Some l \<Longrightarrow> cstr (transmitter_grid (decode_report_fields r)) = l"
    by (simp add: e normalize_grid_into_ok [OF len(2)])
  have "cstr ?l = []" using len(2) by (cases "transmitter_grid r") (simp_all add: cstr_def)
  then show "vs = [] \<Longrightarrow> cstr (transmitter_grid (decode_report_fields r)) = []" by (simp add: e)
qed

lemma decode_report_fields_rest:
  "res_message (decode_report_fields r) = res_message r" "res_snr (decode_report_fields r) = res_snr r" "res_dt (decode_report_fields r) = res_dt r"
  "audio_frequency_hz (decode_report_fields r) = audio_frequency_hz r"
  by (simp_all add: decode_report_fields_def Let_def split: prod.split)

lemma trim_end_append: "m \<noteq> [] \<Longrightarrow> \<not> c_isspace (last m) \<Longrightarrow> \<forall>c \<in> set t. c_isspace c \<Longrightarrow> trim_end (m @ t) = m"
proof -
  assume m: "m \<noteq> []" "\<not> c_isspace (last m)" "\<forall>c \<in> set t. c_isspace c"
  have "dropWhile c_isspace (rev (m @ t)) = rev m"
    unfolding rev_append by (subst dropWhile_append2) (use m in \<open>auto simp: hd_rev [symmetric] dropWhile_eq_self_iff\<close>)
  then show ?thesis by (simp add: trim_end_def)
qed

lemma unwords_ends:
  assumes "ws \<noteq> []" and "\<forall>w \<in> set ws. w \<noteq> [] \<and> (\<forall>c \<in> set w. \<not> c_isspace c)"
  shows "unwords ws \<noteq> []" and "\<not> c_isspace (hd (unwords ws))" and "\<not> c_isspace (last (unwords ws))"
  using assms by (induction ws rule: unwords.induct) (auto simp: last_append)

text \<open>A number in the line, as \<open>strtof\<close> reads it before a blank.\<close>

definition reads :: "(string \<Rightarrow> ('f \<times> string) option) \<Rightarrow> string \<Rightarrow> 'f \<Rightarrow> bool" where
  "reads scan_float number x \<longleftrightarrow> number \<noteq> [] \<and> \<not> c_isspace (hd number) \<and> (\<forall>rest. scan_float (number @ CHR '' '' # rest) = Some (x, CHR '' '' # rest))"

lemma scan_line_eq:
  assumes "length utc = 6" and "\<forall>c \<in> set utc. c_isdigit c"
    and "reads scan_float a level" and "reads scan_float b dt" and "reads scan_float c freq"
    and "\<forall>c \<in> set gap. c_isspace c" and "gap \<noteq> []" and "rest \<noteq> []" and "\<not> c_isspace (hd rest)"
  shows "scan_line scan_float (utc @ '' '' @ a @ '' '' @ b @ '' '' @ c @ '' ~'' @ gap @ rest) = Some (utc, level, dt, freq, ''~'', rest)"
proof -
  let ?line = "utc @ '' '' @ a @ '' '' @ b @ '' '' @ c @ '' ~'' @ gap @ rest"
  have u: "takeWhile c_isdigit (take 6 ?line) = utc" "drop (length utc) ?line = '' '' @ a @ '' '' @ b @ '' '' @ c @ '' ~'' @ gap @ rest" "utc \<noteq> []"
    using assms(1,2) by (auto simp: takeWhile_eq_all_conv)
  have blank: "c_isspace (CHR '' '')" by (simp add: ctype_defs)
  have skip: "\<not> c_isspace (hd x) \<Longrightarrow> x \<noteq> [] \<Longrightarrow> dropWhile c_isspace (x @ y) = x @ y" for x y
    by (cases x) simp_all
  have n: "dropWhile c_isspace (x @ CHR '' '' # y) = x @ CHR '' '' # y" "scan_float (x @ CHR '' '' # y) = Some (v, CHR '' '' # y)"
    if "reads scan_float x v" for x v y
    using that skip [of x "CHR '' '' # y"] by (simp_all add: reads_def)
  obtain g gs where g: "gap = g # gs" "c_isspace g" using assms(6,7) by (cases gap) auto
  have m: "\<not> c_isspace (CHR ''~'')" by (simp add: ctype_defs)
  have t: "takeWhile (\<lambda>c. \<not> c_isspace c) (take 7 (CHR ''~'' # gap @ rest)) = ''~''" using g by (simp add: take_Cons' ctype_defs)
  have r: "dropWhile c_isspace (gap @ rest) = rest" using assms(6,8,9) by (cases rest) (simp_all add: dropWhile_append2)
  show ?thesis unfolding scan_line_def Let_def u(1,2)
    using u(3) t r by (simp add: blank n [OF assms(3)] n [OF assms(4)] n [OF assms(5)] m)
qed

text \<open>A line of the program: the time, three numbers, the mark and the words of a message, with white space in between.\<close>

definition jt9_line :: "string \<Rightarrow> string \<Rightarrow> string \<Rightarrow> string \<Rightarrow> string \<Rightarrow> string list \<Rightarrow> string \<Rightarrow> string" where
  "jt9_line utc a b c gap ws tail = utc @ '' '' @ a @ '' '' @ b @ '' '' @ c @ '' ~'' @ gap @ unwords ws @ tail"

text \<open>The times, numbers and words of a line that the program takes, and the values of the numbers.\<close>

definition line_ok :: "'f float_ops \<Rightarrow> (string \<Rightarrow> ('f \<times> string) option) \<Rightarrow> string \<Rightarrow> string \<Rightarrow> string \<Rightarrow> string \<Rightarrow> string \<Rightarrow> string list \<Rightarrow> string \<Rightarrow>
    'f \<Rightarrow> 'f \<Rightarrow> 'f \<Rightarrow> bool" where
  "line_ok ops scan_float utc a b c gap ws tail level dt freq \<longleftrightarrow>
     length utc = 6 \<and> (\<forall>x \<in> set utc. c_isdigit x) \<and> reads scan_float a level \<and> reads scan_float b dt \<and> reads scan_float c freq \<and>
     gap \<noteq> [] \<and> (\<forall>x \<in> set gap. c_isspace x) \<and> (\<forall>x \<in> set tail. c_isspace x) \<and>
     ws \<noteq> [] \<and> length ws \<le> 8 \<and> length (unwords ws) \<le> 34 \<and> (\<forall>w \<in> set ws. w \<noteq> [] \<and> (\<forall>x \<in> set w. \<not> c_isspace x)) \<and>
     \<not> f_gt ops (f_lit ops (- 60) 1) level \<and> \<not> f_gt ops level (f_lit ops 60 1) \<and> \<not> f_gt ops (f_lit ops (- 5) 1) dt \<and>
     \<not> f_gt ops dt (f_lit ops 5 1) \<and> \<not> f_gt ops (f_lit ops 100 1) freq \<and> \<not> f_gt ops freq (f_lit ops 5000 1)"

lemma parse_line:
  assumes "line_ok ops scan_float utc a b c gap ws tail level dt freq"
  shows "jt9_parse_decode_line ops scan_float (jt9_line utc a b c gap ws tail) =
     Some (decode_report_fields ((zero_result ops)\<lparr>res_snr := level, res_dt := dt, audio_frequency_hz := freq, res_message := unwords ws\<rparr>))"
proof -
  note ok = assms [unfolded line_ok_def]
  have w: "ws \<noteq> []" "\<forall>w \<in> set ws. w \<noteq> [] \<and> (\<forall>x \<in> set w. \<not> c_isspace x)" "\<forall>x \<in> set tail. c_isspace x" "length (unwords ws) \<le> 34"
    using ok by simp_all
  note ends = unwords_ends [OF w(1,2)]
  have s: "scan_line scan_float (jt9_line utc a b c gap ws tail) = Some (utc, level, dt, freq, ''~'', unwords ws @ tail)"
    unfolding jt9_line_def by (rule scan_line_eq) (use ok ends in simp_all)
  have "take 34 (unwords ws @ tail) = unwords ws @ take (34 - length (unwords ws)) tail" using w(4) by simp
  then have "trim_end (take (FTX_MAX_MESSAGE_LENGTH - 1) (unwords ws @ tail)) = unwords ws"
    using trim_end_append [OF ends(1,3), of "take (34 - length (unwords ws)) tail"] w(3)
    by (auto simp: FTX_MAX_MESSAGE_LENGTH_def dest: in_set_takeD)
  then show ?thesis using ok ends(1) unfolding jt9_parse_decode_line_def s by simp
qed

text \<open>For the examples: thousandths, and a reader of numbers that takes four characters for a frequency.\<close>

definition demo_scan :: "string \<Rightarrow> (int \<times> string) option" where
  "demo_scan s = (let n = takeWhile (\<lambda>c. c \<noteq> CHR '' '') s in Some (if length n = 4 then 1500000 else 200, drop (length n) s))"

lemma demo_reads: "w \<noteq> [] \<Longrightarrow> CHR '' '' \<notin> set w \<Longrightarrow> \<not> c_isspace (hd w) \<Longrightarrow> reads demo_scan w (if length w = 4 then 1500000 else 200)"
proof -
  assume w: "w \<noteq> []" "CHR '' '' \<notin> set w" "\<not> c_isspace (hd w)"
  then have "takeWhile (\<lambda>c. c \<noteq> CHR '' '') (w @ CHR '' '' # rest) = w" for rest by (subst takeWhile_append2) auto
  then show ?thesis using w by (simp add: reads_def demo_scan_def)
qed

lemma demo_line:
  assumes "ws \<noteq> []" and "length ws \<le> 8" and "length (unwords ws) \<le> 34" and "\<forall>w \<in> set ws. w \<noteq> [] \<and> (\<forall>x \<in> set w. \<not> c_isspace x)"
  shows "line_ok milli_ops demo_scan ''120015'' ''-10'' ''0.2'' ''1500'' ''  '' ws [CHR 0x0A] 200 200 1500000"
proof -
  have "reads demo_scan ''-10'' 200" "reads demo_scan ''0.2'' 200" "reads demo_scan ''1500'' 1500000"
    using demo_reads [of "''-10''"] demo_reads [of "''0.2''"] demo_reads [of "''1500''"] by (simp_all add: ctype_defs)
  moreover have "\<forall>x \<in> set ''120015''. c_isdigit x" "\<forall>x \<in> set ''  ''. c_isspace x" "\<forall>x \<in> set [CHR 0x0A]. c_isspace x" by code_simp+
  ultimately show ?thesis unfolding line_ok_def using assms by (simp add: milli_ops_def)
qed

text \<open>A line of the second decoder is read in full: the answer has its level, time and frequency, the words of its message
  with one blank between them, and, as its sender, the second word, or the first callsign that follows \<open>CQ\<close> (in upper case, and
  without the brackets that mark a call known by its hash only); a locator behind it is taken in canonical form.\<close>

theorem jt9_line_report:
  assumes "line_ok ops scan_float utc a b c gap (w # us @ v # vs) tail level dt freq"
    and "us = [] \<or> w = ''CQ''" and "\<forall>u \<in> set us. \<not> callsign_ok (unbracket u)" and "callsign_ok (unbracket v)"
  shows "\<exists>r. jt9_parse_decode_line ops scan_float (jt9_line utc a b c gap (w # us @ v # vs) tail) = Some r \<and>
     res_snr r = level \<and> res_dt r = dt \<and> audio_frequency_hz r = freq \<and> res_message r = unwords (w # us @ v # vs) \<and>
     cstr (transmitter_call r) = map c_toupper (unbracket v) \<and> (vs = [] \<longrightarrow> cstr (transmitter_grid r) = []) \<and>
     (\<forall>locator. vs \<noteq> [] \<and> station_normalize_grid 7 (Some (hd vs)) = Some locator \<longrightarrow> cstr (transmitter_grid r) = locator)"
proof -
  let ?z = "(zero_result ops)\<lparr>res_snr := level, res_dt := dt, audio_frequency_hz := freq, res_message := unwords (w # us @ v # vs)\<rparr>"
  have "\<forall>x \<in> set (w # us @ v # vs). word_ok x" using assms(1) word_ok_space by (auto simp: line_ok_def)
  then have t: "blank_tokens (res_message ?z) = w # us @ v # vs" using blank_tokens_unwords by (simp del: unwords.simps)
  have l: "length (transmitter_call ?z) = 13" "length (transmitter_grid ?z) = 7" "length (us @ v # vs) < 8"
    using assms(1) by (simp_all add: zero_result_def line_ok_def del: unwords.simps)
  note d = decode_report_fields_sender [OF l(1,2) t l(3) assms(2-4)]
  have "\<forall>locator. vs \<noteq> [] \<and> station_normalize_grid 7 (Some (hd vs)) = Some locator \<longrightarrow> cstr (transmitter_grid (decode_report_fields ?z)) = locator"
    using d(2) by (cases vs) auto
  then show ?thesis using d(1,3) unfolding parse_line [OF assms(1)] by (simp add: decode_report_fields_rest del: unwords.simps)
qed

theorem jt9_line_report_witness:
  "\<exists>r. jt9_parse_decode_line milli_ops demo_scan (jt9_line ''120015'' ''-10'' ''0.2'' ''1500'' ''  '' (''CQ'' # [''DX''] @ ''<VU3CER>'' # [''mk68'']) [CHR 0x0A]) = Some r \<and>
     cstr (transmitter_call r) = ''VU3CER'' \<and> cstr (transmitter_grid r) = ''MK68''"
proof -
  have l: "line_ok milli_ops demo_scan ''120015'' ''-10'' ''0.2'' ''1500'' ''  '' (''CQ'' # [''DX''] @ ''<VU3CER>'' # [''mk68'']) [CHR 0x0A] 200 200 1500000"
    by (rule demo_line) code_simp+
  have u: "[''DX''] = [] \<or> ''CQ'' = ''CQ''" "\<forall>u \<in> set [''DX'']. \<not> callsign_ok (unbracket u)" "callsign_ok (unbracket ''<VU3CER>'')"
    "map c_toupper (unbracket ''<VU3CER>'') = ''VU3CER''" by code_simp+
  have g: "station_normalize_grid 7 (Some (hd [''mk68''])) = Some ''MK68''" by code_simp
  from jt9_line_report [OF l u(1-3), unfolded u(4)] g show ?thesis by blast
qed



section \<open>Merging is sound\<close>

text \<open>What merging never changes of a result.\<close>

definition signal :: "'f ft8_decode_result \<Rightarrow> string \<times> 'f \<times> 'f \<times> 'f" where
  "signal r = (res_message r, audio_frequency_hz r, res_snr r, res_dt r)"

definition has_sender :: "'f ft8_decode_result \<Rightarrow> bool" where
  "has_sender r \<longleftrightarrow> cstr (transmitter_call r) \<noteq> []"

text \<open>The result that took the place of another one: nothing but a missing sender was filled in.\<close>

definition filled :: "'f ft8_decode_result \<Rightarrow> 'f ft8_decode_result \<Rightarrow> bool" where
  "filled p q \<longleftrightarrow> signal q = signal p \<and> (has_sender p \<longrightarrow> q = p)"

text \<open>A result that stands for another one: the same signal, and a sender if the other one has one.\<close>

definition stands_for :: "'f float_ops \<Rightarrow> 'f ft8_decode_result \<Rightarrow> 'f ft8_decode_result \<Rightarrow> bool" where
  "stands_for ops q a \<longleftrightarrow> (same_signal ops q a \<or> signal q = signal a) \<and> (has_sender a \<longrightarrow> has_sender q)"

lemma filled_refl [simp]: "filled p p"
  by (simp add: filled_def)

lemma filled_trans: "filled p q \<Longrightarrow> filled q r \<Longrightarrow> filled p r"
  by (auto simp: filled_def)

lemma filled_same: "filled p q \<Longrightarrow> filled a b \<Longrightarrow> same_signal ops q b = same_signal ops p a"
  by (auto simp: filled_def signal_def same_signal_def)

lemma write_string_starts: "s \<noteq> [] \<Longrightarrow> hd s \<noteq> NUL \<Longrightarrow> cstr (write_string s mem) \<noteq> []"
  by (cases s) (simp_all add: write_string_def blit_def cstr_def)

lemma cstr_hd: "cstr m \<noteq> [] \<Longrightarrow> hd (cstr m) \<noteq> NUL"
  by (cases m) (auto simp: cstr_def)

lemma take_sender_filled: "filled p (take_sender p a)" and take_sender_has: "has_sender a \<Longrightarrow> has_sender (take_sender p a)"
  using write_string_starts [of "take 12 (cstr (transmitter_call a))"] cstr_hd [of "transmitter_call a"]
  by (auto simp: filled_def take_sender_def signal_def has_sender_def)

lemma merge_existing_cases:
  "(\<exists>i \<in> set is. same_signal ops (p ! i) a \<and> merge_existing ops a is p = (p[i := take_sender (p ! i) a], True)) \<or>
   (\<forall>i \<in> set is. \<not> same_signal ops (p ! i) a) \<and> merge_existing ops a is p = (p, False)"
  by (induction "is") auto

text \<open>What holds after the results \<open>as\<close> have been merged.\<close>

definition merged :: "'f float_ops \<Rightarrow> 'f ft8_decode_result list \<Rightarrow> nat \<Rightarrow> nat \<Rightarrow> 'f ft8_decode_result list \<Rightarrow> 'f ft8_decode_result list \<Rightarrow> nat \<Rightarrow> bool" where
  "merged ops p n capacity as p' n' \<longleftrightarrow>
     n \<le> n' \<and> n' \<le> capacity \<and> length p' = length p \<and> (\<forall>i < n. filled (p ! i) (p' ! i)) \<and>
     subseq (map signal (drop n (take n' p'))) (map signal as) \<and>
     (n' < capacity \<longrightarrow> (\<forall>a \<in> set as. \<exists>i < n'. stands_for ops (p' ! i) a)) \<and>
     (\<forall>j i. n \<le> j \<and> j < n' \<and> i < j \<longrightarrow> \<not> same_signal ops (p' ! i) (p' ! j))"

lemma merged_more:
  assumes "merged ops p n capacity as q k" and "k \<le> length q" and "length r = length q" and "\<forall>i < k. filled (q ! i) (r ! i)"
    and "k < capacity \<longrightarrow> (\<exists>i < k. stands_for ops (r ! i) a)"
  shows "merged ops p n capacity (as @ [a]) r k"
proof -
  note m = assms(1) [unfolded merged_def]
  have s: "map signal (drop n (take k r)) = map signal (drop n (take k q))"
    using assms(2,3,4) m by (intro nth_equalityI) (auto simp: filled_def)
  have "\<forall>i < n. filled (p ! i) (r ! i)" using m assms(4) filled_trans by (meson order_less_le_trans)
  moreover have "subseq (map signal (drop n (take k r))) (map signal (as @ [a]))"
    unfolding s using m by (simp add: list_emb_append2 subseq_rev_drop_many)
  moreover have "stands_for ops (r ! i) b" if "stands_for ops (q ! i) b" "i < k" for i b
    using that assms(4) by (auto simp: stands_for_def filled_def has_sender_def signal_def same_signal_def)
  moreover from this have "k < capacity \<longrightarrow> (\<forall>b \<in> set (as @ [a]). \<exists>i < k. stands_for ops (r ! i) b)" using m assms(5) by fastforce
  moreover have "\<not> same_signal ops (r ! i) (r ! j)" if "n \<le> j" "j < k" "i < j" for i j
    using that m assms(4) filled_same [of "q ! i" "r ! i" "q ! j" "r ! j" ops] by auto
  ultimately show ?thesis using m assms(3) unfolding merged_def by presburger
qed

lemma merged_append:
  assumes "merged ops p n capacity as q k" and "k < length q" and "k < capacity" and "\<forall>i < k. \<not> same_signal ops (q ! i) a"
  shows "merged ops p n capacity (as @ [a]) (q[k := a]) (k + 1)"
proof -
  note m = assms(1) [unfolded merged_def]
  have t: "drop n (take (k + 1) (q[k := a])) = drop n (take k q) @ [a]"
    using m assms(2) by (simp add: take_Suc_conv_app_nth)
  have "subseq (map signal (drop n (take (k + 1) (q[k := a])))) (map signal (as @ [a]))"
    unfolding t using m by (simp add: list_emb_append_mono)
  moreover have "\<exists>i < k + 1. stands_for ops (q[k := a] ! i) b" if "b \<in> set (as @ [a])" for b
  proof (cases "b \<in> set as")
    case True
    then obtain i where "i < k" "stands_for ops (q ! i) b" using m assms(3) by blast
    then show ?thesis by (intro exI [of _ i]) simp
  next
    case False
    then show ?thesis using that assms(2) by (intro exI [of _ k]) (simp add: stands_for_def)
  qed
  moreover have "\<not> same_signal ops (q[k := a] ! i) (q[k := a] ! j)" if "n \<le> j" "j < k + 1" "i < j" for i j
    using that m assms(2,4) by (cases "j = k") auto
  ultimately show ?thesis using m assms(2,3) unfolding merged_def by auto
qed

lemma merge_one_merged:
  assumes "merged ops p n capacity as q k" and "capacity \<le> length p"
  shows "case merge_one ops capacity a (q, k) of (q', k') \<Rightarrow> merged ops p n capacity (as @ [a]) q' k'"
proof (cases "k < capacity")
  case False
  moreover have "k \<le> length q" using assms by (simp add: merged_def)
  ultimately have "merged ops p n capacity (as @ [a]) q k" by (intro merged_more [OF assms(1)]) simp_all
  then show ?thesis using False by (simp add: merge_one_def)
next
  case True
  then have k: "k < length q" using assms by (simp add: merged_def)
  consider (dup) i where "i < k" "same_signal ops (q ! i) a" "merge_existing ops a [0..<k] q = (q[i := take_sender (q ! i) a], True)"
    | (new) "\<forall>i < k. \<not> same_signal ops (q ! i) a" "merge_existing ops a [0..<k] q = (q, False)"
    using merge_existing_cases [of "[0..<k]" ops q a] by auto
  then show ?thesis
  proof cases
    case dup
    have "stands_for ops (take_sender (q ! i) a) a"
      using dup(2) take_sender_has [of a] filled_same [OF take_sender_filled [of "q ! i" a] filled_refl [of a], of ops] by (simp add: stands_for_def)
    then have "\<exists>j < k. stands_for ops (q[i := take_sender (q ! i) a] ! j) a" using dup(1) k by (intro exI [of _ i]) simp
    moreover have "\<forall>j < k. filled (q ! j) (q[i := take_sender (q ! i) a] ! j)"
      using k dup(1) take_sender_filled by (auto simp: nth_list_update)
    ultimately show ?thesis using merged_more [OF assms(1), of "q[i := take_sender (q ! i) a]" a] k True dup(3) by (simp add: merge_one_def)
  next
    case new
    then show ?thesis using merged_append [OF assms(1) k True new(1)] True by (simp add: merge_one_def)
  qed
qed

lemma merge_fold:
  assumes "merged ops p n capacity as q k" and "capacity \<le> length p"
  shows "case fold (merge_one ops capacity) bs (q, k) of (q', k') \<Rightarrow> merged ops p n capacity (as @ bs) q' k'"
  using assms(1)
proof (induction bs arbitrary: as q k)
  case Nil
  then show ?case by simp
next
  case (Cons b bs)
  obtain q' k' where o: "merge_one ops capacity b (q, k) = (q', k')" by (cases "merge_one ops capacity b (q, k)")
  then have "merged ops p n capacity (as @ [b]) q' k'" using merge_one_merged [OF Cons.prems assms(2), of b] by simp
  from Cons.IH [OF this] show ?case by (simp add: o)
qed

text \<open>C16: Merging the results of the two decoders keeps the results of the first one in place (only a sender that was missing is
  filled in), appends results of the second one in their order, never more than the array holds and never one that is the same
  signal as an earlier one; unless the array is full, every result of the second decoder has one that stands for it afterwards,
  with a sender if it has one.\<close>

theorem jt9_merge_sound:
  assumes "n \<le> capacity" and "capacity \<le> length primary"
  shows "case jt9_merge_results ops primary n capacity additional of (primary', n') \<Rightarrow>
     n \<le> n' \<and> n' \<le> capacity \<and> length primary' = length primary \<and> (\<forall>i < n. filled (primary ! i) (primary' ! i)) \<and>
     subseq (map signal (drop n (take n' primary'))) (map signal additional) \<and>
     (n' < capacity \<longrightarrow> (\<forall>a \<in> set additional. \<exists>i < n'. stands_for ops (primary' ! i) a)) \<and>
     (\<forall>j i. n \<le> j \<and> j < n' \<and> i < j \<longrightarrow> \<not> same_signal ops (primary' ! i) (primary' ! j))"
proof -
  have "merged ops primary n capacity [] primary n" using assms by (auto simp: merged_def)
  from merge_fold [OF this assms(2), of additional] assms(1) show ?thesis by (simp add: jt9_merge_results_def merged_def)
qed

theorem jt9_merge_sound_witness:
  "case jt9_merge_results milli_ops (replicate 3 (zero_result milli_ops)) 1 3 [(zero_result milli_ops)\<lparr>res_message := ''CQ K1ABC''\<rparr>] of (primary', n') \<Rightarrow>
     n' = 2 \<and> signal (primary' ! 0) = signal (zero_result milli_ops)"
proof -
  let ?z = "zero_result milli_ops" and ?a = "(zero_result milli_ops)\<lparr>res_message := ''CQ K1ABC''\<rparr>"
  have c: "(1 :: nat) \<le> 3" "3 \<le> length (replicate 3 ?z)" by simp_all
  obtain p n where m: "jt9_merge_results milli_ops (replicate 3 ?z) 1 3 [?a] = (p, n)" by fastforce
  note s = jt9_merge_sound [OF c, where ops = milli_ops and additional = "[?a]", unfolded m prod.case]
  have "n = 2" using m
    by (simp add: jt9_merge_results_def merge_one_def same_signal_def zero_result_def numeral_3_eq_3 split: if_splits)
  moreover have "filled ?z (p ! 0)" using s by (auto simp: numeral_3_eq_3)
  ultimately show ?thesis unfolding m by (simp add: filled_def)
qed

text \<open>
  A call to everyone from a callsign of its own form: the first decoder ends its text with a blank, the second one never does,
  so the same transmission is listed (and printed) twice.
\<close>

lemma parsed_message_end: "jt9_parse_decode_line ops scan_float line = Some b \<Longrightarrow> res_message b \<noteq> [] \<and> \<not> c_isspace (last (res_message b))"
proof -
  assume p: "jt9_parse_decode_line ops scan_float line = Some b"
  then obtain t where t: "res_message b = trim_end t" "trim_end t \<noteq> []"
    by (auto simp: jt9_parse_decode_line_def Let_def decode_report_fields_rest split: option.splits if_splits)
  have "\<not> c_isspace (last (trim_end t))" using t(2) hd_dropWhile [of c_isspace "rev t"] by (simp add: trim_end_def last_rev)
  then show ?thesis using t by simp
qed

theorem jt9_nonstandard_cq_twice:
  assumes "res_message a = ''CQ '' @ call @ '' ''" and "jt9_parse_decode_line ops scan_float line = Some b" and "2 \<le> capacity" and "2 \<le> length primary"
    and "primary ! 0 = a"
  shows "jt9_merge_results ops primary 1 capacity [b] = (primary[1 := b], 2)"
proof -
  have "c_isspace (last (res_message a))" by (simp add: assms(1) ctype_defs)
  then have "res_message a \<noteq> res_message b" using parsed_message_end [OF assms(2)] by metis
  then show ?thesis using assms(3,5) by (simp add: jt9_merge_results_def merge_one_def same_signal_def numeral_2_eq_2)
qed

section \<open>Running the program\<close>

text \<open>What was written is the start of the buffer, and all of it exactly when the answer is yes.\<close>

theorem write_all_sound: "write_all answers bs = Some (out, ok) \<Longrightarrow> \<exists>rest. bs = out @ rest \<and> ok = (rest = [])"
proof (induction answers bs arbitrary: out ok rule: write_all.induct)
  case (3 a answers b bs)
  show ?case
  proof (cases a)
    case (Taken n)
    show ?thesis
    proof (cases "n = 0")
      case True
      then show ?thesis using 3 Taken by simp
    next
      case False
      then obtain o' where w: "write_all answers (drop n (b # bs)) = Some (o', ok)" "out = take n (b # bs) @ o'"
        using 3(3) Taken by auto
      from 3(2) [OF Taken False w(1)] obtain rest where "drop n (b # bs) = o' @ rest" "ok = (rest = [])" by blast
      then show ?thesis using w(2) append_take_drop_id [of n "b # bs"] by (intro exI [of _ rest]) simp
    qed
  qed (use 3 in simp_all)
qed simp_all

text \<open>The wait ends at the first report that is final, or that comes when the time is over.\<close>

definition final_report :: "int \<Rightarrow> int \<Rightarrow> child \<times> int \<Rightarrow> bool" where
  "final_report started_at timeout_seconds rn \<longleftrightarrow> fst rn \<noteq> Running \<or> snd rn - started_at \<ge> timeout_seconds"

theorem wait_for_child_ends:
  "wait_for_child started_at timeout_seconds reports \<noteq> None \<longleftrightarrow> (\<exists>rn \<in> set reports. final_report started_at timeout_seconds rn)"
  by (induction started_at timeout_seconds reports rule: wait_for_child.induct) (auto simp: final_report_def split: child.splits)

theorem wait_for_child_status:
  "wait_for_child started_at timeout_seconds reports = Some (st, err, killed) \<Longrightarrow>
     (st = 0 \<longleftrightarrow> (\<exists>now. find (final_report started_at timeout_seconds) reports = Some (Exited 0, now))) \<and> (st = 0 \<longrightarrow> err = [] \<and> \<not> killed)"
  by (induction started_at timeout_seconds reports rule: wait_for_child.induct) (auto simp: final_report_def split: child.splits if_splits)

lemma read_lines_eq:
  "read_lines ops scan_float n lines acc = acc @ take (n - length acc) (List.map_filter (jt9_parse_decode_line ops scan_float) lines)"
proof (induction lines arbitrary: acc)
  case Nil
  then show ?case by (simp add: List.map_filter_simps)
next
  case (Cons line lines)
  show ?case
  proof (cases "length acc < n")
    case True
    then have "n - length acc = Suc (n - length acc - 1)" by simp
    then show ?thesis using True Cons.IH by (auto simp: List.map_filter_simps split: option.split)
  next
    case False
    then show ?thesis by simp
  qed
qed

text \<open>
  The results of a run that ended well are those of the lines it wrote that can be read, the first ones, in their order; a run
  that failed, was killed or left no file gives none.
\<close>

theorem jt9_finish_exact:
  assumes "0 < result_capacity"
  shows "jt9_decoder_finish ops scan_float True result_capacity (child_status, err, killed) (Some lines) last_error =
     (if child_status = 0 then (0, take result_capacity (List.map_filter (jt9_parse_decode_line ops scan_float) lines), take 191 err)
      else (- 1, [], case find failure_diagnostic lines of
        Some line \<Rightarrow> take 191 (take (c_strcspn line [CHR 0x0D, CHR 0x0A]) line) | None \<Rightarrow> take 191 err))"
    and "jt9_decoder_finish ops scan_float True result_capacity (child_status, err, killed) None last_error = (- 1, [], take 191 err)"
  using assms by (simp_all add: jt9_decoder_finish_def read_lines_eq)

end
