(* ===== verification/Receiver.thy ===== *)
theory Receiver
  imports Dsp Jt9Decoder SampleQueue PskReporter
begin

text \<open>
  \<open>airspyhf_wsprd.c\<close>: from the queue of blocks to a captured frame, the hand-over of a frame to the decoder thread, and what
  that thread does with a frame of FT8. Floating point operations, the radio and the clock are arguments.
\<close>

section \<open>Capture\<close>

datatype receiver_mode = RECEIVER_MODE_WSPR | RECEIVER_MODE_FT8

definition WSPR_CAPTURE_SAMPLES :: u32 where "WSPR_CAPTURE_SAMPLES = 116 * WSPR_OUTPUT_RATE"
definition FT8_CAPTURE_SAMPLES :: u32 where "FT8_CAPTURE_SAMPLES = 175200"
definition MAX_CAPTURE_SAMPLES :: u32 where "MAX_CAPTURE_SAMPLES = FT8_CAPTURE_SAMPLES"

definition capture_sample_target :: "receiver_mode \<Rightarrow> u32" where
  "capture_sample_target mode = (case mode of RECEIVER_MODE_FT8 \<Rightarrow> FT8_CAPTURE_SAMPLES | RECEIVER_MODE_WSPR \<Rightarrow> WSPR_CAPTURE_SAMPLES)"

record ('f, 'd) receiver =
  capture_flag :: bool
  decode_flag :: bool
  iSamples :: "'f list"
  qSamples :: "'f list"
  iqIndex :: u32
  rx_device_dropped :: u64
  rx_queue_dropped :: u64
  frame_dialfreq :: u32
  frame_start_unix :: int
  frame_date :: string
  frame_uttime :: string
  resampler :: "('f, 'd) ft8_resampler"
  decimator :: "('f, 'd) wspr_decimator"
  input_queue :: sample_queue

text \<open>One input sample to the filter of the mode; the audio of FT8 has no second part.\<close>

definition dsp_process :: "('f, 'd) dsp_ops \<Rightarrow> receiver_mode \<Rightarrow> ('f, 'd) receiver \<Rightarrow> 'f \<Rightarrow> 'f \<Rightarrow> ('f, 'd) receiver \<times> ('f \<times> 'f) option" where
  "dsp_process ops mode st input_i input_q =
     (case mode of
        RECEIVER_MODE_FT8 \<Rightarrow> (case ft8_resampler_process ops (resampler st) input_i input_q of
          (r, out) \<Rightarrow> (st\<lparr>resampler := r\<rparr>, map_option (\<lambda>output_i. (output_i, f_frac ops 0 1)) out))
      | RECEIVER_MODE_WSPR \<Rightarrow> (case wspr_decimator_process ops (decimator st) input_i input_q of
          (d, out) \<Rightarrow> (st\<lparr>decimator := d\<rparr>, out)))"

text \<open>The loop over the inputs of a block; it ends early when the frame is complete.\<close>

fun sample_loop :: "('f, 'd) dsp_ops \<Rightarrow> receiver_mode \<Rightarrow> nat \<Rightarrow> ('f \<times> 'f) list \<Rightarrow> nat list \<Rightarrow> ('f, 'd) receiver \<Rightarrow> ('f, 'd) receiver \<times> bool" where
  "sample_loop ops mode missing_samples iq [] st = (st, False)"
| "sample_loop ops mode missing_samples iq (input_index # indexes) st =
     (let (input_i, input_q) = (if missing_samples \<le> input_index then iq ! (input_index - missing_samples) else (f_frac ops 0 1, f_frac ops 0 1));
          (st, out) = dsp_process ops mode st input_i input_q
      in case out of None \<Rightarrow> sample_loop ops mode missing_samples iq indexes st
         | Some (output_i, output_q) \<Rightarrow>
             let st = (if iqIndex st < capture_sample_target mode
                       then st\<lparr>iSamples := (iSamples st)[unat (iqIndex st) := output_i], qSamples := (qSamples st)[unat (iqIndex st) := output_q],
                               iqIndex := iqIndex st + 1\<rparr> else st)
             in if capture_sample_target mode \<le> iqIndex st then (st\<lparr>capture_flag := False\<rparr>, True)
                else sample_loop ops mode missing_samples iq indexes st)"

text \<open>A block: its samples, and how many were lost before it in the radio and in the queue.\<close>

type_synonym 'f iq_block = "('f \<times> 'f) list \<times> u64 \<times> u64"

definition process_sample_block :: "('f, 'd) dsp_ops \<Rightarrow> receiver_mode \<Rightarrow> 'f iq_block \<Rightarrow> ('f, 'd) receiver \<Rightarrow> ('f, 'd) receiver" where
  "process_sample_block ops mode block st =
     (if \<not> capture_flag st then st
      else
        let (iq, device_dropped, queue_dropped) = block;
            missing_samples = device_dropped + queue_dropped;
            input_count = missing_samples + word_of_nat (length iq);
            st = st\<lparr>rx_device_dropped := rx_device_dropped st + device_dropped, rx_queue_dropped := rx_queue_dropped st + queue_dropped\<rparr>;
            (st, frame_complete) = sample_loop ops mode (unat missing_samples) iq [0..<unat input_count] st
        in if frame_complete then st\<lparr>decode_flag := True\<rparr> else st)"

text \<open>What the thread does with the block it finds; \<open>read_iq\<close> reads the samples from the bytes of a slot.\<close>

definition dsp_pass :: "('f, 'd) dsp_ops \<Rightarrow> receiver_mode \<Rightarrow> (u8 list \<Rightarrow> ('f \<times> 'f) list) \<Rightarrow> ('f, 'd) receiver \<Rightarrow> ('f, 'd) receiver" where
  "dsp_pass ops mode read_iq st =
     (case sample_queue_try_peek (input_queue st) of None \<Rightarrow> st
      | Some place \<Rightarrow>
          let (bytes, device_dropped, queue_dropped) = SampleQueue.read_block (input_queue st) place;
              st = process_sample_block ops mode (read_iq bytes, device_dropped, queue_dropped) st
          in st\<lparr>input_queue := snd (sample_queue_release (input_queue st))\<rparr>)"

definition initSampleStorage :: "('f, 'd) dsp_ops \<Rightarrow> receiver_mode \<Rightarrow> u32 \<Rightarrow> int \<Rightarrow> string \<Rightarrow> string \<Rightarrow> ('f, 'd) receiver \<Rightarrow> ('f, 'd) receiver" where
  "initSampleStorage ops mode dialfreq start_unix date uttime st =
     (let st = st\<lparr>capture_flag := False, iqIndex := 0, rx_device_dropped := 0, rx_queue_dropped := 0,
            frame_dialfreq := dialfreq, frame_start_unix := start_unix, frame_date := take 6 date, frame_uttime := take 4 uttime\<rparr>;
          st = (case mode of RECEIVER_MODE_FT8 \<Rightarrow> st\<lparr>resampler := ft8_resampler_reset ops (resampler st)\<rparr>
                | RECEIVER_MODE_WSPR \<Rightarrow> st\<lparr>decimator := wspr_decimator_reset ops (decimator st)\<rparr>)
      in st\<lparr>input_queue := sample_queue_reset (input_queue st), capture_flag := True\<rparr>)"

section \<open>Hand-over\<close>

record 'f frame =
  frame_i :: "'f list"
  frame_q :: "'f list"
  dialfreq :: u32
  start_unix :: int
  date :: string
  uttime :: string

definition copy_frame :: "('f, 'd) receiver \<Rightarrow> 'f frame" where
  "copy_frame st = \<lparr>frame_i = take (unat (iqIndex st)) (iSamples st), frame_q = take (unat (iqIndex st)) (qSamples st),
     dialfreq = frame_dialfreq st, start_unix = frame_start_unix st, date = frame_date st, uttime = frame_uttime st\<rparr>"

record ('f, 'd) hand_over =
  rx :: "('f, 'd) receiver"
  busy :: bool
  copying :: bool
  taken :: "'f frame list"

text \<open>
  The three threads: the filter thread processes a block, the main thread begins a frame when no capture is active, the decoder
  thread sees the told, then (under another lock) copies the frame, and at some later time is done with it.
\<close>

inductive rx_step :: "('f, 'd) dsp_ops \<Rightarrow> receiver_mode \<Rightarrow> ('f, 'd) hand_over \<Rightarrow> ('f, 'd) hand_over \<Rightarrow> bool" for ops mode where
  process_block: "rx_step ops mode s (s\<lparr>rx := process_sample_block ops mode b (rx s)\<rparr>)"
| begin_frame: "\<not> capture_flag (rx s) \<Longrightarrow> rx_step ops mode s (s\<lparr>rx := initSampleStorage ops mode f t d u (rx s)\<rparr>)"
| see_flag: "decode_flag (rx s) \<Longrightarrow> \<not> busy s \<Longrightarrow> rx_step ops mode s (s\<lparr>rx := (rx s)\<lparr>decode_flag := False\<rparr>, busy := True, copying := True\<rparr>)"
| take_frame: "copying s \<Longrightarrow> rx_step ops mode s (s\<lparr>copying := False, taken := taken s @ [copy_frame (rx s)]\<rparr>)"
| decoded: "busy s \<Longrightarrow> \<not> copying s \<Longrightarrow> rx_step ops mode s (s\<lparr>busy := False\<rparr>)"

section \<open>A captured frame\<close>

lemmas target_defs = capture_sample_target_def FT8_CAPTURE_SAMPLES_def WSPR_CAPTURE_SAMPLES_def MAX_CAPTURE_SAMPLES_def WSPR_OUTPUT_RATE_def

lemma target_fits: "0 < unat (capture_sample_target mode) \<and> unat (capture_sample_target mode) \<le> 175200"
  by (cases mode) (simp_all add: target_defs)

text \<open>The filters of a receiver, and the step of the filter of the mode.\<close>

definition filters :: "('f, 'd) receiver \<Rightarrow> ('f, 'd) ft8_resampler \<times> ('f, 'd) wspr_decimator" where
  "filters st = (resampler st, decimator st)"

definition filter_step :: "('f, 'd) dsp_ops \<Rightarrow> receiver_mode \<Rightarrow> ('f, 'd) ft8_resampler \<times> ('f, 'd) wspr_decimator \<Rightarrow> 'f \<times> 'f \<Rightarrow>
    (('f, 'd) ft8_resampler \<times> ('f, 'd) wspr_decimator) \<times> ('f \<times> 'f) option" where
  "filter_step ops mode = (\<lambda>(r, d) (i, q). case mode of
     RECEIVER_MODE_FT8 \<Rightarrow> (case ft8_resampler_process ops r i q of (r, out) \<Rightarrow> ((r, d), map_option (\<lambda>y. (y, f_frac ops 0 1)) out))
   | RECEIVER_MODE_WSPR \<Rightarrow> (case wspr_decimator_process ops d i q of (d, out) \<Rightarrow> ((r, d), out)))"

lemma dsp_process_eq:
  "dsp_process ops mode st i q = (case filter_step ops mode (filters st) (i, q) of ((r, d), out) \<Rightarrow> (st\<lparr>resampler := r, decimator := d\<rparr>, out))"
  by (cases mode) (auto simp: dsp_process_def filter_step_def filters_def split: prod.split)

text \<open>What the filter makes of all the inputs of a frame.\<close>

definition filtered_samples :: "('f, 'd) dsp_ops \<Rightarrow> receiver_mode \<Rightarrow> ('f, 'd) ft8_resampler \<times> ('f, 'd) wspr_decimator \<Rightarrow> ('f \<times> 'f) list \<Rightarrow> ('f \<times> 'f) list" where
  "filtered_samples ops mode d0 ins = snd (outputs (filter_step ops mode) d0 ins)"

definition running :: "('f, 'd) dsp_ops \<Rightarrow> receiver_mode \<Rightarrow> ('f, 'd) ft8_resampler \<times> ('f, 'd) wspr_decimator \<Rightarrow> ('f \<times> 'f) list \<Rightarrow> ('f, 'd) receiver \<Rightarrow> bool" where
  "running ops mode d0 ins st \<longleftrightarrow> filters st = fst (outputs (filter_step ops mode) d0 ins) \<and>
     (let ys = filtered_samples ops mode d0 ins
      in length ys < unat (capture_sample_target mode) \<and> unat (iqIndex st) = length ys \<and>
         take (length ys) (iSamples st) = map fst ys \<and> take (length ys) (qSamples st) = map snd ys \<and>
         length (iSamples st) = 175200 \<and> length (qSamples st) = 175200)"

definition complete :: "('f, 'd) dsp_ops \<Rightarrow> receiver_mode \<Rightarrow> ('f, 'd) ft8_resampler \<times> ('f, 'd) wspr_decimator \<Rightarrow> ('f \<times> 'f) list \<Rightarrow> ('f, 'd) receiver \<Rightarrow> bool" where
  "complete ops mode d0 ins st \<longleftrightarrow>
     (let ys = filtered_samples ops mode d0 ins; n = unat (capture_sample_target mode)
      in n \<le> length ys \<and> unat (iqIndex st) = n \<and> take n (iSamples st) = map fst (take n ys) \<and> take n (qSamples st) = map snd (take n ys) \<and>
         length (iSamples st) = 175200 \<and> length (qSamples st) = 175200)"

lemma outputs_append:
  "outputs p s (xs @ ys) = (case outputs p s xs of (s', us) \<Rightarrow> case outputs p s' ys of (s'', vs) \<Rightarrow> (s'', us @ vs))"
  by (induction xs arbitrary: s) (auto split: prod.splits)

lemma complete_more: "complete ops mode d0 ins st \<Longrightarrow> complete ops mode d0 (ins @ rest) st"
  by (auto simp: complete_def Let_def filtered_samples_def outputs_append split: prod.splits)

text \<open>The inputs that the loop sees.\<close>

definition input_at :: "('f, 'd) dsp_ops \<Rightarrow> nat \<Rightarrow> ('f \<times> 'f) list \<Rightarrow> nat \<Rightarrow> 'f \<times> 'f" where
  "input_at ops missing_samples iq k = (if missing_samples \<le> k then iq ! (k - missing_samples) else (f_frac ops 0 1, f_frac ops 0 1))"

lemma take_store: "n < length xs \<Longrightarrow> take n xs = ys \<Longrightarrow> take (Suc n) (xs[n := v]) = ys @ [v]"
  by (simp add: take_Suc_conv_app_nth)

lemma sample_loop_runs:
  assumes "running ops mode d0 ins st"
  shows "case sample_loop ops mode missing_samples iq indexes st of (st', frame_complete) \<Rightarrow>
     (frame_complete \<longrightarrow> complete ops mode d0 (ins @ map (input_at ops missing_samples iq) indexes) st' \<and> \<not> capture_flag st') \<and>
     (\<not> frame_complete \<longrightarrow> running ops mode d0 (ins @ map (input_at ops missing_samples iq) indexes) st' \<and> capture_flag st' = capture_flag st) \<and>
     decode_flag st' = decode_flag st"
  using assms
proof (induction indexes arbitrary: ins st)
  case Nil
  then show ?case by simp
next
  case (Cons k indexes)
  let ?n = "unat (capture_sample_target mode)" and ?ys = "filtered_samples ops mode d0 ins"
  obtain i q where iq: "input_at ops missing_samples iq k = (i, q)" by fastforce
  obtain r d out where f: "filter_step ops mode (filters st) (i, q) = ((r, d), out)" by (metis prod.exhaust_sel)
  let ?st = "st\<lparr>resampler := r, decimator := d\<rparr>"
  have o: "outputs (filter_step ops mode) d0 (ins @ [(i, q)]) = ((r, d), ?ys @ (case out of None \<Rightarrow> [] | Some y \<Rightarrow> [y]))"
    using Cons.prems f by (auto simp: outputs_append running_def filtered_samples_def split: prod.splits)
  have loop: "sample_loop ops mode missing_samples iq (k # indexes) st = (case out of None \<Rightarrow> sample_loop ops mode missing_samples iq indexes ?st
       | Some (output_i, output_q) \<Rightarrow>
           let st = (if iqIndex ?st < capture_sample_target mode
                     then ?st\<lparr>iSamples := (iSamples ?st)[unat (iqIndex ?st) := output_i], qSamples := (qSamples ?st)[unat (iqIndex ?st) := output_q], iqIndex := iqIndex ?st + 1\<rparr>
                     else ?st)
           in if capture_sample_target mode \<le> iqIndex st then (st\<lparr>capture_flag := False\<rparr>, True) else sample_loop ops mode missing_samples iq indexes st)"
    using iq f by (simp add: input_at_def dsp_process_eq Let_def split: option.split)
  show ?case
  proof (cases out)
    case None
    then have "running ops mode d0 (ins @ [(i, q)]) ?st"
      using Cons.prems o by (simp add: running_def filtered_samples_def filters_def Let_def)
    from Cons.IH [OF this] show ?thesis using loop None iq by (simp add: case_prod_beta)
  next
    case (Some y)
    have y: "length ?ys < ?n" "unat (iqIndex st) = length ?ys" "length (iSamples st) = 175200" "length (qSamples st) = 175200"
      "take (length ?ys) (iSamples st) = map fst ?ys" "take (length ?ys) (qSamples st) = map snd ?ys"
      using Cons.prems by (simp_all add: running_def Let_def)
    have l: "iqIndex st < capture_sample_target mode" using y(1,2) by (simp add: word_less_nat_alt)
    have u: "unat (iqIndex st + 1) = Suc (length ?ys)" using y(1,2) target_fits [of mode] by (simp add: unat_word_ariths)
    let ?st' = "?st\<lparr>iSamples := (iSamples st)[length ?ys := fst y], qSamples := (qSamples st)[length ?ys := snd y], iqIndex := iqIndex st + 1\<rparr>"
    have h: "filtered_samples ops mode d0 (ins @ [(i, q)]) = ?ys @ [y]" using o Some by (simp add: filtered_samples_def)
    have t: "take (Suc (length ?ys)) ((iSamples st)[length ?ys := fst y]) = map fst (?ys @ [y])"
      "take (Suc (length ?ys)) ((qSamples st)[length ?ys := snd y]) = map snd (?ys @ [y])"
      using y target_fits [of mode] by (simp_all add: take_store)
    show ?thesis
    proof (cases "capture_sample_target mode \<le> iqIndex st + 1")
      case True
      then have n: "?n = Suc (length ?ys)" using u y(1) by (simp add: word_le_nat_alt)
      have "complete ops mode d0 (ins @ [(i, q)]) (?st'\<lparr>capture_flag := False\<rparr>)"
        using h t y u by (simp add: complete_def n)
      from complete_more [OF this, of "map (input_at ops missing_samples iq) indexes"] show ?thesis
        using loop Some True l y iq by (simp add: case_prod_beta)
    next
      case False
      then have n: "Suc (length ?ys) < ?n" using u by (simp add: word_le_nat_alt)
      have "running ops mode d0 (ins @ [(i, q)]) ?st'" using h t y u n o Some by (simp add: running_def filters_def filtered_samples_def)
      from Cons.IH [OF this] show ?thesis using loop Some False l y iq by (simp add: case_prod_beta)
    qed
  qed
qed

text \<open>A block with zeros for what was lost before it.\<close>

definition stretched :: "('f, 'd) dsp_ops \<Rightarrow> 'f iq_block \<Rightarrow> ('f \<times> 'f) list" where
  "stretched ops = (\<lambda>(iq, device_dropped, queue_dropped). replicate (unat device_dropped + unat queue_dropped) (f_frac ops 0 1, f_frac ops 0 1) @ iq)"

definition block_fits :: "'f iq_block \<Rightarrow> bool" where
  "block_fits = (\<lambda>(iq, device_dropped, queue_dropped). unat device_dropped + unat queue_dropped + length iq < 2 ^ 64)"

lemma block_inputs:
  assumes "unat dd + unat qd + length iq < 2 ^ 64"
  shows "map (input_at ops (unat (dd + qd)) iq) [0..<unat (dd + qd + word_of_nat (length iq) :: u64)] = stretched ops (iq, dd, qd)"
proof -
  have l: "unat (word_of_nat (length iq) :: u64) = length iq" using assms by (simp add: unat_of_nat)
  have m: "unat (dd + qd) = unat dd + unat qd" using assms by (simp add: unat_word_ariths)
  have n: "unat (dd + qd + word_of_nat (length iq) :: u64) = unat dd + unat qd + length iq"
    using assms by (simp add: unat_word_ariths l)
  show ?thesis unfolding n m
    by (rule nth_equalityI) (auto simp: stretched_def input_at_def nth_append)
qed

definition capturing :: "('f, 'd) dsp_ops \<Rightarrow> receiver_mode \<Rightarrow> ('f, 'd) ft8_resampler \<times> ('f, 'd) wspr_decimator \<Rightarrow> ('f \<times> 'f) list \<Rightarrow> bool \<Rightarrow> ('f, 'd) receiver \<Rightarrow> bool" where
  "capturing ops mode d0 ins told st \<longleftrightarrow>
     capture_flag st \<and> running ops mode d0 ins st \<and> decode_flag st = told \<or> \<not> capture_flag st \<and> complete ops mode d0 ins st \<and> decode_flag st"

lemma running_cong:
  "filters st' = filters st \<Longrightarrow> iqIndex st' = iqIndex st \<Longrightarrow> iSamples st' = iSamples st \<Longrightarrow> qSamples st' = qSamples st \<Longrightarrow>
     running ops mode d0 ins st' = running ops mode d0 ins st"
  by (simp add: running_def)

lemma complete_cong:
  "iqIndex st' = iqIndex st \<Longrightarrow> iSamples st' = iSamples st \<Longrightarrow> qSamples st' = qSamples st \<Longrightarrow>
     complete ops mode d0 ins st' = complete ops mode d0 ins st"
  by (simp add: complete_def)

lemma capturing_block:
  assumes "capturing ops mode d0 ins told st" and "block_fits b"
  shows "capturing ops mode d0 (ins @ stretched ops b) told (process_sample_block ops mode b st)"
proof (cases "capture_flag st")
  case False
  then show ?thesis using assms(1) complete_more [of ops mode d0 ins st "stretched ops b"] by (auto simp: capturing_def process_sample_block_def)
next
  case True
  obtain iq dd qd where b: "b = (iq, dd, qd)" by (cases b)
  let ?st = "st\<lparr>rx_device_dropped := rx_device_dropped st + dd, rx_queue_dropped := rx_queue_dropped st + qd\<rparr>"
  have r: "running ops mode d0 ins ?st" using assms(1) True running_cong [of ?st st] by (simp add: capturing_def filters_def)
  have e: "map (input_at ops (unat (dd + qd)) iq) [0..<unat (dd + qd + word_of_nat (length iq) :: u64)] = stretched ops b"
    using block_inputs assms(2) b by (simp add: block_fits_def)
  obtain st' fin where l: "sample_loop ops mode (unat (dd + qd)) iq [0..<unat (dd + qd + word_of_nat (length iq) :: u64)] ?st = (st', fin)" by fastforce
  from sample_loop_runs [OF r, of "unat (dd + qd)" iq "[0..<unat (dd + qd + word_of_nat (length iq) :: u64)]", unfolded l e]
  have s: "fin \<longrightarrow> complete ops mode d0 (ins @ stretched ops b) st' \<and> \<not> capture_flag st'"
    "\<not> fin \<longrightarrow> running ops mode d0 (ins @ stretched ops b) st' \<and> capture_flag st'" "decode_flag st' = decode_flag st"
    using True by simp_all
  have p: "process_sample_block ops mode b st = (if fin then st'\<lparr>decode_flag := True\<rparr> else st')"
    using True l by (simp add: process_sample_block_def b Let_def)
  show ?thesis
  proof (cases fin)
    case True
    then show ?thesis using s p complete_cong [of "st'\<lparr>decode_flag := True\<rparr>" st'] by (simp add: capturing_def)
  next
    case False
    moreover have "decode_flag st = told" using assms(1) \<open>capture_flag st\<close> by (simp add: capturing_def)
    ultimately show ?thesis using s p by (simp add: capturing_def)
  qed
qed

lemma sample_loop_frame:
  "case sample_loop ops mode m iq ks st of (st', fin) \<Rightarrow>
     frame_dialfreq st' = frame_dialfreq st \<and> frame_start_unix st' = frame_start_unix st \<and> frame_date st' = frame_date st \<and> frame_uttime st' = frame_uttime st \<and>
     input_queue st' = input_queue st"
proof (induction ks arbitrary: st)
  case (Cons k ks)
  obtain r d out where f: "filter_step ops mode (filters st) (input_at ops m iq k) = ((r, d), out)" by (metis prod.exhaust_sel)
  show ?case
  proof (cases out)
    case None
    then show ?thesis using Cons [of "st\<lparr>resampler := r, decimator := d\<rparr>"] f
      by (simp add: input_at_def dsp_process_eq case_prod_beta)
  next
    case (Some y)
    then show ?thesis using f
        Cons [of "st\<lparr>resampler := r, decimator := d, iSamples := (iSamples st)[unat (iqIndex st) := fst y],
           qSamples := (qSamples st)[unat (iqIndex st) := snd y], iqIndex := iqIndex st + 1\<rparr>"]
        Cons [of "st\<lparr>resampler := r, decimator := d\<rparr>"]
      by (simp add: input_at_def dsp_process_eq case_prod_beta Let_def)
  qed
qed simp

lemma process_block_frame:
  "frame_dialfreq (process_sample_block ops mode b st) = frame_dialfreq st" "frame_start_unix (process_sample_block ops mode b st) = frame_start_unix st"
  "frame_date (process_sample_block ops mode b st) = frame_date st" "frame_uttime (process_sample_block ops mode b st) = frame_uttime st"
  "input_queue (process_sample_block ops mode b st) = input_queue st"
proof -
  obtain iq dd qd where b: "b = (iq, dd, qd)" by (cases b)
  let ?st = "st\<lparr>rx_device_dropped := rx_device_dropped st + dd, rx_queue_dropped := rx_queue_dropped st + qd\<rparr>"
  note f = sample_loop_frame [where ops = ops and mode = mode and m = "unat (dd + qd)" and iq = iq and ks = "[0..<unat (dd + qd + word_of_nat (length iq) :: u64)]" and st = ?st]
  show "frame_dialfreq (process_sample_block ops mode b st) = frame_dialfreq st" "frame_start_unix (process_sample_block ops mode b st) = frame_start_unix st"
    "frame_date (process_sample_block ops mode b st) = frame_date st" "frame_uttime (process_sample_block ops mode b st) = frame_uttime st"
    "input_queue (process_sample_block ops mode b st) = input_queue st"
    using f by (simp_all add: process_sample_block_def b Let_def case_prod_beta)
qed

lemma capturing_start:
  assumes "length (iSamples st) = 175200" and "length (qSamples st) = 175200"
  shows "capturing ops mode (filters (initSampleStorage ops mode f t d u st)) [] (decode_flag st) (initSampleStorage ops mode f t d u st)"
  using assms target_fits [of mode]
  by (cases mode) (simp_all add: capturing_def running_def filtered_samples_def initSampleStorage_def Let_def filters_def)

text \<open>
  C3: From the start of a frame on the inputs of all the blocks (with a zero for every sample that the radio or the queue lost)
  go through the filter, which was reset, and its outputs are stored in order until there are as many as a frame has; then
  the capture ends and the decoder is told. The frame that is copied is exactly the first of these outputs, with the frequency and the
  time of its start, and nothing is stored behind the end of an array.
\<close>

theorem capture_exact:
  assumes "length (iSamples st) = 175200" and "length (qSamples st) = 175200" and "\<forall>b \<in> set bs. block_fits b"
  shows "let st0 = initSampleStorage ops mode f t d u st; st' = fold (process_sample_block ops mode) bs st0;
       ys = filtered_samples ops mode (filters st0) (concat (map (stretched ops) bs)); n = unat (capture_sample_target mode)
     in copy_frame st' = \<lparr>frame_i = map fst (take n ys), frame_q = map snd (take n ys), dialfreq = f, start_unix = t, date = take 6 d, uttime = take 4 u\<rparr> \<and>
        capture_flag st' = (length ys < n) \<and> decode_flag st' = (n \<le> length ys \<or> decode_flag st) \<and> unat (iqIndex st') \<le> length (iSamples st')"
proof -
  let ?st0 = "initSampleStorage ops mode f t d u st"
  have "capturing ops mode (filters ?st0) (ins @ concat (map (stretched ops) bs)) (decode_flag st) (fold (process_sample_block ops mode) bs st1)"
    if "capturing ops mode (filters ?st0) ins (decode_flag st) st1" for ins st1
    using that assms(3)
  proof (induction bs arbitrary: ins st1)
    case (Cons b rest)
    then show ?case using capturing_block [OF Cons.prems(1), of b] by fastforce
  qed simp
  from this [OF capturing_start [OF assms(1,2)]]
  have c: "capturing ops mode (filters ?st0) (concat (map (stretched ops) bs)) (decode_flag st) (fold (process_sample_block ops mode) bs ?st0)" by simp
  have f0: "frame_dialfreq ?st0 = f \<and> frame_start_unix ?st0 = t \<and> frame_date ?st0 = take 6 d \<and> frame_uttime ?st0 = take 4 u"
    by (cases mode) (simp_all add: initSampleStorage_def Let_def)
  have fr: "frame_dialfreq (fold (process_sample_block ops mode) bs st1) = frame_dialfreq st1 \<and>
      frame_start_unix (fold (process_sample_block ops mode) bs st1) = frame_start_unix st1 \<and>
      frame_date (fold (process_sample_block ops mode) bs st1) = frame_date st1 \<and>
      frame_uttime (fold (process_sample_block ops mode) bs st1) = frame_uttime st1" for st1
    by (induction bs arbitrary: st1) (simp_all add: process_block_frame)
  show ?thesis using c f0 fr [of ?st0] target_fits [of mode]
    by (auto simp: capturing_def running_def complete_def copy_frame_def Let_def)
qed

section \<open>Frames that are handed over\<close>

inductive_cases rx_stepE: "rx_step ops mode s s'"

text \<open>
  Runs in which the decoder has copied a frame before the next one begins (it has 0.4 seconds for it in FT8 and four seconds in
  WSPR, unless it still decodes the frame before).
\<close>

inductive prompt_run :: "('f, 'd) dsp_ops \<Rightarrow> receiver_mode \<Rightarrow> ('f, 'd) hand_over \<Rightarrow> bool" for ops mode where
  prompt_start: "\<not> capture_flag (rx s) \<Longrightarrow> \<not> decode_flag (rx s) \<Longrightarrow> \<not> busy s \<Longrightarrow> \<not> copying s \<Longrightarrow> taken s = [] \<Longrightarrow>
    length (iSamples (rx s)) = 175200 \<Longrightarrow> length (qSamples (rx s)) = 175200 \<Longrightarrow> prompt_run ops mode s"
| prompt_step: "prompt_run ops mode s \<Longrightarrow> rx_step ops mode s s' \<Longrightarrow>
    (\<not> capture_flag (rx s) \<and> capture_flag (rx s') \<Longrightarrow> \<not> decode_flag (rx s) \<and> \<not> copying s) \<Longrightarrow> prompt_run ops mode s'"

definition sized :: "('f, 'd) receiver \<Rightarrow> bool" where
  "sized st \<longleftrightarrow> length (iSamples st) = 175200 \<and> length (qSamples st) = 175200"

lemma sample_loop_size:
  assumes "sized st" and "iqIndex st < capture_sample_target mode"
  shows "case sample_loop ops mode m iq ks st of (st', fin) \<Rightarrow> sized st' \<and> decode_flag st' = decode_flag st \<and>
     (fin \<longrightarrow> \<not> capture_flag st' \<and> iqIndex st' = capture_sample_target mode) \<and>
     (\<not> fin \<longrightarrow> capture_flag st' = capture_flag st \<and> iqIndex st' < capture_sample_target mode)"
  using assms
proof (induction ks arbitrary: st)
  case (Cons k ks)
  obtain r d out where f: "filter_step ops mode (filters st) (input_at ops m iq k) = ((r, d), out)" by (metis prod.exhaust_sel)
  let ?st = "st\<lparr>resampler := r, decimator := d\<rparr>"
  show ?case
  proof (cases out)
    case None
    then show ?thesis using Cons.IH [of ?st] Cons.prems f
      by (simp add: input_at_def dsp_process_eq case_prod_beta sized_def)
  next
    case (Some y)
    let ?st' = "st\<lparr>resampler := r, decimator := d, iSamples := (iSamples st)[unat (iqIndex st) := fst y],
           qSamples := (qSamples st)[unat (iqIndex st) := snd y], iqIndex := iqIndex st + 1\<rparr>"
    have "iqIndex st + 1 \<le> capture_sample_target mode" using Cons.prems(2) by (simp add: inc_le)
    then have "capture_sample_target mode \<le> iqIndex st + 1 \<Longrightarrow> iqIndex st + 1 = capture_sample_target mode" by simp
    then show ?thesis using f Some Cons.prems Cons.IH [of ?st']
      by (simp add: input_at_def dsp_process_eq case_prod_beta Let_def sized_def linorder_not_le)
  qed
qed simp

lemma process_block_size:
  assumes "sized st" and "capture_flag st \<longrightarrow> iqIndex st < capture_sample_target mode"
  shows "sized (process_sample_block ops mode b st)"
    and "capture_flag (process_sample_block ops mode b st) \<longrightarrow>
      capture_flag st \<and> iqIndex (process_sample_block ops mode b st) < capture_sample_target mode \<and> decode_flag (process_sample_block ops mode b st) = decode_flag st"
    and "\<not> capture_flag (process_sample_block ops mode b st) \<longrightarrow> process_sample_block ops mode b st = st \<or>
      iqIndex (process_sample_block ops mode b st) = capture_sample_target mode \<and> decode_flag (process_sample_block ops mode b st)"
proof -
  obtain iq dd qd where b: "b = (iq, dd, qd)" by (cases b)
  let ?st = "st\<lparr>rx_device_dropped := rx_device_dropped st + dd, rx_queue_dropped := rx_queue_dropped st + qd\<rparr>"
  obtain st' fin where l: "sample_loop ops mode (unat (dd + qd)) iq [0..<unat (dd + qd + word_of_nat (length iq) :: u64)] ?st = (st', fin)" by fastforce
  have p: "process_sample_block ops mode b st = (if \<not> capture_flag st then st else if fin then st'\<lparr>decode_flag := True\<rparr> else st')"
    using l by (simp add: process_sample_block_def b Let_def)
  have s: "capture_flag st \<Longrightarrow> sized st' \<and> decode_flag st' = decode_flag st \<and> (fin \<longrightarrow> \<not> capture_flag st' \<and> iqIndex st' = capture_sample_target mode) \<and>
     (\<not> fin \<longrightarrow> capture_flag st' \<and> iqIndex st' < capture_sample_target mode)"
    using sample_loop_size [where st = ?st and mode = mode and ops = ops and m = "unat (dd + qd)" and iq = iq and ks = "[0..<unat (dd + qd + word_of_nat (length iq) :: u64)]"]
      assms by (simp add: l sized_def)
  show "sized (process_sample_block ops mode b st)" using s assms(1) by (auto simp: p sized_def)
  show "capture_flag (process_sample_block ops mode b st) \<longrightarrow>
      capture_flag st \<and> iqIndex (process_sample_block ops mode b st) < capture_sample_target mode \<and> decode_flag (process_sample_block ops mode b st) = decode_flag st"
    using s by (auto simp: p)
  show "\<not> capture_flag (process_sample_block ops mode b st) \<longrightarrow> process_sample_block ops mode b st = st \<or>
      iqIndex (process_sample_block ops mode b st) = capture_sample_target mode \<and> decode_flag (process_sample_block ops mode b st)"
    using s by (auto simp: p)
qed

definition prompt_inv :: "receiver_mode \<Rightarrow> ('f, 'd) hand_over \<Rightarrow> bool" where
  "prompt_inv mode s \<longleftrightarrow> sized (rx s) \<and> (capture_flag (rx s) \<longrightarrow> iqIndex (rx s) < capture_sample_target mode) \<and>
     (decode_flag (rx s) \<or> copying s \<longrightarrow> \<not> capture_flag (rx s) \<and> iqIndex (rx s) = capture_sample_target mode) \<and>
     (\<forall>f \<in> set (taken s). length (frame_i f) = unat (capture_sample_target mode) \<and> length (frame_q f) = unat (capture_sample_target mode))"

lemma prompt_inv_step:
  assumes "prompt_inv mode s" and "rx_step ops mode s s'"
    and "\<not> capture_flag (rx s) \<and> capture_flag (rx s') \<Longrightarrow> \<not> decode_flag (rx s) \<and> \<not> copying s"
  shows "prompt_inv mode s'"
  using assms(2)
proof (cases rule: rx_step.cases)
  case (process_block b)
  have i: "sized (rx s)" "capture_flag (rx s) \<longrightarrow> iqIndex (rx s) < capture_sample_target mode" using assms(1) by (simp_all add: prompt_inv_def)
  note p = process_block_size [OF i, of ops b]
  show ?thesis
  proof (cases "capture_flag (process_sample_block ops mode b (rx s))")
    case True
    then show ?thesis using p assms(1) process_block by (simp add: prompt_inv_def)
  next
    case False
    then consider "process_sample_block ops mode b (rx s) = rx s"
      | "iqIndex (process_sample_block ops mode b (rx s)) = capture_sample_target mode" using p(3) by blast
    then show ?thesis using p(1) assms(1) process_block False by cases (simp_all add: prompt_inv_def)
  qed
next
  case (begin_frame f t d u)
  have z: "0 < capture_sample_target mode" using target_fits [of mode] by (simp add: word_less_nat_alt)
  have "capture_flag (rx s')" "iqIndex (rx s') = 0" "decode_flag (rx s') = decode_flag (rx s)" "iSamples (rx s') = iSamples (rx s)" "qSamples (rx s') = qSamples (rx s)"
    using begin_frame by (cases mode; simp add: initSampleStorage_def Let_def)+
  then show ?thesis using assms(1,3) begin_frame z by (simp add: prompt_inv_def sized_def)
next
  case take_frame
  then show ?thesis using assms(1) target_fits [of mode] by (auto simp: prompt_inv_def copy_frame_def sized_def)
qed (use assms(1) in \<open>auto simp: prompt_inv_def sized_def\<close>)

lemma prompt_run_inv: "prompt_run ops mode s \<Longrightarrow> prompt_inv mode s"
proof (induction rule: prompt_run.induct)
  case (prompt_start s)
  then show ?case by (simp add: prompt_inv_def sized_def)
next
  case (prompt_step s s')
  show ?case by (rule prompt_inv_step [OF prompt_step.IH prompt_step.hyps(2)]) (use prompt_step.hyps(3) in blast)
qed

text \<open>C19: As long as the decoder copies a frame before the next one begins, every frame it decodes is a whole one.\<close>

theorem frames_whole:
  assumes "prompt_run ops mode s"
  shows "\<forall>f \<in> set (taken s). length (frame_i f) = unat (capture_sample_target mode) \<and> length (frame_q f) = unat (capture_sample_target mode)"
  using prompt_run_inv [OF assms] by (simp add: prompt_inv_def)

text \<open>
  When the decoder is still busy with a frame at the time the one after the next begins, the frame in between, which is complete
  by then, is lost: the decoder, told that there is one, copies what there is of the new one, which may be nothing.
\<close>

theorem slow_decoder_loses_frame:
  assumes "busy s" and "\<not> copying s" and "decode_flag (rx s)" and "\<not> capture_flag (rx s)"
  shows "\<exists>s'. (rx_step ops mode)\<^sup>*\<^sup>* s s' \<and>
     taken s' = taken s @ [\<lparr>frame_i = [], frame_q = [], dialfreq = f, start_unix = t, date = take 6 d, uttime = take 4 u\<rparr>] \<and> capture_flag (rx s')"
proof -
  let ?r = "initSampleStorage ops mode f t d u (rx s)"
  let ?s1 = "s\<lparr>rx := ?r\<rparr>"
  let ?s2 = "?s1\<lparr>busy := False\<rparr>"
  let ?s3 = "?s2\<lparr>rx := ?r\<lparr>decode_flag := False\<rparr>, busy := True, copying := True\<rparr>"
  let ?s4 = "?s3\<lparr>copying := False, taken := taken ?s3 @ [copy_frame (rx ?s3)]\<rparr>"
  have r: "capture_flag ?r" "iqIndex ?r = 0" "decode_flag ?r = decode_flag (rx s)" "frame_dialfreq ?r = f" "frame_start_unix ?r = t"
    "frame_date ?r = take 6 d" "frame_uttime ?r = take 4 u" by (cases mode; simp add: initSampleStorage_def Let_def)+
  have a: "rx_step ops mode s ?s1" by (rule begin_frame [OF assms(4)])
  have b: "rx_step ops mode ?s1 ?s2" by (rule decoded) (use assms in simp_all)
  have c: "rx_step ops mode ?s2 ?s3" using see_flag [of ?s2 ops mode] assms(3) r(3) by simp
  have e: "rx_step ops mode ?s3 ?s4" by (rule take_frame) simp
  have "(rx_step ops mode)\<^sup>*\<^sup>* s ?s4"
    by (rule converse_rtranclp_into_rtranclp [where r = "rx_step ops mode", OF a],
      rule converse_rtranclp_into_rtranclp [where r = "rx_step ops mode", OF b],
      rule converse_rtranclp_into_rtranclp [where r = "rx_step ops mode", OF c],
      rule r_into_rtranclp [where r = "rx_step ops mode", OF e])
  then show ?thesis using r by (intro exI [of _ ?s4]) (simp add: copy_frame_def)
qed

section \<open>A frame of FT8\<close>

text \<open>Whether the second decoder is used, and how often it failed in a row.\<close>

record jt9_use =
  jt9_enabled :: bool
  jt9_consecutive_failures :: u32

record ('f) radio_ops =
  f_lroundf :: "'f \<Rightarrow> int"
  f_of_uint :: "u32 \<Rightarrow> 'f"

definition spot_report :: "'f float_ops \<Rightarrow> 'f radio_ops \<Rightarrow> u32 \<Rightarrow> int \<Rightarrow> 'f ft8_decode_result \<Rightarrow> psk_report" where
  "spot_report ops radio freq frame_start result =
     (let level = f_lroundf radio (res_snr result)
      in \<lparr>sender_call = take 12 (cstr (transmitter_call result)),
          frequency_hz = word_of_int (f_lroundf radio (f_add ops (f_of_uint radio freq) (audio_frequency_hz result))),
          snr = word_of_int (if level < - 128 then - 128 else if level > 127 then 127 else level),
          flow_start = frame_start\<rparr>)"

text \<open>
  Both decoders have answered: \<open>lib\<close> is the answer of \<open>ft8_decode_frame\<close> (the array of results and their number), \<open>started\<close> whether the
  second decoder could be started, \<open>jt9\<close> its answer. The results, their number, whether the frame was decoded and the reports for
  the queue come out; \<open>synchronized\<close> is what the clock answers at each result.
\<close>

definition finish_ft8_frame :: "'f float_ops \<Rightarrow> 'f radio_ops \<Rightarrow> bool \<Rightarrow> bool \<Rightarrow> (nat \<Rightarrow> bool) \<Rightarrow> u32 \<Rightarrow> int \<Rightarrow>
    bool \<times> 'f ft8_decode_result list \<times> nat \<Rightarrow> bool \<Rightarrow> int \<times> 'f ft8_decode_result list \<Rightarrow> jt9_use \<Rightarrow>
    jt9_use \<times> 'f ft8_decode_result list \<times> nat \<times> bool \<times> psk_report list" where
  "finish_ft8_frame ops radio noreport stop synchronized freq frame_start lib start_ok jt9 use =
     (let (ft8_lib_success, ft8_results, ft8_result_count) = lib;
          jt9_started = (jt9_enabled use \<and> start_ok);
          jt9_success = (jt9_started \<and> fst jt9 = 0);
          ft8_result_count = (if ft8_lib_success then ft8_result_count else 0);
          (use, ft8_results, ft8_result_count) =
            (if jt9_success
             then (use\<lparr>jt9_consecutive_failures := 0\<rparr>, jt9_merge_results ops ft8_results ft8_result_count FT8_MAX_RESULTS (snd jt9))
             else if jt9_enabled use
             then let use = use\<lparr>jt9_consecutive_failures := jt9_consecutive_failures use + 1\<rparr>
                  in if 3 \<le> jt9_consecutive_failures use then (use\<lparr>jt9_enabled := False\<rparr>, ft8_results, ft8_result_count)
                     else (use, ft8_results, ft8_result_count)
             else (use, ft8_results, ft8_result_count));
          decode_success = (ft8_lib_success \<or> jt9_success);
          reports = (if decode_success \<and> \<not> stop
            then map (\<lambda>index. spot_report ops radio freq frame_start (ft8_results ! index))
              (filter (\<lambda>index. \<not> noreport \<and> cstr (transmitter_call (ft8_results ! index)) \<noteq> [] \<and> synchronized index) [0..<ft8_result_count])
            else [])
      in (use, ft8_results, ft8_result_count, decode_success, reports))"

section \<open>Three failures in a row\<close>

lemma finish_use:
  "fst (finish_ft8_frame ops radio noreport stop synchronized freq frame_start lib start_ok jt9 use) =
     (if \<not> jt9_enabled use then use
      else if start_ok \<and> fst jt9 = 0 then use\<lparr>jt9_consecutive_failures := 0\<rparr>
      else if 3 \<le> jt9_consecutive_failures use + 1 then use\<lparr>jt9_consecutive_failures := jt9_consecutive_failures use + 1, jt9_enabled := False\<rparr>
      else use\<lparr>jt9_consecutive_failures := jt9_consecutive_failures use + 1\<rparr>)"
  by (auto simp: finish_ft8_frame_def Let_def case_prod_beta)

text \<open>Whether the second decoder has done its work in a frame.\<close>

definition worked :: "bool \<times> int \<times> 'f ft8_decode_result list \<Rightarrow> bool" where
  "worked = (\<lambda>(start_ok, status, results). start_ok \<and> status = 0)"

definition in_a_row :: "bool list \<Rightarrow> nat" where
  "in_a_row oks = length (takeWhile Not (rev oks))"

lemma in_a_row_snoc: "in_a_row (oks @ [ok]) = (if ok then 0 else Suc (in_a_row oks))"
  by (simp add: in_a_row_def)

lemma in_a_row_tail: "\<exists>pre. oks = pre @ replicate (in_a_row oks) False"
proof -
  have "takeWhile Not (rev oks) = replicate (in_a_row oks) False"
    unfolding in_a_row_def by (rule replicate_length_same [symmetric]) (auto dest: set_takeWhileD)
  then have "rev oks = replicate (in_a_row oks) False @ dropWhile Not (rev oks)" by (metis takeWhile_dropWhile_id)
  then have "rev (rev oks) = rev (dropWhile Not (rev oks)) @ replicate (in_a_row oks) False" by (metis rev_append rev_replicate)
  then show ?thesis by auto
qed

lemma three_snoc: "sublist [False, False, False] (oks @ [ok]) \<longleftrightarrow> sublist [False, False, False] oks \<or> 3 \<le> in_a_row (oks @ [ok])"
proof -
  have "sublist [False, False, False] (oks @ [ok]) \<longleftrightarrow> sublist [False, False, False] oks \<or> suffix [False, False, False] (oks @ [ok])"
    by (metis sublist_snoc)
  moreover have "suffix [False, False, False] l \<longleftrightarrow> 3 \<le> in_a_row l" for l
  proof
    assume "suffix [False, False, False] l"
    then obtain pre where "l = pre @ [False, False, False]" by (auto simp: suffix_def)
    then show "3 \<le> in_a_row l" by (simp add: in_a_row_def)
  next
    assume n: "3 \<le> in_a_row l"
    obtain pre where "l = pre @ replicate (in_a_row l) False" using in_a_row_tail by blast
    moreover have "in_a_row l = (in_a_row l - 3) + 3" using n by simp
    then have "replicate (in_a_row l) False = replicate (in_a_row l - 3) False @ replicate 3 False" by (metis replicate_add)
    then have "replicate (in_a_row l) False = replicate (in_a_row l - 3) False @ [False, False, False]" by (simp add: numeral_3_eq_3)
    ultimately show "suffix [False, False, False] l" by (metis append.assoc suffixI)
  qed
  ultimately show ?thesis by (simp only:)
qed

text \<open>The second decoder over the frames, and whether it was used in each.\<close>

fun use_frames :: "'f float_ops \<Rightarrow> 'f radio_ops \<Rightarrow> (bool \<times> int \<times> 'f ft8_decode_result list) list \<Rightarrow> jt9_use \<Rightarrow> jt9_use" where
  "use_frames ops radio [] use = use"
| "use_frames ops radio ((start_ok, jt9) # frames) use =
     use_frames ops radio frames (fst (finish_ft8_frame ops radio True False (\<lambda>_. False) 0 0 (True, [], 0) start_ok jt9 use))"

lemma use_frames_snoc:
  "use_frames ops radio (frames @ [(start_ok, jt9)]) use =
     fst (finish_ft8_frame ops radio True False (\<lambda>_. False) 0 0 (True, [], 0) start_ok jt9 (use_frames ops radio frames use))"
  by (induction ops radio frames use rule: use_frames.induct) simp_all

text \<open>The second decoder is used until it has failed in three frames in a row, and never after that.\<close>

theorem jt9_disabled_after_three:
  "jt9_enabled (use_frames ops radio frames \<lparr>jt9_enabled = True, jt9_consecutive_failures = 0\<rparr>) \<longleftrightarrow>
     \<not> sublist [False, False, False] (map worked frames)"
proof -
  let ?u = "\<lambda>frames. use_frames ops radio frames \<lparr>jt9_enabled = True, jt9_consecutive_failures = 0\<rparr>"
  have "jt9_enabled (?u frames) = (\<not> sublist [False, False, False] (map worked frames)) \<and>
    (jt9_enabled (?u frames) \<longrightarrow> unat (jt9_consecutive_failures (?u frames)) = in_a_row (map worked frames) \<and> in_a_row (map worked frames) < 3)"
  proof (induction frames rule: rev_induct)
    case Nil
    then show ?case by (simp add: in_a_row_def)
  next
    case (snoc f frames)
    obtain start_ok jt9 where f: "f = (start_ok, jt9)" by (cases f)
    have w: "worked f = (start_ok \<and> fst jt9 = 0)" by (cases jt9) (simp add: f worked_def)
    let ?c = "jt9_consecutive_failures (?u frames)" and ?n = "in_a_row (map worked frames)"
    show ?case
    proof (cases "jt9_enabled (?u frames)")
      case False
      then show ?thesis using snoc by (simp add: f use_frames_snoc finish_use three_snoc)
    next
      case True
      then have n: "unat ?c = ?n" "?n < 3" "\<not> sublist [False, False, False] (map worked frames)" using snoc by simp_all
      have c: "unat (?c + 1) = Suc ?n" using n by (simp add: unat_word_ariths)
      have "(3 \<le> ?c + 1) = (3 \<le> Suc ?n)" using c by (simp add: word_le_nat_alt)
      then show ?thesis using True n c w
        by (cases "worked f") (auto simp: f use_frames_snoc finish_use three_snoc in_a_row_snoc)
    qed
  qed
  then show ?thesis by blast
qed

text \<open>
  What is done with a frame of FT8: the results of the first decoder stay in place and those of the second one that are new
  come behind them, 50 at most; a report goes to the queue for each result with a sender, in order, with that sender (one
  the queue takes), the frequency and the time of the frame, unless reports are off, the program stops, the clock is not
  synchronized or both decoders failed; and if neither failed, nothing is lost that fits.
\<close>

theorem ft8_frame_reports:
  assumes "finish_ft8_frame ops radio noreport stop synchronized freq frame_start (lib_ok, lib_results, lib_count) start_ok (jt9_status, jt9_results) use =
      (use', rs, n, success, reports)"
    and "lib_count \<le> 50" and "50 \<le> length lib_results"
  shows "n \<le> 50 \<and> (\<forall>i < (if lib_ok then lib_count else 0). filled (lib_results ! i) (rs ! i)) \<and>
     (jt9_enabled use \<and> start_ok \<and> jt9_status = 0 \<and> n < 50 \<longrightarrow> (\<forall>a \<in> set jt9_results. \<exists>i < n. stands_for ops (rs ! i) a)) \<and>
     success = (lib_ok \<or> jt9_enabled use \<and> start_ok \<and> jt9_status = 0) \<and>
     reports = (if success \<and> \<not> stop
       then map (\<lambda>i. spot_report ops radio freq frame_start (rs ! i)) (filter (\<lambda>i. \<not> noreport \<and> has_sender (rs ! i) \<and> synchronized i) [0..<n]) else []) \<and>
     (\<forall>r \<in> set reports. valid_text_length (sender_call r) 12)"
proof -
  let ?n = "if lib_ok then lib_count else 0"
  have c: "?n \<le> FT8_MAX_RESULTS" "FT8_MAX_RESULTS \<le> length lib_results" using assms(2,3) by (simp_all add: FT8_MAX_RESULTS_def)
  obtain q k where m: "jt9_merge_results ops lib_results ?n FT8_MAX_RESULTS jt9_results = (q, k)" by fastforce
  have "merged ops lib_results ?n FT8_MAX_RESULTS [] lib_results ?n" using c by (auto simp: merged_def)
  from merge_fold [OF this c(2), of jt9_results] c(1) have s: "merged ops lib_results ?n FT8_MAX_RESULTS jt9_results q k"
    using m by (simp add: jt9_merge_results_def)
  have v: "cstr (transmitter_call r) \<noteq> [] \<Longrightarrow> valid_text_length (sender_call (spot_report ops radio freq frame_start r)) 12" for r
    by (simp add: spot_report_def Let_def valid_text_length_def)
  show ?thesis
  proof (cases "jt9_enabled use \<and> start_ok \<and> jt9_status = 0")
    case True
    then have "rs = q" "n = k" "success"
        "reports = (if \<not> stop then map (\<lambda>i. spot_report ops radio freq frame_start (q ! i))
          (filter (\<lambda>i. \<not> noreport \<and> cstr (transmitter_call (q ! i)) \<noteq> [] \<and> synchronized i) [0..<k]) else [])"
      using assms(1) m by (simp_all add: finish_ft8_frame_def Let_def)
    then show ?thesis using True s v by (auto simp: merged_def has_sender_def FT8_MAX_RESULTS_def)
  next
    case False
    then have "rs = lib_results" "n = ?n" "success = lib_ok"
        "reports = (if lib_ok \<and> \<not> stop then map (\<lambda>i. spot_report ops radio freq frame_start (lib_results ! i))
          (filter (\<lambda>i. \<not> noreport \<and> cstr (transmitter_call (lib_results ! i)) \<noteq> [] \<and> synchronized i) [0..<?n]) else [])"
      using assms(1) by (auto simp: finish_ft8_frame_def Let_def split: if_splits)
    then show ?thesis using False assms(2) v by (auto simp: has_sender_def)
  qed
qed

section \<open>Examples\<close>

text \<open>A receiver at 375 samples per second: the filter gives an output for each input.\<close>

definition demo_receiver :: "(int, int) receiver" where
  "demo_receiver = \<lparr>capture_flag = False, decode_flag = False, iSamples = replicate 175200 0, qSamples = replicate 175200 0, iqIndex = 0,
     rx_device_dropped = 0, rx_queue_dropped = 0, frame_dialfreq = 0, frame_start_unix = 0, frame_date = [], frame_uttime = [],
     resampler = the (ft8_resampler_init whole_ops 12000), decimator = the (wspr_decimator_init whole_ops 375), input_queue = demo_queue\<rparr>"

lemma heard_wspr: "filtered_samples ops RECEIVER_MODE_WSPR (r, d) xs = snd (decimate ops d xs)"
proof -
  have "outputs (filter_step ops RECEIVER_MODE_WSPR) (r, d) xs = (case decimate ops d xs of (d', ys) \<Rightarrow> ((r, d'), ys))"
    by (induction xs arbitrary: d) (auto simp: decimate_def filter_step_def split: prod.split)
  then show ?thesis by (simp add: filtered_samples_def case_prod_beta)
qed

lemma demo_heard:
  "length (filtered_samples whole_ops RECEIVER_MODE_WSPR (filters (initSampleStorage whole_ops RECEIVER_MODE_WSPR f t d u demo_receiver)) xs) = length xs"
proof -
  obtain d0 where i: "wspr_decimator_init whole_ops 375 = Some d0" "factor d0 = 1" by (simp add: wspr_decimator_init_def WSPR_OUTPUT_RATE_def)
  have e: "exact whole_ops" by (simp add: exact_def whole_ops_def)
  have "wspr_decimator_reset whole_ops d0 = d0" using decimate_filtered [OF e i(1) i(2), of "[]"] i
    by (auto simp: wspr_decimator_init_def wspr_decimator_reset_def split: if_splits)
  then have "filters (initSampleStorage whole_ops RECEIVER_MODE_WSPR f t d u demo_receiver) = (resampler demo_receiver, d0)"
    by (simp add: filters_def initSampleStorage_def Let_def demo_receiver_def i(1))
  then show ?thesis using decimate_filtered [OF e i(1) i(2), of xs] by (auto simp: heard_wspr every_def)
qed

lemma demo_length: "length (iSamples demo_receiver) = 175200" "length (qSamples demo_receiver) = 175200"
  by (simp_all add: demo_receiver_def)

text \<open>Five samples, two of them lost in the radio and one in the queue: the capture goes on with five outputs stored.\<close>

theorem capture_exact_witness:
  "capture_flag (fold (process_sample_block whole_ops RECEIVER_MODE_WSPR) [([(1, 2), (3, 4)], 2, 1)]
     (initSampleStorage whole_ops RECEIVER_MODE_WSPR 14095600 1700000000 ''231114'' ''2212'' demo_receiver))"
proof -
  have "\<forall>b \<in> set [([(1, 2), (3, 4)] :: (int \<times> int) list, 2, 1)]. block_fits b" by (simp add: block_fits_def)
  from capture_exact [OF demo_length this, where ops = whole_ops and mode = RECEIVER_MODE_WSPR and f = 14095600 and t = 1700000000 and d = "''231114''" and u = "''2212''"]
  show ?thesis by (simp only: Let_def demo_heard) (simp add: stretched_def capture_sample_target_def WSPR_CAPTURE_SAMPLES_def WSPR_OUTPUT_RATE_def)
qed

text \<open>A whole frame, in one block, and its hand-over.\<close>

definition demo_hand_over :: "(int, int) hand_over" where
  "demo_hand_over = \<lparr>rx = demo_receiver, busy = False, copying = False, taken = []\<rparr>"

theorem frames_whole_witness:
  "\<exists>s. prompt_run whole_ops RECEIVER_MODE_WSPR s \<and> (\<exists>f. taken s = [f] \<and> length (frame_i f) = 43500)"
proof -
  let ?b = "(replicate 43500 (5, 6), 0, 0) :: int iq_block"
  let ?run = "prompt_run whole_ops RECEIVER_MODE_WSPR"
  let ?r1 = "initSampleStorage whole_ops RECEIVER_MODE_WSPR 0 0 [] [] demo_receiver"
  let ?r2 = "process_sample_block whole_ops RECEIVER_MODE_WSPR ?b ?r1"
  let ?s0 = demo_hand_over
  let ?s1 = "?s0\<lparr>rx := ?r1\<rparr>"
  let ?s2 = "?s1\<lparr>rx := ?r2\<rparr>"
  let ?s3 = "?s2\<lparr>rx := (rx ?s2)\<lparr>decode_flag := False\<rparr>, busy := True, copying := True\<rparr>"
  let ?s4 = "?s3\<lparr>copying := False, taken := taken ?s3 @ [copy_frame (rx ?s3)]\<rparr>"
  have "\<forall>b \<in> set [?b]. block_fits b" by (simp add: block_fits_def)
  from capture_exact [OF demo_length this, where ops = whole_ops and mode = RECEIVER_MODE_WSPR and f = 0 and t = 0 and d = "[]" and u = "[]"]
  have c: "\<not> capture_flag ?r2" "decode_flag ?r2"
    by (simp_all only: Let_def demo_heard) (simp_all add: stretched_def capture_sample_target_def WSPR_CAPTURE_SAMPLES_def WSPR_OUTPUT_RATE_def)
  have r0: "?run ?s0" by (rule prompt_start) (simp_all add: demo_hand_over_def demo_receiver_def)
  have "rx_step whole_ops RECEIVER_MODE_WSPR ?s0 ?s1"
    using begin_frame [of ?s0 whole_ops RECEIVER_MODE_WSPR 0 0 "[]" "[]"] by (simp add: demo_hand_over_def demo_receiver_def)
  then have r1: "?run ?s1" by (rule prompt_step [OF r0]) (simp add: demo_hand_over_def demo_receiver_def)
  have "rx_step whole_ops RECEIVER_MODE_WSPR ?s1 ?s2" using process_block [of whole_ops RECEIVER_MODE_WSPR ?s1 ?b] by simp
  then have r2: "?run ?s2" by (rule prompt_step [OF r1]) (use c in simp)
  have "rx_step whole_ops RECEIVER_MODE_WSPR ?s2 ?s3" by (rule see_flag) (use c in \<open>simp_all add: demo_hand_over_def\<close>)
  then have r3: "?run ?s3" by (rule prompt_step [OF r2]) (use c in simp)
  have "rx_step whole_ops RECEIVER_MODE_WSPR ?s3 ?s4" by (rule take_frame) simp
  then have r4: "?run ?s4" by (rule prompt_step [OF r3]) (use c in simp)
  from frames_whole [OF this] r4 show ?thesis
    by (intro exI [of _ ?s4]) (simp add: demo_hand_over_def capture_sample_target_def WSPR_CAPTURE_SAMPLES_def WSPR_OUTPUT_RATE_def)
qed

definition demo_radio :: "int radio_ops" where
  "demo_radio = \<lparr>f_lroundf = (\<lambda>x. x div 1000), f_of_uint = (\<lambda>w. 1000 * uint w)\<rparr>"

theorem ft8_frame_reports_witness:
  "\<exists>use rs n reports. finish_ft8_frame milli_ops demo_radio False False (\<lambda>_. True) 14074000 1700000000
      (True, replicate 50 ((zero_result milli_ops)\<lparr>transmitter_call := ''VU3CER'' @ replicate 7 NUL\<rparr>), 1) True (0, [(zero_result milli_ops)\<lparr>res_message := ''CQ K1ABC''\<rparr>])
      \<lparr>jt9_enabled = True, jt9_consecutive_failures = 2\<rparr> = (use, rs, n, True, reports) \<and> n \<le> 50 \<and>
    (\<forall>r \<in> set reports. valid_text_length (sender_call r) 12)"
proof -
  let ?lib = "replicate 50 ((zero_result milli_ops)\<lparr>transmitter_call := ''VU3CER'' @ replicate 7 NUL\<rparr>)" and ?jt = "[(zero_result milli_ops)\<lparr>res_message := ''CQ K1ABC''\<rparr>]"
  let ?f = "finish_ft8_frame milli_ops demo_radio False False (\<lambda>_. True) 14074000 1700000000 (True, ?lib, 1) True (0, ?jt) \<lparr>jt9_enabled = True, jt9_consecutive_failures = 2\<rparr>"
  obtain use rs n success reports where f: "?f = (use, rs, n, success, reports)" by (metis prod.exhaust_sel)
  have c: "(1 :: nat) \<le> 50" "50 \<le> length ?lib" by simp_all
  from ft8_frame_reports [OF f c] f show ?thesis by (intro exI [of _ use] exI [of _ rs] exI [of _ n] exI [of _ reports]) auto
qed

end
