(* ===== verification/BandAdvisor.thy ===== *)
theory BandAdvisor
  imports Bands Host "HOL-Library.Sublist"
begin

text \<open>
  \<open>band_advisor.c\<close>: the answers of the services that say on which bands something can be heard, and the thread that fetches them.
  A place in a text is the rest of the text from there on. The transfer itself (curl) is outside; its chunks arrive at
  \<open>receive_response\<close>.
\<close>

section \<open>Receiving\<close>

record response_buffer =
  response_data :: string
  response_capacity :: nat

text \<open>The text received so far is a string, its length the member \<open>length\<close>; the answer is the number of bytes taken.\<close>

definition receive_response :: "string \<Rightarrow> nat \<Rightarrow> nat \<Rightarrow> response_buffer \<Rightarrow> response_buffer \<times> nat" where
  "receive_response contents size_arg count_arg response =
     (if size_arg \<noteq> 0 \<and> count_arg > (2 ^ 64 - 1) div size_arg then (response, 0)
      else
        let bytes = size_arg * count_arg
        in if response_capacity response = 0 \<or> length (response_data response) \<ge> response_capacity response \<or>
              bytes > response_capacity response - length (response_data response) - 1
           then (response, 0)
           else (response\<lparr>response_data := response_data response @ take bytes contents\<rparr>, bytes))"

section \<open>JSON\<close>

text \<open>The scan for the bracket that closes the one before; the answer is how far away it is.\<close>

fun json_end :: "char \<Rightarrow> char \<Rightarrow> nat \<Rightarrow> bool \<Rightarrow> bool \<Rightarrow> string \<Rightarrow> nat option" where
  "json_end opening closing depth in_string escaped [] = None"
| "json_end opening closing depth in_string escaped (c # cs) =
     (if in_string then
        (if escaped then map_option Suc (json_end opening closing depth True False cs)
         else if c = CHR 0x5C then map_option Suc (json_end opening closing depth True True cs)
         else if c = CHR 0x22 then map_option Suc (json_end opening closing depth False False cs)
         else map_option Suc (json_end opening closing depth True False cs))
      else if c = CHR 0x22 then map_option Suc (json_end opening closing depth True escaped cs)
      else if c = opening then map_option Suc (json_end opening closing (depth + 1) False escaped cs)
      else if c = closing then
        (if depth - 1 = 0 then Some 0 else map_option Suc (json_end opening closing (depth - 1) False escaped cs))
      else map_option Suc (json_end opening closing depth False escaped cs))"

definition json_array_end :: "string \<Rightarrow> nat option" where
  "json_array_end begin_at = json_end (CHR ''['') (CHR '']'') 1 False False begin_at"

definition json_object_end :: "string \<Rightarrow> nat option" where
  "json_object_end begin_at = json_end (CHR 0x7B) (CHR 0x7D) 1 False False begin_at"

text \<open>A key up to its quotation mark, and the rest from that mark on; an escaped character is passed over.\<close>

fun json_key :: "string \<Rightarrow> string \<times> string" where
  "json_key [] = ([], [])"
| "json_key [c] = (if c = CHR 0x22 then ([], [c]) else ([c], []))"
| "json_key (c # d # cs) =
     (if c = CHR 0x22 then ([], c # d # cs)
      else if c = CHR 0x5C then (case json_key cs of (key, rest) \<Rightarrow> (c # d # key, rest))
      else (case json_key (d # cs) of (key, rest) \<Rightarrow> (c # key, rest)))"

lemma json_key_split: "json_key s = (key, rest) \<Longrightarrow> s = key @ rest"
  by (induction s arbitrary: key rule: json_key.induct) (auto split: if_splits prod.splits)

function json_object_value :: "string \<Rightarrow> string \<Rightarrow> string option" where
  "json_object_value [] wanted_key = None"
| "json_object_value (c # cs) wanted_key =
     (if c \<noteq> CHR 0x22 then json_object_value cs wanted_key
      else case json_key cs of (key, rest) \<Rightarrow>
        if rest = [] then None
        else
          let position = dropWhile c_isspace (tl rest)
          in if position = [] then None
             else if hd position \<noteq> CHR '':'' then json_object_value (tl position) wanted_key
             else let position = dropWhile c_isspace (tl position)
                  in if key = wanted_key then Some position else json_object_value position wanted_key)"
  by pat_completeness auto
termination
proof (relation "measure (\<lambda>(s, _). length s)")
  fix c :: char and cs wanted_key key rest position :: string
  assume s: "(key, rest) = json_key cs" "rest \<noteq> []" "position = dropWhile c_isspace (tl rest)" "position \<noteq> []"
  have "cs = key @ rest" using json_key_split s(1) by metis
  then have l: "length rest \<le> length cs" by simp
  have "length position \<le> length (tl rest)" unfolding s(3) by (rule length_dropWhile_le)
  then have p: "length (tl position) < length (c # cs)" using l s(2,4) by (cases rest; cases position) simp_all
  then show "((tl position, wanted_key), c # cs, wanted_key) \<in> measure (\<lambda>(s, _). length s)" by simp
  have "length (dropWhile c_isspace (tl position)) \<le> length (tl position)" by (rule length_dropWhile_le)
  then show "x = dropWhile c_isspace (tl position) \<Longrightarrow> ((x, wanted_key), c # cs, wanted_key) \<in> measure (\<lambda>(s, _). length s)" for x
    using p by simp
qed simp_all

text \<open>\<open>strstr\<close>: the rest of the text from the first place where the needle stands.\<close>

fun c_strstr :: "string \<Rightarrow> string \<Rightarrow> string option" where
  "c_strstr needle s = (if prefix needle s then Some s else case s of [] \<Rightarrow> None | _ # cs \<Rightarrow> c_strstr needle cs)"

declare c_strstr.simps [simp del]

section \<open>Active receivers\<close>

text \<open>A field without the white space around it, and the band with its name.\<close>

definition bump :: "nat \<Rightarrow> nat list \<Rightarrow> nat list" where
  "bump index counts = (if counts ! index \<noteq> ULONG_MAX then counts[index := counts ! index + 1] else counts)"

fun band_index :: "(wspr_hop_band \<Rightarrow> bool) \<Rightarrow> nat \<Rightarrow> wspr_hop_plan \<Rightarrow> nat option" where
  "band_index matches index [] = None"
| "band_index matches index (band # bands) = (if matches band then Some index else band_index matches (index + 1) bands)"

definition count_where :: "(wspr_hop_band \<Rightarrow> bool) \<Rightarrow> wspr_hop_plan \<Rightarrow> nat list \<Rightarrow> nat list" where
  "count_where matches candidates counts = (case band_index matches 0 candidates of None \<Rightarrow> counts | Some index \<Rightarrow> bump index counts)"

lemma tl_dropWhile_shorter: "s \<noteq> [] \<Longrightarrow> length (tl (dropWhile P s)) < length s"
proof -
  assume "s \<noteq> []"
  moreover have "length (dropWhile P s) \<le> length s" by (rule length_dropWhile_le)
  moreover have "length (tl (dropWhile P s)) = length (dropWhile P s) - 1" by simp
  moreover have "0 < length s" using \<open>s \<noteq> []\<close> by simp
  ultimately show ?thesis by linarith
qed

function count_monitor_bands :: "wspr_hop_plan \<Rightarrow> string \<Rightarrow> nat list \<Rightarrow> nat list" where
  "count_monitor_bands candidates field counts =
     (if field = [] then counts
      else
        let name = trim_field (takeWhile (\<lambda>c. c \<noteq> CHR '','') field);
            rest = dropWhile (\<lambda>c. c \<noteq> CHR '','') field;
            counts = count_where (\<lambda>b. hop_name b = name) candidates counts
        in if rest = [] then counts else count_monitor_bands candidates (tl rest) counts)"
  by auto
termination
proof (relation "measure (\<lambda>(_, field, _). length field)")
  fix rest field :: string and candidates :: wspr_hop_plan and counts' counts :: "nat list"
  assume "rest = dropWhile (\<lambda>c. c \<noteq> CHR '','') field" "field \<noteq> []"
  then show "((candidates, tl rest, counts'), candidates, field, counts) \<in> measure (\<lambda>(_, field, _). length field)"
    using tl_dropWhile_shorter by simp
qed simp

declare count_monitor_bands.simps [simp del]

definition frequency_in_band :: "nat \<Rightarrow> wspr_hop_band \<Rightarrow> bool" where
  "frequency_in_band frequency band =
     (let lower = word_of_int (hop_database_band band) * 1000000 :: u64;
          upper = (if hop_database_band band = 28 then 30000000 else lower + 1000000)
      in lower \<le> word_of_nat frequency \<and> word_of_nat frequency < upper)"

definition count_monitor_frequency :: "wspr_hop_plan \<Rightarrow> nat \<Rightarrow> nat list \<Rightarrow> nat list" where
  "count_monitor_frequency candidates frequency counts = count_where (frequency_in_band frequency) candidates counts"

text \<open>
  The loop over the objects of the array; \<open>position\<close> is the text up to the end of the array, \<open>behind\<close> the text from there on, into
  which only \<open>strtoul\<close> could look.
\<close>

function monitor_objects :: "wspr_hop_plan \<Rightarrow> string \<Rightarrow> string \<Rightarrow> nat list \<Rightarrow> nat list option" where
  "monitor_objects candidates position behind counts =
     (let at_object = dropWhile (\<lambda>c. c \<noteq> CHR 0x7B) position
      in if at_object = [] then Some counts
         else case json_object_end (tl at_object) of None \<Rightarrow> None
           | Some n \<Rightarrow>
               let object = take n (tl at_object);
                   after = drop n (tl at_object)
               in case (case json_object_value object ''bands'' of
                     Some bands \<Rightarrow>
                       if bands = [] \<or> hd bands \<noteq> CHR 0x22 then None
                       else
                         let names = takeWhile (\<lambda>c. c \<noteq> CHR 0x22) (tl bands)
                         in if length names = length (tl bands) \<or> CHR 0x5C \<in> set names then None
                            else Some (count_monitor_bands candidates names counts)
                   | None \<Rightarrow>
                       (case json_object_value object ''frequency'' of None \<Rightarrow> Some counts
                        | Some frequency_value \<Rightarrow>
                            let (frequency, overflow, frequency_end) = c_strtoul (frequency_value @ after @ behind)
                            in if overflow \<or> length frequency_end = length (frequency_value @ after @ behind) \<or>
                                  length frequency_end < length (after @ behind) then None
                               else Some (count_monitor_frequency candidates frequency counts)))
                 of None \<Rightarrow> None | Some counts \<Rightarrow> monitor_objects candidates (drop 1 after) behind counts)"
  by auto
termination
proof (relation "measure (\<lambda>(_, position, _). length position)")
  fix at_object after position behind :: string and n :: nat and candidates :: wspr_hop_plan and counts' counts :: "nat list"
  assume "at_object = dropWhile (\<lambda>c. c \<noteq> CHR 0x7B) position" "at_object \<noteq> []" "after = drop n (tl at_object)"
  moreover from this have "length (tl at_object) < length position" using tl_dropWhile_shorter [of position] by fastforce
  ultimately show "((candidates, drop 1 after, behind, counts'), candidates, position, behind, counts) \<in> measure (\<lambda>(_, position, _). length position)"
    by simp
qed simp

declare monitor_objects.simps [simp del]

definition active_receiver_key :: string where
  "active_receiver_key = [CHR 0x22] @ ''activeReceiver'' @ [CHR 0x22]"

text \<open>The counts, in the order of the candidates.\<close>

definition monitor_counts :: "wspr_hop_plan \<Rightarrow> string \<Rightarrow> nat list option" where
  "monitor_counts candidates response =
     (case c_strstr active_receiver_key response of None \<Rightarrow> None
      | Some at_key \<Rightarrow>
          let position = dropWhile c_isspace (drop (length active_receiver_key) at_key)
          in if position = [] \<or> hd position \<noteq> CHR '':'' then None
             else
               let position = dropWhile c_isspace (tl position)
               in if position = [] \<or> hd position \<noteq> CHR ''['' then None
                  else case json_array_end (tl position) of None \<Rightarrow> None
                    | Some n \<Rightarrow> monitor_objects candidates (take n (tl position)) (drop n (tl position)) (replicate WSPR_MAX_HOP_BANDS 0))"

text \<open>The choice of the best bands: the loop over the candidates, and the loop that takes up to four.\<close>

definition best_band :: "wspr_hop_plan \<Rightarrow> nat list \<Rightarrow> nat list \<Rightarrow> nat \<times> nat" where
  "best_band candidates counts chosen =
     fold (\<lambda>index (best, best_count). if index \<notin> set chosen \<and> counts ! index > best_count then (index, counts ! index) else (best, best_count))
       [0..<length candidates] (length candidates, 0)"

definition ADVISOR_RESULT_BANDS :: nat where "ADVISOR_RESULT_BANDS = 4"

fun choose_bands :: "nat \<Rightarrow> wspr_hop_plan \<Rightarrow> nat list \<Rightarrow> nat list \<Rightarrow> nat list" where
  "choose_bands 0 candidates counts chosen = chosen"
| "choose_bands (Suc fuel) candidates counts chosen =
     (if length chosen < ADVISOR_RESULT_BANDS
      then let best = fst (best_band candidates counts chosen)
           in if best = length candidates then chosen else choose_bands fuel candidates counts (chosen @ [best])
      else chosen)"

definition ft8_monitor_parse_response :: "wspr_hop_plan \<Rightarrow> string \<Rightarrow> wspr_hop_plan option" where
  "ft8_monitor_parse_response candidates response =
     (if length candidates > WSPR_MAX_HOP_BANDS then None
      else case monitor_counts candidates response of None \<Rightarrow> None
        | Some counts \<Rightarrow>
            let ranked = map ((!) candidates) (choose_bands (ADVISOR_RESULT_BANDS + 1) candidates counts [])
            in if length ranked < 2 then None else Some ranked)"

section \<open>Other answers\<close>

text \<open>The three numbers of a row, and nothing behind them; white space in the format is any white space.\<close>

definition scan_row :: "string \<Rightarrow> (int \<times> nat \<times> nat) option" where
  "scan_row row =
     (case scan_d row of None \<Rightarrow> None | Some (band, rest) \<Rightarrow>
       (case scan_llu rest of None \<Rightarrow> None | Some (stations, rest) \<Rightarrow>
         (case scan_llu rest of None \<Rightarrow> None | Some (spots, rest) \<Rightarrow> if rest = [] then Some (band, stations, spots) else None)))"

definition add_ranked :: "wspr_hop_plan \<Rightarrow> int \<Rightarrow> wspr_hop_plan \<Rightarrow> wspr_hop_plan" where
  "add_ranked candidates band ranked =
     (case find (\<lambda>b. hop_database_band b = band) candidates of None \<Rightarrow> ranked
      | Some b \<Rightarrow> if list_ex (\<lambda>r. hop_database_band r = band) ranked then ranked else ranked @ [b])"

function advisor_rows :: "wspr_hop_plan \<Rightarrow> string \<Rightarrow> wspr_hop_plan \<Rightarrow> wspr_hop_plan option" where
  "advisor_rows candidates line ranked =
     (if line = [] \<or> length ranked \<ge> ADVISOR_RESULT_BANDS then Some ranked
      else
        let row = takeWhile (\<lambda>c. c \<noteq> CHR 0x0A) line;
            rest = dropWhile (\<lambda>c. c \<noteq> CHR 0x0A) line
        in if row = [] \<or> length row \<ge> 128 then None
           else case scan_row row of None \<Rightarrow> None
             | Some (band, stations, spots) \<Rightarrow>
                 if stations = 0 \<or> spots = 0 then None
                 else advisor_rows candidates (drop 1 rest) (add_ranked candidates band ranked))"
  by auto
termination
proof (relation "measure (\<lambda>(_, line, _). length line)")
  fix line rest row :: string and candidates ranked ranked' :: wspr_hop_plan
  assume r: "row = takeWhile (\<lambda>c. c \<noteq> CHR 0x0A) line" "rest = dropWhile (\<lambda>c. c \<noteq> CHR 0x0A) line" "\<not> (row = [] \<or> length row \<ge> 128)"
  then have "line \<noteq> []" by auto
  then have "length (tl rest) < length line" unfolding r(2) by (rule tl_dropWhile_shorter)
  then show "((candidates, drop 1 rest, ranked'), candidates, line, ranked) \<in> measure (\<lambda>(_, line, _). length line)" by (simp add: drop_Suc)
qed simp

declare advisor_rows.simps [simp del]

definition wspr_advisor_parse_response :: "wspr_hop_plan \<Rightarrow> string \<Rightarrow> wspr_hop_plan option" where
  "wspr_advisor_parse_response candidates response =
     (case advisor_rows candidates response [] of None \<Rightarrow> None | Some ranked \<Rightarrow> if length ranked < 2 then None else Some ranked)"

definition in_ft8_channel :: "nat \<Rightarrow> wspr_hop_band \<Rightarrow> bool" where
  "in_ft8_channel frequency band \<longleftrightarrow> frequency = unat (hop_frequency_hz band) \<or>
     unat (hop_frequency_hz band) + 200 \<le> frequency \<and> frequency \<le> unat (hop_frequency_hz band) + 3000"

function ft8_advisor_parse_response :: "wspr_hop_plan \<Rightarrow> string \<Rightarrow> wspr_hop_plan option" where
  "ft8_advisor_parse_response candidates response =
     (if response = [] then None
      else
        let row = takeWhile (\<lambda>c. c \<noteq> CHR 0x0A) response;
            rest = drop 1 (dropWhile (\<lambda>c. c \<noteq> CHR 0x0A) response);
            position = dropWhile c_isspace row
        in if length row \<ge> 128 then None
           else if position = [] \<or> hd position = CHR ''#'' then ft8_advisor_parse_response candidates rest
           else
             let (frequency, overflow, after) = c_strtoul position
             in if overflow \<or> length after = length position \<or> frequency = 0 \<or> frequency > 2 ^ 32 - 1 \<or> (after \<noteq> [] \<and> \<not> c_isspace (hd after)) then None
                else case find (in_ft8_channel frequency) candidates of
                    Some band \<Rightarrow> Some [band] | None \<Rightarrow> ft8_advisor_parse_response candidates rest)"
  by auto
termination
proof (relation "measure (\<lambda>(_, response). length response)")
  show "response \<noteq> [] \<Longrightarrow> rest = drop 1 (dropWhile (\<lambda>c. c \<noteq> CHR 0x0A) response) \<Longrightarrow>
    ((candidates, rest), candidates, response) \<in> measure (\<lambda>(_, response). length response)" for rest response :: string and candidates :: wspr_hop_plan
    using tl_dropWhile_shorter [of response "\<lambda>c. c \<noteq> CHR 0x0A"] by (simp add: drop_Suc)
  then show "response \<noteq> [] \<Longrightarrow> rest = drop 1 (dropWhile (\<lambda>c. c \<noteq> CHR 0x0A) response) \<Longrightarrow>
    ((candidates, rest), candidates, response) \<in> measure (\<lambda>(_, response). length response)" for rest response :: string and candidates :: wspr_hop_plan .
qed simp

declare ft8_advisor_parse_response.simps [simp del]

section \<open>The best bands\<close>

text \<open>The order of the bands: more receivers first, the earlier candidate among equals.\<close>

definition ahead :: "nat list \<Rightarrow> nat \<Rightarrow> nat \<Rightarrow> bool" where
  "ahead counts i j \<longleftrightarrow> counts ! j < counts ! i \<or> counts ! j = counts ! i \<and> i < j"

lemma ahead_trans: "ahead counts i j \<Longrightarrow> ahead counts j k \<Longrightarrow> ahead counts i k"
  by (auto simp: ahead_def)

lemma best_band_first:
  "case fold (\<lambda>index (best, best_count). if index \<notin> set chosen \<and> counts ! index > best_count then (index, counts ! index) else (best, best_count))
       [0..<n] (m, 0) of (b, c) \<Rightarrow>
     c = 0 \<and> b = m \<and> (\<forall>i < n. i \<notin> set chosen \<longrightarrow> counts ! i = 0) \<or>
     b < n \<and> b \<notin> set chosen \<and> counts ! b = c \<and> 0 < c \<and> (\<forall>i < n. i \<notin> set chosen \<longrightarrow> i = b \<or> ahead counts b i)"
proof (induction n)
  case (Suc n)
  let ?f = "fold (\<lambda>index (best, best_count). if index \<notin> set chosen \<and> counts ! index > best_count then (index, counts ! index) else (best, best_count)) [0..<n] (m, 0)"
  obtain b c where f: "?f = (b, c)" by fastforce
  show ?case
  proof (cases "n \<notin> set chosen \<and> counts ! n > c")
    case True
    then show ?thesis using Suc f by (fastforce simp: ahead_def less_Suc_eq)
  next
    case False
    then show ?thesis using Suc f by (auto simp: ahead_def less_Suc_eq)
  qed
qed simp

definition chosen_ok :: "nat \<Rightarrow> nat list \<Rightarrow> nat list \<Rightarrow> bool" where
  "chosen_ok n counts chosen \<longleftrightarrow> distinct chosen \<and> (\<forall>k \<in> set chosen. k < n \<and> 0 < counts ! k) \<and> sorted_wrt (ahead counts) chosen \<and>
     (\<forall>i < n. i \<notin> set chosen \<longrightarrow> (\<forall>k \<in> set chosen. ahead counts k i))"

lemma choose_bands_ok:
  assumes "chosen_ok (length candidates) counts chosen" and "length chosen \<le> 4" and "4 < fuel + length chosen"
  shows "case choose_bands fuel candidates counts chosen of is \<Rightarrow> chosen_ok (length candidates) counts is \<and> length is \<le> 4 \<and>
     (length is = 4 \<or> (\<forall>i < length candidates. i \<notin> set is \<longrightarrow> counts ! i = 0))"
  using assms
proof (induction fuel candidates counts chosen rule: choose_bands.induct)
  case (1 candidates counts chosen)
  then show ?case by simp
next
  case (2 fuel candidates counts chosen)
  show ?case
  proof (cases "length chosen < ADVISOR_RESULT_BANDS")
    case False
    then show ?thesis using 2 by (simp add: ADVISOR_RESULT_BANDS_def)
  next
    case True
    obtain b c where bc: "best_band candidates counts chosen = (b, c)" by fastforce
    note f = best_band_first [where chosen = chosen and counts = counts and n = "length candidates" and m = "length candidates"]
    show ?thesis
    proof (cases "b = length candidates")
      case eq: True
      then have "\<forall>i < length candidates. i \<notin> set chosen \<longrightarrow> counts ! i = 0" using f bc by (simp add: best_band_def)
      then show ?thesis using 2(2,3) True eq bc by simp
    next
      case False
      then have b: "b < length candidates" "b \<notin> set chosen" "0 < counts ! b" "\<forall>i < length candidates. i \<notin> set chosen \<longrightarrow> i = b \<or> ahead counts b i"
        using f bc by (auto simp: best_band_def)
      have "chosen_ok (length candidates) counts (chosen @ [b])"
        using 2(2) b by (auto simp: chosen_ok_def sorted_wrt_append)
      then show ?thesis using 2(1) True bc False 2(3,4) by (simp add: ADVISOR_RESULT_BANDS_def)
    qed
  qed
qed

text \<open>
  C17: When the list of active receivers can be read, the answer is the candidates with the most receivers: two to four of them, each
  once and each with a receiver, ordered by their number (the earlier candidate first among equals); no band left out comes
  before one in the answer, and fewer than four means that no other band has a receiver.
\<close>

theorem monitor_ranking:
  assumes "ft8_monitor_parse_response candidates response = Some ranked"
  shows "\<exists>counts is. monitor_counts candidates response = Some counts \<and> ranked = map ((!) candidates) is \<and>
     2 \<le> length is \<and> length is \<le> 4 \<and> distinct is \<and> (\<forall>k \<in> set is. k < length candidates \<and> 0 < counts ! k) \<and> sorted_wrt (ahead counts) is \<and>
     (\<forall>i < length candidates. i \<notin> set is \<longrightarrow> (\<forall>k \<in> set is. ahead counts k i) \<and> (length is < 4 \<longrightarrow> counts ! i = 0))"
proof -
  obtain counts where c: "monitor_counts candidates response = Some counts"
    and r: "ranked = map ((!) candidates) (choose_bands 5 candidates counts [])" "2 \<le> length ranked"
    using assms by (auto simp: ft8_monitor_parse_response_def Let_def ADVISOR_RESULT_BANDS_def split: if_splits option.splits)
  have "chosen_ok (length candidates) counts []" by (simp add: chosen_ok_def)
  from choose_bands_ok [OF this, of 5] have o: "chosen_ok (length candidates) counts (choose_bands 5 candidates counts [])"
    "length (choose_bands 5 candidates counts []) \<le> 4"
    "length (choose_bands 5 candidates counts []) = 4 \<or> (\<forall>i < length candidates. i \<notin> set (choose_bands 5 candidates counts []) \<longrightarrow> counts ! i = 0)"
    by simp_all
  show ?thesis using c r o unfolding chosen_ok_def
    by (intro exI [of _ counts] exI [of _ "choose_bands 5 candidates counts []"]) auto
qed

text \<open>The answer of the database is a choice of the candidates too: two to four, no band twice.\<close>

lemma add_ranked_ok:
  assumes "distinct (map hop_database_band ranked)" and "set ranked \<subseteq> set candidates"
  shows "distinct (map hop_database_band (add_ranked candidates band ranked))" and "set (add_ranked candidates band ranked) \<subseteq> set candidates"
    and "length (add_ranked candidates band ranked) \<le> length ranked + 1"
  using assms by (auto simp: add_ranked_def list_ex_iff find_Some_iff split: option.split)

lemma advisor_rows_ok:
  assumes "advisor_rows candidates line ranked = Some result" and "distinct (map hop_database_band ranked)" and "set ranked \<subseteq> set candidates" and "length ranked \<le> 4"
  shows "distinct (map hop_database_band result) \<and> set result \<subseteq> set candidates \<and> length result \<le> 4"
  using assms
proof (induction candidates line ranked rule: advisor_rows.induct)
  case (1 candidates line ranked)
  show ?case
  proof (cases "line = [] \<or> length ranked \<ge> ADVISOR_RESULT_BANDS")
    case True
    then show ?thesis using 1(2-) by (auto simp: advisor_rows.simps [of candidates line ranked])
  next
    case False
    let ?row = "takeWhile (\<lambda>c. c \<noteq> CHR 0x0A) line" and ?rest = "dropWhile (\<lambda>c. c \<noteq> CHR 0x0A) line"
    obtain band stations spots where s: "\<not> (?row = [] \<or> length ?row \<ge> 128)" "scan_row ?row = Some (band, stations, spots)" "\<not> (stations = 0 \<or> spots = 0)"
      "advisor_rows candidates (drop 1 ?rest) (add_ranked candidates band ranked) = Some result"
      using 1(2) False by (simp add: advisor_rows.simps [of candidates line ranked] Let_def split: if_splits option.splits prod.splits)
    have "length (add_ranked candidates band ranked) \<le> 4" using add_ranked_ok(3) [OF 1(3,4), of band] False by (simp add: ADVISOR_RESULT_BANDS_def)
    from 1(1) [OF False refl refl s(1,2) refl refl s(3,4) add_ranked_ok(1,2) [OF 1(3,4)] this] show ?thesis .
  qed
qed

theorem advisor_answer_ok:
  "wspr_advisor_parse_response candidates response = Some ranked \<Longrightarrow>
     2 \<le> length ranked \<and> length ranked \<le> 4 \<and> distinct (map hop_database_band ranked) \<and> set ranked \<subseteq> set candidates"
  using advisor_rows_ok [of candidates response "[]"] by (auto simp: wspr_advisor_parse_response_def split: option.splits if_splits)

section \<open>The list of receivers as text\<close>

definition plain_text :: "string \<Rightarrow> bool" where
  "plain_text s \<longleftrightarrow> CHR 0x22 \<notin> set s \<and> CHR 0x5C \<notin> set s"

definition quoted :: "string \<Rightarrow> string" where
  "quoted s = CHR 0x22 # s @ [CHR 0x22]"

fun commas :: "string list \<Rightarrow> string" where
  "commas [] = []" | "commas [x] = x" | "commas (x # xs) = x @ CHR '','' # commas xs"

definition field_text :: "string \<times> string \<Rightarrow> string" where
  "field_text = (\<lambda>(key, value). quoted key @ CHR '':'' # quoted value)"

text \<open>An object with strings in it, and the answer of the service around a list of them.\<close>

definition object_text :: "(string \<times> string) list \<Rightarrow> string" where
  "object_text fs = CHR 0x7B # commas (map field_text fs) @ [CHR 0x7D]"

definition response_text :: "string \<Rightarrow> (string \<times> string) list list \<Rightarrow> string \<Rightarrow> string" where
  "response_text before rs behind = before @ active_receiver_key @ '':['' @ commas (map object_text rs) @ '']'' @ behind"

text \<open>A distance, counted from further ahead.\<close>

definition beyond :: "nat \<Rightarrow> nat option \<Rightarrow> nat option" where
  "beyond n x = map_option (\<lambda>m. n + m) x"

lemma beyond_simps [simp]:
  "map_option Suc (beyond n x) = beyond (Suc n) x" "beyond n (beyond m x) = beyond (n + m) x" "beyond 0 x = x" "beyond n (Some m) = Some (n + m)"
  by (cases x; simp add: beyond_def)+

lemma map_option_Suc: "map_option Suc x = beyond 1 x"
  by (cases x) (simp_all add: beyond_def)

text \<open>A text that a scan for brackets passes.\<close>

definition passed :: "char \<Rightarrow> char \<Rightarrow> string \<Rightarrow> bool" where
  "passed opening closing s \<longleftrightarrow> (\<forall>depth rest. 0 < depth \<longrightarrow>
     json_end opening closing depth False False (s @ rest) = beyond (length s) (json_end opening closing depth False False rest))"

lemma json_end_string:
  "plain_text s \<Longrightarrow> json_end opening closing depth True False (s @ CHR 0x22 # rest) =
     beyond (Suc (length s)) (json_end opening closing depth False False rest)"
proof (induction s)
  case Nil
  show ?case by (simp add: map_option_Suc)
next
  case (Cons c s)
  then show ?case by (auto simp: plain_text_def)
qed

lemma passed_append: "passed o1 c1 s \<Longrightarrow> passed o1 c1 t \<Longrightarrow> passed o1 c1 (s @ t)"
  unfolding passed_def by simp

lemma passed_char: "c \<noteq> CHR 0x22 \<Longrightarrow> c \<noteq> o1 \<Longrightarrow> c \<noteq> c1 \<Longrightarrow> passed o1 c1 [c]"
  unfolding passed_def by (simp add: map_option_Suc)

lemma passed_nil: "passed o1 c1 []"
  unfolding passed_def by simp

lemma passed_quoted: "plain_text s \<Longrightarrow> passed o1 c1 (quoted s)"
  unfolding passed_def quoted_def by (simp add: json_end_string)

lemma passed_commas:
  assumes "\<forall>x \<in> set xs. passed o1 c1 x" and "CHR '','' \<noteq> o1" and "CHR '','' \<noteq> c1"
  shows "passed o1 c1 (commas xs)"
  using assms(1)
proof (induction xs rule: commas.induct)
  case (3 x y ys)
  have "passed o1 c1 (x @ [CHR '',''] @ commas (y # ys))"
    by (intro passed_append passed_char) (use 3 assms(2,3) in simp_all)
  then show ?case by simp
qed (simp_all add: passed_nil)

lemma passed_field: "plain_text k \<Longrightarrow> plain_text v \<Longrightarrow> CHR '':'' \<noteq> o1 \<Longrightarrow> CHR '':'' \<noteq> c1 \<Longrightarrow> passed o1 c1 (field_text (k, v))"
proof -
  assume a: "plain_text k" "plain_text v" "CHR '':'' \<noteq> o1" "CHR '':'' \<noteq> c1"
  then have "passed o1 c1 (quoted k @ [CHR '':''] @ quoted v)" by (intro passed_append passed_quoted passed_char) simp_all
  then show ?thesis by (simp add: field_text_def)
qed

definition plain_object :: "(string \<times> string) list \<Rightarrow> bool" where
  "plain_object fs \<longleftrightarrow> (\<forall>(k, v) \<in> set fs. plain_text k \<and> plain_text v)"

lemma passed_fields: "plain_object fs \<Longrightarrow> CHR '':'' \<notin> {o1, c1} \<Longrightarrow> CHR '','' \<notin> {o1, c1} \<Longrightarrow> passed o1 c1 (commas (map field_text fs))"
  by (rule passed_commas) (auto simp: plain_object_def intro: passed_field)

lemma object_end: "plain_object fs \<Longrightarrow> json_object_end (commas (map field_text fs) @ CHR 0x7D # rest) = Some (length (commas (map field_text fs)))"
  using passed_fields [of fs "CHR 0x7B" "CHR 0x7D"] by (simp add: json_object_end_def passed_def)

lemma array_end:
  assumes "\<forall>fs \<in> set rs. plain_object fs"
  shows "json_array_end (commas (map object_text rs) @ CHR '']'' # rest) = Some (length (commas (map object_text rs)))"
proof -
  have "passed (CHR ''['') (CHR '']'') (object_text fs)" if "fs \<in> set rs" for fs
  proof -
    have "passed (CHR ''['') (CHR '']'') ([CHR 0x7B] @ commas (map field_text fs) @ [CHR 0x7D])"
      by (intro passed_append passed_char passed_fields) (use assms that in simp_all)
    then show ?thesis by (simp add: object_text_def)
  qed
  then have "passed (CHR ''['') (CHR '']'') (commas (map object_text rs))" by (intro passed_commas) auto
  then show ?thesis by (simp add: json_array_end_def passed_def)
qed

section \<open>Reading an object\<close>

lemma json_key_plain: "plain_text k \<Longrightarrow> json_key (k @ CHR 0x22 # rest) = (k, CHR 0x22 # rest)"
proof (induction k)
  case Nil
  show ?case by (cases rest) simp_all
next
  case (Cons c k)
  then show ?case by (cases k) (auto simp: plain_text_def)
qed

lemma quote_no_space: "\<not> c_isspace (CHR 0x22)" "\<not> c_isspace (CHR '':'')" "\<not> c_isspace (CHR '','')"
  by (simp_all add: ctype_defs)

lemma object_value_step:
  assumes "plain_text k" and "plain_text v"
  shows "json_object_value (quoted k @ CHR '':'' # quoted v) wanted = (if k = wanted then Some (quoted v) else None)"
    and "json_object_value (quoted k @ CHR '':'' # quoted v @ CHR '','' # rest) wanted =
      (if k = wanted then Some (quoted v @ CHR '','' # rest) else json_object_value rest wanted)"
  using assms by (simp_all add: quoted_def json_key_plain quote_no_space)

lemma object_value:
  assumes "plain_object fs"
  shows "case map_of fs wanted of
       None \<Rightarrow> json_object_value (commas (map field_text fs)) wanted = None
     | Some v \<Rightarrow> \<exists>rest. json_object_value (commas (map field_text fs)) wanted = Some (quoted v @ rest)"
  using assms
proof (induction fs)
  case (Cons f fs)
  obtain k v where f: "f = (k, v)" by fastforce
  have p: "plain_text k" "plain_text v" "plain_object fs" using Cons.prems by (simp_all add: plain_object_def f)
  show ?case
  proof (cases fs)
    case Nil
    then show ?thesis using object_value_step(1) [OF p(1,2), of wanted] by (auto simp: f field_text_def intro: exI [of _ "[]"])
  next
    case (Cons g gs)
    then have "commas (map field_text (f # fs)) = quoted k @ CHR '':'' # quoted v @ CHR '','' # commas (map field_text fs)"
      by (simp add: f field_text_def)
    then show ?thesis using object_value_step(2) [OF p(1,2), of "commas (map field_text fs)" wanted] Cons.IH p(3) by (auto simp: f split: option.splits)
  qed
qed simp

section \<open>Counting the receivers\<close>

text \<open>The names in a list of bands, as the loop over the fields sees them.\<close>

function names_of :: "string \<Rightarrow> string list" where
  "names_of field =
     (if field = [] then []
      else trim_field (takeWhile (\<lambda>c. c \<noteq> CHR '','') field) #
        (if dropWhile (\<lambda>c. c \<noteq> CHR '','') field = [] then [] else names_of (tl (dropWhile (\<lambda>c. c \<noteq> CHR '','') field))))"
  by auto
termination by (relation "measure length") (simp_all add: tl_dropWhile_shorter del: length_tl)

declare names_of.simps [simp del]

definition count_name :: "wspr_hop_plan \<Rightarrow> string \<Rightarrow> nat list \<Rightarrow> nat list" where
  "count_name candidates name counts = count_where (\<lambda>b. hop_name b = name) candidates counts"

lemma count_monitor_bands_eq: "count_monitor_bands candidates field counts = fold (count_name candidates) (names_of field) counts"
proof (induction candidates field counts rule: count_monitor_bands.induct)
  case (1 candidates field counts)
  show ?case
  proof (cases "field = []")
    case True
    then show ?thesis by (simp add: count_monitor_bands.simps [of _ "[]"] names_of.simps [of "[]"])
  next
    case False
    show ?thesis
    proof (cases "dropWhile (\<lambda>c. c \<noteq> CHR '','') field = []")
      case True
      then show ?thesis using False by (simp add: count_monitor_bands.simps [of _ field] names_of.simps [of field] Let_def count_name_def)
    next
      case rest: False
      show ?thesis using 1 [OF False refl refl refl rest] False rest
        by (auto simp: count_monitor_bands.simps [of _ field] names_of.simps [of field] Let_def count_name_def)
    qed
  qed
qed

lemma band_index_eq:
  "band_index matches k bands = (case find (\<lambda>i. matches (bands ! i)) [0..<length bands] of None \<Rightarrow> None | Some i \<Rightarrow> Some (k + i))"
proof (induction matches k bands rule: band_index.induct)
  case (2 matches k band bands)
  have u: "[0..<length (band # bands)] = 0 # map Suc [0..<length bands]" by (simp add: upt_conv_Cons map_Suc_upt del: upt_Suc)
  have m: "find P (map Suc xs) = map_option Suc (find (\<lambda>i. P (Suc i)) xs)" for P xs by (induction xs) auto
  show ?case using 2 unfolding u by (auto simp: m split: option.split)
qed simp

lemma count_name_nth:
  assumes "distinct (map hop_name candidates)" and "i < length candidates" and "length candidates \<le> length counts" and "counts ! i < ULONG_MAX"
  shows "count_name candidates name counts ! i = counts ! i + (if hop_name (candidates ! i) = name then 1 else 0)"
    and "length (count_name candidates name counts) = length counts"
proof -
  show "length (count_name candidates name counts) = length counts" by (simp add: count_name_def count_where_def bump_def split: option.split)
  show "count_name candidates name counts ! i = counts ! i + (if hop_name (candidates ! i) = name then 1 else 0)"
  proof (cases "find (\<lambda>k. hop_name (candidates ! k) = name) [0..<length candidates]")
    case None
    then have "hop_name (candidates ! i) \<noteq> name" using assms(2) by (auto simp: find_None_iff)
    then show ?thesis using None by (simp add: count_name_def count_where_def band_index_eq)
  next
    case (Some k)
    then have k: "k < length candidates" "hop_name (candidates ! k) = name" by (auto simp: find_Some_iff)
    have "k = i" if "hop_name (candidates ! i) = name"
      using that k assms(1,2) nth_eq_iff_index_eq [of "map hop_name candidates" k i] by simp
    then show ?thesis using Some k assms(2,3,4)
      by (auto simp: count_name_def count_where_def band_index_eq bump_def nth_list_update)
  qed
qed

lemma count_names:
  assumes "distinct (map hop_name candidates)" and "i < length candidates" and "length candidates \<le> length counts"
    and "counts ! i + length names < ULONG_MAX"
  shows "fold (count_name candidates) names counts ! i = counts ! i + count_list names (hop_name (candidates ! i)) \<and>
     length (fold (count_name candidates) names counts) = length counts"
  using assms(3,4)
proof (induction names arbitrary: counts)
  case (Cons name names)
  have c: "count_name candidates name counts ! i = counts ! i + (if hop_name (candidates ! i) = name then 1 else 0)"
    "length (count_name candidates name counts) = length counts"
    by (rule count_name_nth [OF assms(1,2) Cons.prems(1)]; use Cons.prems(2) in simp)+
  show ?case using Cons.IH [of "count_name candidates name counts"] Cons.prems c by simp
qed simp

text \<open>The names that a receiver lists.\<close>

definition listed :: "(string \<times> string) list \<Rightarrow> string list" where
  "listed fs = (case map_of fs ''bands'' of None \<Rightarrow> [] | Some v \<Rightarrow> names_of v)"

definition receiver_ok :: "(string \<times> string) list \<Rightarrow> bool" where
  "receiver_ok fs \<longleftrightarrow> plain_object fs \<and> (map_of fs ''bands'' \<noteq> None \<or> map_of fs ''frequency'' = None)"

lemma monitor_object:
  assumes "receiver_ok fs"
  shows "monitor_objects candidates (object_text fs @ rest) behind counts = monitor_objects candidates rest behind (fold (count_name candidates) (listed fs) counts)"
proof -
  let ?c = "commas (map field_text fs)"
  have p: "plain_object fs" using assms by (simp add: receiver_ok_def)
  have d: "dropWhile (\<lambda>c. c \<noteq> CHR 0x7B) (object_text fs @ rest) = CHR 0x7B # ?c @ CHR 0x7D # rest" by (simp add: object_text_def)
  note e = object_end [OF p, of rest]
  show ?thesis
  proof (cases "map_of fs ''bands''")
    case None
    then have n: "json_object_value ?c ''bands'' = None" "json_object_value ?c ''frequency'' = None"
      using object_value [OF p, of "''bands''"] object_value [OF p, of "''frequency''"] assms by (simp_all add: receiver_ok_def)
    show ?thesis by (subst monitor_objects.simps) (simp add: d e n Let_def None listed_def)
  next
    case (Some v)
    then obtain more where o: "json_object_value ?c ''bands'' = Some (quoted v @ more)" using object_value [OF p, of "''bands''"] by auto
    have v: "plain_text v" using map_of_SomeD [OF Some] p by (auto simp: plain_object_def)
    have "takeWhile (\<lambda>c. c \<noteq> CHR 0x22) (v @ CHR 0x22 # more) = v"
      by (subst takeWhile_append2) (use v in \<open>auto simp: plain_text_def\<close>)
    then have t: "takeWhile (\<lambda>c. c \<noteq> CHR 0x22) (tl (quoted v @ more)) = v" "CHR 0x5C \<notin> set v"
      using v by (simp_all add: quoted_def plain_text_def)
    show ?thesis by (subst monitor_objects.simps) (simp add: d e o Let_def t Some listed_def count_monitor_bands_eq, simp add: quoted_def)
  qed
qed

lemma monitor_comma: "c \<noteq> CHR 0x7B \<Longrightarrow> monitor_objects candidates (c # rest) behind counts = monitor_objects candidates rest behind counts"
  by (subst (1 2) monitor_objects.simps) simp

lemma monitor_list:
  assumes "\<forall>fs \<in> set rs. receiver_ok fs"
  shows "monitor_objects candidates (commas (map object_text rs)) behind counts = Some (fold (count_name candidates) (concat (map listed rs)) counts)"
  using assms
proof (induction "map object_text rs" arbitrary: rs counts rule: commas.induct)
  case 1
  then show ?case by (simp add: monitor_objects.simps)
next
  case (2 x)
  then obtain fs where "rs = [fs]" by (cases rs) auto
  then show ?case using 2 monitor_object [of fs candidates "[]" behind counts] by (simp add: monitor_objects.simps [of _ "[]"])
next
  case (3 x y ys)
  then obtain fs gs where rs: "rs = fs # gs" "y # ys = map object_text gs" by (cases rs) auto
  then have "commas (map object_text rs) = object_text fs @ CHR '','' # commas (map object_text gs)" by (metis commas.simps(3) list.simps(9))
  then show ?case using 3(1) [OF rs(2)] 3(3) rs by (simp add: monitor_object monitor_comma)
qed

lemma find_key:
  assumes "\<not> sublist active_receiver_key (before @ butlast active_receiver_key)"
  shows "c_strstr active_receiver_key (before @ active_receiver_key @ rest) = Some (active_receiver_key @ rest)"
  using assms
proof (induction before)
  case Nil
  then show ?case by (subst c_strstr.simps) simp
next
  case (Cons c before)
  have n: "\<not> prefix active_receiver_key (c # before @ active_receiver_key @ rest)"
  proof
    assume "prefix active_receiver_key (c # before @ active_receiver_key @ rest)"
    moreover have k: "active_receiver_key = butlast active_receiver_key @ [last active_receiver_key]" by (simp add: active_receiver_key_def)
    ultimately have "prefix active_receiver_key ((c # before @ butlast active_receiver_key) @ last active_receiver_key # rest)"
      by (metis append_Cons append_assoc append_Nil)
    moreover have "length active_receiver_key \<le> length (c # before @ butlast active_receiver_key)" by (simp add: active_receiver_key_def)
    ultimately have "prefix active_receiver_key (c # before @ butlast active_receiver_key)" by (meson prefix_length_prefix prefixI)
    then show False using Cons.prems by (metis append_Cons prefix_imp_sublist)
  qed
  have "\<not> sublist active_receiver_key (before @ butlast active_receiver_key)" using Cons.prems by (metis append_Cons sublist_Cons_right)
  then show ?case using Cons.IH n by (subst c_strstr.simps) simp
qed

lemma monitor_counts_eq:
  assumes "\<forall>fs \<in> set rs. receiver_ok fs" and "\<not> sublist active_receiver_key (before @ butlast active_receiver_key)"
  shows "monitor_counts candidates (response_text before rs behind) =
    Some (fold (count_name candidates) (concat (map listed rs)) (replicate WSPR_MAX_HOP_BANDS 0))"
proof -
  have a: "json_array_end (commas (map object_text rs) @ CHR '']'' # behind) = Some (length (commas (map object_text rs)))"
    by (rule array_end) (use assms(1) in \<open>simp add: receiver_ok_def\<close>)
  have b: "\<not> c_isspace (CHR ''['')" by (simp add: ctype_defs)
  show ?thesis unfolding response_text_def monitor_counts_def find_key [OF assms(2)]
    by (simp add: Let_def quote_no_space b a monitor_list [OF assms(1)])
qed


section \<open>Queries\<close>

text \<open>The services are a parameter: for a URL the pieces of the answer and whether the transfer itself went well; a transfer also
  fails when \<open>receive_response\<close> does not take a piece.\<close>

type_synonym service = "string \<Rightarrow> string list \<times> bool"

definition FT8_ADVISOR_ENDPOINT :: string where "FT8_ADVISOR_ENDPOINT = ''https://pskreporter.info/cgi-bin/psk-freq.pl''"
definition FT8_MONITOR_ENDPOINT :: string where "FT8_MONITOR_ENDPOINT = ''https://pskreporter.info/cgi-bin/pskquery5.pl''"
definition ADVISOR_RESPONSE_CAPACITY :: nat where "ADVISOR_RESPONSE_CAPACITY = 2048"
definition FT8_MONITOR_RESPONSE_CAPACITY :: nat where "FT8_MONITOR_RESPONSE_CAPACITY = 8 * 1024 * 1024"

fun frequency_list :: "nat \<Rightarrow> wspr_hop_plan \<Rightarrow> string \<Rightarrow> string option" where
  "frequency_list room [] written = Some written"
| "frequency_list room (b # bs) written =
     (let piece = (if written = [] then [] else '','') @ dec_digits (unat (hop_frequency_hz b))
      in if length piece \<ge> room - length written then None else frequency_list room bs (written @ piece))"

definition ft8_advisor_format_url :: "nat \<Rightarrow> string \<Rightarrow> wspr_hop_plan \<Rightarrow> string option" where
  "ft8_advisor_format_url capacity grid candidates =
     (if capacity = 0 \<or> length candidates < 2 \<or> length grid < 2 then None
      else
        let a = c_toupper (grid ! 0); b = c_toupper (grid ! 1)
        in if \<not> in_span 65 82 a \<or> \<not> in_span 65 82 b then None
           else case frequency_list 192 candidates [] of None \<Rightarrow> None
             | Some frequencies \<Rightarrow>
                 let url = FT8_ADVISOR_ENDPOINT @ ''?grid='' @ [a, b] @ ''&freq='' @ frequencies
                 in if length url < capacity then Some url else None)"

definition ft8_monitor_format_url :: "nat \<Rightarrow> string option" where
  "ft8_monitor_format_url capacity =
     (let url = FT8_MONITOR_ENDPOINT @ ''?callback=doNothing&statistics=1&noactive=1&nolocator=1&flowStartSeconds=-86400&callsign=ZZZZZ''
      in if capacity = 0 then None else if length url < capacity then Some url else None)"

definition perform :: "service \<Rightarrow> string \<Rightarrow> nat \<Rightarrow> string option" where
  "perform service url capacity =
     (case fold (\<lambda>piece (response, ok). if ok then case receive_response piece 1 (length piece) response of (response, n) \<Rightarrow> (response, n = length piece)
                                        else (response, ok))
             (fst (service url)) (\<lparr>response_data = [], response_capacity = capacity\<rparr>, snd (service url))
      of (response, ok) \<Rightarrow> if ok then Some (cstr (response_data response @ [CHR 0x00])) else None)"

definition query_ft8_band_advice :: "service \<Rightarrow> string \<Rightarrow> wspr_hop_plan \<Rightarrow> wspr_hop_plan option" where
  "query_ft8_band_advice service grid candidates =
     (case ft8_advisor_format_url 512 grid candidates of None \<Rightarrow> None
      | Some url \<Rightarrow> (case perform service url ADVISOR_RESPONSE_CAPACITY of None \<Rightarrow> None
          | Some response \<Rightarrow> ft8_advisor_parse_response candidates response))"

definition query_ft8_monitor_advice :: "service \<Rightarrow> wspr_hop_plan \<Rightarrow> wspr_hop_plan option" where
  "query_ft8_monitor_advice service candidates =
     (case ft8_monitor_format_url 512 of None \<Rightarrow> None
      | Some url \<Rightarrow> (case perform service url FT8_MONITOR_RESPONSE_CAPACITY of None \<Rightarrow> None
          | Some response \<Rightarrow> ft8_monitor_parse_response candidates response))"

text \<open>For FT8 the service with the active receivers is asked first, then the one with the advice for the region.\<close>

definition ft8_advice :: "service \<Rightarrow> string \<Rightarrow> wspr_hop_plan \<Rightarrow> wspr_hop_plan option" where
  "ft8_advice service grid candidates =
     (case query_ft8_monitor_advice service candidates of Some ranked \<Rightarrow> Some ranked
      | None \<Rightarrow> query_ft8_band_advice service grid candidates)"

text \<open>The text received stays below the capacity, so its end is always in the buffer.\<close>

lemma perform_fits: "0 < capacity \<Longrightarrow> perform service url capacity = Some response \<Longrightarrow> length response < capacity"
proof -
  assume c: "0 < capacity" and p: "perform service url capacity = Some response"
  let ?f = "\<lambda>piece (response, ok). if ok then case receive_response piece 1 (length piece) response of (response, n) \<Rightarrow> (response, n = length piece)
                                        else (response, ok)"
  have f: "length (response_data (fst (fold ?f ps (r, ok)))) < capacity"
    if "response_capacity r = capacity" "length (response_data r) < capacity" for ps r ok
    using that
  proof (induction ps arbitrary: r ok)
    case (Cons q qs)
    show ?case
    proof (cases ok)
      case True
      obtain r' n where e: "receive_response q 1 (length q) r = (r', n)" by (cases "receive_response q 1 (length q) r")
      from e Cons.prems have "response_capacity r' = capacity \<and> length (response_data r') < capacity"
        by (auto simp: receive_response_def Let_def split: if_splits)
      with Cons.IH [of r' "n = length q"] True e show ?thesis by simp
    qed (use Cons.IH [OF Cons.prems] in simp)
  qed simp
  have l: "length (cstr (s @ [CHR 0x00])) \<le> length s" for s
    by (induction s) (auto simp: cstr_def)
  obtain r ok where e: "fold ?f (fst (service url)) (\<lparr>response_data = [], response_capacity = capacity\<rparr>, snd (service url)) = (r, ok)"
    by (cases "fold ?f (fst (service url)) (\<lparr>response_data = [], response_capacity = capacity\<rparr>, snd (service url))")
  have "length (response_data r) < capacity"
    using f [of "\<lparr>response_data = [], response_capacity = capacity\<rparr>" "fst (service url)" "snd (service url)"] c e by simp
  moreover have "response = cstr (response_data r @ [CHR 0x00])" using p e by (simp add: perform_def split: if_splits)
  ultimately show ?thesis using l [of "response_data r"] by simp
qed

section \<open>The thread\<close>

text \<open>What the thread and the rest of the program share under the mutex; the time of the next query is the thread's own.\<close>

record band_advisor =
  pending :: wspr_hop_plan
  adv_started :: bool
  adv_stopping :: bool
  update_ready :: bool
  next_query :: int

definition ADVISOR_INTERVAL_SECONDS :: int where "ADVISOR_INTERVAL_SECONDS = 3600"

definition first_query :: "bool \<Rightarrow> int \<Rightarrow> int" where
  "first_query use_psk_reporter now = (if use_psk_reporter then now else now + ((90 - now mod 120 + 120) mod 120))"

text \<open>One round of the thread after its wait: the answer of the services and the time then.\<close>

definition advisor_round :: "wspr_hop_plan option \<Rightarrow> int \<Rightarrow> band_advisor \<Rightarrow> band_advisor" where
  "advisor_round answer now adv =
     (let adv = (case answer of None \<Rightarrow> adv | Some ranked \<Rightarrow> adv\<lparr>pending := ranked, update_ready := True\<rparr>);
          adv = adv\<lparr>next_query := next_query adv + ADVISOR_INTERVAL_SECONDS\<rparr>
      in if next_query adv \<le> now then adv\<lparr>next_query := now + ADVISOR_INTERVAL_SECONDS\<rparr> else adv)"

definition wspr_band_advisor_take :: "band_advisor \<Rightarrow> band_advisor \<times> wspr_hop_plan option" where
  "wspr_band_advisor_take adv =
     (if \<not> adv_started adv \<or> \<not> update_ready adv then (adv, None) else (adv\<lparr>update_ready := False\<rparr>, Some (pending adv)))"

text \<open>Queries are at least an hour apart: the next one is never set earlier than an hour after the one it follows.\<close>

lemma advisor_round_hour: "next_query adv \<le> now \<Longrightarrow> next_query (advisor_round answer now adv) \<ge> next_query adv + 3600 \<and> next_query (advisor_round answer now adv) > now"
  by (cases answer) (auto simp: advisor_round_def Let_def ADVISOR_INTERVAL_SECONDS_def)

lemma first_query_phase: "0 \<le> now \<Longrightarrow> first_query False now mod 120 = 90 \<and> now \<le> first_query False now \<and> first_query False now < now + 120"
proof -
  assume "0 \<le> now"
  have "(now + (90 - now mod 120 + 120) mod 120) mod 120 = (now mod 120 + (90 - now mod 120 + 120)) mod 120" by (simp add: mod_simps)
  also have "\<dots> = 90" by simp
  finally show ?thesis by (simp add: first_query_def)
qed

section \<open>Examples\<close>

definition demo_candidates :: wspr_hop_plan where
  "demo_candidates = [\<lparr>hop_name = ''40m'', hop_frequency_hz = 7074000, hop_database_band = 7\<rparr>, \<lparr>hop_name = ''20m'', hop_frequency_hz = 14074000, hop_database_band = 14\<rparr>,
     \<lparr>hop_name = ''10m'', hop_frequency_hz = 28074000, hop_database_band = 28\<rparr>]"

definition demo_receivers :: "(string \<times> string) list list" where
  "demo_receivers = [[(''callsign'', ''VU3CER''), (''bands'', ''20m,40m'')], [(''bands'', '' 20m'')], [(''note'', ''no {bands}: []'')]]"


theorem monitor_ranking_witness:
  "\<exists>ranked. ft8_monitor_parse_response demo_candidates (response_text [] demo_receivers []) = Some ranked \<and> 2 \<le> length ranked \<and> length ranked \<le> 4"
proof -
  have k: "\<not> sublist active_receiver_key ([] @ butlast active_receiver_key)"
    using sublist_length_le [of active_receiver_key "butlast active_receiver_key"] by (auto simp: active_receiver_key_def)
  have a: "\<forall>fs \<in> set demo_receivers. receiver_ok fs" by code_simp
  have l: "concat (map listed demo_receivers) = [''20m'', ''40m'', ''20m'']" by code_simp
  have f: "fold (count_name demo_candidates) [''20m'', ''40m'', ''20m''] (replicate WSPR_MAX_HOP_BANDS 0) = [1, 2] @ replicate 14 0"
  proof -
    have "replicate WSPR_MAX_HOP_BANDS 0 = 0 # 0 # replicate 14 (0 :: nat)" by (simp add: WSPR_MAX_HOP_BANDS_def numeral_eq_Suc)
    then show ?thesis by (simp add: count_name_def count_where_def bump_def demo_candidates_def)
  qed
  have c: "choose_bands (ADVISOR_RESULT_BANDS + 1) demo_candidates ([1, 2] @ replicate 14 0) [] = [1, 0]" by code_simp
  have n: "\<not> length demo_candidates > WSPR_MAX_HOP_BANDS" by code_simp
  have m: "monitor_counts demo_candidates (response_text [] demo_receivers []) = Some ([1, 2] @ replicate 14 0)"
    unfolding monitor_counts_eq [OF a k] l f ..
  obtain ranked where r: "ft8_monitor_parse_response demo_candidates (response_text [] demo_receivers []) = Some ranked"
    unfolding ft8_monitor_parse_response_def m option.case c using n by simp
  from monitor_ranking [OF r] show ?thesis using r by (intro exI [of _ ranked]) auto
qed

end
