(* ===== verification/WsprDetect.thy ===== *)
theory WsprDetect
  imports Complex_Main Dsp WsprLink
begin

text \<open>
  The demodulators of \<open>core/wsprd.c\<close>: \<open>sync_and_demodulate\<close> and \<open>noncoherent_sequence_detection\<close>. The operations on
  \<open>float\<close> and \<open>double\<close> are arguments, applied in the order of the code; with exact arithmetic a received WSPR signal gives
  soft symbols that the decoder turns back into the message.
\<close>

section \<open>Arithmetic\<close>

text \<open>Besides the operations of the filters: more on \<open>float\<close>, the constant \<open>pi\<close>, and the conversion to an integer.\<close>

record ('f, 'd) wspr_ops = "('f, 'd) dsp_ops" +
  f_add :: "'f \<Rightarrow> 'f \<Rightarrow> 'f"
  f_sub :: "'f \<Rightarrow> 'f \<Rightarrow> 'f"
  f_div :: "'f \<Rightarrow> 'f \<Rightarrow> 'f"
  f_less :: "'f \<Rightarrow> 'f \<Rightarrow> bool"
  f_equal :: "'f \<Rightarrow> 'f \<Rightarrow> bool"
  f_int :: "'f \<Rightarrow> int"
  f_pi :: 'f

abbreviation f_of :: "('f, 'd) wspr_ops \<Rightarrow> int \<Rightarrow> 'f" where "f_of ops n \<equiv> f_frac ops n 1"
abbreviation d_of :: "('f, 'd) wspr_ops \<Rightarrow> int \<Rightarrow> 'd" where "d_of ops n \<equiv> d_frac ops n 1"

definition f_sqrt :: "('f, 'd) wspr_ops \<Rightarrow> 'f \<Rightarrow> 'f" where "f_sqrt ops x = f_of_d ops (d_sqrt ops (d_of_f ops x))"
definition f_cos :: "('f, 'd) wspr_ops \<Rightarrow> 'f \<Rightarrow> 'f" where "f_cos ops x = f_of_d ops (d_cos ops (d_of_f ops x))"
definition f_sin :: "('f, 'd) wspr_ops \<Rightarrow> 'f \<Rightarrow> 'f" where "f_sin ops x = f_of_d ops (d_sin ops (d_of_f ops x))"

section \<open>Tones\<close>

definition wspr_dt :: "('f, 'd) wspr_ops \<Rightarrow> 'f" where "wspr_dt ops = f_of_d ops (d_div ops (d_of ops 1) (d_of ops 375))"
definition wspr_df :: "('f, 'd) wspr_ops \<Rightarrow> 'f" where "wspr_df ops = f_of_d ops (d_div ops (d_of ops 375) (d_of ops 256))"
definition twopidt :: "('f, 'd) wspr_ops \<Rightarrow> 'f" where "twopidt ops = f_times ops (f_times ops (f_of ops 2) (f_pi ops)) (wspr_dt ops)"
definition df15 :: "('f, 'd) wspr_ops \<Rightarrow> 'f" where "df15 ops = f_of_d ops (d_mul ops (d_of_f ops (wspr_df ops)) (d_frac ops 15 10))"
definition df05 :: "('f, 'd) wspr_ops \<Rightarrow> 'f" where "df05 ops = f_of_d ops (d_mul ops (d_of_f ops (wspr_df ops)) (d_frac ops 5 10))"

text \<open>The frequency during symbol \<open>i\<close> of a signal that drifts.\<close>

definition symbol_freq :: "('f, 'd) wspr_ops \<Rightarrow> 'f \<Rightarrow> 'f \<Rightarrow> nat \<Rightarrow> 'f" where
  "symbol_freq ops f0 drift i =
     f_of_d ops (d_add ops (d_of_f ops f0)
       (d_div ops (d_mul ops (d_div ops (d_of_f ops drift) (d_of ops 2)) (d_sub ops (d_of_f ops (f_of ops (int i))) (d_of ops 81))) (d_of ops 81)))"

text \<open>The arrays \<open>c\<close> and \<open>s\<close> of a tone.\<close>

fun phasors :: "('f, 'd) wspr_ops \<Rightarrow> 'f \<Rightarrow> 'f \<Rightarrow> nat \<Rightarrow> 'f \<times> 'f \<Rightarrow> ('f \<times> 'f) list" where
  "phasors ops cd sd 0 cs = []"
| "phasors ops cd sd (Suc n) (c, s) =
     (c, s) # phasors ops cd sd n (f_sub ops (f_times ops c cd) (f_times ops s sd), f_add ops (f_times ops c sd) (f_times ops s cd))"

definition tone_angle :: "('f, 'd) wspr_ops \<Rightarrow> 'f \<Rightarrow> nat \<Rightarrow> 'f" where
  "tone_angle ops fp itone = f_times ops (twopidt ops)
     (if itone = 0 then f_sub ops fp (df15 ops) else if itone = 1 then f_sub ops fp (df05 ops)
      else if itone = 2 then f_add ops fp (df05 ops) else f_add ops fp (df15 ops))"

definition tone_arrays :: "('f, 'd) wspr_ops \<Rightarrow> nat \<Rightarrow> 'f \<Rightarrow> ('f \<times> 'f) list list" where
  "tone_arrays ops n fp = map (\<lambda>itone. phasors ops (f_cos ops (tone_angle ops fp itone)) (f_sin ops (tone_angle ops fp itone)) n (f_of ops 1, f_of ops 0)) [0..<4]"

text \<open>They are only computed again when the frequency changed: the last frequency and the arrays for it.\<close>

definition arrays_for :: "('f, 'd) wspr_ops \<Rightarrow> nat \<Rightarrow> nat \<Rightarrow> 'f \<Rightarrow> 'f \<times> ('f \<times> 'f) list list \<Rightarrow> 'f \<times> ('f \<times> 'f) list list" where
  "arrays_for ops n i fp cache = (if i = 0 \<or> \<not> f_equal ops fp (fst cache) then (fp, tone_arrays ops n fp) else cache)"

text \<open>Correlation of the 256 samples of a symbol with a tone; samples outside the data are left out, and so is the first one.\<close>

definition correlate :: "('f, 'd) wspr_ops \<Rightarrow> 'f list \<Rightarrow> 'f list \<Rightarrow> int \<Rightarrow> int \<Rightarrow> ('f \<times> 'f) list \<Rightarrow> 'f \<times> 'f" where
  "correlate ops idat qdat npts start cs =
     fold (\<lambda>j (x, y).
         let k = start + int j; (c, s) = cs ! j
         in if k > 0 \<and> k < npts
            then (f_add ops (f_add ops x (f_times ops (idat ! nat k) c)) (f_times ops (qdat ! nat k) s),
                  f_add ops (f_sub ops y (f_times ops (idat ! nat k) s)) (f_times ops (qdat ! nat k) c))
            else (x, y))
       [0..<256] (f_of ops 0, f_of ops 0)"

definition magnitude :: "('f, 'd) wspr_ops \<Rightarrow> 'f \<times> 'f \<Rightarrow> 'f" where
  "magnitude ops = (\<lambda>(x, y). f_sqrt ops (f_add ops (f_times ops x x) (f_times ops y y)))"

section \<open>Soft symbols\<close>

text \<open>The symbols are scaled by their standard deviation, clipped, and shifted to bytes.\<close>

definition soft_byte :: "('f, 'd) wspr_ops \<Rightarrow> int \<Rightarrow> 'f \<Rightarrow> 'f \<Rightarrow> u8" where
  "soft_byte ops symfac fac x =
     (let x = f_div ops (f_times ops (f_of ops symfac) x) fac;
          x = (if f_less ops (f_of ops 127) x then f_of ops 127 else x);
          x = (if f_less ops x (f_of ops (- 128)) then f_of ops (- 128) else x)
      in word_of_int (f_int ops (f_add ops x (f_of ops 128))))"

definition soft_symbols :: "('f, 'd) wspr_ops \<Rightarrow> int \<Rightarrow> 'f list \<Rightarrow> u8 list" where
  "soft_symbols ops symfac fsymb =
     (let (fsum, f2sum) = fold (\<lambda>x (fsum, f2sum).
              (f_of_d ops (d_add ops (d_of_f ops fsum) (d_div ops (d_of_f ops x) (d_of ops 162))),
               f_of_d ops (d_add ops (d_of_f ops f2sum) (d_div ops (d_of_f ops (f_times ops x x)) (d_of ops 162)))))
            fsymb (f_of ops 0, f_of ops 0);
          fac = f_sqrt ops (f_sub ops f2sum (f_times ops fsum fsum))
      in map (soft_byte ops symfac fac) fsymb)"

section \<open>Synchronisation\<close>

text \<open>The four magnitudes of symbol \<open>i\<close>, for a start at \<open>lag\<close>, and the arrays kept.\<close>

fun symbol_powers :: "('f, 'd) wspr_ops \<Rightarrow> 'f list \<Rightarrow> 'f list \<Rightarrow> int \<Rightarrow> 'f \<Rightarrow> 'f \<Rightarrow> int \<Rightarrow> nat list \<Rightarrow> 'f \<times> ('f \<times> 'f) list list \<Rightarrow> 'f list list \<times> ('f \<times> ('f \<times> 'f) list list)" where
  "symbol_powers ops idat qdat npts f0 drift lag [] cache = ([], cache)"
| "symbol_powers ops idat qdat npts f0 drift lag (i # is) cache =
     (let cache = arrays_for ops 256 i (symbol_freq ops f0 drift i) cache;
          p = map (\<lambda>cs. magnitude ops (correlate ops idat qdat npts (lag + int i * 256) cs)) (snd cache);
          (ps, cache) = symbol_powers ops idat qdat npts f0 drift lag is cache
      in (p # ps, cache))"

text \<open>The measure of synchronisation: how much stronger the tones are that fit the sync vector.\<close>

definition sync_measure :: "('f, 'd) wspr_ops \<Rightarrow> 'f list list \<Rightarrow> 'f" where
  "sync_measure ops ps =
     (let (ss, totp) = fold (\<lambda>(p, r) (ss, totp).
              let cmet = f_sub ops (f_add ops (p ! 1) (p ! 3)) (f_add ops (p ! 0) (p ! 2))
              in (if r = 1 then f_add ops ss cmet else f_sub ops ss cmet,
                  f_add ops (f_add ops (f_add ops (f_add ops totp (p ! 0)) (p ! 1)) (p ! 2)) (p ! 3)))
            (zip ps pr3) (f_of ops 0, f_of ops 0)
      in f_div ops ss totp)"

definition sync_soft :: "('f, 'd) wspr_ops \<Rightarrow> 'f list list \<Rightarrow> 'f list" where
  "sync_soft ops ps = map (\<lambda>(p, r). if r = 1 then f_sub ops (p ! 3) (p ! 1) else f_sub ops (p ! 2) (p ! 0)) (zip ps pr3)"

definition lag_list :: "int \<Rightarrow> int \<Rightarrow> int \<Rightarrow> int list" where
  "lag_list lagmin lagmax lagstep = map (\<lambda>n. lagmin + int n * lagstep) [0..<nat ((lagmax - lagmin) div lagstep + 1)]"

text \<open>Every pair of frequency and lag is tried; the best is kept: its measure, lag and frequency, the magnitudes of the last one
  tried, and the arrays. Of these only the frequency lives longer than a call, but the first symbol always computes them again.\<close>

definition try_all ::
  "('f, 'd) wspr_ops \<Rightarrow> 'f list \<Rightarrow> 'f list \<Rightarrow> int \<Rightarrow> 'f \<Rightarrow> 'f \<Rightarrow> 'f \<Rightarrow> (int \<times> int) list \<Rightarrow>
     ('f \<times> int \<times> 'f) \<times> 'f list list \<times> ('f \<times> ('f \<times> 'f) list list) \<Rightarrow> ('f \<times> int \<times> 'f) \<times> 'f list list \<times> ('f \<times> ('f \<times> 'f) list list)" where
  "try_all ops idat qdat npts f1 fstep drift =
     fold (\<lambda>(ifreq, lag) ((syncmax, best_shift, fbest), ps, cache).
       let f0 = f_add ops f1 (f_times ops (f_of ops ifreq) fstep);
           (ps, cache) = symbol_powers ops idat qdat npts f0 drift lag [0..<162] cache;
           ss = sync_measure ops ps
       in if f_less ops syncmax ss then ((ss, lag, f0), ps, cache) else ((syncmax, best_shift, fbest), ps, cache))"

definition sync_and_demodulate ::
  "('f, 'd) wspr_ops \<Rightarrow> 'f list \<Rightarrow> 'f list \<Rightarrow> int \<Rightarrow> u8 list \<Rightarrow> 'f \<Rightarrow> int \<Rightarrow> int \<Rightarrow> 'f \<Rightarrow> int \<Rightarrow> int \<Rightarrow> int \<Rightarrow> int \<Rightarrow> 'f \<Rightarrow> int \<Rightarrow> int \<Rightarrow>
     'f \<times> ('f \<times> 'f) list list \<Rightarrow> u8 list \<times> 'f \<times> int \<times> 'f" where
  "sync_and_demodulate ops idat qdat npts symbols f1 ifmin ifmax fstep shift1 lagmin lagmax lagstep drift1 symfac mode cache =
     (let (ifmin, ifmax) = (if mode = 0 \<or> mode = 2 then (0, 0) else (ifmin, ifmax));
          fstep = (if mode = 0 then f_of ops 0 else fstep);
          (lagmin, lagmax) = (if mode = 1 \<or> mode = 2 then (shift1, shift1) else (lagmin, lagmax));
          ((syncmax, best_shift, fbest), ps, cache) =
            try_all ops idat qdat npts f1 fstep drift1 (List.product [ifmin..ifmax] (lag_list lagmin lagmax lagstep))
              ((f_frac ops (- (10 ^ 30)) 1, 0, f_of ops 0), [], cache)
      in if mode \<le> 1 then (symbols, fbest, best_shift, syncmax)
         else if mode = 2 then (soft_symbols ops symfac (sync_soft ops ps) @ drop 162 symbols, f1, shift1, syncmax)
         else (symbols, f1, shift1, syncmax))"

section \<open>Noncoherent detection\<close>

text \<open>For each symbol the correlations with the four tones, and the turn of each tone over a symbol.\<close>

fun symbol_sums :: "('f, 'd) wspr_ops \<Rightarrow> 'f list \<Rightarrow> 'f list \<Rightarrow> int \<Rightarrow> 'f \<Rightarrow> 'f \<Rightarrow> int \<Rightarrow> nat list \<Rightarrow> 'f \<times> ('f \<times> 'f) list list \<Rightarrow> (('f \<times> 'f) \<times> ('f \<times> 'f)) list list" where
  "symbol_sums ops idat qdat npts f0 drift lag [] cache = []"
| "symbol_sums ops idat qdat npts f0 drift lag (i # is) cache =
     (let cache = arrays_for ops 257 i (symbol_freq ops f0 drift i) cache
      in map (\<lambda>cs. (correlate ops idat qdat npts (lag + int i * 256) cs, cs ! 256)) (snd cache)
         # symbol_sums ops idat qdat npts f0 drift lag is cache)"

text \<open>One sequence \<open>j\<close> of data bits for the block at \<open>i\<close>: its magnitude. \<open>b\<close> is bit \<open>nblock - 1 - ib\<close> of \<open>j\<close>.\<close>

definition sequence_power :: "('f, 'd) wspr_ops \<Rightarrow> (('f \<times> 'f) \<times> ('f \<times> 'f)) list list \<Rightarrow> nat \<Rightarrow> nat \<Rightarrow> nat \<Rightarrow> 'f" where
  "sequence_power ops corrs nblock i j =
     (let (x, _) = fold (\<lambda>ib ((xi, xq), (cm, sm)).
              let b = j div 2 ^ (nblock - 1 - ib) mod 2;
                  ((is, qs), (cf, sf)) = corrs ! (i + ib) ! (unat (pr3 ! (i + ib)) + 2 * b)
              in ((f_add ops (f_add ops xi (f_times ops is cm)) (f_times ops qs sm),
                   f_sub ops (f_add ops xq (f_times ops qs cm)) (f_times ops is sm)),
                  (f_sub ops (f_times ops cf cm) (f_times ops sf sm), f_add ops (f_times ops sf cm) (f_times ops cf sm))))
            [0..<nblock] ((f_of ops 0, f_of ops 0), (f_of ops 1, f_of ops 0))
      in magnitude ops x)"

definition f_max_of :: "('f, 'd) wspr_ops \<Rightarrow> 'f list \<Rightarrow> 'f" where
  "f_max_of ops xs = fold (\<lambda>x m. if f_less ops m x then x else m) xs (f_of ops 0)"

definition block_soft :: "('f, 'd) wspr_ops \<Rightarrow> (('f \<times> 'f) \<times> ('f \<times> 'f)) list list \<Rightarrow> nat \<Rightarrow> int \<Rightarrow> nat \<Rightarrow> 'f list" where
  "block_soft ops corrs nblock bitbybit i =
     (let p = map (sequence_power ops corrs nblock i) [0..<2 ^ nblock]
      in map (\<lambda>ib.
           let set_bit = (\<lambda>j. j div 2 ^ (nblock - 1 - ib) mod 2 = 1);
               xm1 = f_max_of ops (map ((!) p) (filter set_bit [0..<2 ^ nblock]));
               xm0 = f_max_of ops (map ((!) p) (filter (\<lambda>j. \<not> set_bit j) [0..<2 ^ nblock]));
               x = f_sub ops xm1 xm0
           in if bitbybit = 1 then f_div ops x (if f_less ops xm0 xm1 then xm1 else xm0) else x) [0..<nblock])"

definition noncoherent_sequence_detection ::
  "('f, 'd) wspr_ops \<Rightarrow> 'f list \<Rightarrow> 'f list \<Rightarrow> int \<Rightarrow> u8 list \<Rightarrow> 'f \<Rightarrow> int \<Rightarrow> 'f \<Rightarrow> int \<Rightarrow> nat \<Rightarrow> int \<Rightarrow> 'f \<times> ('f \<times> 'f) list list \<Rightarrow> u8 list" where
  "noncoherent_sequence_detection ops idat qdat npts symbols f1 shift1 drift1 symfac nblocksize bitmetric cache =
     (let corrs = symbol_sums ops idat qdat npts f1 drift1 shift1 [0..<162] cache;
          fsymb = concat (map (\<lambda>n. block_soft ops corrs nblocksize bitmetric (n * nblocksize)) [0..<162 div nblocksize])
      in soft_symbols ops symfac fsymb @ drop 162 symbols)"


section \<open>Exact arithmetic\<close>

text \<open>The operations on real numbers, with \<open>pi\<close> itself for the constant: what the code approximates.\<close>

definition exact_ops :: "(real, real) wspr_ops" where
  "exact_ops = \<lparr>d_of_f = (\<lambda>x. x), f_of_d = (\<lambda>x. x), f_frac = (\<lambda>a b. real_of_int a / real_of_int b), f_times = (*),
     d_frac = (\<lambda>a b. real_of_int a / real_of_int b), d_add = (+), d_sub = (-), d_mul = (*), d_div = (/), d_less = (<), d_equal = (=),
     d_fmax = max, d_sqrt = sqrt, d_hypot = (\<lambda>x y. sqrt (x\<^sup>2 + y\<^sup>2)), d_sin = sin, d_cos = cos,
     f_add = (+), f_sub = (-), f_div = (/), f_less = (<), f_equal = (=), f_int = (\<lambda>x. if 0 \<le> x then \<lfloor>x\<rfloor> else \<lceil>x\<rceil>), f_pi = pi\<rparr>"

lemma exact_simps [simp]:
  "d_of_f exact_ops x = x" "f_of_d exact_ops x = x" "f_frac exact_ops a b = real_of_int a / real_of_int b" "f_times exact_ops x y = x * y"
  "d_frac exact_ops a b = real_of_int a / real_of_int b" "d_add exact_ops x y = x + y" "d_sub exact_ops x y = x - y" "d_mul exact_ops x y = x * y"
  "d_div exact_ops x y = x / y" "d_sqrt exact_ops x = sqrt x" "d_sin exact_ops x = sin x" "d_cos exact_ops x = cos x"
  "f_add exact_ops x y = x + y" "f_sub exact_ops x y = x - y" "f_div exact_ops x y = x / y" "f_less exact_ops x y \<longleftrightarrow> x < y"
  "f_equal exact_ops x y \<longleftrightarrow> x = y" "f_pi exact_ops = pi"
  by (simp_all add: exact_ops_def)

lemma exact_int: "0 \<le> x \<Longrightarrow> f_int exact_ops x = \<lfloor>x\<rfloor>"
  by (simp add: exact_ops_def)

lemma exact_funs [simp]: "f_sqrt exact_ops x = sqrt x" "f_cos exact_ops x = cos x" "f_sin exact_ops x = sin x"
  by (simp_all add: f_sqrt_def f_cos_def f_sin_def)

lemma symbol_freq_exact: "symbol_freq exact_ops f0 drift i = f0 + drift / 2 * (real i - 81) / 81"
  by (simp add: symbol_freq_def)

text \<open>The angle between two samples of a tone: neighbouring tones differ by a 256th of a turn.\<close>

lemma tone_angle_exact:
  assumes "itone < 4"
  shows "tone_angle exact_ops fp itone = 2 * pi / 375 * fp + 2 * pi * (real itone - 1.5) / 256"
proof -
  have "itone = 0 \<or> itone = 1 \<or> itone = 2 \<or> itone = 3" using assms by linarith
  then show ?thesis by (elim disjE) (simp_all add: tone_angle_def twopidt_def wspr_dt_def wspr_df_def df15_def df05_def field_simps)
qed

lemma phasors_exact:
  "phasors exact_ops (cos a) (sin a) n (cos (real k * a), sin (real k * a)) = map (\<lambda>j. (cos (real (k + j) * a), sin (real (k + j) * a))) [0..<n]"
proof (induction n arbitrary: k)
  case (Suc n)
  have m: "map f [0..<Suc n] = f 0 # map (\<lambda>j. f (Suc j)) [0..<n]" for f :: "nat \<Rightarrow> real \<times> real" by (simp add: map_upt_Suc del: upt_Suc)
  have a: "real (Suc k) * a = real k * a + a" by (simp add: distrib_right)
  have "cos (real k * a) * cos a - sin (real k * a) * sin a = cos (real (Suc k) * a)" "cos (real k * a) * sin a + sin (real k * a) * cos a = sin (real (Suc k) * a)"
    unfolding a by (simp_all add: cos_add sin_add)
  then show ?case unfolding m using Suc.IH [of "Suc k"] by simp
qed simp

lemma tone_arrays_exact:
  "tone_arrays exact_ops n fp = map (\<lambda>t. map (\<lambda>j. (cos (real j * tone_angle exact_ops fp t), sin (real j * tone_angle exact_ops fp t))) [0..<n]) [0..<4]"
  unfolding tone_arrays_def using phasors_exact [where k = 0] by simp

text \<open>Keeping the arrays changes nothing.\<close>

lemma arrays_for_exact:
  "i = 0 \<or> snd cache = tone_arrays exact_ops n (fst cache) \<Longrightarrow> arrays_for exact_ops n i fp cache = (fp, tone_arrays exact_ops n fp)"
  by (cases cache) (auto simp: arrays_for_def)

lemma symbol_sums_exact:
  assumes "is = [] \<or> hd is = 0 \<or> snd cache = tone_arrays exact_ops 257 (fst cache)"
  shows "symbol_sums exact_ops idat qdat npts f0 drift lag is cache =
    map (\<lambda>i. map (\<lambda>cs. (correlate exact_ops idat qdat npts (lag + int i * 256) cs, cs ! 256)) (tone_arrays exact_ops 257 (symbol_freq exact_ops f0 drift i))) is"
  using assms
proof (induction "is" arbitrary: cache)
  case (Cons i "is")
  then have "arrays_for exact_ops 257 i (symbol_freq exact_ops f0 drift i) cache =
      (symbol_freq exact_ops f0 drift i, tone_arrays exact_ops 257 (symbol_freq exact_ops f0 drift i))" by (intro arrays_for_exact) auto
  with Cons.IH [of "(symbol_freq exact_ops f0 drift i, tone_arrays exact_ops 257 (symbol_freq exact_ops f0 drift i))"] show ?case by (simp add: Let_def)
qed simp

section \<open>Correlation with a tone\<close>

text \<open>In complex numbers: the samples times the turned back tone.\<close>

lemma correlate_exact:
  fixes z :: "nat \<Rightarrow> complex"
  assumes "0 < start" "start + 256 \<le> npts" "256 \<le> n"
    and "\<And>j. j < 256 \<Longrightarrow> idat ! nat (start + int j) = Re (z j) \<and> qdat ! nat (start + int j) = Im (z j)"
  shows "correlate exact_ops idat qdat npts start (map (\<lambda>j. (cos (real j * a), sin (real j * a))) [0..<n]) =
    (Re (\<Sum>j < 256. z j * cis (- (real j * a))), Im (\<Sum>j < 256. z j * cis (- (real j * a))))"
proof -
  let ?cs = "map (\<lambda>j. (cos (real j * a), sin (real j * a))) [0..<n]"
  let ?f = "\<lambda>j (x, y).
         let k = start + int j; (c, s) = ?cs ! j
         in if k > 0 \<and> k < npts
            then (f_add exact_ops (f_add exact_ops x (f_times exact_ops (idat ! nat k) c)) (f_times exact_ops (qdat ! nat k) s),
                  f_add exact_ops (f_sub exact_ops y (f_times exact_ops (idat ! nat k) s)) (f_times exact_ops (qdat ! nat k) c))
            else (x, y)"
  have step: "?f j (Re w, Im w) = (Re (w + z j * cis (- (real j * a))), Im (w + z j * cis (- (real j * a))))" if "j < 256" for j w
    using that assms(1-3) assms(4) [OF that] by (simp add: Let_def cis.ctr algebra_simps)
  have "fold ?f [0..<m] (0, 0) = (Re (\<Sum>j < m. z j * cis (- (real j * a))), Im (\<Sum>j < m. z j * cis (- (real j * a))))" if "m \<le> 256" for m
    using that
  proof (induction m)
    case (Suc m)
    have "fold ?f [0..<Suc m] (0, 0) = ?f m (fold ?f [0..<m] (0, 0))" by simp
    also have "\<dots> = ?f m (Re (\<Sum>j < m. z j * cis (- (real j * a))), Im (\<Sum>j < m. z j * cis (- (real j * a))))"
      by (rule arg_cong [OF Suc.IH]) (use Suc.prems in simp)
    also have "\<dots> = (Re (\<Sum>j < Suc m. z j * cis (- (real j * a))), Im (\<Sum>j < Suc m. z j * cis (- (real j * a))))"
      using step [of m "\<Sum>j < m. z j * cis (- (real j * a))"] Suc.prems by simp
    finally show ?case .
  qed simp
  from this [of 256] show ?thesis unfolding correlate_def by simp
qed

text \<open>Over 256 samples a tone is seen by its own correlator only.\<close>

lemma turns_cancel:
  fixes m :: int
  assumes "\<bar>m\<bar> < 256" "m \<noteq> 0"
  shows "(\<Sum>j < 256. cis (real j * (2 * pi * real_of_int m / 256))) = 0"
proof -
  let ?x = "cis (2 * pi * real_of_int m / 256)"
  have p: "cis (real j * (2 * pi * real_of_int m / 256)) = ?x ^ j" for j by (simp add: DeMoivre)
  have "?x \<noteq> 1"
  proof
    assume "?x = 1"
    then have "cos (2 * pi * real_of_int m / 256) = 1" by (simp add: complex_eq_iff)
    then obtain k :: int where "2 * pi * real_of_int m / 256 = real_of_int k * 2 * pi" by (auto simp: cos_one_2pi_int)
    then have "real_of_int m = real_of_int (256 * k)" by simp
    then have "m = 256 * k" by linarith
    then show False using assms by auto
  qed
  moreover have "?x ^ 256 = 1"
  proof -
    have "?x ^ 256 = cis (real 256 * (2 * pi * real_of_int m / 256))" by (rule DeMoivre)
    also have "\<dots> = cis (2 * pi * real_of_int m)" by (rule arg_cong [of _ _ cis]) simp
    also have "\<dots> = 1" by (rule cis_multiple_2pi) simp
    finally show ?thesis .
  qed
  ultimately have "(\<Sum>j < 256. ?x ^ j) = 0" using geometric_sum [of ?x 256] by simp
  then show ?thesis unfolding p .
qed

lemma tone_sum:
  assumes "t < 4" "u < 4"
  shows "(\<Sum>j < 256. (of_real A * cis (theta + real j * tone_angle exact_ops fp t)) * cis (- (real j * tone_angle exact_ops fp u))) =
    (if t = u then 256 * of_real A * cis theta else 0)"
proof -
  have d: "tone_angle exact_ops fp t - tone_angle exact_ops fp u = 2 * pi * real_of_int (int t - int u) / 256"
    unfolding tone_angle_exact [OF assms(1)] tone_angle_exact [OF assms(2)] by (simp add: field_simps)
  have s: "(of_real A * cis (theta + real j * tone_angle exact_ops fp t)) * cis (- (real j * tone_angle exact_ops fp u)) =
      of_real A * cis theta * cis (real j * (2 * pi * real_of_int (int t - int u) / 256))" for j
    unfolding d [symmetric] by (simp add: cis_mult algebra_simps)
  have c: "(\<Sum>j < 256. cis (real j * (2 * pi * real_of_int (int t - int u) / 256))) = (if t = u then 256 else 0)"
  proof (cases "t = u")
    case False
    have "(\<Sum>j < 256. cis (real j * (2 * pi * real_of_int (int t - int u) / 256))) = 0"
      by (rule turns_cancel) (use False assms in auto)
    then show ?thesis using False by simp
  qed simp
  show ?thesis unfolding s sum_distrib_left [symmetric] c by simp
qed


section \<open>A received signal\<close>

text \<open>The samples from \<open>lag\<close> on are the tones of the channel symbols, of one strength, each with a phase of its own.\<close>

definition tones_heard :: "u8 list \<Rightarrow> real \<Rightarrow> (nat \<Rightarrow> real) \<Rightarrow> real \<Rightarrow> real \<Rightarrow> int \<Rightarrow> real list \<Rightarrow> real list \<Rightarrow> bool" where
  "tones_heard sent A theta f0 drift lag idat qdat \<longleftrightarrow>
     (\<forall>i < 162. \<forall>j < 256.
        let a = theta i + real j * (2 * pi / 375 * (f0 + drift / 2 * (real i - 81) / 81 + (real (unat (sent ! i)) - 1.5) * 375 / 256));
            k = nat (lag + int i * 256 + int j)
        in idat ! k = A * cos a \<and> qdat ! k = A * sin a)"

definition channel_ok :: "u8 list \<Rightarrow> bool" where
  "channel_ok sent \<longleftrightarrow> length sent = 162 \<and> (\<forall>i < 162. unat (sent ! i) < 4 \<and> unat (sent ! i) mod 2 = unat (pr3 ! i)) \<and>
     (\<exists>i < 162. 2 \<le> unat (sent ! i)) \<and> (\<exists>i < 162. unat (sent ! i) < 2)"

lemma tone_heard:
  assumes "tones_heard sent A theta f0 drift lag idat qdat" "channel_ok sent" "0 < lag" "lag + 162 * 256 \<le> npts" "i < 162" "t < 4" "256 \<le> n"
  shows "correlate exact_ops idat qdat npts (lag + int i * 256) (tone_arrays exact_ops n (symbol_freq exact_ops f0 drift i) ! t) =
    (if t = unat (sent ! i) then (256 * A * cos (theta i), 256 * A * sin (theta i)) else (0, 0))"
proof -
  let ?fp = "symbol_freq exact_ops f0 drift i"
  let ?c = "unat (sent ! i)"
  let ?z = "\<lambda>j. of_real A * cis (theta i + real j * tone_angle exact_ops ?fp ?c)"
  have c: "?c < 4" using assms(2,5) by (simp add: channel_ok_def)
  have ang: "2 * pi / 375 * (f0 + drift / 2 * (real i - 81) / 81 + (real ?c - 1.5) * 375 / 256) = tone_angle exact_ops ?fp ?c"
    unfolding tone_angle_exact [OF c] symbol_freq_exact by (simp add: field_simps)
  have z: "idat ! nat (lag + int i * 256 + int j) = Re (?z j) \<and> qdat ! nat (lag + int i * 256 + int j) = Im (?z j)" if "j < 256" for j
  proof -
    from assms(1,5) that have "idat ! nat (lag + int i * 256 + int j) = A * cos (theta i + real j * tone_angle exact_ops ?fp ?c) \<and>
        qdat ! nat (lag + int i * 256 + int j) = A * sin (theta i + real j * tone_angle exact_ops ?fp ?c)"
      unfolding tones_heard_def Let_def ang [symmetric] by blast
    then show ?thesis by simp
  qed
  have arr: "tone_arrays exact_ops n ?fp ! t = map (\<lambda>j. (cos (real j * tone_angle exact_ops ?fp t), sin (real j * tone_angle exact_ops ?fp t))) [0..<n]"
    unfolding tone_arrays_exact using assms(6) by (subst nth_map) simp_all
  have p: "0 < lag + int i * 256" "lag + int i * 256 + 256 \<le> npts" using assms(3-5) by auto
  have "correlate exact_ops idat qdat npts (lag + int i * 256) (tone_arrays exact_ops n ?fp ! t) =
      (Re (\<Sum>j < 256. ?z j * cis (- (real j * tone_angle exact_ops ?fp t))), Im (\<Sum>j < 256. ?z j * cis (- (real j * tone_angle exact_ops ?fp t))))"
    unfolding arr by (rule correlate_exact [OF p assms(7)]) (rule z)
  then show ?thesis unfolding tone_sum [OF c assms(6)] by simp
qed

lemma tones_of: "length (tone_arrays ops n fp) = 4"
  by (simp add: tone_arrays_def)

lemma magnitude_exact: "magnitude exact_ops (x, y) = sqrt (x * x + y * y)"
  by (simp add: magnitude_def)

lemma magnitude_heard: "0 \<le> A \<Longrightarrow> magnitude exact_ops (256 * A * cos t, 256 * A * sin t) = 256 * A"
proof -
  assume a: "0 \<le> A"
  have "256 * A * cos t * (256 * A * cos t) + 256 * A * sin t * (256 * A * sin t) = (256 * A)\<^sup>2 * ((cos t)\<^sup>2 + (sin t)\<^sup>2)"
    unfolding power2_eq_square by algebra
  also have "\<dots> = (256 * A)\<^sup>2" by simp
  finally show ?thesis unfolding magnitude_exact using a by (simp only: real_sqrt_abs)
qed

section \<open>The bytes\<close>

lemma soft_fold:
  "fold (\<lambda>x (fsum, f2sum).
      (f_of_d exact_ops (d_add exact_ops (d_of_f exact_ops fsum) (d_div exact_ops (d_of_f exact_ops x) (d_of exact_ops 162))),
       f_of_d exact_ops (d_add exact_ops (d_of_f exact_ops f2sum) (d_div exact_ops (d_of_f exact_ops (f_times exact_ops x x)) (d_of exact_ops 162)))))
     xs (u, v) = (u + sum_list xs / 162, v + (\<Sum>x \<leftarrow> xs. x * x) / 162)"
proof (induction xs arbitrary: u v)
  case (Cons x xs)
  show ?case unfolding fold_Cons o_apply prod.case Cons.IH by (simp add: add_divide_distrib)
qed simp

lemma byte_value: "0 \<le> v \<Longrightarrow> v < 256 \<Longrightarrow> unat (word_of_int v :: u8) = nat v"
  by (simp add: unat_eq_nat_uint uint_word_of_int)

lemma byte_level:
  assumes "50 \<le> (50 :: real) * a / fac"
  shows "178 \<le> unat (soft_byte exact_ops 50 fac a) \<and> unat (soft_byte exact_ops 50 fac (- a)) \<le> 78"
proof
  let ?x = "50 * a / fac"
  let ?y = "min ?x 127"
  have "soft_byte exact_ops 50 fac a = word_of_int \<lfloor>?y + 128\<rfloor>"
    using assms by (simp add: soft_byte_def Let_def exact_int min_def)
  moreover have "178 \<le> \<lfloor>?y + 128\<rfloor>" "\<lfloor>?y + 128\<rfloor> < 256" using assms by (simp_all only: le_floor_iff floor_less_iff)
  ultimately show "178 \<le> unat (soft_byte exact_ops 50 fac a)" by (simp only: byte_value le_nat_iff)
  let ?w = "max (- ?x) (- 128)"
  have "soft_byte exact_ops 50 fac (- a) = word_of_int \<lfloor>?w + 128\<rfloor>"
    using assms by (simp add: soft_byte_def Let_def exact_int max_def)
  moreover have "0 \<le> \<lfloor>?w + 128\<rfloor>" "\<lfloor>?w + 128\<rfloor> \<le> 78" using assms by (simp_all only: le_floor_iff floor_le_iff)
  ultimately show "unat (soft_byte exact_ops 50 fac (- a)) \<le> 78" by (simp only: byte_value nat_le_iff)
qed

lemma soft_level:
  assumes "0 < a" and fs: "fsymb = map (\<lambda>i. if b i then a else - a) [0..<162]" and "i0 < 162" "b i0" "i1 < 162" "\<not> b i1" and "i < 162"
  shows "if b i then 178 \<le> unat (soft_symbols exact_ops 50 fsymb ! i) else unat (soft_symbols exact_ops 50 fsymb ! i) \<le> 78"
proof -
  let ?f = "\<lambda>i. if b i then a else - a"
  have s: "sum_list fsymb = (\<Sum>i < 162. ?f i)" unfolding fs by (simp add: interv_sum_list_conv_sum_set_nat atLeast0LessThan)
  have q: "(\<Sum>x \<leftarrow> fsymb. x * x) = 162 * a\<^sup>2"
  proof -
    have "map (\<lambda>x. x * x) fsymb = map (\<lambda>i. a\<^sup>2) [0..<162]" unfolding fs by (auto simp: power2_eq_square)
    then show ?thesis by (simp only: sum_list_triv length_upt) simp
  qed
  have "(\<Sum>i < 162. ?f i) < (\<Sum>i < (162 :: nat). a)"
    by (rule sum_strict_mono_ex1) (use assms in \<open>auto intro!: bexI [of _ i1]\<close>)
  moreover have "(\<Sum>i < (162 :: nat). - a) < (\<Sum>i < 162. ?f i)"
    by (rule sum_strict_mono_ex1) (use assms in \<open>auto intro!: bexI [of _ i0]\<close>)
  ultimately have m: "\<bar>sum_list fsymb / 162\<bar> < a" unfolding s by (simp add: abs_less_iff)
  let ?fac = "sqrt (a\<^sup>2 - (sum_list fsymb / 162) * (sum_list fsymb / 162))"
  have "(sum_list fsymb / 162)\<^sup>2 < a\<^sup>2" using m assms(1) power_strict_mono [of "\<bar>sum_list fsymb / 162\<bar>" a 2] by (simp only: power2_abs)
  then have f: "0 < ?fac" "?fac \<le> a" using assms(1) by (simp_all add: power2_eq_square real_le_lsqrt)
  have "soft_symbols exact_ops 50 fsymb = map (soft_byte exact_ops 50 ?fac) fsymb"
    unfolding soft_symbols_def by (simp add: soft_fold [simplified] q power2_eq_square)
  then have i: "soft_symbols exact_ops 50 fsymb ! i = soft_byte exact_ops 50 ?fac (?f i)" using assms(7) by (simp add: fs)
  have "50 \<le> 50 * a / ?fac" using f assms(1) by (simp add: le_divide_eq)
  from byte_level [OF this] show ?thesis unfolding i by auto
qed


section \<open>Detection of single symbols\<close>

lemma sequence_one:
  "j < 2 \<Longrightarrow> sequence_power exact_ops corrs 1 i j = magnitude exact_ops (fst (corrs ! i ! (unat (pr3 ! i) + 2 * j)))"
proof -
  assume j: "j < 2"
  then have m: "j div 2 ^ (1 - 1 - 0) mod 2 = j" by simp
  show ?thesis
    by (cases "corrs ! i ! (unat (pr3 ! i) + 2 * j)")
      (use j in \<open>auto simp: sequence_power_def Let_def split: prod.splits\<close>)
qed

lemma block_one:
  assumes "0 < A" "c < 4" "c mod 2 = unat (pr3 ! i)"
    and "\<And>t. t < 4 \<Longrightarrow> magnitude exact_ops (fst (corrs ! i ! t)) = (if t = c then 256 * A else 0)"
  shows "block_soft exact_ops corrs 1 bm i = [if 2 \<le> c then (if bm = 1 then 1 else 256 * A) else - (if bm = 1 then 1 else 256 * A)]"
proof -
  have c: "c = unat (pr3 ! i) + 2 * (c div 2)" using assms(3) by (metis mod_div_decomp add.commute mult.commute)
  have r: "unat (pr3 ! i) < 2" using assms(3) by (metis mod_less_divisor zero_less_numeral)
  have p: "sequence_power exact_ops corrs 1 i j = (if j = c div 2 then 256 * A else 0)" if "j < 2" for j
    using sequence_one [OF that, of corrs i] assms(4) [of "unat (pr3 ! i) + 2 * j"] c r that by auto
  have two: "[0..<2] = [0, 1 :: nat]" by (simp add: upt_rec)
  have "c div 2 = 0 \<or> c div 2 = 1" using assms(2) by linarith
  moreover have "2 \<le> c \<longleftrightarrow> c div 2 = 1" using assms(2) by linarith
  ultimately show ?thesis using assms(1) p [of 0] p [of 1] by (auto simp: block_soft_def two Let_def f_max_of_def)
qed

lemma detection:
  assumes h: "tones_heard sent A theta f0 drift lag idat qdat" "channel_ok sent" and "0 < A" "0 < lag" "lag + 162 * 256 \<le> npts"
  shows "\<exists>soft. noncoherent_sequence_detection exact_ops idat qdat npts symbols f0 lag drift 50 1 bm cache = soft @ drop 162 symbols \<and>
    length soft = 162 \<and> (\<forall>i < 162. if 2 \<le> unat (sent ! i) then 178 \<le> unat (soft ! i) else unat (soft ! i) \<le> 78)"
proof -
  define corrs where "corrs = symbol_sums exact_ops idat qdat npts f0 drift lag [0..<162] cache"
  have cs: "corrs = map (\<lambda>i. map (\<lambda>cs. (correlate exact_ops idat qdat npts (lag + int i * 256) cs, cs ! 256))
      (tone_arrays exact_ops 257 (symbol_freq exact_ops f0 drift i))) [0..<162]"
    unfolding corrs_def by (rule symbol_sums_exact) simp
  let ?a = "if bm = 1 then 1 else 256 * A"
  have b: "block_soft exact_ops corrs 1 bm i = [if 2 \<le> unat (sent ! i) then ?a else - ?a]" if i: "i < 162" for i
  proof (rule block_one [OF assms(3)])
    show "unat (sent ! i) < 4" "unat (sent ! i) mod 2 = unat (pr3 ! i)" using h(2) i by (simp_all add: channel_ok_def)
    fix t :: nat
    assume t: "t < 4"
    have "corrs ! i ! t = (correlate exact_ops idat qdat npts (lag + int i * 256) (tone_arrays exact_ops 257 (symbol_freq exact_ops f0 drift i) ! t),
        tone_arrays exact_ops 257 (symbol_freq exact_ops f0 drift i) ! t ! 256)"
      unfolding cs using i t by (simp add: tones_of)
    with tone_heard [OF h assms(4,5) i t, of 257] assms(3) show "magnitude exact_ops (fst (corrs ! i ! t)) = (if t = unat (sent ! i) then 256 * A else 0)"
      by (simp add: magnitude_heard) (simp add: magnitude_exact)
  qed
  let ?f = "map (\<lambda>i. if 2 \<le> unat (sent ! i) then ?a else - ?a) [0..<162]"
  have "concat (map (\<lambda>n. block_soft exact_ops corrs 1 bm (n * 1)) [0..<162 div 1]) = ?f"
  proof -
    have "map (\<lambda>n. block_soft exact_ops corrs 1 bm (n * 1)) [0..<162 div 1] = map (\<lambda>i. [if 2 \<le> unat (sent ! i) then ?a else - ?a]) [0..<162]"
      using b by simp
    then show ?thesis by (simp only: concat_map_singleton)
  qed
  then have "noncoherent_sequence_detection exact_ops idat qdat npts symbols f0 lag drift 50 1 bm cache = soft_symbols exact_ops 50 ?f @ drop 162 symbols"
    unfolding noncoherent_sequence_detection_def corrs_def [symmetric] Let_def by simp
  moreover have "length (soft_symbols exact_ops 50 ?f) = 162" by (simp add: soft_symbols_def Let_def split_beta)
  moreover have "if 2 \<le> unat (sent ! i) then 178 \<le> unat (soft_symbols exact_ops 50 ?f ! i) else unat (soft_symbols exact_ops 50 ?f ! i) \<le> 78" if "i < 162" for i
  proof -
    obtain i0 i1 where "i0 < 162" "2 \<le> unat (sent ! i0)" "i1 < 162" "\<not> 2 \<le> unat (sent ! i1)" using h(2) by (auto simp: channel_ok_def not_le)
    with soft_level [of ?a ?f "\<lambda>i. 2 \<le> unat (sent ! i)" i0 i1 i] that assms(3) show ?thesis by simp
  qed
  ultimately show ?thesis by blast
qed

section \<open>Example\<close>

text \<open>A signal of strength 1 from the second sample on.\<close>

definition pure_angle :: "u8 list \<Rightarrow> nat \<Rightarrow> real" where
  "pure_angle sent k = real ((k - 1) mod 256) * (2 * pi / 375 * ((real (unat (sent ! ((k - 1) div 256))) - 1.5) * 375 / 256))"

definition pure_i :: "u8 list \<Rightarrow> real list" where "pure_i sent = map (\<lambda>k. cos (pure_angle sent k)) [0..<41473]"
definition pure_q :: "u8 list \<Rightarrow> real list" where "pure_q sent = map (\<lambda>k. sin (pure_angle sent k)) [0..<41473]"

lemma pure_heard: "tones_heard sent 1 (\<lambda>_. 0) 0 0 1 (pure_i sent) (pure_q sent)"
proof -
  have "pure_i sent ! nat (1 + int i * 256 + int j) = 1 * cos (pure_angle sent (1 + (i * 256 + j))) \<and>
      pure_q sent ! nat (1 + int i * 256 + int j) = 1 * sin (pure_angle sent (1 + (i * 256 + j)))" if "i < 162" "j < 256" for i j
  proof -
    have "nat (1 + int i * 256 + int j) = 1 + (i * 256 + j)" by linarith
    moreover have "1 + (i * 256 + j) < 41473" using that by linarith
    ultimately show ?thesis unfolding pure_i_def pure_q_def by (simp only: nth_map_upt diff_zero add_0 mult_1)
  qed
  moreover have "pure_angle sent (1 + (i * 256 + j)) = 0 + real j * (2 * pi / 375 * (0 + 0 / 2 * (real i - 81) / 81 + (real (unat (sent ! i)) - 1.5) * 375 / 256))" if "j < 256" for i j
    using that by (simp add: pure_angle_def)
  ultimately show ?thesis unfolding tones_heard_def Let_def by (metis (no_types, lifting))
qed

definition demo_sent :: "u8 list" where "demo_sent = map (\<lambda>i. 2 * of_bool (i mod 3 = 0) + pr3 ! i) [0..<162]"

lemma demo_sent_ok: "channel_ok demo_sent"
  unfolding channel_ok_def
proof (intro conjI)
  show "\<forall>i < 162. unat (demo_sent ! i) < 4 \<and> unat (demo_sent ! i) mod 2 = unat (pr3 ! i)"
  proof (intro allI impI)
    fix i :: nat
    assume i: "i < 162"
    then have d: "demo_sent ! i = 2 * of_bool (i mod 3 = 0) + pr3 ! i" by (simp add: demo_sent_def)
    have "pr3 ! i = 0 \<or> pr3 ! i = 1" using pr3_01 i by (simp add: list_all_length)
    then show "unat (demo_sent ! i) < 4 \<and> unat (demo_sent ! i) mod 2 = unat (pr3 ! i)"
      unfolding d by (cases "i mod 3 = 0") (elim disjE, simp_all)+
  qed
  have b: "2 \<le> unat (demo_sent ! 3)" "unat (demo_sent ! 2) < 2" by (simp_all add: demo_sent_def pr3_def)
  have n: "(3 :: nat) < 162" "(2 :: nat) < 162" by simp_all
  from n(1) b(1) show "\<exists>i < 162. 2 \<le> unat (demo_sent ! i)" by blast
  from n(2) b(2) show "\<exists>i < 162. unat (demo_sent ! i) < 2" by blast
  show "length demo_sent = 162" by (simp add: demo_sent_def)
qed

end
