(* ===== verification/WsprReception.thy ===== *)
theory WsprReception
  imports WsprDetect
begin

text \<open>
  The metric table of the Fano decoder (\<open>core/metric_tables.c\<close>, \<open>main\<close> in \<open>core/wsprd.c\<close>), and the whole way of a WSPR message
  from the samples to the text, with exact arithmetic.
\<close>

section \<open>Metrics\<close>

text \<open>Row 2 of the tables, the one \<open>main\<close> uses, in units of 1/10000.\<close>

definition metric_table_2 :: "int list" where
  "metric_table_2 = [
    9999, 9998, 9998, 9998, 9998, 9998, 9997, 9997, 9997, 9997, 9997, 9996, 9996, 9996, 9995, 9995,
    9994, 9994, 9994, 9993, 9993, 9992, 9991, 9991, 9990, 9989, 9988, 9988, 9988, 9986, 9985, 9984,
    9983, 9982, 9980, 9979, 9977, 9976, 9974, 9971, 9969, 9968, 9965, 9962, 9960, 9957, 9953, 9950,
    9947, 9941, 9937, 9933, 9928, 9922, 9917, 9911, 9904, 9897, 9890, 9882, 9874, 9863, 9855, 9843,
    9832, 9819, 9806, 9792, 9777, 9760, 9743, 9724, 9704, 9683, 9659, 9634, 9609, 9581, 9550, 9516,
    9481, 9446, 9406, 9363, 9317, 9270, 9218, 9160, 9103, 9038, 8972, 8898, 8822, 8739, 8647, 8554,
    8457, 8357, 8231, 8115, 7984, 7854, 7704, 7556, 7391, 7210, 7038, 6840, 6633, 6408, 6174, 5939,
    5678, 5410, 5137, 4836, 4524, 4193, 3850, 3482, 3132, 2733, 2315, 1891, 1435, 980, 493, 0,
    - 510, - 1052, - 1593, - 2177, - 2759, - 3374, - 4005, - 4599, - 5266, - 5935, - 6626, - 7328, - 8051, - 8757, - 9498, - 10271,
    - 11019, - 11816, - 12642, - 13459, - 14295, - 15077, - 15958, - 16818, - 17647, - 18548, - 19387, - 20295, - 21152, - 22154, - 23011, - 23904,
    - 24820, - 25786, - 26730, - 27652, - 28616, - 29546, - 30526, - 31445, - 32445, - 33416, - 34357, - 35325, - 36324, - 37313, - 38225, - 39209,
    - 40248, - 41278, - 42261, - 43193, - 44220, - 45262, - 46214, - 47242, - 48234, - 49245, - 50298, - 51250, - 52232, - 53267, - 54332, - 55342,
    - 56431, - 57270, - 58401, - 59350, - 60407, - 61418, - 62363, - 63384, - 64536, - 65429, - 66582, - 67433, - 68438, - 69478, - 70789, - 71894,
    - 72714, - 73815, - 74810, - 75575, - 76852, - 78071, - 78580, - 79724, - 81000, - 82207, - 82867, - 84017, - 85287, - 86347, - 87082, - 88319,
    - 89448, - 90355, - 91885, - 92095, - 92863, - 94186, - 95064, - 96386, - 97207, - 98286, - 99453, - 100701, - 101735, - 103001, - 102858, - 105427,
    - 105982, - 107361, - 107042, - 109212, - 110097, - 110469, - 111155, - 112812, - 113472, - 114988, - 115327, - 116692, - 119376, - 118606, - 121372, - 132539]"

definition metric_tables_2 :: "('f, 'd) wspr_ops \<Rightarrow> u8 \<Rightarrow> 'f" where
  "metric_tables_2 ops i = f_frac ops (metric_table_2 ! unat i) 10000"

text \<open>\<open>round\<close> of the C library (halves away from zero) is an argument.\<close>

definition mettab :: "('f, 'd) wspr_ops \<Rightarrow> ('d \<Rightarrow> int) \<Rightarrow> 'f \<Rightarrow> metric_table" where
  "mettab ops round_d bias b i =
     (if b = 0 then round_d (d_of_f ops (f_times ops (f_of ops 10) (f_sub ops (metric_tables_2 ops i) bias)))
      else round_d (d_of_f ops (f_times ops (f_of ops 10) (f_sub ops (metric_tables_2 ops (255 - i)) bias))))"

definition c_round :: "real \<Rightarrow> int" where
  "c_round x = (if 0 \<le> x then \<lfloor>x + 1 / 2\<rfloor> else \<lceil>x - 1 / 2\<rceil>)"

lemma length_metric: "length metric_table_2 = 256"
  by (simp add: metric_table_2_def)

lemma metric_low: "i \<le> 78 \<Longrightarrow> 9000 \<le> metric_table_2 ! i"
proof -
  assume "i \<le> 78"
  moreover have "list_all (\<lambda>x. 9000 \<le> x) (take 79 metric_table_2)" by code_simp
  ultimately show ?thesis by (simp add: list_all_length length_metric)
qed

lemma metric_high: "177 \<le> i \<Longrightarrow> i < 256 \<Longrightarrow> metric_table_2 ! i \<le> - 10000"
proof -
  assume i: "177 \<le> i" "i < 256"
  have "list_all (\<lambda>x. x \<le> - 10000) (drop 177 metric_table_2)" by code_simp
  moreover have "metric_table_2 ! i = drop 177 metric_table_2 ! (i - 177)" using i by (simp add: length_metric)
  ultimately show ?thesis using i by (simp add: list_all_length length_metric del: nth_drop)
qed

lemma byte_small: "unat (i :: u8) < 256"
  by (rule order_less_le_trans [OF unsigned_less]) simp

lemma mettab_exact:
  "mettab exact_ops c_round (45 / 100) b i = c_round (metric_table_2 ! (if b = 0 then unat i else 255 - unat i) / 1000 - 9 / 2)"
proof -
  have "i \<le> 255" using byte_small [of i] by (simp add: word_le_nat_alt)
  then have "unat (255 - i) = 255 - unat i" by (simp add: unat_sub)
  then show ?thesis by (simp add: mettab_def metric_tables_2_def algebra_simps)
qed

text \<open>With the bias of \<open>main\<close>, the bytes that the demodulator gives for a clean signal favour the right bit.\<close>

lemma clean_favoured:
  assumes "\<forall>i < 162. if 2 \<le> unat (sent ! i) then 178 \<le> unat (soft ! i) else unat (soft ! i) \<le> 78" and "\<forall>i < 162. unat (sent ! i) < 4"
  shows "favoured (mettab exact_ops c_round (45 / 100)) sent soft"
  unfolding favoured_def list_all_iff
proof
  fix i assume "i \<in> set [0..<162 :: nat]"
  then have i: "i < 162" by simp
  have low: "0 \<le> c_round (metric_table_2 ! n / 1000 - 9 / 2)" if "n \<le> 78" for n
    using metric_low [OF that] by (simp add: c_round_def)
  have high: "c_round (metric_table_2 ! n / 1000 - 9 / 2) < 0" if "177 \<le> n" "n < 256" for n
    using metric_high [OF that] by (simp add: c_round_def ceiling_less_iff)
  have s: "unat (soft ! i) < 256" by (rule byte_small)
  show "let b = unat (sent ! i) div 2 in 0 \<le> mettab exact_ops c_round (45 / 100) b (soft ! i) \<and>
      mettab exact_ops c_round (45 / 100) (1 - b) (soft ! i) < mettab exact_ops c_round (45 / 100) b (soft ! i)"
  proof (cases "2 \<le> unat (sent ! i)")
    case True
    then have "unat (sent ! i) div 2 = 1" "178 \<le> unat (soft ! i)" using assms i by (auto simp: div_eq_dividend_iff less_eq_div_iff_mult_less_eq)
    moreover from this(2) have "255 - unat (soft ! i) \<le> 78" "177 \<le> unat (soft ! i)" by linarith+
    ultimately show ?thesis using low [of "255 - unat (soft ! i)"] high [of "unat (soft ! i)"] s unfolding mettab_exact by simp
  next
    case False
    then have "unat (sent ! i) div 2 = 0" "unat (soft ! i) \<le> 78" using assms i by auto
    moreover from this(2) have "177 \<le> 255 - unat (soft ! i)" "255 - unat (soft ! i) < 256" by linarith+
    ultimately show ?thesis using low [of "unat (soft ! i)"] high [of "255 - unat (soft ! i)"] unfolding mettab_exact by simp
  qed
qed

section \<open>No message is all ones or all zeros\<close>

lemma encode_pair: "encode_bits s (b # bs) = tap POLY1 (conv_step s b) # tap POLY2 (conv_step s b) # encode_bits (conv_step s b) bs"
  unfolding encode_bits.simps Let_def ENCODE_parts ..

lemma encode_not_ones: "2 \<le> length bs \<Longrightarrow> \<exists>k < 4. encode_bits 0 bs ! k = 0"
proof -
  assume "2 \<le> length bs"
  then obtain a b cs where bs: "bs = a # b # cs" by (metis Suc_le_length_iff numeral_2_eq_2)
  have t: "tap POLY1 (conv_step 0 a) = 0 \<or> tap POLY1 (conv_step (conv_step 0 a) b) = 0 \<or> tap POLY2 (conv_step (conv_step 0 a) b) = 0"
  proof -
    have "\<forall>a \<in> set [True, False]. \<forall>b \<in> set [True, False].
        tap POLY1 (conv_step 0 a) = 0 \<or> tap POLY1 (conv_step (conv_step 0 a) b) = 0 \<or> tap POLY2 (conv_step (conv_step 0 a) b) = 0" by code_simp
    then show ?thesis by (cases a; cases b) auto
  qed
  have "encode_bits 0 bs ! 0 = tap POLY1 (conv_step 0 a)" "encode_bits 0 bs ! 2 = tap POLY1 (conv_step (conv_step 0 a) b)"
    "encode_bits 0 bs ! 3 = tap POLY2 (conv_step (conv_step 0 a) b)"
    unfolding bs encode_pair by (simp_all add: numeral_eq_Suc)
  with t show ?thesis by (metis less_numeral_extra(1) num.distinct(1) numeral_less_iff zero_less_numeral semiring_norm(75,76,78,81))
qed

lemma encode_not_zeros: "True \<in> set (take n bs) \<Longrightarrow> \<exists>k < 2 * n. encode_bits 0 bs ! k = 1"
proof (induction bs arbitrary: n)
  case (Cons b bs)
  obtain m where n: "n = Suc m" using Cons.prems by (cases n) auto
  show ?case
  proof (cases b)
    case True
    have "tap POLY1 (conv_step 0 True) = 1" by code_simp
    then have "encode_bits 0 (b # bs) ! 0 = 1" unfolding encode_pair using True by simp
    then show ?thesis using n by (intro exI [of _ 0]) simp
  next
    case False
    then obtain k where "k < 2 * m" "encode_bits 0 bs ! k = 1" using Cons n by auto
    moreover have "conv_step 0 False = 0" by (simp add: conv_step_def)
    ultimately show ?thesis using False n by (intro exI [of _ "Suc (Suc k)"]) (simp add: encode_pair del: encode_bits.simps)
  qed
qed simp

lemma power_bit: "64 \<le> r \<Longrightarrow> r < 128 \<Longrightarrow> bit (int (q * 128 + r)) 6"
proof -
  assume r: "64 \<le> r" "r < 128"
  then have "(int q * 128 + int r) div 64 = 2 * int q + 1" by linarith
  then show ?thesis by (simp add: bit_iff_odd)
qed

lemma packed_true: "bit m 6 \<Longrightarrow> True \<in> set (take 81 (concat (map byte_bits (pack50 n m))))"
proof -
  assume m: "bit m 6"
  let ?d = "word_of_int (0xFF AND drop_bit 2 m) :: u8"
  have "bit ?d 4" using m by (simp add: bit_word_of_int_iff bit_and_iff bit_drop_bit_eq)
  then have t: "True \<in> set (byte_bits ?d)" by (simp add: byte_bits_def)
  obtain b0 b1 b2 b3 b4 b6 where d: "pack50 n m = [b0, b1, b2, b3, b4] @ ?d # b6 # replicate 4 0"
    by (simp add: pack50_def numeral_eq_Suc)
  have l: "length (concat (map byte_bits [b0, b1, b2, b3, b4])) = 40" by (simp only: length_data_bits) simp
  have "take 81 (concat (map byte_bits (pack50 n m))) = concat (map byte_bits [b0, b1, b2, b3, b4]) @ take 41 (byte_bits ?d @ concat (map byte_bits (b6 # replicate 4 0)))"
    unfolding d map_append concat_append take_append l by simp
  moreover have "length (byte_bits ?d) = 8" by (simp add: byte_bits_def)
  ultimately show ?thesis using t by simp
qed


section \<open>The channel symbols of a message\<close>

lemma byte_01: "b = 0 \<or> b = 1 \<Longrightarrow> p = 0 \<or> p = 1 \<Longrightarrow> unat (2 * b + p :: u8) = 2 * unat b + unat p \<and> unat b < 2 \<and> unat p < 2"
  by (elim disjE) simp_all

lemma channel_of:
  assumes "length junk = 162" "interleave junk (map of_nat (encode (pack50 n m))) = Some bits" "sent = map (\<lambda>i. 2 * bits ! i + pr3 ! i) [0..<162]" "bit m 6"
  shows "channel_ok sent"
proof -
  let ?enc = "encode (pack50 n m)"
  have lenc: "length ?enc = 176" by (simp add: encode_def length_pack50)
  have at: "bits ! (positions ! p) = of_nat (?enc ! p)" if "p < 162" for p
    using interleave_result [OF assms(1), of "map of_nat ?enc"] assms(2) lenc that by auto
  have b2: "?enc ! p = 0 \<or> ?enc ! p = 1" if "p < 162" for p
  proof -
    have "?enc ! p < 2" using encode_01 lenc that by (simp add: encode_def list_all_length)
    then show ?thesis by linarith
  qed
  have b01: "bits ! i = 0 \<or> bits ! i = 1" if "i < 162" for i
  proof -
    have "i \<in> set positions" unfolding positions_perm(2) using that by simp
    then obtain p where p: "p < 162" "positions ! p = i" unfolding in_set_conv_nth positions_perm(3) by blast
    from b2 [OF p(1)] show ?thesis unfolding at [OF p(1), unfolded p(2)] by (elim disjE) simp_all
  qed
  have s: "unat (sent ! i) = 2 * unat (bits ! i) + unat (pr3 ! i) \<and> unat (bits ! i) < 2 \<and> unat (pr3 ! i) < 2" if "i < 162" for i
  proof -
    have "pr3 ! i = 0 \<or> pr3 ! i = 1" using pr3_01 that by (simp add: list_all_length)
    then show ?thesis using byte_01 [OF b01 [OF that]] that by (simp add: assms(3))
  qed
  have "2 \<le> length (concat (map byte_bits (pack50 n m)))" by (simp add: length_data_bits length_pack50)
  then obtain k0 where k0: "k0 < 4" "?enc ! k0 = 0" using encode_not_ones unfolding encode_def by blast
  obtain k1 where k1: "k1 < 2 * 81" "?enc ! k1 = 1" using encode_not_zeros [OF packed_true [OF assms(4)]] unfolding encode_def by blast
  have z: "\<exists>i < 162. unat (sent ! i) < 2"
  proof (intro exI conjI)
    show p: "positions ! k0 < 162" by (rule positions_nth_less) (use k0 in simp)
    show "unat (sent ! (positions ! k0)) < 2" using s [OF p] at [of k0] k0 by simp
  qed
  have o: "\<exists>i < 162. 2 \<le> unat (sent ! i)"
  proof (intro exI conjI)
    show p: "positions ! k1 < 162" by (rule positions_nth_less) (use k1 in simp)
    show "2 \<le> unat (sent ! (positions ! k1))" using s [OF p] at [of k1] k1 by simp
  qed
  have a: "\<forall>i < 162. unat (sent ! i) < 4 \<and> unat (sent ! i) mod 2 = unat (pr3 ! i)" using s by force
  show ?thesis unfolding channel_ok_def using z o a by (simp add: assms(3))
qed

lemma type1_channel:
  assumes "wspr_call s" "3 \<le> length s" "wspr_grid g" "good_power p" "length junk = 162"
    and tx: "get_wspr_channel_symbols clp0 call0 junk (type1_text s g (fmt_int p)) tabs = Some (Some (sent, tabs'))"
  shows "channel_ok sent"
proof -
  obtain N q where pack: "pack_message (type1_text s g (fmt_int p)) = Some (Some (word_of_nat N, int (q * 128 + nat (p + 64))))"
    using pack_type1_value [OF assms(1,3,4)] pack_message_type1 [OF assms(1-4)] by metis
  from tx obtain bits where "interleave junk (map of_nat (encode (pack50 (word_of_nat N) (int (q * 128 + nat (p + 64)))))) = Some bits"
      "sent = map (\<lambda>i. 2 * bits ! i + pr3 ! i) [0..<162]"
    by (auto simp: get_wspr_channel_symbols_def pack Let_def split: option.splits)
  moreover have "bit (int (q * 128 + nat (p + 64))) 6" by (rule power_bit) (use assms(4) in \<open>auto simp: good_power_def\<close>)
  ultimately show ?thesis by (rule channel_of [OF assms(5)])
qed

section \<open>The attempts at a candidate\<close>

text \<open>The test that the symbols are strong enough: \<open>minrms\<close> is 52 times 50/64.\<close>

definition symbol_rms :: "('f, 'd) wspr_ops \<Rightarrow> u8 list \<Rightarrow> 'f" where
  "symbol_rms ops symbols =
     (let sq = fold (\<lambda>s sq. let y = f_of_d ops (d_sub ops (d_of_f ops (f_of ops (uint s))) (d_of ops 128)) in f_add ops sq (f_times ops y y))
            (take 162 symbols) (f_of ops 0)
      in f_of_d ops (d_sqrt ops (d_div ops (d_of_f ops sq) (d_of ops 162))))"

definition minrms :: "('f, 'd) wspr_ops \<Rightarrow> 'f" where
  "minrms ops = f_of_d ops (d_mul ops (d_of ops 52) (d_div ops (d_of ops 50) (d_of ops 64)))"

text \<open>What is tried in turn: block lengths, the last one again bit by bit, and for each the shifts around the one found.\<close>

definition jitter :: "nat \<Rightarrow> int" where
  "jitter idt = 8 * (if idt mod 2 = 1 then - int ((idt + 1) div 2) else int ((idt + 1) div 2))"

definition block_of :: "nat \<Rightarrow> nat \<times> int" where
  "block_of ib = (if ib = 4 then (1, 1) else (ib, 0))"

definition attempts :: "bool \<Rightarrow> nat \<Rightarrow> (nat \<times> int \<times> int) list" where
  "attempts quickmode nblocksize =
     concat (map (\<lambda>ib. map (\<lambda>idt. (fst (block_of ib), snd (block_of ib), jitter idt)) (if quickmode then [0] else [0..<17])) [1..<nblocksize + 1])"

text \<open>The loop ends at the first success; \<open>None\<close> is undefined behaviour in the decoder. The scratch memory of the decoder is the same
  argument each time: its contents do not matter.\<close>

record 'f reception =
  idata :: "'f list"
  qdata :: "'f list"
  points :: int
  cand_freq :: 'f
  cand_shift :: int
  cand_drift :: 'f

fun decode_attempts ::
  "('f, 'd) wspr_ops \<Rightarrow> metric_table \<Rightarrow> 'f reception \<Rightarrow> 'f \<times> ('f \<times> 'f) list list \<Rightarrow> u8 list \<Rightarrow> node list \<Rightarrow>
     (nat \<times> int \<times> int) list \<Rightarrow> u8 list \<Rightarrow> ((fano_result \<times> (nat \<times> int \<times> int)) option) option" where
  "decode_attempts ops mt r cache junk fresh [] symbols = Some None"
| "decode_attempts ops mt r cache junk fresh ((blocksize, bitmetric, ii) # more_attempts) symbols =
     (let symbols = noncoherent_sequence_detection ops (idata r) (qdata r) (points r) symbols (cand_freq r) (cand_shift r + ii) (cand_drift r) 50 blocksize bitmetric cache
      in if f_less ops (minrms ops) (symbol_rms ops symbols)
         then case fano_decode junk fresh mt symbols of
            Some (Some result) \<Rightarrow>
              (if ret result = 0 then Some (Some (result, (blocksize, bitmetric, ii)))
               else decode_attempts ops mt r cache junk fresh more_attempts symbols)
          | _ \<Rightarrow> None
         else decode_attempts ops mt r cache junk fresh more_attempts symbols)"

text \<open>The shifts tried go out from the one found, in steps of 8 samples, to 64 on both sides, each once.\<close>

lemma jitter_order:
  "map jitter [0..<17] = [0, -8, 8, -16, 16, -24, 24, -32, 32, -40, 40, -48, 48, -56, 56, -64, 64]"
  by code_simp


lemma attempts_first: "0 < nblocksize \<Longrightarrow> \<exists>rest. attempts quickmode nblocksize = (1, 0, 0) # rest"
proof -
  assume "0 < nblocksize"
  then have "[1..<nblocksize + 1] = 1 # [Suc 1..<nblocksize + 1]" by (intro upt_conv_Cons) simp
  moreover have "[0..<17] = 0 # [Suc 0..<17]" by (rule upt_conv_Cons) simp
  ultimately show ?thesis by (simp add: attempts_def block_of_def jitter_def)
qed

section \<open>From the samples to the text\<close>

lemma rms_fold:
  "fold (\<lambda>s sq. let y = f_of_d exact_ops (d_sub exact_ops (d_of_f exact_ops (f_of exact_ops (uint s))) (d_of exact_ops 128)) in f_add exact_ops sq (f_times exact_ops y y))
     xs v = v + (\<Sum>s \<leftarrow> xs. (real (unat s) - 128)\<^sup>2)"
proof (induction xs arbitrary: v)
  case (Cons x xs)
  show ?case unfolding fold_Cons o_apply Cons.IH by (simp add: power2_eq_square Let_def)
qed simp

lemma clean_rms:
  assumes "length soft = 162" "\<forall>i < 162. if 2 \<le> unat (sent ! i) then 178 \<le> unat (soft ! i) else unat (soft ! i) \<le> 78"
  shows "f_less exact_ops (minrms exact_ops) (symbol_rms exact_ops soft)"
proof -
  let ?q = "\<Sum>s \<leftarrow> soft. (real (unat s) - 128)\<^sup>2"
  have "2500 \<le> (real (unat s) - 128)\<^sup>2" if "s \<in> set soft" for s
  proof -
    obtain i where "i < 162" "s = soft ! i" using \<open>s \<in> set soft\<close> assms(1) by (metis in_set_conv_nth)
    then have "178 \<le> unat s \<or> unat s \<le> 78" using assms(2) by metis
    then have "50 \<le> \<bar>real (unat s) - 128\<bar>" by linarith
    from power_mono [OF this, of 2] show ?thesis by simp
  qed
  then have "(\<Sum>s \<leftarrow> soft. 2500) \<le> ?q" by (rule sum_list_mono)
  then have "2500 \<le> ?q / 162" using assms(1) by (simp add: sum_list_triv)
  then have "sqrt 2500 \<le> sqrt (?q / 162)" by (rule real_sqrt_le_mono)
  moreover have "sqrt 2500 = sqrt (50\<^sup>2)" by simp
  then have "sqrt 2500 = (50 :: real)" by (simp only: real_sqrt_abs)
  ultimately have r: "50 \<le> sqrt (?q / 162)" by simp
  have "symbol_rms exact_ops soft = sqrt (?q / 162)"
    unfolding symbol_rms_def rms_fold using assms(1) by simp
  moreover have "minrms exact_ops = 52 * (50 / 64)" by (simp add: minrms_def)
  ultimately show ?thesis using r by simp
qed

text \<open>The samples of a candidate are what a transmitter of these channel symbols is heard as.\<close>

definition heard_at :: "u8 list \<Rightarrow> real reception \<Rightarrow> bool" where
  "heard_at sent r \<longleftrightarrow> 0 < cand_shift r \<and> cand_shift r + 162 * 256 \<le> points r \<and>
     (\<exists>A > 0. \<exists>theta. tones_heard sent A theta (cand_freq r) (cand_drift r) (cand_shift r) (idata r) (qdata r))"

lemma heard_favoured:
  assumes "channel_ok sent" "heard_at sent r" "length symbols = 162"
  obtains soft where "noncoherent_sequence_detection exact_ops (idata r) (qdata r) (points r) symbols (cand_freq r) (cand_shift r) (cand_drift r) 50 1 bm cache = soft"
    "length soft = 162" "favoured (mettab exact_ops c_round (45 / 100)) sent soft" "f_less exact_ops (minrms exact_ops) (symbol_rms exact_ops soft)"
proof -
  obtain A theta where h: "tones_heard sent A theta (cand_freq r) (cand_drift r) (cand_shift r) (idata r) (qdata r)" "0 < A"
    using assms(2) unfolding heard_at_def by blast
  have p: "0 < cand_shift r" "cand_shift r + 162 * 256 \<le> points r" using assms(2) by (simp_all add: heard_at_def)
  obtain soft where s: "noncoherent_sequence_detection exact_ops (idata r) (qdata r) (points r) symbols (cand_freq r) (cand_shift r) (cand_drift r) 50 1 bm cache = soft @ drop 162 symbols"
    "length soft = 162" "\<forall>i < 162. if 2 \<le> unat (sent ! i) then 178 \<le> unat (soft ! i) else unat (soft ! i) \<le> 78"
    using detection [OF h(1) assms(1) h(2) p] by blast
  have four: "\<forall>i < 162. unat (sent ! i) < 4" using assms(1) by (simp add: channel_ok_def)
  show thesis by (rule that [OF _ s(2) clean_favoured [OF s(3) four] clean_rms [OF s(2,3)]]) (use s(1) assms(3) in simp)
qed

text \<open>Transmitter, demodulator, decoder and message together.\<close>

lemma attempt_type1:
  assumes "wspr_call s" and "3 \<le> length s" and "wspr_grid g" and "good_power p"
    and "23 \<le> length clp0" and "13 \<le> length call0" and "23 \<le> length clp" and "13 \<le> length call"
    and "length junk = 162" and "length junk' = 162" and "fresh_nodes 81 fresh" and "length symbols = 162" and "0 < nblocksize"
  shows "\<exists>channel tabs'. get_wspr_channel_symbols clp0 call0 junk (type1_text s g (fmt_int p)) tabs = Some (Some (channel, tabs')) \<and>
    (\<forall>r. heard_at channel r \<longrightarrow>
      (\<exists>res out. decode_attempts exact_ops (mettab exact_ops c_round (45 / 100)) r cache junk' fresh (attempts quickmode nblocksize) symbols
          = Some (Some (res, (1, 0, 0))) \<and>
        unpk (res_data res @ [d10]) rtabs clp call = Some out \<and> \<not> noprint out \<and>
        cstr (call_loc_pow out) = type1_text s g (cdbm p) \<and> cstr (callsign out) = s))"
proof -
  let ?mt = "mettab exact_ops c_round (45 / 100)"
  obtain channel tabs' where tx: "get_wspr_channel_symbols clp0 call0 junk (type1_text s g (fmt_int p)) tabs = Some (Some (channel, tabs'))"
    and rx: "\<forall>soft. length soft = 162 \<and> favoured ?mt channel soft \<longrightarrow>
      (\<exists>res out. fano_decode junk' fresh ?mt soft = Some (Some res) \<and> ret res = 0 \<and>
        unpk (res_data res @ [d10]) rtabs clp call = Some out \<and> \<not> noprint out \<and>
        cstr (call_loc_pow out) = type1_text s g (cdbm p) \<and> cstr (callsign out) = s)"
    using link_type1 [OF assms(1-11), of tabs ?mt d10 rtabs] by blast
  have ok: "channel_ok channel" by (rule type1_channel [OF assms(1-4,9) tx])
  obtain others where at: "attempts quickmode nblocksize = (1, 0, 0) # others" using attempts_first [OF assms(13)] by blast
  have "\<exists>res out. decode_attempts exact_ops ?mt r cache junk' fresh (attempts quickmode nblocksize) symbols = Some (Some (res, (1, 0, 0))) \<and>
        unpk (res_data res @ [d10]) rtabs clp call = Some out \<and> \<not> noprint out \<and>
        cstr (call_loc_pow out) = type1_text s g (cdbm p) \<and> cstr (callsign out) = s" if h: "heard_at channel r" for r
  proof -
    obtain soft where soft: "noncoherent_sequence_detection exact_ops (idata r) (qdata r) (points r) symbols (cand_freq r) (cand_shift r) (cand_drift r) 50 1 0 cache = soft"
      "length soft = 162" "favoured ?mt channel soft" "f_less exact_ops (minrms exact_ops) (symbol_rms exact_ops soft)"
      by (rule heard_favoured [OF ok h assms(12)])
    from rx soft(2,3) obtain res out where o: "fano_decode junk' fresh ?mt soft = Some (Some res)" "ret res = 0"
      "unpk (res_data res @ [d10]) rtabs clp call = Some out" "\<not> noprint out" "cstr (call_loc_pow out) = type1_text s g (cdbm p)" "cstr (callsign out) = s" by blast
    have "decode_attempts exact_ops ?mt r cache junk' fresh (attempts quickmode nblocksize) symbols = Some (Some (res, (1, 0, 0)))"
      unfolding at decode_attempts.simps Let_def add_0_right soft(1) if_P [OF soft(4)] o(1) by (simp add: o(2))
    then show ?thesis using o(3-6) by blast
  qed
  then show ?thesis using tx by blast
qed

text \<open>
  C1: a WSPR signal is received. For every valid type 1 text the transmitter has channel symbols such that, when the samples from the shift
  of the candidate on are these tones, of one strength and with any phases, at the frequency and with the drift of the
  candidate, then in exact arithmetic the first attempt at the candidate succeeds: demodulation, the test of the strength,
  deinterleaving and the Fano decoder with the metric table of the program, and unpacking gives the callsign, the locator and
  the power that were sent.
\<close>

theorem wspr_reception:
  assumes "wspr_call s" and "3 \<le> length s" and "wspr_grid g" and "good_power p"
    and "23 \<le> length clp0" and "13 \<le> length call0" and "23 \<le> length clp" and "13 \<le> length call"
    and "length junk = 162" and "length junk' = 162" and "fresh_nodes 81 fresh" and "length symbols = 162" and "0 < nblocksize"
  shows "\<exists>channel tabs'. get_wspr_channel_symbols clp0 call0 junk (type1_text s g (fmt_int p)) tabs = Some (Some (channel, tabs')) \<and>
    (\<forall>r. heard_at channel r \<longrightarrow>
      (\<exists>res out. decode_attempts exact_ops (mettab exact_ops c_round (45 / 100)) r cache junk' fresh (attempts quickmode nblocksize) symbols
          = Some (Some (res, (1, 0, 0))) \<and>
        unpk (res_data res @ [d10]) rtabs clp call = Some out \<and> \<not> noprint out \<and>
        cstr (call_loc_pow out) = type1_text s g (cdbm p) \<and> cstr (callsign out) = s))"
  by (rule attempt_type1) (rule assms)+


section \<open>Example\<close>

definition pure_tones :: "u8 list \<Rightarrow> real reception" where
  "pure_tones sent = \<lparr>idata = pure_i sent, qdata = pure_q sent, points = 41473, cand_freq = 0, cand_shift = 1, cand_drift = 0\<rparr>"

lemma heard_pure: "heard_at sent (pure_tones sent)"
  unfolding heard_at_def pure_tones_def by (simp, intro exI [of _ 1] conjI exI [of _ "\<lambda>_. 0"] pure_heard) simp

theorem wspr_reception_witness:
  "\<exists>channel tabs'. get_wspr_channel_symbols (replicate 23 NUL) (replicate 13 NUL) (replicate 162 3) ''K1ABC FN42 37''
      \<lparr> hashtab = (\<lambda>_. []), loctab = (\<lambda>_. []) \<rparr> = Some (Some (channel, tabs')) \<and>
    (\<exists>res out. decode_attempts exact_ops (mettab exact_ops c_round (45 / 100)) (pure_tones channel) (0, []) (replicate 162 5)
         (replicate 82 blank_node) (attempts True 1) (replicate 162 0) = Some (Some (res, (1, 0, 0))) \<and>
       unpk (res_data res @ [0]) \<lparr> hashtab = (\<lambda>_. []), loctab = (\<lambda>_. []) \<rparr> (replicate 23 NUL) (replicate 13 NUL) = Some out \<and>
       cstr (call_loc_pow out) = ''K1ABC FN42 37'')"
proof -
  have "wspr_call ''K1ABC''" "wspr_grid ''FN42''" "good_power 37" by code_simp+
  moreover have "fmt_int 37 = ''37''" "cdbm 37 = ''37''" by code_simp+
  moreover have "fresh_nodes 81 (replicate 82 blank_node)" using blank_fresh [of 81] by simp
  ultimately show ?thesis
    using wspr_reception [of "''K1ABC''" "''FN42''" 37 "replicate 23 NUL" "replicate 13 NUL" "replicate 23 NUL" "replicate 13 NUL"
        "replicate 162 3" "replicate 162 5" "replicate 82 blank_node" "replicate 162 0" 1
        "\<lparr> hashtab = (\<lambda>_. []), loctab = (\<lambda>_. []) \<rparr>" "(0, [])" True 0 "\<lparr> hashtab = (\<lambda>_. []), loctab = (\<lambda>_. []) \<rparr>"] heard_pure
    by (fastforce simp: type1_text_def)
qed

end
