(* ===== verification/WsprSync.thy ===== *)
theory WsprSync
  imports WsprDetect
begin

text \<open>
  \<open>sync_and_demodulate\<close> of \<open>core/wsprd.c\<close> on a received signal, with exact arithmetic: the search finds a place where the
  measure of synchronisation is perfect, and there the symbols come out right.
\<close>

section \<open>The measure of synchronisation\<close>

definition powers_at :: "real list \<Rightarrow> real list \<Rightarrow> int \<Rightarrow> real \<Rightarrow> real \<Rightarrow> int \<Rightarrow> real list list" where
  "powers_at idat qdat npts f0 drift lag =
     map (\<lambda>i. map (\<lambda>cs. magnitude exact_ops (correlate exact_ops idat qdat npts (lag + int i * 256) cs)) (tone_arrays exact_ops 256 (symbol_freq exact_ops f0 drift i)))
       [0..<162]"

lemma symbol_powers_exact:
  assumes "is = [] \<or> hd is = 0 \<or> snd cache = tone_arrays exact_ops 256 (fst cache)"
  shows "fst (symbol_powers exact_ops idat qdat npts f0 drift lag is cache) =
    map (\<lambda>i. map (\<lambda>cs. magnitude exact_ops (correlate exact_ops idat qdat npts (lag + int i * 256) cs)) (tone_arrays exact_ops 256 (symbol_freq exact_ops f0 drift i))) is"
  using assms
proof (induction "is" arbitrary: cache)
  case (Cons i "is")
  let ?c = "(symbol_freq exact_ops f0 drift i, tone_arrays exact_ops 256 (symbol_freq exact_ops f0 drift i))"
  from Cons.prems have "arrays_for exact_ops 256 i (symbol_freq exact_ops f0 drift i) cache = ?c" by (intro arrays_for_exact) auto
  with Cons.IH [of ?c] show ?case by (simp add: Let_def split_beta)
qed simp

lemma powers_fst: "fst (symbol_powers exact_ops idat qdat npts f0 drift lag [0..<162] cache) = powers_at idat qdat npts f0 drift lag"
  unfolding powers_at_def by (rule symbol_powers_exact) simp

lemma magnitude_nonneg: "0 \<le> magnitude exact_ops z"
  by (cases z) (simp add: magnitude_exact)

lemma powers_ok: "p \<in> set (powers_at idat qdat npts f0 drift lag) \<Longrightarrow> length p = 4 \<and> (\<forall>t < 4. 0 \<le> p ! t)"
  by (auto simp: powers_at_def tones_of magnitude_nonneg)

lemma length_powers: "length (powers_at idat qdat npts f0 drift lag) = 162"
  by (simp add: powers_at_def)

definition sync_step :: "real list \<times> u8 \<Rightarrow> real \<times> real \<Rightarrow> real \<times> real" where
  "sync_step = (\<lambda>(p, r) (ss, totp).
     (if r = 1 then ss + (p ! 1 + p ! 3 - (p ! 0 + p ! 2)) else ss - (p ! 1 + p ! 3 - (p ! 0 + p ! 2)), totp + p ! 0 + p ! 1 + p ! 2 + p ! 3))"

lemma sync_measure_exact: "sync_measure exact_ops ps = (case fold sync_step (zip ps pr3) (0, 0) of (ss, totp) \<Rightarrow> ss / totp)"
proof -
  have st: "(\<lambda>(p, r) (ss, totp).
              let cmet = f_sub exact_ops (f_add exact_ops (p ! 1) (p ! 3)) (f_add exact_ops (p ! 0) (p ! 2))
              in (if r = 1 then f_add exact_ops ss cmet else f_sub exact_ops ss cmet,
                  f_add exact_ops (f_add exact_ops (f_add exact_ops (f_add exact_ops totp (p ! 0)) (p ! 1)) (p ! 2)) (p ! 3))) = sync_step"
    by (intro ext) (auto simp: sync_step_def)
  show ?thesis unfolding sync_measure_def st by (simp add: split_beta)
qed

lemma sync_bounded:
  "\<forall>(p, r) \<in> set prs. \<forall>t < 4. 0 \<le> p ! t \<Longrightarrow> \<bar>ss\<bar> \<le> totp \<Longrightarrow> \<bar>fst (fold sync_step prs (ss, totp))\<bar> \<le> snd (fold sync_step prs (ss, totp))"
proof (induction prs arbitrary: ss totp)
  case (Cons pr prs)
  obtain p r where pr: "pr = (p, r)" by (cases pr)
  have n: "0 \<le> p ! 0" "0 \<le> p ! 1" "0 \<le> p ! 2" "0 \<le> p ! 3" using Cons.prems(1) pr by auto
  obtain ss' totp' where st: "sync_step pr (ss, totp) = (ss', totp')" by (cases "sync_step pr (ss, totp)")
  then have "\<bar>ss'\<bar> \<le> totp'" using n Cons.prems(2) by (auto simp: sync_step_def pr split: if_splits)
  then show ?case using Cons.IH [of ss' totp'] Cons.prems(1) st by simp
qed simp

lemma sync_le_1: "sync_measure exact_ops (powers_at idat qdat npts f0 drift lag) \<le> 1"
proof -
  obtain ss totp where e: "fold sync_step (zip (powers_at idat qdat npts f0 drift lag) pr3) (0, 0) = (ss, totp)" by force
  have "\<forall>(p, r) \<in> set (zip (powers_at idat qdat npts f0 drift lag) pr3). \<forall>t < 4. 0 \<le> p ! t"
    using powers_ok by (auto dest!: set_zip_leftD)
  from sync_bounded [OF this, of 0 0] e have "\<bar>ss\<bar> \<le> totp" by simp
  then show ?thesis unfolding sync_measure_exact e by (auto simp: divide_le_eq)
qed

text \<open>At the right place it is perfect.\<close>

lemma powers_heard:
  assumes "tones_heard sent A theta f0 drift lag idat qdat" "channel_ok sent" "0 < lag" "lag + 162 * 256 \<le> npts" "0 < A"
  shows "powers_at idat qdat npts f0 drift lag = map (\<lambda>i. map (\<lambda>t. if t = unat (sent ! i) then 256 * A else 0) [0..<4]) [0..<162]"
  unfolding powers_at_def
proof (rule map_cong [OF refl])
  fix i assume "i \<in> set [0..<162 :: nat]"
  then have i: "i < 162" by simp
  show "map (\<lambda>cs. magnitude exact_ops (correlate exact_ops idat qdat npts (lag + int i * 256) cs)) (tone_arrays exact_ops 256 (symbol_freq exact_ops f0 drift i)) =
      map (\<lambda>t. if t = unat (sent ! i) then 256 * A else 0) [0..<4]"
  proof (rule nth_equalityI)
    fix t assume "t < length (map (\<lambda>cs. magnitude exact_ops (correlate exact_ops idat qdat npts (lag + int i * 256) cs)) (tone_arrays exact_ops 256 (symbol_freq exact_ops f0 drift i)))"
    then have t: "t < 4" by (simp add: tones_of)
    then show "map (\<lambda>cs. magnitude exact_ops (correlate exact_ops idat qdat npts (lag + int i * 256) cs)) (tone_arrays exact_ops 256 (symbol_freq exact_ops f0 drift i)) ! t =
        map (\<lambda>t. if t = unat (sent ! i) then 256 * A else 0) [0..<4] ! t"
      using tone_heard [OF assms(1-4) i t, of 256] assms(5) by (simp add: tones_of magnitude_heard) (simp add: magnitude_exact)
  qed (simp add: tones_of)
qed

lemma sync_heard:
  assumes "tones_heard sent A theta f0 drift lag idat qdat" "channel_ok sent" "0 < lag" "lag + 162 * 256 \<le> npts" "0 < A"
  shows "sync_measure exact_ops (powers_at idat qdat npts f0 drift lag) = 1"
proof -
  let ?p = "\<lambda>i. map (\<lambda>t. if t = unat (sent ! i) then 256 * A else 0) [0..<4]"
  have z: "zip (powers_at idat qdat npts f0 drift lag) pr3 = map (\<lambda>i. (?p i, pr3 ! i)) [0..<162]"
    unfolding powers_heard [OF assms] by (rule nth_equalityI) (use pr3_01(2) in simp_all)
  have st: "sync_step (?p i, pr3 ! i) (x, x) = (x + 256 * A, x + 256 * A)" if "i < 162" for i x
  proof -
    have c: "unat (sent ! i) < 4" "unat (sent ! i) mod 2 = unat (pr3 ! i)" using assms(2) that by (simp_all add: channel_ok_def)
    have r: "pr3 ! i = 0 \<or> pr3 ! i = 1" using pr3_01 that by (simp add: list_all_length)
    have "unat (sent ! i) = 0 \<or> unat (sent ! i) = 1 \<or> unat (sent ! i) = 2 \<or> unat (sent ! i) = 3" using c(1) by linarith
    then show ?thesis using c(2) r by (elim disjE) (simp_all add: sync_step_def)
  qed
  have "fold sync_step (map (\<lambda>i. (?p i, pr3 ! i)) [0..<n]) (0, 0) = (real n * (256 * A), real n * (256 * A))" if "n \<le> 162" for n
    using that
  proof (induction n)
    case (Suc n)
    then show ?case using st [of n "real n * (256 * A)"] by (simp add: distrib_right)
  qed simp
  from this [of 162] assms(5) show ?thesis unfolding sync_measure_exact z by simp
qed

section \<open>The search\<close>

abbreviation measure_at where
  "measure_at idat qdat npts f1 fstep drift x \<equiv> sync_measure exact_ops (powers_at idat qdat npts (f1 + real_of_int (fst x) * fstep) drift (snd x))"

lemma try_all_best:
  assumes "try_all exact_ops idat qdat npts f1 fstep drift xs ((m0, b0, g0), ps0, cache0) = ((m, b, g), ps, cache)"
  shows "(\<forall>x \<in> set xs. measure_at idat qdat npts f1 fstep drift x \<le> m) \<and> m0 \<le> m \<and>
    ((m, b, g) = (m0, b0, g0) \<or> (\<exists>x \<in> set xs. m = measure_at idat qdat npts f1 fstep drift x \<and> b = snd x \<and> g = f1 + real_of_int (fst x) * fstep)) \<and>
    (xs \<noteq> [] \<longrightarrow> ps = powers_at idat qdat npts (f1 + real_of_int (fst (last xs)) * fstep) drift (snd (last xs)))"
  using assms
proof (induction xs arbitrary: m b g ps cache rule: rev_induct)
  case (snoc x xs)
  obtain m' b' g' ps' cache' where e: "try_all exact_ops idat qdat npts f1 fstep drift xs ((m0, b0, g0), ps0, cache0) = ((m', b', g'), ps', cache')"
    by (metis prod.exhaust)
  obtain ifreq lag where x: "x = (ifreq, lag)" by (cases x)
  let ?f = "f1 + real_of_int ifreq * fstep"
  have p: "fst (symbol_powers exact_ops idat qdat npts ?f drift lag [0..<162] cache') = powers_at idat qdat npts ?f drift lag" by (rule powers_fst)
  obtain cache'' where sp: "symbol_powers exact_ops idat qdat npts ?f drift lag [0..<162] cache' = (powers_at idat qdat npts ?f drift lag, cache'')"
    using p by (metis prod.exhaust fst_conv)
  note run = snoc.prems [unfolded try_all_def fold_append o_apply e [unfolded try_all_def]]
  note best = snoc.IH [OF e]
  show ?case
  proof (cases "m' < measure_at idat qdat npts f1 fstep drift x")
    case True
    with run have "sync_measure exact_ops (powers_at idat qdat npts ?f drift lag) = m \<and> lag = b \<and> ?f = g \<and> powers_at idat qdat npts ?f drift lag = ps"
      by (simp add: x sp Let_def) (elim conjE, hypsubst, simp)
    then have r: "m = sync_measure exact_ops (powers_at idat qdat npts ?f drift lag)" "b = lag" "g = ?f" "ps = powers_at idat qdat npts ?f drift lag" by blast+
    from best True show ?thesis unfolding r by (fastforce simp: x)
  next
    case False
    with run have "m' = m \<and> b' = b \<and> g' = g \<and> powers_at idat qdat npts ?f drift lag = ps" by (simp add: x sp Let_def)
    then have r: "m = m'" "b = b'" "g = g'" "ps = powers_at idat qdat npts ?f drift lag" by blast+
    from best False show ?thesis unfolding r by (auto simp: x)
  qed
qed (simp add: try_all_def)


text \<open>If one of the places tried is right, the best measure is 1.\<close>

lemma search_best:
  assumes "sync_measure exact_ops (powers_at idat qdat npts f1 drift lag) = 1" "(0, lag) \<in> set xs"
  obtains x c where "try_all exact_ops idat qdat npts f1 fstep drift xs ((real_of_int (- (10 ^ 30)) / real_of_int 1, 0, 0), [], cache) =
      ((1, snd x, f1 + real_of_int (fst x) * fstep), powers_at idat qdat npts (f1 + real_of_int (fst (last xs)) * fstep) drift (snd (last xs)), c)"
    "x \<in> set xs" "measure_at idat qdat npts f1 fstep drift x = 1"
proof -
  obtain m b g ps c where R: "try_all exact_ops idat qdat npts f1 fstep drift xs ((real_of_int (- (10 ^ 30)) / real_of_int 1, 0, 0), [], cache) = ((m, b, g), ps, c)"
    by (metis prod.exhaust)
  note best = try_all_best [OF R]
  have "measure_at idat qdat npts f1 fstep drift (0, lag) \<le> m" using best assms(2) by blast
  then have low: "1 \<le> m" using assms(1) by simp
  from best have "(m, b, g) = (real_of_int (- (10 ^ 30)) / real_of_int 1, 0, 0) \<or>
      (\<exists>x \<in> set xs. m = measure_at idat qdat npts f1 fstep drift x \<and> b = snd x \<and> g = f1 + real_of_int (fst x) * fstep)" by blast
  with low obtain x where x: "x \<in> set xs" "m = measure_at idat qdat npts f1 fstep drift x" "b = snd x" "g = f1 + real_of_int (fst x) * fstep" by auto
  have "m = 1" using low sync_le_1 [of idat qdat npts "f1 + real_of_int (fst x) * fstep" drift "snd x"] x(2) by linarith
  moreover have "ps = powers_at idat qdat npts (f1 + real_of_int (fst (last xs)) * fstep) drift (snd (last xs))" using best assms(2) by auto
  ultimately show thesis using R x by (intro that [of x c]) simp_all
qed

lemma sync_soft_heard:
  assumes "tones_heard sent A theta f0 drift lag idat qdat" "channel_ok sent" "0 < lag" "lag + 162 * 256 \<le> npts" "0 < A"
  shows "sync_soft exact_ops (powers_at idat qdat npts f0 drift lag) = map (\<lambda>i. if 2 \<le> unat (sent ! i) then 256 * A else - (256 * A)) [0..<162]"
proof (rule nth_equalityI)
  show "length (sync_soft exact_ops (powers_at idat qdat npts f0 drift lag)) = length (map (\<lambda>i. if 2 \<le> unat (sent ! i) then 256 * A else - (256 * A)) [0..<162])"
    using pr3_01(2) by (simp add: sync_soft_def length_powers)
  fix i assume "i < length (sync_soft exact_ops (powers_at idat qdat npts f0 drift lag))"
  then have i: "i < 162" using pr3_01(2) by (simp add: sync_soft_def length_powers)
  have c: "unat (sent ! i) < 4" "unat (sent ! i) mod 2 = unat (pr3 ! i)" using assms(2) i by (simp_all add: channel_ok_def)
  have r: "pr3 ! i = 0 \<or> pr3 ! i = 1" using pr3_01 i by (simp add: list_all_length)
  have "unat (sent ! i) = 0 \<or> unat (sent ! i) = 1 \<or> unat (sent ! i) = 2 \<or> unat (sent ! i) = 3" using c(1) by linarith
  then show "sync_soft exact_ops (powers_at idat qdat npts f0 drift lag) ! i = map (\<lambda>i. if 2 \<le> unat (sent ! i) then 256 * A else - (256 * A)) [0..<162] ! i"
    using c(2) r i pr3_01(2) by (elim disjE) (simp_all add: sync_soft_def powers_heard [OF assms])
qed

lemma sync_soft_bytes:
  assumes "tones_heard sent A theta f0 drift lag idat qdat" "channel_ok sent" "0 < lag" "lag + 162 * 256 \<le> npts" "0 < A"
  shows "length (soft_symbols exact_ops 50 (sync_soft exact_ops (powers_at idat qdat npts f0 drift lag))) = 162"
    and "i < 162 \<Longrightarrow> if 2 \<le> unat (sent ! i) then 178 \<le> unat (soft_symbols exact_ops 50 (sync_soft exact_ops (powers_at idat qdat npts f0 drift lag)) ! i)
      else unat (soft_symbols exact_ops 50 (sync_soft exact_ops (powers_at idat qdat npts f0 drift lag)) ! i) \<le> 78"
proof -
  show "length (soft_symbols exact_ops 50 (sync_soft exact_ops (powers_at idat qdat npts f0 drift lag))) = 162"
    unfolding sync_soft_heard [OF assms] by (simp add: soft_symbols_def Let_def split_beta)
  obtain i0 i1 where "i0 < 162" "2 \<le> unat (sent ! i0)" "i1 < 162" "\<not> 2 \<le> unat (sent ! i1)" using assms(2) by (auto simp: channel_ok_def not_le)
  with soft_level [OF _ sync_soft_heard [OF assms], of i0 i1 i] assms(5)
  show "if 2 \<le> unat (sent ! i) then 178 \<le> unat (soft_symbols exact_ops 50 (sync_soft exact_ops (powers_at idat qdat npts f0 drift lag)) ! i)
      else unat (soft_symbols exact_ops 50 (sync_soft exact_ops (powers_at idat qdat npts f0 drift lag)) ! i) \<le> 78" if "i < 162" using that by simp
qed

text \<open>
  C20: synchronisation. When one of the lags tried is where a transmitter's channel symbols are heard, at the frequency and with the drift
  given, the search over the lags (mode 0) ends with the measure 1, the largest there is, at a lag that has it; and at the right
  lag the search over the frequencies (mode 1) keeps that measure, and the symbols of mode 2 are 178 or more for a one and 78
  or less for a zero.
\<close>

theorem sync_found:
  assumes "tones_heard sent A theta f1 drift lag idat qdat" and "channel_ok sent" and "0 < lag" and "lag + 162 * 256 \<le> npts" and "0 < A"
    and "lag \<in> set (lag_list lagmin lagmax lagstep)" and "ifmin \<le> 0" and "0 \<le> ifmax" and "length symbols = 162"
  shows "(\<exists>best. sync_and_demodulate exact_ops idat qdat npts symbols f1 a b fstep shift1 lagmin lagmax lagstep drift 50 0 cache = (symbols, f1, best, 1) \<and>
      best \<in> set (lag_list lagmin lagmax lagstep) \<and> sync_measure exact_ops (powers_at idat qdat npts f1 drift best) = 1) \<and>
    (\<exists>f. sync_and_demodulate exact_ops idat qdat npts symbols f1 ifmin ifmax fstep lag lagmin lagmax lagstep drift 50 1 cache = (symbols, f, lag, 1)) \<and>
    (\<exists>soft. sync_and_demodulate exact_ops idat qdat npts symbols f1 a b fstep lag lagmin lagmax lagstep drift 50 2 cache = (soft, f1, lag, 1) \<and>
      length soft = 162 \<and> (\<forall>i < 162. if 2 \<le> unat (sent ! i) then 178 \<le> unat (soft ! i) else unat (soft ! i) \<le> 78))"
proof (intro conjI)
  note best = search_best [OF sync_heard [OF assms(1-5)]]
  have one: "lag_list lag lag lagstep = [lag]" by (simp add: lag_list_def)
  let ?start = "((real_of_int (- (10 ^ 30)) / real_of_int 1, 0 :: int, 0), [], cache)"
  have f: "f_frac exact_ops (- (10 ^ 30)) 1 = real_of_int (- (10 ^ 30)) / real_of_int 1" "f_of exact_ops 0 = 0" by (simp_all only: exact_simps)
  have "(0, lag) \<in> set (List.product [0..0] (lag_list lagmin lagmax lagstep))" using assms(6) by simp
  then obtain x c where x: "try_all exact_ops idat qdat npts f1 0 drift (List.product [0..0] (lag_list lagmin lagmax lagstep)) ?start = ((1, snd x, f1 + real_of_int (fst x) * 0),
      powers_at idat qdat npts (f1 + real_of_int (fst (last (List.product [0..0] (lag_list lagmin lagmax lagstep)))) * 0) drift (snd (last (List.product [0..0] (lag_list lagmin lagmax lagstep)))), c)"
    "x \<in> set (List.product [0..0] (lag_list lagmin lagmax lagstep))" "measure_at idat qdat npts f1 0 drift x = 1"
    by (rule best [where fstep = 0 and cache = cache])
  have "sync_and_demodulate exact_ops idat qdat npts symbols f1 a b fstep shift1 lagmin lagmax lagstep drift 50 0 cache = (symbols, f1, snd x, 1)"
    unfolding sync_and_demodulate_def f using x(1) by simp
  then show "\<exists>best. sync_and_demodulate exact_ops idat qdat npts symbols f1 a b fstep shift1 lagmin lagmax lagstep drift 50 0 cache =
        (symbols, f1, best, 1) \<and> best \<in> set (lag_list lagmin lagmax lagstep) \<and> sync_measure exact_ops (powers_at idat qdat npts f1 drift best) = 1"
    using x(2,3) by (intro exI [of _ "snd x"]) auto
  have "(0, lag) \<in> set (List.product [ifmin..ifmax] [lag])" using assms(7,8) by simp
  then obtain x c where x: "try_all exact_ops idat qdat npts f1 fstep drift (List.product [ifmin..ifmax] [lag]) ?start = ((1, snd x, f1 + real_of_int (fst x) * fstep),
      powers_at idat qdat npts (f1 + real_of_int (fst (last (List.product [ifmin..ifmax] [lag]))) * fstep) drift (snd (last (List.product [ifmin..ifmax] [lag]))), c)"
    "x \<in> set (List.product [ifmin..ifmax] [lag])" "measure_at idat qdat npts f1 fstep drift x = 1"
    by (rule best [where fstep = fstep and cache = cache])
  have "snd x = lag" using x(2) by auto
  then have "sync_and_demodulate exact_ops idat qdat npts symbols f1 ifmin ifmax fstep lag lagmin lagmax lagstep drift 50 1 cache = (symbols, f1 + real_of_int (fst x) * fstep, lag, 1)"
    unfolding sync_and_demodulate_def f using x(1) by (simp add: one)
  then show "\<exists>f. sync_and_demodulate exact_ops idat qdat npts symbols f1 ifmin ifmax fstep lag lagmin lagmax lagstep drift 50 1 cache = (symbols, f, lag, 1)" by blast
  have "(0, lag) \<in> set (List.product [0..0] [lag])" by simp
  then obtain x c where x: "try_all exact_ops idat qdat npts f1 fstep drift (List.product [0..0] [lag]) ?start = ((1, snd x, f1 + real_of_int (fst x) * fstep),
      powers_at idat qdat npts (f1 + real_of_int (fst (last (List.product [0..0] [lag]))) * fstep) drift (snd (last (List.product [0..0] [lag]))), c)"
    by (rule best [where fstep = fstep and cache = cache])
  have "sync_and_demodulate exact_ops idat qdat npts symbols f1 a b fstep lag lagmin lagmax lagstep drift 50 2 cache =
      (soft_symbols exact_ops 50 (sync_soft exact_ops (powers_at idat qdat npts f1 drift lag)), f1, lag, 1)"
    unfolding sync_and_demodulate_def f using x assms(9) by (simp add: one)
  then show "\<exists>soft. sync_and_demodulate exact_ops idat qdat npts symbols f1 a b fstep lag lagmin lagmax lagstep drift 50 2 cache = (soft, f1, lag, 1) \<and>
      length soft = 162 \<and> (\<forall>i < 162. if 2 \<le> unat (sent ! i) then 178 \<le> unat (soft ! i) else unat (soft ! i) \<le> 78)"
    using sync_soft_bytes [OF assms(1-5)] by blast
qed

theorem sync_found_witness:
  "\<exists>best. sync_and_demodulate exact_ops (pure_i demo_sent) (pure_q demo_sent) 41473 (replicate 162 0) 0 0 0 0 7 (- 127) 129 64 0 50 0 (0, []) = (replicate 162 0, 0, best, 1) \<and>
     best \<in> set (lag_list (- 127) 129 64)"
proof -
  have "1 \<in> set (lag_list (- 127) 129 64)" by code_simp
  from sync_found [OF pure_heard demo_sent_ok _ _ _ this, of 41473 0 0 "replicate 162 0" 0 0 0 7 "(0, [])"] show ?thesis by auto
qed

end
