(* ===== verification/WsprSubtract.thy ===== *)
theory WsprSubtract
  imports WsprDetect
begin

text \<open>
  What \<open>core/wsprd.c\<close> does with a decoded message: \<open>subtract_signal\<close>, \<open>subtract_signal2\<close> (the one \<open>main\<close> uses) take its signal
  out of the samples, \<open>count_hard_errors\<close> counts the symbols received wrong.
\<close>

section \<open>Symbol by symbol\<close>

text \<open>\<open>atan1\<close> is the \<open>double\<close> \<open>atan(1.0)\<close>.\<close>

definition pi_of_atan :: "('f, 'd) wspr_ops \<Rightarrow> 'd \<Rightarrow> 'f" where
  "pi_of_atan ops atan1 = f_of_d ops (d_mul ops (d_of ops 4) atan1)"

definition symbol_turn :: "('f, 'd) wspr_ops \<Rightarrow> 'd \<Rightarrow> 'f \<Rightarrow> 'f \<Rightarrow> nat \<Rightarrow> u8 \<Rightarrow> 'f" where
  "symbol_turn ops atan1 f0 drift0 i c =
     (let twopidt = f_times ops (f_times ops (f_of ops 2) (pi_of_atan ops atan1)) (wspr_dt ops)
      in f_of_d ops (d_mul ops (d_of_f ops twopidt)
           (d_add ops (d_of_f ops (symbol_freq ops f0 drift0 i))
             (d_mul ops (d_sub ops (d_of_f ops (f_of ops (uint c))) (d_frac ops 15 10)) (d_of_f ops (wspr_df ops))))))"

text \<open>One symbol: its mean against the tone is taken out of the samples that are inside the data.\<close>

definition subtract_symbol ::
  "('f, 'd) wspr_ops \<Rightarrow> int \<Rightarrow> int \<Rightarrow> ('f \<times> 'f) list \<Rightarrow> 'f list \<times> 'f list \<Rightarrow> 'f list \<times> 'f list" where
  "subtract_symbol ops npts start cs = (\<lambda>(idat, qdat).
     let (i0, q0) = correlate ops idat qdat npts start cs;
         i0 = f_of_d ops (d_div ops (d_of_f ops i0) (d_of ops 256));
         q0 = f_of_d ops (d_div ops (d_of_f ops q0) (d_of ops 256))
     in fold (\<lambda>j (idat, qdat).
          let k = start + int j; (c, s) = cs ! j
          in if k > 0 \<and> k < npts
             then (idat[nat k := f_sub ops (idat ! nat k) (f_sub ops (f_times ops i0 c) (f_times ops q0 s))],
                   qdat[nat k := f_sub ops (qdat ! nat k) (f_add ops (f_times ops q0 c) (f_times ops i0 s))])
             else (idat, qdat)) [0..<256] (idat, qdat))"

definition subtract_signal ::
  "('f, 'd) wspr_ops \<Rightarrow> 'd \<Rightarrow> 'f list \<Rightarrow> 'f list \<Rightarrow> int \<Rightarrow> 'f \<Rightarrow> int \<Rightarrow> 'f \<Rightarrow> u8 list \<Rightarrow> 'f list \<times> 'f list" where
  "subtract_signal ops atan1 idat qdat npts f0 shift0 drift0 channel_symbols =
     fold (\<lambda>i. let a = symbol_turn ops atan1 f0 drift0 i (channel_symbols ! i)
               in subtract_symbol ops npts (shift0 + int i * 256) (phasors ops (f_cos ops a) (f_sin ops a) 256 (f_of ops 1, f_of ops 0)))
       [0..<162] (idat, qdat)"

section \<open>The coherent component\<close>

text \<open>The reference: the phase goes on from symbol to symbol.\<close>

definition reference_turn :: "('f, 'd) wspr_ops \<Rightarrow> 'd \<Rightarrow> 'f \<Rightarrow> 'f \<Rightarrow> nat \<Rightarrow> u8 \<Rightarrow> 'f" where
  "reference_turn ops atan1 f0 drift0 i c =
     (let twopidt = f_of_d ops (d_mul ops (d_mul ops (d_of ops 2) (d_of_f ops (pi_of_atan ops atan1))) (d_of_f ops (wspr_dt ops)));
          half = d_div ops (d_of_f ops (f_of ops 162)) (d_of ops 2)
      in f_of_d ops (d_mul ops (d_of_f ops twopidt)
           (d_add ops (d_add ops (d_of_f ops f0)
               (d_div ops (d_mul ops (d_div ops (d_of_f ops drift0) (d_of ops 2)) (d_sub ops (d_of_f ops (f_of ops (int i))) half)) half))
             (d_mul ops (d_sub ops (d_of_f ops (f_of ops (uint c))) (d_frac ops 15 10)) (d_of_f ops (wspr_df ops))))))"

fun reference_phases :: "('f, 'd) wspr_ops \<Rightarrow> 'f list \<Rightarrow> 'f \<Rightarrow> 'f list" where
  "reference_phases ops [] phi = []"
| "reference_phases ops (dphi # turns) phi = phi # reference_phases ops turns (f_add ops phi dphi)"

definition NFILT :: nat where "NFILT = 360"
definition NSIG :: nat where "NSIG = 41472"
definition NC2 :: nat where "NC2 = 45000"

text \<open>The window of the filter, normalised, and its sums from index 1 on.\<close>

definition filter_window :: "('f, 'd) wspr_ops \<Rightarrow> 'd \<Rightarrow> 'f list" where
  "filter_window ops atan1 =
     (let w = map (\<lambda>i. f_sin ops (f_div ops (f_times ops (pi_of_atan ops atan1) (f_of ops (int i))) (f_of ops 359))) [0..<NFILT];
          norm = fold (\<lambda>x norm. f_add ops norm x) w (f_of ops 0)
      in map (\<lambda>x. f_div ops x norm) w)"

definition partialsum :: "('f, 'd) wspr_ops \<Rightarrow> 'f list \<Rightarrow> nat \<Rightarrow> 'f" where
  "partialsum ops w n = fold (\<lambda>i p. f_add ops p (w ! i)) [1..<n + 1] (f_of ops 0)"

text \<open>The samples times the turned back reference, after \<open>NFILT\<close> zeros; then filtered.\<close>

definition mixed_down :: "('f, 'd) wspr_ops \<Rightarrow> 'f list \<Rightarrow> 'f list \<Rightarrow> int \<Rightarrow> int \<Rightarrow> ('f \<times> 'f) list \<Rightarrow> ('f \<times> 'f) list" where
  "mixed_down ops idat qdat npts shift0 refs =
     map (\<lambda>n. let i = n - NFILT; k = shift0 + int i; (r, q) = refs ! i
              in if NFILT \<le> n \<and> i < NSIG \<and> k > 0 \<and> k < npts
                 then (f_add ops (f_times ops (idat ! nat k) r) (f_times ops (qdat ! nat k) q),
                       f_sub ops (f_times ops (qdat ! nat k) r) (f_times ops (idat ! nat k) q))
                 else (f_of ops 0, f_of ops 0)) [0..<NC2]"

definition low_pass :: "('f, 'd) wspr_ops \<Rightarrow> 'f list \<Rightarrow> ('f \<times> 'f) list \<Rightarrow> ('f \<times> 'f) list" where
  "low_pass ops w c =
     map (\<lambda>i. if NFILT div 2 \<le> i \<and> i < NC2 - NFILT div 2
              then fold (\<lambda>j (x, y). let (ci, cq) = c ! (i - NFILT div 2 + j)
                     in (f_add ops x (f_times ops (w ! j) ci), f_add ops y (f_times ops (w ! j) cq))) [0..<NFILT] (f_of ops 0, f_of ops 0)
              else (f_of ops 0, f_of ops 0)) [0..<NC2]"

text \<open>At both ends the filter has not settled: the estimate is divided by the part of the window that was inside the signal.\<close>

definition edge_norm :: "('f, 'd) wspr_ops \<Rightarrow> 'f list \<Rightarrow> nat \<Rightarrow> 'f" where
  "edge_norm ops w i =
     (if i < NFILT div 2 then partialsum ops w (NFILT div 2 + i)
      else if i > NSIG - 1 - NFILT div 2 then partialsum ops w (NFILT div 2 + NSIG - 1 - i)
      else f_of ops 1)"

definition subtract_signal2 ::
  "('f, 'd) wspr_ops \<Rightarrow> 'd \<Rightarrow> 'f list \<Rightarrow> 'f list \<Rightarrow> int \<Rightarrow> 'f \<Rightarrow> int \<Rightarrow> 'f \<Rightarrow> u8 list \<Rightarrow> 'f list \<times> 'f list" where
  "subtract_signal2 ops atan1 idat qdat npts f0 shift0 drift0 channel_symbols =
     (let turns = concat (map (\<lambda>i. replicate 256 (reference_turn ops atan1 f0 drift0 i (channel_symbols ! i))) [0..<162]);
          refs = map (\<lambda>phi. (f_cos ops phi, f_sin ops phi)) (reference_phases ops turns (f_of ops 0));
          w = filter_window ops atan1;
          cf = low_pass ops w (mixed_down ops idat qdat npts shift0 refs)
      in fold (\<lambda>i (idat, qdat).
           let k = shift0 + int i; norm = edge_norm ops w i; (r, q) = refs ! i; (x, y) = cf ! (i + NFILT)
           in if k > 0 \<and> k < npts
              then (idat[nat k := f_sub ops (idat ! nat k) (f_div ops (f_sub ops (f_times ops x r) (f_times ops y q)) norm)],
                    qdat[nat k := f_sub ops (qdat ! nat k) (f_div ops (f_add ops (f_times ops x q) (f_times ops y r)) norm)])
              else (idat, qdat)) [0..<NSIG] (idat, qdat))"

section \<open>Symbols received wrong\<close>

definition count_hard_errors :: "u8 list \<Rightarrow> u8 list \<Rightarrow> u8 list \<Rightarrow> nat option" where
  "count_hard_errors junk symbols channel_symbols =
     (case deinterleave junk (map (\<lambda>c. if 2 \<le> c then 1 else 0) (take 162 channel_symbols)) of None \<Rightarrow> None
      | Some cw \<Rightarrow> Some (fold (\<lambda>i nerrors. nerrors + (if (if 127 < symbols ! i then 1 else 0) = cw ! i then 0 else 1)) [0..<162] 0))"


section \<open>Exact arithmetic\<close>

lemma fold_sum: "fold (\<lambda>i p. p + f i) [a..<b] (z :: real) = z + (\<Sum>i \<in> {a..<b}. f i)"
proof (induction b)
  case (Suc b)
  then show ?case by (cases "a \<le> b") simp_all
qed simp

text \<open>The phase of a transmitter that sends without jumps.\<close>

definition sent_turn :: "real \<Rightarrow> real \<Rightarrow> u8 list \<Rightarrow> nat \<Rightarrow> real" where
  "sent_turn f0 drift0 sent m = 2 * pi / 375 * (f0 + drift0 / 2 * (real (m div 256) - 81) / 81 + (real (unat (sent ! (m div 256))) - 1.5) * 375 / 256)"

definition sent_phase :: "real \<Rightarrow> real \<Rightarrow> u8 list \<Rightarrow> nat \<Rightarrow> real" where
  "sent_phase f0 drift0 sent n = (\<Sum>m < n. sent_turn f0 drift0 sent m)"

lemma pi_of_atan_exact: "pi_of_atan exact_ops (pi / 4) = pi"
  by (simp add: pi_of_atan_def)

lemma reference_turn_exact:
  "reference_turn exact_ops (pi / 4) f0 drift0 i c = 2 * pi / 375 * (f0 + drift0 / 2 * (real i - 81) / 81 + (real (unat c) - 1.5) * 375 / 256)"
  by (simp add: reference_turn_def pi_of_atan_exact wspr_dt_def wspr_df_def)

lemma concat_replicate_nth: "m < n * k \<Longrightarrow> concat (map (\<lambda>i. replicate k (f i)) [0..<n]) ! m = f (m div k)"
proof (induction n)
  case (Suc n)
  have l: "length (concat (map (\<lambda>i. replicate k (f i)) [0..<n])) = n * k" by (simp add: length_concat sum_list_triv o_def)
  show ?case
  proof (cases "m < n * k")
    case True
    then show ?thesis using Suc.IH l by (simp add: nth_append)
  next
    case False
    then have "m div k = n" by (intro div_nat_eqI) (use Suc.prems in \<open>simp_all add: mult.commute\<close>)
    moreover have "m - n * k < k" using False Suc.prems by simp
    ultimately show ?thesis using False l by (simp add: nth_append)
  qed
qed simp

lemma reference_phases_exact: "n < length turns \<Longrightarrow> reference_phases exact_ops turns phi ! n = phi + (\<Sum>m < n. turns ! m)"
proof (induction turns arbitrary: phi n)
  case (Cons t ts)
  show ?case
  proof (cases n)
    case (Suc k)
    have "(\<Sum>m < Suc k. (t # ts) ! m) = t + (\<Sum>m < k. ts ! m)" by (simp only: sum.lessThan_Suc_shift nth_Cons_0 nth_Cons_Suc)
    then show ?thesis using Cons Suc by simp
  qed simp
qed simp

lemma length_reference_phases: "length (reference_phases ops turns phi) = length turns"
  by (induction turns arbitrary: phi) simp_all

definition refs_of :: "real \<Rightarrow> real \<Rightarrow> u8 list \<Rightarrow> (real \<times> real) list" where
  "refs_of f0 drift0 sent = map (\<lambda>n. (cos (sent_phase f0 drift0 sent n), sin (sent_phase f0 drift0 sent n))) [0..<NSIG]"

lemma refs_exact:
  "map (\<lambda>phi. (f_cos exact_ops phi, f_sin exact_ops phi)) (reference_phases exact_ops
      (concat (map (\<lambda>i. replicate 256 (reference_turn exact_ops (pi / 4) f0 drift0 i (sent ! i))) [0..<162])) (f_of exact_ops 0)) = refs_of f0 drift0 sent"
proof -
  let ?ts = "concat (map (\<lambda>i. replicate 256 (reference_turn exact_ops (pi / 4) f0 drift0 i (sent ! i))) [0..<162])"
  have l: "length ?ts = NSIG" by (simp add: length_concat sum_list_triv o_def NSIG_def)
  have t: "?ts ! m = sent_turn f0 drift0 sent m" if "m < NSIG" for m
  proof -
    have "m < 162 * 256" using that by (simp add: NSIG_def)
    then have "?ts ! m = reference_turn exact_ops (pi / 4) f0 drift0 (m div 256) (sent ! (m div 256))" by (rule concat_replicate_nth)
    then show ?thesis unfolding reference_turn_exact sent_turn_def .
  qed
  show ?thesis
  proof (rule nth_equalityI)
    fix n assume "n < length (map (\<lambda>phi. (f_cos exact_ops phi, f_sin exact_ops phi)) (reference_phases exact_ops ?ts (f_of exact_ops 0)))"
    then have n: "n < NSIG" by (simp only: length_map length_reference_phases l)
    have "(\<Sum>m < n. ?ts ! m) = sent_phase f0 drift0 sent n" unfolding sent_phase_def by (rule sum.cong) (use n t in auto)
    then have "reference_phases exact_ops ?ts (f_of exact_ops 0) ! n = sent_phase f0 drift0 sent n"
      using reference_phases_exact [of n ?ts "f_of exact_ops 0"] n l by simp
    then show "map (\<lambda>phi. (f_cos exact_ops phi, f_sin exact_ops phi)) (reference_phases exact_ops ?ts (f_of exact_ops 0)) ! n = refs_of f0 drift0 sent ! n"
      using n l by (simp add: refs_of_def length_reference_phases)
  qed (simp add: length_reference_phases l refs_of_def)
qed

section \<open>The window\<close>

definition window :: "nat \<Rightarrow> real" where "window t = sin (pi * real t / 359) / (\<Sum>u < 360. sin (pi * real u / 359))"

lemma window_list: "filter_window exact_ops (pi / 4) = map window [0..<360]"
proof -
  have f: "fold (\<lambda>x norm. f_add exact_ops norm x) xs z = z + sum_list xs" for xs z by (induction xs arbitrary: z) simp_all
  have "sum_list (map (\<lambda>i. sin (pi * real i / 359)) [0..<360]) = (\<Sum>u < 360. sin (pi * real u / 359))"
    by (simp only: interv_sum_list_conv_sum_set_nat set_upt atLeast0LessThan)
  then show ?thesis unfolding filter_window_def Let_def f by (simp add: pi_of_atan_exact NFILT_def window_def)
qed

lemma sine_nonneg: "t \<le> 359 \<Longrightarrow> 0 \<le> sin (pi * real t / 359)"
  by (intro sin_ge_zero) (simp_all add: field_simps)

lemma sine_pos: "0 < t \<Longrightarrow> t < 359 \<Longrightarrow> 0 < sin (pi * real t / 359)"
  by (intro sin_gt_zero) (simp_all add: field_simps)

lemma norm_pos: "0 < (\<Sum>u < (360 :: nat). sin (pi * real u / 359))"
proof -
  have "sin (pi * real (1 :: nat) / 359) \<le> (\<Sum>u < (360 :: nat). sin (pi * real u / 359))"
    by (rule member_le_sum) (auto intro: sine_nonneg)
  then show ?thesis using sine_pos [of 1] by linarith
qed

lemma window_zero: "window 0 = 0"
  by (simp add: window_def)

lemma window_nonneg: "t \<le> 359 \<Longrightarrow> 0 \<le> window t"
  using sine_nonneg [of t] norm_pos by (simp add: window_def divide_nonneg_pos)

lemma window_pos: "0 < t \<Longrightarrow> t < 359 \<Longrightarrow> 0 < window t"
  using sine_pos [of t] norm_pos by (simp add: window_def)

lemma window_total: "(\<Sum>t < 360. window t) = 1"
  using norm_pos unfolding window_def sum_divide_distrib [symmetric] by simp

lemma window_sym: "t \<le> 359 \<Longrightarrow> window (359 - t) = window t"
proof -
  assume t: "t \<le> 359"
  then have e: "pi * real (359 - t) / 359 = pi - pi * real t / 359" by (simp add: of_nat_diff right_diff_distrib diff_divide_distrib)
  show ?thesis unfolding window_def e by simp
qed

abbreviation window_sum :: "nat \<Rightarrow> real" where "window_sum n \<equiv> (\<Sum>t < n. window t)"

lemma partialsum_exact: "n < 360 \<Longrightarrow> partialsum exact_ops (map window [0..<360]) n = window_sum (n + 1)"
proof -
  assume n: "n < 360"
  have "partialsum exact_ops (map window [0..<360]) n = (\<Sum>i \<in> {1..<n + 1}. map window [0..<360] ! i)"
    unfolding partialsum_def using fold_sum [of "\<lambda>i. map window [0..<360] ! i" 1 "n + 1" 0] by simp
  also have "\<dots> = (\<Sum>i \<in> {1..<n + 1}. window i)" by (rule sum.cong) (use n in auto)
  also have "\<dots> = window_sum (n + 1)" by (simp add: lessThan_atLeast0 sum.atLeast_Suc_lessThan window_zero)
  finally show ?thesis .
qed

lemma window_sum_pos: "2 \<le> n \<Longrightarrow> n \<le> 360 \<Longrightarrow> 0 < window_sum n"
proof -
  assume n: "2 \<le> n" "n \<le> 360"
  have "window 1 \<le> window_sum n" by (rule member_le_sum) (use n window_nonneg in auto)
  then show ?thesis using window_pos [of 1] by linarith
qed

text \<open>What of the window is inside the signal, sample by sample.\<close>

definition inside :: "nat \<Rightarrow> real" where
  "inside i = (\<Sum>t < 360. if 180 \<le> i + t \<and> i + t < 41652 then window t else 0)"

lemma inside_start: "i < 180 \<Longrightarrow> inside i = window_sum (180 + i)"
proof -
  assume i: "i < 180"
  have "inside i = (\<Sum>t < 360. if 180 \<le> i + (359 - t) \<and> i + (359 - t) < 41652 then window (359 - t) else 0)"
  proof -
    have "(\<Sum>t < 360. if 180 \<le> i + (360 - Suc t) \<and> i + (360 - Suc t) < 41652 then window (360 - Suc t) else 0) = inside i"
      unfolding inside_def by (rule sum.nat_diff_reindex)
    moreover have "360 - Suc t = 359 - t" for t by simp
    ultimately show ?thesis by (simp only:)
  qed
  also have "\<dots> = (\<Sum>t < 360. if t < 180 + i then window t else 0)"
    by (rule sum.cong) (use i window_sym in auto)
  also have "\<dots> = window_sum (180 + i)"
  proof -
    have "{t. t < 360} \<inter> {t. t < 180 + i} = {..<180 + i}" using i by auto
    then show ?thesis by (simp add: sum.If_cases lessThan_def)
  qed
  finally show ?thesis .
qed

lemma inside_middle: "180 \<le> i \<Longrightarrow> i \<le> 41291 \<Longrightarrow> inside i = 1"
proof -
  assume i: "180 \<le> i" "i \<le> 41291"
  have "inside i = window_sum 360" unfolding inside_def by (rule sum.cong) (use i in auto)
  then show ?thesis using window_total by simp
qed

lemma inside_end: "41291 < i \<Longrightarrow> i < 41472 \<Longrightarrow> inside i = window_sum (41652 - i)"
proof -
  assume i: "41291 < i" "i < 41472"
  have "inside i = (\<Sum>t < 360. if t < 41652 - i then window t else 0)" unfolding inside_def by (rule sum.cong) (use i in auto)
  also have "\<dots> = window_sum (41652 - i)"
  proof -
    have "{t. t < 360} \<inter> {t. t < 41652 - i} = {..<41652 - i}" using i by auto
    then show ?thesis by (simp add: sum.If_cases lessThan_def)
  qed
  finally show ?thesis .
qed


section \<open>A coherent signal is removed\<close>

text \<open>From \<open>shift0\<close> on the samples are the reference times one complex number.\<close>

definition coherent :: "complex \<Rightarrow> real \<Rightarrow> real \<Rightarrow> u8 list \<Rightarrow> int \<Rightarrow> real list \<Rightarrow> real list \<Rightarrow> bool" where
  "coherent a f0 drift0 sent shift0 idat qdat \<longleftrightarrow>
     (\<forall>i < NSIG. idat ! nat (shift0 + int i) = Re (a * cis (sent_phase f0 drift0 sent i)) \<and>
                 qdat ! nat (shift0 + int i) = Im (a * cis (sent_phase f0 drift0 sent i)))"

lemma turned_back:
  "(u * cos t - v * sin t) * cos t + (u * sin t + v * cos t) * sin t = (u :: real)" "(u * sin t + v * cos t) * cos t - (u * cos t - v * sin t) * sin t = v"
proof -
  have "(u * cos t - v * sin t) * cos t + (u * sin t + v * cos t) * sin t = u * ((cos t)\<^sup>2 + (sin t)\<^sup>2)" unfolding power2_eq_square by algebra
  then show "(u * cos t - v * sin t) * cos t + (u * sin t + v * cos t) * sin t = u" by simp
  have "(u * sin t + v * cos t) * cos t - (u * cos t - v * sin t) * sin t = v * ((cos t)\<^sup>2 + (sin t)\<^sup>2)" unfolding power2_eq_square by algebra
  then show "(u * sin t + v * cos t) * cos t - (u * cos t - v * sin t) * sin t = v" by simp
qed

lemma mixed_nth:
  assumes "coherent a f0 drift0 sent shift0 idat qdat" "0 < shift0" "shift0 + int NSIG \<le> npts" "n < NC2"
  shows "mixed_down exact_ops idat qdat npts shift0 (refs_of f0 drift0 sent) ! n = (if 360 \<le> n \<and> n < 41832 then (Re a, Im a) else (0, 0))"
proof (cases "360 \<le> n \<and> n < 41832")
  case True
  then have "n = n - NFILT + NFILT" "n - NFILT < NSIG" by (auto simp: NFILT_def NSIG_def)
  then obtain i where n: "n = i + NFILT" and i: "i < NSIG" by blast
  let ?t = "sent_phase f0 drift0 sent i"
  have k: "0 < shift0 + int i" "shift0 + int i < npts" using assms(2,3) i by auto
  have z: "idat ! nat (shift0 + int i) = Re a * cos ?t - Im a * sin ?t" "qdat ! nat (shift0 + int i) = Re a * sin ?t + Im a * cos ?t"
    using assms(1) i unfolding coherent_def by simp_all
  have "mixed_down exact_ops idat qdat npts shift0 (refs_of f0 drift0 sent) ! n = (Re a, Im a)"
    unfolding mixed_down_def using assms(4) i k by (simp add: n Let_def refs_of_def z turned_back)
  then show ?thesis using True by simp
next
  case False
  then show ?thesis using assms(4) by (auto simp: mixed_down_def Let_def NFILT_def NSIG_def split: prod.splits)
qed

lemma filter_fold:
  "fold (\<lambda>j (x, y). let (ci, cq) = c (j :: nat) in (f_add exact_ops x (f_times exact_ops (w j) ci), f_add exact_ops y (f_times exact_ops (w j) cq))) [0..<n] (0, 0) =
    (\<Sum>j < n. w j * fst (c j), \<Sum>j < n. w j * snd (c j))"
  by (induction n) (simp_all add: Let_def split_beta)

lemma low_pass_nth:
  assumes "coherent a f0 drift0 sent shift0 idat qdat" "0 < shift0" "shift0 + int NSIG \<le> npts" "i < NSIG"
  shows "low_pass exact_ops (map window [0..<360]) (mixed_down exact_ops idat qdat npts shift0 (refs_of f0 drift0 sent)) ! (i + NFILT) = (Re a * inside i, Im a * inside i)"
proof -
  let ?c = "mixed_down exact_ops idat qdat npts shift0 (refs_of f0 drift0 sent)"
  let ?z = "\<lambda>j. ?c ! (i + NFILT - NFILT div 2 + j)"
  have i: "i + NFILT < NC2" "NFILT div 2 \<le> i + NFILT" "i + NFILT < NC2 - NFILT div 2" using assms(4) by (simp_all add: NFILT_def NC2_def NSIG_def)
  have z: "?z t = (if 180 \<le> i + t \<and> i + t < 41652 then (Re a, Im a) else (0, 0))" if "t < 360" for t
  proof -
    have "i + NFILT - NFILT div 2 + t < NC2" using that assms(4) by (simp add: NFILT_def NC2_def NSIG_def)
    from mixed_nth [OF assms(1-3) this] show ?thesis by (simp add: NFILT_def)
  qed
  have "low_pass exact_ops (map window [0..<360]) ?c ! (i + NFILT) =
      (\<Sum>t < NFILT. map window [0..<360] ! t * fst (?z t), \<Sum>t < NFILT. map window [0..<360] ! t * snd (?z t))"
    unfolding low_pass_def using i filter_fold [of ?z "\<lambda>j. map window [0..<360] ! j" NFILT] by simp
  also have "(\<Sum>t < NFILT. map window [0..<360] ! t * fst (?z t)) = (\<Sum>t < 360. Re a * (if 180 \<le> i + t \<and> i + t < 41652 then window t else 0))"
    unfolding NFILT_def by (rule sum.cong) (use z in \<open>auto simp: NFILT_def\<close>)
  also have "(\<Sum>t < NFILT. map window [0..<360] ! t * snd (?z t)) = (\<Sum>t < 360. Im a * (if 180 \<le> i + t \<and> i + t < 41652 then window t else 0))"
    unfolding NFILT_def by (rule sum.cong) (use z in \<open>auto simp: NFILT_def\<close>)
  finally show ?thesis unfolding inside_def sum_distrib_left .
qed

text \<open>The writes of the last loop.\<close>

lemma writes_nth:
  fixes F G :: "nat \<Rightarrow> real \<Rightarrow> real"
  assumes "0 < shift0" "shift0 + int n \<le> npts" "npts \<le> int (length idat)" "length qdat = length idat"
  shows "case fold (\<lambda>i (x, y). let k = shift0 + int i in if k > 0 \<and> k < npts then (x[nat k := F i (x ! nat k)], y[nat k := G i (y ! nat k)]) else (x, y)) [0..<n] (idat, qdat)
    of (x, y) \<Rightarrow> length x = length idat \<and> length y = length idat \<and>
      (\<forall>i < n. x ! nat (shift0 + int i) = F i (idat ! nat (shift0 + int i)) \<and> y ! nat (shift0 + int i) = G i (qdat ! nat (shift0 + int i))) \<and>
      (\<forall>k. (\<forall>i < n. k \<noteq> nat (shift0 + int i)) \<longrightarrow> x ! k = idat ! k \<and> y ! k = qdat ! k)"
  using assms(2)
proof (induction n)
  case (Suc n)
  let ?f = "\<lambda>i (x, y). let k = shift0 + int i in if k > 0 \<and> k < npts then (x[nat k := F i (x ! nat k)], y[nat k := G i (y ! nat k)]) else (x, y)"
  let ?k = "nat (shift0 + int n)"
  obtain x y where e: "fold ?f [0..<n] (idat, qdat) = (x, y)" by force
  with Suc have h: "length x = length idat" "length y = length idat"
    "\<And>i. i < n \<Longrightarrow> x ! nat (shift0 + int i) = F i (idat ! nat (shift0 + int i)) \<and> y ! nat (shift0 + int i) = G i (qdat ! nat (shift0 + int i))"
    "\<And>k. (\<forall>i < n. k \<noteq> nat (shift0 + int i)) \<Longrightarrow> x ! k = idat ! k \<and> y ! k = qdat ! k" by auto
  have k: "?k < length idat" "shift0 + int n > 0" "shift0 + int n < npts" using Suc.prems assms(1,3) by auto
  have d: "nat (shift0 + int i) \<noteq> ?k" if "i < n" for i using that assms(1) by auto
  have s: "fold ?f [0..<Suc n] (idat, qdat) = (x[?k := F n (x ! ?k)], y[?k := G n (y ! ?k)])" using e k by (simp add: Let_def)
  have u: "x ! ?k = idat ! ?k \<and> y ! ?k = qdat ! ?k" by (rule h(4)) (use d in metis)
  show ?case unfolding s prod.case
  proof (intro conjI allI impI)
    fix i assume "i < Suc n"
    then show "x[?k := F n (x ! ?k)] ! nat (shift0 + int i) = F i (idat ! nat (shift0 + int i))" "y[?k := G n (y ! ?k)] ! nat (shift0 + int i) = G i (qdat ! nat (shift0 + int i))"
      using h(1-3) u d k by (cases "i = n"; simp)+
  next
    fix k assume a: "\<forall>i < Suc n. k \<noteq> nat (shift0 + int i)"
    then show "x[?k := F n (x ! ?k)] ! k = idat ! k" "y[?k := G n (y ! ?k)] ! k = qdat ! k" using h(4) [of k] by auto
  qed (use h in simp_all)
qed (simp add: assms(4))


lemma rest_of:
  fixes u v t g n :: real
  shows "u * cos t - v * sin t - ((u * g) * cos t - (v * g) * sin t) / n = (1 - g / n) * (u * cos t - v * sin t)"
    and "u * sin t + v * cos t - ((u * g) * sin t + (v * g) * cos t) / n = (1 - g / n) * (u * sin t + v * cos t)"
  by (simp_all add: algebra_simps diff_divide_distrib add_divide_distrib)

text \<open>What is left of the signal: nothing, except in the first 180 samples.\<close>

definition left_over :: "nat \<Rightarrow> real" where
  "left_over i = (if i < 180 then window (180 + i) / window_sum (181 + i) else 0)"

lemma edge_exact: "i < NSIG \<Longrightarrow> 1 - inside i / edge_norm exact_ops (map window [0..<360]) i = left_over i"
proof -
  assume i: "i < NSIG"
  consider "i < 180" | "180 \<le> i" "i \<le> 41291" | "41291 < i" by linarith
  then show ?thesis
  proof cases
    case 1
    have p: "0 < window_sum (181 + i)" by (rule window_sum_pos) (use 1 in auto)
    have "181 + i = Suc (180 + i)" by simp
    then have "window_sum (181 + i) = window_sum (180 + i) + window (180 + i)" by (simp only: sum.lessThan_Suc)
    moreover have "edge_norm exact_ops (map window [0..<360]) i = window_sum (181 + i)"
      using 1 partialsum_exact [of "180 + i"] by (simp add: edge_norm_def NFILT_def)
    ultimately show ?thesis using 1 p unfolding left_over_def inside_start [OF 1] by (simp add: field_simps)
  next
    case 2
    then show ?thesis by (simp add: inside_middle edge_norm_def NFILT_def NSIG_def left_over_def)
  next
    case 3
    have p: "0 < window_sum (41652 - i)" by (rule window_sum_pos) (use 3 i in \<open>auto simp: NSIG_def\<close>)
    have "180 + 41472 - 1 - i + 1 = 41652 - i" using i by (simp add: NSIG_def)
    then have "edge_norm exact_ops (map window [0..<360]) i = window_sum (41652 - i)"
      using 3 i partialsum_exact [of "180 + 41472 - 1 - i"] by (simp add: edge_norm_def NFILT_def NSIG_def)
    then show ?thesis using p 3 i inside_end [of i] by (simp add: left_over_def NSIG_def)
  qed
qed

text \<open>
  C37: a decoded signal is taken out. When the samples are a transmitter's signal without phase jumps, of any strength and phase, at the
  frequency, drift and shift given, then in exact arithmetic \<open>subtract_signal2\<close> leaves zero from sample 180 of the signal to
  its end, changes nothing outside, and leaves in the first 180 samples the part of the signal by which the sum of the window
  used there is one tap too long.
\<close>

theorem subtraction_removes:
  assumes "coherent a f0 drift0 sent shift0 idat qdat" and "0 < shift0" and "shift0 + int NSIG \<le> npts" and "npts \<le> int (length idat)" and "length qdat = length idat"
  shows "case subtract_signal2 exact_ops (pi / 4) idat qdat npts f0 shift0 drift0 sent of (x, y) \<Rightarrow>
    length x = length idat \<and> length y = length idat \<and>
    (\<forall>i < NSIG. x ! nat (shift0 + int i) = left_over i * idat ! nat (shift0 + int i) \<and> y ! nat (shift0 + int i) = left_over i * qdat ! nat (shift0 + int i)) \<and>
    (\<forall>k. (\<forall>i < NSIG. k \<noteq> nat (shift0 + int i)) \<longrightarrow> x ! k = idat ! k \<and> y ! k = qdat ! k)"
proof -
  let ?w = "map window [0..<360]" and ?r = "refs_of f0 drift0 sent"
  let ?cf = "low_pass exact_ops ?w (mixed_down exact_ops idat qdat npts shift0 ?r)"
  let ?F = "\<lambda>i v. v - (fst (?cf ! (i + NFILT)) * fst (?r ! i) - snd (?cf ! (i + NFILT)) * snd (?r ! i)) / edge_norm exact_ops ?w i"
  let ?G = "\<lambda>i v. v - (fst (?cf ! (i + NFILT)) * snd (?r ! i) + snd (?cf ! (i + NFILT)) * fst (?r ! i)) / edge_norm exact_ops ?w i"
  have run: "subtract_signal2 exact_ops (pi / 4) idat qdat npts f0 shift0 drift0 sent =
      fold (\<lambda>i (x, y). let k = shift0 + int i in if k > 0 \<and> k < npts then (x[nat k := ?F i (x ! nat k)], y[nat k := ?G i (y ! nat k)]) else (x, y)) [0..<NSIG] (idat, qdat)"
    unfolding subtract_signal2_def refs_exact window_list Let_def by (simp add: split_beta cong: if_cong)
  have f: "?F i (idat ! nat (shift0 + int i)) = left_over i * idat ! nat (shift0 + int i) \<and> ?G i (qdat ! nat (shift0 + int i)) = left_over i * qdat ! nat (shift0 + int i)"
    if i: "i < NSIG" for i
  proof -
    have z: "idat ! nat (shift0 + int i) = Re a * cos (sent_phase f0 drift0 sent i) - Im a * sin (sent_phase f0 drift0 sent i)"
      "qdat ! nat (shift0 + int i) = Re a * sin (sent_phase f0 drift0 sent i) + Im a * cos (sent_phase f0 drift0 sent i)"
      using assms(1) i unfolding coherent_def by simp_all
    have r: "?r ! i = (cos (sent_phase f0 drift0 sent i), sin (sent_phase f0 drift0 sent i))" using i by (simp add: refs_of_def)
    show ?thesis unfolding low_pass_nth [OF assms(1-3) i] r z fst_conv snd_conv rest_of edge_exact [OF i] by (intro conjI refl)
  qed
  from writes_nth [OF assms(2-5), of ?F ?G] f show ?thesis unfolding run by auto
qed


text \<open>Something does stay in the first samples.\<close>

lemma left_over_start: "i < 179 \<Longrightarrow> 0 < left_over i"
  using window_pos [of "180 + i"] window_sum_pos [of "181 + i"] by (simp add: left_over_def)

text \<open>Soft symbols on the right side of the middle count no errors.\<close>

lemma no_hard_errors:
  assumes "length junk = 162" "length junk' = 162" "length soft = 162" "length sent = 162"
    and "\<forall>i < 162. 127 < soft ! i \<longleftrightarrow> 2 \<le> sent ! i" and "deinterleave junk' soft = Some rx"
  shows "count_hard_errors junk rx sent = Some 0"
proof -
  have rx: "rx = map (\<lambda>p. soft ! (positions ! p)) [0..<162]" using assms(6) deinterleave_result [OF assms(2), of soft] assms(3) by simp
  let ?c = "map (\<lambda>c. if 2 \<le> c then 1 else 0 :: u8) (take 162 sent)"
  have cw: "deinterleave junk ?c = Some (map (\<lambda>p. ?c ! (positions ! p)) [0..<162])"
    using deinterleave_result [OF assms(1), of ?c] assms(4) by simp
  have z: "(if (if 127 < rx ! i then 1 else 0) = map (\<lambda>p. ?c ! (positions ! p)) [0..<162] ! i then 0 else 1) = (0 :: nat)" if "i < 162" for i
    using that assms(4,5) positions_nth_less [OF that] by (simp add: rx)
  have "fold (\<lambda>i nerrors. nerrors + (if (if 127 < rx ! i then 1 else 0) = map (\<lambda>p. ?c ! (positions ! p)) [0..<162] ! i then 0 else 1)) [0..<n] (0 :: nat) = 0" if "n \<le> 162" for n
    using that
  proof (induction n)
    case (Suc n)
    then show ?case using z [of n] by (simp only: upt_Suc_append fold_append o_apply fold_simps)
  qed simp
  then show ?thesis unfolding count_hard_errors_def cw by simp
qed

section \<open>Example\<close>

definition steady_i :: "u8 list \<Rightarrow> real list" where "steady_i sent = map (\<lambda>k. cos (sent_phase 0 0 sent (k - 1))) [0..<41473]"
definition steady_q :: "u8 list \<Rightarrow> real list" where "steady_q sent = map (\<lambda>k. sin (sent_phase 0 0 sent (k - 1))) [0..<41473]"

lemma steady_coherent: "coherent 1 0 0 sent 1 (steady_i sent) (steady_q sent)"
  unfolding coherent_def
proof (intro allI impI)
  fix i assume "i < NSIG"
  then have "nat (1 + int i) < 41473" "nat (1 + int i) - 1 = i" by (simp_all add: NSIG_def)
  then show "steady_i sent ! nat (1 + int i) = Re (1 * cis (sent_phase 0 0 sent i)) \<and> steady_q sent ! nat (1 + int i) = Im (1 * cis (sent_phase 0 0 sent i))"
    by (simp add: steady_i_def steady_q_def)
qed

theorem subtraction_removes_witness:
  "fst (subtract_signal2 exact_ops (pi / 4) (steady_i demo_sent) (steady_q demo_sent) 41473 0 1 0 demo_sent) ! 41472 = 0"
proof -
  have "(1 :: int) + int NSIG \<le> 41473" "(41473 :: int) \<le> int (length (steady_i demo_sent))" "length (steady_q demo_sent) = length (steady_i demo_sent)"
    by (simp_all add: NSIG_def steady_i_def steady_q_def)
  from subtraction_removes [OF steady_coherent _ this]
  have "\<forall>i < NSIG. fst (subtract_signal2 exact_ops (pi / 4) (steady_i demo_sent) (steady_q demo_sent) 41473 0 1 0 demo_sent) ! nat (1 + int i) =
      left_over i * steady_i demo_sent ! nat (1 + int i)" by (simp add: split_beta)
  from this [rule_format, of 41471] show ?thesis by (simp add: NSIG_def left_over_def)
qed

end
