(* ===== verification/DecoderBridge.thy ===== *)
theory DecoderBridge
  imports Host "HOL-Library.Monad_Syntax"
begin

text \<open>
  Between the receiver and the WSPR decoder, a program of its own: the file with the samples (\<open>write_c2\<close> in
  \<open>decoder_bridge.c\<close>, \<open>readc2file\<close> and \<open>writec2file\<close> in \<open>core/wsprd.c\<close>), the lines the decoder prints for its results and
  \<open>parse_results\<close> that reads them. Numbers of type \<open>float\<close> and \<open>double\<close>, their printing and reading are arguments.
\<close>

section \<open>The file with the samples\<close>

text \<open>A file as the sequence of the members that are written and read as memory: a name of 14 bytes, the type, the frequency, the
  samples.\<close>

record ('f, 'd) c2_file =
  c2_name :: "char list"
  c2_type :: int
  c2_freq :: 'd
  c2_samples :: "'f list"

definition C2_SAMPLE_COUNT :: nat where "C2_SAMPLE_COUNT = 45000"

definition base_name :: "string \<Rightarrow> string" where
  "base_name path = (if CHR ''/'' \<in> set path then rev (takeWhile (\<lambda>c. c \<noteq> CHR ''/'') (rev path)) else path)"

text \<open>\<open>neg\<close> is the change of sign of a \<open>float\<close>, \<open>zero\<close> the \<open>float\<close> of zero bytes.\<close>

definition write_c2 :: "('f \<Rightarrow> 'f) \<Rightarrow> 'f \<Rightarrow> string \<Rightarrow> 'f list \<Rightarrow> 'f list \<Rightarrow> nat \<Rightarrow> 'd \<Rightarrow> ('f, 'd) c2_file" where
  "write_c2 neg zero path i_samples q_samples sample_count dial_frequency_mhz =
     (let name = base_name path;
          sample_count = (if sample_count > C2_SAMPLE_COUNT then C2_SAMPLE_COUNT else sample_count)
      in \<lparr>c2_name = take 14 name @ replicate (14 - length name) NUL, c2_type = 2, c2_freq = dial_frequency_mhz,
          c2_samples = fold (\<lambda>index buffer. (buffer[index * 2 := i_samples ! index])[index * 2 + 1 := neg (q_samples ! index)])
            [0..<sample_count] (replicate (C2_SAMPLE_COUNT * 2) zero)\<rparr>)"

text \<open>The number of points (1 for a file that is too short), the arrays of the caller, the frequency and the type.\<close>

definition readc2file :: "('f \<Rightarrow> 'f) \<Rightarrow> 'f \<Rightarrow> ('f, 'd) c2_file option \<Rightarrow> 'f list \<Rightarrow> 'f list \<Rightarrow> (nat \<times> 'f list \<times> 'f list \<times> ('d \<times> int) option)" where
  "readc2file neg zero file idat qdat =
     (case file of None \<Rightarrow> (1, idat, qdat, None)
      | Some f \<Rightarrow>
          let buffer = take (2 * 45000) (c2_samples f) @ replicate (2 * 65536 - length (take (2 * 45000) (c2_samples f))) zero;
              nr = length (take (2 * 45000) (c2_samples f))
          in (if nr = 2 * 45000 then nr div 2 else 1,
              fold (\<lambda>i x. x[i := buffer ! (2 * i)]) [0..<45000] idat,
              fold (\<lambda>i x. x[i := neg (buffer ! (2 * i + 1))]) [0..<45000] qdat,
              Some (c2_freq f, c2_type f)))"

definition writec2file :: "('f \<Rightarrow> 'f) \<Rightarrow> string \<Rightarrow> int \<Rightarrow> 'd \<Rightarrow> 'f list \<Rightarrow> 'f list \<Rightarrow> ('f, 'd) c2_file" where
  "writec2file neg c2filename trmin freq idat qdat =
     \<lparr>c2_name = take 14 c2filename, c2_type = trmin, c2_freq = freq,
      c2_samples = concat (map (\<lambda>i. [idat ! i, neg (qdat ! i)]) [0..<45000])\<rparr>"

section \<open>The lines of the results\<close>

text \<open>\<open>struct result\<close> of the decoder, what of it is printed for the receiver.\<close>

record ('f, 'd) wspr_decode =
  wd_date :: string
  wd_time :: string
  wd_sync10 :: int
  wd_snr :: 'f
  wd_dt :: 'f
  wd_freq :: 'd
  wd_message :: string
  wd_drift :: int
  wd_cycles :: u32
  wd_jitter :: int

text \<open>Printing of numbers: width, digits, number.\<close>

record ('f, 'd) print_ops =
  print_f :: "nat \<Rightarrow> nat \<Rightarrow> 'f \<Rightarrow> string"
  print_d :: "nat \<Rightarrow> nat \<Rightarrow> 'd \<Rightarrow> string"
  scan_f :: "string \<Rightarrow> ('f \<times> string) option"
  scan_lf :: "string \<Rightarrow> ('d \<times> string) option"
  f_tenths :: "int \<Rightarrow> 'f"
  f_whole :: "int \<Rightarrow> 'f"

definition NEWLINE :: char where "NEWLINE = CHR 0x0A"

definition spot_line :: "('f, 'd) print_ops \<Rightarrow> ('f, 'd) wspr_decode \<Rightarrow> string" where
  "spot_line ops d =
     pad_left 6 CHR '' '' (wd_date d) @ '' '' @ pad_left 4 CHR '' '' (wd_time d) @ '' '' @ pad_left 3 CHR '' '' (fmt_int (wd_sync10 d)) @ '' '' @
     print_f ops 3 0 (wd_snr d) @ '' '' @ print_f ops 4 1 (wd_dt d) @ '' '' @ print_d ops 10 6 (wd_freq d) @ ''  '' @
     pad_right 22 CHR '' '' (wd_message d) @ '' '' @ pad_left 2 CHR '' '' (fmt_int (wd_drift d)) @ '' '' @
     pad_left 5 CHR '' '' (dec_digits (unat (wd_cycles d) div 81)) @ '' '' @ pad_left 4 CHR '' '' (fmt_int (wd_jitter d)) @ [NEWLINE]"

record ('f, 'd) decoder_results =
  dr_freq :: 'd
  dr_sync :: 'f
  dr_snr :: 'f
  dr_dt :: 'f
  dr_drift :: 'f
  dr_jitter :: int
  dr_message :: string
  dr_call :: string
  dr_loc :: string
  dr_pwr :: string
  dr_cycles :: nat

text \<open>\<open>%ns\<close> of \<open>sscanf\<close>: a word of at most \<open>n\<close> characters. \<open>%u\<close> reads with \<open>strtoul\<close> and keeps 32 bits.\<close>

definition scan_s :: "nat \<Rightarrow> string \<Rightarrow> (string \<times> string) option" where
  "scan_s n s = (let t = dropWhile c_isspace s; w = takeWhile (\<lambda>c. \<not> c_isspace c) (take n t) in if w = [] then None else Some (w, drop (length w) t))"

definition scan_u :: "string \<Rightarrow> (nat \<times> string) option" where
  "scan_u s = map_option (\<lambda>(v, rest). (v mod 2 ^ 32, rest)) (scan_llu s)"

definition parse_result_line :: "('f, 'd) print_ops \<Rightarrow> string \<Rightarrow> ('f, 'd) decoder_results option" where
  "parse_result_line ops line = do {
     (date, s) \<leftarrow> scan_s 6 line;
     (time, s) \<leftarrow> scan_s 4 s;
     (sync_tenths, s) \<leftarrow> scan_d s;
     (snr, s) \<leftarrow> scan_f ops s;
     (dt, s) \<leftarrow> scan_f ops s;
     (frequency, s) \<leftarrow> scan_lf ops s;
     (call, s) \<leftarrow> scan_s 12 s;
     (grid, s) \<leftarrow> scan_s 6 s;
     (power, s) \<leftarrow> scan_s 2 s;
     (drift, s) \<leftarrow> scan_d s;
     (cycles, s) \<leftarrow> scan_u s;
     (jitter, s) \<leftarrow> scan_d s;
     Some \<lparr>dr_freq = frequency, dr_sync = f_tenths ops sync_tenths, dr_snr = snr, dr_dt = dt, dr_drift = f_whole ops drift, dr_jitter = jitter,
       dr_message = take 22 (call @ '' '' @ grid @ '' '' @ power), dr_call = call, dr_loc = grid, dr_pwr = power, dr_cycles = cycles\<rparr>
   }"

text \<open>A line of \<open>fgets\<close> with a buffer of \<open>n\<close> bytes, and the rest of the file.\<close>

definition fgets_line :: "nat \<Rightarrow> string \<Rightarrow> string" where
  "fgets_line n s = (let l = take (n - 1) s; k = length (takeWhile (\<lambda>c. c \<noteq> NEWLINE) l) in take (k + 1) l)"

text \<open>The loop over the lines; one line that cannot be read ends it with an error.\<close>

fun parse_lines :: "('f, 'd) print_ops \<Rightarrow> nat \<Rightarrow> string \<Rightarrow> ('f, 'd) decoder_results list \<Rightarrow> ('f, 'd) decoder_results list option" where
  "parse_lines ops 0 contents results = Some results"
| "parse_lines ops (Suc capacity) contents results =
     (if contents = [] then Some results
      else let line = fgets_line 256 contents
           in case parse_result_line ops line of None \<Rightarrow> None
              | Some r \<Rightarrow> parse_lines ops capacity (drop (length line) contents) (results @ [r]))"

definition parse_results :: "('f, 'd) print_ops \<Rightarrow> nat \<Rightarrow> string option \<Rightarrow> ('f, 'd) decoder_results list option" where
  "parse_results ops result_capacity spots_file =
     (case spots_file of None \<Rightarrow> None | Some contents \<Rightarrow> parse_lines ops result_capacity contents [])"

text \<open>The options, and the arguments of the decoder.\<close>

record decoder_options =
  do_date :: string
  do_uttime :: string
  do_quickmode :: bool
  do_usehashtable :: bool
  do_npasses :: nat
  do_subtraction :: bool

definition core_arguments :: "string \<Rightarrow> string \<Rightarrow> string \<Rightarrow> decoder_options \<Rightarrow> string list" where
  "core_arguments executable input_path data_directory options =
     [executable, ''-a'', data_directory] @ (if \<not> do_usehashtable options then [''-H''] else []) @ (if do_quickmode options then [''-q''] else []) @
     (if \<not> do_subtraction options \<or> do_npasses options = 1 then [''-s''] else []) @ [input_path]"

definition join_path :: "string \<Rightarrow> string \<Rightarrow> string" where
  "join_path directory name = directory @ (if directory \<noteq> [] \<and> last directory \<noteq> CHR ''/'' then ''/'' else []) @ name"

text \<open>The decoder is an argument: from its arguments and the file with the samples, the file of its results if it makes one, or its
  failure. So is the temporary directory.\<close>

definition decode_wspr_frame ::
  "('f, 'd) print_ops \<Rightarrow> ('f \<Rightarrow> 'f) \<Rightarrow> 'f \<Rightarrow> (string list \<Rightarrow> ('f, 'd) c2_file \<Rightarrow> string option option) \<Rightarrow> string \<Rightarrow> string \<Rightarrow> string option \<Rightarrow>
     'f list \<Rightarrow> 'f list \<Rightarrow> nat \<Rightarrow> 'd \<Rightarrow> decoder_options \<Rightarrow> nat \<Rightarrow> ('f, 'd) decoder_results list option" where
  "decode_wspr_frame ops neg zero core executable runtime_directory temporary_directory i_samples q_samples sample_count dial options result_capacity =
     (if result_capacity = 0 then None
      else case temporary_directory of None \<Rightarrow> None
        | Some directory \<Rightarrow>
            let input_name = take 6 (do_date options) @ ''_'' @ take 4 (do_uttime options) @ ''.c2''
            in if length input_name \<noteq> 14 then None
               else
                 let input_path = join_path directory input_name
                 in case core (core_arguments executable input_path runtime_directory options) (write_c2 neg zero input_path i_samples q_samples sample_count dial) of
                      None \<Rightarrow> None
                    | Some spots_file \<Rightarrow> parse_results ops result_capacity spots_file)"

section \<open>The samples arrive\<close>

lemma interleave_fold:
  assumes "n \<le> m"
  shows "length (fold (\<lambda>index b. (b[index * 2 := f index])[index * 2 + 1 := g index]) [0..<n] (replicate (m * 2) z)) = m * 2"
    and "i < m \<Longrightarrow> fold (\<lambda>index b. (b[index * 2 := f index])[index * 2 + 1 := g index]) [0..<n] (replicate (m * 2) z) ! (2 * i) = (if i < n then f i else z)"
    and "i < m \<Longrightarrow> fold (\<lambda>index b. (b[index * 2 := f index])[index * 2 + 1 := g index]) [0..<n] (replicate (m * 2) z) ! (2 * i + 1) = (if i < n then g i else z)"
proof -
  let ?b = "\<lambda>n. fold (\<lambda>index b. (b[index * 2 := f index])[index * 2 + 1 := g index]) [0..<n] (replicate (m * 2) z)"
  have l: "length (?b n) = m * 2" for n by (induction n) simp_all
  have "(\<forall>i < m. ?b n ! (2 * i) = (if i < n then f i else z)) \<and> (\<forall>i < m. ?b n ! (2 * i + 1) = (if i < n then g i else z))" if "n \<le> m" for n
    using that
  proof (induction n)
    case (Suc n)
    have s: "?b (Suc n) = ((?b n)[n * 2 := f n])[n * 2 + 1 := g n]" by simp
    have n: "n * 2 < length (?b n)" "n * 2 + 1 < length (?b n)" using l [of n] Suc.prems by simp_all
    have p: "?b (Suc n) ! (2 * i) = (if i < Suc n then f i else z) \<and> ?b (Suc n) ! (2 * i + 1) = (if i < Suc n then g i else z)" if "i < m" for i
    proof (cases "i = n")
      case True
      then show ?thesis unfolding s using n by (simp add: nth_list_update mult.commute)
    next
      case False
      have "2 * i \<noteq> n * 2 + 1" "2 * i + 1 \<noteq> n * 2" by presburger+
      then show ?thesis unfolding s using False that Suc by (auto simp: nth_list_update_neq mult.commute)
    qed
    then show ?case by blast
  qed simp
  with assms l show "length (?b n) = m * 2" "i < m \<Longrightarrow> ?b n ! (2 * i) = (if i < n then f i else z)" "i < m \<Longrightarrow> ?b n ! (2 * i + 1) = (if i < n then g i else z)" by auto
qed

lemma fill_fold: "n \<le> length x \<Longrightarrow> fold (\<lambda>i x. x[i := f i]) [0..<n] x = map f [0..<n] @ drop n x"
proof (induction n)
  case (Suc n)
  then have "fold (\<lambda>i x. x[i := f i]) [0..<Suc n] x = (map f [0..<n] @ drop n x)[n := f n]" by simp
  also have "\<dots> = map f [0..<n] @ (f n # drop (Suc n) x)" using Suc.prems by (simp add: list_update_append Cons_nth_drop_Suc [symmetric])
  finally show ?case by simp
qed simp

text \<open>
  C40: the samples arrive at the decoder as they were captured. Reading the file that the receiver wrote gives 45000 points, the in-phase and
  the quadrature samples in order, zeros behind them when there were fewer, the dial frequency and the type; more than 45000
  samples are cut off.
\<close>

theorem c2_samples_arrive:
  assumes "\<forall>x. neg (neg x) = x" and "sample_count \<le> length i_samples" and "sample_count \<le> length q_samples"
    and "45000 \<le> length idat" and "45000 \<le> length qdat"
  shows "readc2file neg zero (Some (write_c2 neg zero path i_samples q_samples sample_count dial)) idat qdat =
    (45000, take 45000 (take sample_count i_samples) @ replicate (45000 - sample_count) zero @ drop 45000 idat,
     take 45000 (take sample_count q_samples) @ replicate (45000 - sample_count) (neg zero) @ drop 45000 qdat, Some (dial, 2))"
proof -
  let ?n = "if sample_count > C2_SAMPLE_COUNT then C2_SAMPLE_COUNT else sample_count"
  let ?b = "fold (\<lambda>index buffer. (buffer[index * 2 := i_samples ! index])[index * 2 + 1 := neg (q_samples ! index)]) [0..<?n] (replicate (C2_SAMPLE_COUNT * 2) zero)"
  have n: "?n \<le> C2_SAMPLE_COUNT" by simp
  note b = interleave_fold [OF n, where f = "\<lambda>i. i_samples ! i" and g = "\<lambda>i. neg (q_samples ! i)" and z = zero]
  have l: "length ?b = 2 * 45000" using b(1) by (simp add: C2_SAMPLE_COUNT_def)
  have e: "take (2 * 45000) ?b = ?b" using l by simp
  have i: "map (\<lambda>i. (?b @ replicate (2 * 65536 - length ?b) zero) ! (2 * i)) [0..<45000] = take 45000 (take sample_count i_samples) @ replicate (45000 - sample_count) zero"
  proof (rule nth_equalityI)
    fix i assume "i < length (map (\<lambda>i. (?b @ replicate (2 * 65536 - length ?b) zero) ! (2 * i)) [0..<45000])"
    then have "i < 45000" by simp
    then show "map (\<lambda>i. (?b @ replicate (2 * 65536 - length ?b) zero) ! (2 * i)) [0..<45000] ! i = (take 45000 (take sample_count i_samples) @ replicate (45000 - sample_count) zero) ! i"
      using b(2) [of i] l assms(2) by (auto simp: nth_append C2_SAMPLE_COUNT_def min_def)
  qed (use assms(2) in auto)
  have q: "map (\<lambda>i. neg ((?b @ replicate (2 * 65536 - length ?b) zero) ! (2 * i + 1))) [0..<45000] = take 45000 (take sample_count q_samples) @ replicate (45000 - sample_count) (neg zero)"
  proof (rule nth_equalityI)
    fix i assume "i < length (map (\<lambda>i. neg ((?b @ replicate (2 * 65536 - length ?b) zero) ! (2 * i + 1))) [0..<45000])"
    then have "i < 45000" by simp
    then show "map (\<lambda>i. neg ((?b @ replicate (2 * 65536 - length ?b) zero) ! (2 * i + 1))) [0..<45000] ! i = (take 45000 (take sample_count q_samples) @ replicate (45000 - sample_count) (neg zero)) ! i"
      using b(3) [of i] l assms(1,3) by (auto simp: nth_append C2_SAMPLE_COUNT_def min_def)
  qed (use assms(3) in auto)
  show ?thesis
    unfolding readc2file_def write_c2_def option.case Let_def c2_file.simps e fill_fold [OF assms(4)] fill_fold [OF assms(5)] i q using l by simp
qed


section \<open>Reading what was printed\<close>

definition word_text :: "string \<Rightarrow> bool" where "word_text s \<longleftrightarrow> s \<noteq> [] \<and> list_all (\<lambda>c. \<not> c_isspace c) s"

definition ends_word :: "string \<Rightarrow> bool" where "ends_word s \<longleftrightarrow> s = [] \<or> c_isspace (hd s)"

lemma blank_space: "c_isspace (CHR '' '')" "c_isspace NEWLINE"
  by code_simp+

lemma drop_spaces: "list_all c_isspace sp \<Longrightarrow> s = [] \<or> \<not> c_isspace (hd s) \<Longrightarrow> dropWhile c_isspace (sp @ s) = s"
proof (induction sp)
  case Nil
  then show ?case by (cases s) auto
qed simp

lemma word_head: "word_text w \<Longrightarrow> w @ s \<noteq> [] \<and> \<not> c_isspace (hd (w @ s))"
  by (cases w) (auto simp: word_text_def)

lemma scan_s_word:
  assumes "word_text w" "length w \<le> n" "list_all c_isspace sp" "ends_word rest"
  shows "scan_s n (sp @ w @ rest) = Some (w, rest)"
proof -
  have d: "dropWhile c_isspace (sp @ w @ rest) = w @ rest" by (rule drop_spaces [OF assms(3)]) (use word_head [OF assms(1)] in simp)
  have "takeWhile (\<lambda>c. \<not> c_isspace c) (take n (w @ rest)) = w"
  proof -
    have "take n (w @ rest) = w @ take (n - length w) rest" using assms(2) by simp
    moreover have "takeWhile (\<lambda>c. \<not> c_isspace c) (take (n - length w) rest) = []"
      using assms(4) by (cases rest; cases "n - length w") (auto simp: ends_word_def)
    ultimately show ?thesis using assms(1) by (simp add: word_text_def list_all_iff takeWhile_append2)
  qed
  then show ?thesis using assms(1) unfolding scan_s_def d by (simp add: word_text_def)
qed

lemma digits_of:
  assumes "rest = [] \<or> \<not> c_isdigit (hd rest)"
  shows "takeWhile c_isdigit (dec_digits n @ rest) = dec_digits n" "dropWhile c_isdigit (dec_digits n @ rest) = rest"
proof -
  have "\<forall>c \<in> set (dec_digits n). c_isdigit c" using dec_digits_digits [of n] by (simp add: list_all_iff)
  moreover have "takeWhile c_isdigit rest = []" "dropWhile c_isdigit rest = rest" using assms by (cases rest; auto)+
  ultimately show "takeWhile c_isdigit (dec_digits n @ rest) = dec_digits n" "dropWhile c_isdigit (dec_digits n @ rest) = rest"
    by (simp_all add: takeWhile_append2 dropWhile_append2)
qed

lemma digits_value_digits: "digits_value (dec_digits n) = n"
proof -
  have "int (foldl (\<lambda>v c. 10 * v + (code c - 48)) a s) = foldl (\<lambda>v c. 10 * v + (int (code c) - 48)) (int a) s" if "list_all c_isdigit s" for a s
    using that
  proof (induction s arbitrary: a)
    case (Cons c s)
    have "48 \<le> code c" using Cons.prems by (simp add: c_isdigit_def in_span_def)
    with Cons show ?case by (simp add: of_nat_diff add_diff_eq)
  qed simp
  from this [OF dec_digits_digits [of n], of 0] dec_digits_value [of n] show ?thesis by (simp add: digits_value_def)
qed

lemma digit_head: "dec_digits n @ s \<noteq> [] \<and> c_isdigit (hd (dec_digits n @ s))"
proof (cases "dec_digits n")
  case Nil
  then show ?thesis using dec_digits_nonempty [of n] by simp
next
  case (Cons c cs)
  then show ?thesis using dec_digits_digits [of n] by simp
qed

lemma digit_plain: "c_isdigit c \<Longrightarrow> \<not> c_isspace c \<and> c \<noteq> CHR ''-'' \<and> c \<noteq> CHR ''+''"
  by (auto simp: c_isdigit_def c_isspace_def in_span_def)

lemma sint_in_range: "- (2 ^ 31) \<le> v \<Longrightarrow> v < 2 ^ 31 \<Longrightarrow> sint (word_of_int v :: 32 word) = v"
  unfolding sint_sbintrunc' by (rule signed_take_bit_int_eq_self) simp_all

lemma scan_d_int:
  assumes "list_all c_isspace sp" "rest = [] \<or> \<not> c_isdigit (hd rest)" "- (2 ^ 31) \<le> v" "v < 2 ^ 31"
  shows "scan_d (sp @ fmt_int v @ rest) = Some (v, rest)"
proof (cases "v < 0")
  case True
  let ?n = "nat (- v)"
  have d: "dropWhile c_isspace (sp @ fmt_int v @ rest) = CHR ''-'' # dec_digits ?n @ rest"
    using drop_spaces [OF assms(1), of "CHR ''-'' # dec_digits ?n @ rest"] True by (simp add: fmt_int_def) (simp add: c_isspace_def in_span_def)
  have "sint (word_of_int (- int ?n) :: 32 word) = v" using True sint_in_range [OF assms(3,4)] by simp
  then show ?thesis
    unfolding scan_d_def d Let_def using True assms(3) digits_of [OF assms(2), of ?n] dec_digits_nonempty [of ?n]
    by (simp add: digits_value_digits max_def)
next
  case False
  let ?n = "nat v"
  have f: "fmt_int v = dec_digits ?n" using False by (simp add: fmt_int_def)
  have h: "c_isdigit (hd (dec_digits ?n @ rest))" "dec_digits ?n @ rest \<noteq> []" using digit_head by blast+
  have d: "dropWhile c_isspace (sp @ dec_digits ?n @ rest) = dec_digits ?n @ rest" by (rule drop_spaces [OF assms(1)]) (use digit_plain [OF h(1)] in simp)
  have "sint (word_of_int (int ?n) :: 32 word) = v" using False sint_in_range [OF assms(3,4)] by simp
  then show ?thesis
    unfolding scan_d_def f d Let_def using False assms(4) digits_of [OF assms(2), of ?n] dec_digits_nonempty [of ?n] digit_plain [OF h(1)]
    by (simp add: digits_value_digits min_def)
qed

lemma scan_u_digits:
  assumes "list_all c_isspace sp" "rest = [] \<or> \<not> c_isdigit (hd rest)" "n < 2 ^ 32"
  shows "scan_u (sp @ dec_digits n @ rest) = Some (n, rest)"
proof -
  have h: "c_isdigit (hd (dec_digits n @ rest))" "dec_digits n @ rest \<noteq> []" using digit_head by blast+
  have d: "dropWhile c_isspace (sp @ dec_digits n @ rest) = dec_digits n @ rest" by (rule drop_spaces [OF assms(1)]) (use digit_plain [OF h(1)] in simp)
  have "c_strtoul (sp @ dec_digits n @ rest) = (n, False, rest)"
    unfolding c_strtoul_def d Let_def using digits_of [OF assms(2), of n] dec_digits_nonempty [of n] digit_plain [OF h(1)] assms(3)
    by (simp add: digits_value_digits)
  then show ?thesis using assms(3) dec_digits_nonempty [of n] by (simp add: scan_u_def scan_llu_def)
qed

lemma scan_d_end: "list_all c_isspace s \<Longrightarrow> scan_d s = None"
proof -
  assume "list_all c_isspace s"
  then have d: "dropWhile c_isspace s = []" by (simp add: dropWhile_eq_Nil_conv list_all_iff)
  show ?thesis unfolding scan_d_def d by simp
qed

section \<open>Lines\<close>

lemma pad_left_blanks: "\<exists>sp. pad_left n CHR '' '' s = sp @ s \<and> list_all c_isspace sp"
  by (auto simp: pad_left_def list_all_iff blank_space(1))

lemma pad_right_blanks: "\<exists>sp. pad_right n CHR '' '' s = s @ sp \<and> list_all c_isspace sp"
  by (auto simp: pad_right_def list_all_iff blank_space(1))

text \<open>What the decoder printed for \<open>d\<close> is right: a date and a time in one word each, the numbers in range, and \<open>float\<close> and
  \<open>double\<close> read back, up to the blank behind them, as the members of \<open>r\<close>. \<open>words\<close> are those of the message.\<close>

definition printed :: "('f, 'd) print_ops \<Rightarrow> ('f, 'd) wspr_decode \<Rightarrow> ('f, 'd) decoder_results \<Rightarrow> bool" where
  "printed ops d r \<longleftrightarrow> word_text (wd_date d) \<and> length (wd_date d) \<le> 6 \<and> word_text (wd_time d) \<and> length (wd_time d) \<le> 4 \<and>
     - (2 ^ 31) \<le> wd_sync10 d \<and> wd_sync10 d < 2 ^ 31 \<and> - (2 ^ 31) \<le> wd_jitter d \<and> wd_jitter d < 2 ^ 31 \<and>
     (\<forall>rest. scan_f ops (CHR '' '' # print_f ops 3 0 (wd_snr d) @ CHR '' '' # rest) = Some (dr_snr r, CHR '' '' # rest)) \<and>
     (\<forall>rest. scan_f ops (CHR '' '' # print_f ops 4 1 (wd_dt d) @ CHR '' '' # rest) = Some (dr_dt r, CHR '' '' # rest)) \<and>
     (\<forall>rest. scan_lf ops (CHR '' '' # print_d ops 10 6 (wd_freq d) @ CHR '' '' # rest) = Some (dr_freq r, CHR '' '' # rest))"

definition line_result :: "('f, 'd) print_ops \<Rightarrow> ('f, 'd) wspr_decode \<Rightarrow> ('f, 'd) decoder_results \<Rightarrow> bool" where
  "line_result ops d r \<longleftrightarrow> printed ops d r \<and> - (2 ^ 31) \<le> wd_drift d \<and> wd_drift d < 2 ^ 31 \<and>
     word_text (dr_call r) \<and> length (dr_call r) \<le> 12 \<and> word_text (dr_loc r) \<and> length (dr_loc r) \<le> 6 \<and> word_text (dr_pwr r) \<and> length (dr_pwr r) \<le> 2 \<and>
     wd_message d = dr_call r @ '' '' @ dr_loc r @ '' '' @ dr_pwr r \<and>
     dr_message r = wd_message d \<and> dr_sync r = f_tenths ops (wd_sync10 d) \<and> dr_drift r = f_whole ops (wd_drift d) \<and>
     dr_jitter r = wd_jitter d \<and> dr_cycles r = unat (wd_cycles d) div 81"

text \<open>The part of a line before the message, and behind it.\<close>

lemma head_of_line:
  assumes "printed ops d r"
  shows "parse_result_line ops (spot_line ops d) = do {
     (call, s) \<leftarrow> scan_s 12 (''  '' @ pad_right 22 CHR '' '' (wd_message d) @ '' '' @ pad_left 2 CHR '' '' (fmt_int (wd_drift d)) @ '' '' @
        pad_left 5 CHR '' '' (dec_digits (unat (wd_cycles d) div 81)) @ '' '' @ pad_left 4 CHR '' '' (fmt_int (wd_jitter d)) @ [NEWLINE]);
     (grid, s) \<leftarrow> scan_s 6 s;
     (power, s) \<leftarrow> scan_s 2 s;
     (drift, s) \<leftarrow> scan_d s;
     (cycles, s) \<leftarrow> scan_u s;
     (jitter, s) \<leftarrow> scan_d s;
     Some \<lparr>dr_freq = dr_freq r, dr_sync = f_tenths ops (wd_sync10 d), dr_snr = dr_snr r, dr_dt = dr_dt r, dr_drift = f_whole ops drift, dr_jitter = jitter,
       dr_message = take 22 (call @ '' '' @ grid @ '' '' @ power), dr_call = call, dr_loc = grid, dr_pwr = power, dr_cycles = cycles\<rparr>}"
proof -
  let ?tail = "pad_right 22 CHR '' '' (wd_message d) @ '' '' @ pad_left 2 CHR '' '' (fmt_int (wd_drift d)) @ '' '' @
        pad_left 5 CHR '' '' (dec_digits (unat (wd_cycles d) div 81)) @ '' '' @ pad_left 4 CHR '' '' (fmt_int (wd_jitter d)) @ [NEWLINE]"
  obtain s1 where s1: "pad_left 6 CHR '' '' (wd_date d) = s1 @ wd_date d" "list_all c_isspace s1" using pad_left_blanks by blast
  obtain s2 where s2: "pad_left 4 CHR '' '' (wd_time d) = s2 @ wd_time d" "list_all c_isspace s2" using pad_left_blanks by blast
  obtain s3 where s3: "pad_left 3 CHR '' '' (fmt_int (wd_sync10 d)) = s3 @ fmt_int (wd_sync10 d)" "list_all c_isspace s3" using pad_left_blanks by blast
  let ?c3 = "CHR '' '' # print_f ops 3 0 (wd_snr d) @ CHR '' '' # print_f ops 4 1 (wd_dt d) @ CHR '' '' # print_d ops 10 6 (wd_freq d) @ CHR '' '' # CHR '' '' # ?tail"
  let ?c2 = "(CHR '' '' # s3) @ fmt_int (wd_sync10 d) @ ?c3"
  let ?c1 = "(CHR '' '' # s2) @ wd_time d @ ?c2"
  have line: "spot_line ops d = s1 @ wd_date d @ ?c1" unfolding spot_line_def s1(1) s2(1) s3(1) by simp
  have p: "word_text (wd_date d)" "length (wd_date d) \<le> 6" "word_text (wd_time d)" "length (wd_time d) \<le> 4" "- (2 ^ 31) \<le> wd_sync10 d" "wd_sync10 d < 2 ^ 31"
    "\<And>rest. scan_f ops (CHR '' '' # print_f ops 3 0 (wd_snr d) @ CHR '' '' # rest) = Some (dr_snr r, CHR '' '' # rest)"
    "\<And>rest. scan_f ops (CHR '' '' # print_f ops 4 1 (wd_dt d) @ CHR '' '' # rest) = Some (dr_dt r, CHR '' '' # rest)"
    "\<And>rest. scan_lf ops (CHR '' '' # print_d ops 10 6 (wd_freq d) @ CHR '' '' # rest) = Some (dr_freq r, CHR '' '' # rest)"
    using assms unfolding printed_def by blast+
  have sp: "ends_word (CHR '' '' # x)" "list_all c_isspace s \<Longrightarrow> list_all c_isspace (CHR '' '' # s)" "\<not> c_isdigit (CHR '' '')" for x s
    using blank_space(1) by (simp_all add: ends_word_def) code_simp
  have "scan_s 6 (spot_line ops d) = Some (wd_date d, ?c1)" unfolding line by (rule scan_s_word [OF p(1,2) s1(2)]) (simp add: sp(1))
  moreover have "scan_s 4 ?c1 = Some (wd_time d, ?c2)" by (rule scan_s_word [OF p(3,4) sp(2) [OF s2(2)]]) (simp add: sp(1))
  moreover have "scan_d ?c2 = Some (wd_sync10 d, ?c3)" by (rule scan_d_int [OF sp(2) [OF s3(2)] _ p(5,6)]) (simp add: sp(3))
  ultimately show ?thesis unfolding parse_result_line_def by (simp only: Option.bind.simps prod.case p(7-9) append.simps)
qed


text \<open>What follows the words of the message: drift, cycles and jitter.\<close>

lemma tail_of_line:
  obtains s4 s5 s6 where "list_all c_isspace s4" "list_all c_isspace s5" "list_all c_isspace s6"
    "''  '' @ pad_right 22 CHR '' '' m @ '' '' @ pad_left 2 CHR '' '' (fmt_int (wd_drift d)) @ '' '' @
        pad_left 5 CHR '' '' (dec_digits (unat (wd_cycles d) div 81)) @ '' '' @ pad_left 4 CHR '' '' (fmt_int (wd_jitter d)) @ [NEWLINE] =
     ''  '' @ m @ (CHR '' '' # s4) @ fmt_int (wd_drift d) @ (CHR '' '' # s5) @ dec_digits (unat (wd_cycles d) div 81) @ (CHR '' '' # s6) @ fmt_int (wd_jitter d) @ [NEWLINE]"
proof -
  obtain s0 where s0: "pad_right 22 CHR '' '' m = m @ s0" "list_all c_isspace s0" using pad_right_blanks by blast
  obtain s4 where s4: "pad_left 2 CHR '' '' (fmt_int (wd_drift d)) = s4 @ fmt_int (wd_drift d)" "list_all c_isspace s4" using pad_left_blanks by blast
  obtain s5 where s5: "pad_left 5 CHR '' '' (dec_digits (unat (wd_cycles d) div 81)) = s5 @ dec_digits (unat (wd_cycles d) div 81)" "list_all c_isspace s5" using pad_left_blanks by blast
  obtain s6 where s6: "pad_left 4 CHR '' '' (fmt_int (wd_jitter d)) = s6 @ fmt_int (wd_jitter d)" "list_all c_isspace s6" using pad_left_blanks by blast
  have e: "s0 @ CHR '' '' # s4 = CHR '' '' # s0 @ s4"
  proof -
    have "s0 = replicate (length s0) CHR '' ''" using s0(1) by (auto simp: pad_right_def)
    then show ?thesis by (metis append_Cons append_assoc append_replicate_commute append_self_conv2 replicate_append_same)
  qed
  show thesis
  proof (rule that [of "s0 @ s4" s5 s6])
    show "list_all c_isspace (s0 @ s4)" using s0(2) s4(2) by simp
    show "''  '' @ pad_right 22 CHR '' '' m @ '' '' @ pad_left 2 CHR '' '' (fmt_int (wd_drift d)) @ '' '' @
        pad_left 5 CHR '' '' (dec_digits (unat (wd_cycles d) div 81)) @ '' '' @ pad_left 4 CHR '' '' (fmt_int (wd_jitter d)) @ [NEWLINE] =
     ''  '' @ m @ (CHR '' '' # s0 @ s4) @ fmt_int (wd_drift d) @ (CHR '' '' # s5) @ dec_digits (unat (wd_cycles d) div 81) @ (CHR '' '' # s6) @ fmt_int (wd_jitter d) @ [NEWLINE]"
      unfolding s0(1) s4(1) s5(1) s6(1) e [symmetric] by simp
  qed (fact s5(2) s6(2))+
qed

lemma blanks_more: "list_all c_isspace s \<Longrightarrow> list_all c_isspace (CHR '' '' # s)" "ends_word ((CHR '' '' # s) @ x)" "ends_word (CHR '' '' # x)"
  "(CHR '' '' # s) @ x = [] \<or> \<not> c_isdigit (hd ((CHR '' '' # s) @ x))"
  using blank_space(1) by (simp_all add: ends_word_def) code_simp

lemma newline_ends: "[NEWLINE] = [] \<or> \<not> c_isdigit (hd [NEWLINE])"
  by code_simp

lemma cycles_small: "unat (c :: u32) div 81 < 2 ^ 31"
  using unsigned_less [of c, where 'a = nat] by simp

lemma line_read: "line_result ops d r \<Longrightarrow> parse_result_line ops (spot_line ops d) = Some r"
proof -
  assume a: "line_result ops d r"
  then have p: "printed ops d r" "- (2 ^ 31) \<le> wd_drift d" "wd_drift d < 2 ^ 31" "word_text (dr_call r)" "length (dr_call r) \<le> 12" "word_text (dr_loc r)" "length (dr_loc r) \<le> 6"
    "word_text (dr_pwr r)" "length (dr_pwr r) \<le> 2" "wd_message d = dr_call r @ '' '' @ dr_loc r @ '' '' @ dr_pwr r"
    "dr_message r = wd_message d" "dr_sync r = f_tenths ops (wd_sync10 d)" "dr_drift r = f_whole ops (wd_drift d)" "dr_jitter r = wd_jitter d" "dr_cycles r = unat (wd_cycles d) div 81"
    unfolding line_result_def by blast+
  have j: "- (2 ^ 31) \<le> wd_jitter d" "wd_jitter d < 2 ^ 31" using p(1) unfolding printed_def by blast+
  obtain s4 s5 s6 where s: "list_all c_isspace s4" "list_all c_isspace s5" "list_all c_isspace s6"
    "''  '' @ pad_right 22 CHR '' '' (wd_message d) @ '' '' @ pad_left 2 CHR '' '' (fmt_int (wd_drift d)) @ '' '' @
        pad_left 5 CHR '' '' (dec_digits (unat (wd_cycles d) div 81)) @ '' '' @ pad_left 4 CHR '' '' (fmt_int (wd_jitter d)) @ [NEWLINE] =
     ''  '' @ wd_message d @ (CHR '' '' # s4) @ fmt_int (wd_drift d) @ (CHR '' '' # s5) @ dec_digits (unat (wd_cycles d) div 81) @ (CHR '' '' # s6) @ fmt_int (wd_jitter d) @ [NEWLINE]"
    using tail_of_line by blast
  let ?z = "(CHR '' '' # s6) @ fmt_int (wd_jitter d) @ [NEWLINE]"
  let ?y = "(CHR '' '' # s5) @ dec_digits (unat (wd_cycles d) div 81) @ ?z"
  let ?x = "(CHR '' '' # s4) @ fmt_int (wd_drift d) @ ?y"
  have m: "''  '' @ wd_message d @ ?x = ''  '' @ dr_call r @ ('' '' @ dr_loc r @ ('' '' @ dr_pwr r @ ?x))" unfolding p(10) by simp
  have b: "list_all c_isspace ''  ''" "list_all c_isspace '' ''" using blank_space(1) by simp_all
  have "scan_s 12 (''  '' @ wd_message d @ ?x) = Some (dr_call r, '' '' @ dr_loc r @ ('' '' @ dr_pwr r @ ?x))"
    unfolding m by (rule scan_s_word [OF p(4,5) b(1)]) (simp add: blanks_more(3))
  moreover have "scan_s 6 ('' '' @ dr_loc r @ ('' '' @ dr_pwr r @ ?x)) = Some (dr_loc r, '' '' @ dr_pwr r @ ?x)"
    by (rule scan_s_word [OF p(6,7) b(2)]) (simp add: blanks_more(3))
  moreover have "scan_s 2 ('' '' @ dr_pwr r @ ?x) = Some (dr_pwr r, ?x)" by (rule scan_s_word [OF p(8,9) b(2) blanks_more(2)])
  moreover have "scan_d ?x = Some (wd_drift d, ?y)" by (rule scan_d_int [OF blanks_more(1) [OF s(1)] blanks_more(4) p(2,3)])
  moreover have "scan_u ?y = Some (unat (wd_cycles d) div 81, ?z)"
    by (rule scan_u_digits [OF blanks_more(1) [OF s(2)] blanks_more(4)]) (use cycles_small [of "wd_cycles d"] in simp)
  moreover have "scan_d ?z = Some (wd_jitter d, [NEWLINE])" by (rule scan_d_int [OF blanks_more(1) [OF s(3)] newline_ends j])
  moreover have "take 22 (dr_call r @ '' '' @ dr_loc r @ '' '' @ dr_pwr r) = dr_message r" using p(5,7,9) unfolding p(11) p(10) by simp
  ultimately show ?thesis unfolding head_of_line [OF p(1)] s(4) using p(12-15) by (cases r) (simp only: Option.bind.simps prod.case decoder_results.simps)
qed

text \<open>A message with a compound callsign has two words: the drift is read as the power, the cycles as the drift, the jitter as the
  cycles, and nothing is left for the jitter.\<close>

lemma fmt_int_word: "word_text (fmt_int v)"
proof -
  have "list_all (\<lambda>c. \<not> c_isspace c) (dec_digits n)" for n using dec_digits_digits [of n] digit_plain by (auto simp: list_all_iff)
  moreover have "\<not> c_isspace CHR ''-''" by code_simp
  ultimately show ?thesis using dec_digits_nonempty by (simp add: word_text_def fmt_int_def)
qed

lemma scan_u_int: "list_all c_isspace sp \<Longrightarrow> rest = [] \<or> \<not> c_isdigit (hd rest) \<Longrightarrow> \<exists>u. scan_u (sp @ fmt_int v @ rest) = Some (u, rest)"
proof (cases "v < 0")
  case True
  assume a: "list_all c_isspace sp" "rest = [] \<or> \<not> c_isdigit (hd rest)"
  let ?n = "nat (- v)"
  have d: "dropWhile c_isspace (sp @ fmt_int v @ rest) = CHR ''-'' # dec_digits ?n @ rest"
    using drop_spaces [OF a(1), of "CHR ''-'' # dec_digits ?n @ rest"] True by (simp add: fmt_int_def) (simp add: c_isspace_def in_span_def)
  have "\<exists>u b. c_strtoul (sp @ fmt_int v @ rest) = (u, b, rest)"
    unfolding c_strtoul_def d Let_def using digits_of [OF a(2), of ?n] dec_digits_nonempty [of ?n] by (simp add: ex_bool_eq)
  then show ?thesis using True by (auto simp: scan_u_def scan_llu_def fmt_int_def)
next
  case False
  assume a: "list_all c_isspace sp" "rest = [] \<or> \<not> c_isdigit (hd rest)"
  let ?n = "nat v"
  have h: "c_isdigit (hd (dec_digits ?n @ rest))" "dec_digits ?n @ rest \<noteq> []" using digit_head by blast+
  have d: "dropWhile c_isspace (sp @ dec_digits ?n @ rest) = dec_digits ?n @ rest" by (rule drop_spaces [OF a(1)]) (use digit_plain [OF h(1)] in simp)
  have "\<exists>u b. c_strtoul (sp @ dec_digits ?n @ rest) = (u, b, rest)"
    unfolding c_strtoul_def d Let_def using digits_of [OF a(2), of ?n] dec_digits_nonempty [of ?n] digit_plain [OF h(1)] by (simp add: ex_bool_eq)
  then show ?thesis using False dec_digits_nonempty [of ?n] by (auto simp: scan_u_def scan_llu_def fmt_int_def)
qed

definition compound_line :: "('f, 'd) print_ops \<Rightarrow> ('f, 'd) wspr_decode \<Rightarrow> bool" where
  "compound_line ops d \<longleftrightarrow> (\<exists>r. printed ops d r) \<and> length (fmt_int (wd_drift d)) \<le> 2 \<and>
     (\<exists>call power. word_text call \<and> length call \<le> 12 \<and> word_text power \<and> length power \<le> 2 \<and> wd_message d = call @ '' '' @ power)"

lemma compound_unread: "compound_line ops d \<Longrightarrow> parse_result_line ops (spot_line ops d) = None"
proof -
  assume a: "compound_line ops d"
  then obtain r call power where p: "printed ops d r" "length (fmt_int (wd_drift d)) \<le> 2" "word_text call" "length call \<le> 12" "word_text power" "length power \<le> 2"
    "wd_message d = call @ '' '' @ power" unfolding compound_line_def by blast
  have j: "- (2 ^ 31) \<le> wd_jitter d" "wd_jitter d < 2 ^ 31" using p(1) unfolding printed_def by blast+
  obtain s4 s5 s6 where s: "list_all c_isspace s4" "list_all c_isspace s5" "list_all c_isspace s6"
    "''  '' @ pad_right 22 CHR '' '' (wd_message d) @ '' '' @ pad_left 2 CHR '' '' (fmt_int (wd_drift d)) @ '' '' @
        pad_left 5 CHR '' '' (dec_digits (unat (wd_cycles d) div 81)) @ '' '' @ pad_left 4 CHR '' '' (fmt_int (wd_jitter d)) @ [NEWLINE] =
     ''  '' @ wd_message d @ (CHR '' '' # s4) @ fmt_int (wd_drift d) @ (CHR '' '' # s5) @ dec_digits (unat (wd_cycles d) div 81) @ (CHR '' '' # s6) @ fmt_int (wd_jitter d) @ [NEWLINE]"
    using tail_of_line by blast
  let ?n = "unat (wd_cycles d) div 81"
  let ?z = "(CHR '' '' # s6) @ fmt_int (wd_jitter d) @ [NEWLINE]"
  let ?y = "(CHR '' '' # s5) @ dec_digits ?n @ ?z"
  let ?x = "(CHR '' '' # s4) @ fmt_int (wd_drift d) @ ?y"
  have m: "''  '' @ wd_message d @ ?x = ''  '' @ call @ ('' '' @ power @ ?x)" unfolding p(7) by simp
  have b: "list_all c_isspace ''  ''" "list_all c_isspace '' ''" using blank_space(1) by simp_all
  have f: "fmt_int (int ?n) = dec_digits ?n" by (simp add: fmt_int_def)
  have l: "- (2 ^ 31) \<le> int ?n" "int ?n < 2 ^ 31" using cycles_small [of "wd_cycles d"] by simp_all
  obtain u where u: "scan_u ?z = Some (u, [NEWLINE])" using scan_u_int [OF blanks_more(1) [OF s(3)] newline_ends] by blast
  have "scan_s 12 (''  '' @ wd_message d @ ?x) = Some (call, '' '' @ power @ ?x)" unfolding m by (rule scan_s_word [OF p(3,4) b(1)]) (simp add: blanks_more(3))
  moreover have "scan_s 6 ('' '' @ power @ ?x) = Some (power, ?x)" by (rule scan_s_word [OF p(5) _ b(2) blanks_more(2)]) (use p(6) in simp)
  moreover have "scan_s 2 ?x = Some (fmt_int (wd_drift d), ?y)" by (rule scan_s_word [OF fmt_int_word p(2) blanks_more(1) [OF s(1)] blanks_more(2)])
  moreover have "scan_d ?y = Some (int ?n, ?z)" using scan_d_int [OF blanks_more(1) [OF s(2)] blanks_more(4) l, of s6] unfolding f by blast
  moreover have "scan_d [NEWLINE] = None" by (rule scan_d_end) (simp add: blank_space(2))
  ultimately show ?thesis unfolding head_of_line [OF p(1)] s(4) by (simp only: u Option.bind.simps prod.case)
qed


section \<open>The file of the results\<close>

text \<open>The line fits the buffer of \<open>fgets\<close> and is one line.\<close>

definition one_line :: "string \<Rightarrow> bool" where
  "one_line line \<longleftrightarrow> length line < 256 \<and> line \<noteq> [] \<and> last line = NEWLINE \<and> NEWLINE \<notin> set (butlast line)"

lemma fgets_one: "one_line line \<Longrightarrow> fgets_line 256 (line @ rest) = line"
proof -
  assume a: "one_line line"
  then have e: "line = butlast line @ [NEWLINE]" by (metis append_butlast_last_id one_line_def)
  have l: "length (butlast line) < 255" using a by (auto simp: one_line_def)
  have "take 255 (line @ rest) = line @ take (255 - length line) rest" using a by (simp add: one_line_def)
  moreover have "takeWhile (\<lambda>c. c \<noteq> NEWLINE) (line @ x) = butlast line" for x
  proof -
    have "\<forall>c \<in> set (butlast line). c \<noteq> NEWLINE" using a by (auto simp: one_line_def)
    then have "takeWhile (\<lambda>c. c \<noteq> NEWLINE) ((butlast line @ [NEWLINE]) @ x) = butlast line" by (simp add: takeWhile_append2)
    then show ?thesis using e by simp
  qed
  moreover have "length (butlast line) + 1 = length line" using a by (simp add: one_line_def)
  ultimately show ?thesis by (simp add: fgets_line_def)
qed

lemma parse_lines_read:
  "list_all2 (\<lambda>d r. line_result ops d r \<and> one_line (spot_line ops d)) ds rs \<Longrightarrow>
     parse_lines ops (length ds + n) (concat (map (spot_line ops) ds) @ rest) results = parse_lines ops n rest (results @ rs)"
proof (induction ds rs arbitrary: results rule: list_all2_induct)
  case (Cons d ds r rs)
  then have l: "line_result ops d r" "one_line (spot_line ops d)" by auto
  have "spot_line ops d \<noteq> []" using l(2) by (simp add: one_line_def)
  then show ?case using Cons fgets_one [OF l(2)] line_read [OF l(1)] by (simp add: Let_def)
qed simp

lemma parse_lines_end: "parse_lines ops n [] results = Some results"
  by (cases n) simp_all

text \<open>
  C39: what the decoder printed is what the receiver reads: of lines whose messages have a callsign, a locator and a power, all members of
  all results, in order, as many as there is room for.
\<close>

theorem results_read_back:
  assumes "list_all2 (\<lambda>d r. line_result ops d r \<and> one_line (spot_line ops d)) ds rs"
  shows "parse_results ops result_capacity (Some (concat (map (spot_line ops) ds))) = Some (take result_capacity rs)"
proof (cases "length ds \<le> result_capacity")
  case True
  then obtain n where n: "result_capacity = length ds + n" by (metis le_iff_add)
  have "length rs = length ds" using assms by (simp add: list_all2_lengthD)
  then show ?thesis using parse_lines_read [OF assms, of n "[]" "[]"] n by (simp add: parse_results_def parse_lines_end)
next
  case False
  let ?n = "result_capacity"
  have t: "list_all2 (\<lambda>d r. line_result ops d r \<and> one_line (spot_line ops d)) (take ?n ds) (take ?n rs)" using assms by (rule list_all2_takeI)
  have "concat (map (spot_line ops) ds) = concat (map (spot_line ops) (take ?n ds)) @ concat (map (spot_line ops) (drop ?n ds))"
    by (metis append_take_drop_id concat_append map_append)
  then show ?thesis using parse_lines_read [OF t, of 0 "concat (map (spot_line ops) (drop ?n ds))" "[]"] False by (simp add: parse_results_def)
qed

text \<open>
  C38: one compound callsign loses the frame. A type 2 message has a callsign and a power but no locator; when a line with one is among those
  there is room for, \<open>parse_results\<close> fails, and with it \<open>decode_wspr_frame\<close>: all results of the frame are lost, those
  before it too.
\<close>

theorem compound_callsign_loses_frame:
  assumes "list_all2 (\<lambda>d r. line_result ops d r \<and> one_line (spot_line ops d)) before rs" and "compound_line ops d" and "one_line (spot_line ops d)"
    and "length before < result_capacity"
  shows "parse_results ops result_capacity (Some (concat (map (spot_line ops) (before @ d # rest)))) = None"
proof -
  obtain n where n: "result_capacity = length before + Suc n" using assms(4) by (metis add_Suc_right less_iff_Suc_add)
  have "spot_line ops d \<noteq> []" using assms(3) by (simp add: one_line_def)
  then have u: "parse_lines ops (Suc n) (spot_line ops d @ x) results = None" for x results
    using fgets_one [OF assms(3)] compound_unread [OF assms(2)] by (simp add: Let_def)
  have "parse_lines ops result_capacity (concat (map (spot_line ops) before) @ concat (map (spot_line ops) (d # rest))) [] = None"
    unfolding n parse_lines_read [OF assms(1)] using u by (simp only: list.map concat.simps)
  then show ?thesis by (simp only: parse_results_def option.case map_append concat_append)
qed

section \<open>Example\<close>

text \<open>Numbers without a fraction.\<close>

definition whole_print :: "(int, int) print_ops" where
  "whole_print = \<lparr>print_f = (\<lambda>w p x. pad_left w CHR '' '' (fmt_int x)), print_d = (\<lambda>w p x. pad_left w CHR '' '' (fmt_int x)),
     scan_f = scan_d, scan_lf = scan_d, f_tenths = (\<lambda>x. x), f_whole = (\<lambda>x. x)\<rparr>"

definition demo_decode :: "string \<Rightarrow> (int, int) wspr_decode" where
  "demo_decode message = \<lparr>wd_date = ''261119'', wd_time = ''0950'', wd_sync10 = 5, wd_snr = -21, wd_dt = 1, wd_freq = 14, wd_message = message,
     wd_drift = 0, wd_cycles = 81, wd_jitter = -8\<rparr>"

definition demo_result :: "(int, int) decoder_results" where
  "demo_result = \<lparr>dr_freq = 14, dr_sync = 5, dr_snr = -21, dr_dt = 1, dr_drift = 0, dr_jitter = -8, dr_message = ''K1ABC FN42 37'', dr_call = ''K1ABC'',
     dr_loc = ''FN42'', dr_pwr = ''37'', dr_cycles = 1\<rparr>"

lemma whole_back: "- (2 ^ 31) \<le> x \<Longrightarrow> x < 2 ^ 31 \<Longrightarrow> scan_d (CHR '' '' # pad_left w CHR '' '' (fmt_int x) @ CHR '' '' # rest) = Some (x, CHR '' '' # rest)"
proof -
  assume x: "- (2 ^ 31) \<le> x" "x < 2 ^ 31"
  obtain s where s: "pad_left w CHR '' '' (fmt_int x) = s @ fmt_int x" "list_all c_isspace s" using pad_left_blanks by blast
  show ?thesis using scan_d_int [OF blanks_more(1) [OF s(2)] blanks_more(4) x, of "[]" rest] s(1) by simp
qed

lemma demo_words: "word_text ''261119''" "word_text ''0950''" "word_text ''K1ABC''" "word_text ''FN42''" "word_text ''37''" "word_text ''PJ4/K1ABC''"
  by code_simp+

lemma demo_printed: "printed whole_print (demo_decode message) demo_result"
  using whole_back [of "-21" 3] whole_back [of 1 4] whole_back [of 14 10] demo_words
  unfolding printed_def by (simp add: whole_print_def demo_decode_def demo_result_def)

lemma demo_line_result: "line_result whole_print (demo_decode ''K1ABC FN42 37'') demo_result"
  unfolding line_result_def using demo_printed demo_words by (simp add: demo_decode_def demo_result_def) (simp add: whole_print_def)

theorem results_read_back_witness:
  "parse_results whole_print 50 (Some (spot_line whole_print (demo_decode ''K1ABC FN42 37''))) = Some [demo_result]"
proof -
  note demo_line_result
  moreover have "one_line (spot_line whole_print (demo_decode ''K1ABC FN42 37''))" by code_simp
  ultimately show ?thesis using results_read_back [of whole_print "[demo_decode ''K1ABC FN42 37'']" "[demo_result]" 50] by simp
qed

theorem compound_callsign_loses_frame_witness:
  "parse_results whole_print 50 (Some (concat (map (spot_line whole_print) [demo_decode ''K1ABC FN42 37'', demo_decode ''PJ4/K1ABC 37'']))) = None"
proof -
  note demo_line_result
  moreover have "one_line (spot_line whole_print (demo_decode ''K1ABC FN42 37''))" "one_line (spot_line whole_print (demo_decode ''PJ4/K1ABC 37''))" by code_simp+
  moreover have "compound_line whole_print (demo_decode ''PJ4/K1ABC 37'')"
    unfolding compound_line_def
  proof (intro conjI exI)
    show "printed whole_print (demo_decode ''PJ4/K1ABC 37'') demo_result" by (rule demo_printed)
    show "word_text ''PJ4/K1ABC''" "word_text ''37''" "length ''PJ4/K1ABC'' \<le> 12" "length ''37'' \<le> 2" using demo_words by simp_all
    show "length (fmt_int (wd_drift (demo_decode ''PJ4/K1ABC 37''))) \<le> 2" by code_simp
    show "wd_message (demo_decode ''PJ4/K1ABC 37'') = ''PJ4/K1ABC'' @ '' '' @ ''37''" by (simp add: demo_decode_def)
  qed
  ultimately show ?thesis
    using compound_callsign_loses_frame [of whole_print "[demo_decode ''K1ABC FN42 37'']" "[demo_result]" "demo_decode ''PJ4/K1ABC 37''" 50 "[]"] by simp
qed

theorem c2_samples_arrive_witness:
  "readc2file uminus 0 (Some (write_c2 uminus 0 ''/tmp/x/261119_0950.c2'' [1, 2] [3, 4] 2 (14 :: int))) (replicate 65536 0) (replicate 65536 0) =
    (45000, [1, 2] @ replicate 44998 0 @ replicate 20536 0, [3, 4] @ replicate 44998 0 @ replicate 20536 (0 :: int), Some (14, 2))"
  using c2_samples_arrive [of "uminus :: int \<Rightarrow> int" 2 "[1, 2]" "[3, 4]" "replicate 65536 0" "replicate 65536 0" 0 "''/tmp/x/261119_0950.c2''" "14 :: int"]
  by simp

end
