(* ===== verification/Spec2Isabelle.thy ===== *)
theory Spec2Isabelle
  imports SampleQueue Station Bands Nhash WsprLink FtxText FtxSearch CallsignTable Reporter PskReporter Receiver BandAdvisor WsprReception WsprSync WsprSubtract DecoderBridge
begin

text \<open>Root theory.\<close>

end
